(* ===== verification/Prelude.thy ===== *)
theory Prelude
  imports Main "HOL-Library.AList" "HOL-Library.Multiset"
begin

text \<open>
  Shared ground of the development: the exceptions the Python sources raise and the result
  type that carries them, the operations of Python's own values the sources use (integer
  division, ordered dictionaries, list indexing), and the lemmas on lists that several
  components need.

  A function that may raise returns \<open>'a res\<close>: \<open>Inl e\<close> when the exception \<open>e\<close>
  leaves it, \<open>Inr x\<close> when it returns \<open>x\<close>. A Python integer is an \<open>int\<close>, a
  dictionary is an association list in insertion order, which \<open>AList.update\<close> keeps as
  Python does: a new key goes to the end and an old key keeps its place.
\<close>

section \<open>Exceptions and results\<close>

datatype py_error =
    AssertionError
  | ValueError
  | IndexError
  | KeyError
  | TypeError
  | RuntimeError
  | AttributeError
  | StopIteration
  | NameError
  | ZeroDivisionError
  | DGLError

type_synonym 'a res = "py_error + 'a"

named_theorems res_simps \<open>unfolding of the result combinators\<close>

definition rbind :: "'a res \<Rightarrow> ('a \<Rightarrow> 'b res) \<Rightarrow> 'b res" where
  "rbind r f = (case r of Inl e \<Rightarrow> Inl e | Inr x \<Rightarrow> f x)"

definition rassert :: "bool \<Rightarrow> py_error \<Rightarrow> unit res" where
  "rassert b e = (if b then Inr () else Inl e)"

fun rmap :: "('a \<Rightarrow> 'b res) \<Rightarrow> 'a list \<Rightarrow> 'b list res" where
  "rmap f [] = Inr []"
| "rmap f (x # xs) = rbind (f x) (\<lambda>y. rbind (rmap f xs) (\<lambda>ys. Inr (y # ys)))"

fun rfold :: "('s \<Rightarrow> 'a \<Rightarrow> 's res) \<Rightarrow> 's \<Rightarrow> 'a list \<Rightarrow> 's res" where
  "rfold f s [] = Inr s"
| "rfold f s (x # xs) = rbind (f s x) (\<lambda>s'. rfold f s' xs)"

lemma rbind_simps [simp, res_simps]:
  "rbind (Inl e) f = Inl e"
  "rbind (Inr x) f = f x"
  by (simp_all add: rbind_def)

lemma rbind_eq_Inr [res_simps]:
  "(rbind r f = Inr y) = (\<exists>x. r = Inr x \<and> f x = Inr y)"
  by (cases r) (auto simp: rbind_def)

lemma rbind_eq_Inl [res_simps]:
  "(rbind r f = Inl e) = (r = Inl e \<or> (\<exists>x. r = Inr x \<and> f x = Inl e))"
  by (cases r) (auto simp: rbind_def)

lemma rbind_assoc: "rbind (rbind r f) g = rbind r (\<lambda>x. rbind (f x) g)"
  by (cases r) simp_all

lemma rbind_cong [fundef_cong]:
  "r = r' \<Longrightarrow> (\<And>x. r' = Inr x \<Longrightarrow> f x = f' x) \<Longrightarrow> rbind r f = rbind r' f'"
  by (cases r') simp_all

lemma rassert_simps [simp, res_simps]:
  "rassert True e = Inr ()"
  "rassert False e = Inl e"
  "(rassert b e = Inr u) = b"
  "(rassert b e = Inl e') = (\<not> b \<and> e = e')"
  by (auto simp: rassert_def)

lemma rmap_total: "(\<And>x. x \<in> set xs \<Longrightarrow> f x = Inr (g x)) \<Longrightarrow> rmap f xs = Inr (map g xs)"
  by (induction xs) auto

lemma rmap_Inr_conv:
  "(rmap f xs = Inr ys) = (list_all2 (\<lambda>x y. f x = Inr y) xs ys)"
  by (induction xs arbitrary: ys) (auto simp: res_simps list_all2_Cons1)

lemma rmap_length: "rmap f xs = Inr ys \<Longrightarrow> length ys = length xs"
  by (auto simp: rmap_Inr_conv dest: list_all2_lengthD)

lemma rmap_append:
  "rmap f (xs @ ys) = rbind (rmap f xs) (\<lambda>as. rbind (rmap f ys) (\<lambda>bs. Inr (as @ bs)))"
  by (induction xs) (auto simp: rbind_assoc rbind_def split: sum.splits)

lemma rfold_append:
  "rfold f s (xs @ ys) = rbind (rfold f s xs) (\<lambda>s'. rfold f s' ys)"
  by (induction xs arbitrary: s) (auto simp: rbind_assoc)

lemma rfold_Cons_Inr:
  "(rfold f s (x # xs) = Inr s') = (\<exists>t. f s x = Inr t \<and> rfold f t xs = Inr s')"
  by (simp add: rbind_eq_Inr)

lemma rfold_invariant:
  assumes "P s" and "rfold f s xs = Inr s'"
    and step: "\<And>s x s'. P s \<Longrightarrow> x \<in> set xs \<Longrightarrow> f s x = Inr s' \<Longrightarrow> P s'"
  shows "P s'"
proof -
  have "set ys \<subseteq> set xs \<Longrightarrow> P t \<Longrightarrow> rfold f t ys = Inr s' \<Longrightarrow> P s'" for ys t
  proof (induction ys arbitrary: t)
    case Nil
    then show ?case by simp
  next
    case (Cons y ys)
    from Cons.prems(3) obtain u where u: "f t y = Inr u" "rfold f u ys = Inr s'"
      unfolding rfold_Cons_Inr by blast
    have "P u" using step [OF Cons.prems(2) _ u(1)] Cons.prems(1) by simp
    with Cons.IH [OF _ _ u(2)] Cons.prems(1) show ?case by simp
  qed
  with assms(1,2) show ?thesis by blast
qed

section \<open>Python values\<close>

definition py_divmod :: "int \<Rightarrow> int \<Rightarrow> (int \<times> int) res" where
  "py_divmod a b = (if b = 0 then Inl ZeroDivisionError else Inr (a div b, a mod b))"

definition py_floordiv :: "int \<Rightarrow> int \<Rightarrow> int res" where
  "py_floordiv a b = (if b = 0 then Inl ZeroDivisionError else Inr (a div b))"

lemma py_divmod_pos [simp]: "0 < b \<Longrightarrow> py_divmod a b = Inr (a div b, a mod b)"
  by (simp add: py_divmod_def)

lemma py_floordiv_pos [simp]: "0 < b \<Longrightarrow> py_floordiv a b = Inr (a div b)"
  by (simp add: py_floordiv_def)

text \<open>Indexing of a list or of the first axis of an array: a negative index counts from the
  end and an index outside the range raises.\<close>

definition py_index :: "'a list \<Rightarrow> int \<Rightarrow> 'a res" where
  "py_index xs i =
     (let j = (if i < 0 then i + int (length xs) else i)
      in if 0 \<le> j \<and> j < int (length xs) then Inr (xs ! nat j) else Inl IndexError)"

definition py_set_index :: "'a list \<Rightarrow> int \<Rightarrow> 'a \<Rightarrow> 'a list res" where
  "py_set_index xs i v =
     (let j = (if i < 0 then i + int (length xs) else i)
      in if 0 \<le> j \<and> j < int (length xs) then Inr (xs[nat j := v]) else Inl IndexError)"

lemma py_index_nth [simp]:
  "0 \<le> i \<Longrightarrow> i < int (length xs) \<Longrightarrow> py_index xs i = Inr (xs ! nat i)"
  by (simp add: py_index_def Let_def)

lemma py_index_of_nat [simp]: "i < length xs \<Longrightarrow> py_index xs (int i) = Inr (xs ! i)"
  by (simp add: py_index_def Let_def)

lemma py_index_last: "xs \<noteq> [] \<Longrightarrow> py_index xs (- 1) = Inr (last xs)"
proof -
  assume "xs \<noteq> []"
  then have "0 < length xs" by simp
  then have "0 \<le> - 1 + int (length xs)" by linarith
  moreover have "nat (- 1 + int (length xs)) = length xs - 1" by linarith
  ultimately show ?thesis using \<open>xs \<noteq> []\<close>
    by (simp add: py_index_def Let_def last_conv_nth)
qed

lemma py_index_out: "int (length xs) \<le> i \<Longrightarrow> py_index xs i = Inl IndexError"
  by (simp add: py_index_def Let_def)

text \<open>Filling the places of a list by a loop over pairs of a value and a place.\<close>

lemma place_fold:
  assumes "\<forall>(k, i) \<in> set xs. 0 \<le> i \<and> nat i < length l \<and> f k = g (nat i)"
  shows "rfold (\<lambda>l (k, i). py_set_index l i (Some (f k))) l xs =
    Inr (map (\<lambda>j. if int j \<in> snd ` set xs then Some (g j) else l ! j) [0..<length l])"
  using assms
proof (induction xs arbitrary: l)
  case Nil
  then show ?case by (simp add: map_nth)
next
  case (Cons x xs)
  obtain k i where x: "x = (k, i)" by (cases x)
  have i: "0 \<le> i" "nat i < length l" "f k = g (nat i)" using Cons.prems x by auto
  let ?l = "l[nat i := Some (f k)]"
  have "py_set_index l i (Some (f k)) = Inr ?l" using i by (simp add: py_set_index_def Let_def)
  moreover have "rfold (\<lambda>l (k, i). py_set_index l i (Some (f k))) ?l xs =
    Inr (map (\<lambda>j. if int j \<in> snd ` set xs then Some (g j) else ?l ! j) [0..<length ?l])"
    using Cons.prems by (intro Cons.IH) auto
  moreover have "map (\<lambda>j. if int j \<in> snd ` set xs then Some (g j) else ?l ! j) [0..<length ?l] =
      map (\<lambda>j. if int j \<in> snd ` set (x # xs) then Some (g j) else l ! j) [0..<length l]"
    using i x by (auto simp: nth_list_update)
  ultimately show ?case by (simp add: x)
qed

lemma rfold_map: "rfold f s (map g xs) = rfold (\<lambda>s x. f s (g x)) s xs"
  by (induction xs arbitrary: s) simp_all

text \<open>A slice \<open>xs[start:stop]\<close> with step one, the bounds clipped as Python does.\<close>

definition slice_bound :: "nat \<Rightarrow> int \<Rightarrow> nat" where
  "slice_bound n i = (if i < 0 then nat (max 0 (i + int n)) else min n (nat i))"

definition py_slice :: "'a list \<Rightarrow> int \<Rightarrow> int \<Rightarrow> 'a list" where
  "py_slice xs start stop =
     (let a = slice_bound (length xs) start; b = slice_bound (length xs) stop
      in take (b - a) (drop a xs))"

lemma slice_bound_le: "slice_bound n i \<le> n"
  by (auto simp: slice_bound_def)

lemma slice_bound_pos: "0 \<le> i \<Longrightarrow> slice_bound n i = min n (nat i)"
  by (simp add: slice_bound_def)

lemma py_slice_nonneg:
  "0 \<le> a \<Longrightarrow> 0 \<le> b \<Longrightarrow> py_slice xs a b = take (nat b - nat a) (drop (nat a) xs)"
  by (auto simp: py_slice_def slice_bound_pos Let_def min_def)

text \<open>Dictionaries in insertion order.\<close>

definition dict_get :: "('k \<times> 'v) list \<Rightarrow> 'k \<Rightarrow> 'v res" where
  "dict_get d k = (case map_of d k of None \<Rightarrow> Inl KeyError | Some v \<Rightarrow> Inr v)"

definition dict_del :: "('k \<times> 'v) list \<Rightarrow> 'k \<Rightarrow> ('k \<times> 'v) list res" where
  "dict_del d k = (if k \<in> fst ` set d then Inr (AList.delete k d) else Inl KeyError)"

lemma dict_get_Inr [simp]: "(dict_get d k = Inr v) = (map_of d k = Some v)"
  by (auto simp: dict_get_def split: option.splits)

lemma dict_get_Inl [simp]: "(dict_get d k = Inl e) = (map_of d k = None \<and> e = KeyError)"
  by (auto simp: dict_get_def split: option.splits)

lemma dict_get_Some: "map_of d k = Some v \<Longrightarrow> dict_get d k = Inr v"
  by simp

lemma update_fresh: "k \<notin> fst ` set d \<Longrightarrow> AList.update k v d = d @ [(k, v)]"
  by (induction d) auto

lemma map_of_zip_nth_eq:
  "distinct ks \<Longrightarrow> length ks = length vs \<Longrightarrow> i < length ks \<Longrightarrow>
    map_of (zip ks vs) (ks ! i) = Some (vs ! i)"
  by (rule map_of_zip_nth) simp_all

section \<open>Multisets of lists\<close>

text \<open>Lists that agree key by key, and lists that are put together from pieces that agree.\<close>

lemma mset_by_key:
  fixes xs ys :: "('k \<times> 'v) list"
  assumes "\<And>key. filter (\<lambda>p. fst p = key) xs = filter (\<lambda>p. fst p = key) ys"
  shows "mset xs = mset ys"
proof (rule multiset_eqI)
  fix p
  have "count (mset zs) p = count (mset (filter (\<lambda>q. fst q = fst p) zs)) p" for zs :: "('k \<times> 'v) list"
    by (simp add: mset_filter)
  then show "count (mset xs) p = count (mset ys) p" using assms by metis
qed

lemma mset_concat_cong: "(\<And>x. x \<in> set xs \<Longrightarrow> mset (f x) = mset (g x)) \<Longrightarrow> mset (concat (map f xs)) = mset (concat (map g xs))"
  by (induction xs) auto

section \<open>Prefix sums\<close>

text \<open>\<open>prefix_sums\<close> is the running total of a list: the value of \<open>cumsum\<close>.\<close>

definition prefix_sums :: "int list \<Rightarrow> int list" where
  "prefix_sums xs = map (\<lambda>i. sum_list (take (Suc i) xs)) [0..<length xs]"

lemma length_prefix_sums [simp]: "length (prefix_sums xs) = length xs"
  by (simp add: prefix_sums_def)

lemma prefix_sums_nth [simp]:
  "i < length xs \<Longrightarrow> prefix_sums xs ! i = sum_list (take (Suc i) xs)"
  by (simp add: prefix_sums_def)

lemma prefix_sums_eq_Nil [simp]: "(prefix_sums xs = []) = (xs = [])"
  by (simp add: prefix_sums_def)

lemma sum_list_take_Suc:
  "i < length xs \<Longrightarrow> sum_list (take (Suc i) xs) = sum_list (take i xs) + (xs ! i :: int)"
  by (simp add: take_Suc_conv_app_nth)

lemma sum_list_take_mono:
  assumes "\<And>x. x \<in> set xs \<Longrightarrow> 0 \<le> (x :: int)" and "i \<le> j"
  shows "sum_list (take i xs) \<le> sum_list (take j xs)"
proof -
  have "take j xs = take i xs @ take (j - i) (drop i xs)"
    using \<open>i \<le> j\<close> by (metis add_diff_inverse_nat not_less take_add)
  moreover have "0 \<le> sum_list (take (j - i) (drop i xs))"
    using assms(1) by (intro sum_list_nonneg) (meson in_set_dropD in_set_takeD)
  ultimately show ?thesis by simp
qed

lemma prefix_sums_sorted:
  "(\<And>x. x \<in> set xs \<Longrightarrow> 0 \<le> x) \<Longrightarrow> sorted (prefix_sums xs)"
  by (auto simp: sorted_iff_nth_mono intro: sum_list_take_mono)

lemma prefix_sums_last: "xs \<noteq> [] \<Longrightarrow> last (prefix_sums xs) = sum_list xs"
  by (simp add: last_conv_nth)

section \<open>Lists as tilings of a range\<close>

lemma upt_append: "i \<le> j \<Longrightarrow> j \<le> k \<Longrightarrow> [i..<j] @ [j..<k] = [i..<k]"
  by (metis le_add_diff_inverse upt_add_eq_append)

lemma concat_upt_tiling:
  assumes "\<And>i. i < n \<Longrightarrow> b i \<le> b (Suc i)"
  shows "concat (map (\<lambda>i. [b i..<b (Suc i)]) [0..<n]) = [b 0..<(b n :: nat)]"
  using assms
proof (induction n)
  case 0
  then show ?case by simp
next
  case (Suc n)
  have mono: "b 0 \<le> b n"
    using Suc.prems by (induction n) (auto intro: order_trans)
  from Suc have "concat (map (\<lambda>i. [b i..<b (Suc i)]) [0..<n]) = [b 0..<b n]" by simp
  then show ?case using mono Suc.prems by (simp add: upt_append)
qed

lemma upto_join: "i \<le> j \<Longrightarrow> j \<le> k \<Longrightarrow> [i..j - 1] @ [j..k - 1] = [i..k - (1 :: int)]"
  by (cases "j = k") (auto simp: upto_split1 [of i j "k - 1"])

lemma concat_upto_tiling:
  assumes "\<And>i. i < n \<Longrightarrow> b i \<le> (b (Suc i) :: int)"
  shows "concat (map (\<lambda>i. [b i..b (Suc i) - 1]) [0..<n]) = [b 0..b n - 1]"
  using assms
proof (induction n)
  case 0
  then show ?case by simp
next
  case (Suc n)
  have mono: "b 0 \<le> b n"
    using Suc.prems by (induction n) (auto intro: order_trans)
  from Suc have "concat (map (\<lambda>i. [b i..b (Suc i) - 1]) [0..<n]) = [b 0..b n - 1]" by simp
  then show ?case using mono Suc.prems by (simp add: upto_join)
qed

lemma sum_telescope:
  "(\<Sum>i<n. b (Suc i) - b i) = b n - (b 0 :: int)"
  by (induction n) auto

section \<open>Arrival in any order\<close>

lemma map_perm_split:
  assumes "mset ys = mset (map f xs)"
  obtains xs' where "ys = map f xs'" and "mset xs' = mset xs"
proof -
  have "\<exists>xs'. ys = map f xs' \<and> mset xs' = mset xs"
    using assms
  proof (induction ys arbitrary: xs)
    case Nil
    then show ?case by simp
  next
    case (Cons y ys)
    have "y \<in> set (map f xs)" using Cons.prems by (metis list.set_intros(1) mset_eq_setD)
    then obtain x where x: "x \<in> set xs" "y = f x" by auto
    obtain us where us: "mset xs = mset (x # us)" using x(1)
      by (metis insert_DiffM mset.simps(2) mset_remove1 set_mset_mset)
    then have "mset ys = mset (map f us)" using Cons.prems x(2) by simp
    from Cons.IH [OF this] obtain zs where "ys = map f zs" "mset zs = mset us" by blast
    then show ?case using x us by (intro exI [of _ "x # zs"]) simp
  qed
  then show thesis using that by blast
qed

end
