(* ===== verification/ItemSplit.thy ===== *)
theory ItemSplit
  imports Prelude
begin

text \<open>
  \<^verbatim>\<open>python/dgl/graphbolt/internal/item_sampler_utils.py\<close>: how a data set of \<open>total\<close>
  items is split over the replicas of a distributed run and over the data loading workers of each
  replica. \<open>count_split\<close> gives one worker its share and the sum of the shares before it;
  \<open>calculate_range\<close> composes two such splits and decides how many of the assigned items
  are really output when incomplete or uneven batches are dropped.

  The lemmas reduce \<open>count_split\<close> to one monotone boundary function
  \<open>split_bound\<close>: worker \<open>w\<close> is given the items from \<open>split_bound w\<close> up to
  \<open>split_bound (w + 1)\<close>. All the tiling and counting facts follow from that.
\<close>

section \<open>The code\<close>

definition count_split :: "int \<Rightarrow> int \<Rightarrow> int \<Rightarrow> int \<Rightarrow> (int \<times> int) res" where
  "count_split tot num_workers worker_id batch_size =
     rbind (py_divmod tot (num_workers * batch_size)) (\<lambda>(quotient, remainder).
     rbind (if batch_size = 1
            then Inr (quotient + (if worker_id < remainder then 1 else 0))
            else rbind (py_divmod remainder batch_size) (\<lambda>(batch_count, last_batch).
                   Inr (quotient * batch_size +
                        (if worker_id < batch_count then batch_size
                         else if worker_id = batch_count then last_batch else 0))))
       (\<lambda>assigned.
          Inr (assigned,
               quotient * worker_id * batch_size + min (worker_id * batch_size) remainder)))"

definition replica_output ::
  "int \<Rightarrow> int \<Rightarrow> int \<Rightarrow> bool \<Rightarrow> bool \<Rightarrow> int \<Rightarrow> int res" where
  "replica_output tot num_replicas batch_size drop_last drop_uneven_inputs assigned_count =
     (if \<not> drop_uneven_inputs then
        (if \<not> drop_last then Inr assigned_count
         else rbind (py_floordiv assigned_count batch_size) (\<lambda>q. Inr (q * batch_size)))
      else
        (if \<not> drop_last then
           rbind (count_split tot num_replicas (num_replicas - 1) batch_size)
             (\<lambda>(min_item_count, _).
           rbind (py_floordiv (min_item_count + batch_size - 1) batch_size)
             (\<lambda>min_batch_count. Inr (min (min_batch_count * batch_size) assigned_count)))
         else
           rbind (py_floordiv tot (batch_size * num_replicas)) (\<lambda>q. Inr (q * batch_size))))"

definition calculate_range ::
  "bool \<Rightarrow> int \<Rightarrow> int \<Rightarrow> int \<Rightarrow> int \<Rightarrow> int \<Rightarrow> int \<Rightarrow> bool \<Rightarrow> bool
     \<Rightarrow> (int \<times> int \<times> int) res" where
  "calculate_range distributed tot num_replicas rank num_workers worker_id batch_size
     drop_last drop_uneven_inputs =
     (if \<not> distributed then
        (if \<not> drop_last then Inr (0, tot, tot)
         else rbind (py_floordiv tot batch_size) (\<lambda>q. Inr (0, tot, q * batch_size)))
      else
        rbind (count_split tot num_replicas rank batch_size)
          (\<lambda>(assigned_count, start_offset).
        rbind (replica_output tot num_replicas batch_size drop_last drop_uneven_inputs
                 assigned_count) (\<lambda>output_count.
        if num_workers > 1 then
          rbind (count_split (assigned_count - output_count) num_workers worker_id 1)
            (\<lambda>(dropped_items, prev_dropped_items).
          rbind (count_split output_count num_workers worker_id batch_size)
            (\<lambda>(output_count', prev_output_count).
          Inr (start_offset + (prev_output_count + prev_dropped_items),
               output_count' + dropped_items, output_count')))
        else Inr (start_offset, assigned_count, output_count))))"

section \<open>The boundary function\<close>

definition split_bound :: "int \<Rightarrow> int \<Rightarrow> int \<Rightarrow> int \<Rightarrow> int" where
  "split_bound tot n bs w =
     tot div (n * bs) * w * bs + min (w * bs) (tot mod (n * bs))"

definition split_share :: "int \<Rightarrow> int \<Rightarrow> int \<Rightarrow> int \<Rightarrow> int" where
  "split_share tot n bs w = split_bound tot n bs (w + 1) - split_bound tot n bs w"

lemma min_step:
  assumes "0 < (bs :: int)"
  shows "min ((w + 1) * bs) r - min (w * bs) r =
    (if w < r div bs then bs else if w = r div bs then r mod bs else 0)"
proof -
  let ?d = "r div bs" and ?e = "r mod bs"
  have r: "r = ?d * bs + ?e" by simp
  have e: "0 \<le> ?e" "?e < bs" using assms by simp_all
  consider "w < ?d" | "w = ?d" | "?d < w" by linarith
  then show ?thesis
  proof cases
    case 1
    then have "(w + 1) * bs \<le> ?d * bs" using assms by (intro mult_right_mono) auto
    then have "(w + 1) * bs \<le> r" using r e by linarith
    moreover from this have "w * bs \<le> r" using assms by (simp add: algebra_simps)
    ultimately show ?thesis using 1 by (simp add: algebra_simps)
  next
    case 2
    then have "w * bs = ?d * bs" by simp
    then have "w * bs \<le> r" "r \<le> w * bs + bs" using r e by linarith+
    then have "w * bs \<le> r" "r \<le> (w + 1) * bs" by (simp_all add: algebra_simps)
    moreover have "r - w * bs = ?e" using r \<open>w * bs = ?d * bs\<close> by linarith
    ultimately show ?thesis using 2 by simp
  next
    case 3
    then have "(?d + 1) * bs \<le> w * bs" using assms by (intro mult_right_mono) auto
    then have "?d * bs + bs \<le> w * bs" by (simp add: algebra_simps)
    then have "r \<le> w * bs" using r e by linarith
    moreover from this have "r \<le> (w + 1) * bs" using assms by (simp add: algebra_simps)
    ultimately show ?thesis using 3 by simp
  qed
qed

lemma split_share_eq:
  assumes "0 < bs"
  shows "split_share tot n bs w = tot div (n * bs) * bs +
    (if w < tot mod (n * bs) div bs then bs
     else if w = tot mod (n * bs) div bs then tot mod (n * bs) mod bs else 0)"
  using min_step [OF assms, of w "tot mod (n * bs)"]
  by (simp add: split_share_def split_bound_def algebra_simps)

lemma count_split_eq:
  assumes "0 < n" and "0 < bs"
  shows "count_split tot n w bs = Inr (split_share tot n bs w, split_bound tot n bs w)"
proof -
  have "0 < n * bs" using assms by simp
  then show ?thesis
    using assms(2) split_share_eq [OF assms(2), of tot n w]
    by (cases "bs = 1") (simp_all add: count_split_def split_bound_def)
qed

lemma split_bound_0: "0 < n \<Longrightarrow> 0 < bs \<Longrightarrow> split_bound tot n bs 0 = 0"
  by (simp add: split_bound_def)

lemma split_bound_all: "0 < n \<Longrightarrow> 0 < bs \<Longrightarrow> split_bound tot n bs n = tot"
proof -
  assume "0 < n" "0 < bs"
  then have "tot mod (n * bs) \<le> n * bs" by (simp add: less_imp_le)
  then have "split_bound tot n bs n = tot div (n * bs) * (n * bs) + tot mod (n * bs)"
    by (simp add: split_bound_def mult.assoc)
  then show ?thesis by (simp only: div_mult_mod_eq)
qed

lemma split_share_nonneg:
  assumes "0 < n" and "0 < bs" and "0 \<le> tot"
  shows "0 \<le> split_share tot n bs w"
proof -
  have "0 \<le> tot div (n * bs)" using assms by (simp add: pos_imp_zdiv_nonneg_iff)
  then show ?thesis using assms by (simp add: split_share_eq)
qed

lemma split_bound_Suc:
  assumes "0 < n" and "0 < bs" and "0 \<le> tot"
  shows "split_bound tot n bs w \<le> split_bound tot n bs (w + 1)"
  using split_share_nonneg [OF assms] by (simp add: split_share_def)

lemma split_bound_mono:
  assumes "0 < n" and "0 < bs" and "0 \<le> tot" and "v \<le> w"
  shows "split_bound tot n bs v \<le> split_bound tot n bs w"
proof -
  have "split_bound tot n bs v \<le> split_bound tot n bs (v + int k)" for k
  proof (induction k)
    case 0
    then show ?case by simp
  next
    case (Suc k)
    have "split_bound tot n bs (v + int k) \<le> split_bound tot n bs (v + int k + 1)"
      by (rule split_bound_Suc [OF assms(1-3)])
    with Suc show ?case by (simp add: algebra_simps)
  qed
  from this [of "nat (w - v)"] show ?thesis using \<open>v \<le> w\<close> by simp
qed

lemma split_bound_range:
  assumes "0 < n" and "0 < bs" and "0 \<le> tot" and "0 \<le> w" and "w \<le> n"
  shows "0 \<le> split_bound tot n bs w \<and> split_bound tot n bs w \<le> tot"
  using split_bound_mono [OF assms(1-4)] split_bound_mono [OF assms(1-3,5)] assms
  by (simp add: split_bound_0 split_bound_all)

lemma split_share_sum:
  assumes "0 < n" and "0 < bs"
  shows "(\<Sum>w<nat n. split_share tot n bs (int w)) = tot"
proof -
  have "(\<Sum>w<nat n. split_share tot n bs (int w)) =
      (\<Sum>w<nat n. split_bound tot n bs (int (Suc w)) - split_bound tot n bs (int w))"
    by (simp add: split_share_def algebra_simps)
  also have "\<dots> = split_bound tot n bs (int (nat n)) - split_bound tot n bs (int 0)"
    by (rule sum_telescope)
  also have "\<dots> = tot" using assms by (simp add: split_bound_0 split_bound_all)
  finally show ?thesis .
qed

text \<open>The shares fall by at most one batch from the first worker to the last.\<close>

lemma split_share_antimono:
  assumes "0 < n" and "0 < bs" and "v \<le> w"
  shows "split_share tot n bs w \<le> split_share tot n bs v"
proof -
  have "0 \<le> tot mod (n * bs) mod bs" "tot mod (n * bs) mod bs \<le> bs"
    using assms by (simp_all add: less_imp_le)
  with assms show ?thesis by (auto simp: split_share_eq)
qed

section \<open>Batches\<close>

text \<open>The number of batches of size \<open>bs\<close> that \<open>m\<close> items make, the last one
  possibly incomplete.\<close>

definition num_batches :: "int \<Rightarrow> int \<Rightarrow> int" where
  "num_batches bs m = (m + bs - 1) div bs"

lemma num_batches_split:
  assumes "0 < bs"
  shows "num_batches bs m = m div bs + (if m mod bs = 0 then 0 else 1)"
proof -
  have e: "0 \<le> m mod bs" "m mod bs < bs" using assms by simp_all
  have "m + bs - 1 = (m mod bs + bs - 1) + m div bs * bs"
    using div_mult_mod_eq [of m bs] by linarith
  then have "num_batches bs m = (m mod bs + bs - 1) div bs + m div bs"
    unfolding num_batches_def using assms by (metis add.commute div_mult_self1 less_irrefl)
  moreover have "(m mod bs + bs - 1) div bs = (if m mod bs = 0 then 0 else 1)"
  proof (cases "m mod bs = 0")
    case True
    then show ?thesis using assms by simp
  next
    case False
    have "(m mod bs + bs - 1) div bs = (m mod bs - 1 + 1 * bs) div bs" by (simp add: algebra_simps)
    also have "\<dots> = 1 + (m mod bs - 1) div bs" using assms by (subst div_mult_self1) auto
    also have "(m mod bs - 1) div bs = 0"
    proof (rule div_pos_pos_trivial)
      show "0 \<le> m mod bs - 1" using False e by linarith
      show "m mod bs - 1 < bs" using e by linarith
    qed
    finally show ?thesis using False by simp
  qed
  ultimately show ?thesis by simp
qed

lemma num_batches_mult: "0 < bs \<Longrightarrow> num_batches bs (k * bs) = k"
  by (simp add: num_batches_split)

lemma num_batches_mono: "0 < bs \<Longrightarrow> m \<le> m' \<Longrightarrow> num_batches bs m \<le> num_batches bs m'"
  unfolding num_batches_def by (rule zdiv_mono1) auto

lemma num_batches_add_mult:
  "0 < bs \<Longrightarrow> num_batches bs (k * bs + m) = k + num_batches bs m"
  by (simp add: num_batches_split)

lemma num_batches_split_share:
  assumes "0 < bs"
  shows "num_batches bs (split_share tot n bs w) = tot div (n * bs) +
    (if w < tot mod (n * bs) div bs then 1
     else if w = tot mod (n * bs) div bs then num_batches bs (tot mod (n * bs) mod bs) else 0)"
  using assms num_batches_mult [OF assms, of 1] num_batches_mult [OF assms, of 0]
  by (simp add: split_share_eq num_batches_add_mult)

lemma sum_threshold:
  assumes "d < n"
  shows "(\<Sum>w<n. q + (if int w < int d then 1 else if int w = int d then c else 0)) =
    q * int n + int d + (c :: int)"
proof -
  let ?f = "\<lambda>w. q * int w + min (int w) (int d) + (if d < w then c else 0)"
  have "(\<Sum>w<n. q + (if int w < int d then 1 else if int w = int d then c else 0)) =
      (\<Sum>w<n. ?f (Suc w) - ?f w)"
    by (rule sum.cong) (auto simp: algebra_simps)
  also have "\<dots> = ?f n - ?f 0" by (rule sum_telescope)
  finally show ?thesis using assms by simp
qed

lemma num_batches_sum:
  assumes "0 < n" and "0 < bs"
  shows "(\<Sum>w<nat n. num_batches bs (split_share tot n bs (int w))) = num_batches bs tot"
proof -
  let ?r = "tot mod (n * bs)"
  have pos: "0 < n * bs" using assms by simp
  have d0: "0 \<le> ?r div bs" using assms pos by (simp add: pos_imp_zdiv_nonneg_iff)
  have "?r < n * bs" using pos by simp
  moreover have "?r div bs * bs \<le> ?r"
    using assms(2) by (metis div_mult_mod_eq le_add_same_cancel1 pos_mod_sign)
  ultimately have "?r div bs * bs < n * bs" by linarith
  then have "?r div bs < n" using assms(2) by (simp add: mult_less_cancel_right)
  then have d: "nat (?r div bs) < nat n" using d0 by simp
  have "(\<Sum>w<nat n. num_batches bs (split_share tot n bs (int w))) =
      tot div (n * bs) * int (nat n) + int (nat (?r div bs)) + num_batches bs (?r mod bs)"
    using sum_threshold [OF d, of "tot div (n * bs)" "num_batches bs (?r mod bs)"] d0
    by (simp only: num_batches_split_share [OF assms(2)] int_nat_eq if_True)
  also have "\<dots> = tot div (n * bs) * n + num_batches bs ?r"
    using assms d0 num_batches_add_mult [OF assms(2), of "?r div bs" "?r mod bs"] by simp
  also have "\<dots> = num_batches bs (tot div (n * bs) * n * bs + ?r)"
    by (simp add: num_batches_add_mult [OF assms(2)])
  also have "tot div (n * bs) * n * bs + ?r = tot"
    by (metis div_mult_mod_eq mult.assoc)
  finally show ?thesis .
qed

section \<open>The range of a worker\<close>

definition replica_bound :: "int \<Rightarrow> int \<Rightarrow> int \<Rightarrow> int \<Rightarrow> int \<Rightarrow> int" where
  "replica_bound out dropped W bs w = split_bound out W bs w + split_bound dropped W 1 w"

lemma split_single:
  assumes "0 < bs"
  shows "split_bound m 1 bs 0 = 0" and "split_bound m 1 bs 1 = m" and "split_share m 1 bs 0 = m"
  using split_bound_0 [of 1 bs m] split_bound_all [of 1 bs m] assms
  by (simp_all add: split_share_def)

lemma replica_output_ok:
  assumes "0 < R" and "0 < bs" and "0 \<le> tot" and "0 \<le> rank" and "rank < R"
  obtains out where
    "replica_output tot R bs dl du (split_share tot R bs rank) = Inr out"
    "0 \<le> out" "out \<le> split_share tot R bs rank"
    "dl \<Longrightarrow> bs dvd out"
    "\<not> dl \<Longrightarrow> \<not> du \<Longrightarrow> out = split_share tot R bs rank"
    "du \<Longrightarrow> num_batches bs out =
       (if dl then tot div (R * bs) else num_batches bs (split_share tot R bs (R - 1)))"
proof -
  let ?a = "split_share tot R bs rank" and ?m = "split_share tot R bs (R - 1)"
  have a0: "0 \<le> ?a" and m0: "0 \<le> ?m" by (rule split_share_nonneg [OF assms(1-3)])+
  have ma: "?m \<le> ?a" using assms by (intro split_share_antimono) auto
  have fl: "x div bs * bs \<le> x" for x
    using assms(2) by (metis div_mult_mod_eq le_add_same_cancel1 pos_mod_sign)
  consider "\<not> du" "\<not> dl" | "\<not> du" dl | du "\<not> dl" | du dl by blast
  then show thesis
  proof cases
    case 1
    with a0 show ?thesis by (intro that [of ?a]) (simp_all add: replica_output_def)
  next
    case 2
    with a0 assms fl [of ?a] show ?thesis
      by (intro that [of "?a div bs * bs"])
         (simp_all add: replica_output_def pos_imp_zdiv_nonneg_iff)
  next
    case 3
    let ?b = "num_batches bs ?m"
    have b0: "0 \<le> ?b * bs" using m0 assms num_batches_mono [OF assms(2) m0]
      by (simp add: num_batches_def)
    have "num_batches bs (min (?b * bs) ?a) = ?b"
      using num_batches_mono [OF assms(2) ma] num_batches_mono [OF assms(2), of ?a "?b * bs"]
      by (auto simp: min_def num_batches_mult [OF assms(2)])
    with 3 a0 b0 show ?thesis
      by (intro that [of "min (?b * bs) ?a"])
         (simp_all add: replica_output_def count_split_eq [OF assms(1,2)] assms(2)
            num_batches_def)
  next
    case 4
    have "0 < bs * R" using assms by simp
    moreover have "tot div (R * bs) * bs \<le> ?a"
      using assms by (simp add: split_share_eq)
    ultimately show ?thesis using 4 assms
      by (intro that [of "tot div (R * bs) * bs"])
         (simp_all add: replica_output_def num_batches_mult mult.commute [of bs]
            pos_imp_zdiv_nonneg_iff)
  qed
qed

lemma calculate_range_eq:
  assumes "0 < R" and "0 < bs" and "0 \<le> tot" and "0 \<le> rank" and "rank < R"
    and "0 < W" and "0 \<le> w" and "w < W"
    and out: "replica_output tot R bs dl du (split_share tot R bs rank) = Inr out"
  shows "calculate_range True tot R rank W w bs dl du =
    Inr (split_bound tot R bs rank + replica_bound out (split_share tot R bs rank - out) W bs w,
         split_share out W bs w + split_share (split_share tot R bs rank - out) W 1 w,
         split_share out W bs w)"
proof (cases "1 < W")
  case True
  then show ?thesis using assms
    by (simp add: calculate_range_def count_split_eq replica_bound_def)
next
  case False
  then have W: "W = 1" and w: "w = 0" using assms by simp_all
  show ?thesis unfolding W w using assms(1,2) out
    by (simp add: calculate_range_def count_split_eq replica_bound_def split_single)
qed

lemma replica_bound_Suc:
  "replica_bound out dropped W bs (w + 1) =
    replica_bound out dropped W bs w + (split_share out W bs w + split_share dropped W 1 w)"
  by (simp add: replica_bound_def split_share_def)

lemma replica_bound_ends:
  assumes "0 < W" and "0 < bs"
  shows "replica_bound out dropped W bs 0 = 0"
    and "replica_bound out dropped W bs W = out + dropped"
  using assms by (simp_all add: replica_bound_def split_bound_0 split_bound_all)

lemma dvd_split_share:
  assumes "0 < n" and "0 < bs" and "bs dvd tot"
  shows "bs dvd split_share tot n bs w"
proof -
  have "bs dvd tot mod (n * bs)" using assms(3) by (simp add: dvd_mod)
  then have "bs dvd tot mod (n * bs) mod bs" by (simp add: dvd_mod)
  with assms(2) show ?thesis by (simp add: split_share_eq)
qed

section \<open>Properties\<close>

text \<open>The items that one call of \<open>count_split\<close> assigns, and the items a worker is
  assigned by \<open>calculate_range\<close>: used to state the tilings.\<close>

fun assigned_items :: "(int \<times> int) res \<Rightarrow> int list" where
  "assigned_items (Inr (assigned, prefix)) = [prefix..prefix + assigned - 1]"
| "assigned_items (Inl _) = []"

fun range_items :: "(int \<times> int \<times> int) res \<Rightarrow> int list" where
  "range_items (Inr (start, assigned, _)) = [start..start + assigned - 1]"
| "range_items (Inl _) = []"

fun output_items :: "(int \<times> int \<times> int) res \<Rightarrow> int" where
  "output_items (Inr (_, _, output)) = output"
| "output_items (Inl _) = 0"

text \<open>\<open>count_split\<close> partitions the data: read in the order of the worker ids, the
  items it assigns are the items \<open>0, \<dots>, total - 1\<close>, each exactly once and in order, for
  any positive number of workers and any positive batch size.\<close>

theorem count_split_tiles:
  assumes "0 < n" and "0 < bs" and "0 \<le> tot"
  shows "concat (map (\<lambda>w. assigned_items (count_split tot n (int w) bs)) [0..<nat n])
    = [0..tot - 1]"
proof -
  have "assigned_items (count_split tot n (int w) bs) =
      [split_bound tot n bs (int w)..split_bound tot n bs (int (Suc w)) - 1]" for w
    using assms by (simp add: count_split_eq split_share_def algebra_simps)
  moreover have "split_bound tot n bs (int w) \<le> split_bound tot n bs (int (Suc w))" for w
    by (rule split_bound_mono [OF assms]) simp
  ultimately show ?thesis
    using concat_upto_tiling [of "nat n" "\<lambda>w. split_bound tot n bs (int w)"] assms
    by (simp add: split_bound_0 split_bound_all)
qed

theorem count_split_tiles_witness:
  "concat (map (\<lambda>w. assigned_items (count_split 15 4 (int w) 2)) [0..<nat 4]) = [0..15 - 1]"
  by (rule count_split_tiles) simp_all

text \<open>The workers' loads are even: no worker has more than one batch more than another,
  and the batches of all the workers together are as many as the whole data set makes, so the
  split never cuts a batch in two.\<close>

theorem count_split_even:
  assumes "0 < n" and "0 < bs" and "0 \<le> tot"
    and "0 \<le> v" and "v \<le> w" and "w < n"
    and v: "count_split tot n v bs = Inr (av, pv)"
    and w: "count_split tot n w bs = Inr (aw, pw)"
  shows "num_batches bs aw \<le> num_batches bs av \<and> num_batches bs av \<le> num_batches bs aw + 1 \<and>
    (\<Sum>u<nat n. num_batches bs (int (length (assigned_items (count_split tot n (int u) bs)))))
      = num_batches bs tot"
proof -
  have av: "av = split_share tot n bs v" and aw: "aw = split_share tot n bs w"
    using v w by (simp_all add: count_split_eq assms(1,2))
  let ?d = "tot mod (n * bs) div bs" and ?c = "num_batches bs (tot mod (n * bs) mod bs)"
  have "tot mod (n * bs) mod bs mod bs = tot mod (n * bs) mod bs" by simp
  then have c: "0 \<le> ?c" "?c \<le> 1" using assms(2) by (simp_all add: num_batches_split)
  have "num_batches bs aw \<le> num_batches bs av \<and> num_batches bs av \<le> num_batches bs aw + 1"
    unfolding av aw num_batches_split_share [OF assms(2)] using c assms(5) by auto
  moreover have "int (length (assigned_items (count_split tot n (int u) bs))) =
      split_share tot n bs (int u)" for u
    using split_share_nonneg [OF assms(1-3), of "int u"] by (simp add: count_split_eq assms(1,2))
  ultimately show ?thesis using num_batches_sum [OF assms(1,2), of tot] by simp
qed

theorem count_split_even_witness:
  "num_batches 2 3 \<le> num_batches 2 4 \<and> num_batches 2 4 \<le> num_batches 2 3 + 1 \<and>
    (\<Sum>u<nat 4. num_batches 2 (int (length (assigned_items (count_split 15 4 (int u) 2)))))
      = num_batches 2 15"
  by (rule count_split_even [of 4 2 15 0 3 4 0 3 12])
     (simp_all add: count_split_def py_divmod_def)

text \<open>Over all replicas and all workers of each replica, the ranges that
  \<open>calculate_range\<close> assigns in distributed mode are the items \<open>0, \<dots>, total - 1\<close>,
  each exactly once and in order, whatever the two dropping options are.\<close>

theorem calculate_range_tiles:
  assumes "0 < R" and "0 < W" and "0 < bs" and "0 \<le> tot"
  shows "concat (map (\<lambda>r. concat (map (\<lambda>w.
      range_items (calculate_range True tot R (int r) W (int w) bs dl du)) [0..<nat W])) [0..<nat R])
    = [0..tot - 1]"
proof -
  let ?s = "\<lambda>r. split_bound tot R bs (int r)"
  have "concat (map (\<lambda>w. range_items (calculate_range True tot R (int r) W (int w) bs dl du))
      [0..<nat W]) = [?s r..?s (Suc r) - 1]" if r: "r < nat R" for r
  proof -
    let ?a = "split_share tot R bs (int r)"
    have r': "0 \<le> int r" "int r < R" using r by simp_all
    obtain out where out: "replica_output tot R bs dl du ?a = Inr out" "0 \<le> out" "out \<le> ?a"
      using replica_output_ok [OF assms(1,3,4) r'] by metis
    let ?b = "\<lambda>w. ?s r + replica_bound out (?a - out) W bs (int w)"
    have eq: "range_items (calculate_range True tot R (int r) W (int w) bs dl du) =
        [?b w..?b (Suc w) - 1]" if "w < nat W" for w
      using calculate_range_eq [OF assms(1,3,4) r' assms(2) _ _ out(1), of "int w"] that
        replica_bound_Suc [of out "?a - out" W bs "int w"]
      by (simp add: algebra_simps)
    have le: "?b w \<le> ?b (Suc w)" for w
      using replica_bound_Suc [of out "?a - out" W bs "int w"]
        split_share_nonneg [OF assms(2,3) out(2), of "int w"]
        split_share_nonneg [OF assms(2) zero_less_one, of "?a - out" "int w"] out(3)
      by (simp add: algebra_simps)
    have "concat (map (\<lambda>w. range_items (calculate_range True tot R (int r) W (int w) bs dl du))
        [0..<nat W]) = concat (map (\<lambda>w. [?b w..?b (Suc w) - 1]) [0..<nat W])"
      by (rule arg_cong [where f = concat]) (simp add: eq)
    also have "\<dots> = [?b 0..?b (nat W) - 1]" by (rule concat_upto_tiling) (rule le)
    also have "\<dots> = [?s r..?s (Suc r) - 1]"
      using assms by (simp add: replica_bound_ends split_share_def algebra_simps)
    finally show ?thesis .
  qed
  then have "concat (map (\<lambda>r. concat (map (\<lambda>w.
      range_items (calculate_range True tot R (int r) W (int w) bs dl du)) [0..<nat W])) [0..<nat R])
    = concat (map (\<lambda>r. [?s r..?s (Suc r) - 1]) [0..<nat R])"
    by (intro arg_cong [where f = concat] map_cong) auto
  also have "\<dots> = [?s 0..?s (nat R) - 1]"
    by (rule concat_upto_tiling) (rule split_bound_mono [OF assms(1,3,4)], simp)
  finally show ?thesis using assms by (simp add: split_bound_0 split_bound_all)
qed

theorem calculate_range_tiles_witness:
  "concat (map (\<lambda>r. concat (map (\<lambda>w.
      range_items (calculate_range True 22 3 (int r) 2 (int w) 4 True True)) [0..<nat 2])) [0..<nat 3])
    = [0..22 - 1]"
  by (rule calculate_range_tiles) simp_all

text \<open>What a worker outputs is part of what it is assigned. With \<open>drop_last\<close> it
  consists of full batches only, and when nothing is dropped it is all of it.\<close>

theorem calculate_range_output:
  assumes "0 < R" and "0 < W" and "0 < bs" and "0 \<le> tot"
    and "0 \<le> rank" and "rank < R" and "0 \<le> w" and "w < W"
  shows "\<exists>start assigned out. calculate_range True tot R rank W w bs dl du = Inr (start, assigned, out)
    \<and> 0 \<le> start \<and> start + assigned \<le> tot \<and> 0 \<le> out \<and> out \<le> assigned
    \<and> (dl \<longrightarrow> bs dvd out) \<and> (\<not> dl \<and> \<not> du \<longrightarrow> out = assigned)"
proof -
  let ?a = "split_share tot R bs rank" and ?s = "split_bound tot R bs rank"
  obtain out where out: "replica_output tot R bs dl du ?a = Inr out" "0 \<le> out" "out \<le> ?a"
      "dl \<Longrightarrow> bs dvd out" "\<not> dl \<Longrightarrow> \<not> du \<Longrightarrow> out = ?a"
    using replica_output_ok [OF assms(1,3,4,5,6), of dl du] by blast
  let ?o = "split_share out W bs w" and ?d = "split_share (?a - out) W 1 w"
  have o: "0 \<le> ?o" by (rule split_share_nonneg [OF assms(2,3) out(2)])
  have d: "0 \<le> ?d" using out(3) by (intro split_share_nonneg [OF assms(2)]) simp_all
  have b0: "0 \<le> replica_bound out (?a - out) W bs w"
    using split_bound_range [OF assms(2,3) out(2) assms(7)] assms(8)
      split_bound_range [OF assms(2) zero_less_one _ assms(7), of "?a - out"] out(3)
    by (simp add: replica_bound_def)
  have "replica_bound out (?a - out) W bs (w + 1) \<le> out + (?a - out)"
    unfolding replica_bound_def
    using split_bound_range [OF assms(2,3) out(2), of "w + 1"]
      split_bound_range [OF assms(2) zero_less_one, of "?a - out" "w + 1"] assms(7,8) out(3)
    by (intro add_mono) simp_all
  then have b1: "replica_bound out (?a - out) W bs w + (?o + ?d) \<le> ?a"
    by (simp add: replica_bound_Suc)
  have s: "0 \<le> ?s" "?s + ?a \<le> tot"
    using split_bound_range [OF assms(1,3,4), of rank] split_bound_range [OF assms(1,3,4), of "rank + 1"]
      assms(5,6) by (simp_all add: split_share_def)
  have all: "?d = 0" if "out = ?a" using that assms(7) by (simp add: split_share_eq)
  show ?thesis
    using calculate_range_eq [OF assms(1,3,4,5,6,2,7,8) out(1)] o d b0 b1 s out(4,5) all
      dvd_split_share [OF assms(2,3), of out w]
    by auto
qed

theorem calculate_range_output_witness:
  "\<exists>start assigned out. calculate_range True 22 3 1 2 1 4 True False = Inr (start, assigned, out)
    \<and> 0 \<le> start \<and> start + assigned \<le> 22 \<and> 0 \<le> out \<and> out \<le> assigned
    \<and> (True \<longrightarrow> 4 dvd out) \<and> (\<not> True \<and> \<not> False \<longrightarrow> out = assigned)"
  by (rule calculate_range_output) simp_all

text \<open>With \<open>drop_uneven_inputs\<close> every replica makes the same number of batches,
  counted over all its workers, whatever the rank: the property distributed data parallel
  training relies on not to hang.\<close>

theorem drop_uneven_same_batches:
  assumes "0 < R" and "0 < W" and "0 < bs" and "0 \<le> tot"
    and "0 \<le> rank" and "rank < R" and "0 \<le> rank'" and "rank' < R"
  shows "(\<Sum>w<nat W. num_batches bs (output_items
        (calculate_range True tot R rank W (int w) bs dl True)))
    = (\<Sum>w<nat W. num_batches bs (output_items
        (calculate_range True tot R rank' W (int w) bs dl True)))"
proof -
  have "(\<Sum>w<nat W. num_batches bs (output_items
        (calculate_range True tot R r W (int w) bs dl True)))
      = (if dl then tot div (R * bs) else num_batches bs (split_share tot R bs (R - 1)))"
    if r: "0 \<le> r" "r < R" for r
  proof -
    obtain out where out: "replica_output tot R bs dl True (split_share tot R bs r) = Inr out"
      "num_batches bs out =
         (if dl then tot div (R * bs) else num_batches bs (split_share tot R bs (R - 1)))"
      using replica_output_ok [OF assms(1,3,4) r, of dl True] by blast
    have "output_items (calculate_range True tot R r W (int w) bs dl True) =
        split_share out W bs (int w)" if "w < nat W" for w
      using calculate_range_eq [OF assms(1,3,4) r assms(2) _ _ out(1), of "int w"] that by simp
    then have "(\<Sum>w<nat W. num_batches bs (output_items
        (calculate_range True tot R r W (int w) bs dl True))) =
        (\<Sum>w<nat W. num_batches bs (split_share out W bs (int w)))"
      by (intro sum.cong) simp_all
    then show ?thesis using num_batches_sum [OF assms(2,3), of out] out(2) by simp
  qed
  from this [OF assms(5,6)] this [OF assms(7,8)] show ?thesis by simp
qed

theorem drop_uneven_same_batches_witness:
  "(\<Sum>w<nat 2. num_batches 2 (output_items (calculate_range True 15 4 0 2 (int w) 2 False True)))
    = (\<Sum>w<nat 2. num_batches 2 (output_items (calculate_range True 15 4 3 2 (int w) 2 False True)))"
  by (rule drop_uneven_same_batches) simp_all

end
