(* ===== verification/PyStr.thy ===== *)
theory PyStr
  imports Prelude
begin

text \<open>
  The operations on Python's \<open>str\<close> that the sources use, on \<open>string\<close> (a list of
  characters): \<open>s.split(c)\<close>, \<open>s.split(c, 1)\<close>, \<open>c.join(parts)\<close>,
  \<open>s.startswith(p)\<close>, \<open>s.split()\<close> at white space, \<open>str(n)\<close> and \<open>int(s)\<close>,
  with the laws that relate them.
\<close>

section \<open>Splitting at a separator, and joining\<close>

fun split_on :: "char \<Rightarrow> string \<Rightarrow> string list" where
  "split_on c [] = [[]]"
| "split_on c (x # xs) =
     (if x = c then [] # split_on c xs
      else (case split_on c xs of [] \<Rightarrow> [[x]] | p # ps \<Rightarrow> (x # p) # ps))"

fun join_with :: "char \<Rightarrow> string list \<Rightarrow> string" where
  "join_with c [] = []"
| "join_with c [p] = p"
| "join_with c (p # q # ps) = p @ c # join_with c (q # ps)"

fun split_once :: "char \<Rightarrow> string \<Rightarrow> string list" where
  "split_once c [] = [[]]"
| "split_once c (x # xs) =
     (if x = c then [[], xs]
      else (case split_once c xs of [] \<Rightarrow> [[x]] | p # ps \<Rightarrow> (x # p) # ps))"

definition startswith :: "string \<Rightarrow> string \<Rightarrow> bool" where
  "startswith s p = (take (length p) s = p)"

lemma startswith_append [simp]: "startswith (p @ s) p"
  by (simp add: startswith_def)

lemma split_on_nonempty [simp]: "split_on c s \<noteq> []"
  by (induction s) (auto split: list.splits)

lemma split_on_no_sep [simp]: "c \<notin> set s \<Longrightarrow> split_on c s = [s]"
  by (induction s) auto

lemma split_on_append_sep [simp]:
  "c \<notin> set p \<Longrightarrow> split_on c (p @ c # s) = p # split_on c s"
  by (induction p) auto

lemma join_split [simp]: "join_with c (split_on c s) = s"
proof (induction s)
  case Nil
  then show ?case by simp
next
  case (Cons x xs)
  obtain p ps where p: "split_on c xs = p # ps" by (cases "split_on c xs") auto
  with Cons show ?case by (cases ps) auto
qed

lemma split_join:
  "ps \<noteq> [] \<Longrightarrow> (\<And>p. p \<in> set ps \<Longrightarrow> c \<notin> set p) \<Longrightarrow> split_on c (join_with c ps) = ps"
  by (induction ps rule: induct_list012) simp_all

lemma split_on_parts: "p \<in> set (split_on c s) \<Longrightarrow> c \<notin> set p"
  by (induction s arbitrary: p) (auto split: list.splits if_splits)

lemma length_split_on: "length (split_on c s) = Suc (length (filter (\<lambda>x. x = c) s))"
  by (induction s) (auto split: list.splits)

lemma filter_join_with:
  "ps \<noteq> [] \<Longrightarrow> length (filter (\<lambda>x. x = c) (join_with d ps)) =
    sum_list (map (\<lambda>p. length (filter (\<lambda>x. x = c) p)) ps) + (if c = d then length ps - 1 else 0)"
  by (induction ps rule: induct_list012) auto

lemma set_join_with: "set (join_with d ps) \<subseteq> insert d (\<Union> (set ` set ps))"
  by (induction ps rule: induct_list012) auto

lemma split_once_no_sep: "c \<notin> set s \<Longrightarrow> split_once c s = [s]"
  by (induction s) auto

lemma split_once_append [simp]: "c \<notin> set p \<Longrightarrow> split_once c (p @ c # s) = [p, s]"
  by (induction p) auto

section \<open>White space\<close>

definition is_space :: "char \<Rightarrow> bool" where
  "is_space x = (x \<in> {CHR '' '', CHR 0x09, CHR 0x0A, CHR 0x0B, CHR 0x0C, CHR 0x0D,
                      CHR 0x1C, CHR 0x1D, CHR 0x1E, CHR 0x1F})"

fun split_ws_acc :: "string \<Rightarrow> string \<Rightarrow> string list" where
  "split_ws_acc acc [] = (if acc = [] then [] else [rev acc])"
| "split_ws_acc acc (x # xs) =
     (if is_space x then (if acc = [] then split_ws_acc [] xs else rev acc # split_ws_acc [] xs)
      else split_ws_acc (x # acc) xs)"

definition split_ws :: "string \<Rightarrow> string list" where
  "split_ws s = split_ws_acc [] s"

lemma split_ws_acc_word:
  "(\<And>x. x \<in> set w \<Longrightarrow> \<not> is_space x) \<Longrightarrow> split_ws_acc acc (w @ s) = split_ws_acc (rev w @ acc) s"
  by (induction w arbitrary: acc) auto

lemma split_ws_word [simp]:
  "w \<noteq> [] \<Longrightarrow> (\<And>x. x \<in> set w \<Longrightarrow> \<not> is_space x) \<Longrightarrow> split_ws w = [w]"
  using split_ws_acc_word [of w "[]" "[]"] by (simp add: split_ws_def)

lemma split_ws_word_space:
  assumes "w \<noteq> []" and "\<And>x. x \<in> set w \<Longrightarrow> \<not> is_space x" and "is_space y"
  shows "split_ws (w @ y # s) = w # split_ws s"
  using split_ws_acc_word [of w "[]" "y # s"] assms by (simp add: split_ws_def)

section \<open>Decimal numbers\<close>

definition digit_char :: "nat \<Rightarrow> char" where
  "digit_char d = char_of (48 + d)"

definition char_digit :: "char \<Rightarrow> nat option" where
  "char_digit x = (let n = (of_char x :: nat) in if 48 \<le> n \<and> n \<le> 57 then Some (n - 48) else None)"

fun nat_str :: "nat \<Rightarrow> string" where
  "nat_str n = (if n < 10 then [digit_char n] else nat_str (n div 10) @ [digit_char (n mod 10)])"

declare nat_str.simps [simp del]

definition int_str :: "int \<Rightarrow> string" where
  "int_str i = (if i < 0 then CHR ''-'' # nat_str (nat (- i)) else nat_str (nat i))"

text \<open>\<open>int(s)\<close> on a token without white space: an optional sign, then digits, between two of
  which one underscore may stand; anything else is a \<open>ValueError\<close>.\<close>

fun digits_value :: "nat \<Rightarrow> string \<Rightarrow> nat option" where
  "digits_value acc [] = Some acc"
| "digits_value acc (x # xs) =
     (case char_digit x of
        Some d \<Rightarrow> digits_value (10 * acc + d) xs
      | None \<Rightarrow>
          (if x \<noteq> CHR ''_'' then None
           else (case xs of [] \<Rightarrow> None
                 | y # ys \<Rightarrow> (case char_digit y of None \<Rightarrow> None
                                | Some d \<Rightarrow> digits_value (10 * acc + d) ys))))"

fun nat_of_str :: "string \<Rightarrow> nat res" where
  "nat_of_str [] = Inl ValueError"
| "nat_of_str (x # xs) =
     (case char_digit x of None \<Rightarrow> Inl ValueError
      | Some d \<Rightarrow> (case digits_value d xs of None \<Rightarrow> Inl ValueError | Some n \<Rightarrow> Inr n))"

fun int_of_str :: "string \<Rightarrow> int res" where
  "int_of_str [] = Inl ValueError"
| "int_of_str (x # xs) =
     (if x = CHR ''-'' then rbind (nat_of_str xs) (\<lambda>n. Inr (- int n))
      else if x = CHR ''+'' then rbind (nat_of_str xs) (\<lambda>n. Inr (int n))
      else rbind (nat_of_str (x # xs)) (\<lambda>n. Inr (int n)))"

lemma char_digit_digit_char [simp]: "d < 10 \<Longrightarrow> char_digit (digit_char d) = Some d"
  by (simp add: char_digit_def digit_char_def Let_def)

lemma digits_value_append:
  "list_all (\<lambda>x. char_digit x \<noteq> None) xs \<Longrightarrow> digits_value acc (xs @ ys) =
    (case digits_value acc xs of None \<Rightarrow> None | Some n \<Rightarrow> digits_value n ys)"
  by (induction xs arbitrary: acc) auto

lemma nat_str_digits: "x \<in> set (nat_str n) \<Longrightarrow> \<exists>d<10. x = digit_char d"
proof (induction n rule: nat_str.induct)
  case (1 n)
  show ?case
  proof (cases "n < 10")
    case True
    with "1.prems" show ?thesis by (subst (asm) nat_str.simps) auto
  next
    case False
    then consider "x \<in> set (nat_str (n div 10))" | "x = digit_char (n mod 10)"
      using "1.prems" by (subst (asm) (2) nat_str.simps) auto
    then show ?thesis using "1.IH" [OF False] by cases (auto intro: exI [of _ "n mod 10"])
  qed
qed

lemma nat_str_all_digits [simp]: "list_all (\<lambda>x. char_digit x \<noteq> None) (nat_str n)"
  by (auto simp: list_all_iff dest: nat_str_digits)

lemma digits_value_nat_str: "digits_value 0 (nat_str n) = Some n"
proof (induction n rule: nat_str.induct)
  case (1 n)
  show ?case
  proof (cases "n < 10")
    case True
    then show ?thesis by (subst nat_str.simps) simp
  next
    case False
    with 1 show ?thesis 
      by (subst nat_str.simps) (simp add: digits_value_append [OF nat_str_all_digits])
  qed
qed

lemma nat_str_nonempty [simp]: "nat_str n \<noteq> []"
  by (subst nat_str.simps) simp

lemma nat_str_Cons:
  obtains d xs where "d < 10" "nat_str n = digit_char d # xs"
proof (cases "nat_str n")
  case Nil
  then show thesis by simp
next
  case (Cons x xs)
  then show thesis using that nat_str_digits [of x n] by auto
qed

lemma nat_of_str_nat_str [simp]: "nat_of_str (nat_str n) = Inr n"
proof -
  obtain d xs where s: "d < 10" "nat_str n = digit_char d # xs" by (rule nat_str_Cons)
  with digits_value_nat_str [of n] show ?thesis by simp
qed

lemma nat_str_inject [simp]: "(nat_str m = nat_str n) = (m = n)"
  by (metis digits_value_nat_str option.inject)

lemma char_digit_None [simp]:
  "char_digit CHR ''-'' = None" "char_digit CHR ''+'' = None" "char_digit CHR ''~'' = None"
  "char_digit CHR '':'' = None" "char_digit CHR ''_'' = None" "char_digit CHR '' '' = None"
  by (simp_all add: char_digit_def Let_def)

lemma digit_char_not [simp]:
  assumes "d < 10"
  shows "digit_char d \<noteq> CHR ''-''" "digit_char d \<noteq> CHR ''+''" "digit_char d \<noteq> CHR ''~''"
    "digit_char d \<noteq> CHR '':''" "digit_char d \<noteq> CHR ''_''" "digit_char d \<noteq> CHR '' ''"
  using char_digit_digit_char [OF assms] char_digit_None by (auto simp del: char_digit_digit_char)

lemma int_of_str_int_str [simp]: "int_of_str (int_str i) = Inr i"
proof (cases "i < 0")
  case True
  then show ?thesis by (simp add: int_str_def)
next
  case False
  obtain d xs where s: "d < 10" "nat_str (nat i) = digit_char d # xs" by (rule nat_str_Cons)
  have "nat_of_str (digit_char d # xs) = Inr (nat i)"
    using nat_of_str_nat_str [of "nat i"] s by simp
  with False s show ?thesis by (simp add: int_str_def del: nat_of_str.simps)
qed

lemma int_str_nonempty [simp]: "int_str i \<noteq> []"
  by (simp add: int_str_def)

lemma int_str_inject [simp]: "(int_str i = int_str j) = (i = j)"
  by (metis int_of_str_int_str sum.inject(2))

end
