(* ===== verification/HeteroName.thy ===== *)
theory HeteroName
  imports PyStr
begin

text \<open>
  \<^verbatim>\<open>python/dgl/distributed/graph_partition_book.py\<close>, the names: canonical edge types as
  strings (\<open>_etype_tuple_to_str\<close>, \<open>_etype_str_to_tuple\<close>), the data names under which
  the key-value store keeps the tensors of a heterogeneous graph (\<open>HeteroDataName\<close>,
  \<open>parse_hetero_data_name\<close>), and the policy strings \<open>PartitionPolicy\<close> parses.

  A node type is a Python string and an edge type a tuple of strings; where the code tests
  which of the two it has, the value is a \<open>type_name\<close>.
\<close>

section \<open>The code\<close>

datatype type_name = TStr string | TTup "string list"

definition CANONICAL_ETYPE_DELIMITER :: char where "CANONICAL_ETYPE_DELIMITER = CHR '':''"
definition POLICY_DELIMITER :: char where "POLICY_DELIMITER = CHR ''~''"
definition NODE_PART_POLICY :: string where "NODE_PART_POLICY = ''node''"
definition EDGE_PART_POLICY :: string where "EDGE_PART_POLICY = ''edge''"
definition DEFAULT_NTYPE :: string where "DEFAULT_NTYPE = ''_N''"
definition DEFAULT_ETYPE :: "string list" where "DEFAULT_ETYPE = [''_N'', ''_E'', ''_N'']"

lemmas name_consts = CANONICAL_ETYPE_DELIMITER_def POLICY_DELIMITER_def NODE_PART_POLICY_def
  EDGE_PART_POLICY_def DEFAULT_NTYPE_def DEFAULT_ETYPE_def

fun etype_tuple_to_str :: "type_name \<Rightarrow> string res" where
  "etype_tuple_to_str (TStr s) = Inl AssertionError"
| "etype_tuple_to_str (TTup ts) =
     (if length ts = 3 then Inr (join_with CANONICAL_ETYPE_DELIMITER ts) else Inl AssertionError)"

definition etype_str_to_tuple :: "string \<Rightarrow> type_name res" where
  "etype_str_to_tuple c_etype =
     (let ret = split_on CANONICAL_ETYPE_DELIMITER c_etype
      in if length ret = 3 then Inr (TTup ret) else Inl AssertionError)"

record hetero_data_name =
  hdn_policy :: string
  hdn_entity_type :: type_name
  hdn_data_name :: string

definition hetero_data_name_init :: "bool \<Rightarrow> type_name \<Rightarrow> string \<Rightarrow> hetero_data_name res" where
  "hetero_data_name_init is_node entity_type data_name =
     rbind (rassert (is_node \<or> (case entity_type of TTup ts \<Rightarrow> length ts = 3 | TStr _ \<Rightarrow> False))
              AssertionError) (\<lambda>_.
     Inr \<lparr>hdn_policy = (if is_node then NODE_PART_POLICY else EDGE_PART_POLICY),
          hdn_entity_type = entity_type, hdn_data_name = data_name\<rparr>)"

definition hdn_is_node :: "hetero_data_name \<Rightarrow> bool" where
  "hdn_is_node h = (hdn_policy h = NODE_PART_POLICY)"

definition hdn_is_edge :: "hetero_data_name \<Rightarrow> bool" where
  "hdn_is_edge h = (hdn_policy h = EDGE_PART_POLICY)"

text \<open>\<open>policy_str\<close>: concatenating a tuple to a string is a \<open>TypeError\<close>.\<close>

definition hdn_policy_str :: "hetero_data_name \<Rightarrow> string res" where
  "hdn_policy_str h =
     rbind (if hdn_is_edge h then etype_tuple_to_str (hdn_entity_type h)
            else (case hdn_entity_type h of TStr s \<Rightarrow> Inr s | TTup _ \<Rightarrow> Inl TypeError))
       (\<lambda>entity_type. Inr (hdn_policy h @ POLICY_DELIMITER # entity_type))"

definition hdn_str :: "hetero_data_name \<Rightarrow> string res" where
  "hdn_str h = rbind (hdn_policy_str h) (\<lambda>p. Inr (p @ POLICY_DELIMITER # hdn_data_name h))"

definition parse_hetero_data_name :: "string \<Rightarrow> hetero_data_name res" where
  "parse_hetero_data_name name =
     (case split_on POLICY_DELIMITER name of
        [n0, n1, n2] \<Rightarrow>
          rbind (rassert (n0 = NODE_PART_POLICY \<or> n0 = EDGE_PART_POLICY) AssertionError) (\<lambda>_.
          let is_node = (n0 = NODE_PART_POLICY)
          in rbind (if is_node then Inr (TStr n1) else etype_str_to_tuple n1)
               (\<lambda>entity_type. hetero_data_name_init is_node entity_type n2))
      | _ \<Rightarrow> Inl AssertionError)"

text \<open>The string part of \<open>PartitionPolicy.__init__\<close>: the policy string that is stored, the
  type name and whether it is a node policy. The two-part unpacking of a string without the
  delimiter is a \<open>ValueError\<close>.\<close>

definition policy_fill_default :: "string \<Rightarrow> string" where
  "policy_fill_default s =
     (if s = NODE_PART_POLICY then NODE_PART_POLICY @ POLICY_DELIMITER # DEFAULT_NTYPE
      else if s = EDGE_PART_POLICY then EDGE_PART_POLICY @ POLICY_DELIMITER # (DEFAULT_ETYPE ! 1)
      else s)"

definition parse_policy_str :: "string \<Rightarrow> (string \<times> type_name \<times> bool) res" where
  "parse_policy_str policy_str =
     rbind (rassert (startswith policy_str NODE_PART_POLICY \<or> startswith policy_str EDGE_PART_POLICY)
              AssertionError) (\<lambda>_.
     let s = policy_fill_default policy_str
     in (case split_once POLICY_DELIMITER s of
           [part_policy, tname] \<Rightarrow>
             rbind (if part_policy = EDGE_PART_POLICY then etype_str_to_tuple tname
                    else Inr (TStr tname)) (\<lambda>t.
             Inr (s, t, startswith s NODE_PART_POLICY))
         | _ \<Rightarrow> Inl ValueError))"

section \<open>Lemmas\<close>

lemma delim_not_in_policy [simp]:
  "POLICY_DELIMITER \<notin> set NODE_PART_POLICY" "POLICY_DELIMITER \<notin> set EDGE_PART_POLICY"
  "NODE_PART_POLICY \<noteq> EDGE_PART_POLICY" "EDGE_PART_POLICY \<noteq> NODE_PART_POLICY"
  "POLICY_DELIMITER \<noteq> CANONICAL_ETYPE_DELIMITER"
  "CANONICAL_ETYPE_DELIMITER \<noteq> POLICY_DELIMITER"
  by (simp_all add: name_consts)

text \<open>The characters of a type name, and the names that survive being printed.\<close>

fun type_chars :: "type_name \<Rightarrow> char set" where
  "type_chars (TStr s) = set s"
| "type_chars (TTup ts) = \<Union> (set ` set ts)"

definition printable :: "type_name \<Rightarrow> string \<Rightarrow> bool" where
  "printable t n \<longleftrightarrow> POLICY_DELIMITER \<notin> type_chars t \<and> POLICY_DELIMITER \<notin> set n \<and>
     (case t of TStr _ \<Rightarrow> True | TTup ts \<Rightarrow> CANONICAL_ETYPE_DELIMITER \<notin> type_chars t)"

lemma split_on_3_iff:
  assumes "c \<notin> set p"
  shows "(length (split_on c (p @ c # t @ c # n)) = 3) = (c \<notin> set t \<and> c \<notin> set n)"
proof -
  have "length (filter (\<lambda>x. x = c) s) = 0 \<longleftrightarrow> c \<notin> set s" for s
    by (auto simp: filter_empty_conv)
  moreover have "length (filter (\<lambda>x. x = c) p) = 0" using assms by (auto simp: filter_empty_conv)
  ultimately show ?thesis by (auto simp: length_split_on)
qed

lemma split_on_3:
  "c \<notin> set p \<Longrightarrow> c \<notin> set t \<Longrightarrow> c \<notin> set n \<Longrightarrow> split_on c (p @ c # t @ c # n) = [p, t, n]"
  by simp

lemma join_3_no_delim:
  assumes "length ts = 3"
  shows "(d \<notin> set (join_with c ts)) = (d \<notin> \<Union> (set ` set ts) \<and> d \<noteq> c)"
proof -
  obtain x y z where "ts = [x, y, z]"
    using assms by (metis (no_types) length_0_conv length_Suc_conv numeral_3_eq_3)
  then show ?thesis by auto
qed

lemma split_join_3:
  assumes "length ts = 3"
  shows "(split_on c (join_with c ts) = ts) = (c \<notin> \<Union> (set ` set ts))"
    and "(length (split_on c (join_with c ts)) = 3) = (c \<notin> \<Union> (set ` set ts))"
proof -
  have ne: "ts \<noteq> []" using assms by auto
  have a: "c \<notin> \<Union> (set ` set ts)" if "length (split_on c (join_with c ts)) = 3"
  proof -
    have "sum_list (map (\<lambda>p. length (filter (\<lambda>x. x = c) p)) ts) = 0"
      using that assms filter_join_with [OF ne, of c c] by (simp add: length_split_on)
    then show ?thesis by (auto simp: filter_empty_conv)
  qed
  have b: "split_on c (join_with c ts) = ts" if "c \<notin> \<Union> (set ` set ts)"
    using that by (intro split_join [OF ne]) auto
  show "(split_on c (join_with c ts) = ts) = (c \<notin> \<Union> (set ` set ts))"
    by (metis a b assms)
  show "(length (split_on c (join_with c ts)) = 3) = (c \<notin> \<Union> (set ` set ts))"
    by (metis a b assms)
qed

lemma parse_other_length:
  "length (split_on POLICY_DELIMITER s) \<noteq> 3 \<Longrightarrow> parse_hetero_data_name s = Inl AssertionError"
  by (auto simp: parse_hetero_data_name_def split: list.splits)

lemma parse_split:
  assumes "split_on POLICY_DELIMITER s = [p, t, n]"
  shows "parse_hetero_data_name s =
    (if p = NODE_PART_POLICY then Inr \<lparr>hdn_policy = p, hdn_entity_type = TStr t, hdn_data_name = n\<rparr>
     else if p = EDGE_PART_POLICY then
       (if length (split_on CANONICAL_ETYPE_DELIMITER t) = 3 then
          Inr \<lparr>hdn_policy = p, hdn_entity_type = TTup (split_on CANONICAL_ETYPE_DELIMITER t),
               hdn_data_name = n\<rparr>
        else Inl AssertionError)
     else Inl AssertionError)"
  using assms
  by (simp add: parse_hetero_data_name_def hetero_data_name_init_def etype_str_to_tuple_def Let_def)

lemma hdn_init_cases:
  assumes "hetero_data_name_init b t n = Inr h" and "hdn_str h = Inr s"
  obtains (node) u where "b" "t = TStr u"
      "h = \<lparr>hdn_policy = NODE_PART_POLICY, hdn_entity_type = t, hdn_data_name = n\<rparr>"
      "s = NODE_PART_POLICY @ POLICY_DELIMITER # u @ POLICY_DELIMITER # n"
  | (edge) ts where "\<not> b" "t = TTup ts" "length ts = 3"
      "h = \<lparr>hdn_policy = EDGE_PART_POLICY, hdn_entity_type = t, hdn_data_name = n\<rparr>"
      "s = EDGE_PART_POLICY @ POLICY_DELIMITER # join_with CANONICAL_ETYPE_DELIMITER ts
             @ POLICY_DELIMITER # n"
  using assms
  by (cases b; cases t)
     (auto simp: hetero_data_name_init_def hdn_str_def hdn_policy_str_def hdn_is_edge_def res_simps
        split: if_splits)

section \<open>Properties\<close>

text \<open>Printing a data name and parsing it gives the name back exactly when no part of it
  contains a delimiter: \<open>~\<close> in the type or the name, \<open>:\<close> in a component of a canonical
  edge type. So the key under which the store keeps a tensor identifies the tensor for all names
  without delimiters, and for no other name is it readable.\<close>

theorem parse_hetero_data_name_str:
  assumes "hetero_data_name_init is_node t n = Inr h" and "hdn_str h = Inr s"
  shows "(parse_hetero_data_name s = Inr h) = printable t n"
  using assms
proof (cases rule: hdn_init_cases)
  case (node u)
  show ?thesis
  proof (cases "POLICY_DELIMITER \<notin> set u \<and> POLICY_DELIMITER \<notin> set n")
    case True
    then have "split_on POLICY_DELIMITER s = [NODE_PART_POLICY, u, n]" using node by simp
    from parse_split [OF this] show ?thesis using True node by (simp add: printable_def)
  next
    case False
    then have "length (split_on POLICY_DELIMITER s) \<noteq> 3"
      unfolding node(4) by (subst split_on_3_iff) auto
    with False node show ?thesis by (auto simp: parse_other_length printable_def)
  qed
next
  case (edge ts)
  let ?t = "join_with CANONICAL_ETYPE_DELIMITER ts"
  have t: "POLICY_DELIMITER \<notin> set ?t \<longleftrightarrow> POLICY_DELIMITER \<notin> type_chars t"
    using join_3_no_delim [OF edge(3)] edge(2) by simp
  show ?thesis
  proof (cases "POLICY_DELIMITER \<notin> set ?t \<and> POLICY_DELIMITER \<notin> set n")
    case True
    then have "split_on POLICY_DELIMITER s = [EDGE_PART_POLICY, ?t, n]" using edge by simp
    from parse_split [OF this] show ?thesis
      using True t edge split_join_3 [OF edge(3), of CANONICAL_ETYPE_DELIMITER]
      by (auto simp: printable_def)
  next
    case False
    then have "length (split_on POLICY_DELIMITER s) \<noteq> 3"
      unfolding edge(5) by (subst split_on_3_iff) auto
    with False t edge show ?thesis by (auto simp: parse_other_length printable_def)
  qed
qed

theorem parse_hetero_data_name_str_witness:
  "(parse_hetero_data_name ''edge~user:like:item~w''
     = Inr \<lparr>hdn_policy = ''edge'', hdn_entity_type = TTup [''user'', ''like'', ''item''],
            hdn_data_name = ''w''\<rparr>)
    = printable (TTup [''user'', ''like'', ''item'']) ''w''"
  by (rule parse_hetero_data_name_str [of False])
     (simp_all add: hetero_data_name_init_def hdn_str_def hdn_policy_str_def hdn_is_edge_def
        name_consts)

text \<open>A name that parses is printed back unchanged: the parser loses nothing.\<close>

theorem str_parse_hetero_data_name:
  assumes "parse_hetero_data_name s = Inr h"
  shows "hdn_str h = Inr s"
proof -
  have "length (split_on POLICY_DELIMITER s) = 3"
    using assms parse_other_length [of s] by auto
  then obtain p t n where split: "split_on POLICY_DELIMITER s = [p, t, n]"
    by (metis (no_types) length_0_conv length_Suc_conv numeral_3_eq_3)
  have s: "s = p @ POLICY_DELIMITER # t @ POLICY_DELIMITER # n"
    using join_split [of POLICY_DELIMITER s] split by simp
  show ?thesis using assms unfolding parse_split [OF split]
    by (auto simp: s hdn_str_def hdn_policy_str_def hdn_is_edge_def split: if_splits)
qed

theorem str_parse_hetero_data_name_witness:
  "hdn_str \<lparr>hdn_policy = ''node'', hdn_entity_type = TStr ''_N'', hdn_data_name = ''h''\<rparr>
    = Inr ''node~_N~h''"
  by (rule str_parse_hetero_data_name)
     (simp add: parse_hetero_data_name_def hetero_data_name_init_def name_consts)

end
