(* ===== verification/NdArray.thy ===== *)
theory NdArray
  imports Prelude "HOL-Library.Multiset"
begin

text \<open>
  Arrays and the parts of NumPy the sources call. A vector is a list of \<open>int\<close> (the
  library's 64-bit identifiers; no operation modelled here leaves that range on identifiers
  of a graph), a two-column array a list of pairs, and a tensor of rows a list of rows. Reading
  and writing by an index vector, element-wise arithmetic and \<open>arange\<close> are the
  representation of arrays and are defined here.

  The algorithms of NumPy are not part of this repository: they are the fields of a record
  \<open>numpy\<close> that the definitions using them take as an argument, and
  \<open>numpy_laws\<close> states what NumPy's documentation promises of them. \<open>numpy_ref\<close> is an
  executable instance that satisfies the laws; only closed examples use it.
\<close>

section \<open>Arrays as lists\<close>

text \<open>\<open>arange(start, stop)\<close>.\<close>

definition arange :: "int \<Rightarrow> int \<Rightarrow> int list" where
  "arange start stop = [start..stop - 1]"

text \<open>Indexing by a vector, \<open>x[idx]\<close> (negative indices count from the end), and the
  backend's \<open>gather_row\<close>, whose \<open>index_select\<close> takes no negative index.\<close>

definition take_rows :: "'a list \<Rightarrow> int list \<Rightarrow> 'a list res" where
  "take_rows xs idx = rmap (py_index xs) idx"

definition gather_row :: "'a list \<Rightarrow> int list \<Rightarrow> 'a list res" where
  "gather_row xs idx =
     rmap (\<lambda>i. if 0 \<le> i \<and> i < int (length xs) then Inr (xs ! nat i) else Inl IndexError) idx"

text \<open>Writing by a vector, \<open>x[idx] = vals\<close>: one row per index, left to right; a single row is
  written to every index, and any other length does not fit (\<open>RuntimeError\<close>). Where an index is
  repeated, which of the rows stays is not fixed by the library; the model keeps the last one, and
  no property below depends on it.\<close>

definition put_rows :: "'a list \<Rightarrow> int list \<Rightarrow> 'a list \<Rightarrow> 'a list res" where
  "put_rows xs idx vals =
     (let vs = (if length vals = 1 then replicate (length idx) (hd vals) else vals) in
      if length idx = length vs
      then rfold (\<lambda>ys (i, v). py_set_index ys i v) xs (zip idx vs)
      else Inl RuntimeError)"

text \<open>The backend's \<open>nonzero_1d\<close>: the places where a vector of truth values holds.\<close>

definition nonzero_1d :: "bool list \<Rightarrow> int list" where
  "nonzero_1d xs = map int (filter (\<lambda>i. xs ! i) [0..<length xs])"

lemma length_arange [simp]: "length (arange a b) = nat (b - a)"
  by (simp add: arange_def)

lemma set_arange [simp]: "set (arange a b) = {a..<b}"
  by (auto simp: arange_def)

lemma arange_nth [simp]: "int i < b - a \<Longrightarrow> arange a b ! i = a + int i"
  by (simp add: arange_def nth_upto)

lemma sorted_arange [simp]: "sorted (arange a b)"
  by (simp add: arange_def)

definition valid_index :: "'a list \<Rightarrow> int \<Rightarrow> bool" where
  "valid_index xs i \<longleftrightarrow> 0 \<le> i \<and> i < int (length xs)"

lemma take_rows_valid:
  "(\<And>i. i \<in> set idx \<Longrightarrow> valid_index xs i) \<Longrightarrow> take_rows xs idx = Inr (map (\<lambda>i. xs ! nat i) idx)"
  unfolding take_rows_def by (rule rmap_total) (simp add: valid_index_def)

lemma gather_row_valid:
  "(\<And>i. i \<in> set idx \<Longrightarrow> valid_index xs i) \<Longrightarrow> gather_row xs idx = Inr (map (\<lambda>i. xs ! nat i) idx)"
  unfolding gather_row_def by (rule rmap_total) (simp add: valid_index_def)

lemma put_pairs:
  assumes "distinct (map fst zs)" and "\<forall>(i, v) \<in> set zs. valid_index xs i"
  shows "rfold (\<lambda>ys (i, v). py_set_index ys i v) xs zs =
    Inr (map (\<lambda>j. case map_of zs (int j) of None \<Rightarrow> xs ! j | Some v \<Rightarrow> v) [0..<length xs])"
  using assms
proof (induction zs arbitrary: xs)
  case Nil
  then show ?case by (simp add: map_nth)
next
  case (Cons z zs)
  obtain i v where z: "z = (i, v)" by (cases z)
  have i: "0 \<le> i" "i < int (length xs)" using Cons.prems(2) z by (auto simp: valid_index_def)
  let ?ys = "xs[nat i := v]"
  have "py_set_index xs i v = Inr ?ys" using i by (simp add: py_set_index_def Let_def)
  moreover have "rfold (\<lambda>ys (i, v). py_set_index ys i v) ?ys zs =
      Inr (map (\<lambda>j. case map_of zs (int j) of None \<Rightarrow> ?ys ! j | Some v \<Rightarrow> v) [0..<length ?ys])"
    using Cons.prems by (intro Cons.IH) (auto simp: valid_index_def)
  moreover have "(case map_of zs (int j) of None \<Rightarrow> ?ys ! j | Some v \<Rightarrow> v) =
      (case map_of (z # zs) (int j) of None \<Rightarrow> xs ! j | Some v \<Rightarrow> v)" if "j < length xs" for j
  proof (cases "int j = i")
    case True
    then have "map_of zs (int j) = None" using Cons.prems(1) z by (auto simp: map_of_eq_None_iff)
    then show ?thesis using True that z by auto
  next
    case False
    then have "j \<noteq> nat i" using i by auto
    then show ?thesis using False z by (cases "map_of zs (int j)") simp_all
  qed
  ultimately show ?case by (simp add: z)
qed

lemma put_rows_distinct:
  assumes "distinct idx" and "\<forall>i \<in> set idx. valid_index xs i" and "length idx = length vals"
  shows "put_rows xs idx vals =
    Inr (map (\<lambda>j. case map_of (zip idx vals) (int j) of None \<Rightarrow> xs ! j | Some v \<Rightarrow> v) [0..<length xs])"
proof -
  have "(if length vals = 1 then replicate (length idx) (hd vals) else vals) = vals"
    using assms(3) by (cases vals) auto
  moreover have "rfold (\<lambda>ys (i, v). py_set_index ys i v) xs (zip idx vals) =
      Inr (map (\<lambda>j. case map_of (zip idx vals) (int j) of None \<Rightarrow> xs ! j | Some v \<Rightarrow> v) [0..<length xs])"
    using assms by (intro put_pairs) (auto dest: set_zip_leftD)
  ultimately show ?thesis using assms(3) by (simp add: put_rows_def Let_def)
qed

section \<open>The third-party algorithms\<close>

record numpy =
  np_cumsum :: "int list \<Rightarrow> int list"
  np_searchsorted_right :: "int list \<Rightarrow> int list \<Rightarrow> int list"
  np_argsort :: "int list \<Rightarrow> int list"
  np_unique_counts :: "int list \<Rightarrow> (int \<times> int) list"

text \<open>\<open>searchsorted(a, v, side="right")\<close>: the index \<open>i\<close> with
  \<open>a[i-1] <= v < a[i]\<close>, for each value.\<close>

definition insertion_right :: "int list \<Rightarrow> int \<Rightarrow> int \<Rightarrow> bool" where
  "insertion_right a v i \<longleftrightarrow> 0 \<le> i \<and> i \<le> int (length a) \<and>
     (\<forall>j<nat i. a ! j \<le> v) \<and> (\<forall>j<length a. nat i \<le> j \<longrightarrow> v < a ! j)"

definition numpy_laws :: "numpy \<Rightarrow> bool" where
  "numpy_laws N \<longleftrightarrow>
     (\<forall>xs. np_cumsum N xs = prefix_sums xs) \<and>
     (\<forall>a vs. sorted a \<longrightarrow> list_all2 (insertion_right a) vs (np_searchsorted_right N a vs)) \<and>
     (\<forall>xs. mset (np_argsort N xs) = mset (arange 0 (int (length xs))) \<and>
           sorted (map (\<lambda>i. xs ! nat i) (np_argsort N xs))) \<and>
     (\<forall>xs. sorted_wrt (<) (map fst (np_unique_counts N xs)) \<and>
           set (map fst (np_unique_counts N xs)) = set xs \<and>
           (\<forall>(x, c) \<in> set (np_unique_counts N xs). c = int (count_list xs x)))"

definition numpy_ref :: numpy where
  "numpy_ref =
     \<lparr>np_cumsum = prefix_sums,
      np_searchsorted_right = (\<lambda>a vs. map (\<lambda>v. int (length (filter (\<lambda>x. x \<le> v) a))) vs),
      np_argsort = (\<lambda>xs. map int (sort_key (\<lambda>i. xs ! i) [0..<length xs])),
      np_unique_counts = (\<lambda>xs. map (\<lambda>x. (x, int (count_list xs x))) (sort (remdups xs)))\<rparr>"

lemma filter_le_sorted:
  assumes "sorted (a :: int list)"
  shows "insertion_right a v (int (length (filter (\<lambda>x. x \<le> v) a)))"
proof -
  have "filter (\<lambda>x. x \<le> v) a = takeWhile (\<lambda>x. x \<le> v) a"
    using assms
  proof (induction a)
    case Nil
    then show ?case by simp
  next
    case (Cons x a)
    then show ?case by (cases "x \<le> v") (auto simp: filter_empty_conv takeWhile_eq_Nil_iff dest!: hd_in_set)
  qed
  moreover have "\<not> a ! j \<le> v" if "length (takeWhile (\<lambda>x. x \<le> v) a) \<le> j" "j < length a" for j
  proof -
    let ?k = "length (takeWhile (\<lambda>x. x \<le> v) a)"
    have "\<not> a ! ?k \<le> v" using that by (intro nth_length_takeWhile) auto
    moreover have "a ! ?k \<le> a ! j" using assms that by (simp add: sorted_nth_mono)
    ultimately show ?thesis by linarith
  qed
  moreover have "a ! j \<le> v" if "j < length (takeWhile (\<lambda>x. x \<le> v) a)" for j
    using that by (metis nth_mem set_takeWhileD takeWhile_nth)
  ultimately show ?thesis
    by (auto simp: insertion_right_def length_takeWhile_le not_le)
qed

lemma numpy_ref_laws: "numpy_laws numpy_ref"
proof -
  have "mset (map int (sort_key (\<lambda>i. xs ! i) [0..<length xs])) = mset (arange 0 (int (length xs)))"
    for xs :: "int list"
  proof -
    have "mset (map int (sort_key (\<lambda>i. xs ! i) [0..<length xs])) =
        image_mset int (mset (sort_key (\<lambda>i. xs ! i) [0..<length xs]))" by (rule mset_map)
    also have "\<dots> = mset (map int [0..<length xs])" by simp
    also have "map int [0..<length xs] = arange 0 (int (length xs))"
      by (rule nth_equalityI) simp_all
    finally show ?thesis .
  qed
  moreover have "sorted (map (\<lambda>i. xs ! nat i) (map int (sort_key (\<lambda>i. xs ! i) [0..<length xs])))"
    for xs :: "int list" by (simp add: comp_def)
  moreover have "sorted_wrt (<) (sort (remdups xs))" for xs :: "int list"
    by (simp add: strict_sorted_iff)
  ultimately show ?thesis
    by (auto simp: numpy_laws_def numpy_ref_def list_all2_conv_all_nth filter_le_sorted comp_def)
qed

lemma numpy_cumsum: "numpy_laws N \<Longrightarrow> np_cumsum N xs = prefix_sums xs"
  by (simp add: numpy_laws_def)

lemma insertion_right_unique:
  assumes "insertion_right a v i" and "insertion_right a v k"
  shows "i = k"
proof (rule ccontr)
  have *: False if "insertion_right a v i" "insertion_right a v k" "i < k" for i k
  proof -
    have "nat i < nat k" "nat i < length a" using that by (auto simp: insertion_right_def)
    then have "a ! nat i \<le> v" "v < a ! nat i" using that by (auto simp: insertion_right_def)
    then show False by simp
  qed
  assume "i \<noteq> k"
  then show False using assms * by (metis linorder_neqE)
qed

lemma searchsorted_map:
  assumes "numpy_laws N" and "sorted a" and "\<And>x. x \<in> set xs \<Longrightarrow> insertion_right a (f x) (g x)"
  shows "np_searchsorted_right N a (map f xs) = map g xs"
proof (rule nth_equalityI)
  have all: "list_all2 (insertion_right a) (map f xs) (np_searchsorted_right N a (map f xs))"
    using assms(1,2) by (simp add: numpy_laws_def)
  then show len: "length (np_searchsorted_right N a (map f xs)) = length (map g xs)"
    by (auto dest: list_all2_lengthD)
  fix i
  assume "i < length (np_searchsorted_right N a (map f xs))"
  then have i: "i < length xs" using len by simp
  then have "insertion_right a (f (xs ! i)) (np_searchsorted_right N a (map f xs) ! i)"
    using list_all2_nthD [OF all, of i] by simp
  then show "np_searchsorted_right N a (map f xs) ! i = map g xs ! i"
    using insertion_right_unique [OF _ assms(3) [OF nth_mem [OF i]]] i by simp
qed

lemma insertion_right_bucket:
  assumes "sorted a" and "p < length a" and "v < a ! p" and "p = 0 \<or> a ! (p - 1) \<le> v"
  shows "insertion_right a v (int p)"
proof -
  have "a ! j \<le> v" if "j < p" for j
  proof -
    have "a ! j \<le> a ! (p - 1)" using assms that by (intro sorted_nth_mono) auto
    then show ?thesis using assms(4) that by auto
  qed
  moreover have "v < a ! j" if "p \<le> j" "j < length a" for j
    using assms(3) sorted_nth_mono [OF assms(1) that] by simp
  ultimately show ?thesis using assms(2) by (auto simp: insertion_right_def)
qed

end
