(* ===== verification/IdMap.thy ===== *)
theory IdMap
  imports NdArray
begin

text \<open>
  \<^verbatim>\<open>python/dgl/distributed/id_map.py\<close>: \<open>IdMap\<close>, which takes homogeneous node or edge
  IDs of a partitioned graph to pairs of a type ID and an ID within the type, and the C++
  function \<open>MapIds\<close> behind it (\<^verbatim>\<open>src/graph/graph_op.cc\<close>).

  The partitioner numbers the entities partition by partition and, within a partition, type by
  type. \<open>layout P bs rs\<close> says that: with \<open>T\<close> types, the range of type \<open>t\<close> in
  partition \<open>p\<close> goes from boundary \<open>p * T + t\<close> to the next one.
\<close>

section \<open>The code\<close>

type_synonym id_range = "(int \<times> int) list"

record id_map =
  im_num_parts :: nat
  im_num_types :: nat
  im_range_start :: "int list"
  im_range_end :: "int list"
  im_typed_map :: "int list"

text \<open>\<open>ranges[i :: num_types] = id_range\<close>: the right side must have one row per partition,
  or a single row, which is repeated.\<close>

definition broadcast_rows :: "nat \<Rightarrow> id_range \<Rightarrow> id_range res" where
  "broadcast_rows n rows =
     (if length rows = n then Inr rows
      else if length rows = 1 then Inr (replicate n (hd rows)) else Inl ValueError)"

definition interleave :: "nat \<Rightarrow> id_range list \<Rightarrow> id_range" where
  "interleave num_parts rs =
     map (\<lambda>k. rs ! (k mod length rs) ! (k div length rs)) [0..<num_parts * length rs]"

definition id_map_init :: "numpy \<Rightarrow> id_range list \<Rightarrow> id_map res" where
  "id_map_init N id_ranges_values =
     (case id_ranges_values of
        [] \<Rightarrow> Inl IndexError
      | first # _ \<Rightarrow>
          let num_parts = length first; num_types = length id_ranges_values in
          rbind (rassert (list_all (\<lambda>a. a \<noteq> []) id_ranges_values) IndexError) (\<lambda>_.
          let id_ranges = sort_key (\<lambda>a. fst (hd a)) id_ranges_values in
          rbind (rmap (broadcast_rows num_parts) id_ranges) (\<lambda>rows.
          let ranges = interleave num_parts rows;
              typed_map = map (\<lambda>a. np_cumsum N (map (\<lambda>(s, e). e - s) a)) id_ranges in
          rbind (rassert (sorted (map fst ranges)) AssertionError) (\<lambda>_.
          rbind (rassert (sorted (map snd ranges)) AssertionError) (\<lambda>_.
          Inr \<lparr>im_num_parts = num_parts, im_num_types = num_types,
               im_range_start = map fst ranges,
               im_range_end = map (\<lambda>r. snd r - 1) ranges,
               im_typed_map = concat typed_map\<rparr>)))))"

text \<open>\<open>std::lower_bound\<close> on a sorted range: the position of the first element that is not
  less than the value.\<close>

definition lower_bound :: "int list \<Rightarrow> int \<Rightarrow> nat" where
  "lower_bound xs v = length (takeWhile (\<lambda>x. x < v) xs)"

text \<open>The body of the loop of \<open>MapIds\<close>. A failed \<open>BUG_IF_FAIL\<close> reaches Python as a
  \<open>DGLError\<close>.\<close>

definition map_id :: "id_map \<Rightarrow> int \<Rightarrow> (int \<times> int) res" where
  "map_id m i =
     (let range_id = lower_bound (im_range_end m) i in
      if range_id = length (im_range_end m) then Inl DGLError
      else
        let type_id = range_id mod im_num_types m; part_id = range_id div im_num_types m in
        if \<not> part_id < im_num_parts m then Inl DGLError
        else Inr (int type_id,
               if part_id = 0 then i - im_range_start m ! range_id
               else i - im_range_start m ! range_id +
                    im_typed_map m ! (im_num_parts m * type_id + part_id - 1)))"

definition id_map_call :: "id_map \<Rightarrow> int list \<Rightarrow> (int list \<times> int list) res" where
  "id_map_call m ids =
     (if im_num_types m = 0 then Inr (replicate (length ids) 0, ids)
      else if length ids = 0 then Inr (ids, ids)
      else rbind (rmap (map_id m) ids) (\<lambda>ret. Inr (map fst ret, map snd ret)))"

section \<open>The layout of a partitioned graph\<close>

definition layout :: "nat \<Rightarrow> int list \<Rightarrow> id_range list \<Rightarrow> bool" where
  "layout P bs rs \<longleftrightarrow> 0 < P \<and> rs \<noteq> [] \<and> sorted bs \<and> length bs = P * length rs + 1 \<and> bs ! 0 = 0 \<and>
     (\<forall>t<length rs. length (rs ! t) = P \<and>
        (\<forall>p<P. rs ! t ! p = (bs ! (p * length rs + t), bs ! (p * length rs + t + 1))))"

text \<open>\<open>span\<close>: how many entities of type \<open>t\<close> partition \<open>p\<close> has; \<open>typed_start\<close>: the first
  type-wise ID of type \<open>t\<close> in partition \<open>p\<close>.\<close>

definition span :: "int list \<Rightarrow> nat \<Rightarrow> nat \<Rightarrow> nat \<Rightarrow> int" where
  "span bs T t p = bs ! (p * T + t + 1) - bs ! (p * T + t)"

definition typed_start :: "int list \<Rightarrow> nat \<Rightarrow> nat \<Rightarrow> nat \<Rightarrow> int" where
  "typed_start bs T t p = (\<Sum>q<p. span bs T t q)"

lemma layoutD:
  assumes "layout P bs rs"
  shows "0 < P" "0 < length rs" "sorted bs" "length bs = P * length rs + 1" "bs ! 0 = 0"
    "t < length rs \<Longrightarrow> length (rs ! t) = P"
    "t < length rs \<Longrightarrow> p < P \<Longrightarrow>
      rs ! t ! p = (bs ! (p * length rs + t), bs ! (p * length rs + t + 1))"
  using assms by (auto simp: layout_def)

lemma cell_less:
  assumes "t < T" and "p < (P :: nat)"
  shows "p * T + t < P * T"
proof -
  have "Suc p * T \<le> P * T" using assms by (intro mult_right_mono) auto
  then show ?thesis using assms by simp
qed

lemma cell_div_mod:
  assumes "t < (T :: nat)"
  shows "(p * T + t) div T = p" and "(p * T + t) mod T = t"
  using assms by simp_all

lemma layout_step:
  assumes "layout P bs rs" and "t < length rs" and "p < P"
  shows "bs ! (p * length rs + t) \<le> bs ! (p * length rs + t + 1)"
  using cell_less [OF assms(2,3)] layoutD(3,4) [OF assms(1)]
  by (intro sorted_nth_mono) auto

lemma span_nonneg: "layout P bs rs \<Longrightarrow> t < length rs \<Longrightarrow> p < P \<Longrightarrow> 0 \<le> span bs (length rs) t p"
  using layout_step by (simp add: span_def)

lemma typed_start_Suc: "typed_start bs T t (Suc p) = typed_start bs T t p + span bs T t p"
  by (simp add: typed_start_def)

lemma typed_start_0 [simp]: "typed_start bs T t 0 = 0"
  by (simp add: typed_start_def)

lemma typed_start_mono:
  assumes "layout P bs rs" and "t < length rs" and "p \<le> q" and "q \<le> P"
  shows "typed_start bs (length rs) t p \<le> typed_start bs (length rs) t q"
  unfolding typed_start_def
  using assms span_nonneg [OF assms(1,2)] by (intro sum_mono2) auto

lemma interleave_layout:
  assumes "layout P bs rs"
  shows "interleave P rs = map (\<lambda>k. (bs ! k, bs ! (k + 1))) [0..<P * length rs]"
proof -
  have "rs ! (k mod length rs) ! (k div length rs) = (bs ! k, bs ! (k + 1))"
    if "k < P * length rs" for k
  proof -
    have "k mod length rs < length rs" using layoutD(2) [OF assms] by simp
    moreover have "k div length rs < P" using that by (simp add: less_mult_imp_div_less)
    moreover have "k div length rs * length rs + k mod length rs = k" by simp
    ultimately show ?thesis using layoutD(7) [OF assms, of "k mod length rs" "k div length rs"]
      by (simp only: prod.inject)
  qed
  then show ?thesis by (simp add: interleave_def)
qed

lemma concat_nth_uniform:
  assumes "\<And>xs. xs \<in> set xss \<Longrightarrow> length xs = P" and "t < length xss" and "j < P"
  shows "concat xss ! (P * t + j) = xss ! t ! j"
  using assms
proof (induction xss arbitrary: t)
  case Nil
  then show ?case by simp
next
  case (Cons xs xss)
  have len: "length xs = P" using Cons.prems(1) by simp
  show ?case
  proof (cases t)
    case 0
    then show ?thesis using Cons.prems(3) len by (simp add: nth_append)
  next
    case (Suc u)
    have "concat xss ! (P * u + j) = xss ! u ! j"
      using Cons.prems Suc by (intro Cons.IH) auto
    then show ?thesis using Suc len by (simp add: nth_append)
  qed
qed

lemma sum_list_spans:
  assumes "layout P bs rs" and "t < length rs" and "p \<le> P"
  shows "sum_list (take p (map (\<lambda>(s, e). e - s) (rs ! t))) = typed_start bs (length rs) t p"
  using assms(3)
proof (induction p)
  case 0
  then show ?case by simp
next
  case (Suc p)
  have len: "length (map (\<lambda>(s, e). e - s) (rs ! t)) = P" using layoutD(6) [OF assms(1,2)] by simp
  have "map (\<lambda>(s, e). e - s) (rs ! t) ! p = span bs (length rs) t p"
    using layoutD(6) [OF assms(1,2)] layoutD(7) [OF assms(1,2)] Suc.prems
    by (simp add: span_def)
  with Suc len show ?case by (simp add: sum_list_take_Suc typed_start_Suc)
qed

text \<open>On a layout the constructor succeeds, and this is the map it builds.\<close>

definition layout_map :: "nat \<Rightarrow> int list \<Rightarrow> id_range list \<Rightarrow> id_map" where
  "layout_map P bs rs =
     \<lparr>im_num_parts = P, im_num_types = length rs,
      im_range_start = map (\<lambda>k. bs ! k) [0..<P * length rs],
      im_range_end = map (\<lambda>k. bs ! (k + 1) - 1) [0..<P * length rs],
      im_typed_map = concat (map (\<lambda>a. prefix_sums (map (\<lambda>(s, e). e - s) a)) rs)\<rparr>"

lemma id_map_init_ne:
  assumes "rs \<noteq> []" and "list_all (\<lambda>a. a \<noteq> []) rs" and "length (hd rs) = P"
    and "sort_key (\<lambda>a. fst (hd a)) rs = rs" and "rmap (broadcast_rows P) rs = Inr rs"
    and "sorted (map fst (interleave P rs))" and "sorted (map snd (interleave P rs))"
  shows "id_map_init N rs = Inr
     \<lparr>im_num_parts = P, im_num_types = length rs,
      im_range_start = map fst (interleave P rs),
      im_range_end = map (\<lambda>r. snd r - 1) (interleave P rs),
      im_typed_map = concat (map (\<lambda>a. np_cumsum N (map (\<lambda>(s, e). e - s) a)) rs)\<rparr>"
proof -
  obtain a as where "rs = a # as" using assms(1) by (cases rs) auto
  then have "id_map_init N rs =
     (let num_parts = length (hd rs); num_types = length rs in
          rbind (rassert (list_all (\<lambda>a. a \<noteq> []) rs) IndexError) (\<lambda>_.
          let id_ranges = sort_key (\<lambda>a. fst (hd a)) rs in
          rbind (rmap (broadcast_rows num_parts) id_ranges) (\<lambda>rows.
          let ranges = interleave num_parts rows;
              typed_map = map (\<lambda>a. np_cumsum N (map (\<lambda>(s, e). e - s) a)) id_ranges in
          rbind (rassert (sorted (map fst ranges)) AssertionError) (\<lambda>_.
          rbind (rassert (sorted (map snd ranges)) AssertionError) (\<lambda>_.
          Inr \<lparr>im_num_parts = num_parts, im_num_types = num_types,
               im_range_start = map fst ranges,
               im_range_end = map (\<lambda>r. snd r - 1) ranges,
               im_typed_map = concat typed_map\<rparr>)))))"
    by (simp add: id_map_init_def)
  then show ?thesis using assms(2-) by (simp add: Let_def)
qed

lemma id_map_init_layout:
  assumes "numpy_laws N" and "layout P bs rs"
  shows "id_map_init N rs = Inr (layout_map P bs rs)"
proof -
  have len: "length a = P" if "a \<in> set rs" for a
    using that layoutD(6) [OF assms(2)] by (auto simp: in_set_conv_nth)
  have P: "0 < P" using layoutD(1) [OF assms(2)] .
  have rs: "rs \<noteq> []" using layoutD(2) [OF assms(2)] by auto
  have ne: "list_all (\<lambda>a. a \<noteq> []) rs" using len P by (force simp: list_all_iff)
  have "fst (hd (rs ! t)) = bs ! t" if "t < length rs" for t
    using layoutD(7) [OF assms(2) that P] layoutD(6) [OF assms(2) that] P
    by (cases "rs ! t") auto
  moreover have "bs ! i \<le> bs ! j" if "i \<le> j" "j < length rs" for i j
  proof -
    have "length rs \<le> P * length rs" using P by simp
    then have "j < length bs" using that(2) layoutD(4) [OF assms(2)] by linarith
    then show ?thesis using that(1) layoutD(3) [OF assms(2)] by (intro sorted_nth_mono)
  qed
  ultimately have "sorted (map (\<lambda>a. fst (hd a)) rs)"
    by (auto simp: sorted_iff_nth_mono)
  then have sort: "sort_key (\<lambda>a. fst (hd a)) rs = rs" by (rule sort_key_id_if_sorted)
  have rows: "rmap (broadcast_rows P) rs = Inr rs"
    using rmap_total [of rs "broadcast_rows P" "\<lambda>x. x"] len by (simp add: broadcast_rows_def)
  have s: "sorted (map (\<lambda>k. bs ! k) [0..<P * length rs])"
    "sorted (map (\<lambda>k. bs ! (k + 1)) [0..<P * length rs])"
    using layoutD(3,4) [OF assms(2)]
    by (auto simp: sorted_iff_nth_mono intro!: sorted_nth_mono)
  have "length (hd rs) = P" using rs len by simp
  then show ?thesis
    using s by (subst id_map_init_ne [OF rs ne _ sort rows])
      (simp_all add: interleave_layout [OF assms(2)] comp_def layout_map_def numpy_cumsum [OF assms(1)])
qed

text \<open>\<open>MapIds\<close> on a layout: an ID in the range of type \<open>t\<close> in partition \<open>p\<close>.\<close>

lemma lower_bound_eqI:
  assumes "k < length xs" and "\<And>j. j < k \<Longrightarrow> xs ! j < v" and "\<not> xs ! k < v"
  shows "lower_bound xs v = k"
proof -
  have "takeWhile (\<lambda>x. x < v) xs = take k xs"
    by (rule takeWhile_eq_take_P_nth) (use assms in auto)
  then show ?thesis using assms(1) by (simp add: lower_bound_def)
qed

lemma lower_bound_cell:
  assumes "sorted bs" and "length bs = n + 1" and "k < n" and "bs ! k \<le> i" and "i < bs ! (k + 1)"
  shows "lower_bound (map (\<lambda>k. bs ! (k + 1) - 1) [0..<n]) i = k"
proof (rule lower_bound_eqI)
  fix j
  assume "j < k"
  then have "bs ! (j + 1) \<le> bs ! k" using assms(1-3) by (intro sorted_nth_mono) auto
  then show "map (\<lambda>k. bs ! (k + 1) - 1) [0..<n] ! j < i"
    using assms(3,4) \<open>j < k\<close> by simp
qed (use assms(3,5) in simp_all)

text \<open>Every ID of the graph is in the range of one type in one partition.\<close>

definition in_cell :: "int list \<Rightarrow> nat \<Rightarrow> nat \<Rightarrow> nat \<Rightarrow> int \<Rightarrow> bool" where
  "in_cell bs T t p i \<longleftrightarrow> bs ! (p * T + t) \<le> i \<and> i < bs ! (p * T + t + 1)"

lemma bracket_exists:
  assumes "b 0 \<le> (i :: int)" and "i < b n"
  shows "\<exists>k<n. b k \<le> i \<and> i < b (Suc k)"
  using assms
proof (induction n)
  case 0
  then show ?case by simp
next
  case (Suc n)
  then show ?case by (cases "i < b n") (auto intro: less_SucI)
qed

lemma cell_exists:
  assumes "layout P bs rs" and "0 \<le> i" and "i < last bs"
  obtains t p where "t < length rs" and "p < P" and "in_cell bs (length rs) t p i"
proof -
  let ?n = "P * length rs"
  have "bs \<noteq> []" using layoutD(4) [OF assms(1)] by auto
  then have "last bs = bs ! ?n" using layoutD(4) [OF assms(1)] by (simp add: last_conv_nth)
  then obtain k where k: "k < ?n" "bs ! k \<le> i" "i < bs ! Suc k"
    using bracket_exists [of "(!) bs" i ?n] assms(2,3) layoutD(5) [OF assms(1)] by auto
  have T: "0 < length rs" using layoutD(2) [OF assms(1)] .
  show thesis
  proof (rule that)
    show "k mod length rs < length rs" using T by simp
    show "k div length rs < P" using k(1) by (simp add: less_mult_imp_div_less)
    show "in_cell bs (length rs) (k mod length rs) (k div length rs) i"
      using k(2,3) by (simp add: in_cell_def)
  qed
qed

lemma typed_map_nth:
  assumes "layout P bs rs" and "t < length rs" and "p < P" and "p \<noteq> 0"
  shows "im_typed_map (layout_map P bs rs) ! (P * t + p - 1) = typed_start bs (length rs) t p"
proof -
  let ?f = "\<lambda>a. prefix_sums (map (\<lambda>(s, e). e - s) a)"
  have len: "length xs = P" if "xs \<in> set (map ?f rs)" for xs
    using that layoutD(6) [OF assms(1)] by (auto simp: in_set_conv_nth)
  have "P * t + p - 1 = P * t + (p - 1)" using assms(4) by simp
  then have "im_typed_map (layout_map P bs rs) ! (P * t + p - 1) = ?f (rs ! t) ! (p - 1)"
    using concat_nth_uniform [of "map ?f rs" P t "p - 1"] len assms(2-4)
    by (simp add: layout_map_def)
  also have "\<dots> = sum_list (take p (map (\<lambda>(s, e). e - s) (rs ! t)))"
    using assms(3,4) layoutD(6) [OF assms(1,2)] by simp
  also have "\<dots> = typed_start bs (length rs) t p"
    using assms(3) by (intro sum_list_spans [OF assms(1,2)]) simp
  finally show ?thesis .
qed

lemma map_id_cell:
  assumes "layout P bs rs" and "t < length rs" and "p < P" and "in_cell bs (length rs) t p i"
  shows "map_id (layout_map P bs rs) i =
    Inr (int t, i - bs ! (p * length rs + t) + typed_start bs (length rs) t p)"
proof -
  let ?k = "p * length rs + t"
  have k: "?k < P * length rs" by (rule cell_less [OF assms(2,3)])
  have lb: "lower_bound (im_range_end (layout_map P bs rs)) i = ?k"
    using lower_bound_cell [OF layoutD(3,4) [OF assms(1)] k] assms(4)
    by (simp add: layout_map_def in_cell_def)
  have len: "length (im_range_end (layout_map P bs rs)) = P * length rs"
    "im_num_types (layout_map P bs rs) = length rs" "im_num_parts (layout_map P bs rs) = P"
    by (simp_all add: layout_map_def)
  have st: "im_range_start (layout_map P bs rs) ! ?k = bs ! ?k"
    using k by (simp add: layout_map_def)
  have ne: "?k \<noteq> P * length rs" using k by simp
  have dm: "?k mod length rs = t" "?k div length rs = p" by (rule cell_div_mod [OF assms(2)])+
  show ?thesis
    using assms(3) typed_map_nth [OF assms(1-3)]
    unfolding map_id_def lb len st dm Let_def using ne by (simp add: dm st)
qed

lemma map_id_out:
  assumes "layout P bs rs" and "last bs \<le> i"
  shows "map_id (layout_map P bs rs) i = Inl DGLError"
proof -
  have "x < i" if "x \<in> set (im_range_end (layout_map P bs rs))" for x
  proof -
    from that obtain k where "k < P * length rs" "x = bs ! (k + 1) - 1"
      by (auto simp: layout_map_def)
    moreover have "bs ! (k + 1) \<le> last bs" if "k < P * length rs" for k
    proof -
      have "bs \<noteq> []" using layoutD(4) [OF assms(1)] by auto
      then have "last bs = bs ! (P * length rs)"
        using layoutD(4) [OF assms(1)] by (simp add: last_conv_nth)
      then show ?thesis
        using that layoutD(3,4) [OF assms(1)] by (simp add: sorted_nth_mono)
    qed
    ultimately show ?thesis using assms(2) by force
  qed
  then have "takeWhile (\<lambda>x. x < i) (im_range_end (layout_map P bs rs)) =
      im_range_end (layout_map P bs rs)" by simp
  then show ?thesis by (simp only: map_id_def lower_bound_def Let_def simp_thms if_True)
qed

lemma id_map_call_total:
  assumes "im_num_types m \<noteq> 0" and "\<And>i. i \<in> set ids \<Longrightarrow> map_id m i = Inr (f i)"
  shows "id_map_call m ids = Inr (map (\<lambda>i. fst (f i)) ids, map (\<lambda>i. snd (f i)) ids)"
proof -
  have "rmap (map_id m) ids = Inr (map f ids)" by (rule rmap_total) (rule assms(2))
  then show ?thesis using assms(1) by (simp add: id_map_call_def comp_def)
qed

end
