(* ===== verification/PartitionBook.thy ===== *)
theory PartitionBook
  imports IdMap HeteroName
begin

text \<open>
  \<^verbatim>\<open>python/dgl/distributed/graph_partition_book.py\<close>: \<open>RangePartitionBook\<close>, which tells
  for every node and edge of a partitioned graph its type, its partition and its position. A
  method is the function \<open>rb_<name>\<close> on the record \<open>range_book\<close>, whose fields are the
  object's attributes in the order the constructor sets them. A node type is a string; an edge
  type is a string or a tuple (\<open>type_name\<close>).
\<close>

section \<open>The code: construction\<close>

record part_info =
  pi_machine_id :: int
  pi_num_nodes :: int
  pi_num_edges :: int

record range_book =
  rb_partid :: int
  rb_num_partitions :: int
  rb_ntypes :: "string list"
  rb_etypes :: "string list"
  rb_canonical_etypes :: "type_name list"
  rb_etype2canonical :: "(string \<times> type_name) list"
  rb_typed_nid_range :: "(string \<times> id_range) list"
  rb_typed_max_node_ids :: "(string \<times> int list) list"
  rb_max_node_ids :: "int list"
  rb_typed_eid_range :: "(type_name \<times> id_range) list"
  rb_typed_max_edge_ids :: "(type_name \<times> int list) list"
  rb_max_edge_ids :: "int list"
  rb_nid_map :: id_map
  rb_eid_map :: id_map
  rb_local_ntype_offset :: "int list"
  rb_local_etype_offset :: "int list"
  rb_metadata :: "part_info list"

text \<open>The two loops over the type dictionaries. \<open>None\<close> stands for the \<open>None\<close> the lists are
  filled with.\<close>

definition place_ntypes :: "(string \<times> int) list \<Rightarrow> string list res" where
  "place_ntypes ntypes =
     rbind (rfold (\<lambda>l (ntype, ntype_id). py_set_index l ntype_id (Some ntype))
              (replicate (length ntypes) None) ntypes) (\<lambda>l.
     rbind (rassert (None \<notin> set l) AssertionError) (\<lambda>_. Inr (map the l)))"

type_synonym etype_tables =
  "string option list \<times> type_name option list \<times> (string \<times> type_name) list"

definition place_etype :: "etype_tables \<Rightarrow> type_name \<times> int \<Rightarrow> etype_tables res" where
  "place_etype s x =
     (case s of (etypes, canonical, e2c) \<Rightarrow>
      case x of (c_etype, etype_id) \<Rightarrow>
      case c_etype of
        TTup [a, etype, b] \<Rightarrow>
          rbind (py_set_index etypes etype_id (Some etype)) (\<lambda>etypes'.
          rbind (py_set_index canonical etype_id (Some c_etype)) (\<lambda>canonical'.
          Inr (etypes', canonical',
               if etype \<in> fst ` set e2c then AList.update etype (TTup []) e2c
               else AList.update etype c_etype e2c)))
      | _ \<Rightarrow> Inl AssertionError)"

definition place_etypes ::
  "(type_name \<times> int) list \<Rightarrow> (string list \<times> type_name list \<times> (string \<times> type_name) list) res" where
  "place_etypes etypes =
     rbind (rfold place_etype
              (replicate (length etypes) None, replicate (length etypes) None, []) etypes)
       (\<lambda>(l, c, e2c).
     rbind (rassert (None \<notin> set l) AssertionError) (\<lambda>_. Inr (map the l, map the c, e2c)))"

text \<open>One round of the loop over \<open>node_map\<close> (and of the loop over \<open>edge_map\<close>, which is the
  same code on edge types): the ranges of one type, their running sizes, and the maximum of the
  range ends.\<close>

definition range_sizes :: "id_range \<Rightarrow> int list" where
  "range_sizes rng = map (\<lambda>(s, e). e - s) rng"

definition add_range :: "numpy \<Rightarrow> nat \<Rightarrow> ('k \<times> int) list \<Rightarrow>
    ('k \<times> id_range) list \<times> ('k \<times> int list) list \<times> int list \<Rightarrow> 'k \<times> id_range \<Rightarrow>
    (('k \<times> id_range) list \<times> ('k \<times> int list) list \<times> int list) res" where
  "add_range N num_parts types s x =
     (case s of (rng, tmax, mx) \<Rightarrow>
      case x of (key, m) \<Rightarrow>
      rbind (rassert (key \<in> fst ` set types) AssertionError) (\<lambda>_.
      rbind (rassert (length m = num_parts) AssertionError) (\<lambda>_.
      Inr (AList.update key m rng, AList.update key (np_cumsum N (range_sizes m)) tmax,
           map2 max (map snd m) mx))))"

definition add_ranges :: "numpy \<Rightarrow> nat \<Rightarrow> ('k \<times> int) list \<Rightarrow> ('k \<times> id_range) list \<Rightarrow>
    (('k \<times> id_range) list \<times> ('k \<times> int list) list \<times> int list) res" where
  "add_ranges N num_parts types m =
     rfold (add_range N num_parts types) ([], [], replicate num_parts 0) m"

definition local_offset :: "numpy \<Rightarrow> int \<Rightarrow> ('k \<times> id_range) list \<Rightarrow> int list res" where
  "local_offset N partid rng =
     rbind (rmap (\<lambda>(k, v). rbind (py_index v partid) (\<lambda>(s, e). Inr (e - s))) rng)
       (\<lambda>sizes. Inr (np_cumsum N (0 # sizes)))"

definition part_span :: "int list \<Rightarrow> nat \<Rightarrow> int" where
  "part_span mx p = mx ! p - (if 0 < p then mx ! (p - 1) else 0)"

definition partition_meta_data :: "nat \<Rightarrow> int list \<Rightarrow> int list \<Rightarrow> part_info list" where
  "partition_meta_data num_parts max_node_map max_edge_map =
     map (\<lambda>p. \<lparr>pi_machine_id = int p, pi_num_nodes = part_span max_node_map p,
              pi_num_edges = part_span max_edge_map p\<rparr>) [0..<num_parts]"

definition range_book_init :: "numpy \<Rightarrow> int \<Rightarrow> int \<Rightarrow> (string \<times> id_range) list \<Rightarrow>
    (type_name \<times> id_range) list \<Rightarrow> (string \<times> int) list \<Rightarrow> (type_name \<times> int) list \<Rightarrow> range_book res" where
  "range_book_init N part_id num_parts node_map edge_map ntypes etypes =
     rbind (rassert (0 \<le> part_id) AssertionError) (\<lambda>_.
     rbind (rassert (0 < num_parts) AssertionError) (\<lambda>_.
     rbind (place_ntypes ntypes) (\<lambda>ntys.
     rbind (place_etypes etypes) (\<lambda>(etys, canonical, e2c).
     rbind (add_ranges N (nat num_parts) ntypes node_map) (\<lambda>(nid_range, tmax_nids, max_node_map).
     rbind (add_ranges N (nat num_parts) etypes edge_map) (\<lambda>(eid_range, tmax_eids, max_edge_map).
     rbind (id_map_init N (map snd nid_range)) (\<lambda>nid_map.
     rbind (id_map_init N (map snd eid_range)) (\<lambda>eid_map.
     rbind (local_offset N part_id nid_range) (\<lambda>local_n.
     rbind (local_offset N part_id eid_range) (\<lambda>local_e.
     Inr \<lparr>rb_partid = part_id, rb_num_partitions = num_parts, rb_ntypes = ntys, rb_etypes = etys,
          rb_canonical_etypes = canonical, rb_etype2canonical = e2c,
          rb_typed_nid_range = nid_range, rb_typed_max_node_ids = tmax_nids,
          rb_max_node_ids = max_node_map, rb_typed_eid_range = eid_range,
          rb_typed_max_edge_ids = tmax_eids, rb_max_edge_ids = max_edge_map,
          rb_nid_map = nid_map, rb_eid_map = eid_map,
          rb_local_ntype_offset = local_n, rb_local_etype_offset = local_e,
          rb_metadata = partition_meta_data (nat num_parts) max_node_map max_edge_map\<rparr>))))))))))"

section \<open>The code: operations\<close>

definition default_etype :: "type_name \<Rightarrow> bool" where
  "default_etype t \<longleftrightarrow> t = TTup DEFAULT_ETYPE \<or> t = TStr (DEFAULT_ETYPE ! 1)"

definition rb_is_homogeneous :: "range_book \<Rightarrow> bool" where
  "rb_is_homogeneous b = (\<not> (1 < length (rb_etypes b) \<or> 1 < length (rb_ntypes b)))"

fun rb_to_canonical_etype :: "range_book \<Rightarrow> type_name \<Rightarrow> type_name res" where
  "rb_to_canonical_etype b (TTup ts) =
     (if TTup ts \<notin> set (rb_canonical_etypes b) then Inl DGLError else Inr (TTup ts))"
| "rb_to_canonical_etype b (TStr s) =
     (case map_of (rb_etype2canonical b) s of
        None \<Rightarrow> Inl DGLError
      | Some ret \<Rightarrow> if ret = TTup [] then Inl DGLError else Inr ret)"

definition rb_num_nodes :: "range_book \<Rightarrow> string \<Rightarrow> int res" where
  "rb_num_nodes b ntype =
     (if ntype = DEFAULT_NTYPE then py_index (rb_max_node_ids b) (- 1)
      else rbind (dict_get (rb_typed_max_node_ids b) ntype) (\<lambda>m. py_index m (- 1)))"

definition rb_num_edges :: "range_book \<Rightarrow> type_name \<Rightarrow> int res" where
  "rb_num_edges b etype =
     (if default_etype etype then py_index (rb_max_edge_ids b) (- 1)
      else rbind (rb_to_canonical_etype b etype) (\<lambda>c_etype.
           rbind (dict_get (rb_typed_max_edge_ids b) c_etype) (\<lambda>m. py_index m (- 1))))"

definition rb_map_to_per_ntype :: "range_book \<Rightarrow> int list \<Rightarrow> (int list \<times> int list) res" where
  "rb_map_to_per_ntype b ids = id_map_call (rb_nid_map b) ids"

definition rb_map_to_per_etype :: "range_book \<Rightarrow> int list \<Rightarrow> (int list \<times> int list) res" where
  "rb_map_to_per_etype b ids = id_map_call (rb_eid_map b) ids"

definition rb_nid2partid :: "numpy \<Rightarrow> range_book \<Rightarrow> int list \<Rightarrow> string \<Rightarrow> int list res" where
  "rb_nid2partid N b nids ntype =
     (if ntype = DEFAULT_NTYPE then Inr (np_searchsorted_right N (rb_max_node_ids b) nids)
      else rbind (dict_get (rb_typed_max_node_ids b) ntype) (\<lambda>m.
           Inr (np_searchsorted_right N m nids)))"

definition rb_eid2partid :: "numpy \<Rightarrow> range_book \<Rightarrow> int list \<Rightarrow> type_name \<Rightarrow> int list res" where
  "rb_eid2partid N b eids etype =
     (if default_etype etype then Inr (np_searchsorted_right N (rb_max_edge_ids b) eids)
      else rbind (rb_to_canonical_etype b etype) (\<lambda>c_etype.
           rbind (dict_get (rb_typed_max_edge_ids b) c_etype) (\<lambda>m.
           Inr (np_searchsorted_right N m eids))))"

text \<open>The common tail of \<open>map_to_homo_nid\<close> and \<open>map_to_homo_eid\<close>.\<close>

definition homo_ids :: "int list \<Rightarrow> id_range \<Rightarrow> int list \<Rightarrow> int list \<Rightarrow> int list res" where
  "homo_ids typed_max rng partids ids =
     rbind (gather_row typed_max partids) (\<lambda>ends.
     let end_diff = map2 (-) ends ids in
     rbind (gather_row (map snd rng) partids) (\<lambda>range_ends.
     Inr (map2 (-) range_ends end_diff)))"

definition rb_map_to_homo_nid :: "numpy \<Rightarrow> range_book \<Rightarrow> int list \<Rightarrow> string \<Rightarrow> int list res" where
  "rb_map_to_homo_nid N b ids ntype =
     rbind (rb_nid2partid N b ids ntype) (\<lambda>partids.
     rbind (dict_get (rb_typed_max_node_ids b) ntype) (\<lambda>typed_max_nids.
     rbind (dict_get (rb_typed_nid_range b) ntype) (\<lambda>rng.
     homo_ids typed_max_nids rng partids ids)))"

definition rb_map_to_homo_eid :: "numpy \<Rightarrow> range_book \<Rightarrow> int list \<Rightarrow> type_name \<Rightarrow> int list res" where
  "rb_map_to_homo_eid N b ids etype =
     rbind (rb_to_canonical_etype b etype) (\<lambda>c_etype.
     rbind (rb_eid2partid N b ids c_etype) (\<lambda>partids.
     rbind (dict_get (rb_typed_max_edge_ids b) c_etype) (\<lambda>typed_max_eids.
     rbind (dict_get (rb_typed_eid_range b) c_etype) (\<lambda>rng.
     homo_ids typed_max_eids rng partids ids))))"

text \<open>\<open>max_ids[partid - 1] if partid > 0 else 0\<close> and \<open>max_ids[partid]\<close>; the backend's
  \<open>arange\<close> refuses an end before the start.\<close>

definition part_start :: "int list \<Rightarrow> int \<Rightarrow> int res" where
  "part_start m partid = (if 0 < partid then py_index m (partid - 1) else Inr 0)"

definition part_ids :: "int list \<Rightarrow> int \<Rightarrow> int list res" where
  "part_ids m partid =
     rbind (part_start m partid) (\<lambda>start.
     rbind (py_index m partid) (\<lambda>end'.
     if start \<le> end' then Inr (arange start end') else Inl RuntimeError))"

definition rb_partid2nids :: "range_book \<Rightarrow> int \<Rightarrow> string \<Rightarrow> int list res" where
  "rb_partid2nids b partid ntype =
     (if ntype = DEFAULT_NTYPE then part_ids (rb_max_node_ids b) partid
      else rbind (dict_get (rb_typed_max_node_ids b) ntype) (\<lambda>m. part_ids m partid))"

definition rb_partid2eids :: "range_book \<Rightarrow> int \<Rightarrow> type_name \<Rightarrow> int list res" where
  "rb_partid2eids b partid etype =
     (if default_etype etype then part_ids (rb_max_edge_ids b) partid
      else rbind (rb_to_canonical_etype b etype) (\<lambda>c_etype.
           rbind (dict_get (rb_typed_max_edge_ids b) c_etype) (\<lambda>m. part_ids m partid)))"

definition rb_nid2localnid :: "range_book \<Rightarrow> int list \<Rightarrow> int \<Rightarrow> string \<Rightarrow> int list res" where
  "rb_nid2localnid b nids partid ntype =
     rbind (rassert (partid = rb_partid b) RuntimeError) (\<lambda>_.
     rbind (if ntype = DEFAULT_NTYPE then part_start (rb_max_node_ids b) partid
            else if 0 < partid then
              rbind (dict_get (rb_typed_max_node_ids b) ntype) (\<lambda>m. part_start m partid)
            else Inr 0) (\<lambda>start.
     Inr (map (\<lambda>n. n - start) nids)))"

definition rb_eid2localeid :: "range_book \<Rightarrow> int list \<Rightarrow> int \<Rightarrow> type_name \<Rightarrow> int list res" where
  "rb_eid2localeid b eids partid etype =
     rbind (rassert (partid = rb_partid b) RuntimeError) (\<lambda>_.
     rbind (if default_etype etype then part_start (rb_max_edge_ids b) partid
            else rbind (rb_to_canonical_etype b etype) (\<lambda>c_etype.
                 if 0 < partid then
                   rbind (dict_get (rb_typed_max_edge_ids b) c_etype) (\<lambda>m. part_start m partid)
                 else Inr 0)) (\<lambda>start.
     Inr (map (\<lambda>e. e - start) eids)))"

text \<open>\<open>get_node_partition_from_book\<close>, up to the object it creates: the size, the number of
  parts and the ranges that \<open>NDArrayPartition\<close> receives.\<close>

definition node_partition_from_book :: "range_book \<Rightarrow> (int \<times> int \<times> int list) res" where
  "node_partition_from_book b =
     (let cpu_range = 0 # map (\<lambda>i. i + 1) (rb_max_node_ids b)
      in rbind (py_index cpu_range (- 1)) (\<lambda>array_size.
         Inr (array_size, rb_num_partitions b, cpu_range)))"

text \<open>\<open>shared_memory\<close> and \<open>get_shared_mem_partition_book\<close>, the metadata that goes through
  shared memory: \<open>dumps\<close> and \<open>loads\<close> of the ranges in type-ID order are third-party and are
  arguments.\<close>

definition shared_ranges :: "'k list \<Rightarrow> ('k \<times> id_range) list \<Rightarrow> ('k \<times> id_range) list res" where
  "shared_ranges types rng = rmap (\<lambda>t. rbind (dict_get rng t) (\<lambda>r. Inr (t, r))) types"

definition rb_shared_memory :: "((string \<times> id_range) list \<Rightarrow> 'd) \<Rightarrow>
    ((type_name \<times> id_range) list \<Rightarrow> 'd) \<Rightarrow> range_book \<Rightarrow> (int \<times> int \<times> 'd \<times> 'd) res" where
  "rb_shared_memory dumps_n dumps_e b =
     rbind (shared_ranges (rb_ntypes b) (rb_typed_nid_range b)) (\<lambda>nid_range.
     rbind (shared_ranges (rb_canonical_etypes b) (rb_typed_eid_range b)) (\<lambda>eid_range.
     Inr (rb_partid b, rb_num_partitions b, dumps_n nid_range, dumps_e eid_range)))"

fun enum_types :: "int \<Rightarrow> ('k \<times> int) list \<Rightarrow> ('k \<times> 'r) list \<Rightarrow> ('k \<times> int) list" where
  "enum_types i d [] = d"
| "enum_types i d ((k, r) # xs) = enum_types (i + 1) (AList.update k i d) xs"

definition dict_of :: "('k \<times> 'v) list \<Rightarrow> ('k \<times> 'v) list" where
  "dict_of xs = foldl (\<lambda>d (k, v). AList.update k v d) [] xs"

definition get_shared_mem_partition_book :: "numpy \<Rightarrow> ('d \<Rightarrow> (string \<times> id_range) list) \<Rightarrow>
    ('d \<Rightarrow> (type_name \<times> id_range) list) \<Rightarrow> (int \<times> int \<times> 'd \<times> 'd) option \<Rightarrow> range_book option res" where
  "get_shared_mem_partition_book N loads_n loads_e meta =
     (case meta of
        None \<Rightarrow> Inr None
      | Some (part_id, num_parts, node_map_data, edge_map_data) \<Rightarrow>
          let nodes = loads_n node_map_data; edges = loads_e edge_map_data in
          rbind (range_book_init N part_id num_parts (dict_of nodes) (dict_of edges)
                   (enum_types 0 [] nodes) (enum_types 0 [] edges))
            (\<lambda>b. Inr (Some b)))"

section \<open>The book of a laid-out graph\<close>

text \<open>\<open>part_ends\<close>: the end of the ID range of each partition; \<open>typed_ends\<close>: the end of its
  range among the entities of one type.\<close>

definition part_ends :: "nat \<Rightarrow> int list \<Rightarrow> nat \<Rightarrow> int list" where
  "part_ends P bs T = map (\<lambda>p. bs ! (p * T + T)) [0..<P]"

definition typed_ends :: "nat \<Rightarrow> int list \<Rightarrow> nat \<Rightarrow> nat \<Rightarrow> int list" where
  "typed_ends P bs T t = map (\<lambda>p. typed_start bs T t (Suc p)) [0..<P]"

lemma length_ends [simp]:
  "length (part_ends P bs T) = P" "length (typed_ends P bs T t) = P"
  by (simp_all add: part_ends_def typed_ends_def)

lemma ends_nth [simp]:
  "p < P \<Longrightarrow> part_ends P bs T ! p = bs ! (p * T + T)"
  "p < P \<Longrightarrow> typed_ends P bs T t ! p = typed_start bs T t (Suc p)"
  by (simp_all add: part_ends_def typed_ends_def)

lemma typed_ends_eq:
  assumes "layout P bs rs" and "t < length rs"
  shows "prefix_sums (range_sizes (rs ! t)) = typed_ends P bs (length rs) t"
proof (rule nth_equalityI)
  show "length (prefix_sums (range_sizes (rs ! t))) = length (typed_ends P bs (length rs) t)"
    using layoutD(6) [OF assms] by (simp add: range_sizes_def)
  fix p
  assume "p < length (prefix_sums (range_sizes (rs ! t)))"
  then have p: "p < P" using layoutD(6) [OF assms] by (simp add: range_sizes_def)
  then have "sum_list (take (Suc p) (range_sizes (rs ! t))) = typed_start bs (length rs) t (Suc p)"
    unfolding range_sizes_def by (intro sum_list_spans [OF assms]) simp
  then show "prefix_sums (range_sizes (rs ! t)) ! p = typed_ends P bs (length rs) t ! p"
    using p layoutD(6) [OF assms] by (simp add: range_sizes_def del: take_Suc)
qed

lemma bs_mono:
  assumes "layout P bs rs" and "i \<le> j" and "j \<le> P * length rs"
  shows "bs ! i \<le> bs ! j"
  using assms layoutD(3,4) [OF assms(1)] by (intro sorted_nth_mono) auto

lemma bs_nonneg: "layout P bs rs \<Longrightarrow> j \<le> P * length rs \<Longrightarrow> 0 \<le> bs ! j"
  using bs_mono [of P bs rs 0 j] layoutD(5) by force

lemma part_le: "p < P \<Longrightarrow> t \<le> T \<Longrightarrow> p * T + t \<le> P * (T :: nat)"
  by (metis Suc_leI add_le_cancel_left le_trans mult_Suc mult_le_mono1 add.commute)

definition book_ranges :: "nat \<Rightarrow> int list \<Rightarrow> id_range list \<Rightarrow> 'k list \<Rightarrow>
    ('k \<times> id_range) list \<times> ('k \<times> int list) list \<times> int list" where
  "book_ranges P bs rs keys =
     (zip keys rs, zip keys (map (typed_ends P bs (length rs)) [0..<length rs]),
      part_ends P bs (length rs))"

lemma add_ranges_prefix:
  assumes "numpy_laws N" and lay: "layout P bs rs" and "distinct keys"
    and len: "length keys = length rs" and sub: "set keys \<subseteq> fst ` set types" and "n \<le> length rs"
  shows "rfold (add_range N P types) ([], [], replicate P 0) (take n (zip keys rs)) =
    Inr (take n (zip keys rs),
         take n (zip keys (map (typed_ends P bs (length rs)) [0..<length rs])),
         if n = 0 then replicate P 0 else map (\<lambda>p. bs ! (p * length rs + n)) [0..<P])"
  using \<open>n \<le> length rs\<close>
proof (induction n)
  case 0
  then show ?case by simp
next
  case (Suc n)
  let ?T = "length rs" and ?te = "map (typed_ends P bs (length rs)) [0..<length rs]"
  have n: "n < ?T" using Suc.prems by simp
  have key: "keys ! n \<in> fst ` set types" using sub n len by (auto simp: nth_mem subset_iff)
  have fresh: "keys ! n \<notin> fst ` set (take n (zip keys xs))" if "length xs = length rs"
    for xs :: "'c list"
  proof -
    have "fst ` set (take n (zip keys xs)) = set (take n keys)"
      using len that by (simp add: take_zip flip: set_map)
    then show ?thesis using \<open>distinct keys\<close> n len
      by (metis id_take_nth_drop distinct_append distinct.simps(2) not_distinct_conv_prefix
          disjoint_iff list.set_intros(1))
  qed
  have mx: "map2 max (map snd (rs ! n))
      (if n = 0 then replicate P 0 else map (\<lambda>p. bs ! (p * ?T + n)) [0..<P]) =
      map (\<lambda>p. bs ! (p * ?T + Suc n)) [0..<P]"
  proof (rule nth_equalityI)
    fix p
    assume "p < length (map2 max (map snd (rs ! n))
      (if n = 0 then replicate P 0 else map (\<lambda>p. bs ! (p * ?T + n)) [0..<P]))"
    then have p: "p < P" using layoutD(6) [OF lay n] by (simp split: if_splits)
    have "p * ?T + Suc n \<le> P * ?T" using part_le [OF p, of "Suc n" ?T] n by simp
    then have "0 \<le> bs ! (p * ?T + Suc n)" "bs ! (p * ?T + n) \<le> bs ! (p * ?T + Suc n)"
      using bs_nonneg [OF lay] bs_mono [OF lay] by auto
    then show "map2 max (map snd (rs ! n))
        (if n = 0 then replicate P 0 else map (\<lambda>p. bs ! (p * ?T + n)) [0..<P]) ! p =
        map (\<lambda>p. bs ! (p * ?T + Suc n)) [0..<P] ! p"
      using p layoutD(6,7) [OF lay n] by (cases "n = 0") simp_all
  qed (use layoutD(6) [OF lay n] in simp)
  have "take (Suc n) (zip keys rs) = take n (zip keys rs) @ [(keys ! n, rs ! n)]"
    "take (Suc n) (zip keys ?te) = take n (zip keys ?te) @ [(keys ! n, typed_ends P bs ?T n)]"
    using n len by (simp_all add: take_Suc_conv_app_nth)
  then show ?case
    using Suc.IH n key layoutD(6) [OF lay n] mx typed_ends_eq [OF lay n]
    by (simp add: rfold_append add_range_def update_fresh fresh numpy_cumsum [OF assms(1)])
qed

lemma add_ranges_layout:
  assumes "numpy_laws N" and "layout P bs rs" and "distinct keys"
    and "length keys = length rs" and "set keys \<subseteq> fst ` set types"
  shows "add_ranges N P types (zip keys rs) = Inr (book_ranges P bs rs keys)"
  using add_ranges_prefix [OF assms, of "length rs"] assms(4) layoutD(2) [OF assms(2)]
  by (simp add: add_ranges_def book_ranges_def part_ends_def)

text \<open>The type dictionaries: \<open>type_ids d names\<close> says that \<open>d\<close> gives the \<open>i\<close>-th name the
  ID \<open>i\<close>, in any order of insertion.\<close>

definition type_ids :: "('k \<times> int) list \<Rightarrow> 'k list \<Rightarrow> bool" where
  "type_ids d names \<longleftrightarrow> distinct names \<and> distinct (map fst d) \<and>
     set d = set (zip names (map int [0..<length names]))"

lemma type_idsD:
  assumes "type_ids d names"
  shows "distinct names" and "length d = length names" and "fst ` set d = set names"
    and "(k, i) \<in> set d \<Longrightarrow> 0 \<le> i \<and> nat i < length names \<and> k = names ! nat i"
    and "j < length names \<Longrightarrow> \<exists>k. (k, int j) \<in> set d"
proof -
  let ?z = "zip names (map int [0..<length names])"
  have set: "set d = set ?z" and dn: "distinct names" "distinct (map fst d)"
    using assms by (auto simp: type_ids_def)
  show "distinct names" by fact
  have "distinct d" using dn(2) by (simp add: distinct_map)
  moreover have "distinct ?z" using dn(1) by (simp add: distinct_zipI1)
  ultimately have "length d = length ?z" using set by (metis distinct_card)
  then show "length d = length names" by simp
  have "set (map fst ?z) = set names" by (simp only: map_fst_zip length_map length_upt diff_zero)
  then show "fst ` set d = set names" unfolding set by (simp only: set_map)
  show "(k, i) \<in> set d \<Longrightarrow> 0 \<le> i \<and> nat i < length names \<and> k = names ! nat i"
    unfolding set by (auto simp: in_set_zip)
  have "j < length names \<Longrightarrow> (names ! j, int j) \<in> set ?z" by (force simp: in_set_zip)
  then show "j < length names \<Longrightarrow> \<exists>k. (k, int j) \<in> set d" using set by blast
qed

lemma place_types:
  fixes f :: "'k \<Rightarrow> 'b"
  assumes "type_ids d names"
  shows "rfold (\<lambda>l (k, i). py_set_index l i (Some (f k))) (replicate (length d) None) d =
    Inr (map (\<lambda>k. Some (f k)) names)"
proof -
  note D = type_idsD [OF assms]
  let ?l = "replicate (length d) (None :: 'b option)" and ?g = "\<lambda>j. f (names ! j)"
  have dom: "\<forall>(k, i) \<in> set d. 0 \<le> i \<and> nat i < length ?l \<and> f k = ?g (nat i)"
    using D(2,4) by auto
  have "int j \<in> snd ` set d" if "j < length names" for j
    using D(5) [OF that] by force
  then have "map (\<lambda>j. if int j \<in> snd ` set d then Some (?g j) else ?l ! j) [0..<length ?l] =
      map (\<lambda>k. Some (f k)) names"
    using D(2) by (intro nth_equalityI) simp_all
  then show ?thesis by (subst place_fold [OF dom]) (rule arg_cong)
qed

lemma place_ntypes_eq: "type_ids d names \<Longrightarrow> place_ntypes d = Inr names"
  using place_types [of d names "\<lambda>k. k"] by (auto simp: place_ntypes_def comp_def)

definition canonical_etype :: "type_name \<Rightarrow> bool" where
  "canonical_etype t \<longleftrightarrow> (case t of TTup ts \<Rightarrow> length ts = 3 | TStr _ \<Rightarrow> False)"

definition etype_name :: "type_name \<Rightarrow> string" where
  "etype_name t = (case t of TTup ts \<Rightarrow> ts ! 1 | TStr s \<Rightarrow> s)"

lemma canonical_etypeE:
  assumes "canonical_etype t"
  obtains a e b where "t = TTup [a, e, b]"
proof -
  obtain ts where "t = TTup ts" "length ts = 3"
    using assms by (cases t) (auto simp: canonical_etype_def)
  then show thesis using that
    by (metis (no_types) length_0_conv length_Suc_conv numeral_3_eq_3)
qed

text \<open>The table from edge-type names to canonical types that the loop builds.\<close>

definition e2c_step :: "(string \<times> type_name) list \<Rightarrow> type_name \<Rightarrow> (string \<times> type_name) list" where
  "e2c_step d c =
     (if etype_name c \<in> fst ` set d then AList.update (etype_name c) (TTup []) d
      else AList.update (etype_name c) c d)"

lemma place_etype_fold:
  assumes "\<forall>(k, i) \<in> set xs. canonical_etype k"
    and "rfold (\<lambda>l (k, i). py_set_index l i (Some (etype_name k))) l xs = Inr l'"
    and "rfold (\<lambda>l (k, i). py_set_index l i (Some k)) c xs = Inr c'"
  shows "rfold place_etype (l, c, d) xs = Inr (l', c', foldl e2c_step d (map fst xs))"
  using assms
proof (induction xs arbitrary: l c d)
  case Nil
  then show ?case by simp
next
  case (Cons x xs)
  obtain k i where x: "x = (k, i)" by (cases x)
  then obtain a e b where k: "k = TTup [a, e, b]" using Cons.prems(1) canonical_etypeE by force
  from Cons.prems(2) x obtain l1 where l1: "py_set_index l i (Some (etype_name k)) = Inr l1"
    "rfold (\<lambda>l (k, i). py_set_index l i (Some (etype_name k))) l1 xs = Inr l'"
    by (auto simp: rbind_eq_Inr)
  from Cons.prems(3) x obtain c1 where c1: "py_set_index c i (Some k) = Inr c1"
    "rfold (\<lambda>l (k, i). py_set_index l i (Some k)) c1 xs = Inr c'"
    by (auto simp: rbind_eq_Inr)
  have "place_etype (l, c, d) x = Inr (l1, c1, e2c_step d k)"
    using l1(1) c1(1) by (simp add: place_etype_def x k etype_name_def e2c_step_def)
  moreover have "rfold place_etype (l1, c1, e2c_step d k) xs =
      Inr (l', c', foldl e2c_step (e2c_step d k) (map fst xs))"
    using Cons.prems(1) l1(2) c1(2) by (intro Cons.IH) auto
  ultimately show ?case by (simp add: x)
qed

lemma place_etypes_eq:
  assumes "type_ids d names" and "list_all canonical_etype names"
  shows "place_etypes d = Inr (map etype_name names, names, foldl e2c_step [] (map fst d))"
proof -
  have "\<forall>(k, i) \<in> set d. canonical_etype k"
    using assms(2) type_idsD(3) [OF assms(1)] by (force simp: list_all_iff)
  from place_etype_fold [OF this place_types [OF assms(1)] place_types [OF assms(1)]]
  have "rfold place_etype (replicate (length d) None, replicate (length d) None, []) d =
    Inr (map (\<lambda>k. Some (etype_name k)) names, map Some names, foldl e2c_step [] (map fst d))"
    by simp
  moreover have "None \<notin> (\<lambda>k. Some (etype_name k)) ` set names" by auto
  ultimately show ?thesis by (simp add: place_etypes_def comp_def)
qed

lemma map_of_e2c:
  "map_of (foldl e2c_step [] cs) s =
    (case filter (\<lambda>c. etype_name c = s) cs of
       [] \<Rightarrow> None | [c] \<Rightarrow> Some c | _ \<Rightarrow> Some (TTup []))"
proof (induction cs rule: rev_induct)
  case Nil
  then show ?case by simp
next
  case (snoc c cs)
  have "etype_name c \<in> fst ` set d \<longleftrightarrow> map_of d (etype_name c) \<noteq> None" for d :: "(string \<times> type_name) list"
    by (simp add: map_of_eq_None_iff)
  then show ?case using snoc
    by (auto simp: e2c_step_def update_conv' split: list.splits)
qed

section \<open>Construction succeeds\<close>

text \<open>A graph partitioned over \<open>gl_parts\<close> machines: its types in type-ID order and the
  boundaries of the ID ranges; \<open>ranges_of\<close> cuts the boundaries into the ranges of each type.\<close>

record graph_layout =
  gl_parts :: nat
  gl_ntypes :: "string list"
  gl_nbounds :: "int list"
  gl_etypes :: "type_name list"
  gl_ebounds :: "int list"

definition ranges_of :: "nat \<Rightarrow> int list \<Rightarrow> nat \<Rightarrow> id_range list" where
  "ranges_of P bs T = map (\<lambda>t. map (\<lambda>p. (bs ! (p * T + t), bs ! (p * T + t + 1))) [0..<P]) [0..<T]"

definition valid_bounds :: "nat \<Rightarrow> int list \<Rightarrow> nat \<Rightarrow> bool" where
  "valid_bounds P bs T \<longleftrightarrow> 0 < P \<and> 0 < T \<and> sorted bs \<and> length bs = P * T + 1 \<and> bs ! 0 = 0"

definition valid_graph :: "graph_layout \<Rightarrow> bool" where
  "valid_graph G \<longleftrightarrow>
     valid_bounds (gl_parts G) (gl_nbounds G) (length (gl_ntypes G)) \<and>
     valid_bounds (gl_parts G) (gl_ebounds G) (length (gl_etypes G)) \<and>
     distinct (gl_ntypes G) \<and> distinct (gl_etypes G) \<and> list_all canonical_etype (gl_etypes G)"

lemma length_ranges_of [simp]: "length (ranges_of P bs T) = T"
  by (simp add: ranges_of_def)

lemma layout_ranges_of: "valid_bounds P bs T \<Longrightarrow> layout P bs (ranges_of P bs T)"
  by (auto simp: valid_bounds_def layout_def ranges_of_def simp flip: length_0_conv)

abbreviation node_map :: "graph_layout \<Rightarrow> (string \<times> id_range) list" where
  "node_map G \<equiv> zip (gl_ntypes G) (ranges_of (gl_parts G) (gl_nbounds G) (length (gl_ntypes G)))"

abbreviation edge_map :: "graph_layout \<Rightarrow> (type_name \<times> id_range) list" where
  "edge_map G \<equiv> zip (gl_etypes G) (ranges_of (gl_parts G) (gl_ebounds G) (length (gl_etypes G)))"

text \<open>\<open>type_offsets\<close>: where each type starts among the entities of one partition.\<close>

definition type_offsets :: "int list \<Rightarrow> nat \<Rightarrow> nat \<Rightarrow> int list" where
  "type_offsets bs T p = map (\<lambda>t. bs ! (p * T + t) - bs ! (p * T)) [0..<Suc T]"

definition typed_ends_dict :: "nat \<Rightarrow> int list \<Rightarrow> 'k list \<Rightarrow> ('k \<times> int list) list" where
  "typed_ends_dict P bs keys = zip keys (map (typed_ends P bs (length keys)) [0..<length keys])"

definition book_of :: "graph_layout \<Rightarrow> nat \<Rightarrow> (string \<times> type_name) list \<Rightarrow> range_book" where
  "book_of G pid e2c =
     (let P = gl_parts G; Tn = length (gl_ntypes G); Te = length (gl_etypes G);
          nbs = gl_nbounds G; ebs = gl_ebounds G in
      \<lparr>rb_partid = int pid, rb_num_partitions = int P, rb_ntypes = gl_ntypes G,
       rb_etypes = map etype_name (gl_etypes G), rb_canonical_etypes = gl_etypes G,
       rb_etype2canonical = e2c,
       rb_typed_nid_range = node_map G, rb_typed_max_node_ids = typed_ends_dict P nbs (gl_ntypes G),
       rb_max_node_ids = part_ends P nbs Tn,
       rb_typed_eid_range = edge_map G, rb_typed_max_edge_ids = typed_ends_dict P ebs (gl_etypes G),
       rb_max_edge_ids = part_ends P ebs Te,
       rb_nid_map = layout_map P nbs (ranges_of P nbs Tn),
       rb_eid_map = layout_map P ebs (ranges_of P ebs Te),
       rb_local_ntype_offset = type_offsets nbs Tn pid,
       rb_local_etype_offset = type_offsets ebs Te pid,
       rb_metadata = partition_meta_data P (part_ends P nbs Tn) (part_ends P ebs Te)\<rparr>)"

lemma local_offset_layout:
  assumes "numpy_laws N" and "valid_bounds P bs T" and "p < P" and "length keys = T"
  shows "local_offset N (int p) (zip keys (ranges_of P bs T)) = Inr (type_offsets bs T p)"
proof -
  let ?g = "\<lambda>(k :: 'a, v). snd (v ! p) - fst (v ! p) :: int" and ?z = "zip keys (ranges_of P bs T)"
  have "rmap (\<lambda>(k, v). rbind (py_index v (int p)) (\<lambda>(s, e). Inr (e - s))) ?z = Inr (map ?g ?z)"
    using assms(3)
    by (intro rmap_total) (auto simp: ranges_of_def dest!: set_zip_rightD)
  moreover have sp: "map ?g ?z = map (\<lambda>t. span bs T t p) [0..<T]"
    using assms(3,4) by (intro nth_equalityI) (simp_all add: ranges_of_def span_def)
  moreover have "prefix_sums (0 # map (\<lambda>t. span bs T t p) [0..<T]) = type_offsets bs T p"
  proof (rule nth_equalityI)
    fix t
    assume "t < length (prefix_sums (0 # map (\<lambda>t. span bs T t p) [0..<T]))"
    then have t: "t \<le> T" by simp
    then have "sum_list (take t (map (\<lambda>t. span bs T t p) [0..<T])) = bs ! (p * T + t) - bs ! (p * T)"
    proof (induction t)
      case (Suc t)
      then show ?case by (subst sum_list_take_Suc) (simp_all add: span_def)
    qed simp
    then show "prefix_sums (0 # map (\<lambda>t. span bs T t p) [0..<T]) ! t = type_offsets bs T p ! t"
      using t by (simp add: type_offsets_def del: upt_Suc)
  qed (simp add: type_offsets_def)
  ultimately show ?thesis by (simp add: local_offset_def numpy_cumsum [OF assms(1)])
qed

lemma valid_graphD:
  assumes "valid_graph G"
  shows "valid_bounds (gl_parts G) (gl_nbounds G) (length (gl_ntypes G))"
    and "valid_bounds (gl_parts G) (gl_ebounds G) (length (gl_etypes G))"
    and "distinct (gl_ntypes G)" and "distinct (gl_etypes G)"
    and "list_all canonical_etype (gl_etypes G)" and "0 < gl_parts G"
  using assms by (simp_all add: valid_graph_def valid_bounds_def)

text \<open>On the ranges of a laid-out graph, and type dictionaries that number its types, every
  assertion of the constructor holds, and this is the object it makes.\<close>

lemma range_book_init_eq:
  assumes N: "numpy_laws N" and G: "valid_graph G" and pid: "pid < gl_parts G"
    and nt: "type_ids ntypes (gl_ntypes G)" and et: "type_ids etypes (gl_etypes G)"
  shows "range_book_init N (int pid) (int (gl_parts G)) (node_map G) (edge_map G) ntypes etypes =
    Inr (book_of G pid (foldl e2c_step [] (map fst etypes)))"
proof -
  note V = valid_graphD [OF G]
  have n: "add_ranges N (gl_parts G) ntypes (node_map G) =
      Inr (book_ranges (gl_parts G) (gl_nbounds G)
        (ranges_of (gl_parts G) (gl_nbounds G) (length (gl_ntypes G))) (gl_ntypes G))"
    using type_idsD(3) [OF nt] V by (intro add_ranges_layout [OF N layout_ranges_of]) simp_all
  have e: "add_ranges N (gl_parts G) etypes (edge_map G) =
      Inr (book_ranges (gl_parts G) (gl_ebounds G)
        (ranges_of (gl_parts G) (gl_ebounds G) (length (gl_etypes G))) (gl_etypes G))"
    using type_idsD(3) [OF et] V by (intro add_ranges_layout [OF N layout_ranges_of]) simp_all
  show ?thesis
    using V(6)
    by (simp add: range_book_init_def place_ntypes_eq [OF nt] place_etypes_eq [OF et V(5)] n e
        book_ranges_def id_map_init_layout [OF N layout_ranges_of [OF V(1)]]
        id_map_init_layout [OF N layout_ranges_of [OF V(2)]]
        local_offset_layout [OF N V(1) pid] local_offset_layout [OF N V(2) pid]
        book_of_def typed_ends_dict_def Let_def)
qed

section \<open>Entities\<close>

text \<open>The abstract view of the IDs: an entity has a type \<open>t\<close>, a partition \<open>p\<close> and a position
  \<open>o\<close> among the entities of its type in its partition. Its homogeneous ID and its ID within
  the type are functions of the three.\<close>

record entity =
  en_type :: nat
  en_part :: nat
  en_pos :: int

definition valid_entity :: "nat \<Rightarrow> int list \<Rightarrow> nat \<Rightarrow> entity \<Rightarrow> bool" where
  "valid_entity P bs T x \<longleftrightarrow> en_type x < T \<and> en_part x < P \<and> 0 \<le> en_pos x \<and>
     en_pos x < span bs T (en_type x) (en_part x)"

definition homo_id :: "int list \<Rightarrow> nat \<Rightarrow> entity \<Rightarrow> int" where
  "homo_id bs T x = bs ! (en_part x * T + en_type x) + en_pos x"

definition typed_id :: "int list \<Rightarrow> nat \<Rightarrow> entity \<Rightarrow> int" where
  "typed_id bs T x = typed_start bs T (en_type x) (en_part x) + en_pos x"

lemma entity_cell:
  "valid_entity P bs T x \<Longrightarrow> in_cell bs T (en_type x) (en_part x) (homo_id bs T x)"
  by (simp add: valid_entity_def in_cell_def homo_id_def span_def)

lemma map_id_entity:
  assumes "valid_bounds P bs T" and "valid_entity P bs T x"
  shows "map_id (layout_map P bs (ranges_of P bs T)) (homo_id bs T x) =
    Inr (int (en_type x), typed_id bs T x)"
  using map_id_cell [OF layout_ranges_of [OF assms(1)], of "en_type x" "en_part x" "homo_id bs T x"]
    entity_cell [OF assms(2)] assms(2)
  by (simp add: valid_entity_def typed_id_def homo_id_def)

text \<open>Every ID is the ID of an entity.\<close>

lemma homo_id_surj:
  assumes "valid_bounds P bs T" and "0 \<le> i" and "i < last bs"
  obtains x where "valid_entity P bs T x" and "homo_id bs T x = i"
proof -
  obtain t p where c: "t < T" "p < P" "in_cell bs T t p i"
    using cell_exists [OF layout_ranges_of [OF assms(1)] assms(2,3)] by auto
  show thesis
  proof (rule that)
    let ?x = "\<lparr>en_type = t, en_part = p, en_pos = i - bs ! (p * T + t)\<rparr>"
    show "valid_entity P bs T ?x" using c by (simp add: valid_entity_def in_cell_def span_def)
    show "homo_id bs T ?x = i" by (simp add: homo_id_def)
  qed
qed

lemma typed_id_surj:
  assumes "valid_bounds P bs T" and "t < T" and "0 \<le> j" and "j < typed_start bs T t P"
  obtains x where "valid_entity P bs T x" and "en_type x = t" and "typed_id bs T x = j"
proof -
  obtain p where p: "p < P" "typed_start bs T t p \<le> j" "j < typed_start bs T t (Suc p)"
    using bracket_exists [of "typed_start bs T t" j P] assms(3,4) by auto
  show thesis
  proof (rule that)
    let ?x = "\<lparr>en_type = t, en_part = p, en_pos = j - typed_start bs T t p\<rparr>"
    show "valid_entity P bs T ?x"
      using p assms(2) by (simp add: valid_entity_def typed_start_Suc)
    show "typed_id bs T ?x = j" by (simp add: typed_id_def)
  qed simp
qed

end
