(* ===== verification/PartitionLookup.thy ===== *)
theory PartitionLookup
  imports PartitionBook
begin

text \<open>
  The lookups of \<open>RangePartitionBook\<close> on the book of a laid-out graph. The node methods and
  the edge methods are the same code on two ID spaces: \<open>typed_ids\<close> is their common interface,
  what the lookups promise of entities, and the round trips are proved once in it. It is
  interpreted for the node methods (\<open>node_ids\<close>) and for the edge methods (\<open>edge_ids\<close>).
\<close>

section \<open>Searching the range ends\<close>

lemma valid_boundsD:
  assumes "valid_bounds P bs T"
  shows "0 < P" "0 < T" "bs ! 0 = 0" "i \<le> j \<Longrightarrow> j \<le> P * T \<Longrightarrow> bs ! i \<le> bs ! j"
    "p < P \<Longrightarrow> t < T \<Longrightarrow> 0 \<le> span bs T t p" "last bs = bs ! (P * T)"
proof -
  note lay = layout_ranges_of [OF assms]
  show "0 < P" "0 < T" "bs ! 0 = 0" using assms by (simp_all add: valid_bounds_def)
  show "i \<le> j \<Longrightarrow> j \<le> P * T \<Longrightarrow> bs ! i \<le> bs ! j" using bs_mono [OF lay] by simp
  show "p < P \<Longrightarrow> t < T \<Longrightarrow> 0 \<le> span bs T t p" using span_nonneg [OF lay] by simp
  have "length bs = P * T + 1" using assms by (simp add: valid_bounds_def)
  moreover from this have "bs \<noteq> []" by auto
  ultimately show "last bs = bs ! (P * T)" by (simp add: last_conv_nth)
qed

lemma part_ends_sorted: "valid_bounds P bs T \<Longrightarrow> sorted (part_ends P bs T)"
  by (auto simp: part_ends_def sorted_iff_nth_mono intro!: valid_boundsD(4) part_le)

lemma typed_ends_sorted: "valid_bounds P bs T \<Longrightarrow> t < T \<Longrightarrow> sorted (typed_ends P bs T t)"
  by (auto simp: typed_ends_def sorted_iff_nth_mono
      intro!: typed_start_mono [OF layout_ranges_of, simplified])

lemma homo_id_bucket:
  assumes "valid_bounds P bs T" and "valid_entity P bs T x"
  shows "insertion_right (part_ends P bs T) (homo_id bs T x) (int (en_part x))"
proof -
  let ?p = "en_part x" and ?t = "en_type x"
  have x: "?p < P" "?t < T" "bs ! (?p * T + ?t) \<le> homo_id bs T x" "homo_id bs T x < bs ! (?p * T + ?t + 1)"
    using assms(2) entity_cell [OF assms(2)] by (simp_all add: valid_entity_def in_cell_def)
  have "bs ! (?p * T + ?t + 1) \<le> bs ! (?p * T + T)"
    using part_le [OF x(1), of T T] x(2) by (intro valid_boundsD(4) [OF assms(1)]) simp_all
  moreover have "?p = 0 \<or> part_ends P bs T ! (?p - 1) \<le> homo_id bs T x"
  proof (cases ?p)
    case (Suc q)
    have "part_ends P bs T ! q = bs ! (?p * T)" using x(1) Suc by (simp add: add.commute)
    moreover have "bs ! (?p * T) \<le> bs ! (?p * T + ?t)"
      using part_le [OF x(1), of ?t T] x(2) by (intro valid_boundsD(4) [OF assms(1)]) simp_all
    ultimately show ?thesis using x(3) Suc by simp
  qed simp
  ultimately show ?thesis
    using x by (intro insertion_right_bucket [OF part_ends_sorted [OF assms(1)]]) simp_all
qed

lemma typed_id_bucket:
  assumes "valid_bounds P bs T" and "valid_entity P bs T x"
  shows "insertion_right (typed_ends P bs T (en_type x)) (typed_id bs T x) (int (en_part x))"
proof -
  have x: "en_part x < P" "en_type x < T" "0 \<le> en_pos x" "en_pos x < span bs T (en_type x) (en_part x)"
    using assms(2) by (simp_all add: valid_entity_def)
  have "en_part x = 0 \<or> typed_ends P bs T (en_type x) ! (en_part x - 1) \<le> typed_id bs T x"
    using x by (cases "en_part x") (simp_all add: typed_id_def)
  from insertion_right_bucket [OF typed_ends_sorted [OF assms(1) x(2)] _ _ this]
  show ?thesis using x by (simp add: typed_id_def typed_start_Suc)
qed

lemma part_of_homo:
  assumes "numpy_laws N" and "valid_bounds P bs T" and "list_all (valid_entity P bs T) xs"
  shows "np_searchsorted_right N (part_ends P bs T) (map (homo_id bs T) xs) = map (\<lambda>x. int (en_part x)) xs"
  using homo_id_bucket [OF assms(2)] assms(3)
  by (intro searchsorted_map [OF assms(1) part_ends_sorted [OF assms(2)]]) (simp add: list_all_iff)

lemma part_of_typed:
  assumes "numpy_laws N" and "valid_bounds P bs T" and "list_all (valid_entity P bs T) xs"
    and "\<forall>x \<in> set xs. en_type x = t" and "t < T"
  shows "np_searchsorted_right N (typed_ends P bs T t) (map (typed_id bs T) xs) =
    map (\<lambda>x. int (en_part x)) xs"
  using typed_id_bucket [OF assms(2)] assms(3,4)
  by (intro searchsorted_map [OF assms(1) typed_ends_sorted [OF assms(2,5)]])
     (auto simp: list_all_iff)

lemma homo_ids_entities:
  assumes "list_all (valid_entity P bs T) xs" and "\<forall>x \<in> set xs. en_type x = t"
    and "t < T"
  shows "homo_ids (typed_ends P bs T t) (ranges_of P bs T ! t) (map (\<lambda>x. int (en_part x)) xs)
      (map (typed_id bs T) xs) = Inr (map (homo_id bs T) xs)"
proof -
  let ?ps = "map (\<lambda>x. int (en_part x)) xs"
  have p: "en_part x < P" if "x \<in> set xs" for x
    using assms(1) that by (auto simp: list_all_iff valid_entity_def)
  have "gather_row (typed_ends P bs T t) ?ps =
      Inr (map (\<lambda>i. typed_ends P bs T t ! nat i) ?ps)"
    using p by (intro gather_row_valid) (auto simp: valid_index_def)
  moreover have "gather_row (map snd (ranges_of P bs T ! t)) ?ps =
      Inr (map (\<lambda>i. map snd (ranges_of P bs T ! t) ! nat i) ?ps)"
    using p assms(3) by (intro gather_row_valid) (auto simp: valid_index_def ranges_of_def)
  ultimately show ?thesis
    using p assms(2,3)
    by (auto simp: homo_ids_def Let_def list_eq_iff_nth_eq ranges_of_def typed_id_def homo_id_def
        typed_start_Suc span_def)
qed

lemma homo_id_range:
  assumes "valid_bounds P bs T" and "valid_entity P bs T x"
  shows "0 \<le> homo_id bs T x" and "homo_id bs T x < last bs"
proof -
  let ?k = "en_part x * T + en_type x"
  have k: "?k < P * T" using assms(2) by (intro cell_less) (simp_all add: valid_entity_def)
  have "bs ! 0 \<le> bs ! ?k" "bs ! (?k + 1) \<le> bs ! (P * T)"
    using k by (intro valid_boundsD(4) [OF assms(1)]; simp)+
  then show "0 \<le> homo_id bs T x" "homo_id bs T x < last bs"
    using entity_cell [OF assms(2)] valid_boundsD(3,6) [OF assms(1)] by (simp_all add: in_cell_def)
qed

section \<open>The interface of the lookups\<close>

text \<open>What the node methods and the edge methods of a book \<open>c\<close> have in common: the number of
  partitions, the boundaries and the type keys, and the lookups. \<open>by_key\<close> says when the lookup
  by a type key is the lookup of that type (the default type name stands for all types).\<close>

locale typed_ids =
  fixes ok :: "'c \<Rightarrow> bool"
    and parts :: "'c \<Rightarrow> nat"
    and bounds :: "'c \<Rightarrow> int list"
    and keys :: "'c \<Rightarrow> 'k list"
    and per_type :: "'c \<Rightarrow> int list \<Rightarrow> (int list \<times> int list) res"
    and homo :: "'c \<Rightarrow> int list \<Rightarrow> 'k \<Rightarrow> int list res"
    and part_of :: "'c \<Rightarrow> int list \<Rightarrow> 'k option \<Rightarrow> int list res"
    and ids_of :: "'c \<Rightarrow> int \<Rightarrow> 'k \<Rightarrow> int list res"
  assumes ok_bounds: "ok c \<Longrightarrow> valid_bounds (parts c) (bounds c) (length (keys c))"
    and per_type_entities: "ok c \<Longrightarrow>
      list_all (valid_entity (parts c) (bounds c) (length (keys c))) xs \<Longrightarrow>
      per_type c (map (homo_id (bounds c) (length (keys c))) xs) =
        Inr (map (\<lambda>x. int (en_type x)) xs, map (typed_id (bounds c) (length (keys c))) xs)"
    and homo_entities: "ok c \<Longrightarrow>
      list_all (valid_entity (parts c) (bounds c) (length (keys c))) xs \<Longrightarrow>
      t < length (keys c) \<Longrightarrow> \<forall>x \<in> set xs. en_type x = t \<Longrightarrow>
      homo c (map (typed_id (bounds c) (length (keys c))) xs) (keys c ! t) =
        Inr (map (homo_id (bounds c) (length (keys c))) xs)"
    and part_of_homo_entities: "ok c \<Longrightarrow>
      list_all (valid_entity (parts c) (bounds c) (length (keys c))) xs \<Longrightarrow>
      part_of c (map (homo_id (bounds c) (length (keys c))) xs) None =
        Inr (map (\<lambda>x. int (en_part x)) xs)"
    and part_of_typed_entities: "ok c \<Longrightarrow>
      list_all (valid_entity (parts c) (bounds c) (length (keys c))) xs \<Longrightarrow>
      t < length (keys c) \<Longrightarrow> \<forall>x \<in> set xs. en_type x = t \<Longrightarrow>
      part_of c (map (typed_id (bounds c) (length (keys c))) xs) (Some (keys c ! t)) =
        Inr (map (\<lambda>x. int (en_part x)) xs)"
    and ids_of_part: "ok c \<Longrightarrow> t < length (keys c) \<Longrightarrow> p < parts c \<Longrightarrow>
      ids_of c (int p) (keys c ! t) =
        Inr (arange (typed_start (bounds c) (length (keys c)) t p)
                    (typed_start (bounds c) (length (keys c)) t (Suc p)))"
begin

definition all_ids :: "'c \<Rightarrow> int" where
  "all_ids c = last (bounds c)"

definition type_size :: "'c \<Rightarrow> nat \<Rightarrow> int" where
  "type_size c t = typed_start (bounds c) (length (keys c)) t (parts c)"

lemma homo_entities_of:
  assumes "ok c" and "\<forall>i \<in> set ids. 0 \<le> i \<and> i < all_ids c"
  obtains xs where "list_all (valid_entity (parts c) (bounds c) (length (keys c))) xs"
    and "map (homo_id (bounds c) (length (keys c))) xs = ids"
proof -
  have "\<exists>xs. list_all (valid_entity (parts c) (bounds c) (length (keys c))) xs \<and>
      map (homo_id (bounds c) (length (keys c))) xs = ids"
    using assms(2)
  proof (induction ids)
    case (Cons i ids)
    then obtain x where "valid_entity (parts c) (bounds c) (length (keys c)) x"
      "homo_id (bounds c) (length (keys c)) x = i"
      using homo_id_surj [OF ok_bounds [OF assms(1)], of i] by (auto simp: all_ids_def)
    moreover obtain xs where "list_all (valid_entity (parts c) (bounds c) (length (keys c))) xs"
      "map (homo_id (bounds c) (length (keys c))) xs = ids" using Cons by auto
    ultimately show ?case by (intro exI [of _ "x # xs"]) simp
  qed simp
  then show thesis using that by blast
qed

lemma typed_entities_of:
  assumes "ok c" and "t < length (keys c)" and "\<forall>j \<in> set js. 0 \<le> j \<and> j < type_size c t"
  obtains xs where "list_all (valid_entity (parts c) (bounds c) (length (keys c))) xs"
    and "\<forall>x \<in> set xs. en_type x = t" and "map (typed_id (bounds c) (length (keys c))) xs = js"
proof -
  have "\<exists>xs. list_all (valid_entity (parts c) (bounds c) (length (keys c))) xs \<and>
      (\<forall>x \<in> set xs. en_type x = t) \<and> map (typed_id (bounds c) (length (keys c))) xs = js"
    using assms(3)
  proof (induction js)
    case (Cons j js)
    then obtain x where "valid_entity (parts c) (bounds c) (length (keys c)) x" "en_type x = t"
      "typed_id (bounds c) (length (keys c)) x = j"
      using typed_id_surj [OF ok_bounds [OF assms(1)] assms(2), of j] by (auto simp: type_size_def)
    moreover obtain xs where "list_all (valid_entity (parts c) (bounds c) (length (keys c))) xs"
      "\<forall>x \<in> set xs. en_type x = t" "map (typed_id (bounds c) (length (keys c))) xs = js"
      using Cons by auto
    ultimately show ?case by (intro exI [of _ "x # xs"]) simp
  qed simp
  then show thesis using that by blast
qed

lemma per_type_total:
  assumes "ok c" and "\<forall>i \<in> set ids. 0 \<le> i \<and> i < all_ids c"
  shows "\<exists>xs. list_all (valid_entity (parts c) (bounds c) (length (keys c))) xs \<and>
    ids = map (homo_id (bounds c) (length (keys c))) xs \<and>
    per_type c ids = Inr (map (\<lambda>x. int (en_type x)) xs, map (typed_id (bounds c) (length (keys c))) xs)"
  using homo_entities_of [OF assms] per_type_entities [OF assms(1)] by metis

text \<open>Split by type and mapped back, the IDs of one type are those it was given.\<close>

lemma homo_of_per_type:
  assumes "ok c" and "\<forall>i \<in> set ids. 0 \<le> i \<and> i < all_ids c" and "t < length (keys c)"
    and "per_type c ids = Inr (tys, js)"
  shows "homo c (map snd (filter (\<lambda>(y, j). y = int t) (zip tys js))) (keys c ! t) =
    Inr (map snd (filter (\<lambda>(y, i). y = int t) (zip tys ids)))"
proof -
  obtain xs where xs: "list_all (valid_entity (parts c) (bounds c) (length (keys c))) xs"
    "ids = map (homo_id (bounds c) (length (keys c))) xs"
    "tys = map (\<lambda>x. int (en_type x)) xs" "js = map (typed_id (bounds c) (length (keys c))) xs"
    using per_type_total [OF assms(1,2)] assms(4) by auto
  let ?ys = "filter (\<lambda>x. en_type x = t) xs"
  have "map snd (filter (\<lambda>(y, j). y = int t) (zip tys (map f xs))) = map f ?ys" for f :: "entity \<Rightarrow> int"
    by (simp add: xs(3) zip_map_map zip_same_conv_map filter_map comp_def)
  moreover have "homo c (map (typed_id (bounds c) (length (keys c))) ?ys) (keys c ! t) =
      Inr (map (homo_id (bounds c) (length (keys c))) ?ys)"
    using xs(1) by (intro homo_entities [OF assms(1) _ assms(3)]) (auto simp: list_all_iff)
  ultimately show ?thesis by (simp add: xs(2,4))
qed

text \<open>IDs within a type, made homogeneous, are split into that type and the same IDs; and the
  two lookups of the partition agree.\<close>

lemma per_type_of_homo:
  assumes "ok c" and "t < length (keys c)" and "\<forall>j \<in> set js. 0 \<le> j \<and> j < type_size c t"
  shows "\<exists>ids. homo c js (keys c ! t) = Inr ids \<and> (\<forall>i \<in> set ids. 0 \<le> i \<and> i < all_ids c) \<and>
    per_type c ids = Inr (replicate (length js) (int t), js) \<and>
    part_of c ids None = part_of c js (Some (keys c ! t))"
proof -
  obtain xs where xs: "list_all (valid_entity (parts c) (bounds c) (length (keys c))) xs"
    "\<forall>x \<in> set xs. en_type x = t" "map (typed_id (bounds c) (length (keys c))) xs = js"
    using typed_entities_of [OF assms] by blast
  let ?ids = "map (homo_id (bounds c) (length (keys c))) xs"
  have "map (\<lambda>x. int (en_type x)) xs = replicate (length js) (int t)"
    using xs(2,3) by (intro replicate_eqI) auto
  then have "per_type c ?ids = Inr (replicate (length js) (int t), js)"
    using per_type_entities [OF assms(1) xs(1)] xs(3) by simp
  moreover have "homo c js (keys c ! t) = Inr ?ids"
    using homo_entities [OF assms(1) xs(1) assms(2) xs(2)] xs(3) by simp
  moreover have "part_of c ?ids None = part_of c js (Some (keys c ! t))"
    using part_of_homo_entities [OF assms(1) xs(1)]
      part_of_typed_entities [OF assms(1) xs(1) assms(2) xs(2)] xs(3) by simp
  moreover have "0 \<le> i \<and> i < all_ids c" if "i \<in> set ?ids" for i
    using that xs(1) homo_id_range [OF ok_bounds [OF assms(1)]]
    by (auto simp: list_all_iff all_ids_def)
  ultimately show ?thesis by blast
qed

text \<open>The partitions share out the IDs of a type, in order, and the lookup gives each the
  partition that owns it.\<close>

lemma ids_tile:
  assumes "ok c" and "t < length (keys c)"
  shows "rmap (\<lambda>p. ids_of c (int p) (keys c ! t)) [0..<parts c] =
      Inr (map (\<lambda>p. arange (typed_start (bounds c) (length (keys c)) t p)
                           (typed_start (bounds c) (length (keys c)) t (Suc p))) [0..<parts c])"
    and "concat (map (\<lambda>p. arange (typed_start (bounds c) (length (keys c)) t p)
                           (typed_start (bounds c) (length (keys c)) t (Suc p))) [0..<parts c]) =
      arange 0 (type_size c t)"
proof -
  show "rmap (\<lambda>p. ids_of c (int p) (keys c ! t)) [0..<parts c] =
      Inr (map (\<lambda>p. arange (typed_start (bounds c) (length (keys c)) t p)
                           (typed_start (bounds c) (length (keys c)) t (Suc p))) [0..<parts c])"
    by (rule rmap_total) (simp add: ids_of_part [OF assms])
  have "typed_start (bounds c) (length (keys c)) t p \<le> typed_start (bounds c) (length (keys c)) t (Suc p)"
    if "p < parts c" for p
    using valid_boundsD(5) [OF ok_bounds [OF assms(1)] that assms(2)] by (simp add: typed_start_Suc)
  then have "concat (map (\<lambda>p. [typed_start (bounds c) (length (keys c)) t p ..
        typed_start (bounds c) (length (keys c)) t (Suc p) - 1]) [0..<parts c]) =
      [typed_start (bounds c) (length (keys c)) t 0 ..
        typed_start (bounds c) (length (keys c)) t (parts c) - 1]"
    by (rule concat_upto_tiling)
  then show "concat (map (\<lambda>p. arange (typed_start (bounds c) (length (keys c)) t p)
                           (typed_start (bounds c) (length (keys c)) t (Suc p))) [0..<parts c]) =
      arange 0 (type_size c t)"
    by (simp add: arange_def type_size_def)
qed

lemma part_of_own:
  assumes "ok c" and "t < length (keys c)" and "p < parts c"
    and "ids_of c (int p) (keys c ! t) = Inr js"
  shows "part_of c js (Some (keys c ! t)) = Inr (replicate (length js) (int p))"
proof -
  let ?T = "length (keys c)" and ?bs = "bounds c"
  let ?xs = "map (\<lambda>i. \<lparr>en_type = t, en_part = p, en_pos = i\<rparr>) (arange 0 (span ?bs ?T t p))"
  have js: "js = arange (typed_start ?bs ?T t p) (typed_start ?bs ?T t (Suc p))"
    using ids_of_part [OF assms(1-3)] assms(4) by simp
  have v: "list_all (valid_entity (parts c) ?bs ?T) ?xs"
    using assms(2,3) by (auto simp: list_all_iff valid_entity_def)
  have "map (typed_id ?bs ?T) ?xs = js"
    unfolding js by (intro nth_equalityI) (simp_all add: typed_id_def typed_start_Suc)
  moreover have "map (\<lambda>x. int (en_part x)) ?xs = replicate (length js) (int p)"
    unfolding js by (intro replicate_eqI) (auto simp: typed_start_Suc)
  moreover have "\<forall>x \<in> set ?xs. en_type x = t" by auto
  ultimately show ?thesis using part_of_typed_entities [OF assms(1) v assms(2)] by metis
qed

end

section \<open>The node methods and the edge methods\<close>

text \<open>A book the constructor built for a laid-out graph. The type names the book reserves for
  "all types" may only be used when there is no other type.\<close>

type_synonym book_ctx =
  "numpy \<times> graph_layout \<times> nat \<times> (string \<times> int) list \<times> (type_name \<times> int) list \<times> range_book"

definition names_ok :: "graph_layout \<Rightarrow> bool" where
  "names_ok G \<longleftrightarrow>
     (DEFAULT_NTYPE \<in> set (gl_ntypes G) \<longrightarrow> length (gl_ntypes G) = 1) \<and>
     (TTup DEFAULT_ETYPE \<in> set (gl_etypes G) \<longrightarrow> length (gl_etypes G) = 1)"

fun built :: "book_ctx \<Rightarrow> bool" where
  "built (N, G, pid, ntypes, etypes, b) \<longleftrightarrow>
     numpy_laws N \<and> valid_graph G \<and> names_ok G \<and> pid < gl_parts G \<and>
     type_ids ntypes (gl_ntypes G) \<and> type_ids etypes (gl_etypes G) \<and>
     range_book_init N (int pid) (int (gl_parts G)) (node_map G) (edge_map G) ntypes etypes = Inr b"

fun ctx_graph :: "book_ctx \<Rightarrow> graph_layout" where
  "ctx_graph (N, G, pid, ntypes, etypes, b) = G"

fun ctx_numpy :: "book_ctx \<Rightarrow> numpy" where
  "ctx_numpy (N, G, pid, ntypes, etypes, b) = N"

fun ctx_book :: "book_ctx \<Rightarrow> range_book" where
  "ctx_book (N, G, pid, ntypes, etypes, b) = b"

fun ctx_part :: "book_ctx \<Rightarrow> nat" where
  "ctx_part (N, G, pid, ntypes, etypes, b) = pid"

lemma built_book:
  assumes "built c"
  obtains e2c where "ctx_book c = book_of (ctx_graph c) (ctx_part c) e2c"
    and "\<And>s. map_of e2c s \<noteq> Some (TTup []) \<Longrightarrow> map_of e2c s \<noteq> None \<Longrightarrow>
      the (map_of e2c s) \<in> set (gl_etypes (ctx_graph c))"
proof -
  obtain N G pid nt et b where c: "c = (N, G, pid, nt, et, b)" by (cases c) auto
  have eq: "b = book_of G pid (foldl e2c_step [] (map fst et))"
    using assms range_book_init_eq by (auto simp: c)
  show thesis
  proof (rule that)
    show "ctx_book c = book_of (ctx_graph c) (ctx_part c) (foldl e2c_step [] (map fst et))"
      by (simp add: c eq)
    fix s
    assume s: "map_of (foldl e2c_step [] (map fst et)) s \<noteq> Some (TTup [])"
      "map_of (foldl e2c_step [] (map fst et)) s \<noteq> None"
    have et: "fst ` set et = set (gl_etypes G)" using assms by (auto simp: c dest: type_idsD)
    have "the (map_of (foldl e2c_step [] (map fst et)) s) \<in> set (map fst et)"
    proof (cases "filter (\<lambda>c. etype_name c = s) (map fst et)")
      case (Cons x xs)
      then have "x \<in> set (map fst et)" by (metis filter_is_subset list.set_intros(1) subsetD)
      then show ?thesis using s Cons by (cases xs) (simp_all add: map_of_e2c)
    qed (use s in \<open>simp add: map_of_e2c\<close>)
    then show "the (map_of (foldl e2c_step [] (map fst et)) s) \<in> set (gl_etypes (ctx_graph c))"
      using et by (simp add: c)
  qed
qed

lemma built_laws:
  assumes "built c"
  shows "numpy_laws (ctx_numpy c)" "valid_graph (ctx_graph c)" "names_ok (ctx_graph c)"
    "ctx_part c < gl_parts (ctx_graph c)"
  using assms by (cases c; simp)+

lemma book_of_simps [simp]:
  "rb_partid (book_of G pid e2c) = int pid"
  "rb_num_partitions (book_of G pid e2c) = int (gl_parts G)"
  "rb_ntypes (book_of G pid e2c) = gl_ntypes G"
  "rb_canonical_etypes (book_of G pid e2c) = gl_etypes G"
  "rb_etype2canonical (book_of G pid e2c) = e2c"
  "rb_typed_nid_range (book_of G pid e2c) = node_map G"
  "rb_typed_max_node_ids (book_of G pid e2c) = typed_ends_dict (gl_parts G) (gl_nbounds G) (gl_ntypes G)"
  "rb_max_node_ids (book_of G pid e2c) = part_ends (gl_parts G) (gl_nbounds G) (length (gl_ntypes G))"
  "rb_typed_eid_range (book_of G pid e2c) = edge_map G"
  "rb_typed_max_edge_ids (book_of G pid e2c) = typed_ends_dict (gl_parts G) (gl_ebounds G) (gl_etypes G)"
  "rb_max_edge_ids (book_of G pid e2c) = part_ends (gl_parts G) (gl_ebounds G) (length (gl_etypes G))"
  "rb_nid_map (book_of G pid e2c) =
     layout_map (gl_parts G) (gl_nbounds G) (ranges_of (gl_parts G) (gl_nbounds G) (length (gl_ntypes G)))"
  "rb_eid_map (book_of G pid e2c) =
     layout_map (gl_parts G) (gl_ebounds G) (ranges_of (gl_parts G) (gl_ebounds G) (length (gl_etypes G)))"
  "rb_metadata (book_of G pid e2c) =
     partition_meta_data (gl_parts G)
       (part_ends (gl_parts G) (gl_nbounds G) (length (gl_ntypes G)))
       (part_ends (gl_parts G) (gl_ebounds G) (length (gl_etypes G)))"
  by (simp_all add: book_of_def Let_def)

lemma typed_ends_lookup:
  assumes "distinct keys" and "t < length keys"
  shows "map_of (typed_ends_dict P bs keys) (keys ! t) = Some (typed_ends P bs (length keys) t)"
    and "map_of (zip keys (ranges_of P bs (length keys))) (keys ! t) =
      Some (ranges_of P bs (length keys) ! t)"
  using assms by (simp_all add: typed_ends_dict_def map_of_zip_nth_eq)

text \<open>With a single type the type's ranges are the partitions' ranges.\<close>

lemma single_type_start:
  assumes "valid_bounds P bs 1" and "p \<le> P"
  shows "typed_start bs 1 0 p = bs ! p"
  using assms(2) valid_boundsD(3) [OF assms(1)]
  by (induction p) (simp_all add: typed_start_Suc span_def)

lemma single_type_ends: "valid_bounds P bs 1 \<Longrightarrow> part_ends P bs 1 = typed_ends P bs 1 0"
  by (rule nth_equalityI) (simp_all add: single_type_start del: One_nat_def, simp)

lemma node_ends:
  assumes "valid_graph G" and "names_ok G" and "t < length (gl_ntypes G)"
  shows "(if gl_ntypes G ! t = DEFAULT_NTYPE then Inr (part_ends (gl_parts G) (gl_nbounds G) (length (gl_ntypes G)))
     else dict_get (typed_ends_dict (gl_parts G) (gl_nbounds G) (gl_ntypes G)) (gl_ntypes G ! t)) =
    Inr (typed_ends (gl_parts G) (gl_nbounds G) (length (gl_ntypes G)) t)"
proof (cases "gl_ntypes G ! t = DEFAULT_NTYPE")
  case True
  then have "length (gl_ntypes G) = 1" using assms(2,3) by (metis names_ok_def nth_mem)
  then show ?thesis using True assms(3) single_type_ends valid_graphD(1) [OF assms(1)] by simp
next
  case False
  then show ?thesis using typed_ends_lookup(1) [OF valid_graphD(3) [OF assms(1)] assms(3)] by simp
qed

lemma edge_ends:
  assumes "valid_graph G" and "names_ok G" and "t < length (gl_etypes G)"
  shows "(if default_etype (gl_etypes G ! t) then Inr (part_ends (gl_parts G) (gl_ebounds G) (length (gl_etypes G)))
     else dict_get (typed_ends_dict (gl_parts G) (gl_ebounds G) (gl_etypes G)) (gl_etypes G ! t)) =
    Inr (typed_ends (gl_parts G) (gl_ebounds G) (length (gl_etypes G)) t)"
proof (cases "default_etype (gl_etypes G ! t)")
  case True
  have "canonical_etype (gl_etypes G ! t)"
    using valid_graphD(5) [OF assms(1)] assms(3) by (simp add: list_all_length)
  then have "gl_etypes G ! t = TTup DEFAULT_ETYPE"
    using True by (auto simp: default_etype_def canonical_etype_def)
  then have "length (gl_etypes G) = 1" using assms(2,3) by (metis names_ok_def nth_mem)
  then show ?thesis using True assms(3) single_type_ends valid_graphD(2) [OF assms(1)] by simp
next
  case False
  then show ?thesis using typed_ends_lookup(1) [OF valid_graphD(4) [OF assms(1)] assms(3)] by simp
qed

lemma canonical_key:
  assumes "valid_graph G" and "t < length (gl_etypes G)"
  shows "rb_to_canonical_etype (book_of G pid e2c) (gl_etypes G ! t) = Inr (gl_etypes G ! t)"
proof -
  have "canonical_etype (gl_etypes G ! t)"
    using valid_graphD(5) [OF assms(1)] assms(2) by (simp add: list_all_length)
  then obtain a e b where "gl_etypes G ! t = TTup [a, e, b]" by (rule canonical_etypeE)
  then show ?thesis using nth_mem [OF assms(2)] by simp
qed

text \<open>A key's lookup is a lookup in the ends of that type.\<close>

lemma nid2partid_key:
  assumes "valid_graph G" and "names_ok G" and "t < length (gl_ntypes G)"
  shows "rb_nid2partid N (book_of G pid e2c) ids (gl_ntypes G ! t) =
    Inr (np_searchsorted_right N (typed_ends (gl_parts G) (gl_nbounds G) (length (gl_ntypes G)) t) ids)"
  using node_ends [OF assms] by (simp add: rb_nid2partid_def dict_get_def split: if_splits)

lemma eid2partid_key:
  assumes "valid_graph G" and "names_ok G" and "t < length (gl_etypes G)"
  shows "rb_eid2partid N (book_of G pid e2c) ids (gl_etypes G ! t) =
    Inr (np_searchsorted_right N (typed_ends (gl_parts G) (gl_ebounds G) (length (gl_etypes G)) t) ids)"
  using edge_ends [OF assms] canonical_key [OF assms(1,3)]
  by (simp add: rb_eid2partid_def dict_get_def split: if_splits)

lemma part_ids_ends:
  assumes "valid_bounds P bs T" and "t < T" and "p < P"
  shows "part_ids (typed_ends P bs T t) (int p) =
    Inr (arange (typed_start bs T t p) (typed_start bs T t (Suc p)))"
proof -
  have "part_start (typed_ends P bs T t) (int p) = Inr (typed_start bs T t p)"
  proof (cases p)
    case (Suc q)
    then show ?thesis using assms(3) by (simp add: part_start_def)
  qed (simp add: part_start_def)
  then show ?thesis
    using valid_boundsD(5) [OF assms(1,3,2)] assms(3) by (simp add: part_ids_def typed_start_Suc)
qed

lemma part_start_ends:
  "p < P \<Longrightarrow> part_start (typed_ends P bs T t) (int p) = Inr (typed_start bs T t p)"
  by (cases p) (simp_all add: part_start_def)

lemma partid2nids_key:
  assumes "valid_graph G" and "names_ok G" and "t < length (gl_ntypes G)" and "p < gl_parts G"
  shows "rb_partid2nids (book_of G pid e2c) (int p) (gl_ntypes G ! t) =
    Inr (arange (typed_start (gl_nbounds G) (length (gl_ntypes G)) t p)
                (typed_start (gl_nbounds G) (length (gl_ntypes G)) t (Suc p)))"
  using node_ends [OF assms(1-3)] part_ids_ends [OF valid_graphD(1) [OF assms(1)] assms(3,4)]
  by (simp add: rb_partid2nids_def dict_get_def split: if_splits)

lemma partid2eids_key:
  assumes "valid_graph G" and "names_ok G" and "t < length (gl_etypes G)" and "p < gl_parts G"
  shows "rb_partid2eids (book_of G pid e2c) (int p) (gl_etypes G ! t) =
    Inr (arange (typed_start (gl_ebounds G) (length (gl_etypes G)) t p)
                (typed_start (gl_ebounds G) (length (gl_etypes G)) t (Suc p)))"
  using edge_ends [OF assms(1-3)] canonical_key [OF assms(1,3)]
    part_ids_ends [OF valid_graphD(2) [OF assms(1)] assms(3,4)]
  by (simp add: rb_partid2eids_def dict_get_def split: if_splits)

lemma nid2localnid_key:
  assumes "valid_graph G" and "names_ok G" and "t < length (gl_ntypes G)" and "p < gl_parts G"
  shows "rb_nid2localnid (book_of G p e2c) ids (int p) (gl_ntypes G ! t) =
    Inr (map (\<lambda>n. n - typed_start (gl_nbounds G) (length (gl_ntypes G)) t p) ids)"
  using node_ends [OF assms(1-3)] part_start_ends [OF assms(4)]
  by (cases "p = 0") (simp_all add: rb_nid2localnid_def dict_get_def part_start_def split: if_splits)

lemma eid2localeid_key:
  assumes "valid_graph G" and "names_ok G" and "t < length (gl_etypes G)" and "p < gl_parts G"
  shows "rb_eid2localeid (book_of G p e2c) ids (int p) (gl_etypes G ! t) =
    Inr (map (\<lambda>n. n - typed_start (gl_ebounds G) (length (gl_etypes G)) t p) ids)"
  using edge_ends [OF assms(1-3)] canonical_key [OF assms(1,3)] part_start_ends [OF assms(4)]
  by (cases "p = 0") (simp_all add: rb_eid2localeid_def dict_get_def part_start_def split: if_splits)

lemma map_to_per_entities:
  assumes "valid_bounds P bs T" and "list_all (valid_entity P bs T) xs"
  shows "id_map_call (layout_map P bs (ranges_of P bs T)) (map (homo_id bs T) xs) =
    Inr (map (\<lambda>x. int (en_type x)) xs, map (typed_id bs T) xs)"
proof -
  let ?m = "layout_map P bs (ranges_of P bs T)"
  have "rmap (map_id ?m) (map (homo_id bs T) xs) = Inr (map (\<lambda>x. (int (en_type x), typed_id bs T x)) xs)"
    using assms(2)
  proof (induction xs)
    case (Cons x xs)
    then show ?case by (simp add: map_id_entity [OF assms(1)])
  qed simp
  then show ?thesis
    using valid_boundsD(2) [OF assms(1)]
    by (simp add: id_map_call_def comp_def layout_map_def)
qed

text \<open>The interface holds of the node methods and of the edge methods of a built book.\<close>

interpretation node_ids: typed_ids built
  "\<lambda>c. gl_parts (ctx_graph c)" "\<lambda>c. gl_nbounds (ctx_graph c)" "\<lambda>c. gl_ntypes (ctx_graph c)"
  "\<lambda>c. rb_map_to_per_ntype (ctx_book c)"
  "\<lambda>c. rb_map_to_homo_nid (ctx_numpy c) (ctx_book c)"
  "\<lambda>c ids k. rb_nid2partid (ctx_numpy c) (ctx_book c) ids (case k of None \<Rightarrow> DEFAULT_NTYPE | Some k \<Rightarrow> k)"
  "\<lambda>c. rb_partid2nids (ctx_book c)"
proof
  fix c xs t p
  assume c: "built c"
  obtain e2c where b: "ctx_book c = book_of (ctx_graph c) (ctx_part c) e2c" using built_book [OF c] by metis
  note L = built_laws [OF c] and V = valid_graphD [OF built_laws(2) [OF c]]
  show "valid_bounds (gl_parts (ctx_graph c)) (gl_nbounds (ctx_graph c)) (length (gl_ntypes (ctx_graph c)))"
    by (rule V(1))
  show "t < length (gl_ntypes (ctx_graph c)) \<Longrightarrow> p < gl_parts (ctx_graph c) \<Longrightarrow>
      rb_partid2nids (ctx_book c) (int p) (gl_ntypes (ctx_graph c) ! t) =
        Inr (arange (typed_start (gl_nbounds (ctx_graph c)) (length (gl_ntypes (ctx_graph c))) t p)
                    (typed_start (gl_nbounds (ctx_graph c)) (length (gl_ntypes (ctx_graph c))) t (Suc p)))"
    unfolding b by (rule partid2nids_key [OF L(2,3)])
  assume xs: "list_all (valid_entity (gl_parts (ctx_graph c)) (gl_nbounds (ctx_graph c))
      (length (gl_ntypes (ctx_graph c)))) xs"
  show "rb_map_to_per_ntype (ctx_book c)
      (map (homo_id (gl_nbounds (ctx_graph c)) (length (gl_ntypes (ctx_graph c)))) xs) =
      Inr (map (\<lambda>x. int (en_type x)) xs,
           map (typed_id (gl_nbounds (ctx_graph c)) (length (gl_ntypes (ctx_graph c)))) xs)"
    by (simp add: b rb_map_to_per_ntype_def map_to_per_entities [OF V(1) xs])
  show "rb_nid2partid (ctx_numpy c) (ctx_book c)
      (map (homo_id (gl_nbounds (ctx_graph c)) (length (gl_ntypes (ctx_graph c)))) xs)
      (case None of None \<Rightarrow> DEFAULT_NTYPE | Some k \<Rightarrow> k) = Inr (map (\<lambda>x. int (en_part x)) xs)"
    by (simp add: b rb_nid2partid_def part_of_homo [OF L(1) V(1) xs])
  assume t: "t < length (gl_ntypes (ctx_graph c))" "\<forall>x \<in> set xs. en_type x = t"
  show part: "rb_nid2partid (ctx_numpy c) (ctx_book c)
      (map (typed_id (gl_nbounds (ctx_graph c)) (length (gl_ntypes (ctx_graph c)))) xs)
      (case Some (gl_ntypes (ctx_graph c) ! t) of None \<Rightarrow> DEFAULT_NTYPE | Some k \<Rightarrow> k) =
      Inr (map (\<lambda>x. int (en_part x)) xs)"
    by (simp add: b nid2partid_key [OF L(2,3) t(1)] part_of_typed [OF L(1) V(1) xs t(2,1)])
  show "rb_map_to_homo_nid (ctx_numpy c) (ctx_book c)
      (map (typed_id (gl_nbounds (ctx_graph c)) (length (gl_ntypes (ctx_graph c)))) xs)
      (gl_ntypes (ctx_graph c) ! t) =
      Inr (map (homo_id (gl_nbounds (ctx_graph c)) (length (gl_ntypes (ctx_graph c)))) xs)"
    using part homo_ids_entities [OF xs t(2,1)] typed_ends_lookup [OF V(3) t(1)]
    by (simp add: b rb_map_to_homo_nid_def dict_get_def)
qed

interpretation edge_ids: typed_ids built
  "\<lambda>c. gl_parts (ctx_graph c)" "\<lambda>c. gl_ebounds (ctx_graph c)" "\<lambda>c. gl_etypes (ctx_graph c)"
  "\<lambda>c. rb_map_to_per_etype (ctx_book c)"
  "\<lambda>c. rb_map_to_homo_eid (ctx_numpy c) (ctx_book c)"
  "\<lambda>c ids k. rb_eid2partid (ctx_numpy c) (ctx_book c) ids (case k of None \<Rightarrow> TTup DEFAULT_ETYPE | Some k \<Rightarrow> k)"
  "\<lambda>c. rb_partid2eids (ctx_book c)"
proof
  fix c xs t p
  assume c: "built c"
  obtain e2c where b: "ctx_book c = book_of (ctx_graph c) (ctx_part c) e2c" using built_book [OF c] by metis
  note L = built_laws [OF c] and V = valid_graphD [OF built_laws(2) [OF c]]
  show "valid_bounds (gl_parts (ctx_graph c)) (gl_ebounds (ctx_graph c)) (length (gl_etypes (ctx_graph c)))"
    by (rule V(2))
  show "t < length (gl_etypes (ctx_graph c)) \<Longrightarrow> p < gl_parts (ctx_graph c) \<Longrightarrow>
      rb_partid2eids (ctx_book c) (int p) (gl_etypes (ctx_graph c) ! t) =
        Inr (arange (typed_start (gl_ebounds (ctx_graph c)) (length (gl_etypes (ctx_graph c))) t p)
                    (typed_start (gl_ebounds (ctx_graph c)) (length (gl_etypes (ctx_graph c))) t (Suc p)))"
    unfolding b by (rule partid2eids_key [OF L(2,3)])
  assume xs: "list_all (valid_entity (gl_parts (ctx_graph c)) (gl_ebounds (ctx_graph c))
      (length (gl_etypes (ctx_graph c)))) xs"
  show "rb_map_to_per_etype (ctx_book c)
      (map (homo_id (gl_ebounds (ctx_graph c)) (length (gl_etypes (ctx_graph c)))) xs) =
      Inr (map (\<lambda>x. int (en_type x)) xs,
           map (typed_id (gl_ebounds (ctx_graph c)) (length (gl_etypes (ctx_graph c)))) xs)"
    by (simp add: b rb_map_to_per_etype_def map_to_per_entities [OF V(2) xs])
  show "rb_eid2partid (ctx_numpy c) (ctx_book c)
      (map (homo_id (gl_ebounds (ctx_graph c)) (length (gl_etypes (ctx_graph c)))) xs)
      (case None of None \<Rightarrow> TTup DEFAULT_ETYPE | Some k \<Rightarrow> k) = Inr (map (\<lambda>x. int (en_part x)) xs)"
    by (simp add: b rb_eid2partid_def default_etype_def part_of_homo [OF L(1) V(2) xs])
  assume t: "t < length (gl_etypes (ctx_graph c))" "\<forall>x \<in> set xs. en_type x = t"
  show part: "rb_eid2partid (ctx_numpy c) (ctx_book c)
      (map (typed_id (gl_ebounds (ctx_graph c)) (length (gl_etypes (ctx_graph c)))) xs)
      (case Some (gl_etypes (ctx_graph c) ! t) of None \<Rightarrow> TTup DEFAULT_ETYPE | Some k \<Rightarrow> k) =
      Inr (map (\<lambda>x. int (en_part x)) xs)"
    by (simp add: b eid2partid_key [OF L(2,3) t(1)] part_of_typed [OF L(1) V(2) xs t(2,1)])
  show "rb_map_to_homo_eid (ctx_numpy c) (ctx_book c)
      (map (typed_id (gl_ebounds (ctx_graph c)) (length (gl_etypes (ctx_graph c)))) xs)
      (gl_etypes (ctx_graph c) ! t) =
      Inr (map (homo_id (gl_ebounds (ctx_graph c)) (length (gl_etypes (ctx_graph c)))) xs)"
    using part homo_ids_entities [OF xs t(2,1)] typed_ends_lookup [OF V(4) t(1)]
    by (simp add: b rb_map_to_homo_eid_def dict_get_def canonical_key [OF L(2) t(1)])
qed


end
