(* ===== verification/PartitionProps.thy ===== *)
theory PartitionProps
  imports PartitionLookup
begin

text \<open>
  What \<open>RangePartitionBook\<close> guarantees: construction succeeds on a laid-out graph, the
  homogeneous and the per-type IDs are translated into each other without loss, the partitions
  share the IDs out, and the two views of the partition agree. \<open>example_graph\<close> is a small graph
  on which the properties are instantiated.
\<close>

section \<open>An example\<close>

definition example_graph :: graph_layout where
  "example_graph =
     \<lparr>gl_parts = 2, gl_ntypes = [''user'', ''item''], gl_nbounds = [0, 3, 5, 9, 10],
      gl_etypes = [TTup [''user'', ''like'', ''item''], TTup [''item'', ''like'', ''user'']],
      gl_ebounds = [0, 4, 5, 9, 9]\<rparr>"

definition example_etypes :: "(type_name \<times> int) list" where
  "example_etypes = [(TTup [''item'', ''like'', ''user''], 1), (TTup [''user'', ''like'', ''item''], 0)]"

definition example_book :: range_book where
  "example_book = book_of example_graph 1 [(''like'', TTup [])]"

definition example_ctx :: book_ctx where
  "example_ctx = (numpy_ref, example_graph, 1, [(''item'', 1), (''user'', 0)], example_etypes, example_book)"

lemma example_valid: "valid_graph example_graph" "names_ok example_graph"
  by (simp_all add: valid_graph_def valid_bounds_def names_ok_def example_graph_def
      canonical_etype_def name_consts)

lemma example_types:
  "type_ids [(''item'', 1), (''user'', 0)] (gl_ntypes example_graph)"
  "type_ids example_etypes (gl_etypes example_graph)"
  by (simp_all add: type_ids_def example_graph_def example_etypes_def insert_commute)

lemma example_e2c: "foldl e2c_step [] (map fst example_etypes) = [(''like'', TTup [])]"
  by (simp add: example_etypes_def e2c_step_def etype_name_def)

lemma example_init:
  "range_book_init numpy_ref 1 2 (node_map example_graph) (edge_map example_graph)
     [(''item'', 1), (''user'', 0)] example_etypes = Inr example_book"
  using range_book_init_eq [OF numpy_ref_laws example_valid(1) _ example_types, of 1] example_e2c
  by (simp add: example_book_def example_graph_def)

lemma example_built: "built example_ctx"
  using example_valid example_types example_init numpy_ref_laws
  by (simp add: example_ctx_def) (simp add: example_graph_def)

section \<open>Sizes\<close>

lemma part_span_ends:
  assumes "valid_bounds P bs T" and "p < P"
  shows "part_span (part_ends P bs T) p = bs ! (Suc p * T) - bs ! (p * T)"
proof (cases p)
  case 0
  then show ?thesis using assms valid_boundsD(3) [OF assms(1)] by (simp add: part_span_def)
next
  case (Suc q)
  have "q < P" using assms(2) Suc by simp
  then show ?thesis using assms Suc by (simp add: part_span_def add.commute add.left_commute)
qed

lemma sum_part_spans:
  assumes "valid_bounds P bs T"
  shows "sum_list (map (part_span (part_ends P bs T)) [0..<P]) = last bs"
proof -
  have "sum_list (map (part_span (part_ends P bs T)) [0..<P]) = (\<Sum>p<P. bs ! (Suc p * T) - bs ! (p * T))"
    using part_span_ends [OF assms] by (simp add: sum_list_sum_nth atLeast0LessThan)
  also have "\<dots> = last bs"
    using sum_telescope [of "\<lambda>p. bs ! (p * T)" P] valid_boundsD(3,6) [OF assms] by simp
  finally show ?thesis .
qed

lemma ends_last:
  assumes "valid_bounds P bs T"
  shows "py_index (part_ends P bs T) (- 1) = Inr (last bs)"
    and "py_index (typed_ends P bs T t) (- 1) = Inr (typed_start bs T t P)"
proof -
  have P: "0 < P" using valid_boundsD(1) [OF assms] .
  then have ne: "part_ends P bs T \<noteq> []" "typed_ends P bs T t \<noteq> []"
    by (metis length_ends list.size(3) less_irrefl)+
  have "(P - 1) * T + T = P * T" using P by (simp add: mult_eq_if)
  then show "py_index (part_ends P bs T) (- 1) = Inr (last bs)"
    using P ne(1) valid_boundsD(6) [OF assms] by (simp add: py_index_last last_conv_nth)
  show "py_index (typed_ends P bs T t) (- 1) = Inr (typed_start bs T t P)"
    using P ne(2) by (simp add: py_index_last last_conv_nth)
qed

section \<open>Properties\<close>

text \<open>On a graph whose ID ranges tile the IDs, construction succeeds in every partition: no
  assertion fails. The sizes are consistent: the homogeneous counts are the ends of the ID
  spaces, the metadata has one row per partition and its rows sum to the counts.\<close>

theorem range_book_init_ok:
  assumes "numpy_laws N" and "valid_graph G" and "pid < gl_parts G"
    and "type_ids ntypes (gl_ntypes G)" and "type_ids etypes (gl_etypes G)"
  shows "\<exists>b. range_book_init N (int pid) (int (gl_parts G)) (node_map G) (edge_map G) ntypes etypes = Inr b \<and>
    rb_num_nodes b DEFAULT_NTYPE = Inr (last (gl_nbounds G)) \<and>
    rb_num_edges b (TTup DEFAULT_ETYPE) = Inr (last (gl_ebounds G)) \<and>
    map pi_machine_id (rb_metadata b) = map int [0..<gl_parts G] \<and>
    sum_list (map pi_num_nodes (rb_metadata b)) = last (gl_nbounds G) \<and>
    sum_list (map pi_num_edges (rb_metadata b)) = last (gl_ebounds G)"
proof -
  note V = valid_graphD [OF assms(2)]
  have "map pi_num_nodes (partition_meta_data (gl_parts G) n e) = map (part_span n) [0..<gl_parts G]"
    "map pi_num_edges (partition_meta_data (gl_parts G) n e) = map (part_span e) [0..<gl_parts G]"
    "map pi_machine_id (partition_meta_data (gl_parts G) n e) = map int [0..<gl_parts G]" for n e
    by (simp_all add: partition_meta_data_def)
  then show ?thesis
    using ends_last(1) [OF V(1)] ends_last(1) [OF V(2)] sum_part_spans [OF V(1)] sum_part_spans [OF V(2)]
    by (simp add: range_book_init_eq [OF assms] rb_num_nodes_def rb_num_edges_def default_etype_def)
qed

theorem range_book_init_ok_witness:
  "\<exists>b. range_book_init numpy_ref (int 1) (int (gl_parts example_graph)) (node_map example_graph)
      (edge_map example_graph) [(''item'', 1), (''user'', 0)] example_etypes = Inr b \<and>
    rb_num_nodes b DEFAULT_NTYPE = Inr (last (gl_nbounds example_graph)) \<and>
    rb_num_edges b (TTup DEFAULT_ETYPE) = Inr (last (gl_ebounds example_graph)) \<and>
    map pi_machine_id (rb_metadata b) = map int [0..<gl_parts example_graph] \<and>
    sum_list (map pi_num_nodes (rb_metadata b)) = last (gl_nbounds example_graph) \<and>
    sum_list (map pi_num_edges (rb_metadata b)) = last (gl_ebounds example_graph)"
  by (rule range_book_init_ok [OF numpy_ref_laws example_valid(1) _ example_types])
     (simp add: example_graph_def)



text \<open>The same for edges, \<open>map_to_per_etype\<close> and \<open>map_to_homo_eid\<close>, with the canonical
  edge types as keys.\<close>

theorem map_to_per_etype_roundtrip:
  assumes "built c" and "\<forall>i \<in> set ids. 0 \<le> i \<and> i < last (gl_ebounds (ctx_graph c))"
  shows "\<exists>tys js. rb_map_to_per_etype (ctx_book c) ids = Inr (tys, js) \<and>
    length tys = length ids \<and> length js = length ids \<and>
    (\<forall>t < length (gl_etypes (ctx_graph c)).
       rb_map_to_homo_eid (ctx_numpy c) (ctx_book c)
         (map snd (filter (\<lambda>(y, j). y = int t) (zip tys js))) (gl_etypes (ctx_graph c) ! t) =
       Inr (map snd (filter (\<lambda>(y, i). y = int t) (zip tys ids))))"
proof -
  have ids: "\<forall>i \<in> set ids. 0 \<le> i \<and> i < edge_ids.all_ids c"
    using assms(2) by (simp add: edge_ids.all_ids_def)
  from edge_ids.per_type_total [OF assms(1) this] obtain tys js where
    r: "rb_map_to_per_etype (ctx_book c) ids = Inr (tys, js)"
    and l: "length tys = length ids" "length js = length ids" by auto
  from edge_ids.homo_of_per_type [OF assms(1) ids _ r] l show ?thesis
    by (intro exI [of _ tys] exI [of _ js]) (simp add: r)
qed

theorem map_to_per_etype_roundtrip_witness:
  "\<exists>tys js. rb_map_to_per_etype example_book [8, 4] = Inr (tys, js) \<and>
    length tys = length [8, 4 :: int] \<and> length js = length [8, 4 :: int] \<and>
    (\<forall>t < length (gl_etypes example_graph).
       rb_map_to_homo_eid numpy_ref example_book
         (map snd (filter (\<lambda>(y, j). y = int t) (zip tys js))) (gl_etypes example_graph ! t) =
       Inr (map snd (filter (\<lambda>(y, i). y = int t) (zip tys [8, 4]))))"
  using map_to_per_etype_roundtrip [OF example_built, of "[8, 4]"]
  by (simp add: example_ctx_def) (simp add: example_graph_def)

text \<open>The other way round, and the partitions: IDs of one node type are made homogeneous and
  split again into that type and themselves, and the partition found for a homogeneous ID is the
  one found for the ID within its type.\<close>

theorem map_to_homo_nid_roundtrip:
  assumes "built c" and "t < length (gl_ntypes (ctx_graph c))"
    and "\<forall>j \<in> set js. 0 \<le> j \<and>
      j < typed_start (gl_nbounds (ctx_graph c)) (length (gl_ntypes (ctx_graph c))) t (gl_parts (ctx_graph c))"
  shows "\<exists>ids. rb_map_to_homo_nid (ctx_numpy c) (ctx_book c) js (gl_ntypes (ctx_graph c) ! t) = Inr ids \<and>
    (\<forall>i \<in> set ids. 0 \<le> i \<and> i < last (gl_nbounds (ctx_graph c))) \<and>
    rb_map_to_per_ntype (ctx_book c) ids = Inr (replicate (length js) (int t), js) \<and>
    rb_nid2partid (ctx_numpy c) (ctx_book c) ids DEFAULT_NTYPE =
      rb_nid2partid (ctx_numpy c) (ctx_book c) js (gl_ntypes (ctx_graph c) ! t)"
  using node_ids.per_type_of_homo [OF assms(1,2), of js] assms(3)
  by (simp add: node_ids.all_ids_def node_ids.type_size_def)

theorem map_to_homo_nid_roundtrip_witness:
  "\<exists>ids. rb_map_to_homo_nid numpy_ref example_book [6, 0] ''user'' = Inr ids \<and>
    (\<forall>i \<in> set ids. 0 \<le> i \<and> i < 10) \<and>
    rb_map_to_per_ntype example_book ids = Inr (replicate (length [6, 0 :: int]) (int 0), [6, 0]) \<and>
    rb_nid2partid numpy_ref example_book ids DEFAULT_NTYPE =
      rb_nid2partid numpy_ref example_book [6, 0] ''user''"
  using map_to_homo_nid_roundtrip [OF example_built, of 0 "[6, 0]"]
  by (simp add: example_ctx_def)
     (simp add: example_graph_def typed_start_def span_def numeral_eq_Suc lessThan_Suc)

text \<open>The same for edges.\<close>

theorem map_to_homo_eid_roundtrip:
  assumes "built c" and "t < length (gl_etypes (ctx_graph c))"
    and "\<forall>j \<in> set js. 0 \<le> j \<and>
      j < typed_start (gl_ebounds (ctx_graph c)) (length (gl_etypes (ctx_graph c))) t (gl_parts (ctx_graph c))"
  shows "\<exists>ids. rb_map_to_homo_eid (ctx_numpy c) (ctx_book c) js (gl_etypes (ctx_graph c) ! t) = Inr ids \<and>
    (\<forall>i \<in> set ids. 0 \<le> i \<and> i < last (gl_ebounds (ctx_graph c))) \<and>
    rb_map_to_per_etype (ctx_book c) ids = Inr (replicate (length js) (int t), js) \<and>
    rb_eid2partid (ctx_numpy c) (ctx_book c) ids (TTup DEFAULT_ETYPE) =
      rb_eid2partid (ctx_numpy c) (ctx_book c) js (gl_etypes (ctx_graph c) ! t)"
  using edge_ids.per_type_of_homo [OF assms(1,2), of js] assms(3)
  by (simp add: edge_ids.all_ids_def edge_ids.type_size_def)

theorem map_to_homo_eid_roundtrip_witness:
  "\<exists>ids. rb_map_to_homo_eid numpy_ref example_book [7, 0] (TTup [''user'', ''like'', ''item'']) = Inr ids \<and>
    (\<forall>i \<in> set ids. 0 \<le> i \<and> i < 9) \<and>
    rb_map_to_per_etype example_book ids = Inr (replicate (length [7, 0 :: int]) (int 0), [7, 0]) \<and>
    rb_eid2partid numpy_ref example_book ids (TTup DEFAULT_ETYPE) =
      rb_eid2partid numpy_ref example_book [7, 0] (TTup [''user'', ''like'', ''item''])"
  using map_to_homo_eid_roundtrip [OF example_built, of 0 "[7, 0]"]
  by (simp add: example_ctx_def)
     (simp add: example_graph_def typed_start_def span_def numeral_eq_Suc lessThan_Suc)

text \<open>The partitions share out the IDs of a node type: \<open>partid2nids\<close> over all partitions,
  one after the other, lists \<open>0, 1, \<dots>\<close> up to the number of nodes of the type, each once; and
  \<open>nid2partid\<close> gives every ID of a partition that partition.\<close>

theorem partid2nids_tile:
  assumes "built c" and "t < length (gl_ntypes (ctx_graph c))"
  shows "\<exists>parts. rmap (\<lambda>p. rb_partid2nids (ctx_book c) (int p) (gl_ntypes (ctx_graph c) ! t))
      [0..<gl_parts (ctx_graph c)] = Inr parts \<and>
    (\<exists>n. rb_num_nodes (ctx_book c) (gl_ntypes (ctx_graph c) ! t) = Inr n \<and> concat parts = arange 0 n) \<and>
    (\<forall>p < gl_parts (ctx_graph c).
       rb_nid2partid (ctx_numpy c) (ctx_book c) (parts ! p) (gl_ntypes (ctx_graph c) ! t) =
       Inr (replicate (length (parts ! p)) (int p)))"
proof -
  obtain e2c where b: "ctx_book c = book_of (ctx_graph c) (ctx_part c) e2c"
    using built_book [OF assms(1)] by metis
  note L = built_laws [OF assms(1)]
  have n: "rb_num_nodes (ctx_book c) (gl_ntypes (ctx_graph c) ! t) = Inr (node_ids.type_size c t)"
    using node_ends [OF L(2,3) assms(2)] ends_last [OF valid_graphD(1) [OF L(2)]]
    by (simp add: b rb_num_nodes_def dict_get_def node_ids.type_size_def split: if_splits)
  let ?parts = "map (\<lambda>p. arange (typed_start (gl_nbounds (ctx_graph c)) (length (gl_ntypes (ctx_graph c))) t p)
      (typed_start (gl_nbounds (ctx_graph c)) (length (gl_ntypes (ctx_graph c))) t (Suc p)))
      [0..<gl_parts (ctx_graph c)]"
  have "rb_nid2partid (ctx_numpy c) (ctx_book c) (?parts ! p) (gl_ntypes (ctx_graph c) ! t) =
    Inr (replicate (length (?parts ! p)) (int p))" if "p < gl_parts (ctx_graph c)" for p
    using node_ids.part_of_own [OF assms that node_ids.ids_of_part [OF assms that]] that
    by (simp del: length_arange)
  then show ?thesis
    using node_ids.ids_tile [OF assms] n by (intro exI [of _ ?parts]) blast
qed

theorem partid2nids_tile_witness:
  "\<exists>parts. rmap (\<lambda>p. rb_partid2nids example_book (int p) ''user'') [0..<2] = Inr parts \<and>
    (\<exists>n. rb_num_nodes example_book ''user'' = Inr n \<and> concat parts = arange 0 n) \<and>
    (\<forall>p < 2. rb_nid2partid numpy_ref example_book (parts ! p) ''user'' =
       Inr (replicate (length (parts ! p)) (int p)))"
  using partid2nids_tile [OF example_built, of 0]
  by (simp add: example_ctx_def) (simp add: example_graph_def)

text \<open>Local IDs: in its own partition, \<open>nid2localnid\<close> and \<open>eid2localeid\<close> number the
  partition's IDs of a type \<open>0, 1, \<dots>\<close> in order; for any other partition they raise a
  \<open>RuntimeError\<close>.\<close>

theorem local_ids_of_partition:
  assumes "built c" and "tn < length (gl_ntypes (ctx_graph c))" and "te < length (gl_etypes (ctx_graph c))"
    and "p \<noteq> int (ctx_part c)"
  shows "rbind (rb_partid2nids (ctx_book c) (int (ctx_part c)) (gl_ntypes (ctx_graph c) ! tn)) (\<lambda>ids.
      rbind (rb_nid2localnid (ctx_book c) ids (int (ctx_part c)) (gl_ntypes (ctx_graph c) ! tn)) (\<lambda>loc.
      Inr (loc = arange 0 (int (length ids))))) = Inr True \<and>
    rbind (rb_partid2eids (ctx_book c) (int (ctx_part c)) (gl_etypes (ctx_graph c) ! te)) (\<lambda>ids.
      rbind (rb_eid2localeid (ctx_book c) ids (int (ctx_part c)) (gl_etypes (ctx_graph c) ! te)) (\<lambda>loc.
      Inr (loc = arange 0 (int (length ids))))) = Inr True \<and>
    rb_nid2localnid (ctx_book c) ids p ntype = Inl RuntimeError \<and>
    rb_eid2localeid (ctx_book c) ids p etype = Inl RuntimeError"
proof -
  obtain e2c where b: "ctx_book c = book_of (ctx_graph c) (ctx_part c) e2c"
    using built_book [OF assms(1)] by metis
  note L = built_laws [OF assms(1)]
  have sh: "map (\<lambda>n. n - s) (arange s e) = arange 0 (int (length (arange s e)))" for s e
    by (rule nth_equalityI) simp_all
  show ?thesis
    unfolding b partid2nids_key [OF L(2,3) assms(2) L(4)] nid2localnid_key [OF L(2,3) assms(2) L(4)]
      partid2eids_key [OF L(2,3) assms(3) L(4)] eid2localeid_key [OF L(2,3) assms(3) L(4)]
      rbind_simps sh
    using assms(4) by (simp add: rb_nid2localnid_def rb_eid2localeid_def)
qed

theorem local_ids_of_partition_witness:
  "rbind (rb_partid2nids example_book 1 ''item'') (\<lambda>ids.
      rbind (rb_nid2localnid example_book ids 1 ''item'') (\<lambda>loc.
      Inr (loc = arange 0 (int (length ids))))) = Inr True \<and>
    rbind (rb_partid2eids example_book 1 (TTup [''user'', ''like'', ''item''])) (\<lambda>ids.
      rbind (rb_eid2localeid example_book ids 1 (TTup [''user'', ''like'', ''item''])) (\<lambda>loc.
      Inr (loc = arange 0 (int (length ids))))) = Inr True \<and>
    rb_nid2localnid example_book [3] 0 ''item'' = Inl RuntimeError \<and>
    rb_eid2localeid example_book [3] 0 (TStr ''like'') = Inl RuntimeError"
  using local_ids_of_partition [OF example_built, of 1 0 0 "[3]" "''item''" "TStr ''like''"]
  by (simp add: example_ctx_def) (simp add: example_graph_def)

text \<open>\<open>to_canonical_etype\<close> answers for a name that exactly one edge type of the graph has,
  with that type; for a triple of the graph, with the triple; and raises \<open>DGLError\<close> in every other
  case: no such name, an ambiguous name, an unknown triple.\<close>

theorem to_canonical_etype_iff:
  assumes "built (N, G, pid, ntypes, etypes, b)"
  shows "rb_to_canonical_etype b t =
    (case t of
       TTup ts \<Rightarrow> if t \<in> set (gl_etypes G) then Inr t else Inl DGLError
     | TStr s \<Rightarrow>
         (case filter (\<lambda>c. etype_name c = s) (map fst etypes) of
            [c] \<Rightarrow> Inr c | _ \<Rightarrow> Inl DGLError))"
proof -
  have b: "b = book_of G pid (foldl e2c_step [] (map fst etypes))" and V: "valid_graph G"
    and et: "fst ` set etypes = set (gl_etypes G)"
    using assms range_book_init_eq by (auto dest: type_idsD)
  have "c \<noteq> TTup []" if "filter (\<lambda>c. etype_name c = s) (map fst etypes) = [c]" for s c
  proof -
    have "c \<in> set (filter (\<lambda>c. etype_name c = s) (map fst etypes))" unfolding that by simp
    then have "c \<in> set (gl_etypes G)" unfolding et [symmetric] by auto
    then have "canonical_etype c" using valid_graphD(5) [OF V] by (simp add: list_all_iff)
    then show ?thesis by (auto simp: canonical_etype_def)
  qed
  then show ?thesis
    by (cases t) (auto simp: b map_of_e2c split: list.splits)
qed

theorem to_canonical_etype_iff_witness:
  "rb_to_canonical_etype example_book (TStr ''like'') = Inl DGLError \<and>
   rb_to_canonical_etype example_book (TTup [''user'', ''like'', ''item'']) =
     Inr (TTup [''user'', ''like'', ''item''])"
  unfolding to_canonical_etype_iff [OF example_built [unfolded example_ctx_def]]
  by (simp add: example_graph_def example_etypes_def etype_name_def)

section \<open>Shared memory\<close>

lemma case_single_mset:
  assumes "mset xs = mset ys"
  shows "(case xs of [] \<Rightarrow> u | [c] \<Rightarrow> f c | _ \<Rightarrow> v) = (case ys of [] \<Rightarrow> u | [c] \<Rightarrow> f c | _ \<Rightarrow> v)"
proof -
  have "length xs = length ys" using assms by (rule mset_eq_length)
  moreover have "xs = ys" if "length xs = 1"
  proof -
    from that obtain c where c: "xs = [c]" by (auto simp: length_Suc_conv)
    then have "mset ys = {#c#}" using assms by simp
    then show ?thesis using c by (simp add: mset_single_iff)
  qed
  ultimately show ?thesis by (auto split: list.splits)
qed

lemma e2c_perm:
  assumes "mset cs = mset ds"
  shows "map_of (foldl e2c_step [] cs) s = map_of (foldl e2c_step [] ds) s"
  unfolding map_of_e2c by (rule case_single_mset) (simp add: assms)

lemma shared_ranges_zip:
  assumes "distinct keys" and "length keys = length rs"
  shows "shared_ranges keys (zip keys rs) = Inr (zip keys rs)"
proof -
  have "rmap (\<lambda>t. rbind (dict_get (zip keys rs) t) (\<lambda>r. Inr (t, r))) keys =
      Inr (map (\<lambda>t. (t, the (map_of (zip keys rs) t))) keys)"
  proof (rule rmap_total)
    fix k
    assume "k \<in> set keys"
    then obtain i where "i < length keys" "k = keys ! i" by (auto simp: in_set_conv_nth)
    then show "rbind (dict_get (zip keys rs) k) (\<lambda>r. Inr (k, r)) =
        Inr (k, the (map_of (zip keys rs) k))"
      using assms by (simp add: dict_get_def map_of_zip_nth_eq)
  qed
  moreover have "map (\<lambda>t. (t, the (map_of (zip keys rs) t))) keys = zip keys rs"
    using assms by (intro nth_equalityI) (simp_all add: map_of_zip_nth_eq)
  ultimately show ?thesis by (simp add: shared_ranges_def)
qed

lemma dict_of_distinct:
  "distinct (map fst xs) \<Longrightarrow> dict_of xs = xs"
proof (induction xs rule: rev_induct)
  case (snoc x xs)
  then show ?case by (cases x) (auto simp: dict_of_def update_fresh)
qed (simp add: dict_of_def)

lemma enum_types_distinct:
  assumes "distinct (map fst d @ map fst xs)"
  shows "enum_types i d xs = d @ zip (map fst xs) (map (\<lambda>j. i + int j) [0..<length xs])"
  using assms
proof (induction xs arbitrary: i d)
  case (Cons x xs)
  obtain k r where x: "x = (k, r)" by (cases x)
  have "AList.update k i d = d @ [(k, i)]" using Cons.prems x by (intro update_fresh) auto
  moreover have "enum_types (i + 1) (d @ [(k, i)]) xs =
      (d @ [(k, i)]) @ zip (map fst xs) (map (\<lambda>j. (i + 1) + int j) [0..<length xs])"
    using Cons.prems x by (intro Cons.IH) auto
  moreover have "map (\<lambda>j. i + int j) [0..<length (x # xs)] =
      i # map (\<lambda>j. (i + 1) + int j) [0..<length xs]"
    by (intro nth_equalityI) (auto simp: nth_Cons split: nat.splits simp del: upt_Suc)
  ultimately show ?case using x by simp
qed simp

lemma enum_type_ids:
  assumes "distinct keys" and "length keys = length rs"
  shows "type_ids (enum_types 0 [] (zip keys rs)) keys" and
    "map fst (enum_types 0 [] (zip keys rs)) = keys"
  using assms by (simp_all add: enum_types_distinct type_ids_def)

text \<open>A book written to shared memory and read back by another process is the book that was
  written: every field is the same, and the table of edge-type names answers the same. The only
  thing required of the serialiser is that \<open>loads\<close> inverts \<open>dumps\<close>.\<close>

theorem shared_memory_roundtrip:
  assumes "built (N, G, pid, ntypes, etypes, b)"
    and "\<And>x. loads_n (dumps_n x) = x" and "\<And>x. loads_e (dumps_e x) = x"
  shows "\<exists>meta e2c. rb_shared_memory dumps_n dumps_e b = Inr meta \<and>
    get_shared_mem_partition_book N loads_n loads_e (Some meta) =
      Inr (Some (b\<lparr>rb_etype2canonical := e2c\<rparr>)) \<and>
    (\<forall>s. map_of e2c s = map_of (rb_etype2canonical b) s)"
proof -
  have b: "b = book_of G pid (foldl e2c_step [] (map fst etypes))" and V: "valid_graph G"
    and N: "numpy_laws N" and pid: "pid < gl_parts G" and te: "type_ids etypes (gl_etypes G)"
    using assms(1) range_book_init_eq by auto
  note D = valid_graphD [OF V]
  have w: "rb_shared_memory dumps_n dumps_e b =
      Inr (int pid, int (gl_parts G), dumps_n (node_map G), dumps_e (edge_map G))"
    by (simp add: rb_shared_memory_def b shared_ranges_zip D(3,4))
  have "dict_of (node_map G) = node_map G" "dict_of (edge_map G) = edge_map G"
    using D(3,4) by (simp_all add: dict_of_distinct)
  then have r: "get_shared_mem_partition_book N loads_n loads_e
      (Some (int pid, int (gl_parts G), dumps_n (node_map G), dumps_e (edge_map G))) =
      Inr (Some (book_of G pid (foldl e2c_step [] (gl_etypes G))))"
    using range_book_init_eq [OF N V pid enum_type_ids(1) [OF D(3)] enum_type_ids(1) [OF D(4)],
        of "ranges_of (gl_parts G) (gl_nbounds G) (length (gl_ntypes G))"
           "ranges_of (gl_parts G) (gl_ebounds G) (length (gl_etypes G))"]
      enum_type_ids(2) [OF D(4), of "ranges_of (gl_parts G) (gl_ebounds G) (length (gl_etypes G))"]
    by (simp add: get_shared_mem_partition_book_def assms(2,3) Let_def)
  have "distinct (map fst etypes)" "set (map fst etypes) = set (gl_etypes G)"
    using te type_idsD(3) [OF te] by (auto simp: type_ids_def)
  then have "mset (map fst etypes) = mset (gl_etypes G)"
    using D(4) set_eq_iff_mset_eq_distinct by blast
  from e2c_perm [OF this [symmetric]]
  have "\<forall>s. map_of (foldl e2c_step [] (gl_etypes G)) s =
      map_of (rb_etype2canonical b) s"
    unfolding b book_of_simps by blast
  moreover have "book_of G pid (foldl e2c_step [] (gl_etypes G)) =
      b\<lparr>rb_etype2canonical := foldl e2c_step [] (gl_etypes G)\<rparr>"
    by (simp add: b book_of_def Let_def)
  ultimately show ?thesis using w r by auto
qed

theorem shared_memory_roundtrip_witness:
  "\<exists>meta e2c. rb_shared_memory Inl Inr example_book = Inr meta \<and>
    get_shared_mem_partition_book numpy_ref projl projr (Some meta) =
      Inr (Some (example_book\<lparr>rb_etype2canonical := e2c\<rparr>)) \<and>
    (\<forall>s. map_of e2c s = map_of (rb_etype2canonical example_book) s)"
  by (rule shared_memory_roundtrip [OF example_built [unfolded example_ctx_def]]) simp_all

section \<open>The partition object made from a book\<close>

text \<open>\<open>NDArrayPartition\<close> in range mode gives row \<open>i\<close> to part \<open>k\<close> when
  \<open>part_ranges[k] <= i < part_ranges[k + 1]\<close>.\<close>

definition in_part_range :: "int list \<Rightarrow> int \<Rightarrow> nat \<Rightarrow> bool" where
  "in_part_range ranges i k \<longleftrightarrow> ranges ! k \<le> i \<and> i < ranges ! (k + 1)"

text \<open>\<open>get_node_partition_from_book\<close> adds one to the range ends, which in a book are already
  exclusive. The object it makes claims one node more than the graph has, and gives the first node
  of every non-empty partition but the first to an earlier partition, where the book's own lookup
  gives it to its partition.\<close>

theorem node_partition_off_by_one:
  assumes "built c"
  shows "\<exists>ranges. node_partition_from_book (ctx_book c) =
      Inr (last (gl_nbounds (ctx_graph c)) + 1, int (gl_parts (ctx_graph c)), ranges) \<and>
    (\<forall>p < gl_parts (ctx_graph c). 0 < p \<longrightarrow>
      (let T = length (gl_ntypes (ctx_graph c)); i = gl_nbounds (ctx_graph c) ! (p * T) in
       i < gl_nbounds (ctx_graph c) ! (p * T + T) \<longrightarrow>
       i < ranges ! p \<and> \<not> in_part_range ranges i p \<and>
       rb_nid2partid (ctx_numpy c) (ctx_book c) [i] DEFAULT_NTYPE = Inr [int p]))"
proof -
  obtain e2c where b: "ctx_book c = book_of (ctx_graph c) (ctx_part c) e2c"
    using built_book [OF assms] by metis
  note L = built_laws [OF assms]
  define P bs T where d: "P = gl_parts (ctx_graph c)" "bs = gl_nbounds (ctx_graph c)"
    "T = length (gl_ntypes (ctx_graph c))"
  have V: "valid_bounds P bs T" unfolding d by (rule valid_graphD(1) [OF L(2)])
  let ?r = "0 # map (\<lambda>i. i + 1) (part_ends P bs T)"
  have "py_index ?r (- 1) = Inr (last bs + 1)"
  proof -
    have "part_ends P bs T \<noteq> []" using valid_boundsD(1) [OF V] by (metis length_ends(1) list.size(3) less_irrefl)
    then have "last ?r = last (part_ends P bs T) + 1" by (simp add: last_map)
    moreover have "last (part_ends P bs T) = last bs"
      using ends_last(1) [OF V] py_index_last [OF \<open>part_ends P bs T \<noteq> []\<close>] by simp
    ultimately show ?thesis by (simp add: py_index_last)
  qed
  then have "node_partition_from_book (ctx_book c) = Inr (last bs + 1, int P, ?r)"
    by (simp add: node_partition_from_book_def b d Let_def)
  moreover have "bs ! (p * T) < ?r ! p \<and> \<not> in_part_range ?r (bs ! (p * T)) p \<and>
      rb_nid2partid (ctx_numpy c) (ctx_book c) [bs ! (p * T)] DEFAULT_NTYPE = Inr [int p]"
    if p: "p < P" "0 < p" "bs ! (p * T) < bs ! (p * T + T)" for p
  proof -
    obtain q where q: "p = Suc q" using p(2) by (cases p) auto
    have end_q: "part_ends P bs T ! q = bs ! (p * T)" using p(1) q by (simp add: add.commute)
    then have r: "?r ! p = bs ! (p * T) + 1" using p(1) q by simp
    have "insertion_right (part_ends P bs T) (bs ! (p * T)) (int p)"
      using p end_q q by (intro insertion_right_bucket [OF part_ends_sorted [OF V]]) simp_all
    then have "np_searchsorted_right (ctx_numpy c) (part_ends P bs T) (map id [bs ! (p * T)]) =
        map (\<lambda>_. int p) [bs ! (p * T)]"
      by (intro searchsorted_map [OF L(1) part_ends_sorted [OF V]]) simp
    then show ?thesis using r by (simp add: in_part_range_def rb_nid2partid_def b d)
  qed
  ultimately show ?thesis unfolding Let_def d [symmetric] by blast
qed

theorem node_partition_off_by_one_witness:
  "\<exists>ranges. node_partition_from_book example_book = Inr (11, 2, ranges) \<and> 5 < ranges ! 1 \<and>
    \<not> in_part_range ranges 5 1 \<and> rb_nid2partid numpy_ref example_book [5] DEFAULT_NTYPE = Inr [1]"
  using node_partition_off_by_one [OF example_built]
  by (simp add: example_ctx_def)
     (simp add: example_graph_def Let_def, force dest!: spec [where x = "Suc 0"])

end
