(* ===== verification/PartitionPolicy.thy ===== *)
theory PartitionPolicy
  imports PartitionProps
begin

text \<open>
  \<^verbatim>\<open>python/dgl/distributed/graph_partition_book.py\<close>: \<open>PartitionPolicy\<close> and its two
  subclasses, which say how the rows of a distributed tensor are spread over the machines. The
  locale \<open>row_partition\<close> is what the key-value store relies on: the rows of a tensor are cut into
  consecutive stretches, one per machine. It is interpreted for the node and the edge policies of
  a built partition book.
\<close>

section \<open>The code\<close>

record partition_policy =
  pp_policy_str :: string
  pp_part_id :: int
  pp_partition_book :: range_book
  pp_type_name :: type_name
  pp_is_node :: bool

definition partition_policy_init :: "string \<Rightarrow> range_book \<Rightarrow> partition_policy res" where
  "partition_policy_init policy_str b =
     rbind (parse_policy_str policy_str) (\<lambda>(s, t, is_node).
     Inr \<lparr>pp_policy_str = s, pp_part_id = rb_partid b, pp_partition_book = b,
          pp_type_name = t, pp_is_node = is_node\<rparr>)"

definition node_policy_init :: "range_book \<Rightarrow> string \<Rightarrow> partition_policy res" where
  "node_policy_init b ntype =
     partition_policy_init (NODE_PART_POLICY @ POLICY_DELIMITER # ntype) b"

definition edge_policy_init :: "range_book \<Rightarrow> type_name \<Rightarrow> partition_policy res" where
  "edge_policy_init b etype =
     rbind (rassert (canonical_etype etype) AssertionError) (\<lambda>_.
     rbind (etype_tuple_to_str etype) (\<lambda>s.
     partition_policy_init (EDGE_PART_POLICY @ POLICY_DELIMITER # s) b))"

definition pp_get_data_name :: "partition_policy \<Rightarrow> string \<Rightarrow> hetero_data_name res" where
  "pp_get_data_name p name = hetero_data_name_init (pp_is_node p) (pp_type_name p) name"

text \<open>A node policy passes its type name to the node methods, where a tuple is no key of any
  dictionary.\<close>

definition with_ntype :: "type_name \<Rightarrow> (string \<Rightarrow> 'a res) \<Rightarrow> 'a res" where
  "with_ntype t f = (case t of TStr s \<Rightarrow> f s | TTup _ \<Rightarrow> Inl KeyError)"

definition pp_to_local :: "partition_policy \<Rightarrow> int list \<Rightarrow> int list res" where
  "pp_to_local p ids =
     (if pp_is_node p
      then with_ntype (pp_type_name p) (rb_nid2localnid (pp_partition_book p) ids (pp_part_id p))
      else rb_eid2localeid (pp_partition_book p) ids (pp_part_id p) (pp_type_name p))"

definition pp_to_partid :: "numpy \<Rightarrow> partition_policy \<Rightarrow> int list \<Rightarrow> int list res" where
  "pp_to_partid N p ids =
     (if pp_is_node p
      then with_ntype (pp_type_name p) (rb_nid2partid N (pp_partition_book p) ids)
      else rb_eid2partid N (pp_partition_book p) ids (pp_type_name p))"

definition pp_get_part_size :: "partition_policy \<Rightarrow> int res" where
  "pp_get_part_size p =
     rbind (if pp_is_node p
            then with_ntype (pp_type_name p) (rb_partid2nids (pp_partition_book p) (pp_part_id p))
            else rb_partid2eids (pp_partition_book p) (pp_part_id p) (pp_type_name p))
       (\<lambda>ids. Inr (int (length ids)))"

definition pp_get_size :: "partition_policy \<Rightarrow> int res" where
  "pp_get_size p =
     (if pp_is_node p
      then with_ntype (pp_type_name p) (rb_num_nodes (pp_partition_book p))
      else rb_num_edges (pp_partition_book p) (pp_type_name p))"

section \<open>Policy strings\<close>

lemma startswith_policy [simp]:
  "startswith (NODE_PART_POLICY @ s) EDGE_PART_POLICY = False"
  "startswith (EDGE_PART_POLICY @ s) NODE_PART_POLICY = False"
  by (simp_all add: startswith_def name_consts)

lemma fill_default_policy [simp]:
  "policy_fill_default (NODE_PART_POLICY @ POLICY_DELIMITER # s) = NODE_PART_POLICY @ POLICY_DELIMITER # s"
  "policy_fill_default (EDGE_PART_POLICY @ POLICY_DELIMITER # s) = EDGE_PART_POLICY @ POLICY_DELIMITER # s"
  by (simp_all add: policy_fill_default_def name_consts)

lemma node_policy_init_eq:
  "node_policy_init b ntype =
    Inr \<lparr>pp_policy_str = NODE_PART_POLICY @ POLICY_DELIMITER # ntype, pp_part_id = rb_partid b,
         pp_partition_book = b, pp_type_name = TStr ntype, pp_is_node = True\<rparr>"
  by (simp add: node_policy_init_def partition_policy_init_def parse_policy_str_def Let_def)

definition plain_etype :: "type_name \<Rightarrow> bool" where
  "plain_etype t \<longleftrightarrow> canonical_etype t \<and> CANONICAL_ETYPE_DELIMITER \<notin> type_chars t"

lemma edge_policy_init_eq:
  assumes "plain_etype t" and "etype_tuple_to_str t = Inr s"
  shows "edge_policy_init b t =
    Inr \<lparr>pp_policy_str = EDGE_PART_POLICY @ POLICY_DELIMITER # s, pp_part_id = rb_partid b,
         pp_partition_book = b, pp_type_name = t, pp_is_node = False\<rparr>"
proof -
  obtain ts where t: "t = TTup ts" "length ts = 3"
    using assms(1) by (cases t) (auto simp: plain_etype_def canonical_etype_def)
  then have s: "s = join_with CANONICAL_ETYPE_DELIMITER ts" using assms(2) by simp
  have "CANONICAL_ETYPE_DELIMITER \<notin> \<Union> (set ` set ts)"
    using assms(1) t by (simp add: plain_etype_def)
  then have "etype_str_to_tuple s = Inr t"
    using split_join_3 [OF t(2)] by (simp add: etype_str_to_tuple_def s t Let_def)
  then show ?thesis using assms
    by (simp add: edge_policy_init_def partition_policy_init_def parse_policy_str_def Let_def
        plain_etype_def)
qed

lemma etype_tuple_to_str_total: "canonical_etype t \<Longrightarrow> \<exists>s. etype_tuple_to_str t = Inr s"
  by (cases t) (auto simp: canonical_etype_def)

text \<open>The policy strings the library builds are parsed back to what they were built from: a
  node policy to its node type, and an edge policy to its canonical edge type, unless a component
  of the type contains a colon, when construction fails with an \<open>AssertionError\<close>. The data name a
  policy gives has the policy's own string, so a tensor's name and its policy agree.\<close>

theorem policy_str_roundtrip:
  assumes "canonical_etype et"
  shows "(\<exists>p. node_policy_init b nt = Inr p \<and> pp_type_name p = TStr nt \<and> pp_is_node p \<and>
      rbind (pp_get_data_name p name) hdn_policy_str = Inr (pp_policy_str p)) \<and>
    (if CANONICAL_ETYPE_DELIMITER \<in> type_chars et then edge_policy_init b et = Inl AssertionError
     else \<exists>p. edge_policy_init b et = Inr p \<and> pp_type_name p = et \<and> \<not> pp_is_node p \<and>
       rbind (pp_get_data_name p name) hdn_policy_str = Inr (pp_policy_str p))"
proof -
  obtain s where s: "etype_tuple_to_str et = Inr s" using etype_tuple_to_str_total [OF assms] by blast
  obtain ts where t: "et = TTup ts" "length ts = 3"
    using assms by (cases et) (auto simp: canonical_etype_def)
  have node: "\<exists>p. node_policy_init b nt = Inr p \<and> pp_type_name p = TStr nt \<and> pp_is_node p \<and>
      rbind (pp_get_data_name p name) hdn_policy_str = Inr (pp_policy_str p)"
    by (simp add: node_policy_init_eq pp_get_data_name_def hetero_data_name_init_def
        hdn_policy_str_def hdn_is_edge_def)
  show ?thesis
  proof (cases "CANONICAL_ETYPE_DELIMITER \<in> type_chars et")
    case True
    then have "length (split_on CANONICAL_ETYPE_DELIMITER s) \<noteq> 3"
      using split_join_3(2) [OF t(2), of CANONICAL_ETYPE_DELIMITER] s t by simp
    then have "edge_policy_init b et = Inl AssertionError"
      using assms s by (simp add: edge_policy_init_def partition_policy_init_def
          parse_policy_str_def etype_str_to_tuple_def Let_def)
    with node True show ?thesis by simp
  next
    case False
    then have "plain_etype et" using assms by (simp add: plain_etype_def)
    from edge_policy_init_eq [OF this s, of b]
    have "\<exists>p. edge_policy_init b et = Inr p \<and> pp_type_name p = et \<and> \<not> pp_is_node p \<and>
       rbind (pp_get_data_name p name) hdn_policy_str = Inr (pp_policy_str p)"
      using assms s by (simp add: canonical_etype_def pp_get_data_name_def
          hetero_data_name_init_def hdn_policy_str_def hdn_is_edge_def)
    with node False show ?thesis by simp
  qed
qed

theorem policy_str_roundtrip_witness:
  "edge_policy_init example_book (TTup [''user'', ''a:b'', ''item'']) = Inl AssertionError"
  using policy_str_roundtrip [of "TTup [''user'', ''a:b'', ''item'']" example_book]
  by (simp add: canonical_etype_def name_consts)

text \<open>The short policy string \<open>edge\<close>, which the documentation of \<open>PartitionPolicy\<close> allows,
  can not be used: its default type is a name and not a triple, and the constructor fails. The
  short string \<open>node\<close> works.\<close>

theorem short_edge_policy_fails:
  "partition_policy_init EDGE_PART_POLICY b = Inl AssertionError \<and>
   (\<exists>p. partition_policy_init NODE_PART_POLICY b = Inr p \<and> pp_type_name p = TStr DEFAULT_NTYPE)"
  by (simp add: partition_policy_init_def parse_policy_str_def policy_fill_default_def
      etype_str_to_tuple_def startswith_def name_consts Let_def)

section \<open>The interface the key-value store relies on\<close>

text \<open>The rows of a tensor are cut at \<open>starts\<close> into one stretch per machine. \<open>to_partid c m\<close>
  and the other operations are those of the policy object in the processes of machine \<open>m\<close>.\<close>

locale row_partition =
  fixes ok :: "'c \<Rightarrow> bool"
    and machines :: "'c \<Rightarrow> nat"
    and starts :: "'c \<Rightarrow> nat \<Rightarrow> int"
    and to_partid :: "'c \<Rightarrow> nat \<Rightarrow> int list \<Rightarrow> int list res"
    and to_local :: "'c \<Rightarrow> nat \<Rightarrow> int list \<Rightarrow> int list res"
    and part_size :: "'c \<Rightarrow> nat \<Rightarrow> int res"
    and total_size :: "'c \<Rightarrow> nat \<Rightarrow> int res"
  assumes machines_pos: "ok c \<Longrightarrow> 0 < machines c"
    and starts_0: "ok c \<Longrightarrow> starts c 0 = 0"
    and starts_step: "ok c \<Longrightarrow> p < machines c \<Longrightarrow> starts c p \<le> starts c (Suc p)"
    and to_partid_owner: "ok c \<Longrightarrow> m < machines c \<Longrightarrow>
      list_all2 (\<lambda>i p. p < machines c \<and> starts c p \<le> i \<and> i < starts c (Suc p)) ids ps \<Longrightarrow>
      to_partid c m ids = Inr (map int ps)"
    and to_local_shift: "ok c \<Longrightarrow> m < machines c \<Longrightarrow>
      to_local c m ids = Inr (map (\<lambda>i. i - starts c m) ids)"
    and part_size_eq: "ok c \<Longrightarrow> m < machines c \<Longrightarrow> part_size c m = Inr (starts c (Suc m) - starts c m)"
    and total_size_eq: "ok c \<Longrightarrow> m < machines c \<Longrightarrow> total_size c m = Inr (starts c (machines c))"
begin

definition owner :: "'c \<Rightarrow> int \<Rightarrow> nat" where
  "owner c i = length (takeWhile (\<lambda>p. starts c (Suc p) \<le> i) [0..<machines c])"

lemma starts_mono:
  assumes "ok c" and "p \<le> q" and "q \<le> machines c"
  shows "starts c p \<le> starts c q"
  using assms(2,3)
proof (induction q)
  case (Suc q)
  then show ?case using starts_step [OF assms(1), of q] by (cases "p = Suc q") auto
qed simp

lemma owner_unique:
  assumes "ok c" and "p < machines c" and "starts c p \<le> i" and "i < starts c (Suc p)"
  shows "owner c i = p"
proof -
  have "starts c (Suc q) \<le> i" if "q < p" for q
    using starts_mono [OF assms(1), of "Suc q" p] assms(2,3) that by simp
  then have "takeWhile (\<lambda>p. starts c (Suc p) \<le> i) [0..<machines c] = take p [0..<machines c]"
    using assms(2,4) by (intro takeWhile_eq_take_P_nth) auto
  then show ?thesis using assms(2) by (simp add: owner_def)
qed

lemma owner_bounds:
  assumes "ok c" and "0 \<le> i" and "i < starts c (machines c)"
  shows "owner c i < machines c" and "starts c (owner c i) \<le> i" and "i < starts c (Suc (owner c i))"
proof -
  obtain p where "p < machines c" "starts c p \<le> i" "i < starts c (Suc p)"
    using bracket_exists [of "starts c" i "machines c"] starts_0 [OF assms(1)] assms(2,3) by auto
  with owner_unique [OF assms(1) this]
  show "owner c i < machines c" "starts c (owner c i) \<le> i" "i < starts c (Suc (owner c i))" by auto
qed

lemma to_partid_total:
  assumes "ok c" and "m < machines c" and "\<forall>i \<in> set ids. 0 \<le> i \<and> i < starts c (machines c)"
  shows "to_partid c m ids = Inr (map (\<lambda>i. int (owner c i)) ids)"
proof -
  have "list_all2 (\<lambda>i p. p < machines c \<and> starts c p \<le> i \<and> i < starts c (Suc p)) ids (map (owner c) ids)"
    using assms(3) owner_bounds [OF assms(1)]
    by (simp add: list_all2_map2 list_all2_same)
  from to_partid_owner [OF assms(1,2) this] show ?thesis by (simp add: comp_def)
qed

text \<open>Sizes: the stretches of the machines make up the whole.\<close>

lemma part_sizes_sum:
  assumes "ok c" and "m < machines c"
  shows "total_size c m = Inr (\<Sum>p<machines c. starts c (Suc p) - starts c p)"
  using total_size_eq [OF assms] starts_0 [OF assms(1)] by (simp add: sum_telescope)

text \<open>A tensor spread over the machines: row \<open>i\<close> of the whole is the row at the local offset
  in its owner's part.\<close>

definition spread :: "'c \<Rightarrow> (nat \<Rightarrow> 'r list) \<Rightarrow> bool" where
  "spread c rows \<longleftrightarrow> (\<forall>p < machines c. int (length (rows p)) = starts c (Suc p) - starts c p)"

lemma concat_prefix_length:
  assumes "ok c" and "spread c rows" and "p \<le> machines c"
  shows "int (length (concat (map rows [0..<p]))) = starts c p"
  using assms(3)
proof (induction p)
  case 0
  then show ?case using starts_0 [OF assms(1)] by simp
next
  case (Suc p)
  then show ?case using assms(2) by (simp add: spread_def)
qed

lemma global_row:
  assumes "ok c" and "spread c rows" and "0 \<le> i" and "i < starts c (machines c)"
  shows "concat (map rows [0..<machines c]) ! nat i =
    rows (owner c i) ! nat (i - starts c (owner c i))"
    and "nat (i - starts c (owner c i)) < length (rows (owner c i))"
proof -
  let ?p = "owner c i"
  note O = owner_bounds [OF assms(1,3,4)]
  have l: "int (length (concat (map rows [0..<?p]))) = starts c ?p"
    using concat_prefix_length [OF assms(1,2)] O(1) by simp
  have len: "int (length (rows ?p)) = starts c (Suc ?p) - starts c ?p"
    using assms(2) O(1) by (simp add: spread_def)
  then show lt: "nat (i - starts c ?p) < length (rows ?p)" using O by simp
  have "[0..<machines c] = [0..<?p] @ ?p # [Suc ?p..<machines c]"
    using O(1) by (metis less_imp_le_nat upt_append upt_conv_Cons zero_le)
  then have "concat (map rows [0..<machines c]) =
      concat (map rows [0..<?p]) @ rows ?p @ concat (map rows [Suc ?p..<machines c])" by simp
  moreover have "nat i = length (concat (map rows [0..<?p])) + nat (i - starts c ?p)"
    using l O(2) assms(3) by linarith
  ultimately show "concat (map rows [0..<machines c]) ! nat i = rows ?p ! nat (i - starts c ?p)"
    using lt by (simp only: nth_append_length_plus) (simp add: nth_append)
qed

end

section \<open>The policies of a partitioned graph\<close>

text \<open>A policy context: the graph, the type dictionaries its books are built from, and the node
  type or edge type the policy is for. \<open>policy_at c m\<close> runs the constructors of the book and of the
  policy in a process of machine \<open>m\<close>.\<close>

record policy_ctx =
  pc_numpy :: numpy
  pc_graph :: graph_layout
  pc_ntypes :: "(string \<times> int) list"
  pc_etypes :: "(type_name \<times> int) list"
  pc_key :: "nat + nat"

definition policy_at :: "policy_ctx \<Rightarrow> nat \<Rightarrow> partition_policy res" where
  "policy_at c m =
     (let G = pc_graph c in
      rbind (range_book_init (pc_numpy c) (int m) (int (gl_parts G)) (node_map G) (edge_map G)
               (pc_ntypes c) (pc_etypes c)) (\<lambda>b.
      case pc_key c of
        Inl t \<Rightarrow> node_policy_init b (gl_ntypes G ! t)
      | Inr t \<Rightarrow> edge_policy_init b (gl_etypes G ! t)))"

definition policy_ok :: "policy_ctx \<Rightarrow> bool" where
  "policy_ok c \<longleftrightarrow>
     numpy_laws (pc_numpy c) \<and> valid_graph (pc_graph c) \<and> names_ok (pc_graph c) \<and>
     type_ids (pc_ntypes c) (gl_ntypes (pc_graph c)) \<and> type_ids (pc_etypes c) (gl_etypes (pc_graph c)) \<and>
     (case pc_key c of
        Inl t \<Rightarrow> t < length (gl_ntypes (pc_graph c))
      | Inr t \<Rightarrow> t < length (gl_etypes (pc_graph c)) \<and> plain_etype (gl_etypes (pc_graph c) ! t))"

definition policy_machines :: "policy_ctx \<Rightarrow> nat" where
  "policy_machines c = gl_parts (pc_graph c)"

definition policy_starts :: "policy_ctx \<Rightarrow> nat \<Rightarrow> int" where
  "policy_starts c p =
     (case pc_key c of
        Inl t \<Rightarrow> typed_start (gl_nbounds (pc_graph c)) (length (gl_ntypes (pc_graph c))) t p
      | Inr t \<Rightarrow> typed_start (gl_ebounds (pc_graph c)) (length (gl_etypes (pc_graph c))) t p)"

lemma typed_bucket:
  assumes "valid_bounds P bs T" and "t < T" and "p < P"
    and "typed_start bs T t p \<le> i" and "i < typed_start bs T t (Suc p)"
  shows "insertion_right (typed_ends P bs T t) i (int p)"
proof -
  have "p = 0 \<or> typed_ends P bs T t ! (p - 1) \<le> i"
    using assms(3,4) by (cases p) simp_all
  from insertion_right_bucket [OF typed_ends_sorted [OF assms(1,2)] _ _ this]
  show ?thesis using assms(3,5) by simp
qed

lemma typed_search:
  assumes "numpy_laws N" and "valid_bounds P bs T" and "t < T"
    and "list_all2 (\<lambda>i p. p < P \<and> typed_start bs T t p \<le> i \<and> i < typed_start bs T t (Suc p)) ids ps"
  shows "np_searchsorted_right N (typed_ends P bs T t) ids = map int ps"
proof -
  have l: "length ids = length ps" using assms(4) by (rule list_all2_lengthD)
  have "np_searchsorted_right N (typed_ends P bs T t) (map fst (zip ids ps)) =
      map (\<lambda>x. int (snd x)) (zip ids ps)"
  proof (rule searchsorted_map [OF assms(1) typed_ends_sorted [OF assms(2,3)]])
    fix x
    assume "x \<in> set (zip ids ps)"
    then show "insertion_right (typed_ends P bs T t) (fst x) (int (snd x))"
      using assms(4) typed_bucket [OF assms(2,3)] by (auto simp: list_all2_iff)
  qed
  moreover have "map (\<lambda>x. int (snd x)) (zip ids ps) = map int ps"
    using l by (metis (no_types) map_map map_snd_zip comp_def map_eq_conv)
  ultimately show ?thesis using l by simp
qed

text \<open>Which policy the constructors make, for either kind.\<close>

lemma policy_at_cases:
  assumes "policy_ok c" and "m < policy_machines c"
  obtains (node) t e2c s where "pc_key c = Inl t" "t < length (gl_ntypes (pc_graph c))"
      "policy_at c m = Inr \<lparr>pp_policy_str = s, pp_part_id = int m,
         pp_partition_book = book_of (pc_graph c) m e2c,
         pp_type_name = TStr (gl_ntypes (pc_graph c) ! t), pp_is_node = True\<rparr>"
  | (edge) t e2c s where "pc_key c = Inr t" "t < length (gl_etypes (pc_graph c))"
      "policy_at c m = Inr \<lparr>pp_policy_str = s, pp_part_id = int m,
         pp_partition_book = book_of (pc_graph c) m e2c,
         pp_type_name = gl_etypes (pc_graph c) ! t, pp_is_node = False\<rparr>"
proof (cases "pc_key c")
  case (Inl t)
  then show thesis
    using assms range_book_init_eq [of "pc_numpy c" "pc_graph c" m "pc_ntypes c" "pc_etypes c"]
    by (intro node [of t]) (simp_all add: policy_at_def policy_ok_def policy_machines_def Let_def node_policy_init_eq)
next
  case (Inr t)
  have p: "plain_etype (gl_etypes (pc_graph c) ! t)" using assms(1) Inr by (simp add: policy_ok_def)
  then obtain s where s: "etype_tuple_to_str (gl_etypes (pc_graph c) ! t) = Inr s"
    using etype_tuple_to_str_total by (auto simp: plain_etype_def)
  show thesis
    using assms Inr range_book_init_eq [of "pc_numpy c" "pc_graph c" m "pc_ntypes c" "pc_etypes c"]
    by (intro edge [of t]) (simp_all add: policy_at_def policy_ok_def policy_machines_def Let_def
        edge_policy_init_eq [OF p s])
qed

lemma policy_okD:
  assumes "policy_ok c"
  shows "numpy_laws (pc_numpy c)" "valid_graph (pc_graph c)" "names_ok (pc_graph c)"
  using assms by (simp_all add: policy_ok_def)

text \<open>The methods of the policy object.\<close>

lemma policy_methods:
  assumes "policy_ok c" and m: "m < policy_machines c"
  obtains p where "policy_at c m = Inr p" and "pp_part_id p = int m"
    and "\<And>ids ps. list_all2 (\<lambda>i q. q < policy_machines c \<and> policy_starts c q \<le> i \<and>
        i < policy_starts c (Suc q)) ids ps \<Longrightarrow> pp_to_partid (pc_numpy c) p ids = Inr (map int ps)"
    and "\<And>ids. pp_to_local p ids = Inr (map (\<lambda>i. i - policy_starts c m) ids)"
    and "pp_get_part_size p = Inr (policy_starts c (Suc m) - policy_starts c m)"
    and "pp_get_size p = Inr (policy_starts c (policy_machines c))"
proof -
  note D = policy_okD [OF assms(1)] and V = valid_graphD [OF policy_okD(2) [OF assms(1)]]
  have mP: "m < gl_parts (pc_graph c)" using m by (simp add: policy_machines_def)
  from assms show thesis
  proof (cases rule: policy_at_cases)
    case (node t e2c s)
    note k = D(2,3) node(2)
    have le: "0 \<le> span (gl_nbounds (pc_graph c)) (length (gl_ntypes (pc_graph c))) t m"
      by (rule valid_boundsD(5) [OF V(1) mP node(2)])
    show thesis
      by (rule that [OF node(3)])
         (use le node_ends [OF k] ends_last(2) [OF V(1)] in
          \<open>simp_all add: pp_to_partid_def pp_to_local_def pp_get_part_size_def pp_get_size_def
             with_ntype_def nid2partid_key [OF k] nid2localnid_key [OF k mP] partid2nids_key [OF k mP]
             policy_starts_def policy_machines_def node(1) typed_search [OF D(1) V(1) node(2)]
             typed_start_Suc rb_num_nodes_def dict_get_def split: if_splits\<close>)
  next
    case (edge t e2c s)
    note k = D(2,3) edge(2)
    have le: "0 \<le> span (gl_ebounds (pc_graph c)) (length (gl_etypes (pc_graph c))) t m"
      by (rule valid_boundsD(5) [OF V(2) mP edge(2)])
    show thesis
      by (rule that [OF edge(3)])
         (use le edge_ends [OF k] ends_last(2) [OF V(2)] canonical_key [OF D(2) edge(2)] in
          \<open>simp_all add: pp_to_partid_def pp_to_local_def pp_get_part_size_def pp_get_size_def
             eid2partid_key [OF k] eid2localeid_key [OF k mP] partid2eids_key [OF k mP]
             policy_starts_def policy_machines_def edge(1) typed_search [OF D(1) V(2) edge(2)]
             typed_start_Suc rb_num_edges_def dict_get_def split: if_splits\<close>)
  qed
qed

definition at_policy :: "policy_ctx \<Rightarrow> nat \<Rightarrow> (partition_policy \<Rightarrow> 'a res) \<Rightarrow> 'a res" where
  "at_policy c m f = rbind (policy_at c m) f"

interpretation policy: row_partition policy_ok policy_machines policy_starts
  "\<lambda>c m ids. at_policy c m (\<lambda>p. pp_to_partid (pc_numpy c) p ids)"
  "\<lambda>c m ids. at_policy c m (\<lambda>p. pp_to_local p ids)"
  "\<lambda>c m. at_policy c m pp_get_part_size"
  "\<lambda>c m. at_policy c m pp_get_size"
proof
  fix c m ids ps p
  assume c: "policy_ok c"
  note V = valid_graphD [OF policy_okD(2) [OF c]]
  show "0 < policy_machines c" using V(6) by (simp add: policy_machines_def)
  show "policy_starts c 0 = 0" by (simp add: policy_starts_def split: sum.splits)
  show "p < policy_machines c \<Longrightarrow> policy_starts c p \<le> policy_starts c (Suc p)"
    using valid_boundsD(5) [OF V(1)] valid_boundsD(5) [OF V(2)] c
    by (auto simp: policy_starts_def policy_machines_def typed_start_Suc policy_ok_def split: sum.splits)
  assume m: "m < policy_machines c"
  obtain q where q: "policy_at c m = Inr q" "pp_part_id q = int m"
    "\<And>ids ps. list_all2 (\<lambda>i q. q < policy_machines c \<and> policy_starts c q \<le> i \<and>
        i < policy_starts c (Suc q)) ids ps \<Longrightarrow> pp_to_partid (pc_numpy c) q ids = Inr (map int ps)"
    "\<And>ids. pp_to_local q ids = Inr (map (\<lambda>i. i - policy_starts c m) ids)"
    "pp_get_part_size q = Inr (policy_starts c (Suc m) - policy_starts c m)"
    "pp_get_size q = Inr (policy_starts c (policy_machines c))"
    by (rule policy_methods [OF c m]) (rule that)
  show "list_all2 (\<lambda>i p. p < policy_machines c \<and> policy_starts c p \<le> i \<and> i < policy_starts c (Suc p)) ids ps \<Longrightarrow>
      at_policy c m (\<lambda>p. pp_to_partid (pc_numpy c) p ids) = Inr (map int ps)"
    by (simp add: at_policy_def q)
  show "at_policy c m (\<lambda>p. pp_to_local p ids) = Inr (map (\<lambda>i. i - policy_starts c m) ids)"
    "at_policy c m pp_get_part_size = Inr (policy_starts c (Suc m) - policy_starts c m)"
    "at_policy c m pp_get_size = Inr (policy_starts c (policy_machines c))"
    by (simp_all add: at_policy_def q)
qed

text \<open>Every row of a distributed tensor has one home: on every machine the policy gives row
  \<open>i\<close> the same owner, the owner's policy gives it a local offset inside its part, and a row is
  determined by its owner and its offset. The part sizes the policies report sum to the full size.\<close>

theorem policy_row_home:
  assumes "policy_ok c" and "m < policy_machines c"
    and "at_policy c m pp_get_size = Inr n" and "0 \<le> i" and "i < n"
  shows "\<exists>p k sz. p < policy_machines c \<and>
      (\<forall>m' < policy_machines c. at_policy c m' (\<lambda>q. pp_to_partid (pc_numpy c) q [i]) = Inr [int p]) \<and>
      at_policy c p (\<lambda>q. pp_to_local q [i]) = Inr [k] \<and>
      at_policy c p pp_get_part_size = Inr sz \<and> 0 \<le> k \<and> k < sz \<and>
      i = k + (\<Sum>q<p. policy_starts c (Suc q) - policy_starts c q) \<and>
      n = (\<Sum>q<policy_machines c. policy_starts c (Suc q) - policy_starts c q)"
proof -
  have n: "n = policy_starts c (policy_machines c)"
    using policy.total_size_eq [OF assms(1,2)] assms(3) by simp
  let ?p = "policy.owner c i"
  have O: "?p < policy_machines c" "policy_starts c ?p \<le> i" "i < policy_starts c (Suc ?p)"
    using policy.owner_bounds [OF assms(1,4)] assms(5) n by auto
  have "at_policy c m' (\<lambda>q. pp_to_partid (pc_numpy c) q [i]) = Inr [int ?p]"
    if "m' < policy_machines c" for m'
    using policy.to_partid_total [OF assms(1) that, of "[i]"] assms(4,5) n by simp
  moreover have "(\<Sum>q<p. policy_starts c (Suc q) - policy_starts c q) = policy_starts c p" for p
    using policy.starts_0 [OF assms(1)] by (simp add: sum_telescope)
  ultimately show ?thesis
    using O n policy.to_local_shift [OF assms(1) O(1)] policy.part_size_eq [OF assms(1) O(1)]
    by - (rule exI [of _ ?p], rule exI [of _ "i - policy_starts c ?p"],
      rule exI [of _ "policy_starts c (Suc ?p) - policy_starts c ?p"], simp)
qed

definition example_policy_ctx :: policy_ctx where
  "example_policy_ctx =
     \<lparr>pc_numpy = numpy_ref, pc_graph = example_graph, pc_ntypes = [(''item'', 1), (''user'', 0)],
      pc_etypes = example_etypes, pc_key = Inl 0\<rparr>"

lemma example_policy_ok: "policy_ok example_policy_ctx"
  using numpy_ref_laws example_valid example_types
  by (simp add: policy_ok_def example_policy_ctx_def) (simp add: example_graph_def)

lemma example_policy_starts:
  "policy_machines example_policy_ctx = 2"
  "policy_starts example_policy_ctx 0 = 0" "policy_starts example_policy_ctx (Suc 0) = 3"
  "policy_starts example_policy_ctx 2 = 7" "policy_starts example_policy_ctx (Suc (Suc 0)) = 7"
  by (simp_all add: policy_machines_def policy_starts_def example_policy_ctx_def example_graph_def
      typed_start_def span_def numeral_eq_Suc lessThan_Suc)

theorem policy_row_home_witness:
  "\<exists>p k sz. p < policy_machines example_policy_ctx \<and>
      (\<forall>m' < policy_machines example_policy_ctx.
         at_policy example_policy_ctx m' (\<lambda>q. pp_to_partid (pc_numpy example_policy_ctx) q [5]) = Inr [int p]) \<and>
      at_policy example_policy_ctx p (\<lambda>q. pp_to_local q [5]) = Inr [k] \<and>
      at_policy example_policy_ctx p pp_get_part_size = Inr sz \<and> 0 \<le> k \<and> k < sz \<and>
      5 = k + (\<Sum>q<p. policy_starts example_policy_ctx (Suc q) - policy_starts example_policy_ctx q) \<and>
      7 = (\<Sum>q<policy_machines example_policy_ctx.
             policy_starts example_policy_ctx (Suc q) - policy_starts example_policy_ctx q)"
  by (rule policy_row_home [OF example_policy_ok, of 0])
     (simp_all add: policy.total_size_eq [OF example_policy_ok] example_policy_starts)

end
