(* ===== verification/Rpc.thy ===== *)
theory Rpc
  imports PyStr "HOL-Library.Multiset"
begin

text \<open>
  \<^verbatim>\<open>python/dgl/distributed/rpc.py\<close>: the service registry, the encoding of requests and
  responses, and the calls that send requests to machines and collect the responses. The transport
  is C++ and a network: sending yields the list of messages, receiving reads a list of what
  arrives (\<open>None\<close> is a receive that times out), and which server of a machine is picked is an
  argument. \<open>pickle\<close> is third-party: \<open>dumps\<close> and \<open>loads\<close> are arguments.
\<close>

section \<open>Encoding\<close>

text \<open>The state of an object is a tuple of members or a single value; a member is a tensor or
  another object.\<close>

datatype ('t, 'o) item = Tensor 't | Obj 'o

datatype 'i py_state = PTuple "'i list" | PSingle 'i

fun state_items :: "'i py_state \<Rightarrow> 'i list" where
  "state_items (PTuple xs) = xs"
| "state_items (PSingle x) = [x]"

fun split_state :: "int \<Rightarrow> ('t, 'o) item list \<Rightarrow> int list \<times> 'o list \<times> 't list" where
  "split_state i [] = ([], [], [])"
| "split_state i (x # xs) =
     (case split_state (i + 1) xs of (nonarray_pos, nonarray_state, array_state) \<Rightarrow>
      case x of
        Tensor t \<Rightarrow> (nonarray_pos, nonarray_state, t # array_state)
      | Obj ob \<Rightarrow> (i # nonarray_pos, ob # nonarray_state, array_state))"

definition serialize_to_payload ::
  "(int list \<times> 'o list \<Rightarrow> 'd) \<Rightarrow> ('t, 'o) item py_state \<Rightarrow> 'd \<times> 't list" where
  "serialize_to_payload dumps state =
     (case split_state 0 (state_items state) of (pos, objs, tensors) \<Rightarrow> (dumps (pos, objs), tensors))"

text \<open>\<open>None\<close> is the placeholder object; the loop gives the placeholders the tensors in order.\<close>

fun fill_placeholders :: "('t, 'o) item option list \<Rightarrow> 't list \<Rightarrow> ('t, 'o) item option list res" where
  "fill_placeholders [] ts = Inr []"
| "fill_placeholders (Some x # st) ts = rbind (fill_placeholders st ts) (\<lambda>r. Inr (Some x # r))"
| "fill_placeholders (None # st) [] = Inl IndexError"
| "fill_placeholders (None # st) (t # ts) = rbind (fill_placeholders st ts) (\<lambda>r. Inr (Some (Tensor t) # r))"

definition deserialize_from_payload ::
  "('d \<Rightarrow> int list \<times> 'o list) \<Rightarrow> 'd \<Rightarrow> 't list \<Rightarrow> ('t, 'o) item option py_state res" where
  "deserialize_from_payload loads data tensors =
     (case loads data of (pos, nonarray_state) \<Rightarrow>
      rbind (rfold (\<lambda>st (i, no_state). py_set_index st i (Some (Obj no_state)))
               (replicate (length nonarray_state + length tensors) None) (zip pos nonarray_state)) (\<lambda>st.
      rbind (if tensors \<noteq> [] then fill_placeholders st tensors else Inr st) (\<lambda>st.
      Inr (if length st = 1 then PSingle (hd st) else PTuple st))))"

lemma split_state_lengths:
  "split_state i xs = (pos, objs, ts) \<Longrightarrow>
    length pos = length objs \<and> length objs + length ts = length xs"
  by (induction xs arbitrary: i pos objs ts) (auto split: prod.splits item.splits)

lemma split_state_pos:
  "split_state i xs = (pos, objs, ts) \<Longrightarrow>
    set (zip objs pos) = {(ob, i + int j) | j ob. j < length xs \<and> xs ! j = Obj ob}"
proof (induction xs arbitrary: i pos objs ts)
  case Nil
  then show ?case by simp
next
  case (Cons x xs)
  obtain p2 o2 t2 where r: "split_state (i + 1) xs = (p2, o2, t2)" by (metis prod_cases3)
  have shift: "{(ob, i + int j) | j ob. j < length (x # xs) \<and> (x # xs) ! j = Obj ob} =
      (case x of Obj ob \<Rightarrow> {(ob, i)} | Tensor _ \<Rightarrow> {}) \<union>
      {(ob, (i + 1) + int j) | j ob. j < length xs \<and> xs ! j = Obj ob}" (is "?L = ?R")
  proof (rule set_eqI, rule iffI)
    fix y
    assume "y \<in> ?L"
    then obtain j ob where j: "y = (ob, i + int j)" "j < length (x # xs)" "(x # xs) ! j = Obj ob" by blast
    then show "y \<in> ?R" by (cases j) (auto split: item.splits)
  next
    fix y
    assume "y \<in> ?R"
    then consider ob where "x = Obj ob" "y = (ob, i)"
      | j ob where "y = (ob, (i + 1) + int j)" "j < length xs" "xs ! j = Obj ob"
      by (auto split: item.splits)
    then show "y \<in> ?L"
    proof cases
      case (1 ob)
      then show ?thesis by (intro CollectI exI [of _ 0] exI [of _ ob]) simp
    next
      case (2 j ob)
      then show ?thesis by (intro CollectI exI [of _ "Suc j"] exI [of _ ob]) simp
    qed
  qed
  show ?case unfolding shift using Cons.IH [OF r] Cons.prems r
    by (auto split: item.splits)
qed

definition obj_only :: "('t, 'o) item \<Rightarrow> ('t, 'o) item option" where
  "obj_only x = (case x of Obj ob \<Rightarrow> Some (Obj ob) | Tensor _ \<Rightarrow> None)"

lemma obj_only_simps [simp]: "obj_only (Obj ob) = Some (Obj ob)" "obj_only (Tensor t) = None"
  by (simp_all add: obj_only_def)

definition the_obj :: "('t, 'o) item \<Rightarrow> 'o" where
  "the_obj x = (case x of Obj ob \<Rightarrow> ob | Tensor _ \<Rightarrow> undefined)"

lemma fill_split:
  "split_state i xs = (pos, objs, ts) \<Longrightarrow>
    fill_placeholders (map obj_only xs) ts =
      Inr (map Some xs)"
  by (induction xs arbitrary: i pos objs ts) (auto split: prod.splits item.splits)

lemma no_tensors_in:
  "split_state i xs = (pos, objs, ts) \<Longrightarrow> Tensor t \<in> set xs \<Longrightarrow> ts \<noteq> []"
proof (induction xs arbitrary: i pos objs ts)
  case (Cons x xs)
  obtain p2 o2 t2 where r: "split_state (i + 1) xs = (p2, o2, t2)" by (metis prod_cases3)
  show ?case using Cons.prems Cons.IH [OF r] r by (cases x) auto
qed simp

lemma no_tensors:
  assumes "split_state i xs = (pos, objs, [])"
  shows "map obj_only xs = map Some xs"
  using no_tensors_in [OF assms] by (auto simp: obj_only_def split: item.splits)

lemma place_objs:
  fixes xs :: "('t, 'o) item list"
  assumes "split_state 0 xs = (pos, objs, ts)"
  shows "rfold (\<lambda>st (i, no_state). py_set_index st i (Some (Obj no_state)))
      (replicate (length xs) None) (zip pos objs) =
    Inr (map obj_only xs)"
proof -
  let ?l = "replicate (length xs) (None :: ('t, 'o) item option)"
  let ?g = "\<lambda>j. Obj (the_obj (xs ! j)) :: ('t, 'o) item"
  note P = split_state_pos [OF assms]
  have swap: "zip pos objs = map (\<lambda>(k, i). (i, k)) (zip objs pos)"
    using split_state_lengths [OF assms] by (intro nth_equalityI) simp_all
  have dom: "\<forall>(k, i) \<in> set (zip objs pos). 0 \<le> i \<and> nat i < length ?l \<and> Obj k = ?g (nat i)"
    unfolding P by (auto simp: the_obj_def)
  have "int j \<in> snd ` set (zip objs pos) \<longleftrightarrow> (\<exists>ob. xs ! j = Obj ob)" if "j < length xs" for j
    unfolding P using that by force
  then have "map (\<lambda>j. if int j \<in> snd ` set (zip objs pos) then Some (?g j) else ?l ! j) [0..<length ?l] =
      map obj_only xs"
    by (intro nth_equalityI) (auto simp: the_obj_def obj_only_def split: item.splits)
  with place_fold [OF dom] show ?thesis
    by (simp add: swap rfold_map case_prod_unfold)
qed

text \<open>What the receiver's \<open>__setstate__\<close> is given.\<close>

definition wire :: "('t, 'o) item py_state \<Rightarrow> ('t, 'o) item option py_state" where
  "wire s = (case map Some (state_items s) of [x] \<Rightarrow> PSingle x | xs \<Rightarrow> PTuple xs)"

lemma wire_roundtrip:
  assumes "\<And>x. loads (dumps x) = x"
  shows "deserialize_from_payload loads (fst (serialize_to_payload dumps s))
    (snd (serialize_to_payload dumps s)) = Inr (wire s)"
proof -
  obtain pos objs ts where sp: "split_state 0 (state_items s) = (pos, objs, ts)"
    by (metis prod_cases3)
  have len: "length objs + length ts = length (state_items s)"
    using split_state_lengths [OF sp] by simp
  have "(if ts \<noteq> [] then fill_placeholders (map obj_only (state_items s)) ts
      else Inr (map obj_only (state_items s))) = Inr (map Some (state_items s))"
    using fill_split [OF sp] no_tensors [of 0 "state_items s"] sp by auto
  then show ?thesis
    using place_objs [OF sp] assms
    by (auto simp: wire_def serialize_to_payload_def deserialize_from_payload_def sp len
        length_Suc_conv split: list.splits)
qed

text \<open>C34. A request or response that is sent and received is the one that was sent, whatever
  mix of tensors and other objects its state holds and in whatever order, except that a state that
  is a tuple of one member comes back as the member alone.\<close>

theorem serialize_roundtrip:
  assumes "\<And>x. loads (dumps x) = x" and "serialize_to_payload dumps state = (data, tensors)"
  shows "deserialize_from_payload loads data tensors =
    Inr (case map Some (state_items state) of [x] \<Rightarrow> PSingle x | xs \<Rightarrow> PTuple xs)"
  using wire_roundtrip [of loads dumps state, OF assms(1)] assms(2) by (simp add: wire_def)

theorem serialize_roundtrip_witness:
  "deserialize_from_payload (\<lambda>x. x) ([0], [''name'']) [7 :: int] =
    Inr (case map Some (state_items (PTuple [Obj ''name'', Tensor 7])) of
           [x] \<Rightarrow> PSingle x | xs \<Rightarrow> PTuple xs)"
  by (rule serialize_roundtrip [where dumps = "\<lambda>x. x"]) (simp_all add: serialize_to_payload_def)

section \<open>Services, messages and calls\<close>

text \<open>The state of a process: the counters of the RPC context and the tables that
  \<open>register_service\<close> fills. Classes are named by strings.\<close>

record rpc_ctx =
  rc_msg_seq :: int
  rc_rank :: int
  rc_group_id :: int
  rc_num_server_per_machine :: int
  rc_req_service :: "(string \<times> int) list"
  rc_res_service :: "(string \<times> int) list"
  rc_properties :: "(int \<times> (string \<times> string option)) list"

record ('d, 't) rpc_msg =
  mg_service_id :: int
  mg_msg_seq :: int
  mg_client_id :: int
  mg_server_id :: int
  mg_data :: 'd
  mg_tensors :: "'t list"
  mg_group_id :: int

record ('t, 'o) rpc_object =
  ro_class :: string
  ro_state :: "('t, 'o) item py_state"

type_synonym ('t, 'o) received = "string \<times> ('t, 'o) item option py_state"

definition register_service :: "int \<Rightarrow> string \<Rightarrow> string option \<Rightarrow> rpc_ctx \<Rightarrow> rpc_ctx" where
  "register_service service_id req_cls res_cls c =
     c\<lparr>rc_req_service := AList.update req_cls service_id (rc_req_service c),
       rc_res_service := (case res_cls of None \<Rightarrow> rc_res_service c
                          | Some r \<Rightarrow> AList.update r service_id (rc_res_service c)),
       rc_properties := AList.update service_id (req_cls, res_cls) (rc_properties c)\<rparr>"

definition get_service_property :: "rpc_ctx \<Rightarrow> int \<Rightarrow> (string \<times> string option) res" where
  "get_service_property c sid = dict_get (rc_properties c) sid"

definition request_service_id :: "rpc_ctx \<Rightarrow> string \<Rightarrow> int res" where
  "request_service_id c cls =
     (case map_of (rc_req_service c) cls of None \<Rightarrow> Inl DGLError | Some sid \<Rightarrow> Inr sid)"

definition response_service_id :: "rpc_ctx \<Rightarrow> string \<Rightarrow> int res" where
  "response_service_id c cls =
     (case map_of (rc_res_service c) cls of None \<Rightarrow> Inl DGLError | Some sid \<Rightarrow> Inr sid)"

definition incr_msg_seq :: "rpc_ctx \<Rightarrow> int \<times> rpc_ctx" where
  "incr_msg_seq c = (rc_msg_seq c, c\<lparr>rc_msg_seq := rc_msg_seq c + 1\<rparr>)"

definition send_request :: "(int list \<times> 'o list \<Rightarrow> 'd) \<Rightarrow> rpc_ctx \<Rightarrow> int \<Rightarrow> ('t, 'o) rpc_object \<Rightarrow>
    (rpc_ctx \<times> ('d, 't) rpc_msg) res" where
  "send_request dumps c target request =
     rbind (request_service_id c (ro_class request)) (\<lambda>service_id.
     case incr_msg_seq c of (msg_seq, c') \<Rightarrow>
     case serialize_to_payload dumps (ro_state request) of (data, tensors) \<Rightarrow>
     Inr (c', \<lparr>mg_service_id = service_id, mg_msg_seq = msg_seq, mg_client_id = rc_rank c,
               mg_server_id = target, mg_data = data, mg_tensors = tensors,
               mg_group_id = rc_group_id c\<rparr>))"

text \<open>\<open>rand lo hi\<close> is the server \<open>random.randint\<close> picks; a call gives one to each request.\<close>

definition send_request_to_machine :: "(int list \<times> 'o list \<Rightarrow> 'd) \<Rightarrow> (int \<Rightarrow> int \<Rightarrow> int) \<Rightarrow> rpc_ctx \<Rightarrow> int \<Rightarrow>
    ('t, 'o) rpc_object \<Rightarrow> (rpc_ctx \<times> ('d, 't) rpc_msg) res" where
  "send_request_to_machine dumps rand c target request =
     send_request dumps c
       (rand (target * rc_num_server_per_machine c) ((target + 1) * rc_num_server_per_machine c - 1))
       request"

definition send_response :: "(int list \<times> 'o list \<Rightarrow> 'd) \<Rightarrow> rpc_ctx \<Rightarrow> int \<Rightarrow> ('t, 'o) rpc_object \<Rightarrow> int \<Rightarrow>
    ('d, 't) rpc_msg res" where
  "send_response dumps c target response group_id =
     rbind (response_service_id c (ro_class response)) (\<lambda>service_id.
     case serialize_to_payload dumps (ro_state response) of (data, tensors) \<Rightarrow>
     Inr \<lparr>mg_service_id = service_id, mg_msg_seq = rc_msg_seq c, mg_client_id = target,
          mg_server_id = rc_rank c, mg_data = data, mg_tensors = tensors,
          mg_group_id = group_id\<rparr>)"

definition recv_request :: "('d \<Rightarrow> int list \<times> 'o list) \<Rightarrow> rpc_ctx \<Rightarrow> ('d, 't) rpc_msg option \<Rightarrow>
    (rpc_ctx \<times> ('t, 'o) received option \<times> int \<times> int) res" where
  "recv_request loads c msg =
     (case msg of
        None \<Rightarrow> Inr (c, None, - 1, - 1)
      | Some m \<Rightarrow>
          let c' = c\<lparr>rc_msg_seq := mg_msg_seq m\<rparr> in
          rbind (get_service_property c' (mg_service_id m)) (\<lambda>(req_cls, _).
          rbind (deserialize_from_payload loads (mg_data m) (mg_tensors m)) (\<lambda>st.
          rbind (rassert (mg_server_id m = rc_rank c') DGLError) (\<lambda>_.
          Inr (c', Some (req_cls, st), mg_client_id m, mg_group_id m)))))"

text \<open>What \<open>recv_response\<close>, \<open>remote_call\<close> and \<open>recv_responses\<close> do with a message first.\<close>

definition decode_response :: "('d \<Rightarrow> int list \<times> 'o list) \<Rightarrow> rpc_ctx \<Rightarrow> ('d, 't) rpc_msg \<Rightarrow>
    ('t, 'o) received res" where
  "decode_response loads c m =
     rbind (get_service_property c (mg_service_id m)) (\<lambda>(_, res_cls).
     case res_cls of
       None \<Rightarrow> Inl DGLError
     | Some cls \<Rightarrow>
         rbind (deserialize_from_payload loads (mg_data m) (mg_tensors m)) (\<lambda>st. Inr (cls, st)))"

definition recv_response :: "('d \<Rightarrow> int list \<times> 'o list) \<Rightarrow> rpc_ctx \<Rightarrow> ('d, 't) rpc_msg option \<Rightarrow>
    ('t, 'o) received option res" where
  "recv_response loads c msg =
     (case msg of
        None \<Rightarrow> Inr None
      | Some m \<Rightarrow>
          rbind (decode_response loads c m) (\<lambda>r.
          rbind (rassert (\<not> (mg_client_id m \<noteq> rc_rank c \<and> rc_rank c \<noteq> - 1)) DGLError) (\<lambda>_.
          rbind (rassert (mg_group_id m = rc_group_id c) DGLError) (\<lambda>_. Inr (Some r)))))"

text \<open>The loop that sends: the messages, the positions by sequence number, and the number of
  responses to wait for. \<open>rand pos\<close> is the pick for the request at \<open>pos\<close>.\<close>

fun send_loop :: "(int list \<times> 'o list \<Rightarrow> 'd) \<Rightarrow> (nat \<Rightarrow> int \<Rightarrow> int \<Rightarrow> int) \<Rightarrow> rpc_ctx \<Rightarrow> nat \<Rightarrow>
    (int \<times> nat) list \<Rightarrow> nat \<Rightarrow> (int \<times> ('t, 'o) rpc_object) list \<Rightarrow>
    (rpc_ctx \<times> ('d, 't) rpc_msg list \<times> (int \<times> nat) list \<times> nat) res" where
  "send_loop dumps rand c pos msgseq2pos num_res [] = Inr (c, [], msgseq2pos, num_res)"
| "send_loop dumps rand c pos msgseq2pos num_res ((target, request) # rest) =
     rbind (send_request_to_machine dumps (rand pos) c target request) (\<lambda>(c', msg).
     rbind (get_service_property c' (mg_service_id msg)) (\<lambda>(_, res_cls).
     rbind (if res_cls \<noteq> None
            then send_loop dumps rand c' (pos + 1) (AList.update (mg_msg_seq msg) pos msgseq2pos)
                   (num_res + 1) rest
            else send_loop dumps rand c' (pos + 1) msgseq2pos num_res rest)
       (\<lambda>(c'', msgs, m2p, n). Inr (c'', msg # msgs, m2p, n))))"

text \<open>The loop that receives. \<open>None\<close> as a result: the loop is still waiting when all that
  arrives has been read.\<close>

fun recv_loop :: "('d \<Rightarrow> int list \<times> 'o list) \<Rightarrow> rpc_ctx \<Rightarrow> (int \<times> nat) list \<Rightarrow> nat \<Rightarrow>
    ('t, 'o) received option list \<Rightarrow> ('d, 't) rpc_msg option list \<Rightarrow>
    ('t, 'o) received option list res option" where
  "recv_loop loads c m2p 0 all_res incoming = Some (Inr all_res)"
| "recv_loop loads c m2p (Suc n) all_res [] = None"
| "recv_loop loads c m2p (Suc n) all_res (None # incoming) = Some (Inl DGLError)"
| "recv_loop loads c m2p (Suc n) all_res (Some m # incoming) =
     (case rbind (decode_response loads c m) (\<lambda>r.
           rbind (rassert (mg_client_id m = rc_rank c) DGLError) (\<lambda>_.
           rbind (dict_get m2p (mg_msg_seq m)) (\<lambda>pos.
           py_set_index all_res (int pos) (Some r)))) of
        Inl e \<Rightarrow> Some (Inl e)
      | Inr all_res' \<Rightarrow> recv_loop loads c m2p n all_res' incoming)"

definition remote_call :: "(int list \<times> 'o list \<Rightarrow> 'd) \<Rightarrow> ('d \<Rightarrow> int list \<times> 'o list) \<Rightarrow>
    (nat \<Rightarrow> int \<Rightarrow> int \<Rightarrow> int) \<Rightarrow> rpc_ctx \<Rightarrow> (int \<times> ('t, 'o) rpc_object) list \<Rightarrow>
    (('d, 't) rpc_msg list \<Rightarrow> ('d, 't) rpc_msg option list) \<Rightarrow> ('t, 'o) received option list res option" where
  "remote_call dumps loads rand c target_and_requests network =
     (case send_loop dumps rand c 0 [] 0 target_and_requests of
        Inl e \<Rightarrow> Some (Inl e)
      | Inr (c', msgs, m2p, num_res) \<Rightarrow>
          recv_loop loads c' m2p num_res (replicate (length target_and_requests) None) (network msgs))"

definition send_requests_to_machine :: "(int list \<times> 'o list \<Rightarrow> 'd) \<Rightarrow> (nat \<Rightarrow> int \<Rightarrow> int \<Rightarrow> int) \<Rightarrow> rpc_ctx \<Rightarrow>
    (int \<times> ('t, 'o) rpc_object) list \<Rightarrow> (rpc_ctx \<times> ('d, 't) rpc_msg list \<times> (int \<times> nat) list) res" where
  "send_requests_to_machine dumps rand c target_and_requests =
     rbind (send_loop dumps rand c 0 [] 0 target_and_requests) (\<lambda>(c', msgs, m2p, _). Inr (c', msgs, m2p))"

text \<open>\<open>np.max\<close> of an empty list is a \<open>ValueError\<close>.\<close>

definition recv_responses :: "('d \<Rightarrow> int list \<times> 'o list) \<Rightarrow> rpc_ctx \<Rightarrow> (int \<times> nat) list \<Rightarrow>
    ('d, 't) rpc_msg option list \<Rightarrow> ('t, 'o) received option list res option" where
  "recv_responses loads c msgseq2pos incoming =
     (if msgseq2pos = [] then Some (Inl ValueError)
      else recv_loop loads c msgseq2pos (length msgseq2pos)
             (replicate (Max (set (map snd msgseq2pos)) + 1) None) incoming)"

definition remote_call_to_machine :: "(int list \<times> 'o list \<Rightarrow> 'd) \<Rightarrow> ('d \<Rightarrow> int list \<times> 'o list) \<Rightarrow>
    (nat \<Rightarrow> int \<Rightarrow> int \<Rightarrow> int) \<Rightarrow> rpc_ctx \<Rightarrow> (int \<times> ('t, 'o) rpc_object) list \<Rightarrow>
    (('d, 't) rpc_msg list \<Rightarrow> ('d, 't) rpc_msg option list) \<Rightarrow> ('t, 'o) received option list res option" where
  "remote_call_to_machine dumps loads rand c target_and_requests network =
     (case send_requests_to_machine dumps rand c target_and_requests of
        Inl e \<Rightarrow> Some (Inl e)
      | Inr (c', msgs, m2p) \<Rightarrow> recv_responses loads c' m2p (network msgs))"

section \<open>A server\<close>

text \<open>One round of the loop of \<open>start_server\<close> in \<^verbatim>\<open>rpc_server.py\<close> for a request that has at
  most one response.\<close>

definition serve :: "(int list \<times> 'o list \<Rightarrow> 'd) \<Rightarrow> ('d \<Rightarrow> int list \<times> 'o list) \<Rightarrow>
    (('t, 'o) received \<Rightarrow> ('t, 'o) rpc_object option) \<Rightarrow> rpc_ctx \<Rightarrow> ('d, 't) rpc_msg option \<Rightarrow>
    ('d, 't) rpc_msg list res" where
  "serve dumps loads process_request c msg =
     rbind (recv_request loads c msg) (\<lambda>(c', req, client_id, group_id).
     case req of
       None \<Rightarrow> Inr []
     | Some r \<Rightarrow>
         (case process_request r of
            None \<Rightarrow> Inr []
          | Some resp \<Rightarrow>
              rbind (send_response dumps c' client_id resp group_id) (\<lambda>m. Inr [m])))"

section \<open>Lemmas on calls\<close>

text \<open>The registry: every request class has a service, whose property names the class, and the
  response class of the service is registered under it.\<close>

definition registry_ok :: "rpc_ctx \<Rightarrow> bool" where
  "registry_ok c \<longleftrightarrow>
     (\<forall>(cls, sid) \<in> set (rc_req_service c).
        case map_of (rc_properties c) sid of
          None \<Rightarrow> False
        | Some (cls', res) \<Rightarrow> cls' = cls \<and>
            (case res of None \<Rightarrow> True | Some r \<Rightarrow> map_of (rc_res_service c) r = Some sid))"

text \<open>\<open>wire s\<close>: the state a process reads when another sent \<open>s\<close>.\<close>

definition service_of :: "rpc_ctx \<Rightarrow> string \<Rightarrow> int" where
  "service_of c cls = the (map_of (rc_req_service c) cls)"

definition response_class :: "rpc_ctx \<Rightarrow> string \<Rightarrow> string option" where
  "response_class c cls = snd (the (map_of (rc_properties c) (service_of c cls)))"

definition is_registered :: "rpc_ctx \<Rightarrow> string \<Rightarrow> bool" where
  "is_registered c cls \<longleftrightarrow> cls \<in> fst ` set (rc_req_service c)"

lemma registryD:
  assumes "registry_ok c" and "is_registered c cls"
  shows "map_of (rc_req_service c) cls = Some (service_of c cls)"
    and "map_of (rc_properties c) (service_of c cls) = Some (cls, response_class c cls)"
    and "response_class c cls = Some r \<Longrightarrow> map_of (rc_res_service c) r = Some (service_of c cls)"
proof -
  obtain sid where s: "map_of (rc_req_service c) cls = Some sid"
    using assms(2) by (metis is_registered_def map_of_eq_None_iff not_Some_eq)
  then show "map_of (rc_req_service c) cls = Some (service_of c cls)" by (simp add: service_of_def)
  have "(cls, sid) \<in> set (rc_req_service c)" using s by (rule map_of_SomeD)
  then obtain res where "map_of (rc_properties c) sid = Some (cls, res)"
    "case res of None \<Rightarrow> True | Some r \<Rightarrow> map_of (rc_res_service c) r = Some sid"
    using assms(1) unfolding registry_ok_def by (fastforce split: option.splits prod.splits)
  then show "map_of (rc_properties c) (service_of c cls) = Some (cls, response_class c cls)"
    "response_class c cls = Some r \<Longrightarrow> map_of (rc_res_service c) r = Some (service_of c cls)"
    using s by (simp_all add: service_of_def response_class_def split: option.splits)
qed

definition request_msg :: "(int list \<times> 'o list \<Rightarrow> 'd) \<Rightarrow> (nat \<Rightarrow> int \<Rightarrow> int \<Rightarrow> int) \<Rightarrow> rpc_ctx \<Rightarrow> nat \<Rightarrow>
    int \<times> ('t, 'o) rpc_object \<Rightarrow> ('d, 't) rpc_msg" where
  "request_msg dumps rand c pos x =
     \<lparr>mg_service_id = service_of c (ro_class (snd x)), mg_msg_seq = rc_msg_seq c, mg_client_id = rc_rank c,
      mg_server_id = rand pos (fst x * rc_num_server_per_machine c)
        ((fst x + 1) * rc_num_server_per_machine c - 1),
      mg_data = fst (serialize_to_payload dumps (ro_state (snd x))),
      mg_tensors = snd (serialize_to_payload dumps (ro_state (snd x))),
      mg_group_id = rc_group_id c\<rparr>"

definition at_seq :: "rpc_ctx \<Rightarrow> int \<Rightarrow> rpc_ctx" where
  "at_seq c k = c\<lparr>rc_msg_seq := rc_msg_seq c + k\<rparr>"

fun response_positions :: "rpc_ctx \<Rightarrow> nat \<Rightarrow> (int \<times> ('t, 'o) rpc_object) list \<Rightarrow> nat list" where
  "response_positions c pos [] = []"
| "response_positions c pos (x # xs) =
     (if response_class c (ro_class (snd x)) \<noteq> None
      then pos # response_positions c (Suc pos) xs else response_positions c (Suc pos) xs)"

lemma set_response_positions:
  "set (response_positions c pos xs) =
    {pos + k | k. k < length xs \<and> response_class c (ro_class (snd (xs ! k))) \<noteq> None}"
proof (induction xs arbitrary: pos)
  case (Cons x xs)
  have "{pos + k | k. k < length (x # xs) \<and> response_class c (ro_class (snd ((x # xs) ! k))) \<noteq> None} =
      (if response_class c (ro_class (snd x)) \<noteq> None then {pos} else {}) \<union>
      {Suc pos + k | k. k < length xs \<and> response_class c (ro_class (snd (xs ! k))) \<noteq> None}" (is "?L = ?R")
  proof (rule set_eqI, rule iffI)
    fix y
    assume "y \<in> ?L"
    then obtain k where "y = pos + k" "k < length (x # xs)"
      "response_class c (ro_class (snd ((x # xs) ! k))) \<noteq> None" by blast
    then show "y \<in> ?R" by (cases k) auto
  next
    fix y
    assume "y \<in> ?R"
    then consider "y = pos" "response_class c (ro_class (snd x)) \<noteq> None"
      | k where "y = Suc pos + k" "k < length xs" "response_class c (ro_class (snd (xs ! k))) \<noteq> None"
      by (auto split: if_splits)
    then show "y \<in> ?L"
    proof cases
      case 1
      then show ?thesis by (intro CollectI exI [of _ 0]) simp
    next
      case (2 k)
      then show ?thesis by (intro CollectI exI [of _ "Suc k"]) simp
    qed
  qed
  then show ?case using Cons.IH [of "Suc pos"] by simp
qed simp

lemma distinct_response_positions: "distinct (response_positions c pos xs)"
  by (induction xs arbitrary: pos) (auto simp: set_response_positions)

fun request_msgs :: "(int list \<times> 'o list \<Rightarrow> 'd) \<Rightarrow> (nat \<Rightarrow> int \<Rightarrow> int \<Rightarrow> int) \<Rightarrow> rpc_ctx \<Rightarrow> nat \<Rightarrow>
    (int \<times> ('t, 'o) rpc_object) list \<Rightarrow> ('d, 't) rpc_msg list" where
  "request_msgs dumps rand c pos [] = []"
| "request_msgs dumps rand c pos (x # xs) =
     request_msg dumps rand c pos x # request_msgs dumps rand (at_seq c 1) (Suc pos) xs"

lemma at_seq_fields [simp]:
  "rc_msg_seq (at_seq c k) = rc_msg_seq c + k" "rc_rank (at_seq c k) = rc_rank c"
  "rc_group_id (at_seq c k) = rc_group_id c" "rc_properties (at_seq c k) = rc_properties c"
  "rc_req_service (at_seq c k) = rc_req_service c" "rc_res_service (at_seq c k) = rc_res_service c"
  "rc_num_server_per_machine (at_seq c k) = rc_num_server_per_machine c"
  "at_seq (at_seq c j) k = at_seq c (j + k)" "at_seq c 0 = c"
  "service_of (at_seq c k) = service_of c" "response_class (at_seq c k) = response_class c"
  "registry_ok (at_seq c k) = registry_ok c" "is_registered (at_seq c k) = is_registered c"
  by (simp_all add: at_seq_def service_of_def response_class_def registry_ok_def is_registered_def
      fun_eq_iff cong: option.case_cong prod.case_cong)

lemma response_positions_at_seq [simp]:
  "response_positions (at_seq c k) pos xs = response_positions c pos xs"
  by (induction xs arbitrary: pos) simp_all

lemma request_msgs_nth:
  "k < length xs \<Longrightarrow>
    request_msgs dumps rand c pos xs ! k = request_msg dumps rand (at_seq c (int k)) (pos + k) (xs ! k)"
  by (induction xs arbitrary: c pos k) (auto simp: nth_Cons split: nat.splits)

lemma length_request_msgs [simp]: "length (request_msgs dumps rand c pos xs) = length xs"
  by (induction xs arbitrary: c pos) simp_all

lemma send_to_machine_eq:
  assumes "registry_ok c" and "is_registered c (ro_class (snd x))"
  shows "send_request_to_machine dumps (rand pos) c (fst x) (snd x) =
    Inr (at_seq c 1, request_msg dumps rand c pos x)"
  using registryD(1) [OF assms]
  by (simp add: send_request_to_machine_def send_request_def request_service_id_def incr_msg_seq_def
      request_msg_def at_seq_def case_prod_unfold)

text \<open>What the sending loop leaves: one message per request, and for every request with a response
  an entry from its sequence number to its position.\<close>

lemma send_loop_eq:
  assumes "registry_ok c" and "\<forall>x \<in> set xs. is_registered c (ro_class (snd x))"
    and "\<forall>s \<in> fst ` set m2p. s < rc_msg_seq c"
  shows "send_loop dumps rand c pos m2p n xs =
    Inr (at_seq c (int (length xs)), request_msgs dumps rand c pos xs,
         m2p @ map (\<lambda>p. (rc_msg_seq c + int p - int pos, p)) (response_positions c pos xs),
         n + length (response_positions c pos xs))"
  using assms
proof (induction xs arbitrary: c pos m2p n)
  case Nil
  then show ?case by simp
next
  case (Cons x xs)
  obtain target request where x: "x = (target, request)" by (cases x)
  have reg: "is_registered c (ro_class request)" using Cons.prems(2) x by simp
  note R = registryD [OF Cons.prems(1) reg]
  have snd: "send_request_to_machine dumps (rand pos) c target request =
      Inr (at_seq c 1, request_msg dumps rand c pos x)"
    using send_to_machine_eq [OF Cons.prems(1), of x] reg x by simp
  have fresh: "AList.update (rc_msg_seq c) pos m2p = m2p @ [(rc_msg_seq c, pos)]"
    using Cons.prems(3) by (intro update_fresh) auto
  have IH: "send_loop dumps rand (at_seq c 1) (Suc pos) m' n' xs =
      Inr (at_seq c (1 + int (length xs)), request_msgs dumps rand (at_seq c 1) (Suc pos) xs,
        m' @ map (\<lambda>p. (rc_msg_seq c + int p - int pos, p)) (response_positions c (Suc pos) xs),
        n' + length (response_positions c (Suc pos) xs))"
    if "\<forall>s \<in> fst ` set m'. s < rc_msg_seq c + 1" for m' n'
    using Cons.IH [of "at_seq c 1" m' "Suc pos" n'] Cons.prems that by (simp add: algebra_simps)
  have lt: "\<forall>s \<in> fst ` set m2p. s < rc_msg_seq c + 1" using Cons.prems(3) by force
  have msg: "mg_service_id (request_msg dumps rand c pos x) = service_of c (ro_class request)"
    "mg_msg_seq (request_msg dumps rand c pos x) = rc_msg_seq c"
    by (simp_all add: request_msg_def x)
  have pr: "get_service_property (at_seq c 1) (service_of c (ro_class request)) =
      Inr (ro_class request, response_class c (ro_class request))"
    using R(2) by (simp add: get_service_property_def)
  show ?case
  proof (cases "response_class c (ro_class request)")
    case None
    then show ?thesis using IH [OF lt] by (simp add: x snd [unfolded x] msg [unfolded x] pr)
  next
    case (Some r)
    have "\<forall>s \<in> fst ` set (m2p @ [(rc_msg_seq c, pos)]). s < rc_msg_seq c + 1" using lt by auto
    from IH [OF this] Some fresh show ?thesis
      by (simp add: x snd [unfolded x] msg [unfolded x] pr)
  qed
qed

text \<open>\<open>handler_ok\<close>: the handler answers a request exactly when its service has a response
  class, with an object of that class.\<close>

definition handler_ok :: "rpc_ctx \<Rightarrow> (('t, 'o) received \<Rightarrow> ('t, 'o) rpc_object option) \<Rightarrow>
    ('t, 'o) rpc_object \<Rightarrow> bool" where
  "handler_ok c process_request r \<longleftrightarrow>
     map_option ro_class (process_request (ro_class r, wire (ro_state r))) = response_class c (ro_class r)"

definition reply_msg :: "(int list \<times> 'o list \<Rightarrow> 'd) \<Rightarrow> ('d, 't) rpc_msg \<Rightarrow> ('t, 'o) rpc_object \<Rightarrow> ('d, 't) rpc_msg" where
  "reply_msg dumps m ob =
     m\<lparr>mg_data := fst (serialize_to_payload dumps (ro_state ob)),
       mg_tensors := snd (serialize_to_payload dumps (ro_state ob))\<rparr>"

lemma serve_request:
  assumes loads: "\<And>x. loads (dumps x) = x" and reg: "registry_ok c" "is_registered c (ro_class (snd x))"
    and h: "handler_ok c process_request (snd x)" and "m = request_msg dumps rand (at_seq c k) pos x"
    and "c' = c\<lparr>rc_rank := mg_server_id m\<rparr>"
  shows "serve dumps loads process_request c' (Some m) =
    Inr (case process_request (ro_class (snd x), wire (ro_state (snd x))) of
           None \<Rightarrow> [] | Some ob \<Rightarrow> [reply_msg dumps m ob])"
proof -
  note R = registryD [OF reg]
  have f: "mg_service_id m = service_of c (ro_class (snd x))" "mg_client_id m = rc_rank c"
    "mg_data m = fst (serialize_to_payload dumps (ro_state (snd x)))"
    "mg_tensors m = snd (serialize_to_payload dumps (ro_state (snd x)))"
    by (simp_all add: assms(5) request_msg_def)
  have recv: "recv_request loads c' (Some m) =
      Inr (c'\<lparr>rc_msg_seq := mg_msg_seq m\<rparr>, Some (ro_class (snd x), wire (ro_state (snd x))),
           mg_client_id m, mg_group_id m)"
    using R(2) wire_roundtrip [of loads dumps "ro_state (snd x)", OF loads]
    by (simp add: recv_request_def assms(6) get_service_property_def dict_get_def f Let_def)
  show ?thesis
  proof (cases "process_request (ro_class (snd x), wire (ro_state (snd x)))")
    case None
    then show ?thesis by (simp add: serve_def recv)
  next
    case (Some ob)
    then have "response_class c (ro_class (snd x)) = Some (ro_class ob)"
      using h by (simp add: handler_ok_def)
    then have "map_of (rc_res_service c) (ro_class ob) = Some (service_of c (ro_class (snd x)))"
      by (rule R(3))
    then show ?thesis using Some
      unfolding serve_def recv
      by (simp add: send_response_def response_service_id_def assms(6) reply_msg_def f
          case_prod_unfold flip: f(1))
  qed
qed

text \<open>One reply, and a batch of replies in any order.\<close>

definition recv_step :: "('d \<Rightarrow> int list \<times> 'o list) \<Rightarrow> rpc_ctx \<Rightarrow> (int \<times> nat) list \<Rightarrow>
    ('t, 'o) received option list \<Rightarrow> ('d, 't) rpc_msg \<Rightarrow> ('t, 'o) received option list res" where
  "recv_step loads c m2p all_res m =
     rbind (decode_response loads c m) (\<lambda>r.
     rbind (rassert (mg_client_id m = rc_rank c) DGLError) (\<lambda>_.
     rbind (dict_get m2p (mg_msg_seq m)) (\<lambda>pos.
     py_set_index all_res (int pos) (Some r))))"

lemma recv_loop_replies:
  assumes "\<And>p all. p \<in> set ps \<Longrightarrow> length all = L \<Longrightarrow> recv_step loads c m2p all (msg p) = Inr (all[p := Some (v p)])"
    and "length all = L"
  shows "recv_loop loads c m2p (length ps) all (map (\<lambda>p. Some (msg p)) ps) =
    Some (Inr (map (\<lambda>j. if j \<in> set ps then Some (v j) else all ! j) [0..<L]))"
  using assms
proof (induction ps arbitrary: all)
  case Nil
  then show ?case by (auto simp: map_nth)
next
  case (Cons p ps)
  have "recv_step loads c m2p all (msg p) = Inr (all[p := Some (v p)])" using Cons.prems by simp
  moreover have "recv_loop loads c m2p (length ps) (all[p := Some (v p)]) (map (\<lambda>p. Some (msg p)) ps) =
    Some (Inr (map (\<lambda>j. if j \<in> set ps then Some (v j) else all[p := Some (v p)] ! j) [0..<L]))"
    using Cons.prems by (intro Cons.IH) auto
  moreover have "map (\<lambda>j. if j \<in> set ps then Some (v j) else all[p := Some (v p)] ! j) [0..<L] =
      map (\<lambda>j. if j \<in> set (p # ps) then Some (v j) else all ! j) [0..<L]"
    using Cons.prems(2) by (auto simp: nth_list_update)
  ultimately show ?case unfolding recv_step_def by simp
qed

lemma recv_step_reply:
  assumes loads: "\<And>x. loads (dumps x) = x" and reg: "registry_ok c" "is_registered c (ro_class (snd x))"
    and h: "response_class c (ro_class (snd x)) = Some (ro_class ob)"
    and "m = request_msg dumps rand (at_seq c (int p)) p x"
    and "map_of m2p (rc_msg_seq c + int p) = Some p" and "p < length all"
  shows "recv_step loads (at_seq c n) m2p all (reply_msg dumps m ob) =
    Inr (all[p := Some (ro_class ob, wire (ro_state ob))])"
  using registryD(2) [OF reg] wire_roundtrip [of loads dumps "ro_state ob", OF loads] assms(6,7) h
  by (simp add: recv_step_def decode_response_def get_service_property_def dict_get_def reply_msg_def
      assms(5) request_msg_def py_set_index_def Let_def)

text \<open>What the servers send back for a list of requests.\<close>

definition server_replies :: "(int list \<times> 'o list \<Rightarrow> 'd) \<Rightarrow> ('d \<Rightarrow> int list \<times> 'o list) \<Rightarrow>
    (('t, 'o) received \<Rightarrow> ('t, 'o) rpc_object option) \<Rightarrow> rpc_ctx \<Rightarrow> ('d, 't) rpc_msg list \<Rightarrow>
    ('d, 't) rpc_msg list res" where
  "server_replies dumps loads process_request c msgs =
     rbind (rmap (\<lambda>m. serve dumps loads process_request (c\<lparr>rc_rank := mg_server_id m\<rparr>) (Some m)) msgs)
       (\<lambda>rs. Inr (concat rs))"

lemma concat_reply_lists:
  assumes "\<And>k. k < length xs \<Longrightarrow> rs ! k =
      (case g k of None \<Rightarrow> [] | Some ob \<Rightarrow> [f k ob])" and "length rs = length xs"
    and "\<And>k. k < length xs \<Longrightarrow> (g k = None) = (response_class c (ro_class (snd (xs ! k))) = None)"
  shows "concat rs = map (\<lambda>p. f p (the (g p))) (response_positions c 0 xs)"
proof -
  have "concat rs = map (\<lambda>p. f p (the (g p))) (response_positions c pos xs)"
    if "\<And>k. k < length xs \<Longrightarrow> rs ! k = (case g (pos + k) of None \<Rightarrow> [] | Some ob \<Rightarrow> [f (pos + k) ob])"
      "length rs = length xs"
      "\<And>k. k < length xs \<Longrightarrow> (g (pos + k) = None) = (response_class c (ro_class (snd (xs ! k))) = None)"
    for pos
    using that
  proof (induction xs arbitrary: rs pos)
    case (Cons x xs)
    obtain r rs' where rs: "rs = r # rs'" using Cons.prems(2) by (cases rs) auto
    have "concat rs' = map (\<lambda>p. f p (the (g p))) (response_positions c (Suc pos) xs)"
    proof (rule Cons.IH)
      fix k
      assume k: "k < length xs"
      have e: "Suc pos + k = pos + Suc k" by simp
      show "rs' ! k = (case g (Suc pos + k) of None \<Rightarrow> [] | Some ob \<Rightarrow> [f (Suc pos + k) ob])"
        "(g (Suc pos + k) = None) = (response_class c (ro_class (snd (xs ! k))) = None)"
        unfolding e using Cons.prems(1,3) [of "Suc k"] rs k by simp_all
    qed (use Cons.prems(2) rs in simp)
    then show ?case using Cons.prems(1,3) [of 0] rs by (auto split: option.splits)
  qed simp
  from this [of 0, unfolded add_0] show ?thesis using assms by blast
qed

text \<open>The common part of the two calls: the messages that were sent, answered by the servers and
  delivered in any order, are collected at the positions of their requests.\<close>

lemma replies_eq:
  fixes dumps :: "int list \<times> 'o list \<Rightarrow> 'd" and trs :: "(int \<times> ('t, 'o) rpc_object) list"
  assumes loads: "\<And>x. loads (dumps x) = x" and reg: "registry_ok c"
    and R: "\<forall>x \<in> set trs. is_registered c (ro_class (snd x)) \<and> handler_ok c process_request (snd x)"
  shows "server_replies dumps loads process_request c (request_msgs dumps rand c 0 trs) =
    Inr (map (\<lambda>p. reply_msg dumps (request_msgs dumps rand c 0 trs ! p)
           (the (process_request (ro_class (snd (trs ! p)), wire (ro_state (snd (trs ! p)))))))
      (response_positions c 0 trs))"
proof -
  let ?msgs = "request_msgs dumps rand c 0 trs"
  let ?g = "\<lambda>k. process_request (ro_class (snd (trs ! k)), wire (ro_state (snd (trs ! k))))"
  define r where "r k = (case ?g k of None \<Rightarrow> [] | Some ob \<Rightarrow> [reply_msg dumps (?msgs ! k) ob])" for k
  let ?h = "\<lambda>m. serve dumps loads process_request (c\<lparr>rc_rank := mg_server_id m\<rparr>) (Some m)"
  have one: "?h (?msgs ! k) = Inr (r k)" if "k < length trs" for k
    unfolding r_def using R that request_msgs_nth [OF that, of dumps rand c 0]
    by (intro serve_request [of loads dumps c "trs ! k", OF loads reg]) simp_all
  have "rmap ?h ?msgs = Inr (map r [0..<length trs])"
    unfolding rmap_Inr_conv using one by (simp add: list_all2_conv_all_nth)
  moreover have "(?g k = None) = (response_class c (ro_class (snd (trs ! k))) = None)"
    if "k < length trs" for k
    using R that by (metis handler_ok_def nth_mem option.map_disc_iff)
  then have "concat (map r [0..<length trs]) =
      map (\<lambda>p. reply_msg dumps (?msgs ! p) (the (?g p))) (response_positions c 0 trs)"
    by (intro concat_reply_lists) (simp_all add: r_def)
  ultimately show ?thesis by (simp add: server_replies_def)
qed

lemma collect_replies:
  fixes dumps :: "int list \<times> 'o list \<Rightarrow> 'd" and trs :: "(int \<times> ('t, 'o) rpc_object) list"
  assumes loads: "\<And>x. loads (dumps x) = x" and reg: "registry_ok c"
    and R: "\<forall>x \<in> set trs. is_registered c (ro_class (snd x)) \<and> handler_ok c process_request (snd x)"
    and net: "mset incoming = mset (map Some rs)"
    and rs: "server_replies dumps loads process_request c (request_msgs dumps rand c 0 trs) = Inr rs"
    and L: "\<forall>p \<in> set (response_positions c 0 trs). p < L"
  shows "recv_loop loads (at_seq c n) (map (\<lambda>p. (rc_msg_seq c + int p, p)) (response_positions c 0 trs))
      (length (response_positions c 0 trs)) (replicate L None) incoming =
    Some (Inr (map (\<lambda>p. if p \<in> set (response_positions c 0 trs)
      then map_option (\<lambda>ob. (ro_class ob, wire (ro_state ob)))
        (process_request (ro_class (snd (trs ! p)), wire (ro_state (snd (trs ! p)))))
      else None) [0..<L]))"
proof -
  let ?ps = "response_positions c 0 trs" and ?msgs = "request_msgs dumps rand c 0 trs"
  let ?g = "\<lambda>k. process_request (ro_class (snd (trs ! k)), wire (ro_state (snd (trs ! k))))"
  let ?m2p = "map (\<lambda>p. (rc_msg_seq c + int p, p)) ?ps"
  let ?msg = "\<lambda>p. reply_msg dumps (?msgs ! p) (the (?g p))"
  let ?v = "\<lambda>p. (ro_class (the (?g p)), wire (ro_state (the (?g p))))"
  have "rs = map ?msg ?ps" 
    using rs replies_eq [of loads dumps c trs process_request rand, OF loads reg R] by simp
  then have "mset incoming = mset (map (\<lambda>p. Some (?msg p)) ?ps)" using net by (simp add: comp_def)
  then obtain qs where qs: "incoming = map (\<lambda>p. Some (?msg p)) qs" "mset qs = mset ?ps"
    by (rule map_perm_split)
  have set: "set qs = set ?ps" using qs(2) by (rule mset_eq_setD)
  have in_ps: "p < length trs \<and> response_class c (ro_class (snd (trs ! p))) \<noteq> None" if "p \<in> set ?ps" for p
    using that by (auto simp: set_response_positions)
  have some: "\<exists>ob. ?g p = Some ob \<and> response_class c (ro_class (snd (trs ! p))) = Some (ro_class ob)"
    if "p \<in> set ?ps" for p
    using in_ps [OF that] R nth_mem [of p trs] by (fastforce simp: handler_ok_def)
  have "map_of ?m2p (rc_msg_seq c + int p) = Some p" if "p \<in> set ?ps" for p
    using that distinct_response_positions [of c 0 trs]
    by (intro map_of_is_SomeI) (auto simp: distinct_map inj_on_def)
  then have step: "recv_step loads (at_seq c n) ?m2p all (?msg p) = Inr (all[p := Some (?v p)])"
    if "p \<in> set qs" "length all = L" for p all
  proof -
    have p: "p \<in> set ?ps" using that(1) set by simp
    note q = in_ps [OF p]
    from some [OF p] obtain ob where "?g p = Some ob"
      "response_class c (ro_class (snd (trs ! p))) = Some (ro_class ob)" by blast
    then show ?thesis
      using p q R L that(2) nth_mem [of p trs] request_msgs_nth [of p trs dumps rand c 0]
        \<open>\<And>p. p \<in> set ?ps \<Longrightarrow> map_of ?m2p (rc_msg_seq c + int p) = Some p\<close> [OF p]
      by (intro recv_step_reply [of loads dumps c "trs ! p" _ _ rand, OF loads reg]) auto
  qed
  from recv_loop_replies [of qs L loads "at_seq c n" ?m2p ?msg ?v "replicate L None", OF step]
  have "recv_loop loads (at_seq c n) ?m2p (length qs) (replicate L None) incoming =
    Some (Inr (map (\<lambda>j. if j \<in> set qs then Some (?v j) else replicate L None ! j) [0..<L]))"
    unfolding qs(1) by simp
  moreover have "length qs = length ?ps" using qs(2) by (rule mset_eq_length)
  moreover have "map (\<lambda>j. if j \<in> set qs then Some (?v j) else replicate L None ! j) [0..<L] =
      map (\<lambda>p. if p \<in> set ?ps then map_option (\<lambda>ob. (ro_class ob, wire (ro_state ob))) (?g p) else None) [0..<L]"
  proof (rule map_cong [OF refl])
    fix j
    assume "j \<in> set [0..<L]"
    then show "(if j \<in> set qs then Some (?v j) else replicate L None ! j) =
        (if j \<in> set ?ps then map_option (\<lambda>ob. (ro_class ob, wire (ro_state ob))) (?g j) else None)"
      using set some [of j] by auto
  qed
  ultimately show ?thesis by simp
qed

section \<open>Properties\<close>

definition delivers :: "(int list \<times> 'o list \<Rightarrow> 'd) \<Rightarrow> ('d \<Rightarrow> int list \<times> 'o list) \<Rightarrow>
    (('t, 'o) received \<Rightarrow> ('t, 'o) rpc_object option) \<Rightarrow> rpc_ctx \<Rightarrow>
    (('d, 't) rpc_msg list \<Rightarrow> ('d, 't) rpc_msg option list) \<Rightarrow> ('d, 't) rpc_msg list \<Rightarrow> bool" where
  "delivers dumps loads process_request c network msgs \<longleftrightarrow>
     (case server_replies dumps loads process_request c msgs of
        Inl e \<Rightarrow> False | Inr rs \<Rightarrow> mset (network msgs) = mset (map Some rs))"

definition call_result :: "(('t, 'o) received \<Rightarrow> ('t, 'o) rpc_object option) \<Rightarrow>
    int \<times> ('t, 'o) rpc_object \<Rightarrow> ('t, 'o) received option" where
  "call_result process_request x =
     map_option (\<lambda>ob. (ro_class ob, wire (ro_state ob)))
       (process_request (ro_class (snd x), wire (ro_state (snd x))))"

lemma call_result_None:
  assumes "handler_ok c h (snd x)" and "response_class c (ro_class (snd x)) = None"
  shows "call_result h x = None"
  using assms by (simp add: handler_ok_def call_result_def)

lemma collected_results:
  assumes "\<forall>x \<in> set trs. handler_ok c h (snd x)" and "L \<le> length trs"
  shows "map (\<lambda>p. if p \<in> set (response_positions c 0 trs)
      then map_option (\<lambda>ob. (ro_class ob, wire (ro_state ob))) (h (ro_class (snd (trs ! p)), wire (ro_state (snd (trs ! p)))))
      else None) [0..<L] = take L (map (call_result h) trs)"
proof (rule nth_equalityI)
  fix p
  assume "p < length (map (\<lambda>p. if p \<in> set (response_positions c 0 trs)
      then map_option (\<lambda>ob. (ro_class ob, wire (ro_state ob))) (h (ro_class (snd (trs ! p)), wire (ro_state (snd (trs ! p)))))
      else None) [0..<L])"
  then have p: "p < L" "p < length trs" using assms(2) by auto
  show "map (\<lambda>p. if p \<in> set (response_positions c 0 trs)
      then map_option (\<lambda>ob. (ro_class ob, wire (ro_state ob))) (h (ro_class (snd (trs ! p)), wire (ro_state (snd (trs ! p)))))
      else None) [0..<L] ! p = take L (map (call_result h) trs) ! p"
  proof (cases "response_class c (ro_class (snd (trs ! p)))")
    case None
    then show ?thesis using p assms(1) nth_mem [OF p(2)] call_result_None [of c h "trs ! p"]
      by (simp add: set_response_positions)
  next
    case (Some r)
    then show ?thesis using p by (simp add: set_response_positions call_result_def)
  qed
qed (use assms(2) in simp)

text \<open>C33. \<open>remote_call\<close> gives every request its own response, at the request's position, with
  \<open>None\<close> for a request whose service has no response: whichever server of a machine each request
  goes to and in whatever order the responses arrive.\<close>

theorem remote_call_in_order:
  assumes "\<And>x. loads (dumps x) = x" and "registry_ok c"
    and "\<forall>x \<in> set trs. is_registered c (ro_class (snd x)) \<and> handler_ok c h (snd x)"
    and "delivers dumps loads h c network (request_msgs dumps rand c 0 trs)"
  shows "remote_call dumps loads rand c trs network = Some (Inr (map (call_result h) trs))"
proof -
  obtain rs where rs: "server_replies dumps loads h c (request_msgs dumps rand c 0 trs) = Inr rs"
    "mset (network (request_msgs dumps rand c 0 trs)) = mset (map Some rs)"
    using assms(4) by (auto simp: delivers_def split: sum.splits)
  have "\<forall>p \<in> set (response_positions c 0 trs). p < length trs" by (auto simp: set_response_positions)
  from collect_replies [of loads dumps c trs h "network (request_msgs dumps rand c 0 trs)" rs rand,
      OF assms(1,2,3) rs(2,1) this] collected_results [of trs c h "length trs"] assms(3)
  show ?thesis
    using send_loop_eq [OF assms(2), of trs "[]" dumps rand 0 0]
    by (simp add: remote_call_def)
qed

text \<open>\<open>remote_call_to_machine\<close> gives the responses in request order as well, but only up to
  the last request that has one: its list is shorter than the list of requests when requests without
  response come last, and it raises a \<open>ValueError\<close> when no request has a response.\<close>

theorem remote_call_to_machine_prefix:
  assumes "\<And>x. loads (dumps x) = x" and "registry_ok c"
    and "\<forall>x \<in> set trs. is_registered c (ro_class (snd x)) \<and> handler_ok c h (snd x)"
    and "delivers dumps loads h c network (request_msgs dumps rand c 0 trs)"
  shows "remote_call_to_machine dumps loads rand c trs network =
    (if response_positions c 0 trs = [] then Some (Inl ValueError)
     else Some (Inr (take (Max (set (response_positions c 0 trs)) + 1) (map (call_result h) trs))))"
proof (cases "response_positions c 0 trs = []")
  case True
  then show ?thesis
    using send_loop_eq [OF assms(2), of trs "[]" dumps rand 0 0] assms(3)
    by (simp add: remote_call_to_machine_def send_requests_to_machine_def recv_responses_def)
next
  case False
  obtain rs where rs: "server_replies dumps loads h c (request_msgs dumps rand c 0 trs) = Inr rs"
    "mset (network (request_msgs dumps rand c 0 trs)) = mset (map Some rs)"
    using assms(4) by (auto simp: delivers_def split: sum.splits)
  let ?ps = "response_positions c 0 trs"
  define L where "L = Max (set ?ps) + 1"
  have "Max (set ?ps) \<in> set ?ps" using False by (intro Max_in) simp_all
  then have len: "L \<le> length trs" by (auto simp: set_response_positions L_def)
  have "\<forall>p \<in> set ?ps. p < L" by (simp add: less_Suc_eq_le L_def)
  from collect_replies [of loads dumps c trs h "network (request_msgs dumps rand c 0 trs)" rs rand,
        OF assms(1,2,3) rs(2,1) this] collected_results [of trs c h L] len assms(3)
  have run: "recv_loop loads (at_seq c (int (length trs)))
      (map (\<lambda>p. (rc_msg_seq c + int p, p)) ?ps) (length ?ps) (replicate L None)
      (network (request_msgs dumps rand c 0 trs)) = Some (Inr (take L (map (call_result h) trs)))"
    by simp
  have "Max (set (map snd (map (\<lambda>p. (rc_msg_seq c + int p, p)) ?ps))) + 1 = L"
    by (simp add: L_def image_image)
  moreover have "map (\<lambda>p. (rc_msg_seq c + int p, p)) ?ps \<noteq> []" using False by simp
  moreover have "send_requests_to_machine dumps rand c trs =
      Inr (at_seq c (int (length trs)), request_msgs dumps rand c 0 trs,
        map (\<lambda>p. (rc_msg_seq c + int p, p)) ?ps)"
    using send_loop_eq [OF assms(2), of trs "[]" dumps rand 0 0] assms(3)
    by (simp add: send_requests_to_machine_def)
  ultimately show ?thesis
    using run False
    by (simp only: remote_call_to_machine_def recv_responses_def L_def [symmetric] length_map
        sum.case prod.case if_False)
qed

definition example_rpc :: rpc_ctx where
  "example_rpc = register_service 2 ''Push'' None (register_service 1 ''Pull'' (Some ''PullRes'')
     \<lparr>rc_msg_seq = 40, rc_rank = 3, rc_group_id = 0, rc_num_server_per_machine = 2,
      rc_req_service = [], rc_res_service = [], rc_properties = []\<rparr>)"

definition example_calls :: "(int \<times> (int, string) rpc_object) list" where
  "example_calls =
     [(1, \<lparr>ro_class = ''Pull'', ro_state = PTuple [Obj ''h'', Tensor 5]\<rparr>),
      (0, \<lparr>ro_class = ''Pull'', ro_state = PTuple [Obj ''h'', Tensor 6]\<rparr>),
      (1, \<lparr>ro_class = ''Push'', ro_state = PSingle (Obj ''x'')\<rparr>)]"

fun example_handler :: "(int, string) received \<Rightarrow> (int, string) rpc_object option" where
  "example_handler (cls, st) =
     (if cls = ''Pull'' then
        (case st of PTuple [_, Some (Tensor t)] \<Rightarrow>
           Some \<lparr>ro_class = ''PullRes'', ro_state = PTuple [Tensor (t * t), Obj ''ok'']\<rparr>
         | _ \<Rightarrow> Some \<lparr>ro_class = ''PullRes'', ro_state = PTuple []\<rparr>)
      else None)"

definition example_network :: "(int list \<times> string list, int) rpc_msg list \<Rightarrow>
    (int list \<times> string list, int) rpc_msg option list" where
  "example_network msgs =
     (case server_replies (\<lambda>x. x) (\<lambda>x. x) example_handler example_rpc msgs of
        Inl e \<Rightarrow> [] | Inr rs \<Rightarrow> rev (map Some rs))"

lemma example_rpc_ok:
  "registry_ok example_rpc"
  "\<forall>x \<in> set example_calls. is_registered example_rpc (ro_class (snd x)) \<and>
     handler_ok example_rpc example_handler (snd x)"
  by (simp_all add: registry_ok_def is_registered_def handler_ok_def example_rpc_def example_calls_def
      register_service_def response_class_def service_of_def wire_def)

lemma example_delivers:
  "delivers (\<lambda>x. x) (\<lambda>x. x) example_handler example_rpc example_network
     (request_msgs (\<lambda>x. x) (\<lambda>_ lo _. lo) example_rpc 0 example_calls)"
  using replies_eq [of "\<lambda>x. x" "\<lambda>x. x" example_rpc example_calls example_handler "\<lambda>_ lo _. lo"] example_rpc_ok
  by (simp add: delivers_def example_network_def)

theorem remote_call_in_order_witness:
  "remote_call (\<lambda>x. x) (\<lambda>x. x) (\<lambda>_ lo _. lo) example_rpc example_calls example_network =
    Some (Inr [Some (''PullRes'', PTuple [Some (Tensor 25), Some (Obj ''ok'')]),
               Some (''PullRes'', PTuple [Some (Tensor 36), Some (Obj ''ok'')]), None])"
  using remote_call_in_order [of "\<lambda>x. x" "\<lambda>x. x", OF _ example_rpc_ok example_delivers]
  by (simp add: example_calls_def call_result_def wire_def)

theorem remote_call_to_machine_prefix_witness:
  "remote_call_to_machine (\<lambda>x. x) (\<lambda>x. x) (\<lambda>_ lo _. lo) example_rpc example_calls example_network =
    Some (Inr [Some (''PullRes'', PTuple [Some (Tensor 25), Some (Obj ''ok'')]),
               Some (''PullRes'', PTuple [Some (Tensor 36), Some (Obj ''ok'')])])"
  using remote_call_to_machine_prefix [of "\<lambda>x. x" "\<lambda>x. x", OF _ example_rpc_ok example_delivers]
  by (simp add: example_calls_def call_result_def wire_def example_rpc_def register_service_def
      response_class_def service_of_def)

end
