(* ===== verification/KVServer.thy ===== *)
theory KVServer
  imports PartitionPolicy
begin

text \<open>
  \<^verbatim>\<open>python/dgl/distributed/kvstore.py\<close>, the server: the object \<open>KVServer\<close>, the default
  handlers, and \<open>process_request\<close> of every request class. The servers of a machine share their
  tensors: a tensor is a cell of the machine's \<open>memory\<close> and a data store holds views of cells, so
  that a write through one server's view is seen through the others'.

  Functions the user registers (UDFs) are values of \<open>handler\<close> and \<open>nat\<close> tokens, whose meaning
  is in the record \<open>udfs\<close>, an argument. An exception ends the server process, so the state an
  operation had reached when it raised is not part of the result.
\<close>

section \<open>Memory\<close>

record 'v tensor =
  tn_dtype :: string
  tn_dims :: "int list"
  tn_rows :: "'v list"

definition tn_shape :: "'v tensor \<Rightarrow> int list" where
  "tn_shape t = int (length (tn_rows t)) # tn_dims t"

record view =
  vw_addr :: nat
  vw_shape :: "int list"
  vw_dtype :: string
  vw_own :: bool

record 'v memory =
  mm_cells :: "(nat \<times> 'v list) list"
  mm_names :: "(string \<times> nat) list"
  mm_next :: nat

text \<open>\<open>empty_shared_mem\<close>: creating a name that exists opens its segment again; opening a name
  that does not exist fails. A segment is read through views of the shape it was made with, which
  is the shape every caller passes.\<close>

definition shm_create :: "string \<Rightarrow> int list \<Rightarrow> string \<Rightarrow> 'v memory \<Rightarrow> view \<times> 'v memory" where
  "shm_create name shape dtype m =
     (case map_of (mm_names m) name of
        Some a \<Rightarrow> (\<lparr>vw_addr = a, vw_shape = shape, vw_dtype = dtype, vw_own = True\<rparr>, m)
      | None \<Rightarrow> (\<lparr>vw_addr = mm_next m, vw_shape = shape, vw_dtype = dtype, vw_own = True\<rparr>,
                 m\<lparr>mm_names := AList.update name (mm_next m) (mm_names m), mm_next := mm_next m + 1\<rparr>))"

definition shm_open :: "string \<Rightarrow> int list \<Rightarrow> string \<Rightarrow> 'v memory \<Rightarrow> view res" where
  "shm_open name shape dtype m =
     (case map_of (mm_names m) name of
        Some a \<Rightarrow> Inr \<lparr>vw_addr = a, vw_shape = shape, vw_dtype = dtype, vw_own = False\<rparr>
      | None \<Rightarrow> Inl DGLError)"

text \<open>When the view that created a segment is dropped, its name is unlinked; the cell stays for
  the processes that mapped it.\<close>

definition shm_drop :: "string \<Rightarrow> view \<Rightarrow> 'v memory \<Rightarrow> 'v memory" where
  "shm_drop name v m = (if vw_own v then m\<lparr>mm_names := AList.delete name (mm_names m)\<rparr> else m)"

definition view_rows :: "'v memory \<Rightarrow> view \<Rightarrow> 'v list" where
  "view_rows m v = (case map_of (mm_cells m) (vw_addr v) of None \<Rightarrow> [] | Some rows \<Rightarrow> rows)"

definition write_rows :: "view \<Rightarrow> 'v list \<Rightarrow> 'v memory \<Rightarrow> 'v memory" where
  "write_rows v rows m = m\<lparr>mm_cells := AList.update (vw_addr v) rows (mm_cells m)\<rparr>"

definition kvdata_name :: "string \<Rightarrow> string" where
  "kvdata_name name = name @ ''-kvdata-''"

section \<open>Handlers\<close>

type_synonym data_store = "(string \<times> view) list"

datatype handler = Default_handler | Udf nat

record 'v udfs =
  ud_pull :: "nat \<Rightarrow> 'v memory \<Rightarrow> data_store \<Rightarrow> string \<Rightarrow> int list \<Rightarrow> 'v list res"
  ud_push :: "nat \<Rightarrow> 'v memory \<Rightarrow> data_store \<Rightarrow> string \<Rightarrow> int list \<Rightarrow> 'v list \<Rightarrow> 'v memory res"
  ud_init :: "nat \<Rightarrow> int list \<Rightarrow> string \<Rightarrow> 'v tensor"
  ud_nonzero :: "'v \<Rightarrow> int"

definition default_pull_handler :: "'v memory \<Rightarrow> data_store \<Rightarrow> string \<Rightarrow> int list \<Rightarrow> 'v list res" where
  "default_pull_handler m target name ids =
     rbind (dict_get target name) (\<lambda>v. take_rows (view_rows m v) ids)"

definition default_push_handler ::
  "'v memory \<Rightarrow> data_store \<Rightarrow> string \<Rightarrow> int list \<Rightarrow> 'v list \<Rightarrow> 'v memory res" where
  "default_push_handler m target name ids data =
     rbind (dict_get target name) (\<lambda>v.
     rbind (put_rows (view_rows m v) ids data) (\<lambda>rows. Inr (write_rows v rows m)))"

definition run_pull :: "'v udfs \<Rightarrow> handler \<Rightarrow> 'v memory \<Rightarrow> data_store \<Rightarrow> string \<Rightarrow> int list \<Rightarrow> 'v list res" where
  "run_pull U h = (case h of Default_handler \<Rightarrow> default_pull_handler | Udf k \<Rightarrow> ud_pull U k)"

definition run_push ::
  "'v udfs \<Rightarrow> handler \<Rightarrow> 'v memory \<Rightarrow> data_store \<Rightarrow> string \<Rightarrow> int list \<Rightarrow> 'v list \<Rightarrow> 'v memory res" where
  "run_push U h = (case h of Default_handler \<Rightarrow> default_push_handler | Udf k \<Rightarrow> ud_push U k)"

section \<open>The server object\<close>

text \<open>A namebook gives for a server ID the machine ID, the address, the port and the number of
  servers on the machine.\<close>

type_synonym namebook = "(int \<times> (int \<times> string \<times> int \<times> int)) list"

record kv_server =
  ks_server_id :: int
  ks_machine_id :: int
  ks_group_count :: int
  ks_part_id :: int
  ks_num_clients :: int
  ks_data_store :: data_store
  ks_orig_data :: "string list"
  ks_policy_set :: "partition_policy list"
  ks_part_policy :: "(string \<times> partition_policy) list"
  ks_push_handlers :: "(string \<times> handler) list"
  ks_pull_handlers :: "(string \<times> handler) list"
  ks_barrier_count :: "(int \<times> (string \<times> int) list) list"

definition kv_server_init :: "int \<Rightarrow> bool \<Rightarrow> namebook res \<Rightarrow> int \<Rightarrow> int \<Rightarrow> kv_server res" where
  "kv_server_init server_id config_exists ip_config num_servers num_clients =
     rbind (rassert (0 \<le> server_id) AssertionError) (\<lambda>_.
     rbind (rassert (0 < num_servers) AssertionError) (\<lambda>_.
     rbind (rassert config_exists AssertionError) (\<lambda>_.
     rbind (rassert (0 \<le> num_clients) AssertionError) (\<lambda>_.
     rbind ip_config (\<lambda>server_namebook.
     case map_of server_namebook server_id of
       None \<Rightarrow> Inl AssertionError
     | Some (machine_id, _, _, group_count) \<Rightarrow>
         Inr \<lparr>ks_server_id = server_id, ks_machine_id = machine_id, ks_group_count = group_count,
              ks_part_id = machine_id, ks_num_clients = num_clients, ks_data_store = [],
              ks_orig_data = [], ks_policy_set = [], ks_part_policy = [], ks_push_handlers = [],
              ks_pull_handlers = [], ks_barrier_count = []\<rparr>)))))"

definition kv_is_backup_server :: "kv_server \<Rightarrow> bool" where
  "kv_is_backup_server s = (\<not> ks_server_id s mod ks_group_count s = 0)"

definition kv_add_part_policy :: "partition_policy \<Rightarrow> kv_server \<Rightarrow> kv_server" where
  "kv_add_part_policy p s = s\<lparr>ks_policy_set := ks_policy_set s @ [p]\<rparr>"

definition kv_find_policy :: "kv_server \<Rightarrow> string \<Rightarrow> partition_policy res" where
  "kv_find_policy s policy_str =
     (case find (\<lambda>p. policy_str = pp_policy_str p) (ks_policy_set s) of
        None \<Rightarrow> Inl RuntimeError | Some p \<Rightarrow> Inr p)"

definition set_default_handlers :: "string \<Rightarrow> kv_server \<Rightarrow> kv_server" where
  "set_default_handlers name s =
     s\<lparr>ks_pull_handlers := AList.update name Default_handler (ks_pull_handlers s),
       ks_push_handlers := AList.update name Default_handler (ks_push_handlers s)\<rparr>"

definition kv_server_init_data :: "string \<Rightarrow> string \<Rightarrow> 'v tensor option \<Rightarrow> kv_server \<times> 'v memory \<Rightarrow>
    (kv_server \<times> 'v memory) res" where
  "kv_server_init_data name policy_str data_tensor st =
     (case st of (s, m) \<Rightarrow>
      rbind (rassert (0 < length name) AssertionError) (\<lambda>_.
      rbind (rassert (name \<notin> fst ` set (ks_data_store s)) RuntimeError) (\<lambda>_.
      rbind (kv_find_policy s policy_str) (\<lambda>p.
      let s = s\<lparr>ks_part_policy := AList.update name p (ks_part_policy s)\<rparr> in
      case data_tensor of
        None \<Rightarrow> Inr (set_default_handlers name s, m)
      | Some t \<Rightarrow>
          case shm_create (kvdata_name name) (tn_shape t) (tn_dtype t) m of (v, m) \<Rightarrow>
          let s = s\<lparr>ks_data_store := AList.update name v (ks_data_store s)\<rparr>;
              m = write_rows v (tn_rows t) m in
          rbind (pp_get_part_size p) (\<lambda>n.
          rbind (rassert (n = int (length (tn_rows t))) AssertionError) (\<lambda>_.
          Inr (set_default_handlers name s, m)))))))"

definition kv_count_local_nonzero :: "'v udfs \<Rightarrow> string \<Rightarrow> kv_server \<times> 'v memory \<Rightarrow> int res" where
  "kv_count_local_nonzero U name st =
     (case st of (s, m) \<Rightarrow>
      rbind (rassert (0 < length name) AssertionError) (\<lambda>_.
      rbind (rassert (name \<in> fst ` set (ks_data_store s)) RuntimeError) (\<lambda>_.
      rbind (dict_get (ks_data_store s) name) (\<lambda>v.
      Inr (sum_list (map (ud_nonzero U) (view_rows m v)))))))"

section \<open>Requests\<close>

datatype 'v kv_response =
    PullResponse int "'v list"
  | MsgResponse string
  | SharedDataResponse "(string \<times> int list \<times> string \<times> string) list"
  | PartShapeResponse "int list"
  | NonzeroResponse int
  | NoResponse
  | ResponseList "(int \<times> string) list"

definition INIT_MSG :: string where "INIT_MSG = ''Init''"
definition BARRIER_MSG :: string where "BARRIER_MSG = ''Barrier''"
definition REGISTER_PULL_MSG :: string where "REGISTER_PULL_MSG = ''Register_Pull''"
definition REGISTER_PUSH_MSG :: string where "REGISTER_PUSH_MSG = ''Register_Push''"
definition GET_SHARED_MSG :: string where "GET_SHARED_MSG = ''Get_Shared''"
definition SEND_META_TO_BACKUP_MSG :: string where "SEND_META_TO_BACKUP_MSG = ''Send_Meta_TO_Backup''"
definition DELETE_MSG :: string where "DELETE_MSG = ''Delete_Data''"

definition data_types :: "string list" where
  "data_types = [''bfloat16'', ''float16'', ''float32'', ''float64'', ''uint8'', ''int8'', ''int16'',
     ''int32'', ''int64'', ''bool'']"

type_synonym 'v kv_state = "kv_server \<times> 'v memory"

definition pull_process :: "'v udfs \<Rightarrow> string \<Rightarrow> int list \<Rightarrow> 'v kv_state \<Rightarrow> ('v kv_state \<times> 'v kv_response) res" where
  "pull_process U name ids st =
     (case st of (s, m) \<Rightarrow>
      rbind (rassert (name \<in> fst ` set (ks_part_policy s)) RuntimeError) (\<lambda>_.
      rbind (rassert (name \<in> fst ` set (ks_data_store s)) RuntimeError) (\<lambda>_.
      rbind (dict_get (ks_part_policy s) name) (\<lambda>p.
      rbind (pp_to_local p ids) (\<lambda>local_id.
      rbind (dict_get (ks_pull_handlers s) name) (\<lambda>h.
      rbind (run_pull U h m (ks_data_store s) name local_id) (\<lambda>data.
      Inr (st, PullResponse (ks_server_id s) data))))))))"

definition push_process ::
  "'v udfs \<Rightarrow> string \<Rightarrow> int list \<Rightarrow> 'v list \<Rightarrow> 'v kv_state \<Rightarrow> ('v kv_state \<times> 'v kv_response) res" where
  "push_process U name ids data st =
     (case st of (s, m) \<Rightarrow>
      rbind (rassert (name \<in> fst ` set (ks_part_policy s)) RuntimeError) (\<lambda>_.
      rbind (rassert (name \<in> fst ` set (ks_data_store s)) RuntimeError) (\<lambda>_.
      rbind (dict_get (ks_part_policy s) name) (\<lambda>p.
      rbind (pp_to_local p ids) (\<lambda>local_id.
      rbind (dict_get (ks_push_handlers s) name) (\<lambda>h.
      rbind (run_push U h m (ks_data_store s) name local_id data) (\<lambda>m'.
      Inr ((s, m'), NoResponse))))))))"

text \<open>The checks of a repeated request against what the server has.\<close>

definition check_meta :: "string \<Rightarrow> int list \<Rightarrow> string \<Rightarrow> string \<Rightarrow> kv_server \<Rightarrow> unit res" where
  "check_meta name shape dtype policy_str s =
     rbind (dict_get (ks_data_store s) name) (\<lambda>v.
     rbind (rassert (vw_shape v = shape) AssertionError) (\<lambda>_.
     rbind (rassert (vw_dtype v = dtype) AssertionError) (\<lambda>_.
     rbind (dict_get (ks_part_policy s) name) (\<lambda>p.
     rassert (pp_policy_str p = policy_str) AssertionError))))"

definition init_data_process :: "'v udfs \<Rightarrow> string \<Rightarrow> int list \<Rightarrow> string \<Rightarrow> string \<Rightarrow> nat \<Rightarrow> 'v kv_state \<Rightarrow>
    ('v kv_state \<times> 'v kv_response) res" where
  "init_data_process U name shape dtype policy_str init_func st =
     (case st of (s, m) \<Rightarrow>
      rbind (rassert (dtype \<in> set data_types) KeyError) (\<lambda>_.
      rbind (if name \<in> fst ` set (ks_data_store s)
             then rbind (check_meta name shape dtype policy_str s) (\<lambda>_. Inr st)
             else if \<not> kv_is_backup_server s
             then kv_server_init_data name policy_str (Some (ud_init U init_func shape dtype)) st
             else kv_server_init_data name policy_str None st) (\<lambda>st'.
      Inr (st', MsgResponse INIT_MSG))))"

definition barrier_process :: "(int \<times> (string \<times> (int \<times> int) list) list) list \<Rightarrow> string \<Rightarrow> int \<Rightarrow>
    'v kv_state \<Rightarrow> ('v kv_state \<times> 'v kv_response) res" where
  "barrier_process roles role group_id st =
     (case st of (s, m) \<Rightarrow>
      rbind (dict_get roles group_id) (\<lambda>tbl.
      rbind (dict_get (ks_barrier_count s) group_id) (\<lambda>barrier_count.
      rbind (dict_get barrier_count role) (\<lambda>count.
      rbind (dict_get tbl role) (\<lambda>clients.
      let full = (count + 1 = int (length clients));
          barrier_count' = AList.update role (if full then 0 else count + 1) barrier_count;
          s' = s\<lparr>ks_barrier_count := AList.update group_id barrier_count' (ks_barrier_count s)\<rparr>
      in Inr ((s', m), if full then ResponseList (map (\<lambda>(client_id, _). (client_id, BARRIER_MSG)) clients)
                       else NoResponse))))))"

definition register_pull_process :: "string \<Rightarrow> handler \<Rightarrow> 'v kv_state \<Rightarrow> ('v kv_state \<times> 'v kv_response) res" where
  "register_pull_process name f st =
     (case st of (s, m) \<Rightarrow>
      Inr ((s\<lparr>ks_pull_handlers := AList.update name f (ks_pull_handlers s)\<rparr>, m), MsgResponse REGISTER_PULL_MSG))"

definition register_push_process :: "string \<Rightarrow> handler \<Rightarrow> 'v kv_state \<Rightarrow> ('v kv_state \<times> 'v kv_response) res" where
  "register_push_process name f st =
     (case st of (s, m) \<Rightarrow>
      Inr ((s\<lparr>ks_push_handlers := AList.update name f (ks_push_handlers s)\<rparr>, m), MsgResponse REGISTER_PUSH_MSG))"

definition get_shared_process :: "string \<Rightarrow> 'v kv_state \<Rightarrow> ('v kv_state \<times> 'v kv_response) res" where
  "get_shared_process msg st =
     (case st of (s, m) \<Rightarrow>
      rbind (rassert (msg = GET_SHARED_MSG) AssertionError) (\<lambda>_.
      rbind (rmap (\<lambda>(name, v). rbind (dict_get (ks_part_policy s) name) (\<lambda>p.
               Inr (name, vw_shape v, vw_dtype v, pp_policy_str p))) (ks_data_store s)) (\<lambda>meta.
      Inr (st, SharedDataResponse meta))))"

definition get_part_shape_process :: "string \<Rightarrow> 'v kv_state \<Rightarrow> ('v kv_state \<times> 'v kv_response) res" where
  "get_part_shape_process name st =
     (case st of (s, m) \<Rightarrow>
      rbind (rassert (name \<in> fst ` set (ks_data_store s)) RuntimeError) (\<lambda>_.
      rbind (dict_get (ks_data_store s) name) (\<lambda>v. Inr (st, PartShapeResponse (vw_shape v)))))"

definition send_meta_process :: "string \<Rightarrow> string \<Rightarrow> int list \<Rightarrow> string \<Rightarrow> handler \<Rightarrow> handler \<Rightarrow> 'v kv_state \<Rightarrow>
    ('v kv_state \<times> 'v kv_response) res" where
  "send_meta_process name dtype shape policy_str pull_handler push_handler st =
     (case st of (s, m) \<Rightarrow>
      rbind (rassert (kv_is_backup_server s) AssertionError) (\<lambda>_.
      rbind (if name \<notin> fst ` set (ks_data_store s)
             then rbind (shm_open (kvdata_name name) shape dtype m) (\<lambda>v.
                  rbind (kv_find_policy s policy_str) (\<lambda>p.
                  Inr (s\<lparr>ks_data_store := AList.update name v (ks_data_store s),
                         ks_part_policy := AList.update name p (ks_part_policy s),
                         ks_pull_handlers := AList.update name pull_handler (ks_pull_handlers s),
                         ks_push_handlers := AList.update name push_handler (ks_push_handlers s)\<rparr>, m)))
             else rbind (check_meta name shape dtype policy_str s) (\<lambda>_.
                  rbind (dict_get (ks_pull_handlers s) name) (\<lambda>h.
                  rbind (rassert (h = pull_handler) AssertionError) (\<lambda>_.
                  rbind (dict_get (ks_push_handlers s) name) (\<lambda>h.
                  rbind (rassert (h = push_handler) AssertionError) (\<lambda>_.
                  Inr st)))))) (\<lambda>st'.
      Inr (st', MsgResponse SEND_META_TO_BACKUP_MSG))))"

definition delete_data_process :: "string \<Rightarrow> 'v kv_state \<Rightarrow> ('v kv_state \<times> 'v kv_response) res" where
  "delete_data_process name st =
     (case st of (s, m) \<Rightarrow>
      rbind (case map_of (ks_data_store s) name of
               None \<Rightarrow> Inr st
             | Some v \<Rightarrow>
                 rbind (dict_del (ks_data_store s) name) (\<lambda>store.
                 rbind (dict_del (ks_part_policy s) name) (\<lambda>policy.
                 rbind (dict_del (ks_push_handlers s) name) (\<lambda>push.
                 rbind (dict_del (ks_pull_handlers s) name) (\<lambda>pull.
                 Inr (s\<lparr>ks_data_store := store, ks_part_policy := policy,
                        ks_push_handlers := push, ks_pull_handlers := pull\<rparr>,
                      shm_drop (kvdata_name name) v m)))))) (\<lambda>st'.
      Inr (st', MsgResponse DELETE_MSG)))"

definition count_nonzero_process :: "'v udfs \<Rightarrow> string \<Rightarrow> 'v kv_state \<Rightarrow> ('v kv_state \<times> 'v kv_response) res" where
  "count_nonzero_process U name st =
     rbind (kv_count_local_nonzero U name st) (\<lambda>n. Inr (st, NonzeroResponse n))"

datatype 'v kv_request =
    PullRequest string "int list"
  | PushRequest string "int list" "'v list"
  | InitDataRequest string "int list" string string nat
  | BarrierRequest string int
  | RegisterPullHandlerRequest string handler
  | RegisterPushHandlerRequest string handler
  | GetSharedDataRequest string
  | GetPartShapeRequest string
  | SendMetaToBackupRequest string string "int list" string handler handler
  | DeleteDataRequest string
  | CountLocalNonzeroRequest string

fun process_request :: "'v udfs \<Rightarrow> (int \<times> (string \<times> (int \<times> int) list) list) list \<Rightarrow> 'v kv_request \<Rightarrow>
    'v kv_state \<Rightarrow> ('v kv_state \<times> 'v kv_response) res" where
  "process_request U roles (PullRequest name ids) st = pull_process U name ids st"
| "process_request U roles (PushRequest name ids data) st = push_process U name ids data st"
| "process_request U roles (InitDataRequest name shape dtype policy_str f) st =
     init_data_process U name shape dtype policy_str f st"
| "process_request U roles (BarrierRequest role group_id) st = barrier_process roles role group_id st"
| "process_request U roles (RegisterPullHandlerRequest name f) st = register_pull_process name f st"
| "process_request U roles (RegisterPushHandlerRequest name f) st = register_push_process name f st"
| "process_request U roles (GetSharedDataRequest msg) st = get_shared_process msg st"
| "process_request U roles (GetPartShapeRequest name) st = get_part_shape_process name st"
| "process_request U roles (SendMetaToBackupRequest name dtype shape policy_str f g) st =
     send_meta_process name dtype shape policy_str f g st"
| "process_request U roles (DeleteDataRequest name) st = delete_data_process name st"
| "process_request U roles (CountLocalNonzeroRequest name) st = count_nonzero_process U name st"

end
