(* ===== verification/KVServerProps.thy ===== *)
theory KVServerProps
  imports KVServer
begin

text \<open>
  What the server of the key-value store guarantees: an invariant of its dictionaries and of the
  machine's shared memory that every request keeps, repeated requests that change nothing, and the
  effect of pull and push on the partition's rows, seen from any server of the machine.
\<close>

section \<open>Dictionaries\<close>

lemma map_of_update [simp]: "map_of (AList.update k v d) x = (if x = k then Some v else map_of d x)"
  by (simp add: update_conv')

lemma keys_update [simp]: "fst ` set (AList.update k v d) = insert k (fst ` set d)"
  using dom_update [of k v d] by (simp add: dom_map_of_conv_image_fst)

lemma map_of_delete [simp]: "map_of (AList.delete k d) x = (if x = k then None else map_of d x)"
  by (simp add: delete_conv')

lemma in_keys_iff: "k \<in> fst ` set d \<longleftrightarrow> map_of d k \<noteq> None"
  by (metis domIff dom_map_of_conv_image_fst)

lemma kvdata_name_inject [simp]: "(kvdata_name a = kvdata_name b) = (a = b)"
  by (simp add: kvdata_name_def)

section \<open>The invariant\<close>

definition mem_inv :: "'v memory \<Rightarrow> bool" where
  "mem_inv m \<longleftrightarrow>
     (\<forall>n n' a. map_of (mm_names m) n = Some a \<and> map_of (mm_names m) n' = Some a \<longrightarrow> n = n') \<and>
     (\<forall>n a. map_of (mm_names m) n = Some a \<longrightarrow>
        a < mm_next m \<and> map_of (mm_cells m) a \<noteq> None)"

text \<open>A tensor the server created: its name leads to its cell, which has as many rows as the
  server's partition has entities.\<close>

definition own_ok :: "kv_server \<Rightarrow> 'v memory \<Rightarrow> string \<Rightarrow> view \<Rightarrow> bool" where
  "own_ok s m name v \<longleftrightarrow>
     map_of (mm_names m) (kvdata_name name) = Some (vw_addr v) \<and>
     (\<exists>rows p. map_of (mm_cells m) (vw_addr v) = Some rows \<and> map_of (ks_part_policy s) name = Some p \<and>
        pp_get_part_size p = Inr (int (length rows)))"

definition kv_inv :: "'v kv_state \<Rightarrow> bool" where
  "kv_inv st \<longleftrightarrow>
     (case st of (s, m) \<Rightarrow> mem_inv m \<and>
        (\<forall>name v. map_of (ks_data_store s) name = Some v \<longrightarrow>
           map_of (ks_part_policy s) name \<noteq> None \<and> map_of (ks_pull_handlers s) name \<noteq> None \<and>
           map_of (ks_push_handlers s) name \<noteq> None \<and> map_of (mm_cells m) (vw_addr v) \<noteq> None \<and>
           (vw_own v \<longrightarrow> own_ok s m name v)) \<and>
        (\<forall>name p. map_of (ks_part_policy s) name = Some p \<longrightarrow> p \<in> set (ks_policy_set s)))"

definition udfs_ok :: "'v udfs \<Rightarrow> bool" where
  "udfs_ok U \<longleftrightarrow>
     (\<forall>k m store name ids data m'. ud_push U k m store name ids data = Inr m' \<longrightarrow>
        mm_names m' = mm_names m \<and> mm_next m' = mm_next m \<and>
        (\<forall>a. map_option length (map_of (mm_cells m') a) = map_option length (map_of (mm_cells m) a)))"

lemma find_policy_in:
  "kv_find_policy s str = Inr p \<Longrightarrow> p \<in> set (ks_policy_set s) \<and> pp_policy_str p = str"
  by (auto simp: kv_find_policy_def find_Some_iff split: option.splits)

lemma put_rows_length: "put_rows xs idx vals = Inr ys \<Longrightarrow> length ys = length xs"
proof -
  have "rfold (\<lambda>ys (i, v). py_set_index ys i v) xs zs = Inr ys \<Longrightarrow> length ys = length xs" for zs
    by (rule rfold_invariant [where P = "\<lambda>zs. length zs = length xs"])
       (auto simp: py_set_index_def Let_def split: if_splits)
  then show "put_rows xs idx vals = Inr ys \<Longrightarrow> length ys = length xs"
    by (auto simp: put_rows_def Let_def split: if_splits)
qed

text \<open>A push keeps the names and the number of rows of every cell.\<close>

lemma run_push_shape:
  assumes "udfs_ok U" and "run_push U h m store name ids data = Inr m'"
    and "\<And>v. map_of store name = Some v \<Longrightarrow> map_of (mm_cells m) (vw_addr v) \<noteq> None"
  shows "mm_names m' = mm_names m \<and> mm_next m' = mm_next m \<and>
    (\<forall>a. map_option length (map_of (mm_cells m') a) = map_option length (map_of (mm_cells m) a))"
proof (cases h)
  case Default_handler
  then obtain v rows where v: "map_of store name = Some v"
    "put_rows (view_rows m v) ids data = Inr rows" "m' = write_rows v rows m"
    using assms(2) by (auto simp: run_push_def default_push_handler_def rbind_eq_Inr)
  obtain old where "map_of (mm_cells m) (vw_addr v) = Some old" using assms(3) [OF v(1)] by blast
  then show ?thesis using put_rows_length [OF v(2)]
    by (simp add: v(3) write_rows_def view_rows_def)
next
  case (Udf k)
  then have "ud_push U k m store name ids data = Inr m'" using assms(2) by (simp add: run_push_def)
  then show ?thesis using assms(1) unfolding udfs_ok_def by blast
qed

lemma own_ok_shape:
  assumes "own_ok s m name v" and "mm_names m' = mm_names m"
    and "\<forall>a. map_option length (map_of (mm_cells m') a) = map_option length (map_of (mm_cells m) a)"
  shows "own_ok s m' name v"
proof -
  obtain rows p where r: "map_of (mm_cells m) (vw_addr v) = Some rows"
    "map_of (ks_part_policy s) name = Some p" "pp_get_part_size p = Inr (int (length rows))"
    using assms(1) by (auto simp: own_ok_def)
  then have "map_option length (map_of (mm_cells m') (vw_addr v)) = Some (length rows)"
    using assms(3) by simp
  then obtain rows' where "map_of (mm_cells m') (vw_addr v) = Some rows'" "length rows' = length rows"
    by auto
  then show ?thesis using assms(1,2) r by (auto simp: own_ok_def)
qed

lemma mem_inv_shape:
  assumes "mem_inv m" and "mm_names m' = mm_names m \<and> mm_next m' = mm_next m \<and>
    (\<forall>a. map_option length (map_of (mm_cells m') a) = map_option length (map_of (mm_cells m) a))"
  shows "mem_inv m'"
proof -
  have "map_of (mm_cells m') a \<noteq> None" if "map_of (mm_cells m) a \<noteq> None" for a
    using assms(2) that by (metis option.map_disc_iff)
  then show ?thesis using assms unfolding mem_inv_def by metis
qed

lemma shm_create_inv:
  assumes "mem_inv m" and "shm_create name shape dtype m = (v, m1)" and "m' = write_rows v rows m1"
  shows "mem_inv m'" and "map_of (mm_names m') name = Some (vw_addr v)"
    and "map_of (mm_cells m') (vw_addr v) = Some rows" and "vw_own v"
    and "n \<noteq> name \<Longrightarrow> map_of (mm_names m') n = map_of (mm_names m) n"
    and "n \<noteq> name \<Longrightarrow> map_of (mm_names m) n = Some a \<Longrightarrow> map_of (mm_cells m') a = map_of (mm_cells m) a"
    and "map_of (mm_cells m) a \<noteq> None \<Longrightarrow> map_of (mm_cells m') a \<noteq> None"
proof -
  have c: "(\<exists>a. map_of (mm_names m) name = Some a \<and> vw_addr v = a \<and> m1 = m) \<or>
      (map_of (mm_names m) name = None \<and> vw_addr v = mm_next m \<and>
       m1 = m\<lparr>mm_names := AList.update name (mm_next m) (mm_names m), mm_next := mm_next m + 1\<rparr>)"
    "vw_own v"
    using assms(2) by (auto simp: shm_create_def split: option.splits)
  show "vw_own v" by (rule c(2))
  show "map_of (mm_names m') name = Some (vw_addr v)" "map_of (mm_cells m') (vw_addr v) = Some rows"
    "n \<noteq> name \<Longrightarrow> map_of (mm_names m') n = map_of (mm_names m) n"
    "map_of (mm_cells m) a \<noteq> None \<Longrightarrow> map_of (mm_cells m') a \<noteq> None"
    using c(1) assms(3) by (auto simp: write_rows_def)
  have lt: "a < mm_next m \<and> map_of (mm_cells m) a \<noteq> None" if "map_of (mm_names m) n = Some a" for n a
    using assms(1) that by (auto simp: mem_inv_def)
  have inj: "n = n'" if "map_of (mm_names m) n = Some a" "map_of (mm_names m) n' = Some a" for n n' a
    using assms(1) that unfolding mem_inv_def by blast
  show "n \<noteq> name \<Longrightarrow> map_of (mm_names m) n = Some a \<Longrightarrow> map_of (mm_cells m') a = map_of (mm_cells m) a"
    using c(1) assms(3) lt [of n a] inj [of n a name] by (auto simp: write_rows_def)
  show "mem_inv m'"
    unfolding mem_inv_def assms(3) write_rows_def using c(1) lt inj
    by (auto split: if_splits) (fastforce dest: lt)+
qed

lemma shm_drop_inv:
  assumes "mem_inv m"
  shows "mem_inv (shm_drop name v m)" and "mm_cells (shm_drop name v m) = mm_cells m"
    and "n \<noteq> name \<Longrightarrow> map_of (mm_names (shm_drop name v m)) n = map_of (mm_names m) n"
  using assms by (auto simp: mem_inv_def shm_drop_def)

section \<open>Every request keeps the invariant\<close>

lemma kv_invD:
  assumes "kv_inv (s, m)"
  shows "mem_inv m"
    and "map_of (ks_data_store s) name = Some v \<Longrightarrow>
      map_of (ks_part_policy s) name \<noteq> None \<and> map_of (ks_pull_handlers s) name \<noteq> None \<and>
      map_of (ks_push_handlers s) name \<noteq> None \<and> map_of (mm_cells m) (vw_addr v) \<noteq> None \<and>
      (vw_own v \<longrightarrow> own_ok s m name v)"
    and "map_of (ks_part_policy s) name = Some p \<Longrightarrow> p \<in> set (ks_policy_set s)"
  using assms by (auto simp: kv_inv_def)

lemma own_ok_fields:
  assumes "own_ok s m name v" and "map_of (mm_names m') (kvdata_name name) = map_of (mm_names m) (kvdata_name name)"
    and "map_of (mm_cells m') (vw_addr v) = map_of (mm_cells m) (vw_addr v)"
    and "map_of (ks_part_policy s') name = map_of (ks_part_policy s) name"
  shows "own_ok s' m' name v"
  using assms by (simp add: own_ok_def)

lemma init_data_inv:
  assumes inv: "kv_inv (s, m)" and "kv_server_init_data name policy_str t (s, m) = Inr (s', m')"
  shows "kv_inv (s', m')"
proof -
  note D = kv_invD [OF inv]
  have fresh: "map_of (ks_data_store s) name = None"
    using assms(2) by (auto simp: kv_server_init_data_def rbind_eq_Inr in_keys_iff)
  obtain p where p: "kv_find_policy s policy_str = Inr p"
    using assms(2) by (auto simp: kv_server_init_data_def rbind_eq_Inr)
  have pin: "p \<in> set (ks_policy_set s)" using find_policy_in [OF p] by simp
  show ?thesis
  proof (cases t)
    case None
    then have st: "s' = set_default_handlers name (s\<lparr>ks_part_policy := AList.update name p (ks_part_policy s)\<rparr>)"
      "m' = m"
      using assms(2) p by (auto simp: kv_server_init_data_def rbind_eq_Inr Let_def)
    have "own_ok s' m' n v" if "map_of (ks_data_store s) n = Some v" "vw_own v" for n v
      using D(2) [OF that(1)] that fresh
      by (intro own_ok_fields [of s m n v m' s']) (auto simp: st set_default_handlers_def)
    then show ?thesis
      using D pin fresh unfolding kv_inv_def by (auto simp: st set_default_handlers_def)
  next
    case (Some t)
    obtain v m1 where c: "shm_create (kvdata_name name) (tn_shape t) (tn_dtype t) m = (v, m1)"
      by (cases "shm_create (kvdata_name name) (tn_shape t) (tn_dtype t) m")
    have st: "s' = set_default_handlers name (s\<lparr>ks_part_policy := AList.update name p (ks_part_policy s),
        ks_data_store := AList.update name v (ks_data_store s)\<rparr>)"
      "m' = write_rows v (tn_rows t) m1" "pp_get_part_size p = Inr (int (length (tn_rows t)))"
      using assms(2) p Some c by (auto simp: kv_server_init_data_def rbind_eq_Inr Let_def)
    note C = shm_create_inv [OF D(1) c st(2)]
    have own: "own_ok s' m' name v"
      using C(2,3) st(3) by (simp add: own_ok_def st(1) set_default_handlers_def)
    have "own_ok s' m' n w" if "map_of (ks_data_store s) n = Some w" "vw_own w" for n w
    proof -
      have o: "own_ok s m n w" "n \<noteq> name" using D(2) [OF that(1)] that fresh by auto
      then have a: "map_of (mm_names m) (kvdata_name n) = Some (vw_addr w)" by (simp add: own_ok_def)
      show ?thesis
        using o C(5) [of "kvdata_name n"] C(6) [OF _ a]
        by (intro own_ok_fields [OF o(1)]) (auto simp: st(1) set_default_handlers_def)
    qed
    then show ?thesis
      using D pin C(1,7) C(3) own unfolding kv_inv_def by (auto simp: st(1) set_default_handlers_def)
  qed
qed

lemma delete_inv:
  assumes inv: "kv_inv (s, m)" and "delete_data_process name (s, m) = Inr ((s', m'), r)"
  shows "kv_inv (s', m')"
proof (cases "map_of (ks_data_store s) name")
  case None
  then show ?thesis using assms by (simp add: delete_data_process_def)
next
  case (Some v)
  note D = kv_invD [OF inv]
  have st: "s' = s\<lparr>ks_data_store := AList.delete name (ks_data_store s),
      ks_part_policy := AList.delete name (ks_part_policy s),
      ks_push_handlers := AList.delete name (ks_push_handlers s),
      ks_pull_handlers := AList.delete name (ks_pull_handlers s)\<rparr>"
    "m' = shm_drop (kvdata_name name) v m"
    using assms(2) Some by (auto simp: delete_data_process_def rbind_eq_Inr dict_del_def split: if_splits)
  note S = shm_drop_inv [OF D(1), where name = "kvdata_name name" and v = v]
  have "own_ok s' m' n w" if "map_of (ks_data_store s) n = Some w" "vw_own w" "n \<noteq> name" for n w
    using D(2) [OF that(1)] that S(3) [of "kvdata_name n"]
    by (intro own_ok_fields [of s m n w m' s']) (auto simp: st S(2))
  then show ?thesis using D S(1,2) unfolding kv_inv_def by (auto simp: st split: if_splits)
qed

lemma send_meta_inv:
  assumes inv: "kv_inv (s, m)" and "send_meta_process name dtype shape str f g (s, m) = Inr ((s', m'), r)"
  shows "kv_inv (s', m')"
proof (cases "map_of (ks_data_store s) name")
  case None
  note D = kv_invD [OF inv]
  have store: "map_of (ks_data_store s) name = None" by (rule None)
  obtain v where sv: "shm_open (kvdata_name name) shape dtype m = Inr v"
    using assms(2) store
    by (cases "shm_open (kvdata_name name) shape dtype m"; cases "kv_is_backup_server s")
       (simp_all add: send_meta_process_def in_keys_iff)
  obtain p where sp: "kv_find_policy s str = Inr p"
    using assms(2) store sv
    by (cases "kv_find_policy s str"; cases "kv_is_backup_server s")
       (simp_all add: send_meta_process_def in_keys_iff)
  have st: "s' = s\<lparr>ks_data_store := AList.update name v (ks_data_store s),
       ks_part_policy := AList.update name p (ks_part_policy s),
       ks_pull_handlers := AList.update name f (ks_pull_handlers s),
       ks_push_handlers := AList.update name g (ks_push_handlers s)\<rparr>" "m' = m"
    using assms(2) store sv sp
    by (cases "kv_is_backup_server s"; simp add: send_meta_process_def in_keys_iff)+
  have v: "\<not> vw_own v" "map_of (mm_cells m) (vw_addr v) \<noteq> None"
    using sv D(1) by (auto simp: shm_open_def mem_inv_def split: option.splits)
  have "own_ok s' m' n w" if "map_of (ks_data_store s) n = Some w" "vw_own w" for n w
    using D(2) [OF that(1)] that None
    by (intro own_ok_fields [of s m n w m' s']) (auto simp: st)
  then show ?thesis
    using D v find_policy_in [OF sp] None unfolding kv_inv_def by (auto simp: st)
next
  case (Some v)
  then show ?thesis using assms by (auto simp: send_meta_process_def rbind_eq_Inr in_keys_iff)
qed

lemma push_inv:
  assumes inv: "kv_inv (s, m)" and U: "udfs_ok U" and "push_process U name ids data (s, m) = Inr ((s', m'), r)"
  shows "kv_inv (s', m')"
proof -
  note D = kv_invD [OF inv]
  obtain h li where h: "run_push U h m (ks_data_store s) name li data = Inr m'" and s: "s' = s"
    using assms(3) by (auto simp: push_process_def rbind_eq_Inr)
  have sh: "mm_names m' = mm_names m \<and> mm_next m' = mm_next m \<and>
      (\<forall>a. map_option length (map_of (mm_cells m') a) = map_option length (map_of (mm_cells m) a))"
    using D(2) by (intro run_push_shape [OF U h]) blast
  then have "map_of (mm_cells m') a \<noteq> None" if "map_of (mm_cells m) a \<noteq> None" for a
    using that by (metis option.map_disc_iff)
  moreover have "own_ok s m' n v" if "map_of (ks_data_store s) n = Some v" "vw_own v" for n v
    by (rule own_ok_shape [of s m]) (use D(2) [OF that(1)] that(2) sh in blast)+
  ultimately show ?thesis
    using D mem_inv_shape [OF D(1) sh] unfolding kv_inv_def s prod.case by blast
qed

text \<open>C31. The server's tables and the machine's memory stay consistent under every request of every
  class: each tensor in the data store has a policy and both handlers and a cell behind it, each
  tensor this server created is found under its name and has as many rows as the server's partition
  has entities of its type, no two names share a cell, and every policy in use is one that was
  added to the server.\<close>

theorem process_request_inv:
  assumes "kv_inv (s, m)" and "udfs_ok U" and "process_request U roles req (s, m) = Inr ((s', m'), r)"
  shows "kv_inv (s', m')"
proof (cases req)
  case (PullRequest name ids)
  then show ?thesis using assms by (auto simp: pull_process_def rbind_eq_Inr)
next
  case (PushRequest name ids data)
  then show ?thesis using assms(3) push_inv [OF assms(1,2)] by simp
next
  case (InitDataRequest name shape dtype policy_str f)
  then show ?thesis using assms(1,3) init_data_inv [OF assms(1)]
    by (auto simp: init_data_process_def rbind_eq_Inr split: if_splits)
next
  case (BarrierRequest role group_id)
  then have "m' = m" "\<exists>b. s' = s\<lparr>ks_barrier_count := b\<rparr>"
    using assms(3) by (auto simp: barrier_process_def rbind_eq_Inr Let_def)
  then show ?thesis using assms(1) by (auto simp: kv_inv_def own_ok_def)
next
  case (RegisterPullHandlerRequest name f)
  then have "m' = m" "s' = s\<lparr>ks_pull_handlers := AList.update name f (ks_pull_handlers s)\<rparr>"
    using assms(3) by (simp_all add: register_pull_process_def)
  then show ?thesis using assms(1) by (auto simp: kv_inv_def own_ok_def)
next
  case (RegisterPushHandlerRequest name f)
  then have "m' = m" "s' = s\<lparr>ks_push_handlers := AList.update name f (ks_push_handlers s)\<rparr>"
    using assms(3) by (simp_all add: register_push_process_def)
  then show ?thesis using assms(1) by (auto simp: kv_inv_def own_ok_def)
next
  case (GetSharedDataRequest msg)
  then show ?thesis using assms by (auto simp: get_shared_process_def rbind_eq_Inr)
next
  case (GetPartShapeRequest name)
  then show ?thesis using assms by (auto simp: get_part_shape_process_def rbind_eq_Inr)
next
  case (SendMetaToBackupRequest name dtype shape policy_str f g)
  then show ?thesis using assms(3) send_meta_inv [OF assms(1)] by simp
next
  case (DeleteDataRequest name)
  then show ?thesis using assms(3) delete_inv [OF assms(1)] by simp
next
  case (CountLocalNonzeroRequest name)
  then show ?thesis using assms by (auto simp: count_nonzero_process_def rbind_eq_Inr)
qed

section \<open>The rows of a partition\<close>

text \<open>A pull handler that reads row by row: it gives \<open>f\<close> of the rows asked for. The default handler
  gives the rows.\<close>

definition rowwise :: "'v udfs \<Rightarrow> handler \<Rightarrow> ('v \<Rightarrow> 'v) \<Rightarrow> bool" where
  "rowwise U h f \<longleftrightarrow>
     (\<forall>m store name v rows ids. map_of store name = Some v \<longrightarrow> map_of (mm_cells m) (vw_addr v) = Some rows \<longrightarrow>
        (\<forall>i \<in> set ids. valid_index rows i) \<longrightarrow>
        run_pull U h m store name ids = Inr (map (\<lambda>i. f (rows ! nat i)) ids))"

lemma rowwise_default: "rowwise U Default_handler (\<lambda>x. x)"
  by (simp add: rowwise_def run_pull_def default_pull_handler_def dict_get_def view_rows_def take_rows_valid)

text \<open>\<open>holds_part c k h s m name rows\<close>: on machine \<open>k\<close> the server \<open>s\<close> has the tensor \<open>name\<close>,
  spread by the policy \<open>c\<close>, with \<open>h\<close> to pull and the default handler to push, and the machine's
  cell has these rows.\<close>

definition holds_part :: "policy_ctx \<Rightarrow> nat \<Rightarrow> handler \<Rightarrow> kv_server \<Rightarrow> 'v memory \<Rightarrow> string \<Rightarrow> 'v list \<Rightarrow> bool" where
  "holds_part c k h s m name rows \<longleftrightarrow>
     k < policy_machines c \<and>
     (case map_of (ks_part_policy s) name of None \<Rightarrow> False | Some p \<Rightarrow> policy_at c k = Inr p) \<and>
     (case map_of (ks_data_store s) name of None \<Rightarrow> False
      | Some v \<Rightarrow> map_of (mm_cells m) (vw_addr v) = Some rows) \<and>
     map_of (ks_pull_handlers s) name = Some h \<and>
     map_of (ks_push_handlers s) name = Some Default_handler \<and>
     int (length rows) = policy_starts c (Suc k) - policy_starts c k"

lemma holds_partD:
  assumes "holds_part c k h s m name rows"
  obtains p v where "k < policy_machines c" and "map_of (ks_part_policy s) name = Some p"
    and "policy_at c k = Inr p" and "map_of (ks_data_store s) name = Some v"
    and "map_of (mm_cells m) (vw_addr v) = Some rows"
    and "map_of (ks_pull_handlers s) name = Some h"
    and "map_of (ks_push_handlers s) name = Some Default_handler"
    and "int (length rows) = policy_starts c (Suc k) - policy_starts c k"
  using assms by (auto simp: holds_part_def split: option.splits)

text \<open>Local offsets of identifiers of the part.\<close>

lemma part_offsets:
  assumes "policy_ok c" and "k < policy_machines c" and "policy_at c k = Inr p"
    and "int (length rows) = policy_starts c (Suc k) - policy_starts c k"
    and "\<forall>i \<in> set ids. policy_starts c k \<le> i \<and> i < policy_starts c (Suc k)"
  shows "pp_to_local p ids = Inr (map (\<lambda>i. i - policy_starts c k) ids)"
    and "\<forall>i \<in> set (map (\<lambda>i. i - policy_starts c k) ids). valid_index rows i"
  using policy.to_local_shift [OF assms(1,2)] assms(3-5) by (auto simp: at_policy_def valid_index_def)

lemma pull_holds:
  assumes ok: "policy_ok c" and h: "holds_part c k h s m name rows" and f: "rowwise U h f"
    and ids: "\<forall>i \<in> set ids. policy_starts c k \<le> i \<and> i < policy_starts c (Suc k)"
  shows "pull_process U name ids (s, m) =
    Inr ((s, m), PullResponse (ks_server_id s) (map (\<lambda>i. f (rows ! nat (i - policy_starts c k))) ids))"
proof -
  obtain p v where D: "k < policy_machines c" "map_of (ks_part_policy s) name = Some p"
    "policy_at c k = Inr p" "map_of (ks_data_store s) name = Some v"
    "map_of (mm_cells m) (vw_addr v) = Some rows"
    "map_of (ks_pull_handlers s) name = Some h"
    "int (length rows) = policy_starts c (Suc k) - policy_starts c k"
    using h by (rule holds_partD)
  note O = part_offsets [OF ok D(1,3,7) ids]
  have "run_pull U h m (ks_data_store s) name (map (\<lambda>i. i - policy_starts c k) ids) =
      Inr (map (\<lambda>i. f (rows ! nat i)) (map (\<lambda>i. i - policy_starts c k) ids))"
    using f D(4,5) O(2) unfolding rowwise_def by blast
  then show ?thesis
    by (simp add: pull_process_def in_keys_iff D dict_get_def O(1) comp_def)
qed

text \<open>The rows after a push.\<close>

definition pushed :: "int \<Rightarrow> int list \<Rightarrow> 'v list \<Rightarrow> 'v list \<Rightarrow> 'v list" where
  "pushed start ids data rows =
     map (\<lambda>j. case map_of (zip ids data) (start + int j) of None \<Rightarrow> rows ! j | Some v \<Rightarrow> v) [0..<length rows]"

lemma map_of_zip_shift:
  "map_of (zip (map (\<lambda>i. i - (a :: int)) ids) data) j = map_of (zip ids data) (a + j)"
  by (induction ids data rule: list_induct2') auto

lemma push_holds:
  assumes ok: "policy_ok c" and h: "holds_part c k h s m name rows"
    and ids: "\<forall>i \<in> set ids. policy_starts c k \<le> i \<and> i < policy_starts c (Suc k)"
    and "distinct ids" and "length ids = length data"
  shows "\<exists>v. map_of (ks_data_store s) name = Some v \<and> push_process U name ids data (s, m) =
    Inr ((s, write_rows v (pushed (policy_starts c k) ids data rows) m), NoResponse)"
proof -
  obtain p v where D: "k < policy_machines c" "map_of (ks_part_policy s) name = Some p"
    "policy_at c k = Inr p" "map_of (ks_data_store s) name = Some v"
    "map_of (mm_cells m) (vw_addr v) = Some rows"
    "map_of (ks_push_handlers s) name = Some Default_handler"
    "int (length rows) = policy_starts c (Suc k) - policy_starts c k"
    using h by (rule holds_partD)
  have loc: "pp_to_local p ids = Inr (map (\<lambda>i. i - policy_starts c k) ids)"
    using policy.to_local_shift [OF ok D(1)] D(3) by (simp add: at_policy_def)
  have "put_rows rows (map (\<lambda>i. i - policy_starts c k) ids) data =
      Inr (pushed (policy_starts c k) ids data rows)"
    using ids D(7) assms(4,5)
    by (subst put_rows_distinct)
       (auto simp: valid_index_def distinct_map inj_on_def pushed_def map_of_zip_shift)
  then show ?thesis
    by (simp add: push_process_def in_keys_iff D dict_get_def loc run_push_def
        default_push_handler_def view_rows_def)
qed

text \<open>Two servers of a machine whose views of a tensor are of the same cell.\<close>

definition same_cell :: "kv_server \<Rightarrow> kv_server \<Rightarrow> string \<Rightarrow> bool" where
  "same_cell s t name \<longleftrightarrow>
     map_option vw_addr (map_of (ks_data_store s) name) = map_option vw_addr (map_of (ks_data_store t) name)"

lemma holds_after_write:
  assumes "holds_part c k h t m name rows" and "same_cell s t name"
    and "map_of (ks_data_store s) name = Some v" and "length rows' = length rows"
  shows "holds_part c k h t (write_rows v rows' m) name rows'"
proof -
  obtain p w where D: "k < policy_machines c" "map_of (ks_part_policy t) name = Some p"
    "policy_at c k = Inr p" "map_of (ks_data_store t) name = Some w"
    "map_of (ks_pull_handlers t) name = Some h"
    "map_of (ks_push_handlers t) name = Some Default_handler"
    "int (length rows) = policy_starts c (Suc k) - policy_starts c k"
    using assms(1) by (rule holds_partD)
  have "vw_addr v = vw_addr w" using assms(2,3) D(4) by (simp add: same_cell_def)
  then show ?thesis using D assms(4) by (simp add: holds_part_def write_rows_def)
qed

lemma length_pushed [simp]: "length (pushed a ids data rows) = length rows"
  by (simp add: pushed_def)

section \<open>Two servers of an example machine\<close>

definition example_udfs :: "int udfs" where
  "example_udfs =
     \<lparr>ud_pull = (\<lambda>_ _ _ _ _. Inl RuntimeError), ud_push = (\<lambda>_ _ _ _ _ _. Inl RuntimeError),
      ud_init = (\<lambda>k shape dtype. \<lparr>tn_dtype = dtype, tn_dims = tl shape, tn_rows = replicate (nat (hd shape)) (int k)\<rparr>),
      ud_nonzero = (\<lambda>x. if x = 0 then 0 else 1)\<rparr>"

definition example_policy :: partition_policy where
  "example_policy = projr (policy_at example_policy_ctx 0)"

definition example_memory :: "int memory" where
  "example_memory = \<lparr>mm_cells = [(0, [10, 11, 12])], mm_names = [(''h-kvdata-'', 0)], mm_next = 1\<rparr>"

definition example_kv_server :: "int \<Rightarrow> kv_server" where
  "example_kv_server sid =
     \<lparr>ks_server_id = sid, ks_machine_id = 0, ks_group_count = 2, ks_part_id = 0, ks_num_clients = 2,
      ks_data_store = [(''h'', \<lparr>vw_addr = 0, vw_shape = [3], vw_dtype = ''int64'', vw_own = (sid = 0)\<rparr>)],
      ks_orig_data = [],
      ks_policy_set = [example_policy], ks_part_policy = [(''h'', example_policy)],
      ks_push_handlers = [(''h'', Default_handler)], ks_pull_handlers = [(''h'', Default_handler)],
      ks_barrier_count = [(0, [(''default'', 1)])]\<rparr>"

lemma example_policy_eq: "policy_at example_policy_ctx 0 = Inr example_policy"
proof -
  have "0 < policy_machines example_policy_ctx" by (simp add: example_policy_starts)
  then show ?thesis
    using policy.part_size_eq [OF example_policy_ok, of 0]
    by (cases "policy_at example_policy_ctx 0") (auto simp: at_policy_def example_policy_def)
qed

lemma example_policy_size: "pp_get_part_size example_policy = Inr 3"
  using policy.part_size_eq [OF example_policy_ok, of 0]
  by (simp add: at_policy_def example_policy_eq example_policy_starts)

lemma example_holds:
  "holds_part example_policy_ctx 0 Default_handler (example_kv_server sid) example_memory ''h'' [10, 11, 12]"
  by (simp add: holds_part_def example_kv_server_def example_memory_def example_policy_eq
      example_policy_starts)

lemma example_kv_inv: "kv_inv (example_kv_server 0, example_memory)"
  by (simp add: kv_inv_def mem_inv_def own_ok_def example_kv_server_def example_memory_def
      example_policy_size kvdata_name_def)

lemma example_udfs_ok: "udfs_ok example_udfs"
  by (simp add: udfs_ok_def example_udfs_def)

theorem process_request_inv_witness:
  "kv_inv (fst (projr (process_request example_udfs [(0, [(''default'', [(4, 0), (7, 1)])])]
     (BarrierRequest ''default'' 0) (example_kv_server 0, example_memory))))"
proof -
  have "process_request example_udfs [(0, [(''default'', [(4, 0), (7, 1)])])]
      (BarrierRequest ''default'' 0) (example_kv_server 0, example_memory) =
    Inr ((example_kv_server 0\<lparr>ks_barrier_count := [(0, [(''default'', 0)])]\<rparr>, example_memory),
      ResponseList [(4, BARRIER_MSG), (7, BARRIER_MSG)])"
    by (simp add: barrier_process_def example_kv_server_def dict_get_def Let_def)
  with process_request_inv [OF example_kv_inv example_udfs_ok this] show ?thesis by simp
qed

section \<open>Properties of pull, push, creation and deletion\<close>

text \<open>C35. On one machine, rows pushed to any server are what any server of the machine then gives
  for a pull, in the order of the pull; the rows that were not pushed are unchanged. The pull handler
  is the default one or any other that reads row by row.\<close>

theorem push_then_pull:
  assumes "policy_ok c" and "holds_part c k h s m name rows" and "holds_part c k h t m name rows"
    and "rowwise U h f"
    and "same_cell s t name" and "distinct ids" and "length ids = length data"
    and "\<forall>i \<in> set ids \<union> set ids'. policy_starts c k \<le> i \<and> i < policy_starts c (Suc k)"
  shows "\<exists>m'. push_process U name ids data (s, m) = Inr ((s, m'), NoResponse) \<and>
    pull_process U name ids' (t, m') = Inr ((t, m'), PullResponse (ks_server_id t)
      (map (\<lambda>i. f (case map_of (zip ids data) i of
                  None \<Rightarrow> rows ! nat (i - policy_starts c k) | Some v \<Rightarrow> v)) ids'))"
proof -
  let ?a = "policy_starts c k"
  let ?rows = "pushed ?a ids data rows"
  obtain v where v: "map_of (ks_data_store s) name = Some v"
    "push_process U name ids data (s, m) = Inr ((s, write_rows v ?rows m), NoResponse)"
    using push_holds [OF assms(1,2) _ assms(6,7)] assms(8) by blast
  have h: "holds_part c k h t (write_rows v ?rows m) name ?rows"
    using holds_after_write [OF assms(3,5) v(1)] by simp
  have len: "int (length rows) = policy_starts c (Suc k) - ?a" using assms(2) by (simp add: holds_part_def)
  have "?rows ! nat (i - ?a) = (case map_of (zip ids data) i of None \<Rightarrow> rows ! nat (i - ?a) | Some v \<Rightarrow> v)"
    if "i \<in> set ids'" for i
  proof -
    have "?a \<le> i" "i < policy_starts c (Suc k)" using that assms(8) by auto
    then have "nat (i - ?a) < length rows" "?a + int (nat (i - ?a)) = i" using len by linarith+
    then show ?thesis by (cases "map_of (zip ids data) i") (simp_all add: pushed_def)
  qed
  then have "map (\<lambda>i. f (?rows ! nat (i - ?a))) ids' =
      map (\<lambda>i. f (case map_of (zip ids data) i of None \<Rightarrow> rows ! nat (i - ?a) | Some v \<Rightarrow> v)) ids'"
    by simp
  then show ?thesis
    using v(2) pull_holds [OF assms(1) h assms(4), of ids'] assms(8) by (intro exI conjI) (assumption, simp)
qed

theorem push_then_pull_witness:
  "\<exists>m'. push_process example_udfs ''h'' [2, 0] [20, 30] (example_kv_server 0, example_memory) =
      Inr ((example_kv_server 0, m'), NoResponse) \<and>
    pull_process example_udfs ''h'' [0, 1, 2] (example_kv_server 1, m') =
      Inr ((example_kv_server 1, m'), PullResponse 1 [30, 11, 20])"
  using push_then_pull [OF example_policy_ok example_holds example_holds rowwise_default, of 0 1 "[2, 0]" "[20, 30]" "[0, 1, 2]"]
  by (simp add: same_cell_def example_policy_starts) (simp add: example_kv_server_def)

text \<open>\<open>InitDataRequest\<close> may be sent by every client: on a server that answered it, the same
  request again is answered the same and changes nothing, provided the user's function makes a tensor
  of the shape and type it is asked for.\<close>

theorem init_data_idempotent:
  assumes "init_data_process U name shape dtype policy_str f (s, m) = Inr (st', r)"
    and "tn_shape (ud_init U f shape dtype) = shape" and "tn_dtype (ud_init U f shape dtype) = dtype"
  shows "init_data_process U name shape dtype policy_str f st' = Inr (st', r)"
proof (cases "map_of (ks_data_store s) name")
  case (Some v)
  then have "st' = (s, m)" using assms(1)
    by (auto simp: init_data_process_def rbind_eq_Inr in_keys_iff)
  then show ?thesis using assms(1) by simp
next
  case None
  let ?t = "if kv_is_backup_server s then None else Some (ud_init U f shape dtype)"
  have run: "kv_server_init_data name policy_str ?t (s, m) = Inr st'" and r: "r = MsgResponse INIT_MSG"
    and dt: "dtype \<in> set data_types"
    using assms(1) None by (auto simp: init_data_process_def rbind_eq_Inr in_keys_iff split: if_splits)
  obtain s' m' where st': "st' = (s', m')" by (cases st')
  have ne: "name \<noteq> []" using run by (auto simp: kv_server_init_data_def rbind_eq_Inr)
  obtain p where p: "kv_find_policy s policy_str = Inr p"
    using run by (auto simp: kv_server_init_data_def rbind_eq_Inr)
  note pol = find_policy_in [OF p]
  show ?thesis
  proof (cases "kv_is_backup_server s")
    case True
    then have "s' = set_default_handlers name (s\<lparr>ks_part_policy := AList.update name p (ks_part_policy s)\<rparr>)"
      "m' = m" using run p by (auto simp: kv_server_init_data_def rbind_eq_Inr Let_def st')
    then show ?thesis using True None p ne dt
      by (simp add: init_data_process_def in_keys_iff kv_server_init_data_def kv_find_policy_def
          kv_is_backup_server_def set_default_handlers_def Let_def r st' update_triv)
  next
    case False
    then obtain v m1 where
      "shm_create (kvdata_name name) (tn_shape (ud_init U f shape dtype)) (tn_dtype (ud_init U f shape dtype)) m = (v, m1)"
      and "s' = set_default_handlers name (s\<lparr>ks_part_policy := AList.update name p (ks_part_policy s),
        ks_data_store := AList.update name v (ks_data_store s)\<rparr>)"
      using run p by (cases "shm_create (kvdata_name name) (tn_shape (ud_init U f shape dtype))
          (tn_dtype (ud_init U f shape dtype)) m") (auto simp: kv_server_init_data_def rbind_eq_Inr Let_def st')
    moreover from this(1) have "vw_shape v = shape" "vw_dtype v = dtype"
      using assms(2,3) by (auto simp: shm_create_def split: option.splits)
    ultimately show ?thesis using pol dt
      by (simp add: init_data_process_def in_keys_iff check_meta_def dict_get_def
          set_default_handlers_def r st')
  qed
qed

theorem init_data_idempotent_witness:
  "\<exists>st'. init_data_process example_udfs ''w'' [3] ''int64'' (pp_policy_str example_policy) 7
      (example_kv_server 0, example_memory) = Inr (st', MsgResponse INIT_MSG) \<and>
    init_data_process example_udfs ''w'' [3] ''int64'' (pp_policy_str example_policy) 7 st' =
      Inr (st', MsgResponse INIT_MSG)"
proof -
  have "\<exists>st'. init_data_process example_udfs ''w'' [3] ''int64'' (pp_policy_str example_policy) 7
      (example_kv_server 0, example_memory) = Inr (st', MsgResponse INIT_MSG)"
    by (simp add: init_data_process_def kv_server_init_data_def kv_is_backup_server_def kv_find_policy_def
        example_kv_server_def example_memory_def example_udfs_def data_types_def shm_create_def
        kvdata_name_def tn_shape_def example_policy_size Let_def)
  then obtain st' where st': "init_data_process example_udfs ''w'' [3] ''int64'' (pp_policy_str example_policy) 7
      (example_kv_server 0, example_memory) = Inr (st', MsgResponse INIT_MSG)" by blast
  from init_data_idempotent [OF this] st' show ?thesis by (simp add: example_udfs_def tn_shape_def)
qed



end
