(* ===== verification/KVMessage.thy ===== *)
theory KVMessage
  imports KVServer Rpc
begin

text \<open>
  The requests and responses of \<^verbatim>\<open>python/dgl/distributed/kvstore.py\<close> as they go over the
  network: the class each one has, \<open>__getstate__\<close> and \<open>__setstate__\<close>, and the registration of the
  services. The values of the model are typed where Python's are not, so \<open>__setstate__\<close> raises a
  \<open>TypeError\<close> on a state that no \<open>__getstate__\<close> of the class gives, where Python would go on with it.
\<close>

section \<open>States\<close>

datatype 'v kv_tensor = IdTensor "int list" | RowTensor "'v list"

type_synonym shared_meta = "(string \<times> int list \<times> string \<times> string) list"

datatype kv_obj =
    OStr string
  | OInt int
  | OShape "int list"
  | OHandler handler
  | OInit nat
  | OMeta shared_meta

type_synonym 'v kv_item = "('v kv_tensor, kv_obj) item"

fun request_class :: "'v kv_request \<Rightarrow> string" where
  "request_class (PullRequest _ _) = ''PullRequest''"
| "request_class (PushRequest _ _ _) = ''PushRequest''"
| "request_class (InitDataRequest _ _ _ _ _) = ''InitDataRequest''"
| "request_class (BarrierRequest _ _) = ''BarrierRequest''"
| "request_class (RegisterPullHandlerRequest _ _) = ''RegisterPullHandlerRequest''"
| "request_class (RegisterPushHandlerRequest _ _) = ''RegisterPushHandlerRequest''"
| "request_class (GetSharedDataRequest _) = ''GetSharedDataRequest''"
| "request_class (GetPartShapeRequest _) = ''GetPartShapeRequest''"
| "request_class (SendMetaToBackupRequest _ _ _ _ _ _) = ''SendMetaToBackupRequest''"
| "request_class (DeleteDataRequest _) = ''DeleteDataRequest''"
| "request_class (CountLocalNonzeroRequest _) = ''CountLocalNonzeroRequest''"

fun request_getstate :: "'v kv_request \<Rightarrow> 'v kv_item py_state" where
  "request_getstate (PullRequest name ids) = PTuple [Obj (OStr name), Tensor (IdTensor ids)]"
| "request_getstate (PushRequest name ids data) =
     PTuple [Obj (OStr name), Tensor (IdTensor ids), Tensor (RowTensor data)]"
| "request_getstate (InitDataRequest name shape dtype policy_str f) =
     PTuple [Obj (OStr name), Obj (OShape shape), Obj (OStr dtype), Obj (OStr policy_str), Obj (OInit f)]"
| "request_getstate (BarrierRequest role group_id) = PTuple [Obj (OStr role), Obj (OInt group_id)]"
| "request_getstate (RegisterPullHandlerRequest name f) = PTuple [Obj (OStr name), Obj (OHandler f)]"
| "request_getstate (RegisterPushHandlerRequest name f) = PTuple [Obj (OStr name), Obj (OHandler f)]"
| "request_getstate (GetSharedDataRequest msg) = PSingle (Obj (OStr msg))"
| "request_getstate (GetPartShapeRequest name) = PSingle (Obj (OStr name))"
| "request_getstate (SendMetaToBackupRequest name dtype shape policy_str f g) =
     PTuple [Obj (OStr name), Obj (OStr dtype), Obj (OShape shape), Obj (OStr policy_str),
       Obj (OHandler f), Obj (OHandler g)]"
| "request_getstate (DeleteDataRequest name) = PSingle (Obj (OStr name))"
| "request_getstate (CountLocalNonzeroRequest name) = PSingle (Obj (OStr name))"

section \<open>Reading states\<close>

definition as_str :: "'v kv_item option \<Rightarrow> string res" where
  "as_str x = (case x of Some (Obj (OStr s)) \<Rightarrow> Inr s | _ \<Rightarrow> Inl TypeError)"

definition as_int :: "'v kv_item option \<Rightarrow> int res" where
  "as_int x = (case x of Some (Obj (OInt n)) \<Rightarrow> Inr n | _ \<Rightarrow> Inl TypeError)"

definition as_shape :: "'v kv_item option \<Rightarrow> int list res" where
  "as_shape x = (case x of Some (Obj (OShape s)) \<Rightarrow> Inr s | _ \<Rightarrow> Inl TypeError)"

definition as_handler :: "'v kv_item option \<Rightarrow> handler res" where
  "as_handler x = (case x of Some (Obj (OHandler h)) \<Rightarrow> Inr h | _ \<Rightarrow> Inl TypeError)"

definition as_init :: "'v kv_item option \<Rightarrow> nat res" where
  "as_init x = (case x of Some (Obj (OInit f)) \<Rightarrow> Inr f | _ \<Rightarrow> Inl TypeError)"

definition as_ids :: "'v kv_item option \<Rightarrow> int list res" where
  "as_ids x = (case x of Some (Tensor (IdTensor ids)) \<Rightarrow> Inr ids | _ \<Rightarrow> Inl TypeError)"

definition as_rows :: "'v kv_item option \<Rightarrow> 'v list res" where
  "as_rows x = (case x of Some (Tensor (RowTensor rows)) \<Rightarrow> Inr rows | _ \<Rightarrow> Inl TypeError)"

definition as_meta :: "'v kv_item option \<Rightarrow> shared_meta res" where
  "as_meta x = (case x of Some (Obj (OMeta m)) \<Rightarrow> Inr m | _ \<Rightarrow> Inl TypeError)"

text \<open>Unpacking a state into \<open>n\<close> attributes, \<open>self.a, self.b = state\<close>, and taking it as one.\<close>

definition unpack :: "nat \<Rightarrow> 'i py_state \<Rightarrow> 'i list res" where
  "unpack n st = (case st of PTuple xs \<Rightarrow> if length xs = n then Inr xs else Inl ValueError | PSingle _ \<Rightarrow> Inl TypeError)"

definition single :: "'i py_state \<Rightarrow> 'i res" where
  "single st = (case st of PSingle x \<Rightarrow> Inr x | PTuple _ \<Rightarrow> Inl TypeError)"

definition request_setstate :: "string \<Rightarrow> 'v kv_item option py_state \<Rightarrow> 'v kv_request res" where
  "request_setstate cls st =
     (if cls = ''PullRequest'' then
        rbind (unpack 2 st) (\<lambda>xs. rbind (as_str (xs ! 0)) (\<lambda>name. rbind (as_ids (xs ! 1)) (\<lambda>ids.
        Inr (PullRequest name ids))))
      else if cls = ''PushRequest'' then
        rbind (unpack 3 st) (\<lambda>xs. rbind (as_str (xs ! 0)) (\<lambda>name. rbind (as_ids (xs ! 1)) (\<lambda>ids.
        rbind (as_rows (xs ! 2)) (\<lambda>data. Inr (PushRequest name ids data)))))
      else if cls = ''InitDataRequest'' then
        rbind (unpack 5 st) (\<lambda>xs. rbind (as_str (xs ! 0)) (\<lambda>name. rbind (as_shape (xs ! 1)) (\<lambda>shape.
        rbind (as_str (xs ! 2)) (\<lambda>dtype. rbind (as_str (xs ! 3)) (\<lambda>policy_str. rbind (as_init (xs ! 4)) (\<lambda>f.
        Inr (InitDataRequest name shape dtype policy_str f)))))))
      else if cls = ''BarrierRequest'' then
        rbind (unpack 2 st) (\<lambda>xs. rbind (as_str (xs ! 0)) (\<lambda>role. rbind (as_int (xs ! 1)) (\<lambda>group_id.
        Inr (BarrierRequest role group_id))))
      else if cls = ''RegisterPullHandlerRequest'' then
        rbind (unpack 2 st) (\<lambda>xs. rbind (as_str (xs ! 0)) (\<lambda>name. rbind (as_handler (xs ! 1)) (\<lambda>f.
        Inr (RegisterPullHandlerRequest name f))))
      else if cls = ''RegisterPushHandlerRequest'' then
        rbind (unpack 2 st) (\<lambda>xs. rbind (as_str (xs ! 0)) (\<lambda>name. rbind (as_handler (xs ! 1)) (\<lambda>f.
        Inr (RegisterPushHandlerRequest name f))))
      else if cls = ''SendMetaToBackupRequest'' then
        rbind (unpack 6 st) (\<lambda>xs. rbind (as_str (xs ! 0)) (\<lambda>name. rbind (as_str (xs ! 1)) (\<lambda>dtype.
        rbind (as_shape (xs ! 2)) (\<lambda>shape. rbind (as_str (xs ! 3)) (\<lambda>policy_str.
        rbind (as_handler (xs ! 4)) (\<lambda>f. rbind (as_handler (xs ! 5)) (\<lambda>g.
        Inr (SendMetaToBackupRequest name dtype shape policy_str f g))))))))
      else
        rbind (single st) (\<lambda>x. rbind (as_str x) (\<lambda>s.
        if cls = ''GetSharedDataRequest'' then Inr (GetSharedDataRequest s)
        else if cls = ''GetPartShapeRequest'' then Inr (GetPartShapeRequest s)
        else if cls = ''DeleteDataRequest'' then Inr (DeleteDataRequest s)
        else if cls = ''CountLocalNonzeroRequest'' then Inr (CountLocalNonzeroRequest s)
        else Inl TypeError)))"

section \<open>Responses\<close>

text \<open>The responses that carry a message are of one class per service; the model's constructor is
  the same. A \<open>ResponseList\<close> is a list of responses for several clients, each sent as a
  \<open>BarrierResponse\<close> of its own.\<close>

definition msg_classes :: "string list" where
  "msg_classes = [''InitDataResponse'', ''BarrierResponse'', ''RegisterPullHandlerResponse'',
     ''RegisterPushHandlerResponse'', ''SendMetaToBackupResponse'', ''DeleteDataResponse'']"

fun response_getstate :: "'v kv_response \<Rightarrow> 'v kv_item py_state option" where
  "response_getstate (PullResponse server_id data) = Some (PTuple [Obj (OInt server_id), Tensor (RowTensor data)])"
| "response_getstate (MsgResponse msg) = Some (PSingle (Obj (OStr msg)))"
| "response_getstate (SharedDataResponse meta) = Some (PSingle (Obj (OMeta meta)))"
| "response_getstate (PartShapeResponse shape) = Some (PTuple (map (\<lambda>n. Obj (OInt n)) shape))"
| "response_getstate (NonzeroResponse n) = Some (PSingle (Obj (OInt n)))"
| "response_getstate NoResponse = None"
| "response_getstate (ResponseList _) = None"

definition part_shape_setstate :: "'v kv_item option py_state \<Rightarrow> 'v kv_response res" where
  "part_shape_setstate st =
     (case st of
        PSingle x \<Rightarrow> rbind (as_int x) (\<lambda>n. Inr (PartShapeResponse [n]))
      | PTuple xs \<Rightarrow> rbind (rmap as_int xs) (\<lambda>ns. Inr (PartShapeResponse ns)))"

definition response_setstate :: "string \<Rightarrow> 'v kv_item option py_state \<Rightarrow> 'v kv_response res" where
  "response_setstate cls st =
     (if cls = ''PullResponse'' then
        rbind (unpack 2 st) (\<lambda>xs. rbind (as_int (xs ! 0)) (\<lambda>sid. rbind (as_rows (xs ! 1)) (\<lambda>data.
        Inr (PullResponse sid data))))
      else if cls \<in> set msg_classes then
        rbind (single st) (\<lambda>x. rbind (as_str x) (\<lambda>msg. Inr (MsgResponse msg)))
      else if cls = ''GetSharedDataResponse'' then
        rbind (single st) (\<lambda>x. rbind (as_meta x) (\<lambda>meta. Inr (SharedDataResponse meta)))
      else if cls = ''GetPartShapeResponse'' then part_shape_setstate st
      else if cls = ''CountLocalNonzeroResponse'' then
        rbind (single st) (\<lambda>x. rbind (as_int x) (\<lambda>n. Inr (NonzeroResponse n)))
      else Inl TypeError)"

section \<open>Services\<close>

definition kv_services :: "(int \<times> string \<times> string option) list" where
  "kv_services =
     [(901231, ''PullRequest'', Some ''PullResponse''),
      (901232, ''PushRequest'', None),
      (901233, ''InitDataRequest'', Some ''InitDataResponse''),
      (901234, ''BarrierRequest'', Some ''BarrierResponse''),
      (901236, ''RegisterPushHandlerRequest'', Some ''RegisterPushHandlerResponse''),
      (901235, ''RegisterPullHandlerRequest'', Some ''RegisterPullHandlerResponse''),
      (901237, ''GetSharedDataRequest'', Some ''GetSharedDataResponse''),
      (901238, ''GetPartShapeRequest'', Some ''GetPartShapeResponse''),
      (901239, ''SendMetaToBackupRequest'', Some ''SendMetaToBackupResponse''),
      (901240, ''DeleteDataRequest'', Some ''DeleteDataResponse''),
      (901241, ''CountLocalNonzeroRequest'', Some ''CountLocalNonzeroResponse'')]"

definition kv_register_services :: "rpc_ctx \<Rightarrow> rpc_ctx" where
  "kv_register_services c = fold (\<lambda>(sid, req, res). register_service sid req res) kv_services c"

text \<open>The class of the response of a request, if it has any.\<close>

definition kv_response_class :: "'v kv_request \<Rightarrow> string option" where
  "kv_response_class req = (case map_of (map snd kv_services) (request_class req) of None \<Rightarrow> None | Some r \<Rightarrow> r)"

fun response_fits :: "string \<Rightarrow> 'v kv_response \<Rightarrow> bool" where
  "response_fits cls (PullResponse _ _) = (cls = ''PullResponse'')"
| "response_fits cls (MsgResponse _) = (cls \<in> set msg_classes)"
| "response_fits cls (SharedDataResponse _) = (cls = ''GetSharedDataResponse'')"
| "response_fits cls (PartShapeResponse _) = (cls = ''GetPartShapeResponse'')"
| "response_fits cls (NonzeroResponse _) = (cls = ''CountLocalNonzeroResponse'')"
| "response_fits cls NoResponse = False"
| "response_fits cls (ResponseList _) = False"

section \<open>Properties\<close>

lemmas state_readers = as_str_def as_int_def as_shape_def as_handler_def as_init_def as_ids_def
  as_rows_def as_meta_def unpack_def single_def

lemma request_state_wire: "request_setstate (request_class req) (wire (request_getstate req)) = Inr req"
  by (cases req) (simp_all add: request_setstate_def wire_def state_readers nth_Cons_numeral)

lemma rmap_as_int: "rmap as_int (map (\<lambda>n. Some (Obj (OInt n))) xs) = Inr xs"
  by (induction xs) (simp_all add: as_int_def)

lemma part_shape_wire: "part_shape_setstate (wire (PTuple (map (\<lambda>n. Obj (OInt n)) shape))) = Inr (PartShapeResponse shape)"
proof (cases shape)
  case (Cons n ns)
  then show ?thesis using rmap_as_int [of shape]
    by (cases ns) (simp_all add: part_shape_setstate_def wire_def comp_def rmap_as_int as_int_def)
qed (simp add: part_shape_setstate_def wire_def)

lemma msg_class_other:
  "cls \<in> set msg_classes \<Longrightarrow> cls \<noteq> ''PullResponse''"
  "''GetSharedDataResponse'' \<notin> set msg_classes" "''GetPartShapeResponse'' \<notin> set msg_classes"
  "''CountLocalNonzeroResponse'' \<notin> set msg_classes"
  by (auto simp: msg_classes_def)

lemma response_state_wire:
  assumes "response_getstate r = Some st" and "response_fits cls r"
  shows "response_setstate cls (wire st) = Inr r"
proof (cases r)
  case (PartShapeResponse shape)
  then show ?thesis using assms part_shape_wire [of shape] by (auto simp: response_setstate_def msg_class_other)
next
  case (MsgResponse msg)
  then show ?thesis using assms msg_class_other(1)
    by (auto simp: response_setstate_def wire_def state_readers)
qed (use assms in \<open>auto simp: response_setstate_def msg_class_other wire_def state_readers\<close>)

lemma process_request_fits:
  assumes "process_request U roles req (s, m) = Inr (st', r)"
  shows "r = NoResponse \<and> (kv_response_class req = None \<or> (\<exists>role g. req = BarrierRequest role g)) \<or>
    (\<exists>l role g. r = ResponseList l \<and> req = BarrierRequest role g) \<or>
    (\<exists>cls. kv_response_class req = Some cls \<and> response_fits cls r)"
  using assms
  by (cases req)
     (auto simp: kv_response_class_def kv_services_def msg_classes_def pull_process_def push_process_def
        init_data_process_def barrier_process_def register_pull_process_def register_push_process_def
        get_shared_process_def get_part_shape_process_def send_meta_process_def delete_data_process_def
        count_nonzero_process_def rbind_eq_Inr Let_def split: if_splits)

text \<open>Every request of the key-value store that is sent is received as it was sent: encoding
  its state, decoding it and setting it in the class the service names gives the request back, for
  every class.\<close>

theorem kv_request_roundtrip:
  assumes "\<And>x. loads (dumps x) = x" and "serialize_to_payload dumps (request_getstate req) = (data, tensors)"
  shows "rbind (deserialize_from_payload loads data tensors) (request_setstate (request_class req)) = Inr req"
  using wire_roundtrip [of loads dumps "request_getstate req", OF assms(1)] assms(2) request_state_wire [of req]
  by simp

theorem kv_request_roundtrip_witness:
  "rbind (deserialize_from_payload (\<lambda>x. x) ([0], [OStr ''h'']) [IdTensor [4, 2], RowTensor [7, 8 :: int]])
     (request_setstate ''PushRequest'') = Inr (PushRequest ''h'' [4, 2] [7, 8])"
  using kv_request_roundtrip [of "\<lambda>x. x" "\<lambda>x. x" "PushRequest ''h'' [4, 2] [7, 8 :: int]"]
  by (simp add: serialize_to_payload_def)



lemma register_fresh:
  assumes "distinct (map fst svcs)" and "distinct (map (fst \<circ> snd) svcs)"
    and "distinct (concat (map (\<lambda>(_, _, res). case res of None \<Rightarrow> [] | Some r \<Rightarrow> [r]) svcs))"
    and "set (map fst svcs) \<inter> fst ` set (rc_properties c) = {}"
    and "set (map (fst \<circ> snd) svcs) \<inter> fst ` set (rc_req_service c) = {}"
    and "set (concat (map (\<lambda>(_, _, res). case res of None \<Rightarrow> [] | Some r \<Rightarrow> [r]) svcs)) \<inter>
      fst ` set (rc_res_service c) = {}"
  shows "fold (\<lambda>(sid, req, res). register_service sid req res) svcs c =
    c\<lparr>rc_req_service := rc_req_service c @ map (\<lambda>(sid, req, _). (req, sid)) svcs,
      rc_res_service := rc_res_service c @
        concat (map (\<lambda>(sid, _, res). case res of None \<Rightarrow> [] | Some r \<Rightarrow> [(r, sid)]) svcs),
      rc_properties := rc_properties c @ svcs\<rparr>"
  using assms
proof (induction svcs arbitrary: c)
  case (Cons x svcs)
  obtain sid req res where x: "x = (sid, req, res)" by (metis prod_cases3)
  have step: "register_service sid req res c =
      c\<lparr>rc_req_service := rc_req_service c @ [(req, sid)],
        rc_res_service := rc_res_service c @ (case res of None \<Rightarrow> [] | Some r \<Rightarrow> [(r, sid)]),
        rc_properties := rc_properties c @ [(sid, req, res)]\<rparr>" (is "_ = ?c")
    using Cons.prems x by (cases res) (simp_all add: register_service_def update_fresh)
  have "fold (\<lambda>(sid, req, res). register_service sid req res) (x # svcs) c =
      fold (\<lambda>(sid, req, res). register_service sid req res) svcs ?c" by (simp add: x step)
  also have "\<dots> = ?c\<lparr>rc_req_service := rc_req_service ?c @ map (\<lambda>(sid, req, _). (req, sid)) svcs,
      rc_res_service := rc_res_service ?c @
        concat (map (\<lambda>(sid, _, res). case res of None \<Rightarrow> [] | Some r \<Rightarrow> [(r, sid)]) svcs),
      rc_properties := rc_properties ?c @ svcs\<rparr>"
  proof (rule Cons.IH)
    show "set (map fst svcs) \<inter> fst ` set (rc_properties ?c) = {}"
      using Cons.prems(1,4) x by auto
    show "set (map (fst \<circ> snd) svcs) \<inter> fst ` set (rc_req_service ?c) = {}"
      using Cons.prems(2,5) x by auto
    show "set (concat (map (\<lambda>(_, _, res). case res of None \<Rightarrow> [] | Some r \<Rightarrow> [r]) svcs)) \<inter>
        fst ` set (rc_res_service ?c) = {}"
      using Cons.prems(3,6) x by (cases res) auto
    show "distinct (concat (map (\<lambda>(_, _, res). case res of None \<Rightarrow> [] | Some r \<Rightarrow> [r]) svcs))"
      using Cons.prems(3) x by (cases res) auto
  qed (use Cons.prems(1,2) in simp_all)
  finally show ?case by (simp add: x)
qed simp

lemma kv_tables:
  assumes "rc_req_service c = []" and "rc_res_service c = []" and "rc_properties c = []"
  shows "rc_req_service (kv_register_services c) = map (\<lambda>(sid, req, _). (req, sid)) kv_services"
    and "rc_res_service (kv_register_services c) =
      concat (map (\<lambda>(sid, _, res). case res of None \<Rightarrow> [] | Some r \<Rightarrow> [(r, sid)]) kv_services)"
    and "rc_properties (kv_register_services c) = kv_services"
proof -
  have "kv_register_services c = c\<lparr>rc_req_service := rc_req_service c @ map (\<lambda>(sid, req, _). (req, sid)) kv_services,
      rc_res_service := rc_res_service c @
        concat (map (\<lambda>(sid, _, res). case res of None \<Rightarrow> [] | Some r \<Rightarrow> [(r, sid)]) kv_services),
      rc_properties := rc_properties c @ kv_services\<rparr>"
    unfolding kv_register_services_def
    by (rule register_fresh) (simp_all add: assms, simp_all add: kv_services_def)
  then show "rc_req_service (kv_register_services c) = map (\<lambda>(sid, req, _). (req, sid)) kv_services"
    "rc_res_service (kv_register_services c) =
      concat (map (\<lambda>(sid, _, res). case res of None \<Rightarrow> [] | Some r \<Rightarrow> [(r, sid)]) kv_services)"
    "rc_properties (kv_register_services c) = kv_services" by (simp_all add: assms)
qed

text \<open>After the services are registered, every request class has the service, and the service
  the response class, that the sending and receiving code looks up.\<close>

theorem kv_services_registered:
  assumes "rc_req_service c = []" and "rc_res_service c = []" and "rc_properties c = []"
  shows "registry_ok (kv_register_services c) \<and>
    is_registered (kv_register_services c) (request_class req) \<and>
    response_class (kv_register_services c) (request_class req) = kv_response_class req"
proof (intro conjI)
  note T = kv_tables [OF assms]
  show "registry_ok (kv_register_services c)" by (simp add: registry_ok_def T kv_services_def)
  show "is_registered (kv_register_services c) (request_class req)"
    by (cases req) (simp_all add: is_registered_def T kv_services_def)
  show "response_class (kv_register_services c) (request_class req) = kv_response_class req"
    by (cases req) (simp_all add: response_class_def service_of_def T kv_response_class_def kv_services_def)
qed

theorem kv_services_registered_witness:
  "response_class (kv_register_services
      \<lparr>rc_msg_seq = 0, rc_rank = 0, rc_group_id = 0, rc_num_server_per_machine = 1,
       rc_req_service = [], rc_res_service = [], rc_properties = []\<rparr>) ''PullRequest'' = Some ''PullResponse''"
  using kv_services_registered [of "\<lparr>rc_msg_seq = 0, rc_rank = 0, rc_group_id = 0, rc_num_server_per_machine = 1,
       rc_req_service = [], rc_res_service = [], rc_properties = []\<rparr>" "PullRequest [] []"]
  by (simp add: kv_response_class_def kv_services_def)

end
