(* ===== verification/KVClient.thy ===== *)
theory KVClient
  imports KVServerProps KVMessage
begin

text \<open>
  \<^verbatim>\<open>python/dgl/distributed/kvstore.py\<close>, the client: the object \<open>KVClient\<close> and its methods,
  with \<open>rpc.fast_pull\<close> and the C++ loops behind it (\<^verbatim>\<open>src/rpc/rpc.cc\<close>). The servers are a
  \<open>cluster\<close>: server objects by server ID, and a memory per machine, which the client's own views of
  its machine share.

  The network is in the arguments: \<open>rand k lo hi\<close> is the server picked for the \<open>k\<close>-th request,
  and \<open>arrive\<close> is the order in which the responses arrive.
\<close>

section \<open>The cluster\<close>

record 'v cluster =
  cl_server :: "int \<Rightarrow> kv_server"
  cl_memory :: "int \<Rightarrow> 'v memory"

type_synonym role_tables = "(int \<times> (string \<times> (int \<times> int) list) list) list"

definition cluster_call :: "'v udfs \<Rightarrow> role_tables \<Rightarrow> int \<Rightarrow> 'v kv_request \<Rightarrow> 'v cluster \<Rightarrow>
    ('v cluster \<times> 'v kv_response) res" where
  "cluster_call U roles sid req cl =
     (let s = cl_server cl sid; k = ks_machine_id s in
      rbind (process_request U roles req (s, cl_memory cl k)) (\<lambda>((s', m'), r).
      Inr (cl\<lparr>cl_server := (cl_server cl)(sid := s'), cl_memory := (cl_memory cl)(k := m')\<rparr>, r)))"

fun cluster_calls :: "'v udfs \<Rightarrow> role_tables \<Rightarrow> (int \<times> 'v kv_request) list \<Rightarrow> 'v cluster \<Rightarrow>
    ('v cluster \<times> 'v kv_response list) res" where
  "cluster_calls U roles [] cl = Inr (cl, [])"
| "cluster_calls U roles ((sid, req) # reqs) cl =
     rbind (cluster_call U roles sid req cl) (\<lambda>(cl', r).
     rbind (cluster_calls U roles reqs cl') (\<lambda>(cl'', rs). Inr (cl'', r # rs)))"

section \<open>The client object\<close>

record kv_client =
  kc_client_id :: int
  kc_machine_id :: int
  kc_part_id :: int
  kc_main_server_id :: int
  kc_server_count :: int
  kc_group_count :: int
  kc_machine_count :: int
  kc_role :: string
  kc_data_store :: data_store
  kc_part_policy :: "(string \<times> partition_policy) list"
  kc_all_possible_part_policy :: "(string \<times> partition_policy) list"
  kc_full_data_shape :: "(string \<times> int list) list"
  kc_data_name_list :: "string list"
  kc_gdata_name_list :: "string list"
  kc_pull_handlers :: "(string \<times> handler) list"
  kc_push_handlers :: "(string \<times> handler) list"

definition kv_client_init :: "int \<Rightarrow> int \<Rightarrow> bool \<Rightarrow> namebook res \<Rightarrow> int \<Rightarrow> string \<Rightarrow> kv_client res" where
  "kv_client_init rank mach config_exists ip_config num_servers role =
     rbind (rassert (rank \<noteq> - 1) AssertionError) (\<lambda>_.
     rbind (rassert config_exists AssertionError) (\<lambda>_.
     rbind (rassert (0 < num_servers) AssertionError) (\<lambda>_.
     rbind ip_config (\<lambda>server_namebook.
     rbind (dict_get server_namebook 0) (\<lambda>(_, _, _, group_count).
     rbind (py_floordiv (int (length server_namebook)) group_count) (\<lambda>machine_count.
     Inr \<lparr>kc_client_id = rank, kc_machine_id = mach, kc_part_id = mach,
          kc_main_server_id = mach * group_count, kc_server_count = int (length server_namebook),
          kc_group_count = group_count, kc_machine_count = machine_count, kc_role = role,
          kc_data_store = [], kc_part_policy = [], kc_all_possible_part_policy = [],
          kc_full_data_shape = [], kc_data_name_list = [], kc_gdata_name_list = [],
          kc_pull_handlers = [], kc_push_handlers = []\<rparr>))))))"

text \<open>\<open>get_data_meta\<close>, \<open>get_partid\<close>, and the name lists.\<close>

definition kc_get_data_meta :: "kv_client \<Rightarrow> string \<Rightarrow> (string \<times> int list \<times> partition_policy) res" where
  "kc_get_data_meta c name =
     rbind (rassert (0 < length name) AssertionError) (\<lambda>_.
     rbind (dict_get (kc_data_store c) name) (\<lambda>v.
     rbind (dict_get (kc_full_data_shape c) name) (\<lambda>shape.
     rbind (dict_get (kc_part_policy c) name) (\<lambda>p.
     Inr (vw_dtype v, shape, p)))))"

definition kc_get_partid :: "numpy \<Rightarrow> kv_client \<Rightarrow> string \<Rightarrow> int list \<Rightarrow> int list res" where
  "kc_get_partid N c name ids =
     rbind (rassert (0 < length name) AssertionError) (\<lambda>_.
     rbind (dict_get (kc_part_policy c) name) (\<lambda>p. pp_to_partid N p ids))"

section \<open>Push and pull\<close>

text \<open>The loop over the machines: the slices of the sorted IDs.\<close>

fun machine_slices :: "int \<Rightarrow> (int \<times> int) list \<Rightarrow> 'a list \<Rightarrow> (int \<times> 'a list) list" where
  "machine_slices start [] xs = []"
| "machine_slices start ((machine_idx, cnt) # rest) xs =
     (if start = start + cnt then machine_slices start rest xs
      else (machine_idx, py_slice xs start (start + cnt)) # machine_slices (start + cnt) rest xs)"

definition own_slice :: "kv_client \<Rightarrow> (int \<times> 'a list) list \<Rightarrow> 'a list option" where
  "own_slice c slices = map_option snd (find (\<lambda>(k, s). k = kc_machine_id c) slices)"

text \<open>\<open>send_request_to_machine\<close> for the \<open>n\<close>-th request of a call.\<close>

definition pick_server :: "(nat \<Rightarrow> int \<Rightarrow> int \<Rightarrow> int) \<Rightarrow> kv_client \<Rightarrow> nat \<Rightarrow> int \<Rightarrow> int" where
  "pick_server rand c n k = rand n (k * kc_group_count c) ((k + 1) * kc_group_count c - 1)"

text \<open>The push of the client's own slice, if there is one.\<close>

definition push_own_slice :: "'v udfs \<Rightarrow> kv_client \<Rightarrow> string \<Rightarrow> partition_policy \<Rightarrow> (int \<times> 'v) list option \<Rightarrow>
    'v memory \<Rightarrow> 'v memory res" where
  "push_own_slice U c name p own mem =
     (case own of
        None \<Rightarrow> Inr mem
      | Some s \<Rightarrow>
          rbind (pp_to_local p (map fst s)) (\<lambda>local_id.
          rbind (dict_get (kc_push_handlers c) name) (\<lambda>h.
          run_push U h mem (kc_data_store c) name local_id (map snd s))))"

text \<open>\<open>push\<close> sends requests that have no response: the result is the list of the messages, with the
  server each is for, and the memory of the client's machine after the local push.\<close>

definition kc_push :: "numpy \<Rightarrow> 'v udfs \<Rightarrow> (nat \<Rightarrow> int \<Rightarrow> int \<Rightarrow> int) \<Rightarrow> kv_client \<Rightarrow> string \<Rightarrow> int list \<Rightarrow> 'v list \<Rightarrow> 'v memory \<Rightarrow>
    ((int \<times> 'v kv_request) list \<times> 'v memory) res" where
  "kc_push N U rand c name ids data mem =
     rbind (rassert (0 < length name) AssertionError) (\<lambda>_.
     rbind (rassert (length ids = length data) AssertionError) (\<lambda>_.
     rbind (dict_get (kc_part_policy c) name) (\<lambda>p.
     rbind (pp_to_partid N p ids) (\<lambda>machine_id.
     let sorted_id = np_argsort N machine_id in
     rbind (take_rows ids sorted_id) (\<lambda>id_tensor.
     rbind (take_rows data sorted_id) (\<lambda>data_tensor.
     let slices = machine_slices 0 (np_unique_counts N machine_id) (zip id_tensor data_tensor);
         remote = filter (\<lambda>(k, s). k \<noteq> kc_machine_id c) slices;
         messages = map (\<lambda>(n, k, s). (pick_server rand c n k, PushRequest name (map fst s) (map snd s)))
           (zip [0..<length remote] remote) in
     rbind (push_own_slice U c name p (own_slice c slices) mem) (\<lambda>mem'.
     Inr (messages, mem'))))))))"

text \<open>\<open>pull\<close> with a handler of the user: requests to the machines, the local rows, and the
  responses sorted by server ID. \<open>answer\<close> is the response of a server.\<close>

definition kc_pull_slow :: "numpy \<Rightarrow> 'v udfs \<Rightarrow> (nat \<Rightarrow> int \<Rightarrow> int \<Rightarrow> int) \<Rightarrow>
    ((int \<times> 'v list) list \<Rightarrow> (int \<times> 'v list) list) \<Rightarrow> (int \<Rightarrow> string \<Rightarrow> int list \<Rightarrow> (int \<times> 'v list) res) \<Rightarrow>
    kv_client \<Rightarrow> string \<Rightarrow> int list \<Rightarrow> 'v memory \<Rightarrow> 'v list res" where
  "kc_pull_slow N U rand arrive answer c name ids mem =
     rbind (dict_get (kc_part_policy c) name) (\<lambda>p.
     rbind (pp_to_partid N p ids) (\<lambda>machine_id.
     let sorted_id = np_argsort N machine_id; back_sorted_id = np_argsort N sorted_id in
     rbind (take_rows ids sorted_id) (\<lambda>id_tensor.
     let slices = machine_slices 0 (np_unique_counts N machine_id) id_tensor;
         remote = filter (\<lambda>(k, s). k \<noteq> kc_machine_id c) slices in
     rbind (case own_slice c slices of
              None \<Rightarrow> Inr []
            | Some s \<Rightarrow>
                rbind (pp_to_local p s) (\<lambda>local_id.
                rbind (dict_get (kc_pull_handlers c) name) (\<lambda>h.
                rbind (run_pull U h mem (kc_data_store c) name local_id) (\<lambda>local_data.
                Inr [(kc_main_server_id c, local_data)])))) (\<lambda>local_response.
     rbind (rmap (\<lambda>(n, k, s). answer (pick_server rand c n k) name s)
              (zip [0..<length remote] remote)) (\<lambda>remote_responses.
     let response_list = sort_key fst (local_response @ arrive remote_responses) in
     if response_list = [] then Inl RuntimeError
     else take_rows (concat (map snd response_list)) back_sorted_id)))))"

text \<open>\<open>fast_pull\<close>. The first loop goes over the IDs: the local ones with their place in the
  result, the others by partition. A failed check of the C++ code is a \<open>DGLError\<close>.\<close>

fun fp_split :: "int \<Rightarrow> int \<Rightarrow> int \<Rightarrow> nat \<Rightarrow> (int \<times> int) list \<Rightarrow> int list \<Rightarrow>
    ((nat \<times> int) list \<times> (int \<times> nat \<times> int) list) res" where
  "fp_split local_machine_id machine_count num_rows i [] local_id = Inr ([], [])"
| "fp_split local_machine_id machine_count num_rows i ((p_id, gid) # xs) local_id =
     (if p_id = local_machine_id then
        (case local_id of
           [] \<Rightarrow> Inl DGLError
         | l_id # ls \<Rightarrow>
             rbind (rassert (0 \<le> l_id \<and> l_id < num_rows) DGLError) (\<lambda>_.
             rbind (fp_split local_machine_id machine_count num_rows (i + 1) xs ls) (\<lambda>(locs, rems).
             Inr ((i, l_id) # locs, rems))))
      else
        rbind (rassert (0 \<le> p_id \<and> p_id < machine_count) DGLError) (\<lambda>_.
        rbind (fp_split local_machine_id machine_count num_rows (i + 1) xs local_id) (\<lambda>(locs, rems).
        Inr (locs, (p_id, i, gid) # rems))))"

definition fp_remote :: "(int \<times> nat \<times> int) list \<Rightarrow> int \<Rightarrow> (nat \<times> int) list" where
  "fp_remote rems k = map snd (filter (\<lambda>(p_id, _). p_id = k) rems)"

text \<open>A response is copied row by row to the places of its partition's IDs; a response with too few
  rows would be read past its end, where the model stops.\<close>

definition fp_copy :: "int \<Rightarrow> (int \<times> nat \<times> int) list \<Rightarrow> 'v option list \<Rightarrow> int \<times> 'v list \<Rightarrow> 'v option list res" where
  "fp_copy group_count rems res_tensor resp =
     (let places = map fst (fp_remote rems (fst resp div group_count)) in
      if length (snd resp) < length places then Inl RuntimeError
      else Inr (foldl (\<lambda>r (i, v). r[i := Some v]) res_tensor (zip places (snd resp))))"

definition fast_pull :: "(int \<Rightarrow> int \<Rightarrow> int) \<Rightarrow> ((int \<times> 'v list) list \<Rightarrow> (int \<times> 'v list) list) \<Rightarrow>
    (int \<Rightarrow> string \<Rightarrow> int list \<Rightarrow> (int \<times> 'v list) res) \<Rightarrow> string \<Rightarrow> int list \<Rightarrow> int list \<Rightarrow> int \<Rightarrow> int \<Rightarrow> int \<Rightarrow>
    'v list \<Rightarrow> partition_policy \<Rightarrow> 'v option list res" where
  "fast_pull rand arrive answer name id_tensor part_id machine_count group_count machine_id local_data p =
     (let global_id = map snd (filter (\<lambda>(q, _). q = machine_id) (zip part_id id_tensor)) in
      rbind (pp_to_local p global_id) (\<lambda>g2l_id.
      rbind (fp_split machine_id machine_count (int (length local_data)) 0 (zip part_id id_tensor) g2l_id) (\<lambda>(locs, rems).
      let targets = filter (\<lambda>k. fp_remote rems k \<noteq> []) (arange 0 machine_count) in
      rbind (rmap (\<lambda>k. answer (rand (k * group_count) ((k + 1) * group_count)) name (map snd (fp_remote rems k))) targets) (\<lambda>responses.
      let res_tensor = foldl (\<lambda>r (i, l_id). r[i := Some (local_data ! nat l_id)])
            (replicate (length id_tensor) None) locs in
      rfold (fp_copy group_count rems) res_tensor (arrive responses)))))"

text \<open>\<open>pull\<close>. \<open>rand\<close> is the choice of \<open>send_request_to_machine\<close>, \<open>rand_int\<close> the one of the C++
  code, whose upper bound is excluded.\<close>

definition kc_pull :: "numpy \<Rightarrow> 'v udfs \<Rightarrow> (nat \<Rightarrow> int \<Rightarrow> int \<Rightarrow> int) \<Rightarrow> (int \<Rightarrow> int \<Rightarrow> int) \<Rightarrow>
    ((int \<times> 'v list) list \<Rightarrow> (int \<times> 'v list) list) \<Rightarrow> (int \<Rightarrow> string \<Rightarrow> int list \<Rightarrow> (int \<times> 'v list) res) \<Rightarrow>
    kv_client \<Rightarrow> string \<Rightarrow> int list \<Rightarrow> 'v memory \<Rightarrow> 'v option list res" where
  "kc_pull N U rand rand_int arrive answer c name ids mem =
     rbind (rassert (0 < length name) AssertionError) (\<lambda>_.
     rbind (dict_get (kc_pull_handlers c) name) (\<lambda>h.
     if h = Default_handler then
       rbind (dict_get (kc_part_policy c) name) (\<lambda>p.
       rbind (pp_to_partid N p ids) (\<lambda>part_id.
       rbind (dict_get (kc_data_store c) name) (\<lambda>v.
       fast_pull rand_int arrive answer name ids part_id (kc_machine_count c) (kc_group_count c)
         (kc_machine_id c) (view_rows mem v) p)))
     else
       rbind (kc_pull_slow N U rand arrive answer c name ids mem) (\<lambda>rows. Inr (map Some rows))))"

text \<open>The response of a server of a cluster to a pull.\<close>

definition pull_answer :: "'v udfs \<Rightarrow> role_tables \<Rightarrow> 'v cluster \<Rightarrow> int \<Rightarrow> string \<Rightarrow> int list \<Rightarrow>
    (int \<times> 'v list) res" where
  "pull_answer U roles cl sid name ids =
     rbind (cluster_call U roles sid (PullRequest name ids) cl) (\<lambda>(_, r).
     case r of PullResponse server_id data \<Rightarrow> Inr (server_id, data) | _ \<Rightarrow> Inl AttributeError)"

section \<open>Union and counting\<close>

text \<open>A binary operation of two tensors of rows: of the same length, or one of a single row.\<close>

definition broadcast_op :: "('v \<Rightarrow> 'v \<Rightarrow> 'v) \<Rightarrow> 'v list \<Rightarrow> 'v list \<Rightarrow> 'v list res" where
  "broadcast_op f xs ys =
     (if length xs = length ys then Inr (map2 f xs ys)
      else if length xs = 1 then Inr (map (f (hd xs)) ys)
      else if length ys = 1 then Inr (map (\<lambda>x. f x (hd ys)) xs)
      else Inl RuntimeError)"

definition kc_union :: "('v \<Rightarrow> 'v \<Rightarrow> 'v) \<Rightarrow> kv_client \<Rightarrow> string \<Rightarrow> string \<Rightarrow> string \<Rightarrow> 'v memory \<Rightarrow> 'v memory res" where
  "kc_union bit_or c operand1_name operand2_name output_name mem =
     rbind (dict_get (kc_data_store c) operand1_name) (\<lambda>v1.
     rbind (dict_get (kc_data_store c) operand2_name) (\<lambda>v2.
     rbind (broadcast_op bit_or (view_rows mem v1) (view_rows mem v2)) (\<lambda>rows.
     rbind (dict_get (kc_data_store c) output_name) (\<lambda>v.
     rbind (put_rows (view_rows mem v) (arange 0 (int (length (view_rows mem v)))) rows) (\<lambda>out.
     Inr (write_rows v out mem))))))"

definition kc_count_nonzero :: "'v udfs \<Rightarrow> role_tables \<Rightarrow> (nat \<Rightarrow> int \<Rightarrow> int \<Rightarrow> int) \<Rightarrow>
    kv_client \<Rightarrow> string \<Rightarrow> 'v cluster \<Rightarrow> int res" where
  "kc_count_nonzero U roles rand c name cl =
     (let machines = arange 0 (kc_machine_count c);
          remote = filter (\<lambda>k. k \<noteq> kc_machine_id c) machines in
      rbind (if kc_machine_id c \<in> set machines then
               rbind (dict_get (kc_part_policy c) name) (\<lambda>p.
               rbind (pp_get_part_size p) (\<lambda>n.
               rbind (dict_get (kc_data_store c) name) (\<lambda>v.
               rbind (take_rows (view_rows (cl_memory cl (kc_machine_id c)) v) (arange 0 n)) (\<lambda>rows.
               Inr (sum_list (map (ud_nonzero U) rows))))))
             else Inr 0) (\<lambda>local_count.
      rbind (cluster_calls U roles (map (\<lambda>(n, k). (pick_server rand c n k, CountLocalNonzeroRequest name))
               (zip [0..<length remote] remote)) cl) (\<lambda>(_, rs).
      rbind (rmap (\<lambda>r. case r of NonzeroResponse n \<Rightarrow> Inr n | _ \<Rightarrow> Inl AttributeError) rs) (\<lambda>ns.
      Inr (local_count + sum_list ns)))))"

section \<open>Creating, deleting and mapping tensors\<close>

text \<open>A request to several servers, whose responses must all carry the given message. A method that
  waits at barriers takes \<open>bar\<close>: \<open>bar k\<close> is what the other clients do to the cluster while this one
  waits at the \<open>k\<close>-th barrier of the call.\<close>

definition response_msg :: "'v kv_response \<Rightarrow> string res" where
  "response_msg r = (case r of MsgResponse msg \<Rightarrow> Inr msg | _ \<Rightarrow> Inl AttributeError)"

definition request_all :: "'v udfs \<Rightarrow> role_tables \<Rightarrow> int list \<Rightarrow> 'v kv_request \<Rightarrow> string \<Rightarrow> 'v cluster \<Rightarrow>
    'v cluster res" where
  "request_all U roles servers req msg cl =
     rbind (cluster_calls U roles (map (\<lambda>sid. (sid, req)) servers) cl) (\<lambda>(cl', rs).
     rbind (rfold (\<lambda>_ r. rbind (response_msg r) (\<lambda>m. rassert (m = msg) AssertionError)) () rs) (\<lambda>_.
     Inr cl'))"

definition kc_register_push_handler :: "'v udfs \<Rightarrow> role_tables \<Rightarrow> (nat \<Rightarrow> 'v cluster \<Rightarrow> 'v cluster) \<Rightarrow>
    string \<Rightarrow> handler \<Rightarrow> kv_client \<times> 'v cluster \<Rightarrow> (kv_client \<times> 'v cluster) res" where
  "kc_register_push_handler U roles bar name func st =
     (case st of (c, cl) \<Rightarrow>
      rbind (request_all U roles (arange 0 (kc_server_count c)) (RegisterPushHandlerRequest name func)
               REGISTER_PUSH_MSG (bar 0 cl)) (\<lambda>cl.
      Inr (c\<lparr>kc_push_handlers := AList.update name func (kc_push_handlers c)\<rparr>, bar 1 cl)))"

definition kc_register_pull_handler :: "'v udfs \<Rightarrow> role_tables \<Rightarrow> (nat \<Rightarrow> 'v cluster \<Rightarrow> 'v cluster) \<Rightarrow>
    string \<Rightarrow> handler \<Rightarrow> kv_client \<times> 'v cluster \<Rightarrow> (kv_client \<times> 'v cluster) res" where
  "kc_register_pull_handler U roles bar name func st =
     (case st of (c, cl) \<Rightarrow>
      rbind (request_all U roles (arange 0 (kc_server_count c)) (RegisterPullHandlerRequest name func)
               REGISTER_PULL_MSG (bar 0 cl)) (\<lambda>cl.
      Inr (c\<lparr>kc_pull_handlers := AList.update name func (kc_pull_handlers c)\<rparr>, bar 1 cl)))"

text \<open>The servers of a machine, and those of them that are backups.\<close>

definition group_servers :: "kv_client \<Rightarrow> int \<Rightarrow> int list" where
  "group_servers c k = map (\<lambda>n. k * kc_group_count c + n) (arange 0 (kc_group_count c))"

definition backup_servers :: "kv_client \<Rightarrow> int list" where
  "backup_servers c = map (\<lambda>i. kc_machine_id c * kc_group_count c + i + 1) (arange 0 (kc_group_count c - 1))"

definition add_name :: "string \<Rightarrow> string list \<Rightarrow> string list" where
  "add_name x xs = (if x \<in> set xs then xs else xs @ [x])"

definition kc_init_data :: "'v udfs \<Rightarrow> role_tables \<Rightarrow> (nat \<Rightarrow> 'v cluster \<Rightarrow> 'v cluster) \<Rightarrow> string \<Rightarrow> int list \<Rightarrow>
    string \<Rightarrow> partition_policy \<Rightarrow> nat \<Rightarrow> bool \<Rightarrow> kv_client \<times> 'v cluster \<Rightarrow> (kv_client \<times> 'v cluster) res" where
  "kc_init_data U roles bar name shape dtype part_policy init_func is_gdata st =
     (case st of (c, cl) \<Rightarrow>
      rbind (rassert (0 < length name) AssertionError) (\<lambda>_.
      rbind (rassert (0 < length shape) AssertionError) (\<lambda>_.
      rbind (rassert (name \<notin> set (kc_data_name_list c)) AssertionError) (\<lambda>_.
      rbind (pp_get_part_size part_policy) (\<lambda>n.
      rbind (rassert (dtype \<in> set data_types) KeyError) (\<lambda>_.
      let part_shape = shape[0 := n] in
      rbind (request_all U roles (group_servers c (pp_part_id part_policy))
               (InitDataRequest name part_shape dtype (pp_policy_str part_policy) init_func) INIT_MSG
               (bar 0 cl)) (\<lambda>cl.
      let cl = bar 1 cl in
      rbind (rassert (name \<notin> fst ` set (kc_part_policy c)) RuntimeError) (\<lambda>_.
      rbind (rassert (name \<notin> fst ` set (kc_data_store c)) RuntimeError) (\<lambda>_.
      rbind (rassert (name \<notin> fst ` set (kc_full_data_shape c)) RuntimeError) (\<lambda>_.
      rbind (shm_open (kvdata_name name) part_shape dtype (cl_memory cl (kc_machine_id c))) (\<lambda>v.
      let c = c\<lparr>kc_part_policy := AList.update name part_policy (kc_part_policy c),
                kc_all_possible_part_policy :=
                  AList.update (pp_policy_str part_policy) part_policy (kc_all_possible_part_policy c),
                kc_data_store := AList.update name v (kc_data_store c),
                kc_data_name_list := add_name name (kc_data_name_list c),
                kc_gdata_name_list :=
                  (if is_gdata then add_name name (kc_gdata_name_list c) else kc_gdata_name_list c),
                kc_full_data_shape := AList.update name shape (kc_full_data_shape c),
                kc_pull_handlers := AList.update name Default_handler (kc_pull_handlers c),
                kc_push_handlers := AList.update name Default_handler (kc_push_handlers c)\<rparr> in
      rbind (request_all U roles (backup_servers c)
               (SendMetaToBackupRequest name dtype part_shape (pp_policy_str part_policy)
                  Default_handler Default_handler) SEND_META_TO_BACKUP_MSG cl) (\<lambda>cl.
      Inr (c, bar 2 cl)))))))))))))"

definition kc_delete_data :: "'v udfs \<Rightarrow> role_tables \<Rightarrow> (nat \<Rightarrow> 'v cluster \<Rightarrow> 'v cluster) \<Rightarrow> string \<Rightarrow>
    kv_client \<times> 'v cluster \<Rightarrow> (kv_client \<times> 'v cluster) res" where
  "kc_delete_data U roles bar name st =
     (case st of (c, cl) \<Rightarrow>
      rbind (rassert (0 < length name) AssertionError) (\<lambda>_.
      rbind (rassert (name \<in> set (kc_data_name_list c)) AssertionError) (\<lambda>_.
      rbind (dict_get (kc_part_policy c) name) (\<lambda>p.
      rbind (request_all U roles (group_servers c (pp_part_id p)) (DeleteDataRequest name) DELETE_MSG
               (bar 0 cl)) (\<lambda>cl.
      let cl = bar 1 cl in
      rbind (dict_del (kc_data_store c) name) (\<lambda>store.
      rbind (dict_del (kc_full_data_shape c) name) (\<lambda>shapes.
      rbind (dict_del (kc_part_policy c) name) (\<lambda>policies.
      rbind (dict_del (kc_pull_handlers c) name) (\<lambda>pulls.
      rbind (dict_del (kc_push_handlers c) name) (\<lambda>pushes.
      Inr (c\<lparr>kc_data_name_list := remove1 name (kc_data_name_list c),
             kc_gdata_name_list := remove1 name (kc_gdata_name_list c),
             kc_data_store := store, kc_full_data_shape := shapes, kc_part_policy := policies,
             kc_pull_handlers := pulls, kc_push_handlers := pushes\<rparr>, bar 2 cl)))))))))))"

text \<open>\<open>map_shared_data\<close>, in the order of its loops: the policies of the book, the tensors of the
  machine's main server, the full shapes, and the backup servers.\<close>

definition add_policy :: "partition_policy \<Rightarrow> kv_client \<Rightarrow> kv_client" where
  "add_policy p c =
     c\<lparr>kc_all_possible_part_policy := AList.update (pp_policy_str p) p (kc_all_possible_part_policy c)\<rparr>"

definition map_policies :: "range_book \<Rightarrow> kv_client \<Rightarrow> kv_client res" where
  "map_policies b c =
     rbind (rfold (\<lambda>c ntype. rbind (node_policy_init b ntype) (\<lambda>p. Inr (add_policy p c))) c (rb_ntypes b)) (\<lambda>c.
     rfold (\<lambda>c etype. rbind (edge_policy_init b etype) (\<lambda>p. Inr (add_policy p c))) c (rb_canonical_etypes b))"



definition map_tensors :: "'v memory \<Rightarrow> shared_meta \<Rightarrow> kv_client \<Rightarrow> kv_client res" where
  "map_tensors mem meta c =
     rfold (\<lambda>c (name, shape, dtype, policy_str).
       if name \<in> set (kc_data_name_list c) then Inr c
       else rbind (case map_of (kc_all_possible_part_policy c) policy_str of
              None \<Rightarrow> Inl AssertionError | Some p \<Rightarrow> Inr p) (\<lambda>p.
            rbind (shm_open (kvdata_name name) shape dtype mem) (\<lambda>v.
            Inr (c\<lparr>kc_data_store := AList.update name v (kc_data_store c),
                   kc_part_policy := AList.update name p (kc_part_policy c),
                   kc_pull_handlers := AList.update name Default_handler (kc_pull_handlers c),
                   kc_push_handlers := AList.update name Default_handler (kc_push_handlers c)\<rparr>)))) c meta"

definition map_full_shape :: "'v udfs \<Rightarrow> role_tables \<Rightarrow> string \<Rightarrow> int list \<Rightarrow> kv_client \<times> 'v cluster \<Rightarrow>
    (kv_client \<times> 'v cluster) res" where
  "map_full_shape U roles name shape st =
     (case st of (c, cl) \<Rightarrow>
      rbind (py_set_index shape 0 0) (\<lambda>data_shape.
      rbind (cluster_calls U roles (map (\<lambda>k. (k * kc_group_count c, GetPartShapeRequest name))
               (arange 0 (kc_machine_count c))) cl) (\<lambda>(cl, rs).
      rbind (rmap (\<lambda>r. case r of PartShapeResponse s \<Rightarrow> py_index s 0 | _ \<Rightarrow> Inl AttributeError) rs) (\<lambda>ns.
      Inr (c\<lparr>kc_full_data_shape := AList.update name (data_shape[0 := sum_list ns]) (kc_full_data_shape c)\<rparr>, cl)))))"

definition map_backup :: "'v udfs \<Rightarrow> role_tables \<Rightarrow> string \<times> int list \<times> string \<times> string \<Rightarrow> kv_client \<times> 'v cluster \<Rightarrow>
    (kv_client \<times> 'v cluster) res" where
  "map_backup U roles item st =
     (case st of (c, cl) \<Rightarrow> case item of (name, shape, dtype, policy_str) \<Rightarrow>
      rbind (dict_get (kc_pull_handlers c) name) (\<lambda>f.
      rbind (dict_get (kc_push_handlers c) name) (\<lambda>g.
      rbind (request_all U roles (backup_servers c) (SendMetaToBackupRequest name dtype shape policy_str f g)
               SEND_META_TO_BACKUP_MSG cl) (\<lambda>cl.
      Inr (c\<lparr>kc_data_name_list := add_name name (kc_data_name_list c),
             kc_gdata_name_list := add_name name (kc_gdata_name_list c)\<rparr>, cl)))))"

definition kc_map_shared_data :: "'v udfs \<Rightarrow> role_tables \<Rightarrow> (nat \<Rightarrow> 'v cluster \<Rightarrow> 'v cluster) \<Rightarrow> range_book \<Rightarrow>
    kv_client \<times> 'v cluster \<Rightarrow> (kv_client \<times> 'v cluster) res" where
  "kc_map_shared_data U roles bar b st =
     (case st of (c, cl) \<Rightarrow>
      rbind (map_policies b c) (\<lambda>c.
      rbind (cluster_call U roles (kc_main_server_id c) (GetSharedDataRequest GET_SHARED_MSG) (bar 0 cl)) (\<lambda>(cl, r).
      rbind (case r of SharedDataResponse meta \<Rightarrow> Inr meta | _ \<Rightarrow> Inl AttributeError) (\<lambda>meta.
      rbind (map_tensors (cl_memory cl (kc_machine_id c)) meta c) (\<lambda>c.
      rbind (rfold (\<lambda>(c, cl) (name, shape, _).
               if name \<in> set (kc_data_name_list c) then Inr (c, cl)
               else map_full_shape U roles name shape (c, cl)) (c, cl) meta) (\<lambda>(c, cl).
      rbind (rfold (\<lambda>st item. map_backup U roles item st) (c, cl) meta) (\<lambda>(c, cl).
      Inr (c, bar 1 cl))))))))"

section \<open>The module's client\<close>

datatype kv_instance = Standalone_client | Distributed_client kv_client

definition init_kvstore :: "string option \<Rightarrow> kv_client res \<Rightarrow> kv_instance option \<Rightarrow> kv_instance option res" where
  "init_kvstore dist_mode new_client kvclient =
     (case kvclient of
        Some k \<Rightarrow> Inr (Some k)
      | None \<Rightarrow>
          if (case dist_mode of None \<Rightarrow> ''standalone'' | Some s \<Rightarrow> s) = ''standalone''
          then Inr (Some Standalone_client)
          else rbind new_client (\<lambda>c. Inr (Some (Distributed_client c))))"

definition close_kvstore :: "kv_instance option \<Rightarrow> kv_instance option" where
  "close_kvstore kvclient = None"

end
