(* ===== verification/KVClientProps.thy ===== *)
theory KVClientProps
  imports KVClient
begin

text \<open>
  What the client of the key-value store promises: a tensor spread over the machines is read and
  written as one array, whichever servers answer and in whatever order messages arrive.
\<close>

section \<open>Sorting by machine and back\<close>

lemma filter_hd_key:
  assumes "sorted (map f ys)" and "\<forall>y \<in> set ys. k \<le> f y"
  shows "ys = filter (\<lambda>y. f y = (k :: int)) ys @ filter (\<lambda>y. f y \<noteq> k) ys"
  using assms
proof (induction ys)
  case (Cons y ys)
  show ?case
  proof (cases "f y = k")
    case True
    then show ?thesis using Cons by simp
  next
    case False
    then have "f z \<noteq> k" if "z \<in> set (y # ys)" for z using Cons.prems that by auto
    then have "filter (\<lambda>y. f y = k) (y # ys) = []" "filter (\<lambda>y. f y \<noteq> k) (y # ys) = y # ys"
      by (auto simp: filter_empty_conv intro: filter_True)
    then show ?thesis by (simp only: append_Nil)
  qed
qed simp

lemma slice_middle: "py_slice (xs @ ys @ zs) (int (length xs)) (int (length xs) + int (length ys)) = ys"
  by (simp add: py_slice_nonneg)

lemma machine_slices_sorted:
  assumes "sorted (map f ys)" and "sorted_wrt (<) (map fst uc)" and "f ` set ys \<subseteq> fst ` set uc"
    and "\<forall>(k, n) \<in> set uc. n = int (length (filter (\<lambda>y. f y = k) ys)) \<and> n \<noteq> 0"
  shows "machine_slices (int (length pre)) uc (pre @ ys) =
      map (\<lambda>(k, _). (k, filter (\<lambda>y. f y = (k :: int)) ys)) uc \<and>
    concat (map (\<lambda>(k, _). filter (\<lambda>y. f y = k) ys) uc) = ys"
  using assms
proof (induction uc arbitrary: pre ys)
  case Nil
  then show ?case by simp
next
  case (Cons a uc)
  obtain k n where a: "a = (k, n)" by (cases a)
  let ?here = "\<lambda>ys. filter (\<lambda>y. f y = k) ys" and ?rest = "\<lambda>ys. filter (\<lambda>y. f y \<noteq> k) ys"
  have split: "ys = ?here ys @ ?rest ys"
    and rest: "sorted (map f (?rest ys))" "f ` set (?rest ys) \<subseteq> fst ` set uc"
    and same: "\<forall>x \<in> set uc. filter (\<lambda>y. f y = fst x) (?rest ys) = filter (\<lambda>y. f y = fst x) ys"
    if p: "sorted (map f ys)" "sorted_wrt (<) (map fst (a # uc))" "f ` set ys \<subseteq> fst ` set (a # uc)" for ys
  proof -
    have lt: "k < fst x" if "x \<in> set uc" for x using p(2) that a by auto
    have "\<forall>y \<in> set ys. k \<le> f y" using p(3) lt a by fastforce
    then show "ys = ?here ys @ ?rest ys" by (rule filter_hd_key [OF p(1)])
    show "sorted (map f (?rest ys))" using p(1) by (rule sorted_filter)
    show "f ` set (?rest ys) \<subseteq> fst ` set uc" using p(3) a by auto
    show "\<forall>x \<in> set uc. filter (\<lambda>y. f y = fst x) (?rest ys) = filter (\<lambda>y. f y = fst x) ys"
    proof
      fix x
      assume "x \<in> set uc"
      then have "k < fst x" by (rule lt)
      then show "filter (\<lambda>y. f y = fst x) (?rest ys) = filter (\<lambda>y. f y = fst x) ys"
        by (auto intro: filter_cong)
    qed
  qed
  have counts: "\<forall>(k, n) \<in> set uc. n = int (length (filter (\<lambda>y. f y = k) (?rest ys))) \<and> n \<noteq> 0"
    if "sorted (map f ys)" "sorted_wrt (<) (map fst (a # uc))" "f ` set ys \<subseteq> fst ` set (a # uc)"
      "\<forall>(k, n) \<in> set (a # uc). n = int (length (filter (\<lambda>y. f y = k) ys)) \<and> n \<noteq> 0" for ys
    using same [OF that(1-3)] that(4) by (auto simp: case_prod_unfold)
  have conv: "map (\<lambda>(k, _). filter (\<lambda>y. f y = k) (?rest ys)) uc = map (\<lambda>(k, _). filter (\<lambda>y. f y = k) ys) uc"
    "map (\<lambda>(k, _). (k, filter (\<lambda>y. f y = k) (?rest ys))) uc = map (\<lambda>(k, _). (k, filter (\<lambda>y. f y = k) ys)) uc"
    if "sorted (map f ys)" "sorted_wrt (<) (map fst (a # uc))" "f ` set ys \<subseteq> fst ` set (a # uc)" for ys
    using same [OF that] by (auto simp: case_prod_unfold)
  note P = Cons.prems
  have n: "n = int (length (?here ys))" "n \<noteq> 0" using P(4) a by auto
  have uc: "sorted_wrt (<) (map fst uc)" using P(2) by simp
  note IH = Cons.IH [OF rest(1) [OF P(1-3)] uc rest(2) [OF P(1-3)] counts [OF P]]
  have "pre @ ys = (pre @ ?here ys) @ ?rest ys" using split [OF P(1-3)] by simp
  moreover have "py_slice (pre @ ys) (int (length pre)) (int (length pre) + n) = ?here ys"
    using slice_middle [of pre "?here ys" "?rest ys"] split [OF P(1-3)] n(1) by simp
  moreover have "machine_slices (int (length pre) + n) uc (pre @ ys) =
      map (\<lambda>(k, _). (k, filter (\<lambda>y. f y = k) ys)) uc"
    and tail: "concat (map (\<lambda>(k, _). filter (\<lambda>y. f y = k) ys) uc) = ?rest ys"
    using IH [of "pre @ ?here ys", unfolded conv [OF P(1-3)]] calculation(1) n(1) by simp_all
  ultimately have "machine_slices (int (length pre)) (a # uc) (pre @ ys) =
      map (\<lambda>(k, _). (k, filter (\<lambda>y. f y = k) ys)) (a # uc)"
    using n(2) by (simp add: a)
  moreover have "concat (map (\<lambda>(k, _). filter (\<lambda>y. f y = k) ys) (a # uc)) = ?here ys @ ?rest ys"
    unfolding tail [symmetric] by (simp add: a)
  ultimately show ?case using split [OF P(1-3)] by simp
qed

lemma machine_slices_map:
  "machine_slices start uc (map g ys) = map (\<lambda>(k, s). (k, map g s)) (machine_slices start uc ys)"
  by (induction start uc ys rule: machine_slices.induct) (simp_all add: py_slice_def drop_map take_map Let_def)

lemma argsort_perm:
  assumes "numpy_laws N"
  shows "mset (np_argsort N xs) = mset (arange 0 (int (length xs)))"
    and "sorted (map (\<lambda>i. xs ! nat i) (np_argsort N xs))"
    and "set (np_argsort N xs) = {0..<int (length xs)}" and "length (np_argsort N xs) = length xs"
proof -
  show p: "mset (np_argsort N xs) = mset (arange 0 (int (length xs)))"
    and "sorted (map (\<lambda>i. xs ! nat i) (np_argsort N xs))"
    using assms by (simp_all add: numpy_laws_def)
  show "set (np_argsort N xs) = {0..<int (length xs)}" using mset_eq_setD [OF p] by simp
  show "length (np_argsort N xs) = length xs" using mset_eq_length [OF p] by simp
qed

text \<open>The slices of the sorted identifiers are, in machine order, the identifiers of each machine.\<close>

lemma slices_eq:
  fixes ms :: "int list" and xs :: "'a list"
  assumes N: "numpy_laws N"
  defines "\<sigma> \<equiv> np_argsort N ms" and "machines \<equiv> map fst (np_unique_counts N ms)"
  shows "machine_slices 0 (np_unique_counts N ms) (map (\<lambda>i. xs ! nat i) \<sigma>) =
      map (\<lambda>k. (k, map (\<lambda>i. xs ! nat i) (filter (\<lambda>i. ms ! nat i = k) \<sigma>))) machines"
    and "concat (map (\<lambda>k. filter (\<lambda>i. ms ! nat i = k) \<sigma>) machines) = \<sigma>"
    and "sorted_wrt (<) machines" and "set machines = set ms"
proof -
  let ?uc = "np_unique_counts N ms" and ?f = "\<lambda>i. ms ! nat i"
  note A = argsort_perm [OF N, of ms, folded \<sigma>_def]
  have U: "sorted_wrt (<) (map fst ?uc)" "set (map fst ?uc) = set ms"
    "\<forall>(x, n) \<in> set ?uc. n = int (count_list ms x)"
    using N by (simp_all add: numpy_laws_def)
  then show "sorted_wrt (<) machines" "set machines = set ms" by (simp_all add: machines_def)
  have ms: "ms = map ?f (arange 0 (int (length ms)))" by (rule nth_equalityI) simp_all
  have "length (filter (\<lambda>i. ?f i = k) \<sigma>) = count_list ms k" for k
  proof -
    have "count_list ms k = count (mset ms) k" by (simp add: count_mset count_list_eq_length_filter)
    also have "mset ms = mset (map ?f \<sigma>)" using arg_cong [OF ms, of mset] A(1) by (simp only: mset_map)
    also have "count \<dots> k = length (filter ((=) k) (map ?f \<sigma>))"
      by (simp only: count_mset count_list_eq_length_filter)
    also have "\<dots> = length (filter (\<lambda>i. ?f i = k) \<sigma>)" by (simp add: filter_map comp_def eq_commute)
    finally show ?thesis by simp
  qed
  moreover have "count_list ms k \<noteq> 0" if "(k, n) \<in> set ?uc" for k n
    using that U(2) by (metis count_list_0_iff fst_conv image_eqI list.set_map)
  ultimately have cnt: "\<forall>(k, n) \<in> set ?uc. n = int (length (filter (\<lambda>y. ?f y = k) \<sigma>)) \<and> n \<noteq> 0"
    using U(3) by fastforce
  have keys: "?f ` set \<sigma> \<subseteq> fst ` set ?uc" using A(3) U(2) by auto
  from machine_slices_sorted [OF A(2) U(1) keys cnt, of "[]"]
  show "machine_slices 0 ?uc (map (\<lambda>i. xs ! nat i) \<sigma>) =
      map (\<lambda>k. (k, map (\<lambda>i. xs ! nat i) (filter (\<lambda>i. ms ! nat i = k) \<sigma>))) machines"
    and "concat (map (\<lambda>k. filter (\<lambda>i. ms ! nat i = k) \<sigma>) machines) = \<sigma>"
    by (simp_all add: machine_slices_map machines_def comp_def case_prod_unfold)
qed

text \<open>Sorting the sorting permutation undoes it.\<close>

lemma argsort_inverse:
  assumes "numpy_laws N" and "mset \<sigma> = mset (arange 0 (int n))"
  shows "take_rows (map g \<sigma>) (np_argsort N \<sigma>) = Inr (map g (arange 0 (int n)))"
proof -
  note B = argsort_perm [OF assms(1), of \<sigma>]
  have len: "length \<sigma> = n" using mset_eq_length [OF assms(2)] by simp
  have "\<sigma> = map (\<lambda>i. \<sigma> ! nat i) (arange 0 (int (length \<sigma>)))" by (rule nth_equalityI) simp_all
  then have "mset (map (\<lambda>i. \<sigma> ! nat i) (np_argsort N \<sigma>)) = mset \<sigma>"
    using B(1) by (metis mset_map)
  then have "sort (arange 0 (int n)) = map (\<lambda>i. \<sigma> ! nat i) (np_argsort N \<sigma>)"
    using B(2) assms(2) by (intro properties_for_sort) simp_all
  moreover have "sort (arange 0 (int n)) = arange 0 (int n)" by (simp add: sorted_sort_id)
  ultimately have "map (\<lambda>i. \<sigma> ! nat i) (np_argsort N \<sigma>) = arange 0 (int n)" by simp
  then have "map g (arange 0 (int n)) = map (\<lambda>i. g (\<sigma> ! nat i)) (np_argsort N \<sigma>)"
    using map_map [of g "\<lambda>i. \<sigma> ! nat i" "np_argsort N \<sigma>"] by (simp only: comp_def)
  also have "\<dots> = map (\<lambda>i. map g \<sigma> ! nat i) (np_argsort N \<sigma>)"
    using B(3) by (intro map_cong) auto
  finally have "map g (arange 0 (int n)) = map (\<lambda>i. map g \<sigma> ! nat i) (np_argsort N \<sigma>)" .
  moreover have "take_rows (map g \<sigma>) (np_argsort N \<sigma>) = Inr (map (\<lambda>i. map g \<sigma> ! nat i) (np_argsort N \<sigma>))"
    using B(3) by (intro take_rows_valid) (simp add: valid_index_def)
  ultimately show ?thesis by simp
qed

section \<open>The interface to the servers\<close>

lemma sorted_by_machine:
  fixes R :: "(int \<times> 'a) list"
  assumes "0 < G" and "sorted_wrt (<) ks" and "mset (map (\<lambda>r. fst r div G) R) = mset ks"
    and "\<forall>r \<in> set R. snd r = d (fst r div G)"
  shows "map snd (sort_key fst R) = map d ks"
proof -
  have "sorted (map fst (sort_key fst R))" by simp
  then have "sorted_wrt (\<lambda>x y. x div G \<le> y div G) (map fst (sort_key fst R))"
    by (rule sorted_wrt_mono_rel [rotated]) (simp add: assms(1) zdiv_mono1)
  then have "sorted (map (\<lambda>r. fst r div G) (sort_key fst R))" by (simp add: sorted_wrt_map)
  moreover have "mset (map (\<lambda>r. fst r div G) (sort_key fst R)) = mset ks" using assms(3) by simp
  moreover have "sorted ks" using assms(2) by (rule strict_sorted_imp_sorted)
  ultimately have "map (\<lambda>r. fst r div G) (sort_key fst R) = ks"
    by (metis properties_for_sort sorted_sort_id)
  moreover have "map snd (sort_key fst R) = map d (map (\<lambda>r. fst r div G) (sort_key fst R))"
    using assms(4) by simp
  ultimately show ?thesis by simp
qed

lemma own_slice_map:
  "own_slice C (map (\<lambda>k. (k, S k)) ks) = (if kc_machine_id C \<in> set ks then Some (S (kc_machine_id C)) else None)"
  by (induction ks) (auto simp: own_slice_def)

lemma filter_one: "distinct ks \<Longrightarrow> filter (\<lambda>k. k = m) ks = (if m \<in> set ks then [m] else [])"
  by (induction ks) auto

text \<open>The local response and the remote ones, in any order, sorted by server.\<close>

lemma merged_responses:
  fixes rs :: "(int \<times> 'a) list"
  assumes G: "0 < G" and sorted: "sorted_wrt (<) ks"
    and rs: "map (\<lambda>r. fst r div G) rs = filter (\<lambda>k. k \<noteq> m) ks" "map snd rs = map d (filter (\<lambda>k. k \<noteq> m) ks)"
    and net: "mset rs' = mset rs" and loc: "loc = (if m \<in> set ks then [(m * G, d m)] else [])"
  shows "map snd (sort_key fst (loc @ rs')) = map d ks" and "ks \<noteq> [] \<Longrightarrow> sort_key fst (loc @ rs') \<noteq> []"
proof -
  have "distinct ks" using sorted by (simp add: strict_sorted_iff)
  then have loc1: "map (\<lambda>r. fst r div G) loc = filter (\<lambda>k. k = m) ks" using G by (simp add: loc filter_one)
  have "mset (map (\<lambda>r. fst r div G) rs') = mset (map (\<lambda>r. fst r div G) rs)"
    using arg_cong [OF net, of "image_mset (\<lambda>r. fst r div G)"] by (simp only: mset_map)
  then have "mset (map (\<lambda>r. fst r div G) (loc @ rs')) = mset (filter (\<lambda>k. k = m) ks) + mset (filter (\<lambda>k. k \<noteq> m) ks)"
    by (simp only: map_append mset_append loc1 rs(1))
  also have "\<dots> = mset ks" by (simp flip: multiset_partition)
  finally have keys: "mset (map (\<lambda>r. fst r div G) (loc @ rs')) = mset ks" .
  have "snd r = d (fst r div G)" if "r \<in> set rs" for r
  proof -
    obtain j where "j < length rs" "r = rs ! j" using \<open>r \<in> set rs\<close> by (metis in_set_conv_nth)
    then show ?thesis
      using arg_cong [OF rs(1), of "\<lambda>xs. map d xs ! j"] arg_cong [OF rs(2), of "\<lambda>xs. xs ! j"] by simp
  qed
  then have "\<forall>r \<in> set (loc @ rs'). snd r = d (fst r div G)"
    using mset_eq_setD [OF net] G by (auto simp: loc split: if_splits)
  from sorted_by_machine [OF G sorted keys this] show "map snd (sort_key fst (loc @ rs')) = map d ks" .
  then show "sort_key fst (loc @ rs') \<noteq> []" if "ks \<noteq> []" using that by (metis list.map_disc_iff)
qed

text \<open>The loops of the fast pull: the identifiers with their places in the result.\<close>

lemma fp_split_eq:
  assumes "\<forall>x \<in> set xs. 0 \<le> own x \<and> own x < machine_count"
    and "\<forall>x \<in> set xs. own x = me \<longrightarrow> 0 \<le> g x \<and> g x < num_rows"
  shows "fp_split me machine_count num_rows i (zip (map own xs) xs) (map g (filter (\<lambda>x. own x = me) xs)) =
    Inr (map (\<lambda>(j, x). (j, g x)) (filter (\<lambda>(j, x). own x = me) (enumerate i xs)),
         map (\<lambda>(j, x). (own x, j, x)) (filter (\<lambda>(j, x). own x \<noteq> me) (enumerate i xs)))"
  using assms by (induction xs arbitrary: i) auto

definition filled :: "(nat \<Rightarrow> 'a) \<Rightarrow> nat \<Rightarrow> nat set \<Rightarrow> 'a option list" where
  "filled val n W = map (\<lambda>j. if j \<in> W then Some (val j) else None) [0..<n]"

lemma fill_more:
  assumes "\<forall>(i, v) \<in> set zs. v = val i"
  shows "foldl (\<lambda>r (i, v). r[i := Some v]) (filled val n W) zs = filled val n (W \<union> fst ` set zs)"
  using assms
proof (induction zs arbitrary: W)
  case (Cons z zs)
  obtain i where z: "z = (i, val i)" using Cons.prems by (cases z) auto
  have "(filled val n W)[i := Some (val i)] = filled val n (insert i W)"
    unfolding filled_def
  proof (rule nth_equalityI)
    fix j
    assume "j < length ((map (\<lambda>j. if j \<in> W then Some (val j) else None) [0..<n])[i := Some (val i)])"
    then show "(map (\<lambda>j. if j \<in> W then Some (val j) else None) [0..<n])[i := Some (val i)] ! j =
        map (\<lambda>j. if j \<in> insert i W then Some (val j) else None) [0..<n] ! j"
      by (cases "j = i") simp_all
  qed simp
  then show ?case using Cons by (simp add: z)
qed simp

lemma fp_remote_eq:
  assumes "k \<noteq> me"
  shows "fp_remote (map (\<lambda>(j, x). (own x, j, x)) (filter (\<lambda>(j, x). own x \<noteq> me) (enumerate 0 xs))) k =
    filter (\<lambda>(j, x). own x = k) (enumerate 0 xs)"
  using assms by (auto simp: fp_remote_def filter_map comp_def case_prod_unfold intro: filter_cong)

lemma fp_local_fill:
  assumes "\<And>x. x \<in> set xs \<Longrightarrow> own x = me \<Longrightarrow> rows ! nat (g x) = val x"
  shows "foldl (\<lambda>r (i, l). r[i := Some (rows ! nat l)]) (replicate (length xs) None)
      (map (\<lambda>(j, x). (j, g x)) (filter (\<lambda>(j, x). own x = me) (enumerate 0 xs))) =
    filled (\<lambda>j. val (xs ! j)) (length xs) {j. j < length xs \<and> own (xs ! j) = me}"
proof -
  let ?zs = "map (\<lambda>(j, x). (j, val x)) (filter (\<lambda>(j, x). own x = me) (enumerate 0 xs))"
  have "foldl (\<lambda>r (i, l). r[i := Some (rows ! nat l)]) r
      (map (\<lambda>(j, x). (j, g x)) (filter (\<lambda>(j, x). own x = me) (enumerate 0 xs))) =
      foldl (\<lambda>r (i, v). r[i := Some v]) r ?zs" for r
    unfolding foldl_map using assms by (intro foldl_cong) (auto simp: in_set_enumerate_eq)
  moreover have "replicate (length xs) None = filled (\<lambda>j. val (xs ! j)) (length xs) {}"
    by (simp add: filled_def map_replicate_const)
  moreover have "foldl (\<lambda>r (i, v). r[i := Some v]) (filled (\<lambda>j. val (xs ! j)) (length xs) {}) ?zs =
      filled (\<lambda>j. val (xs ! j)) (length xs) ({} \<union> fst ` set ?zs)"
    by (rule fill_more) (auto simp: in_set_enumerate_eq)
  moreover have "fst ` set ?zs = {j. j < length xs \<and> own (xs ! j) = me}"
    by (force simp: in_set_enumerate_eq)
  ultimately show ?thesis by simp
qed

text \<open>Copying the responses of some partitions, in any order, fills the places of their identifiers.\<close>

lemma fp_copy_all:
  assumes "\<forall>r \<in> set rs. fst r div G \<noteq> me \<and>
      snd r = map (\<lambda>(j, x). val j) (filter (\<lambda>(j, x). own x = fst r div G) (enumerate 0 xs))"
  shows "rfold (fp_copy G (map (\<lambda>(j, x). (own x, j, x)) (filter (\<lambda>(j, x). own x \<noteq> me) (enumerate 0 xs))))
      (filled val n W) rs =
    Inr (filled val n (W \<union> {j. j < length xs \<and> own (xs ! j) \<in> (\<lambda>r. fst r div G) ` set rs}))"
  using assms
proof (induction rs arbitrary: W)
  case (Cons r rs)
  let ?here = "filter (\<lambda>(j, x). own x = fst r div G) (enumerate 0 xs)"
  let ?rems = "map (\<lambda>(j, x). (own x, j, x)) (filter (\<lambda>(j, x). own x \<noteq> me) (enumerate 0 xs))"
  have r: "fp_remote ?rems (fst r div G) = ?here" "snd r = map (\<lambda>(j, x). val j) ?here"
    using Cons.prems by (simp_all add: fp_remote_eq)
  have places: "fst ` set ?here = {j. j < length xs \<and> own (xs ! j) = fst r div G}"
    by (force simp: in_set_enumerate_eq)
  have "zip (map fst ?here) (map (\<lambda>(j, x). val j) ?here) = map (\<lambda>(j, x). (j, val j)) ?here"
    by (simp add: zip_map_map zip_same_conv_map case_prod_unfold comp_def)
  moreover have "foldl (\<lambda>r (i, v). r[i := Some v]) (filled val n W) (map (\<lambda>(j, x). (j, val j)) ?here) =
      filled val n (W \<union> fst ` set (map (\<lambda>(j, x). (j, val j)) ?here))"
    by (rule fill_more) auto
  moreover have "fst ` set (map (\<lambda>(j, x). (j, val j)) ?here) = {j. j < length xs \<and> own (xs ! j) = fst r div G}"
    unfolding places [symmetric] by force
  ultimately have "fp_copy G ?rems (filled val n W) r =
      Inr (filled val n (W \<union> {j. j < length xs \<and> own (xs ! j) = fst r div G}))"
    by (simp add: fp_copy_def r)
  then show ?case using Cons
    by (simp add: Un_assoc) (rule arg_cong [where f = "filled val n"], auto)
qed simp

text \<open>What a client asks of the servers: each identifier has an owner, and any server of the owner
  answers with the rows of the identifiers it is asked for, in the order of the request.\<close>

locale row_servers =
  fixes ok :: "'c \<Rightarrow> bool"
    and group :: "'c \<Rightarrow> int"
    and machines :: "'c \<Rightarrow> int"
    and owner :: "'c \<Rightarrow> int \<Rightarrow> int"
    and row :: "'c \<Rightarrow> int \<Rightarrow> 'v"
    and valid :: "'c \<Rightarrow> int \<Rightarrow> bool"
    and tensor_name :: "'c \<Rightarrow> string"
    and answer :: "'c \<Rightarrow> int \<Rightarrow> string \<Rightarrow> int list \<Rightarrow> (int \<times> 'v list) res"
  assumes group_pos: "ok c \<Longrightarrow> 0 < group c"
    and owner_range: "ok c \<Longrightarrow> valid c i \<Longrightarrow> 0 \<le> owner c i \<and> owner c i < machines c"
    and answer_rows: "ok c \<Longrightarrow> \<forall>i \<in> set ids. valid c i \<and> owner c i = k \<Longrightarrow> 0 \<le> k \<Longrightarrow> k < machines c \<Longrightarrow>
      k * group c \<le> sid \<Longrightarrow> sid < (k + 1) * group c \<Longrightarrow>
      answer c sid (tensor_name c) ids = Inr (sid, map (row c) ids)"
begin

lemma server_of_group:
  assumes "ok c" and "k * group c \<le> sid" and "sid < (k + 1) * group c"
  shows "sid div group c = k"
  using assms(2,3) by (intro int_div_pos_eq [where r = "sid - k * group c"]) (simp_all add: algebra_simps)

text \<open>The answers to the requests of a slow pull, one per remote slice.\<close>

lemma slice_answers:
  assumes ok: "ok c" and slices: "\<forall>(k, s) \<in> set slices. 0 \<le> k \<and> k < machines c \<and>
      (\<forall>i \<in> set s. valid c i \<and> owner c i = k)"
    and G: "kc_group_count C = group c" and rand: "\<And>n lo hi. lo \<le> hi \<Longrightarrow> lo \<le> rand n lo hi \<and> rand n lo hi \<le> hi"
  obtains rs where "rmap (\<lambda>(n, k, s). answer c (pick_server rand C n k) (tensor_name c) s)
      (zip [0..<length slices] slices) = Inr rs"
    and "map (\<lambda>r. fst r div group c) rs = map fst slices"
    and "map snd rs = map (\<lambda>(k, s). map (row c) s) slices"
proof -
  let ?g = "\<lambda>(n, k, s). (pick_server rand C n k, map (row c) s)"
  have one: "answer c (pick_server rand C n k) (tensor_name c) s = Inr (pick_server rand C n k, map (row c) s)
      \<and> pick_server rand C n k div group c = k" if "(k, s) \<in> set slices" for n k s
  proof -
    have "k * group c \<le> (k + 1) * group c - 1" using group_pos [OF ok] by (simp add: algebra_simps)
    from rand [OF this, of n]
    have b: "k * group c \<le> pick_server rand C n k" "pick_server rand C n k < (k + 1) * group c"
      by (simp_all add: pick_server_def G)
    with slices that have "answer c (pick_server rand C n k) (tensor_name c) s =
        Inr (pick_server rand C n k, map (row c) s)"
      by (intro answer_rows [OF ok, of s k]) auto
    with server_of_group [OF ok b] show ?thesis by simp
  qed
  show thesis
  proof (rule that)
    show "rmap (\<lambda>(n, k, s). answer c (pick_server rand C n k) (tensor_name c) s)
        (zip [0..<length slices] slices) = Inr (map ?g (zip [0..<length slices] slices))"
      by (rule rmap_total) (use one in \<open>auto dest: set_zip_rightD\<close>)
    have "map (\<lambda>r. fst r div group c) (map ?g (zip [0..<length slices] slices)) =
        map fst (map snd (zip [0..<length slices] slices))"
      unfolding map_map by (rule map_cong) (use one in \<open>auto dest: set_zip_rightD\<close>)
    then show "map (\<lambda>r. fst r div group c) (map ?g (zip [0..<length slices] slices)) = map fst slices"
      by simp
    show "map snd (map ?g (zip [0..<length slices] slices)) = map (\<lambda>(k, s). map (row c) s) slices"
      by (rule nth_equalityI) (simp_all add: case_prod_unfold)
  qed
qed

text \<open>The rows of a slow pull, in the order of the identifiers.\<close>

lemma pull_slow_rows:
  assumes ok: "ok c" and N: "numpy_laws N" and ids: "\<forall>i \<in> set ids. valid c i" and ne: "ids \<noteq> []"
    and part: "map_of (kc_part_policy C) (tensor_name c) = Some p" "pp_to_partid N p ids = Inr (map (owner c) ids)"
    and cl: "kc_group_count C = group c" "kc_main_server_id C = kc_machine_id C * group c"
    and local_rows: "\<And>s. \<forall>i \<in> set s. valid c i \<and> owner c i = kc_machine_id C \<Longrightarrow> \<exists>l h.
      pp_to_local p s = Inr l \<and> map_of (kc_pull_handlers C) (tensor_name c) = Some h \<and>
      run_pull U h mem (kc_data_store C) (tensor_name c) l = Inr (map (row c) s)"
    and rand: "\<And>n lo hi. lo \<le> hi \<Longrightarrow> lo \<le> rand n lo hi \<and> rand n lo hi \<le> hi"
    and net: "\<And>xs. mset (arrive xs) = mset xs"
  shows "kc_pull_slow N U rand arrive (answer c) C (tensor_name c) ids mem = Inr (map (row c) ids)"
proof -
  let ?ms = "map (owner c) ids" and ?me = "kc_machine_id C" and ?G = "group c"
  define \<sigma> where "\<sigma> = np_argsort N ?ms"
  define ks where "ks = map fst (np_unique_counts N ?ms)"
  define S where "S k = map (\<lambda>i. ids ! nat i) (filter (\<lambda>i. ?ms ! nat i = k) \<sigma>)" for k
  let ?slices = "machine_slices 0 (np_unique_counts N ?ms) (map (\<lambda>i. ids ! nat i) \<sigma>)"
  have sl: "?slices = map (\<lambda>k. (k, S k)) ks"
    using slices_eq(1) [OF N, of ?ms ids] by (simp add: \<sigma>_def ks_def S_def)
  have cat: "concat (map (\<lambda>k. filter (\<lambda>i. ?ms ! nat i = k) \<sigma>) ks) = \<sigma>"
    and sorted: "sorted_wrt (<) ks" and ks: "set ks = owner c ` set ids"
    using slices_eq(2-4) [OF N, of ?ms] by (simp_all add: \<sigma>_def ks_def)
  note A = argsort_perm [OF N, of ?ms, folded \<sigma>_def]
  have rng: "\<forall>i \<in> set \<sigma>. 0 \<le> i \<and> nat i < length ids" using A(3) by auto
  have own: "\<forall>i \<in> set (S k). valid c i \<and> owner c i = k" for k
    using rng ids by (auto simp: S_def)
  have kr: "0 \<le> k \<and> k < machines c" if "k \<in> set ks" for k
    using that ks ids owner_range [OF ok] by auto
  define remote where "remote = filter (\<lambda>(k, s). k \<noteq> ?me) ?slices"
  have rem: "remote = map (\<lambda>k. (k, S k)) (filter (\<lambda>k. k \<noteq> ?me) ks)"
    by (simp add: remote_def sl filter_map comp_def)
  have rs: "\<forall>(k, s) \<in> set remote. 0 \<le> k \<and> k < machines c \<and> (\<forall>i \<in> set s. valid c i \<and> owner c i = k)"
    using own kr by (auto simp: rem)
  obtain rs where rs: "rmap (\<lambda>(n, k, s). answer c (pick_server rand C n k) (tensor_name c) s)
      (zip [0..<length remote] remote) = Inr rs"
    "map (\<lambda>r. fst r div ?G) rs = map fst remote" "map snd rs = map (\<lambda>(k, s). map (row c) s) remote"
    by (rule slice_answers [OF ok rs cl(1) rand])
  let ?d = "\<lambda>k. map (row c) (S k)"
  define loc where "loc = (if ?me \<in> set ks then [(?me * ?G, ?d ?me)] else [])"
  have local_eq: "(case own_slice C ?slices of None \<Rightarrow> Inr [] | Some s \<Rightarrow>
      rbind (pp_to_local p s) (\<lambda>l. rbind (dict_get (kc_pull_handlers C) (tensor_name c)) (\<lambda>h.
      rbind (run_pull U h mem (kc_data_store C) (tensor_name c) l) (\<lambda>data. Inr [(kc_main_server_id C, data)])))) =
    Inr loc"
    using local_rows [OF own [of ?me]] by (auto simp: sl own_slice_map loc_def cl(2) dict_get_def)
  let ?R = "loc @ arrive rs"
  have rs': "map (\<lambda>r. fst r div ?G) rs = filter (\<lambda>k. k \<noteq> ?me) ks" "map snd rs = map ?d (filter (\<lambda>k. k \<noteq> ?me) ks)"
    using rs(2,3) by (simp_all add: rem comp_def)
  note M = merged_responses [OF group_pos [OF ok] sorted rs' net loc_def]
  from M(1)
  have "concat (map snd (sort_key fst ?R)) = map (\<lambda>i. row c (ids ! nat i)) \<sigma>"
    using arg_cong [OF cat, of "map (\<lambda>i. row c (ids ! nat i))"] by (simp add: S_def map_concat comp_def)
  moreover have "take_rows (map (\<lambda>i. row c (ids ! nat i)) \<sigma>) (np_argsort N \<sigma>) =
      Inr (map (\<lambda>i. row c (ids ! nat i)) (arange 0 (int (length ids))))"
    using A(1) by (intro argsort_inverse [OF N]) simp
  moreover have "map (\<lambda>i. row c (ids ! nat i)) (arange 0 (int (length ids))) = map (row c) ids"
    by (rule nth_equalityI) simp_all
  moreover have "sort_key fst ?R \<noteq> []" by (rule M(2)) (use ks ne in auto)
  moreover have "take_rows ids \<sigma> = Inr (map (\<lambda>i. ids ! nat i) \<sigma>)"
    using rng by (intro take_rows_valid) (auto simp: valid_index_def)
  ultimately show ?thesis
    using part local_eq rs(1)
    by (simp add: kc_pull_slow_def dict_get_def Let_def flip: \<sigma>_def remote_def)
qed

text \<open>The rows of a fast pull.\<close>

lemma fast_pull_rows:
  assumes ok: "ok c" and ids: "\<forall>i \<in> set ids. valid c i" and me: "0 \<le> me"
    and loc: "pp_to_local p (filter (\<lambda>i. owner c i = me) ids) = Inr (map g (filter (\<lambda>i. owner c i = me) ids))"
    and data: "\<forall>i \<in> set ids. owner c i = me \<longrightarrow> 0 \<le> g i \<and> g i < int (length local_data) \<and> local_data ! nat (g i) = row c i"
    and rand: "\<And>lo hi. lo < hi \<Longrightarrow> lo \<le> rand lo hi \<and> rand lo hi < hi"
    and net: "\<And>xs. mset (arrive xs) = mset xs"
  shows "fast_pull rand arrive (answer c) (tensor_name c) ids (map (owner c) ids) (machines c) (group c) me
      local_data p = Inr (map (\<lambda>i. Some (row c i)) ids)"
proof -
  let ?own = "owner c" and ?G = "group c" and ?n = "length ids"
  let ?val = "\<lambda>j. row c (ids ! j)"
  let ?locs = "map (\<lambda>(j, x). (j, g x)) (filter (\<lambda>(j, x). ?own x = me) (enumerate 0 ids))"
  define rems where "rems = map (\<lambda>(j, x). (?own x, j, x)) (filter (\<lambda>(j, x). ?own x \<noteq> me) (enumerate 0 ids))"
  have gid: "map snd (filter (\<lambda>(q, _). q = me) (zip (map ?own ids) ids)) = filter (\<lambda>i. ?own i = me) ids"
    by (induction ids) auto
  have "fp_split me (machines c) (int (length local_data)) 0 (zip (map ?own ids) ids)
      (map g (filter (\<lambda>i. ?own i = me) ids)) = Inr (?locs, rems)"
    unfolding rems_def using ids owner_range [OF ok] data by (intro fp_split_eq) auto
  define ks where "ks = filter (\<lambda>k. fp_remote rems k \<noteq> []) (arange 0 (machines c))"
  have no_me: "fp_remote rems me = []" by (auto simp: rems_def fp_remote_def filter_empty_conv)
  have rem: "fp_remote rems k = filter (\<lambda>(j, x). ?own x = k) (enumerate 0 ids)" if "k \<noteq> me" for k
    unfolding rems_def using that by (rule fp_remote_eq)
  let ?sid = "\<lambda>k. rand (k * ?G) ((k + 1) * ?G)"
  let ?r = "\<lambda>k. (?sid k, map (row c) (map snd (fp_remote rems k)))"
  have ks: "0 \<le> k" "k < machines c" "k \<noteq> me" "?sid k div ?G = k"
    "answer c (?sid k) (tensor_name c) (map snd (fp_remote rems k)) = Inr (?r k)" if "k \<in> set ks" for k
  proof -
    show k: "0 \<le> k" "k < machines c" "k \<noteq> me" using that no_me by (auto simp: ks_def)
    have "k * ?G < (k + 1) * ?G" using group_pos [OF ok] by (simp add: algebra_simps)
    note b = rand [OF this]
    show "?sid k div ?G = k" using server_of_group [OF ok] b by blast
    have "\<forall>i \<in> set (map snd (fp_remote rems k)). valid c i \<and> ?own i = k"
      using ids by (auto simp: rem [OF k(3)] in_set_enumerate_eq)
    then show "answer c (?sid k) (tensor_name c) (map snd (fp_remote rems k)) = Inr (?r k)"
      using answer_rows [OF ok _ k(1,2)] b by blast
  qed
  have ans: "rmap (\<lambda>k. answer c (?sid k) (tensor_name c) (map snd (fp_remote rems k))) ks = Inr (map ?r ks)"
    by (rule rmap_total) (rule ks(5))
  have start: "foldl (\<lambda>r (i, l). r[i := Some (local_data ! nat l)]) (replicate ?n None) ?locs =
      filled ?val ?n {j. j < ?n \<and> ?own (ids ! j) = me}"
    using data by (intro fp_local_fill) auto
  have set: "set (arrive (map ?r ks)) = ?r ` set ks" using mset_eq_setD [OF net] by simp
  have "fst r div ?G \<noteq> me \<and> snd r =
      map (\<lambda>(j, x). ?val j) (filter (\<lambda>(j, x). ?own x = fst r div ?G) (enumerate 0 ids))"
    if "r \<in> set (arrive (map ?r ks))" for r
  proof -
    from that have "r \<in> ?r ` set ks" unfolding set .
    then obtain k where k: "k \<in> set ks" "r = ?r k" by (rule imageE)
    have "map (row c) (map snd (filter (\<lambda>(j, x). ?own x = k) (enumerate 0 ids))) =
        map (\<lambda>(j, x). ?val j) (filter (\<lambda>(j, x). ?own x = k) (enumerate 0 ids))"
      by (auto simp: in_set_enumerate_eq)
    then show ?thesis using k ks(3,4) rem by simp
  qed
  then have "rfold (fp_copy ?G rems) (filled ?val ?n {j. j < ?n \<and> ?own (ids ! j) = me}) (arrive (map ?r ks)) =
      Inr (filled ?val ?n ({j. j < ?n \<and> ?own (ids ! j) = me} \<union>
        {j. j < ?n \<and> ?own (ids ! j) \<in> (\<lambda>r. fst r div ?G) ` set (arrive (map ?r ks))}))"
    by (intro fp_copy_all [where me = me and own = ?own and xs = ids, folded rems_def] ballI)
  moreover have "(\<lambda>r. fst r div ?G) ` set (arrive (map ?r ks)) = set ks"
    unfolding set using ks(4) by force
  moreover have "?own (ids ! j) = me \<or> ?own (ids ! j) \<in> set ks" if "j < ?n" for j
  proof (cases "?own (ids ! j) = me")
    case False
    have "(j, ids ! j) \<in> set (fp_remote rems (?own (ids ! j)))"
      using that by (simp add: rem [OF False] in_set_enumerate_eq)
    then show ?thesis
      using owner_range [OF ok, of "ids ! j"] ids that by (auto simp: ks_def)
  qed simp
  ultimately have "rfold (fp_copy ?G rems) (filled ?val ?n {j. j < ?n \<and> ?own (ids ! j) = me}) (arrive (map ?r ks)) =
      Inr (map (\<lambda>i. Some (row c i)) ids)"
    by (auto simp: filled_def intro!: nth_equalityI)
  then show ?thesis
    using loc ans start \<open>fp_split _ _ _ _ _ _ = _\<close>
    by (simp add: fast_pull_def gid Let_def flip: ks_def)
qed

end

section \<open>The servers of a cluster\<close>

definition cluster_holds :: "policy_ctx \<Rightarrow> int \<Rightarrow> handler \<Rightarrow> 'v cluster \<Rightarrow> string \<Rightarrow> (nat \<Rightarrow> 'v list) \<Rightarrow> bool" where
  "cluster_holds P G h cl name rows \<longleftrightarrow>
     (\<forall>k < policy_machines P. \<forall>sid. int k * G \<le> sid \<and> sid < (int k + 1) * G \<longrightarrow>
        ks_server_id (cl_server cl sid) = sid \<and> ks_machine_id (cl_server cl sid) = int k \<and>
        holds_part P k h (cl_server cl sid) (cl_memory cl (int k)) name (rows k) \<and>
        same_cell (cl_server cl sid) (cl_server cl (int k * G)) name)"

text \<open>The tensor as one array.\<close>

definition global_rows :: "policy_ctx \<Rightarrow> (nat \<Rightarrow> 'v list) \<Rightarrow> 'v list" where
  "global_rows P rows = concat (map rows [0..<policy_machines P])"

record 'v tensor_ctx =
  tc_policy :: policy_ctx
  tc_group :: int
  tc_cluster :: "'v cluster"
  tc_name :: string
  tc_rows :: "nat \<Rightarrow> 'v list"
  tc_udfs :: "'v udfs"
  tc_roles :: role_tables
  tc_handler :: handler
  tc_read :: "'v \<Rightarrow> 'v"

definition tensor_ok :: "'v tensor_ctx \<Rightarrow> bool" where
  "tensor_ok t \<longleftrightarrow> policy_ok (tc_policy t) \<and> 0 < tc_group t \<and>
     cluster_holds (tc_policy t) (tc_group t) (tc_handler t) (tc_cluster t) (tc_name t) (tc_rows t) \<and>
     rowwise (tc_udfs t) (tc_handler t) (tc_read t)"

definition tensor_size :: "'v tensor_ctx \<Rightarrow> int" where
  "tensor_size t = policy_starts (tc_policy t) (policy_machines (tc_policy t))"

definition tensor_owner :: "'v tensor_ctx \<Rightarrow> int \<Rightarrow> nat" where
  "tensor_owner t i = policy.owner (tc_policy t) i"

definition tensor_row :: "'v tensor_ctx \<Rightarrow> int \<Rightarrow> 'v" where
  "tensor_row t i = tc_read t (global_rows (tc_policy t) (tc_rows t) ! nat i)"

lemma tensor_okD:
  assumes "tensor_ok t"
  shows "policy_ok (tc_policy t)" "0 < tc_group t" "rowwise (tc_udfs t) (tc_handler t) (tc_read t)"
    and "k < policy_machines (tc_policy t) \<Longrightarrow> int k * tc_group t \<le> sid \<Longrightarrow> sid < (int k + 1) * tc_group t \<Longrightarrow>
      ks_server_id (cl_server (tc_cluster t) sid) = sid \<and> ks_machine_id (cl_server (tc_cluster t) sid) = int k \<and>
      holds_part (tc_policy t) k (tc_handler t) (cl_server (tc_cluster t) sid)
        (cl_memory (tc_cluster t) (int k)) (tc_name t) (tc_rows t k) \<and>
      same_cell (cl_server (tc_cluster t) sid) (cl_server (tc_cluster t) (int k * tc_group t)) (tc_name t)"
  using assms by (simp_all add: tensor_ok_def cluster_holds_def)

lemma holds_spread:
  assumes "cluster_holds P G h cl name rows" and "0 < G"
  shows "policy.spread P rows"
  unfolding policy.spread_def
proof (intro allI impI)
  fix k
  assume "k < policy_machines P"
  moreover have "int k * G < (int k + 1) * G" using assms(2) by (simp add: algebra_simps)
  ultimately have "holds_part P k h (cl_server cl (int k * G)) (cl_memory cl (int k)) name (rows k)"
    using assms(1) by (simp add: cluster_holds_def)
  then show "int (length (rows k)) = policy_starts P (Suc k) - policy_starts P k"
    by (simp add: holds_part_def)
qed

lemma tensor_row_local:
  assumes "tensor_ok t" and "0 \<le> i" and "i < tensor_size t"
  shows "tensor_owner t i < policy_machines (tc_policy t)"
    and "policy_starts (tc_policy t) (tensor_owner t i) \<le> i" "i < policy_starts (tc_policy t) (Suc (tensor_owner t i))"
    and "global_rows (tc_policy t) (tc_rows t) ! nat i =
      tc_rows t (tensor_owner t i) ! nat (i - policy_starts (tc_policy t) (tensor_owner t i))"
proof -
  note D = tensor_okD [OF assms(1)]
  have i: "i < policy_starts (tc_policy t) (policy_machines (tc_policy t))"
    using assms(3) by (simp add: tensor_size_def)
  note O = policy.owner_bounds [OF D(1) assms(2) i, folded tensor_owner_def]
  show "tensor_owner t i < policy_machines (tc_policy t)"
    "policy_starts (tc_policy t) (tensor_owner t i) \<le> i" "i < policy_starts (tc_policy t) (Suc (tensor_owner t i))"
    by (rule O)+
  have "policy.spread (tc_policy t) (tc_rows t)"
    using assms(1) by (auto simp: tensor_ok_def intro: holds_spread)
  from policy.global_row(1) [OF D(1) this assms(2) i]
  show "global_rows (tc_policy t) (tc_rows t) ! nat i =
      tc_rows t (tensor_owner t i) ! nat (i - policy_starts (tc_policy t) (tensor_owner t i))"
    by (simp add: global_rows_def tensor_owner_def)
qed

interpretation tensor: row_servers tensor_ok tc_group "\<lambda>t. int (policy_machines (tc_policy t))"
  "\<lambda>t i. int (tensor_owner t i)" tensor_row "\<lambda>t i. 0 \<le> i \<and> i < tensor_size t" tc_name
  "\<lambda>t. pull_answer (tc_udfs t) (tc_roles t) (tc_cluster t)"
proof
  fix t :: "'v tensor_ctx" and i k sid :: int and ids
  assume t: "tensor_ok t"
  note D = tensor_okD [OF t]
  show "0 < tc_group t" by (rule D(2))
  show "0 \<le> i \<and> i < tensor_size t \<Longrightarrow>
      0 \<le> int (tensor_owner t i) \<and> int (tensor_owner t i) < int (policy_machines (tc_policy t))"
    using tensor_row_local(1) [OF t] by simp
  assume ids: "\<forall>i \<in> set ids. (0 \<le> i \<and> i < tensor_size t) \<and> int (tensor_owner t i) = k"
    and k: "0 \<le> k" "k < int (policy_machines (tc_policy t))"
    and sid: "k * tc_group t \<le> sid" "sid < (k + 1) * tc_group t"
  let ?s = "cl_server (tc_cluster t) sid" and ?p = "tc_policy t"
  have S: "ks_server_id ?s = sid" "ks_machine_id ?s = k"
    "holds_part ?p (nat k) (tc_handler t) ?s (cl_memory (tc_cluster t) k) (tc_name t) (tc_rows t (nat k))"
    using D(4) [of "nat k" sid] k sid by auto
  have own: "policy_starts ?p (nat k) \<le> i \<and> i < policy_starts ?p (Suc (nat k)) \<and>
      tc_read t (tc_rows t (nat k) ! nat (i - policy_starts ?p (nat k))) = tensor_row t i" if "i \<in> set ids" for i
  proof -
    from ids that have i: "0 \<le> i" "i < tensor_size t" "tensor_owner t i = nat k" by auto
    show ?thesis using tensor_row_local(2-4) [OF t i(1,2)] by (simp add: i(3) tensor_row_def)
  qed
  then have "pull_process (tc_udfs t) (tc_name t) ids (?s, cl_memory (tc_cluster t) k) =
      Inr ((?s, cl_memory (tc_cluster t) k),
        PullResponse sid (map (\<lambda>i. tc_read t (tc_rows t (nat k) ! nat (i - policy_starts ?p (nat k)))) ids))"
    using pull_holds [OF D(1) S(3) D(3), of ids] S(1) by simp
  moreover have "map (\<lambda>i. tc_read t (tc_rows t (nat k) ! nat (i - policy_starts ?p (nat k)))) ids =
      map (tensor_row t) ids" using own by simp
  ultimately show "pull_answer (tc_udfs t) (tc_roles t) (tc_cluster t) sid (tc_name t) ids =
      Inr (sid, map (tensor_row t) ids)"
    by (simp add: pull_answer_def cluster_call_def S(2) Let_def)
qed

text \<open>A client of machine \<open>k\<close> that has mapped the tensor.\<close>

definition client_of :: "'v tensor_ctx \<Rightarrow> nat \<Rightarrow> kv_client \<Rightarrow> bool" where
  "client_of t k C \<longleftrightarrow>
     k < policy_machines (tc_policy t) \<and> kc_machine_id C = int k \<and> kc_group_count C = tc_group t \<and>
     kc_machine_count C = int (policy_machines (tc_policy t)) \<and> kc_main_server_id C = int k * tc_group t \<and>
     (case map_of (kc_part_policy C) (tc_name t) of None \<Rightarrow> False | Some p \<Rightarrow> policy_at (tc_policy t) k = Inr p) \<and>
     (case map_of (kc_data_store C) (tc_name t) of None \<Rightarrow> False
      | Some v \<Rightarrow> map_option vw_addr (map_of (ks_data_store (cl_server (tc_cluster t) (int k * tc_group t))) (tc_name t)) =
          Some (vw_addr v)) \<and>
     map_of (kc_pull_handlers C) (tc_name t) = Some (tc_handler t) \<and>
     map_of (kc_push_handlers C) (tc_name t) = Some Default_handler"

lemma client_ofD:
  assumes "tensor_ok t" and "client_of t k C"
  obtains p v where "k < policy_machines (tc_policy t)" "kc_machine_id C = int k" "kc_group_count C = tc_group t"
    "kc_machine_count C = int (policy_machines (tc_policy t))" "kc_main_server_id C = int k * tc_group t"
    "map_of (kc_part_policy C) (tc_name t) = Some p" "policy_at (tc_policy t) k = Inr p"
    "map_of (kc_data_store C) (tc_name t) = Some v"
    "map_of (mm_cells (cl_memory (tc_cluster t) (int k))) (vw_addr v) = Some (tc_rows t k)"
    "map_of (kc_pull_handlers C) (tc_name t) = Some (tc_handler t)"
    "map_of (kc_push_handlers C) (tc_name t) = Some Default_handler"
    "int (length (tc_rows t k)) = policy_starts (tc_policy t) (Suc k) - policy_starts (tc_policy t) k"
proof -
  let ?s = "cl_server (tc_cluster t) (int k * tc_group t)"
  have k: "k < policy_machines (tc_policy t)" using assms(2) by (simp add: client_of_def)
  have "int k * tc_group t < (int k + 1) * tc_group t"
    using tensor_okD(2) [OF assms(1)] by (simp add: algebra_simps)
  then have "holds_part (tc_policy t) k (tc_handler t) ?s (cl_memory (tc_cluster t) (int k)) (tc_name t) (tc_rows t k)"
    using tensor_okD(4) [OF assms(1) k] by simp
  then obtain w where w: "map_of (ks_data_store ?s) (tc_name t) = Some w"
    "map_of (mm_cells (cl_memory (tc_cluster t) (int k))) (vw_addr w) = Some (tc_rows t k)"
    "int (length (tc_rows t k)) = policy_starts (tc_policy t) (Suc k) - policy_starts (tc_policy t) k"
    by (rule holds_partD)
  show thesis
    using assms(2) w that by (auto simp: client_of_def split: option.splits)
qed

text \<open>The rows the client reads in its own machine's memory.\<close>

lemma client_local:
  assumes t: "tensor_ok t" and c: "client_of t k C" and p: "map_of (kc_part_policy C) (tc_name t) = Some p"
    and ids: "\<forall>i \<in> set ids. (0 \<le> i \<and> i < tensor_size t) \<and> tensor_owner t i = k"
  shows "pp_to_local p ids = Inr (map (\<lambda>i. i - policy_starts (tc_policy t) k) ids)"
    and "\<forall>i \<in> set ids. valid_index (tc_rows t k) (i - policy_starts (tc_policy t) k) \<and>
      tc_rows t k ! nat (i - policy_starts (tc_policy t) k) = global_rows (tc_policy t) (tc_rows t) ! nat i"
proof -
  from t c obtain q v where D: "k < policy_machines (tc_policy t)"
    "map_of (kc_part_policy C) (tc_name t) = Some q" "policy_at (tc_policy t) k = Inr q"
    "int (length (tc_rows t k)) = policy_starts (tc_policy t) (Suc k) - policy_starts (tc_policy t) k"
    by (rule client_ofD)
  have own: "policy_starts (tc_policy t) k \<le> i \<and> i < policy_starts (tc_policy t) (Suc k)" if "i \<in> set ids" for i
    using tensor_row_local(2,3) [OF t, of i] ids that by auto
  note O = part_offsets [OF tensor_okD(1) [OF t] D(1) _ D(4), of p ids]
  show "pp_to_local p ids = Inr (map (\<lambda>i. i - policy_starts (tc_policy t) k) ids)"
    using O(1) own D(2,3) p by simp
  have "p = q" using D(2) p by simp
  then have "\<forall>i \<in> set (map (\<lambda>i. i - policy_starts (tc_policy t) k) ids). valid_index (tc_rows t k) i"
    using own D(3) by (intro O(2)) auto
  moreover have "tc_rows t k ! nat (i - policy_starts (tc_policy t) k) = global_rows (tc_policy t) (tc_rows t) ! nat i"
    if "i \<in> set ids" for i
    using tensor_row_local(4) [OF t, of i] ids that by auto
  ultimately show "\<forall>i \<in> set ids. valid_index (tc_rows t k) (i - policy_starts (tc_policy t) k) \<and>
      tc_rows t k ! nat (i - policy_starts (tc_policy t) k) = global_rows (tc_policy t) (tc_rows t) ! nat i"
    by auto
qed

lemma client_partid:
  assumes "tensor_ok t" and "k < policy_machines (tc_policy t)" and "policy_at (tc_policy t) k = Inr p"
    and "\<forall>i \<in> set ids. 0 \<le> i \<and> i < tensor_size t"
  shows "pp_to_partid (pc_numpy (tc_policy t)) p ids = Inr (map (\<lambda>i. int (tensor_owner t i)) ids)"
  using policy.to_partid_total [OF tensor_okD(1) [OF assms(1)] assms(2), of ids] assms(3,4)
  by (simp add: at_policy_def tensor_owner_def tensor_size_def)

lemma rowwise_default_id: "rowwise U Default_handler f \<Longrightarrow> f x = x"
proof -
  assume f: "rowwise U Default_handler f"
  let ?m = "\<lparr>mm_cells = [(0, [x])], mm_names = [], mm_next = 1\<rparr>"
  let ?v = "\<lparr>vw_addr = 0, vw_shape = [1], vw_dtype = [], vw_own = True\<rparr>"
  have "run_pull U Default_handler ?m [([], ?v)] [] [0] = Inr [f x]"
    using f unfolding rowwise_def by (auto simp: valid_index_def)
  then show "f x = x"
    by (simp add: run_pull_def default_pull_handler_def dict_get_def view_rows_def take_rows_def)
qed

lemma pull_slow_empty:
  assumes "numpy_laws N" and "map_of (kc_part_policy C) name = Some p" and "pp_to_partid N p [] = Inr []"
    and "\<And>xs. mset (arrive xs) = mset xs"
  shows "kc_pull_slow N U rand arrive answer C name [] mem = Inl RuntimeError"
proof -
  have "np_argsort N [] = []" using argsort_perm(4) [OF assms(1), of "[]"] by simp
  moreover have "set (map fst (np_unique_counts N [])) = {}"
    using assms(1) unfolding numpy_laws_def by (metis empty_set)
  then have "np_unique_counts N [] = []" by simp
  moreover have "arrive [] = []" using assms(4) [of "[]"] by simp
  ultimately show ?thesis
    using assms(2,3) by (simp add: kc_pull_slow_def dict_get_def take_rows_def own_slice_def)
qed

section \<open>Properties\<close>

definition random_ok :: "(nat \<Rightarrow> int \<Rightarrow> int \<Rightarrow> int) \<Rightarrow> (int \<Rightarrow> int \<Rightarrow> int) \<Rightarrow> bool" where
  "random_ok rand rand_int \<longleftrightarrow> (\<forall>n lo hi. lo \<le> hi \<longrightarrow> lo \<le> rand n lo hi \<and> rand n lo hi \<le> hi) \<and>
     (\<forall>lo hi. lo < hi \<longrightarrow> lo \<le> rand_int lo hi \<and> rand_int lo hi < hi)"

text \<open>The two paths of \<open>pull\<close>.\<close>

lemma pull_fast_path:
  assumes "tensor_ok t" and "client_of t k C" and "tc_name t \<noteq> []"
    and "\<forall>i \<in> set ids. 0 \<le> i \<and> i < tensor_size t" and "random_ok rand rand_int"
    and "\<And>xs. mset (arrive xs) = mset xs" and h: "tc_handler t = Default_handler"
  shows "kc_pull (pc_numpy (tc_policy t)) (tc_udfs t) rand rand_int arrive
      (pull_answer (tc_udfs t) (tc_roles t) (tc_cluster t)) C (tc_name t) ids (cl_memory (tc_cluster t) (int k)) =
    Inr (map (\<lambda>i. Some (tensor_row t i)) ids)"
proof -
  from assms(1,2) obtain p v where D: "k < policy_machines (tc_policy t)" "kc_machine_id C = int k"
    "kc_group_count C = tc_group t" "kc_machine_count C = int (policy_machines (tc_policy t))"
    "map_of (kc_part_policy C) (tc_name t) = Some p" "policy_at (tc_policy t) k = Inr p"
    "map_of (kc_data_store C) (tc_name t) = Some v"
    "map_of (mm_cells (cl_memory (tc_cluster t) (int k))) (vw_addr v) = Some (tc_rows t k)"
    "map_of (kc_pull_handlers C) (tc_name t) = Some (tc_handler t)"
    by (rule client_ofD)
  note loc = client_local [OF assms(1,2) D(5)]
  have read: "tc_read t x = x" for x
    using tensor_okD(3) [OF assms(1)] h by (intro rowwise_default_id) simp
  have R: "lo < hi \<Longrightarrow> lo \<le> rand_int lo hi \<and> rand_int lo hi < hi" for lo hi
    using assms(5) by (simp add: random_ok_def)
  let ?mine = "filter (\<lambda>i. int (tensor_owner t i) = int k) ids"
  have "fast_pull rand_int arrive (pull_answer (tc_udfs t) (tc_roles t) (tc_cluster t)) (tc_name t) ids
      (map (\<lambda>i. int (tensor_owner t i)) ids) (int (policy_machines (tc_policy t))) (tc_group t) (int k)
      (tc_rows t k) p = Inr (map (\<lambda>i. Some (tensor_row t i)) ids)"
  proof (rule tensor.fast_pull_rows [OF assms(1,4) _ _ _ R assms(6)])
    show "pp_to_local p ?mine = Inr (map (\<lambda>i. i - policy_starts (tc_policy t) k) ?mine)"
      using assms(4) by (intro loc(1)) auto
    show "\<forall>i \<in> set ids. int (tensor_owner t i) = int k \<longrightarrow> 0 \<le> i - policy_starts (tc_policy t) k \<and>
        i - policy_starts (tc_policy t) k < int (length (tc_rows t k)) \<and>
        tc_rows t k ! nat (i - policy_starts (tc_policy t) k) = tensor_row t i"
      using loc(2) [of ?mine] assms(4) by (auto simp: valid_index_def tensor_row_def read)
  qed simp_all
  then show ?thesis
    using assms(3) D client_partid [OF assms(1) D(1,6) assms(4)] h
    by (simp add: kc_pull_def dict_get_def view_rows_def)
qed

lemma client_run_pull:
  assumes "tensor_ok t" and "client_of t k C"
    and s: "\<forall>i \<in> set s. (0 \<le> i \<and> i < tensor_size t) \<and> int (tensor_owner t i) = kc_machine_id C"
    and p: "map_of (kc_part_policy C) (tc_name t) = Some p"
  shows "\<exists>l h. pp_to_local p s = Inr l \<and> map_of (kc_pull_handlers C) (tc_name t) = Some h \<and>
      run_pull (tc_udfs t) h (cl_memory (tc_cluster t) (int k)) (kc_data_store C) (tc_name t) l =
        Inr (map (tensor_row t) s)"
proof -
  from assms(1,2) obtain v where D: "kc_machine_id C = int k"
    "map_of (kc_data_store C) (tc_name t) = Some v"
    "map_of (mm_cells (cl_memory (tc_cluster t) (int k))) (vw_addr v) = Some (tc_rows t k)"
    "map_of (kc_pull_handlers C) (tc_name t) = Some (tc_handler t)"
    by (rule client_ofD)
  have "\<forall>i \<in> set s. (0 \<le> i \<and> i < tensor_size t) \<and> tensor_owner t i = k" using s D(1) by simp
  note loc = client_local [OF assms(1,2) p this]
  let ?l = "map (\<lambda>i. i - policy_starts (tc_policy t) k) s"
  have "\<forall>i \<in> set ?l. valid_index (tc_rows t k) i" using loc(2) by simp
  then have "run_pull (tc_udfs t) (tc_handler t) (cl_memory (tc_cluster t) (int k)) (kc_data_store C) (tc_name t) ?l =
      Inr (map (\<lambda>i. tc_read t (tc_rows t k ! nat i)) ?l)"
    using tensor_okD(3) [OF assms(1)] D(2,3) unfolding rowwise_def by blast
  moreover have "map (\<lambda>i. tc_read t (tc_rows t k ! nat i)) ?l = map (tensor_row t) s"
    using loc(2) by (simp add: tensor_row_def)
  ultimately show ?thesis using loc(1) D(4) by auto
qed

lemma pull_slow_path:
  assumes "tensor_ok t" and "client_of t k C"
    and "\<forall>i \<in> set ids. 0 \<le> i \<and> i < tensor_size t" and "random_ok rand rand_int"
    and net: "\<And>xs. mset (arrive xs) = mset xs"
  shows "kc_pull_slow (pc_numpy (tc_policy t)) (tc_udfs t) rand arrive
      (pull_answer (tc_udfs t) (tc_roles t) (tc_cluster t)) C (tc_name t) ids (cl_memory (tc_cluster t) (int k)) =
    (if ids = [] then Inl RuntimeError else Inr (map (tensor_row t) ids))"
proof -
  from assms(1,2) obtain p where D: "k < policy_machines (tc_policy t)" "kc_machine_id C = int k"
    "kc_group_count C = tc_group t" "kc_main_server_id C = int k * tc_group t"
    "map_of (kc_part_policy C) (tc_name t) = Some p" "policy_at (tc_policy t) k = Inr p"
    by (rule client_ofD)
  have N: "numpy_laws (pc_numpy (tc_policy t))" using tensor_okD(1) [OF assms(1)] by (simp add: policy_ok_def)
  have R: "lo \<le> hi \<Longrightarrow> lo \<le> rand n lo hi \<and> rand n lo hi \<le> hi" for n lo hi
    using assms(4) by (simp add: random_ok_def)
  note part = client_partid [OF assms(1) D(1,6)]
  show ?thesis
  proof (cases "ids = []")
    case True
    then show ?thesis using pull_slow_empty [OF N D(5) _ net] part [of "[]"] by simp
  next
    case False
    from tensor.pull_slow_rows [OF assms(1) N assms(3) False D(5) part [OF assms(3)] D(3) _
        client_run_pull [OF assms(1,2) _ D(5)] R net]
    show ?thesis using False D(2,4) by simp
  qed
qed

text \<open>C1. \<open>pull\<close> reads a tensor that is spread over the machines as one array: it gives the rows of
  the identifiers in the order they are asked for, with repetitions, whichever server of a machine
  answers and in whatever order the responses arrive; by the C++ path when the tensor has the default
  handler, and by the Python path when it has a handler of the user, which is applied to every row.
  Only the Python path fails on an empty request, where it concatenates an empty list.\<close>

theorem pull_reads_array:
  assumes "tensor_ok t" and "client_of t k C" and "tc_name t \<noteq> []"
    and "\<forall>i \<in> set ids. 0 \<le> i \<and> i < tensor_size t" and "random_ok rand rand_int"
    and "\<And>xs. mset (arrive xs) = mset xs"
  shows "kc_pull (pc_numpy (tc_policy t)) (tc_udfs t) rand rand_int arrive
      (pull_answer (tc_udfs t) (tc_roles t) (tc_cluster t)) C (tc_name t) ids (cl_memory (tc_cluster t) (int k)) =
    (if tc_handler t \<noteq> Default_handler \<and> ids = [] then Inl RuntimeError
     else Inr (map (\<lambda>i. Some (tensor_row t i)) ids))"
proof (cases "tc_handler t = Default_handler")
  case True
  then show ?thesis using pull_fast_path [OF assms(1-5)] assms(6) by simp
next
  case False
  from assms(1,2) have "map_of (kc_pull_handlers C) (tc_name t) = Some (tc_handler t)" by (rule client_ofD)
  then show ?thesis
    using assms(3) False pull_slow_path [OF assms(1,2,4,5)] assms(6) by (simp add: kc_pull_def dict_get_def comp_def)
qed

end
