(* ===== verification/KVClientPush.thy ===== *)
theory KVClientPush
  imports KVClientProps
begin

text \<open>
  Writing a tensor that is spread over the machines: the push of the client and the delivery of its
  messages refine the update of one array, in whatever order the messages are delivered.
\<close>

section \<open>Delivery\<close>

text \<open>The servers handle the messages of a push, in the order of the list.\<close>

definition deliver :: "'v udfs \<Rightarrow> role_tables \<Rightarrow> (int \<times> 'v kv_request) list \<Rightarrow> 'v cluster \<Rightarrow> 'v cluster res" where
  "deliver U roles msgs cl =
     rfold (\<lambda>cl (sid, req). rbind (cluster_call U roles sid req cl) (\<lambda>(cl', _). Inr cl')) cl msgs"

definition set_memory :: "int \<Rightarrow> 'v memory \<Rightarrow> 'v cluster \<Rightarrow> 'v cluster" where
  "set_memory k m cl = cl\<lparr>cl_memory := (cl_memory cl)(k := m)\<rparr>"

text \<open>A write through any view of a tensor's cell on a machine.\<close>

lemma write_cluster_holds:
  assumes cl: "cluster_holds P G h cl name rows" and k: "k < policy_machines P" and G: "0 < G"
    and v: "map_option vw_addr (map_of (ks_data_store (cl_server cl (int k * G))) name) = Some (vw_addr v)"
    and len: "length rows' = length (rows k)"
  shows "cluster_holds P G h (set_memory (int k) (write_rows v rows' (cl_memory cl (int k))) cl) name (rows(k := rows'))"
  unfolding cluster_holds_def
proof (intro allI impI)
  fix q sid
  assume q: "q < policy_machines P" and sid: "int q * G \<le> sid \<and> sid < (int q + 1) * G"
  let ?s = "cl_server cl sid" and ?m = "set_memory (int k) (write_rows v rows' (cl_memory cl (int k))) cl"
  have H: "ks_server_id ?s = sid" "ks_machine_id ?s = int q"
    "holds_part P q h ?s (cl_memory cl (int q)) name (rows q)" "same_cell ?s (cl_server cl (int q * G)) name"
    using cl q sid by (simp_all add: cluster_holds_def)
  have "holds_part P q h ?s (cl_memory ?m (int q)) name ((rows(k := rows')) q)"
  proof (cases "q = k")
    case True
    obtain w where w: "map_of (ks_data_store (cl_server cl (int k * G))) name = Some w" "vw_addr w = vw_addr v"
      using v by blast
    have "same_cell (cl_server cl (int k * G)) ?s name" using H(4) True by (simp add: same_cell_def)
    from holds_after_write [OF H(3) [unfolded True] this w(1) len]
    have "holds_part P k h ?s (write_rows w rows' (cl_memory cl (int k))) name rows'" .
    then show ?thesis using True w(2) by (simp add: set_memory_def write_rows_def)
  next
    case False
    then show ?thesis using H(3) by (simp add: set_memory_def)
  qed
  then show "ks_server_id (cl_server ?m sid) = sid \<and> ks_machine_id (cl_server ?m sid) = int q \<and>
      holds_part P q h (cl_server ?m sid) (cl_memory ?m (int q)) name ((rows(k := rows')) q) \<and>
      same_cell (cl_server ?m sid) (cl_server ?m (int q * G)) name"
    using H by (simp add: set_memory_def)
qed

text \<open>A push request at a server of the owner.\<close>

lemma push_call:
  assumes P: "policy_ok P" and G: "0 < G" and cl: "cluster_holds P G h cl name rows"
    and k: "k < policy_machines P" and sid: "int k * G \<le> sid" "sid < (int k + 1) * G"
    and ids: "\<forall>i \<in> set ids. policy_starts P k \<le> i \<and> i < policy_starts P (Suc k)"
    and dist: "distinct ids" "length ids = length data"
  shows "\<exists>cl'. cluster_call U roles sid (PushRequest name ids data) cl = Inr (cl', NoResponse) \<and>
    cl_server cl' = cl_server cl \<and>
    cluster_holds P G h cl' name (rows(k := pushed (policy_starts P k) ids data (rows k)))"
proof -
  let ?s = "cl_server cl sid" and ?rows = "pushed (policy_starts P k) ids data (rows k)"
  have H: "ks_machine_id ?s = int k" "holds_part P k h ?s (cl_memory cl (int k)) name (rows k)"
    "same_cell ?s (cl_server cl (int k * G)) name"
    using cl k sid by (simp_all add: cluster_holds_def)
  obtain v where v: "map_of (ks_data_store ?s) name = Some v"
    "push_process U name ids data (?s, cl_memory cl (int k)) =
      Inr ((?s, write_rows v ?rows (cl_memory cl (int k))), NoResponse)"
    using push_holds [OF P H(2) ids dist] by blast
  let ?cl = "set_memory (int k) (write_rows v ?rows (cl_memory cl (int k))) cl"
  have "cluster_call U roles sid (PushRequest name ids data) cl = Inr (?cl, NoResponse)"
    using v(2) H(1) by (simp add: cluster_call_def set_memory_def Let_def)
  moreover have "cl_server ?cl = cl_server cl" by (simp add: set_memory_def)
  moreover have "cluster_holds P G h ?cl name (rows(k := ?rows))"
    using v(1) H(3) by (intro write_cluster_holds [OF cl k G]) (simp_all add: same_cell_def)
  ultimately show ?thesis by blast
qed

section \<open>The updated array\<close>

text \<open>The parts after the machines in \<open>D\<close> have got their rows.\<close>

definition pushed_parts :: "policy_ctx \<Rightarrow> int list \<Rightarrow> 'v list \<Rightarrow> (nat \<Rightarrow> 'v list) \<Rightarrow> nat set \<Rightarrow> nat \<Rightarrow> 'v list" where
  "pushed_parts P ids data rows D k = (if k \<in> D then pushed (policy_starts P k) ids data (rows k) else rows k)"

lemma pushed_nth:
  "j < length rows \<Longrightarrow> pushed a ids data rows ! j =
    (case map_of (zip ids data) (a + int j) of None \<Rightarrow> rows ! j | Some v \<Rightarrow> v)"
  by (simp add: pushed_def cong: option.case_cong)

lemma pushed_cong:
  assumes "\<And>i. a \<le> i \<Longrightarrow> i < a + int (length rows) \<Longrightarrow> map_of (zip ids data) i = map_of (zip ids' data') i"
  shows "pushed a ids data rows = pushed a ids' data' rows"
  unfolding pushed_def using assms by (intro map_cong) auto

lemma pushed_none:
  assumes "\<forall>i \<in> set ids. \<not> (a \<le> i \<and> i < a + int (length rows))"
  shows "pushed a ids data rows = rows"
proof -
  have "map_of (zip ids data) (a + int j) = None" if "j < length rows" for j
    using assms that by (force simp: map_of_eq_None_iff dest: set_zip_leftD)
  then show ?thesis by (intro nth_equalityI) (simp_all add: pushed_nth)
qed

lemma pushed_array:
  assumes P: "policy_ok P" and spread: "policy.spread P rows"
  shows "global_rows P (\<lambda>k. pushed (policy_starts P k) ids data (rows k)) = pushed 0 ids data (global_rows P rows)"
proof (rule nth_equalityI)
  let ?new = "\<lambda>k. pushed (policy_starts P k) ids data (rows k)"
  have spread': "policy.spread P ?new" using spread by (simp add: policy.spread_def)
  have size: "int (length (global_rows P r)) = policy_starts P (policy_machines P)" if "policy.spread P r"
    for r :: "nat \<Rightarrow> 'a list"
    using policy.concat_prefix_length [OF P that, of "policy_machines P"] by (simp add: global_rows_def)
  show "length (global_rows P ?new) = length (pushed 0 ids data (global_rows P rows))"
    using size [OF spread] size [OF spread'] by simp
  fix j
  assume "j < length (global_rows P ?new)"
  then have j: "0 \<le> int j" "int j < policy_starts P (policy_machines P)" "j < length (global_rows P rows)"
    using size [OF spread] size [OF spread'] by simp_all
  let ?k = "policy.owner P (int j)"
  note O = policy.owner_bounds [OF P j(1,2)]
  note R = policy.global_row [OF P spread j(1,2), folded global_rows_def]
  have off: "policy_starts P ?k + int (nat (int j - policy_starts P ?k)) = int j" using O(2) by simp
  have "global_rows P ?new ! nat (int j) = ?new ?k ! nat (int j - policy_starts P ?k)"
    by (rule policy.global_row(1) [OF P spread' j(1,2), folded global_rows_def])
  also have "\<dots> = (case map_of (zip ids data) (int j) of
      None \<Rightarrow> rows ?k ! nat (int j - policy_starts P ?k) | Some v \<Rightarrow> v)"
    by (simp only: pushed_nth [OF R(2)] off)
  also have "\<dots> = pushed 0 ids data (global_rows P rows) ! j"
    using R(1) by (simp add: pushed_nth [OF j(3)] cong: option.case_cong)
  finally show "global_rows P ?new ! j = pushed 0 ids data (global_rows P rows) ! j" by simp
qed

text \<open>\<open>part_slice P ids data k z\<close>: the pairs of the push that are for machine \<open>k\<close>.\<close>

definition part_slice :: "policy_ctx \<Rightarrow> int list \<Rightarrow> 'v list \<Rightarrow> nat \<Rightarrow> (int \<times> 'v) list \<Rightarrow> bool" where
  "part_slice P ids data k z \<longleftrightarrow> distinct (map fst z) \<and>
     set z = {(i, v) \<in> set (zip ids data). policy_starts P k \<le> i \<and> i < policy_starts P (Suc k)}"

lemma part_slice_pushed:
  assumes z: "part_slice P ids data k z" and dist: "distinct ids" "length ids = length data"
    and len: "int (length rows) = policy_starts P (Suc k) - policy_starts P k"
  shows "pushed (policy_starts P k) (map fst z) (map snd z) rows = pushed (policy_starts P k) ids data rows"
proof (rule pushed_cong)
  fix i
  assume i: "policy_starts P k \<le> i" "i < policy_starts P k + int (length rows)"
  have "distinct (map fst (zip ids data))" using dist by simp
  then have "map_of z i = Some v \<longleftrightarrow> map_of (zip ids data) i = Some v" for v
    using z i len unfolding part_slice_def by (simp add: map_of_eq_Some_iff)
  then have "map_of z i = map_of (zip ids data) i" by (metis not_Some_eq)
  then show "map_of (zip (map fst z) (map snd z)) i = map_of (zip ids data) i" by (simp add: zip_map_fst_snd)
qed

lemma part_slice_ids:
  "part_slice P ids data k z \<Longrightarrow> \<forall>i \<in> set (map fst z). policy_starts P k \<le> i \<and> i < policy_starts P (Suc k)"
  by (auto simp: part_slice_def)

definition push_msg :: "string \<Rightarrow> int \<times> nat \<times> (int \<times> 'v) list \<Rightarrow> int \<times> 'v kv_request" where
  "push_msg name w = (case w of (sid, k, z) \<Rightarrow> (sid, PushRequest name (map fst z) (map snd z)))"

lemma push_msg_simp: "push_msg name (sid, k, z) = (sid, PushRequest name (map fst z) (map snd z))"
  by (simp add: push_msg_def)

lemma deliver_pushes:
  assumes P: "policy_ok P" and G: "0 < G" and dist: "distinct ids" "length ids = length data"
    and cl: "cluster_holds P G h cl name (pushed_parts P ids data rows D)" and spread: "policy.spread P rows"
    and ws: "\<forall>(sid, k, z) \<in> set ws. k < policy_machines P \<and> k \<notin> D \<and> int k * G \<le> sid \<and> sid < (int k + 1) * G \<and>
      part_slice P ids data k z" and "distinct (map (fst \<circ> snd) ws)"
  shows "\<exists>cl'. deliver U roles (map (push_msg name) ws) cl = Inr cl' \<and> cl_server cl' = cl_server cl \<and>
    cluster_holds P G h cl' name (pushed_parts P ids data rows (D \<union> set (map (fst \<circ> snd) ws)))"
  using cl ws assms(8)
proof (induction ws arbitrary: D cl)
  case Nil
  then show ?case by (simp add: deliver_def)
next
  case (Cons w ws)
  obtain sid k z where w: "w = (sid, k, z)" by (metis prod_cases3)
  have k: "k < policy_machines P" "k \<notin> D" "int k * G \<le> sid" "sid < (int k + 1) * G" "part_slice P ids data k z"
    using Cons.prems(2) w by auto
  have z: "distinct (map fst z)" using k(5) by (simp add: part_slice_def)
  have len: "int (length (rows k)) = policy_starts P (Suc k) - policy_starts P k"
    using spread k(1) by (simp add: policy.spread_def)
  let ?parts = "pushed_parts P ids data rows"
  have upd: "(?parts D)(k := pushed (policy_starts P k) (map fst z) (map snd z) (?parts D k)) = ?parts (insert k D)"
    using k(2) part_slice_pushed [OF k(5) dist len] by (auto simp: pushed_parts_def fun_eq_iff)
  obtain cl1 where cl1: "cluster_call U roles sid (PushRequest name (map fst z) (map snd z)) cl = Inr (cl1, NoResponse)"
    "cl_server cl1 = cl_server cl" "cluster_holds P G h cl1 name (?parts (insert k D))"
    using push_call [OF P G Cons.prems(1) k(1,3,4) part_slice_ids [OF k(5)] z, of "map snd z" U roles] unfolding upd by auto
  have "\<forall>(sid, q, z) \<in> set ws. q < policy_machines P \<and> q \<notin> insert k D \<and> int q * G \<le> sid \<and> sid < (int q + 1) * G \<and>
      part_slice P ids data q z"
    using Cons.prems(2,3) w by force
  from Cons.IH [OF cl1(3) this] Cons.prems(3) obtain cl2 where
    "deliver U roles (map (push_msg name) ws) cl1 = Inr cl2" "cl_server cl2 = cl_server cl1"
    "cluster_holds P G h cl2 name (?parts (insert k D \<union> set (map (fst \<circ> snd) ws)))" by auto
  then show ?case using cl1 w by (intro exI [of _ cl2]) (simp add: deliver_def push_msg_simp)
qed

section \<open>The messages of a push\<close>

lemma zip_take_rows:
  assumes "length xs = length ys" and "\<forall>i \<in> set \<sigma>. 0 \<le> i \<and> nat i < length xs"
  shows "zip (map (\<lambda>i. xs ! nat i) \<sigma>) (map (\<lambda>i. ys ! nat i) \<sigma>) = map (\<lambda>i. zip xs ys ! nat i) \<sigma>"
  using assms by (auto simp: zip_map_map zip_same_conv_map intro: map_cong)

lemma push_slices:
  fixes ids :: "int list" and data :: "'v list" and own :: "int \<Rightarrow> int"
  assumes N: "numpy_laws N" and dist: "distinct ids" "length ids = length data"
  defines "\<sigma> \<equiv> np_argsort N (map own ids)"
  obtains ks Z where "machine_slices 0 (np_unique_counts N (map own ids))
      (zip (map (\<lambda>i. ids ! nat i) \<sigma>) (map (\<lambda>i. data ! nat i) \<sigma>)) = map (\<lambda>k. (k, Z k)) ks"
    and "distinct ks" and "set ks = own ` set ids"
    and "\<And>k. distinct (map fst (Z k))" and "\<And>k. set (Z k) = {(i, v) \<in> set (zip ids data). own i = k}"
proof -
  let ?ms = "map own ids"
  define Z where "Z k = map (\<lambda>i. zip ids data ! nat i) (filter (\<lambda>i. ?ms ! nat i = k) \<sigma>)" for k
  note A = argsort_perm [OF N, of ?ms, folded \<sigma>_def]
  have rng: "\<forall>i \<in> set \<sigma>. 0 \<le> i \<and> nat i < length ids" using A(3) by auto
  have d\<sigma>: "distinct \<sigma>"
    using A(1) by (metis mset_eq_imp_distinct_iff arange_def distinct_upto)
  show thesis
  proof (rule that)
    show "machine_slices 0 (np_unique_counts N ?ms)
        (zip (map (\<lambda>i. ids ! nat i) \<sigma>) (map (\<lambda>i. data ! nat i) \<sigma>)) =
      map (\<lambda>k. (k, Z k)) (map fst (np_unique_counts N ?ms))"
      using slices_eq(1) [OF N, of ?ms "zip ids data"] zip_take_rows [OF dist(2) rng]
      by (simp add: \<sigma>_def Z_def)
    show "distinct (map fst (np_unique_counts N ?ms))" "set (map fst (np_unique_counts N ?ms)) = own ` set ids"
      using slices_eq(3,4) [OF N, of ?ms] by (simp_all add: strict_sorted_iff)
    have fst: "map fst (Z k) = map (\<lambda>i. ids ! nat i) (filter (\<lambda>i. ?ms ! nat i = k) \<sigma>)" for k
      using rng dist(2) by (simp add: Z_def)
    have "inj_on (\<lambda>i. ids ! nat i) (set \<sigma>)"
    proof (rule inj_onI)
      fix i j
      assume "i \<in> set \<sigma>" "j \<in> set \<sigma>" "ids ! nat i = ids ! nat j"
      moreover from this have "nat i = nat j" using rng nth_eq_iff_index_eq [OF dist(1)] by blast
      ultimately show "i = j" using rng by (metis nat_eq_iff2 nat_0_le)
    qed
    then show "distinct (map fst (Z k))" for k
      unfolding fst by (auto simp: distinct_map d\<sigma> intro: inj_on_subset)
    show "set (Z k) = {(i, v) \<in> set (zip ids data). own i = k}" for k
    proof (rule set_eqI)
      fix x
      show "x \<in> set (Z k) \<longleftrightarrow> x \<in> {(i, v) \<in> set (zip ids data). own i = k}"
      proof
        assume "x \<in> set (Z k)"
        then show "x \<in> {(i, v) \<in> set (zip ids data). own i = k}"
          using rng dist(2) by (auto simp: Z_def in_set_zip)
      next
        assume "x \<in> {(i, v) \<in> set (zip ids data). own i = k}"
        then obtain j where "j < length ids" "x = (ids ! j, data ! j)" "own (ids ! j) = k"
          by (auto simp: in_set_zip)
        moreover from this have "int j \<in> set \<sigma>" using A(3) by simp
        ultimately show "x \<in> set (Z k)"
          using dist(2) by (auto simp: Z_def intro!: image_eqI [of _ _ "int j"])
      qed
    qed
  qed
qed

section \<open>Push\<close>

lemma put_part:
  assumes P: "policy_ok P" and k: "k < policy_machines P" "policy_at P k = Inr p"
    and len: "int (length rows) = policy_starts P (Suc k) - policy_starts P k"
    and ids: "\<forall>i \<in> set ids. policy_starts P k \<le> i \<and> i < policy_starts P (Suc k)"
    and dist: "distinct ids" "length ids = length data"
  shows "pp_to_local p ids = Inr (map (\<lambda>i. i - policy_starts P k) ids)"
    and "put_rows rows (map (\<lambda>i. i - policy_starts P k) ids) data = Inr (pushed (policy_starts P k) ids data rows)"
proof -
  note O = part_offsets [OF P k len ids]
  show "pp_to_local p ids = Inr (map (\<lambda>i. i - policy_starts P k) ids)" by (rule O(1))
  show "put_rows rows (map (\<lambda>i. i - policy_starts P k) ids) data = Inr (pushed (policy_starts P k) ids data rows)"
    using O(2) dist by (subst put_rows_distinct) (auto simp: distinct_map inj_on_def pushed_def map_of_zip_shift)
qed

text \<open>The local part of a push.\<close>

lemma push_local:
  assumes t: "tensor_ok t" and c: "client_of t k C" and z: "part_slice (tc_policy t) ids data k z"
    and dist: "distinct ids" "length ids = length data" and p: "map_of (kc_part_policy C) (tc_name t) = Some p"
  shows "\<exists>l m'. pp_to_local p (map fst z) = Inr l \<and>
    run_push (tc_udfs t) Default_handler (cl_memory (tc_cluster t) (int k)) (kc_data_store C) (tc_name t) l (map snd z) = Inr m' \<and>
    cluster_holds (tc_policy t) (tc_group t) (tc_handler t) (set_memory (int k) m' (tc_cluster t)) (tc_name t)
      (pushed_parts (tc_policy t) ids data (tc_rows t) {k})"
proof -
  from t c obtain q v where D: "k < policy_machines (tc_policy t)" "map_of (kc_part_policy C) (tc_name t) = Some q"
    "policy_at (tc_policy t) k = Inr q" "map_of (kc_data_store C) (tc_name t) = Some v"
    "map_of (mm_cells (cl_memory (tc_cluster t) (int k))) (vw_addr v) = Some (tc_rows t k)"
    "int (length (tc_rows t k)) = policy_starts (tc_policy t) (Suc k) - policy_starts (tc_policy t) k"
    by (rule client_ofD)
  have q: "p = q" using p D(2) by simp
  have v: "map_option vw_addr (map_of (ks_data_store (cl_server (tc_cluster t) (int k * tc_group t))) (tc_name t)) = Some (vw_addr v)"
    using c D(4) by (auto simp: client_of_def split: option.splits)
  let ?P = "tc_policy t" and ?z = "pushed (policy_starts (tc_policy t) k) (map fst z) (map snd z) (tc_rows t k)"
  let ?m = "write_rows v ?z (cl_memory (tc_cluster t) (int k))"
  have "distinct (map fst z)" using z by (simp add: part_slice_def)
  note L = put_part [OF tensor_okD(1) [OF t] D(1,3,6) part_slice_ids [OF z] this, of "map snd z"]
  have "run_push (tc_udfs t) Default_handler (cl_memory (tc_cluster t) (int k)) (kc_data_store C) (tc_name t)
      (map (\<lambda>i. i - policy_starts ?P k) (map fst z)) (map snd z) = Inr ?m"
    using L(2) D(4,5) by (simp add: run_push_def default_push_handler_def dict_get_def view_rows_def)
  moreover have "cluster_holds ?P (tc_group t) (tc_handler t) (set_memory (int k) ?m (tc_cluster t)) (tc_name t)
      ((tc_rows t)(k := ?z))"
    using t by (intro write_cluster_holds [OF _ D(1) tensor_okD(2) [OF t] v]) (simp_all add: tensor_ok_def)
  moreover have "(tc_rows t)(k := ?z) = pushed_parts ?P ids data (tc_rows t) {k}"
    using part_slice_pushed [OF z dist D(6)] by (auto simp: pushed_parts_def fun_eq_iff)
  ultimately show ?thesis using L(1) q by auto
qed

lemma set_memory_same [simp]: "set_memory k (cl_memory cl k) cl = cl"
  by (simp add: set_memory_def)

lemma owner_part_slice:
  assumes "tensor_ok t" and "\<forall>i \<in> set ids. 0 \<le> i \<and> i < tensor_size t" and "k < policy_machines (tc_policy t)"
    and "distinct (map fst z)" and "set z = {(i, v) \<in> set (zip ids data). int (tensor_owner t i) = int k}"
  shows "part_slice (tc_policy t) ids data k z"
proof -
  have "int (tensor_owner t i) = int k \<longleftrightarrow> policy_starts (tc_policy t) k \<le> i \<and> i < policy_starts (tc_policy t) (Suc k)"
    if "(i, v) \<in> set (zip ids data)" for i v
    using that assms(2) tensor_row_local(2,3) [OF assms(1), of i]
      policy.owner_unique [OF tensor_okD(1) [OF assms(1)] assms(3), of i, folded tensor_owner_def]
    by (auto dest!: set_zip_leftD)
  then show ?thesis using assms(4,5) by (auto simp: part_slice_def)
qed

text \<open>The parts after all owners have got their rows.\<close>

lemma pushed_parts_all:
  assumes "tensor_ok t" and "\<forall>i \<in> set ids. 0 \<le> i \<and> i < tensor_size t" and "k < policy_machines (tc_policy t)"
  shows "pushed_parts (tc_policy t) ids data (tc_rows t) (tensor_owner t ` set ids) k =
    pushed (policy_starts (tc_policy t) k) ids data (tc_rows t k)"
proof (cases "k \<in> tensor_owner t ` set ids")
  case False
  have "policy.spread (tc_policy t) (tc_rows t)" using assms(1) by (auto simp: tensor_ok_def intro: holds_spread)
  then have len: "int (length (tc_rows t k)) = policy_starts (tc_policy t) (Suc k) - policy_starts (tc_policy t) k"
    using assms(3) by (simp add: policy.spread_def)
  have "\<not> (policy_starts (tc_policy t) k \<le> i \<and> i < policy_starts (tc_policy t) (Suc k))" if "i \<in> set ids" for i
    using policy.owner_unique [OF tensor_okD(1) [OF assms(1)] assms(3), of i, folded tensor_owner_def] that False by auto
  then show ?thesis using False len by (simp add: pushed_parts_def pushed_none)
qed (simp add: pushed_parts_def)

lemma picked_server:
  assumes "random_ok rand rand_int" and "0 < kc_group_count C"
  shows "q * kc_group_count C \<le> pick_server rand C n q \<and> pick_server rand C n q < (q + 1) * kc_group_count C"
proof -
  have "q * kc_group_count C \<le> (q + 1) * kc_group_count C - 1" using assms(2) by (simp add: algebra_simps)
  then have "q * kc_group_count C \<le> pick_server rand C n q \<and> pick_server rand C n q \<le> (q + 1) * kc_group_count C - 1"
    using assms(1) unfolding random_ok_def pick_server_def by blast
  then show ?thesis by linarith
qed

text \<open>The local push of \<open>push\<close>, if any identifier is local.\<close>

lemma push_own:
  fixes Z :: "int \<Rightarrow> (int \<times> 'v) list"
  assumes t: "tensor_ok t" and c: "client_of t k C" and z: "part_slice (tc_policy t) ids data k (Z (int k))"
    and dist: "distinct ids" "length ids = length data" and p: "map_of (kc_part_policy C) (tc_name t) = Some p"
  obtains m' where "push_own_slice (tc_udfs t) C (tc_name t) p (own_slice C (map (\<lambda>q. (q, Z q)) ks))
      (cl_memory (tc_cluster t) (int k)) = Inr m'"
    and "cluster_holds (tc_policy t) (tc_group t) (tc_handler t) (set_memory (int k) m' (tc_cluster t)) (tc_name t)
      (pushed_parts (tc_policy t) ids data (tc_rows t) (if int k \<in> set ks then {k} else {}))"
proof (cases "int k \<in> set ks")
  case True
  from t c obtain D: "kc_machine_id C = int k" "map_of (kc_push_handlers C) (tc_name t) = Some Default_handler"
    by (rule client_ofD)
  from push_local [OF t c z dist p] obtain l m' where
    "pp_to_local p (map fst (Z (int k))) = Inr l"
    "run_push (tc_udfs t) Default_handler (cl_memory (tc_cluster t) (int k)) (kc_data_store C) (tc_name t) l (map snd (Z (int k))) = Inr m'"
    "cluster_holds (tc_policy t) (tc_group t) (tc_handler t) (set_memory (int k) m' (tc_cluster t)) (tc_name t)
      (pushed_parts (tc_policy t) ids data (tc_rows t) {k})" by blast
  then show thesis using True D by (intro that [of m']) (simp_all add: own_slice_map dict_get_def push_own_slice_def)
next
  case False
  from t c have "kc_machine_id C = int k" by (rule client_ofD)
  moreover have "pushed_parts (tc_policy t) ids data (tc_rows t) {} = tc_rows t"
    by (simp add: pushed_parts_def fun_eq_iff)
  ultimately show thesis
    using t False by (intro that [of "cl_memory (tc_cluster t) (int k)"]) (simp_all add: own_slice_map tensor_ok_def push_own_slice_def)
qed

lemma own_and_rest: "(if int k \<in> A then {k} else {}) \<union> nat ` (A - {int k}) = nat ` A"
proof -
  have "nat ` A = nat ` (A \<inter> {int k}) \<union> nat ` (A - {int k})" by blast
  moreover have "nat ` (A \<inter> {int k}) = (if int k \<in> A then {k} else {})" by simp
  ultimately show ?thesis by simp
qed

text \<open>What \<open>push\<close> sends, and what it leaves on its own machine.\<close>

lemma push_result:
  assumes t: "tensor_ok t" and c: "client_of t k C" and ne: "tc_name t \<noteq> []"
    and ids: "\<forall>i \<in> set ids. 0 \<le> i \<and> i < tensor_size t" and dist: "distinct ids" "length ids = length data"
    and rand: "random_ok rand rand_int"
  obtains ws m' D where "kc_push (pc_numpy (tc_policy t)) (tc_udfs t) rand C (tc_name t) ids data
      (cl_memory (tc_cluster t) (int k)) = Inr (map (push_msg (tc_name t)) ws, m')"
    and "cluster_holds (tc_policy t) (tc_group t) (tc_handler t) (set_memory (int k) m' (tc_cluster t)) (tc_name t)
      (pushed_parts (tc_policy t) ids data (tc_rows t) D)"
    and "\<forall>(sid, q, z) \<in> set ws. q < policy_machines (tc_policy t) \<and> q \<notin> D \<and> int q * tc_group t \<le> sid \<and>
      sid < (int q + 1) * tc_group t \<and> part_slice (tc_policy t) ids data q z"
    and "distinct (map (fst \<circ> snd) ws)" and "D \<union> set (map (fst \<circ> snd) ws) = tensor_owner t ` set ids"
proof -
  let ?N = "pc_numpy (tc_policy t)" and ?P = "tc_policy t" and ?own = "\<lambda>i. int (tensor_owner t i)"
  let ?mem = "cl_memory (tc_cluster t) (int k)"
  have N: "numpy_laws ?N" using tensor_okD(1) [OF t] by (simp add: policy_ok_def)
  from t c obtain p v where D: "k < policy_machines ?P" "kc_machine_id C = int k" "kc_group_count C = tc_group t"
    "map_of (kc_part_policy C) (tc_name t) = Some p" "policy_at ?P k = Inr p"
    "map_of (kc_push_handlers C) (tc_name t) = Some Default_handler"
    by (rule client_ofD)
  let ?\<sigma> = "np_argsort N (map ?own ids)"
  obtain ks Z where S: "machine_slices 0 (np_unique_counts ?N (map ?own ids))
      (zip (map (\<lambda>i. ids ! nat i) (np_argsort ?N (map ?own ids))) (map (\<lambda>i. data ! nat i) (np_argsort ?N (map ?own ids)))) =
        map (\<lambda>q. (q, Z q)) ks"
    "distinct ks" "set ks = ?own ` set ids" "\<And>q. distinct (map fst (Z q))"
    "\<And>q. set (Z q) = {(i, v) \<in> set (zip ids data). ?own i = q}"
    by (rule push_slices [OF N dist, where own = ?own]) blast
  have rows: "take_rows ids (np_argsort ?N (map ?own ids)) = Inr (map (\<lambda>i. ids ! nat i) (np_argsort ?N (map ?own ids)))"
    "take_rows data (np_argsort ?N (map ?own ids)) = Inr (map (\<lambda>i. data ! nat i) (np_argsort ?N (map ?own ids)))"
    using argsort_perm(3) [OF N, of "map ?own ids"] dist(2) by (auto intro!: take_rows_valid simp: valid_index_def)
  have own: "tensor_owner t i < policy_machines ?P" if "i \<in> set ids" for i
    using tensor_row_local(1) [OF t] ids that by simp
  have slice: "part_slice ?P ids data q (Z (int q))" if "q < policy_machines ?P" for q
    by (rule owner_part_slice [OF t ids that S(4,5)])
  define qs where "qs = filter (\<lambda>q. q \<noteq> int k) ks"
  define ws where "ws = map (\<lambda>(n, q). (pick_server rand C n q, nat q, Z q)) (zip [0..<length qs] qs)"
  have ks: "0 \<le> q \<and> nat q < policy_machines ?P" if "q \<in> set ks" for q using that S(3) own by auto
  have sids: "int (nat q) * tc_group t \<le> pick_server rand C n q \<and> pick_server rand C n q < (int (nat q) + 1) * tc_group t"
    if "q \<in> set qs" for n q
    using picked_server [OF rand, of C q n] tensor_okD(2) [OF t] ks [of q] that by (simp add: D(3) qs_def)
  let ?D = "if int k \<in> set ks then {k} else {}"
  have seconds: "map (fst \<circ> snd) ws = map nat qs"
  proof -
    have "map (fst \<circ> snd) ws = map nat (map snd (zip [0..<length qs] qs))"
      unfolding ws_def map_map by (rule map_cong) auto
    also have "map snd (zip [0..<length qs] qs) = qs" by simp
    finally show ?thesis .
  qed
  have inj: "inj_on nat (set qs)" using ks by (intro inj_onI) (auto simp: qs_def dest: eq_nat_nat_iff [THEN iffD1, rotated 2])
  have msgs: "map (push_msg (tc_name t)) ws =
      map (\<lambda>(n, q, s). (pick_server rand C n q, PushRequest (tc_name t) (map fst s) (map snd s)))
        (zip [0..<length qs] (map (\<lambda>q. (q, Z q)) qs))"
    by (simp add: ws_def push_msg_simp zip_map2 comp_def case_prod_unfold)
  have remote: "filter (\<lambda>(q, s). q \<noteq> kc_machine_id C) (map (\<lambda>q. (q, Z q)) ks) = map (\<lambda>q. (q, Z q)) qs"
    by (simp add: qs_def filter_map comp_def D(2))
  obtain m' where m': "push_own_slice (tc_udfs t) C (tc_name t) p (own_slice C (map (\<lambda>q. (q, Z q)) ks)) ?mem = Inr m'"
    and holds: "cluster_holds ?P (tc_group t) (tc_handler t) (set_memory (int k) m' (tc_cluster t)) (tc_name t)
      (pushed_parts ?P ids data (tc_rows t) ?D)"
    by (rule push_own [where Z = Z and ks = ks, OF t c slice [OF D(1)] dist D(4)])
  show thesis
  proof (rule that [of ws m' ?D])
    show "kc_push ?N (tc_udfs t) rand C (tc_name t) ids data ?mem = Inr (map (push_msg (tc_name t)) ws, m')"
      using ne dist(2) D(4) client_partid [OF t D(1,5) ids] rows S(1) m'
      by (simp add: kc_push_def dict_get_def Let_def remote msgs)
    show "\<forall>(sid, q, z) \<in> set ws. q < policy_machines ?P \<and> q \<notin> ?D \<and> int q * tc_group t \<le> sid \<and>
        sid < (int q + 1) * tc_group t \<and> part_slice ?P ids data q z"
    proof
      fix w
      assume "w \<in> set ws"
      then obtain n q where q: "w = (pick_server rand C n q, nat q, Z q)" "q \<in> set qs"
        by (auto simp: ws_def dest: set_zip_rightD)
      then have k: "0 \<le> q" "nat q < policy_machines ?P" "q \<noteq> int k" using ks by (auto simp: qs_def)
      then have "part_slice ?P ids data (nat q) (Z q)" using slice [of "nat q"] by simp
      then show "case w of (sid, q, z) \<Rightarrow> q < policy_machines ?P \<and> q \<notin> ?D \<and> int q * tc_group t \<le> sid \<and>
          sid < (int q + 1) * tc_group t \<and> part_slice ?P ids data q z"
        using k sids [OF q(2)] by (auto simp: q(1))
    qed
    show "distinct (map (fst \<circ> snd) ws)"
      unfolding seconds using inj S(2) by (simp add: distinct_map qs_def)
    show "?D \<union> set (map (fst \<circ> snd) ws) = tensor_owner t ` set ids"
    proof -
      have "set qs = set ks - {int k}" by (auto simp: qs_def)
      then have "?D \<union> nat ` set qs = nat ` set ks" by (simp only: own_and_rest)
      also have "\<dots> = tensor_owner t ` set ids" by (simp add: S(3) image_image)
      finally show ?thesis unfolding seconds by simp
    qed
  qed (rule holds)
qed

lemma client_of_servers:
  assumes "client_of t k C" and "cl_server cl' = cl_server (tc_cluster t)"
  shows "client_of (t\<lparr>tc_cluster := cl', tc_rows := rows'\<rparr>) k C"
  using assms by (simp add: client_of_def cong: option.case_cong)

text \<open>C2. \<open>push\<close> refines the update of one array: after the local push and the delivery of the
  messages, in any order and to any servers of the owners, the rows of the pushed identifiers are the
  new ones and all others are unchanged; servers and client keep their views, so that the tensor can
  be read and written again.\<close>

theorem push_refines_update:
  assumes "tensor_ok t" and "client_of t k C" and "tc_name t \<noteq> []"
    and "\<forall>i \<in> set ids. 0 \<le> i \<and> i < tensor_size t" and "distinct ids" and "length ids = length data"
    and "random_ok rand rand_int"
  shows "\<exists>msgs m'. kc_push (pc_numpy (tc_policy t)) (tc_udfs t) rand C (tc_name t) ids data
      (cl_memory (tc_cluster t) (int k)) = Inr (msgs, m') \<and>
    (\<forall>msgs'. mset msgs' = mset msgs \<longrightarrow>
      (\<exists>cl' rows'. deliver (tc_udfs t) (tc_roles t) msgs' (set_memory (int k) m' (tc_cluster t)) = Inr cl' \<and>
        tensor_ok (t\<lparr>tc_cluster := cl', tc_rows := rows'\<rparr>) \<and> client_of (t\<lparr>tc_cluster := cl', tc_rows := rows'\<rparr>) k C \<and>
        global_rows (tc_policy t) rows' = pushed 0 ids data (global_rows (tc_policy t) (tc_rows t))))"
proof -
  let ?P = "tc_policy t" and ?own = "tensor_owner t ` set ids"
  note T = tensor_okD(1,2) [OF assms(1)]
  obtain ws m' D where K: "kc_push (pc_numpy ?P) (tc_udfs t) rand C (tc_name t) ids data
      (cl_memory (tc_cluster t) (int k)) = Inr (map (push_msg (tc_name t)) ws, m')"
    "cluster_holds ?P (tc_group t) (tc_handler t) (set_memory (int k) m' (tc_cluster t)) (tc_name t)
      (pushed_parts ?P ids data (tc_rows t) D)"
    "\<forall>(sid, q, z) \<in> set ws. q < policy_machines ?P \<and> q \<notin> D \<and> int q * tc_group t \<le> sid \<and>
      sid < (int q + 1) * tc_group t \<and> part_slice ?P ids data q z"
    "distinct (map (fst \<circ> snd) ws)" "D \<union> set (map (fst \<circ> snd) ws) = ?own"
    by (rule push_result [OF assms])
  have spread: "policy.spread ?P (tc_rows t)" using assms(1) by (auto simp: tensor_ok_def intro: holds_spread)
  let ?rows = "pushed_parts ?P ids data (tc_rows t) ?own"
  have rows: "global_rows ?P ?rows = pushed 0 ids data (global_rows ?P (tc_rows t))"
  proof -
    have "global_rows ?P ?rows = global_rows ?P (\<lambda>k. pushed (policy_starts ?P k) ids data (tc_rows t k))"
      unfolding global_rows_def using pushed_parts_all [OF assms(1,4)] by (intro arg_cong [where f = concat] map_cong) auto
    with pushed_array [OF T(1) spread] show ?thesis by simp
  qed
  have "\<exists>cl'. deliver (tc_udfs t) (tc_roles t) msgs' (set_memory (int k) m' (tc_cluster t)) = Inr cl' \<and>
      tensor_ok (t\<lparr>tc_cluster := cl', tc_rows := ?rows\<rparr>) \<and> client_of (t\<lparr>tc_cluster := cl', tc_rows := ?rows\<rparr>) k C"
    if "mset msgs' = mset (map (push_msg (tc_name t)) ws)" for msgs'
  proof -
    from that obtain ws' where ws': "msgs' = map (push_msg (tc_name t)) ws'" "mset ws' = mset ws"
      by (rule map_perm_split)
    have set: "set ws' = set ws" using ws'(2) by (rule mset_eq_setD)
    have "mset (map (fst \<circ> snd) ws') = mset (map (fst \<circ> snd) ws)"
      unfolding mset_map ws'(2) ..
    then have "distinct (map (fst \<circ> snd) ws')" using K(4) by (metis mset_eq_imp_distinct_iff)
    from deliver_pushes [OF T assms(5,6) K(2) spread K(3) [folded set] this, of "tc_udfs t" "tc_roles t"]
    obtain cl' where cl': "deliver (tc_udfs t) (tc_roles t) msgs' (set_memory (int k) m' (tc_cluster t)) = Inr cl'"
      "cl_server cl' = cl_server (tc_cluster t)"
      "cluster_holds ?P (tc_group t) (tc_handler t) cl' (tc_name t) ?rows"
      using K(5) set by (auto simp: ws'(1) set_memory_def)
    then show ?thesis using assms(1) client_of_servers [OF assms(2) cl'(2)]
      by (intro exI [of _ cl']) (simp add: tensor_ok_def)
  qed
  with K(1) rows show ?thesis by blast
qed

section \<open>An example cluster\<close>

text \<open>Two machines with two servers each, and a tensor of seven rows.\<close>

definition example_node :: "int \<Rightarrow> kv_server" where
  "example_node sid = (example_kv_server sid)\<lparr>ks_machine_id := sid div 2,
     ks_part_policy := [(''h'', projr (policy_at example_policy_ctx (nat (sid div 2))))]\<rparr>"

definition example_rows :: "nat \<Rightarrow> int list" where
  "example_rows k = (if k = 0 then [10, 11, 12] else [13, 14, 15, 16])"

definition example_tensor :: "int tensor_ctx" where
  "example_tensor =
     \<lparr>tc_policy = example_policy_ctx, tc_group = 2,
      tc_cluster = \<lparr>cl_server = example_node,
        cl_memory = (\<lambda>k. \<lparr>mm_cells = [(0, example_rows (nat k))], mm_names = [(''h-kvdata-'', 0)], mm_next = 1\<rparr>)\<rparr>,
      tc_name = ''h'', tc_rows = example_rows, tc_udfs = example_udfs, tc_roles = [],
      tc_handler = Default_handler, tc_read = (\<lambda>x. x)\<rparr>"

definition example_client :: kv_client where
  "example_client =
     \<lparr>kc_client_id = 0, kc_machine_id = 0, kc_part_id = 0, kc_main_server_id = 0, kc_server_count = 4,
      kc_group_count = 2, kc_machine_count = 2, kc_role = ''default'',
      kc_data_store = [(''h'', \<lparr>vw_addr = 0, vw_shape = [3], vw_dtype = ''int64'', vw_own = False\<rparr>)],
      kc_part_policy = [(''h'', projr (policy_at example_policy_ctx 0))], kc_all_possible_part_policy = [],
      kc_full_data_shape = [(''h'', [7])], kc_data_name_list = [''h''], kc_gdata_name_list = [],
      kc_pull_handlers = [(''h'', Default_handler)], kc_push_handlers = [(''h'', Default_handler)]\<rparr>"

lemma example_policy_at: "k < 2 \<Longrightarrow> policy_at example_policy_ctx k = Inr (projr (policy_at example_policy_ctx k))"
  using policy.part_size_eq [OF example_policy_ok, of k]
  by (cases "policy_at example_policy_ctx k") (auto simp: at_policy_def example_policy_starts)

lemma example_part_length: "k < 2 \<Longrightarrow>
  int (length (example_rows k)) = policy_starts example_policy_ctx (Suc k) - policy_starts example_policy_ctx k"
  by (cases k) (simp_all add: example_rows_def example_policy_starts less_Suc_eq numeral_2_eq_2)

lemma example_tensor_ok: "tensor_ok example_tensor"
proof -
  have "cluster_holds example_policy_ctx 2 Default_handler (tc_cluster example_tensor) ''h'' example_rows"
    unfolding cluster_holds_def example_policy_starts
  proof (intro allI impI)
    fix k sid
    assume k: "k < (2 :: nat)" and sid: "int k * 2 \<le> sid \<and> sid < (int k + 1) * (2 :: int)"
    have m: "sid div 2 = int k" using sid by (intro int_div_pos_eq [where r = "sid - int k * 2"]) (simp_all add: algebra_simps)
    then show "ks_server_id (cl_server (tc_cluster example_tensor) sid) = sid \<and>
        ks_machine_id (cl_server (tc_cluster example_tensor) sid) = int k \<and>
        holds_part example_policy_ctx k Default_handler (cl_server (tc_cluster example_tensor) sid)
          (cl_memory (tc_cluster example_tensor) (int k)) ''h'' (example_rows k) \<and>
        same_cell (cl_server (tc_cluster example_tensor) sid) (cl_server (tc_cluster example_tensor) (int k * 2)) ''h''"
      using example_policy_at [OF k] example_part_length [OF k] k
      by (simp add: example_tensor_def example_node_def example_kv_server_def holds_part_def same_cell_def
          example_policy_starts(1))
  qed
  then show ?thesis
    using example_policy_ok rowwise_default by (simp add: tensor_ok_def example_tensor_def)
qed

lemma example_client_of: "client_of example_tensor 0 example_client"
  using example_policy_at [of 0]
  by (simp add: client_of_def example_tensor_def example_client_def example_node_def example_kv_server_def
      example_policy_starts)

lemma example_size: "tensor_size example_tensor = 7" "tc_name example_tensor = ''h''"
  by (simp_all add: tensor_size_def example_tensor_def example_policy_starts)

lemma example_global: "global_rows example_policy_ctx example_rows = [10, 11, 12, 13, 14, 15, 16]"
proof -
  have "[0..<2] = [0, Suc 0]" by (simp add: upt_rec numeral_2_eq_2)
  then show ?thesis by (simp add: global_rows_def example_policy_starts example_rows_def)
qed

lemma example_random: "random_ok (\<lambda>n lo hi. hi) (\<lambda>lo hi. lo)"
  by (simp add: random_ok_def)

theorem pull_reads_array_witness:
  "kc_pull (pc_numpy example_policy_ctx) example_udfs (\<lambda>n lo hi. hi) (\<lambda>lo hi. lo) rev
     (pull_answer example_udfs [] (tc_cluster example_tensor)) example_client ''h'' [5, 0, 5]
     (cl_memory (tc_cluster example_tensor) 0) = Inr [Some 15, Some 10, Some 15]"
  using pull_reads_array [OF example_tensor_ok example_client_of, of "[5, 0, 5]" "\<lambda>n lo hi. hi" "\<lambda>lo hi. lo" rev]
  by (simp add: example_size example_random)
     (simp add: example_tensor_def tensor_row_def example_global)

theorem push_refines_update_witness:
  "\<exists>msgs m' cl' rows'. kc_push (pc_numpy example_policy_ctx) example_udfs (\<lambda>n lo hi. hi) example_client ''h'' [5, 0]
      [50, 20] (cl_memory (tc_cluster example_tensor) 0) = Inr (msgs, m') \<and>
    deliver example_udfs [] msgs (set_memory 0 m' (tc_cluster example_tensor)) = Inr cl' \<and>
    tensor_ok (example_tensor\<lparr>tc_cluster := cl', tc_rows := rows'\<rparr>) \<and>
    global_rows example_policy_ctx rows' = [20, 11, 12, 13, 14, 50, 16]"
proof -
  have "pushed 0 [5, 0] [50, 20] (global_rows example_policy_ctx example_rows) = [20, 11, 12, 13, 14, 50, 16]"
    by (simp add: example_global pushed_def upt_rec)
  then show ?thesis
    using push_refines_update [OF example_tensor_ok example_client_of, of "[5, 0]" "[50, 20]" "\<lambda>n lo hi. hi" "\<lambda>lo hi. lo"]
    by (simp add: example_size example_random) (fastforce simp: example_tensor_def)
qed

end
