(* ===== verification/Roles.thy ===== *)
theory Roles
  imports KVServerProps
begin

text \<open>
  \<^verbatim>\<open>python/dgl/distributed/role.py\<close>: the roles of the clients, which server 0 collects, and the
  ranks every client computes from them. A Python set is a list without repetitions in the order its
  elements are iterated, which differs between processes: the ranks are proved not to depend on it.
  \<open>np.sort\<close> is the argument \<open>np_sort\<close>.
\<close>

section \<open>The server\<close>

type_synonym role_dict = "(string \<times> (int \<times> int) list) list"

type_synonym role_state = "(int \<times> role_dict) list \<times> kv_server option"

definition REG_ROLE_MSG :: string where "REG_ROLE_MSG = ''Register_Role''"
definition GET_ROLE_MSG :: string where "GET_ROLE_MSG = ''Get_Role''"

definition set_add :: "'a \<Rightarrow> 'a list \<Rightarrow> 'a list" where
  "set_add x xs = (if x \<in> set xs then xs else xs @ [x])"

definition new_barrier_count :: "int \<Rightarrow> string \<Rightarrow> kv_server \<Rightarrow> kv_server" where
  "new_barrier_count group_id role s =
     (let counts = (case map_of (ks_barrier_count s) group_id of None \<Rightarrow> [] | Some c \<Rightarrow> c) in
      s\<lparr>ks_barrier_count := AList.update group_id (AList.update role 0 counts) (ks_barrier_count s)\<rparr>)"

definition register_role_process :: "int \<Rightarrow> int \<Rightarrow> int \<Rightarrow> string \<Rightarrow> int \<Rightarrow> role_state \<Rightarrow>
    role_state \<times> (int \<times> string) list option" where
  "register_role_process num_client client_id machine_id role group_id st =
     (case st of (roles, kv_store) \<Rightarrow>
      let tbl = (case map_of roles group_id of None \<Rightarrow> [] | Some r \<Rightarrow> r);
          fresh = (role \<notin> fst ` set tbl);
          kv_store' = (if fresh then map_option (new_barrier_count group_id role) kv_store else kv_store);
          members = (case map_of tbl role of None \<Rightarrow> [] | Some ms \<Rightarrow> ms);
          tbl' = AList.update role (set_add (client_id, machine_id) members) tbl;
          total_count = (\<Sum>(_, ms) \<leftarrow> tbl'. int (length ms));
          res = (if total_count = num_client
                 then Some (map (\<lambda>target_id. (target_id, REG_ROLE_MSG)) (arange 0 num_client)) else None)
      in ((AList.update group_id tbl' roles, kv_store'), res))"

definition get_role_process :: "int \<Rightarrow> role_state \<Rightarrow> (role_dict \<times> string) res" where
  "get_role_process group_id st =
     (case st of (roles, _) \<Rightarrow> rbind (dict_get roles group_id) (\<lambda>r. Inr (r, GET_ROLE_MSG)))"

section \<open>The ranks\<close>

record rank_tables =
  rt_global :: "(int \<times> int) list"
  rt_per_role :: "(string \<times> (int \<times> int) list) list"
  rt_next :: int

definition role_names :: "role_dict \<Rightarrow> string list" where
  "role_names roles = fold (\<lambda>(role_name, _) names. set_add role_name names) roles [''default'']"

definition collect_machines :: "(int \<times> int) list \<Rightarrow> (int \<times> int list) list" where
  "collect_machines clients =
     fold (\<lambda>(client_id, machine_id) machines.
       AList.update machine_id ((case map_of machines machine_id of None \<Rightarrow> [] | Some cs \<Rightarrow> cs) @ [client_id]) machines)
       clients []"

text \<open>The loop over the clients of a machine: the tables, and the next rank in the role.\<close>

definition rank_client :: "int \<Rightarrow> (int \<times> int) list \<times> (int \<times> int) list \<times> int \<times> int \<Rightarrow>
    (int \<times> int) list \<times> (int \<times> int) list \<times> int \<times> int" where
  "rank_client client_id s =
     (case s of (global, role_tbl, global_rank, per_role_rank) \<Rightarrow>
      (AList.update client_id global_rank global, AList.update client_id per_role_rank role_tbl,
       global_rank + 1, per_role_rank + 1))"

definition rank_role :: "(int list \<Rightarrow> int list) \<Rightarrow> role_dict \<Rightarrow> rank_tables \<Rightarrow> string \<Rightarrow> rank_tables res" where
  "rank_role np_sort roles rt role_name =
     rbind (dict_get roles role_name) (\<lambda>clients.
     let machines = collect_machines clients in
     rbind (rfold (\<lambda>s i. rbind (dict_get machines i) (\<lambda>cs. Inr (fold rank_client (np_sort cs) s)))
              (rt_global rt, [], rt_next rt, 0) (arange 0 (int (length machines)))) (\<lambda>(global, role_tbl, next, _).
     Inr \<lparr>rt_global = global, rt_per_role = AList.update role_name role_tbl (rt_per_role rt), rt_next = next\<rparr>))"

definition compute_ranks :: "(int list \<Rightarrow> int list) \<Rightarrow> role_dict \<Rightarrow> rank_tables res" where
  "compute_ranks np_sort roles =
     rfold (rank_role np_sort roles) \<lparr>rt_global = [], rt_per_role = [], rt_next = 0\<rparr> (role_names roles)"

section \<open>The process\<close>

record process_role =
  pr_cur_role :: "string option"
  pr_global_rank :: "(int \<times> int) list"
  pr_per_role_rank :: "(string \<times> (int \<times> int) list) list"
  pr_is_standalone :: bool

text \<open>\<open>init_role\<close>: \<open>reg_msg\<close> and \<open>get_role\<close> are the responses of server 0.\<close>

definition init_role :: "(int list \<Rightarrow> int list) \<Rightarrow> string option \<Rightarrow> string \<Rightarrow> string \<Rightarrow> role_dict \<times> string \<Rightarrow>
    process_role \<Rightarrow> process_role res" where
  "init_role np_sort dist_mode role reg_msg get_role p =
     (let p = p\<lparr>pr_cur_role := Some role\<rparr> in
      if (case dist_mode of None \<Rightarrow> ''standalone'' | Some s \<Rightarrow> s) = ''standalone'' then
        Inr (if role = ''default''
             then p\<lparr>pr_global_rank := AList.update 0 0 (pr_global_rank p),
                    pr_per_role_rank := AList.update ''default'' [(0, 0)] (pr_per_role_rank p),
                    pr_is_standalone := True\<rparr>
             else p\<lparr>pr_is_standalone := True\<rparr>)
      else
        rbind (rassert (reg_msg = REG_ROLE_MSG) AssertionError) (\<lambda>_.
        rbind (rassert (snd get_role = GET_ROLE_MSG) AssertionError) (\<lambda>_.
        rbind (compute_ranks np_sort (fst get_role)) (\<lambda>rt.
        Inr (p\<lparr>pr_global_rank := rt_global rt, pr_per_role_rank := rt_per_role rt\<rparr>)))))"

definition get_global_rank :: "int \<Rightarrow> process_role \<Rightarrow> int res" where
  "get_global_rank rpc_rank p = (if pr_is_standalone p then Inr 0 else dict_get (pr_global_rank p) rpc_rank)"

definition get_rank :: "int \<Rightarrow> string \<Rightarrow> process_role \<Rightarrow> int res" where
  "get_rank rpc_rank role p =
     (if pr_is_standalone p then Inr 0
      else rbind (dict_get (pr_per_role_rank p) role) (\<lambda>tbl. dict_get tbl rpc_rank))"

definition get_trainer_rank :: "int \<Rightarrow> process_role \<Rightarrow> int res" where
  "get_trainer_rank rpc_rank p =
     rbind (rassert (pr_cur_role p = Some ''default'') AssertionError) (\<lambda>_. get_rank rpc_rank ''default'' p)"

definition get_role :: "process_role \<Rightarrow> string option" where
  "get_role p = pr_cur_role p"

definition get_num_trainers :: "process_role \<Rightarrow> int res" where
  "get_num_trainers p = rbind (dict_get (pr_per_role_rank p) ''default'') (\<lambda>tbl. Inr (int (length tbl)))"

section \<open>What the loops compute\<close>

definition sort_law :: "(int list \<Rightarrow> int list) \<Rightarrow> bool" where
  "sort_law np_sort \<longleftrightarrow> (\<forall>xs. mset (np_sort xs) = mset xs \<and> sorted (np_sort xs))"

lemma sort_law_eq: "sort_law np_sort \<Longrightarrow> np_sort xs = sort xs"
  unfolding sort_law_def by (metis properties_for_sort)

text \<open>The specification: the clients of a role, machine by machine, each machine's in order.\<close>

definition role_order :: "(int \<times> int) list \<Rightarrow> nat \<Rightarrow> int list" where
  "role_order clients n = concat (map (\<lambda>i. sort (map fst (filter (\<lambda>c. snd c = int i) clients))) [0..<n])"

lemma map_of_collect:
  "map_of (collect_machines clients) m =
    (let cs = map fst (filter (\<lambda>c. snd c = m) clients) in if cs = [] then None else Some cs)"
proof (induction clients rule: rev_induct)
  case Nil
  then show ?case by (simp add: collect_machines_def)
next
  case (snoc c clients)
  have step: "collect_machines (clients @ [c]) =
      AList.update (snd c) ((case map_of (collect_machines clients) (snd c) of None \<Rightarrow> [] | Some cs \<Rightarrow> cs) @ [fst c])
        (collect_machines clients)" by (simp add: collect_machines_def case_prod_unfold)
  show ?case
  proof (cases "snd c = m")
    case True
    then show ?thesis using snoc.IH by (auto simp: step Let_def filter_empty_conv)
  next
    case False
    then show ?thesis using snoc.IH by (simp add: step)
  qed
qed

lemma collect_distinct: "distinct (map fst (collect_machines clients))"
proof (induction clients rule: rev_induct)
  case (snoc c clients)
  then show ?case by (simp add: collect_machines_def case_prod_unfold distinct_update)
qed (simp add: collect_machines_def)

lemma collect_keys: "fst ` set (collect_machines clients) = snd ` set clients"
proof -
  have "m \<in> fst ` set (collect_machines clients) \<longleftrightarrow> m \<in> snd ` set clients" for m
    unfolding in_keys_iff map_of_collect Let_def by (auto simp: filter_empty_conv)
  then show ?thesis by blast
qed

lemma collect_length:
  assumes "snd ` set clients = {0..<int n}"
  shows "length (collect_machines clients) = n"
proof -
  have "length (collect_machines clients) = card (fst ` set (collect_machines clients))"
    using distinct_card [OF collect_distinct [of clients]] by simp
  also have "\<dots> = n" by (simp add: collect_keys assms)
  finally show ?thesis .
qed

text \<open>Numbering a list of clients.\<close>

lemma rank_clients:
  assumes "distinct cs" and "set cs \<inter> fst ` set global = {}" and "set cs \<inter> fst ` set tbl = {}"
  shows "fold rank_client cs (global, tbl, g, r) =
    (global @ zip cs (arange g (g + int (length cs))), tbl @ zip cs (arange r (r + int (length cs))),
     g + int (length cs), r + int (length cs))"
  using assms
proof (induction cs arbitrary: global tbl g r)
  case (Cons c cs)
  have range: "arange a (a + int (length (c # cs))) = a # arange (a + 1) (a + 1 + int (length cs))" for a
    by (simp add: arange_def upto_rec1 algebra_simps)
  have "rank_client c (global, tbl, g, r) = (global @ [(c, g)], tbl @ [(c, r)], g + 1, r + 1)"
    using Cons.prems by (simp add: rank_client_def update_fresh)
  moreover have "fold rank_client cs (global @ [(c, g)], tbl @ [(c, r)], g + 1, r + 1) =
      ((global @ [(c, g)]) @ zip cs (arange (g + 1) (g + 1 + int (length cs))),
       (tbl @ [(c, r)]) @ zip cs (arange (r + 1) (r + 1 + int (length cs))),
       g + 1 + int (length cs), r + 1 + int (length cs))"
    using Cons.prems by (intro Cons.IH) auto
  ultimately have "fold rank_client (c # cs) (global, tbl, g, r) =
      ((global @ [(c, g)]) @ zip cs (arange (g + 1) (g + 1 + int (length cs))),
       (tbl @ [(c, r)]) @ zip cs (arange (r + 1) (r + 1 + int (length cs))),
       g + 1 + int (length cs), r + 1 + int (length cs))" by simp
  then show ?case unfolding range by (simp add: algebra_simps)
qed (simp add: arange_def)

lemma role_order_Suc: "role_order clients (Suc n) =
    role_order clients n @ sort (map fst (filter (\<lambda>c. snd c = int n) clients))"
  by (simp add: role_order_def)

lemma set_role_order: "set (role_order clients n) = fst ` {c \<in> set clients. 0 \<le> snd c \<and> snd c < int n}"
proof (induction n)
  case (Suc n)
  have "{c \<in> set clients. 0 \<le> snd c \<and> snd c < int (Suc n)} =
      {c \<in> set clients. 0 \<le> snd c \<and> snd c < int n} \<union> {c \<in> set clients. snd c = int n}" by auto
  then show ?case by (simp add: role_order_Suc Suc image_Un)
qed (auto simp: role_order_def)

lemma distinct_role_order:
  assumes "distinct (map fst clients)"
  shows "distinct (role_order clients n)"
proof (induction n)
  case (Suc n)
  have "distinct (map fst (filter (\<lambda>c. snd c = int n) clients))"
    using assms by (rule distinct_map_filter)
  moreover have "c = d" if "c \<in> set clients" "d \<in> set clients" "fst c = fst d" for c d
    using assms that unfolding distinct_map by (blast dest: inj_onD)
  then have "set (role_order clients n) \<inter> fst ` set (filter (\<lambda>c. snd c = int n) clients) = {}"
    unfolding set_role_order by force
  ultimately show ?case using Suc by (simp add: role_order_Suc)
qed (simp add: role_order_def)

text \<open>The loop over the machines of a role.\<close>

lemma zip_numbers_append:
  "zip xs (arange a (a + int (length xs))) @ zip ys (arange (a + int (length xs)) (a + int (length xs) + int (length ys))) =
    zip (xs @ ys) (arange a (a + int (length (xs @ ys))))"
proof -
  have "arange a (a + int (length (xs @ ys))) =
      arange a (a + int (length xs)) @ arange (a + int (length xs)) (a + int (length xs) + int (length ys))"
    using upto_join [of a "a + int (length xs)" "a + int (length xs) + int (length ys)"]
    by (simp add: arange_def algebra_simps)
  then show ?thesis by simp
qed

lemma rank_machines:
  assumes sort: "sort_law np_sort" and m: "{0..<int n} \<subseteq> snd ` set clients" and d: "distinct (map fst clients)"
    and fresh: "fst ` set clients \<inter> fst ` set global = {}"
  shows "rfold (\<lambda>s i. rbind (dict_get (collect_machines clients) i) (\<lambda>cs. Inr (fold rank_client (np_sort cs) s)))
      (global, [], g, 0) (arange 0 (int n)) =
    (let order = role_order clients n in
     Inr (global @ zip order (arange g (g + int (length order))), zip order (arange 0 (int (length order))),
          g + int (length order), int (length order)))"
  using m
proof (induction n)
  case 0
  then show ?case by (simp add: role_order_def arange_def)
next
  case (Suc n)
  let ?order = "role_order clients n" and ?here = "filter (\<lambda>c. snd c = int n) clients"
  have "int n \<in> snd ` set clients" using Suc.prems by auto
  then have here: "dict_get (collect_machines clients) (int n) = Inr (map fst ?here)"
    by (force simp: dict_get_def map_of_collect Let_def filter_empty_conv)
  have range: "arange 0 (int (Suc n)) = arange 0 (int n) @ [int n]"
    by (simp add: arange_def upto_rec2)
  have d': "distinct (?order @ sort (map fst ?here))"
    using distinct_role_order [OF d, of "Suc n"] by (simp only: role_order_Suc)
  have zfst: "fst ` set (zip ?order ns) \<subseteq> set ?order" for ns :: "int list"
    by (auto dest: set_zip_leftD)
  have sub: "set ?order \<subseteq> fst ` set clients" "set (sort (map fst ?here)) \<subseteq> fst ` set clients"
    unfolding set_role_order by auto
  have here_d: "distinct (sort (map fst ?here))" using d' by simp
  have disj: "set (sort (map fst ?here)) \<inter> set ?order = {}" using d' by (simp only: distinct_append) blast
  have B: "set (sort (map fst ?here)) \<inter> fst ` set (zip ?order ns) = {}" for ns :: "int list"
    using disj zfst [of ns] by blast
  have A: "set (sort (map fst ?here)) \<inter> fst ` set (global @ zip ?order ns) = {}" for ns :: "int list"
    using B [of ns] sub(2) fresh unfolding set_append image_Un by blast
  have "fold rank_client (np_sort (map fst ?here))
      (global @ zip ?order (arange g (g + int (length ?order))), zip ?order (arange 0 (int (length ?order))),
       g + int (length ?order), int (length ?order)) =
    ((global @ zip ?order (arange g (g + int (length ?order)))) @
       zip (sort (map fst ?here)) (arange (g + int (length ?order)) (g + int (length ?order) + int (length (sort (map fst ?here))))),
     zip ?order (arange 0 (int (length ?order))) @
       zip (sort (map fst ?here)) (arange (int (length ?order)) (int (length ?order) + int (length (sort (map fst ?here))))),
     g + int (length ?order) + int (length (sort (map fst ?here))), int (length ?order) + int (length (sort (map fst ?here))))"
    unfolding sort_law_eq [OF sort]
    by (rule rank_clients [OF here_d A B])
  moreover have "rfold (\<lambda>s i. rbind (dict_get (collect_machines clients) i) (\<lambda>cs. Inr (fold rank_client (np_sort cs) s)))
      (global, [], g, 0) (arange 0 (int n)) =
    Inr (global @ zip ?order (arange g (g + int (length ?order))), zip ?order (arange 0 (int (length ?order))),
          g + int (length ?order), int (length ?order))"
  proof -
    have "{0..<int n} \<subseteq> snd ` set clients" using Suc.prems by auto
    then show ?thesis using Suc.IH by (simp add: Let_def)
  qed
  ultimately have "rfold (\<lambda>s i. rbind (dict_get (collect_machines clients) i) (\<lambda>cs. Inr (fold rank_client (np_sort cs) s)))
      (global, [], g, 0) (arange 0 (int (Suc n))) =
    Inr (global @ zip (?order @ sort (map fst ?here)) (arange g (g + int (length (?order @ sort (map fst ?here))))),
      zip (?order @ sort (map fst ?here)) (arange 0 (0 + int (length (?order @ sort (map fst ?here))))),
      g + int (length ?order) + int (length (sort (map fst ?here))), int (length ?order) + int (length (sort (map fst ?here))))"
    unfolding zip_numbers_append [symmetric] range rfold_append by (simp add: here)
  then show ?case by (simp add: role_order_Suc Let_def algebra_simps)
qed

text \<open>A well-formed answer of server 0: in every role the clients' machines are numbered without a
  gap, and no client has two roles.\<close>

definition role_machines :: "role_dict \<Rightarrow> string \<Rightarrow> nat" where
  "role_machines roles name = card (snd ` set (the (map_of roles name)))"

definition roles_ok :: "role_dict \<Rightarrow> bool" where
  "roles_ok roles \<longleftrightarrow>
     distinct (map fst roles) \<and> ''default'' \<in> fst ` set roles \<and>
     (\<forall>(name, clients) \<in> set roles. snd ` set clients = {0..<int (card (snd ` set clients))}) \<and>
     distinct (map fst (concat (map snd roles)))"

definition order_of_role :: "role_dict \<Rightarrow> string \<Rightarrow> int list" where
  "order_of_role roles name = role_order (the (map_of roles name)) (role_machines roles name)"

definition numbered :: "int list \<Rightarrow> (int \<times> int) list" where
  "numbered xs = zip xs (arange 0 (int (length xs)))"

lemma roles_okD:
  assumes "roles_ok roles" and "map_of roles name = Some clients"
  shows "snd ` set clients = {0..<int (role_machines roles name)}" and "distinct (map fst clients)"
    and "map_of roles name' = Some clients' \<Longrightarrow> name' \<noteq> name \<Longrightarrow> fst ` set clients \<inter> fst ` set clients' = {}"
proof -
  have mem: "(name, clients) \<in> set roles" using assms(2) by (rule map_of_SomeD)
  then have "snd ` set clients = {0..<int (card (snd ` set clients))}"
    using assms(1) unfolding roles_ok_def by blast
  with assms(2) show "snd ` set clients = {0..<int (role_machines roles name)}"
    by (simp add: role_machines_def)
  have split: "\<exists>us vs. roles = us @ (n, cs) # vs" if "(n, cs) \<in> set roles" for n cs
    using that by (meson split_list)
  have dist: "distinct (map fst (concat (map snd roles)))" using assms(1) by (simp add: roles_ok_def)
  obtain us vs where r: "roles = us @ (name, clients) # vs" using split [OF mem] by blast
  show "distinct (map fst clients)" using dist r by simp
  assume n': "map_of roles name' = Some clients'" "name' \<noteq> name"
  then have "(name', clients') \<in> set us \<union> set vs" using r by (auto dest: map_of_SomeD)
  then have "fst ` set clients' \<subseteq> fst ` (\<Union> (set ` set (map snd us)) \<union> \<Union> (set ` set (map snd vs)))" by force
  moreover have "fst ` set clients \<inter> fst ` (\<Union> (set ` set (map snd us)) \<union> \<Union> (set ` set (map snd vs))) = {}"
    using dist unfolding r by (simp add: image_Un) blast
  ultimately show "fst ` set clients \<inter> fst ` set clients' = {}" by blast
qed

lemma rank_roles:
  assumes sort: "sort_law np_sort" and ok: "roles_ok roles" and names: "set names \<subseteq> fst ` set roles" "distinct names"
    and fresh: "\<forall>name \<in> set names. \<forall>clients. map_of roles name = Some clients \<longrightarrow> fst ` set clients \<inter> fst ` set global = {}"
    and tbl: "set names \<inter> fst ` set per_role = {}"
  shows "rfold (rank_role np_sort roles) \<lparr>rt_global = global, rt_per_role = per_role, rt_next = g\<rparr> names =
    (let order = concat (map (order_of_role roles) names) in
     Inr \<lparr>rt_global = global @ zip order (arange g (g + int (length order))),
          rt_per_role = per_role @ map (\<lambda>name. (name, numbered (order_of_role roles name))) names,
          rt_next = g + int (length order)\<rparr>)"
  using names fresh tbl
proof (induction names arbitrary: global per_role g)
  case Nil
  then show ?case by (simp add: arange_def)
next
  case (Cons name names)
  obtain clients where c: "map_of roles name = Some clients"
    using Cons.prems(1) by (auto simp: in_keys_iff)
  note D = roles_okD [OF ok c]
  let ?o = "order_of_role roles name"
  have o: "role_order clients (role_machines roles name) = ?o" using c by (simp add: order_of_role_def)
  have len: "length (collect_machines clients) = role_machines roles name" using D(1) by (rule collect_length)
  let ?global = "global @ zip ?o (arange g (g + int (length ?o)))"
  have "fst ` set clients \<inter> fst ` set global = {}" using Cons.prems(3) c by simp
  from rank_machines [OF sort _ D(2) this, of "role_machines roles name" g] D(1)
  have "rank_role np_sort roles \<lparr>rt_global = global, rt_per_role = per_role, rt_next = g\<rparr> name =
      Inr \<lparr>rt_global = ?global, rt_per_role = per_role @ [(name, numbered ?o)], rt_next = g + int (length ?o)\<rparr>"
    using Cons.prems(4) c len by (simp add: rank_role_def dict_get_def o Let_def numbered_def update_fresh)
  moreover have "\<forall>n \<in> set names. \<forall>cs. map_of roles n = Some cs \<longrightarrow> fst ` set cs \<inter> fst ` set ?global = {}"
  proof (intro ballI allI impI)
    fix n cs
    assume n: "n \<in> set names" "map_of roles n = Some cs"
    then have "n \<noteq> name" using Cons.prems(2) by auto
    then have "fst ` set clients \<inter> fst ` set cs = {}" using D(3) n(2) by blast
    moreover have "set ?o \<subseteq> fst ` set clients" unfolding o [symmetric] set_role_order by auto
    moreover have "fst ` set (zip ?o (arange g (g + int (length ?o)))) \<subseteq> set ?o" by (auto dest: set_zip_leftD)
    ultimately show "fst ` set cs \<inter> fst ` set ?global = {}"
      using Cons.prems(3) n unfolding set_append image_Un by (auto 0 4)
  qed
  ultimately show ?case
    using Cons.IH [of ?global "per_role @ [(name, numbered ?o)]" "g + int (length ?o)"] Cons.prems
      zip_numbers_append [of ?o g "concat (map (order_of_role roles) names)"]
    by (auto simp: Let_def algebra_simps)
qed

lemma role_names_eq:
  assumes "distinct (map fst roles)"
  shows "role_names roles = ''default'' # filter (\<lambda>n. n \<noteq> ''default'') (map fst roles)"
proof -
  have "fold (\<lambda>(role_name, _) names. set_add role_name names) xs names =
      names @ filter (\<lambda>n. n \<notin> set names) (map fst xs)" if "distinct (map fst xs)" for xs :: role_dict and names
    using that
  proof (induction xs arbitrary: names)
    case (Cons x xs)
    then have "filter (\<lambda>n. n \<notin> set (set_add (fst x) names)) (map fst xs) = filter (\<lambda>n. n \<notin> set names) (map fst xs)"
      by (intro filter_cong) (auto simp: set_add_def intro: rev_image_eqI)
    then show ?case using Cons by (cases "fst x \<in> set names") (simp_all add: set_add_def case_prod_unfold)
  qed simp
  from this [OF assms, of "[''default'']"] show ?thesis by (simp add: role_names_def)
qed

lemma compute_ranks_eq:
  assumes "sort_law np_sort" and ok: "roles_ok roles"
  shows "compute_ranks np_sort roles =
    Inr \<lparr>rt_global = numbered (concat (map (order_of_role roles) (role_names roles))),
         rt_per_role = map (\<lambda>name. (name, numbered (order_of_role roles name))) (role_names roles),
         rt_next = int (length (concat (map (order_of_role roles) (role_names roles))))\<rparr>"
proof -
  have d: "distinct (map fst roles)" "''default'' \<in> fst ` set roles" using ok by (auto simp: roles_ok_def)
  then have names: "set (role_names roles) \<subseteq> fst ` set roles" "distinct (role_names roles)"
    by (auto simp: role_names_eq)
  from rank_roles [OF assms names, of "[]" "[]" 0] show ?thesis
    by (simp add: compute_ranks_def Let_def numbered_def)
qed

lemma distinct_concat_map:
  assumes "distinct xs" and "\<And>x. x \<in> set xs \<Longrightarrow> distinct (f x)"
    and "\<And>x y. x \<in> set xs \<Longrightarrow> y \<in> set xs \<Longrightarrow> x \<noteq> y \<Longrightarrow> set (f x) \<inter> set (f y) = {}"
  shows "distinct (concat (map f xs))"
  using assms
proof (induction xs)
  case (Cons x xs)
  then have "set (f x) \<inter> set (concat (map f xs)) = {}" by fastforce
  then show ?case using Cons by simp
qed simp

lemma order_all:
  assumes "roles_ok roles"
  shows "distinct (concat (map (order_of_role roles) (role_names roles)))"
    and "set (concat (map (order_of_role roles) (role_names roles))) = fst ` set (concat (map snd roles))"
proof -
  have d: "distinct (map fst roles)" "''default'' \<in> fst ` set roles" using assms by (auto simp: roles_ok_def)
  then have names: "set (role_names roles) = fst ` set roles" "distinct (role_names roles)"
    by (auto simp: role_names_eq)
  have ord: "set (order_of_role roles n) = fst ` set cs" "distinct (order_of_role roles n)"
    if "map_of roles n = Some cs" for n cs
  proof -
    note D = roles_okD(1,2) [OF assms that]
    have "{c \<in> set cs. 0 \<le> snd c \<and> snd c < int (role_machines roles n)} = set cs" using D(1) by force
    then show "set (order_of_role roles n) = fst ` set cs" "distinct (order_of_role roles n)"
      using that D(2) by (simp_all add: order_of_role_def set_role_order distinct_role_order)
  qed
  have some: "\<exists>cs. map_of roles n = Some cs" if "n \<in> set (role_names roles)" for n
    using that names(1) by (auto simp: in_keys_iff)
  show "distinct (concat (map (order_of_role roles) (role_names roles)))"
  proof (rule distinct_concat_map [OF names(2)])
    fix n
    assume "n \<in> set (role_names roles)"
    then show "distinct (order_of_role roles n)" using some ord(2) by blast
  next
    fix n n'
    assume "n \<in> set (role_names roles)" "n' \<in> set (role_names roles)" "n \<noteq> n'"
    then show "set (order_of_role roles n) \<inter> set (order_of_role roles n') = {}"
      using some ord(1) roles_okD(3) [OF assms] by metis
  qed
  have "set (concat (map (order_of_role roles) (role_names roles))) = (\<Union>(n, cs) \<in> set roles. fst ` set cs)"
  proof -
    have "order_of_role roles n = role_order cs (role_machines roles n) \<and> set (order_of_role roles n) = fst ` set cs"
      if "(n, cs) \<in> set roles" for n cs
      using that d(1) ord(1) by (simp add: order_of_role_def)
    then show ?thesis unfolding set_concat set_map names(1) by (auto simp: image_iff) force+
  qed
  then show "set (concat (map (order_of_role roles) (role_names roles))) = fst ` set (concat (map snd roles))"
    by force
qed

section \<open>The order of sets does not matter\<close>

definition same_roles :: "role_dict \<Rightarrow> role_dict \<Rightarrow> bool" where
  "same_roles roles roles' \<longleftrightarrow> list_all2 (\<lambda>x y. fst x = fst y \<and> mset (snd x) = mset (snd y)) roles roles'"

lemma same_rolesD:
  assumes "same_roles roles roles'"
  shows "map fst roles' = map fst roles" and "mset (concat (map snd roles')) = mset (concat (map snd roles))"
    and "rel_option (\<lambda>a b. mset a = mset b) (map_of roles n) (map_of roles' n)"
  using assms unfolding same_roles_def by (induction rule: list_all2_induct) auto

lemma role_order_mset:
  assumes "mset cs = mset cs'"
  shows "role_order cs n = role_order cs' n"
proof -
  have "mset (map fst (filter (\<lambda>c. snd c = int i) cs)) = mset (map fst (filter (\<lambda>c. snd c = int i) cs'))" for i
    using assms by simp
  then have "sort (map fst (filter (\<lambda>c. snd c = int i) cs)) = sort (map fst (filter (\<lambda>c. snd c = int i) cs'))" for i
    by (metis properties_for_sort mset_sort sorted_sort)
  then show ?thesis by (simp add: role_order_def)
qed

lemma order_of_same_roles:
  assumes "same_roles roles roles'" and "n \<in> fst ` set roles"
  shows "order_of_role roles' n = order_of_role roles n"
proof -
  obtain cs cs' where c: "map_of roles n = Some cs" "map_of roles' n = Some cs'" "mset cs = mset cs'"
    using same_rolesD(3) [OF assms(1), of n] assms(2) by (auto simp: in_keys_iff elim: option.rel_cases)
  then have "set cs = set cs'" by (metis mset_eq_setD)
  then show ?thesis using c role_order_mset [OF c(3)] by (simp add: order_of_role_def role_machines_def)
qed

lemma same_roles_ok:
  assumes "same_roles roles roles'" and "roles_ok roles"
  shows "roles_ok roles'"
proof -
  have "mset (map fst (concat (map snd roles'))) = mset (map fst (concat (map snd roles)))"
    using same_rolesD(2) [OF assms(1)] by (simp only: mset_map)
  then have d: "distinct (map fst (concat (map snd roles')))"
    using assms(2) unfolding roles_ok_def by (metis mset_eq_imp_distinct_iff)
  have gaps: "\<forall>(n, cs) \<in> set roles. snd ` set cs = {0..<int (card (snd ` set cs))}"
    using assms(2) by (simp add: roles_ok_def)
  have new: "\<forall>(n, cs) \<in> set roles'. snd ` set cs = {0..<int (card (snd ` set cs))}"
  proof
    fix y
    assume "y \<in> set roles'"
    then obtain j where j: "j < length roles'" "y = roles' ! j" by (metis in_set_conv_nth)
    have "length roles = length roles'" using assms(1) by (simp add: same_roles_def list_all2_lengthD)
    then have "roles ! j \<in> set roles" "mset (snd (roles ! j)) = mset (snd y)"
      using assms(1) j unfolding same_roles_def by (simp_all add: list_all2_conv_all_nth)
    then have "snd ` set (snd (roles ! j)) = {0..<int (card (snd ` set (snd (roles ! j))))}"
      and "set (snd (roles ! j)) = set (snd y)"
      using bspec [OF gaps] by (auto simp only: case_prod_unfold dest: mset_eq_setD)
    then have "snd ` set (snd y) = {0..<int (card (snd ` set (snd y)))}" by (simp only:)
    then show "case y of (n, cs) \<Rightarrow> snd ` set cs = {0..<int (card (snd ` set cs))}" by (simp add: case_prod_unfold)
  qed
  have keys: "fst ` set roles' = fst ` set roles" using arg_cong [OF same_rolesD(1) [OF assms(1)], of set] by simp
  show ?thesis
    using assms(2) d new unfolding roles_ok_def same_rolesD(1) [OF assms(1)] keys by blast
qed

text \<open>All clients compute the same ranks, whatever the order in which their sets of clients are
  iterated: the global ranks number all clients, each once, role by role with the trainers first, in a
  role machine by machine and on a machine by client ID; the ranks in a role number its clients in the
  same order.\<close>

theorem ranks_deterministic:
  assumes "sort_law np_sort" and "roles_ok roles" and "same_roles roles roles'"
  shows "compute_ranks np_sort roles' =
    Inr \<lparr>rt_global = numbered (concat (map (order_of_role roles) (role_names roles))),
         rt_per_role = map (\<lambda>name. (name, numbered (order_of_role roles name))) (role_names roles),
         rt_next = int (length (concat (map (order_of_role roles) (role_names roles))))\<rparr> \<and>
    hd (role_names roles) = ''default'' \<and>
    distinct (concat (map (order_of_role roles) (role_names roles))) \<and>
    set (concat (map (order_of_role roles) (role_names roles))) = fst ` set (concat (map snd roles))"
proof -
  have d: "distinct (map fst roles)" "''default'' \<in> fst ` set roles" using assms(2) by (auto simp: roles_ok_def)
  have names: "role_names roles' = role_names roles" "set (role_names roles) = fst ` set roles"
    using d same_rolesD(1) [OF assms(3)] by (auto simp: role_names_eq)
  then have "map (order_of_role roles') (role_names roles) = map (order_of_role roles) (role_names roles)"
    "map (\<lambda>name. (name, numbered (order_of_role roles' name))) (role_names roles) =
      map (\<lambda>name. (name, numbered (order_of_role roles name))) (role_names roles)"
    using order_of_same_roles [OF assms(3)] by simp_all
  then have "compute_ranks np_sort roles' =
    Inr \<lparr>rt_global = numbered (concat (map (order_of_role roles) (role_names roles))),
         rt_per_role = map (\<lambda>name. (name, numbered (order_of_role roles name))) (role_names roles),
         rt_next = int (length (concat (map (order_of_role roles) (role_names roles))))\<rparr>"
    by (simp only: compute_ranks_eq [OF assms(1) same_roles_ok [OF assms(3,2)]] names(1))
  moreover have "hd (role_names roles) = ''default''" using d(1) by (simp add: role_names_eq)
  ultimately show ?thesis using order_all [OF assms(2)] by blast
qed

definition example_roles :: role_dict where
  "example_roles = [(''sampler'', [(5, 1), (1, 0)]), (''default'', [(3, 1), (4, 0), (0, 0)])]"

theorem ranks_deterministic_witness:
  "compute_ranks sort [(''sampler'', [(1, 0), (5, 1)]), (''default'', [(0, 0), (3, 1), (4, 0)])] =
    Inr \<lparr>rt_global = [(0, 0), (4, 1), (3, 2), (1, 3), (5, 4)],
         rt_per_role = [(''default'', [(0, 0), (4, 1), (3, 2)]), (''sampler'', [(1, 0), (5, 1)])], rt_next = 5\<rparr>"
proof -
  have "sort_law sort" by (simp add: sort_law_def)
  moreover have "{0, 1} = {0..<(2 :: int)}" by auto
  then have "roles_ok example_roles" by (auto simp: roles_ok_def example_roles_def)
  moreover have "same_roles example_roles [(''sampler'', [(1, 0), (5, 1)]), (''default'', [(0, 0), (3, 1), (4, 0)])]"
    by (simp add: same_roles_def example_roles_def)
  moreover have "role_names example_roles = [''default'', ''sampler'']"
    by (simp add: role_names_def example_roles_def set_add_def)
  moreover have "order_of_role example_roles ''default'' = [0, 4, 3]" "order_of_role example_roles ''sampler'' = [1, 5]"
    by (simp_all add: order_of_role_def role_machines_def example_roles_def role_order_def upt_rec card_insert_if)
  ultimately show ?thesis
    using ranks_deterministic [of sort example_roles] by (simp add: numbered_def arange_def upto_rec1)
qed

end
