(* ===== verification/Barrier.thy ===== *)
theory Barrier
  imports Roles
begin

text \<open>
  The barrier of the clients of a role: \<open>KVClient.barrier\<close> of
  \<^verbatim>\<open>python/dgl/distributed/kvstore.py\<close> on one side and \<open>BarrierRequest.process_request\<close> on the
  other, as a step relation. A client sends its request to server 0 and waits for one response; the
  server takes the requests of the clients in any order, between any other requests, and answers all
  clients of a role together when the last one has come; the responses arrive in any order.
\<close>

section \<open>The system\<close>

text \<open>
  The clients of one group: server 0, the barrier requests under way as pairs of client and role, the
  responses under way as pairs of client and message, the clients that wait in \<open>barrier\<close> and the
  number of barriers each has passed.
\<close>

record 'v barrier_sys =
  bs_server :: "'v kv_state"
  bs_requests :: "(int \<times> string) list"
  bs_responses :: "(int \<times> string) list"
  bs_waiting :: "int list"
  bs_passed :: "int \<Rightarrow> nat"

text \<open>\<open>barrier\<close> up to \<open>recv_response\<close>, and from the response on.\<close>

definition barrier_enter :: "int \<Rightarrow> string \<Rightarrow> 'v barrier_sys \<Rightarrow> 'v barrier_sys" where
  "barrier_enter c role s =
     s\<lparr>bs_requests := bs_requests s @ [(c, role)], bs_waiting := c # bs_waiting s\<rparr>"

definition barrier_leave :: "int \<Rightarrow> string \<Rightarrow> 'v barrier_sys \<Rightarrow> 'v barrier_sys res" where
  "barrier_leave c msg s =
     rbind (rassert (msg = BARRIER_MSG) AssertionError) (\<lambda>_.
     Inr (s\<lparr>bs_waiting := removeAll c (bs_waiting s), bs_passed := (bs_passed s)(c := bs_passed s c + 1)\<rparr>))"

text \<open>What the server loop sends for the value \<open>process_request\<close> returns.\<close>

definition responses_of :: "int \<Rightarrow> 'v kv_response \<Rightarrow> (int \<times> string) list" where
  "responses_of c r = (case r of ResponseList l \<Rightarrow> l | MsgResponse msg \<Rightarrow> [(c, msg)] | _ \<Rightarrow> [])"

type_synonym role_table = "(string \<times> (int \<times> int) list) list"

definition members :: "role_table \<Rightarrow> string \<Rightarrow> int set" where
  "members tbl role = (case map_of tbl role of None \<Rightarrow> {} | Some ms \<Rightarrow> fst ` set ms)"

inductive barrier_internal :: "int \<Rightarrow> role_table \<Rightarrow> 'v barrier_sys \<Rightarrow> 'v barrier_sys \<Rightarrow> bool"
  for g tbl where
  handle: "bs_requests s = xs @ (c, role) # ys \<Longrightarrow>
    barrier_process [(g, tbl)] role g (bs_server s) = Inr (st, r) \<Longrightarrow>
    barrier_internal g tbl s
      (s\<lparr>bs_server := st, bs_requests := xs @ ys, bs_responses := bs_responses s @ responses_of c r\<rparr>)"
| receive: "bs_responses s = xs @ (c, msg) # ys \<Longrightarrow> c \<in> set (bs_waiting s) \<Longrightarrow>
    barrier_leave c msg (s\<lparr>bs_responses := xs @ ys\<rparr>) = Inr t \<Longrightarrow> barrier_internal g tbl s t"

inductive barrier_step :: "'v udfs \<Rightarrow> int \<Rightarrow> role_table \<Rightarrow> 'v barrier_sys \<Rightarrow> 'v barrier_sys \<Rightarrow> bool"
  for U g tbl where
  enter: "c \<in> members tbl role \<Longrightarrow> c \<notin> set (bs_waiting s) \<Longrightarrow>
    barrier_step U g tbl s (barrier_enter c role s)"
| other: "\<forall>role g'. req \<noteq> BarrierRequest role g' \<Longrightarrow>
    process_request U [(g, tbl)] req (bs_server s) = Inr (st, r) \<Longrightarrow>
    barrier_step U g tbl s (s\<lparr>bs_server := st\<rparr>)"
| internal: "barrier_internal g tbl s t \<Longrightarrow> barrier_step U g tbl s t"

inductive_cases barrier_internalE: "barrier_internal g tbl s t"

text \<open>After registration: no client is in a barrier and the server has counted none.\<close>

definition role_counts :: "int \<Rightarrow> 'v barrier_sys \<Rightarrow> string \<Rightarrow> int option" where
  "role_counts g s role = Option.bind (map_of (ks_barrier_count (fst (bs_server s))) g) (\<lambda>t. map_of t role)"

definition barrier_init :: "int \<Rightarrow> role_table \<Rightarrow> 'v barrier_sys \<Rightarrow> bool" where
  "barrier_init g tbl s \<longleftrightarrow> (\<forall>role \<in> fst ` set tbl. role_counts g s role = Some 0) \<and>
     bs_requests s = [] \<and> bs_responses s = [] \<and> bs_waiting s = [] \<and> (\<forall>c. bs_passed s c = 0)"

definition table_ok :: "role_table \<Rightarrow> bool" where
  "table_ok tbl \<longleftrightarrow> distinct (map fst tbl) \<and> distinct (map fst (concat (map snd tbl))) \<and> (\<forall>(r, ms) \<in> set tbl. ms \<noteq> [])"

definition entered :: "'v barrier_sys \<Rightarrow> int \<Rightarrow> nat" where
  "entered s c = bs_passed s c + (if c \<in> set (bs_waiting s) then 1 else 0)"

section \<open>One round of one role\<close>

text \<open>
  \<open>M\<close> are the clients of a role, \<open>W\<close> those that wait, \<open>Q\<close> those whose request and \<open>P\<close> those whose
  response is under way, \<open>n\<close> the count of the server: the clients it has counted are the waiting rest,
  never all of them, and the clients with a response are one barrier behind the others.
\<close>

definition counted :: "int set \<Rightarrow> int set \<Rightarrow> int set \<Rightarrow> int set \<Rightarrow> int set" where
  "counted M W Q P = (M \<inter> W) - Q - P"

definition round_ok :: "int set \<Rightarrow> int set \<Rightarrow> int set \<Rightarrow> int set \<Rightarrow> (int \<Rightarrow> nat) \<Rightarrow> nat \<Rightarrow> bool" where
  "round_ok M W Q P passed n \<longleftrightarrow> n = card (counted M W Q P) \<and> n < card M \<and>
     (\<exists>R. \<forall>c\<in>M. passed c + (if c \<in> P then 1 else 0) = R)"

lemma counted_subset: "counted M W Q P \<subseteq> M" by (auto simp: counted_def)

lemma round_ok_finite: "round_ok M W Q P passed n \<Longrightarrow> finite M"
  by (rule card_ge_0_finite) (auto simp: round_ok_def)

lemma round_enter:
  assumes "round_ok M W Q P passed n" and "c \<notin> W" and "P \<subseteq> W"
  shows "round_ok M (insert c W) (insert c Q) P passed n"
proof -
  have "counted M (insert c W) (insert c Q) P = counted M W Q P"
    using assms(2) by (auto simp: counted_def)
  with assms(1) show ?thesis by (simp add: round_ok_def)
qed

lemma round_count:
  assumes ok: "round_ok M W Q P passed n" and c: "c \<in> M" "c \<in> Q" "c \<in> W" "c \<notin> P" and n: "Suc n \<noteq> card M"
  shows "round_ok M W (Q - {c}) P passed (Suc n)"
proof -
  have "counted M W (Q - {c}) P = insert c (counted M W Q P)" "c \<notin> counted M W Q P"
    using c by (auto simp: counted_def)
  moreover have "finite (counted M W Q P)"
    using counted_subset round_ok_finite [OF ok] by (rule finite_subset)
  ultimately show ?thesis using ok n by (simp add: round_ok_def)
qed

lemma round_full:
  assumes ok: "round_ok M W Q P passed n" and c: "c \<in> M" "c \<in> Q" "c \<notin> P" and n: "Suc n = card M"
  shows "M \<subseteq> insert c (counted M W Q P)" and "round_ok M W (Q - {c}) (P \<union> M) passed 0"
proof -
  let ?K = "counted M W Q P"
  have fin: "finite M" using ok by (rule round_ok_finite)
  have "finite ?K" using counted_subset fin by (rule finite_subset)
  moreover have "c \<notin> ?K" using c by (simp add: counted_def)
  ultimately have "card (insert c ?K) = card M" using ok n by (simp add: round_ok_def)
  moreover have "insert c ?K \<subseteq> M" using c counted_subset by blast
  ultimately have all: "insert c ?K = M" using fin by (simp add: card_subset_eq)
  then show "M \<subseteq> insert c ?K" by simp
  have "x \<notin> P" if "x \<in> M" for x using that c all by (auto simp: counted_def)
  moreover obtain R where "\<forall>c\<in>M. passed c + (if c \<in> P then 1 else 0) = R" using ok by (auto simp: round_ok_def)
  ultimately have "\<forall>c\<in>M. passed c + (if c \<in> P \<union> M then 1 else 0) = R + 1" by simp
  moreover have "counted M W (Q - {c}) (P \<union> M) = {}" by (auto simp: counted_def)
  ultimately show "round_ok M W (Q - {c}) (P \<union> M) passed 0" using n by (auto simp: round_ok_def)
qed

lemma round_other:
  assumes "round_ok M W Q P passed n" and "c \<notin> M" and "M \<inter> M' = {}"
  shows "round_ok M W (Q - {c}) (P \<union> M') passed n"
proof -
  have "counted M W (Q - {c}) (P \<union> M') = counted M W Q P" using assms(2,3) by (auto simp: counted_def)
  moreover have "c \<in> P \<union> M' \<longleftrightarrow> c \<in> P" if "c \<in> M" for c using that assms(3) by blast
  ultimately show ?thesis using assms(1) by (simp add: round_ok_def)
qed

lemma round_receive:
  assumes ok: "round_ok M W Q P passed n" and c: "c \<in> P"
  shows "round_ok M (W - {c}) Q (P - {c}) (passed(c := passed c + 1)) n"
proof -
  obtain R where "\<forall>x\<in>M. passed x + (if x \<in> P then 1 else 0) = R" using ok by (auto simp: round_ok_def)
  then have "\<forall>x\<in>M. (passed(c := passed c + 1)) x + (if x \<in> P - {c} then 1 else 0) = R" using c by auto
  moreover have "counted M (W - {c}) Q (P - {c}) = counted M W Q P" using c by (auto simp: counted_def)
  ultimately show ?thesis using ok by (auto simp: round_ok_def)
qed

section \<open>The invariant of the system\<close>

definition barrier_inv :: "int \<Rightarrow> role_table \<Rightarrow> 'v barrier_sys \<Rightarrow> bool" where
  "barrier_inv g tbl s \<longleftrightarrow>
     (let W = set (bs_waiting s); Q = fst ` set (bs_requests s); P = fst ` set (bs_responses s) in
      distinct (map fst (bs_requests s)) \<and> distinct (map fst (bs_responses s)) \<and> Q \<inter> P = {} \<and> Q \<union> P \<subseteq> W \<and>
      (\<forall>(c, role) \<in> set (bs_requests s). c \<in> members tbl role) \<and>
      (\<forall>(c, msg) \<in> set (bs_responses s). msg = BARRIER_MSG) \<and>
      (\<forall>role \<in> fst ` set tbl. \<exists>n. role_counts g s role = Some (int n) \<and> round_ok (members tbl role) W Q P (bs_passed s) n))"

lemma barrier_invI:
  assumes "set (bs_waiting s) = W" and "fst ` set (bs_requests s) = Q" and "fst ` set (bs_responses s) = P"
    and "distinct (map fst (bs_requests s))" and "distinct (map fst (bs_responses s))"
    and "Q \<inter> P = {}" and "Q \<union> P \<subseteq> W"
    and "\<forall>(c, role) \<in> set (bs_requests s). c \<in> members tbl role"
    and "\<forall>(c, msg) \<in> set (bs_responses s). msg = BARRIER_MSG"
    and "\<And>role. role \<in> fst ` set tbl \<Longrightarrow>
      \<exists>n. role_counts g s role = Some (int n) \<and> round_ok (members tbl role) W Q P (bs_passed s) n"
  shows "barrier_inv g tbl s"
  using assms by (simp add: barrier_inv_def Let_def)

lemma members_dom: "c \<in> members tbl role \<Longrightarrow> \<exists>ms. map_of tbl role = Some ms \<and> c \<in> fst ` set ms"
  by (auto simp: members_def split: option.splits)

lemma members_disjoint:
  assumes ok: "table_ok tbl" and c: "c \<in> members tbl role" "c \<in> members tbl role'"
  shows "role = role'"
proof -
  have "distinct (map fst (concat (map snd t))) \<Longrightarrow> (r, ms) \<in> set t \<Longrightarrow> (r', ms') \<in> set t \<Longrightarrow>
      c \<in> fst ` set ms \<Longrightarrow> c \<in> fst ` set ms' \<Longrightarrow> r = r'" for t r ms r' ms'
  proof (induction t)
    case (Cons a t)
    have apart: "fst ` set (snd a) \<inter> fst ` set (concat (map snd t)) = {}" using Cons.prems(1) by simp
    have later: "c \<in> fst ` set (concat (map snd t))" if "(r0, m0) \<in> set t" "c \<in> fst ` set m0" for r0 m0
    proof -
      have "set m0 \<subseteq> set (concat (map snd t))" using that(1) by force
      then show ?thesis using that(2) by blast
    qed
    consider "(r, ms) = a" "(r', ms') = a" | "(r, ms) = a" "(r', ms') \<in> set t" | "(r, ms) \<in> set t" "(r', ms') = a"
      | "(r, ms) \<in> set t" "(r', ms') \<in> set t" using Cons.prems(2,3) by auto
    then show ?case
    proof cases
      case 1
      then show ?thesis by auto
    next
      case 2
      then show ?thesis using later [OF _ Cons.prems(5)] apart Cons.prems(4) by (metis IntI empty_iff snd_conv)
    next
      case 3
      then show ?thesis using later [OF _ Cons.prems(4)] apart Cons.prems(5) by (metis IntI empty_iff snd_conv)
    next
      case 4
      then show ?thesis using Cons.IH Cons.prems by simp
    qed
  qed simp
  moreover obtain ms ms' where "map_of tbl role = Some ms" "c \<in> fst ` set ms" "map_of tbl role' = Some ms'" "c \<in> fst ` set ms'"
    using c by (auto dest!: members_dom)
  ultimately show ?thesis using ok unfolding table_ok_def by (meson map_of_SomeD)
qed

lemma members_card:
  assumes ok: "table_ok tbl" and ms: "map_of tbl role = Some ms"
  shows "card (members tbl role) = length ms" and "members tbl role \<noteq> {}" and "distinct (map fst ms)"
proof -
  have in_tbl: "(role, ms) \<in> set tbl" using ms by (rule map_of_SomeD)
  have "distinct (map fst (concat (map snd t))) \<Longrightarrow> (role, ms) \<in> set t \<Longrightarrow> distinct (map fst ms)" for t :: role_table
    by (induction t) auto
  then show d: "distinct (map fst ms)" using ok in_tbl by (auto simp: table_ok_def)
  show "members tbl role \<noteq> {}" using ok in_tbl ms by (auto simp: table_ok_def members_def)
  show "card (members tbl role) = length ms" using distinct_card [OF d] ms by (simp add: members_def)
qed

lemma barrier_init_inv:
  assumes "table_ok tbl" and "barrier_init g tbl s"
  shows "barrier_inv g tbl s"
proof -
  have "round_ok (members tbl role) {} {} {} (bs_passed s) 0" if role: "role \<in> fst ` set tbl" for role
  proof -
    obtain ms where ms: "map_of tbl role = Some ms" using role unfolding in_keys_iff by auto
    have "ms \<noteq> []" using members_card(2) [OF assms(1) ms] ms by (auto simp: members_def)
    then show ?thesis using assms(2) members_card(1) [OF assms(1) ms]
      by (simp add: round_ok_def counted_def barrier_init_def)
  qed
  then show ?thesis using assms(2) by (force simp: barrier_inv_def barrier_init_def)
qed

section \<open>Every step keeps it\<close>

lemma enter_inv:
  assumes inv: "barrier_inv g tbl s" and c: "c \<in> members tbl role" "c \<notin> set (bs_waiting s)"
  shows "barrier_inv g tbl (barrier_enter c role s)"
proof -
  let ?s = "barrier_enter c role s"
  let ?W = "set (bs_waiting s)" and ?Q = "fst ` set (bs_requests s)" and ?P = "fst ` set (bs_responses s)"
  have sub: "?Q \<subseteq> ?W" "?P \<subseteq> ?W" using inv by (auto simp: barrier_inv_def Let_def)
  have "\<exists>n. role_counts g ?s role' = Some (int n) \<and> round_ok (members tbl role') (insert c ?W) (insert c ?Q) ?P (bs_passed s) n"
    if role': "role' \<in> fst ` set tbl" for role'
  proof -
    obtain n where "role_counts g s role' = Some (int n)" "round_ok (members tbl role') ?W ?Q ?P (bs_passed s) n"
      using inv role' unfolding barrier_inv_def Let_def by blast
    then show ?thesis using round_enter [OF _ c(2) sub(2)] by (auto simp: role_counts_def barrier_enter_def)
  qed
  moreover have "c \<notin> ?Q" "c \<notin> ?P" using c(2) sub by blast+
  ultimately show ?thesis using inv c sub by (auto simp: barrier_inv_def Let_def barrier_enter_def)
qed

lemma handle_result:
  assumes n: "role_counts g s role = Some (int n)" and ms: "map_of tbl role = Some ms"
  shows "\<exists>st. barrier_process [(g, tbl)] role g (bs_server s) =
      Inr (st, if Suc n = length ms then ResponseList (map (\<lambda>(c, _). (c, BARRIER_MSG)) ms) else NoResponse) \<and>
    (\<forall>role'. role_counts g (s\<lparr>bs_server := st, bs_requests := q, bs_responses := p\<rparr>) role' =
      (if role' = role then Some (if Suc n = length ms then 0 else int (Suc n)) else role_counts g s role'))"
proof -
  obtain srv m where srv: "bs_server s = (srv, m)" by (cases "bs_server s")
  obtain cs where cs: "map_of (ks_barrier_count srv) g = Some cs" "map_of cs role = Some (int n)"
    using n srv by (auto simp: role_counts_def bind_eq_Some_conv)
  have "(int n + 1 = int (length ms)) = (Suc n = length ms)" by linarith
  then show ?thesis using cs ms
    by (simp add: barrier_process_def srv dict_get_def Let_def role_counts_def)
qed

lemma handle_inv:
  assumes ok: "table_ok tbl" and inv: "barrier_inv g tbl s" and q: "bs_requests s = xs @ (c, role) # ys"
    and step: "barrier_process [(g, tbl)] role g (bs_server s) = Inr (st, r)"
  shows "barrier_inv g tbl
    (s\<lparr>bs_server := st, bs_requests := xs @ ys, bs_responses := bs_responses s @ responses_of c r\<rparr>)"
proof -
  let ?s = "s\<lparr>bs_server := st, bs_requests := xs @ ys, bs_responses := bs_responses s @ responses_of c r\<rparr>"
  let ?W = "set (bs_waiting s)" and ?Q = "fst ` set (bs_requests s)" and ?P = "fst ` set (bs_responses s)"
  let ?M = "members tbl role"
  have c: "c \<in> ?M" "c \<in> ?Q" "c \<in> ?W" "c \<notin> ?P" using inv by (auto simp: barrier_inv_def Let_def q)
  then obtain ms where ms: "map_of tbl role = Some ms" using members_dom by blast
  then have role: "role \<in> fst ` set tbl" unfolding in_keys_iff by simp
  obtain n where n: "role_counts g s role = Some (int n)" "round_ok ?M ?W ?Q ?P (bs_passed s) n"
    using inv role unfolding barrier_inv_def Let_def by blast
  note size = members_card [OF ok ms]
  let ?full = "Suc n = length ms"
  have r: "r = (if ?full then ResponseList (map (\<lambda>(c, _). (c, BARRIER_MSG)) ms) else NoResponse)"
    and counts: "role_counts g ?s role' =
      (if role' = role then Some (if ?full then 0 else int (Suc n)) else role_counts g s role')" for role'
    using handle_result [OF n(1) ms, where q = "xs @ ys" and p = "bs_responses s @ responses_of c r"] step by auto
  have resp: "responses_of c r = (if ?full then map (\<lambda>(c, _). (c, BARRIER_MSG)) ms else [])"
    by (simp add: responses_of_def r)
  then have P': "fst ` set (bs_responses s @ responses_of c r) = (if ?full then ?P \<union> ?M else ?P)"
    using ms by (force simp: members_def)
  have Q': "fst ` set (xs @ ys) = ?Q - {c}"
    using inv by (auto simp: barrier_inv_def Let_def q)
  have here: "round_ok ?M ?W (?Q - {c}) (if ?full then ?P \<union> ?M else ?P) (bs_passed s) (if ?full then 0 else Suc n)"
    using round_full(2) [OF n(2) c(1,2,4)] round_count [OF n(2) c] size(1) by simp
  have other: "round_ok (members tbl role') ?W (?Q - {c}) (if ?full then ?P \<union> ?M else ?P) (bs_passed s) k"
    if "role' \<noteq> role" "round_ok (members tbl role') ?W ?Q ?P (bs_passed s) k" for role' k
  proof -
    have apart: "members tbl role' \<inter> ?M = {}" using members_disjoint [OF ok] that(1) by blast
    then have "c \<notin> members tbl role'" using c(1) by blast
    from round_other [OF that(2) this apart] round_other [OF that(2) this, of "{}"] show ?thesis by simp
  qed
  have rounds: "\<exists>k. role_counts g ?s role' = Some (int k) \<and>
      round_ok (members tbl role') ?W (?Q - {c}) (if ?full then ?P \<union> ?M else ?P) (bs_passed s) k"
    if role': "role' \<in> fst ` set tbl" for role'
  proof (cases "role' = role")
    case True
    then show ?thesis using here counts [of role] by (intro exI [of _ "if ?full then 0 else Suc n"]) simp
  next
    case False
    obtain k where "role_counts g s role' = Some (int k)" "round_ok (members tbl role') ?W ?Q ?P (bs_passed s) k"
      using inv role' unfolding barrier_inv_def Let_def by blast
    then show ?thesis using other [OF False] counts False by auto
  qed
  have full: "?M \<subseteq> insert c (counted ?M ?W ?Q ?P)" if ?full
    using round_full(1) [OF n(2) c(1,2,4)] that size(1) by simp
  have fresh: "(?P \<inter> ?M = {}) \<and> (?Q - {c}) \<inter> ?M = {} \<and> ?M \<subseteq> ?W" if ?full
  proof -
    have "x \<in> ?W \<and> x \<notin> ?P \<and> (x = c \<or> x \<notin> ?Q)" if "x \<in> ?M" for x
    proof (cases "x = c")
      case False
      then have "x \<in> counted ?M ?W ?Q ?P" using full [OF \<open>?full\<close>] \<open>x \<in> ?M\<close> by blast
      then show ?thesis by (simp add: counted_def)
    qed (use c in simp)
    then show ?thesis by blast
  qed
  have "distinct (map fst (bs_responses s @ responses_of c r))"
  proof (cases ?full)
    case True
    have "map fst (responses_of c r) = map fst ms" using True by (simp add: resp case_prod_unfold comp_def)
    moreover have "fst ` set ms = ?M" using ms by (simp add: members_def)
    moreover have "distinct (map fst (bs_responses s))" using inv by (simp add: barrier_inv_def Let_def)
    ultimately show ?thesis using fresh [OF True] size(3)
      by (simp only: map_append distinct_append set_map)
  qed (use inv in \<open>simp add: resp barrier_inv_def Let_def\<close>)
  moreover have "distinct (map fst (xs @ ys))" using inv by (auto simp: barrier_inv_def Let_def q)
  moreover have "(?Q - {c}) \<inter> (if ?full then ?P \<union> ?M else ?P) = {}"
    and "(?Q - {c}) \<union> (if ?full then ?P \<union> ?M else ?P) \<subseteq> ?W"
    using inv fresh by (auto simp: barrier_inv_def Let_def)
  moreover have "\<forall>(c, msg) \<in> set (bs_responses s @ responses_of c r). msg = BARRIER_MSG"
    using inv by (auto simp: barrier_inv_def Let_def resp)
  moreover have "\<forall>(c, role) \<in> set (xs @ ys). c \<in> members tbl role"
    using inv by (auto simp: barrier_inv_def Let_def q)
  moreover have fields: "bs_requests ?s = xs @ ys" "bs_responses ?s = bs_responses s @ responses_of c r"
      "bs_waiting ?s = bs_waiting s" "bs_passed ?s = bs_passed s" by simp_all
  ultimately show ?thesis using rounds
    by (intro barrier_invI [where W = ?W and Q = "?Q - {c}" and P = "if ?full then ?P \<union> ?M else ?P"])
      (simp_all only: fields P' Q')
qed

lemma receive_inv:
  assumes inv: "barrier_inv g tbl s" and p: "bs_responses s = xs @ (c, msg) # ys"
    and step: "barrier_leave c msg (s\<lparr>bs_responses := xs @ ys\<rparr>) = Inr t"
  shows "barrier_inv g tbl t"
proof -
  let ?W = "set (bs_waiting s)" and ?Q = "fst ` set (bs_requests s)" and ?P = "fst ` set (bs_responses s)"
  have t: "t = s\<lparr>bs_responses := xs @ ys, bs_waiting := removeAll c (bs_waiting s),
      bs_passed := (bs_passed s)(c := bs_passed s c + 1)\<rparr>"
    using step by (auto simp: barrier_leave_def rbind_eq_Inr)
  have P': "fst ` set (xs @ ys) = ?P - {c}" and c: "c \<in> ?P" and "c \<notin> ?Q"
    using inv by (auto simp: barrier_inv_def Let_def p)
  have "\<exists>n. role_counts g t role = Some (int n) \<and>
      round_ok (members tbl role) (?W - {c}) ?Q (?P - {c}) ((bs_passed s)(c := bs_passed s c + 1)) n"
    if role: "role \<in> fst ` set tbl" for role
  proof -
    obtain n where "role_counts g s role = Some (int n)" "round_ok (members tbl role) ?W ?Q ?P (bs_passed s) n"
      using inv role unfolding barrier_inv_def Let_def by blast
    then show ?thesis using round_receive [OF _ c] by (auto simp: role_counts_def t)
  qed
  moreover have "?Q \<union> (?P - {c}) \<subseteq> ?W - {c}" "?Q \<inter> (?P - {c}) = {}" "distinct (map fst (xs @ ys))"
    using inv \<open>c \<notin> ?Q\<close> by (auto simp: barrier_inv_def Let_def p)
  moreover have "\<forall>(c, msg) \<in> set (xs @ ys). msg = BARRIER_MSG"
    using inv by (auto simp: barrier_inv_def Let_def p)
  moreover have fields: "bs_requests t = bs_requests s" "bs_responses t = xs @ ys" "set (bs_waiting t) = ?W - {c}"
      "bs_passed t = (bs_passed s)(c := bs_passed s c + 1)" by (auto simp: t)
  moreover have "distinct (map fst (bs_requests s))" "\<forall>(c, role) \<in> set (bs_requests s). c \<in> members tbl role"
    using inv by (simp_all add: barrier_inv_def Let_def)
  ultimately show ?thesis
    by (intro barrier_invI [where W = "?W - {c}" and Q = ?Q and P = "?P - {c}"]) (simp_all only: fields P')
qed

lemma init_keeps_counts:
  "kv_server_init_data name policy d st = Inr st' \<Longrightarrow> ks_barrier_count (fst st') = ks_barrier_count (fst st)"
  by (cases st; cases "shm_create (kvdata_name name) (tn_shape (the d)) (tn_dtype (the d)) (snd st)")
    (auto simp: kv_server_init_data_def set_default_handlers_def rbind_eq_Inr Let_def split: option.splits)

lemma other_keeps_counts:
  assumes "process_request U roles req st = Inr (st', r)" and "\<forall>role g'. req \<noteq> BarrierRequest role g'"
  shows "ks_barrier_count (fst st') = ks_barrier_count (fst st)"
proof -
  obtain s m where st: "st = (s, m)" by (cases st)
  show ?thesis using assms unfolding st
    by (cases req) (auto simp: pull_process_def push_process_def register_pull_process_def
        register_push_process_def get_shared_process_def get_part_shape_process_def count_nonzero_process_def
        init_data_process_def send_meta_process_def delete_data_process_def rbind_eq_Inr Let_def
        split: if_splits option.splits dest: init_keeps_counts)
qed

text \<open>The invariant holds in every reachable state.\<close>

lemma internal_inv:
  assumes "barrier_internal g tbl s t" and "table_ok tbl" and "barrier_inv g tbl s"
  shows "barrier_inv g tbl t"
  using assms by (cases rule: barrier_internalE) (auto intro: handle_inv receive_inv)

lemma other_inv:
  assumes "process_request U [(g, tbl)] req (bs_server s) = Inr (st, r)" and "\<forall>role g'. req \<noteq> BarrierRequest role g'"
    and "barrier_inv g tbl s"
  shows "barrier_inv g tbl (s\<lparr>bs_server := st\<rparr>)"
proof -
  have "ks_barrier_count (fst st) = ks_barrier_count (fst (bs_server s))"
    using assms(1,2) by (rule other_keeps_counts)
  then have "role_counts g (s\<lparr>bs_server := st\<rparr>) = role_counts g s" by (simp add: role_counts_def fun_eq_iff)
  then show ?thesis using assms(3) by (simp add: barrier_inv_def)
qed

lemma step_inv:
  assumes "barrier_step U g tbl s t" and "table_ok tbl" and "barrier_inv g tbl s"
  shows "barrier_inv g tbl t"
  using assms by (cases rule: barrier_step.cases) (auto intro: enter_inv other_inv internal_inv)

lemma reachable_inv:
  assumes "(barrier_step U g tbl)\<^sup>*\<^sup>* s t" and "table_ok tbl" and "barrier_inv g tbl s"
  shows "barrier_inv g tbl t"
  using assms by (induction rule: rtranclp_induct) (auto intro: step_inv)

text \<open>A client is at most one barrier behind another, and only while it waits.\<close>

lemma inv_lockstep:
  assumes inv: "barrier_inv g tbl s" and c: "c \<in> members tbl role" "d \<in> members tbl role"
  shows "bs_passed s c \<le> entered s d"
proof -
  have "role \<in> fst ` set tbl" unfolding in_keys_iff using members_dom [OF c(1)] by auto
  then obtain R where R: "\<forall>x\<in>members tbl role. bs_passed s x + (if x \<in> fst ` set (bs_responses s) then 1 else 0) = R"
    using inv unfolding barrier_inv_def Let_def round_ok_def by blast
  have "fst ` set (bs_responses s) \<subseteq> set (bs_waiting s)" using inv by (auto simp: barrier_inv_def Let_def)
  then show ?thesis using R [THEN bspec, OF c(1)] R [THEN bspec, OF c(2)] by (auto simp: entered_def split: if_splits)
qed

text \<open>When nothing is under way some client of every role has not entered, and all have passed the same barriers.\<close>

lemma quiet_internal:
  assumes ok: "table_ok tbl" and inv: "barrier_inv g tbl s" and stuck: "\<nexists>t. barrier_internal g tbl s t"
  shows "bs_requests s = [] \<and> bs_responses s = []"
proof (rule ccontr)
  assume "\<not> (bs_requests s = [] \<and> bs_responses s = [])"
  then consider c role ys where "bs_requests s = (c, role) # ys" | c msg ys where "bs_responses s = (c, msg) # ys"
    by (metis list.exhaust surj_pair)
  then show False
  proof cases
    case 1
    then have c: "c \<in> members tbl role" using inv by (auto simp: barrier_inv_def Let_def)
    then obtain ms where ms: "map_of tbl role = Some ms" using members_dom by blast
    then have "role \<in> fst ` set tbl" unfolding in_keys_iff by simp
    then obtain n where "role_counts g s role = Some (int n)"
      using inv unfolding barrier_inv_def Let_def by blast
    from handle_result [OF this ms] obtain st r where "barrier_process [(g, tbl)] role g (bs_server s) = Inr (st, r)" by blast
    then have "barrier_internal g tbl s
        (s\<lparr>bs_server := st, bs_requests := [] @ ys, bs_responses := bs_responses s @ responses_of c r\<rparr>)"
      using 1 by (intro handle) auto
    then show False using stuck by blast
  next
    case 2
    then have "c \<in> set (bs_waiting s)" "msg = BARRIER_MSG" using inv by (auto simp: barrier_inv_def Let_def)
    then show False using stuck receive [of s "[]" c msg ys] 2 by (auto simp: barrier_leave_def)
  qed
qed

lemma quiet_level:
  assumes inv: "barrier_inv g tbl s" and quiet: "bs_requests s = [] \<and> bs_responses s = []" and c: "c \<in> members tbl role"
  shows "\<exists>d\<in>members tbl role. d \<notin> set (bs_waiting s) \<and> bs_passed s c = bs_passed s d"
proof -
  let ?M = "members tbl role"
  have "role \<in> fst ` set tbl" unfolding in_keys_iff using members_dom [OF c] by auto
  then obtain n where "round_ok ?M (set (bs_waiting s)) {} {} (bs_passed s) n"
    using inv quiet unfolding barrier_inv_def Let_def by fastforce
  then have less: "card (?M \<inter> set (bs_waiting s)) < card ?M" and eq: "\<exists>R. \<forall>x\<in>?M. bs_passed s x = R"
    by (auto simp: round_ok_def counted_def)
  from less have "?M \<inter> set (bs_waiting s) \<noteq> ?M" by auto
  then show ?thesis using eq c by auto
qed

lemma internal_entered: "barrier_internal g tbl s t \<Longrightarrow> entered t c = entered s c"
  by (cases rule: barrier_internalE) (auto simp: entered_def barrier_leave_def rbind_eq_Inr)

lemma internal_run_entered: "(barrier_internal g tbl)\<^sup>*\<^sup>* s t \<Longrightarrow> entered t c = entered s c"
  by (induction rule: rtranclp_induct) (auto simp: internal_entered)

lemma internal_run_reachable: "(barrier_internal g tbl)\<^sup>*\<^sup>* s t \<Longrightarrow> (barrier_step U g tbl)\<^sup>*\<^sup>* s t"
  by (induction rule: rtranclp_induct) (auto intro: barrier_step.internal rtranclp.rtrancl_into_rtrancl)

section \<open>Registration\<close>

text \<open>The registrations of the clients of a group, in the order server 0 handles them: client, machine and role.\<close>

definition register_step :: "int \<Rightarrow> int \<Rightarrow> int \<times> int \<times> string \<Rightarrow> role_state \<times> (int \<times> string) list option list \<Rightarrow>
    role_state \<times> (int \<times> string) list option list" where
  "register_step n g x a =
     (case x of (c, m, role) \<Rightarrow> case a of (st, out) \<Rightarrow>
      case register_role_process n c m role g st of (st', res) \<Rightarrow> (st', out @ [res]))"

definition register_all :: "int \<Rightarrow> int \<Rightarrow> (int \<times> int \<times> string) list \<Rightarrow> role_state \<Rightarrow>
    role_state \<times> (int \<times> string) list option list" where
  "register_all n g cs st = fold (register_step n g) cs (st, [])"

definition table_of :: "(int \<times> role_dict) list \<Rightarrow> int \<Rightarrow> role_dict" where
  "table_of roles g = (case map_of roles g of None \<Rightarrow> [] | Some t \<Rightarrow> t)"

definition of_role :: "(int \<times> int \<times> string) list \<Rightarrow> string \<Rightarrow> (int \<times> int) list" where
  "of_role cs role = map (\<lambda>(c, m, _). (c, m)) (filter (\<lambda>(_, _, r). r = role) cs)"

definition counts_zero :: "int \<Rightarrow> role_dict \<Rightarrow> kv_server option \<Rightarrow> bool" where
  "counts_zero g tbl kv \<longleftrightarrow> (\<exists>s. kv = Some s \<and> (\<forall>role \<in> fst ` set tbl.
     Option.bind (map_of (ks_barrier_count s) g) (\<lambda>t. map_of t role) = Some 0))"

definition registered :: "int \<Rightarrow> (int \<times> int \<times> string) list \<Rightarrow> role_state \<Rightarrow> bool" where
  "registered g cs st \<longleftrightarrow>
     (case st of (roles, kv) \<Rightarrow> let tbl = table_of roles g in
      (\<forall>role. map_of tbl role = (if of_role cs role = [] then None else Some (of_role cs role))) \<and>
      distinct (map fst tbl) \<and> mset (concat (map snd tbl)) = mset (map (\<lambda>(c, m, _). (c, m)) cs) \<and>
      counts_zero g tbl kv)"

lemma mset_concat_update:
  assumes "distinct (map fst tbl)"
  shows "mset (concat (map snd (AList.update k ((case map_of tbl k of None \<Rightarrow> [] | Some ms \<Rightarrow> ms) @ [x]) tbl))) =
    add_mset x (mset (concat (map snd tbl)))"
  using assms
proof (induction tbl)
  case (Cons a tbl)
  obtain k' ms where a: "a = (k', ms)" by (cases a)
  then show ?case using Cons by (cases "k' = k") auto
qed simp

lemma of_role_snoc: "of_role (cs @ [(c, m, r)]) role = of_role cs role @ (if r = role then [(c, m)] else [])"
  by (simp add: of_role_def)

lemma register_one:
  assumes reg: "registered g cs st" and c: "c \<notin> fst ` set cs"
    and step: "register_role_process n c m role g st = (st', res)"
  shows "registered g (cs @ [(c, m, role)]) st'"
    and "res = (if int (length cs) + 1 = n then Some (map (\<lambda>i. (i, REG_ROLE_MSG)) (arange 0 n)) else None)"
proof -
  obtain roles kv where st: "st = (roles, kv)" by (cases st)
  define tbl where "tbl = table_of roles g"
  have d: "distinct (map fst tbl)" and size: "mset (concat (map snd tbl)) = mset (map (\<lambda>(c, m, _). (c, m)) cs)"
    and zero: "counts_zero g tbl kv"
    and tbl: "map_of tbl r = (if of_role cs r = [] then None else Some (of_role cs r))" for r using reg by (auto simp: registered_def st tbl_def Let_def)
  define ms where "ms = (case map_of tbl role of None \<Rightarrow> [] | Some ms \<Rightarrow> ms)"
  have ms: "ms = of_role cs role" by (simp add: ms_def tbl)
  have "(c, m) \<notin> set ms" using c by (force simp: ms of_role_def)
  then have add: "set_add (c, m) ms = ms @ [(c, m)]" by (simp add: set_add_def)
  define kv' where "kv' = (if role \<notin> fst ` set tbl then map_option (new_barrier_count g role) kv else kv)"
  let ?tbl = "AList.update role (ms @ [(c, m)]) tbl"
  have total: "(\<Sum>(_, ms) \<leftarrow> ?tbl. int (length ms)) = int (length cs) + 1"
  proof -
    have "(\<Sum>(_, ms) \<leftarrow> t. int (length ms)) = int (size (mset (concat (map snd t))))" for t :: role_dict
      by (induction t) auto
    moreover have "size (mset (concat (map snd ?tbl))) = Suc (size (mset cs))"
      using mset_concat_update [OF d, of role "(c, m)"] unfolding ms_def [symmetric] size by (simp only: size_add_mset size_mset length_map)
    ultimately show ?thesis by simp
  qed
  have "register_role_process n c m role g st = ((AList.update g ?tbl roles, kv'),
      if int (length cs) + 1 = n then Some (map (\<lambda>i. (i, REG_ROLE_MSG)) (arange 0 n)) else None)"
    using total unfolding register_role_process_def st prod.case table_of_def [symmetric] tbl_def [symmetric]
      Let_def ms_def [symmetric] add kv'_def by simp
  then have st': "st' = (AList.update g ?tbl roles, kv')"
    and res: "res = (if int (length cs) + 1 = n then Some (map (\<lambda>i. (i, REG_ROLE_MSG)) (arange 0 n)) else None)"
    using step by auto
  show "res = (if int (length cs) + 1 = n then Some (map (\<lambda>i. (i, REG_ROLE_MSG)) (arange 0 n)) else None)" by (rule res)
  have "counts_zero g ?tbl kv'"
  proof -
    obtain s where s: "kv = Some s" and z: "\<forall>r \<in> fst ` set tbl.
        Option.bind (map_of (ks_barrier_count s) g) (\<lambda>t. map_of t r) = Some 0"
      using zero by (auto simp: counts_zero_def)
    have keys: "fst ` set ?tbl = insert role (fst ` set tbl)" by (simp add: dom_update)
    show ?thesis
    proof (cases "role \<in> fst ` set tbl")
      case True
      then show ?thesis using s z keys by (auto simp: counts_zero_def kv'_def)
    next
      case False
      let ?t = "case map_of (ks_barrier_count s) g of None \<Rightarrow> [] | Some c \<Rightarrow> c"
      have old: "map_of ?t r = Some 0" if "r \<in> fst ` set tbl" for r
        using z [THEN bspec, OF that] by (auto simp: bind_eq_Some_conv)
      have "map_of (AList.update role 0 ?t) r = Some 0" if "r \<in> insert role (fst ` set tbl)" for r
        using that old by (cases "r = role") (auto simp: update_conv)
      then show ?thesis using s False unfolding counts_zero_def keys
        by (simp add: kv'_def new_barrier_count_def Let_def update_conv)
    qed
  qed
  moreover have "map_of ?tbl r = (let l = of_role (cs @ [(c, m, role)]) r in if l = [] then None else Some l)" for r
    by (simp add: update_conv' of_role_snoc ms tbl Let_def)
  moreover have "mset (concat (map snd ?tbl)) = mset (map (\<lambda>(c, m, _). (c, m)) (cs @ [(c, m, role)]))"
    using mset_concat_update [OF d, of role "(c, m)"] by (simp add: ms_def [symmetric] size)
  moreover have "table_of (AList.update g ?tbl roles) g = ?tbl" by (simp add: table_of_def update_conv)
  ultimately show "registered g (cs @ [(c, m, role)]) st'"
    using d by (simp add: registered_def st' distinct_update Let_def)
qed

lemma registered_table:
  assumes "registered g cs (roles, kv)" and "distinct (map fst cs)"
  shows "table_ok (table_of roles g)" and "members (table_of roles g) role = {c. \<exists>m. (c, m, role) \<in> set cs}"
proof -
  let ?tbl = "table_of roles g"
  have "mset (map fst (concat (map snd ?tbl))) = mset (map fst cs)"
  proof -
    have "mset (map fst (concat (map snd ?tbl))) = image_mset fst (mset (map (\<lambda>(c, m, _). (c, m)) cs))"
      using assms(1) by (simp only: registered_def Let_def mset_map prod.case)
    also have "\<dots> = mset (map fst cs)" by (induction cs) auto
    finally show ?thesis .
  qed
  then have "distinct (map fst (concat (map snd ?tbl)))" using assms(2) mset_eq_imp_distinct_iff by blast
  moreover have "ms \<noteq> []" if "(r, ms) \<in> set ?tbl" for r ms
  proof -
    have "map_of ?tbl r = Some ms" using that assms(1) by (intro map_of_is_SomeI) (simp_all add: registered_def Let_def)
    then show ?thesis using assms(1) by (auto simp: registered_def Let_def split: if_splits)
  qed
  ultimately show "table_ok ?tbl" using assms(1) by (auto simp: table_ok_def registered_def Let_def)
  have "members ?tbl role = fst ` set (of_role cs role)"
    using assms(1) by (simp add: members_def registered_def Let_def)
  also have "\<dots> = {c. \<exists>m. (c, m, role) \<in> set cs}" by (force simp: of_role_def)
  finally show "members ?tbl role = {c. \<exists>m. (c, m, role) \<in> set cs}" .
qed

lemma register_all_snoc: "register_all n g (cs @ [x]) st = register_step n g x (register_all n g cs st)"
  by (simp add: register_all_def)

lemma register_all_registered:
  assumes "map_of roles g = None" and "distinct (map fst cs)"
  shows "registered g cs (fst (register_all n g cs (roles, Some s))) \<and>
    snd (register_all n g cs (roles, Some s)) =
      map (\<lambda>i. if int i + 1 = n then Some (map (\<lambda>c. (c, REG_ROLE_MSG)) (arange 0 n)) else None) [0..<length cs]"
  using assms(2)
proof (induction cs rule: rev_induct)
  case Nil
  then show ?case
    using assms(1) by (simp add: register_all_def registered_def table_of_def of_role_def counts_zero_def)
next
  case (snoc x cs)
  obtain c m role where x: "x = (c, m, role)" by (cases x)
  obtain st out where run: "register_all n g cs (roles, Some s) = (st, out)" by (metis surj_pair)
  obtain st' res where step: "register_role_process n c m role g st = (st', res)" by (metis surj_pair)
  have IH: "registered g cs st" "out = map (\<lambda>i. if int i + 1 = n then Some (map (\<lambda>c. (c, REG_ROLE_MSG)) (arange 0 n))
      else None) [0..<length cs]" using snoc run by auto
  have "c \<notin> fst ` set cs" using snoc.prems by (auto simp: x)
  from register_one [OF IH(1) this step] show ?case
    by (simp add: register_all_snoc run register_step_def x step IH(2))
qed

section \<open>Properties\<close>

text \<open>Registration opens the barriers: when the clients of a new group, each under its own ID, register in any
  order, only the last one makes the server answer, then with one response for each of the \<open>n\<close> clients; every role
  has exactly its clients, and the barriers of the group are in their initial state.\<close>

theorem registration_opens_barriers:
  assumes "map_of roles g = None" and "distinct (map fst cs)" and "length cs = Suc n"
    and "register_all (int (Suc n)) g cs (roles, Some s) = ((roles', kv'), out)"
  shows "out = replicate n None @ [Some (map (\<lambda>c. (c, REG_ROLE_MSG)) (arange 0 (int (Suc n))))] \<and>
    table_ok (table_of roles' g) \<and> (\<forall>role. members (table_of roles' g) role = {c. \<exists>m. (c, m, role) \<in> set cs}) \<and>
    (\<exists>s'. kv' = Some s' \<and> barrier_init g (table_of roles' g) \<lparr>bs_server = (s', mem), bs_requests = [],
      bs_responses = [], bs_waiting = [], bs_passed = \<lambda>_. 0\<rparr>)"
proof -
  have reg: "registered g cs (roles', kv')"
    and out: "out = map (\<lambda>i. if int i + 1 = int (Suc n) then Some (map (\<lambda>c. (c, REG_ROLE_MSG)) (arange 0 (int (Suc n))))
      else None) [0..<Suc n]"
    using register_all_registered [OF assms(1,2), of "int (Suc n)" s] assms(3,4) by auto
  have "map (\<lambda>i. if int i + 1 = int (Suc n) then Some x else None) [0..<Suc n] = replicate n None @ [Some x]"
    for x :: "(int \<times> string) list"
    by (intro nth_equalityI) (auto simp: nth_append)
  then have "out = replicate n None @ [Some (map (\<lambda>c. (c, REG_ROLE_MSG)) (arange 0 (int (Suc n))))]"
    unfolding out .
  moreover have "\<exists>s'. kv' = Some s' \<and> barrier_init g (table_of roles' g) \<lparr>bs_server = (s', mem), bs_requests = [],
      bs_responses = [], bs_waiting = [], bs_passed = \<lambda>_. 0\<rparr>"
    using reg by (auto simp: registered_def counts_zero_def barrier_init_def role_counts_def Let_def)
  ultimately show ?thesis using registered_table [OF reg assms(2)] by blast
qed

text \<open>C24. No client leaves a barrier before every client of its role has entered it: in every state the system
  reaches, with any other requests between, the barriers a client has passed are at most those any other client
  of the role has entered.\<close>

theorem barrier_lockstep:
  assumes "table_ok tbl" and "barrier_init g tbl s" and "(barrier_step U g tbl)\<^sup>*\<^sup>* s t"
    and "c \<in> members tbl role" and "d \<in> members tbl role"
  shows "bs_passed t c \<le> entered t d"
  using assms by (meson barrier_init_inv inv_lockstep reachable_inv)


text \<open>And such a run ends: the server and the network take finitely many steps without a new request.\<close>

theorem barrier_terminates: "wf {(t, s). barrier_internal g tbl s t}"
proof -
  have "{(t, s). barrier_internal g tbl s t} \<subseteq>
      measures [\<lambda>s. length (bs_requests s), \<lambda>s. length (bs_responses s)]"
    by (auto elim!: barrier_internalE simp: barrier_leave_def rbind_eq_Inr)
  then show ?thesis by (rule wf_subset [OF wf_measures])
qed

section \<open>Two trainers and a sampler\<close>

definition example_clients :: "(int \<times> int \<times> string) list" where
  "example_clients = [(1, 0, ''default''), (2, 0, ''sampler''), (0, 0, ''default'')]"

definition example_role_table :: role_table where
  "example_role_table = [(''default'', [(1, 0), (0, 0)]), (''sampler'', [(2, 0)])]"

definition example_server :: kv_server where
  "example_server = example_kv_server 0\<lparr>ks_barrier_count := [(5, [(''default'', 0), (''sampler'', 0)])]\<rparr>"

lemma example_register: "register_all 3 5 example_clients ([], Some (example_kv_server 0\<lparr>ks_barrier_count := []\<rparr>)) =
    (([(5, example_role_table)], Some example_server), [None, None, Some [(0, REG_ROLE_MSG), (1, REG_ROLE_MSG), (2, REG_ROLE_MSG)]])"
  by (simp add: register_all_def register_step_def register_role_process_def example_clients_def example_role_table_def
      example_server_def new_barrier_count_def set_add_def Let_def example_kv_server_def arange_def upto_rec1)

theorem registration_opens_barriers_witness:
  "table_ok example_role_table \<and> (\<exists>s'. Some example_server = Some s' \<and> barrier_init 5 example_role_table
    \<lparr>bs_server = (s', example_memory), bs_requests = [], bs_responses = [], bs_waiting = [], bs_passed = \<lambda>_. 0\<rparr>)"
proof -
  have "table_of [(5, example_role_table)] 5 = example_role_table" by (simp add: table_of_def)
  moreover have a: "map_of ([] :: (int \<times> role_dict) list) 5 = None" "distinct (map fst example_clients)"
      "length example_clients = Suc 2" by (simp_all add: example_clients_def)
  moreover have b: "register_all (int (Suc 2)) 5 example_clients ([], Some (example_kv_server 0\<lparr>ks_barrier_count := []\<rparr>)) =
      (([(5, example_role_table)], Some example_server), [None, None, Some [(0, REG_ROLE_MSG), (1, REG_ROLE_MSG), (2, REG_ROLE_MSG)]])"
    using example_register by simp
  ultimately show ?thesis
    using registration_opens_barriers [OF a b, of example_memory] by auto
qed

text \<open>The state of the example with \<open>n\<close> trainers counted.\<close>

definition example_sys :: "int \<Rightarrow> (int \<times> string) list \<Rightarrow> (int \<times> string) list \<Rightarrow> int list \<Rightarrow> (int \<Rightarrow> nat) \<Rightarrow> int barrier_sys" where
  "example_sys n qs ps ws passed =
     \<lparr>bs_server = (example_server\<lparr>ks_barrier_count := [(5, [(''default'', n), (''sampler'', 0)])]\<rparr>, example_memory),
      bs_requests = qs, bs_responses = ps, bs_waiting = ws, bs_passed = passed\<rparr>"

definition example_both :: "int barrier_sys" where
  "example_both = example_sys 0 [(1, ''default''), (0, ''default'')] [] [0, 1] (\<lambda>_. 0)"

definition example_done :: "int barrier_sys" where
  "example_done = example_sys 0 [] [] [] ((\<lambda>_. 0)(0 := 1, 1 := 1))"

lemma example_table: "table_ok example_role_table"
  by (simp add: table_ok_def example_role_table_def)

lemma example_members [simp]: "members example_role_table ''default'' = {0, 1}"
  by (auto simp: members_def example_role_table_def)

lemma example_barrier_init: "barrier_init 5 example_role_table (example_sys 0 [] [] [] (\<lambda>_. 0))"
  by (simp add: barrier_init_def example_sys_def example_role_table_def role_counts_def)

lemma example_enter: "(barrier_step U 5 example_role_table)\<^sup>*\<^sup>* (example_sys 0 [] [] [] (\<lambda>_. 0)) example_both"
proof -
  have "barrier_step U 5 example_role_table (example_sys 0 [] [] [] (\<lambda>_. 0))
      (example_sys 0 [(1, ''default'')] [] [1] (\<lambda>_. 0))"
    using enter [of 1 example_role_table "''default''" "example_sys 0 [] [] [] (\<lambda>_. 0)" U 5]
    by (simp add: barrier_enter_def example_sys_def)
  moreover have "barrier_step U 5 example_role_table (example_sys 0 [(1, ''default'')] [] [1] (\<lambda>_. 0)) example_both"
    using enter [of 0 example_role_table "''default''" "example_sys 0 [(1, ''default'')] [] [1] (\<lambda>_. 0)" U 5]
    by (simp add: barrier_enter_def example_sys_def example_both_def)
  ultimately show ?thesis by (meson converse_rtranclp_into_rtranclp rtranclp.rtrancl_refl)
qed

lemma example_handle:
  assumes "n = 0 \<or> n = 1"
  shows "barrier_internal 5 example_role_table (example_sys n ((c, ''default'') # qs) [] ws f)
    (example_sys (if n = 1 then 0 else 1) qs (if n = 1 then [(1, BARRIER_MSG), (0, BARRIER_MSG)] else []) ws f)"
proof -
  let ?s = "example_sys n ((c, ''default'') # qs) [] ws f"
  have "barrier_process [(5, example_role_table)] ''default'' 5 (bs_server ?s) =
      Inr (bs_server (example_sys (if n = 1 then 0 else 1) qs [] ws f),
        if n = 1 then ResponseList [(1, BARRIER_MSG), (0, BARRIER_MSG)] else NoResponse)"
    using assms by (auto simp: barrier_process_def example_sys_def dict_get_def Let_def example_role_table_def)
  from handle [of ?s "[]" c "''default''" qs, OF _ this] show ?thesis
    by (simp add: example_sys_def responses_of_def split: if_splits)
qed

lemma example_receive:
  "c \<in> set ws \<Longrightarrow> barrier_internal 5 example_role_table (example_sys n qs ((c, BARRIER_MSG) # ps) ws f)
    (example_sys n qs ps (removeAll c ws) (f(c := f c + 1)))"
  by (rule receive [of _ "[]" c BARRIER_MSG ps]) (simp_all add: example_sys_def barrier_leave_def)

lemma example_run: "(barrier_internal 5 example_role_table)\<^sup>*\<^sup>* example_both example_done"
proof -
  let ?I = "barrier_internal 5 example_role_table" and ?z = "\<lambda>_. 0 :: nat"
  have "?I example_both (example_sys 1 [(0, ''default'')] [] [0, 1] ?z)"
    using example_handle [of 0 1 "[(0, ''default'')]" "[0, 1]" ?z] by (simp add: example_both_def)
  moreover have "?I (example_sys 1 [(0, ''default'')] [] [0, 1] ?z)
      (example_sys 0 [] [(1, BARRIER_MSG), (0, BARRIER_MSG)] [0, 1] ?z)"
    using example_handle [of 1 0 "[]" "[0, 1]" ?z] by simp
  moreover have "?I (example_sys 0 [] [(1, BARRIER_MSG), (0, BARRIER_MSG)] [0, 1] ?z)
      (example_sys 0 [] [(0, BARRIER_MSG)] [0] (?z(1 := 1)))"
    using example_receive [of 1 "[0, 1]" 0 "[]" "[(0, BARRIER_MSG)]" ?z] by simp
  moreover have "?I (example_sys 0 [] [(0, BARRIER_MSG)] [0] (?z(1 := 1))) example_done"
    using example_receive [of 0 "[0]" 0 "[]" "[]" "?z(1 := 1)"] by (simp add: example_done_def fun_upd_twist)
  ultimately show ?thesis by (meson converse_rtranclp_into_rtranclp rtranclp.rtrancl_refl)
qed

lemma example_stuck: "\<nexists>u. barrier_internal 5 example_role_table example_done u"
  by (auto elim!: barrier_internalE simp: example_done_def example_sys_def)

theorem barrier_lockstep_witness: "bs_passed example_done 1 \<le> entered example_done 0"
proof -
  have "(barrier_step example_udfs 5 example_role_table)\<^sup>*\<^sup>* (example_sys 0 [] [] [] (\<lambda>_. 0)) example_done"
    using example_enter internal_run_reachable [OF example_run] by (rule rtranclp_trans)
  from barrier_lockstep [OF example_table example_barrier_init this] show ?thesis
    using example_members by (metis insertCI)
qed


end
