(* ===== verification/PyRange.thy ===== *)
theory PyRange
  imports NdArray
begin

text \<open>
  Python's \<open>range\<close>, \<open>slice.indices\<close> and \<open>torch.arange\<close> with a step, as the sources use them.
\<close>

definition py_range :: "int \<Rightarrow> int \<Rightarrow> int \<Rightarrow> int list res" where
  "py_range start stop step =
     (if step = 0 then Inl ValueError
      else Inr (map (\<lambda>i. start + int i * step)
        [0..<nat (if 0 < step then (stop - start + step - 1) div step else (start - stop - step - 1) div (- step))]))"

definition torch_arange :: "int \<Rightarrow> int \<Rightarrow> int \<Rightarrow> int list res" where
  "torch_arange start stop step =
     (if step = 0 \<or> (0 < step \<and> stop < start) \<or> (step < 0 \<and> start < stop) then Inl RuntimeError
      else py_range start stop step)"

definition slice_indices :: "int option \<Rightarrow> int option \<Rightarrow> int option \<Rightarrow> int \<Rightarrow> (int \<times> int \<times> int) res" where
  "slice_indices start stop step len =
     (let step = (case step of None \<Rightarrow> 1 | Some s \<Rightarrow> s);
          lower = (if step < 0 then - 1 else 0);
          upper = (if step < 0 then len - 1 else len);
          bound = (\<lambda>i. if i < 0 then max lower (i + len) else min upper i) in
      if step = 0 \<or> len < 0 then Inl ValueError
      else Inr (case start of None \<Rightarrow> if step < 0 then upper else lower | Some i \<Rightarrow> bound i,
                case stop of None \<Rightarrow> if step < 0 then lower else upper | Some i \<Rightarrow> bound i, step))"

lemma py_range_one: "py_range a b 1 = Inr (arange a b)"
proof -
  have "map (\<lambda>i. a + int i) [0..<nat (b - a)] = arange a b" by (rule nth_equalityI) simp_all
  then show ?thesis by (simp add: py_range_def)
qed

lemma torch_arange_one: "a \<le> b \<Longrightarrow> torch_arange a b 1 = Inr (arange a b)"
  by (simp add: torch_arange_def py_range_one)

lemma arange_shift: "map (\<lambda>i. i - c) (arange a b) = arange (a - c) (b - c)"
  by (rule nth_equalityI) simp_all

lemma arange_append: "a \<le> b \<Longrightarrow> b \<le> c \<Longrightarrow> arange a b @ arange b c = arange a c"
  unfolding arange_def by (rule upto_join)

text \<open>The slice \<open>start:stop\<close> of nonnegative bounds, clipped to the length.\<close>

lemma slice_indices_plain:
  "0 \<le> a \<Longrightarrow> 0 \<le> b \<Longrightarrow> 0 \<le> n \<Longrightarrow> slice_indices (Some a) (Some b) None n = Inr (min n a, min n b, 1)"
  by (simp add: slice_indices_def)

end
