(* ===== verification/DistSplit.thy ===== *)
theory DistSplit
  imports ItemSplit PyRange PartitionPolicy Roles
begin

text \<open>
  The division of training nodes and edges among the trainers: \<open>node_split\<close>, \<open>edge_split\<close> and their
  helpers in \<^verbatim>\<open>python/dgl/distributed/dist_graph.py\<close>. A mask is the list of its values, whether a
  plain tensor or a \<open>DistTensor\<close>, whose slices and count the key-value store gives; a \<open>DistTensor\<close> also
  carries its partition policy. \<open>np.random.seed\<close> followed by \<open>np.random.permutation\<close> is a function of the
  seed and the length, \<open>F.sort_1d\<close> the argument \<open>dl_sort\<close>.
\<close>

section \<open>The helpers\<close>

record dist_lib =
  dl_numpy :: numpy
  dl_permutation :: "int \<Rightarrow> int \<Rightarrow> int list"
  dl_sort :: "int list \<Rightarrow> int list"

definition boolean_mask :: "'a list \<Rightarrow> bool list \<Rightarrow> 'a list res" where
  "boolean_mask xs keep =
     (if length keep = length xs then Inr (map fst (filter snd (zip xs keep))) else Inl IndexError)"

definition get_overlap :: "bool list \<Rightarrow> int list \<Rightarrow> int list res" where
  "get_overlap mask_arr ids = rbind (gather_row mask_arr ids) (\<lambda>masks. boolean_mask ids masks)"

definition trainers_per_part :: "process_role \<Rightarrow> range_book \<Rightarrow> (int \<times> int) res" where
  "trainers_per_part p b =
     rbind (get_num_trainers p) (\<lambda>num_clients.
     rbind (py_floordiv num_clients (rb_num_partitions b)) (\<lambda>c. Inr (num_clients, c)))"

definition given_rank :: "int \<Rightarrow> process_role \<Rightarrow> int option \<Rightarrow> int res" where
  "given_rank rpc_rank p rank = (case rank of None \<Rightarrow> get_trainer_rank rpc_rank p | Some r \<Rightarrow> Inr r)"

definition split_local :: "int \<Rightarrow> process_role \<Rightarrow> range_book \<Rightarrow> int option \<Rightarrow> bool list \<Rightarrow> int list \<Rightarrow> int list res" where
  "split_local rpc_rank p b rank elements local_eles =
     rbind (trainers_per_part p b) (\<lambda>(num_clients, num_client_per_part).
     rbind (given_rank rpc_rank p rank) (\<lambda>rank.
     rbind (rassert (rank < num_clients) AssertionError) (\<lambda>_.
     rbind (py_divmod rank num_client_per_part) (\<lambda>(_, client_id_in_part).
     rbind (get_overlap elements local_eles) (\<lambda>local_eles.
     rbind (py_floordiv (int (length local_eles)) num_client_per_part) (\<lambda>size.
     Inr (if client_id_in_part + 1 < num_client_per_part
          then py_slice local_eles (size * client_id_in_part) (size * (client_id_in_part + 1))
          else drop (slice_bound (length local_eles) (size * client_id_in_part)) local_eles)))))))"

definition even_offset :: "numpy \<Rightarrow> int \<Rightarrow> int \<Rightarrow> int list res" where
  "even_offset N n k =
     rbind (py_floordiv n k) (\<lambda>eles_per_part.
     let offset = 0 # replicate (nat k) eles_per_part;
         stop = slice_bound (length offset) (n - eles_per_part * k + 1) in
     Inr (np_cumsum N (map (\<lambda>(i, x). if 1 \<le> i \<and> i < stop then x + 1 else x) (enumerate 0 offset))))"

text \<open>The loop over the blocks; \<open>y\<close> counts the selected elements before the block.\<close>

fun even_blocks :: "bool list \<Rightarrow> int \<Rightarrow> int \<Rightarrow> int \<Rightarrow> int list \<Rightarrow> int \<Rightarrow> int list \<Rightarrow> int list" where
  "even_blocks elements block_size left right [] y part_eles = part_eles"
| "even_blocks elements block_size left right (idx # idxs) y part_eles =
     (let nonzero_block = nonzero_1d (py_slice elements idx (min (idx + block_size) (int (length elements))));
          x = y;
          y = y + int (length nonzero_block) in
      if left < y \<and> x < right then
        let start = max x left - x;
            end' = min y right - x;
            tmp = map (\<lambda>i. i + idx) (py_slice nonzero_block start end') in
        even_blocks elements block_size left right idxs y (part_eles @ tmp)
      else if right \<le> x then part_eles
      else even_blocks elements block_size left right idxs y part_eles)"

definition split_even_to_part :: "numpy \<Rightarrow> range_book \<Rightarrow> bool list \<Rightarrow> int list res" where
  "split_even_to_part N b elements =
     (let nonzero_count = int (length (filter id elements)) in
      rbind (even_offset N nonzero_count (rb_num_partitions b)) (\<lambda>offsets.
      rbind (py_index offsets (- 1)) (\<lambda>total_count.
      rbind (rassert (total_count = nonzero_count) AssertionError) (\<lambda>_.
      rbind (py_index offsets (rb_partid b)) (\<lambda>left.
      rbind (py_index offsets (rb_partid b + 1)) (\<lambda>right.
      rbind (py_floordiv (int (length elements)) (rb_num_partitions b)) (\<lambda>block_size.
      rbind (py_range 0 (int (length elements)) block_size) (\<lambda>idxs.
      Inr (even_blocks elements block_size left right idxs 0 [])))))))))"

definition even_slice :: "int list \<Rightarrow> int list \<Rightarrow> int \<Rightarrow> int list res" where
  "even_slice xs offset i =
     rbind (py_index offset i) (\<lambda>a. rbind (py_index offset (i + 1)) (\<lambda>b. Inr (py_slice xs a b)))"

definition split_random_within_part :: "dist_lib \<Rightarrow> int \<Rightarrow> process_role \<Rightarrow> range_book \<Rightarrow> int option \<Rightarrow> int list \<Rightarrow>
    int list res" where
  "split_random_within_part D rpc_rank p b rank part_eles =
     rbind (trainers_per_part p b) (\<lambda>(num_clients, num_client_per_part).
     if num_client_per_part = 1 then Inr part_eles
     else
     rbind (given_rank rpc_rank p rank) (\<lambda>rank.
     rbind (rassert (rank < num_clients) AssertionError) (\<lambda>_.
     rbind (py_divmod rank num_client_per_part) (\<lambda>(_, client_id_in_part).
     rbind (even_offset (dl_numpy D) (int (length part_eles)) num_client_per_part) (\<lambda>offset.
     rbind (even_slice (dl_permutation D (rb_partid b) (int (length part_eles))) offset client_id_in_part) (\<lambda>rand_idx.
     gather_row part_eles (dl_sort D rand_idx)))))))"

text \<open>\<open>num_client_per_part\<close> is positive in every call. \<open>positions\<close> is \<open>np.nonzero(xs == i)[0]\<close>.\<close>

definition positions :: "int list \<Rightarrow> int \<Rightarrow> int list" where
  "positions xs i = map int (filter (\<lambda>j. xs ! j = i) [0..<length xs])"

definition split_by_trainer_id :: "numpy \<Rightarrow> range_book \<Rightarrow> int list \<Rightarrow> int list \<Rightarrow> int \<Rightarrow> int \<Rightarrow> int list res" where
  "split_by_trainer_id N b part_eles trainer_id num_client_per_part client_id_in_part =
     (let part_id = map (\<lambda>t. t div num_client_per_part) trainer_id;
          trainer_id = map (\<lambda>t. t mod num_client_per_part) trainer_id in
      rbind (take_rows part_id part_eles) (\<lambda>pids.
      rbind (boolean_mask part_eles (map (\<lambda>q. q = rb_partid b) pids)) (\<lambda>local_eles.
      rbind (boolean_mask part_eles (map (\<lambda>q. q \<noteq> rb_partid b) pids)) (\<lambda>remote_eles.
      rbind (take_rows trainer_id local_eles) (\<lambda>local_trainers.
      rbind (rassert (0 < num_client_per_part) ValueError) (\<lambda>_.
      let local_eles_idx = concat (map (positions local_trainers) (arange 0 num_client_per_part)) in
      rbind (take_rows local_eles local_eles_idx) (\<lambda>local_eles.
      rbind (even_offset N (int (length local_eles)) num_client_per_part) (\<lambda>local_offsets.
      rbind (even_offset N (int (length remote_eles)) num_client_per_part) (\<lambda>remote_offsets.
      rbind (even_slice local_eles local_offsets client_id_in_part) (\<lambda>client_local_eles.
      rbind (even_slice remote_eles remote_offsets client_id_in_part) (\<lambda>client_remote_eles.
      Inr (client_local_eles @ client_remote_eles))))))))))))"

section \<open>\<open>node_split\<close> and \<open>edge_split\<close>\<close>

record split_mask =
  sm_values :: "bool list"
  sm_policy :: "partition_policy option"

definition mask_book :: "split_mask \<Rightarrow> range_book option \<Rightarrow> range_book res" where
  "mask_book elements partition_book =
     (case sm_policy elements of
        None \<Rightarrow> (case partition_book of None \<Rightarrow> Inl AssertionError | Some b \<Rightarrow> Inr b)
      | Some policy \<Rightarrow> Inr (case partition_book of None \<Rightarrow> pp_partition_book policy | Some b \<Rightarrow> b))"

definition scale_trainer_ids :: "int \<Rightarrow> int list \<Rightarrow> int list res" where
  "scale_trainer_ids num_clients trainer_id =
     rbind (rassert (trainer_id \<noteq> []) RuntimeError) (\<lambda>_.
     let max_trainer_id = Max (set trainer_id) + 1 in
     if num_clients < max_trainer_id then
       rbind (py_divmod max_trainer_id num_clients) (\<lambda>(q, r).
       rbind (rassert (r = 0) AssertionError) (\<lambda>_. Inr (map (\<lambda>t. t div q) trainer_id)))
     else Inr trainer_id)"

definition split_force_even :: "dist_lib \<Rightarrow> int \<Rightarrow> process_role \<Rightarrow> range_book \<Rightarrow> int \<Rightarrow> bool list \<Rightarrow>
    int list option \<Rightarrow> int list res" where
  "split_force_even D rpc_rank p b rank elements trainer_ids =
     rbind (trainers_per_part p b) (\<lambda>(num_clients, num_client_per_part).
     rbind (py_divmod num_clients (rb_num_partitions b)) (\<lambda>(_, rest).
     rbind (rassert (rest = 0) AssertionError) (\<lambda>_.
     rbind (split_even_to_part (dl_numpy D) b elements) (\<lambda>part_eles.
     if num_client_per_part = 1 then Inr part_eles
     else case trainer_ids of
       None \<Rightarrow> split_random_within_part D rpc_rank p b (Some rank) part_eles
     | Some trainer_id \<Rightarrow>
         rbind (scale_trainer_ids num_clients trainer_id) (\<lambda>trainer_id.
         rbind (py_divmod rank num_client_per_part) (\<lambda>(_, client_id_in_part).
         split_by_trainer_id (dl_numpy D) b part_eles trainer_id num_client_per_part client_id_in_part))))))"

definition node_split :: "dist_lib \<Rightarrow> int \<Rightarrow> process_role \<Rightarrow> split_mask \<Rightarrow> range_book option \<Rightarrow> string \<Rightarrow> int option \<Rightarrow>
    bool \<Rightarrow> int list option \<Rightarrow> int list res" where
  "node_split D rpc_rank p nodes partition_book ntype rank force_even node_trainer_ids =
     rbind (mask_book nodes partition_book) (\<lambda>b.
     rbind (rb_num_nodes b ntype) (\<lambda>n.
     rbind (rassert (int (length (sm_values nodes)) = n) AssertionError) (\<lambda>_.
     rbind (given_rank rpc_rank p rank) (\<lambda>rank.
     if force_even then split_force_even D rpc_rank p b rank (sm_values nodes) node_trainer_ids
     else rbind (rb_partid2nids b (rb_partid b) ntype) (\<lambda>local_nids.
          split_local rpc_rank p b (Some rank) (sm_values nodes) local_nids)))))"

definition edge_split :: "dist_lib \<Rightarrow> int \<Rightarrow> process_role \<Rightarrow> split_mask \<Rightarrow> range_book option \<Rightarrow> type_name \<Rightarrow> int option \<Rightarrow>
    bool \<Rightarrow> int list option \<Rightarrow> int list res" where
  "edge_split D rpc_rank p edges partition_book etype rank force_even edge_trainer_ids =
     rbind (mask_book edges partition_book) (\<lambda>b.
     rbind (rb_num_edges b etype) (\<lambda>n.
     rbind (rassert (int (length (sm_values edges)) = n) AssertionError) (\<lambda>_.
     rbind (given_rank rpc_rank p rank) (\<lambda>rank.
     if force_even then split_force_even D rpc_rank p b rank (sm_values edges) edge_trainer_ids
     else rbind (rb_partid2eids b (rb_partid b) etype) (\<lambda>local_eids.
          split_local rpc_rank p b (Some rank) (sm_values edges) local_eids)))))"

section \<open>Even offsets\<close>

definition dist_lib_ok :: "dist_lib \<Rightarrow> bool" where
  "dist_lib_ok D \<longleftrightarrow> numpy_laws (dl_numpy D) \<and> sort_law (dl_sort D) \<and>
     (\<forall>seed n. 0 \<le> n \<longrightarrow> mset (dl_permutation D seed n) = mset (arange 0 n))"

text \<open>The \<open>i\<close>-th offset is the boundary \<open>count_split\<close> computes for batches of one item.\<close>

lemma even_offset_eq:
  assumes N: "numpy_laws N" and n: "0 \<le> n" "0 < k"
  shows "even_offset N n k = Inr (map (\<lambda>i. split_bound n k 1 (int i)) [0..<Suc (nat k)])"
proof -
  let ?q = "n div k" and ?r = "n mod k"
  let ?step = "\<lambda>i. if i = 0 then 0 else if i < Suc (nat ?r) then ?q + 1 else ?q"
  have r: "0 \<le> ?r" "?r < k" using n by simp_all
  have rest: "n - ?q * k = ?r" by (simp add: minus_div_mult_eq_mod)
  have stop: "slice_bound (Suc (nat k)) (?r + 1) = Suc (nat ?r)"
    using r by (simp add: slice_bound_pos nat_add_distrib)
  have "map (\<lambda>(i, x). if 1 \<le> i \<and> i < Suc (nat ?r) then x + 1 else x) (enumerate 0 (0 # replicate (nat k) ?q)) =
      map ?step [0..<Suc (nat k)]"
    by (rule nth_equalityI) (auto simp: nth_enumerate_eq nth_Cons' simp del: enumerate_simps upt_Suc)
  moreover have "sum_list (take (Suc i) (map ?step [0..<Suc (nat k)])) = split_bound n k 1 (int i)"
    if "i < Suc (nat k)" for i
    using that
  proof (induction i)
    case 0
    have "take (Suc 0) (map ?step [0..<Suc (nat k)]) = [?step 0]" by (simp add: take_map del: upt_Suc) (simp add: upt_rec)
    then show ?case using n by (simp add: split_bound_0)
  next
    case (Suc i)
    have "take (Suc (Suc i)) (map ?step [0..<Suc (nat k)]) = take (Suc i) (map ?step [0..<Suc (nat k)]) @ [?step (Suc i)]"
      using Suc.prems by (simp add: take_Suc_conv_app_nth del: upt_Suc)
    moreover have "split_bound n k 1 (int (Suc i)) = split_bound n k 1 (int i) + ?step (Suc i)"
      using r by (auto simp: split_bound_def algebra_simps)
    ultimately show ?case using Suc by (simp del: upt_Suc)
  qed
  then have "prefix_sums (map ?step [0..<Suc (nat k)]) = map (\<lambda>i. split_bound n k 1 (int i)) [0..<Suc (nat k)]"
    by (intro nth_equalityI) (simp_all del: upt_Suc)
  ultimately show ?thesis
    using n by (simp add: even_offset_def Let_def rest stop numpy_cumsum [OF N] del: upt_Suc enumerate_simps)
qed

text \<open>The \<open>i\<close>-th of the \<open>k\<close> even parts of a list; together they are the list.\<close>

definition even_part :: "'a list \<Rightarrow> int \<Rightarrow> int \<Rightarrow> 'a list" where
  "even_part xs k i = py_slice xs (split_bound (int (length xs)) k 1 i) (split_bound (int (length xs)) k 1 (i + 1))"

lemma concat_slices:
  assumes "\<And>i. i < n \<Longrightarrow> f i \<le> f (Suc i)" and "f 0 = (0 :: nat)"
  shows "concat (map (\<lambda>i. take (f (Suc i) - f i) (drop (f i) xs)) [0..<n]) = take (f n) xs"
  using assms
proof (induction n)
  case (Suc n)
  have "take (f n) xs @ take (f (Suc n) - f n) (drop (f n) xs) = take (f (Suc n)) xs"
    using Suc.prems(1) [of n] by (metis le_add_diff_inverse lessI take_add)
  then show ?case using Suc by simp
qed simp

lemma even_part_slice:
  assumes "0 < k" and "0 \<le> i" and "i < k"
  shows "even_part xs k i = take (nat (split_bound (int (length xs)) k 1 (i + 1)) - nat (split_bound (int (length xs)) k 1 i))
    (drop (nat (split_bound (int (length xs)) k 1 i)) xs)"
  using split_bound_range [of k 1 "int (length xs)" i] split_bound_range [of k 1 "int (length xs)" "i + 1"] assms
  by (simp add: even_part_def py_slice_nonneg)

lemma even_parts: "0 < k \<Longrightarrow> concat (map (\<lambda>i. even_part xs k (int i)) [0..<nat k]) = xs"
proof -
  assume k: "0 < k"
  let ?b = "split_bound (int (length xs)) k 1"
  have "even_part xs k (int i) = take (nat (?b (int (Suc i))) - nat (?b (int i))) (drop (nat (?b (int i))) xs)"
    if "i < nat k" for i
    using even_part_slice [OF k, of "int i" xs] that by (simp add: add.commute [of "int i" 1])
  then have "concat (map (\<lambda>i. even_part xs k (int i)) [0..<nat k]) =
      concat (map (\<lambda>i. take (nat (?b (int (Suc i))) - nat (?b (int i))) (drop (nat (?b (int i))) xs)) [0..<nat k])"
    by (intro arg_cong [where f = concat] map_cong) auto
  also have "\<dots> = take (nat (?b (int (nat k)))) xs"
    using k by (intro concat_slices [of "nat k" "\<lambda>i. nat (?b (int i))"]) (auto simp: split_bound_0 intro!: nat_mono split_bound_mono)
  finally show ?thesis using k by (simp add: split_bound_all)
qed

lemma length_even_part:
  assumes "0 < k" and "0 \<le> i" and "i < k"
  shows "int (length (even_part xs k i)) = split_share (int (length xs)) k 1 i"
  using split_bound_range [of k 1 "int (length xs)" i] split_bound_range [of k 1 "int (length xs)" "i + 1"]
    split_bound_Suc [of k 1 "int (length xs)" i] assms
  by (simp add: even_part_slice split_share_def nat_diff_distrib [symmetric])

lemma even_slice_eq:
  assumes N: "numpy_laws N" and i: "0 < k" "0 \<le> i" "i < k"
  shows "rbind (even_offset N (int (length xs)) k) (\<lambda>offset. even_slice xs offset i) = Inr (even_part xs k i)"
  using i by (simp add: even_offset_eq [OF N] even_slice_def even_part_def del: upt_Suc)

section \<open>The elements of a partition\<close>

lemma nonzero_append:
  "nonzero_1d (xs @ ys) = nonzero_1d xs @ map (\<lambda>i. i + int (length xs)) (nonzero_1d ys)"
proof -
  have "[0..<length (xs @ ys)] = [0..<length xs] @ map (\<lambda>i. i + length xs) [0..<length ys]"
    by (simp add: map_add_upt upt_add_eq_append [of 0 "length xs" "length ys", simplified] add.commute)
  moreover have "filter (\<lambda>i. (xs @ ys) ! i) [0..<length xs] = filter (\<lambda>i. xs ! i) [0..<length xs]"
    by (rule filter_cong) (auto simp: nth_append)
  ultimately have "filter (\<lambda>i. (xs @ ys) ! i) [0..<length (xs @ ys)] =
      filter (\<lambda>i. xs ! i) [0..<length xs] @ map (\<lambda>i. i + length xs) (filter (\<lambda>i. ys ! i) [0..<length ys])"
    by (simp add: filter_map comp_def add.commute [of _ "length xs"])
  then show ?thesis by (simp add: nonzero_1d_def)
qed

lemma length_nonzero: "length (nonzero_1d xs) = length (filter id xs)"
proof (induction xs rule: rev_induct)
  case (snoc x xs)
  then show ?case by (simp add: nonzero_append) (simp add: nonzero_1d_def)
qed (simp add: nonzero_1d_def)

lemma slice_append:
  "take (r - l) (drop l (Z @ T)) = take (r - l) (drop l Z) @
    (if l < length Z + length T \<and> length Z < r
     then take ((min (length Z + length T) r - length Z) - (max (length Z) l - length Z)) (drop (max (length Z) l - length Z) T)
     else [])"
  by (cases "T = []"; cases "l \<le> length Z") (auto simp: min_def max_def neq_Nil_conv)

lemma slice_done:
  "r \<le> length Z \<Longrightarrow> take (r - l) (drop l (Z @ T)) = take (r - l) (drop l Z)"
  using slice_append [of r l Z T] by simp

lemma block_bounds:
  assumes "0 \<le> l" and "0 \<le> r" and "z < nat r"
  shows "nat (max (int z) l - int z) = max z (nat l) - z" and "nat (min (int z + int t) r - int z) = min (z + t) (nat r) - z"
  using assms by linarith+

lemma even_blocks_eq:
  assumes bs: "0 < bs" and lr: "0 \<le> left" "0 \<le> right"
    and m: "m = nat ((int (length E) + bs - 1) div bs)" and i: "i \<le> m"
  shows "even_blocks E bs left right (map (\<lambda>i. int i * bs) [i..<m]) (int (length (nonzero_1d (take (nat (int i * bs)) E))))
      (take (nat right - nat left) (drop (nat left) (nonzero_1d (take (nat (int i * bs)) E)))) =
    take (nat right - nat left) (drop (nat left) (nonzero_1d E))"
  using i
proof (induction "m - i" arbitrary: i)
  case 0
  then have "i = m" by simp
  have "int (length E) \<le> (int (length E) + bs - 1) div bs * bs"
    using bs div_mult_mod_eq [of "int (length E) + bs - 1" bs] pos_mod_bound [OF bs, of "int (length E) + bs - 1"] by linarith
  moreover have "0 \<le> (int (length E) + bs - 1) div bs" using bs by (simp add: pos_imp_zdiv_nonneg_iff)
  ultimately have "length E \<le> nat (int m * bs)" by (simp add: m)
  then show ?case using \<open>i = m\<close> by simp
next
  case (Suc d)
  let ?Z = "nonzero_1d (take (nat (int i * bs)) E)"
  let ?B = "py_slice E (int i * bs) (min (int i * bs + bs) (int (length E)))"
  let ?T = "map (\<lambda>j. j + int i * bs) (nonzero_1d ?B)"
  have im: "i < m" using Suc.hyps(2) by simp
  then have "int i < (int (length E) + bs - 1) div bs" by (simp add: m)
  then have "(int i + 1) * bs \<le> (int (length E) + bs - 1) div bs * bs" using bs by (intro mult_right_mono) auto
  also have "\<dots> \<le> int (length E) + bs - 1"
    using div_mult_mod_eq [of "int (length E) + bs - 1" bs] pos_mod_sign [OF bs, of "int (length E) + bs - 1"] by linarith
  finally have "(int i + 1) * bs \<le> int (length E) + bs - 1" .
  then have here: "int i * bs < int (length E)" by (simp add: algebra_simps)
  have pos: "0 \<le> int i * bs" using bs by simp
  have B: "?B = take (nat bs) (drop (nat (int i * bs)) E)"
    using bs here pos by (auto simp: py_slice_nonneg min_def nat_add_distrib)
  have "take (nat (int (Suc i) * bs)) E = take (nat (int i * bs)) E @ ?B"
  proof -
    have "nat (int (Suc i) * bs) = nat (int i * bs) + nat bs"
      using bs pos by (simp add: nat_add_distrib [symmetric] algebra_simps)
    then show ?thesis by (simp add: B take_add)
  qed
  then have Z': "nonzero_1d (take (nat (int (Suc i) * bs)) E) = ?Z @ ?T"
    using here pos by (simp add: nonzero_append)
  have IH: "even_blocks E bs left right (map (\<lambda>i. int i * bs) [Suc i..<m]) (int (length (?Z @ ?T)))
      (take (nat right - nat left) (drop (nat left) (?Z @ ?T))) =
    take (nat right - nat left) (drop (nat left) (nonzero_1d E))"
    using Suc.hyps(1) [of "Suc i"] Suc.hyps(2) im unfolding Z' by simp
  show ?case
  proof (cases "right \<le> int (length ?Z)")
    case True
    obtain rest where "nonzero_1d E = ?Z @ rest"
      by (metis append_take_drop_id nonzero_append)
    then show ?thesis using True slice_done [of "nat right" ?Z "nat left" rest] im
      by (simp add: upt_conv_Cons Let_def)
  next
    case False
    then have cond: "(left < int (length ?Z) + int (length (nonzero_1d ?B)) \<and> int (length ?Z) < right) =
        (nat left < length ?Z + length ?T \<and> length ?Z < nat right)" using lr by auto
    have tmp: "map (\<lambda>j. j + int i * bs) (py_slice (nonzero_1d ?B) (max (int (length ?Z)) left - int (length ?Z))
        (min (int (length ?Z) + int (length (nonzero_1d ?B))) right - int (length ?Z))) =
      take ((min (length ?Z + length ?T) (nat right) - length ?Z) - (max (length ?Z) (nat left) - length ?Z))
        (drop (max (length ?Z) (nat left) - length ?Z) ?T)" if "length ?Z < nat right"
    proof -
      have "nat (max (int (length ?Z)) left - int (length ?Z)) = max (length ?Z) (nat left) - length ?Z"
        "nat (min (int (length ?Z) + int (length (nonzero_1d ?B))) right - int (length ?Z)) =
          min (length ?Z + length ?T) (nat right) - length ?Z"
        using block_bounds [OF lr that] by simp_all
      moreover have "0 \<le> max (int (length ?Z)) left - int (length ?Z)"
        "0 \<le> min (int (length ?Z) + int (length (nonzero_1d ?B))) right - int (length ?Z)"
        using lr that by auto
      ultimately show ?thesis by (simp only: py_slice_nonneg take_map drop_map)
    qed
    let ?acc = "take (nat right - nat left) (drop (nat left) ?Z)" and ?rest = "map (\<lambda>i. int i * bs) [Suc i..<m]"
    let ?tmp = "map (\<lambda>j. j + int i * bs) (py_slice (nonzero_1d ?B) (max (int (length ?Z)) left - int (length ?Z))
        (min (int (length ?Z) + int (length (nonzero_1d ?B))) right - int (length ?Z)))"
    let ?hit = "left < int (length ?Z) + int (length (nonzero_1d ?B)) \<and> int (length ?Z) < right"
    have idxs: "map (\<lambda>i. int i * bs) [i..<m] = int i * bs # ?rest" using im by (simp add: upt_conv_Cons)
    have "even_blocks E bs left right (map (\<lambda>i. int i * bs) [i..<m]) (int (length ?Z)) ?acc =
        even_blocks E bs left right ?rest (int (length ?Z) + int (length (nonzero_1d ?B))) (?acc @ (if ?hit then ?tmp else []))"
      using False by (simp only: idxs even_blocks.simps Let_def) simp
    also have "?acc @ (if ?hit then ?tmp else []) = take (nat right - nat left) (drop (nat left) (?Z @ ?T))"
      using tmp unfolding cond slice_append [of "nat right" "nat left" ?Z ?T] by (cases "length ?Z < nat right") simp_all
    also have "int (length ?Z) + int (length (nonzero_1d ?B)) = int (length (?Z @ ?T))" by simp
    finally show ?thesis unfolding IH .
  qed
qed

lemma even_blocks_all:
  assumes "0 < bs" and "0 \<le> left" and "0 \<le> right"
  shows "rbind (py_range 0 (int (length E)) bs) (\<lambda>idxs. Inr (even_blocks E bs left right idxs 0 [])) =
    Inr (take (nat right - nat left) (drop (nat left) (nonzero_1d E)))"
proof -
  let ?m = "nat ((int (length E) + bs - 1) div bs)"
  have "even_blocks E bs left right (map (\<lambda>i. int i * bs) [0..<?m]) (int (length (nonzero_1d (take (nat (int 0 * bs)) E))))
      (take (nat right - nat left) (drop (nat left) (nonzero_1d (take (nat (int 0 * bs)) E)))) =
    take (nat right - nat left) (drop (nat left) (nonzero_1d E))"
    using assms by (intro even_blocks_eq [where m = ?m]) auto
  then show ?thesis using assms(1) by (simp add: py_range_def nonzero_1d_def)
qed

definition book_part :: "range_book \<Rightarrow> nat \<Rightarrow> nat \<Rightarrow> bool" where
  "book_part b parts p \<longleftrightarrow> p < parts \<and> rb_num_partitions b = int parts \<and> rb_partid b = int p"

lemma split_even_to_part_eq:
  assumes N: "numpy_laws N" and b: "book_part b parts p"
  shows "split_even_to_part N b E =
    (if length E < parts then Inl ValueError else Inr (even_part (nonzero_1d E) (int parts) (int p)))"
proof -
  let ?n = "int (length (filter id E))" and ?k = "int parts"
  let ?b = "split_bound ?n ?k 1"
  have p: "0 < ?k" "p < parts" using b by (auto simp: book_part_def)
  have offs: "even_offset N ?n ?k = Inr (map (\<lambda>i. ?b (int i)) [0..<Suc parts])"
    using even_offset_eq [OF N, of ?n ?k] p by simp
  have last: "py_index (map (\<lambda>i. ?b (int i)) [0..<Suc parts]) (- 1) = Inr ?n"
    using p by (simp add: py_index_last split_bound_all)
  have mid: "py_index (map (\<lambda>i. ?b (int i)) [0..<Suc parts]) (int p) = Inr (?b (int p))"
      "py_index (map (\<lambda>i. ?b (int i)) [0..<Suc parts]) (int p + 1) = Inr (?b (int p + 1))"
    using p by (simp_all add: nat_add_distrib add.commute del: upt_Suc)
  have bounds: "0 \<le> ?b (int p)" "0 \<le> ?b (int p + 1)"
    using split_bound_range [of ?k 1 ?n "int p"] split_bound_range [of ?k 1 ?n "int p + 1"] p by auto
  have bs: "(int (length E) div ?k = 0) = (length E < parts)"
    using p by (simp add: zdiv_int [symmetric] div_eq_0_iff)
  have "split_even_to_part N b E = rbind (py_range 0 (int (length E)) (int (length E) div ?k))
      (\<lambda>idxs. Inr (even_blocks E (int (length E) div ?k) (?b (int p)) (?b (int p + 1)) idxs 0 []))"
    using b p by (simp add: split_even_to_part_def Let_def book_part_def offs last mid del: upt_Suc)
  also have "\<dots> = (if length E < parts then Inl ValueError else Inr (even_part (nonzero_1d E) ?k (int p)))"
  proof (cases "length E < parts")
    case True
    then show ?thesis using bs by (simp add: py_range_def)
  next
    case False
    have "0 \<le> int (length E) div ?k" using p by (simp add: pos_imp_zdiv_nonneg_iff)
    with False bs have "0 < int (length E) div ?k" by linarith
    from even_blocks_all [OF this bounds] show ?thesis
      using False p by (simp add: even_part_slice length_nonzero)
  qed
  finally show ?thesis .
qed

section \<open>The elements of a trainer\<close>

lemma mset_concat_map: "mset (concat (map f xs)) = (\<Sum>x\<leftarrow>xs. mset (f x))"
  by (induction xs) auto

lemma mset_concat_append:
  "mset (concat (map (\<lambda>x. f x @ g x) xs)) = mset (concat (map f xs)) + mset (concat (map g xs))"
  by (induction xs) auto

lemma concat_map_map: "concat (map (\<lambda>x. map f (g x)) xs) = map f (concat (map g xs))"
  by (induction xs) auto

lemma given_rank_Some [simp]: "given_rank rpc_rank pr (Some r) = Inr r"
  by (simp add: given_rank_def)

lemma random_same:
  "get_num_trainers pr = get_num_trainers pr' \<Longrightarrow>
    split_random_within_part D rk pr b (Some q) xs = split_random_within_part D rk' pr' b (Some q) xs"
  unfolding split_random_within_part_def trainers_per_part_def given_rank_Some by simp

lemma random_parts:
  assumes D: "dist_lib_ok D" and c: "0 < c" and K: "get_num_trainers pr = Inr (int (parts * c))" and b: "book_part b parts p"
  shows "\<exists>out. (\<forall>i<c. split_random_within_part D rpc_rank pr b (Some (int (p * c + i))) xs = Inr (out i)) \<and>
    mset (concat (map out [0..<c])) = mset xs \<and> (\<forall>i<c. length (out i) = length (even_part xs (int c) (int i)))"
proof (cases "c = 1")
  case True
  have "0 < parts" using b by (simp add: book_part_def)
  then have "split_random_within_part D rpc_rank pr b (Some (int (p * c + 0))) xs = Inr xs"
    using K b True by (simp add: split_random_within_part_def trainers_per_part_def book_part_def)
  moreover have "even_part xs 1 0 = xs" using even_parts [of 1 xs] by simp
  ultimately show ?thesis using True by (intro exI [of _ "\<lambda>_. xs"]) simp
next
  case False
  let ?perm = "dl_permutation D (int p) (int (length xs))"
  let ?out = "\<lambda>i. map (\<lambda>j. xs ! nat j) (dl_sort D (even_part ?perm (int c) (int i)))"
  have N: "numpy_laws (dl_numpy D)" and sort: "mset (dl_sort D ys) = mset ys" for ys
    using D by (simp_all add: dist_lib_ok_def sort_law_def)
  have perm: "mset ?perm = mset (arange 0 (int (length xs)))" using D by (simp add: dist_lib_ok_def)
  have len: "length ?perm = length xs" using mset_eq_length [OF perm] by simp
  have parts: "0 < parts" "p < parts" "rb_num_partitions b = int parts" "rb_partid b = int p"
    using b by (auto simp: book_part_def)
  have in_perm: "set (even_part ?perm (int c) (int i)) \<subseteq> {0..<int (length xs)}" if "i < c" for i
  proof -
    have "set (even_part ?perm (int c) (int i)) \<subseteq> set (concat (map (\<lambda>i. even_part ?perm (int c) (int i)) [0..<nat (int c)]))"
      using that by auto
    also have "\<dots> = {0..<int (length xs)}"
      using even_parts [of "int c" ?perm] c mset_eq_setD [OF perm] by simp
    finally show ?thesis .
  qed
  have "split_random_within_part D rpc_rank pr b (Some (int (p * c + i))) xs = Inr (?out i)" if i: "i < c" for i
  proof -
    have "p * c + i < Suc p * c" using i by simp
    also have "\<dots> \<le> parts * c" using parts(2) by (intro mult_right_mono) auto
    finally have "int (p * c + i) < int (parts * c)" by linarith
    moreover have "int (p * c + i) mod int c = int i" using i by (simp flip: of_nat_mod)
    moreover have "int (parts * c) div int parts = int c" using parts(1) by simp
    moreover have "rbind (even_offset (dl_numpy D) (int (length xs)) (int c)) (\<lambda>offset. even_slice ?perm offset (int i)) =
        Inr (even_part ?perm (int c) (int i))"
      using even_slice_eq [OF N, of "int c" "int i" ?perm] i c len by simp
    then obtain offset where "even_offset (dl_numpy D) (int (length xs)) (int c) = Inr offset"
        "even_slice ?perm offset (int i) = Inr (even_part ?perm (int c) (int i))"
      by (auto simp: rbind_eq_Inr)
    moreover have "gather_row xs (dl_sort D (even_part ?perm (int c) (int i))) = Inr (?out i)"
      using in_perm [OF i] mset_eq_setD [OF sort] by (intro gather_row_valid) (auto simp: valid_index_def)
    ultimately show ?thesis
      using K parts c False by (simp add: split_random_within_part_def trainers_per_part_def given_rank_def)
  qed
  moreover have "mset (concat (map ?out [0..<c])) = mset xs"
  proof -
    have "mset (concat (map ?out [0..<c])) = mset (concat (map (\<lambda>i. map (\<lambda>j. xs ! nat j) (even_part ?perm (int c) (int i))) [0..<c]))"
      by (rule mset_concat_cong) (simp only: mset_map sort)
    also have "\<dots> = mset (map (\<lambda>j. xs ! nat j) ?perm)"
      using even_parts [of "int c" ?perm] c by (simp add: concat_map_map)
    also have "\<dots> = mset (map (\<lambda>j. xs ! nat j) (arange 0 (int (length xs))))" by (simp only: mset_map perm)
    also have "map (\<lambda>j. xs ! nat j) (arange 0 (int (length xs))) = xs" by (rule nth_equalityI) simp_all
    finally show ?thesis .
  qed
  moreover have "length (?out i) = length (even_part xs (int c) (int i))" if "i < c" for i
  proof -
    have "int (length (even_part ?perm (int c) (int i))) = int (length (even_part xs (int c) (int i)))"
      using length_even_part [of "int c" "int i" ?perm] length_even_part [of "int c" "int i" xs] that len by simp
    then show ?thesis using mset_eq_length [OF sort [of "even_part ?perm (int c) (int i)"]] by simp
  qed
  ultimately show ?thesis by (intro exI [of _ ?out]) blast
qed

text \<open>The division by trainer ID: first the local elements in the order of the trainers, then the remote ones.\<close>

lemma boolean_mask_map: "boolean_mask xs (map f xs) = Inr (filter f xs)"
proof -
  have "map fst (filter snd (zip xs (map f xs))) = filter f xs" by (induction xs) auto
  then show ?thesis by (simp add: boolean_mask_def)
qed

lemma mset_partition: "mset (filter f xs) + mset (filter (\<lambda>x. \<not> f x) xs) = mset xs"
  by (induction xs) auto

lemma positions_all:
  assumes "\<forall>t \<in> set ts. 0 \<le> t \<and> t < int c"
  shows "mset (concat (map (positions ts) (arange 0 (int c)))) = mset (arange 0 (int (length ts)))"
proof -
  have "mset (concat (map (\<lambda>i. filter (\<lambda>j. f j = i) js) (arange 0 (int c)))) = mset js"
    if "\<forall>j \<in> set js. 0 \<le> f j \<and> f j < int c" for f and js :: "nat list"
    using that
  proof (induction js)
    case Nil
    have "concat (map (\<lambda>_. []) xs) = []" for xs :: "int list" by (induction xs) auto
    then show ?case by simp
  next
    case (Cons j js)
    have "mset (concat (map (\<lambda>i. (if f j = i then [j] else []) @ filter (\<lambda>j. f j = i) js) is)) =
        mset (concat (map (\<lambda>i. if f j = i then [j] else []) is)) + mset (concat (map (\<lambda>i. filter (\<lambda>j. f j = i) js) is))" for "is"
      by (rule mset_concat_append)
    moreover have "distinct is \<Longrightarrow> mset (concat (map (\<lambda>i. if f j = i then [j] else []) is)) = (if f j \<in> set is then {#j#} else {#})" for "is"
      by (induction "is") auto
    moreover have "filter (\<lambda>j. f j = i) (j # js) = (if f j = i then [j] else []) @ filter (\<lambda>j. f j = i) js" for i by simp
    moreover have "distinct (arange 0 (int c))" by (simp add: arange_def)
    ultimately show ?case using Cons by simp
  qed
  from this [of "[0..<length ts]" "\<lambda>j. ts ! j"] assms
  have "mset (concat (map (\<lambda>i. filter (\<lambda>j. ts ! j = i) [0..<length ts]) (arange 0 (int c)))) = mset [0..<length ts]" by auto
  then have "image_mset int (mset (concat (map (\<lambda>i. filter (\<lambda>j. ts ! j = i) [0..<length ts]) (arange 0 (int c))))) =
      image_mset int (mset [0..<length ts])" by (rule arg_cong)
  moreover have "map int [0..<length ts] = arange 0 (int (length ts))" by (rule nth_equalityI) simp_all
  ultimately show ?thesis by (simp only: positions_def [abs_def] concat_map_map mset_map [symmetric])
qed

lemma trainer_parts:
  assumes N: "numpy_laws N" and c: "0 < c" and b: "book_part b parts p"
    and ts: "\<forall>x \<in> set xs. valid_index ts x"
  shows "\<exists>out. (\<forall>i<c. split_by_trainer_id N b xs ts (int c) (int i) = Inr (out i)) \<and> mset (concat (map out [0..<c])) = mset xs"
proof -
  let ?home = "\<lambda>x. ts ! nat x div int c = int p" and ?tr = "\<lambda>x. ts ! nat x mod int c"
  let ?local = "filter ?home xs" and ?remote = "filter (\<lambda>x. \<not> ?home x) xs"
  let ?lt = "map ?tr ?local"
  let ?idx = "concat (map (positions ?lt) (arange 0 (int c)))"
  define local' where "local' = map (\<lambda>j. ?local ! nat j) ?idx"
  have part: "rb_partid b = int p" using b by (simp add: book_part_def)
  have take: "take_rows (map f ts) ys = Inr (map (\<lambda>x. f (ts ! nat x)) ys)" if "set ys \<subseteq> set xs" for f :: "int \<Rightarrow> int" and ys
  proof -
    have "valid_index (map f ts) x" if "x \<in> set ys" for x
      using ts \<open>set ys \<subseteq> set xs\<close> that by (auto simp: valid_index_def)
    moreover have "map f ts ! nat x = f (ts ! nat x)" if "x \<in> set ys" for x
    proof -
      have "valid_index ts x" using ts \<open>set ys \<subseteq> set xs\<close> that by blast
      then show ?thesis by (simp add: valid_index_def nat_less_iff)
    qed
    ultimately show ?thesis using take_rows_valid [of ys "map f ts"] by simp
  qed
  have idx: "mset ?idx = mset (arange 0 (int (length ?local)))"
    using positions_all [of ?lt c] c by simp
  have sorted: "take_rows ?local ?idx = Inr local'" unfolding local'_def
    using mset_eq_setD [OF idx] by (intro take_rows_valid) (auto simp: valid_index_def)
  have local': "mset local' = mset ?local"
  proof -
    have "mset local' = mset (map (\<lambda>j. ?local ! nat j) (arange 0 (int (length ?local))))"
      unfolding local'_def by (simp only: mset_map idx)
    also have "map (\<lambda>j. ?local ! nat j) (arange 0 (int (length ?local))) = ?local" by (rule nth_equalityI) simp_all
    finally show ?thesis .
  qed
  let ?out = "\<lambda>i. even_part local' (int c) (int i) @ even_part ?remote (int c) (int i)"
  have "split_by_trainer_id N b xs ts (int c) (int i) = Inr (?out i)" if i: "i < c" for i
  proof -
    obtain lo where lo: "even_offset N (int (length local')) (int c) = Inr lo" "even_slice local' lo (int i) = Inr (even_part local' (int c) (int i))"
      using even_slice_eq [OF N, of "int c" "int i" local'] i by (auto simp: rbind_eq_Inr)
    obtain ro where ro: "even_offset N (int (length ?remote)) (int c) = Inr ro" "even_slice ?remote ro (int i) = Inr (even_part ?remote (int c) (int i))"
      using even_slice_eq [OF N, of "int c" "int i" ?remote] i by (auto simp: rbind_eq_Inr)
    show ?thesis
      using take [of xs "\<lambda>t. t div int c"] take [of ?local "\<lambda>t. t mod int c"] sorted lo ro c
      by (simp add: split_by_trainer_id_def Let_def part boolean_mask_map [of xs, unfolded comp_def] comp_def)
  qed
  moreover have "mset (concat (map ?out [0..<c])) = mset xs"
    using even_parts [of "int c" local'] even_parts [of "int c" ?remote] c
    by (simp add: mset_concat_append local' mset_partition)
  ultimately show ?thesis by (intro exI [of _ ?out]) blast
qed

section \<open>All trainers together\<close>

text \<open>
  A job of \<open>parts\<close> machines with \<open>per_part\<close> trainers each: trainer \<open>r\<close> runs on machine \<open>r div per_part\<close> with
  that machine's partition book, and every process knows its rank and the number of trainers.
\<close>

record split_job =
  sj_parts :: nat
  sj_per_part :: nat
  sj_book :: "nat \<Rightarrow> range_book"
  sj_rpc_rank :: "nat \<Rightarrow> int"
  sj_process :: "nat \<Rightarrow> process_role"

definition job_trainers :: "split_job \<Rightarrow> nat" where
  "job_trainers J = sj_parts J * sj_per_part J"

definition job_ok :: "split_job \<Rightarrow> bool" where
  "job_ok J \<longleftrightarrow> 0 < sj_parts J \<and> 0 < sj_per_part J \<and>
     (\<forall>p < sj_parts J. book_part (sj_book J p) (sj_parts J) p) \<and>
     (\<forall>r < job_trainers J. get_num_trainers (sj_process J r) = Inr (int (job_trainers J)) \<and>
        get_trainer_rank (sj_rpc_rank J r) (sj_process J r) = Inr (int r))"

text \<open>Trainer IDs the code accepts for \<open>n\<close> elements.\<close>

definition trainer_ids_ok :: "nat \<Rightarrow> nat \<Rightarrow> int list option \<Rightarrow> bool" where
  "trainer_ids_ok trainers n tids \<longleftrightarrow>
     (case tids of None \<Rightarrow> True
      | Some ts \<Rightarrow> length ts = n \<and> ts \<noteq> [] \<and>
          (int trainers < Max (set ts) + 1 \<longrightarrow> (Max (set ts) + 1) mod int trainers = 0))"

lemma scale_ok:
  assumes "0 < trainers" and "trainer_ids_ok trainers n (Some ts)"
  shows "\<exists>ts'. scale_trainer_ids (int trainers) ts = Inr ts' \<and> length ts' = n"
  using assms by (auto simp: scale_trainer_ids_def trainer_ids_ok_def Let_def)

lemma nonzero_index: "set (nonzero_1d E) \<subseteq> {0..<int (length E)}"
  by (auto simp: nonzero_1d_def)

lemma set_even_part: "0 < k \<Longrightarrow> 0 \<le> i \<Longrightarrow> i < k \<Longrightarrow> set (even_part xs k i) \<subseteq> set xs"
  unfolding even_part_slice by (meson order_trans set_drop_subset set_take_subset)

lemma force_even_part:
  assumes D: "dist_lib_ok D" and c: "0 < c" and b: "book_part b parts p" and E: "parts \<le> length E"
    and procs: "\<And>i. i < c \<Longrightarrow> get_num_trainers (pr i) = Inr (int (parts * c))" and ts: "trainer_ids_ok (parts * c) (length E) tids"
  shows "\<exists>out. (\<forall>i<c. split_force_even D (rk i) (pr i) b (int (p * c + i)) E tids = Inr (out i)) \<and>
    mset (concat (map out [0..<c])) = mset (even_part (nonzero_1d E) (int parts) (int p)) \<and>
    (tids = None \<longrightarrow> (\<forall>i<c. length (out i) = length (even_part (even_part (nonzero_1d E) (int parts) (int p)) (int c) (int i))))"
proof -
  let ?xs = "even_part (nonzero_1d E) (int parts) (int p)"
  have N: "numpy_laws (dl_numpy D)" using D by (simp add: dist_lib_ok_def)
  have parts: "0 < parts" "p < parts" "rb_num_partitions b = int parts" using b by (auto simp: book_part_def)
  have xs: "split_even_to_part (dl_numpy D) b E = Inr ?xs" using split_even_to_part_eq [OF N b] E by simp
  have step: "split_force_even D (rk i) (pr i) b (int (p * c + i)) E tids =
      (if c = 1 then Inr ?xs
       else case tids of
         None \<Rightarrow> split_random_within_part D (rk i) (pr i) b (Some (int (p * c + i))) ?xs
       | Some ts \<Rightarrow> rbind (scale_trainer_ids (int (parts * c)) ts) (\<lambda>ts.
           split_by_trainer_id (dl_numpy D) b ?xs ts (int c) (int i)))" if "i < c" for i
  proof -
    have "int (p * c + i) mod int c = int i" using that by (simp flip: of_nat_mod)
    then show ?thesis using procs [OF that] parts xs c
      by (simp add: split_force_even_def trainers_per_part_def split: option.split)
  qed
  show ?thesis
  proof (cases "c = 1")
    case True
    have "even_part ?xs 1 0 = ?xs" using even_parts [of 1 ?xs] by simp
    then show ?thesis using step True by (intro exI [of _ "\<lambda>_. ?xs"]) simp
  next
    case False
    show ?thesis
    proof (cases tids)
      case None
      have "\<exists>out. (\<forall>i<c. split_random_within_part D (rk i) (pr i) b (Some (int (p * c + i))) ?xs = Inr (out i)) \<and>
          mset (concat (map out [0..<c])) = mset ?xs \<and> (\<forall>i<c. length (out i) = length (even_part ?xs (int c) (int i)))"
      proof -
        obtain out where out: "\<forall>i<c. split_random_within_part D (rk 0) (pr 0) b (Some (int (p * c + i))) ?xs = Inr (out i)"
            "mset (concat (map out [0..<c])) = mset ?xs" "\<forall>i<c. length (out i) = length (even_part ?xs (int c) (int i))"
          using random_parts [OF D c procs [OF c] b, of "rk 0" ?xs] by blast
        have "split_random_within_part D (rk i) (pr i) b (Some (int (p * c + i))) ?xs = Inr (out i)" if "i < c" for i
          using out(1) random_same [of "pr i" "pr 0" D "rk i" b "int (p * c + i)" ?xs "rk 0"] procs that c by simp
        then show ?thesis using out(2,3) by blast
      qed
      then show ?thesis using step False None by auto
    next
      case (Some ts)
      obtain ts' where ts': "scale_trainer_ids (int (parts * c)) ts = Inr ts'" "length ts' = length E"
        using scale_ok [of "parts * c" "length E" ts] ts Some c parts by auto
      have "valid_index ts' x" if "x \<in> set ?xs" for x
        using that set_even_part [of "int parts" "int p" "nonzero_1d E"] nonzero_index [of E] ts'(2) parts by (auto simp: valid_index_def)
      then show ?thesis using trainer_parts [OF N c b, of ?xs ts'] step False Some ts' by auto
    qed
  qed
qed

text \<open>The outputs of the trainers of each machine, put together.\<close>

lemma concat_blocks:
  "concat (map out [0..<parts * c]) = concat (map (\<lambda>p. concat (map (\<lambda>i. out (p * c + i)) [0..<c])) [0..<parts])"
proof (induction parts)
  case (Suc n)
  have "[0..<Suc n * c] = [0..<n * c] @ map (\<lambda>i. n * c + i) [0..<c]"
    using upt_add_eq_append [of 0 "n * c" c] by (simp add: add.commute map_add_upt)
  then show ?case by (simp add: Suc comp_def)
qed simp

lemma all_trainers:
  assumes J: "job_ok J" and D: "dist_lib_ok D" and E: "sj_parts J \<le> length E" and ts: "trainer_ids_ok (job_trainers J) (length E) tids"
  shows "\<exists>out. (\<forall>r < job_trainers J. split_force_even D (sj_rpc_rank J r) (sj_process J r) (sj_book J (r div sj_per_part J)) (int r) E tids =
      Inr (out r)) \<and> mset (concat (map out [0..<job_trainers J])) = mset (nonzero_1d E) \<and>
    (tids = None \<longrightarrow> (\<forall>r < job_trainers J. length (out r) = length (even_part (even_part (nonzero_1d E) (int (sj_parts J))
      (int (r div sj_per_part J))) (int (sj_per_part J)) (int (r mod sj_per_part J)))))"
proof -
  let ?P = "sj_parts J" and ?c = "sj_per_part J"
  have ok: "0 < ?P" "0 < ?c" "\<And>p. p < ?P \<Longrightarrow> book_part (sj_book J p) ?P p"
    "\<And>r. r < ?P * ?c \<Longrightarrow> get_num_trainers (sj_process J r) = Inr (int (?P * ?c))"
    using J by (auto simp: job_ok_def job_trainers_def)
  have trainer: "p * ?c + i < ?P * ?c" if "p < ?P" "i < ?c" for p i
  proof -
    have "p * ?c + i < Suc p * ?c" using that by simp
    also have "\<dots> \<le> ?P * ?c" using that by (intro mult_right_mono) auto
    finally show ?thesis .
  qed
  have "\<exists>out. (\<forall>i<?c. split_force_even D (sj_rpc_rank J (p * ?c + i)) (sj_process J (p * ?c + i)) (sj_book J p) (int (p * ?c + i)) E tids =
        Inr (out i)) \<and> mset (concat (map out [0..<?c])) = mset (even_part (nonzero_1d E) (int ?P) (int p)) \<and>
      (tids = None \<longrightarrow> (\<forall>i<?c. length (out i) = length (even_part (even_part (nonzero_1d E) (int ?P) (int p)) (int ?c) (int i))))"
    if "p < ?P" for p
    using force_even_part [OF D ok(2) ok(3) [OF that] E, of "\<lambda>i. sj_process J (p * ?c + i)" tids "\<lambda>i. sj_rpc_rank J (p * ?c + i)"]
      ok(4) [OF trainer [OF that]] ts by (simp add: job_trainers_def)
  then obtain out where out: "\<And>p i. p < ?P \<Longrightarrow> i < ?c \<Longrightarrow> split_force_even D (sj_rpc_rank J (p * ?c + i)) (sj_process J (p * ?c + i))
        (sj_book J p) (int (p * ?c + i)) E tids = Inr (out p i)"
      and mset: "\<And>p. p < ?P \<Longrightarrow> mset (concat (map (out p) [0..<?c])) = mset (even_part (nonzero_1d E) (int ?P) (int p))"
      and len: "\<And>p i. tids = None \<Longrightarrow> p < ?P \<Longrightarrow> i < ?c \<Longrightarrow>
        length (out p i) = length (even_part (even_part (nonzero_1d E) (int ?P) (int p)) (int ?c) (int i))"
    by metis
  let ?out = "\<lambda>r. out (r div ?c) (r mod ?c)"
  have rank: "r div ?c < ?P" "r mod ?c < ?c" "r div ?c * ?c + r mod ?c = r" if "r < ?P * ?c" for r
    using that ok(2) by (simp_all add: less_mult_imp_div_less)
  have "concat (map ?out [0..<?P * ?c]) = concat (map (\<lambda>p. concat (map (out p) [0..<?c])) [0..<?P])"
    using ok(2) unfolding concat_blocks by (intro arg_cong [where f = concat] map_cong refl) simp_all
  then have "mset (concat (map ?out [0..<?P * ?c])) = mset (concat (map (\<lambda>p. even_part (nonzero_1d E) (int ?P) (int p)) [0..<?P]))"
    using mset by (simp only:) (rule mset_concat_cong, simp)
  also have "\<dots> = mset (nonzero_1d E)" using even_parts [of "int ?P" "nonzero_1d E"] ok(1) by simp
  finally have all: "mset (concat (map ?out [0..<?P * ?c])) = mset (nonzero_1d E)" .
  have run: "split_force_even D (sj_rpc_rank J r) (sj_process J r) (sj_book J (r div ?c)) (int r) E tids = Inr (?out r)"
    and size: "tids = None \<longrightarrow> length (?out r) =
      length (even_part (even_part (nonzero_1d E) (int ?P) (int (r div ?c))) (int ?c) (int (r mod ?c)))" if "r < ?P * ?c" for r
    using out [OF rank(1,2) [OF that]] len [OF _ rank(1,2) [OF that]] unfolding rank(3) [OF that] by blast+
  show ?thesis unfolding job_trainers_def using all run size by (intro exI [of _ ?out]) blast
qed

end
