(* ===== verification/SplitProps.thy ===== *)
theory SplitProps
  imports DistSplit
begin

text \<open>
  What \<open>node_split\<close> and \<open>edge_split\<close> guarantee to the trainers of a job over one partitioned graph: each
  selected element goes to exactly one trainer, evenly or by locality.
\<close>

section \<open>Jobs over a graph\<close>

definition graph_job :: "numpy \<Rightarrow> graph_layout \<Rightarrow> split_job \<Rightarrow> bool" where
  "graph_job N G J \<longleftrightarrow> job_ok J \<and> sj_parts J = gl_parts G \<and>
     (\<exists>ntypes etypes. \<forall>p < gl_parts G. built (N, G, p, ntypes, etypes, sj_book J p))"

definition type_total :: "nat \<Rightarrow> int list \<Rightarrow> nat \<Rightarrow> nat \<Rightarrow> int" where
  "type_total P bs T t = typed_start bs T t P"

lemma graph_jobD:
  assumes "graph_job N G J"
  shows "valid_graph G" "names_ok G" "job_ok J" "sj_parts J = gl_parts G"
    "p < gl_parts G \<Longrightarrow> \<exists>e2c. sj_book J p = book_of G p e2c"
proof -
  obtain nt et where b: "\<And>p. p < gl_parts G \<Longrightarrow> built (N, G, p, nt, et, sj_book J p)"
    using assms by (auto simp: graph_job_def)
  show "job_ok J" and parts: "sj_parts J = gl_parts G" using assms by (simp_all add: graph_job_def)
  then have "0 < gl_parts G" by (simp add: job_ok_def)
  from b [OF this] show "valid_graph G" "names_ok G" by simp_all
  show "\<exists>e2c. sj_book J p = book_of G p e2c" if "p < gl_parts G"
  proof -
    have "built (N, G, p, nt, et, sj_book J p)" using that by (rule b)
    then obtain e2c where "ctx_book (N, G, p, nt, et, sj_book J p) = book_of (ctx_graph (N, G, p, nt, et, sj_book J p))
        (ctx_part (N, G, p, nt, et, sj_book J p)) e2c" by (rule built_book)
    then show ?thesis by auto
  qed
qed

lemma graph_job_nodes:
  assumes J: "graph_job N G J" and t: "t < length (gl_ntypes G)" and p: "p < gl_parts G"
  shows "rb_num_nodes (sj_book J p) (gl_ntypes G ! t) = Inr (type_total (gl_parts G) (gl_nbounds G) (length (gl_ntypes G)) t)"
    and "rb_partid2nids (sj_book J p) (rb_partid (sj_book J p)) (gl_ntypes G ! t) =
      Inr (arange (typed_start (gl_nbounds G) (length (gl_ntypes G)) t p) (typed_start (gl_nbounds G) (length (gl_ntypes G)) t (Suc p)))"
proof -
  note V = graph_jobD(1,2) [OF J]
  obtain e2c where b: "sj_book J p = book_of G p e2c" using graph_jobD(5) [OF J p] by blast
  show "rb_num_nodes (sj_book J p) (gl_ntypes G ! t) = Inr (type_total (gl_parts G) (gl_nbounds G) (length (gl_ntypes G)) t)"
    using node_ends [OF V t] ends_last [OF valid_graphD(1) [OF V(1)]]
    by (simp add: b rb_num_nodes_def dict_get_def type_total_def split: if_splits)
  show "rb_partid2nids (sj_book J p) (rb_partid (sj_book J p)) (gl_ntypes G ! t) =
      Inr (arange (typed_start (gl_nbounds G) (length (gl_ntypes G)) t p) (typed_start (gl_nbounds G) (length (gl_ntypes G)) t (Suc p)))"
    using partid2nids_key [OF V t p] by (simp add: b)
qed

lemma graph_job_edges:
  assumes J: "graph_job N G J" and t: "t < length (gl_etypes G)" and p: "p < gl_parts G"
  shows "rb_num_edges (sj_book J p) (gl_etypes G ! t) = Inr (type_total (gl_parts G) (gl_ebounds G) (length (gl_etypes G)) t)"
proof -
  note V = graph_jobD(1,2) [OF J]
  obtain e2c where b: "sj_book J p = book_of G p e2c" using graph_jobD(5) [OF J p] by blast
  show ?thesis
    using edge_ends [OF V t] canonical_key [OF V(1) t, of p e2c] ends_last [OF valid_graphD(2) [OF V(1)]]
    by (simp add: b rb_num_edges_def dict_get_def type_total_def split: if_splits)
qed

lemma mask_book_given: "mask_book elements (Some b) = Inr b"
  by (simp add: mask_book_def split: option.split)

lemma trainer_part:
  assumes "job_ok J" and "r < job_trainers J"
  shows "r div sj_per_part J < sj_parts J" and "given_rank (sj_rpc_rank J r) (sj_process J r) None = Inr (int r)"
  using assms by (auto simp: job_ok_def job_trainers_def given_rank_def less_mult_imp_div_less)

section \<open>Even shares\<close>

lemma share_bounds:
  assumes "0 < k" and "0 \<le> n" and "0 \<le> i"
  shows "n div k \<le> split_share n k 1 i" and "split_share n k 1 i \<le> (n + k - 1) div k"
proof -
  have s: "split_share n k 1 i = n div k + (if i < n mod k then 1 else 0)"
    using split_share_eq [of 1 n k i] by simp
  then show "n div k \<le> split_share n k 1 i" by simp
  have "n div k + 1 \<le> (n + k - 1) div k" if "0 < n mod k"
  proof -
    have "(n + k - 1) div k = n div k + (n mod k + k - 1) div k"
      using div_mult_self2 [of k "n mod k + k - 1" "n div k"] assms(1)
      by (metis add.assoc add.commute add_diff_eq less_irrefl mult_div_mod_eq)
    moreover have "1 \<le> (n mod k + k - 1) div k" using that assms(1) by (simp add: pos_le_divide_eq zdiv_mono1 [of k, THEN order_trans [rotated]] int_div_le_self)
    ultimately show ?thesis by linarith
  qed
  moreover have "n div k \<le> (n + k - 1) div k" using assms by (intro zdiv_mono1) auto
  moreover have "0 < n mod k" if "i < n mod k" using that assms(3) by linarith
  ultimately show "split_share n k 1 i \<le> (n + k - 1) div k" unfolding s by simp
qed

text \<open>An even part of an even part: the sizes of all of them are two neighbouring numbers.\<close>

lemma even_part_sizes:
  assumes "0 < k" and "0 < c" and "0 \<le> p" "p < k" and "0 \<le> i" "i < c"
  shows "int (length xs) div k div c \<le> int (length (even_part (even_part xs k p) c i))"
    and "int (length (even_part (even_part xs k p) c i)) \<le> int (length xs) div k div c + 1"
proof -
  let ?n = "int (length xs)"
  let ?a = "int (length (even_part xs k p))"
  have len: "int (length (even_part (even_part xs k p) c i)) = split_share ?a c 1 i"
    using assms by (intro length_even_part) auto
  have a: "?n div k \<le> ?a" "?a \<le> (?n + k - 1) div k"
    using share_bounds [of k ?n p] length_even_part [of k p xs] assms by auto
  have "?n div k div c \<le> ?a div c" using a(1) assms(2) by (intro zdiv_mono1) auto
  also have "\<dots> \<le> split_share ?a c 1 i" using assms by (intro share_bounds) auto
  finally show "?n div k div c \<le> int (length (even_part (even_part xs k p) c i))" unfolding len .
  have "(?n + k - 1) div k \<le> (?n + k) div k" using assms(1) by (intro zdiv_mono1) auto
  moreover have "(?n + k) div k = ?n div k + 1" using div_add_self2 [of k ?n] assms(1) by blast
  ultimately have "?a \<le> ?n div k + 1" using a(2) by linarith
  then have "(?a + c - 1) div c \<le> (?n div k + c) div c" using assms(2) by (intro zdiv_mono1) auto
  then show "int (length (even_part (even_part xs k p) c i)) \<le> ?n div k div c + 1"
    using share_bounds(2) [of c ?a i] div_add_self2 [of c "?n div k"] assms(2,5) unfolding len by linarith
qed

section \<open>Division by locality\<close>

text \<open>Trainer \<open>i\<close> of \<open>c\<close> takes equal slices; the last one also takes the rest.\<close>

definition local_part :: "'a list \<Rightarrow> nat \<Rightarrow> nat \<Rightarrow> 'a list" where
  "local_part xs c i = (let size = length xs div c in
     if Suc i < c then take size (drop (size * i) xs) else drop (size * i) xs)"

lemma local_parts: "0 < c \<Longrightarrow> concat (map (local_part xs c) [0..<c]) = xs"
proof -
  assume c: "0 < c"
  let ?s = "length xs div c"
  obtain k where k: "c = Suc k" using c gr0_implies_Suc by blast
  have "map (local_part xs c) [0..<c] = map (local_part xs c) [0..<k] @ [drop (?s * k) xs]"
    by (simp add: k local_part_def)
  also have "map (local_part xs c) [0..<k] = map (\<lambda>i. take (?s * Suc i - ?s * i) (drop (?s * i) xs)) [0..<k]"
    by (intro map_cong refl) (auto simp: k local_part_def Let_def)
  finally have "concat (map (local_part xs c) [0..<c]) =
      concat (map (\<lambda>i. take (?s * Suc i - ?s * i) (drop (?s * i) xs)) [0..<k]) @ drop (?s * k) xs" by simp
  also have "concat (map (\<lambda>i. take (?s * Suc i - ?s * i) (drop (?s * i) xs)) [0..<k]) = take (?s * k) xs"
    by (rule concat_slices [where f = "\<lambda>i. ?s * i"]) auto
  finally show ?thesis by simp
qed

lemma get_overlap_filter:
  assumes "\<forall>i \<in> set ids. valid_index E i"
  shows "get_overlap E ids = Inr (filter (\<lambda>i. E ! nat i) ids)"
  using assms gather_row_valid [of ids E] by (simp add: get_overlap_def boolean_mask_map)

lemma split_local_eq:
  assumes K: "get_num_trainers pr = Inr (int (parts * c))" and b: "book_part b parts p" and i: "i < c"
    and ids: "\<forall>i \<in> set ids. valid_index E i"
  shows "split_local rk pr b (Some (int (p * c + i))) E ids = Inr (local_part (filter (\<lambda>i. E ! nat i) ids) c i)"
proof -
  let ?xs = "filter (\<lambda>i. E ! nat i) ids"
  have parts: "0 < parts" "p < parts" "rb_num_partitions b = int parts" using b by (auto simp: book_part_def)
  have "p * c + i < Suc p * c" using i by simp
  also have "\<dots> \<le> parts * c" using parts(2) by (intro mult_right_mono) auto
  finally have rank: "int (p * c + i) < int (parts * c)" by linarith
  have i': "int (p * c + i) mod int c = int i" using i by (simp flip: of_nat_mod)
  have s: "int (length ?xs) div int c = int (length ?xs div c)" by (simp flip: of_nat_div)
  have le: "length ?xs div c * i \<le> length ?xs" using i by (meson div_times_less_eq_dividend dual_order.trans less_imp_le mult_le_mono2)
  have "split_local rk pr b (Some (int (p * c + i))) E ids =
      Inr (if int i + 1 < int c then py_slice ?xs (int (length ?xs div c) * int i) (int (length ?xs div c) * (int i + 1))
           else drop (slice_bound (length ?xs) (int (length ?xs div c) * int i)) ?xs)"
  proof -
    have "trainers_per_part pr b = Inr (int (parts * c), int c)" using K parts by (simp add: trainers_per_part_def)
    moreover have "py_divmod (int (p * c + i)) (int c) = Inr (int (p * c + i) div int c, int i)"
      using i i' by (simp del: of_nat_mult of_nat_add)
    moreover have "py_floordiv (int (length ?xs)) (int c) = Inr (int (length ?xs div c))" using i s by simp
    ultimately show ?thesis using rank get_overlap_filter [OF ids]
      by (simp add: split_local_def del: of_nat_mult of_nat_add)
  qed
  also have "\<dots> = Inr (local_part ?xs c i)"
  proof (cases "Suc i < c")
    case True
    have "nat (int (length ?xs div c) * (int i + 1)) - nat (int (length ?xs div c) * int i) = length ?xs div c"
      by (simp add: nat_mult_distrib nat_add_distrib)
    then show ?thesis using True by (simp add: local_part_def Let_def py_slice_nonneg nat_mult_distrib)
  next
    case False
    then show ?thesis using le by (simp add: local_part_def Let_def slice_bound_pos nat_mult_distrib)
  qed
  finally show ?thesis .
qed

section \<open>Properties\<close>


text \<open>\<open>edge_split\<close> is even: with \<open>force_even\<close> and no trainer IDs the edges of all trainers are the selected ones,
  each once, and the numbers of edges of any two trainers differ by at most one.\<close>

theorem edge_split_even:
  assumes "graph_job N G J" and "dist_lib_ok D" and "t < length (gl_etypes G)"
    and "int (length (sm_values edges)) = type_total (gl_parts G) (gl_ebounds G) (length (gl_etypes G)) t"
    and "gl_parts G \<le> length (sm_values edges)"
  shows "\<exists>out. (\<forall>r < job_trainers J. edge_split D (sj_rpc_rank J r) (sj_process J r) edges
        (Some (sj_book J (r div sj_per_part J))) (gl_etypes G ! t) None True None = Inr (out r)) \<and>
      mset (concat (map out [0..<job_trainers J])) = mset (nonzero_1d (sm_values edges)) \<and>
      (\<forall>r < job_trainers J. \<forall>s < job_trainers J. length (out r) \<le> length (out s) + 1)"
proof -
  note J = graph_jobD(3,4) [OF assms(1)]
  let ?P = "sj_parts J" and ?c = "sj_per_part J" and ?xs = "nonzero_1d (sm_values edges)"
  obtain out where out: "\<forall>r < job_trainers J. split_force_even D (sj_rpc_rank J r) (sj_process J r)
        (sj_book J (r div ?c)) (int r) (sm_values edges) None = Inr (out r)"
      "mset (concat (map out [0..<job_trainers J])) = mset ?xs"
      "\<forall>r < job_trainers J. length (out r) = length (even_part (even_part ?xs (int ?P) (int (r div ?c))) (int ?c) (int (r mod ?c)))"
    using all_trainers [OF J(1) assms(2), of "sm_values edges" None] assms(5) J(2) by (auto simp: trainer_ids_ok_def)
  have run: "edge_split D (sj_rpc_rank J r) (sj_process J r) edges (Some (sj_book J (r div ?c))) (gl_etypes G ! t) None True None =
      Inr (out r)" if "r < job_trainers J" for r
    using trainer_part [OF J(1) that] graph_job_edges [OF assms(1,3), of "r div ?c"] J(2) out(1) that assms(4)
    by (simp add: edge_split_def mask_book_given)
  have pos: "0 < int ?P" "0 < int ?c" using J(1) by (simp_all add: job_ok_def)
  have size: "int (length ?xs) div int ?P div int ?c \<le> int (length (out r))"
      "int (length (out r)) \<le> int (length ?xs) div int ?P div int ?c + 1" if "r < job_trainers J" for r
  proof -
    have "int (r div ?c) < int ?P" "int (r mod ?c) < int ?c" using trainer_part(1) [OF J(1) that] pos by simp_all
    then show "int (length ?xs) div int ?P div int ?c \<le> int (length (out r))"
      "int (length (out r)) \<le> int (length ?xs) div int ?P div int ?c + 1"
      using even_part_sizes [OF pos _ _ _ _, of "int (r div ?c)" "int (r mod ?c)" ?xs] out(3) that by simp_all
  qed
  have "length (out r) \<le> length (out s) + 1" if "r < job_trainers J" "s < job_trainers J" for r s
    using size(2) [OF that(1)] size(1) [OF that(2)] by linarith
  then show ?thesis using run out(2) by (intro exI [of _ out]) blast
qed

text \<open>Division by locality: without \<open>force_even\<close> every trainer gets selected nodes of its own partition, and the
  trainers in order of rank list all selected nodes in order.\<close>

theorem node_split_local:
  assumes "graph_job N G J" and "t < length (gl_ntypes G)"
    and "int (length (sm_values nodes)) = type_total (gl_parts G) (gl_nbounds G) (length (gl_ntypes G)) t"
  shows "\<exists>out. (\<forall>r < job_trainers J. node_split D (sj_rpc_rank J r) (sj_process J r) nodes
        (Some (sj_book J (r div sj_per_part J))) (gl_ntypes G ! t) None False node_trainer_ids = Inr (out r) \<and>
        (\<exists>own. rb_partid2nids (sj_book J (r div sj_per_part J)) (int (r div sj_per_part J)) (gl_ntypes G ! t) = Inr own \<and>
           set (out r) \<subseteq> set own)) \<and>
      concat (map out [0..<job_trainers J]) = nonzero_1d (sm_values nodes)"
proof -
  note J = graph_jobD(3,4) [OF assms(1)]
  note V = graph_jobD(1,2) [OF assms(1)]
  let ?P = "gl_parts G" and ?c = "sj_per_part J" and ?E = "sm_values nodes"
  let ?start = "typed_start (gl_nbounds G) (length (gl_ntypes G)) t"
  let ?own = "\<lambda>p. arange (?start p) (?start (Suc p))"
  let ?sel = "\<lambda>ids. filter (\<lambda>i. ?E ! nat i) ids"
  let ?out = "\<lambda>r. local_part (?sel (?own (r div ?c))) ?c (r mod ?c)"
  have c: "0 < ?c" using J(1) by (simp add: job_ok_def)
  have step: "?start p \<le> ?start (Suc p)" if "p < ?P" for p
    using valid_boundsD(5) [OF valid_graphD(1) [OF V(1)] that assms(2)] by (simp add: typed_start_Suc)
  have own_all: "concat (map ?own [0..<?P]) = arange 0 (int (length ?E))"
    using concat_upto_tiling [of ?P ?start] step by (simp add: arange_def assms(3) type_total_def)
  have valid: "\<forall>i \<in> set (?own p). valid_index ?E i" if "p < ?P" for p
  proof -
    have "set (?own p) \<subseteq> set (concat (map ?own [0..<?P]))" using that by (auto simp del: set_arange)
    then show ?thesis unfolding own_all by (auto simp: valid_index_def)
  qed
  have run: "node_split D (sj_rpc_rank J r) (sj_process J r) nodes (Some (sj_book J (r div ?c))) (gl_ntypes G ! t) None
      False node_trainer_ids = Inr (?out r)" and own: "rb_partid2nids (sj_book J (r div ?c)) (int (r div ?c)) (gl_ntypes G ! t) =
      Inr (?own (r div ?c))" if r: "r < job_trainers J" for r
  proof -
    have p: "r div ?c < ?P" using trainer_part(1) [OF J(1) r] J(2) by simp
    have book: "book_part (sj_book J (r div ?c)) ?P (r div ?c)" using J p by (simp add: job_ok_def)
    have trainers: "get_num_trainers (sj_process J r) = Inr (int (?P * ?c))"
      using J r by (simp add: job_ok_def job_trainers_def)
    have "split_local (sj_rpc_rank J r) (sj_process J r) (sj_book J (r div ?c)) (Some (int r)) ?E (?own (r div ?c)) = Inr (?out r)"
      using split_local_eq [OF trainers book _ valid [OF p], of "r mod ?c" "sj_rpc_rank J r"] c by simp
    then show "node_split D (sj_rpc_rank J r) (sj_process J r) nodes (Some (sj_book J (r div ?c))) (gl_ntypes G ! t) None
      False node_trainer_ids = Inr (?out r)"
      using trainer_part(2) [OF J(1) r] graph_job_nodes [OF assms(1,2) p] assms(3) by (simp add: node_split_def mask_book_given)
    show "rb_partid2nids (sj_book J (r div ?c)) (int (r div ?c)) (gl_ntypes G ! t) = Inr (?own (r div ?c))"
      using graph_job_nodes(2) [OF assms(1,2) p] book by (simp add: book_part_def)
  qed
  have "concat (map ?out [0..<job_trainers J]) = concat (map (\<lambda>p. concat (map (\<lambda>i. ?out (p * ?c + i)) [0..<?c])) [0..<?P])"
    unfolding job_trainers_def J(2) by (rule concat_blocks)
  also have "\<dots> = concat (map (\<lambda>p. concat (map (local_part (?sel (?own p)) ?c) [0..<?c])) [0..<?P])"
    by (intro arg_cong [where f = concat] map_cong refl) simp_all
  also have "\<dots> = ?sel (concat (map ?own [0..<?P]))" by (simp only: local_parts [OF c] filter_concat map_map comp_def)
  also have "\<dots> = nonzero_1d ?E"
  proof -
    have "arange 0 (int (length ?E)) = map int [0..<length ?E]" by (rule nth_equalityI) simp_all
    then show ?thesis unfolding own_all by (simp add: nonzero_1d_def filter_map comp_def)
  qed
  finally have all: "concat (map ?out [0..<job_trainers J]) = nonzero_1d ?E" .
  have "set (local_part xs k i) \<subseteq> set xs" for xs :: "int list" and k i
    by (auto simp: local_part_def Let_def dest: in_set_takeD in_set_dropD)
  then have "set (?out r) \<subseteq> set (?own (r div ?c))" for r by (meson filter_is_subset subset_trans)
  then show ?thesis using run own all by (intro exI [of _ ?out]) blast
qed

text \<open>With fewer nodes than partitions \<open>node_split\<close> with \<open>force_even\<close> fails in every trainer: the block size of the
  loop over the mask is zero and \<open>range\<close> raises \<open>ValueError\<close>.\<close>

theorem node_split_small_fails:
  assumes "graph_job N G J" and "dist_lib_ok D" and "t < length (gl_ntypes G)"
    and "int (length (sm_values nodes)) = type_total (gl_parts G) (gl_nbounds G) (length (gl_ntypes G)) t"
    and "length (sm_values nodes) < gl_parts G" and "r < job_trainers J"
  shows "node_split D (sj_rpc_rank J r) (sj_process J r) nodes (Some (sj_book J (r div sj_per_part J))) (gl_ntypes G ! t)
    None True node_trainer_ids = Inl ValueError"
proof -
  note J = graph_jobD(3,4) [OF assms(1)]
  have p: "r div sj_per_part J < gl_parts G" using trainer_part(1) [OF J(1) assms(6)] J(2) by simp
  have book: "book_part (sj_book J (r div sj_per_part J)) (gl_parts G) (r div sj_per_part J)" using J p by (simp add: job_ok_def)
  have "get_num_trainers (sj_process J r) = Inr (int (gl_parts G) * int (sj_per_part J))"
    using J assms(6) by (simp add: job_ok_def job_trainers_def)
  moreover have "numpy_laws (dl_numpy D)" using assms(2) by (simp add: dist_lib_ok_def)
  moreover have "rb_num_partitions (sj_book J (r div sj_per_part J)) = int (gl_parts G)" "0 < gl_parts G"
    using book by (auto simp: book_part_def)
  ultimately show ?thesis
    using trainer_part(2) [OF J(1) assms(6)] graph_job_nodes(1) [OF assms(1,3) p] assms(4,5)
      split_even_to_part_eq [OF _ book]
    by (simp add: node_split_def mask_book_given split_force_even_def trainers_per_part_def)
qed

section \<open>Two machines with two trainers each\<close>

definition example_lib :: dist_lib where
  "example_lib = \<lparr>dl_numpy = numpy_ref, dl_permutation = (\<lambda>_ n. rev (arange 0 n)), dl_sort = sort\<rparr>"

definition example_job :: split_job where
  "example_job =
     \<lparr>sj_parts = 2, sj_per_part = 2, sj_book = (\<lambda>p. book_of example_graph p [(''like'', TTup [])]), sj_rpc_rank = int,
      sj_process = (\<lambda>_. \<lparr>pr_cur_role = Some ''default'', pr_global_rank = [(0, 0), (1, 1), (2, 2), (3, 3)],
        pr_per_role_rank = [(''default'', [(0, 0), (1, 1), (2, 2), (3, 3)])], pr_is_standalone = False\<rparr>)\<rparr>"

definition example_nodes :: split_mask where
  "example_nodes = \<lparr>sm_values = [True, False, True, True, False, True, True], sm_policy = None\<rparr>"

definition example_edges :: split_mask where
  "example_edges = \<lparr>sm_values = [True, False, True, True, True, True, False, False], sm_policy = None\<rparr>"

lemma example_lib_ok: "dist_lib_ok example_lib"
  by (simp add: dist_lib_ok_def example_lib_def numpy_ref_laws sort_law_def)

lemma example_job_ok: "job_ok example_job"
proof -
  have "dict_get [(0, 0), (1, 1), (2, 2), (3, 3)] (int r) = Inr (int r)" if "r < 4" for r :: nat
  proof -
    from that consider "r = 0" | "r = 1" | "r = 2" | "r = 3" by linarith
    then show ?thesis by cases simp_all
  qed
  then show ?thesis
    by (auto simp: job_ok_def job_trainers_def example_job_def book_part_def get_num_trainers_def get_trainer_rank_def
        get_rank_def dict_get_def example_graph_def)
qed

text \<open>The same job on a graph with other node ranges.\<close>

definition job_with :: "graph_layout \<Rightarrow> split_job" where
  "job_with G = example_job\<lparr>sj_book := \<lambda>p. book_of G p [(''like'', TTup [])]\<rparr>"

lemma job_with_ok:
  assumes "G = example_graph\<lparr>gl_nbounds := bs\<rparr>" and "valid_graph G" and "names_ok G"
  shows "graph_job numpy_ref G (job_with G)"
proof -
  have types: "type_ids [(''item'', 1), (''user'', 0)] (gl_ntypes G)" "type_ids example_etypes (gl_etypes G)"
    using example_types by (simp_all add: assms(1))
  have "range_book_init numpy_ref (int p) (int (gl_parts G)) (node_map G) (edge_map G) [(''item'', 1), (''user'', 0)]
      example_etypes = Inr (book_of G p [(''like'', TTup [])])" if "p < gl_parts G" for p
    using range_book_init_eq [OF numpy_ref_laws assms(2) that types] example_e2c by simp
  then have "built (numpy_ref, G, p, [(''item'', 1), (''user'', 0)], example_etypes, sj_book (job_with G) p)"
    if "p < gl_parts G" for p
    using that assms(2,3) types numpy_ref_laws by (simp add: job_with_def)
  moreover have "sj_parts (job_with G) = gl_parts G" by (simp add: assms(1) job_with_def example_job_def example_graph_def)
  moreover have "job_ok (job_with G)"
    using example_job_ok
    by (auto simp: job_ok_def job_trainers_def job_with_def assms(1)) (auto simp: example_job_def book_part_def example_graph_def)
  ultimately show ?thesis unfolding graph_job_def by blast
qed

lemma example_graph_job: "graph_job numpy_ref example_graph example_job"
proof -
  have "job_with example_graph = example_job" by (simp add: job_with_def example_job_def)
  then show ?thesis using job_with_ok [of example_graph "gl_nbounds example_graph"] example_valid by simp
qed

definition small_graph :: graph_layout where
  "small_graph = example_graph\<lparr>gl_nbounds := [0, 1, 5, 5, 10]\<rparr>"

lemma small_graph_job: "graph_job numpy_ref small_graph (job_with small_graph)"
proof (rule job_with_ok)
  show "small_graph = example_graph\<lparr>gl_nbounds := [0, 1, 5, 5, 10]\<rparr>" by (rule small_graph_def)
  show "valid_graph small_graph" "names_ok small_graph"
    by (simp_all add: valid_graph_def valid_bounds_def names_ok_def small_graph_def example_graph_def canonical_etype_def name_consts)
qed

lemma example_totals:
  "gl_ntypes example_graph ! 0 = ''user''" "0 < length (gl_ntypes example_graph)" "0 < length (gl_etypes example_graph)"
  "type_total (gl_parts example_graph) (gl_nbounds example_graph) (length (gl_ntypes example_graph)) 0 = 7"
  "type_total (gl_parts example_graph) (gl_ebounds example_graph) (length (gl_etypes example_graph)) 0 = 8"
  "type_total (gl_parts example_graph) (gl_nbounds example_graph) (length (gl_ntypes example_graph)) 1 = 3"
  "gl_parts example_graph = 2" "job_trainers example_job = 4"
  by (simp_all add: type_total_def typed_start_def span_def example_graph_def job_trainers_def example_job_def lessThan_Suc numeral_2_eq_2)


theorem edge_split_even_witness:
  "\<exists>out. (\<forall>r < job_trainers example_job. edge_split example_lib (sj_rpc_rank example_job r) (sj_process example_job r)
      example_edges (Some (sj_book example_job (r div sj_per_part example_job))) (gl_etypes example_graph ! 0) None True None =
      Inr (out r)) \<and>
    mset (concat (map out [0..<job_trainers example_job])) = mset (nonzero_1d (sm_values example_edges)) \<and>
    (\<forall>r < job_trainers example_job. \<forall>s < job_trainers example_job. length (out r) \<le> length (out s) + 1)"
  by (rule edge_split_even [OF example_graph_job example_lib_ok example_totals(3)])
    (unfold example_totals(5,8), simp_all add: example_edges_def example_totals(7))

theorem node_split_local_witness:
  "\<exists>out. (\<forall>r < job_trainers example_job. node_split example_lib (sj_rpc_rank example_job r) (sj_process example_job r) example_nodes
      (Some (sj_book example_job (r div sj_per_part example_job))) (gl_ntypes example_graph ! 0) None False None = Inr (out r) \<and>
      (\<exists>own. rb_partid2nids (sj_book example_job (r div sj_per_part example_job)) (int (r div sj_per_part example_job))
         (gl_ntypes example_graph ! 0) = Inr own \<and> set (out r) \<subseteq> set own)) \<and>
    concat (map out [0..<job_trainers example_job]) = nonzero_1d (sm_values example_nodes)"
  by (rule node_split_local [OF example_graph_job example_totals(2)])
    (unfold example_totals(4), simp add: example_nodes_def)

theorem node_split_small_fails_witness:
  "node_split example_lib 3 (sj_process (job_with small_graph) 3) \<lparr>sm_values = [True], sm_policy = None\<rparr>
    (Some (sj_book (job_with small_graph) 1)) ''user'' None True None = Inl ValueError"
proof -
  have "type_total (gl_parts small_graph) (gl_nbounds small_graph) (length (gl_ntypes small_graph)) 0 = 1"
    by (simp add: type_total_def typed_start_def span_def small_graph_def example_graph_def lessThan_Suc numeral_2_eq_2)
  then show ?thesis
    using node_split_small_fails [OF small_graph_job example_lib_ok, of 0 "\<lparr>sm_values = [True], sm_policy = None\<rparr>" 3 None]
    by (simp add: job_trainers_def) (simp add: job_with_def example_job_def small_graph_def example_graph_def)
qed

end
