(* ===== verification/ItemSet.thy ===== *)
theory ItemSet
  imports PyRange
begin

text \<open>
  \<open>ItemSet\<close> and \<open>HeteroItemSet\<close> of \<^verbatim>\<open>python/dgl/graphbolt/itemset.py\<close>: indexing a collection of items by a
  position, a slice or a tensor of positions, and a collection of item sets of several types as if it
  were one list. A tensor is the list of its rows along the first axis, of an arbitrary type; dtypes and
  printing are not modelled.
\<close>

section \<open>Item sets\<close>

datatype 'a items =
    Scalar_items int
  | Tensor_items "'a list"
  | Tuple_items "'a list list"

datatype item_names =
    Name_str string
  | Name_tuple "string list"

text \<open>An index: a Python int, a tensor without axes, a slice, a tensor or another iterable of positions.\<close>

datatype item_index =
    Idx int
  | Idx_tensor int
  | Idx_slice "int option" "int option" "int option"
  | Idx_ids "int list"
  | Idx_iterable "int list"

text \<open>What an index takes out of one tensor: a row or a tensor of rows.\<close>

datatype 'a picked =
    One 'a
  | Many "'a list"

datatype 'a item_value =
    Id_value "int picked"
  | Row_value "'a picked"
  | Tuple_value "'a picked list"

text \<open>The items as stored: a scalar, or the tuple of tensors.\<close>

datatype 'a stored_items =
    Stored_scalar int
  | Stored_tuple "'a list list"

record 'a item_set =
  is_length :: int
  is_items :: "'a stored_items"
  is_num_items :: nat
  is_names :: "string list option"

definition item_set_init :: "'a items \<Rightarrow> item_names option \<Rightarrow> 'a item_set res" where
  "item_set_init items names =
     rbind (case items of
              Scalar_items n \<Rightarrow> Inr (n, Stored_scalar n)
            | Tuple_items cols \<Rightarrow>
                rbind (py_index cols 0) (\<lambda>c.
                rbind (rassert (\<forall>item \<in> set cols. length item = length c) ValueError) (\<lambda>_.
                Inr (int (length c), Stored_tuple cols)))
            | Tensor_items xs \<Rightarrow> Inr (int (length xs), Stored_tuple [xs])) (\<lambda>(len, stored).
     let num_items = (case stored of Stored_tuple cols \<Rightarrow> length cols | Stored_scalar _ \<Rightarrow> 1) in
     rbind (case names of
              None \<Rightarrow> Inr None
            | Some names \<Rightarrow>
                let names = (case names of Name_tuple ns \<Rightarrow> ns | Name_str n \<Rightarrow> [n]) in
                rbind (rassert (num_items = length names) AssertionError) (\<lambda>_. Inr (Some names))) (\<lambda>names.
     Inr \<lparr>is_length = len, is_items = stored, is_num_items = num_items, is_names = names\<rparr>))"

definition item_set_len :: "'a item_set \<Rightarrow> int res" where
  "item_set_len s = (if is_length s < 0 then Inl ValueError else Inr (is_length s))"

text \<open>Indexing of a tensor along the first axis.\<close>

definition tensor_getitem :: "'a list \<Rightarrow> item_index \<Rightarrow> 'a picked res" where
  "tensor_getitem xs index =
     (case index of
        Idx i \<Rightarrow> rbind (py_index xs i) (\<lambda>x. Inr (One x))
      | Idx_tensor i \<Rightarrow> rbind (py_index xs i) (\<lambda>x. Inr (One x))
      | Idx_slice start stop step \<Rightarrow>
          rbind (slice_indices start stop step (int (length xs))) (\<lambda>(start, stop, step).
          rbind (rassert (0 < step) ValueError) (\<lambda>_.
          rbind (py_range start stop step) (\<lambda>idx. rbind (take_rows xs idx) (\<lambda>rows. Inr (Many rows)))))
      | Idx_ids idx \<Rightarrow> rbind (take_rows xs idx) (\<lambda>rows. Inr (Many rows))
      | Idx_iterable idx \<Rightarrow> rbind (take_rows xs idx) (\<lambda>rows. Inr (Many rows)))"

definition scalar_getitem :: "int \<Rightarrow> item_index \<Rightarrow> int picked res" where
  "scalar_getitem len index =
     (case index of
        Idx_slice start stop step \<Rightarrow>
          rbind (slice_indices start stop step len) (\<lambda>(start, stop, step).
          rbind (torch_arange start stop step) (\<lambda>ids. Inr (Many ids)))
      | Idx i \<Rightarrow>
          let i = (if i < 0 then i + len else i) in
          if i < 0 \<or> len \<le> i then Inl IndexError else Inr (One i)
      | Idx_tensor i \<Rightarrow> Inr (One i)
      | Idx_ids ids \<Rightarrow> Inr (Many ids)
      | Idx_iterable _ \<Rightarrow> Inl TypeError)"

definition item_set_getitem :: "'a item_set \<Rightarrow> item_index \<Rightarrow> 'a item_value res" where
  "item_set_getitem s index =
     (case is_items s of
        Stored_scalar _ \<Rightarrow> rbind (scalar_getitem (is_length s) index) (\<lambda>v. Inr (Id_value v))
      | Stored_tuple cols \<Rightarrow>
          if is_num_items s = 1
          then rbind (py_index cols 0) (\<lambda>xs. rbind (tensor_getitem xs index) (\<lambda>v. Inr (Row_value v)))
          else rbind (rmap (\<lambda>xs. tensor_getitem xs index) cols) (\<lambda>vs. Inr (Tuple_value vs)))"

section \<open>Item sets of several types\<close>

text \<open>\<open>cumsum\<close>, and \<open>searchsorted\<close> with \<open>right=True\<close> and with \<open>right=False\<close>.\<close>

record item_lib =
  il_cumsum :: "int list \<Rightarrow> int list"
  il_search_right :: "int list \<Rightarrow> int \<Rightarrow> int"
  il_search_left :: "int list \<Rightarrow> int \<Rightarrow> int"

record 'a hetero_item_set =
  hi_itemsets :: "(string \<times> 'a item_set) list"
  hi_names :: "string list option"
  hi_offsets :: "int list"
  hi_length :: int
  hi_keys :: "string list"

definition hetero_item_set_init :: "item_lib \<Rightarrow> (string \<times> 'a item_set) list \<Rightarrow> 'a hetero_item_set res" where
  "hetero_item_set_init L itemsets =
     (case itemsets of
        [] \<Rightarrow> Inl StopIteration
      | (_, first) # _ \<Rightarrow>
          let names = is_names first in
          rbind (rassert (\<forall>(_, s) \<in> set itemsets. names = is_names s) AssertionError) (\<lambda>_.
          rbind (rmap (\<lambda>(_, s). item_set_len s) itemsets) (\<lambda>lens.
          let offsets = il_cumsum L (0 # lens) in
          rbind (py_index offsets (- 1)) (\<lambda>len.
          Inr \<lparr>hi_itemsets = itemsets, hi_names = names, hi_offsets = offsets, hi_length = len,
               hi_keys = map fst itemsets\<rparr>))))"

text \<open>The loop over the item sets that a slice meets.\<close>

fun hetero_slice :: "'a hetero_item_set \<Rightarrow> int \<Rightarrow> int \<Rightarrow> int list \<Rightarrow> (string \<times> 'a item_value) list \<Rightarrow>
    (string \<times> 'a item_value) list res" where
  "hetero_slice h start stop [] data = Inr data"
| "hetero_slice h start stop (offset_idx # idxs) data =
     rbind (py_index (hi_keys h) (offset_idx - 1)) (\<lambda>key.
     rbind (dict_get (hi_itemsets h) key) (\<lambda>s.
     rbind (py_index (hi_offsets h) (offset_idx - 1)) (\<lambda>off.
     rbind (item_set_getitem s (Idx_slice (Some (max 0 (start - off))) (Some (stop - off)) None)) (\<lambda>v.
     rbind (py_index (hi_offsets h) offset_idx) (\<lambda>next.
     let data = AList.update key v data in
     if stop \<le> next then Inr data else hetero_slice h start stop idxs data)))))"

definition hetero_ids :: "item_lib \<Rightarrow> 'a hetero_item_set \<Rightarrow> int list \<Rightarrow> (string \<times> 'a item_value) list res" where
  "hetero_ids L h index =
     rbind (rassert (\<forall>i \<in> set index. 0 \<le> i \<and> i < hi_length h) AssertionError) (\<lambda>_.
     let key_indices = map (\<lambda>i. il_search_right L (hi_offsets h) i - 1) index in
     rfold (\<lambda>data (key_id, key).
       let mask_ids = map fst (filter (\<lambda>(_, k). k = int key_id) (zip index key_indices)) in
       if mask_ids = [] then Inr data
       else rbind (dict_get (hi_itemsets h) key) (\<lambda>s.
            rbind (py_index (hi_offsets h) (int key_id)) (\<lambda>off.
            rbind (item_set_getitem s (Idx_ids (map (\<lambda>i. i - off) mask_ids))) (\<lambda>v.
            Inr (AList.update key v data)))))
       [] (enumerate 0 (hi_keys h)))"

definition hetero_getitem :: "item_lib \<Rightarrow> 'a hetero_item_set \<Rightarrow> item_index \<Rightarrow> (string \<times> 'a item_value) list res" where
  "hetero_getitem L h index =
     (case index of
        Idx i \<Rightarrow>
          let i = (if i < 0 then i + hi_length h else i) in
          rbind (rassert (\<not> (i < 0 \<or> hi_length h \<le> i)) IndexError) (\<lambda>_.
          let offset_idx = il_search_right L (hi_offsets h) i - 1 in
          rbind (py_index (hi_offsets h) offset_idx) (\<lambda>off.
          rbind (py_index (hi_keys h) offset_idx) (\<lambda>key.
          rbind (dict_get (hi_itemsets h) key) (\<lambda>s.
          rbind (item_set_getitem s (Idx_tensor (i - off))) (\<lambda>v. Inr [(key, v)])))))
      | Idx_slice start stop step \<Rightarrow>
          rbind (slice_indices start stop step (hi_length h)) (\<lambda>(start, stop, step).
          if step \<noteq> 1 then rbind (torch_arange start stop step) (\<lambda>ids. hetero_ids L h ids)
          else
          rbind (rassert (start < stop) AssertionError) (\<lambda>_.
          let offset_idx_start = max 1 (il_search_left L (hi_offsets h) start) in
          hetero_slice h start stop (arange offset_idx_start (int (length (hi_offsets h)))) []))
      | Idx_ids ids \<Rightarrow> hetero_ids L h ids
      | Idx_iterable ids \<Rightarrow> hetero_ids L h ids
      | Idx_tensor i \<Rightarrow> rbind (rassert (0 \<le> i \<and> i < hi_length h) AssertionError) (\<lambda>_. Inl IndexError))"

section \<open>Specification\<close>

text \<open>The item at a position, the batch of the items at some positions, and the items of a batch.\<close>

definition item_at :: "'a item_set \<Rightarrow> int \<Rightarrow> 'a item_value" where
  "item_at s j =
     (case is_items s of
        Stored_scalar _ \<Rightarrow> Id_value (One j)
      | Stored_tuple cols \<Rightarrow>
          if length cols = 1 then Row_value (One (hd cols ! nat j)) else Tuple_value (map (\<lambda>xs. One (xs ! nat j)) cols))"

definition items_at :: "'a item_set \<Rightarrow> int list \<Rightarrow> 'a item_value" where
  "items_at s js =
     (case is_items s of
        Stored_scalar _ \<Rightarrow> Id_value (Many js)
      | Stored_tuple cols \<Rightarrow>
          if length cols = 1 then Row_value (Many (map (\<lambda>j. hd cols ! nat j) js))
          else Tuple_value (map (\<lambda>xs. Many (map (\<lambda>j. xs ! nat j) js)) cols))"

fun rows :: "'a picked \<Rightarrow> 'a list" where
  "rows (One x) = [x]"
| "rows (Many xs) = xs"

fun unbatch :: "'a item_value \<Rightarrow> 'a item_value list" where
  "unbatch (Id_value p) = map (\<lambda>j. Id_value (One j)) (rows p)"
| "unbatch (Row_value p) = map (\<lambda>x. Row_value (One x)) (rows p)"
| "unbatch (Tuple_value ps) =
     map (\<lambda>i. Tuple_value (map (\<lambda>p. One (rows p ! i)) ps)) [0..<(case ps of [] \<Rightarrow> 0 | p # _ \<Rightarrow> length (rows p))]"

definition item_set_ok :: "'a item_set \<Rightarrow> bool" where
  "item_set_ok s \<longleftrightarrow> 0 \<le> is_length s \<and>
     (case is_items s of
        Stored_scalar n \<Rightarrow> n = is_length s
      | Stored_tuple cols \<Rightarrow> cols \<noteq> [] \<and> is_num_items s = length cols \<and> (\<forall>xs \<in> set cols. int (length xs) = is_length s))"

lemma py_index_Nil [simp]: "py_index [] i = Inl IndexError"
  by (simp add: py_index_def)

lemma item_set_init_ok:
  assumes "item_set_init items names = Inr s" and "\<And>n. items = Scalar_items n \<Longrightarrow> 0 \<le> n"
  shows "item_set_ok s"
proof -
  let ?stored = "case items of
      Scalar_items n \<Rightarrow> Inr (n, Stored_scalar n)
    | Tuple_items cols \<Rightarrow> rbind (py_index cols 0) (\<lambda>c.
        rbind (rassert (\<forall>item \<in> set cols. length item = length c) ValueError) (\<lambda>_. Inr (int (length c), Stored_tuple cols)))
    | Tensor_items xs \<Rightarrow> Inr (int (length xs), Stored_tuple [xs])"
  obtain len stored where st: "?stored = Inr (len, stored)"
    and s: "is_length s = len" "is_items s = stored"
      "is_num_items s = (case stored of Stored_tuple cols \<Rightarrow> length cols | Stored_scalar _ \<Rightarrow> 1)"
    using assms(1) unfolding item_set_init_def by (auto simp: rbind_eq_Inr Let_def)
  show ?thesis
  proof (cases items)
    case (Scalar_items n)
    then have "stored = Stored_scalar n" "len = n" "0 \<le> n" using st assms(2) by auto
    then show ?thesis using s by (simp add: item_set_ok_def)
  next
    case (Tensor_items xs)
    then have "stored = Stored_tuple [xs]" "len = int (length xs)" using st by auto
    then show ?thesis using s by (simp add: item_set_ok_def)
  next
    case (Tuple_items cols)
    then obtain c where "py_index cols 0 = Inr c" "\<forall>item \<in> set cols. length item = length c"
        "len = int (length c)" "stored = Stored_tuple cols" using st by (auto simp: rbind_eq_Inr)
    then show ?thesis using s by (cases "cols = []") (simp_all add: item_set_ok_def)
  qed
qed

lemma unbatch_items: "item_set_ok s \<Longrightarrow> unbatch (items_at s js) = map (item_at s) js"
proof (cases "is_items s")
  case (Stored_tuple cols)
  assume "item_set_ok s"
  then obtain c cs where cols: "cols = c # cs" using Stored_tuple by (cases cols) (auto simp: item_set_ok_def)
  show ?thesis
  proof (cases "cs = []")
    case True
    then show ?thesis using Stored_tuple by (simp add: items_at_def item_at_def cols comp_def)
  next
    case False
    then have "unbatch (items_at s js) = map (\<lambda>i. Tuple_value (map (\<lambda>xs. One (map (\<lambda>j. xs ! nat j) js ! i)) cols)) [0..<length js]"
      using Stored_tuple by (simp add: items_at_def cols comp_def)
    also have "\<dots> = map (item_at s) js"
      using Stored_tuple False by (intro nth_equalityI) (auto simp: item_at_def cols)
    finally show ?thesis .
  qed
qed (simp add: items_at_def item_at_def)

lemma getitem_one:
  assumes "item_set_ok s" and "0 \<le> i" and "i < is_length s" and "idx = Idx i \<or> idx = Idx_tensor i"
  shows "item_set_getitem s idx = Inr (item_at s i)"
proof (cases "is_items s")
  case (Stored_scalar n)
  then show ?thesis using assms by (auto simp: item_set_getitem_def item_at_def scalar_getitem_def Let_def)
next
  case (Stored_tuple cols)
  have cols: "cols \<noteq> []" "is_num_items s = length cols" "\<And>xs. xs \<in> set cols \<Longrightarrow> int (length xs) = is_length s"
    using assms(1) Stored_tuple by (auto simp: item_set_ok_def)
  have "tensor_getitem xs idx = Inr (One (xs ! nat i))" if "xs \<in> set cols" for xs
    using cols(3) [OF that] assms(2-4) by (auto simp: tensor_getitem_def)
  moreover have "py_index cols 0 = Inr (hd cols)" using cols(1) py_index_of_nat [of 0 cols] by (simp add: hd_conv_nth)
  moreover have "hd cols \<in> set cols" using cols(1) by simp
  ultimately show ?thesis
    by (simp add: item_set_getitem_def item_at_def Stored_tuple cols(2) rmap_total [where g = "\<lambda>xs. One (xs ! nat i)"])
qed

lemma getitem_many:
  assumes ok: "item_set_ok s"
    and scalar: "scalar_getitem (is_length s) idx = Inr (Many js)"
    and tensor: "\<And>xs :: 'a list. int (length xs) = is_length s \<Longrightarrow> tensor_getitem xs idx = Inr (Many (map (\<lambda>j. xs ! nat j) js))"
  shows "item_set_getitem (s :: 'a item_set) idx = Inr (items_at s js)"
proof (cases "is_items s")
  case (Stored_scalar n)
  then show ?thesis using scalar by (simp add: item_set_getitem_def items_at_def)
next
  case (Stored_tuple cols)
  have cols: "cols \<noteq> []" "is_num_items s = length cols" "\<And>xs. xs \<in> set cols \<Longrightarrow> int (length xs) = is_length s"
    using ok Stored_tuple by (auto simp: item_set_ok_def)
  moreover have "py_index cols 0 = Inr (hd cols)" using cols(1) py_index_of_nat [of 0 cols] by (simp add: hd_conv_nth)
  moreover have "hd cols \<in> set cols" using cols(1) by simp
  ultimately show ?thesis using tensor
    by (simp add: item_set_getitem_def items_at_def Stored_tuple rmap_total [where g = "\<lambda>xs. Many (map (\<lambda>j. xs ! nat j) js)"])
qed

lemma getitem_ids:
  assumes "item_set_ok s" and "\<forall>j \<in> set js. 0 \<le> j \<and> j < is_length s"
  shows "item_set_getitem s (Idx_ids js) = Inr (items_at s js)"
  using assms by (intro getitem_many) (auto simp: scalar_getitem_def tensor_getitem_def valid_index_def take_rows_valid)

lemma getitem_slice:
  assumes ok: "item_set_ok s" and b: "0 \<le> a" "a < b"
  shows "item_set_getitem s (Idx_slice (Some a) (Some b) None) =
    Inr (items_at s (arange (min (is_length s) a) (min (is_length s) b)))"
proof -
  have n: "0 \<le> is_length s" using ok by (simp add: item_set_ok_def)
  show ?thesis
  proof (rule getitem_many [OF ok])
    show "scalar_getitem (is_length s) (Idx_slice (Some a) (Some b) None) =
        Inr (Many (arange (min (is_length s) a) (min (is_length s) b)))"
      using n b by (simp add: scalar_getitem_def slice_indices_plain torch_arange_one)
    fix xs :: "'a list"
    assume len: "int (length xs) = is_length s"
    have "take_rows xs (arange (min (is_length s) a) (min (is_length s) b)) =
        Inr (map (\<lambda>j. xs ! nat j) (arange (min (is_length s) a) (min (is_length s) b)))"
      using n b len by (intro take_rows_valid) (auto simp: valid_index_def)
    then show "tensor_getitem xs (Idx_slice (Some a) (Some b) None) =
        Inr (Many (map (\<lambda>j. xs ! nat j) (arange (min (is_length s) a) (min (is_length s) b))))"
      using n b len by (simp add: tensor_getitem_def slice_indices_plain py_range_one)
  qed
qed

section \<open>The item sets as one list\<close>

definition insertion_left :: "int list \<Rightarrow> int \<Rightarrow> int \<Rightarrow> bool" where
  "insertion_left a v i \<longleftrightarrow> 0 \<le> i \<and> i \<le> int (length a) \<and>
     (\<forall>j<nat i. a ! j < v) \<and> (\<forall>j<length a. nat i \<le> j \<longrightarrow> v \<le> a ! j)"

definition item_lib_ok :: "item_lib \<Rightarrow> bool" where
  "item_lib_ok L \<longleftrightarrow> (\<forall>xs. il_cumsum L xs = prefix_sums xs) \<and>
     (\<forall>a v. sorted a \<longrightarrow> insertion_right a v (il_search_right L a v) \<and> insertion_left a v (il_search_left L a v))"

definition flat_items :: "(string \<times> 'a item_set) list \<Rightarrow> (string \<times> 'a item_value) list" where
  "flat_items sets = concat (map (\<lambda>(k, s). map (\<lambda>j. (k, item_at s j)) (arange 0 (is_length s))) sets)"

definition flat_batches :: "(string \<times> 'a item_value) list \<Rightarrow> (string \<times> 'a item_value) list" where
  "flat_batches d = concat (map (\<lambda>(k, v). map (Pair k) (unbatch v)) d)"

definition sets_ok :: "(string \<times> 'a item_set) list \<Rightarrow> bool" where
  "sets_ok sets \<longleftrightarrow> distinct (map fst sets) \<and> (\<forall>(_, s) \<in> set sets. item_set_ok s)"

definition offset :: "(string \<times> 'a item_set) list \<Rightarrow> nat \<Rightarrow> int" where
  "offset sets k = sum_list (map (is_length \<circ> snd) (take k sets))"

definition hetero_ok :: "item_lib \<Rightarrow> (string \<times> 'a item_set) list \<Rightarrow> 'a hetero_item_set \<Rightarrow> bool" where
  "hetero_ok L sets h \<longleftrightarrow> item_lib_ok L \<and> sets_ok sets \<and> hetero_item_set_init L sets = Inr h"

lemma offset_0 [simp]: "offset sets 0 = 0" by (simp add: offset_def)

lemma offset_Suc: "k < length sets \<Longrightarrow> offset sets (Suc k) = offset sets k + is_length (snd (sets ! k))"
  by (simp add: offset_def take_Suc_conv_app_nth)

lemma length_nonneg: "sets_ok sets \<Longrightarrow> k < length sets \<Longrightarrow> 0 \<le> is_length (snd (sets ! k))"
  by (drule nth_mem) (auto simp: sets_ok_def item_set_ok_def)

lemma offset_mono: "sets_ok sets \<Longrightarrow> i \<le> j \<Longrightarrow> j \<le> length sets \<Longrightarrow> offset sets i \<le> offset sets j"
proof (induction j)
  case (Suc j)
  then show ?case using offset_Suc [of j sets] length_nonneg [of sets j] by (cases "i = Suc j") auto
qed simp

lemma length_flat: "sets_ok sets \<Longrightarrow> int (length (flat_items sets)) = offset sets (length sets)"
proof -
  have "\<forall>(_, s) \<in> set sets. 0 \<le> is_length s \<Longrightarrow> int (length (flat_items sets)) = sum_list (map (is_length \<circ> snd) sets)"
    by (induction sets) (auto simp: flat_items_def)
  moreover assume "sets_ok sets"
  ultimately show ?thesis by (auto simp: offset_def sets_ok_def item_set_ok_def)
qed

lemma hetero_fields:
  assumes "hetero_ok L sets h"
  shows "hi_itemsets h = sets" "hi_offsets h = map (offset sets) [0..<Suc (length sets)]"
    "hi_length h = offset sets (length sets)" "hi_keys h = map fst sets"
proof -
  have L: "il_cumsum L = prefix_sums" using assms by (simp add: hetero_ok_def item_lib_ok_def fun_eq_iff)
  obtain c cs where sets: "sets = c # cs"
    using assms by (cases sets) (auto simp: hetero_ok_def hetero_item_set_init_def)
  have lens: "rmap (\<lambda>(_, s). item_set_len s) sets = Inr (map (is_length \<circ> snd) sets)"
    using assms by (intro rmap_total) (auto simp: hetero_ok_def sets_ok_def item_set_ok_def item_set_len_def)
  have offs: "prefix_sums (0 # map (is_length \<circ> snd) sets) = map (offset sets) [0..<Suc (length sets)]"
    by (rule nth_equalityI) (simp_all add: offset_def take_map del: upt_Suc)
  let ?offs = "map (offset sets) [0..<Suc (length sets)]"
  have "hetero_item_set_init L sets = rbind (rassert (\<forall>(_, s) \<in> set sets. is_names (snd c) = is_names s) AssertionError) (\<lambda>_.
      rbind (rmap (\<lambda>(_, s). item_set_len s) sets) (\<lambda>lens. rbind (py_index (il_cumsum L (0 # lens)) (- 1)) (\<lambda>len.
      Inr \<lparr>hi_itemsets = sets, hi_names = is_names (snd c), hi_offsets = il_cumsum L (0 # lens), hi_length = len,
        hi_keys = map fst sets\<rparr>)))"
    by (cases c) (simp add: hetero_item_set_init_def sets Let_def)
  moreover have "hetero_item_set_init L sets = Inr h" using assms by (simp add: hetero_ok_def)
  moreover have "py_index ?offs (- 1) = Inr (offset sets (length sets))" by (simp add: py_index_last)
  ultimately have "rbind (rassert (\<forall>(_, s) \<in> set sets. is_names (snd c) = is_names s) AssertionError) (\<lambda>_.
      Inr \<lparr>hi_itemsets = sets, hi_names = is_names (snd c), hi_offsets = ?offs, hi_length = offset sets (length sets),
        hi_keys = map fst sets\<rparr>) = Inr h"
    unfolding lens L rbind_simps offs by simp
  then have h: "h = \<lparr>hi_itemsets = sets, hi_names = is_names (snd c), hi_offsets = ?offs, hi_length = offset sets (length sets),
        hi_keys = map fst sets\<rparr>" unfolding rbind_eq_Inr by blast
  then show "hi_itemsets h = sets" "hi_offsets h = map (offset sets) [0..<Suc (length sets)]"
    "hi_length h = offset sets (length sets)" "hi_keys h = map fst sets" by (simp_all add: h)
qed

text \<open>The type that owns a position.\<close>

lemma owner_exists:
  assumes "sets_ok sets" and "0 \<le> i" and "i < offset sets (length sets)"
  shows "\<exists>k < length sets. offset sets k \<le> i \<and> i < offset sets (Suc k)"
proof -
  have "n \<le> length sets \<Longrightarrow> i < offset sets n \<Longrightarrow> \<exists>k < n. offset sets k \<le> i \<and> i < offset sets (Suc k)" for n
  proof (induction n)
    case 0
    then show ?case using assms(2) by simp
  next
    case (Suc n)
    then show ?case by (cases "i < offset sets n") (auto intro: less_SucI)
  qed
  then show ?thesis using assms(3) by (metis order_less_le_trans order_refl)
qed

lemma flat_split:
  assumes ok: "sets_ok sets" and k: "k < length sets" "offset sets k \<le> i" "i < offset sets (Suc k)"
  shows "flat_items sets ! nat i = (fst (sets ! k), item_at (snd (sets ! k)) (i - offset sets k))"
    and "i < int (length (flat_items sets))"
proof -
  let ?f = "\<lambda>(k, s). map (\<lambda>j. (k, item_at s j)) (arange 0 (is_length s))"
  have split: "flat_items sets = flat_items (take k sets) @ ?f (sets ! k) @ flat_items (drop (Suc k) sets)"
    using id_take_nth_drop [OF k(1)] unfolding flat_items_def
    by (metis (no_types, lifting) concat.simps(2) concat_append list.simps(9) map_append)
  have "sets_ok (take k sets)"
    using ok by (auto simp: sets_ok_def dest: in_set_takeD simp flip: take_map)
  then have pre: "int (length (flat_items (take k sets))) = offset sets k"
    using length_flat [of "take k sets"] k(1) by (simp add: offset_def min_def)
  have len: "int (length (?f (sets ! k))) = offset sets (Suc k) - offset sets k"
    using offset_Suc [OF k(1)] length_nonneg [OF ok k(1)] by (simp add: case_prod_unfold)
  have i: "nat i = length (flat_items (take k sets)) + nat (i - offset sets k)" "nat (i - offset sets k) < length (?f (sets ! k))"
    using pre len k by linarith+
  show "flat_items sets ! nat i = (fst (sets ! k), item_at (snd (sets ! k)) (i - offset sets k))"
    unfolding split i(1) nth_append_length_plus using i(2) k
    by (simp add: nth_append case_prod_unfold)
  show "i < int (length (flat_items sets))" unfolding split using i pre k by simp
qed

lemma search_right_owner:
  assumes h: "hetero_ok L sets h" and k: "k < length sets" "offset sets k \<le> i" "i < offset sets (Suc k)"
  shows "il_search_right L (hi_offsets h) i - 1 = int k"
proof -
  have ok: "sets_ok sets" using h by (simp add: hetero_ok_def)
  have sorted: "sorted (hi_offsets h)"
    using offset_mono [OF ok] by (auto simp: hetero_fields [OF h] sorted_iff_nth_mono simp del: upt_Suc)
  have "insertion_right (hi_offsets h) i (int (Suc k))"
    using k sorted by (intro insertion_right_bucket) (auto simp: hetero_fields [OF h] simp del: upt_Suc)
  moreover have "insertion_right (hi_offsets h) i (il_search_right L (hi_offsets h) i)"
    using h sorted by (simp add: hetero_ok_def item_lib_ok_def)
  ultimately have "il_search_right L (hi_offsets h) i = int (Suc k)" using insertion_right_unique by blast
  then show ?thesis by simp
qed

lemma hetero_lookup:
  assumes h: "hetero_ok L sets h" and k: "k < length sets"
  shows "py_index (hi_keys h) (int k) = Inr (fst (sets ! k))" "dict_get (hi_itemsets h) (fst (sets ! k)) = Inr (snd (sets ! k))"
    "py_index (hi_offsets h) (int k) = Inr (offset sets k)" "py_index (hi_offsets h) (int k + 1) = Inr (offset sets (Suc k))"
    "item_set_ok (snd (sets ! k))"
proof -
  have ok: "distinct (map fst sets)" "\<forall>(_, s) \<in> set sets. item_set_ok s" using h by (simp_all add: hetero_ok_def sets_ok_def)
  show "py_index (hi_keys h) (int k) = Inr (fst (sets ! k))" "py_index (hi_offsets h) (int k) = Inr (offset sets k)"
    using k by (simp_all add: hetero_fields [OF h] del: upt_Suc)
  show "py_index (hi_offsets h) (int k + 1) = Inr (offset sets (Suc k))"
    using k py_index_of_nat [of "Suc k" "hi_offsets h"] by (simp add: hetero_fields [OF h] add.commute del: upt_Suc)
  show "dict_get (hi_itemsets h) (fst (sets ! k)) = Inr (snd (sets ! k))"
    using ok(1) k by (simp add: hetero_fields [OF h] map_of_is_SomeI)
  show "item_set_ok (snd (sets ! k))" using ok(2) nth_mem [OF k] by (auto simp: case_prod_unfold)
qed

section \<open>Slices\<close>

lemma slice_concat:
  "take (b - a) (drop a (concat xss)) =
    concat (map (\<lambda>i. take (b - length (concat (take i xss)) - (a - length (concat (take i xss))))
      (drop (a - length (concat (take i xss))) (xss ! i))) [0..<length xss])"
proof (induction xss rule: rev_induct)
  case (snoc T xss)
  let ?Z = "concat xss"
  have "take (b - a) (drop a (?Z @ T)) = take (b - a) (drop a ?Z) @ take (b - length ?Z - (a - length ?Z)) (drop (a - length ?Z) T)"
    by (cases "a \<le> length ?Z") simp_all
  moreover have "concat (map (\<lambda>i. take (b - length (concat (take i (xss @ [T]))) - (a - length (concat (take i (xss @ [T])))))
        (drop (a - length (concat (take i (xss @ [T])))) ((xss @ [T]) ! i))) [0..<length xss]) =
      concat (map (\<lambda>i. take (b - length (concat (take i xss)) - (a - length (concat (take i xss))))
        (drop (a - length (concat (take i xss))) (xss ! i))) [0..<length xss])"
    by (intro arg_cong [where f = concat] map_cong refl) (simp add: nth_append)
  ultimately show ?case using snoc by simp
qed simp

text \<open>The part of a slice that lies in the \<open>k\<close>-th item set, as the code takes it.\<close>

definition slice_in :: "(string \<times> 'a item_set) list \<Rightarrow> int \<Rightarrow> int \<Rightarrow> nat \<Rightarrow> int list" where
  "slice_in sets a b k =
     (let n = is_length (snd (sets ! k)); off = offset sets k in arange (min n (max 0 (a - off))) (min n (b - off)))"

definition slice_entry :: "(string \<times> 'a item_set) list \<Rightarrow> int \<Rightarrow> int \<Rightarrow> nat \<Rightarrow> string \<times> 'a item_value" where
  "slice_entry sets a b k = (fst (sets ! k), items_at (snd (sets ! k)) (slice_in sets a b k))"

lemma arange_slice: "0 \<le> n \<Longrightarrow> take (q - p) (drop p (arange 0 n)) = arange (min n (int p)) (min n (int q))"
proof (rule nth_equalityI)
  show "length (take (q - p) (drop p (arange 0 n))) = length (arange (min n (int p)) (min n (int q)))" by auto
  fix i
  assume "i < length (take (q - p) (drop p (arange 0 n)))"
  then have i: "i < q - p" "int (p + i) < n" by auto
  then have "arange (min n (int p)) (min n (int q)) ! i = int p + int i" by (subst arange_nth) auto
  then show "take (q - p) (drop p (arange 0 n)) ! i = arange (min n (int p)) (min n (int q)) ! i" using i by simp
qed

lemma flat_slice:
  assumes ok: "sets_ok sets" and a: "0 \<le> a" "0 \<le> b"
  shows "take (nat b - nat a) (drop (nat a) (flat_items sets)) =
    concat (map (\<lambda>k. map (\<lambda>j. (fst (sets ! k), item_at (snd (sets ! k)) j)) (slice_in sets a b k)) [0..<length sets])"
proof -
  let ?f = "\<lambda>(k, s). map (\<lambda>j. (k, item_at s j)) (arange 0 (is_length s))"
  have "take (nat b - nat (offset sets k) - (nat a - nat (offset sets k))) (drop (nat a - nat (offset sets k)) (?f (sets ! k))) =
      map (\<lambda>j. (fst (sets ! k), item_at (snd (sets ! k)) j)) (slice_in sets a b k)" if k: "k < length sets" for k
  proof -
    let ?n = "is_length (snd (sets ! k))" and ?off = "offset sets k"
    have nn: "0 \<le> ?n" "0 \<le> ?off" using length_nonneg [OF ok k] offset_mono [OF ok, of 0 k] k by simp_all
    have bounds: "int (nat a - nat ?off) = max 0 (a - ?off)" "int (nat b - nat ?off) = max 0 (b - ?off)"
      using nn a by simp_all
    have "take (nat b - nat ?off - (nat a - nat ?off)) (drop (nat a - nat ?off) (arange 0 ?n)) =
        arange (min ?n (max 0 (a - ?off))) (min ?n (max 0 (b - ?off)))"
      using arange_slice [OF nn(1), of "nat b - nat ?off" "nat a - nat ?off"] unfolding bounds .
    also have "arange (min ?n (max 0 (a - ?off))) (min ?n (max 0 (b - ?off))) = slice_in sets a b k"
      using nn by (cases "b \<le> ?off") (simp_all add: slice_in_def Let_def arange_def)
    finally show ?thesis by (simp add: case_prod_unfold take_map drop_map)
  qed
  moreover have "length (concat (take k (map ?f sets))) = nat (offset sets k)" if "k < length sets" for k
  proof -
    have "sets_ok (take k sets)" using ok by (auto simp: sets_ok_def dest: in_set_takeD simp flip: take_map)
    then have "int (length (flat_items (take k sets))) = offset sets k"
      using length_flat [of "take k sets"] that by (simp add: offset_def min_def)
    then show ?thesis by (simp add: flat_items_def take_map)
  qed
  ultimately show ?thesis unfolding flat_items_def slice_concat
    by (intro arg_cong [where f = concat] map_cong) auto
qed

lemma unbatch_entry:
  assumes "item_set_ok (snd (sets ! k))"
  shows "(case slice_entry sets a b k of (key, v) \<Rightarrow> map (Pair key) (unbatch v)) =
    map (\<lambda>j. (fst (sets ! k), item_at (snd (sets ! k)) j)) (slice_in sets a b k)"
  using assms by (simp add: slice_entry_def unbatch_items)

lemma hetero_slice_run:
  assumes h: "hetero_ok L sets h" and ab: "0 \<le> a" "a < b" "b \<le> offset sets (length sets)"
    and k: "k \<le> length sets" "k < length sets \<longrightarrow> offset sets k < b" and data: "fst ` set data \<subseteq> fst ` set (take k sets)"
  shows "\<exists>m. k \<le> m \<and> (k < length sets \<longrightarrow> k < m) \<and> m \<le> length sets \<and> b \<le> offset sets m \<and>
    hetero_slice h a b (arange (int k + 1) (int (length sets) + 1)) data = Inr (data @ map (slice_entry sets a b) [k..<m])"
  using k data
proof (induction "length sets - k" arbitrary: k data)
  case 0
  then have "k = length sets" by simp
  then show ?case using ab by (intro exI [of _ k]) (simp add: arange_def)
next
  case (Suc d)
  have kT: "k < length sets" using Suc.hyps(2) by simp
  note look = hetero_lookup [OF h kT]
  have off: "offset sets k < b" using Suc.prems(2) kT by simp
  have idxs: "arange (int k + 1) (int (length sets) + 1) = (int k + 1) # arange (int (Suc k) + 1) (int (length sets) + 1)"
    using kT by (simp add: arange_def upto_rec1 algebra_simps)
  have item: "item_set_getitem (snd (sets ! k)) (Idx_slice (Some (max 0 (a - offset sets k))) (Some (b - offset sets k)) None) =
      Inr (snd (slice_entry sets a b k))"
    using getitem_slice [OF look(5), of "max 0 (a - offset sets k)" "b - offset sets k"] ab off
    by (simp add: slice_entry_def slice_in_def Let_def)
  have "fst (sets ! k) \<notin> fst ` set (take k sets)"
  proof -
    have "distinct (map fst sets)" using h by (simp add: hetero_ok_def sets_ok_def)
    then have "distinct (map fst (take (Suc k) sets))" by (simp flip: take_map)
    then show ?thesis using kT by (simp add: take_Suc_conv_app_nth)
  qed
  then have upd: "AList.update (fst (sets ! k)) (snd (slice_entry sets a b k)) data = data @ [slice_entry sets a b k]"
    using Suc.prems(3) by (subst update_fresh) (auto simp: slice_entry_def)
  have step: "hetero_slice h a b (arange (int k + 1) (int (length sets) + 1)) data =
      (if b \<le> offset sets (Suc k) then Inr (data @ [slice_entry sets a b k])
       else hetero_slice h a b (arange (int (Suc k) + 1) (int (length sets) + 1)) (data @ [slice_entry sets a b k]))"
    unfolding idxs by (simp add: look(1-4) item upd)
  show ?case
  proof (cases "b \<le> offset sets (Suc k)")
    case True
    then show ?thesis using kT step by (intro exI [of _ "Suc k"]) simp
  next
    case False
    have "fst ` set (data @ [slice_entry sets a b k]) \<subseteq> fst ` set (take (Suc k) sets)"
      using Suc.prems(3) kT by (auto simp: slice_entry_def take_Suc_conv_app_nth)
    moreover have "d = length sets - Suc k" "Suc k \<le> length sets" "Suc k < length sets \<longrightarrow> offset sets (Suc k) < b"
      using Suc.hyps(2) kT False by auto
    ultimately have "\<exists>m. Suc k \<le> m \<and> (Suc k < length sets \<longrightarrow> Suc k < m) \<and> m \<le> length sets \<and> b \<le> offset sets m \<and>
        hetero_slice h a b (arange (int (Suc k) + 1) (int (length sets) + 1)) (data @ [slice_entry sets a b k]) =
        Inr ((data @ [slice_entry sets a b k]) @ map (slice_entry sets a b) [Suc k..<m])" by (intro Suc.hyps(1))
    then obtain m where m: "Suc k \<le> m" "m \<le> length sets" "b \<le> offset sets m"
      "hetero_slice h a b (arange (int (Suc k) + 1) (int (length sets) + 1)) (data @ [slice_entry sets a b k]) =
        Inr ((data @ [slice_entry sets a b k]) @ map (slice_entry sets a b) [Suc k..<m])" by blast
    then show ?thesis using step False by (intro exI [of _ m]) (simp add: upt_conv_Cons)
  qed
qed

text \<open>Where the loop starts: the first offset that is not below the start of the slice.\<close>

lemma slice_start:
  assumes h: "hetero_ok L sets h" and ab: "0 \<le> a" "a < b" "b \<le> offset sets (length sets)"
  obtains k where "max 1 (il_search_left L (hi_offsets h) a) = int k + 1" "k < length sets" "offset sets k < b"
    "\<And>j. j < k \<Longrightarrow> offset sets (Suc j) < a" "k = 0 \<or> offset sets k < a" "a \<le> offset sets (Suc k)"
proof -
  have ok: "sets_ok sets" using h by (simp add: hetero_ok_def)
  let ?i = "il_search_left L (hi_offsets h) a"
  have "sorted (hi_offsets h)"
    using offset_mono [OF ok] by (auto simp: hetero_fields [OF h] sorted_iff_nth_mono simp del: upt_Suc)
  then have i: "insertion_left (hi_offsets h) a ?i" using h by (simp add: hetero_ok_def item_lib_ok_def)
  have less: "offset sets j < a" if "j < nat ?i" "j \<le> length sets" for j
    using i that by (auto simp: insertion_left_def hetero_fields [OF h] simp del: upt_Suc)
  have ge: "a \<le> offset sets j" if "nat ?i \<le> j" "j \<le> length sets" for j
    using i that by (auto simp: insertion_left_def hetero_fields [OF h] simp del: upt_Suc)
  have iT: "nat ?i \<le> length sets"
  proof (rule ccontr)
    assume "\<not> nat ?i \<le> length sets"
    then show False using less [of "length sets"] ab by simp
  qed
  have T: "0 < length sets" using ab by (cases sets) auto
  have nn: "0 \<le> ?i" using i by (simp add: insertion_left_def)
  show thesis
  proof (rule that [of "nat ?i - 1"])
    show "max 1 ?i = int (nat ?i - 1) + 1" using nn by linarith
    show "nat ?i - 1 < length sets" using iT T by linarith
    show "offset sets (nat ?i - 1) < b"
    proof (cases "nat ?i = 0")
      case False
      then have "nat ?i - 1 < nat ?i" "nat ?i - 1 \<le> length sets" using iT by linarith+
      from less [OF this] show ?thesis using ab by linarith
    qed (use ab in simp)
    show "offset sets (Suc j) < a" if "j < nat ?i - 1" for j using less [of "Suc j"] that iT by simp
    show "nat ?i - 1 = 0 \<or> offset sets (nat ?i - 1) < a" using less [of "nat ?i - 1"] iT by (cases "nat ?i - 1") auto
    show "a \<le> offset sets (Suc (nat ?i - 1))" using ge [of "Suc (nat ?i - 1)"] iT T by (cases "nat ?i") auto
  qed
qed

lemma hetero_slice_result:
  assumes h: "hetero_ok L sets h" and ab: "0 \<le> a" "a < b" "b \<le> offset sets (length sets)"
    and s: "slice_indices start stop None (hi_length h) = Inr (a, b, 1)"
  obtains k m where "hetero_getitem L h (Idx_slice start stop None) = Inr (map (slice_entry sets a b) [k..<m])"
    "k < m" "m \<le> length sets" "b \<le> offset sets m" "\<And>j. j < k \<Longrightarrow> offset sets (Suc j) < a"
    "k = 0 \<or> offset sets k < a" "a \<le> offset sets (Suc k)"
proof -
  obtain k where k: "max 1 (il_search_left L (hi_offsets h) a) = int k + 1" "k < length sets" "offset sets k < b"
    "\<And>j. j < k \<Longrightarrow> offset sets (Suc j) < a" "k = 0 \<or> offset sets k < a" "a \<le> offset sets (Suc k)"
    using slice_start [OF h ab] by metis
  obtain m where m: "k < m" "m \<le> length sets" "b \<le> offset sets m"
      "hetero_slice h a b (arange (int k + 1) (int (length sets) + 1)) [] = Inr (map (slice_entry sets a b) [k..<m])"
    using hetero_slice_run [OF h ab, of k "[]"] k(2,3) by auto
  have "hetero_getitem L h (Idx_slice start stop None) = Inr (map (slice_entry sets a b) [k..<m])"
    using s ab(2) m(4) k(1) by (simp add: hetero_getitem_def Let_def hetero_fields(2) [OF h] add.commute del: upt_Suc)
  then show thesis using that k m by blast
qed

section \<open>Positions\<close>

text \<open>The positions of a request that the \<open>k\<close>-th item set owns.\<close>

definition owned :: "(string \<times> 'a item_set) list \<Rightarrow> int list \<Rightarrow> nat \<Rightarrow> int list" where
  "owned sets ids k = filter (\<lambda>i. offset sets k \<le> i \<and> i < offset sets (Suc k)) ids"

definition ids_entry :: "(string \<times> 'a item_set) list \<Rightarrow> int list \<Rightarrow> nat \<Rightarrow> string \<times> 'a item_value" where
  "ids_entry sets ids k = (fst (sets ! k), items_at (snd (sets ! k)) (map (\<lambda>i. i - offset sets k) (owned sets ids k)))"

lemma enumerate_upt: "enumerate 0 xs = map (\<lambda>k. (k, xs ! k)) [0..<length xs]"
  by (rule nth_equalityI) (simp_all add: nth_enumerate_eq)

lemma segment_owner_unique:
  assumes ok: "sets_ok sets" and j: "j < length sets" "offset sets j \<le> i" "i < offset sets (Suc j)"
    and k: "k < length sets" "offset sets k \<le> i" "i < offset sets (Suc k)"
  shows "j = k"
proof (rule ccontr)
  assume "j \<noteq> k"
  then consider "Suc j \<le> k" | "Suc k \<le> j" by linarith
  then show False
  proof cases
    case 1
    then show False using offset_mono [OF ok, of "Suc j" k] j k by linarith
  next
    case 2
    then show False using offset_mono [OF ok, of "Suc k" j] j k by linarith
  qed
qed

lemma hetero_ids_result:
  assumes h: "hetero_ok L sets h" and ids: "\<forall>i \<in> set ids. 0 \<le> i \<and> i < offset sets (length sets)"
  shows "hetero_ids L h ids = Inr (map (ids_entry sets ids) (filter (\<lambda>k. owned sets ids k \<noteq> []) [0..<length sets]))"
proof -
  have ok: "sets_ok sets" using h by (simp add: hetero_ok_def)
  have own: "(il_search_right L (hi_offsets h) i - 1 = int k) = (offset sets k \<le> i \<and> i < offset sets (Suc k))"
    if i: "i \<in> set ids" and k: "k < length sets" for i k
  proof -
    obtain j where j: "j < length sets" "offset sets j \<le> i" "i < offset sets (Suc j)"
      using owner_exists [OF ok, of i] ids i by blast
    show ?thesis using search_right_owner [OF h j] segment_owner_unique [OF ok j k] j by auto
  qed
  have mine: "map fst (filter (\<lambda>(_, q). q = int k) (zip ids (map (\<lambda>i. il_search_right L (hi_offsets h) i - 1) ids))) = owned sets ids k"
    if k: "k < length sets" for k
  proof -
    have "map fst (filter (\<lambda>(_, q). q = int k) (zip xs (map f xs))) = filter (\<lambda>i. f i = int k) xs" for f and xs :: "int list"
      by (induction xs) auto
    then show ?thesis using own [OF _ k] by (auto simp: owned_def intro: filter_cong)
  qed
  let ?f = "\<lambda>data (key_id, key).
       let mask_ids = map fst (filter (\<lambda>(_, k). k = int key_id) (zip ids (map (\<lambda>i. il_search_right L (hi_offsets h) i - 1) ids))) in
       if mask_ids = [] then Inr data
       else rbind (dict_get (hi_itemsets h) key) (\<lambda>s.
            rbind (py_index (hi_offsets h) (int key_id)) (\<lambda>off.
            rbind (item_set_getitem s (Idx_ids (map (\<lambda>i. i - off) mask_ids))) (\<lambda>v.
            Inr (AList.update key v data))))"
  have "n \<le> length sets \<Longrightarrow> rfold ?f [] (map (\<lambda>k. (k, map fst sets ! k)) [0..<n]) =
      Inr (map (ids_entry sets ids) (filter (\<lambda>k. owned sets ids k \<noteq> []) [0..<n]))" for n
  proof (induction n)
    case (Suc n)
    let ?data = "map (ids_entry sets ids) (filter (\<lambda>k. owned sets ids k \<noteq> []) [0..<n])"
    have n: "n < length sets" using Suc.prems by simp
    note look = hetero_lookup [OF h n]
    have "\<forall>j \<in> set (map (\<lambda>i. i - offset sets n) (owned sets ids n)). 0 \<le> j \<and> j < is_length (snd (sets ! n))"
      using offset_Suc [OF n] by (auto simp: owned_def)
    note item = getitem_ids [OF look(5) this]
    have "fst (sets ! n) \<notin> fst ` set ?data"
    proof
      assume "fst (sets ! n) \<in> fst ` set ?data"
      then obtain j where "j < n" "fst (sets ! j) = fst (sets ! n)" by (auto simp: ids_entry_def)
      moreover have "distinct (map fst sets)" using ok by (simp add: sets_ok_def)
      ultimately show False using n nth_eq_iff_index_eq [of "map fst sets" j n] by simp
    qed
    then have "AList.update (fst (sets ! n)) (snd (ids_entry sets ids n)) ?data = ?data @ [ids_entry sets ids n]"
      by (subst update_fresh) (auto simp: ids_entry_def)
    then have "?f ?data (n, map fst sets ! n) =
        Inr (if owned sets ids n = [] then ?data else ?data @ [ids_entry sets ids n])"
      apply (simp only: prod.case mine [OF n] Let_def)
      using n item by (simp add: look(2,3) ids_entry_def)
    moreover have "map (\<lambda>k. (k, map fst sets ! k)) [0..<Suc n] = map (\<lambda>k. (k, map fst sets ! k)) [0..<n] @ [(n, map fst sets ! n)]"
      by simp
    moreover have "rfold ?f [] (map (\<lambda>k. (k, map fst sets ! k)) [0..<n]) = Inr ?data" using Suc by (simp only: Suc_leD)
    ultimately have "rfold ?f [] (map (\<lambda>k. (k, map fst sets ! k)) [0..<Suc n]) =
        Inr (if owned sets ids n = [] then ?data else ?data @ [ids_entry sets ids n])"
      by (simp only: rfold_append rbind_simps rfold.simps)
    then show ?case by simp
  qed simp
  from this [of "length sets"] show ?thesis
    using ids by (simp add: hetero_ids_def Let_def hetero_fields(3,4) [OF h] enumerate_upt)
qed

lemma unbatch_ids:
  assumes h: "hetero_ok L sets h" and k: "k < length sets"
  shows "(case ids_entry sets ids k of (key, v) \<Rightarrow> map (Pair key) (unbatch v)) =
    map (\<lambda>i. flat_items sets ! nat i) (owned sets ids k)"
proof -
  have "sets_ok sets" using h by (simp add: hetero_ok_def)
  from flat_split(1) [OF this k] show ?thesis
    using hetero_lookup(5) [OF h k] by (auto simp: ids_entry_def unbatch_items owned_def)
qed

lemma owned_by_type:
  assumes ok: "sets_ok sets" and ids: "\<forall>i \<in> set ids. 0 \<le> i \<and> i < offset sets (length sets)"
  shows "filter (\<lambda>x. fst x = key) (concat (map (\<lambda>k. map (\<lambda>i. flat_items sets ! nat i) (owned sets ids k)) [0..<length sets])) =
    filter (\<lambda>x. fst x = key) (map (\<lambda>i. flat_items sets ! nat i) ids)"
proof -
  let ?F = "\<lambda>i. flat_items sets ! nat i"
  have own: "fst (?F i) = fst (sets ! k)" if "i \<in> set (owned sets ids k)" "k < length sets" for i k
    using flat_split(1) [OF ok that(2)] that(1) by (simp add: owned_def)
  have part: "filter (\<lambda>x. fst x = key) (map ?F (owned sets ids k)) =
      (if fst (sets ! k) = key then map ?F (owned sets ids k) else [])" if "k < length sets" for k
    using own [OF _ that] by (auto simp: filter_empty_conv intro: filter_True)
  have "filter (\<lambda>x. fst x = key) (concat (map (\<lambda>k. map ?F (owned sets ids k)) [0..<length sets])) =
      concat (map (\<lambda>k. if fst (sets ! k) = key then map ?F (owned sets ids k) else []) [0..<length sets])"
    unfolding filter_concat map_map using part by (intro arg_cong [where f = concat] map_cong) auto
  also have "\<dots> = filter (\<lambda>x. fst x = key) (map ?F ids)"
  proof (cases "key \<in> fst ` set sets")
    case True
    then obtain k where k: "k < length sets" "fst (sets ! k) = key" by (metis imageE in_set_conv_nth)
    have unique: "(fst (sets ! j) = key) = (j = k)" if "j < length sets" for j
      using ok that k nth_eq_iff_index_eq [of "map fst sets" j k] by (auto simp: sets_ok_def)
    have "concat (map (\<lambda>j. if fst (sets ! j) = key then map ?F (owned sets ids j) else []) [0..<length sets]) =
        concat (map (\<lambda>j. if j = k then map ?F (owned sets ids k) else []) [0..<length sets])"
      using unique by (intro arg_cong [where f = concat] map_cong) auto
    also have "\<dots> = map ?F (owned sets ids k)"
    proof -
      have "concat (map (\<lambda>j. if j = k then xs else []) [0..<n]) = (if k < n then xs else [])" for n and xs :: "(string \<times> 'a item_value) list"
        by (induction n) auto
      then show ?thesis using k(1) by simp
    qed
    also have "\<dots> = filter (\<lambda>x. fst x = key) (map ?F ids)"
    proof -
      have "(fst (?F i) = key) = (offset sets k \<le> i \<and> i < offset sets (Suc k))" if i: "i \<in> set ids" for i
      proof -
        obtain j where j: "j < length sets" "offset sets j \<le> i" "i < offset sets (Suc j)"
          using owner_exists [OF ok, of i] ids i by blast
        then show ?thesis using flat_split(1) [OF ok j] unique [OF j(1)] segment_owner_unique [OF ok j k(1)] by auto
      qed
      then have "filter (\<lambda>i. fst (?F i) = key) ids = owned sets ids k" unfolding owned_def by (intro filter_cong) auto
      then show ?thesis by (simp add: filter_map comp_def)
    qed
    finally show ?thesis .
  next
    case False
    have "fst (?F i) \<noteq> key" if i: "i \<in> set ids" for i
    proof -
      obtain j where j: "j < length sets" "offset sets j \<le> i" "i < offset sets (Suc j)"
        using owner_exists [OF ok, of i] ids i by blast
      then show ?thesis using flat_split(1) [OF ok j] False nth_mem [OF j(1)] by auto
    qed
    moreover have "fst (sets ! k) \<noteq> key" if "k < length sets" for k using False nth_mem [OF that] by auto
    ultimately show ?thesis by (auto simp: filter_empty_conv)
  qed
  finally show ?thesis .
qed

section \<open>Properties\<close>

text \<open>A \<open>HeteroItemSet\<close> is indexed like the list of its items, type by type: \<open>h[i]\<close> is the item at position \<open>i\<close> under
  the name of its type, a negative position counts from the end, and any other position raises \<open>IndexError\<close>.\<close>

theorem hetero_getitem_position:
  assumes "hetero_ok L sets h"
  shows "hetero_getitem L h (Idx i) = rbind (py_index (flat_items sets) i) (\<lambda>x. Inr [x])"
proof -
  have ok: "sets_ok sets" using assms by (simp add: hetero_ok_def)
  let ?n = "offset sets (length sets)"
  have n: "int (length (flat_items sets)) = ?n" by (rule length_flat [OF ok])
  define i' where "i' = (if i < 0 then i + ?n else i)"
  let ?k = "il_search_right L (hi_offsets h) i' - 1"
  have eq: "hetero_getitem L h (Idx i) = rbind (rassert (\<not> (i' < 0 \<or> ?n \<le> i')) IndexError) (\<lambda>_.
      rbind (py_index (hi_offsets h) ?k) (\<lambda>off. rbind (py_index (hi_keys h) ?k) (\<lambda>key.
      rbind (dict_get (hi_itemsets h) key) (\<lambda>s. rbind (item_set_getitem s (Idx_tensor (i' - off))) (\<lambda>v. Inr [(key, v)])))))"
    by (simp only: hetero_getitem_def item_index.case Let_def hetero_fields(3) [OF assms] i'_def)
  show ?thesis
  proof (cases "0 \<le> i' \<and> i' < ?n")
    case True
    then obtain k where k: "k < length sets" "offset sets k \<le> i'" "i' < offset sets (Suc k)"
      using owner_exists [OF ok] by blast
    note look = hetero_lookup [OF assms k(1)]
    have "item_set_getitem (snd (sets ! k)) (Idx_tensor (i' - offset sets k)) = Inr (item_at (snd (sets ! k)) (i' - offset sets k))"
      using k offset_Suc [OF k(1)] by (intro getitem_one look(5)) auto
    then have "hetero_getitem L h (Idx i) = Inr [(fst (sets ! k), item_at (snd (sets ! k)) (i' - offset sets k))]"
      using True by (simp add: eq search_right_owner [OF assms k] look)
    moreover have "py_index (flat_items sets) i = Inr (flat_items sets ! nat i')"
      using True n by (cases "i < 0") (simp_all add: py_index_def Let_def i'_def)
    ultimately show ?thesis using flat_split(1) [OF ok k] by simp
  next
    case False
    then have "hetero_getitem L h (Idx i) = Inl IndexError" by (auto simp: eq)
    moreover have "py_index (flat_items sets) i = Inl IndexError" using False n by (cases "i < 0") (simp_all add: py_index_def Let_def i'_def)
    ultimately show ?thesis by simp
  qed
qed

text \<open>C30. A slice of a \<open>HeteroItemSet\<close> with step one holds exactly the items of that slice of the list, type by type and
  in order; an empty slice raises \<open>AssertionError\<close>.\<close>

theorem hetero_getitem_slice:
  assumes "hetero_ok L sets h"
    and "slice_indices start stop None (int (length (flat_items sets))) = Inr (a, b, 1)" and "0 \<le> a" and "b \<le> int (length (flat_items sets))"
  shows "if a < b then \<exists>d. hetero_getitem L h (Idx_slice start stop None) = Inr d \<and>
      flat_batches d = take (nat b - nat a) (drop (nat a) (flat_items sets))
    else hetero_getitem L h (Idx_slice start stop None) = Inl AssertionError"
proof -
  have ok: "sets_ok sets" using assms by (simp add: hetero_ok_def)
  have n: "int (length (flat_items sets)) = offset sets (length sets)" by (rule length_flat [OF ok])
  have s: "slice_indices start stop None (hi_length h) = Inr (a, b, 1)"
    using assms(2) by (simp add: n hetero_fields(3) [OF assms(1)])
  show ?thesis
  proof (cases "a < b")
    case True
    obtain k m where r: "hetero_getitem L h (Idx_slice start stop None) = Inr (map (slice_entry sets a b) [k..<m])"
      "k < m" "m \<le> length sets" "b \<le> offset sets m" "\<And>j. j < k \<Longrightarrow> offset sets (Suc j) < a"
      using hetero_slice_result [OF assms(1,3) True _ s] assms(4) n by metis
    let ?g = "\<lambda>k. map (\<lambda>j. (fst (sets ! k), item_at (snd (sets ! k)) j)) (slice_in sets a b k)"
    have low: "slice_in sets a b j = []" if "j < k" for j
      using r(5) [OF that] r(2,3) that offset_Suc [of j sets] by (simp add: slice_in_def Let_def arange_def)
    have high: "slice_in sets a b j = []" if "m \<le> j" "j < length sets" for j
      using offset_mono [OF ok that(1)] r(4) that length_nonneg [OF ok that(2)] by (simp add: slice_in_def Let_def arange_def)
    have "(case slice_entry sets a b j of (key, v) \<Rightarrow> map (Pair key) (unbatch v)) = ?g j" if "j < m" for j
      using unbatch_entry [OF hetero_lookup(5) [OF assms(1)]] r(3) that by simp
    then have "flat_batches (map (slice_entry sets a b) [k..<m]) = concat (map ?g [k..<m])"
      unfolding flat_batches_def map_map by (intro arg_cong [where f = concat] map_cong) auto
    also have "\<dots> = concat (map ?g ([0..<k] @ [k..<m] @ [m..<length sets]))"
    proof -
      have A: "concat (map ?g [0..<k]) = []" and B: "concat (map ?g [m..<length sets]) = []" using low high by auto
      show ?thesis by (simp only: map_append concat_append A B append_Nil append_Nil2)
    qed
    also have "[0..<k] @ [k..<m] @ [m..<length sets] = [0..<length sets]"
      using r(2,3) by (simp add: upt_append)
    also have "concat (map ?g [0..<length sets]) = take (nat b - nat a) (drop (nat a) (flat_items sets))"
      using flat_slice [OF ok assms(3), of b] True assms(3) by simp
    finally show ?thesis using r(1) True by auto
  next
    case False
    then show ?thesis using s by (simp add: hetero_getitem_def)
  qed
qed

text \<open>A tensor of positions gives, for every type, the items of that type at these positions in the order of the
  positions, and nothing else; a position out of range raises \<open>AssertionError\<close>.\<close>

theorem hetero_getitem_ids:
  assumes "hetero_ok L sets h"
  shows "if \<forall>i \<in> set ids. 0 \<le> i \<and> i < int (length (flat_items sets))
    then \<exists>d. hetero_getitem L h (Idx_ids ids) = Inr d \<and> distinct (map fst d) \<and>
      (\<forall>key. filter (\<lambda>x. fst x = key) (flat_batches d) = filter (\<lambda>x. fst x = key) (map (\<lambda>i. flat_items sets ! nat i) ids))
    else hetero_getitem L h (Idx_ids ids) = Inl AssertionError"
proof -
  have ok: "sets_ok sets" using assms by (simp add: hetero_ok_def)
  have n: "int (length (flat_items sets)) = offset sets (length sets)" by (rule length_flat [OF ok])
  let ?F = "\<lambda>i. flat_items sets ! nat i" and ?ks = "filter (\<lambda>k. owned sets ids k \<noteq> []) [0..<length sets]"
  show ?thesis
  proof (cases "\<forall>i \<in> set ids. 0 \<le> i \<and> i < offset sets (length sets)")
    case True
    let ?d = "map (ids_entry sets ids) ?ks"
    have "map fst ?d = map (\<lambda>k. map fst sets ! k) ?ks" by (auto simp: ids_entry_def)
    moreover have "inj_on (\<lambda>k. map fst sets ! k) (set ?ks)"
      using ok by (intro inj_on_nth) (auto simp: sets_ok_def)
    then have "distinct (map (\<lambda>k. map fst sets ! k) ?ks)" by (simp add: distinct_map)
    ultimately have d: "distinct (map fst ?d)" by (simp only:)
    have "(case ids_entry sets ids k of (key, v) \<Rightarrow> map (Pair key) (unbatch v)) = map ?F (owned sets ids k)" if "k < length sets" for k
      using assms that by (rule unbatch_ids)
    then have "flat_batches ?d = concat (map (\<lambda>k. map ?F (owned sets ids k)) ?ks)"
      unfolding flat_batches_def map_map by (intro arg_cong [where f = concat] map_cong) auto
    also have "\<dots> = concat (map (\<lambda>k. map ?F (owned sets ids k)) [0..<length sets])"
    proof -
      have "concat (map (\<lambda>k. map ?F (owned sets ids k)) (filter (\<lambda>k. owned sets ids k \<noteq> []) ks)) =
          concat (map (\<lambda>k. map ?F (owned sets ids k)) ks)" for ks by (induction ks) auto
      then show ?thesis .
    qed
    finally have flat: "flat_batches ?d = concat (map (\<lambda>k. map ?F (owned sets ids k)) [0..<length sets])" .
    have "filter (\<lambda>x. fst x = key) (flat_batches ?d) = filter (\<lambda>x. fst x = key) (map ?F ids)" for key
      by (rule owned_by_type [OF ok True, folded flat])
    then show ?thesis using True n d hetero_ids_result [OF assms True]
      by (auto simp: hetero_getitem_def simp del: map_map)
  next
    case False
    then have A: "(\<forall>i \<in> set ids. 0 \<le> i \<and> i < offset sets (length sets)) = False" by blast
    have "hetero_ids L h ids = Inl AssertionError" unfolding hetero_ids_def hetero_fields(3) [OF assms] A by simp
    then show ?thesis unfolding n A by (simp add: hetero_getitem_def)
  qed
qed

text \<open>A slice that starts where a type starts also has an entry for the type before it, an empty batch: the loop
  begins one item set too early.\<close>

theorem hetero_slice_boundary:
  assumes "hetero_ok L sets h" and "\<forall>(_, s) \<in> set sets. 0 < is_length s" and "0 < k" and "k < length sets"
    and "offset sets k < b" and "b \<le> offset sets (length sets)"
  shows "\<exists>d. hetero_getitem L h (Idx_slice (Some (offset sets k)) (Some b) None) =
    Inr ((fst (sets ! (k - 1)), items_at (snd (sets ! (k - 1))) []) # d)"
proof -
  have ok: "sets_ok sets" using assms(1) by (simp add: hetero_ok_def)
  let ?a = "offset sets k"
  have bounds: "0 \<le> ?a" "?a \<le> offset sets (length sets)"
    using offset_mono [OF ok, of 0 k] offset_mono [OF ok, of k "length sets"] assms(4) by simp_all
  then have s: "slice_indices (Some ?a) (Some b) None (hi_length h) = Inr (?a, b, 1)"
    using assms(5,6) by (simp add: hetero_fields(3) [OF assms(1)] slice_indices_plain)
  obtain j m where r: "hetero_getitem L h (Idx_slice (Some ?a) (Some b) None) = Inr (map (slice_entry sets ?a b) [j..<m])"
    "j < m" "m \<le> length sets" "j = 0 \<or> offset sets j < ?a" "?a \<le> offset sets (Suc j)"
    using hetero_slice_result [OF assms(1) bounds(1) assms(5,6) s] by metis
  have grow: "offset sets i < offset sets (Suc i)" if "i < length sets" for i
    using offset_Suc [OF that] assms(2) nth_mem [OF that] by (auto simp: case_prod_unfold)
  have "j < k"
  proof (rule ccontr)
    assume "\<not> j < k"
    then have "offset sets k \<le> offset sets j" using offset_mono [OF ok, of k j] r(2,3) by simp
    then show False using r(4) assms(3) \<open>\<not> j < k\<close> by auto
  qed
  moreover have "k \<le> Suc j"
  proof (rule ccontr)
    assume "\<not> k \<le> Suc j"
    then have "offset sets (Suc j) < offset sets (Suc (Suc j))" "offset sets (Suc (Suc j)) \<le> offset sets k"
      using grow [of "Suc j"] offset_mono [OF ok, of "Suc (Suc j)" k] assms(4) by simp_all
    then show False using r(5) by linarith
  qed
  ultimately have k: "k = Suc j" by linarith
  have "slice_in sets ?a b j = []"
    using offset_Suc [of j sets] length_nonneg [OF ok, of j] assms(4) by (simp add: k slice_in_def Let_def arange_def)
  then show ?thesis using r(1,2) by (auto simp: upt_conv_Cons slice_entry_def k)
qed

section \<open>Two types\<close>

definition example_item_lib :: item_lib where
  "example_item_lib = \<lparr>il_cumsum = prefix_sums, il_search_right = (\<lambda>a v. int (length (filter (\<lambda>x. x \<le> v) a))),
     il_search_left = (\<lambda>a v. int (length (filter (\<lambda>x. x < v) a)))\<rparr>"

definition example_sets :: "(string \<times> int item_set) list" where
  "example_sets =
     [(''user'', \<lparr>is_length = 3, is_items = Stored_tuple [[10, 11, 12], [0, 1, 0]], is_num_items = 2,
         is_names = Some [''seeds'', ''labels'']\<rparr>),
      (''item'', \<lparr>is_length = 2, is_items = Stored_tuple [[20, 21], [1, 1]], is_num_items = 2,
         is_names = Some [''seeds'', ''labels'']\<rparr>)]"

definition example_hetero :: "int hetero_item_set" where
  "example_hetero = \<lparr>hi_itemsets = example_sets, hi_names = Some [''seeds'', ''labels''], hi_offsets = [0, 3, 5],
     hi_length = 5, hi_keys = [''user'', ''item'']\<rparr>"

lemma example_item_lib_ok: "item_lib_ok example_item_lib"
proof -
  have "insertion_left a v (int (length (filter (\<lambda>x. x < v) a)))" if "sorted a" for a v
  proof -
    have "filter (\<lambda>x. x < v) a = filter (\<lambda>x. x \<le> v - 1) a" by (rule filter_cong) auto
    moreover have "insertion_left a v i" if "insertion_right a (v - 1) i" for i
      using that by (fastforce simp: insertion_left_def insertion_right_def)
    ultimately show ?thesis using filter_le_sorted [OF that, of "v - 1"] by simp
  qed
  then show ?thesis using filter_le_sorted by (simp add: item_lib_ok_def example_item_lib_def)
qed

lemma example_hetero_ok: "hetero_ok example_item_lib example_sets example_hetero"
proof -
  have "hetero_item_set_init example_item_lib example_sets = Inr example_hetero"
    by (simp add: hetero_item_set_init_def example_sets_def example_hetero_def example_item_lib_def item_set_len_def
        prefix_sums_def Let_def py_index_def)
  moreover have "sets_ok example_sets" by (simp add: sets_ok_def item_set_ok_def example_sets_def)
  ultimately show ?thesis using example_item_lib_ok by (simp add: hetero_ok_def)
qed

lemma example_flat: "flat_items example_sets =
    [(''user'', Tuple_value [One 10, One 0]), (''user'', Tuple_value [One 11, One 1]), (''user'', Tuple_value [One 12, One 0]),
     (''item'', Tuple_value [One 20, One 1]), (''item'', Tuple_value [One 21, One 1])]"
  by (simp add: flat_items_def example_sets_def item_at_def arange_def upto_rec1)

theorem hetero_getitem_position_witness:
  "hetero_getitem example_item_lib example_hetero (Idx (- 2)) = Inr [(''item'', Tuple_value [One 20, One 1])]"
  using hetero_getitem_position [OF example_hetero_ok, of "- 2"] by (simp add: example_flat py_index_def)

theorem hetero_getitem_slice_witness:
  "\<exists>d. hetero_getitem example_item_lib example_hetero (Idx_slice (Some 2) (Some 4) None) = Inr d \<and>
    flat_batches d = [(''user'', Tuple_value [One 12, One 0]), (''item'', Tuple_value [One 20, One 1])]"
  using hetero_getitem_slice [OF example_hetero_ok, of "Some 2" "Some 4" 2 4]
  by (simp add: example_flat slice_indices_def numeral_2_eq_2)

theorem hetero_getitem_ids_witness:
  "\<exists>d. hetero_getitem example_item_lib example_hetero (Idx_ids [4, 0, 3]) = Inr d \<and> distinct (map fst d) \<and>
    (\<forall>key. filter (\<lambda>x. fst x = key) (flat_batches d) =
       filter (\<lambda>x. fst x = key) (map (\<lambda>i. flat_items example_sets ! nat i) [4, 0, 3]))"
  using hetero_getitem_ids [OF example_hetero_ok, of "[4, 0, 3]"] by (simp add: example_flat)

theorem hetero_slice_boundary_witness:
  "\<exists>d. hetero_getitem example_item_lib example_hetero (Idx_slice (Some 3) (Some 5) None) =
    Inr ((''user'', Tuple_value [Many [], Many []]) # d)"
proof -
  have "offset example_sets 1 = 3" "offset example_sets (length example_sets) = 5"
    by (simp_all add: offset_def example_sets_def)
  then show ?thesis
    using hetero_slice_boundary [OF example_hetero_ok, of 1 5] by (simp add: example_sets_def items_at_def)
qed

end
