(* ===== verification/Backend.thy ===== *)
theory Backend
  imports PyRange
begin

text \<open>
  \<^verbatim>\<open>python/dgl/backend/pytorch/tensor.py\<close>, the parts that the column store and the index
  utilities share: the devices, the two integer types of identifiers with PyTorch's promotion
  between them, and the row operations that write or cut a tensor. The sorting algorithms of
  PyTorch and NumPy are the fields of the record \<open>torch\<close>, an argument of the definitions that
  call them; \<open>torch_laws\<close> states their documented results.
\<close>

section \<open>Devices and integer types\<close>

datatype device = Cpu | Dev string nat

datatype int_dtype = Int32 | Int64

text \<open>Concatenation and arithmetic promote to the wider of the two types, which is the order of
  the type.\<close>

instantiation int_dtype :: linorder
begin

definition less_eq_int_dtype :: "int_dtype \<Rightarrow> int_dtype \<Rightarrow> bool" where
  "less_eq_int_dtype a b \<longleftrightarrow> a = Int32 \<or> b = Int64"

definition less_int_dtype :: "int_dtype \<Rightarrow> int_dtype \<Rightarrow> bool" where
  "less_int_dtype a b \<longleftrightarrow> a = Int32 \<and> b = Int64"

instance
proof
  fix x y z :: int_dtype
  show "(x < y) = (x \<le> y \<and> \<not> y \<le> x)"
    by (cases x; cases y) (simp_all add: less_eq_int_dtype_def less_int_dtype_def)
  show "x \<le> x" by (cases x) (simp_all add: less_eq_int_dtype_def)
  show "x \<le> y \<Longrightarrow> y \<le> z \<Longrightarrow> x \<le> z" by (auto simp: less_eq_int_dtype_def)
  show "x \<le> y \<Longrightarrow> y \<le> x \<Longrightarrow> x = y" by (auto simp: less_eq_int_dtype_def)
  show "x \<le> y \<or> y \<le> x" by (cases x; cases y) (simp_all add: less_eq_int_dtype_def)
qed

end

lemma max_int_dtype [simp]: "max Int32 d = d" "max d Int32 = d" "max Int64 d = Int64" "max d Int64 = Int64"
  by (cases d; simp add: max_def less_eq_int_dtype_def)+

fun dtype_bits :: "int_dtype \<Rightarrow> nat" where
  "dtype_bits Int32 = 32"
| "dtype_bits Int64 = 64"

text \<open>\<open>astype\<close> keeps the low bits of a value and reads them as a signed number.\<close>

definition cast_int :: "int_dtype \<Rightarrow> int \<Rightarrow> int" where
  "cast_int d x = (let m = 2 ^ dtype_bits d; r = x mod m in if r < m div 2 then r else r - m)"

definition fits :: "int_dtype \<Rightarrow> int \<Rightarrow> bool" where
  "fits d x \<longleftrightarrow> - (2 ^ (dtype_bits d - 1)) \<le> x \<and> x < 2 ^ (dtype_bits d - 1)"

lemma fits_mono: "fits d x \<Longrightarrow> d \<le> e \<Longrightarrow> fits e x"
  by (cases d; cases e) (simp_all add: fits_def less_eq_int_dtype_def)

lemma cast_int_fits [simp]: "fits d x \<Longrightarrow> cast_int d x = x"
proof -
  assume f: "fits d x"
  show ?thesis
  proof (cases "0 \<le> x")
    case True
    then show ?thesis using f by (cases d) (simp_all add: cast_int_def fits_def Let_def mod_pos_pos_trivial)
  next
    case False
    let ?m = "2 ^ dtype_bits d :: int"
    have "0 \<le> x + ?m" "x + ?m < ?m" using f False by (cases d; simp add: fits_def)+
    then have "(x + ?m) mod ?m = x + ?m" by (rule mod_pos_pos_trivial)
    then have "x mod ?m = x + ?m" by (simp only: mod_add_self2)
    then show ?thesis using f False by (cases d) (simp_all add: cast_int_def fits_def Let_def)
  qed
qed

lemma fits_cast_int: "fits d (cast_int d x)"
proof -
  have "0 \<le> x mod 2 ^ dtype_bits d" "x mod 2 ^ dtype_bits d < 2 ^ dtype_bits d" by simp_all
  then show ?thesis by (cases d) (auto simp: cast_int_def fits_def Let_def)
qed

section \<open>Row operations\<close>

text \<open>\<open>scatter_row\<close> is \<open>index_copy\<close>: a new tensor, one row per index, no negative index and no
  broadcast. \<open>narrow_row\<close> is the slice \<open>x[start:stop]\<close>.\<close>

definition scatter_row :: "'a list \<Rightarrow> int list \<Rightarrow> 'a list \<Rightarrow> 'a list res" where
  "scatter_row xs idx vals =
     (if length idx = length vals
      then rfold (\<lambda>ys (i, v). if 0 \<le> i \<and> i < int (length ys) then Inr (ys[nat i := v]) else Inl IndexError)
             xs (zip idx vals)
      else Inl IndexError)"

definition narrow_row :: "'a list \<Rightarrow> int \<Rightarrow> int \<Rightarrow> 'a list" where
  "narrow_row xs start stop = py_slice xs start stop"

lemma scatter_pairs:
  assumes "\<forall>(i, v) \<in> set zs. valid_index xs i"
  shows "rfold (\<lambda>ys (i, v). if 0 \<le> i \<and> i < int (length ys) then Inr (ys[nat i := v]) else Inl IndexError) xs zs =
    rfold (\<lambda>ys (i, v). py_set_index ys i v) xs zs"
  using assms
proof (induction zs arbitrary: xs)
  case Nil
  then show ?case by simp
next
  case (Cons z zs)
  obtain i v where z: "z = (i, v)" by (cases z)
  have "0 \<le> i" "i < int (length xs)" using Cons.prems z by (auto simp: valid_index_def)
  moreover have "\<forall>(j, w) \<in> set zs. valid_index (xs[nat i := v]) j"
    using Cons.prems by (auto simp: valid_index_def)
  ultimately show ?case using Cons.IH [of "xs[nat i := v]"]
    by (simp add: z py_set_index_def Let_def)
qed

lemma scatter_row_distinct:
  assumes "distinct idx" and "\<forall>i \<in> set idx. valid_index xs i" and "length idx = length vals"
  shows "scatter_row xs idx vals =
    Inr (map (\<lambda>j. case map_of (zip idx vals) (int j) of None \<Rightarrow> xs ! j | Some v \<Rightarrow> v) [0..<length xs])"
proof -
  have *: "\<forall>(i, v) \<in> set (zip idx vals). valid_index xs i" using assms(2) by (auto dest: set_zip_leftD)
  show ?thesis using assms(1,3) put_pairs [of "zip idx vals" xs, OF _ *]
    by (simp add: scatter_row_def scatter_pairs [OF *])
qed

lemma scatter_row_constant:
  assumes "\<forall>i \<in> set idx. valid_index xs i"
  shows "scatter_row xs idx (replicate (length idx) c) =
    Inr (map (\<lambda>j. if int j \<in> set idx then c else xs ! j) [0..<length xs])"
proof -
  have "rfold (\<lambda>ys (i, v). py_set_index ys i v) xs (zip idx (replicate (length idx) c)) =
      Inr (map (\<lambda>j. if int j \<in> set idx then c else xs ! j) [0..<length xs])"
    using assms
  proof (induction idx arbitrary: xs)
    case Nil
    then show ?case by (simp add: map_nth)
  next
    case (Cons i idx)
    have i: "0 \<le> i" "i < int (length xs)" using Cons.prems by (auto simp: valid_index_def)
    have "rfold (\<lambda>ys (i, v). py_set_index ys i v) (xs[nat i := c]) (zip idx (replicate (length idx) c)) =
        Inr (map (\<lambda>j. if int j \<in> set idx then c else xs[nat i := c] ! j) [0..<length xs])"
      using Cons.IH [of "xs[nat i := c]"] Cons.prems by (simp add: valid_index_def)
    moreover have "map (\<lambda>j. if int j \<in> set idx then c else xs[nat i := c] ! j) [0..<length xs] =
        map (\<lambda>j. if int j \<in> set (i # idx) then c else xs ! j) [0..<length xs]"
      using i by (auto simp: nth_list_update)
    ultimately show ?case using i by (simp add: py_set_index_def Let_def)
  qed
  moreover have "\<forall>(i, v) \<in> set (zip idx (replicate (length idx) c)). valid_index xs i"
    using assms by (auto dest: set_zip_leftD)
  ultimately show ?thesis by (simp add: scatter_row_def scatter_pairs)
qed

lemma narrow_row_arange:
  assumes "0 \<le> a" and "0 \<le> b"
  shows "narrow_row xs a b = take (nat b - nat a) (drop (nat a) xs)"
  using assms by (simp add: narrow_row_def py_slice_nonneg)

section \<open>Sorting\<close>

record torch =
  th_unique :: "int list \<Rightarrow> int list"
  th_sort :: "int list \<Rightarrow> int list"
  np_setdiff1d :: "int list \<Rightarrow> int list \<Rightarrow> int list"

definition torch_laws :: "torch \<Rightarrow> bool" where
  "torch_laws T \<longleftrightarrow>
     (\<forall>xs. sorted_wrt (<) (th_unique T xs) \<and> set (th_unique T xs) = set xs) \<and>
     (\<forall>xs. sorted (th_sort T xs) \<and> mset (th_sort T xs) = mset xs) \<and>
     (\<forall>xs ys. sorted_wrt (<) (np_setdiff1d T xs ys) \<and> set (np_setdiff1d T xs ys) = set xs - set ys)"

definition torch_ref :: torch where
  "torch_ref =
     \<lparr>th_unique = (\<lambda>xs. sort (remdups xs)), th_sort = sort,
      np_setdiff1d = (\<lambda>xs ys. sort (remdups (filter (\<lambda>x. x \<notin> set ys) xs)))\<rparr>"

lemma torch_ref_laws: "torch_laws torch_ref"
  by (auto simp: torch_laws_def torch_ref_def strict_sorted_iff)

lemma torch_unique:
  assumes "torch_laws T"
  shows "sorted_wrt (<) (th_unique T xs)" "set (th_unique T xs) = set xs" "distinct (th_unique T xs)"
  using assms by (auto simp: torch_laws_def strict_sorted_iff)

lemma torch_sort_strict:
  assumes "torch_laws T" and "sorted_wrt (<) xs"
  shows "th_sort T xs = xs"
proof -
  have "sorted xs" using assms(2) by (simp add: strict_sorted_iff)
  moreover have "sorted (th_sort T xs)" "mset (th_sort T xs) = mset xs"
    using assms(1) by (simp_all add: torch_laws_def)
  ultimately show ?thesis by (metis properties_for_sort)
qed

end
