(* ===== verification/LazyValue.thy ===== *)
theory LazyValue
  imports Prelude
begin

text \<open>
  The contract of an object that holds a value in several forms and computes a form when it is
  first read: reading returns the value the object denotes and leaves an object that denotes the
  same value, so that readers can not tell whether a form was cached. It is interpreted for the
  conversions of \<open>Index\<close>, for \<open>Column.data\<close> and for \<open>CtxCachedObject\<close>.
\<close>

locale lazy_value =
  fixes denotes :: "'s \<Rightarrow> 'v \<Rightarrow> bool"
    and same :: "'s \<Rightarrow> 's \<Rightarrow> bool"
    and read :: "'s \<Rightarrow> ('v \<times> 's) res"
  assumes read_denotes: "denotes s v \<Longrightarrow> \<exists>s'. read s = Inr (v, s') \<and> denotes s' v \<and> same s s'"
    and same_refl: "same s s"
    and same_trans: "same s t \<Longrightarrow> same t u \<Longrightarrow> same s u"
begin

lemma readE:
  assumes "denotes s v"
  obtains s' where "read s = Inr (v, s')" and "denotes s' v" and "same s s'"
  using read_denotes [OF assms] by blast

lemma read_rbind:
  assumes "denotes s v" and "\<And>s'. denotes s' v \<Longrightarrow> same s s' \<Longrightarrow> P (f (v, s'))"
  shows "P (rbind (read s) f)"
proof -
  from assms(1) obtain s' where "read s = Inr (v, s')" "denotes s' v" "same s s'" by (rule readE)
  with assms(2) show ?thesis by simp
qed

text \<open>Reading any number of times changes nothing a reader can see.\<close>

lemma reads_stable:
  assumes "denotes s v"
  shows "\<exists>s'. rfold (\<lambda>s _. rbind (read s) (\<lambda>(x, s). rbind (rassert (x = v) AssertionError) (\<lambda>_. Inr s))) s ks =
      Inr s' \<and> denotes s' v \<and> same s s'"
  using assms
proof (induction ks arbitrary: s)
  case Nil
  then show ?case by (simp add: same_refl)
next
  case (Cons k ks)
  from Cons.prems obtain t where t: "read s = Inr (v, t)" "denotes t v" "same s t" by (rule readE)
  from Cons.IH [OF t(2)] t show ?case by (auto intro: same_trans)
qed

end

end
