(* ===== verification/IndexObj.thy ===== *)
theory IndexObj
  imports Backend LazyValue
begin

text \<open>
  \<^verbatim>\<open>python/dgl/utils/internal.py\<close>: the class \<open>Index\<close>, which holds a vector of identifiers as
  a slice, a NumPy vector, a DGL vector or tensors on several devices and converts between them
  on demand, and the functions on it: \<open>toindex\<close>, \<open>zero_index\<close>, \<open>set_diff\<close>, \<open>reorder\<close>,
  \<open>reorder_index\<close>.

  The conversions store the form they computed in the object, so every method returns the object
  it leaves beside its result. A vector is a list of integers with the type \<open>ix_dtype\<close> of the
  object; a bound of a slice is an integer (the sources build no slice with an open end). What
  \<open>numpy.asarray\<close> makes of a foreign object is the argument \<open>A\<close>: the number of dimensions and
  the values, or nothing when it raises.
\<close>

section \<open>The object\<close>

datatype 'o py_object = Py_int int | Py_array nat "int list" | Py_other 'o

datatype 'o index_input =
    In_tensor device "int_dtype option" "nat list" "int list"
  | In_ndarray "int_dtype option" "nat list" "int list"
  | In_slice int int "int option"
  | In_object "'o py_object"

type_synonym 'o asarray = "'o \<Rightarrow> int_dtype \<Rightarrow> (nat \<times> int list) option"

record index_obj =
  ix_dtype :: int_dtype
  ix_pydata :: "int list option"
  ix_user :: "(device \<times> int list) list"
  ix_dgl :: "int list option"
  ix_slice :: "(int \<times> int) option"

text \<open>\<open>numpy.asarray(data, dtype)\<close>: a Python integer outside the type raises, an array of
  integers is cast.\<close>

fun np_asarray :: "'o asarray \<Rightarrow> 'o py_object \<Rightarrow> int_dtype \<Rightarrow> (nat \<times> int list) option" where
  "np_asarray A (Py_int i) d = (if fits d i then Some (0, [i]) else None)"
| "np_asarray A (Py_array n xs) d = Some (n, map (cast_int d) xs)"
| "np_asarray A (Py_other x) d = A x d"

definition index_empty :: "int_dtype \<Rightarrow> index_obj" where
  "index_empty d = \<lparr>ix_dtype = d, ix_pydata = None, ix_user = [], ix_dgl = None, ix_slice = None\<rparr>"

definition dispatch_object :: "'o asarray \<Rightarrow> 'o py_object \<Rightarrow> index_obj \<Rightarrow> index_obj res" where
  "dispatch_object A x ix =
     (case np_asarray A x (ix_dtype ix) of
        None \<Rightarrow> Inl DGLError
      | Some (ndim, xs) \<Rightarrow>
          if 1 < ndim then Inl DGLError
          else Inr (ix\<lparr>ix_pydata := Some xs, ix_user := AList.update Cpu xs (ix_user ix)\<rparr>))"

fun index_dispatch :: "'o asarray \<Rightarrow> 'o index_input \<Rightarrow> index_obj \<Rightarrow> index_obj res" where
  "index_dispatch A (In_tensor ctx dt dims xs) ix =
     (if dt \<noteq> Some (ix_dtype ix) then Inl DGLError
      else if 1 < length dims then Inl DGLError
      else if dims = [] then dispatch_object A (Py_int (hd xs)) ix
      else Inr (ix\<lparr>ix_user := AList.update ctx xs (ix_user ix)\<rparr>))"
| "index_dispatch A (In_ndarray dt dims xs) ix =
     (if dt = Some (ix_dtype ix) \<and> length dims = 1 then Inr (ix\<lparr>ix_dgl := Some xs\<rparr>) else Inl DGLError)"
| "index_dispatch A (In_slice start stop step) ix =
     (if step = Some 1 \<or> step = None then Inr (ix\<lparr>ix_slice := Some (start, stop)\<rparr>) else Inl AssertionError)"
| "index_dispatch A (In_object x) ix = dispatch_object A x ix"

definition index_init :: "'o asarray \<Rightarrow> 'o index_input \<Rightarrow> int_dtype \<Rightarrow> index_obj res" where
  "index_init A data d = index_dispatch A data (index_empty d)"

section \<open>Conversions\<close>

text \<open>The end of \<open>tousertensor\<close>: the tensor on a device, copied from the first tensor there is.\<close>

definition user_on :: "device \<Rightarrow> index_obj \<Rightarrow> (int list \<times> index_obj) res" where
  "user_on ctx ix =
     (case map_of (ix_user ix) ctx of
        Some xs \<Rightarrow> Inr (xs, ix)
      | None \<Rightarrow>
          case ix_user ix of
            [] \<Rightarrow> Inl StopIteration
          | (_, xs) # _ \<Rightarrow> Inr (xs, ix\<lparr>ix_user := AList.update ctx xs (ix_user ix)\<rparr>))"

text \<open>With no form at all \<open>tonumpy\<close> and \<open>tousertensor\<close> call each other until the recursion limit,
  a \<open>RuntimeError\<close>.\<close>

definition ix_tonumpy :: "index_obj \<Rightarrow> (int list \<times> index_obj) res" where
  "ix_tonumpy ix =
     (case ix_pydata ix of
        Some xs \<Rightarrow> Inr (xs, ix)
      | None \<Rightarrow>
          case ix_slice ix of
            Some (start, stop) \<Rightarrow>
              let xs = map (cast_int (ix_dtype ix)) (arange start stop) in
              Inr (xs, ix\<lparr>ix_pydata := Some xs\<rparr>)
          | None \<Rightarrow>
              case ix_dgl ix of
                Some xs \<Rightarrow> Inr (xs, ix\<lparr>ix_pydata := Some xs\<rparr>)
              | None \<Rightarrow>
                  if ix_user ix = [] then Inl RuntimeError
                  else rbind (user_on Cpu ix) (\<lambda>(xs, ix). Inr (xs, ix\<lparr>ix_pydata := Some xs\<rparr>)))"

definition ix_tousertensor :: "device \<Rightarrow> index_obj \<Rightarrow> (int list \<times> index_obj) res" where
  "ix_tousertensor ctx ix =
     rbind (if ix_user ix = []
            then case ix_dgl ix of
                Some xs \<Rightarrow> Inr (ix\<lparr>ix_user := AList.update Cpu xs (ix_user ix)\<rparr>)
              | None \<Rightarrow> rbind (ix_tonumpy ix) (\<lambda>(xs, ix). Inr (ix\<lparr>ix_user := AList.update Cpu xs (ix_user ix)\<rparr>))
            else Inr ix)
       (user_on ctx)"

definition ix_todgltensor :: "index_obj \<Rightarrow> (int list \<times> index_obj) res" where
  "ix_todgltensor ix =
     (case ix_dgl ix of
        Some xs \<Rightarrow> Inr (xs, ix)
      | None \<Rightarrow> rbind (ix_tousertensor Cpu ix) (\<lambda>(xs, ix). Inr (xs, ix\<lparr>ix_dgl := Some xs\<rparr>)))"

section \<open>Reading\<close>

definition ix_len :: "index_obj \<Rightarrow> int res" where
  "ix_len ix =
     (case ix_slice ix of
        Some (start, stop) \<Rightarrow> if stop - start < 0 then Inl ValueError else Inr (stop - start)
      | None \<Rightarrow>
          case ix_pydata ix of
            Some xs \<Rightarrow> Inr (int (length xs))
          | None \<Rightarrow>
              case ix_user ix of
                (_, xs) # _ \<Rightarrow> Inr (int (length xs))
              | [] \<Rightarrow> case ix_dgl ix of Some xs \<Rightarrow> Inr (int (length xs)) | None \<Rightarrow> Inl TypeError)"

definition ix_getitem :: "int \<Rightarrow> index_obj \<Rightarrow> (int \<times> index_obj) res" where
  "ix_getitem i ix = rbind (ix_tonumpy ix) (\<lambda>(xs, ix). rbind (py_index xs i) (\<lambda>x. Inr (x, ix)))"

definition ix_iter :: "index_obj \<Rightarrow> (int list \<times> index_obj) res" where
  "ix_iter ix = ix_tonumpy ix"

definition ix_is_slice :: "int \<Rightarrow> int \<Rightarrow> index_obj \<Rightarrow> bool" where
  "ix_is_slice start stop ix = (ix_slice ix = Some (start, stop))"

definition tensor_index :: "'o asarray \<Rightarrow> int_dtype \<Rightarrow> int list \<Rightarrow> int_dtype \<Rightarrow> index_obj res" where
  "tensor_index A dt xs d = index_init A (In_tensor Cpu (Some dt) [length xs] xs) d"

text \<open>\<open>__getstate__\<close> and \<open>__setstate__\<close>; a state from before version 0.4.4 is the data alone.\<close>

datatype 'o index_state = State_pair "'o index_input" int_dtype | State_data "'o index_input"

definition ix_getstate :: "index_obj \<Rightarrow> ('o index_state \<times> index_obj) res" where
  "ix_getstate ix =
     (case ix_slice ix of
        Some (start, stop) \<Rightarrow> Inr (State_pair (In_slice start stop None) (ix_dtype ix), ix)
      | None \<Rightarrow> rbind (ix_tousertensor Cpu ix) (\<lambda>(xs, ix).
          Inr (State_pair (In_tensor Cpu (Some (ix_dtype ix)) [length xs] xs) (ix_dtype ix), ix)))"

fun ix_setstate :: "'o asarray \<Rightarrow> 'o index_state \<Rightarrow> index_obj res" where
  "ix_setstate A (State_pair data d) = index_init A data d"
| "ix_setstate A (State_data data) = index_init A data Int64"

section \<open>Indices of indices\<close>

definition ix_get_items :: "'o asarray \<Rightarrow> index_obj \<Rightarrow> index_obj \<Rightarrow> (index_obj \<times> index_obj \<times> index_obj) res" where
  "ix_get_items A ix index =
     (case (ix_slice ix, ix_slice index) of
        (None, None) \<Rightarrow>
          rbind (ix_tousertensor Cpu ix) (\<lambda>(t, ix). rbind (ix_tousertensor Cpu index) (\<lambda>(i, index).
          rbind (gather_row t i) (\<lambda>xs. rbind (tensor_index A (ix_dtype ix) xs (ix_dtype ix)) (\<lambda>r.
          Inr (r, ix, index)))))
      | (Some (a, b), None) \<Rightarrow>
          if a = 0 then Inr (index, ix, index)
          else rbind (ix_tousertensor Cpu ix) (\<lambda>(t, ix). rbind (ix_tousertensor Cpu index) (\<lambda>(i, index).
            rbind (gather_row t i) (\<lambda>xs. rbind (tensor_index A (ix_dtype ix) xs (ix_dtype ix)) (\<lambda>r.
            Inr (r, ix, index)))))
      | (None, Some (c, d)) \<Rightarrow>
          rbind (ix_tousertensor Cpu ix) (\<lambda>(t, ix).
          let xs = map (cast_int (ix_dtype ix)) (narrow_row t c d) in
          rbind (tensor_index A (ix_dtype ix) xs (ix_dtype ix)) (\<lambda>r. Inr (r, ix, index)))
      | (Some (a, b), Some (c, d)) \<Rightarrow>
          if a = 0 then Inr (index, ix, index)
          else rbind (index_init A (In_slice (a + c) (a + d) None) (ix_dtype ix)) (\<lambda>r. Inr (r, ix, index)))"

datatype index_value = Val_int int | Val_index index_obj

definition ix_set_items :: "'o asarray \<Rightarrow> index_obj \<Rightarrow> index_obj \<Rightarrow> index_value \<Rightarrow> (index_obj \<times> index_obj \<times> index_obj) res" where
  "ix_set_items A ix index val =
     rbind (ix_tousertensor Cpu ix) (\<lambda>(t, ix). rbind (ix_tousertensor Cpu index) (\<lambda>(i, index).
     rbind (case val of
         Val_int v \<Rightarrow> if fits Int64 v then Inr (Int64, replicate (length i) v) else Inl RuntimeError
       | Val_index v \<Rightarrow> rbind (ix_tousertensor Cpu v) (\<lambda>(xs, v). Inr (ix_dtype v, xs))) (\<lambda>(dt, vs).
     rbind (rassert (dt = ix_dtype ix) RuntimeError) (\<lambda>_.
     rbind (scatter_row t i vs) (\<lambda>xs.
     rbind (tensor_index A (ix_dtype ix) xs (ix_dtype ix)) (\<lambda>r. Inr (r, ix, index)))))))"

definition ix_append_zeros :: "'o asarray \<Rightarrow> int \<Rightarrow> index_obj \<Rightarrow> (index_obj \<times> index_obj) res" where
  "ix_append_zeros A num ix =
     (if num = 0 then Inr (ix, ix)
      else rbind (rassert (0 \<le> num) RuntimeError) (\<lambda>_.
        let zeros = replicate (nat num) 0 in
        rbind (ix_len ix) (\<lambda>n.
        if n = 0 then rbind (tensor_index A Int64 zeros (ix_dtype ix)) (\<lambda>r. Inr (r, ix))
        else rbind (ix_tousertensor Cpu ix) (\<lambda>(t, ix).
          rbind (tensor_index A (max (ix_dtype ix) Int64) (t @ zeros) (ix_dtype ix)) (\<lambda>r. Inr (r, ix))))))"

definition ix_nonzero :: "'o asarray \<Rightarrow> index_obj \<Rightarrow> (index_obj \<times> index_obj) res" where
  "ix_nonzero A ix =
     rbind (ix_tousertensor Cpu ix) (\<lambda>(t, ix).
     rbind (tensor_index A Int64 (nonzero_1d (map (\<lambda>x. x \<noteq> 0) t)) (ix_dtype ix)) (\<lambda>r. Inr (r, ix)))"

definition ix_has_nonzero :: "index_obj \<Rightarrow> (bool \<times> index_obj) res" where
  "ix_has_nonzero ix = rbind (ix_tousertensor Cpu ix) (\<lambda>(t, ix). Inr (0 < cast_int Int64 (sum_list t), ix))"

section \<open>Functions on indices\<close>

definition toindex :: "'o asarray \<Rightarrow> index_obj + 'o index_input \<Rightarrow> int_dtype \<Rightarrow> index_obj res" where
  "toindex A data d = (case data of Inl ix \<Rightarrow> Inr ix | Inr x \<Rightarrow> index_init A x d)"

definition zero_index :: "'o asarray \<Rightarrow> int \<Rightarrow> int_dtype \<Rightarrow> index_obj res" where
  "zero_index A n d =
     rbind (rassert (0 \<le> n) RuntimeError) (\<lambda>_. tensor_index A d (replicate (nat n) 0) d)"

definition set_diff :: "'o asarray \<Rightarrow> torch \<Rightarrow> index_obj \<Rightarrow> index_obj \<Rightarrow> (index_obj \<times> index_obj \<times> index_obj) res" where
  "set_diff A T ar1 ar2 =
     rbind (ix_tonumpy ar1) (\<lambda>(xs, ar1). rbind (ix_tonumpy ar2) (\<lambda>(ys, ar2).
     rbind (toindex A (Inr (In_object (Py_array 1 (np_setdiff1d T xs ys)))) Int64) (\<lambda>r. Inr (r, ar1, ar2))))"

definition reorder :: "(string \<times> (device \<times> 'a list)) list \<Rightarrow> index_obj \<Rightarrow> ((string \<times> (device \<times> 'a list)) list \<times> index_obj) res" where
  "reorder d index =
     rfold (\<lambda>(new, index) (key, ctx, rows).
       rbind (ix_tousertensor ctx index) (\<lambda>(i, index). rbind (gather_row rows i) (\<lambda>rows.
       Inr (AList.update key (ctx, rows) new, index)))) ([], index) d"

definition reorder_index :: "'o asarray \<Rightarrow> index_obj \<Rightarrow> index_obj \<Rightarrow> (index_obj \<times> index_obj \<times> index_obj) res" where
  "reorder_index A idx order =
     rbind (ix_tousertensor Cpu idx) (\<lambda>(t, idx). rbind (ix_tousertensor Cpu order) (\<lambda>(i, order).
     rbind (gather_row t i) (\<lambda>xs.
     rbind (toindex A (Inr (In_tensor Cpu (Some (ix_dtype idx)) [length xs] xs)) Int64) (\<lambda>r. Inr (r, idx, order)))))"

section \<open>The value of an index\<close>

text \<open>Every form that is present holds the vector \<open>v\<close>, there is a form, and the values have the
  object's type.\<close>

definition holds :: "'a option \<Rightarrow> 'a \<Rightarrow> bool" where
  "holds r v = (case r of None \<Rightarrow> True | Some x \<Rightarrow> x = v)"

definition ix_repr :: "index_obj \<Rightarrow> int list \<Rightarrow> bool" where
  "ix_repr ix v \<longleftrightarrow>
     holds (ix_pydata ix) v \<and> holds (ix_dgl ix) v \<and>
     list_all (\<lambda>(c, xs). xs = v) (ix_user ix) \<and>
     holds (map_option (\<lambda>(a, b). arange a b) (ix_slice ix)) v \<and>
     (ix_pydata ix \<noteq> None \<or> ix_dgl ix \<noteq> None \<or> ix_user ix \<noteq> [] \<or> ix_slice ix \<noteq> None) \<and>
     list_all (fits (ix_dtype ix)) v"

definition ix_same :: "index_obj \<Rightarrow> index_obj \<Rightarrow> bool" where
  "ix_same ix ix' \<longleftrightarrow> ix_dtype ix' = ix_dtype ix \<and> ix_slice ix' = ix_slice ix"

lemma holds_simps [simp]: "holds None v" "holds (Some x) v = (x = v)"
  by (simp_all add: holds_def)

lemma cast_fits [simp]: "list_all (fits d) xs \<Longrightarrow> map (cast_int d) xs = xs"
  by (induction xs) simp_all

lemma list_all_update: "list_all (\<lambda>(c, xs). xs = v) d \<Longrightarrow> list_all (\<lambda>(c, xs). xs = v) (AList.update k v d)"
  by (induction d) auto

lemma map_of_list_all: "list_all (\<lambda>(c, xs). xs = v) d \<Longrightarrow> map_of d k = Some xs \<Longrightarrow> xs = v"
  by (induction d) (auto split: if_splits)

lemma user_on_repr:
  assumes "ix_repr ix v" and "ix_user ix \<noteq> []"
  shows "\<exists>ix'. user_on ctx ix = Inr (v, ix') \<and> ix_repr ix' v \<and> ix_same ix ix'"
proof (cases "map_of (ix_user ix) ctx")
  case None
  obtain c xs rest where user: "ix_user ix = (c, xs) # rest" using assms(2) by (cases "ix_user ix") auto
  then have "xs = v" using assms(1) by (simp add: ix_repr_def)
  moreover have "list_all (\<lambda>(c, xs). xs = v) (AList.update ctx v (ix_user ix))"
    using assms(1) by (intro list_all_update) (simp add: ix_repr_def)
  ultimately show ?thesis using assms(1) None user
    by (simp add: user_on_def ix_repr_def ix_same_def)
next
  case (Some xs)
  then have "xs = v" using assms(1) map_of_list_all by (fastforce simp: ix_repr_def)
  then show ?thesis using Some assms(1) by (simp add: user_on_def ix_same_def)
qed

lemma ix_same_refl: "ix_same ix ix"
  by (simp add: ix_same_def)

lemma ix_same_trans: "ix_same a b \<Longrightarrow> ix_same b c \<Longrightarrow> ix_same a c"
  by (simp add: ix_same_def)

lemma set_pydata_repr: "ix_repr ix v \<Longrightarrow> ix_repr (ix\<lparr>ix_pydata := Some v\<rparr>) v"
  by (auto simp: ix_repr_def)

lemma set_user_repr: "ix_repr ix v \<Longrightarrow> ix_repr (ix\<lparr>ix_user := AList.update c v (ix_user ix)\<rparr>) v"
  by (auto simp: ix_repr_def list_all_update)

lemma tonumpy_repr:
  assumes "ix_repr ix v"
  shows "\<exists>ix'. ix_tonumpy ix = Inr (v, ix') \<and> ix_repr ix' v \<and> ix_same ix ix'"
proof -
  note set = set_pydata_repr [OF assms]
  consider xs where "ix_pydata ix = Some xs"
    | a b where "ix_pydata ix = None" "ix_slice ix = Some (a, b)"
    | xs where "ix_pydata ix = None" "ix_slice ix = None" "ix_dgl ix = Some xs"
    | "ix_pydata ix = None" "ix_slice ix = None" "ix_dgl ix = None" "ix_user ix \<noteq> []"
    using assms by (cases "ix_pydata ix"; cases "ix_slice ix"; cases "ix_dgl ix") (auto simp: ix_repr_def)
  then show ?thesis
  proof cases
    case 1
    then have "xs = v" using assms by (simp add: ix_repr_def)
    then show ?thesis using 1 assms by (simp add: ix_tonumpy_def ix_same_def)
  next
    case 2
    then have "arange a b = v" using assms by (simp add: ix_repr_def)
    moreover have "map (cast_int (ix_dtype ix)) v = v" using assms by (simp add: ix_repr_def)
    ultimately show ?thesis using 2 set by (simp add: ix_tonumpy_def ix_same_def Let_def)
  next
    case 3
    then have "xs = v" using assms by (simp add: ix_repr_def)
    then show ?thesis using 3 set by (simp add: ix_tonumpy_def ix_same_def)
  next
    case 4
    from user_on_repr [OF assms 4(4), of Cpu] obtain ix' where
      ix': "user_on Cpu ix = Inr (v, ix')" "ix_repr ix' v" "ix_same ix ix'" by blast
    have "ix_tonumpy ix = Inr (v, ix'\<lparr>ix_pydata := Some v\<rparr>)" using 4 ix'(1) by (simp add: ix_tonumpy_def)
    moreover have "ix_same ix (ix'\<lparr>ix_pydata := Some v\<rparr>)" using ix'(3) by (simp add: ix_same_def)
    ultimately show ?thesis using set_pydata_repr [OF ix'(2)] by blast
  qed
qed

lemma tousertensor_repr:
  assumes "ix_repr ix v"
  shows "\<exists>ix'. ix_tousertensor ctx ix = Inr (v, ix') \<and> ix_repr ix' v \<and> ix_same ix ix'"
proof (cases "ix_user ix = []")
  case False
  then show ?thesis using user_on_repr [OF assms] by (simp add: ix_tousertensor_def)
next
  case True
  obtain jx where jx: "(case ix_dgl ix of
      Some xs \<Rightarrow> Inr (ix\<lparr>ix_user := AList.update Cpu xs (ix_user ix)\<rparr>)
    | None \<Rightarrow> rbind (ix_tonumpy ix) (\<lambda>(xs, ix). Inr (ix\<lparr>ix_user := AList.update Cpu xs (ix_user ix)\<rparr>))) = Inr jx"
    and repr: "ix_repr jx v" and same: "ix_same ix jx" and user: "ix_user jx \<noteq> []"
  proof (cases "ix_dgl ix")
    case None
    from tonumpy_repr [OF assms] obtain kx where
      kx: "ix_tonumpy ix = Inr (v, kx)" "ix_repr kx v" "ix_same ix kx" by blast
    let ?jx = "kx\<lparr>ix_user := AList.update Cpu v (ix_user kx)\<rparr>"
    show ?thesis using that [of ?jx] None kx set_user_repr [OF kx(2)]
      by (auto simp: ix_same_def dest: arg_cong [where f = "\<lambda>d. Cpu \<in> fst ` set d"] simp: dom_update)
  next
    case (Some xs)
    then have "xs = v" using assms by (simp add: ix_repr_def)
    then show ?thesis using that [of "ix\<lparr>ix_user := AList.update Cpu v (ix_user ix)\<rparr>"] Some True
        set_user_repr [OF assms] by (simp add: ix_same_def)
  qed
  from user_on_repr [OF repr user, of ctx] obtain ix' where
    "user_on ctx jx = Inr (v, ix')" "ix_repr ix' v" "ix_same jx ix'" by blast
  then show ?thesis using True jx same by (auto simp: ix_tousertensor_def intro: ix_same_trans)
qed

lemma todgltensor_repr:
  assumes "ix_repr ix v"
  shows "\<exists>ix'. ix_todgltensor ix = Inr (v, ix') \<and> ix_repr ix' v \<and> ix_same ix ix'"
proof (cases "ix_dgl ix")
  case None
  from tousertensor_repr [OF assms, of Cpu] obtain jx where
    jx: "ix_tousertensor Cpu ix = Inr (v, jx)" "ix_repr jx v" "ix_same ix jx" by blast
  have "ix_repr (jx\<lparr>ix_dgl := Some v\<rparr>) v" using jx(2) by (auto simp: ix_repr_def)
  then show ?thesis using None jx by (simp add: ix_todgltensor_def ix_same_def)
next
  case (Some xs)
  then have "xs = v" using assms by (simp add: ix_repr_def)
  then show ?thesis using Some assms by (simp add: ix_todgltensor_def ix_same_def)
qed

interpretation np: lazy_value ix_repr ix_same ix_tonumpy
  by unfold_locales (auto simp: tonumpy_repr ix_same_refl intro: ix_same_trans)

interpretation usr: lazy_value ix_repr ix_same "ix_tousertensor ctx" for ctx
  by unfold_locales (auto simp: tousertensor_repr ix_same_refl intro: ix_same_trans)

interpretation dgl: lazy_value ix_repr ix_same ix_todgltensor
  by unfold_locales (auto simp: todgltensor_repr ix_same_refl intro: ix_same_trans)

end
