(* ===== verification/IndexProps.thy ===== *)
theory IndexProps
  imports IndexObj
begin

text \<open>
  What the class \<open>Index\<close> promises: whichever form an index was made from, every conversion, in any
  order, returns the same vector, and the operations on indices compute with these vectors.
\<close>

section \<open>Construction\<close>

text \<open>The vector an input stands for. A tensor or vector of a type holds values of that type.\<close>

fun input_denotes :: "'o asarray \<Rightarrow> int_dtype \<Rightarrow> 'o index_input \<Rightarrow> int list \<Rightarrow> bool" where
  "input_denotes A d (In_tensor ctx dt dims xs) v \<longleftrightarrow> v = xs \<and> dims = (if dims = [] then [] else [length xs]) \<and>
     (dims = [] \<longrightarrow> length xs = 1)"
| "input_denotes A d (In_ndarray dt dims xs) v \<longleftrightarrow> v = xs"
| "input_denotes A d (In_slice a b step) v \<longleftrightarrow> v = arange a b"
| "input_denotes A d (In_object x) v \<longleftrightarrow> (\<exists>n. np_asarray A x d = Some (n, v))"

lemma index_empty_dtype [simp]: "ix_dtype (index_empty d) = d"
  by (simp add: index_empty_def)

lemma dispatch_object_repr:
  assumes "dispatch_object A x (index_empty d) = Inr ix" and "np_asarray A x d = Some (n, v)"
    and "list_all (fits d) v"
  shows "ix_repr ix v \<and> ix_dtype ix = d"
  using assms by (auto simp: dispatch_object_def index_empty_def ix_repr_def split: if_splits)

lemma index_init_repr:
  assumes "index_init A data d = Inr ix" and "input_denotes A d data v" and "list_all (fits d) v"
  shows "ix_repr ix v \<and> ix_dtype ix = d"
proof (cases data)
  case (In_tensor ctx dt dims xs)
  show ?thesis
  proof (cases "dims = []")
    case True
    then obtain x where "xs = [x]" using In_tensor assms(2) by (auto simp: length_Suc_conv)
    then show ?thesis using assms In_tensor True dispatch_object_repr [of A "Py_int x" d ix 0 "[x]"]
      by (auto simp: index_init_def split: if_splits)
  next
    case False
    then show ?thesis using assms In_tensor
      by (auto simp: index_init_def index_empty_def ix_repr_def split: if_splits)
  qed
next
  case (In_object x)
  then show ?thesis using assms dispatch_object_repr [of A x d ix] by (auto simp: index_init_def)
qed (use assms in \<open>auto simp: index_init_def index_empty_def ix_repr_def split: if_splits\<close>)

lemma tensor_index_ok:
  "list_all (fits d) xs \<Longrightarrow> \<exists>r. tensor_index A d xs d = Inr r \<and> ix_repr r xs \<and> ix_dtype r = d"
  by (simp add: tensor_index_def index_init_def index_empty_def ix_repr_def)

lemma slice_index_ok:
  "list_all (fits d) (arange a b) \<Longrightarrow>
    \<exists>r. index_init A (In_slice a b None) d = Inr r \<and> ix_repr r (arange a b) \<and> ix_dtype r = d"
  by (simp add: index_init_def index_empty_def ix_repr_def)

lemma tensor_index_mismatch [simp]: "dt \<noteq> d \<Longrightarrow> tensor_index A dt xs d = Inl DGLError"
  by (simp add: tensor_index_def index_init_def index_empty_def)

section \<open>Conversions in any order\<close>

datatype index_form = As_numpy | As_tensor device | As_dgl | As_pickle

fun index_read :: "'o asarray \<Rightarrow> index_form \<Rightarrow> index_obj \<Rightarrow> (int list \<times> index_obj) res" where
  "index_read A As_numpy ix = ix_tonumpy ix"
| "index_read A (As_tensor ctx) ix = ix_tousertensor ctx ix"
| "index_read A As_dgl ix = ix_todgltensor ix"
| "index_read A As_pickle ix =
     rbind (ix_getstate ix) (\<lambda>(st, ix). rbind (ix_setstate A st) (\<lambda>ix'.
     rbind (ix_tonumpy ix') (\<lambda>(xs, _). Inr (xs, ix))))"

fun index_reads :: "'o asarray \<Rightarrow> index_form list \<Rightarrow> index_obj \<Rightarrow> (int list list \<times> index_obj) res" where
  "index_reads A [] ix = Inr ([], ix)"
| "index_reads A (k # ks) ix =
     rbind (index_read A k ix) (\<lambda>(xs, ix). rbind (index_reads A ks ix) (\<lambda>(vs, ix). Inr (xs # vs, ix)))"

lemma repr_fits: "ix_repr ix v \<Longrightarrow> list_all (fits (ix_dtype ix)) v"
  by (simp add: ix_repr_def)

lemma pickle_repr:
  assumes "ix_repr ix v"
  shows "\<exists>st ix' jx. ix_getstate ix = Inr (st, ix') \<and> ix_repr ix' v \<and> ix_same ix ix' \<and>
    ix_setstate A st = Inr jx \<and> ix_repr jx v \<and> ix_dtype jx = ix_dtype ix"
proof (cases "ix_slice ix")
  case None
  obtain ix' where ix': "ix_tousertensor Cpu ix = Inr (v, ix')" "ix_repr ix' v" "ix_same ix ix'"
    using usr.readE [OF assms] by blast
  have "list_all (fits (ix_dtype ix')) v" using ix'(2) by (rule repr_fits)
  from tensor_index_ok [OF this, of A] show ?thesis using None ix'
    by (auto simp: ix_getstate_def tensor_index_def ix_same_def)
next
  case (Some ab)
  obtain a b where ab: "ab = (a, b)" by (cases ab)
  then have v: "v = arange a b" using assms Some by (simp add: ix_repr_def)
  from slice_index_ok [of "ix_dtype ix" a b A] repr_fits [OF assms] show ?thesis
    using Some ab v assms by (auto simp: ix_getstate_def ix_same_def)
qed

lemma index_read_repr:
  assumes "ix_repr ix v"
  shows "\<exists>ix'. index_read A k ix = Inr (v, ix') \<and> ix_repr ix' v \<and> ix_same ix ix'"
proof (cases k)
  case As_pickle
  obtain st ix' jx where p: "ix_getstate ix = Inr (st, ix')" "ix_repr ix' v" "ix_same ix ix'"
    "ix_setstate A st = Inr jx" "ix_repr jx v" using pickle_repr [OF assms] by blast
  obtain kx where "ix_tonumpy jx = Inr (v, kx)" using np.readE [OF p(5)] by blast
  with As_pickle p show ?thesis by simp
qed (use assms tonumpy_repr tousertensor_repr todgltensor_repr in simp_all)

interpretation form: lazy_value ix_repr ix_same "index_read A k" for A k
  by unfold_locales (auto simp: index_read_repr ix_same_refl intro: ix_same_trans)

text \<open>C38. An index made from a tensor on any device, a DGL vector, a slice, a list or a number gives
  the same vector under every conversion, in every order and any number of times, and after
  pickling: the forms it caches never disagree, and its type does not change.\<close>

theorem index_conversions_agree:
  assumes "index_init A data d = Inr ix" and "input_denotes A d data v" and "list_all (fits d) v"
  shows "\<exists>ix'. index_reads A ks ix = Inr (replicate (length ks) v, ix') \<and> ix_repr ix' v \<and> ix_dtype ix' = d"
proof -
  have "ix_repr ix v \<Longrightarrow> \<exists>ix'. index_reads A ks ix = Inr (replicate (length ks) v, ix') \<and>
      ix_repr ix' v \<and> ix_dtype ix' = ix_dtype ix"
  proof (induction ks arbitrary: ix)
    case Nil
    then show ?case by simp
  next
    case (Cons k ks)
    obtain jx where jx: "index_read A k ix = Inr (v, jx)" "ix_repr jx v" "ix_same ix jx"
      using form.readE [OF Cons.prems] by blast
    from Cons.IH [OF jx(2)] jx show ?case by (auto simp: ix_same_def)
  qed
  with index_init_repr [OF assms] show ?thesis by auto
qed

theorem index_conversions_agree_witness:
  "\<exists>ix'. index_reads (\<lambda>_ _. None) [As_dgl, As_pickle, As_tensor (Dev ''cuda'' 0), As_numpy]
      (index_empty Int32\<lparr>ix_slice := Some (2, 5)\<rparr>) = Inr (replicate 4 [2, 3, 4], ix')"
proof -
  have arange: "arange 2 5 = [2, 3, 4]" by (simp add: arange_def upto.simps)
  have "index_init (\<lambda>_ _. None) (In_slice 2 5 None) Int32 = Inr (index_empty Int32\<lparr>ix_slice := Some (2, 5)\<rparr>)"
    by (simp add: index_init_def)
  from index_conversions_agree [OF this, of "[2, 3, 4]" "[As_dgl, As_pickle, As_tensor (Dev ''cuda'' 0), As_numpy]"]
  show ?thesis by (simp add: arange fits_def numeral_eq_Suc) blast
qed

section \<open>Indices of indices\<close>

lemma arange_map_nth:
  assumes "\<forall>i \<in> set w. 0 \<le> i \<and> i < int (length (arange a b))"
  shows "map (\<lambda>i. arange a b ! nat i) w = map (\<lambda>i. a + i) w"
proof (rule map_cong [OF refl])
  fix i
  assume "i \<in> set w"
  then have "0 \<le> i" "int (nat i) < b - a" using assms by (auto split: if_splits)
  then show "arange a b ! nat i = a + i" by (simp only: arange_nth)
qed

lemma gathered_fits:
  assumes "list_all P v" and "\<forall>i \<in> set w. 0 \<le> i \<and> i < int (length v)"
  shows "list_all P (map (\<lambda>i. v ! nat i) w)"
proof -
  have "v ! nat i \<in> set v" if "i \<in> set w" for i
    using assms(2) that by (intro nth_mem) (metis nat_less_iff)
  then show ?thesis using assms(1) by (auto simp: list_all_iff)
qed

lemma gather_repr:
  assumes "ix_repr ix v" and "ix_repr index w" and "\<forall>i \<in> set w. 0 \<le> i \<and> i < int (length v)"
  shows "\<exists>r ix' index'.
    rbind (ix_tousertensor Cpu ix) (\<lambda>(t, ix). rbind (ix_tousertensor Cpu index) (\<lambda>(i, index).
      rbind (gather_row t i) (\<lambda>xs. rbind (tensor_index A (ix_dtype ix) xs (ix_dtype ix)) (\<lambda>r.
      Inr (r, ix, index))))) = Inr (r, ix', index') \<and>
    ix_repr r (map (\<lambda>i. v ! nat i) w) \<and> ix_dtype r = ix_dtype ix \<and> ix_repr ix' v \<and> ix_repr index' w"
proof -
  obtain ix' where ix': "ix_tousertensor Cpu ix = Inr (v, ix')" "ix_repr ix' v" "ix_same ix ix'"
    using usr.readE [OF assms(1)] by blast
  obtain index' where index': "ix_tousertensor Cpu index = Inr (w, index')" "ix_repr index' w"
    using usr.readE [OF assms(2)] by blast
  have rows: "gather_row v w = Inr (map (\<lambda>i. v ! nat i) w)"
    using assms(3) by (intro gather_row_valid) (simp add: valid_index_def)
  have "list_all (fits (ix_dtype ix')) (map (\<lambda>i. v ! nat i) w)"
    using repr_fits [OF ix'(2)] assms(3) by (rule gathered_fits)
  from tensor_index_ok [OF this, of A] show ?thesis using ix' index' rows by (auto simp: ix_same_def)
qed

text \<open>The items of an index at the positions another index names are read in the four
  combinations of slices and vectors alike: the result stands for \<open>v[w[0]], v[w[1]], ...\<close>. When
  the first index is a slice from zero the second is returned as it is, with its own type. (The
  bounds of a slice of positions have to be meant as they are written: the slice \<open>2:-1\<close> is empty as
  an index but not as a slice of a tensor.)\<close>

theorem get_items_spec:
  assumes "ix_repr ix v" and "ix_repr index w" and "\<forall>i \<in> set w. 0 \<le> i \<and> i < int (length v)"
    and "\<And>c d. ix_slice index = Some (c, d) \<Longrightarrow> 0 \<le> c \<and> 0 \<le> d"
  shows "\<exists>r ix' index'. ix_get_items A ix index = Inr (r, ix', index') \<and>
    ix_repr r (map (\<lambda>i. v ! nat i) w) \<and> ix_repr ix' v \<and> ix_repr index' w \<and>
    ix_dtype r = (if \<exists>b. ix_slice ix = Some (0, b) then ix_dtype index else ix_dtype ix)"
proof (cases "\<exists>b. ix_slice ix = Some (0, b)")
  case True
  then obtain b where b: "ix_slice ix = Some (0, b)" by blast
  then have "v = arange 0 b" using assms(1) by (simp add: ix_repr_def)
  then have "map (\<lambda>i. v ! nat i) w = w" using arange_map_nth [of w 0 b] assms(3) by simp
  then show ?thesis using b assms(1,2) by (cases "ix_slice index") (auto simp: ix_get_items_def)
next
  case first: False
  show ?thesis
  proof (cases "ix_slice index")
    case None
    then have "ix_get_items A ix index =
        rbind (ix_tousertensor Cpu ix) (\<lambda>(t, ix). rbind (ix_tousertensor Cpu index) (\<lambda>(i, index).
        rbind (gather_row t i) (\<lambda>xs. rbind (tensor_index A (ix_dtype ix) xs (ix_dtype ix)) (\<lambda>r.
        Inr (r, ix, index)))))"
      using first by (auto simp: ix_get_items_def split: option.split)
    with first gather_repr [OF assms(1-3), of A] show ?thesis by auto
  next
    case (Some cd)
    obtain c d where cd: "cd = (c, d)" by (cases cd)
    then have w: "w = arange c d" using assms(2) Some by (simp add: ix_repr_def)
    have bounds: "0 \<le> c" "0 \<le> d" using assms(4) Some cd by auto
    show ?thesis
    proof (cases "ix_slice ix")
      case slice: None
      obtain ix' where ix': "ix_tousertensor Cpu ix = Inr (v, ix')" "ix_repr ix' v" "ix_same ix ix'"
        using usr.readE [OF assms(1)] by blast
      have rows: "narrow_row v c d = map (\<lambda>i. v ! nat i) w"
      proof -
        have "nat d - nat c \<le> length v - nat c"
          using assms(3) w bounds by (cases "c < d") (auto dest: bspec [of _ _ "d - 1"])
        then show ?thesis using bounds w
          by (intro nth_equalityI) (auto simp: narrow_row_arange nat_add_distrib nat_diff_distrib')
      qed
      have ok: "list_all (fits (ix_dtype ix')) (map (\<lambda>i. v ! nat i) w)"
        using repr_fits [OF ix'(2)] assms(3) by (rule gathered_fits)
      from tensor_index_ok [OF this, of A] show ?thesis
        using slice Some cd ix' rows assms(2) cast_fits [OF ok]
        by (auto simp: ix_get_items_def ix_same_def Let_def simp del: map_map)
    next
      case slice: (Some ab)
      obtain a b where ab: "ab = (a, b)" by (cases ab)
      then have v: "v = arange a b" and a: "a \<noteq> 0" using assms(1) slice first by (auto simp: ix_repr_def)
      have rows: "map (\<lambda>i. v ! nat i) w = arange (a + c) (a + d)"
      proof -
        have "map (\<lambda>i. v ! nat i) w = map (\<lambda>i. a + i) w" using arange_map_nth [of w a b] assms(3) v by simp
        also have "\<dots> = arange (a + c) (a + d)" unfolding w by (rule nth_equalityI) simp_all
        finally show ?thesis .
      qed
      have "list_all (fits (ix_dtype ix)) (arange (a + c) (a + d))"
        unfolding rows [symmetric] using repr_fits [OF assms(1)] assms(3) by (rule gathered_fits)
      from slice_index_ok [OF this, of A] show ?thesis
        using slice Some cd ab a rows assms(1,2) by (auto simp: ix_get_items_def)
    qed
  qed
qed

theorem get_items_spec_witness:
  "\<exists>r ix' index'. ix_get_items (\<lambda>_ _. None) (index_empty Int64\<lparr>ix_slice := Some (10, 20)\<rparr>)
      (index_empty Int64\<lparr>ix_slice := Some (2, 5)\<rparr>) = Inr (r, ix', index') \<and> ix_repr r [12, 13, 14]"
proof -
  have repr: "ix_repr (index_empty Int64\<lparr>ix_slice := Some (10, 20)\<rparr>) (arange 10 20)"
    "ix_repr (index_empty Int64\<lparr>ix_slice := Some (2, 5)\<rparr>) (arange 2 5)"
    by (auto simp: ix_repr_def index_empty_def list_all_iff fits_def)
  have rows: "map (\<lambda>i. arange 10 20 ! nat i) (arange 2 5) = [12, 13, 14]"
    by (simp add: arange_def upto.simps)
  show ?thesis using get_items_spec [OF repr, of "\<lambda>_ _. None"] unfolding rows by auto
qed

section \<open>The operations that need 64-bit indices\<close>

lemma ix_len_repr:
  assumes "ix_repr ix v" and "\<And>a b. ix_slice ix = Some (a, b) \<Longrightarrow> a \<le> b"
  shows "ix_len ix = Inr (int (length v))"
  using assms by (auto simp: ix_len_def ix_repr_def split: option.split list.split)

lemma nonzero_fits:
  assumes "int (length bs) < 2 ^ 63"
  shows "list_all (fits Int64) (nonzero_1d bs)"
  using assms by (auto simp: list_all_iff nonzero_1d_def fits_def)

lemma set_items_fold:
  assumes "ix_repr ix v" and "ix_repr index w" and "\<forall>i \<in> set w. valid_index v i" and "fits Int64 x"
  shows "if ix_dtype ix = Int64
    then \<exists>r ix' index'. ix_set_items A ix index (Val_int x) = Inr (r, ix', index') \<and>
      ix_repr r (map (\<lambda>j. if int j \<in> set w then x else v ! j) [0..<length v])
    else ix_set_items A ix index (Val_int x) = Inl RuntimeError"
proof -
  obtain ix' where ix': "ix_tousertensor Cpu ix = Inr (v, ix')" "ix_repr ix' v" "ix_same ix ix'"
    using usr.readE [OF assms(1)] by blast
  obtain index' where index': "ix_tousertensor Cpu index = Inr (w, index')"
    using usr.readE [OF assms(2)] by blast
  let ?r = "map (\<lambda>j. if int j \<in> set w then x else v ! j) [0..<length v]"
  have step: "ix_set_items A ix index (Val_int x) =
      rbind (rassert (Int64 = ix_dtype ix) RuntimeError) (\<lambda>_.
      rbind (tensor_index A (ix_dtype ix) ?r (ix_dtype ix)) (\<lambda>r. Inr (r, ix', index')))"
    using ix' index' scatter_row_constant [OF assms(3), of x] assms(4)
    by (simp add: ix_set_items_def ix_same_def)
  show ?thesis
  proof (cases "ix_dtype ix")
    case Int32
    then show ?thesis using step by simp
  next
    case Int64
    have "list_all (fits Int64) ?r" using repr_fits [OF assms(1)] Int64 assms(4) by (auto simp: list_all_iff)
    from tensor_index_ok [OF this, of A] Int64 step show ?thesis by auto
  qed
qed

text \<open>\<open>nonzero\<close>, \<open>append_zeros\<close> and \<open>set_items\<close> compute what their documentation says when the
  index has the type \<open>int64\<close>, and raise for every index of type \<open>int32\<close>: the tensors they make are
  64-bit and are refused where the result is wrapped, or where they are written into the 32-bit
  tensor.\<close>

theorem index_int64_only:
  assumes "ix_repr ix v" and "int (length v) < 2 ^ 63" and "\<And>a b. ix_slice ix = Some (a, b) \<Longrightarrow> a \<le> b"
    and "ix_repr index w" and "\<forall>i \<in> set w. valid_index v i" and "fits Int64 x" and "0 < n"
  shows "case ix_dtype ix of
      Int64 \<Rightarrow>
        (\<exists>r ix'. ix_nonzero A ix = Inr (r, ix') \<and> ix_repr r (nonzero_1d (map (\<lambda>x. x \<noteq> 0) v))) \<and>
        (\<exists>r ix'. ix_append_zeros A n ix = Inr (r, ix') \<and> ix_repr r (v @ replicate (nat n) 0)) \<and>
        (\<exists>r ix' index'. ix_set_items A ix index (Val_int x) = Inr (r, ix', index') \<and>
           ix_repr r (map (\<lambda>j. if int j \<in> set w then x else v ! j) [0..<length v]))
    | Int32 \<Rightarrow>
        ix_nonzero A ix = Inl DGLError \<and> ix_append_zeros A n ix = Inl DGLError \<and>
        ix_set_items A ix index (Val_int x) = Inl RuntimeError"
proof -
  obtain ix' where ix': "ix_tousertensor Cpu ix = Inr (v, ix')" "ix_repr ix' v" "ix_same ix ix'"
    using usr.readE [OF assms(1)] by blast
  note len = ix_len_repr [OF assms(1,3)]
  show ?thesis
  proof (cases "ix_dtype ix")
    case Int32
    then have "ix_nonzero A ix = Inl DGLError" using ix' by (simp add: ix_nonzero_def ix_same_def)
    moreover have "ix_append_zeros A n ix = Inl DGLError"
      using ix' len Int32 assms(7) by (simp add: ix_append_zeros_def ix_same_def Let_def)
    ultimately show ?thesis using set_items_fold [OF assms(1,4-6), of A] Int32 by simp
  next
    case Int64
    let ?nz = "nonzero_1d (map (\<lambda>x. x \<noteq> 0) v)" and ?zs = "v @ replicate (nat n) 0"
    have "list_all (fits Int64) ?nz" using assms(2) by (intro nonzero_fits) simp
    from tensor_index_ok [OF this, of A] have nz: "\<exists>r ix'. ix_nonzero A ix = Inr (r, ix') \<and> ix_repr r ?nz"
      using ix' Int64 by (auto simp: ix_nonzero_def ix_same_def)
    have "list_all (fits Int64) v" using repr_fits [OF assms(1)] Int64 by simp
    then have "list_all (fits Int64) ?zs" by (auto simp: list_all_iff fits_def)
    from tensor_index_ok [OF this, of A] have "\<exists>r ix'. ix_append_zeros A n ix = Inr (r, ix') \<and> ix_repr r ?zs"
      using ix' len Int64 assms(7) by (auto simp: ix_append_zeros_def ix_same_def Let_def)
    with nz set_items_fold [OF assms(1,4-6), of A] Int64 show ?thesis by simp
  qed
qed

definition no_objects :: "unit asarray" where
  "no_objects = (\<lambda>_ _. None)"

theorem index_int64_only_witness:
  "ix_nonzero no_objects (index_empty Int32\<lparr>ix_slice := Some (0, 2)\<rparr>) = Inl DGLError"
proof -
  have "ix_repr (index_empty Int32\<lparr>ix_slice := Some (0, 2)\<rparr>) (arange 0 2)"
    "ix_repr (index_empty Int32\<lparr>ix_slice := Some (0, 1)\<rparr>) (arange 0 1)"
    by (auto simp: ix_repr_def index_empty_def list_all_iff fits_def)
  from index_int64_only [OF this(1) _ _ this(2), of 7 1 no_objects] show ?thesis
    by (simp add: valid_index_def fits_def)
qed

text \<open>\<open>has_nonzero\<close> asks whether the sum is positive, so it misses negative values.\<close>

lemma has_nonzero_sum:
  assumes "ix_repr ix v"
  shows "\<exists>ix'. ix_has_nonzero ix = Inr (0 < cast_int Int64 (sum_list v), ix')"
proof -
  obtain ix' where "ix_tousertensor Cpu ix = Inr (v, ix')" using usr.readE [OF assms] by blast
  then show ?thesis by (simp add: ix_has_nonzero_def)
qed

end
