(* ===== verification/Relabel.thy ===== *)
theory Relabel
  imports IndexProps
begin

text \<open>
  \<^verbatim>\<open>python/dgl/utils/internal.py\<close>: the functions that renumber identifiers, \<open>build_relabel_map\<close>,
  \<open>relabel\<close>, \<open>build_relabel_dict\<close>, \<open>make_invmap\<close>, and \<open>compensate\<close>, the identifiers that a
  subset leaves out. A tensor of identifiers outside an \<open>Index\<close> is its type and its values.
\<close>

section \<open>The code\<close>

type_synonym id_tensor = "int_dtype \<times> int list"

text \<open>The common part of \<open>build_relabel_map\<close> and \<open>relabel\<close>: \<open>max\<close> of no element raises, and so
  does \<open>zeros\<close> of a negative length.\<close>

definition relabel_table :: "int list \<Rightarrow> int list res" where
  "relabel_table unique_x =
     (if unique_x = [] then Inl IndexError
      else let map_len = Max (set unique_x) + 1 in
        rbind (rassert (0 \<le> map_len) RuntimeError) (\<lambda>_.
        scatter_row (replicate (nat map_len) 0) unique_x (arange 0 (int (length unique_x)))))"

definition build_relabel_map :: "torch \<Rightarrow> index_obj \<Rightarrow> bool \<Rightarrow> ((int list \<times> int list) \<times> index_obj) res" where
  "build_relabel_map T x is_sorted =
     rbind (ix_tousertensor Cpu x) (\<lambda>(xs, x).
     let unique_x = (if \<not> is_sorted then th_sort T (th_unique T xs) else xs) in
     rbind (relabel_table unique_x) (\<lambda>old_to_new. Inr ((unique_x, old_to_new), x)))"

definition relabel :: "torch \<Rightarrow> id_tensor \<Rightarrow> (id_tensor \<times> id_tensor) res" where
  "relabel T x =
     (case x of (dtype, xs) \<Rightarrow>
      let unique_x = th_unique T xs in
      rbind (relabel_table unique_x) (\<lambda>old_to_new. Inr ((dtype, unique_x), (dtype, old_to_new))))"

definition build_relabel_dict :: "int list \<Rightarrow> (int \<times> int) list" where
  "build_relabel_dict x = fold (\<lambda>(i, v) d. AList.update v (int i) d) (enumerate 0 x) []"

text \<open>\<open>make_invmap\<close>: \<open>uniq\<close> is \<open>numpy.unique\<close>, or the order in which Python lists a set.\<close>

definition make_invmap :: "(int list \<Rightarrow> int list) \<Rightarrow> int list \<Rightarrow> (int list \<times> (int \<times> int) list \<times> int list) res" where
  "make_invmap uniq array =
     (let uniques = uniq array;
          invmap = fold (\<lambda>(i, x) d. AList.update x (int i) d) (enumerate 0 uniques) [] in
      rbind (rmap (dict_get invmap) array) (\<lambda>remapped. Inr (uniques, invmap, remapped)))"

definition to_nbits_int :: "id_tensor \<Rightarrow> int \<Rightarrow> id_tensor res" where
  "to_nbits_int tensor nbits =
     rbind (rassert (nbits = 32 \<or> nbits = 64) AssertionError) (\<lambda>_.
     let d = (if nbits = 32 then Int32 else Int64) in
     Inr (d, map (cast_int d) (snd tensor)))"

definition compensate :: "id_tensor \<Rightarrow> id_tensor \<Rightarrow> id_tensor res" where
  "compensate ids origin_ids =
     rbind (scatter_row (snd origin_ids) [0] [1]) (\<lambda>mask.
     rbind (rassert (fst ids = fst origin_ids) RuntimeError) (\<lambda>_.
     rbind (scatter_row mask (snd ids) (replicate (length (snd ids)) 0)) (\<lambda>mask.
     Inr (fst ids, map (cast_int (fst ids)) (nonzero_1d (map (\<lambda>x. x \<noteq> 0) mask))))))"

section \<open>Relabelling\<close>

lemma sorted_le_last: "sorted us \<Longrightarrow> x \<in> set us \<Longrightarrow> x \<le> (last us :: int)"
  by (induction us) auto

lemma Max_last: "sorted us \<Longrightarrow> us \<noteq> [] \<Longrightarrow> Max (set us) = (last us :: int)"
  by (intro Max_eqI) (auto intro: sorted_le_last)

lemma relabel_table_value:
  assumes "sorted_wrt (<) us" and "us \<noteq> []" and "\<forall>x \<in> set us. 0 \<le> x"
  shows "\<exists>tab. relabel_table us = Inr tab \<and> length tab = nat (last us + 1) \<and>
    (\<forall>i<length us. tab ! nat (us ! i) = int i)"
proof -
  let ?n = "nat (last us + 1)" and ?vals = "arange 0 (int (length us))"
  have sorted: "sorted us" "distinct us" using assms(1) by (simp_all add: strict_sorted_iff)
  have le: "x \<le> last us" if "x \<in> set us" for x using sorted_le_last [OF sorted(1) that] .
  have "Max (set us) = last us" using sorted(1) assms(2) by (rule Max_last)
  moreover have "0 \<le> last us" using assms(2,3) by simp
  moreover have valid: "\<forall>i \<in> set us. valid_index (replicate ?n (0 :: int)) i"
    using le assms(3) by (fastforce simp: valid_index_def)
  ultimately have tab: "relabel_table us = Inr (map (\<lambda>j. case map_of (zip us ?vals) (int j) of
      None \<Rightarrow> replicate ?n 0 ! j | Some v \<Rightarrow> v) [0..<?n])"
    using assms(2) scatter_row_distinct [OF sorted(2) valid, of ?vals]
    by (simp add: relabel_table_def Let_def)
  have "(map (\<lambda>j. case map_of (zip us ?vals) (int j) of
      None \<Rightarrow> replicate ?n 0 ! j | Some v \<Rightarrow> v) [0..<?n]) ! nat (us ! i) = int i" if i: "i < length us" for i
  proof -
    have "us ! i \<in> set us" using i by simp
    then have "nat (us ! i) < ?n" "int (nat (us ! i)) = us ! i" using le assms(3) by fastforce+
    moreover have "map_of (zip us ?vals) (us ! i) = Some (int i)"
      using map_of_zip_nth_eq [OF sorted(2), of ?vals i] i by simp
    ultimately show ?thesis by simp
  qed
  with tab show ?thesis by simp
qed

text \<open>\<open>build_relabel_map\<close> numbers the distinct identifiers of its input from zero in ascending
  order: the two tensors it returns are inverse to each other, so relabelling an identifier and
  looking the label up gives the identifier back, and the second has one entry for every identifier
  up to the largest. \<open>relabel\<close> computes the same tables.\<close>

theorem relabel_roundtrip:
  assumes "torch_laws T" and "ix_repr x v" and "v \<noteq> []" and "\<forall>i \<in> set v. 0 \<le> i"
    and "is_sorted \<longrightarrow> sorted_wrt (<) v"
  shows "\<exists>n2o o2n x'. build_relabel_map T x is_sorted = Inr ((n2o, o2n), x') \<and>
    sorted_wrt (<) n2o \<and> set n2o = set v \<and> length o2n = nat (Max (set v) + 1) \<and>
    (\<forall>i<length n2o. o2n ! nat (n2o ! i) = int i) \<and>
    (\<forall>i \<in> set v. n2o ! nat (o2n ! nat i) = i) \<and>
    relabel T (d, v) = Inr ((d, n2o), (d, o2n))"
proof -
  obtain x' where x': "ix_tousertensor Cpu x = Inr (v, x')" using usr.readE [OF assms(2)] by blast
  let ?us = "th_unique T v"
  note us = torch_unique [OF assms(1), of v]
  have ne: "?us \<noteq> []" using us(2) assms(3) by force
  obtain tab where tab: "relabel_table ?us = Inr tab" "length tab = nat (last ?us + 1)"
    "\<forall>i<length ?us. tab ! nat (?us ! i) = int i"
    using relabel_table_value [OF us(1) ne] us(2) assms(4) by blast
  have uniq: "(if \<not> is_sorted then th_sort T ?us else v) = ?us"
  proof (cases is_sorted)
    case True
    then have "sorted_wrt (<) v" using assms(5) by simp
    then have "v = ?us" using us by (metis strict_sorted_equal)
    then show ?thesis using True by simp
  next
    case False
    then show ?thesis using torch_sort_strict [OF assms(1) us(1)] by simp
  qed
  have "build_relabel_map T x is_sorted = Inr ((?us, tab), x')"
    by (simp only: build_relabel_map_def x' rbind_simps prod.case uniq Let_def tab(1))
  moreover have "relabel T (d, v) = Inr ((d, ?us), (d, tab))" using tab(1) by (simp add: relabel_def Let_def)
  moreover have "Max (set v) = last ?us"
    using Max_last [of ?us] us ne by (simp add: strict_sorted_iff)
  moreover have "?us ! nat (tab ! nat i) = i" if "i \<in> set v" for i
    using that us(2) tab(3) by (metis in_set_conv_nth nat_int)
  ultimately show ?thesis using us tab
    by (intro exI [of _ ?us] exI [of _ tab] exI [of _ x']) simp
qed

theorem relabel_roundtrip_witness:
  "\<exists>n2o o2n x'. build_relabel_map torch_ref (index_empty Int64\<lparr>ix_pydata := Some [1, 5, 3, 6]\<rparr>) False =
      Inr ((n2o, o2n), x') \<and> length o2n = 7 \<and> n2o ! nat (o2n ! 5) = 5"
proof -
  let ?x = "index_empty Int64\<lparr>ix_pydata := Some [1, 5, 3, 6]\<rparr>"
  have repr: "ix_repr ?x [1, 5, 3, 6]" by (simp add: ix_repr_def index_empty_def fits_def)
  show ?thesis using relabel_roundtrip [OF torch_ref_laws repr, of False Int64] by (auto simp: eval_nat_numeral)
qed

text \<open>A loop over \<open>enumerate\<close> that numbers the elements of a list.\<close>

lemma enumerate_update_other:
  "x \<notin> set xs \<Longrightarrow> map_of (fold (\<lambda>(i, x) d. AList.update x (int i) d) (enumerate k xs) d) x = map_of d x"
  by (induction xs arbitrary: k d) (auto simp: update_conv')

lemma enumerate_update_nth:
  assumes "distinct xs" and "i < length xs"
  shows "map_of (fold (\<lambda>(i, x) d. AList.update x (int i) d) (enumerate k xs) d) (xs ! i) = Some (int (k + i))"
  using assms
proof (induction xs arbitrary: k d i)
  case Nil
  then show ?case by simp
next
  case (Cons y xs)
  show ?case
  proof (cases i)
    case 0
    then show ?thesis using Cons.prems by (simp add: enumerate_update_other update_conv')
  next
    case (Suc j)
    then show ?thesis using Cons.prems Cons.IH [of j "Suc k"] by simp
  qed
qed

lemma build_relabel_dict_nth:
  "distinct x \<Longrightarrow> i < length x \<Longrightarrow> map_of (build_relabel_dict x) (x ! i) = Some (int i)"
  by (simp add: build_relabel_dict_def enumerate_update_nth)

lemma make_invmap_roundtrip:
  assumes "distinct (uniq a)" and "set (uniq a) = set a"
  shows "\<exists>invmap remapped. make_invmap uniq a = Inr (uniq a, invmap, remapped) \<and>
    map (\<lambda>i. uniq a ! nat i) remapped = a"
proof -
  let ?d = "fold (\<lambda>(i, x) d. AList.update x (int i) d) (enumerate 0 (uniq a)) []"
  let ?pos = "\<lambda>x. the (map_of ?d x)"
  have pos: "map_of ?d x = Some (?pos x) \<and> uniq a ! nat (?pos x) = x" if x: "x \<in> set a" for x
  proof -
    obtain i where "i < length (uniq a)" "x = uniq a ! i" using x assms(2) by (metis in_set_conv_nth)
    with enumerate_update_nth [OF assms(1), of i 0 "[]"] show ?thesis by simp
  qed
  have "rmap (dict_get ?d) a = Inr (map ?pos a)" using pos by (intro rmap_total) (simp add: dict_get_Some)
  moreover have "map (\<lambda>i. uniq a ! nat i) (map ?pos a) = a" using pos by (simp add: map_idI comp_def)
  ultimately show ?thesis by (simp add: make_invmap_def Let_def)
qed

section \<open>What a subset leaves out\<close>

text \<open>\<open>compensate\<close> gives the identifiers of a consecutive range from zero that a subset leaves
  out, in order. Its documentation allows any sorted original identifiers, but it reads positions as
  identifiers: for the documented example it returns \<open>[1, 3]\<close> and not \<open>[1, 5]\<close>.\<close>

theorem compensate_complement:
  assumes "0 < n" and "n \<le> 2 ^ (dtype_bits d - 1)" and "set ids \<subseteq> {0..<n}"
  shows "compensate (d, ids) (d, arange 0 n) = Inr (d, filter (\<lambda>i. i \<notin> set ids) (arange 0 n)) \<and>
    compensate (Int64, [0, 2, 4]) (Int64, [0, 1, 2, 4, 5]) = Inr (Int64, [1, 3])"
proof
  let ?m = "nat n"
  have "scatter_row (arange 0 n) [0] [1] =
      Inr (map (\<lambda>j. if int j \<in> set [0] then 1 else arange 0 n ! j) [0..<?m])"
    using scatter_row_constant [of "[0]" "arange 0 n" 1] assms(1) by (simp add: valid_index_def)
  moreover have "map (\<lambda>j. if int j \<in> set [0] then 1 else arange 0 n ! j) [0..<?m] =
      map (\<lambda>j. if j = 0 then 1 else int j) [0..<?m]"
    by (intro map_cong) auto
  ultimately have mask: "scatter_row (arange 0 n) [0] [1] = Inr (map (\<lambda>j. if j = 0 then 1 else int j) [0..<?m])"
    by simp
  let ?mask = "map (\<lambda>j. if j = 0 then 1 else int j) [0..<?m]"
  have "\<forall>i \<in> set ids. valid_index ?mask i" using assms(1,3) by (auto simp: valid_index_def)
  from scatter_row_constant [OF this, of 0]
  have "scatter_row ?mask ids (replicate (length ids) 0) =
      Inr (map (\<lambda>j. if int j \<in> set ids then 0 else ?mask ! j) [0..<?m])"
    by simp
  moreover have "map (\<lambda>j. if int j \<in> set ids then 0 else ?mask ! j) [0..<?m] =
      map (\<lambda>j. if int j \<in> set ids then 0 else if j = 0 then 1 else int j) [0..<?m]"
    by (intro map_cong) auto
  ultimately have "scatter_row ?mask ids (replicate (length ids) 0) =
      Inr (map (\<lambda>j. if int j \<in> set ids then 0 else if j = 0 then 1 else int j) [0..<?m])"
    by simp
  moreover have "nonzero_1d (map (\<lambda>x. x \<noteq> 0) (map (\<lambda>j. if int j \<in> set ids then 0 else if j = 0 then 1 else int j) [0..<?m])) =
      filter (\<lambda>i. i \<notin> set ids) (arange 0 n)"
  proof -
    have "arange 0 n = map int [0..<?m]" by (rule nth_equalityI) simp_all
    then show ?thesis by (auto simp: nonzero_1d_def filter_map comp_def intro!: arg_cong [where f = "map int"] filter_cong)
  qed
  moreover have "map (cast_int d) (filter (\<lambda>i. i \<notin> set ids) (arange 0 n)) = filter (\<lambda>i. i \<notin> set ids) (arange 0 n)"
    using assms(2) by (intro cast_fits) (auto simp: list_all_iff fits_def)
  ultimately show "compensate (d, ids) (d, arange 0 n) = Inr (d, filter (\<lambda>i. i \<notin> set ids) (arange 0 n))"
    using mask by (simp add: compensate_def)
  show "compensate (Int64, [0, 2, 4]) (Int64, [0, 1, 2, 4, 5]) = Inr (Int64, [1, 3])"
    by code_simp
qed

theorem compensate_complement_witness:
  "compensate (Int32, [0, 3]) (Int32, arange 0 4) = Inr (Int32, [1, 2])"
proof -
  have arange: "arange 0 4 = [0, 1, 2, 3]" by (simp add: arange_def upto.simps)
  show ?thesis using compensate_complement [of 4 Int32 "[0, 3]"] by (simp add: arange)
qed

end
