(* ===== verification/Containers.thy ===== *)
theory Containers
  imports NdArray LazyValue
begin

text \<open>
  \<^verbatim>\<open>python/dgl/utils/internal.py\<close>: the containers and decorators the library is written with.
  The read-only dictionaries \<open>LazyDict\<close>, \<open>HybridDict\<close> and \<open>ReadOnlyDict\<close>, the caches
  \<open>CtxCachedObject\<close> and \<open>cached_member\<close>, the decorator \<open>retry_method_with_fix\<close>,
  \<open>group_as_dict\<close> with the flattened view \<open>FlattenedDict\<close>, and the traversals of nested
  containers \<open>apply_each\<close>, \<open>recursive_apply\<close> and \<open>recursive_apply_pair\<close>.
\<close>

section \<open>Read-only dictionaries\<close>

text \<open>What the code asks of a mapping: its keys, membership and lookup.\<close>

record ('k, 'v) dict_like =
  dk_keys :: "'k list"
  dk_contains :: "'k \<Rightarrow> bool"
  dk_getitem :: "'k \<Rightarrow> 'v res"

definition python_dict :: "('k \<times> 'v) list \<Rightarrow> ('k, 'v) dict_like" where
  "python_dict d =
     \<lparr>dk_keys = map fst d, dk_contains = (\<lambda>k. k \<in> fst ` set d), dk_getitem = dict_get d\<rparr>"

definition lazy_dict :: "('k \<Rightarrow> 'v res) \<Rightarrow> 'k list \<Rightarrow> ('k, 'v) dict_like" where
  "lazy_dict fn keys =
     \<lparr>dk_keys = keys, dk_contains = (\<lambda>k. k \<in> set keys),
      dk_getitem = (\<lambda>k. if k \<notin> set keys then Inl KeyError else fn k)\<rparr>"

fun hybrid_getitem :: "('k, 'v) dict_like list \<Rightarrow> 'k \<Rightarrow> 'v res" where
  "hybrid_getitem [] k = Inl KeyError"
| "hybrid_getitem (d # ds) k = (if dk_contains d k then dk_getitem d k else hybrid_getitem ds k)"

text \<open>The keys of a \<open>HybridDict\<close> are a set; \<open>order\<close> is the order in which it is listed.\<close>

definition hybrid_dict :: "('k list \<Rightarrow> 'k list) \<Rightarrow> ('k, 'v) dict_like list \<Rightarrow> ('k, 'v) dict_like" where
  "hybrid_dict order ds =
     (let keys = order (remdups (concat (map dk_keys ds))) in
      \<lparr>dk_keys = keys, dk_contains = (\<lambda>k. k \<in> set keys), dk_getitem = hybrid_getitem ds\<rparr>)"

definition read_only_dict :: "('k, 'v) dict_like \<Rightarrow> ('k, 'v) dict_like" where
  "read_only_dict d =
     \<lparr>dk_keys = dk_keys d, dk_contains = dk_contains d, dk_getitem = dk_getitem d\<rparr>"

definition dk_len :: "('k, 'v) dict_like \<Rightarrow> nat" where
  "dk_len d = length (dk_keys d)"

text \<open>The laws of a mapping, and what a reader derives from them.\<close>

locale mapping_like =
  fixes d :: "('k, 'v) dict_like" and m :: "'k \<Rightarrow> 'v option"
  assumes keys_dom: "set (dk_keys d) = dom m"
    and contains_dom: "dk_contains d k \<longleftrightarrow> k \<in> dom m"
    and getitem_map: "dk_getitem d k = (case m k of None \<Rightarrow> Inl KeyError | Some v \<Rightarrow> Inr v)"
begin

lemma getitem_total: "k \<in> set (dk_keys d) \<Longrightarrow> \<exists>v. dk_getitem d k = Inr v \<and> m k = Some v"
  by (auto simp: keys_dom getitem_map)

lemma getitem_missing: "\<not> dk_contains d k \<Longrightarrow> dk_getitem d k = Inl KeyError"
  by (auto simp: contains_dom getitem_map split: option.split)

lemma items_eq:
  "rmap (\<lambda>k. rbind (dk_getitem d k) (\<lambda>v. Inr (k, v))) (dk_keys d) =
    Inr (map (\<lambda>k. (k, the (m k))) (dk_keys d))"
  by (intro rmap_total) (use getitem_total in fastforce)

end

interpretation pydict: mapping_like "python_dict d" "map_of d" for d
  by unfold_locales (auto simp: python_dict_def dict_get_def dom_map_of_conv_image_fst)

lemma lazy_dict_like:
  "(\<And>k. k \<in> set keys \<Longrightarrow> fn k = Inr (f k)) \<Longrightarrow> mapping_like (lazy_dict fn keys) (\<lambda>k. if k \<in> set keys then Some (f k) else None)"
  by unfold_locales (auto simp: lazy_dict_def split: if_splits)

lemma read_only_dict_eq: "read_only_dict d = d"
  by (simp add: read_only_dict_def)

text \<open>The map a list of mappings stands for: early keys have priority.\<close>

fun merged :: "('k \<Rightarrow> 'v option) list \<Rightarrow> 'k \<Rightarrow> 'v option" where
  "merged [] k = None"
| "merged (m # ms) k = (case m k of None \<Rightarrow> merged ms k | Some v \<Rightarrow> Some v)"

lemma merged_None: "(merged ms k = None) = (\<forall>m \<in> set ms. m k = None)"
  by (induction ms) (auto split: option.splits)

lemma dom_merged: "dom (merged ms) = \<Union> (dom ` set ms)"
  by (intro set_eqI) (simp add: domIff merged_None)

lemma hybrid_getitem_merged:
  assumes "list_all2 mapping_like ds ms"
  shows "hybrid_getitem ds k = (case merged ms k of None \<Rightarrow> Inl KeyError | Some v \<Rightarrow> Inr v)"
  using assms
proof (induction rule: list_all2_induct)
  case Nil
  then show ?case by simp
next
  case (Cons d ds m ms)
  note laws = mapping_like.contains_dom [OF Cons.hyps(1)] mapping_like.getitem_map [OF Cons.hyps(1)]
  show ?case using Cons.IH by (cases "m k") (auto simp: laws)
qed

lemma hybrid_dict_like:
  assumes "list_all2 mapping_like ds ms" and "\<And>ks. set (order ks) = set ks"
  shows "mapping_like (hybrid_dict order ds) (merged ms)"
proof -
  have "\<Union> (set ` set (map dk_keys ds)) = \<Union> (dom ` set ms)"
    using assms(1) by (induction rule: list_all2_induct) (auto simp: mapping_like.keys_dom)
  then show ?thesis using assms(2) hybrid_getitem_merged [OF assms(1)]
    by unfold_locales (auto simp: hybrid_dict_def Let_def dom_merged)
qed

section \<open>Caches and retries\<close>

text \<open>\<open>CtxCachedObject\<close>: one object per context, made by the generator when it is first asked for.\<close>

record ('c, 'v) ctx_cached =
  cc_generator :: "'c \<Rightarrow> 'v res"
  cc_ctx_dict :: "('c \<times> 'v) list"

definition ctx_cached_call :: "'c \<Rightarrow> ('c, 'v) ctx_cached \<Rightarrow> ('v \<times> ('c, 'v) ctx_cached) res" where
  "ctx_cached_call ctx ob =
     rbind (if ctx \<notin> fst ` set (cc_ctx_dict ob)
            then rbind (cc_generator ob ctx) (\<lambda>v. Inr (ob\<lparr>cc_ctx_dict := AList.update ctx v (cc_ctx_dict ob)\<rparr>))
            else Inr ob)
       (\<lambda>ob. rbind (dict_get (cc_ctx_dict ob) ctx) (\<lambda>v. Inr (v, ob)))"

definition ctx_cached_denotes :: "'c \<Rightarrow> ('c, 'v) ctx_cached \<Rightarrow> 'v \<Rightarrow> bool" where
  "ctx_cached_denotes ctx ob v \<longleftrightarrow> cc_generator ob ctx = Inr v \<and> (\<forall>(c, x) \<in> set (cc_ctx_dict ob). cc_generator ob c = Inr x)"

definition same_generator :: "('c, 'v) ctx_cached \<Rightarrow> ('c, 'v) ctx_cached \<Rightarrow> bool" where
  "same_generator ob ob' \<longleftrightarrow> cc_generator ob' = cc_generator ob"

lemma ctx_cached_read:
  assumes "ctx_cached_denotes ctx ob v"
  shows "\<exists>ob'. ctx_cached_call ctx ob = Inr (v, ob') \<and> ctx_cached_denotes ctx ob' v \<and> same_generator ob ob'"
proof (cases "ctx \<in> fst ` set (cc_ctx_dict ob)")
  case False
  then have "ctx_cached_call ctx ob = Inr (v, ob\<lparr>cc_ctx_dict := cc_ctx_dict ob @ [(ctx, v)]\<rparr>)"
    using assms by (auto simp: ctx_cached_call_def ctx_cached_denotes_def update_fresh dict_get_def
        map_of_eq_None_iff [symmetric] map_of_append split: option.split)
  then show ?thesis using assms by (auto simp: ctx_cached_denotes_def same_generator_def)
next
  case True
  then obtain x where x: "map_of (cc_ctx_dict ob) ctx = Some x" by (metis map_of_eq_None_iff not_Some_eq)
  then have "x = v" using assms map_of_SomeD [OF x] by (auto simp: ctx_cached_denotes_def)
  then show ?thesis using assms True x by (simp add: ctx_cached_call_def same_generator_def dict_get_def)
qed

interpretation ctx_cached: lazy_value "ctx_cached_denotes ctx" same_generator "ctx_cached_call ctx" for ctx
  by unfold_locales (rule ctx_cached_read, assumption, simp_all add: same_generator_def)

text \<open>\<open>cached_member\<close>: the cache is keyed by the prefix and the printed arguments.\<close>

fun join_str :: "string \<Rightarrow> string list \<Rightarrow> string" where
  "join_str sep [] = []"
| "join_str sep [x] = x"
| "join_str sep (x # y # xs) = x @ sep @ join_str sep (y # xs)"

definition cache_key :: "string \<Rightarrow> string list \<Rightarrow> (string \<times> string) list \<Rightarrow> string" where
  "cache_key prefix args kwargs =
     prefix @ ''-'' @ join_str ''-'' args @ ''-'' @ join_str ''-'' (map (\<lambda>(k, v). k @ '':'' @ v) kwargs)"

definition cached_member :: "('a \<Rightarrow> string) \<Rightarrow> string \<Rightarrow> ('a list \<Rightarrow> (string \<times> 'a) list \<Rightarrow> 'v res) \<Rightarrow>
    'a list \<Rightarrow> (string \<times> 'a) list \<Rightarrow> (string \<times> 'v) list \<Rightarrow> ('v \<times> (string \<times> 'v) list) res" where
  "cached_member to_str prefix func args kwargs dic =
     (let key = cache_key prefix (map to_str args) (map (\<lambda>(k, v). (k, to_str v)) kwargs) in
      rbind (if key \<notin> fst ` set dic
             then rbind (func args kwargs) (\<lambda>v. Inr (AList.update key v dic))
             else Inr dic)
        (\<lambda>dic. rbind (dict_get dic key) (\<lambda>v. Inr (v, dic))))"

text \<open>Two calls whose arguments print alike share an entry, whatever the function returns.\<close>

lemma cached_member_collision:
  "rbind (cached_member id ''f'' (\<lambda>args _. Inr (length args)) [''a-b''] [] [])
     (\<lambda>(_, dic). rbind (cached_member id ''f'' (\<lambda>args _. Inr (length args)) [''a'', ''b''] [] dic) (\<lambda>(n, _). Inr n)) =
   Inr 1"
  by (simp add: cached_member_def cache_key_def dict_get_def)

text \<open>\<open>retry_method_with_fix\<close>: a method changes the object also when it raises.\<close>

definition retry_method_with_fix :: "('s \<Rightarrow> unit res \<times> 's) \<Rightarrow> ('s \<Rightarrow> 'a res \<times> 's) \<Rightarrow> 's \<Rightarrow> 'a res \<times> 's" where
  "retry_method_with_fix fix_method func s =
     (case func s of
        (Inr x, s) \<Rightarrow> (Inr x, s)
      | (Inl _, s) \<Rightarrow>
          case fix_method s of
            (Inl e, s) \<Rightarrow> (Inl e, s)
          | (Inr _, s) \<Rightarrow> func s)"

section \<open>Groups\<close>

definition group_step :: "('k \<times> 'v list) list \<Rightarrow> 'k \<times> 'v \<Rightarrow> ('k \<times> 'v list) list" where
  "group_step dic p = (case p of (key, value) \<Rightarrow>
     AList.update key ((case map_of dic key of None \<Rightarrow> [] | Some vs \<Rightarrow> vs) @ [value]) dic)"

definition group_as_dict :: "('k \<times> 'v) list \<Rightarrow> ('k \<times> 'v list) list" where
  "group_as_dict pairs = foldl group_step [] pairs"

record ('k, 'v) flattened_dict =
  fd_groups :: "('k \<times> 'v list) list"
  fd_group_keys :: "'k list"
  fd_group_sizes :: "int list"
  fd_group_offsets :: "int list"
  fd_idx_to_group :: "int list"

text \<open>\<open>x[a:b] = i\<close> for a number \<open>i\<close>.\<close>

definition fill_slice :: "int list \<Rightarrow> int \<Rightarrow> int \<Rightarrow> int \<Rightarrow> int list" where
  "fill_slice xs a b i =
     (let l = slice_bound (length xs) a; r = slice_bound (length xs) b in
      take l xs @ replicate (r - l) i @ drop (max l r) xs)"

text \<open>\<open>zip(*d.items())\<close> of an empty dictionary can not be unpacked into two names.\<close>

definition flattened_dict_init :: "numpy \<Rightarrow> ('k \<times> 'v list) list \<Rightarrow> ('k, 'v) flattened_dict res" where
  "flattened_dict_init N groups =
     (if groups = [] then Inl ValueError
      else
        let sizes = map (\<lambda>(k, v). int (length v)) groups;
            offsets = 0 # np_cumsum N sizes in
        rbind (py_index offsets (- 1)) (\<lambda>n.
        let table = fold (\<lambda>i t. fill_slice t (offsets ! i) (offsets ! (i + 1)) (int i))
              [0..<length groups] (replicate (nat n) 0) in
        Inr \<lparr>fd_groups = groups, fd_group_keys = map fst groups, fd_group_sizes = sizes,
             fd_group_offsets = offsets, fd_idx_to_group = table\<rparr>))"

definition flattened_len :: "('k, 'v) flattened_dict \<Rightarrow> int res" where
  "flattened_len fd = py_index (fd_group_offsets fd) (- 1)"

definition flattened_iter :: "('k, 'v) flattened_dict \<Rightarrow> ('k \<times> 'v) list res" where
  "flattened_iter fd =
     rbind (rmap (\<lambda>(i, k).
         rmap (\<lambda>j. rbind (dict_get (fd_groups fd) k) (\<lambda>g. rbind (py_index g j) (\<lambda>x. Inr (k, x))))
           (arange 0 (fd_group_sizes fd ! i)))
       (enumerate 0 (fd_group_keys fd)))
     (\<lambda>xss. Inr (concat xss))"

definition flattened_getitem :: "('k, 'v) flattened_dict \<Rightarrow> int \<Rightarrow> ('k \<times> 'v) res" where
  "flattened_getitem fd idx =
     rbind (py_index (fd_idx_to_group fd) idx) (\<lambda>i.
     rbind (py_index (fd_group_keys fd) i) (\<lambda>k.
     rbind (py_index (fd_group_offsets fd) i) (\<lambda>offset.
     rbind (dict_get (fd_groups fd) k) (\<lambda>g.
     rbind (py_index g (idx - offset)) (\<lambda>x. Inr (k, x))))))"

text \<open>\<open>maybe_flatten_dict\<close> leaves data that is not a mapping as it is.\<close>

definition maybe_flatten_dict :: "numpy \<Rightarrow> ('k \<times> 'v list) list + 'd \<Rightarrow> (('k, 'v) flattened_dict + 'd) res" where
  "maybe_flatten_dict N data =
     (case data of Inl groups \<Rightarrow> rbind (flattened_dict_init N groups) (\<lambda>fd. Inr (Inl fd)) | Inr d \<Rightarrow> Inr (Inr d))"

section \<open>Nested containers\<close>

datatype 'a nested =
    Leaf 'a
  | NMap "(string \<times> 'a nested) list"
  | NTup "'a nested list"
  | NSeq "'a nested list"

lemma rmap_cong [fundef_cong]:
  "xs = ys \<Longrightarrow> (\<And>x. x \<in> set ys \<Longrightarrow> f x = g x) \<Longrightarrow> rmap f xs = rmap g ys"
  by (induction xs arbitrary: ys) (auto intro!: rbind_cong)

fun recursive_apply :: "('a \<Rightarrow> 'b res) \<Rightarrow> 'a nested \<Rightarrow> 'b nested res" where
  "recursive_apply fn (NMap d) =
     rbind (rmap (\<lambda>(k, v). rbind (recursive_apply fn v) (\<lambda>w. Inr (k, w))) d) (\<lambda>d. Inr (NMap d))"
| "recursive_apply fn (NTup xs) = rbind (rmap (recursive_apply fn) xs) (\<lambda>ys. Inr (NTup ys))"
| "recursive_apply fn (NSeq xs) = rbind (rmap (recursive_apply fn) xs) (\<lambda>ys. Inr (NSeq ys))"
| "recursive_apply fn (Leaf x) = rbind (fn x) (\<lambda>y. Inr (Leaf y))"

text \<open>\<open>apply_each\<close> goes one level deep.\<close>

definition apply_each :: "('a nested \<Rightarrow> 'b nested res) \<Rightarrow> 'a nested \<Rightarrow> 'b nested res" where
  "apply_each fn data =
     (case data of
        NMap d \<Rightarrow> rbind (rmap (\<lambda>(k, v). rbind (fn v) (\<lambda>w. Inr (k, w))) d) (\<lambda>d. Inr (NMap d))
      | NTup xs \<Rightarrow> rbind (rmap fn xs) (\<lambda>ys. Inr (NSeq ys))
      | NSeq xs \<Rightarrow> rbind (rmap fn xs) (\<lambda>ys. Inr (NSeq ys))
      | Leaf x \<Rightarrow> fn (Leaf x))"

lemma size_zip_left: "(x, y) \<in> set (zip xs ys) \<Longrightarrow> size (x :: 'a nested) < Suc (size_list size xs)"
  by (meson le_imp_less_Suc less_imp_le_nat set_zip_leftD size_list_estimation' order_refl)

lemma size_map_value: "(k, x) \<in> set d \<Longrightarrow> size (x :: 'a nested) < Suc (size_list (size_prod (\<lambda>_. 0) size) d)"
  by (induction d) auto

text \<open>A tuple is list-like too, so a tuple and a list are zipped into a list. Where the two sides
  are not both containers the function is called on them as they are. \<open>zip\<close> stops at the shorter
  side.\<close>

function recursive_apply_pair :: "('a nested \<Rightarrow> 'b nested \<Rightarrow> 'c res) \<Rightarrow> 'a nested \<Rightarrow> 'b nested \<Rightarrow> 'c nested res" where
  "recursive_apply_pair fn data1 data2 =
     (case (data1, data2) of
        (NMap d, NMap e) \<Rightarrow>
          rbind (rmap (\<lambda>(k, x). rbind (dict_get e k) (\<lambda>y. rbind (recursive_apply_pair fn x y) (\<lambda>z. Inr (k, z)))) d)
            (\<lambda>d. Inr (NMap d))
      | (NTup xs, NTup ys) \<Rightarrow>
          rbind (rmap (\<lambda>(x, y). recursive_apply_pair fn x y) (zip xs ys)) (\<lambda>zs. Inr (NTup zs))
      | (NTup xs, NSeq ys) \<Rightarrow>
          rbind (rmap (\<lambda>(x, y). recursive_apply_pair fn x y) (zip xs ys)) (\<lambda>zs. Inr (NSeq zs))
      | (NSeq xs, NTup ys) \<Rightarrow>
          rbind (rmap (\<lambda>(x, y). recursive_apply_pair fn x y) (zip xs ys)) (\<lambda>zs. Inr (NSeq zs))
      | (NSeq xs, NSeq ys) \<Rightarrow>
          rbind (rmap (\<lambda>(x, y). recursive_apply_pair fn x y) (zip xs ys)) (\<lambda>zs. Inr (NSeq zs))
      | _ \<Rightarrow> rbind (fn data1 data2) (\<lambda>z. Inr (Leaf z)))"
  by pat_completeness auto

termination recursive_apply_pair
  by (relation "measure (\<lambda>(fn, data1, data2). size data1)")
    (auto dest: size_zip_left size_map_value)

declare recursive_apply_pair.simps [simp del]

end
