(* ===== verification/ContainerProps.thy ===== *)
theory ContainerProps
  imports Containers
begin

text \<open>
  What the containers promise: a \<open>HybridDict\<close> is the merge of its parts, \<open>FlattenedDict\<close> numbers
  the members of its groups in the order it iterates over them, grouping pairs and flattening the
  groups rearranges the pairs without mixing the order within a key, and the traversals of nested
  containers keep the structure.
\<close>

lemma rmap_map: "rmap f (map g xs) = rmap (\<lambda>x. f (g x)) xs"
  by (induction xs) simp_all

section \<open>Positions in a list of lists\<close>

lemma concat_at:
  assumes "m < length xss" and "j < length (xss ! m)"
  shows "concat xss ! (length (concat (take m xss)) + j) = xss ! m ! j"
proof -
  have "concat xss = concat (take m xss) @ xss ! m @ concat (drop (Suc m) xss)"
    using id_take_nth_drop [OF assms(1)] by (metis concat.simps(2) concat_append)
  then show ?thesis using assms(2) by (simp add: nth_append)
qed

lemma concat_position:
  assumes "p < length (concat xss)"
  obtains m j where "m < length xss" and "j < length (xss ! m)" and "p = length (concat (take m xss)) + j"
proof -
  have "\<exists>m j. m < length xss \<and> j < length (xss ! m) \<and> p = length (concat (take m xss)) + j"
    using assms
  proof (induction xss arbitrary: p)
    case Nil
    then show ?case by simp
  next
    case (Cons xs xss)
    show ?case
    proof (cases "p < length xs")
      case True
      then show ?thesis by (intro exI [of _ 0] exI [of _ p]) simp
    next
      case False
      then have "p - length xs < length (concat xss)" using Cons.prems by simp
      from Cons.IH [OF this] obtain m j where "m < length xss" "j < length (xss ! m)"
        "p - length xs = length (concat (take m xss)) + j" by blast
      then show ?thesis using False by (intro exI [of _ "Suc m"] exI [of _ j]) simp
    qed
  qed
  then show thesis using that by blast
qed

section \<open>The flattened view\<close>

definition group_items :: "('k \<times> 'v list) list \<Rightarrow> ('k \<times> 'v) list" where
  "group_items groups = concat (map (\<lambda>(k, vs). map (Pair k) vs) groups)"

definition sizes_before :: "('k \<times> 'v list) list \<Rightarrow> nat \<Rightarrow> nat" where
  "sizes_before groups m = length (group_items (take m groups))"

lemma sizes_before_0 [simp]: "sizes_before groups 0 = 0"
  by (simp add: sizes_before_def group_items_def)

lemma sizes_before_Suc:
  "m < length groups \<Longrightarrow> sizes_before groups (Suc m) = sizes_before groups m + length (snd (groups ! m))"
  by (simp add: sizes_before_def group_items_def take_Suc_conv_app_nth split: prod.split)

lemma sizes_before_mono: "m \<le> n \<Longrightarrow> n \<le> length groups \<Longrightarrow> sizes_before groups m \<le> sizes_before groups n"
  by (induction n) (auto simp: le_Suc_eq sizes_before_Suc)

lemma sizes_before_all: "sizes_before groups (length groups) = length (group_items groups)"
  by (simp add: sizes_before_def)

lemma sum_sizes:
  "m \<le> length groups \<Longrightarrow>
    sum_list (take m (map (\<lambda>(k, v). int (length v)) groups)) = int (sizes_before groups m)"
proof (induction m)
  case 0
  then show ?case by simp
next
  case (Suc m)
  then show ?case by (simp add: sum_list_take_Suc sizes_before_Suc split: prod.split)
qed

lemma group_offsets_nth:
  assumes "numpy_laws N" and "m \<le> length groups"
  shows "(0 # np_cumsum N (map (\<lambda>(k, v). int (length v)) groups)) ! m = int (sizes_before groups m)"
proof (cases m)
  case 0
  then show ?thesis by simp
next
  case (Suc i)
  have "np_cumsum N (map (\<lambda>(k, v). int (length v)) groups) = prefix_sums (map (\<lambda>(k, v). int (length v)) groups)"
    using assms(1) by (simp add: numpy_laws_def)
  then show ?thesis using Suc assms(2) sum_sizes [of m groups] by simp
qed

lemma cumsum_length: "numpy_laws N \<Longrightarrow> length (np_cumsum N xs) = length xs"
  by (simp add: numpy_laws_def)

text \<open>After \<open>m\<close> rounds of the loop the table is filled up to the end of group \<open>m\<close>.\<close>

definition group_table :: "('k \<times> 'v list) list \<Rightarrow> nat \<Rightarrow> int list" where
  "group_table groups m = concat (map (\<lambda>i. replicate (length (snd (groups ! i))) (int i)) [0..<m])"

lemma length_group_table: "m \<le> length groups \<Longrightarrow> length (group_table groups m) = sizes_before groups m"
  by (induction m) (simp_all add: group_table_def sizes_before_Suc)

lemma group_table_Suc:
  "group_table groups (Suc m) = group_table groups m @ replicate (length (snd (groups ! m))) (int m)"
  by (simp add: group_table_def)

lemma fill_slice_at_end:
  assumes "length xs = l" and "l \<le> r" and "r - l \<le> k"
  shows "fill_slice (xs @ replicate k 0) (int l) (int r) i = xs @ replicate (r - l) i @ replicate (k - (r - l)) 0"
  using assms by (auto simp: fill_slice_def slice_bound_def Let_def min_def max_def)

lemma fill_table:
  assumes "\<And>i. i \<le> length groups \<Longrightarrow> offsets ! i = int (sizes_before groups i)" and "m \<le> length groups"
  shows "fold (\<lambda>i t. fill_slice t (offsets ! i) (offsets ! (i + 1)) (int i)) [0..<m]
      (replicate (sizes_before groups (length groups)) 0) =
    group_table groups m @ replicate (sizes_before groups (length groups) - sizes_before groups m) 0"
  using assms(2)
proof (induction m)
  case 0
  then show ?case by (simp add: group_table_def)
next
  case (Suc m)
  let ?n = "sizes_before groups (length groups)"
  have le: "sizes_before groups m \<le> sizes_before groups (Suc m)" "sizes_before groups (Suc m) \<le> ?n"
    using Suc.prems by (auto intro: sizes_before_mono)
  have len: "length (group_table groups m) = sizes_before groups m" using Suc.prems by (simp add: length_group_table)
  have "fold (\<lambda>i t. fill_slice t (offsets ! i) (offsets ! (i + 1)) (int i)) [0..<Suc m] (replicate ?n 0) =
      fill_slice (group_table groups m @ replicate (?n - sizes_before groups m) 0)
        (int (sizes_before groups m)) (int (sizes_before groups (Suc m))) (int m)"
    using Suc assms(1) by simp
  also have "\<dots> = group_table groups m @ replicate (sizes_before groups (Suc m) - sizes_before groups m) (int m) @
      replicate (?n - sizes_before groups m - (sizes_before groups (Suc m) - sizes_before groups m)) 0"
    using le by (intro fill_slice_at_end [OF len]) simp_all
  also have "\<dots> = group_table groups (Suc m) @ replicate (?n - sizes_before groups (Suc m)) 0"
    using Suc.prems le by (simp add: group_table_Suc sizes_before_Suc)
  finally show ?case .
qed

definition flattened_of :: "('k \<times> 'v list) list \<Rightarrow> ('k, 'v) flattened_dict" where
  "flattened_of groups =
     \<lparr>fd_groups = groups, fd_group_keys = map fst groups,
      fd_group_sizes = map (\<lambda>(k, v). int (length v)) groups,
      fd_group_offsets = map (\<lambda>m. int (sizes_before groups m)) [0..<Suc (length groups)],
      fd_idx_to_group = group_table groups (length groups)\<rparr>"

lemma flattened_dict_init_eq:
  assumes "numpy_laws N" and "groups \<noteq> []"
  shows "flattened_dict_init N groups = Inr (flattened_of groups)"
proof -
  let ?off = "0 # np_cumsum N (map (\<lambda>(k, v). int (length v)) groups)"
  have off: "?off = map (\<lambda>m. int (sizes_before groups m)) [0..<Suc (length groups)]"
    using group_offsets_nth [OF assms(1), of _ groups] cumsum_length [OF assms(1)]
    by (intro nth_equalityI) (simp_all del: upt_Suc)
  have "py_index ?off (- 1) = Inr (int (sizes_before groups (length groups)))"
    unfolding off by (subst py_index_last) simp_all
  moreover have "fold (\<lambda>i t. fill_slice t (?off ! i) (?off ! (i + 1)) (int i)) [0..<length groups]
      (replicate (sizes_before groups (length groups)) 0) = group_table groups (length groups)"
    using fill_table [of groups ?off "length groups"] group_offsets_nth [OF assms(1), of _ groups] by simp
  ultimately show ?thesis unfolding flattened_dict_init_def Let_def off
    using assms(2) by (simp add: flattened_of_def del: upt_Suc)
qed

lemma group_table_nth:
  assumes "m < length groups" and "j < length (snd (groups ! m))"
  shows "group_table groups (length groups) ! (sizes_before groups m + j) = int m"
proof -
  let ?xss = "map (\<lambda>i. replicate (length (snd (groups ! i))) (int i)) [0..<length groups]"
  have "length (concat (take m ?xss)) = sizes_before groups m"
    using length_group_table [of m groups] assms(1) by (simp add: group_table_def take_map)
  then show ?thesis using concat_at [of m ?xss j] assms by (simp add: group_table_def)
qed

lemma group_items_nth:
  assumes "m < length groups" and "j < length (snd (groups ! m))"
  shows "group_items groups ! (sizes_before groups m + j) = (fst (groups ! m), snd (groups ! m) ! j)"
  using concat_at [of m "map (\<lambda>(k, vs). map (Pair k) vs) groups" j] assms
  by (cases "groups ! m") (simp add: group_items_def sizes_before_def take_map)

lemma group_items_position:
  assumes "p < length (group_items groups)"
  obtains m j where "m < length groups" and "j < length (snd (groups ! m))" and "p = sizes_before groups m + j"
proof -
  from assms have "p < length (concat (map (\<lambda>(k, vs). map (Pair k) vs) groups))" by (simp add: group_items_def)
  then obtain m j where "m < length groups" "j < length (map (\<lambda>(k, vs). map (Pair k) vs) groups ! m)"
    "p = length (concat (take m (map (\<lambda>(k, vs). map (Pair k) vs) groups))) + j"
    by (rule concat_position) simp
  then show thesis using that [of m j]
    by (simp add: sizes_before_def group_items_def take_map split: prod.splits)
qed

lemma group_get:
  "distinct (map fst groups) \<Longrightarrow> m < length groups \<Longrightarrow>
    dict_get groups (fst (groups ! m)) = Inr (snd (groups ! m))"
  by (simp add: dict_get_Some)

lemma flattened_getitem_nth:
  assumes "distinct (map fst groups)" and "p < length (group_items groups)"
  shows "flattened_getitem (flattened_of groups) (int p) = Inr (group_items groups ! p)"
proof -
  from assms(2) obtain m j where m: "m < length groups" "j < length (snd (groups ! m))"
    "p = sizes_before groups m + j" by (rule group_items_position)
  have "p < length (group_table groups (length groups))"
    using assms(2) by (simp add: length_group_table sizes_before_all)
  then have "py_index (group_table groups (length groups)) (int p) = Inr (group_table groups (length groups) ! p)"
    by (rule py_index_of_nat)
  also have "group_table groups (length groups) ! p = int m"
    using group_table_nth [OF m(1,2)] m(3) by simp
  finally have "py_index (group_table groups (length groups)) (int p) = Inr (int m)" .
  moreover have "py_index (map (\<lambda>m. int (sizes_before groups m)) [0..<Suc (length groups)]) (int m) =
      Inr (int (sizes_before groups m))"
    using m(1) by (subst py_index_of_nat) (simp_all del: upt_Suc)
  moreover have "int p - int (sizes_before groups m) = int j" using m(3) by simp
  ultimately show ?thesis using m group_get [OF assms(1) m(1)] group_items_nth [OF m(1,2)]
    by (simp add: flattened_getitem_def flattened_of_def dict_get_Some del: upt_Suc)
qed

lemma flattened_getitem_out:
  "int (length (group_items groups)) \<le> i \<Longrightarrow> flattened_getitem (flattened_of groups) i = Inl IndexError"
  by (simp add: flattened_getitem_def flattened_of_def py_index_out length_group_table sizes_before_all)

lemma flattened_iter_items:
  assumes "distinct (map fst groups)"
  shows "flattened_iter (flattened_of groups) = Inr (group_items groups)"
proof -
  let ?part = "\<lambda>(i, k). rmap (\<lambda>j. rbind (dict_get groups k) (\<lambda>g. rbind (py_index g j) (\<lambda>x. Inr (k, x))))
    (arange 0 (map (\<lambda>(k, v). int (length v)) groups ! i))"
  have "?part (m, fst (groups ! m)) = Inr (map (Pair (fst (groups ! m))) (snd (groups ! m)))"
    if m: "m < length groups" for m
  proof -
    have size: "map (\<lambda>(k, v). int (length v)) groups ! m = int (length (snd (groups ! m)))"
      using m by (simp split: prod.split)
    have "rmap (\<lambda>j. rbind (py_index (snd (groups ! m)) j) (\<lambda>x. Inr (fst (groups ! m), x)))
        (arange 0 (int (length (snd (groups ! m))))) =
      Inr (map (\<lambda>j. (fst (groups ! m), snd (groups ! m) ! nat j)) (arange 0 (int (length (snd (groups ! m))))))"
      by (intro rmap_total) simp
    moreover have "map (\<lambda>j. (fst (groups ! m), snd (groups ! m) ! nat j)) (arange 0 (int (length (snd (groups ! m))))) =
        map (Pair (fst (groups ! m))) (snd (groups ! m))"
      by (intro nth_equalityI) simp_all
    ultimately show ?thesis using group_get [OF assms m] by (simp add: size dict_get_Some)
  qed
  then have "rmap ?part (enumerate 0 (map fst groups)) =
      Inr (map (\<lambda>(m, k). map (Pair (fst (groups ! m))) (snd (groups ! m))) (enumerate 0 (map fst groups)))"
    by (intro rmap_total) (auto simp: in_set_enumerate_eq)
  moreover have "map (\<lambda>(m, k). map (Pair (fst (groups ! m))) (snd (groups ! m))) (enumerate 0 (map fst groups)) =
      map (\<lambda>(k, vs). map (Pair k) vs) groups"
    by (intro nth_equalityI) (simp_all add: nth_enumerate_eq case_prod_beta)
  ultimately show ?thesis by (simp add: flattened_iter_def flattened_of_def group_items_def)
qed

section \<open>Grouping\<close>

lemma group_step_map:
  "map_of (group_step dic (key, v)) = (map_of dic)(key \<mapsto> (case map_of dic key of None \<Rightarrow> [] | Some vs \<Rightarrow> vs) @ [v])"
  by (simp add: group_step_def update_conv')

lemma group_as_dict_distinct: "distinct (map fst (group_as_dict pairs))"
proof -
  have "distinct (map fst dic) \<Longrightarrow> distinct (map fst (foldl group_step dic pairs))" for dic
    by (induction pairs arbitrary: dic) (auto simp: group_step_def distinct_update split: prod.split)
  then show ?thesis by (simp add: group_as_dict_def)
qed

lemma group_as_dict_map:
  "map_of (group_as_dict pairs) key =
    (if key \<in> fst ` set pairs then Some (map snd (filter (\<lambda>p. fst p = key) pairs)) else None)"
proof -
  have "map_of (foldl group_step dic pairs) key =
    (if key \<in> fst ` set pairs
     then Some ((case map_of dic key of None \<Rightarrow> [] | Some vs \<Rightarrow> vs) @ map snd (filter (\<lambda>p. fst p = key) pairs))
     else map_of dic key)" for dic
    by (induction pairs arbitrary: dic) (auto simp: group_step_map filter_empty_conv)
  then show ?thesis by (simp add: group_as_dict_def)
qed

lemma filter_group_items:
  assumes "distinct (map fst groups)"
  shows "filter (\<lambda>p. fst p = key) (group_items groups) =
    (case map_of groups key of None \<Rightarrow> [] | Some vs \<Rightarrow> map (Pair key) vs)"
  using assms
proof (induction groups)
  case Nil
  then show ?case by (simp add: group_items_def)
next
  case (Cons g groups)
  obtain k vs where g: "g = (k, vs)" by (cases g)
  have "filter (\<lambda>p. fst p = key) (map (Pair k) vs) = (if k = key then map (Pair k) vs else [])"
    by (simp add: filter_map comp_def)
  moreover have "map_of groups k = None" using Cons.prems g by (simp add: map_of_eq_None_iff)
  ultimately show ?case using Cons g by (auto simp: group_items_def)
qed

text \<open>\<open>FlattenedDict\<close> over the groups of a list of pairs numbers the pairs again: its length is
  their number, item \<open>i\<close> is the \<open>i\<close>-th pair of its iteration, positions at and behind the end raise
  an \<open>IndexError\<close>, and the iteration is a rearrangement of the pairs that keeps the order within
  each key. No pairs give no view: the constructor raises \<open>ValueError\<close>.\<close>

theorem flattened_groups:
  assumes "numpy_laws N" and "pairs \<noteq> []"
  shows "\<exists>fd items. flattened_dict_init N (group_as_dict pairs) = Inr fd \<and> flattened_iter fd = Inr items \<and>
    flattened_len fd = Inr (int (length pairs)) \<and>
    (\<forall>i<length items. flattened_getitem fd (int i) = Inr (items ! i)) \<and>
    (\<forall>i\<ge>int (length pairs). flattened_getitem fd i = Inl IndexError) \<and>
    mset items = mset pairs \<and> (\<forall>key. filter (\<lambda>p. fst p = key) items = filter (\<lambda>p. fst p = key) pairs) \<and>
    flattened_dict_init N (group_as_dict ([] :: ('k \<times> 'v) list)) = Inl ValueError"
proof -
  let ?g = "group_as_dict pairs"
  note dist = group_as_dict_distinct [of pairs]
  have ne: "?g \<noteq> []" using group_as_dict_map [of pairs "fst (hd pairs)"] assms(2) by auto
  have order: "filter (\<lambda>p. fst p = key) (group_items ?g) = filter (\<lambda>p. fst p = key) pairs" for key
  proof -
    have "map (Pair key) (map snd (filter (\<lambda>p. fst p = key) pairs)) = filter (\<lambda>p. fst p = key) pairs"
      by (induction pairs) auto
    moreover have "filter (\<lambda>p. fst p = key) pairs = []" if "key \<notin> fst ` set pairs"
      using that by (auto simp: filter_empty_conv)
    ultimately show ?thesis by (simp add: filter_group_items [OF dist] group_as_dict_map)
  qed
  then have perm: "mset (group_items ?g) = mset pairs" by (rule mset_by_key)
  then have len: "length (group_items ?g) = length pairs" by (metis size_mset)
  have "flattened_len (flattened_of ?g) = Inr (int (length pairs))"
    unfolding flattened_len_def flattened_of_def
    by (subst py_index_last) (simp_all add: sizes_before_all len)
  moreover have "flattened_dict_init N (group_as_dict ([] :: ('k \<times> 'v) list)) = Inl ValueError"
    by (simp add: flattened_dict_init_def group_as_dict_def)
  ultimately show ?thesis
    using flattened_dict_init_eq [OF assms(1) ne] flattened_iter_items [OF dist] order perm len
      flattened_getitem_nth [OF dist] flattened_getitem_out [of ?g]
    by (intro exI [of _ "flattened_of ?g"] exI [of _ "group_items ?g"]) simp
qed

theorem flattened_groups_witness:
  "\<exists>fd. flattened_dict_init numpy_ref (group_as_dict [(''a'', 1), (''b'', 2), (''a'', 3 :: int)]) = Inr fd \<and>
    flattened_len fd = Inr 3"
  using flattened_groups [OF numpy_ref_laws, of "[(''a'', 1), (''b'', 2), (''a'', 3 :: int)]"] by auto

section \<open>Merged dictionaries\<close>

text \<open>A \<open>HybridDict\<close> of Python dictionaries, possibly wrapped as read-only, is their merge in
  which earlier dictionaries have priority: it has the keys of all, lookup finds what the first
  dictionary with the key holds, and a key of none of them raises \<open>KeyError\<close>. Its length is the
  number of distinct keys.\<close>

theorem hybrid_dict_merge:
  fixes dicts :: "('k \<times> 'v) list list"
  assumes "\<And>ks. mset (order ks) = mset ks"
  shows "let h = hybrid_dict order (map (\<lambda>d. read_only_dict (python_dict d)) dicts) in
    (\<forall>k. dk_getitem h k = (case map_of (concat dicts) k of None \<Rightarrow> Inl KeyError | Some v \<Rightarrow> Inr v)) \<and>
    (\<forall>k. dk_contains h k = (k \<in> fst ` set (concat dicts))) \<and>
    dk_len h = card (fst ` set (concat dicts))"
proof -
  have like: "list_all2 mapping_like (map (\<lambda>d. read_only_dict (python_dict d)) dicts) (map map_of dicts)"
    by (simp add: list_all2_conv_all_nth read_only_dict_eq pydict.mapping_like_axioms)
  have merge: "merged (map map_of dicts) k = map_of (concat dicts) k" for k
    by (induction dicts) (auto simp: map_add_def split: option.split)
  have set: "set (order ks) = set ks" for ks using assms by (rule mset_eq_setD)
  note h = hybrid_dict_like [OF like, of order, OF set]
  have dom: "dom (merged (map map_of dicts)) = fst ` set (concat dicts)"
  proof -
    have "merged (map map_of dicts) = map_of (concat dicts)" using merge by blast
    then show ?thesis by (simp only: dom_map_of_conv_image_fst)
  qed
  let ?h = "hybrid_dict order (map (\<lambda>d. read_only_dict (python_dict d)) dicts)"
  have "length (order (remdups ks)) = card (set (order (remdups ks)))" for ks :: "'k list"
    using assms [of "remdups ks"] set [of "remdups ks"] by (metis size_mset length_remdups_card_conv set_remdups)
  then have "dk_len ?h = card (set (dk_keys ?h))" by (simp add: dk_len_def hybrid_dict_def Let_def)
  then have len: "dk_len ?h = card (fst ` set (concat dicts))"
    by (simp only: mapping_like.keys_dom [OF h] dom)
  have get: "dk_getitem ?h k = (case map_of (concat dicts) k of None \<Rightarrow> Inl KeyError | Some v \<Rightarrow> Inr v)" for k
    by (simp only: mapping_like.getitem_map [OF h] merge)
  have "dk_contains ?h k = (k \<in> fst ` set (concat dicts))" for k
    by (simp only: mapping_like.contains_dom [OF h] dom)
  with get len show ?thesis by (simp only: Let_def) blast
qed

theorem hybrid_dict_merge_witness:
  "dk_getitem (hybrid_dict id (map (\<lambda>d. read_only_dict (python_dict d)) [[(''a'', 1)], [(''a'', 2), (''b'', 3 :: int)]])) ''a'' =
    Inr 1"
  using hybrid_dict_merge [of id "[[(''a'', 1)], [(''a'', 2), (''b'', 3 :: int)]]"] by (simp add: Let_def)

section \<open>Nested containers\<close>

fun nested_ok :: "'a nested \<Rightarrow> bool" where
  "nested_ok (Leaf x) = True"
| "nested_ok (NMap d) = (distinct (map fst d) \<and> (\<forall>(k, t) \<in> set d. nested_ok t))"
| "nested_ok (NTup ts) = (\<forall>t \<in> set ts. nested_ok t)"
| "nested_ok (NSeq ts) = (\<forall>t \<in> set ts. nested_ok t)"

lemma recursive_apply_map: "recursive_apply (\<lambda>x. Inr (f x)) t = Inr (map_nested f t)"
proof (induction t)
  case (NMap d)
  have "rmap (\<lambda>(k, v). rbind (recursive_apply (\<lambda>x. Inr (f x)) v) (\<lambda>w. Inr (k, w))) d =
      Inr (map (\<lambda>(k, v). (k, map_nested f v)) d)"
    using NMap.IH by (intro rmap_total) fastforce
  then show ?case by (simp add: map_prod_def case_prod_beta)
next
  case (NTup ts)
  then show ?case by (simp add: rmap_total)
next
  case (NSeq ts)
  then show ?case by (simp add: rmap_total)
qed simp

lemma recursive_apply_pair_simps [simp]:
  "recursive_apply_pair h (Leaf x) (Leaf y) = rbind (h (Leaf x) (Leaf y)) (\<lambda>z. Inr (Leaf z))"
  "recursive_apply_pair h (NMap d) (NMap e) =
    rbind (rmap (\<lambda>(k, x). rbind (dict_get e k) (\<lambda>y. rbind (recursive_apply_pair h x y) (\<lambda>z. Inr (k, z)))) d)
      (\<lambda>d. Inr (NMap d))"
  "recursive_apply_pair h (NTup xs) (NTup ys) =
    rbind (rmap (\<lambda>(x, y). recursive_apply_pair h x y) (zip xs ys)) (\<lambda>zs. Inr (NTup zs))"
  "recursive_apply_pair h (NSeq xs) (NSeq ys) =
    rbind (rmap (\<lambda>(x, y). recursive_apply_pair h x y) (zip xs ys)) (\<lambda>zs. Inr (NSeq zs))"
  by (subst recursive_apply_pair.simps, simp)+

lemma zip_applied:
  assumes "\<And>t. t \<in> set ts \<Longrightarrow> recursive_apply_pair h (map_nested f t) (map_nested g t) = k t"
  shows "rmap (\<lambda>(x, y). recursive_apply_pair h x y) (zip (map (map_nested f) ts) (map (map_nested g) ts)) = rmap k ts"
proof -
  have "zip (map (map_nested f) ts) (map (map_nested g) ts) = map (\<lambda>t. (map_nested f t, map_nested g t)) ts"
    by (induction ts) simp_all
  then have "rmap (\<lambda>(x, y). recursive_apply_pair h x y) (zip (map (map_nested f) ts) (map (map_nested g) ts)) =
      rmap (\<lambda>t. recursive_apply_pair h (map_nested f t) (map_nested g t)) ts"
    by (simp only: rmap_map prod.case)
  also have "\<dots> = rmap k ts" using assms by (intro rmap_cong) simp_all
  finally show ?thesis .
qed

text \<open>The traversals of nested containers keep their structure: \<open>recursive_apply\<close> replaces every
  leaf and nothing else, and \<open>recursive_apply_pair\<close> of two containers made from the same one
  combines the leaves that stand at the same place.\<close>

theorem recursive_apply_pair_zip:
  assumes "nested_ok t"
  shows "rbind (recursive_apply (\<lambda>x. Inr (f x)) t) (\<lambda>t1. rbind (recursive_apply (\<lambda>x. Inr (g x)) t) (\<lambda>t2.
      recursive_apply_pair h t1 t2)) =
    recursive_apply (\<lambda>x. h (Leaf (f x)) (Leaf (g x))) t"
  unfolding recursive_apply_map rbind_simps
  using assms
proof (induction t)
  case (Leaf x)
  then show ?case by simp
next
  case (NMap d)
  have "rbind (dict_get (map (\<lambda>(k, v). (k, map_nested g v)) d) k) (\<lambda>y.
      rbind (recursive_apply_pair h (map_nested f v) y) (\<lambda>z. Inr (k, z))) =
    rbind (recursive_apply (\<lambda>x. h (Leaf (f x)) (Leaf (g x))) v) (\<lambda>w. Inr (k, w))" if kv: "(k, v) \<in> set d" for k v
  proof -
    have "map_of d k = Some v" using NMap.prems kv by simp
    then have "map_of (map (\<lambda>(k, v). (k, map_nested g v)) d) k = Some (map_nested g v)"
      by (simp add: map_of_map)
    moreover have "recursive_apply_pair h (map_nested f v) (map_nested g v) =
        recursive_apply (\<lambda>x. h (Leaf (f x)) (Leaf (g x))) v"
      using NMap.IH [OF kv, of v] NMap.prems kv by auto
    ultimately show ?thesis by (simp add: dict_get_Some)
  qed
  then have "rmap (\<lambda>(k, x). rbind (dict_get (map (\<lambda>(k, v). (k, map_nested g v)) d) k) (\<lambda>y.
        rbind (recursive_apply_pair h x y) (\<lambda>z. Inr (k, z)))) (map (\<lambda>(k, v). (k, map_nested f v)) d) =
      rmap (\<lambda>(k, v). rbind (recursive_apply (\<lambda>x. h (Leaf (f x)) (Leaf (g x))) v) (\<lambda>w. Inr (k, w))) d"
    unfolding rmap_map by (intro rmap_cong) auto
  then show ?case by (simp add: map_prod_def case_prod_beta)
next
  case (NTup ts)
  then have "recursive_apply_pair h (map_nested f t) (map_nested g t) =
      recursive_apply (\<lambda>x. h (Leaf (f x)) (Leaf (g x))) t" if "t \<in> set ts" for t using that by simp
  from zip_applied [OF this] show ?case by simp
next
  case (NSeq ts)
  then have "recursive_apply_pair h (map_nested f t) (map_nested g t) =
      recursive_apply (\<lambda>x. h (Leaf (f x)) (Leaf (g x))) t" if "t \<in> set ts" for t using that by simp
  from zip_applied [OF this] show ?case by simp
qed

fun add_leaves :: "int nested \<Rightarrow> int nested \<Rightarrow> int res" where
  "add_leaves (Leaf a) (Leaf b) = Inr (a + b)"
| "add_leaves _ _ = Inl TypeError"

definition example_nested :: "int nested" where
  "example_nested = NMap [(''a'', Leaf 1), (''b'', NTup [Leaf 2, Leaf 3])]"

theorem recursive_apply_pair_zip_witness:
  "rbind (recursive_apply (\<lambda>x. Inr x) example_nested) (\<lambda>t1. rbind (recursive_apply (\<lambda>x. Inr (10 * x)) example_nested)
      (\<lambda>t2. recursive_apply_pair add_leaves t1 t2)) =
    Inr (NMap [(''a'', Leaf 11), (''b'', NTup [Leaf 22, Leaf 33])])"
proof -
  have "nested_ok example_nested" by (simp add: example_nested_def)
  note zip = recursive_apply_pair_zip [OF this, of "\<lambda>x. x" "\<lambda>x. 10 * x" add_leaves]
  have "recursive_apply (\<lambda>x. add_leaves (Leaf x) (Leaf (10 * x))) example_nested =
      Inr (NMap [(''a'', Leaf 11), (''b'', NTup [Leaf 22, Leaf 33])])"
    by (simp add: example_nested_def)
  with zip show ?thesis by (simp only:)
qed

end
