(* ===== verification/StandaloneStore.thy ===== *)
theory StandaloneStore
  imports KVServerProps Roles Relabel
begin

text \<open>
  \<^verbatim>\<open>python/dgl/distributed/standalone_kvstore.py\<close>: the key-value store of the standalone mode, one
  process that holds whole tensors. A tensor is a cell of the process's memory and the store holds
  views of cells, so that a tensor given to \<open>add_data\<close> stays shared with the caller.
  \<open>kv_client_ops\<close> is what a \<open>DistTensor\<close> calls of a store, whichever kind it is.
\<close>

section \<open>Tensors\<close>

datatype init_func = Default_init | Init_udf nat

text \<open>What the store calls of the tensor library: \<open>zeros\<close>, \<open>x | y\<close> and the rows of \<open>x\<close> after
  \<open>x[:] = y\<close>.\<close>

record 'v tensor_lib =
  tl_zeros :: "int list \<Rightarrow> string \<Rightarrow> 'v tensor"
  tl_or :: "'v tensor \<Rightarrow> 'v tensor \<Rightarrow> 'v tensor res"
  tl_assign :: "'v tensor \<Rightarrow> 'v tensor \<Rightarrow> 'v list res"

definition run_init :: "'v udfs \<Rightarrow> 'v tensor_lib \<Rightarrow> init_func \<Rightarrow> int list \<Rightarrow> string \<Rightarrow> 'v tensor" where
  "run_init U L f shape dtype =
     (case f of Default_init \<Rightarrow> tl_zeros L shape dtype | Init_udf k \<Rightarrow> ud_init U k shape dtype)"

definition new_tensor :: "'v tensor \<Rightarrow> 'v memory \<Rightarrow> view \<times> 'v memory" where
  "new_tensor t m =
     (let v = \<lparr>vw_addr = mm_next m, vw_shape = tn_shape t, vw_dtype = tn_dtype t, vw_own = True\<rparr> in
      (v, write_rows v (tn_rows t) (m\<lparr>mm_next := mm_next m + 1\<rparr>)))"

definition view_tensor :: "'v memory \<Rightarrow> view \<Rightarrow> 'v tensor" where
  "view_tensor m v = \<lparr>tn_dtype = vw_dtype v, tn_dims = tl (vw_shape v), tn_rows = view_rows m v\<rparr>"

section \<open>The store\<close>

record standalone_client =
  sc_data :: data_store
  sc_all_possible_part_policy :: "(string \<times> partition_policy) list"
  sc_push_handlers :: "(string \<times> handler) list"
  sc_pull_handlers :: "(string \<times> handler) list"
  sc_gdata_name_list :: "string list"

type_synonym 'v standalone_state = "standalone_client \<times> 'v memory"

definition standalone_init :: standalone_client where
  "standalone_init =
     \<lparr>sc_data = [], sc_all_possible_part_policy = [], sc_push_handlers = [], sc_pull_handlers = [],
      sc_gdata_name_list = []\<rparr>"

definition sa_num_servers :: "standalone_client \<Rightarrow> int" where
  "sa_num_servers s = 1"

definition sa_barrier :: "'v standalone_state \<Rightarrow> 'v standalone_state" where
  "sa_barrier st = st"

definition sa_map_shared_data :: "range_book \<Rightarrow> 'v standalone_state \<Rightarrow> 'v standalone_state" where
  "sa_map_shared_data partition_book st = st"

definition sa_register_push_handler :: "string \<Rightarrow> handler \<Rightarrow> standalone_client \<Rightarrow> standalone_client" where
  "sa_register_push_handler name func s = s\<lparr>sc_push_handlers := AList.update name func (sc_push_handlers s)\<rparr>"

definition sa_register_pull_handler :: "string \<Rightarrow> handler \<Rightarrow> standalone_client \<Rightarrow> standalone_client" where
  "sa_register_pull_handler name func s = s\<lparr>sc_pull_handlers := AList.update name func (sc_pull_handlers s)\<rparr>"

definition sa_note_policy :: "partition_policy \<Rightarrow> standalone_client \<Rightarrow> standalone_client" where
  "sa_note_policy p s =
     (if pp_policy_str p \<notin> fst ` set (sc_all_possible_part_policy s)
      then s\<lparr>sc_all_possible_part_policy := AList.update (pp_policy_str p) p (sc_all_possible_part_policy s)\<rparr>
      else s)"

definition sa_note_gdata :: "string \<Rightarrow> standalone_client \<Rightarrow> standalone_client" where
  "sa_note_gdata name s = s\<lparr>sc_gdata_name_list := set_add name (sc_gdata_name_list s)\<rparr>"

definition sa_add_data :: "string \<Rightarrow> view \<Rightarrow> partition_policy \<Rightarrow> standalone_client \<Rightarrow> standalone_client" where
  "sa_add_data name tensor p s =
     sa_note_policy p (sa_note_gdata name (s\<lparr>sc_data := AList.update name tensor (sc_data s)\<rparr>))"

definition sa_init_data :: "'v udfs \<Rightarrow> 'v tensor_lib \<Rightarrow> string \<Rightarrow> int list \<Rightarrow> string \<Rightarrow> partition_policy \<Rightarrow> init_func \<Rightarrow>
    bool \<Rightarrow> 'v standalone_state \<Rightarrow> 'v standalone_state" where
  "sa_init_data U L name shape dtype p f is_gdata st =
     (case st of (s, m) \<Rightarrow> case new_tensor (run_init U L f shape dtype) m of (v, m) \<Rightarrow>
      let s = sa_note_policy p (s\<lparr>sc_data := AList.update name v (sc_data s)\<rparr>) in
      (if is_gdata then sa_note_gdata name s else s, m))"

definition sa_delete_data :: "string \<Rightarrow> 'v standalone_state \<Rightarrow> 'v standalone_state res" where
  "sa_delete_data name st =
     (case st of (s, m) \<Rightarrow>
      rbind (dict_del (sc_data s) name) (\<lambda>d.
      Inr (s\<lparr>sc_data := d, sc_gdata_name_list := filter (\<lambda>n. n \<noteq> name) (sc_gdata_name_list s)\<rparr>, m)))"

definition sa_data_name_list :: "'v standalone_state \<Rightarrow> string list" where
  "sa_data_name_list st = map fst (sc_data (fst st))"

definition sa_gdata_name_list :: "'v standalone_state \<Rightarrow> string list" where
  "sa_gdata_name_list st = sc_gdata_name_list (fst st)"

definition sa_get_data_meta :: "string \<Rightarrow> 'v standalone_state \<Rightarrow> (string \<times> int list) res" where
  "sa_get_data_meta name st =
     rbind (dict_get (sc_data (fst st)) name) (\<lambda>v. Inr (vw_dtype v, vw_shape v))"

definition sa_push :: "'v udfs \<Rightarrow> string \<Rightarrow> int list \<Rightarrow> 'v list \<Rightarrow> 'v standalone_state \<Rightarrow> 'v standalone_state res" where
  "sa_push U name id_tensor data_tensor st =
     (case st of (s, m) \<Rightarrow>
      case map_of (sc_push_handlers s) name of
        Some h \<Rightarrow> rbind (run_push U h m (sc_data s) name id_tensor data_tensor) (\<lambda>m. Inr (s, m))
      | None \<Rightarrow>
          rbind (dict_get (sc_data s) name) (\<lambda>v.
          rbind (put_rows (view_rows m v) id_tensor data_tensor) (\<lambda>rows. Inr (s, write_rows v rows m))))"

definition sa_pull :: "'v udfs \<Rightarrow> string \<Rightarrow> int list \<Rightarrow> 'v standalone_state \<Rightarrow> 'v list res" where
  "sa_pull U name id_tensor st =
     (case st of (s, m) \<Rightarrow>
      case map_of (sc_pull_handlers s) name of
        Some h \<Rightarrow> run_pull U h m (sc_data s) name id_tensor
      | None \<Rightarrow> rbind (dict_get (sc_data s) name) (\<lambda>v. gather_row (view_rows m v) id_tensor))"

definition sa_count_nonzero :: "'v udfs \<Rightarrow> string \<Rightarrow> 'v standalone_state \<Rightarrow> int res" where
  "sa_count_nonzero U name st =
     rbind (dict_get (sc_data (fst st)) name) (\<lambda>v. Inr (sum_list (map (ud_nonzero U) (view_rows (snd st) v))))"

definition sa_data_store :: "'v standalone_state \<Rightarrow> data_store" where
  "sa_data_store st = sc_data (fst st)"

definition sa_union :: "'v tensor_lib \<Rightarrow> string \<Rightarrow> string \<Rightarrow> string \<Rightarrow> 'v standalone_state \<Rightarrow> 'v standalone_state res" where
  "sa_union L operand1 operand2 output st =
     (case st of (s, m) \<Rightarrow>
      rbind (dict_get (sc_data s) operand1) (\<lambda>a. rbind (dict_get (sc_data s) operand2) (\<lambda>b.
      rbind (tl_or L (view_tensor m a) (view_tensor m b)) (\<lambda>t.
      rbind (dict_get (sc_data s) output) (\<lambda>v.
      rbind (tl_assign L (view_tensor m v) t) (\<lambda>rows. Inr (s, write_rows v rows m)))))))"

section \<open>The interface\<close>

record ('s, 'v) kv_client_ops =
  ko_policies :: "'s \<Rightarrow> (string \<times> partition_policy) list"
  ko_data_name_list :: "'s \<Rightarrow> string list"
  ko_init_data :: "string \<Rightarrow> int list \<Rightarrow> string \<Rightarrow> partition_policy \<Rightarrow> init_func \<Rightarrow> bool \<Rightarrow> 's \<Rightarrow> 's res"
  ko_delete_data :: "string \<Rightarrow> 's \<Rightarrow> 's res"
  ko_get_data_meta :: "string \<Rightarrow> 's \<Rightarrow> (string \<times> int list) res"
  ko_push :: "string \<Rightarrow> int list \<Rightarrow> 'v list \<Rightarrow> 's \<Rightarrow> 's res"
  ko_pull :: "string \<Rightarrow> int list \<Rightarrow> 's \<Rightarrow> 'v list res"
  ko_union :: "string \<Rightarrow> string \<Rightarrow> string \<Rightarrow> 's \<Rightarrow> 's res"
  ko_count_nonzero :: "string \<Rightarrow> 's \<Rightarrow> int res"
  ko_local_partition :: "string \<Rightarrow> 's \<Rightarrow> 'v tensor res"

definition standalone_ops :: "'v udfs \<Rightarrow> 'v tensor_lib \<Rightarrow> ('v standalone_state, 'v) kv_client_ops" where
  "standalone_ops U L =
     \<lparr>ko_policies = (\<lambda>st. sc_all_possible_part_policy (fst st)),
      ko_data_name_list = sa_data_name_list,
      ko_init_data = (\<lambda>name shape dtype p f g st. Inr (sa_init_data U L name shape dtype p f g st)),
      ko_delete_data = sa_delete_data,
      ko_get_data_meta = sa_get_data_meta,
      ko_push = sa_push U,
      ko_pull = sa_pull U,
      ko_union = sa_union L,
      ko_count_nonzero = sa_count_nonzero U,
      ko_local_partition = (\<lambda>name st. rbind (dict_get (sa_data_store st) name) (\<lambda>v. Inr (view_tensor (snd st) v)))\<rparr>"

text \<open>What the store promises: it is a map from names to tensors, and every operation changes the
  tensor it names and no other. \<open>plain st name\<close>: no handler of the user is registered for the
  name.\<close>

locale kv_object =
  fixes K :: "('s, 'v) kv_client_ops"
    and ok :: "'s \<Rightarrow> bool"
    and plain :: "'s \<Rightarrow> string \<Rightarrow> bool"
    and arrays :: "'s \<Rightarrow> string \<Rightarrow> 'v tensor option"
    and initial :: "init_func \<Rightarrow> int list \<Rightarrow> string \<Rightarrow> 'v tensor"
  assumes names_dom: "ok s \<Longrightarrow> set (ko_data_name_list K s) = dom (arrays s)"
    and init_new: "ok s \<Longrightarrow> \<exists>s'. ko_init_data K name shape dtype p f g s = Inr s' \<and> ok s' \<and>
      plain s' = plain s \<and> arrays s' = (arrays s)(name \<mapsto> initial f shape dtype)"
    and delete_old: "ok s \<Longrightarrow> name \<in> dom (arrays s) \<Longrightarrow> \<exists>s'. ko_delete_data K name s = Inr s' \<and> ok s' \<and>
      plain s' = plain s \<and> arrays s' = (arrays s)(name := None)"
    and delete_missing: "ok s \<Longrightarrow> name \<notin> dom (arrays s) \<Longrightarrow> ko_delete_data K name s = Inl KeyError"
    and meta_eq: "ok s \<Longrightarrow> arrays s name = Some t \<Longrightarrow> ko_get_data_meta K name s = Inr (tn_dtype t, tn_shape t)"
    and pull_rows: "ok s \<Longrightarrow> plain s name \<Longrightarrow> arrays s name = Some t \<Longrightarrow> \<forall>i \<in> set ids. valid_index (tn_rows t) i \<Longrightarrow>
      ko_pull K name ids s = Inr (map (\<lambda>i. tn_rows t ! nat i) ids)"
    and pull_missing: "ok s \<Longrightarrow> plain s name \<Longrightarrow> arrays s name = None \<Longrightarrow> ko_pull K name ids s = Inl KeyError"
    and push_rows: "ok s \<Longrightarrow> plain s name \<Longrightarrow> arrays s name = Some t \<Longrightarrow> put_rows (tn_rows t) ids vals = Inr rows \<Longrightarrow>
      length rows = length (tn_rows t) \<Longrightarrow>
      \<exists>s'. ko_push K name ids vals s = Inr s' \<and> ok s' \<and> plain s' = plain s \<and>
        arrays s' = (arrays s)(name \<mapsto> t\<lparr>tn_rows := rows\<rparr>)"

section \<open>The standalone store as such an object\<close>

definition sa_tensors :: "'v standalone_state \<Rightarrow> string \<Rightarrow> 'v tensor option" where
  "sa_tensors st name = map_option (view_tensor (snd st)) (map_of (sc_data (fst st)) name)"

text \<open>No two names share a cell, every cell is allocated, and the first dimension of a view is the
  number of its rows.\<close>

definition sa_ok :: "'v standalone_state \<Rightarrow> bool" where
  "sa_ok st \<longleftrightarrow>
     (\<forall>n n' v v'. map_of (sc_data (fst st)) n = Some v \<and> map_of (sc_data (fst st)) n' = Some v' \<and>
        vw_addr v = vw_addr v' \<longrightarrow> n = n') \<and>
     (\<forall>n v. map_of (sc_data (fst st)) n = Some v \<longrightarrow>
        vw_addr v < mm_next (snd st) \<and> vw_shape v = tn_shape (view_tensor (snd st) v))"

definition sa_plain :: "'v standalone_state \<Rightarrow> string \<Rightarrow> bool" where
  "sa_plain st name \<longleftrightarrow> map_of (sc_push_handlers (fst st)) name = None \<and> map_of (sc_pull_handlers (fst st)) name = None"

lemma sa_okD:
  assumes "sa_ok st" and "map_of (sc_data (fst st)) n = Some v"
  shows "vw_addr v < mm_next (snd st)" and "vw_shape v = tn_shape (view_tensor (snd st) v)"
    and "\<And>n' v'. map_of (sc_data (fst st)) n' = Some v' \<Longrightarrow> vw_addr v' = vw_addr v \<Longrightarrow> n' = n"
  using assms unfolding sa_ok_def by blast+

lemma view_rows_write [simp]: "view_rows (write_rows v rows m) w = (if vw_addr w = vw_addr v then rows else view_rows m w)"
  by (simp add: view_rows_def write_rows_def)

lemma view_tensor_write:
  "view_tensor (write_rows v rows m) w =
    (if vw_addr w = vw_addr v then (view_tensor m w)\<lparr>tn_rows := rows\<rparr> else view_tensor m w)"
  by (simp add: view_tensor_def view_rows_write)

lemma write_rows_next [simp]: "mm_next (write_rows v rows m) = mm_next m"
  by (simp add: write_rows_def)

lemma view_next [simp]:
  "view_rows (m\<lparr>mm_next := n\<rparr>) w = view_rows m w" "view_tensor (m\<lparr>mm_next := n\<rparr>) w = view_tensor m w"
  by (simp_all add: view_tensor_def view_rows_def)

lemma note_simps [simp]:
  "sc_data (sa_note_policy p s) = sc_data s" "sc_data (sa_note_gdata name s) = sc_data s"
  "sc_push_handlers (sa_note_policy p s) = sc_push_handlers s" "sc_push_handlers (sa_note_gdata name s) = sc_push_handlers s"
  "sc_pull_handlers (sa_note_policy p s) = sc_pull_handlers s" "sc_pull_handlers (sa_note_gdata name s) = sc_pull_handlers s"
  by (simp_all add: sa_note_policy_def sa_note_gdata_def)

lemma new_tensor_value:
  assumes "new_tensor t m = (v, m')"
  shows "vw_addr v = mm_next m" "vw_shape v = tn_shape t" "mm_next m' = mm_next m + 1" "view_tensor m' v = t"
    and "\<And>w. vw_addr w < mm_next m \<Longrightarrow> view_tensor m' w = view_tensor m w"
  using assms by (auto simp: new_tensor_def Let_def view_tensor_write view_tensor_def view_rows_write tn_shape_def)

lemma sa_init_data_effect:
  assumes "sa_ok st"
  shows "sa_ok (sa_init_data U L name shape dtype p f g st)"
    and "sa_plain (sa_init_data U L name shape dtype p f g st) = sa_plain st"
    and "sa_tensors (sa_init_data U L name shape dtype p f g st) = (sa_tensors st)(name \<mapsto> run_init U L f shape dtype)"
proof -
  obtain s m where st: "st = (s, m)" by (cases st)
  obtain v m' where n: "new_tensor (run_init U L f shape dtype) m = (v, m')"
    by (cases "new_tensor (run_init U L f shape dtype) m")
  note N = new_tensor_value [OF n]
  obtain s' where s': "sa_init_data U L name shape dtype p f g st = (s', m')"
    "sc_data s' = AList.update name v (sc_data s)"
    "sc_push_handlers s' = sc_push_handlers s" "sc_pull_handlers s' = sc_pull_handlers s"
    using st n by (simp add: sa_init_data_def Let_def)
  have addr: "vw_addr w < mm_next m" "vw_shape w = tn_shape (view_tensor m w)" if "map_of (sc_data s) k = Some w" for k w
    using sa_okD [OF assms] that st by auto
  have inj: "k = k'" if "map_of (sc_data s) k = Some w" "map_of (sc_data s) k' = Some w'" "vw_addr w = vw_addr w'" for k k' w w'
    using sa_okD(3) [OF assms] that st by auto
  show "sa_ok (sa_init_data U L name shape dtype p f g st)"
    unfolding sa_ok_def s'(1) fst_conv snd_conv
  proof (intro conjI allI impI; (elim conjE)?)
    fix k k' w w'
    assume k: "map_of (sc_data s') k = Some w" "map_of (sc_data s') k' = Some w'" "vw_addr w = vw_addr w'"
    have "vw_addr u \<noteq> vw_addr v" if "map_of (sc_data s) j = Some u" for j u
      using addr(1) [OF that] N(1) by simp
    moreover have "k = name \<and> w = v \<or> map_of (sc_data s) k = Some w"
      "k' = name \<and> w' = v \<or> map_of (sc_data s) k' = Some w'" using k(1,2) by (auto simp: s'(2) split: if_splits)
    ultimately show "k = k'" using k(3) inj by metis
  next
    fix k w
    assume "map_of (sc_data s') k = Some w"
    then have "w = v \<or> map_of (sc_data s) k = Some w" by (auto simp: s'(2) split: if_splits)
    then show "vw_addr w < mm_next m'" using N(1,3) addr(1) by fastforce
  next
    fix k w
    assume "map_of (sc_data s') k = Some w"
    then have "w = v \<or> map_of (sc_data s) k = Some w" by (auto simp: s'(2) split: if_splits)
    then show "vw_shape w = tn_shape (view_tensor m' w)" using N(2,4,5) addr by metis
  qed
  show "sa_plain (sa_init_data U L name shape dtype p f g st) = sa_plain st"
    using s' st by (auto simp: sa_plain_def)
  show "sa_tensors (sa_init_data U L name shape dtype p f g st) = (sa_tensors st)(name \<mapsto> run_init U L f shape dtype)"
  proof
    fix k
    show "sa_tensors (sa_init_data U L name shape dtype p f g st) k =
      ((sa_tensors st)(name \<mapsto> run_init U L f shape dtype)) k"
      using N addr by (cases "map_of (sc_data s) k") (auto simp: sa_tensors_def s'(1) [unfolded st] s'(2) st)
  qed
qed

lemma sa_delete_data_effect:
  assumes "sa_ok st" and "name \<in> dom (sa_tensors st)"
  shows "\<exists>st'. sa_delete_data name st = Inr st' \<and> sa_ok st' \<and> sa_plain st' = sa_plain st \<and>
    sa_tensors st' = (sa_tensors st)(name := None)"
proof -
  obtain s m where st: "st = (s, m)" by (cases st)
  let ?s = "s\<lparr>sc_data := AList.delete name (sc_data s),
    sc_gdata_name_list := filter (\<lambda>n. n \<noteq> name) (sc_gdata_name_list s)\<rparr>"
  have "map_of (sc_data s) name \<noteq> None" using assms(2) st by (auto simp: sa_tensors_def)
  then have "sa_delete_data name st = Inr (?s, m)"
    by (simp add: sa_delete_data_def st dict_del_def in_keys_iff)
  moreover have "sa_ok (?s, m)" using assms(1) unfolding sa_ok_def st by auto
  moreover have "sa_plain (?s, m) = sa_plain st" by (auto simp: sa_plain_def st)
  moreover have "sa_tensors (?s, m) = (sa_tensors st)(name := None)" by (auto simp: sa_tensors_def st)
  ultimately show ?thesis by blast
qed

lemma sa_push_effect:
  assumes "sa_ok st" and "sa_plain st name" and "sa_tensors st name = Some t"
    and "put_rows (tn_rows t) ids vals = Inr rows" and "length rows = length (tn_rows t)"
  shows "\<exists>st'. sa_push U name ids vals st = Inr st' \<and> sa_ok st' \<and> sa_plain st' = sa_plain st \<and>
    sa_tensors st' = (sa_tensors st)(name \<mapsto> t\<lparr>tn_rows := rows\<rparr>)"
proof -
  obtain s m where st: "st = (s, m)" by (cases st)
  obtain v where v: "map_of (sc_data s) name = Some v" "t = view_tensor m v"
    using assms(3) st by (auto simp: sa_tensors_def)
  have rows: "tn_rows t = view_rows m v" by (simp add: v(2) view_tensor_def)
  have other: "vw_addr w \<noteq> vw_addr v" if "map_of (sc_data s) k = Some w" "k \<noteq> name" for k w
    using sa_okD(3) [OF assms(1), of name v k w] that v(1) st by auto
  have "sa_push U name ids vals st = Inr (s, write_rows v rows m)"
    using assms(2,4) v(1) rows by (simp add: sa_push_def st sa_plain_def dict_get_Some)
  moreover have "sa_ok (s, write_rows v rows m)"
  proof -
    have "tn_shape (view_tensor (write_rows v rows m) w) = tn_shape (view_tensor m w)"
      if w: "map_of (sc_data s) k = Some w" for k w
    proof (cases "k = name")
      case True
      then show ?thesis using w v assms(5) rows by (simp add: view_tensor_write tn_shape_def view_tensor_def)
    next
      case False
      then show ?thesis using other [OF w] by (simp add: view_tensor_write)
    qed
    then show ?thesis using assms(1) unfolding sa_ok_def st by simp
  qed
  moreover have "sa_plain (s, write_rows v rows m) = sa_plain st" by (auto simp: sa_plain_def st)
  moreover have "sa_tensors (s, write_rows v rows m) = (sa_tensors st)(name \<mapsto> t\<lparr>tn_rows := rows\<rparr>)"
  proof
    fix k
    show "sa_tensors (s, write_rows v rows m) k = ((sa_tensors st)(name \<mapsto> t\<lparr>tn_rows := rows\<rparr>)) k"
      using v other by (cases "map_of (sc_data s) k") (auto simp: sa_tensors_def st view_tensor_write)
  qed
  ultimately show ?thesis by blast
qed

lemma standalone_kv_object:
  fixes U :: "'v udfs"
  shows "kv_object (standalone_ops U L) sa_ok sa_plain sa_tensors (run_init U L)"
proof
  fix s :: "'v standalone_state" and name shape dtype p f g t ids vals rows
  assume ok: "sa_ok s"
  have "dom (sa_tensors s) = dom (map_of (sc_data (fst s)))" by (auto simp: sa_tensors_def dom_def)
  then show "set (ko_data_name_list (standalone_ops U L) s) = dom (sa_tensors s)"
    by (simp add: standalone_ops_def sa_data_name_list_def dom_map_of_conv_image_fst)
  show "\<exists>s'. ko_init_data (standalone_ops U L) name shape dtype p f g s = Inr s' \<and> sa_ok s' \<and>
      sa_plain s' = sa_plain s \<and> sa_tensors s' = (sa_tensors s)(name \<mapsto> run_init U L f shape dtype)"
    using sa_init_data_effect [OF ok] by (simp add: standalone_ops_def)
  show "name \<in> dom (sa_tensors s) \<Longrightarrow> \<exists>s'. ko_delete_data (standalone_ops U L) name s = Inr s' \<and> sa_ok s' \<and>
      sa_plain s' = sa_plain s \<and> sa_tensors s' = (sa_tensors s)(name := None)"
    using sa_delete_data_effect [OF ok] by (simp add: standalone_ops_def)
  show "name \<notin> dom (sa_tensors s) \<Longrightarrow> ko_delete_data (standalone_ops U L) name s = Inl KeyError"
    by (cases s) (auto simp: standalone_ops_def sa_delete_data_def dict_del_def sa_tensors_def in_keys_iff)
  show "sa_tensors s name = Some t \<Longrightarrow>
      ko_get_data_meta (standalone_ops U L) name s = Inr (tn_dtype t, tn_shape t)"
    using sa_okD(2) [OF ok] by (auto simp: standalone_ops_def sa_get_data_meta_def sa_tensors_def dict_get_Some view_tensor_def)
  show "sa_plain s name \<Longrightarrow> sa_tensors s name = Some t \<Longrightarrow> \<forall>i \<in> set ids. valid_index (tn_rows t) i \<Longrightarrow>
      ko_pull (standalone_ops U L) name ids s = Inr (map (\<lambda>i. tn_rows t ! nat i) ids)"
    by (cases s) (auto simp: standalone_ops_def sa_pull_def sa_plain_def sa_tensors_def dict_get_Some view_tensor_def
        gather_row_valid)
  show "sa_plain s name \<Longrightarrow> sa_tensors s name = None \<Longrightarrow> ko_pull (standalone_ops U L) name ids s = Inl KeyError"
    by (cases s) (auto simp: standalone_ops_def sa_pull_def sa_plain_def sa_tensors_def dict_get_def)
  show "sa_plain s name \<Longrightarrow> sa_tensors s name = Some t \<Longrightarrow> put_rows (tn_rows t) ids vals = Inr rows \<Longrightarrow>
      length rows = length (tn_rows t) \<Longrightarrow>
      \<exists>s'. ko_push (standalone_ops U L) name ids vals s = Inr s' \<and> sa_ok s' \<and> sa_plain s' = sa_plain s \<and>
        sa_tensors s' = (sa_tensors s)(name \<mapsto> t\<lparr>tn_rows := rows\<rparr>)"
    using sa_push_effect [OF ok] by (simp add: standalone_ops_def)
qed

interpretation standalone: kv_object "standalone_ops U L" sa_ok sa_plain sa_tensors "run_init U L" for U L
  by (rule standalone_kv_object)

end
