(* ===== verification/DistTensor.thy ===== *)
theory DistTensor
  imports StandaloneStore
begin

text \<open>
  \<^verbatim>\<open>python/dgl/distributed/dist_tensor.py\<close>: a tensor that lives in a key-value store under a name.
  The store is any object with the operations \<open>kv_client_ops\<close>; the lemmas about \<open>DistTensor\<close> are
  proved for a store that keeps the laws of \<open>kv_object\<close>, and the properties are stated for the
  standalone store, on which the locale is interpreted.
\<close>

section \<open>The code\<close>

text \<open>The process: the store object, whether \<open>get_kvstore()\<close> returns it, the globals \<open>CUR_ROLE\<close>,
  the group ID and \<open>DIST_TENSOR_ID\<close>, the variable \<open>DGL_DIST_MODE\<close> and whether the distributed
  module is initialised.\<close>

record 's dist_process =
  dp_kvstore :: 's
  dp_connected :: bool
  dp_role :: "string option"
  dp_group_id :: int
  dp_tensor_id :: int
  dp_mode :: "string option"
  dp_initialized :: bool

record dist_tensor =
  dt_shape :: "int list"
  dt_dtype :: string
  dt_attach :: bool
  dt_is_gdata :: bool
  dt_part_policy :: partition_policy
  dt_tensor_name :: string
  dt_name :: string
  dt_persistent :: bool
  dt_owner :: bool

definition attach_group_id :: "bool \<Rightarrow> int \<Rightarrow> string \<Rightarrow> string" where
  "attach_group_id attach gid name = (if \<not> attach then name else name @ ''_'' @ int_str gid)"

definition detach_group_id :: "bool \<Rightarrow> int \<Rightarrow> string \<Rightarrow> string" where
  "detach_group_id attach gid name =
     (if \<not> attach then name
      else let suffix = ''_'' @ int_str gid in py_slice name 0 (- int (length suffix)))"

text \<open>The policy whose size is the first dimension; two of them are one too many.\<close>

definition find_part_policy :: "(string \<times> partition_policy) list \<Rightarrow> int list \<Rightarrow> partition_policy res" where
  "find_part_policy policies shape =
     rbind (rfold (\<lambda>found (_, p).
         rbind (pp_get_size p) (\<lambda>n. rbind (py_index shape 0) (\<lambda>d.
         if n = d then rbind (rassert (found = None) AssertionError) (\<lambda>_. Inr (Some p)) else Inr found)))
       None policies)
     (\<lambda>found. case found of None \<Rightarrow> Inl AssertionError | Some p \<Rightarrow> Inr p)"

definition tensor_data_name :: "partition_policy \<Rightarrow> string \<Rightarrow> string res" where
  "tensor_data_name p name = rbind (pp_get_data_name p name) hdn_str"

definition choose_name :: "string option \<Rightarrow> bool \<Rightarrow> 's dist_process \<Rightarrow> (string \<times> 's dist_process) res" where
  "choose_name name persistent P =
     (case name of
        Some s \<Rightarrow> Inr (s, P)
      | None \<Rightarrow>
          rbind (rassert (\<not> persistent) AssertionError) (\<lambda>_.
          case dp_role P of
            None \<Rightarrow> Inl TypeError
          | Some r \<Rightarrow> Inr (''anonymous-'' @ r @ ''-'' @ int_str (dp_tensor_id P),
                            P\<lparr>dp_tensor_id := dp_tensor_id P + 1\<rparr>)))"

definition dist_tensor_init :: "('s, 'v) kv_client_ops \<Rightarrow> int list \<Rightarrow> string \<Rightarrow> string option \<Rightarrow> init_func option \<Rightarrow>
    partition_policy option \<Rightarrow> bool \<Rightarrow> bool \<Rightarrow> bool \<Rightarrow> 's dist_process \<Rightarrow> (dist_tensor \<times> 's dist_process) res" where
  "dist_tensor_init K shape dtype name init_func part_policy persistent is_gdata attach P =
     rbind (rassert (dp_connected P) AssertionError) (\<lambda>_.
     let st = dp_kvstore P in
     rbind (case part_policy of Some p \<Rightarrow> Inr p | None \<Rightarrow> find_part_policy (ko_policies K st) shape) (\<lambda>p.
     rbind (pp_get_size p) (\<lambda>n. rbind (py_index shape 0) (\<lambda>d.
     rbind (rassert (n = d) AssertionError) (\<lambda>_.
     let f = (case init_func of None \<Rightarrow> Default_init | Some f \<Rightarrow> f);
         exist_names = ko_data_name_list K st in
     rbind (choose_name name persistent P) (\<lambda>(name, P).
     let name = attach_group_id attach (dp_group_id P) name in
     rbind (tensor_data_name p name) (\<lambda>data_name.
     let t = \<lparr>dt_shape = shape, dt_dtype = dtype, dt_attach = attach, dt_is_gdata = is_gdata,
              dt_part_policy = p, dt_tensor_name = name, dt_name = data_name,
              dt_persistent = persistent, dt_owner = (data_name \<notin> set exist_names)\<rparr> in
     if data_name \<notin> set exist_names
     then rbind (ko_init_data K data_name shape dtype p f is_gdata st) (\<lambda>st. Inr (t, P\<lparr>dp_kvstore := st\<rparr>))
     else rbind (ko_get_data_meta K data_name st) (\<lambda>(dtype1, shape1).
       rbind (rassert (dtype = dtype1) AssertionError) (\<lambda>_.
       rbind (rassert (shape = shape1) AssertionError) (\<lambda>_. Inr (t, P)))))))))))"

definition dist_tensor_del :: "('s, 'v) kv_client_ops \<Rightarrow> dist_tensor \<Rightarrow> 's dist_process \<Rightarrow> 's dist_process res" where
  "dist_tensor_del K t P =
     (let initialized = ((case dp_mode P of None \<Rightarrow> ''standalone'' | Some s \<Rightarrow> s) = ''standalone'' \<or> dp_initialized P) in
      if \<not> dt_persistent t \<and> dt_owner t \<and> initialized
      then rbind (ko_delete_data K (dt_name t) (dp_kvstore P)) (\<lambda>st. Inr (P\<lparr>dp_kvstore := st\<rparr>))
      else Inr P)"

definition dist_tensor_getitem :: "('s, 'v) kv_client_ops \<Rightarrow> 'o asarray \<Rightarrow> dist_tensor \<Rightarrow> 'o index_input \<Rightarrow>
    's dist_process \<Rightarrow> 'v list res" where
  "dist_tensor_getitem K A t idx P =
     rbind (toindex A (Inr idx) Int64) (\<lambda>ix. rbind (ix_tousertensor Cpu ix) (\<lambda>(ids, _).
     ko_pull K (dt_name t) ids (dp_kvstore P)))"

definition dist_tensor_setitem :: "('s, 'v) kv_client_ops \<Rightarrow> 'o asarray \<Rightarrow> dist_tensor \<Rightarrow> 'o index_input \<Rightarrow> 'v list \<Rightarrow>
    's dist_process \<Rightarrow> 's dist_process res" where
  "dist_tensor_setitem K A t idx val P =
     rbind (toindex A (Inr idx) Int64) (\<lambda>ix. rbind (ix_tousertensor Cpu ix) (\<lambda>(ids, _).
     rbind (ko_push K (dt_name t) ids val (dp_kvstore P)) (\<lambda>st. Inr (P\<lparr>dp_kvstore := st\<rparr>))))"

definition dist_tensor_or :: "('s, 'v) kv_client_ops \<Rightarrow> dist_tensor \<Rightarrow> dist_tensor \<Rightarrow> 's dist_process \<Rightarrow>
    (dist_tensor \<times> 's dist_process) res" where
  "dist_tensor_or K t other P =
     rbind (dist_tensor_init K (dt_shape t) (dt_dtype t) None None (Some (dt_part_policy t))
              (dt_persistent t) (dt_is_gdata t) (dt_attach t) P) (\<lambda>(new, P).
     rbind (ko_union K (dt_name t) (dt_name other) (dt_name new) (dp_kvstore P)) (\<lambda>st.
     Inr (new, P\<lparr>dp_kvstore := st\<rparr>)))"

definition dist_tensor_len :: "dist_tensor \<Rightarrow> int res" where
  "dist_tensor_len t = py_index (dt_shape t) 0"

definition dist_tensor_count_nonzero :: "('s, 'v) kv_client_ops \<Rightarrow> dist_tensor \<Rightarrow> 's dist_process \<Rightarrow> int res" where
  "dist_tensor_count_nonzero K t P = ko_count_nonzero K (dt_name t) (dp_kvstore P)"

definition dist_tensor_local_partition :: "('s, 'v) kv_client_ops \<Rightarrow> dist_tensor \<Rightarrow> 's dist_process \<Rightarrow> 'v tensor res" where
  "dist_tensor_local_partition K t P = ko_local_partition K (dt_name t) (dp_kvstore P)"

text \<open>The properties \<open>name\<close> and \<open>tensor_name\<close>: without the group ID.\<close>

definition dist_tensor_name :: "dist_tensor \<Rightarrow> 's dist_process \<Rightarrow> string" where
  "dist_tensor_name t P = detach_group_id (dt_attach t) (dp_group_id P) (dt_name t)"

definition dist_tensor_tensor_name :: "dist_tensor \<Rightarrow> 's dist_process \<Rightarrow> string" where
  "dist_tensor_tensor_name t P = detach_group_id (dt_attach t) (dp_group_id P) (dt_tensor_name t)"

section \<open>Names\<close>

lemma detach_attach [simp]: "detach_group_id a g (s @ attach_group_id a g n) = s @ n"
proof (cases a)
  case True
  let ?suf = "''_'' @ int_str g"
  have "slice_bound (length ((s @ n) @ ?suf)) (- int (length ?suf)) = length (s @ n)"
    by (simp add: slice_bound_def)
  then have "py_slice ((s @ n) @ ?suf) 0 (- int (length ?suf)) = s @ n"
    by (simp add: py_slice_def Let_def slice_bound_def)
  then show ?thesis using True by (simp add: detach_group_id_def attach_group_id_def Let_def)
qed (simp add: detach_group_id_def attach_group_id_def)

lemma detach_attach_plain [simp]: "detach_group_id a g (attach_group_id a g n) = n"
  using detach_attach [of a g "[]" n] by simp

lemma tensor_data_name_split:
  assumes "tensor_data_name p n = Inr s"
  obtains prefix where "s = prefix @ POLICY_DELIMITER # n" and "\<And>n'. tensor_data_name p n' = Inr (prefix @ POLICY_DELIMITER # n')"
proof -
  obtain prefix where prefix: "\<And>n'. tensor_data_name p n' = Inr (prefix @ POLICY_DELIMITER # n')"
    using assms
    by (auto simp: tensor_data_name_def hdn_str_def pp_get_data_name_def hetero_data_name_init_def hdn_policy_str_def
        hdn_is_edge_def res_simps split: if_splits type_name.splits)
  then have "s = prefix @ POLICY_DELIMITER # n" using assms by simp
  with prefix show thesis using that by blast
qed

section \<open>Tensors of any store that keeps the laws\<close>

text \<open>The arguments of a constructor that picks the policy \<open>p\<close> and the data name \<open>s\<close>.\<close>

definition ctor_ok :: "'s dist_process \<Rightarrow> int list \<Rightarrow> partition_policy \<Rightarrow> bool \<Rightarrow> string \<Rightarrow> string \<Rightarrow> bool" where
  "ctor_ok P shape p attach name s \<longleftrightarrow>
     dp_connected P \<and> shape \<noteq> [] \<and> pp_get_size p = Inr (hd shape) \<and>
     tensor_data_name p (attach_group_id attach (dp_group_id P) name) = Inr s"

definition made_tensor :: "'s dist_process \<Rightarrow> int list \<Rightarrow> string \<Rightarrow> partition_policy \<Rightarrow> bool \<Rightarrow> bool \<Rightarrow> bool \<Rightarrow>
    string \<Rightarrow> string \<Rightarrow> bool \<Rightarrow> dist_tensor" where
  "made_tensor P shape dtype p persistent is_gdata attach name s owner =
     \<lparr>dt_shape = shape, dt_dtype = dtype, dt_attach = attach, dt_is_gdata = is_gdata, dt_part_policy = p,
      dt_tensor_name = attach_group_id attach (dp_group_id P) name, dt_name = s,
      dt_persistent = persistent, dt_owner = owner\<rparr>"

definition init_of :: "init_func option \<Rightarrow> init_func" where
  "init_of f = (case f of None \<Rightarrow> Default_init | Some f \<Rightarrow> f)"

definition deletes :: "dist_tensor \<Rightarrow> 's dist_process \<Rightarrow> bool" where
  "deletes t P \<longleftrightarrow> \<not> dt_persistent t \<and> dt_owner t \<and>
     (dp_mode P = None \<or> dp_mode P = Some ''standalone'' \<or> dp_initialized P)"

lemma dist_tensor_del_eq:
  "dist_tensor_del K t P =
    (if deletes t P then rbind (ko_delete_data K (dt_name t) (dp_kvstore P)) (\<lambda>st. Inr (P\<lparr>dp_kvstore := st\<rparr>)) else Inr P)"
  by (auto simp: dist_tensor_del_def deletes_def split: option.splits)

lemma index_ids:
  assumes "index_init A idx Int64 = Inr ix" and "input_denotes A Int64 idx ids" and "list_all (fits Int64) ids"
  shows "\<exists>ix'. toindex A (Inr idx) Int64 = Inr ix \<and> ix_tousertensor Cpu ix = Inr (ids, ix')"
  using usr.readE [of ix ids Cpu] index_init_repr [OF assms] assms(1) by (auto simp: toindex_def)

context kv_object
begin

text \<open>A new name: the tensor is created and its maker owns it.\<close>

lemma init_fresh:
  assumes "ok (dp_kvstore P)" and "choose_name name persistent P = Inr (nm, P')" and "dp_kvstore P' = dp_kvstore P"
    and "ctor_ok P' shape p attach nm s" and "dp_connected P" and "s \<notin> dom (arrays (dp_kvstore P))"
  shows "\<exists>st. dist_tensor_init K shape dtype name f (Some p) persistent is_gdata attach P =
      Inr (made_tensor P' shape dtype p persistent is_gdata attach nm s True, P'\<lparr>dp_kvstore := st\<rparr>) \<and>
    ok st \<and> plain st = plain (dp_kvstore P) \<and>
    arrays st = (arrays (dp_kvstore P))(s \<mapsto> initial (init_of f) shape dtype)"
proof -
  obtain st where st: "ko_init_data K s shape dtype p (init_of f) is_gdata (dp_kvstore P) = Inr st" "ok st"
    "plain st = plain (dp_kvstore P)" "arrays st = (arrays (dp_kvstore P))(s \<mapsto> initial (init_of f) shape dtype)"
    using init_new [OF assms(1), of s shape dtype p "init_of f" is_gdata] by blast
  have "py_index shape 0 = Inr (hd shape)" using assms(4) by (simp add: ctor_ok_def py_index_def hd_conv_nth)
  moreover have "s \<notin> set (ko_data_name_list K (dp_kvstore P))" using names_dom [OF assms(1)] assms(6) by simp
  ultimately show ?thesis using assms(2-5) st
    by (intro exI [of _ st]) (simp add: dist_tensor_init_def ctor_ok_def made_tensor_def init_of_def Let_def)
qed

text \<open>A name that exists: the constructor refers to the tensor, if type and shape are its own.\<close>

lemma init_existing:
  assumes "ok (dp_kvstore P)" and "choose_name name persistent P = Inr (nm, P')" and "dp_kvstore P' = dp_kvstore P"
    and "ctor_ok P' shape p attach nm s" and "dp_connected P" and "arrays (dp_kvstore P) s = Some t"
  shows "dist_tensor_init K shape dtype name f (Some p) persistent is_gdata attach P =
    (if dtype = tn_dtype t \<and> shape = tn_shape t
     then Inr (made_tensor P' shape dtype p persistent is_gdata attach nm s False, P')
     else Inl AssertionError)"
proof -
  have "py_index shape 0 = Inr (hd shape)" using assms(4) by (simp add: ctor_ok_def py_index_def hd_conv_nth)
  moreover have "s \<in> set (ko_data_name_list K (dp_kvstore P))" using names_dom [OF assms(1)] assms(6) by auto
  ultimately show ?thesis using assms(2-5) meta_eq [OF assms(1,6)]
    by (simp add: dist_tensor_init_def ctor_ok_def made_tensor_def Let_def rassert_def)
qed

lemma del_effect:
  assumes "ok (dp_kvstore P)" and "dt_name t \<in> dom (arrays (dp_kvstore P))"
  shows "\<exists>st. dist_tensor_del K t P = Inr (P\<lparr>dp_kvstore := st\<rparr>) \<and> ok st \<and> plain st = plain (dp_kvstore P) \<and>
    arrays st =
      (if deletes t P then (arrays (dp_kvstore P))(dt_name t := None) else arrays (dp_kvstore P))"
proof -
  obtain st where st: "ko_delete_data K (dt_name t) (dp_kvstore P) = Inr st" "ok st"
    "plain st = plain (dp_kvstore P)" "arrays st = (arrays (dp_kvstore P))(dt_name t := None)"
    using delete_old [OF assms] by blast
  show ?thesis
  proof (cases "deletes t P")
    case True
    then show ?thesis using st by (intro exI [of _ st]) (simp add: dist_tensor_del_eq)
  next
    case False
    then show ?thesis using assms(1) by (intro exI [of _ "dp_kvstore P"]) (simp add: dist_tensor_del_eq)
  qed
qed

lemma getitem_rows:
  assumes "ok (dp_kvstore P)" and "plain (dp_kvstore P) (dt_name t)" and "arrays (dp_kvstore P) (dt_name t) = Some T"
    and "index_init A idx Int64 = Inr ix" and "input_denotes A Int64 idx ids" and "list_all (fits Int64) ids"
    and "\<forall>i \<in> set ids. valid_index (tn_rows T) i"
  shows "dist_tensor_getitem K A t idx P = Inr (map (\<lambda>i. tn_rows T ! nat i) ids)"
  using index_ids [OF assms(4-6)] pull_rows [OF assms(1-3,7)] by (auto simp: dist_tensor_getitem_def)

lemma getitem_deleted:
  assumes "ok (dp_kvstore P)" and "plain (dp_kvstore P) (dt_name t)" and "arrays (dp_kvstore P) (dt_name t) = None"
    and "index_init A idx Int64 = Inr ix" and "input_denotes A Int64 idx ids" and "list_all (fits Int64) ids"
  shows "dist_tensor_getitem K A t idx P = Inl KeyError"
  using index_ids [OF assms(4-6)] pull_missing [OF assms(1-3)] by (auto simp: dist_tensor_getitem_def)

lemma setitem_rows:
  assumes "ok (dp_kvstore P)" and "plain (dp_kvstore P) (dt_name t)" and "arrays (dp_kvstore P) (dt_name t) = Some T"
    and "index_init A idx Int64 = Inr ix" and "input_denotes A Int64 idx ids" and "list_all (fits Int64) ids"
    and "\<forall>i \<in> set ids. valid_index (tn_rows T) i" and "distinct ids" and "length ids = length vals"
  shows "\<exists>st. dist_tensor_setitem K A t idx vals P = Inr (P\<lparr>dp_kvstore := st\<rparr>) \<and> ok st \<and>
    plain st = plain (dp_kvstore P) \<and>
    arrays st = (arrays (dp_kvstore P))(dt_name t \<mapsto> T\<lparr>tn_rows :=
      map (\<lambda>j. case map_of (zip ids vals) (int j) of None \<Rightarrow> tn_rows T ! j | Some v \<Rightarrow> v) [0..<length (tn_rows T)]\<rparr>)"
proof -
  obtain st where "ko_push K (dt_name t) ids vals (dp_kvstore P) = Inr st" "ok st" "plain st = plain (dp_kvstore P)"
    "arrays st = (arrays (dp_kvstore P))(dt_name t \<mapsto> T\<lparr>tn_rows :=
      map (\<lambda>j. case map_of (zip ids vals) (int j) of None \<Rightarrow> tn_rows T ! j | Some v \<Rightarrow> v) [0..<length (tn_rows T)]\<rparr>)"
    using push_rows [OF assms(1-3) put_rows_distinct [OF assms(8,7,9)]] by auto
  then show ?thesis using index_ids [OF assms(4-6)] by (auto simp: dist_tensor_setitem_def)
qed

end

end
