(* ===== verification/DistTensorProps.thy ===== *)
theory DistTensorProps
  imports DistTensor
begin

text \<open>
  What \<open>DistTensor\<close> promises on the standalone store: the life of a tensor from its creation over
  references to it to its deletion, reading and writing rows, and the names of anonymous tensors.
\<close>

section \<open>The life of a tensor\<close>

lemma choose_name_Some [simp]: "choose_name (Some nm) persistent P = Inr (nm, P)"
  by (simp add: choose_name_def)

lemma ctor_ok_kvstore [simp]: "ctor_ok (P\<lparr>dp_kvstore := st\<rparr>) shape p attach nm s = ctor_ok P shape p attach nm s"
  by (simp add: ctor_ok_def)

lemma deletes_kvstore [simp]: "deletes t (P\<lparr>dp_kvstore := st\<rparr>) = deletes t P"
  by (simp add: deletes_def)

lemma made_tensor_names:
  assumes "tensor_data_name p (attach_group_id attach (dp_group_id P) nm) = Inr s"
  shows "dist_tensor_tensor_name (made_tensor P shape dtype p persistent is_gdata attach nm s owner) P = nm"
    and "tensor_data_name p nm = Inr (dist_tensor_name (made_tensor P shape dtype p persistent is_gdata attach nm s owner) P)"
proof -
  obtain prefix where s: "s = prefix @ POLICY_DELIMITER # attach_group_id attach (dp_group_id P) nm"
    and name: "\<And>n'. tensor_data_name p n' = Inr (prefix @ POLICY_DELIMITER # n')"
    using tensor_data_name_split [OF assms] by blast
  show "dist_tensor_tensor_name (made_tensor P shape dtype p persistent is_gdata attach nm s owner) P = nm"
    by (simp add: dist_tensor_tensor_name_def made_tensor_def)
  have "detach_group_id attach (dp_group_id P) s = prefix @ POLICY_DELIMITER # nm"
    using detach_attach [of attach "dp_group_id P" "prefix @ [POLICY_DELIMITER]" nm] s by simp
  then show "tensor_data_name p nm = Inr (dist_tensor_name (made_tensor P shape dtype p persistent is_gdata attach nm s owner) P)"
    by (simp add: dist_tensor_name_def made_tensor_def name)
qed

text \<open>C39. Creating a tensor under a new name puts exactly one tensor, as its initialiser made it, into
  the store and makes the creator its owner; its \<open>tensor_name\<close> is the name that was given and its
  \<open>name\<close> the data name of the policy for it, without the group ID. A second tensor of that name,
  type and shape refers to the same entry and does not own it, so that dropping it changes nothing,
  while another type or shape is refused. Dropping the first gives the store of before, unless the
  tensor is persistent.\<close>

theorem dist_tensor_lifecycle:
  fixes P :: "'v standalone_state dist_process"
  assumes "sa_ok (dp_kvstore P)" and "ctor_ok P shape p attach nm s" and "s \<notin> dom (sa_tensors (dp_kvstore P))"
    and "tn_dtype (run_init U L (init_of f) shape dtype) = dtype" and "tn_shape (run_init U L (init_of f) shape dtype) = shape"
  shows "let K = standalone_ops U L;
      make = (\<lambda>dtype persistent. dist_tensor_init K shape dtype (Some nm) f (Some p) persistent is_gdata attach) in
    \<exists>t P1. make dtype persistent P = Inr (t, P1) \<and> dt_owner t \<and>
      sa_tensors (dp_kvstore P1) = (sa_tensors (dp_kvstore P))(s \<mapsto> run_init U L (init_of f) shape dtype) \<and>
      dist_tensor_tensor_name t P1 = nm \<and> tensor_data_name p nm = Inr (dist_tensor_name t P1) \<and>
      (\<exists>t2. make dtype persistent2 P1 = Inr (t2, P1) \<and> \<not> dt_owner t2 \<and> dt_name t2 = dt_name t \<and>
        dist_tensor_del K t2 P1 = Inr P1) \<and>
      (\<forall>dtype2. dtype2 \<noteq> dtype \<longrightarrow> make dtype2 persistent2 P1 = Inl AssertionError) \<and>
      (\<exists>P2. dist_tensor_del K t P1 = Inr P2 \<and> sa_tensors (dp_kvstore P2) =
        (if persistent \<or> dp_mode P \<noteq> None \<and> dp_mode P \<noteq> Some ''standalone'' \<and> \<not> dp_initialized P
         then sa_tensors (dp_kvstore P1) else sa_tensors (dp_kvstore P)))"
proof -
  let ?K = "standalone_ops U L"
  let ?t = "made_tensor P shape dtype p persistent is_gdata attach nm s True"
  have conn: "dp_connected P" using assms(2) by (simp add: ctor_ok_def)
  obtain st where st: "dist_tensor_init ?K shape dtype (Some nm) f (Some p) persistent is_gdata attach P =
      Inr (?t, P\<lparr>dp_kvstore := st\<rparr>)"
    "sa_ok st" "sa_tensors st = (sa_tensors (dp_kvstore P))(s \<mapsto> run_init U L (init_of f) shape dtype)"
    using standalone.init_fresh [OF assms(1) choose_name_Some refl assms(2) conn assms(3)] by blast
  let ?P1 = "P\<lparr>dp_kvstore := st\<rparr>"
  have ok1: "sa_ok (dp_kvstore ?P1)" "sa_tensors (dp_kvstore ?P1) s = Some (run_init U L (init_of f) shape dtype)"
    using st by simp_all
  note again = standalone.init_existing [OF ok1(1) choose_name_Some refl _ _ ok1(2), of shape p attach]
  have second: "dist_tensor_init ?K shape dtype2 (Some nm) f (Some p) persistent2 is_gdata attach ?P1 =
      (if dtype2 = dtype then Inr (made_tensor ?P1 shape dtype2 p persistent2 is_gdata attach nm s False, ?P1)
       else Inl AssertionError)" for dtype2
    using again assms(2,4,5) conn by simp
  have not_del: "\<not> deletes (made_tensor ?P1 shape dtype p persistent2 is_gdata attach nm s False) ?P1"
    by (simp add: deletes_def made_tensor_def)
  have "dt_name ?t \<in> dom (sa_tensors (dp_kvstore ?P1))" using st by (simp add: made_tensor_def)
  from standalone.del_effect [OF ok1(1) this, of U L] obtain st2 where st2:
    "dist_tensor_del ?K ?t ?P1 = Inr (?P1\<lparr>dp_kvstore := st2\<rparr>)"
    "sa_tensors st2 = (if deletes ?t ?P1 then (sa_tensors st)(dt_name ?t := None) else sa_tensors st)" by auto
  have "deletes ?t ?P1 \<longleftrightarrow> \<not> (persistent \<or> dp_mode P \<noteq> None \<and> dp_mode P \<noteq> Some ''standalone'' \<and> \<not> dp_initialized P)"
    by (auto simp: deletes_def made_tensor_def)
  moreover have "(sa_tensors st)(dt_name ?t := None) = sa_tensors (dp_kvstore P)"
    using st(3) assms(3) by (auto simp: made_tensor_def domIff)
  ultimately have del: "sa_tensors st2 =
      (if persistent \<or> dp_mode P \<noteq> None \<and> dp_mode P \<noteq> Some ''standalone'' \<and> \<not> dp_initialized P
       then sa_tensors st else sa_tensors (dp_kvstore P))"
    using st2(2) by auto
  have names: "dist_tensor_tensor_name ?t ?P1 = nm" "tensor_data_name p nm = Inr (dist_tensor_name ?t ?P1)"
    using made_tensor_names [of p attach P nm s] assms(2)
    by (simp_all add: ctor_ok_def dist_tensor_tensor_name_def dist_tensor_name_def)
  have "\<exists>t2. dist_tensor_init ?K shape dtype (Some nm) f (Some p) persistent2 is_gdata attach ?P1 = Inr (t2, ?P1) \<and>
      \<not> dt_owner t2 \<and> dt_name t2 = dt_name ?t \<and> dist_tensor_del ?K t2 ?P1 = Inr ?P1"
    using second [of dtype] not_del by (auto simp: dist_tensor_del_eq made_tensor_def)
  then show ?thesis unfolding Let_def
    using st names second st2(1) del by (intro exI [of _ ?t] exI [of _ ?P1]) (auto simp: made_tensor_def)
qed

section \<open>An example\<close>

definition example_part_policy :: partition_policy where
  "example_part_policy =
     \<lparr>pp_policy_str = ''node~user'', pp_part_id = 1, pp_partition_book = example_book,
      pp_type_name = TStr ''user'', pp_is_node = True\<rparr>"

definition example_tensor_lib :: "int tensor_lib" where
  "example_tensor_lib =
     \<lparr>tl_zeros = (\<lambda>shape dtype. \<lparr>tn_dtype = dtype, tn_dims = tl shape, tn_rows = replicate (nat (hd shape)) 0\<rparr>),
      tl_or = (\<lambda>a b. Inr (a\<lparr>tn_rows := map2 max (tn_rows a) (tn_rows b)\<rparr>)),
      tl_assign = (\<lambda>a b. if length (tn_rows a) = length (tn_rows b) then Inr (tn_rows b) else Inl RuntimeError)\<rparr>"

definition example_process :: "int standalone_state dist_process" where
  "example_process =
     \<lparr>dp_kvstore = (standalone_init, \<lparr>mm_cells = [], mm_names = [], mm_next = 0\<rparr>), dp_connected = True,
      dp_role = Some ''default'', dp_group_id = 0, dp_tensor_id = 0, dp_mode = None, dp_initialized = False\<rparr>"

lemma example_part_size: "pp_get_size example_part_policy = Inr 7"
  by code_simp

lemma example_data_name:
  "tensor_data_name example_part_policy n = Inr (''node~user~'' @ n)"
  by (simp add: tensor_data_name_def pp_get_data_name_def hetero_data_name_init_def hdn_str_def hdn_policy_str_def
      hdn_is_edge_def example_part_policy_def name_consts)

lemma example_process_ok: "sa_ok (dp_kvstore example_process)" "sa_tensors (dp_kvstore example_process) = Map.empty"
  by (auto simp: sa_ok_def example_process_def standalone_init_def sa_tensors_def)

theorem dist_tensor_lifecycle_witness:
  "\<exists>t P1 P2. dist_tensor_init (standalone_ops example_udfs example_tensor_lib) [7] ''float32'' (Some ''feat'') None
      (Some example_part_policy) False True True example_process = Inr (t, P1) \<and>
    dist_tensor_tensor_name t P1 = ''feat'' \<and> dist_tensor_del (standalone_ops example_udfs example_tensor_lib) t P1 = Inr P2 \<and>
    sa_tensors (dp_kvstore P2) = Map.empty"
proof -
  have ctor: "ctor_ok example_process [7] example_part_policy True ''feat'' (''node~user~'' @ attach_group_id True 0 ''feat'')"
    by (simp add: ctor_ok_def example_part_size example_data_name) (simp add: example_process_def)
  have init: "tn_dtype (run_init example_udfs example_tensor_lib (init_of None) [7] ''float32'') = ''float32''"
    "tn_shape (run_init example_udfs example_tensor_lib (init_of None) [7] ''float32'') = [7]"
    by (simp_all add: init_of_def run_init_def example_tensor_lib_def tn_shape_def)
  have fresh: "''node~user~'' @ attach_group_id True 0 ''feat'' \<notin> dom (sa_tensors (dp_kvstore example_process))"
    by (simp add: example_process_ok(2))
  have mode: "dp_mode example_process = None" by (simp add: example_process_def)
  show ?thesis
    using dist_tensor_lifecycle [OF example_process_ok(1) ctor fresh init, of True False False]
    unfolding Let_def mode
    by (elim exE conjE) (intro exI conjI, assumption+, simp add: example_process_ok(2))
qed

section \<open>Rows\<close>

text \<open>C40. Writing rows of a tensor and reading rows afterwards, with any form of index, is writing and
  reading one array; rows that are not named keep their values, and no other tensor of the store
  changes.\<close>

theorem dist_tensor_rows:
  fixes P :: "'v standalone_state dist_process"
  assumes "sa_ok (dp_kvstore P)" and "sa_plain (dp_kvstore P) (dt_name t)" and "sa_tensors (dp_kvstore P) (dt_name t) = Some T"
    and "index_init A idx Int64 = Inr ix" and "input_denotes A Int64 idx ids" and "list_all (fits Int64) ids"
    and "\<forall>i \<in> set ids. valid_index (tn_rows T) i" and "distinct ids" and "length ids = length vals"
    and "index_init A idx2 Int64 = Inr ix2" and "input_denotes A Int64 idx2 ids2" and "list_all (fits Int64) ids2"
    and "\<forall>i \<in> set ids2. valid_index (tn_rows T) i"
  shows "\<exists>P'. dist_tensor_setitem (standalone_ops U L) A t idx vals P = Inr P' \<and>
    dist_tensor_getitem (standalone_ops U L) A t idx2 P' =
      Inr (map (\<lambda>i. case map_of (zip ids vals) i of None \<Rightarrow> tn_rows T ! nat i | Some v \<Rightarrow> v) ids2) \<and>
    (\<forall>name. name \<noteq> dt_name t \<longrightarrow> sa_tensors (dp_kvstore P') name = sa_tensors (dp_kvstore P) name)"
proof -
  let ?rows = "map (\<lambda>j. case map_of (zip ids vals) (int j) of None \<Rightarrow> tn_rows T ! j | Some v \<Rightarrow> v) [0..<length (tn_rows T)]"
  obtain st where st: "dist_tensor_setitem (standalone_ops U L) A t idx vals P = Inr (P\<lparr>dp_kvstore := st\<rparr>)"
    "sa_ok st" "sa_plain st = sa_plain (dp_kvstore P)"
    "sa_tensors st = (sa_tensors (dp_kvstore P))(dt_name t \<mapsto> T\<lparr>tn_rows := ?rows\<rparr>)"
    using standalone.setitem_rows [OF assms(1-9)] by blast
  let ?P = "P\<lparr>dp_kvstore := st\<rparr>"
  have valid: "\<forall>i \<in> set ids2. valid_index (tn_rows (T\<lparr>tn_rows := ?rows\<rparr>)) i"
    using assms(13) by (simp add: valid_index_def)
  have "sa_ok (dp_kvstore ?P)" "sa_plain (dp_kvstore ?P) (dt_name t)"
    "sa_tensors (dp_kvstore ?P) (dt_name t) = Some (T\<lparr>tn_rows := ?rows\<rparr>)" using st assms(2) by simp_all
  from standalone.getitem_rows [OF this assms(10-12) valid, of U L]
  have "dist_tensor_getitem (standalone_ops U L) A t idx2 ?P = Inr (map (\<lambda>i. ?rows ! nat i) ids2)" by simp
  also have "map (\<lambda>i. ?rows ! nat i) ids2 =
      map (\<lambda>i. case map_of (zip ids vals) i of None \<Rightarrow> tn_rows T ! nat i | Some v \<Rightarrow> v) ids2"
  proof (intro map_cong refl)
    fix i
    assume "i \<in> set ids2"
    then have i: "nat i < length [0..<length (tn_rows T)]" "[0..<length (tn_rows T)] ! nat i = nat i" "int (nat i) = i"
      using assms(13) by (auto simp: valid_index_def)
    show "?rows ! nat i = (case map_of (zip ids vals) i of None \<Rightarrow> tn_rows T ! nat i | Some v \<Rightarrow> v)"
      unfolding nth_map [OF i(1)] i(2,3) by (rule refl)
  qed
  finally show ?thesis using st by (intro exI [of _ ?P]) simp
qed

definition example_stored :: "int standalone_state dist_process" where
  "example_stored = example_process\<lparr>dp_kvstore :=
     (standalone_init\<lparr>sc_data := [(''node~user~feat'', \<lparr>vw_addr = 0, vw_shape = [3], vw_dtype = ''int64'', vw_own = True\<rparr>)]\<rparr>,
      \<lparr>mm_cells = [(0, [10, 20, 30])], mm_names = [], mm_next = 1\<rparr>)\<rparr>"

lemma example_stored_ok:
  "sa_ok (dp_kvstore example_stored)" "sa_plain (dp_kvstore example_stored) ''node~user~feat''"
  "sa_tensors (dp_kvstore example_stored) ''node~user~feat'' = Some \<lparr>tn_dtype = ''int64'', tn_dims = [], tn_rows = [10, 20, 30]\<rparr>"
  by (auto simp: sa_ok_def sa_plain_def sa_tensors_def example_stored_def standalone_init_def view_tensor_def
      view_rows_def tn_shape_def split: if_splits)

theorem dist_tensor_rows_witness:
  "\<exists>P'. dist_tensor_setitem (standalone_ops example_udfs example_tensor_lib) no_objects
      (made_tensor example_process [3] ''int64'' example_part_policy False True False ''feat'' ''node~user~feat'' True)
      (In_object (Py_array 1 [2])) [99] example_stored = Inr P' \<and>
    dist_tensor_getitem (standalone_ops example_udfs example_tensor_lib) no_objects
      (made_tensor example_process [3] ''int64'' example_part_policy False True False ''feat'' ''node~user~feat'' True)
      (In_slice 1 3 None) P' = Inr [20, 99]"
proof -
  let ?t = "made_tensor example_process [3] ''int64'' example_part_policy False True False ''feat'' ''node~user~feat'' True"
  let ?ix = "index_empty Int64\<lparr>ix_pydata := Some [2], ix_user := [(Cpu, [2])]\<rparr>"
  let ?ix2 = "index_empty Int64\<lparr>ix_slice := Some (1, 3)\<rparr>"
  have idx: "index_init no_objects (In_object (Py_array 1 [2])) Int64 = Inr ?ix"
    by (simp add: index_init_def dispatch_object_def index_empty_def fits_def)
  have idx2: "index_init no_objects (In_slice 1 3 None) Int64 = Inr ?ix2" by (simp add: index_init_def)
  have arange: "arange 1 3 = [1, 2]" by (simp add: arange_def upto.simps)
  have name: "dt_name ?t = ''node~user~feat''" by (simp add: made_tensor_def)
  have stored: "sa_plain (dp_kvstore example_stored) (dt_name ?t)"
    "sa_tensors (dp_kvstore example_stored) (dt_name ?t) = Some \<lparr>tn_dtype = ''int64'', tn_dims = [], tn_rows = [10, 20, 30]\<rparr>"
    unfolding name by (rule example_stored_ok)+
  have ids: "input_denotes no_objects Int64 (In_object (Py_array 1 [2])) [2]" "list_all (fits Int64) [2]"
    "input_denotes no_objects Int64 (In_slice 1 3 None) [1, 2]" "list_all (fits Int64) [1, 2]"
    by (simp_all add: fits_def arange)
  show ?thesis
    using dist_tensor_rows [OF example_stored_ok(1) stored idx ids(1,2) _ _ _ idx2 ids(3,4), of "[99]" example_udfs example_tensor_lib]
    by (auto simp: valid_index_def)
qed

section \<open>Union\<close>

text \<open>The union of two tensors is a new anonymous tensor with the persistence of the first, and
  anonymous tensors can not be persistent: the union of a persistent tensor always fails.\<close>

theorem persistent_or_fails:
  assumes "dt_persistent t" and "dp_connected P" and "dt_shape t \<noteq> []" and "pp_get_size (dt_part_policy t) = Inr (hd (dt_shape t))"
  shows "dist_tensor_or K t other P = Inl AssertionError"
proof -
  have "py_index (dt_shape t) 0 = Inr (hd (dt_shape t))" using assms(3) by (simp add: py_index_def hd_conv_nth)
  then show ?thesis using assms by (simp add: dist_tensor_or_def dist_tensor_init_def choose_name_def Let_def)
qed

theorem persistent_or_fails_witness:
  "dist_tensor_or (standalone_ops example_udfs example_tensor_lib)
     (made_tensor example_process [7] ''int8'' example_part_policy True True True ''mask'' ''node~user~mask_0'' True)
     (made_tensor example_process [7] ''int8'' example_part_policy True True True ''mask'' ''node~user~mask_0'' True) example_process =
   Inl AssertionError"
  by (rule persistent_or_fails) (simp_all add: made_tensor_def example_part_size example_process_def)

section \<open>Anonymous tensors\<close>

definition anonymous_name :: "string \<Rightarrow> int \<Rightarrow> string" where
  "anonymous_name r k = ''anonymous-'' @ r @ ''-'' @ int_str k"

lemma int_str_no_delim: "POLICY_DELIMITER \<notin> set (int_str i)"
proof -
  have "POLICY_DELIMITER \<notin> set (nat_str n)" for n
    unfolding POLICY_DELIMITER_def using nat_str_digits digit_char_not(3) by metis
  then show ?thesis by (simp add: int_str_def POLICY_DELIMITER_def)
qed

lemma anonymous_no_delim:
  "POLICY_DELIMITER \<notin> set r \<Longrightarrow> POLICY_DELIMITER \<notin> set (attach_group_id a g (anonymous_name r k))"
  using int_str_no_delim by (auto simp: anonymous_name_def attach_group_id_def name_consts)

lemma last_part_unique:
  assumes "p @ c # n = q @ c # m" and "c \<notin> set n" and "c \<notin> set m"
  shows "n = m"
proof -
  have "rev (p @ c # n) = rev (q @ c # m)" using assms(1) by simp
  then have "takeWhile (\<lambda>x. x \<noteq> c) (rev n @ c # rev p) = takeWhile (\<lambda>x. x \<noteq> c) (rev m @ c # rev q)" by simp
  moreover have "takeWhile (\<lambda>x. x \<noteq> c) (rev n @ c # rev p) = rev n" using assms(2) by (subst takeWhile_append2) auto
  moreover have "takeWhile (\<lambda>x. x \<noteq> c) (rev m @ c # rev q) = rev m" using assms(3) by (subst takeWhile_append2) auto
  ultimately show ?thesis by simp
qed

lemma anonymous_inject:
  assumes "POLICY_DELIMITER \<notin> set r"
    and "p @ POLICY_DELIMITER # attach_group_id a g (anonymous_name r k) =
      q @ POLICY_DELIMITER # attach_group_id a g (anonymous_name r l)"
  shows "k = l"
proof -
  have "attach_group_id a g (anonymous_name r k) = attach_group_id a g (anonymous_name r l)"
    using last_part_unique [OF assms(2)] anonymous_no_delim [OF assms(1)] by blast
  then have "anonymous_name r k = anonymous_name r l" by (metis detach_attach_plain)
  then show ?thesis by (simp add: anonymous_name_def)
qed

text \<open>Anonymous tensors one after the other, as all processes of a role create them.\<close>

record anonymous_request =
  ar_shape :: "int list"
  ar_dtype :: string
  ar_policy :: partition_policy
  ar_init :: "init_func option"

definition create_anonymous :: "('s, 'v) kv_client_ops \<Rightarrow> bool \<Rightarrow> anonymous_request list \<Rightarrow> 's dist_process \<Rightarrow>
    (dist_tensor list \<times> 's dist_process) res" where
  "create_anonymous K attach reqs P =
     rfold (\<lambda>(ts, P) q. rbind (dist_tensor_init K (ar_shape q) (ar_dtype q) None (ar_init q) (Some (ar_policy q)) False True attach P)
         (\<lambda>(t, P). Inr (ts @ [t], P))) ([], P) reqs"

definition request_ok :: "anonymous_request \<Rightarrow> bool" where
  "request_ok q \<longleftrightarrow> ar_shape q \<noteq> [] \<and> pp_get_size (ar_policy q) = Inr (hd (ar_shape q)) \<and>
     (\<exists>s. tensor_data_name (ar_policy q) [] = Inr s)"

definition no_later_names :: "bool \<Rightarrow> string \<Rightarrow> 'v standalone_state dist_process \<Rightarrow> bool" where
  "no_later_names attach r P \<longleftrightarrow>
     (\<forall>prefix k. dp_tensor_id P \<le> k \<longrightarrow>
        prefix @ POLICY_DELIMITER # attach_group_id attach (dp_group_id P) (anonymous_name r k)
          \<notin> dom (sa_tensors (dp_kvstore P)))"

lemma create_one:
  assumes "sa_ok (dp_kvstore P)" and "dp_connected P" and "dp_role P = Some r" and "POLICY_DELIMITER \<notin> set r"
    and "no_later_names attach r P" and "request_ok q"
  shows "\<exists>t P'. dist_tensor_init (standalone_ops U L) (ar_shape q) (ar_dtype q) None (ar_init q) (Some (ar_policy q))
        False True attach P = Inr (t, P') \<and>
      dt_owner t \<and> dt_name t \<notin> dom (sa_tensors (dp_kvstore P)) \<and>
      sa_tensors (dp_kvstore P') =
        (sa_tensors (dp_kvstore P))(dt_name t \<mapsto> run_init U L (init_of (ar_init q)) (ar_shape q) (ar_dtype q)) \<and>
      sa_ok (dp_kvstore P') \<and> dp_connected P' \<and> dp_role P' = Some r \<and> no_later_names attach r P'"
proof -
  let ?P = "P\<lparr>dp_tensor_id := dp_tensor_id P + 1\<rparr>"
  let ?nm = "anonymous_name r (dp_tensor_id P)"
  obtain e where "tensor_data_name (ar_policy q) [] = Inr e" using assms(6) by (auto simp: request_ok_def)
  then obtain prefix where prefix: "\<And>n. tensor_data_name (ar_policy q) n = Inr (prefix @ POLICY_DELIMITER # n)"
    using tensor_data_name_split by blast
  let ?s = "prefix @ POLICY_DELIMITER # attach_group_id attach (dp_group_id P) ?nm"
  have choose: "choose_name None False P = Inr (?nm, ?P)"
    using assms(3) by (simp add: choose_name_def anonymous_name_def)
  have ctor: "ctor_ok ?P (ar_shape q) (ar_policy q) attach ?nm ?s"
    using assms(2,6) prefix by (simp add: ctor_ok_def request_ok_def)
  have fresh: "?s \<notin> dom (sa_tensors (dp_kvstore P))" using assms(5) by (simp add: no_later_names_def)
  have same: "dp_kvstore ?P = dp_kvstore P" by simp
  obtain st where st: "dist_tensor_init (standalone_ops U L) (ar_shape q) (ar_dtype q) None (ar_init q) (Some (ar_policy q))
        False True attach P =
      Inr (made_tensor ?P (ar_shape q) (ar_dtype q) (ar_policy q) False True attach ?nm ?s True, ?P\<lparr>dp_kvstore := st\<rparr>)"
    "sa_ok st" "sa_tensors st = (sa_tensors (dp_kvstore P))(?s \<mapsto> run_init U L (init_of (ar_init q)) (ar_shape q) (ar_dtype q))"
    using standalone.init_fresh [OF assms(1) choose same ctor assms(2) fresh] by blast
  have "no_later_names attach r (?P\<lparr>dp_kvstore := st\<rparr>)"
    using assms(5) anonymous_inject [OF assms(4)] st(3) by (fastforce simp: no_later_names_def)
  then show ?thesis using st fresh assms(2,3)
    by (intro exI [of _ "made_tensor ?P (ar_shape q) (ar_dtype q) (ar_policy q) False True attach ?nm ?s True"]
          exI [of _ "?P\<lparr>dp_kvstore := st\<rparr>"]) (simp add: made_tensor_def)
qed

text \<open>Anonymous tensors never meet: a process that creates any number of them, of any policies, owns
  each of them, under names that are all different and new to the store, as long as the store holds
  no anonymous name with a number that is still to come. No tensor that was there is touched.\<close>

theorem anonymous_tensors_fresh:
  fixes P :: "'v standalone_state dist_process"
  assumes "sa_ok (dp_kvstore P)" and "dp_connected P" and "dp_role P = Some r" and "POLICY_DELIMITER \<notin> set r"
    and "no_later_names attach r P" and "\<forall>q \<in> set reqs. request_ok q"
  shows "\<exists>ts P'. create_anonymous (standalone_ops U L) attach reqs P = Inr (ts, P') \<and> length ts = length reqs \<and>
    distinct (map dt_name ts) \<and> (\<forall>t \<in> set ts. dt_owner t) \<and>
    dom (sa_tensors (dp_kvstore P')) = dom (sa_tensors (dp_kvstore P)) \<union> dt_name ` set ts \<and>
    dt_name ` set ts \<inter> dom (sa_tensors (dp_kvstore P)) = {} \<and>
    (\<forall>n \<in> dom (sa_tensors (dp_kvstore P)). sa_tensors (dp_kvstore P') n = sa_tensors (dp_kvstore P) n)"
proof -
  let ?step = "\<lambda>(ts, P) q. rbind (dist_tensor_init (standalone_ops U L) (ar_shape q) (ar_dtype q) None (ar_init q)
      (Some (ar_policy q)) False True attach P) (\<lambda>(t, P). Inr (ts @ [t], P))"
  let ?done = "\<lambda>ts Q. distinct (map dt_name ts) \<and> (\<forall>t \<in> set ts. dt_owner t) \<and>
    dom (sa_tensors (dp_kvstore Q)) = dom (sa_tensors (dp_kvstore P)) \<union> dt_name ` set ts \<and>
    dt_name ` set ts \<inter> dom (sa_tensors (dp_kvstore P)) = {} \<and>
    (\<forall>n \<in> dom (sa_tensors (dp_kvstore P)). sa_tensors (dp_kvstore Q) n = sa_tensors (dp_kvstore P) n)"
  have "\<exists>ts' Q'. rfold ?step (ts, Q) reqs = Inr (ts', Q') \<and> length ts' = length ts + length reqs \<and> ?done ts' Q'"
    if "sa_ok (dp_kvstore Q)" "dp_connected Q" "dp_role Q = Some r" "no_later_names attach r Q" "?done ts Q"
    for ts and Q :: "'v standalone_state dist_process"
    using assms(6) that
  proof (induction reqs arbitrary: ts Q)
    case Nil
    then show ?case by simp
  next
    case (Cons q reqs)
    have q: "request_ok q" using Cons.prems(1) by simp
    obtain t Q' where t: "dist_tensor_init (standalone_ops U L) (ar_shape q) (ar_dtype q) None (ar_init q)
        (Some (ar_policy q)) False True attach Q = Inr (t, Q')" "dt_owner t" "dt_name t \<notin> dom (sa_tensors (dp_kvstore Q))"
      "sa_tensors (dp_kvstore Q') = (sa_tensors (dp_kvstore Q))(dt_name t \<mapsto>
        run_init U L (init_of (ar_init q)) (ar_shape q) (ar_dtype q))"
      "sa_ok (dp_kvstore Q')" "dp_connected Q'" "dp_role Q' = Some r" "no_later_names attach r Q'"
      using create_one [OF Cons.prems(2-4) assms(4) Cons.prems(5) q, of U L] by blast
    have "dt_name t \<notin> dt_name ` set ts" "dt_name t \<notin> dom (sa_tensors (dp_kvstore P))"
      using t(3) Cons.prems(6) by auto
    then have "?done (ts @ [t]) Q'" using Cons.prems(6) t(2,4) by auto
    from Cons.IH [OF _ t(5-8) this] Cons.prems(1) show ?case using t(1) by simp
  qed
  from this [of P "[]"] assms(1-5) show ?thesis by (simp add: create_anonymous_def)
qed

theorem anonymous_tensors_fresh_witness:
  "\<exists>ts P'. create_anonymous (standalone_ops example_udfs example_tensor_lib) True
      [\<lparr>ar_shape = [7], ar_dtype = ''int8'', ar_policy = example_part_policy, ar_init = None\<rparr>,
       \<lparr>ar_shape = [7], ar_dtype = ''int8'', ar_policy = example_part_policy, ar_init = None\<rparr>] example_process = Inr (ts, P') \<and>
    length ts = 2 \<and> distinct (map dt_name ts)"
proof -
  let ?q = "\<lparr>ar_shape = [7], ar_dtype = ''int8'', ar_policy = example_part_policy, ar_init = None\<rparr>"
  have proc: "dp_connected example_process" "dp_role example_process = Some ''default''" "POLICY_DELIMITER \<notin> set ''default''"
    by (simp_all add: example_process_def name_consts)
  have names: "no_later_names True ''default'' example_process"
    by (simp add: no_later_names_def example_process_ok(2))
  have reqs: "\<forall>q \<in> set [?q, ?q]. request_ok q"
    by (simp add: request_ok_def example_part_size example_data_name)
  have two: "length [?q, ?q] = 2" by simp
  show ?thesis
    using anonymous_tensors_fresh [OF example_process_ok(1) proc names reqs, of example_udfs example_tensor_lib]
    unfolding two by (elim exE conjE) (intro exI conjI, assumption+)
qed

end
