(* ===== verification/TensorDataset.thy ===== *)
theory TensorDataset
  imports Backend
begin

text \<open>
  The datasets of identifiers of \<^verbatim>\<open>python/dgl/dataloading/dataloader.py\<close>: \<open>TensorizedDataset\<close> and its
  iterator, which cut a tensor of identifiers, or a dictionary of them, into batches, and
  \<open>DDPTensorizedDataset\<close>, which gives every process of a group its share first. A tensor of
  identifiers has one column, or two when the identifiers have types (the place of the type among
  the keys of the dictionary, then the identifier).
\<close>

section \<open>Tensors of identifiers\<close>

datatype id_row = Plain_id int | Typed_id int int

fun row_type :: "id_row \<Rightarrow> int res" where
  "row_type (Plain_id i) = Inl IndexError"
| "row_type (Typed_id t i) = Inr t"

fun row_index :: "id_row \<Rightarrow> int res" where
  "row_index (Plain_id i) = Inl IndexError"
| "row_index (Typed_id t i) = Inr i"

text \<open>\<open>x[start:stop] = vals\<close>: as many rows as the slice has, or one for all of them.\<close>

definition set_rows :: "'a list \<Rightarrow> int \<Rightarrow> int \<Rightarrow> 'a list \<Rightarrow> 'a list res" where
  "set_rows xs start stop vals =
     (let a = slice_bound (length xs) start; b = slice_bound (length xs) stop; n = b - a in
      if length vals = n then Inr (take a xs @ vals @ drop (a + n) xs)
      else if length vals = 1 then Inr (take a xs @ replicate n (hd vals) @ drop (a + n) xs)
      else Inl RuntimeError)"

text \<open>\<open>torch.empty\<close>: rows with whatever the memory holds, the argument \<open>junk\<close>.\<close>

definition empty_rows :: "(nat \<Rightarrow> 'a) \<Rightarrow> int \<Rightarrow> 'a list res" where
  "empty_rows junk n = (if n < 0 then Inl RuntimeError else Inr (map junk [0..<nat n]))"

text \<open>The functions of PyTorch and NumPy that are called, and what their documentation states.\<close>

record torch_seq =
  ts_sort_stable :: "int list \<Rightarrow> int list \<times> int list"
  ts_unique_consecutive :: "int list \<Rightarrow> int list \<times> int list"
  ts_cumsum :: "int list \<Rightarrow> int list"
  ts_shuffle :: "int list \<Rightarrow> int list"

fun runs :: "int list \<Rightarrow> int list \<Rightarrow> int list" where
  "runs (x # xs) (n # ns) = replicate (nat n) x @ runs xs ns"
| "runs _ _ = []"

definition torch_seq_laws :: "torch_seq \<Rightarrow> bool" where
  "torch_seq_laws T \<longleftrightarrow>
     (\<forall>xs. ts_sort_stable T xs = (sort xs, map int (sort_key (\<lambda>i. xs ! i) [0..<length xs]))) \<and>
     (\<forall>xs. let (u, c) = ts_unique_consecutive T xs in length u = length c \<and> runs u c = xs \<and>
        (\<forall>n \<in> set c. 0 < n) \<and> distinct_adj u) \<and>
     (\<forall>xs. ts_cumsum T xs = prefix_sums xs) \<and>
     (\<forall>xs. mset (ts_shuffle T xs) = mset xs)"

section \<open>The iterator\<close>

record 'k tensor_iter =
  ti_dataset :: "id_row list"
  ti_batch_size :: int
  ti_drop_last :: bool
  ti_mapping_keys :: "'k list option"
  ti_index :: int
  ti_shuffle :: bool

datatype 'k batch = Batch "id_row list" | Batch_dict "('k \<times> int list) list"

definition tensor_iter_init :: "id_row list \<Rightarrow> int \<Rightarrow> bool \<Rightarrow> 'k list option \<Rightarrow> bool \<Rightarrow> 'k tensor_iter" where
  "tensor_iter_init dataset batch_size drop_last mapping_keys shuffle =
     \<lparr>ti_dataset = dataset, ti_batch_size = batch_size, ti_drop_last = drop_last,
      ti_mapping_keys = mapping_keys, ti_index = 0, ti_shuffle = shuffle\<rparr>"

definition next_indices :: "'k tensor_iter \<Rightarrow> (id_row list \<times> 'k tensor_iter) res" where
  "next_indices it =
     (let num_items = int (length (ti_dataset it)) in
      if num_items \<le> ti_index it then Inl StopIteration
      else
        let end_idx = ti_index it + ti_batch_size it in
        rbind (if num_items < end_idx then if ti_drop_last it then Inl StopIteration else Inr num_items
               else Inr end_idx) (\<lambda>end_idx.
        Inr (py_slice (ti_dataset it) (ti_index it) end_idx, it\<lparr>ti_index := ti_index it + ti_batch_size it\<rparr>)))"

definition id_dict :: "torch_seq \<Rightarrow> 'k list \<Rightarrow> id_row list \<Rightarrow> ('k \<times> int list) list res" where
  "id_dict T mapping_keys batch =
     rbind (rmap row_type batch) (\<lambda>type_ids. rbind (rmap row_index batch) (\<lambda>indices.
     let sortidx = snd (ts_sort_stable T type_ids) in
     rbind (take_rows type_ids sortidx) (\<lambda>type_ids. rbind (take_rows indices sortidx) (\<lambda>indices.
     let (type_id_uniq, type_id_count) = ts_unique_consecutive T type_ids;
         type_id_offset = 0 # ts_cumsum T type_id_count in
     rfold (\<lambda>d i.
         rbind (py_index type_id_uniq (int i)) (\<lambda>t. rbind (py_index mapping_keys t) (\<lambda>k.
         rbind (py_index type_id_offset (int i)) (\<lambda>a. rbind (py_index type_id_offset (int i + 1)) (\<lambda>b.
         Inr (AList.update k (py_slice indices a b) d))))))
       [] [0..<length type_id_uniq]))))"

definition tensor_iter_next :: "torch_seq \<Rightarrow> 'k tensor_iter \<Rightarrow> ('k batch \<times> 'k tensor_iter) res" where
  "tensor_iter_next T it =
     rbind (next_indices it) (\<lambda>(batch, it).
     case ti_mapping_keys it of
       None \<Rightarrow> Inr (Batch batch, it)
     | Some keys \<Rightarrow> rbind (id_dict T keys batch) (\<lambda>d. Inr (Batch_dict d, it)))"

text \<open>A \<open>for\<close> loop over the iterator, which need not end: \<open>None\<close> if it does not.\<close>

partial_function (option) all_batches :: "torch_seq \<Rightarrow> 'k tensor_iter \<Rightarrow> 'k batch list res option" where
  "all_batches T it =
     (case tensor_iter_next T it of
        Inl e \<Rightarrow> Some (if e = StopIteration then Inr [] else Inl e)
      | Inr (b, it') \<Rightarrow>
          Option.bind (all_batches T it') (\<lambda>r. Some (rbind r (\<lambda>bs. Inr (b # bs)))))"

section \<open>Building the tensors\<close>

definition mapping_rows :: "int \<Rightarrow> int list \<Rightarrow> id_row list" where
  "mapping_rows i index = map (Typed_id i) index"

fun fill_keys :: "('k \<times> int list) list \<Rightarrow> int \<Rightarrow> 'k list \<Rightarrow> int \<Rightarrow> id_row list \<Rightarrow> id_row list res" where
  "fill_keys indices i [] offset id_tensor = Inr id_tensor"
| "fill_keys indices i (k # ks) offset id_tensor =
     (case map_of indices k of
        None \<Rightarrow> fill_keys indices (i + 1) ks offset id_tensor
      | Some index \<Rightarrow>
          let len = int (length index) in
          rbind (set_rows id_tensor offset (offset + len) (mapping_rows i index)) (\<lambda>id_tensor.
          fill_keys indices (i + 1) ks (offset + len) id_tensor))"

definition get_id_tensor_from_mapping :: "(nat \<Rightarrow> id_row) \<Rightarrow> ('k \<times> int list) list \<Rightarrow> 'k list \<Rightarrow> id_row list res" where
  "get_id_tensor_from_mapping junk indices keys =
     rbind (if indices = [] then Inl StopIteration else Inr ()) (\<lambda>_.
     rbind (empty_rows junk (sum_list (map (\<lambda>(_, v). int (length v)) indices))) (\<lambda>id_tensor.
     fill_keys indices 0 keys 0 id_tensor))"

fun split_keys :: "('k \<times> int list) list \<Rightarrow> int \<Rightarrow> int \<Rightarrow> int \<Rightarrow> int \<Rightarrow> 'k list \<Rightarrow> int \<Rightarrow> int \<Rightarrow> id_row list \<Rightarrow> id_row list res" where
  "split_keys indices lo hi num_samples i [] index_offset split_id_offset id_tensor = Inr id_tensor"
| "split_keys indices lo hi num_samples i (k # ks) index_offset split_id_offset id_tensor =
     (case map_of indices k of
        None \<Rightarrow> split_keys indices lo hi num_samples (i + 1) ks index_offset split_id_offset id_tensor
      | Some index \<Rightarrow>
          let index_offset2 = index_offset + int (length index);
              lower = max lo index_offset; upper = min hi index_offset2 in
          if lower < upper then
            let split_id_offset2 = split_id_offset + (upper - lower) in
            rbind (rassert (split_id_offset2 \<le> num_samples) AssertionError) (\<lambda>_.
            rbind (set_rows id_tensor split_id_offset split_id_offset2
                (mapping_rows i (py_slice index (lower - index_offset) (upper - index_offset)))) (\<lambda>id_tensor.
            if split_id_offset2 = num_samples then Inr id_tensor
            else split_keys indices lo hi num_samples (i + 1) ks index_offset2 split_id_offset2 id_tensor))
          else split_keys indices lo hi num_samples (i + 1) ks index_offset2 split_id_offset id_tensor)"

definition split_to_local_id_tensor_from_mapping :: "(nat \<Rightarrow> id_row) \<Rightarrow> ('k \<times> int list) list \<Rightarrow> 'k list \<Rightarrow> int \<Rightarrow> int \<Rightarrow>
    id_row list res" where
  "split_to_local_id_tensor_from_mapping junk indices keys local_lower_bound local_upper_bound =
     rbind (if indices = [] then Inl StopIteration else Inr ()) (\<lambda>_.
     let num_samples = local_upper_bound - local_lower_bound in
     rbind (empty_rows junk num_samples) (\<lambda>id_tensor.
     split_keys indices local_lower_bound local_upper_bound num_samples 0 keys 0 0 id_tensor))"

definition split_to_local_id_tensor :: "(nat \<Rightarrow> 'a) \<Rightarrow> 'a list \<Rightarrow> int \<Rightarrow> int \<Rightarrow> 'a list res" where
  "split_to_local_id_tensor junk indices local_lower_bound local_upper_bound =
     rbind (empty_rows junk (local_upper_bound - local_lower_bound)) (\<lambda>id_tensor.
     if int (length indices) < local_upper_bound
     then set_rows id_tensor 0 (int (length indices) - local_lower_bound)
            (py_slice indices local_lower_bound (int (length indices)))
     else Inr (py_slice indices local_lower_bound local_upper_bound))"

text \<open>The batches of one worker; \<open>worker\<close> is its number and the number of workers.\<close>

definition divide_by_worker :: "(int \<times> int) option \<Rightarrow> 'a list \<Rightarrow> int \<Rightarrow> bool \<Rightarrow> 'a list res" where
  "divide_by_worker worker dataset batch_size drop_last =
     (let num_samples = int (length dataset) in
      case worker of
        None \<Rightarrow> Inr dataset
      | Some (wid, num_workers) \<Rightarrow>
          rbind (py_floordiv (num_samples + (if drop_last then 0 else batch_size - 1)) batch_size) (\<lambda>num_batches.
          rbind (py_divmod num_batches num_workers) (\<lambda>(num_batches_per_worker, left_over).
          let start = num_batches_per_worker * wid + min left_over wid;
              end' = start + num_batches_per_worker + (if wid < left_over then 1 else 0) in
          Inr (py_slice dataset (start * batch_size) (min (end' * batch_size) num_samples)))))"

section \<open>The datasets\<close>

datatype 'k id_input = Id_tensor "int list" | Id_mapping "('k \<times> int list) list"

record 'k id_dataset =
  td_id_tensor :: "id_row list"
  td_mapping_keys :: "'k list option"
  td_indices :: "int list"
  td_batch_size :: int
  td_drop_last :: bool
  td_shuffle :: bool

definition tensorized_init :: "(nat \<Rightarrow> id_row) \<Rightarrow> 'k id_input \<Rightarrow> int \<Rightarrow> bool \<Rightarrow> bool \<Rightarrow> 'k id_dataset res" where
  "tensorized_init junk indices batch_size drop_last shuffle =
     rbind (case indices of
         Id_mapping d \<Rightarrow>
           let keys = map fst d in
           rbind (get_id_tensor_from_mapping junk d keys) (\<lambda>t. Inr (t, Some keys))
       | Id_tensor xs \<Rightarrow> Inr (map Plain_id xs, None)) (\<lambda>(id_tensor, keys).
     Inr \<lparr>td_id_tensor = id_tensor, td_mapping_keys = keys, td_indices = arange 0 (int (length id_tensor)),
          td_batch_size = batch_size, td_drop_last = drop_last, td_shuffle = shuffle\<rparr>)"

definition tensorized_shuffle :: "torch_seq \<Rightarrow> 'k id_dataset \<Rightarrow> 'k id_dataset" where
  "tensorized_shuffle T D = D\<lparr>td_indices := ts_shuffle T (td_indices D)\<rparr>"

definition dataset_iter :: "(int \<times> int) option \<Rightarrow> ('k, 'z) id_dataset_scheme \<Rightarrow> 'k tensor_iter res" where
  "dataset_iter worker D =
     rbind (divide_by_worker worker (td_indices D) (td_batch_size D) (td_drop_last D)) (\<lambda>indices.
     rbind (take_rows (td_id_tensor D) indices) (\<lambda>id_tensor.
     Inr (tensor_iter_init id_tensor (td_batch_size D) (td_drop_last D) (td_mapping_keys D) (td_shuffle D))))"

definition tensorized_len :: "'k id_dataset \<Rightarrow> int res" where
  "tensorized_len D =
     py_floordiv (int (length (td_id_tensor D)) + (if td_drop_last D then 0 else td_batch_size D - 1)) (td_batch_size D)"

record 'k ddp_dataset = "'k id_dataset" +
  dd_rank :: int
  dd_num_replicas :: int
  dd_seed :: int
  dd_epoch :: int
  dd_local_lower_bound :: int
  dd_local_upper_bound :: int
  dd_num_samples :: int
  dd_local_num_indices :: int

definition decompose_one_dimension :: "int \<Rightarrow> int \<Rightarrow> int \<Rightarrow> bool \<Rightarrow> (int \<times> int) res" where
  "decompose_one_dimension len world_size rank drop_last =
     rbind (if world_size = 0 then Inl ZeroDivisionError
            else Inr (if drop_last then len div world_size else - ((- len) div world_size))) (\<lambda>num_samples.
     Inr (rank * num_samples, (rank + 1) * num_samples))"

definition ddp_init :: "(nat \<Rightarrow> id_row) \<Rightarrow> int \<times> int \<Rightarrow> 'k id_input \<Rightarrow> int \<Rightarrow> bool \<Rightarrow> int \<Rightarrow> bool \<Rightarrow> 'k ddp_dataset res" where
  "ddp_init junk ranks indices batch_size drop_last ddp_seed shuffle =
     (let (rank, num_replicas) = ranks;
          len_indices = (case indices of Id_mapping d \<Rightarrow> sum_list (map (\<lambda>(_, v). int (length v)) d)
                                       | Id_tensor xs \<Rightarrow> int (length xs)) in
      rbind (decompose_one_dimension len_indices num_replicas rank drop_last) (\<lambda>(lower, upper).
      let num_samples = upper - lower in
      rbind (if len_indices < upper
             then rbind (rassert (\<not> drop_last) AssertionError) (\<lambda>_. Inr (len_indices - lower))
             else Inr num_samples) (\<lambda>local_num_indices.
      rbind (case indices of
          Id_mapping d \<Rightarrow>
            let keys = map fst d in
            rbind (split_to_local_id_tensor_from_mapping junk d keys lower upper) (\<lambda>t. Inr (t, Some keys))
        | Id_tensor xs \<Rightarrow>
            rbind (split_to_local_id_tensor junk (map Plain_id xs) lower upper) (\<lambda>t. Inr (t, None))) (\<lambda>(id_tensor, keys).
      rbind (torch_arange 0 local_num_indices 1) (\<lambda>local.
      rbind (if drop_last then Inr [] else torch_arange 0 (num_samples - local_num_indices) 1) (\<lambda>padding.
      rbind (rassert (int (length id_tensor) = num_samples) AssertionError) (\<lambda>_.
      Inr \<lparr>td_id_tensor = id_tensor, td_mapping_keys = keys, td_indices = local @ padding,
           td_batch_size = batch_size, td_drop_last = drop_last, td_shuffle = shuffle,
           dd_rank = rank, dd_num_replicas = num_replicas, dd_seed = ddp_seed, dd_epoch = 0,
           dd_local_lower_bound = lower, dd_local_upper_bound = upper, dd_num_samples = num_samples,
           dd_local_num_indices = local_num_indices\<rparr>)))))))"

text \<open>The padding is copied from the front of the same tensor; PyTorch refuses an assignment between
  parts of a tensor that overlap.\<close>

definition ddp_shuffle :: "torch_seq \<Rightarrow> 'k ddp_dataset \<Rightarrow> 'k ddp_dataset res" where
  "ddp_shuffle T D =
     (let n = dd_local_num_indices D; pad = dd_num_samples D - n;
          indices = ts_shuffle T (py_slice (td_indices D) 0 n) @ py_slice (td_indices D) n (int (length (td_indices D))) in
      if \<not> td_drop_last D
      then rbind (rassert (pad \<le> n) RuntimeError) (\<lambda>_.
        Inr (D\<lparr>td_indices := py_slice indices 0 n @ py_slice indices 0 pad\<rparr>))
      else Inr (D\<lparr>td_indices := indices\<rparr>))"

definition ddp_len :: "'k ddp_dataset \<Rightarrow> int res" where
  "ddp_len D =
     py_floordiv (dd_num_samples D + (if td_drop_last D then 0 else td_batch_size D - 1)) (td_batch_size D)"

datatype 'k tensor_dataset = Tensorized "'k id_dataset" | Ddp "'k ddp_dataset"

definition create_tensorized_dataset :: "(nat \<Rightarrow> id_row) \<Rightarrow> int \<times> int \<Rightarrow> 'k id_input \<Rightarrow> int \<Rightarrow> bool \<Rightarrow> bool \<Rightarrow> int \<Rightarrow> bool \<Rightarrow>
    'k tensor_dataset res" where
  "create_tensorized_dataset junk ranks indices batch_size drop_last use_ddp ddp_seed shuffle =
     (if use_ddp
      then rbind (ddp_init junk ranks indices batch_size drop_last ddp_seed shuffle) (\<lambda>D. Inr (Ddp D))
      else rbind (tensorized_init junk indices batch_size drop_last shuffle) (\<lambda>D. Inr (Tensorized D)))"

end
