(* ===== verification/DatasetBatch.thy ===== *)
theory DatasetBatch
  imports TensorDataset
begin

text \<open>
  What the iterator over a tensor of identifiers yields: the batches are the pieces of the tensor in
  order, and a batch of typed identifiers becomes a dictionary that groups them by type.
\<close>

section \<open>Grouping a batch by type\<close>

lemma insort_key_map: "map g (insort_key (\<lambda>x. k (g x)) x xs) = insort_key k (g x) (map g xs)"
  by (induction xs) simp_all

lemma sort_key_map: "map g (sort_key (\<lambda>x. k (g x)) xs) = sort_key k (map g xs)"
  by (induction xs) (simp_all add: insort_key_map)

lemma insort_key_same: "\<forall>y \<in> insert x (set xs). f y = g y \<Longrightarrow> insort_key f x xs = insort_key g x xs"
  by (induction xs) simp_all

lemma sort_key_same: "\<forall>x \<in> set xs. f x = g x \<Longrightarrow> sort_key f xs = sort_key g xs"
  by (induction xs) (simp_all add: insort_key_same)

lemma sort_idx:
  "map (\<lambda>i. f (ps ! nat i)) (map int (sort_key (\<lambda>i. map fst ps ! i) [0..<length ps])) =
    map f (sort_key fst (ps :: (int \<times> int) list))"
proof -
  have "sort_key (\<lambda>i. map fst ps ! i) [0..<length ps] = sort_key (\<lambda>i. fst (ps ! i)) [0..<length ps]"
    by (rule sort_key_same) simp
  then have "map (\<lambda>i. ps ! nat i) (map int (sort_key (\<lambda>i. map fst ps ! i) [0..<length ps])) =
      map (\<lambda>i. ps ! i) (sort_key (\<lambda>i. fst (ps ! i)) [0..<length ps])" by simp
  also have "\<dots> = sort_key fst (map (\<lambda>i. ps ! i) [0..<length ps])" by (rule sort_key_map)
  also have "map (\<lambda>i. ps ! i) [0..<length ps] = ps" by (rule map_nth)
  finally have "map f (map (\<lambda>i. ps ! nat i) (map int (sort_key (\<lambda>i. map fst ps ! i) [0..<length ps]))) =
      map f (sort_key fst ps)" by simp
  then show ?thesis by (simp add: comp_def)
qed

lemma take_sort_idx:
  assumes "torch_seq_laws T"
  shows "take_rows (map fst ps) (snd (ts_sort_stable T (map fst ps))) = Inr (map fst (sort_key fst ps))"
    and "take_rows (map snd ps) (snd (ts_sort_stable T (map fst ps))) = Inr (map snd (sort_key fst (ps :: (int \<times> int) list)))"
proof -
  have s: "snd (ts_sort_stable T (map fst ps)) = map int (sort_key (\<lambda>i. map fst ps ! i) [0..<length ps])"
    using assms by (simp add: torch_seq_laws_def)
  have v: "valid_index (map f ps) i"
    if "i \<in> set (map int (sort_key (\<lambda>i. map fst ps ! i) [0..<length ps]))" for i and f :: "int \<times> int \<Rightarrow> int"
    using that by (auto simp: valid_index_def)
  have "map (\<lambda>i. map f ps ! nat i) (map int (sort_key (\<lambda>i. map fst ps ! i) [0..<length ps])) =
      map (\<lambda>i. f (ps ! nat i)) (map int (sort_key (\<lambda>i. map fst ps ! i) [0..<length ps]))"
    for f :: "int \<times> int \<Rightarrow> int" by auto
  then show "take_rows (map fst ps) (snd (ts_sort_stable T (map fst ps))) = Inr (map fst (sort_key fst ps))"
    and "take_rows (map snd ps) (snd (ts_sort_stable T (map fst ps))) = Inr (map snd (sort_key fst ps))"
    unfolding s using take_rows_valid [OF v] sort_idx [of _ ps] by metis+
qed

text \<open>The runs of a sorted vector: each value once, in order, and its run is where it stands.\<close>

lemma runs_set:
  "length u = length c \<Longrightarrow> \<forall>n \<in> set c. 0 < n \<Longrightarrow> set (runs u c) = set u"
  by (induction u c rule: runs.induct) auto

lemma runs_increasing:
  assumes "length u = length c" and "\<forall>n \<in> set c. 0 < n" and "sorted (runs u c)"
    and "distinct_adj u"
  shows "sorted_wrt (<) u"
  using assms
proof (induction u c rule: runs.induct)
  case (1 x xs n ns)
  have "\<forall>y \<in> set (runs xs ns). x \<le> y" using "1.prems"(2,3) by (auto simp: sorted_append)
  then have le: "\<forall>y \<in> set xs. x \<le> y" using runs_set [of xs ns] "1.prems"(1,2) by simp
  have inc: "sorted_wrt (<) xs"
    using "1.IH" "1.prems" by (auto simp: sorted_append distinct_adj_Cons)
  have "x < y" if "y \<in> set xs" for y
  proof (cases xs)
    case Nil
    then show ?thesis using that by simp
  next
    case (Cons z zs)
    have "x \<noteq> z" using "1.prems"(4) Cons by simp
    then have "x < z" using le Cons by force
    then show ?thesis using inc that Cons by force
  qed
  then show ?case using inc by simp
qed simp_all

lemma run_slice:
  assumes "length u = length c" and "\<forall>n \<in> set c. 0 < n" and "sorted_wrt (<) u"
    and "map fst zs = runs u c" and "i < length u"
  shows "take (nat (c ! i)) (drop (nat (sum_list (take i c))) zs) = filter (\<lambda>z. fst z = u ! i) zs"
  using assms
proof (induction u c arbitrary: zs i rule: runs.induct)
  case (1 x xs n ns)
  let ?a = "take (nat n) zs" and ?b = "drop (nat n) zs"
  have "length zs = nat n + length (runs xs ns)"
    using arg_cong [OF "1.prems"(4), of length] by simp
  then have fa: "map fst ?a = replicate (nat n) x" and fb: "map fst ?b = runs xs ns"
    using "1.prems"(4) by (simp_all add: take_map [symmetric] drop_map [symmetric])
  have a: "fst z = x" if "z \<in> set ?a" for z
  proof -
    have "fst z \<in> set (map fst ?a)" using that by auto
    then show ?thesis unfolding fa by simp
  qed
  have b: "fst z \<in> set xs" if "z \<in> set ?b" for z
  proof -
    have "fst z \<in> set (map fst ?b)" using that by auto
    then show ?thesis unfolding fb using runs_set [of xs ns] "1.prems"(1,2) by simp
  qed
  have split: "filter P zs = filter P ?a @ filter P ?b" for P
    by (metis append_take_drop_id filter_append)
  show ?case
  proof (cases i)
    case 0
    have "filter (\<lambda>z. fst z = x) ?a = ?a" by (rule filter_True) (auto dest: a)
    moreover have "filter (\<lambda>z. fst z = x) ?b = []" using b "1.prems"(3) by (fastforce simp: filter_empty_conv)
    ultimately show ?thesis using 0 by (simp add: split)
  next
    case (Suc j)
    have j: "j < length xs" using "1.prems"(5) Suc by simp
    have none: "filter (\<lambda>z. fst z = xs ! j) ?a = []" using a "1.prems"(3) j by (fastforce simp: filter_empty_conv)
    have "0 \<le> sum_list (take j ns)"
      using "1.prems"(2) by (intro sum_list_nonneg) (auto dest!: in_set_takeD intro: less_imp_le)
    then have "nat (sum_list (take i (n # ns))) = nat (sum_list (take j ns)) + nat n"
      using "1.prems"(2) Suc by (simp add: nat_add_distrib)
    then have "drop (nat (sum_list (take i (n # ns)))) zs = drop (nat (sum_list (take j ns))) ?b" by simp
    moreover have "take (nat (ns ! j)) (drop (nat (sum_list (take j ns))) ?b) = filter (\<lambda>z. fst z = xs ! j) ?b"
      by (rule "1.IH") (use "1.prems" fb j in simp_all)
    ultimately show ?thesis using Suc none by (simp add: split)
  qed
qed simp_all

text \<open>An instance of the laws, for closed examples.\<close>

fun consecutive :: "int list \<Rightarrow> int list \<times> int list" where
  "consecutive [] = ([], [])"
| "consecutive (x # xs) =
     (case consecutive xs of
        (u # us, n # ns) \<Rightarrow> if u = x then (u # us, (n + 1) # ns) else (x # u # us, 1 # n # ns)
      | _ \<Rightarrow> ([x], [1]))"

definition torch_seq_ref :: torch_seq where
  "torch_seq_ref =
     \<lparr>ts_sort_stable = (\<lambda>xs. (sort xs, map int (sort_key (\<lambda>i. xs ! i) [0..<length xs]))),
      ts_unique_consecutive = consecutive, ts_cumsum = prefix_sums, ts_shuffle = rev\<rparr>"

lemma consecutive_runs:
  "consecutive xs = (u, c) \<Longrightarrow> length u = length c \<and> runs u c = xs \<and> (\<forall>n \<in> set c. 0 < n) \<and> distinct_adj u"
proof (induction xs arbitrary: u c)
  case (Cons x xs)
  obtain u' c' where uc: "consecutive xs = (u', c')" by (cases "consecutive xs")
  note IH = Cons.IH [OF uc]
  show ?case
  proof (cases u')
    case Nil
    then show ?thesis using IH Cons.prems uc by auto
  next
    case (Cons v us)
    then obtain n ns where c': "c' = n # ns" using IH by (cases c') auto
    have "nat (n + 1) = Suc (nat n)" using IH c' by (simp add: nat_add_distrib)
    then show ?thesis using IH Cons.prems uc c' \<open>u' = v # us\<close>
      by (auto split: if_splits)
  qed
qed simp

lemma torch_seq_ref_laws: "torch_seq_laws torch_seq_ref"
  using consecutive_runs by (auto simp: torch_seq_laws_def torch_seq_ref_def)

text \<open>The types of a batch in ascending order, and the identifiers of one type in the order of the
  batch.\<close>

definition batch_types :: "(int \<times> int) list \<Rightarrow> int list" where
  "batch_types ps = sort (remdups (map fst ps))"

definition batch_ids :: "(int \<times> int) list \<Rightarrow> int \<Rightarrow> int list" where
  "batch_ids ps t = map snd (filter (\<lambda>p. fst p = t) ps)"

lemma unique_runs:
  assumes "torch_seq_laws T" and "ts_unique_consecutive T (map fst (sort_key fst ps)) = (u, c)"
  shows "u = batch_types ps" and "length u = length c" and "\<forall>n \<in> set c. 0 < n"
    and "runs u c = map fst (sort_key fst (ps :: (int \<times> int) list))"
proof -
  have c: "length u = length c" "runs u c = map fst (sort_key fst ps)" "\<forall>n \<in> set c. 0 < n"
    "distinct_adj u"
    using assms by (auto simp: torch_seq_laws_def dest!: spec [of _ "map fst (sort_key fst ps)"])
  have "sorted (runs u c)" unfolding c(2) by simp
  then have inc: "sorted_wrt (<) u" using c runs_increasing by blast
  have "set u = fst ` set ps" using runs_set [OF c(1,3)] c(2) by simp
  then have "set u = set (batch_types ps)" by (simp add: batch_types_def)
  moreover have "sorted_wrt (<) (batch_types ps)" by (simp add: batch_types_def strict_sorted_iff)
  ultimately show "u = batch_types ps" using inc by (simp add: strict_sorted_equal)
  show "length u = length c" "\<forall>n \<in> set c. 0 < n" "runs u c = map fst (sort_key fst ps)"
    using c by simp_all
qed

lemma rfold_new_keys:
  assumes "\<And>d x. x \<in> set xs \<Longrightarrow> F d x = Inr (AList.update (k x) (v x) d)"
    and "distinct (map k xs)" and "k ` set xs \<inter> fst ` set d = {}"
  shows "rfold F d xs = Inr (d @ map (\<lambda>x. (k x, v x)) xs)"
  using assms
proof (induction xs arbitrary: d)
  case Nil
  then show ?case by simp
next
  case (Cons x xs)
  have x: "F d x = Inr (d @ [(k x, v x)])" using Cons.prems by (simp add: update_fresh)
  have "rfold F (d @ [(k x, v x)]) xs = Inr ((d @ [(k x, v x)]) @ map (\<lambda>x. (k x, v x)) xs)"
    by (rule Cons.IH) (use Cons.prems in \<open>auto simp: image_iff\<close>)
  then show ?case using x by simp
qed

definition typed_batch :: "(int \<times> int) list \<Rightarrow> id_row list" where
  "typed_batch ps = map (\<lambda>(t, i). Typed_id t i) ps"

definition grouped :: "'k list \<Rightarrow> (int \<times> int) list \<Rightarrow> ('k \<times> int list) list" where
  "grouped keys ps = map (\<lambda>t. (keys ! nat t, batch_ids ps t)) (batch_types ps)"

lemma typed_columns:
  "rmap row_type (typed_batch ps) = Inr (map fst ps)" "rmap row_index (typed_batch ps) = Inr (map snd ps)"
  by (induction ps) (auto simp: typed_batch_def)

lemma batch_types_set [simp]: "set (batch_types ps) = fst ` set ps" "distinct (batch_types ps)"
  by (simp_all add: batch_types_def)

lemma id_dict_grouped:
  assumes T: "torch_seq_laws T" and keys: "distinct keys" and valid: "\<forall>p \<in> set ps. valid_index keys (fst p)"
  shows "id_dict T keys (typed_batch ps) = Inr (grouped keys ps)"
proof -
  let ?qs = "sort_key fst ps" and ?ts = "batch_types ps"
  obtain u c where uc: "ts_unique_consecutive T (map fst ?qs) = (u, c)" by (cases "ts_unique_consecutive T (map fst ?qs)")
  note u = unique_runs [OF T uc]
  have len: "length c = length ?ts" using u(1,2) by simp
  let ?step = "\<lambda>d i. rbind (py_index u (int i)) (\<lambda>t. rbind (py_index keys t) (\<lambda>k.
      rbind (py_index (0 # prefix_sums c) (int i)) (\<lambda>a. rbind (py_index (0 # prefix_sums c) (int i + 1)) (\<lambda>b.
      Inr (AList.update k (py_slice (map snd ?qs) a b) d)))))"
  have step: "?step d i = Inr (AList.update (keys ! nat (?ts ! i)) (batch_ids ps (?ts ! i)) d)"
    if "i \<in> set [0..<length u]" for d i
  proof -
    have i: "i < length u" using that by simp
    have "?ts ! i \<in> fst ` set ps" using i u(1) nth_mem batch_types_set(1) by metis
    then have k: "valid_index keys (?ts ! i)" using valid by auto
    have nonneg: "0 \<le> sum_list (take j c)" for j
      using u(3) by (intro sum_list_nonneg) (auto dest!: in_set_takeD intro: less_imp_le)
    have a: "py_index (0 # prefix_sums c) (int i) = Inr (sum_list (take i c))"
      using i u(2) by (cases i) (simp_all add: py_index_nth nat_add_distrib)
    have b: "py_index (0 # prefix_sums c) (int i + 1) = Inr (sum_list (take (Suc i) c))"
      using i u(2) by (simp add: py_index_nth nat_add_distrib)
    have "sum_list (take (Suc i) c) = sum_list (take i c) + c ! i"
      using i u(2) by (simp add: take_Suc_conv_app_nth)
    moreover have "0 < c ! i" using i u(2,3) by simp
    ultimately have "nat (sum_list (take (Suc i) c)) - nat (sum_list (take i c)) = nat (c ! i)"
      using nonneg [of i] by simp
    then have "py_slice (map snd ?qs) (sum_list (take i c)) (sum_list (take (Suc i) c)) =
        map snd (take (nat (c ! i)) (drop (nat (sum_list (take i c))) ?qs))"
      using nonneg by (simp add: py_slice_nonneg take_map drop_map)
    also have "\<dots> = map snd (filter (\<lambda>z. fst z = u ! i) ?qs)"
    proof -
      have "sorted_wrt (<) u" unfolding u(1) by (simp add: batch_types_def strict_sorted_iff)
      then show ?thesis using run_slice [OF u(2,3) _ u(4) [symmetric] i] by simp
    qed
    also have "\<dots> = batch_ids ps (u ! i)" by (simp add: batch_ids_def sort_key_stable)
    finally show ?thesis using i k a b u(1) by (simp add: valid_index_def)
  qed
  have "inj_on (\<lambda>t. keys ! nat t) (fst ` set ps)"
  proof (rule inj_onI)
    fix a b
    assume "a \<in> fst ` set ps" "b \<in> fst ` set ps" "keys ! nat a = keys ! nat b"
    moreover have "0 \<le> t \<and> nat t < length keys" if "t \<in> fst ` set ps" for t
      using that valid by (auto simp: valid_index_def)
    ultimately show "a = b" using nth_eq_iff_index_eq [OF keys] by (metis eq_nat_nat_iff)
  qed
  then have "distinct (map (\<lambda>t. keys ! nat t) ?ts)" by (simp add: distinct_map)
  then have "distinct (map (\<lambda>i. keys ! nat (?ts ! i)) [0..<length u])"
    using map_nth [of ?ts] u(1) by (metis (no_types, lifting) map_map comp_def map_cong)
  from rfold_new_keys [of "[0..<length u]", OF step this]
  have "rfold ?step [] [0..<length u] =
      Inr (map (\<lambda>i. (keys ! nat (?ts ! i), batch_ids ps (?ts ! i))) [0..<length u])" by simp
  also have "map (\<lambda>i. (keys ! nat (?ts ! i), batch_ids ps (?ts ! i))) [0..<length u] = grouped keys ps"
    unfolding grouped_def u(1) by (rule nth_equalityI) simp_all
  finally show ?thesis
    using take_sort_idx [OF T, of ps] T
    by (simp add: id_dict_def typed_columns uc torch_seq_laws_def Let_def)
qed

end
