(* ===== verification/DatasetEpoch.thy ===== *)
theory DatasetEpoch
  imports DatasetBatch
begin

text \<open>
  An epoch over a tensorised dataset: the batches of the iterator, the division of the batches
  among the workers of a process, and what the batches hold together.
\<close>

section \<open>The pieces of a list\<close>

definition num_pieces :: "nat \<Rightarrow> bool \<Rightarrow> nat \<Rightarrow> nat" where
  "num_pieces B drop_last n = (n + (if drop_last then 0 else B - 1)) div B"

definition piece :: "nat \<Rightarrow> 'a list \<Rightarrow> nat \<Rightarrow> 'a list" where
  "piece B xs j = take B (drop (j * B) xs)"

definition pieces :: "nat \<Rightarrow> bool \<Rightarrow> 'a list \<Rightarrow> 'a list list" where
  "pieces B drop_last xs = map (piece B xs) [0..<num_pieces B drop_last (length xs)]"

lemma length_pieces [simp]: "length (pieces B dl xs) = num_pieces B dl (length xs)"
  by (simp add: pieces_def)

lemma num_pieces_less:
  assumes "0 < B"
  shows "j < num_pieces B dl n \<longleftrightarrow> (if dl then Suc j * B \<le> n else j * B < n)"
proof (cases dl)
  case True
  then show ?thesis using assms by (simp add: num_pieces_def Suc_le_eq [symmetric] less_eq_div_iff_mult_less_eq)
next
  case False
  have "j < (n + (B - 1)) div B \<longleftrightarrow> Suc j * B \<le> n + (B - 1)"
    using assms by (simp add: Suc_le_eq [symmetric] less_eq_div_iff_mult_less_eq)
  then show ?thesis using assms False by (auto simp: num_pieces_def)
qed

lemma num_pieces_int:
  assumes "0 < B"
  shows "(int n + (if dl then 0 else int B - 1)) div int B = int (num_pieces B dl n)"
  using assms by (simp add: num_pieces_def zdiv_int of_nat_diff)

lemma concat_piece:
  "concat (map (piece B xs) [0..<k]) = take (k * B) xs"
proof (induction k)
  case (Suc k)
  have "take (k * B) xs @ take B (drop (k * B) xs) = take (k * B + B) xs" by (simp add: take_add)
  then show ?case using Suc by (simp add: piece_def add.commute)
qed simp

lemma concat_pieces:
  assumes "0 < B"
  shows "concat (pieces B dl xs) = (if dl then take (length xs div B * B) xs else xs)"
proof -
  have "length xs \<le> num_pieces B False (length xs) * B"
    using num_pieces_less [OF assms, of "num_pieces B False (length xs)" False "length xs"] by simp
  then show ?thesis by (auto simp: pieces_def concat_piece num_pieces_def)
qed

lemma length_piece:
  assumes "0 < B" and "j < num_pieces B dl (length xs)"
  shows "0 < length (piece B xs j)" and "dl \<or> Suc j < num_pieces B dl (length xs) \<Longrightarrow> length (piece B xs j) = B"
  using assms num_pieces_less [OF assms(1), of j dl "length xs"] num_pieces_less [OF assms(1), of "Suc j" dl "length xs"]
  by (auto simp: piece_def split: if_splits)

text \<open>A slice that starts and ends at pieces has the pieces in between.\<close>

lemma pieces_slice:
  assumes B: "0 < B" and s: "s \<le> e" and e: "e \<le> num_pieces B dl (length xs)"
  shows "pieces B dl (take (min (e * B) (length xs) - s * B) (drop (s * B) xs)) = map (piece B xs) [s..<e]"
proof (cases "s = e")
  case True
  then show ?thesis using B by (simp add: pieces_def num_pieces_def)
next
  case False
  let ?n = "length xs"
  let ?ys = "take (min (e * B) ?n - s * B) (drop (s * B) xs)"
  have se: "s < e" using s False by simp
  have last: "if dl then e * B \<le> ?n else (e - 1) * B < ?n"
    using num_pieces_less [OF B, of "e - 1" dl ?n] se e by (cases e) auto
  have len: "length ?ys = min (e * B) ?n - s * B" by simp
  have "j < num_pieces B dl (length ?ys) \<longleftrightarrow> j < e - s" for j
  proof (cases dl)
    case True
    then have "length ?ys = (e - s) * B" using last by (simp add: diff_mult_distrib)
    moreover have "Suc j * B \<le> (e - s) * B \<longleftrightarrow> Suc j \<le> e - s" using B mult_le_cancel2 [of "Suc j" B "e - s"] by simp
    ultimately show ?thesis using True by (simp add: num_pieces_less [OF B] Suc_le_eq)
  next
    case False
    have "j * B < min (e * B) ?n - s * B \<longleftrightarrow> (s + j) * B < e * B \<and> (s + j) * B < ?n"
      by (auto simp: add_mult_distrib)
    also have "\<dots> \<longleftrightarrow> s + j < e"
    proof
      assume "s + j < e"
      then have "(s + j) * B \<le> (e - 1) * B" by (intro mult_le_mono1) simp
      moreover have "(e - 1) * B < ?n" using last False by simp
      ultimately have "(s + j) * B < ?n" by (rule le_less_trans)
      then show "(s + j) * B < e * B \<and> (s + j) * B < ?n" using \<open>s + j < e\<close> B by simp
    qed simp
    finally show ?thesis using False len by (auto simp: num_pieces_less [OF B])
  qed
  then have num: "num_pieces B dl (length ?ys) = e - s" by (metis linorder_neqE_nat less_irrefl)
  have "piece B ?ys j = piece B xs (s + j)" if "j < e - s" for j
  proof -
    have sj: "s + j < num_pieces B dl ?n" using that e by simp
    have "Suc (s + j) * B \<le> e * B" using that by (intro mult_le_mono1) simp
    then have le: "(s + j) * B + B \<le> e * B" by simp
    have "piece B ?ys j = take (min B (min (e * B) ?n - s * B - j * B)) (drop ((s + j) * B) xs)"
      by (simp add: piece_def drop_take add_mult_distrib add.commute)
    also have "\<dots> = take B (drop ((s + j) * B) xs)"
      using le by (cases "(s + j) * B + B \<le> ?n") (auto simp: add_mult_distrib min_def)
    finally show ?thesis by (simp add: piece_def)
  qed
  then have "map (piece B ?ys) [0..<e - s] = map (\<lambda>j. piece B xs (s + j)) [0..<e - s]" by simp
  also have "\<dots> = map (piece B xs) [s..<e]"
    using s by (intro nth_equalityI) simp_all
  finally show ?thesis unfolding pieces_def num .
qed

section \<open>The batches of an iterator\<close>

fun row_pair :: "id_row \<Rightarrow> int \<times> int" where
  "row_pair (Typed_id t i) = (t, i)"
| "row_pair (Plain_id i) = (0, i)"

definition batch_of :: "'k list option \<Rightarrow> id_row list \<Rightarrow> 'k batch" where
  "batch_of keys rows =
     (case keys of None \<Rightarrow> Batch rows | Some ks \<Rightarrow> Batch_dict (grouped ks (map row_pair rows)))"

fun row_ok :: "'k list option \<Rightarrow> id_row \<Rightarrow> bool" where
  "row_ok None (Plain_id i) \<longleftrightarrow> True"
| "row_ok (Some ks) (Typed_id t i) \<longleftrightarrow> valid_index ks t"
| "row_ok _ _ \<longleftrightarrow> False"

definition keys_ok :: "'k list option \<Rightarrow> bool" where
  "keys_ok keys \<longleftrightarrow> (case keys of None \<Rightarrow> True | Some ks \<Rightarrow> distinct ks)"

lemma typed_batch_pairs: "\<forall>r \<in> set rows. row_ok (Some ks) r \<Longrightarrow> typed_batch (map row_pair rows) = rows"
proof (induction rows)
  case (Cons r rows)
  then show ?case by (cases r) (simp_all add: typed_batch_def)
qed (simp add: typed_batch_def)

lemma id_dict_rows:
  assumes "torch_seq_laws T" and "distinct ks" and "\<forall>r \<in> set rows. row_ok (Some ks) r"
  shows "id_dict T ks rows = Inr (grouped ks (map row_pair rows))"
proof -
  have "valid_index ks (fst (row_pair r))" if "r \<in> set rows" for r
    using assms(3) that by (cases r) auto
  then have "id_dict T ks (typed_batch (map row_pair rows)) = Inr (grouped ks (map row_pair rows))"
    using id_dict_grouped [OF assms(1,2)] by simp
  then show ?thesis using typed_batch_pairs [OF assms(3)] by simp
qed

lemma next_indices_eq:
  assumes "0 < B" and "ti_batch_size it = int B" and "ti_index it = int (j * B)"
  shows "next_indices it =
    (if j < num_pieces B (ti_drop_last it) (length (ti_dataset it))
     then Inr (piece B (ti_dataset it) j, it\<lparr>ti_index := int (Suc j * B)\<rparr>) else Inl StopIteration)"
proof -
  let ?n = "length (ti_dataset it)"
  have e: "ti_index it + ti_batch_size it = int (j * B + B)" using assms by simp
  have slice: "py_slice (ti_dataset it) (int (j * B)) (int k) = take (k - j * B) (drop (j * B) (ti_dataset it))" for k
    by (simp add: py_slice_nonneg del: of_nat_mult)
  have suc: "int (Suc j * B) = int (j * B) + int B" by simp
  consider "?n \<le> j * B" | "j * B < ?n" "j * B + B \<le> ?n" | "j * B < ?n" "?n < j * B + B" by linarith
  then show ?thesis
  proof cases
    case 1
    then have "int ?n \<le> ti_index it" using assms(3) by linarith
    then show ?thesis using 1 assms(1) by (auto simp: next_indices_def num_pieces_less)
  next
    case 2
    then have "\<not> int ?n \<le> ti_index it" "\<not> int ?n < ti_index it + ti_batch_size it" using e assms(3) by linarith+
    moreover have "j < num_pieces B (ti_drop_last it) ?n" using 2 assms(1) by (auto simp: num_pieces_less)
    ultimately show ?thesis using slice [of "j * B + B"] e assms(2,3)
      by (simp add: next_indices_def piece_def suc add.commute)
  next
    case 3
    then have n: "\<not> int ?n \<le> ti_index it" "int ?n < ti_index it + ti_batch_size it" using e assms(3) by linarith+
    have "take (?n - j * B) (drop (j * B) (ti_dataset it)) = piece B (ti_dataset it) j"
      unfolding piece_def using 3 by simp
    then have "py_slice (ti_dataset it) (ti_index it) (int ?n) = piece B (ti_dataset it) j"
      unfolding assms(3) slice .
    then show ?thesis using n 3 assms by (auto simp: next_indices_def num_pieces_less suc add.commute)
  qed
qed

lemma set_piece: "set (piece B xs j) \<subseteq> set xs"
  unfolding piece_def by (meson set_drop_subset set_take_subset subset_trans)

lemma all_batches_from:
  assumes T: "torch_seq_laws T" and B: "0 < B" and keys: "keys_ok (ti_mapping_keys it)"
    and rows: "\<forall>r \<in> set (ti_dataset it). row_ok (ti_mapping_keys it) r"
    and it: "ti_batch_size it = int B" "ti_index it = int (j * B)"
    and j: "j \<le> num_pieces B (ti_drop_last it) (length (ti_dataset it))"
  shows "all_batches T it = Some (Inr (map (\<lambda>i. batch_of (ti_mapping_keys it) (piece B (ti_dataset it) i))
    [j..<num_pieces B (ti_drop_last it) (length (ti_dataset it))]))"
  using keys rows it j
proof (induction "num_pieces B (ti_drop_last it) (length (ti_dataset it)) - j" arbitrary: j it)
  case 0
  then have "tensor_iter_next T it = Inl StopIteration"
    using next_indices_eq [OF B "0.prems"(3,4)] by (simp add: tensor_iter_next_def)
  then show ?case using "0.hyps" by (subst all_batches.simps) simp
next
  case (Suc m)
  let ?it = "it\<lparr>ti_index := int (Suc j * B)\<rparr>"
  let ?N = "num_pieces B (ti_drop_last it) (length (ti_dataset it))"
  have j: "j < ?N" using Suc.hyps(2) by simp
  have ok: "\<forall>r \<in> set (piece B (ti_dataset it) j). row_ok (ti_mapping_keys it) r"
    using Suc.prems(2) set_piece by (metis subsetD)
  have step: "tensor_iter_next T it = Inr (batch_of (ti_mapping_keys it) (piece B (ti_dataset it) j), ?it)"
  proof (cases "ti_mapping_keys it")
    case None
    then show ?thesis using j by (simp add: tensor_iter_next_def next_indices_eq [OF B Suc.prems(3,4)] batch_of_def)
  next
    case (Some ks)
    have "id_dict T ks (piece B (ti_dataset it) j) = Inr (grouped ks (map row_pair (piece B (ti_dataset it) j)))"
      by (rule id_dict_rows [OF T]) (use Suc.prems(1) ok Some in \<open>auto simp: keys_ok_def\<close>)
    then show ?thesis using j Some
      by (simp add: tensor_iter_next_def next_indices_eq [OF B Suc.prems(3,4)] batch_of_def)
  qed
  have "all_batches T ?it = Some (Inr (map (\<lambda>i. batch_of (ti_mapping_keys ?it) (piece B (ti_dataset ?it) i))
      [Suc j..<num_pieces B (ti_drop_last ?it) (length (ti_dataset ?it))]))"
    by (rule Suc.hyps(1)) (use Suc.prems Suc.hyps(2) j in simp_all)
  then show ?case using step j
    by (subst all_batches.simps) (simp add: upt_conv_Cons)
qed

section \<open>Workers\<close>

text \<open>What a process reads of a dataset in an epoch, as one of several workers or alone.\<close>

definition epoch :: "torch_seq \<Rightarrow> (int \<times> int) option \<Rightarrow> ('k, 'z) id_dataset_scheme \<Rightarrow> 'k batch list res option" where
  "epoch T worker D = (case dataset_iter worker D of Inl e \<Rightarrow> Some (Inl e) | Inr it \<Rightarrow> all_batches T it)"

text \<open>A dataset is in order when its indices, which shuffling permutes, name rows with known types.\<close>

definition dataset_rows :: "('k, 'z) id_dataset_scheme \<Rightarrow> id_row list" where
  "dataset_rows D = map (\<lambda>i. td_id_tensor D ! nat i) (td_indices D)"

definition dataset_ok :: "('k, 'z) id_dataset_scheme \<Rightarrow> bool" where
  "dataset_ok D \<longleftrightarrow> 0 < td_batch_size D \<and> keys_ok (td_mapping_keys D) \<and>
     (\<forall>r \<in> set (dataset_rows D). row_ok (td_mapping_keys D) r) \<and>
     (\<forall>i \<in> set (td_indices D). valid_index (td_id_tensor D) i)"

definition worker_start :: "nat \<Rightarrow> nat \<Rightarrow> nat \<Rightarrow> nat" where
  "worker_start N w i = N div w * i + min (N mod w) i"

lemma worker_start_Suc:
  "worker_start N w (Suc i) = worker_start N w i + N div w + (if i < N mod w then 1 else 0)"
  by (auto simp: worker_start_def min_def)

lemma worker_start_ends [simp]: "worker_start N w 0 = 0" "0 < w \<Longrightarrow> worker_start N w w = N"
proof -
  show "worker_start N w 0 = 0" by (simp add: worker_start_def)
  assume "0 < w"
  then have "min (N mod w) w = N mod w" by (simp add: min_def less_imp_le)
  then show "worker_start N w w = N" by (simp add: worker_start_def)
qed

lemma worker_start_mono: "i \<le> j \<Longrightarrow> worker_start N w i \<le> worker_start N w j"
  unfolding worker_start_def by (intro add_mono mult_le_mono) auto

lemma divide_by_worker_eq:
  assumes "0 < B" and "i < w"
  shows "divide_by_worker (Some (int i, int w)) xs (int B) dl =
    Inr (let N = num_pieces B dl (length xs) in
      take (min (worker_start N w (Suc i) * B) (length xs) - worker_start N w i * B) (drop (worker_start N w i * B) xs))"
proof -
  let ?N = "num_pieces B dl (length xs)"
  have start: "int ?N div int w * int i + min (int ?N mod int w) (int i) = int (worker_start ?N w i)"
    by (simp add: worker_start_def zdiv_int zmod_int of_nat_min)
  have stop: "int (worker_start ?N w i) + int ?N div int w + (if int i < int ?N mod int w then 1 else 0) =
      int (worker_start ?N w (Suc i))"
    using of_nat_less_iff [of i "?N mod w", where 'a = int]
    by (simp add: worker_start_Suc zdiv_int zmod_int del: of_nat_less_iff)
  have "min (int (worker_start ?N w (Suc i)) * int B) (int (length xs)) = int (min (worker_start ?N w (Suc i) * B) (length xs))"
    by (simp add: of_nat_min)
  moreover have "py_slice xs (int a * int B) (int b) = take (b - a * B) (drop (a * B) xs)" for a b
    by (simp add: py_slice_nonneg nat_mult_distrib)
  moreover have "py_floordiv (int (length xs) + (if dl then 0 else int B - 1)) (int B) = Inr (int ?N)"
    using assms(1) num_pieces_int [OF assms(1), of "length xs" dl] by simp
  moreover have "py_divmod (int ?N) (int w) = Inr (int ?N div int w, int ?N mod int w)" using assms(2) by simp
  ultimately show ?thesis unfolding divide_by_worker_def Let_def using start stop by simp
qed

lemma epoch_rows:
  assumes T: "torch_seq_laws T" and ok: "dataset_ok D" and B: "td_batch_size D = int B"
    and idx: "divide_by_worker worker (td_indices D) (td_batch_size D) (td_drop_last D) = Inr idx"
    and sub: "set idx \<subseteq> set (td_indices D)"
  shows "epoch T worker D = Some (Inr (map (batch_of (td_mapping_keys D))
    (pieces B (td_drop_last D) (map (\<lambda>i. td_id_tensor D ! nat i) idx))))"
proof -
  let ?rows = "map (\<lambda>i. td_id_tensor D ! nat i) idx"
  let ?it = "tensor_iter_init ?rows (td_batch_size D) (td_drop_last D) (td_mapping_keys D) (td_shuffle D)"
  have pos: "0 < B" using ok B by (simp add: dataset_ok_def)
  have "take_rows (td_id_tensor D) idx = Inr ?rows"
    by (rule take_rows_valid) (use ok sub in \<open>auto simp: dataset_ok_def\<close>)
  then have iter: "dataset_iter worker D = Inr ?it" by (simp add: dataset_iter_def idx)
  have "set ?rows \<subseteq> set (dataset_rows D)" using sub by (auto simp: dataset_rows_def)
  then have "row_ok (td_mapping_keys D) r" if "r \<in> set ?rows" for r
    using that ok by (auto simp: dataset_ok_def)
  then have "all_batches T ?it = Some (Inr (map (\<lambda>i. batch_of (ti_mapping_keys ?it) (piece B (ti_dataset ?it) i))
      [0..<num_pieces B (ti_drop_last ?it) (length (ti_dataset ?it))]))"
    by (intro all_batches_from [OF T pos]) (use ok B in \<open>simp_all add: tensor_iter_init_def dataset_ok_def\<close>)
  then show ?thesis by (simp add: epoch_def iter tensor_iter_init_def pieces_def)
qed

lemma epoch_alone:
  assumes "torch_seq_laws T" and "dataset_ok D" and "td_batch_size D = int B"
  shows "epoch T None D = Some (Inr (map (batch_of (td_mapping_keys D)) (pieces B (td_drop_last D) (dataset_rows D))))"
  using epoch_rows [OF assms, of None "td_indices D"] by (simp add: divide_by_worker_def dataset_rows_def Let_def)

lemma concat_ranges:
  assumes "\<And>i. i < w \<Longrightarrow> s i \<le> (s (Suc i) :: nat)"
  shows "concat (map (\<lambda>i. map f [s i..<s (Suc i)]) [0..<w]) = map f [s 0..<s w]"
proof -
  have "concat (map (\<lambda>i. map f [s i..<s (Suc i)]) [0..<w]) = map f [s 0..<s w] \<and> s 0 \<le> s w"
    using assms
  proof (induction w)
    case (Suc w)
    then have "s 0 \<le> s w" "s w \<le> s (Suc w)" by simp_all
    then have "[s 0..<s w] @ [s w..<s (Suc w)] = [s 0..<s (Suc w)]" by (rule upt_append)
    then have "map f [s 0..<s w] @ map f [s w..<s (Suc w)] = map f [s 0..<s (Suc w)]" by (metis map_append)
    moreover have "s 0 \<le> s (Suc w)" using \<open>s 0 \<le> s w\<close> \<open>s w \<le> s (Suc w)\<close> by (rule le_trans)
    ultimately show ?case using Suc by simp
  qed simp
  then show ?thesis by simp
qed

lemma workers_pieces:
  assumes "torch_seq_laws T" and "dataset_ok D" and B: "td_batch_size D = int B" and "i < w"
  defines "N \<equiv> num_pieces B (td_drop_last D) (length (td_indices D))"
  shows "epoch T (Some (int i, int w)) D =
    Some (Inr (map (\<lambda>j. batch_of (td_mapping_keys D) (piece B (dataset_rows D) j))
      [worker_start N w i..<worker_start N w (Suc i)]))"
proof -
  let ?s = "worker_start N w i" and ?e = "worker_start N w (Suc i)"
  let ?n = "length (td_indices D)"
  let ?idx = "take (min (?e * B) ?n - ?s * B) (drop (?s * B) (td_indices D))"
  have pos: "0 < B" using assms(2) B by (simp add: dataset_ok_def)
  have idx: "divide_by_worker (Some (int i, int w)) (td_indices D) (td_batch_size D) (td_drop_last D) = Inr ?idx"
    using divide_by_worker_eq [OF pos assms(4)] B by (simp add: N_def Let_def)
  have sub: "set ?idx \<subseteq> set (td_indices D)" by (meson set_drop_subset set_take_subset subset_trans)
  have se: "?s \<le> ?e" "?e \<le> N"
    using worker_start_mono [of i "Suc i" N w] worker_start_mono [of "Suc i" w N w] assms(4) by simp_all
  have "map (\<lambda>i. td_id_tensor D ! nat i) ?idx =
      take (min (?e * B) (length (dataset_rows D)) - ?s * B) (drop (?s * B) (dataset_rows D))"
    by (simp add: dataset_rows_def take_map drop_map)
  moreover have "?e \<le> num_pieces B (td_drop_last D) (length (dataset_rows D))" using se(2) by (simp add: N_def dataset_rows_def)
  ultimately have "pieces B (td_drop_last D) (map (\<lambda>i. td_id_tensor D ! nat i) ?idx) = map (piece B (dataset_rows D)) [?s..<?e]"
    using pieces_slice [OF pos se(1)] by metis
  then show ?thesis using epoch_rows [OF assms(1,2) B idx sub] by (simp add: comp_def)
qed

text \<open>C28. Division among workers: for any number of workers, the batches that the workers of a process
  read one after the other are exactly the batches the process would read alone, in the same order
  and with the same contents, and each worker's epoch ends; their number is the \<open>len\<close> of the dataset.\<close>

theorem workers_share_batches:
  assumes "torch_seq_laws T" and "dataset_ok D" and "0 < w" and "length (td_indices D) = length (td_id_tensor D)"
  shows "\<exists>bs parts. epoch T None D = Some (Inr bs) \<and> tensorized_len D = Inr (int (length bs)) \<and>
    length parts = w \<and> concat parts = bs \<and>
    (\<forall>i < w. epoch T (Some (int i, int w)) D = Some (Inr (parts ! i)))"
proof -
  obtain B where B: "td_batch_size D = int B" using assms(2) zero_le_imp_eq_int by (fastforce simp: dataset_ok_def)
  have pos: "0 < B" using assms(2) B by (simp add: dataset_ok_def)
  let ?N = "num_pieces B (td_drop_last D) (length (td_indices D))"
  let ?f = "\<lambda>j. batch_of (td_mapping_keys D) (piece B (dataset_rows D) j)"
  let ?parts = "map (\<lambda>i. map ?f [worker_start ?N w i..<worker_start ?N w (Suc i)]) [0..<w]"
  have alone: "epoch T None D = Some (Inr (map ?f [0..<?N]))"
    using epoch_alone [OF assms(1,2) B] by (simp add: pieces_def dataset_rows_def comp_def)
  have "concat ?parts = map ?f [0..<?N]"
    using concat_ranges [of w "worker_start ?N w" ?f] worker_start_mono assms(3) by simp
  moreover have "tensorized_len D = Inr (int ?N)"
    using num_pieces_int [OF pos, of "length (td_id_tensor D)" "td_drop_last D"] B pos assms(4)
    by (simp add: tensorized_len_def del: of_nat_add split: if_splits)
  moreover have "epoch T (Some (int i, int w)) D = Some (Inr (?parts ! i))" if "i < w" for i
    using workers_pieces [OF assms(1,2) B that] that by simp
  ultimately show ?thesis using alone by (intro exI [of _ "map ?f [0..<?N]"] exI [of _ ?parts]) simp
qed

end
