(* ===== verification/DatasetShare.thy ===== *)
theory DatasetShare
  imports DatasetEpoch
begin

text \<open>
  How the datasets are built: the typed tensor of a dictionary, the share of a process in a group,
  and the padding that gives all processes the same number of identifiers.
\<close>

section \<open>The rows of an input\<close>

fun flat_rows :: "int \<Rightarrow> ('k \<times> int list) list \<Rightarrow> id_row list" where
  "flat_rows i [] = []"
| "flat_rows i ((k, v) # d) = mapping_rows i v @ flat_rows (i + 1) d"

definition input_rows :: "'k id_input \<Rightarrow> id_row list" where
  "input_rows inp = (case inp of Id_tensor xs \<Rightarrow> map Plain_id xs | Id_mapping d \<Rightarrow> flat_rows 0 d)"

definition input_keys :: "'k id_input \<Rightarrow> 'k list option" where
  "input_keys inp = (case inp of Id_tensor xs \<Rightarrow> None | Id_mapping d \<Rightarrow> Some (map fst d))"

definition input_ok :: "'k id_input \<Rightarrow> bool" where
  "input_ok inp \<longleftrightarrow> (case inp of Id_tensor xs \<Rightarrow> True | Id_mapping d \<Rightarrow> d \<noteq> [] \<and> distinct (map fst d))"

lemma length_mapping_rows [simp]: "length (mapping_rows i v) = length v"
  by (simp add: mapping_rows_def)

lemma length_flat_rows: "int (length (flat_rows i d)) = sum_list (map (\<lambda>(_, v). int (length v)) d)"
  by (induction i d rule: flat_rows.induct) simp_all

lemma length_input_rows:
  "int (length (input_rows inp)) =
    (case inp of Id_mapping d \<Rightarrow> sum_list (map (\<lambda>(_, v). int (length v)) d) | Id_tensor xs \<Rightarrow> int (length xs))"
  by (simp add: input_rows_def length_flat_rows split: id_input.split)

lemma flat_rows_types: "r \<in> set (flat_rows i d) \<Longrightarrow> \<exists>t x. r = Typed_id t x \<and> i \<le> t \<and> t < i + int (length d)"
  by (induction i d rule: flat_rows.induct) (fastforce simp: mapping_rows_def)+

lemma input_rows_ok: "\<forall>r \<in> set (input_rows inp). row_ok (input_keys inp) r"
proof (cases inp)
  case (Id_mapping d)
  then show ?thesis using flat_rows_types [of _ 0 d] by (fastforce simp: input_rows_def input_keys_def valid_index_def)
qed (auto simp: input_rows_def input_keys_def)

lemma input_keys_ok: "input_ok inp \<Longrightarrow> keys_ok (input_keys inp)"
  by (auto simp: input_ok_def keys_ok_def input_keys_def split: id_input.split)

section \<open>Filling a typed tensor\<close>

lemma take_prefix: "take (length xs) (xs @ ys) = xs" "drop (length xs) (xs @ ys) = ys"
  by simp_all

lemma drop_past: "drop (length xs + n) (xs @ drop (length xs) ys) = drop (length xs + n) ys"
  by (simp add: add.commute)

lemma set_rows_at:
  assumes "length pre = a" and "a + length vals \<le> length xs" and "take a xs = pre"
  shows "set_rows xs (int a) (int (a + length vals)) vals = Inr (pre @ vals @ drop (a + length vals) xs)"
proof -
  have "slice_bound (length xs) (int a) = a" "slice_bound (length xs) (int (a + length vals)) = a + length vals"
    using assms(2) by (simp_all add: slice_bound_pos nat_add_distrib)
  then show ?thesis using assms(3) by (simp add: set_rows_def Let_def)
qed

lemma fill_keys_eq:
  assumes "\<forall>(k, v) \<in> set d. map_of indices k = Some v" and "length pre + length (flat_rows i d) = length tens"
    and "take (length pre) tens = pre"
  shows "fill_keys indices i (map fst d) (int (length pre)) tens = Inr (pre @ flat_rows i d)"
  using assms
proof (induction i d arbitrary: pre tens rule: flat_rows.induct)
  case (2 i k v d)
  let ?n = "length pre + length v"
  have "set_rows tens (int (length pre)) (int (length pre + length (mapping_rows i v))) (mapping_rows i v) =
      Inr (pre @ mapping_rows i v @ drop (length pre + length (mapping_rows i v)) tens)"
    by (rule set_rows_at) (use "2.prems" in simp_all)
  then have set: "set_rows tens (int (length pre)) (int (length pre) + int (length v)) (mapping_rows i v) =
      Inr ((pre @ mapping_rows i v) @ drop ?n tens)" by simp
  have "fill_keys indices (i + 1) (map fst d) (int (length (pre @ mapping_rows i v))) ((pre @ mapping_rows i v) @ drop ?n tens) =
      Inr ((pre @ mapping_rows i v) @ flat_rows (i + 1) d)"
    by (rule "2.IH") (use "2.prems" in simp_all)
  then show ?case using "2.prems"(1) set by simp
qed simp

lemma get_id_tensor_rows:
  assumes "d \<noteq> []" and "distinct (map fst d)"
  shows "get_id_tensor_from_mapping junk d (map fst d) = Inr (flat_rows 0 d)"
proof -
  let ?m = "sum_list (map (\<lambda>(_, v). int (length v)) d)"
  have m: "?m = int (length (flat_rows 0 d))" using length_flat_rows [of 0 d] by simp
  have "fill_keys d 0 (map fst d) (int (length ([] :: id_row list))) (map junk [0..<length (flat_rows 0 d)]) = Inr ([] @ flat_rows 0 d)"
    by (rule fill_keys_eq) (use assms(2) in \<open>auto intro: map_of_is_SomeI\<close>)
  then show ?thesis using assms(1) by (simp add: get_id_tensor_from_mapping_def empty_rows_def m)
qed

lemma split_keys_eq:
  assumes "\<forall>(k, v) \<in> set d. map_of indices k = Some v" and "l \<le> h" and "length tens0 = h - l"
    and "tens = take (h - l) (drop l pre) @ drop (length (take (h - l) (drop l pre))) tens0"
  shows "split_keys indices (int l) (int h) (int (h - l)) i (map fst d) (int (length pre))
      (int (length (take (h - l) (drop l pre)))) tens =
    Inr (let res = take (h - l) (drop l (pre @ flat_rows i d)) in res @ drop (length res) tens0)"
  using assms
proof (induction i d arbitrary: pre tens rule: flat_rows.induct)
  case (1 i)
  then show ?case by simp
next
  case (2 i k v d)
  let ?filled = "\<lambda>xs. take (h - l) (drop l xs)"
  let ?pre2 = "pre @ mapping_rows i v"
  let ?lower = "max (int l) (int (length pre))" and ?upper = "min (int h) (int (length pre) + int (length v))"
  let ?new = "take (h - l - length (drop l pre)) (drop (l - length pre) (mapping_rows i v))"
  have filled: "?filled ?pre2 = ?filled pre @ ?new" by simp
  have len: "length tens = h - l" using "2.prems"(3,4) by simp
  have k: "map_of indices k = Some v" using "2.prems"(1) by simp
  have IH: "split_keys indices (int l) (int h) (int (h - l)) (i + 1) (map fst d) (int (length ?pre2))
      (int (length (?filled ?pre2))) t =
    Inr (let res = ?filled (?pre2 @ flat_rows (i + 1) d) in res @ drop (length res) tens0)"
    if "t = ?filled ?pre2 @ drop (length (?filled ?pre2)) tens0" for t
    by (rule "2.IH") (use "2.prems" that in auto)
  show ?case
  proof (cases "?lower < ?upper")
    case True
    have slice: "mapping_rows i (py_slice v (?lower - int (length pre)) (?upper - int (length pre))) = ?new"
    proof -
      have "nat (?lower - int (length pre)) = l - length pre" by auto
      moreover have "take (nat (?upper - int (length pre)) - nat (?lower - int (length pre))) (drop (l - length pre) v) =
          take (h - l - length (drop l pre)) (drop (l - length pre) v)"
      proof (cases "int h \<le> int (length pre) + int (length v)")
        case True
        then have "nat (?upper - int (length pre)) - nat (?lower - int (length pre)) = h - l - length (drop l pre)"
          using \<open>?lower < ?upper\<close> by auto
        then show ?thesis by simp
      next
        case False
        then have "length (drop (l - length pre) v) \<le> nat (?upper - int (length pre)) - nat (?lower - int (length pre))"
          "length (drop (l - length pre) v) \<le> h - l - length (drop l pre)"
          by auto
        then show ?thesis by simp
      qed
      ultimately show ?thesis using True
        by (simp add: py_slice_nonneg mapping_rows_def take_map drop_map)
    qed
    have new_len: "int (length ?new) = ?upper - ?lower" using True by auto
    have fits: "length (?filled pre) + length ?new \<le> h - l" using True by auto
    have "set_rows tens (int (length (?filled pre))) (int (length (?filled pre) + length ?new)) ?new =
        Inr (?filled pre @ ?new @ drop (length (?filled pre) + length ?new) tens)"
    proof (rule set_rows_at)
      show "take (length (?filled pre)) tens = ?filled pre" unfolding "2.prems"(4) by (rule take_prefix)
    qed (use fits len in simp_all)
    also have "drop (length (?filled pre) + length ?new) tens = drop (length (?filled pre) + length ?new) tens0"
      unfolding "2.prems"(4) by (rule drop_past)
    finally have *: "set_rows tens (int (length (?filled pre))) (int (length (?filled pre) + length ?new)) ?new =
        Inr (?filled pre @ ?new @ drop (length (?filled pre) + length ?new) tens0)" .
    have off: "int (length (?filled pre)) + (?upper - ?lower) = int (length (?filled ?pre2))"
      unfolding filled length_append of_nat_add new_len ..
    have set: "set_rows tens (int (length (?filled pre))) (int (length (?filled pre)) + (?upper - ?lower)) ?new =
        Inr (?filled ?pre2 @ drop (length (?filled ?pre2)) tens0)"
      unfolding off unfolding filled length_append append_assoc using * .
    have le: "int (length (?filled ?pre2)) \<le> int (h - l)" by simp
    have step: "split_keys indices (int l) (int h) (int (h - l)) i (k # map fst d) (int (length pre)) (int (length (?filled pre))) tens =
        (if int (length (?filled ?pre2)) = int (h - l) then Inr (?filled ?pre2 @ drop (length (?filled ?pre2)) tens0)
         else split_keys indices (int l) (int h) (int (h - l)) (i + 1) (map fst d) (int (length pre) + int (length v))
           (int (length (?filled ?pre2))) (?filled ?pre2 @ drop (length (?filled ?pre2)) tens0))"
      unfolding split_keys.simps k option.case Let_def if_P [OF True] off slice set [unfolded off] rbind_simps
        rassert_def if_P [OF le] by (rule refl)
    show ?thesis
    proof (cases "length (?filled ?pre2) = h - l")
      case full: True
      have "?filled (?pre2 @ flat_rows (i + 1) d) = ?filled ?pre2 @ take (h - l - length (drop l ?pre2)) (drop (l - length ?pre2) (flat_rows (i + 1) d))"
        by (simp only: drop_append take_append)
      moreover have "h - l - length (drop l ?pre2) = 0" using full unfolding length_take by linarith
      ultimately have all: "?filled (?pre2 @ flat_rows (i + 1) d) = ?filled ?pre2" by (simp only: take_0 append_Nil2)
      have "flat_rows i ((k, v) # d) = mapping_rows i v @ flat_rows (i + 1) d" by simp
      then have "pre @ flat_rows i ((k, v) # d) = ?pre2 @ flat_rows (i + 1) d" by simp
      then show ?thesis using step full all by (simp only: list.map fst_conv Let_def if_True refl)
    next
      case False
      have "pre @ flat_rows i ((k, v) # d) = ?pre2 @ flat_rows (i + 1) d" "int (length ?pre2) = int (length pre) + int (length v)"
        by simp_all
      moreover have "int (length (?filled ?pre2)) \<noteq> int (h - l)" using False by (simp only: of_nat_eq_iff not_False_eq_True)
      ultimately show ?thesis using step IH [OF refl] by (simp only: list.map fst_conv if_False)
    qed
  next
    case False
    then have "?new = []" by (auto simp: min_def max_def split: if_splits)
    then have same: "?filled ?pre2 = ?filled pre" using filled by simp
    have "tens = ?filled ?pre2 @ drop (length (?filled ?pre2)) tens0" using "2.prems"(4) unfolding same .
    note rest = IH [OF this, unfolded same]
    have "split_keys indices (int l) (int h) (int (h - l)) i (k # map fst d) (int (length pre)) (int (length (?filled pre))) tens =
        split_keys indices (int l) (int h) (int (h - l)) (i + 1) (map fst d) (int (length pre) + int (length v))
          (int (length (?filled pre))) tens"
      unfolding split_keys.simps k option.case Let_def if_not_P [OF False] ..
    moreover have "pre @ flat_rows i ((k, v) # d) = ?pre2 @ flat_rows (i + 1) d" "int (length ?pre2) = int (length pre) + int (length v)"
      by simp_all
    ultimately show ?thesis using rest by (simp only: list.map fst_conv)
  qed
qed

section \<open>The share of a process\<close>

text \<open>The rows that one of the processes reads first, and the number all of them read.\<close>

definition share_size :: "'k id_input \<Rightarrow> bool \<Rightarrow> nat \<Rightarrow> nat" where
  "share_size inp dl R = num_pieces R dl (length (input_rows inp))"

definition share :: "'k id_input \<Rightarrow> bool \<Rightarrow> nat \<Rightarrow> nat \<Rightarrow> id_row list" where
  "share inp dl R r = piece (share_size inp dl R) (input_rows inp) r"

lemma decompose_eq:
  assumes "0 < R"
  shows "decompose_one_dimension (int n) (int R) (int r) dl =
    Inr (int (r * num_pieces R dl n), int (Suc r * num_pieces R dl n))"
proof -
  have "- ((- int n) div int R) = int (num_pieces R False n)"
  proof -
    let ?q = "int (num_pieces R False n)"
    have "int n \<le> ?q * int R"
      using num_pieces_less [OF assms, of "num_pieces R False n" False n] by (simp flip: of_nat_mult)
    moreover have "(?q - 1) * int R < int n \<or> ?q = 0"
    proof (cases "num_pieces R False n")
      case (Suc q)
      then have "q * R < n" using num_pieces_less [OF assms, of q False n] by simp
      then have "int q * int R < int n" by (simp flip: of_nat_mult)
      then show ?thesis using Suc by simp
    qed simp
    ultimately have "- int n div int R = - ?q"
    proof (elim disjE)
      assume le: "int n \<le> ?q * int R" and lt: "(?q - 1) * int R < int n"
      have "- int n = int R * (- ?q) + (?q * int R - int n)" by (simp add: mult.commute)
      moreover have "0 \<le> ?q * int R - int n" "?q * int R - int n < int R" using le lt by (simp_all add: left_diff_distrib)
      ultimately show ?thesis by (rule int_div_pos_eq)
    qed simp
    then show ?thesis by simp
  qed
  moreover have "int n div int R = int (num_pieces R True n)" by (simp add: num_pieces_def zdiv_int)
  ultimately have "(if dl then int n div int R else - (- int n div int R)) = int (num_pieces R dl n)" by (cases dl) simp_all
  then have samples: "(if int R = 0 then Inl ZeroDivisionError else Inr (if dl then int n div int R else - (- int n div int R))) =
      Inr (int (num_pieces R dl n))" using assms by simp
  show ?thesis unfolding decompose_one_dimension_def samples by (simp add: algebra_simps)
qed

lemma split_tensor_eq:
  assumes "l \<le> length xs" and "l \<le> h"
  shows "split_to_local_id_tensor junk xs (int l) (int h) =
    Inr (let res = take (h - l) (drop l xs) in res @ drop (length res) (map junk [0..<h - l]))"
proof (cases "length xs < h")
  case True
  let ?vals = "drop l xs"
  have size: "nat (int h - int l) = h - l" by simp
  have "set_rows (map junk [0..<h - l]) (int 0) (int (0 + length ?vals)) ?vals =
      Inr ([] @ ?vals @ drop (0 + length ?vals) (map junk [0..<h - l]))"
    by (rule set_rows_at) (use True in simp_all)
  then have set: "set_rows (map junk [0..<h - l]) 0 (int (length ?vals)) ?vals =
      Inr (?vals @ drop (length ?vals) (map junk [0..<h - l]))"
    unfolding of_nat_0 add_0 append_Nil .
  have rest: "int (length xs) - int l = int (length ?vals)" using assms by (simp add: of_nat_diff)
  have slice: "py_slice xs (int l) (int (length xs)) = ?vals" by (simp add: py_slice_nonneg)
  have h: "\<not> int h - int l < 0" and over: "int (length xs) < int h" using True assms(2) by simp_all
  have "split_to_local_id_tensor junk xs (int l) (int h) = Inr (?vals @ drop (length ?vals) (map junk [0..<h - l]))"
    unfolding split_to_local_id_tensor_def empty_rows_def if_not_P [OF h] rbind_simps if_P [OF over] size rest slice set ..
  moreover have "take (h - l) (drop l xs) = ?vals" using True by simp
  ultimately show ?thesis by (simp only: Let_def)
next
  case False
  then show ?thesis using assms by (simp add: split_to_local_id_tensor_def empty_rows_def py_slice_nonneg Let_def)
qed

lemma split_mapping_eq:
  assumes "d \<noteq> []" and "distinct (map fst d)" and "l \<le> h"
  shows "split_to_local_id_tensor_from_mapping junk d (map fst d) (int l) (int h) =
    Inr (let res = take (h - l) (drop l (flat_rows 0 d)) in res @ drop (length res) (map junk [0..<h - l]))"
proof -
  let ?t = "map junk [0..<h - l]"
  have size: "nat (int h - int l) = h - l" "int h - int l = int (h - l)" using assms(3) by simp_all
  have "split_keys d (int l) (int h) (int (h - l)) 0 (map fst d) (int (length ([] :: id_row list)))
      (int (length (take (h - l) (drop l ([] :: id_row list))))) ?t =
    Inr (let res = take (h - l) (drop l ([] @ flat_rows 0 d)) in res @ drop (length res) ?t)"
    by (rule split_keys_eq) (use assms(2,3) in \<open>auto intro: map_of_is_SomeI\<close>)
  then show ?thesis using assms(1,3)
    by (simp add: split_to_local_id_tensor_from_mapping_def empty_rows_def size del: of_nat_diff)
qed

text \<open>The share of a process is cut out of a dictionary of identifiers without building the tensor of
  all of them: the result is the slice of that tensor, followed by uninitialised rows where the
  slice runs over the end.\<close>

theorem split_mapping_is_slice:
  assumes "d \<noteq> []" and "distinct (map fst d)" and "0 \<le> lo" and "lo \<le> hi"
  shows "\<exists>all. get_id_tensor_from_mapping junk d (map fst d) = Inr all \<and>
    int (length all) = (\<Sum>(_, v) \<leftarrow> d. int (length v)) \<and>
    (let part = py_slice all lo hi in
      split_to_local_id_tensor_from_mapping junk d (map fst d) lo hi =
        Inr (part @ map junk [length part..<nat (hi - lo)]))"
proof -
  have lo: "int (nat lo) = lo" "int (nat hi) = hi" "nat lo \<le> nat hi" "nat hi - nat lo = nat (hi - lo)"
    using assms(3,4) by simp_all
  have "drop k (map junk [0..<m]) = map junk [k..<m]" for k m by (simp add: drop_map)
  then have "split_to_local_id_tensor_from_mapping junk d (map fst d) lo hi =
      Inr (let part = py_slice (flat_rows 0 d) lo hi in part @ map junk [length part..<nat (hi - lo)])"
    using split_mapping_eq [OF assms(1,2) lo(3), of junk] assms(3,4) unfolding lo
    by (simp only: py_slice_nonneg lo(4))
  then show ?thesis using get_id_tensor_rows [OF assms(1,2)] length_flat_rows [of 0 d] by (simp add: Let_def)
qed

theorem split_mapping_is_slice_witness:
  "split_to_local_id_tensor_from_mapping (\<lambda>j. Typed_id 9 9) [(''user'', [3, 4]), (''item'', [5])] [''user'', ''item''] 1 5 =
    Inr [Typed_id 0 4, Typed_id 1 5, Typed_id 9 9, Typed_id 9 9]"
proof -
  have all: "get_id_tensor_from_mapping (\<lambda>j. Typed_id 9 9) [(''user'', [3, 4]), (''item'', [5])] [''user'', ''item''] =
      Inr [Typed_id 0 3, Typed_id 0 4, Typed_id 1 5]" by code_simp
  have "py_slice [Typed_id 0 3, Typed_id 0 4, Typed_id 1 5] 1 5 = [Typed_id 0 4, Typed_id 1 5]"
    "map (\<lambda>j. Typed_id 9 9) [2..<nat (5 - 1)] = [Typed_id 9 9, Typed_id 9 9]" by code_simp+
  then show ?thesis
    using split_mapping_is_slice [of "[(''user'', [3, 4]), (''item'', [5])]" 1 5 "\<lambda>j. Typed_id 9 9"] all
    by (simp add: Let_def upt_rec)
qed

end
