(* ===== verification/DatasetProps.thy ===== *)
theory DatasetProps
  imports DatasetShare
begin

text \<open>
  What an epoch over a dataset holds: all identifiers in batches of the right size for
  \<open>TensorizedDataset\<close>, and for \<open>DDPTensorizedDataset\<close> equal numbers for all processes, which together
  cover the input when the padding is short, and rows of uninitialised memory when it is not.
\<close>

section \<open>Construction for a group of processes\<close>

lemma split_input_eq:
  assumes "input_ok inp" and "l \<le> length (input_rows inp)" and "l \<le> h"
  shows "(case inp of
      Id_mapping d \<Rightarrow> rbind (split_to_local_id_tensor_from_mapping junk d (map fst d) (int l) (int h)) (\<lambda>t. Inr (t, Some (map fst d)))
    | Id_tensor xs \<Rightarrow> rbind (split_to_local_id_tensor junk (map Plain_id xs) (int l) (int h)) (\<lambda>t. Inr (t, None))) =
    Inr (let res = take (h - l) (drop l (input_rows inp)) in res @ map junk [length res..<h - l], input_keys inp)"
proof -
  have junk: "drop k (map junk [0..<m]) = map junk [k..<m]" for k m by (simp add: drop_map)
  show ?thesis
  proof (cases inp)
    case (Id_tensor xs)
    then show ?thesis using split_tensor_eq [of l "map Plain_id xs" h junk] assms(2,3)
      unfolding junk by (simp add: input_rows_def input_keys_def)
  next
    case (Id_mapping d)
    then show ?thesis using split_mapping_eq [of d l h junk] assms(1,3)
      unfolding junk by (simp add: input_rows_def input_keys_def input_ok_def)
  qed
qed

lemma read_arange: "k \<le> length xs \<Longrightarrow> map (\<lambda>i. xs ! nat i) (arange 0 (int k)) = take k xs"
  by (rule nth_equalityI) simp_all

definition made_ddp :: "(nat \<Rightarrow> id_row) \<Rightarrow> nat \<Rightarrow> nat \<Rightarrow> 'k id_input \<Rightarrow> int \<Rightarrow> bool \<Rightarrow> int \<Rightarrow> bool \<Rightarrow> 'k ddp_dataset" where
  "made_ddp junk r R inp b dl seed sh =
     (let s = share_size inp dl R; own = share inp dl R r in
      \<lparr>td_id_tensor = own @ map junk [length own..<s], td_mapping_keys = input_keys inp,
       td_indices = arange 0 (int (length own)) @ arange 0 (int (s - length own)),
       td_batch_size = b, td_drop_last = dl, td_shuffle = sh, dd_rank = int r, dd_num_replicas = int R,
       dd_seed = seed, dd_epoch = 0, dd_local_lower_bound = int (r * s), dd_local_upper_bound = int (Suc r * s),
       dd_num_samples = int s, dd_local_num_indices = int (length own)\<rparr>)"

lemma length_share:
  "length (share inp dl R r) = min (share_size inp dl R) (length (input_rows inp) - r * share_size inp dl R)"
  by (simp add: share_def piece_def)

lemma share_full:
  assumes "0 < R" and "dl" and "r < R"
  shows "Suc r * share_size inp dl R \<le> length (input_rows inp)"
proof -
  have "Suc r * share_size inp dl R \<le> R * share_size inp dl R" using assms(3) by (intro mult_le_mono1) simp
  also have "\<dots> \<le> length (input_rows inp)" using assms(2) by (simp add: share_size_def num_pieces_def)
  finally show ?thesis .
qed

lemma ddp_init_eq:
  assumes R: "0 < R" and r: "r < R" and ok: "input_ok inp"
    and start: "r * share_size inp dl R \<le> length (input_rows inp)"
  shows "ddp_init junk (int r, int R) inp b dl seed sh = Inr (made_ddp junk r R inp b dl seed sh)"
proof -
  let ?n = "length (input_rows inp)" and ?s = "share_size inp dl R" and ?own = "share inp dl R r"
  let ?l = "r * ?s" and ?h = "Suc r * ?s"
  have dec: "decompose_one_dimension (int ?n) (int R) (int r) dl = Inr (int ?l, int ?h)"
    using decompose_eq [OF R, of ?n r dl] by (simp add: share_size_def)
  have size: "int ?h - int ?l = int ?s" "?h - ?l = ?s" by simp_all
  have own: "take ?s (drop ?l (input_rows inp)) = ?own" by (simp add: share_def piece_def)
  have local: "(if int ?n < int ?h then rbind (rassert (\<not> dl) AssertionError) (\<lambda>_. Inr (int ?n - int ?l)) else Inr (int ?s)) =
      Inr (int (length ?own))"
  proof (cases "?n < ?h")
    case True
    have c: "int ?n < int ?h" using True by (simp only: of_nat_less_iff)
    have "\<not> dl" using share_full [OF R _ r, of dl inp] True by auto
    moreover have "int ?n - int ?l = int (length ?own)" using True start by (simp add: length_share)
    ultimately show ?thesis unfolding if_P [OF c] by simp
  next
    case False
    have c: "\<not> int ?n < int ?h" using False by (simp only: of_nat_less_iff not_False_eq_True)
    have "?s \<le> ?n - ?l" using False by simp
    then show ?thesis unfolding if_not_P [OF c] by (simp add: length_share)
  qed
  have pad: "int ?s - int (length ?own) = int (?s - length ?own)" by (simp add: length_share of_nat_diff)
  have full: "dl \<Longrightarrow> length ?own = ?s"
    using share_full [OF R _ r, of dl inp] by (simp add: length_share)
  have padding: "(if dl then Inr [] else torch_arange 0 (int ?s - int (length ?own)) 1) = Inr (arange 0 (int (?s - length ?own)))"
  proof (cases dl)
    case True
    then show ?thesis using full by (simp add: arange_def)
  next
    case False
    then show ?thesis unfolding pad torch_arange_one [OF of_nat_0_le_iff] by simp
  qed
  have len: "int (length (?own @ map junk [length ?own..<?s])) = int ?s" by (simp add: length_share)
  have split: "(case inp of
      Id_mapping d \<Rightarrow> rbind (split_to_local_id_tensor_from_mapping junk d (map fst d) (int ?l) (int ?h)) (\<lambda>t. Inr (t, Some (map fst d)))
    | Id_tensor xs \<Rightarrow> rbind (split_to_local_id_tensor junk (map Plain_id xs) (int ?l) (int ?h)) (\<lambda>t. Inr (t, None))) =
    Inr (?own @ map junk [length ?own..<?s], input_keys inp)"
    using split_input_eq [OF ok start, of ?h junk] unfolding size(2) own Let_def by simp
  show ?thesis
    unfolding ddp_init_def Let_def prod.case length_input_rows [symmetric] dec rbind_simps size(1) local split
      torch_arange_one [OF of_nat_0_le_iff] padding len
    by (simp add: made_ddp_def Let_def)
qed

lemma ddp_rows:
  assumes "r * share_size inp dl R \<le> length (input_rows inp)"
  shows "dataset_rows (made_ddp junk r R inp b dl seed sh) =
    (let own = share inp dl R r; pad = share_size inp dl R - length own in
     own @ take pad own @ map junk [length own..<pad])"
    and "\<forall>i \<in> set (td_indices (made_ddp junk r R inp b dl seed sh)). valid_index (td_id_tensor (made_ddp junk r R inp b dl seed sh)) i"
proof -
  let ?own = "share inp dl R r" and ?s = "share_size inp dl R"
  let ?t = "?own @ map junk [length ?own..<?s]"
  have len: "length ?t = ?s" by (simp add: length_share)
  have read: "map (\<lambda>i. ?t ! nat i) (arange 0 (int k)) = take k ?t" if "k \<le> ?s" for k
    using that len read_arange [of k ?t] by simp
  have "take (length ?own) ?t = ?own" by simp
  moreover have "take (?s - length ?own) ?t = take (?s - length ?own) ?own @ map junk [length ?own..<?s - length ?own]"
    by (cases "?s - length ?own \<le> length ?own") (simp_all add: take_map)
  ultimately show "dataset_rows (made_ddp junk r R inp b dl seed sh) =
    (let own = share inp dl R r; pad = share_size inp dl R - length own in
     own @ take pad own @ map junk [length own..<pad])"
    using read [of "length ?own"] read [of "?s - length ?own"] by (simp add: dataset_rows_def made_ddp_def Let_def length_share)
  show "\<forall>i \<in> set (td_indices (made_ddp junk r R inp b dl seed sh)). valid_index (td_id_tensor (made_ddp junk r R inp b dl seed sh)) i"
    using len by (auto simp: made_ddp_def Let_def valid_index_def length_share)
qed

section \<open>Equal shares\<close>

lemma share_size_cover:
  assumes "0 < R"
  shows "\<not> dl \<Longrightarrow> length (input_rows inp) \<le> R * share_size inp dl R"
  using num_pieces_less [OF assms, of "num_pieces R False (length (input_rows inp))" False "length (input_rows inp)"]
  by (simp add: share_size_def mult.commute)

lemma concat_shares:
  "concat (map (share inp dl R) [0..<R]) = take (R * share_size inp dl R) (input_rows inp)"
proof -
  have "share inp dl R = piece (share_size inp dl R) (input_rows inp)" by (rule ext) (simp add: share_def)
  then show ?thesis by (simp add: concat_piece)
qed

lemma share_input: "set (share inp dl R r) \<subseteq> set (input_rows inp)"
  unfolding share_def by (rule set_piece)

lemma made_ddp_ok:
  assumes "0 < b" and "input_ok inp" and "r * share_size inp dl R \<le> length (input_rows inp)"
    and "share_size inp dl R \<le> 2 * length (share inp dl R r)"
  shows "dataset_ok (made_ddp junk r R inp b dl seed sh)"
    and "dataset_rows (made_ddp junk r R inp b dl seed sh) =
      (let own = share inp dl R r in own @ take (share_size inp dl R - length own) own)"
proof -
  let ?D = "made_ddp junk r R inp b dl seed sh"
  have "[length (share inp dl R r)..<share_size inp dl R - length (share inp dl R r)] = []" using assms(4) by simp
  then show rows: "dataset_rows ?D = (let own = share inp dl R r in own @ take (share_size inp dl R - length own) own)"
    using ddp_rows(1) [OF assms(3), of junk b seed sh] by (simp add: Let_def)
  have "set (dataset_rows ?D) \<subseteq> set (input_rows inp)"
    unfolding rows Let_def using share_input [of inp dl R r] by (auto dest: in_set_takeD)
  then show "dataset_ok ?D"
    using assms(1) input_rows_ok [of inp] input_keys_ok [OF assms(2)] ddp_rows(2) [OF assms(3), of junk b seed sh]
    by (auto simp: dataset_ok_def made_ddp_def Let_def)
qed

text \<open>A group of processes: when no process has more padding than rows of its own, every process of
  the group gets a dataset of the same size, whatever uninitialised memory holds; it reads its own
  share of the input and then the beginning of that share again, and the shares make up the input in
  order, cut to equal shares if the rest is to be dropped.\<close>

theorem ddp_ranks_share:
  assumes "0 < R" and "0 < b" and "input_ok inp"
    and "\<forall>r < R. share_size inp dl R \<le> 2 * length (share inp dl R r)"
  shows "\<exists>shares. length shares = R \<and>
    concat shares = (if dl then take (length (input_rows inp) div R * R) (input_rows inp) else input_rows inp) \<and>
    (\<forall>r < R. \<exists>D. ddp_init junk (int r, int R) inp b dl seed sh = Inr D \<and> dataset_ok D \<and>
      length (td_indices D) = share_size inp dl R \<and>
      dataset_rows D = shares ! r @ take (share_size inp dl R - length (shares ! r)) (shares ! r))"
proof (intro exI [of _ "map (share inp dl R) [0..<R]"] conjI allI impI)
  let ?shares = "map (share inp dl R) [0..<R]" and ?s = "share_size inp dl R"
  show "length ?shares = R" by simp
  show "concat ?shares = (if dl then take (length (input_rows inp) div R * R) (input_rows inp) else input_rows inp)"
    using share_size_cover [OF assms(1), of dl inp] unfolding concat_shares
    by (auto simp: share_size_def num_pieces_def mult.commute)
  fix r
  assume r: "r < R"
  let ?D = "made_ddp junk r R inp b dl seed sh"
  have start: "r * ?s \<le> length (input_rows inp)"
  proof (cases "?s = 0")
    case False
    then have "0 < length (share inp dl R r)" using assms(4) r by fastforce
    then show ?thesis unfolding length_share by simp
  qed simp
  note ok = made_ddp_ok [OF assms(2,3) start, of junk seed sh]
  show "\<exists>D. ddp_init junk (int r, int R) inp b dl seed sh = Inr D \<and> dataset_ok D \<and> length (td_indices D) = ?s \<and>
      dataset_rows D = ?shares ! r @ take (?s - length (?shares ! r)) (?shares ! r)"
    using ddp_init_eq [OF assms(1) r assms(3) start] ok assms(4) r
    by (intro exI [of _ ?D]) (simp add: Let_def made_ddp_def length_share)
qed

theorem ddp_ranks_share_witness:
  "\<exists>D. ddp_init (\<lambda>j. Plain_id 77) (1, 2) (Id_tensor [10, 11, 12, 13, 14] :: string id_input) 2 False 0 False = Inr D \<and>
    dataset_rows D = map Plain_id [13, 14, 13]"
proof -
  let ?inp = "Id_tensor [10, 11, 12, 13, 14] :: string id_input"
  have size: "share_size ?inp False 2 = 3" "share ?inp False 2 0 = map Plain_id [10, 11, 12]"
    "share ?inp False 2 1 = map Plain_id [13, 14]"
    by (simp_all add: share_size_def share_def num_pieces_def piece_def input_rows_def)
  have two: "r = 0 \<or> r = 1" if "r < 2" for r :: nat using that by auto
  have half: "\<forall>r < 2. share_size ?inp False 2 \<le> 2 * length (share ?inp False 2 r)"
    using size by (auto dest!: two)
  obtain shares where sh: "length shares = 2" "concat shares = map Plain_id [10, 11, 12, 13, 14]"
    "\<forall>r < 2. \<exists>D. ddp_init (\<lambda>j. Plain_id 77) (int r, int 2) ?inp 2 False 0 False = Inr D \<and> dataset_ok D \<and>
      length (td_indices D) = 3 \<and> dataset_rows D = shares ! r @ take (3 - length (shares ! r)) (shares ! r)"
    using ddp_ranks_share [OF _ _ _ half, of 2 "\<lambda>j. Plain_id 77" 0 False] unfolding size
    by (auto simp: input_ok_def input_rows_def)
  obtain D where D: "ddp_init (\<lambda>j. Plain_id 77) (1, 2) ?inp 2 False 0 False = Inr D"
    using sh(3) [rule_format, of 1] by auto
  have "dataset_rows D = map Plain_id [13, 14, 13]"
  proof -
    have "Some (map_option dataset_rows (case ddp_init (\<lambda>j. Plain_id 77) (1, 2) ?inp 2 False 0 False of Inl e \<Rightarrow> None | Inr D \<Rightarrow> Some D)) =
      Some (Some (map Plain_id [13, 14, 13]))" by code_simp
    then show ?thesis using D by simp
  qed
  then show ?thesis using D by blast
qed

text \<open>Shuffling permutes the rows of the process and repeats the beginning of the new order.\<close>

lemma ddp_shuffle_rows:
  assumes T: "torch_seq_laws T" and half: "share_size inp dl R \<le> 2 * length (share inp dl R r)"
    and full: "dl \<Longrightarrow> length (share inp dl R r) = share_size inp dl R"
  obtains D own where "ddp_shuffle T (made_ddp junk r R inp b dl seed sh) = Inr D" and "mset own = mset (share inp dl R r)"
    and "dataset_rows D = own @ take (share_size inp dl R - length own) own"
proof -
  let ?m = "length (share inp dl R r)" and ?s = "share_size inp dl R"
  let ?D = "made_ddp junk r R inp b dl seed sh" and ?q = "ts_shuffle T (arange 0 (int ?m))"
  have ms: "?m \<le> ?s" by (simp add: length_share)
  have idx: "td_indices ?D = arange 0 (int ?m) @ arange 0 (int (?s - ?m))" and num: "dd_local_num_indices ?D = int ?m"
    "dd_num_samples ?D = int ?s" "td_drop_last ?D = dl"
    by (simp_all add: made_ddp_def Let_def)
  have q: "mset ?q = mset (arange 0 (int ?m))" using T by (simp add: torch_seq_laws_def)
  have lq: "length ?q = ?m" using q by (metis size_mset length_arange diff_zero nat_int)
  have a: "py_slice (td_indices ?D) 0 (int ?m) = arange 0 (int ?m)" unfolding idx by (simp add: py_slice_nonneg)
  have b: "py_slice (td_indices ?D) (int ?m) (int (length (td_indices ?D))) = arange 0 (int (?s - ?m))"
    unfolding idx by (simp add: py_slice_nonneg)
  have pad: "int ?s - int ?m = int (?s - ?m)" using ms by simp
  have slice: "py_slice (?q @ arange 0 (int (?s - ?m))) 0 (int k) = take k ?q" if "k \<le> ?m" for k
    using that lq by (simp add: py_slice_nonneg)
  have sm: "?s - ?m \<le> ?m" using half by simp
  have le: "int (?s - ?m) \<le> int ?m" using sm by (simp only: of_nat_le_iff)
  let ?E = "?D\<lparr>td_indices := ?q @ take (?s - ?m) ?q\<rparr>"
  have run: "ddp_shuffle T ?D = Inr ?E"
  proof (cases dl)
    case True
    then have "?s - ?m = 0" "arange 0 (int (?s - ?m)) = []" using full by (simp_all add: arange_def)
    then show ?thesis using True unfolding ddp_shuffle_def Let_def num a b by simp
  next
    case False
    then show ?thesis
      unfolding ddp_shuffle_def Let_def num a b pad slice [OF sm] slice [OF order_refl] using le lq by simp
  qed
  let ?own = "map (\<lambda>i. td_id_tensor ?D ! nat i) ?q"
  have t: "td_id_tensor ?D = share inp dl R r @ map junk [?m..<?s]" by (simp add: made_ddp_def Let_def)
  have "mset ?own = image_mset (\<lambda>i. td_id_tensor ?D ! nat i) (mset (arange 0 (int ?m)))" unfolding mset_map q ..
  also have "\<dots> = mset (map (\<lambda>i. td_id_tensor ?D ! nat i) (arange 0 (int ?m)))" by (simp only: mset_map)
  also have "\<dots> = mset (take ?m (td_id_tensor ?D))" using read_arange [of ?m "td_id_tensor ?D"] ms by (simp add: t)
  finally have own: "mset ?own = mset (share inp dl R r)" by (simp add: t)
  have "dataset_rows ?E = ?own @ take (?s - length ?own) ?own"
    using lq by (simp add: dataset_rows_def take_map)
  then show ?thesis by (rule that [OF run own])
qed

section \<open>Uninitialised memory\<close>

lemma set_rows_error: "set_rows xs a b vs = Inl e \<Longrightarrow> e = RuntimeError"
  by (simp add: set_rows_def Let_def split: if_splits)

text \<open>C29. Short inputs: when a process has fewer rows of its own than it has to pad, its epoch reads its
  share twice and then rows that were never written: whatever memory held, as identifiers. A
  process whose share starts behind the end of the input can not build its dataset at all.\<close>

theorem ddp_reads_uninitialised:
  assumes "r < R" and "input_ok inp" and "length (share inp False R r) < share_size inp False R - length (share inp False R r)"
  shows "if r * share_size inp False R \<le> length (input_rows inp)
    then \<exists>D. ddp_init junk (int r, int R) inp b False seed sh = Inr D \<and>
        (let own = share inp False R r in dataset_rows D =
          own @ own @ map junk [length own..<share_size inp False R - length own])
    else ddp_init junk (int r, int R) inp b False seed sh = Inl RuntimeError"
proof -
  let ?s = "share_size inp False R" and ?n = "length (input_rows inp)"
  have R: "0 < R" using assms(1) by simp
  show ?thesis
  proof (cases "r * ?s \<le> ?n")
    case start: True
    show ?thesis unfolding if_P [OF start]
      using ddp_init_eq [OF R assms(1,2) start] ddp_rows(1) [OF start] assms(3)
      by (intro exI [of _ "made_ddp junk r R inp b False seed sh"]) (simp add: Let_def)
  next
    case False
    then have past: "?n < r * ?s" by simp
    let ?l = "r * ?s" and ?h = "Suc r * ?s"
    have dec: "decompose_one_dimension (int ?n) (int R) (int r) False = Inr (int ?l, int ?h)"
      using decompose_eq [OF R, of ?n r False] by (simp add: share_size_def)
    have over: "int ?n < int ?h" using past by (simp only: of_nat_less_iff) simp
    have size: "int ?h - int ?l = int ?s" by simp
    have "int ?n < int ?l" using past by (simp only: of_nat_less_iff)
    then have neg: "torch_arange 0 (int ?n - int ?l) 1 = Inl RuntimeError" by (simp add: torch_arange_def del: of_nat_mult)
    have "(case inp of
        Id_mapping d \<Rightarrow> rbind (split_to_local_id_tensor_from_mapping junk d (map fst d) (int ?l) (int ?h)) (\<lambda>t. Inr (t, Some (map fst d)))
      | Id_tensor xs \<Rightarrow> rbind (split_to_local_id_tensor junk (map Plain_id xs) (int ?l) (int ?h)) (\<lambda>t. Inr (t, None))) \<in>
        {Inl RuntimeError} \<union> range Inr" (is "?split \<in> _")
    proof (cases inp)
      case (Id_mapping d)
      have "?l \<le> ?h" by simp
      then show ?thesis using split_mapping_eq [of d ?l ?h junk] assms(2) unfolding Id_mapping by (simp add: input_ok_def)
    next
      case (Id_tensor xs)
      then show ?thesis unfolding Id_tensor
        by (auto simp: split_to_local_id_tensor_def empty_rows_def rbind_def split: sum.split dest: set_rows_error)
    qed
    then have "?split = Inl RuntimeError \<or> (\<exists>x. ?split = Inr x)" by auto
    then have "ddp_init junk (int r, int R) inp b False seed sh = Inl RuntimeError"
      unfolding ddp_init_def Let_def prod.case length_input_rows [symmetric] dec rbind_simps size if_P [OF over]
      by (elim disjE exE) (auto simp: neg simp del: of_nat_mult)
    then show ?thesis using False by simp
  qed
qed

theorem ddp_reads_uninitialised_witness:
  "(\<exists>D. ddp_init (\<lambda>j. Plain_id 77) (2, 3) (Id_tensor [0, 1, 2, 3, 4, 5, 6] :: string id_input) 2 False 0 False = Inr D \<and>
    dataset_rows D = [Plain_id 6, Plain_id 6, Plain_id 77]) \<and>
    ddp_init (\<lambda>j. Plain_id 77) (3, 4) (Id_tensor [0, 1, 2, 3, 4] :: string id_input) 2 False 0 False = Inl RuntimeError"
proof -
  let ?a = "Id_tensor [0, 1, 2, 3, 4, 5, 6] :: string id_input" and ?b = "Id_tensor [0, 1, 2, 3, 4] :: string id_input"
  have a: "share_size ?a False 3 = 3" "share ?a False 3 2 = [Plain_id 6]" "length (input_rows ?a) = 7"
    by (simp_all add: share_size_def share_def num_pieces_def piece_def input_rows_def)
  have "(let own = share ?a False 3 2 in own @ own @ map (\<lambda>j. Plain_id 77) [length own..<share_size ?a False 3 - length own]) =
      [Plain_id 6, Plain_id 6, Plain_id 77]"
    unfolding a by (simp add: upt_rec)
  moreover have "2 < (3 :: nat)" "input_ok ?a" "length (share ?a False 3 2) < share_size ?a False 3 - length (share ?a False 3 2)"
    "2 * share_size ?a False 3 \<le> length (input_rows ?a)"
    unfolding a by (simp_all add: input_ok_def)
  ultimately have A: "\<exists>D. ddp_init (\<lambda>j. Plain_id 77) (2, 3) ?a 2 False 0 False = Inr D \<and>
      dataset_rows D = [Plain_id 6, Plain_id 6, Plain_id 77]"
    using ddp_reads_uninitialised [of 2 3 ?a "\<lambda>j. Plain_id 77" 2 0 False] by (simp add: Let_def)
  have b: "share_size ?b False 4 = 2" "share ?b False 4 3 = []" "length (input_rows ?b) = 5"
    by (simp_all add: share_size_def share_def num_pieces_def piece_def input_rows_def)
  have "3 < (4 :: nat)" "input_ok ?b" "length (share ?b False 4 3) < share_size ?b False 4 - length (share ?b False 4 3)"
    "\<not> 3 * share_size ?b False 4 \<le> length (input_rows ?b)"
    unfolding b by (simp_all add: input_ok_def)
  then have "ddp_init (\<lambda>j. Plain_id 77) (3, 4) ?b 2 False 0 False = Inl RuntimeError"
    using ddp_reads_uninitialised [of 3 4 ?b "\<lambda>j. Plain_id 77" 2 0 False] by simp
  with A show ?thesis by (rule conjI)
qed

section \<open>An epoch covers the input\<close>

text \<open>The identifiers of a batch and of an input, each with its key.\<close>

definition batch_items :: "'k batch \<Rightarrow> ('k option \<times> int) list" where
  "batch_items b =
     (case b of Batch rows \<Rightarrow> map (\<lambda>r. (None, snd (row_pair r))) rows
      | Batch_dict d \<Rightarrow> concat (map (\<lambda>(k, is). map (Pair (Some k)) is) d))"

definition input_items :: "'k id_input \<Rightarrow> ('k option \<times> int) list" where
  "input_items inp =
     (case inp of Id_tensor xs \<Rightarrow> map (Pair None) xs
      | Id_mapping d \<Rightarrow> concat (map (\<lambda>(k, is). map (Pair (Some k)) is) d))"

definition row_item :: "'k list option \<Rightarrow> id_row \<Rightarrow> 'k option \<times> int" where
  "row_item keys r = (case keys of None \<Rightarrow> (None, snd (row_pair r))
     | Some ks \<Rightarrow> (Some (ks ! nat (fst (row_pair r))), snd (row_pair r)))"

lemma mset_by_type:
  "distinct ts \<Longrightarrow> fst ` set ps \<subseteq> set ts \<Longrightarrow> mset (concat (map (\<lambda>t. filter (\<lambda>p. fst p = t) ps) ts)) = mset ps"
proof (induction ts arbitrary: ps)
  case (Cons t ts)
  let ?rest = "filter (\<lambda>p. fst p \<noteq> t) ps"
  have "filter (\<lambda>p. fst p = u) ?rest = filter (\<lambda>p. fst p = u) ps" if "u \<in> set ts" for u
    using that Cons.prems(1) by (auto intro!: filter_cong)
  then have "map (\<lambda>u. filter (\<lambda>p. fst p = u) ?rest) ts = map (\<lambda>u. filter (\<lambda>p. fst p = u) ps) ts" by simp
  moreover have "mset (concat (map (\<lambda>u. filter (\<lambda>p. fst p = u) ?rest) ts)) = mset ?rest"
    by (rule Cons.IH) (use Cons.prems in auto)
  ultimately have "mset (concat (map (\<lambda>u. filter (\<lambda>p. fst p = u) ps) ts)) = mset ?rest" by (simp only:)
  then show ?case by (simp add: mset_filter flip: multiset_partition)
qed simp

lemma batch_items_mset: "mset (batch_items (batch_of keys rows)) = mset (map (row_item keys) rows)"
proof (cases keys)
  case None
  then have "row_item keys = (\<lambda>r. (None, snd (row_pair r)))" by (intro ext) (simp add: row_item_def)
  then show ?thesis using None by (simp add: batch_items_def batch_of_def)
next
  case (Some ks)
  let ?ps = "map row_pair rows" and ?f = "\<lambda>p. (Some (ks ! nat (fst p)), snd p) :: 'a option \<times> int"
  have "map (Pair (Some (ks ! nat t))) (batch_ids ?ps t) = map ?f (filter (\<lambda>p. fst p = t) ?ps)" for t
    unfolding batch_ids_def map_map by (rule map_cong) auto
  then have "batch_items (batch_of keys rows) =
      map ?f (concat (map (\<lambda>t. filter (\<lambda>p. fst p = t) ?ps) (batch_types ?ps)))"
    using Some by (simp add: batch_items_def batch_of_def grouped_def map_concat comp_def)
  moreover have "mset (concat (map (\<lambda>t. filter (\<lambda>p. fst p = t) ?ps) (batch_types ?ps))) = mset ?ps"
    by (rule mset_by_type) simp_all
  ultimately have "mset (batch_items (batch_of keys rows)) = image_mset ?f (mset ?ps)" by (simp only: mset_map)
  also have "\<dots> = mset (map ?f ?ps)" by (simp only: mset_map)
  also have "map ?f ?ps = map (row_item keys) rows" using Some by (simp add: row_item_def)
  finally show ?thesis .
qed

lemma flat_rows_items:
  "map (row_item (Some (pre @ map fst d))) (flat_rows (int (length pre)) d) =
    concat (map (\<lambda>(k, is). map (Pair (Some k)) is) d)"
proof (induction d arbitrary: pre)
  case (Cons kv d)
  obtain k v where kv: "kv = (k, v)" by (cases kv)
  have "map (row_item (Some (pre @ k # map fst d))) (mapping_rows (int (length pre)) v) = map (Pair (Some k)) v"
    by (simp add: mapping_rows_def row_item_def nth_append)
  moreover have "map (row_item (Some ((pre @ [k]) @ map fst d))) (flat_rows (int (length (pre @ [k]))) d) =
      concat (map (\<lambda>(k, is). map (Pair (Some k)) is) d)" by (rule Cons.IH)
  ultimately show ?case by (simp add: kv add.commute)
qed simp

lemma input_items_rows: "map (row_item (input_keys inp)) (input_rows inp) = input_items inp"
proof (cases inp)
  case (Id_mapping d)
  then show ?thesis using flat_rows_items [of "[]" d] by (simp add: input_keys_def input_rows_def input_items_def)
qed (simp add: input_keys_def input_rows_def input_items_def row_item_def)

lemma tensorized_init_eq:
  assumes "input_ok inp"
  shows "tensorized_init junk inp b dl sh =
    Inr \<lparr>td_id_tensor = input_rows inp, td_mapping_keys = input_keys inp,
         td_indices = arange 0 (int (length (input_rows inp))), td_batch_size = b, td_drop_last = dl, td_shuffle = sh\<rparr>"
proof (cases inp)
  case (Id_mapping d)
  then have "get_id_tensor_from_mapping junk d (map fst d) = Inr (flat_rows 0 d)"
    using assms by (intro get_id_tensor_rows) (simp_all add: input_ok_def)
  then show ?thesis by (simp add: tensorized_init_def Id_mapping input_rows_def input_keys_def Let_def)
qed (simp add: tensorized_init_def input_rows_def input_keys_def)

text \<open>The dataset of a data loader at the start of an epoch.\<close>

definition epoch_dataset :: "torch_seq \<Rightarrow> bool \<Rightarrow> 'k id_dataset \<Rightarrow> 'k id_dataset" where
  "epoch_dataset T sh D = (if sh then tensorized_shuffle T D else D)"

lemma epoch_dataset_ok:
  assumes T: "torch_seq_laws T" and "0 < b" and "input_ok inp" and init: "tensorized_init junk inp b dl sh = Inr D"
  shows "dataset_ok (epoch_dataset T s D)" and "mset (dataset_rows (epoch_dataset T s D)) = mset (input_rows inp)"
proof -
  let ?E = "epoch_dataset T s D" and ?n = "length (input_rows inp)"
  note D = tensorized_init_eq [OF assms(3), of junk b dl sh, unfolded init]
  have fields: "td_id_tensor ?E = input_rows inp" "td_mapping_keys ?E = input_keys inp" "td_batch_size ?E = b"
    using D by (simp_all add: epoch_dataset_def tensorized_shuffle_def)
  have perm: "mset (td_indices ?E) = mset (arange 0 (int ?n))"
    using D T by (simp add: epoch_dataset_def tensorized_shuffle_def torch_seq_laws_def)
  then have set: "set (td_indices ?E) = {0..<int ?n}" by (metis set_arange mset_eq_setD)
  have "mset (dataset_rows ?E) = image_mset (\<lambda>i. input_rows inp ! nat i) (mset (td_indices ?E))"
    by (simp add: dataset_rows_def fields)
  also have "\<dots> = mset (map (\<lambda>i. input_rows inp ! nat i) (arange 0 (int ?n)))" unfolding perm by simp
  finally show rows: "mset (dataset_rows ?E) = mset (input_rows inp)" using read_arange [of ?n "input_rows inp"] by simp
  then have "set (dataset_rows ?E) = set (input_rows inp)" by (rule mset_eq_setD)
  then show "dataset_ok ?E"
    using assms(2) input_rows_ok [of inp] input_keys_ok [OF assms(3)] set
    by (auto simp: dataset_ok_def fields valid_index_def)
qed

lemma batches_items:
  "mset (concat (map batch_items (map (batch_of keys) rs))) = mset (map (row_item keys) (concat rs))"
  by (induction rs) (simp_all add: batch_items_mset)

lemma length_batch_items: "length (batch_items (batch_of keys rows)) = length rows"
  using batch_items_mset [of keys rows] by (metis size_mset length_map)

lemma mset_take_subset: "mset (take k xs) \<subseteq># mset xs"
  by (metis append_take_drop_id mset_append mset_subset_eq_add_left)

text \<open>C27. An epoch of \<open>TensorizedDataset\<close>, shuffled or not: the loop over the iterator ends after as many
  batches as the \<open>len\<close> of the dataset; no batch is empty, and all have the batch size except the last,
  which is short only if incomplete batches are kept; together they hold every identifier of the
  input with its key exactly once, or the input less what does not fill a batch.\<close>

theorem epoch_covers:
  assumes "torch_seq_laws T" and "0 < b" and "input_ok inp"
  shows "\<exists>D bs. tensorized_init junk inp b dl sh = Inr D \<and> epoch T None (epoch_dataset T sh D) = Some (Inr bs) \<and>
    tensorized_len D = Inr (int (length bs)) \<and>
    (\<forall>j < length bs. 0 < length (batch_items (bs ! j)) \<and> int (length (batch_items (bs ! j))) \<le> b \<and>
      (dl \<or> Suc j < length bs \<longrightarrow> int (length (batch_items (bs ! j))) = b)) \<and>
    mset (concat (map batch_items bs)) \<subseteq># mset (input_items inp) \<and>
    (\<not> dl \<longrightarrow> mset (concat (map batch_items bs)) = mset (input_items inp))"
proof -
  let ?n = "length (input_rows inp)" and ?keys = "input_keys inp"
  obtain B where B: "b = int B" using assms(2) zero_le_imp_eq_int [of b] by auto
  have pos: "0 < B" using assms(2) B by simp
  obtain D where init: "tensorized_init junk inp b dl sh = Inr D" using tensorized_init_eq [OF assms(3)] by blast
  note D = tensorized_init_eq [OF assms(3), of junk b dl sh, unfolded init]
  let ?E = "epoch_dataset T sh D"
  let ?ps = "pieces B dl (dataset_rows ?E)"
  let ?bs = "map (batch_of ?keys) ?ps"
  note ok = epoch_dataset_ok [OF assms init, of sh]
  have fields: "td_mapping_keys ?E = ?keys" "td_batch_size ?E = int B" "td_drop_last ?E = dl"
    using D B by (simp_all add: epoch_dataset_def tensorized_shuffle_def)
  have len: "length (dataset_rows ?E) = ?n" using ok(2) by (metis size_mset)
  have run: "epoch T None ?E = Some (Inr ?bs)"
    using epoch_alone [OF assms(1) ok(1) fields(2)] unfolding fields .
  have number: "tensorized_len D = Inr (int (length ?bs))"
    using num_pieces_int [OF pos, of ?n dl] D B pos len by (cases dl) (simp_all add: tensorized_len_def)
  have sizes: "\<forall>j < length ?bs. 0 < length (batch_items (?bs ! j)) \<and> int (length (batch_items (?bs ! j))) \<le> b \<and>
      (dl \<or> Suc j < length ?bs \<longrightarrow> int (length (batch_items (?bs ! j))) = b)"
  proof (intro allI impI)
    fix j
    assume "j < length ?bs"
    then have j: "j < num_pieces B dl (length (dataset_rows ?E))" by simp
    have "length (batch_items (?bs ! j)) = length (piece B (dataset_rows ?E) j)"
      using j by (simp add: length_batch_items pieces_def)
    moreover have "length (piece B (dataset_rows ?E) j) \<le> B" by (simp add: piece_def)
    ultimately show "0 < length (batch_items (?bs ! j)) \<and> int (length (batch_items (?bs ! j))) \<le> b \<and>
        (dl \<or> Suc j < length ?bs \<longrightarrow> int (length (batch_items (?bs ! j))) = b)"
      using length_piece [OF pos j] B by simp
  qed
  have items: "mset (concat (map batch_items ?bs)) = mset (map (row_item ?keys) (concat ?ps))" by (rule batches_items)
  have "mset (map (row_item ?keys) (dataset_rows ?E)) = image_mset (row_item ?keys) (mset (input_rows inp))"
    unfolding mset_map ok(2) ..
  then have all: "mset (map (row_item ?keys) (dataset_rows ?E)) = mset (input_items inp)"
    by (metis mset_map input_items_rows)
  have "mset (concat (map batch_items ?bs)) \<subseteq># mset (input_items inp)"
    "\<not> dl \<Longrightarrow> mset (concat (map batch_items ?bs)) = mset (input_items inp)"
    unfolding items concat_pieces [OF pos] all [symmetric]
    by (auto intro: image_mset_subseteq_mono mset_take_subset)
  then show ?thesis using init run number sizes by blast
qed

definition example_input :: "string id_input" where
  "example_input = Id_mapping [(''user'', [4, 5]), (''item'', [7, 8, 9])]"

theorem epoch_covers_witness:
  "\<exists>D bs. tensorized_init (\<lambda>j. Plain_id 77) example_input 2 False True = Inr D \<and>
    epoch torch_seq_ref None (epoch_dataset torch_seq_ref True D) = Some (Inr bs) \<and>
    mset (concat (map batch_items bs)) =
      {#(Some ''user'', 4), (Some ''user'', 5), (Some ''item'', 7), (Some ''item'', 8), (Some ''item'', 9)#}"
proof -
  have ok: "input_ok example_input" by (simp add: input_ok_def example_input_def)
  have items: "mset (input_items example_input) =
      {#(Some ''user'', 4), (Some ''user'', 5), (Some ''item'', 7), (Some ''item'', 8), (Some ''item'', 9)#}"
    by (simp add: input_items_def example_input_def)
  have two: "0 < (2 :: int)" by simp
  show ?thesis
    using epoch_covers [OF torch_seq_ref_laws two ok, of "\<lambda>j. Plain_id 77" False True] unfolding items by blast
qed

theorem workers_share_batches_witness:
  "\<exists>D bs parts. tensorized_init (\<lambda>j. Plain_id 77) example_input 2 False False = Inr D \<and>
    epoch torch_seq_ref None D = Some (Inr bs) \<and> length parts = 2 \<and> concat parts = bs \<and>
    (\<forall>i < 2. epoch torch_seq_ref (Some (int i, int 2)) D = Some (Inr (parts ! i)))"
proof -
  have ok: "input_ok example_input" by (simp add: input_ok_def example_input_def)
  note init = tensorized_init_eq [OF ok, of "\<lambda>j. Plain_id 77" 2 False False]
  obtain D where D: "tensorized_init (\<lambda>j. Plain_id 77) example_input 2 False False = Inr D" using init by blast
  have "dataset_ok D" using epoch_dataset_ok(1) [OF torch_seq_ref_laws _ ok D, of False] by (simp add: epoch_dataset_def)
  moreover have "length (td_indices D) = length (td_id_tensor D)" using init [unfolded D] by simp
  ultimately show ?thesis
    using workers_share_batches [OF torch_seq_ref_laws, of D 2] D by fastforce
qed

end
