(* ===== verification/FeatColumn.thy ===== *)
theory FeatColumn
  imports Backend LazyValue
begin

text \<open>
  The columns of feature frames, \<open>_LazyIndex\<close> and \<open>Column\<close> of \<^verbatim>\<open>python/dgl/frame.py\<close>, with the storage
  they extend (\<^verbatim>\<open>storages/tensor.py\<close>, \<^verbatim>\<open>storages/pytorch_tensor.py\<close>) and the tensor operations of
  \<^verbatim>\<open>backend/pytorch/tensor.py\<close> they call. A tensor is a value, its device a field; that a tensor is
  pinned is asked of the library at the time of the call.
\<close>

section \<open>Tensors on devices\<close>

datatype feat_dtype = Float64 | Float32 | Float16 | BFloat16 | Int_type int_dtype | Other_type string

record 'v ftensor =
  ft_dtype :: feat_dtype
  ft_dims :: "int list"
  ft_rows :: "'v list"
  ft_ctx :: device

record itensor =
  it_ids :: "int list"
  it_ctx :: device

datatype initializer = Zero_init | User_init nat

text \<open>What the library computes: the conversion of a row, the type of a mixed result, whether a tensor
  is pinned, pinning, the kernel that gathers rows of a pinned tensor, a row of zeros and the
  initialisers of the user.\<close>

record 'v frame_lib =
  fl_cast :: "feat_dtype \<Rightarrow> feat_dtype \<Rightarrow> 'v \<Rightarrow> 'v"
  fl_result_type :: "feat_dtype \<Rightarrow> feat_dtype \<Rightarrow> feat_dtype"
  fl_is_pinned :: "'v ftensor \<Rightarrow> bool"
  fl_pin :: "'v ftensor \<Rightarrow> unit res"
  fl_gather_pinned :: "'v ftensor \<Rightarrow> itensor \<Rightarrow> 'v ftensor res"
  fl_zero :: "int list \<Rightarrow> feat_dtype \<Rightarrow> 'v"
  fl_init :: "nat \<Rightarrow> int \<Rightarrow> int list \<Rightarrow> feat_dtype \<Rightarrow> device \<Rightarrow> int \<times> int \<Rightarrow> 'v ftensor res"

fun device_ok :: "device \<Rightarrow> bool" where
  "device_ok Cpu \<longleftrightarrow> True"
| "device_ok (Dev ty i) \<longleftrightarrow> ty = ''cuda'' \<or> ty = ''npu''"

definition copy_to :: "'v ftensor \<Rightarrow> device \<Rightarrow> 'v ftensor res" where
  "copy_to t ctx = (if device_ok ctx then Inr (t\<lparr>ft_ctx := ctx\<rparr>) else Inl RuntimeError)"

definition copy_ids_to :: "itensor \<Rightarrow> device \<Rightarrow> itensor res" where
  "copy_ids_to ix ctx = (if device_ok ctx then Inr (ix\<lparr>it_ctx := ctx\<rparr>) else Inl RuntimeError)"

definition astype_tensor :: "'v frame_lib \<Rightarrow> 'v ftensor \<Rightarrow> feat_dtype \<Rightarrow> 'v ftensor" where
  "astype_tensor L t ty =
     (if ft_dtype t = ty then t
      else t\<lparr>ft_dtype := ty, ft_rows := map (fl_cast L (ft_dtype t) ty) (ft_rows t)\<rparr>)"

definition gather_tensor :: "'v ftensor \<Rightarrow> itensor \<Rightarrow> 'v ftensor res" where
  "gather_tensor t ix =
     (if it_ctx ix \<noteq> ft_ctx t then Inl RuntimeError
      else rbind (gather_row (ft_rows t) (it_ids ix)) (\<lambda>rows. Inr (t\<lparr>ft_rows := rows\<rparr>)))"

definition gather_ids :: "itensor \<Rightarrow> itensor \<Rightarrow> itensor res" where
  "gather_ids t ix =
     (if it_ctx ix \<noteq> it_ctx t then Inl RuntimeError
      else rbind (gather_row (it_ids t) (it_ids ix)) (\<lambda>ids. Inr (t\<lparr>it_ids := ids\<rparr>)))"

definition scatter_tensor :: "'v ftensor \<Rightarrow> itensor \<Rightarrow> 'v ftensor \<Rightarrow> 'v ftensor res" where
  "scatter_tensor t ix v =
     (if it_ctx ix \<noteq> ft_ctx t \<or> ft_ctx v \<noteq> ft_ctx t \<or> ft_dtype v \<noteq> ft_dtype t \<or> ft_dims v \<noteq> ft_dims t
      then Inl RuntimeError
      else rbind (scatter_row (ft_rows t) (it_ids ix) (ft_rows v)) (\<lambda>rows. Inr (t\<lparr>ft_rows := rows\<rparr>)))"

definition cat_tensors :: "'v frame_lib \<Rightarrow> 'v ftensor \<Rightarrow> 'v ftensor \<Rightarrow> 'v ftensor res" where
  "cat_tensors L a b =
     (if ft_ctx a \<noteq> ft_ctx b \<or> ft_dims a \<noteq> ft_dims b then Inl RuntimeError
      else let ty = (if ft_dtype a = ft_dtype b then ft_dtype a else fl_result_type L (ft_dtype a) (ft_dtype b)) in
        Inr ((astype_tensor L a ty)\<lparr>ft_rows := ft_rows (astype_tensor L a ty) @ ft_rows (astype_tensor L b ty)\<rparr>))"

section \<open>Lazy indices\<close>

definition lazy_len :: "itensor list \<Rightarrow> int res" where
  "lazy_len ixs = rbind (py_index ixs (- 1)) (\<lambda>ix. Inr (int (length (it_ids ix))))"

definition lazy_slice :: "itensor list \<Rightarrow> itensor \<Rightarrow> itensor list res" where
  "lazy_slice ixs index =
     rbind (py_index ixs (- 1)) (\<lambda>last.
     if it_ctx last = it_ctx index
     then rbind (gather_ids last index) (\<lambda>ix. Inr (butlast ixs @ [ix]))
     else Inr (ixs @ [index]))"

definition lazy_flatten :: "itensor list \<Rightarrow> itensor res" where
  "lazy_flatten ixs =
     rbind (py_index ixs 0) (\<lambda>first.
     rfold (\<lambda>flat_index index.
         rbind (if it_ctx index \<noteq> it_ctx flat_index then copy_ids_to index (it_ctx flat_index) else Inr index)
           (gather_ids flat_index))
       first (tl ixs))"

section \<open>Columns\<close>

record scheme =
  cs_shape :: "int list"
  cs_dtype :: feat_dtype

definition infer_scheme :: "'v ftensor \<Rightarrow> scheme" where
  "infer_scheme t = \<lparr>cs_shape = ft_dims t, cs_dtype = ft_dtype t\<rparr>"

datatype col_index = Index itensor | Lazy_index "itensor list"

type_synonym copy_kwargs = "(string \<times> bool) list"

record 'v column =
  cl_storage :: "'v ftensor option"
  cl_scheme :: scheme
  cl_index :: "col_index option"
  cl_device :: "(device \<times> copy_kwargs) option"
  cl_deferred_dtype :: "feat_dtype option"
  cl_pinned_by_dgl :: bool
  cl_data_nd :: "'v ftensor option"

definition column_init :: "'v ftensor option \<Rightarrow> scheme option \<Rightarrow> col_index option \<Rightarrow> (device \<times> copy_kwargs) option \<Rightarrow>
    feat_dtype option \<Rightarrow> 'v column res" where
  "column_init storage scheme index device deferred_dtype =
     rbind (case scheme of Some s \<Rightarrow> Inr s
        | None \<Rightarrow> (case storage of None \<Rightarrow> Inl AttributeError | Some t \<Rightarrow> Inr (infer_scheme t))) (\<lambda>s.
     Inr \<lparr>cl_storage = storage, cl_scheme = s, cl_index = index, cl_device = device,
          cl_deferred_dtype = deferred_dtype, cl_pinned_by_dgl = False, cl_data_nd = None\<rparr>)"

definition column_len :: "'v column \<Rightarrow> int res" where
  "column_len c =
     (case cl_index c of
        None \<Rightarrow> (case cl_storage c of None \<Rightarrow> Inl AttributeError | Some t \<Rightarrow> Inr (int (length (ft_rows t))))
      | Some (Index ix) \<Rightarrow> Inr (int (length (it_ids ix)))
      | Some (Lazy_index ixs) \<Rightarrow> lazy_len ixs)"

definition column_shape :: "'v column \<Rightarrow> int list" where
  "column_shape c = cs_shape (cl_scheme c)"

text \<open>The three steps of reading: the index, the device, the type.\<close>

definition apply_index :: "'v frame_lib \<Rightarrow> 'v column \<Rightarrow> 'v column res" where
  "apply_index L c =
     (case cl_index c of
        None \<Rightarrow> Inr c
      | Some index \<Rightarrow>
          rbind (case index of Lazy_index ixs \<Rightarrow> lazy_flatten ixs | Index ix \<Rightarrow> Inr ix) (\<lambda>ix.
          case cl_storage c of
            None \<Rightarrow> Inl AttributeError
          | Some storage \<Rightarrow>
              rbind (if ft_ctx storage \<noteq> it_ctx ix \<and> ft_ctx storage = Cpu \<and> fl_is_pinned L storage
                     then fl_gather_pinned L storage ix
                     else rbind (if ft_ctx storage \<noteq> it_ctx ix then copy_ids_to ix (ft_ctx storage) else Inr ix)
                       (gather_tensor storage)) (\<lambda>t.
              Inr (c\<lparr>cl_storage := Some t, cl_index := None\<rparr>))))"

definition apply_device :: "'v column \<Rightarrow> 'v column res" where
  "apply_device c =
     (case cl_device c of
        None \<Rightarrow> Inr c
      | Some (ctx, kwargs) \<Rightarrow>
          (case cl_storage c of
             None \<Rightarrow> Inl AttributeError
           | Some t \<Rightarrow> rbind (copy_to t ctx) (\<lambda>t. Inr (c\<lparr>cl_storage := Some t, cl_device := None\<rparr>))))"

definition apply_dtype :: "'v frame_lib \<Rightarrow> 'v column \<Rightarrow> 'v column res" where
  "apply_dtype L c =
     (case cl_deferred_dtype c of
        None \<Rightarrow> Inr c
      | Some ty \<Rightarrow>
          (case cl_storage c of
             None \<Rightarrow> Inl AttributeError
           | Some t \<Rightarrow> Inr (c\<lparr>cl_storage := Some (astype_tensor L t ty), cl_deferred_dtype := None\<rparr>)))"

definition column_data :: "'v frame_lib \<Rightarrow> 'v column \<Rightarrow> ('v ftensor option \<times> 'v column) res" where
  "column_data L c =
     rbind (apply_index L c) (\<lambda>c. rbind (apply_device c) (\<lambda>c. rbind (apply_dtype L c) (\<lambda>c.
     Inr (cl_storage c, c))))"

text \<open>The callers use the data as a tensor, which \<open>None\<close> is not.\<close>

definition column_tensor :: "'v frame_lib \<Rightarrow> 'v column \<Rightarrow> ('v ftensor \<times> 'v column) res" where
  "column_tensor L c =
     rbind (column_data L c) (\<lambda>(t, c). case t of None \<Rightarrow> Inl AttributeError | Some t \<Rightarrow> Inr (t, c))"

definition column_set_data :: "'v ftensor \<Rightarrow> 'v column \<Rightarrow> 'v column" where
  "column_set_data v c =
     c\<lparr>cl_index := None, cl_device := None, cl_deferred_dtype := None, cl_storage := Some v,
       cl_data_nd := None, cl_pinned_by_dgl := False\<rparr>"

definition column_clone :: "'v column \<Rightarrow> 'v column res" where
  "column_clone c =
     column_init (cl_storage c) (Some (cl_scheme c)) (cl_index c) (cl_device c) (cl_deferred_dtype c)"

definition column_to :: "device \<Rightarrow> copy_kwargs \<Rightarrow> 'v column \<Rightarrow> 'v column res" where
  "column_to ctx kwargs c = rbind (column_clone c) (\<lambda>col. Inr (col\<lparr>cl_device := Some (ctx, kwargs)\<rparr>))"

definition column_dtype :: "'v column \<Rightarrow> feat_dtype res" where
  "column_dtype c =
     (case cl_deferred_dtype c of
        Some ty \<Rightarrow> Inr ty
      | None \<Rightarrow> (case cl_storage c of None \<Rightarrow> Inl AttributeError | Some t \<Rightarrow> Inr (ft_dtype t)))"

definition column_astype :: "'v frame_lib \<Rightarrow> feat_dtype \<Rightarrow> 'v column \<Rightarrow> 'v column res" where
  "column_astype L new_dtype c =
     rbind (column_clone c) (\<lambda>col. rbind (column_dtype col) (\<lambda>ty.
     if ty \<noteq> new_dtype then
       rbind (if cl_deferred_dtype col \<noteq> None then rbind (column_data L col) (\<lambda>(_, col). Inr col) else Inr col) (\<lambda>col.
       if cl_device col = None \<and> cl_index col = None then
         (case cl_storage col of
            None \<Rightarrow> Inl AttributeError
          | Some t \<Rightarrow> Inr (col\<lparr>cl_storage := Some (astype_tensor L t new_dtype)\<rparr>))
       else Inr (col\<lparr>cl_deferred_dtype := Some new_dtype\<rparr>))
     else Inr col))"

definition column_getitem :: "'v frame_lib \<Rightarrow> itensor \<Rightarrow> 'v column \<Rightarrow> ('v ftensor \<times> 'v column) res" where
  "column_getitem L rowids c =
     rbind (column_tensor L c) (\<lambda>(t, c). rbind (gather_tensor t rowids) (\<lambda>t. Inr (t, c)))"

definition column_update :: "'v frame_lib \<Rightarrow> itensor \<Rightarrow> 'v ftensor \<Rightarrow> 'v column \<Rightarrow> 'v column res" where
  "column_update L rowids feats c =
     (if infer_scheme feats \<noteq> cl_scheme c then Inl DGLError
      else rbind (column_tensor L c) (\<lambda>(t, c). rbind (scatter_tensor t rowids feats) (\<lambda>t.
        Inr (column_set_data t c))))"

definition column_extend :: "'v frame_lib \<Rightarrow> 'v ftensor \<Rightarrow> scheme option \<Rightarrow> 'v column \<Rightarrow> 'v column res" where
  "column_extend L feats feat_scheme c =
     (let s = (case feat_scheme of None \<Rightarrow> infer_scheme feats | Some s \<Rightarrow> s) in
      if s \<noteq> cl_scheme c then Inl DGLError
      else rbind (column_tensor L c) (\<lambda>(t, c). rbind (cat_tensors L t feats) (\<lambda>t. Inr (column_set_data t c))))"

text \<open>The module \<open>copy\<close>, which \<open>deepclone\<close> uses for the scheme, is never imported.\<close>

definition column_deepclone :: "'v frame_lib \<Rightarrow> 'v column \<Rightarrow> 'v column res" where
  "column_deepclone L c = rbind (column_tensor L c) (\<lambda>(t, c). Inl NameError)"

definition column_subcolumn :: "itensor \<Rightarrow> 'v column \<Rightarrow> 'v column res" where
  "column_subcolumn rowids c =
     (case cl_index c of
        None \<Rightarrow> column_init (cl_storage c) (Some (cl_scheme c)) (Some (Index rowids)) (cl_device c) (cl_deferred_dtype c)
      | Some index \<Rightarrow>
          rbind (lazy_slice (case index of Index ix \<Rightarrow> [ix] | Lazy_index ixs \<Rightarrow> ixs) rowids) (\<lambda>ixs.
          column_init (cl_storage c) (Some (cl_scheme c)) (Some (Lazy_index ixs)) (cl_device c) (cl_deferred_dtype c)))"

datatype 'v col_input = In_column "'v column" | In_tensor "'v ftensor"

definition column_create :: "'v col_input \<Rightarrow> 'v column res" where
  "column_create data =
     (case data of In_column c \<Rightarrow> column_clone c | In_tensor t \<Rightarrow> column_init (Some t) None None None None)"

text \<open>Pickling: the state that is written, and the column that is made of a state.\<close>

definition column_getstate :: "'v frame_lib \<Rightarrow> 'v column \<Rightarrow> ('v column \<times> 'v column) res" where
  "column_getstate L c =
     rbind (if cl_storage c \<noteq> None then rbind (column_data L c) (\<lambda>(_, c). Inr c) else Inr c) (\<lambda>c.
     Inr (c\<lparr>cl_data_nd := None, cl_pinned_by_dgl := False\<rparr>, c))"

definition column_setstate :: "'v column \<Rightarrow> 'v column res" where
  "column_setstate state =
     rbind (if cl_storage state \<noteq> None
            then rbind (rassert (cl_index state = None) AssertionError) (\<lambda>_.
                 rbind (rassert (cl_device state = None) AssertionError) (\<lambda>_. Inr (None, None)))
            else Inr (cl_index state, cl_device state)) (\<lambda>(index, device).
     rbind (rassert (cl_deferred_dtype state = None) AssertionError) (\<lambda>_.
     rbind (rassert (\<not> cl_pinned_by_dgl state) AssertionError) (\<lambda>_.
     rbind (rassert (cl_data_nd state = None) AssertionError) (\<lambda>_.
     column_init (cl_storage state) (Some (cl_scheme state)) index device None))))"

definition column_pin_memory :: "'v frame_lib \<Rightarrow> 'v column \<Rightarrow> 'v column res" where
  "column_pin_memory L c =
     (if cl_pinned_by_dgl c then Inr c
      else rbind (column_tensor L c) (\<lambda>(t, c).
        if fl_is_pinned L t then Inr c
        else rbind (fl_pin L t) (\<lambda>_. Inr (c\<lparr>cl_data_nd := Some t, cl_pinned_by_dgl := True\<rparr>))))"

definition column_unpin_memory :: "'v column \<Rightarrow> 'v column res" where
  "column_unpin_memory c =
     (if cl_pinned_by_dgl c
      then (case cl_data_nd c of None \<Rightarrow> Inl AttributeError
            | Some nd \<Rightarrow> Inr (c\<lparr>cl_data_nd := None, cl_pinned_by_dgl := False\<rparr>))
      else Inr c)"

text \<open>\<open>PyTorchTensorStorage.fetch\<close>, for a column after it has been read.\<close>

definition storage_fetch :: "'v frame_lib \<Rightarrow> itensor \<Rightarrow> device \<Rightarrow> 'v ftensor \<Rightarrow> 'v ftensor res" where
  "storage_fetch L indices ctx storage =
     (let kind = (\<lambda>d. case d of Cpu \<Rightarrow> ''cpu'' | Dev ty i \<Rightarrow> ty) in
      if kind (ft_ctx storage) \<noteq> ''cuda'' \<and> kind (ft_ctx storage) \<noteq> ''npu'' then
        if kind (it_ctx indices) = ''cuda'' then
          if fl_is_pinned L storage then fl_gather_pinned L storage indices else Inl ValueError
        else rbind (gather_tensor storage indices) (\<lambda>t. copy_to t ctx)
      else rbind (gather_tensor storage indices) (\<lambda>t. copy_to t ctx))"

definition column_fetch :: "'v frame_lib \<Rightarrow> itensor \<Rightarrow> device \<Rightarrow> 'v column \<Rightarrow> ('v ftensor \<times> 'v column) res" where
  "column_fetch L indices ctx c =
     rbind (column_tensor L c) (\<lambda>(t, c). rbind (storage_fetch L indices ctx t) (\<lambda>t. Inr (t, c)))"

text \<open>The devices of the tensors that are registered with a stream, one after the other.\<close>

definition lazy_record_stream :: "itensor list \<Rightarrow> device list" where
  "lazy_record_stream ixs = filter (\<lambda>ctx. ctx \<noteq> Cpu) (map it_ctx ixs)"

definition column_record_stream :: "string \<Rightarrow> 'v column \<Rightarrow> device list res" where
  "column_record_stream backend c =
     (if backend \<noteq> ''pytorch'' then Inl DGLError
      else let index = (case cl_index c of
            None \<Rightarrow> []
          | Some (Lazy_index ixs) \<Rightarrow> lazy_record_stream ixs
          | Some (Index ix) \<Rightarrow> if it_ctx ix \<noteq> Cpu then [it_ctx ix] else [])
        in case cl_storage c of
             None \<Rightarrow> Inl AttributeError
           | Some t \<Rightarrow> Inr (index @ (if ft_ctx t \<noteq> Cpu then [ft_ctx t] else [])))"

end
