(* ===== verification/FeatFrame.thy ===== *)
theory FeatFrame
  imports FeatColumn
begin

text \<open>
  \<open>LazyFeature\<close> and \<open>Frame\<close> of \<^verbatim>\<open>python/dgl/frame.py\<close>: a dictionary of columns with a number of rows.
  The dictionary of initialisers is shared between a frame and the frames made of it, so that a
  frame holds its address in a store of such dictionaries. Columns are values: a method that changes
  a column of a frame returns the changed frame. The one place where two frames hold the same column
  object are the columns that \<open>_astype_float\<close> does not convert.
\<close>

section \<open>Frames\<close>

record lazy_feature =
  lf_name :: "string option"
  lf_id :: "itensor option"

datatype 'v frame_entry = Feature "'v column" | Lazy_feature lazy_feature

record 'v frame =
  fr_columns :: "(string \<times> 'v frame_entry) list"
  fr_num_rows :: "int option"
  fr_initializers :: nat
  fr_default_initializer :: "initializer option"

record init_store =
  is_next :: nat
  is_dicts :: "nat \<Rightarrow> (string \<times> initializer option) list"

datatype 'v frame_input = In_lazy lazy_feature | In_data "'v col_input"

definition make_entry :: "'v frame_input \<Rightarrow> 'v frame_entry res" where
  "make_entry v =
     (case v of In_lazy f \<Rightarrow> Inr (Lazy_feature f) | In_data d \<Rightarrow> rbind (column_create d) (\<lambda>c. Inr (Feature c)))"

definition infer_rows :: "int option \<Rightarrow> string \<times> 'v frame_entry \<Rightarrow> int option res" where
  "infer_rows n kv =
     (case snd kv of
        Lazy_feature f \<Rightarrow> Inr n
      | Feature c \<Rightarrow> rbind (column_len c) (\<lambda>l.
          case n of None \<Rightarrow> Inr (Some l) | Some m \<Rightarrow> if l \<noteq> m then Inl DGLError else Inr n))"

definition frame_init :: "(string \<times> 'v frame_input) list option \<Rightarrow> int option \<Rightarrow> init_store \<Rightarrow> ('v frame \<times> init_store) res" where
  "frame_init data num_rows S =
     rbind (case data of
         None \<Rightarrow> Inr ([], Some (case num_rows of None \<Rightarrow> 0 | Some n \<Rightarrow> n))
       | Some d \<Rightarrow>
           rbind (rmap (\<lambda>(k, v). rbind (make_entry v) (\<lambda>e. Inr (k, e))) d) (\<lambda>cols.
           rbind (rfold infer_rows num_rows cols) (\<lambda>n. Inr (cols, n)))) (\<lambda>(cols, n).
     Inr (\<lparr>fr_columns = cols, fr_num_rows = n, fr_initializers = is_next S, fr_default_initializer = None\<rparr>,
          S\<lparr>is_next := is_next S + 1, is_dicts := (is_dicts S)(is_next S := [])\<rparr>))"

definition set_zero_default_initializer :: "'v frame \<Rightarrow> 'v frame" where
  "set_zero_default_initializer f = f\<lparr>fr_default_initializer := Some Zero_init\<rparr>"

definition get_initializer :: "init_store \<Rightarrow> string option \<Rightarrow> 'v frame \<Rightarrow> initializer option" where
  "get_initializer S column f =
     (case Option.bind column (map_of (is_dicts S (fr_initializers f))) of
        Some i \<Rightarrow> i
      | None \<Rightarrow> fr_default_initializer f)"

definition set_initializer :: "initializer option \<Rightarrow> string option \<Rightarrow> 'v frame \<Rightarrow> init_store \<Rightarrow> 'v frame \<times> init_store" where
  "set_initializer init column f S =
     (case column of
        None \<Rightarrow> (f\<lparr>fr_default_initializer := init\<rparr>, S)
      | Some k \<Rightarrow> (f, S\<lparr>is_dicts := (is_dicts S)(fr_initializers f := AList.update k init (is_dicts S (fr_initializers f)))\<rparr>))"

definition frame_schemes :: "'v frame \<Rightarrow> (string \<times> scheme) list res" where
  "frame_schemes f =
     rmap (\<lambda>(k, e). case e of Lazy_feature l \<Rightarrow> Inl AttributeError | Feature c \<Rightarrow> Inr (k, cl_scheme c)) (fr_columns f)"

definition frame_num_columns :: "'v frame \<Rightarrow> nat" where
  "frame_num_columns f = length (fr_columns f)"

definition frame_contains :: "string \<Rightarrow> 'v frame \<Rightarrow> bool" where
  "frame_contains name f \<longleftrightarrow> name \<in> fst ` set (fr_columns f)"

definition frame_keys :: "'v frame \<Rightarrow> string list" where
  "frame_keys f = map fst (fr_columns f)"

definition frame_values :: "'v frame \<Rightarrow> 'v frame_entry list" where
  "frame_values f = map snd (fr_columns f)"

definition set_entry :: "string \<Rightarrow> 'v frame_entry \<Rightarrow> 'v frame \<Rightarrow> 'v frame" where
  "set_entry name e f = f\<lparr>fr_columns := AList.update name e (fr_columns f)\<rparr>"

section \<open>Reading and writing columns\<close>

datatype 'v frame_value = Data "'v ftensor option" | Placeholder lazy_feature

definition frame_getitem :: "'v frame_lib \<Rightarrow> string \<Rightarrow> 'v frame \<Rightarrow> ('v frame_value \<times> 'v frame) res" where
  "frame_getitem L name f =
     rbind (dict_get (fr_columns f) name) (\<lambda>e.
     case e of
       Lazy_feature l \<Rightarrow> Inr (Placeholder l, f)
     | Feature c \<Rightarrow> rbind (column_data L c) (\<lambda>(t, c). Inr (Data t, set_entry name (Feature c) f)))"

text \<open>A frame without a number of rows can not even name it in the message.\<close>

definition update_column :: "string \<Rightarrow> 'v frame_input \<Rightarrow> 'v frame \<Rightarrow> 'v frame res" where
  "update_column name data f =
     (case data of
        In_lazy l \<Rightarrow> Inr (set_entry name (Lazy_feature l) f)
      | In_data d \<Rightarrow>
          rbind (column_create d) (\<lambda>c. rbind (column_len c) (\<lambda>l.
          case fr_num_rows f of
            None \<Rightarrow> Inl TypeError
          | Some n \<Rightarrow> if l \<noteq> n then Inl DGLError else Inr (set_entry name (Feature c) f))))"

definition frame_setitem :: "string \<Rightarrow> 'v frame_input \<Rightarrow> 'v frame \<Rightarrow> 'v frame res" where
  "frame_setitem name data f = update_column name data f"

definition frame_delitem :: "string \<Rightarrow> 'v frame \<Rightarrow> 'v frame res" where
  "frame_delitem name f = rbind (dict_del (fr_columns f) name) (\<lambda>cols. Inr (f\<lparr>fr_columns := cols\<rparr>))"

definition zero_initializer :: "'v frame_lib \<Rightarrow> int \<Rightarrow> int list \<Rightarrow> feat_dtype \<Rightarrow> device \<Rightarrow> int \<times> int \<Rightarrow> 'v ftensor res" where
  "zero_initializer L n dims ty ctx id_range =
     (if n < 0 then Inl RuntimeError
      else Inr \<lparr>ft_dtype = ty, ft_dims = dims, ft_rows = replicate (nat n) (fl_zero L dims ty), ft_ctx = ctx\<rparr>)"

definition run_initializer :: "'v frame_lib \<Rightarrow> initializer \<Rightarrow> int \<Rightarrow> int list \<Rightarrow> feat_dtype \<Rightarrow> device \<Rightarrow> int \<times> int \<Rightarrow> 'v ftensor res" where
  "run_initializer L init n dims ty ctx id_range =
     (case init of
        Zero_init \<Rightarrow> zero_initializer L n dims ty ctx id_range
      | User_init k \<Rightarrow> fl_init L k n dims ty ctx id_range)"

text \<open>New rows for a column: by its initialiser, the default one, or zeros from now on.\<close>

definition initial_rows :: "'v frame_lib \<Rightarrow> init_store \<Rightarrow> string \<Rightarrow> int option \<Rightarrow> int option \<Rightarrow> scheme \<Rightarrow> device \<Rightarrow> 'v frame \<Rightarrow>
    ('v ftensor \<times> 'v frame) res" where
  "initial_rows L S name start n s ctx f =
     (let f = (if get_initializer S (Some name) f = None then set_zero_default_initializer f else f) in
      case (get_initializer S (Some name) f, start, n) of
        (Some init, Some a, Some n) \<Rightarrow>
          rbind (run_initializer L init n (cs_shape s) (cs_dtype s) ctx (a, a + n)) (\<lambda>t. Inr (t, f))
      | _ \<Rightarrow> Inl TypeError)"

definition add_column :: "'v frame_lib \<Rightarrow> init_store \<Rightarrow> string \<Rightarrow> scheme \<Rightarrow> device \<Rightarrow> 'v frame \<Rightarrow> 'v frame res" where
  "add_column L S name s ctx f =
     (if frame_contains name f then Inr f
      else rbind (initial_rows L S name (Some 0) (fr_num_rows f) s ctx f) (\<lambda>(t, f).
        rbind (column_init (Some t) (Some s) None None None) (\<lambda>c. Inr (set_entry name (Feature c) f))))"

definition update_row :: "'v frame_lib \<Rightarrow> init_store \<Rightarrow> itensor \<Rightarrow> (string \<times> 'v ftensor) list \<Rightarrow> 'v frame \<Rightarrow> 'v frame res" where
  "update_row L S rowids data f =
     rbind (rfold (\<lambda>f (key, val).
         if \<not> frame_contains key f then add_column L S key (infer_scheme val) (ft_ctx val) f else Inr f) f data) (\<lambda>f.
     rfold (\<lambda>f (key, val).
         rbind (dict_get (fr_columns f) key) (\<lambda>e.
         case e of
           Lazy_feature l \<Rightarrow> Inl AttributeError
         | Feature c \<Rightarrow> rbind (column_update L rowids val c) (\<lambda>c. Inr (set_entry key (Feature c) f)))) f data)"

section \<open>Appending\<close>

text \<open>The initial rows of a column of the frame, on the device of its data, which is read for it.\<close>

definition entry_rows :: "'v frame_lib \<Rightarrow> init_store \<Rightarrow> string \<Rightarrow> int option \<Rightarrow> 'v frame \<Rightarrow> ('v ftensor \<times> 'v frame) res" where
  "entry_rows L S key n f =
     rbind (dict_get (fr_columns f) key) (\<lambda>e.
     case e of
       Lazy_feature l \<Rightarrow> Inl AttributeError
     | Feature c \<Rightarrow> rbind (column_tensor L c) (\<lambda>(t, c).
         initial_rows L S key (fr_num_rows f) n (cl_scheme c) (ft_ctx t) (set_entry key (Feature c) f)))"

definition pad_other :: "'v frame_lib \<Rightarrow> init_store \<Rightarrow> 'v frame \<times> 'v frame \<Rightarrow> string \<Rightarrow> ('v frame \<times> 'v frame) res" where
  "pad_other L S fs key =
     (case fs of (f, other) \<Rightarrow>
      if frame_contains key other then Inr (f, other)
      else rbind (entry_rows L S key (fr_num_rows other) f) (\<lambda>(t, f).
        rbind (update_column key (In_data (In_tensor t)) other) (\<lambda>other. Inr (f, other))))"

definition extend_from :: "'v frame_lib \<Rightarrow> init_store \<Rightarrow> 'v frame \<times> 'v frame \<Rightarrow> string \<Rightarrow> ('v frame \<times> 'v frame) res" where
  "extend_from L S fs key =
     (case fs of (f, other) \<Rightarrow>
      rbind (dict_get (fr_columns other) key) (\<lambda>e.
      case e of
        Lazy_feature l \<Rightarrow> Inl AttributeError
      | Feature col \<Rightarrow>
          rbind (column_tensor L col) (\<lambda>(t, col).
          rbind (if \<not> frame_contains key f then add_column L S key (cl_scheme col) (ft_ctx t) f else Inr f) (\<lambda>f.
          rbind (dict_get (fr_columns f) key) (\<lambda>e'.
          case e' of
            Lazy_feature l \<Rightarrow> Inl AttributeError
          | Feature c \<Rightarrow> rbind (column_extend L t (Some (cl_scheme col)) c) (\<lambda>c.
              Inr (set_entry key (Feature c) f, set_entry key (Feature col) other)))))))"

definition append_columns :: "'v frame_lib \<Rightarrow> init_store \<Rightarrow> 'v frame \<Rightarrow> 'v frame \<Rightarrow> ('v frame \<times> 'v frame) res" where
  "append_columns L S other f =
     rbind (rfold (pad_other L S) (f, other) (frame_keys f)) (\<lambda>(f, other).
     rfold (extend_from L S) (f, other) (frame_keys other))"

definition add_num_rows :: "int option \<Rightarrow> 'v frame \<Rightarrow> 'v frame res" where
  "add_num_rows n f =
     (case (fr_num_rows f, n) of
        (Some a, Some b) \<Rightarrow> Inr (f\<lparr>fr_num_rows := Some (a + b)\<rparr>)
      | _ \<Rightarrow> Inl TypeError)"

definition add_rows :: "'v frame_lib \<Rightarrow> int \<Rightarrow> 'v frame \<Rightarrow> init_store \<Rightarrow> ('v frame \<times> init_store) res" where
  "add_rows L num_rows f S =
     rbind (rfold (\<lambda>(f, rows) key. rbind (entry_rows L S key (Some num_rows) f) (\<lambda>(t, f).
         Inr (f, rows @ [(key, In_data (In_tensor t))]))) (f, []) (frame_keys f)) (\<lambda>(f, rows).
     rbind (frame_init (Some rows) None S) (\<lambda>(other, S).
     rbind (append_columns L S other f) (\<lambda>(f, other).
     rbind (add_num_rows (Some num_rows) f) (\<lambda>f. Inr (f, S)))))"

datatype 'v append_input = From_frame "'v frame" | From_dict "(string \<times> 'v frame_input) list"

text \<open>The result is the frame, and the other frame, which the padding has changed.\<close>

definition frame_append :: "'v frame_lib \<Rightarrow> 'v append_input \<Rightarrow> 'v frame \<Rightarrow> init_store \<Rightarrow> ('v frame \<times> 'v frame \<times> init_store) res" where
  "frame_append L other f S =
     rbind (case other of From_frame g \<Rightarrow> Inr (g, S) | From_dict d \<Rightarrow> frame_init (Some d) None S) (\<lambda>(other, S).
     rbind (append_columns L S other f) (\<lambda>(f, other).
     rbind (add_num_rows (fr_num_rows other) f) (\<lambda>f. Inr (f, other, S))))"

definition frame_clear :: "'v frame \<Rightarrow> 'v frame" where
  "frame_clear f = f\<lparr>fr_columns := [], fr_num_rows := Some 0\<rparr>"

section \<open>Frames made of frames\<close>

fun entry_input :: "'v frame_entry \<Rightarrow> 'v frame_input" where
  "entry_input (Feature c) = In_data (In_column c)"
| "entry_input (Lazy_feature l) = In_lazy l"

definition same_initializers :: "'v frame \<Rightarrow> 'v frame \<Rightarrow> 'v frame" where
  "same_initializers f new =
     new\<lparr>fr_initializers := fr_initializers f, fr_default_initializer := fr_default_initializer f\<rparr>"

definition frame_of_entries :: "'v frame \<Rightarrow> (string \<times> 'v frame_entry) list \<Rightarrow> int option \<Rightarrow> init_store \<Rightarrow> ('v frame \<times> init_store) res" where
  "frame_of_entries f cols num_rows S =
     rbind (frame_init (Some (map (\<lambda>(k, e). (k, entry_input e)) cols)) num_rows S) (\<lambda>(new, S).
     Inr (same_initializers f new, S))"

definition frame_clone :: "'v frame \<Rightarrow> init_store \<Rightarrow> ('v frame \<times> init_store) res" where
  "frame_clone f S = frame_of_entries f (fr_columns f) (fr_num_rows f) S"

definition map_entries :: "('v column \<Rightarrow> 'v column res) \<Rightarrow> ('v frame_entry \<Rightarrow> 'v frame_entry res) \<Rightarrow>
    (string \<times> 'v frame_entry) list \<Rightarrow> (string \<times> 'v frame_entry) list res" where
  "map_entries g lazy cols =
     rmap (\<lambda>(k, e). rbind (case e of Feature c \<Rightarrow> rbind (g c) (\<lambda>c. Inr (Feature c)) | Lazy_feature l \<Rightarrow> lazy e) (\<lambda>e. Inr (k, e))) cols"

definition frame_deepclone :: "'v frame_lib \<Rightarrow> 'v frame \<Rightarrow> init_store \<Rightarrow> ('v frame \<times> init_store) res" where
  "frame_deepclone L f S =
     rbind (map_entries (column_deepclone L) (\<lambda>e. Inl AttributeError) (fr_columns f)) (\<lambda>cols.
     frame_of_entries f cols (fr_num_rows f) S)"

definition subframe :: "itensor \<Rightarrow> 'v frame \<Rightarrow> init_store \<Rightarrow> ('v frame \<times> init_store) res" where
  "subframe rowids f S =
     rbind (map_entries (column_subcolumn rowids) (\<lambda>e. Inl AttributeError) (fr_columns f)) (\<lambda>cols.
     frame_of_entries f cols (Some (int (length (it_ids rowids)))) S)"

definition frame_to :: "device \<Rightarrow> copy_kwargs \<Rightarrow> 'v frame \<Rightarrow> init_store \<Rightarrow> ('v frame \<times> init_store) res" where
  "frame_to ctx kwargs f S =
     rbind (frame_clone f S) (\<lambda>(new, S).
     rbind (map_entries (column_to ctx kwargs) Inr (fr_columns new)) (\<lambda>cols.
     Inr (new\<lparr>fr_columns := cols\<rparr>, S)))"

definition frame_pin_memory :: "'v frame_lib \<Rightarrow> 'v frame \<Rightarrow> 'v frame res" where
  "frame_pin_memory L f =
     rbind (map_entries (column_pin_memory L) Inr (fr_columns f)) (\<lambda>cols. Inr (f\<lparr>fr_columns := cols\<rparr>))"

definition frame_unpin_memory :: "'v frame \<Rightarrow> 'v frame res" where
  "frame_unpin_memory f =
     rbind (map_entries column_unpin_memory Inr (fr_columns f)) (\<lambda>cols. Inr (f\<lparr>fr_columns := cols\<rparr>))"

definition frame_record_stream :: "string \<Rightarrow> 'v frame \<Rightarrow> device list res" where
  "frame_record_stream backend f =
     rbind (rmap (\<lambda>(k, e). case e of Feature c \<Rightarrow> column_record_stream backend c | Lazy_feature l \<Rightarrow> Inr []) (fr_columns f)) (\<lambda>ds.
     Inr (concat ds))"

definition float_types :: "feat_dtype list" where
  "float_types = [Float64, Float32, Float16, BFloat16]"

definition frame_astype_float :: "'v frame_lib \<Rightarrow> feat_dtype \<Rightarrow> 'v frame \<Rightarrow> init_store \<Rightarrow> ('v frame \<times> init_store) res" where
  "frame_astype_float L new_type f S =
     rbind (rassert (new_type \<in> set float_types) AssertionError) (\<lambda>_.
     rbind (frame_clone f S) (\<lambda>(new, S).
     rbind (map_entries (\<lambda>c. rbind (column_dtype c) (\<lambda>ty.
         if ty \<noteq> new_type \<and> ty \<in> set float_types then column_astype L new_type c else Inr c))
       (\<lambda>e. Inl AttributeError) (fr_columns f)) (\<lambda>cols.
     Inr (new\<lparr>fr_columns := cols\<rparr>, S))))"

definition frame_bfloat16 :: "'v frame_lib \<Rightarrow> 'v frame \<Rightarrow> init_store \<Rightarrow> ('v frame \<times> init_store) res" where
  "frame_bfloat16 L f S = frame_astype_float L BFloat16 f S"

definition frame_half :: "'v frame_lib \<Rightarrow> 'v frame \<Rightarrow> init_store \<Rightarrow> ('v frame \<times> init_store) res" where
  "frame_half L f S = frame_astype_float L Float16 f S"

definition frame_float :: "'v frame_lib \<Rightarrow> 'v frame \<Rightarrow> init_store \<Rightarrow> ('v frame \<times> init_store) res" where
  "frame_float L f S = frame_astype_float L Float32 f S"

definition frame_double :: "'v frame_lib \<Rightarrow> 'v frame \<Rightarrow> init_store \<Rightarrow> ('v frame \<times> init_store) res" where
  "frame_double L f S = frame_astype_float L Float64 f S"

end
