(* ===== verification/FeatColumnProps.thy ===== *)
theory FeatColumnProps
  imports FeatColumn
begin

text \<open>
  A column stands for a tensor, however much of the indexing, moving and converting is still to be
  done: \<open>column_content\<close> computes it from the pending operations. Reading gives it, reading again
  changes nothing, and each operation on a column does to it what the eager operation on tensors
  does.
\<close>

section \<open>What a column stands for\<close>

type_synonym 'v content = "feat_dtype \<times> int list \<times> 'v list"

fun chain_rows :: "'v list \<Rightarrow> int list list \<Rightarrow> 'v list option" where
  "chain_rows xs [] = Some xs"
| "chain_rows xs (ids # rest) =
     (if \<forall>i \<in> set ids. valid_index xs i then chain_rows (map (\<lambda>i. xs ! nat i) ids) rest else None)"

definition index_list :: "'v column \<Rightarrow> itensor list" where
  "index_list c = (case cl_index c of None \<Rightarrow> [] | Some (Index ix) \<Rightarrow> [ix] | Some (Lazy_index ixs) \<Rightarrow> ixs)"

fun convert_rows :: "'v frame_lib \<Rightarrow> feat_dtype \<Rightarrow> 'v content \<Rightarrow> 'v content" where
  "convert_rows L ty (ty0, dims, rows) = (ty, dims, if ty0 = ty then rows else map (fl_cast L ty0 ty) rows)"

fun pick_rows :: "int list \<Rightarrow> 'v content \<Rightarrow> 'v content" where
  "pick_rows ids (ty, dims, rows) = (ty, dims, map (\<lambda>i. rows ! nat i) ids)"

definition tensor_content :: "'v ftensor \<Rightarrow> 'v content" where
  "tensor_content t = (ft_dtype t, ft_dims t, ft_rows t)"

abbreviation content_rows :: "'v content \<Rightarrow> 'v list" where
  "content_rows v \<equiv> snd (snd v)"

definition column_content :: "'v frame_lib \<Rightarrow> 'v column \<Rightarrow> 'v content option" where
  "column_content L c =
     (case cl_storage c of
        None \<Rightarrow> None
      | Some t \<Rightarrow>
          if cl_index c = Some (Lazy_index []) then None
          else map_option (\<lambda>rows.
              (case cl_deferred_dtype c of None \<Rightarrow> id | Some ty \<Rightarrow> convert_rows L ty) (ft_dtype t, ft_dims t, rows))
            (chain_rows (ft_rows t) (map it_ids (index_list c))))"

definition column_devices_ok :: "'v column \<Rightarrow> bool" where
  "column_devices_ok c \<longleftrightarrow>
     (case cl_storage c of None \<Rightarrow> True | Some t \<Rightarrow> device_ok (ft_ctx t)) \<and>
     (\<forall>ix \<in> set (index_list c). device_ok (it_ctx ix)) \<and>
     (case cl_device c of None \<Rightarrow> True | Some (ctx, kwargs) \<Rightarrow> device_ok ctx)"

definition column_holds :: "'v frame_lib \<Rightarrow> 'v column \<Rightarrow> 'v content \<Rightarrow> bool" where
  "column_holds L c v \<longleftrightarrow> column_content L c = Some v \<and> column_devices_ok c"

text \<open>The device of the data, once it is read: where it was sent, or else where the storage is, or the
  index if the storage is pinned.\<close>

definition column_ctx :: "'v frame_lib \<Rightarrow> 'v column \<Rightarrow> device" where
  "column_ctx L c =
     (case cl_device c of
        Some (ctx, kwargs) \<Rightarrow> ctx
      | None \<Rightarrow>
          (case cl_storage c of
             None \<Rightarrow> Cpu
           | Some t \<Rightarrow>
               (case index_list c of
                  [] \<Rightarrow> ft_ctx t
                | ix # _ \<Rightarrow> if ft_ctx t \<noteq> it_ctx ix \<and> ft_ctx t = Cpu \<and> fl_is_pinned L t then it_ctx ix else ft_ctx t)))"

text \<open>The kernel for pinned memory: the rows, on the device of the index.\<close>

definition frame_laws :: "'v frame_lib \<Rightarrow> bool" where
  "frame_laws L \<longleftrightarrow>
     (\<forall>t ix. (\<forall>i \<in> set (it_ids ix). valid_index (ft_rows t) i) \<longrightarrow>
        fl_gather_pinned L t ix = Inr (t\<lparr>ft_rows := map (\<lambda>i. ft_rows t ! nat i) (it_ids ix), ft_ctx := it_ctx ix\<rparr>))"

section \<open>Reading\<close>

lemma gather_tensor_valid:
  "\<forall>i \<in> set (it_ids ix). valid_index (ft_rows t) i \<Longrightarrow> it_ctx ix = ft_ctx t \<Longrightarrow>
    gather_tensor t ix = Inr (t\<lparr>ft_rows := map (\<lambda>i. ft_rows t ! nat i) (it_ids ix)\<rparr>)"
  by (simp add: gather_tensor_def gather_row_valid)

lemma gather_ids_valid:
  "\<forall>i \<in> set (it_ids ix). valid_index (it_ids t) i \<Longrightarrow> it_ctx ix = it_ctx t \<Longrightarrow>
    gather_ids t ix = Inr (t\<lparr>it_ids := map (\<lambda>i. it_ids t ! nat i) (it_ids ix)\<rparr>)"
  by (simp add: gather_ids_def gather_row_valid)

lemma chain_compose:
  assumes "\<forall>i \<in> set a. valid_index xs i" and "\<forall>i \<in> set b. valid_index (map (\<lambda>i. xs ! nat i) a) i"
  shows "\<forall>i \<in> set b. valid_index a i" and "\<forall>i \<in> set (map (\<lambda>i. a ! nat i) b). valid_index xs i"
    and "map (\<lambda>i. map (\<lambda>i. xs ! nat i) a ! nat i) b = map (\<lambda>i. xs ! nat i) (map (\<lambda>i. a ! nat i) b)"
proof -
  show v: "\<forall>i \<in> set b. valid_index a i" using assms(2) by (simp add: valid_index_def)
  then have "a ! nat i \<in> set a" if "i \<in> set b" for i using that by (auto simp: valid_index_def intro: nth_mem)
  then show "\<forall>i \<in> set (map (\<lambda>i. a ! nat i) b). valid_index xs i" using assms(1) by simp
  show "map (\<lambda>i. map (\<lambda>i. xs ! nat i) a ! nat i) b = map (\<lambda>i. xs ! nat i) (map (\<lambda>i. a ! nat i) b)"
    using v by (auto simp: valid_index_def)
qed

lemma flatten_chain:
  assumes "chain_rows xs (map it_ids (first # ixs)) = Some rows" and "\<forall>ix \<in> set (first # ixs). device_ok (it_ctx ix)"
  shows "\<exists>ix. lazy_flatten (first # ixs) = Inr ix \<and> it_ctx ix = it_ctx first \<and>
    (\<forall>i \<in> set (it_ids ix). valid_index xs i) \<and> map (\<lambda>i. xs ! nat i) (it_ids ix) = rows"
  using assms
proof (induction ixs arbitrary: first)
  case Nil
  then show ?case by (auto simp: lazy_flatten_def py_index_nth split: if_splits)
next
  case (Cons b ixs)
  let ?next = "first\<lparr>it_ids := map (\<lambda>i. it_ids first ! nat i) (it_ids b)\<rparr>"
  have v: "\<forall>i \<in> set (it_ids first). valid_index xs i"
    "\<forall>i \<in> set (it_ids b). valid_index (map (\<lambda>i. xs ! nat i) (it_ids first)) i"
    using Cons.prems(1) by (simp_all split: if_splits)
  note c = chain_compose [OF v]
  have step: "rbind (if it_ctx b \<noteq> it_ctx first then copy_ids_to b (it_ctx first) else Inr b) (gather_ids first) = Inr ?next"
    using Cons.prems(2) c(1) by (cases "it_ctx b = it_ctx first") (simp_all add: copy_ids_to_def gather_ids_valid)
  have "chain_rows xs (map it_ids (?next # ixs)) = Some rows"
    using Cons.prems(1) v c(2,3) by simp
  from Cons.IH [OF this] Cons.prems(2) obtain ix where "lazy_flatten (?next # ixs) = Inr ix" "it_ctx ix = it_ctx first"
    "\<forall>i \<in> set (it_ids ix). valid_index xs i" "map (\<lambda>i. xs ! nat i) (it_ids ix) = rows" by auto
  then show ?case using step by (simp add: lazy_flatten_def py_index_nth)
qed

lemma apply_index_holds:
  assumes L: "frame_laws L" and st: "cl_storage c = Some t" and ne: "cl_index c \<noteq> Some (Lazy_index [])"
    and rows: "chain_rows (ft_rows t) (map it_ids (index_list c)) = Some rows" and dev: "column_devices_ok c"
  shows "apply_index L c = Inr (c\<lparr>cl_storage := Some (t\<lparr>ft_rows := rows, ft_ctx := column_ctx L (c\<lparr>cl_device := None\<rparr>)\<rparr>), cl_index := None\<rparr>)"
proof (cases "index_list c")
  case Nil
  then have "cl_index c = None" using ne by (auto simp: index_list_def split: option.splits col_index.splits)
  moreover have "t\<lparr>ft_rows := rows, ft_ctx := ft_ctx t\<rparr> = t" "c\<lparr>cl_storage := Some t, cl_index := None\<rparr> = c"
    using rows Nil st calculation by simp_all
  ultimately show ?thesis using Nil st by (simp add: apply_index_def column_ctx_def index_list_def)
next
  case (Cons first ixs)
  obtain index where index: "cl_index c = Some index" using Cons by (auto simp: index_list_def split: option.splits)
  have ok: "\<forall>ix \<in> set (first # ixs). device_ok (it_ctx ix)" "device_ok (ft_ctx t)"
    using dev st Cons by (simp_all add: column_devices_ok_def)
  from flatten_chain [OF rows [unfolded Cons] ok(1)] obtain ix where ix: "lazy_flatten (first # ixs) = Inr ix"
    "it_ctx ix = it_ctx first" "\<forall>i \<in> set (it_ids ix). valid_index (ft_rows t) i" "map (\<lambda>i. ft_rows t ! nat i) (it_ids ix) = rows"
    by blast
  have flat: "(case index of Lazy_index ixs \<Rightarrow> lazy_flatten ixs | Index ix \<Rightarrow> Inr ix) = Inr ix"
    using ix(1) Cons index by (cases index) (auto simp: index_list_def lazy_flatten_def py_index_nth)
  let ?ctx = "if ft_ctx t \<noteq> it_ctx first \<and> ft_ctx t = Cpu \<and> fl_is_pinned L t then it_ctx first else ft_ctx t"
  have "(if ft_ctx t \<noteq> it_ctx ix \<and> ft_ctx t = Cpu \<and> fl_is_pinned L t then fl_gather_pinned L t ix
      else rbind (if ft_ctx t \<noteq> it_ctx ix then copy_ids_to ix (ft_ctx t) else Inr ix) (gather_tensor t)) =
    Inr (t\<lparr>ft_rows := rows, ft_ctx := ?ctx\<rparr>)"
    using L ok(2) ix(2-4) by (auto simp: frame_laws_def copy_ids_to_def gather_tensor_valid)
  moreover have "column_ctx L (c\<lparr>cl_device := None\<rparr>) = ?ctx" using st Cons by (simp add: column_ctx_def index_list_def)
  ultimately show ?thesis using st index flat by (simp add: apply_index_def)
qed

lemma no_device: "cl_device c = None \<Longrightarrow> c\<lparr>cl_device := None\<rparr> = c"
  "cl_device c = None \<Longrightarrow> c\<lparr>cl_storage := t, cl_index := x, cl_device := None\<rparr> = c\<lparr>cl_storage := t, cl_index := x\<rparr>"
  by (cases c; simp)+

lemma no_dtype: "cl_deferred_dtype c = None \<Longrightarrow>
    c\<lparr>cl_storage := t, cl_index := x, cl_device := d, cl_deferred_dtype := None\<rparr> = c\<lparr>cl_storage := t, cl_index := x, cl_device := d\<rparr>"
  by (cases c) simp

lemma column_tensor_holds:
  assumes L: "frame_laws L" and holds: "column_holds L c v"
  shows "\<exists>t. column_tensor L c = Inr (t, c\<lparr>cl_storage := Some t, cl_index := None, cl_device := None, cl_deferred_dtype := None\<rparr>) \<and>
    tensor_content t = v \<and> ft_ctx t = column_ctx L c \<and> device_ok (ft_ctx t)"
proof -
  obtain t rows where st: "cl_storage c = Some t" and ne: "cl_index c \<noteq> Some (Lazy_index [])"
    and rows: "chain_rows (ft_rows t) (map it_ids (index_list c)) = Some rows"
    and v: "v = (case cl_deferred_dtype c of None \<Rightarrow> id | Some ty \<Rightarrow> convert_rows L ty) (ft_dtype t, ft_dims t, rows)"
    using holds by (auto simp: column_holds_def column_content_def split: option.splits if_splits)
  have dev: "column_devices_ok c" using holds by (simp add: column_holds_def)
  note idx = apply_index_holds [OF L st ne rows dev]
  let ?t1 = "t\<lparr>ft_rows := rows, ft_ctx := column_ctx L (c\<lparr>cl_device := None\<rparr>)\<rparr>"
  let ?t2 = "?t1\<lparr>ft_ctx := column_ctx L c\<rparr>"
  let ?c2 = "c\<lparr>cl_storage := Some ?t2, cl_index := None, cl_device := None\<rparr>"
  have "apply_device (c\<lparr>cl_storage := Some ?t1, cl_index := None\<rparr>) = Inr ?c2"
  proof (cases "cl_device c")
    case None
    then show ?thesis by (simp add: apply_device_def no_device)
  next
    case (Some d)
    then show ?thesis using dev by (cases d) (simp add: apply_device_def column_ctx_def copy_to_def column_devices_ok_def)
  qed
  moreover have ok: "device_ok (column_ctx L c)"
    using dev st by (auto simp: column_ctx_def column_devices_ok_def split: option.splits list.splits)
  ultimately show ?thesis
    using idx v ok
    by (cases "cl_deferred_dtype c")
      (auto simp: column_tensor_def column_data_def apply_dtype_def tensor_content_def astype_tensor_def no_dtype)
qed

text \<open>A column that has been read, or whose data has been set.\<close>

lemma holds_read:
  "cl_storage c = Some t \<Longrightarrow> cl_index c = None \<Longrightarrow> cl_device c = None \<Longrightarrow> cl_deferred_dtype c = None \<Longrightarrow>
    column_holds L c v \<longleftrightarrow> v = tensor_content t \<and> device_ok (ft_ctx t)"
  by (auto simp: column_holds_def column_content_def column_devices_ok_def index_list_def tensor_content_def)

lemma tensor_of_content: "tensor_content t = v \<Longrightarrow> length (ft_rows t) = length (content_rows v) \<and> ft_dtype t = fst v"
  by (auto simp: tensor_content_def)

lemma chain_length: "chain_rows xs (ids @ [js]) = Some rows \<Longrightarrow> length rows = length js"
proof (induction ids arbitrary: xs)
  case (Cons a ids)
  then show ?case by (simp split: if_splits)
qed (auto split: if_splits)

lemma map_last_split: "xs \<noteq> [] \<Longrightarrow> map f xs = map f (butlast xs) @ [f (last xs)]"
  by (induction xs) auto

lemma column_len_holds:
  assumes "column_holds L c v"
  shows "column_len c = Inr (int (length (content_rows v)))"
proof -
  obtain t rows where st: "cl_storage c = Some t" and ne: "cl_index c \<noteq> Some (Lazy_index [])"
    and rows: "chain_rows (ft_rows t) (map it_ids (index_list c)) = Some rows"
    and v: "v = (case cl_deferred_dtype c of None \<Rightarrow> id | Some ty \<Rightarrow> convert_rows L ty) (ft_dtype t, ft_dims t, rows)"
    using assms by (auto simp: column_holds_def column_content_def split: option.splits if_splits)
  have len: "length (content_rows v) = length rows" unfolding v by (cases "cl_deferred_dtype c") simp_all
  show ?thesis
  proof (cases "cl_index c")
    case None
    then show ?thesis using st rows len by (simp add: column_len_def index_list_def)
  next
    case (Some index)
    show ?thesis
    proof (cases index)
      case (Index ix)
      then show ?thesis using Some rows len by (auto simp: column_len_def index_list_def split: if_splits)
    next
      case (Lazy_index ixs)
      then have "ixs \<noteq> []" using Some ne by simp
      then have "map it_ids ixs = map it_ids (butlast ixs) @ [it_ids (last ixs)]"
        by (rule map_last_split)
      moreover have "index_list c = ixs" using Some Lazy_index by (simp add: index_list_def)
      ultimately have "length rows = length (it_ids (last ixs))"
        using rows chain_length [of "ft_rows t" "map it_ids (butlast ixs)"] by simp
      then show ?thesis using Some Lazy_index len \<open>ixs \<noteq> []\<close>
        by (simp add: column_len_def lazy_len_def py_index_last)
    qed
  qed
qed

lemma column_dtype_holds:
  assumes "column_holds L c v"
  shows "column_dtype c = Inr (fst v)"
  using assms
  by (auto simp: column_holds_def column_content_def column_dtype_def split: option.splits if_splits)

definition column_same :: "'v frame_lib \<Rightarrow> 'v column \<Rightarrow> 'v column \<Rightarrow> bool" where
  "column_same L c d \<longleftrightarrow> cl_scheme d = cl_scheme c \<and> cl_pinned_by_dgl d = cl_pinned_by_dgl c \<and>
     (\<forall>v. column_holds L c v \<longrightarrow> column_holds L d v)"

text \<open>The tensor that reading returns.\<close>

definition column_denotes :: "'v frame_lib \<Rightarrow> 'v column \<Rightarrow> 'v ftensor \<Rightarrow> bool" where
  "column_denotes L c t \<longleftrightarrow> frame_laws L \<and> column_holds L c (tensor_content t) \<and> ft_ctx t = column_ctx L c"

lemma ftensor_eqI: "tensor_content s = tensor_content t \<Longrightarrow> ft_ctx s = ft_ctx t \<Longrightarrow> s = (t :: 'v ftensor)"
  by (cases s; cases t) (simp add: tensor_content_def)

interpretation column_value: lazy_value "column_denotes L" "column_same L" "column_tensor L" for L
proof unfold_locales
  fix c t
  assume den: "column_denotes L c t"
  then have asm: "frame_laws L" "column_holds L c (tensor_content t)" by (simp_all add: column_denotes_def)
  let ?d = "c\<lparr>cl_storage := Some t, cl_index := None, cl_device := None, cl_deferred_dtype := None\<rparr>"
  obtain s where s: "column_tensor L c = Inr (s, c\<lparr>cl_storage := Some s, cl_index := None, cl_device := None, cl_deferred_dtype := None\<rparr>)"
    "tensor_content s = tensor_content t" "ft_ctx s = column_ctx L c" "device_ok (ft_ctx s)"
    using column_tensor_holds [OF asm] by blast
  have "s = t" using s den by (intro ftensor_eqI) (simp_all add: column_denotes_def)
  with s have t: "column_tensor L c = Inr (t, ?d)" "device_ok (ft_ctx t)" by simp_all
  have d: "column_holds L ?d (tensor_content t)" using t holds_read [of ?d t L] by simp
  then have den: "column_denotes L ?d t" using asm by (simp add: column_denotes_def column_ctx_def index_list_def)
  have only: "w = tensor_content t" if "column_holds L c w" for w using that asm by (simp add: column_holds_def)
  have "column_same L c ?d" using d only by (auto simp: column_same_def)
  then show "\<exists>c'. column_tensor L c = Inr (t, c') \<and> column_denotes L c' t \<and> column_same L c c'"
    using t den by blast
qed (auto simp: column_same_def)

lemma column_denotesI:
  assumes "frame_laws L" and "column_holds L c v"
  obtains t where "column_denotes L c t" and "tensor_content t = v"
  using column_tensor_holds [OF assms] assms by (auto simp: column_denotes_def)

section \<open>Operations\<close>

datatype col_op = Op_sub itensor | Op_to device copy_kwargs | Op_astype feat_dtype | Op_clone | Op_read | Op_pickle

fun col_step :: "'v frame_lib \<Rightarrow> col_op \<Rightarrow> 'v column \<Rightarrow> 'v column res" where
  "col_step L (Op_sub ix) c = column_subcolumn ix c"
| "col_step L (Op_to ctx kwargs) c = column_to ctx kwargs c"
| "col_step L (Op_astype ty) c = column_astype L ty c"
| "col_step L Op_clone c = column_clone c"
| "col_step L Op_read c = rbind (column_tensor L c) (\<lambda>(t, c). Inr c)"
| "col_step L Op_pickle c = rbind (column_getstate L c) (\<lambda>(state, c). column_setstate state)"

fun eager_step :: "'v frame_lib \<Rightarrow> col_op \<Rightarrow> 'v content \<Rightarrow> 'v content" where
  "eager_step L (Op_sub ix) v = pick_rows (it_ids ix) v"
| "eager_step L (Op_astype ty) v = convert_rows L ty v"
| "eager_step L _ v = v"

fun op_ok :: "col_op \<Rightarrow> 'v content \<Rightarrow> bool" where
  "op_ok (Op_sub ix) v \<longleftrightarrow> device_ok (it_ctx ix) \<and> (\<forall>i \<in> set (it_ids ix). valid_index (content_rows v) i)"
| "op_ok (Op_to ctx kwargs) v \<longleftrightarrow> device_ok ctx"
| "op_ok _ v \<longleftrightarrow> True"

lemma chain_snoc:
  "chain_rows xs (ids @ [js]) = (case chain_rows xs ids of None \<Rightarrow> None
    | Some ys \<Rightarrow> if \<forall>i \<in> set js. valid_index ys i then Some (map (\<lambda>i. ys ! nat i) js) else None)"
  by (induction xs ids rule: chain_rows.induct) auto

lemma convert_pick:
  "\<forall>i \<in> set ids. valid_index (content_rows v) i \<Longrightarrow> convert_rows L ty (pick_rows ids v) = pick_rows ids (convert_rows L ty v)"
  by (cases v) (auto simp: valid_index_def)

lemma content_rows_convert [simp]: "length (content_rows (convert_rows L ty v)) = length (content_rows v)"
  by (cases v) simp

lemma lazy_slice_chain:
  assumes "chain_rows xs (map it_ids ixs) = Some rows" and "ixs \<noteq> []" and "\<forall>i \<in> set (it_ids ix). valid_index rows i"
  shows "\<exists>ixs'. lazy_slice ixs ix = Inr ixs' \<and> ixs' \<noteq> [] \<and> chain_rows xs (map it_ids ixs') = Some (map (\<lambda>i. rows ! nat i) (it_ids ix)) \<and>
    it_ctx ` set ixs' \<subseteq> insert (it_ctx ix) (it_ctx ` set ixs)"
proof -
  let ?last = "last ixs"
  show ?thesis
  proof (cases "it_ctx ?last = it_ctx ix")
    case True
    have "map it_ids ixs = map it_ids (butlast ixs) @ [it_ids ?last]" using assms(2) by (rule map_last_split)
    with assms(1) obtain ys where ys: "chain_rows xs (map it_ids (butlast ixs)) = Some ys" "\<forall>i \<in> set (it_ids ?last). valid_index ys i"
      "rows = map (\<lambda>i. ys ! nat i) (it_ids ?last)"
      by (auto simp: chain_snoc split: option.splits if_splits)
    note c = chain_compose [OF ys(2) assms(3) [unfolded ys(3)]]
    let ?new = "?last\<lparr>it_ids := map (\<lambda>i. it_ids ?last ! nat i) (it_ids ix)\<rparr>"
    have "lazy_slice ixs ix = Inr (butlast ixs @ [?new])"
      using True c(1) assms(2) by (simp add: lazy_slice_def py_index_last gather_ids_valid)
    moreover have "chain_rows xs (map it_ids (butlast ixs @ [?new])) = Some (map (\<lambda>i. rows ! nat i) (it_ids ix))"
      using ys c by (simp add: chain_snoc)
    moreover have "it_ctx ` set (butlast ixs @ [?new]) \<subseteq> insert (it_ctx ix) (it_ctx ` set ixs)"
      using True by (auto dest: in_set_butlastD)
    ultimately show ?thesis by blast
  next
    case False
    then show ?thesis using assms by (auto simp: lazy_slice_def py_index_last chain_snoc)
  qed
qed

lemma column_holdsE:
  assumes "column_holds L c v"
  obtains t rows where "cl_storage c = Some t" and "cl_index c \<noteq> Some (Lazy_index [])"
    and "chain_rows (ft_rows t) (map it_ids (index_list c)) = Some rows" and "column_devices_ok c"
    and "v = (case cl_deferred_dtype c of None \<Rightarrow> id | Some ty \<Rightarrow> convert_rows L ty) (ft_dtype t, ft_dims t, rows)"
  using assms by (auto simp: column_holds_def column_content_def split: option.splits if_splits)

lemma column_clone_eq:
  "column_clone c = Inr (c\<lparr>cl_pinned_by_dgl := False, cl_data_nd := None\<rparr>)"
  by (cases c) (simp add: column_clone_def column_init_def)

lemma holds_pin [simp]: "column_holds L (c\<lparr>cl_pinned_by_dgl := b, cl_data_nd := n\<rparr>) v = column_holds L c v"
  by (cases "cl_storage c") (simp_all add: column_holds_def column_content_def column_devices_ok_def index_list_def)

lemma subcolumn_holds:
  assumes "column_holds L c v" and "op_ok (Op_sub ix) v"
  shows "\<exists>c'. column_subcolumn ix c = Inr c' \<and> cl_scheme c' = cl_scheme c \<and> column_holds L c' (pick_rows (it_ids ix) v)"
proof -
  obtain t rows where st: "cl_storage c = Some t" and ne: "cl_index c \<noteq> Some (Lazy_index [])"
    and rows: "chain_rows (ft_rows t) (map it_ids (index_list c)) = Some rows" and dev: "column_devices_ok c"
    and v: "v = (case cl_deferred_dtype c of None \<Rightarrow> id | Some ty \<Rightarrow> convert_rows L ty) (ft_dtype t, ft_dims t, rows)"
    using assms(1) by (rule column_holdsE)
  have len: "length (content_rows v) = length rows" unfolding v by (cases "cl_deferred_dtype c") simp_all
  then have valid: "\<forall>i \<in> set (it_ids ix). valid_index rows i" using assms(2) by (simp add: valid_index_def)
  obtain ixs where ixs: "chain_rows (ft_rows t) (map it_ids ixs) = Some (map (\<lambda>i. rows ! nat i) (it_ids ix))"
    "ixs \<noteq> []" "it_ctx ` set ixs \<subseteq> insert (it_ctx ix) (it_ctx ` set (index_list c))"
    "\<exists>index. index \<noteq> Lazy_index [] \<and> column_subcolumn ix c = column_init (cl_storage c) (Some (cl_scheme c)) (Some index) (cl_device c) (cl_deferred_dtype c) \<and>
      (case index of Index i \<Rightarrow> [i] | Lazy_index is \<Rightarrow> is) = ixs"
  proof (cases "cl_index c")
    case None
    then have "ft_rows t = rows" using rows by (simp add: index_list_def)
    then show ?thesis using None valid by (intro that [of "[ix]"]) (auto simp: column_subcolumn_def)
  next
    case (Some index)
    have list: "index_list c = (case index of Index ix \<Rightarrow> [ix] | Lazy_index ixs \<Rightarrow> ixs)"
      using Some by (simp add: index_list_def split: col_index.split)
    have "index_list c \<noteq> []" using ne Some by (cases index) (auto simp: index_list_def)
    from lazy_slice_chain [OF rows this valid] obtain ixs where s: "lazy_slice (index_list c) ix = Inr ixs" "ixs \<noteq> []"
      "chain_rows (ft_rows t) (map it_ids ixs) = Some (map (\<lambda>i. rows ! nat i) (it_ids ix))"
      "it_ctx ` set ixs \<subseteq> insert (it_ctx ix) (it_ctx ` set (index_list c))" by blast
    then show ?thesis using Some list by (intro that [of ixs]) (auto simp: column_subcolumn_def)
  qed
  then obtain index where index: "index \<noteq> Lazy_index []" "(case index of Index i \<Rightarrow> [i] | Lazy_index is \<Rightarrow> is) = ixs"
    "column_subcolumn ix c = column_init (cl_storage c) (Some (cl_scheme c)) (Some index) (cl_device c) (cl_deferred_dtype c)"
    by blast
  let ?c = "\<lparr>cl_storage = cl_storage c, cl_scheme = cl_scheme c, cl_index = Some index, cl_device = cl_device c,
      cl_deferred_dtype = cl_deferred_dtype c, cl_pinned_by_dgl = False, cl_data_nd = None\<rparr>"
  have run: "column_subcolumn ix c = Inr ?c" using index(3) by (simp add: column_init_def)
  have list: "index_list ?c = ixs" using index(2) by (simp add: index_list_def split: col_index.splits)
  have "column_devices_ok ?c" using dev st ixs(3) assms(2) list by (auto simp: column_devices_ok_def)
  moreover have "column_content L ?c = Some (pick_rows (it_ids ix) v)"
    using st list ixs(1) index(1) v valid
    by (cases "cl_deferred_dtype c") (auto simp: column_content_def valid_index_def)
  ultimately show ?thesis using run by (intro exI [of _ ?c]) (simp add: column_holds_def)
qed

lemma to_holds:
  assumes "column_holds L c v" and "device_ok ctx"
  shows "\<exists>c'. column_to ctx kwargs c = Inr c' \<and> column_holds L c' v"
proof -
  obtain t rows where "cl_storage c = Some t" "cl_index c \<noteq> Some (Lazy_index [])"
    "chain_rows (ft_rows t) (map it_ids (index_list c)) = Some rows" "column_devices_ok c"
    "v = (case cl_deferred_dtype c of None \<Rightarrow> id | Some ty \<Rightarrow> convert_rows L ty) (ft_dtype t, ft_dims t, rows)"
    using assms(1) by (rule column_holdsE)
  moreover have "index_list (c\<lparr>cl_pinned_by_dgl := False, cl_data_nd := None, cl_device := Some (ctx, kwargs)\<rparr>) = index_list c"
    by (simp add: index_list_def)
  ultimately show ?thesis using assms(2)
    by (simp add: column_to_def column_clone_eq column_holds_def column_content_def column_devices_ok_def)
qed

lemma astype_content: "tensor_content (astype_tensor L t ty) = convert_rows L ty (tensor_content t)"
  by (simp add: astype_tensor_def tensor_content_def)

lemma astype_ctx [simp]: "ft_ctx (astype_tensor L t ty) = ft_ctx t"
  by (simp add: astype_tensor_def)

lemma convert_own: "convert_rows L (fst v) v = v"
  by (cases v) simp

lemma astype_holds:
  assumes L: "frame_laws L" and holds: "column_holds L c v"
  shows "\<exists>c'. column_astype L ty c = Inr c' \<and> cl_scheme c' = cl_scheme c \<and> column_holds L c' (convert_rows L ty v)"
proof -
  let ?col = "c\<lparr>cl_pinned_by_dgl := False, cl_data_nd := None\<rparr>"
  have col: "column_holds L ?col v" using holds by simp
  note dtype = column_dtype_holds [OF col]
  show ?thesis
  proof (cases "fst v = ty")
    case True
    then show ?thesis using col dtype convert_own [of L v] by (simp add: column_astype_def column_clone_eq)
  next
    case ne: False
    show ?thesis
    proof (cases "cl_deferred_dtype c")
      case None
      obtain t rows where st: "cl_storage c = Some t" and i: "cl_index c \<noteq> Some (Lazy_index [])"
        and rows: "chain_rows (ft_rows t) (map it_ids (index_list c)) = Some rows" and dev: "column_devices_ok c"
        and v: "v = (ft_dtype t, ft_dims t, rows)"
        using holds None by (rule_tac column_holdsE [OF holds]) auto
      show ?thesis
      proof (cases "cl_device c = None \<and> cl_index c = None")
        case True
        let ?c = "?col\<lparr>cl_storage := Some (astype_tensor L t ty)\<rparr>"
        have "column_astype L ty c = Inr ?c"
          using True None ne st dtype by (simp add: column_astype_def column_clone_eq)
        moreover have "rows = ft_rows t" using True rows by (simp add: index_list_def)
        then have "column_holds L ?c (convert_rows L ty v)"
          using True None dev st v astype_content [of L t ty] holds_read [of ?c "astype_tensor L t ty" L]
          by (simp add: column_devices_ok_def tensor_content_def)
        ultimately show ?thesis by (intro exI [of _ ?c]) simp
      next
        case False
        let ?c = "?col\<lparr>cl_deferred_dtype := Some ty\<rparr>"
        have "column_astype L ty c = Inr ?c" using False None ne dtype by (auto simp: column_astype_def column_clone_eq)
        moreover have "column_holds L ?c (convert_rows L ty v)"
          using st i rows dev v by (simp add: column_holds_def column_content_def column_devices_ok_def index_list_def)
        ultimately show ?thesis by (intro exI [of _ ?c]) simp
      qed
    next
      case (Some ty0)
      obtain t where t: "column_tensor L ?col = Inr (t, ?col\<lparr>cl_storage := Some t, cl_index := None, cl_device := None, cl_deferred_dtype := None\<rparr>)"
        "tensor_content t = v" "device_ok (ft_ctx t)"
        using column_tensor_holds [OF L col] by blast
      then have data: "column_data L ?col = Inr (Some t, ?col\<lparr>cl_storage := Some t, cl_index := None, cl_device := None, cl_deferred_dtype := None\<rparr>)"
        by (auto simp: column_tensor_def rbind_eq_Inr split: option.splits)
      let ?c = "?col\<lparr>cl_storage := Some (astype_tensor L t ty), cl_index := None, cl_device := None, cl_deferred_dtype := None\<rparr>"
      have "column_astype L ty c = Inr ?c" using Some ne dtype data by (simp add: column_astype_def column_clone_eq)
      moreover have "column_holds L ?c (convert_rows L ty v)"
        using t astype_content [of L t ty] holds_read [of ?c "astype_tensor L t ty" L] by simp
      ultimately show ?thesis by (intro exI [of _ ?c]) simp
    qed
  qed
qed

lemma pickle_holds:
  assumes L: "frame_laws L" and holds: "column_holds L c v"
  shows "\<exists>state c1 c2. column_getstate L c = Inr (state, c1) \<and> column_setstate state = Inr c2 \<and>
    column_holds L c1 v \<and> column_holds L c2 v \<and> cl_scheme c2 = cl_scheme c"
proof -
  obtain t where t: "column_tensor L c = Inr (t, c\<lparr>cl_storage := Some t, cl_index := None, cl_device := None, cl_deferred_dtype := None\<rparr>)"
    "tensor_content t = v" "device_ok (ft_ctx t)"
    using column_tensor_holds [OF L holds] by blast
  let ?c = "c\<lparr>cl_storage := Some t, cl_index := None, cl_device := None, cl_deferred_dtype := None\<rparr>"
  have data: "column_data L c = Inr (Some t, ?c)"
    using t(1) by (auto simp: column_tensor_def rbind_eq_Inr split: option.splits)
  have st: "cl_storage c \<noteq> None" using column_holdsE [OF holds] by (metis option.distinct(1))
  let ?s = "?c\<lparr>cl_data_nd := None, cl_pinned_by_dgl := False\<rparr>"
  have "column_getstate L c = Inr (?s, ?c)" using st data by (auto simp: column_getstate_def)
  moreover have "column_setstate ?s = Inr ?s" by (cases c) (simp add: column_setstate_def column_init_def)
  moreover have "column_holds L ?c v" "column_holds L ?s v" using t holds_read [of ?c t L] holds_read [of ?s t L] by simp_all
  ultimately show ?thesis by (intro exI [of _ ?s] exI [of _ ?c]) simp
qed

lemma col_step_holds:
  assumes "frame_laws L" and "column_holds L c v" and "op_ok op v"
  shows "\<exists>c'. col_step L op c = Inr c' \<and> column_holds L c' (eager_step L op v)"
proof (cases op)
  case (Op_sub ix)
  then show ?thesis using subcolumn_holds [OF assms(2), of ix] assms(3) by auto
next
  case (Op_to ctx kwargs)
  then show ?thesis using to_holds [OF assms(2)] assms(3) by simp
next
  case (Op_astype ty)
  then show ?thesis using astype_holds [OF assms(1,2), of ty] by auto
next
  case Op_clone
  then show ?thesis using assms(2) by (simp add: column_clone_eq)
next
  case Op_read
  from column_denotesI [OF assms(1,2)] obtain t where t: "column_denotes L c t" "tensor_content t = v" .
  from column_value.readE [OF t(1)] obtain c' where "column_tensor L c = Inr (t, c')" "column_denotes L c' t" .
  then show ?thesis using Op_read t by (auto simp: column_denotes_def)
next
  case Op_pickle
  then show ?thesis using pickle_holds [OF assms(1,2)] by auto
qed

fun ops_ok :: "'v frame_lib \<Rightarrow> col_op list \<Rightarrow> 'v content \<Rightarrow> bool" where
  "ops_ok L [] v \<longleftrightarrow> True"
| "ops_ok L (op # ops) v \<longleftrightarrow> op_ok op v \<and> ops_ok L ops (eager_step L op v)"

lemma col_steps_hold:
  "frame_laws L \<Longrightarrow> column_holds L c v \<Longrightarrow> ops_ok L ops v \<Longrightarrow>
    \<exists>c'. rfold (\<lambda>c op. col_step L op c) c ops = Inr c' \<and> column_holds L c' (fold (eager_step L) ops v)"
proof (induction ops arbitrary: c v)
  case (Cons op ops)
  then obtain d where d: "col_step L op c = Inr d" "column_holds L d (eager_step L op v)"
    using col_step_holds by (metis ops_ok.simps(2))
  from Cons.IH [OF Cons.prems(1) d(2)] Cons.prems(3) d(1) show ?case by simp
qed simp


definition example_frame_lib :: "int frame_lib" where
  "example_frame_lib =
     \<lparr>fl_cast = (\<lambda>a b x. x), fl_result_type = (\<lambda>a b. a), fl_is_pinned = (\<lambda>t. True), fl_pin = (\<lambda>t. Inr ()),
      fl_gather_pinned = (\<lambda>t ix. Inr (t\<lparr>ft_rows := map (\<lambda>i. ft_rows t ! nat i) (it_ids ix), ft_ctx := it_ctx ix\<rparr>)),
      fl_zero = (\<lambda>dims ty. 0),
      fl_init = (\<lambda>k n dims ty ctx range. if n < 0 then Inl RuntimeError else Inr \<lparr>ft_dtype = ty, ft_dims = dims, ft_rows = replicate (nat n) (int k), ft_ctx = ctx\<rparr>)\<rparr>"

lemma example_frame_laws: "frame_laws example_frame_lib"
  by (simp add: frame_laws_def example_frame_lib_def)

definition example_tensor_of :: "int list \<Rightarrow> int ftensor" where
  "example_tensor_of rows = \<lparr>ft_dtype = Float32, ft_dims = [], ft_rows = rows, ft_ctx = Cpu\<rparr>"

definition example_column :: "int list \<Rightarrow> int column" where
  "example_column rows =
     \<lparr>cl_storage = Some (example_tensor_of rows), cl_scheme = infer_scheme (example_tensor_of rows), cl_index = None,
      cl_device = None, cl_deferred_dtype = None, cl_pinned_by_dgl = False, cl_data_nd = None\<rparr>"

lemma example_column_holds: "column_holds example_frame_lib (example_column rows) (Float32, [], rows)"
  using holds_read [of "example_column rows" "example_tensor_of rows" example_frame_lib "(Float32, [], rows)"]
  by (simp add: example_column_def example_tensor_of_def tensor_content_def)


section \<open>Converted columns\<close>

text \<open>The scheme of a column keeps its type when the column is converted: no update of the converted
  column succeeds. Rows of the new type are refused by the test of the scheme, rows of the old type
  by PyTorch.\<close>

theorem astype_blocks_update:
  assumes "frame_laws L" and "column_holds L c v" and "cs_dtype (cl_scheme c) = fst v" and "ty \<noteq> fst v"
  shows "\<exists>c'. column_astype L ty c = Inr c' \<and> column_dtype c' = Inr ty \<and>
    (\<forall>rowids feats. column_update L rowids feats c' = Inl (if infer_scheme feats = cl_scheme c then RuntimeError else DGLError))"
proof -
  obtain c' where c': "column_astype L ty c = Inr c'" "cl_scheme c' = cl_scheme c" "column_holds L c' (convert_rows L ty v)"
    using astype_holds [OF assms(1,2)] by blast
  obtain t where t: "column_tensor L c' = Inr (t, c'\<lparr>cl_storage := Some t, cl_index := None, cl_device := None, cl_deferred_dtype := None\<rparr>)"
    "tensor_content t = convert_rows L ty v"
    using column_tensor_holds [OF assms(1) c'(3)] by blast
  have ty: "ft_dtype t = ty" using t(2) by (cases v) (simp add: tensor_content_def)
  have "column_update L rowids feats c' = Inl RuntimeError" if "infer_scheme feats = cl_scheme c" for rowids feats
  proof -
    have "ft_dtype feats = fst v" using arg_cong [OF that, of cs_dtype] assms(3) by (simp add: infer_scheme_def)
    then show ?thesis using that c'(2) t(1) ty assms(4) by (simp add: column_update_def scatter_tensor_def)
  qed
  moreover have "column_update L rowids feats c' = Inl DGLError" if "infer_scheme feats \<noteq> cl_scheme c" for rowids feats
    using that c'(2) by (simp add: column_update_def)
  moreover have "column_dtype c' = Inr ty" using column_dtype_holds [OF c'(3)] by (cases v) simp
  ultimately show ?thesis using c'(1) by (intro exI [of _ c']) simp
qed

theorem astype_blocks_update_witness:
  "\<exists>c'. column_astype example_frame_lib Float16 (example_column [1, 2]) = Inr c' \<and>
    column_update example_frame_lib \<lparr>it_ids = [0], it_ctx = Cpu\<rparr>
      \<lparr>ft_dtype = Float16, ft_dims = [], ft_rows = [5], ft_ctx = Cpu\<rparr> c' = Inl DGLError"
proof -
  let ?f = "\<lparr>ft_dtype = Float16, ft_dims = [], ft_rows = [5], ft_ctx = Cpu\<rparr> :: int ftensor"
  have c: "cs_dtype (cl_scheme (example_column [1, 2])) = fst (Float32, [] :: int list, [1, 2 :: int])"
    "Float16 \<noteq> fst (Float32, [] :: int list, [1, 2 :: int])"
    by (simp_all add: example_column_def infer_scheme_def example_tensor_of_def)
  have f: "infer_scheme ?f \<noteq> cl_scheme (example_column [1, 2])"
    by (simp add: example_column_def infer_scheme_def example_tensor_of_def)
  obtain c' where c': "column_astype example_frame_lib Float16 (example_column [1, 2]) = Inr c'"
    "\<forall>rowids feats. column_update example_frame_lib rowids feats c' =
      Inl (if infer_scheme feats = cl_scheme (example_column [1, 2]) then RuntimeError else DGLError)"
    using astype_blocks_update [OF example_frame_laws example_column_holds c] by blast
  from c'(2) [rule_format, of "\<lparr>it_ids = [0], it_ctx = Cpu\<rparr>" ?f] f
  have "column_update example_frame_lib \<lparr>it_ids = [0], it_ctx = Cpu\<rparr> ?f c' = Inl DGLError" by simp
  with c'(1) show ?thesis by blast
qed

end
