(* ===== verification/FeatLength.thy ===== *)
theory FeatLength
  imports FeatFrame FeatColumnProps
begin

text \<open>
  The lengths of columns: what each operation on a column does to the number of its rows.
\<close>

section \<open>The length of columns\<close>

text \<open>Initialisers and the kernel for pinned memory return as many rows as they are asked for.\<close>

definition size_laws :: "'v frame_lib \<Rightarrow> bool" where
  "size_laws L \<longleftrightarrow>
     (\<forall>t ix t'. fl_gather_pinned L t ix = Inr t' \<longrightarrow> length (ft_rows t') = length (it_ids ix)) \<and>
     (\<forall>k n dims ty ctx r t. fl_init L k n dims ty ctx r = Inr t \<longrightarrow> int (length (ft_rows t)) = n)"

lemma column_len_cong:
  assumes "cl_index c = cl_index d" and "map_option (\<lambda>t. length (ft_rows t)) (cl_storage c) = map_option (\<lambda>t. length (ft_rows t)) (cl_storage d)"
  shows "column_len c = column_len d"
  using assms by (cases "cl_storage c"; cases "cl_storage d"; cases "cl_index d") (simp_all add: column_len_def)

lemma gather_row_length: "gather_row xs ids = Inr ys \<Longrightarrow> length ys = length ids"
  unfolding gather_row_def by (rule rmap_length)

lemma gather_tensor_length: "gather_tensor t ix = Inr t' \<Longrightarrow> length (ft_rows t') = length (it_ids ix)"
  by (auto simp: gather_tensor_def rbind_eq_Inr split: if_splits dest: gather_row_length)

lemma gather_ids_length: "gather_ids t ix = Inr t' \<Longrightarrow> length (it_ids t') = length (it_ids ix)"
  by (auto simp: gather_ids_def rbind_eq_Inr split: if_splits dest: gather_row_length)

lemma copy_ids_length: "copy_ids_to ix ctx = Inr ix' \<Longrightarrow> it_ids ix' = it_ids ix"
  by (auto simp: copy_ids_to_def split: if_splits)

lemma flatten_length:
  "lazy_flatten ixs = Inr ix \<Longrightarrow> lazy_len ixs = Inr (int (length (it_ids ix)))"
proof (cases ixs)
  case (Cons a as)
  have "rfold (\<lambda>flat index. rbind (if it_ctx index \<noteq> it_ctx flat then copy_ids_to index (it_ctx flat) else Inr index) (gather_ids flat)) a as = Inr ix \<Longrightarrow>
      length (it_ids ix) = length (it_ids (last (a # as)))"
  proof (induction as arbitrary: a)
    case (Cons b as)
    let ?step = "\<lambda>flat index. rbind (if it_ctx index \<noteq> it_ctx flat then copy_ids_to index (it_ctx flat) else Inr index) (gather_ids flat)"
    obtain d where d: "?step a b = Inr d" "rfold ?step d as = Inr ix" using Cons.prems by (auto simp: rbind_eq_Inr)
    have "length (it_ids d) = length (it_ids b)"
      using d(1) by (auto simp: rbind_eq_Inr split: if_splits dest!: gather_ids_length copy_ids_length)
    then show ?case using Cons.IH [OF d(2)] by (cases as) simp_all
  qed simp
  moreover assume "lazy_flatten ixs = Inr ix"
  ultimately show ?thesis using Cons by (simp add: lazy_flatten_def lazy_len_def py_index_nth py_index_last)
qed (simp add: lazy_flatten_def py_index_out)

lemma column_data_length:
  assumes L: "size_laws L" and data: "column_data L c = Inr (t, c')" and len: "column_len c = Inr n"
  shows "column_len c' = Inr n" and "t = Some s \<Longrightarrow> int (length (ft_rows s)) = n" and "cl_scheme c' = cl_scheme c"
proof -
  obtain a b where a: "apply_index L c = Inr a" and b: "apply_device a = Inr b" and c': "apply_dtype L b = Inr c'" and t: "t = cl_storage c'"
    using data by (auto simp: column_data_def rbind_eq_Inr)
  have "cl_index a = None \<and> column_len a = Inr n \<and> cl_scheme a = cl_scheme c"
  proof (cases "cl_index c")
    case None
    then show ?thesis using a len by (auto simp: apply_index_def)
  next
    case (Some index)
    obtain ix s u where ix: "(case index of Lazy_index ixs \<Rightarrow> lazy_flatten ixs | Index ix \<Rightarrow> Inr ix) = Inr ix"
      and s: "cl_storage c = Some s" and a': "a = c\<lparr>cl_storage := Some u, cl_index := None\<rparr>"
      and g: "(if ft_ctx s \<noteq> it_ctx ix \<and> ft_ctx s = Cpu \<and> fl_is_pinned L s then fl_gather_pinned L s ix
               else rbind (if ft_ctx s \<noteq> it_ctx ix then copy_ids_to ix (ft_ctx s) else Inr ix) (gather_tensor s)) = Inr u"
      using a Some by (cases "cl_storage c") (auto simp: apply_index_def rbind_eq_Inr)
    have u: "a = c\<lparr>cl_storage := Some u, cl_index := None\<rparr>" "length (ft_rows u) = length (it_ids ix)"
      using g L a' by (auto simp: rbind_eq_Inr size_laws_def split: if_splits dest!: gather_tensor_length copy_ids_length)
    have "n = int (length (it_ids ix))"
      using len Some ix by (cases index) (auto simp: column_len_def dest: flatten_length)
    then show ?thesis using u by (simp add: column_len_def)
  qed
  moreover have "cl_index b = cl_index a \<and> cl_scheme b = cl_scheme a \<and> (cl_index a = None \<longrightarrow> column_len b = column_len a)"
    using b by (auto simp: apply_device_def rbind_eq_Inr copy_to_def column_len_def split: option.splits if_splits)
  moreover have "cl_index c' = cl_index b \<and> cl_scheme c' = cl_scheme b \<and> (cl_index b = None \<longrightarrow> column_len c' = column_len b)"
    using c' by (auto simp: apply_dtype_def column_len_def astype_tensor_def split: option.splits)
  ultimately show "column_len c' = Inr n" "cl_scheme c' = cl_scheme c" "t = Some s \<Longrightarrow> int (length (ft_rows s)) = n"
    using t by (auto simp: column_len_def)
qed

lemma column_tensor_length:
  assumes "size_laws L" and "column_tensor L c = Inr (t, c')" and "column_len c = Inr n"
  shows "column_len c' = Inr n" and "int (length (ft_rows t)) = n" and "cl_scheme c' = cl_scheme c"
proof -
  have "column_data L c = Inr (Some t, c')" using assms(2) by (auto simp: column_tensor_def rbind_eq_Inr split: option.splits)
  from column_data_length [OF assms(1) this assms(3)] show "column_len c' = Inr n" "int (length (ft_rows t)) = n"
    "cl_scheme c' = cl_scheme c" by simp_all
qed

lemma set_data_length [simp]: "column_len (column_set_data t c) = Inr (int (length (ft_rows t)))"
  by (simp add: column_set_data_def column_len_def)

lemma scatter_row_length: "scatter_row xs ids vals = Inr ys \<Longrightarrow> length ys = length xs"
proof -
  have "rfold (\<lambda>ys (i, v). if 0 \<le> i \<and> i < int (length ys) then Inr (ys[nat i := v]) else Inl IndexError) xs zs = Inr ys \<Longrightarrow>
      length ys = length xs" for zs and xs ys :: "'a list"
    by (induction zs arbitrary: xs) (auto split: if_splits)
  then show "scatter_row xs ids vals = Inr ys \<Longrightarrow> length ys = length xs"
    by (auto simp: scatter_row_def split: if_splits)
qed

lemma update_length:
  assumes "size_laws L" and "column_update L ix feats c = Inr c'" and "column_len c = Inr n"
  shows "column_len c' = Inr n"
proof -
  obtain t d u where t: "column_tensor L c = Inr (t, d)" and u: "scatter_tensor t ix feats = Inr u" and c': "c' = column_set_data u d"
    using assms(2) by (auto simp: column_update_def rbind_eq_Inr split: if_splits)
  have "length (ft_rows u) = length (ft_rows t)"
    using u by (auto simp: scatter_tensor_def rbind_eq_Inr split: if_splits dest: scatter_row_length)
  then show ?thesis using c' column_tensor_length [OF assms(1) t assms(3)] by simp
qed

lemma extend_length:
  assumes "size_laws L" and "column_extend L feats s c = Inr c'" and "column_len c = Inr n"
  shows "column_len c' = Inr (n + int (length (ft_rows feats)))"
proof -
  obtain t d u where t: "column_tensor L c = Inr (t, d)" and u: "cat_tensors L t feats = Inr u" and c': "c' = column_set_data u d"
    using assms(2) by (auto simp: column_extend_def Let_def rbind_eq_Inr split: if_splits)
  have "length (ft_rows u) = length (ft_rows t) + length (ft_rows feats)"
    using u by (auto simp: cat_tensors_def Let_def astype_tensor_def split: if_splits)
  then show ?thesis using c' column_tensor_length [OF assms(1) t assms(3)] by simp
qed

lemma clone_length [simp]: "column_clone c = Inr c' \<Longrightarrow> column_len c' = column_len c"
  by (rule column_len_cong) (auto simp: column_clone_eq)

lemma to_length: "column_to ctx kwargs c = Inr c' \<Longrightarrow> column_len c' = column_len c"
  by (rule column_len_cong) (auto simp: column_to_def column_clone_eq)

lemma subcolumn_length: "column_subcolumn ix c = Inr c' \<Longrightarrow> column_len c' = Inr (int (length (it_ids ix)))"
proof -
  have "lazy_len ixs' = Inr (int (length (it_ids ix)))" if "lazy_slice ixs ix = Inr ixs'" for ixs ixs'
    using that by (auto simp: lazy_slice_def lazy_len_def rbind_eq_Inr py_index_last split: if_splits dest: gather_ids_length)
  then show "column_subcolumn ix c = Inr c' \<Longrightarrow> column_len c' = Inr (int (length (it_ids ix)))"
    by (auto simp: column_subcolumn_def column_init_def column_len_def rbind_eq_Inr split: option.splits)
qed

lemma astype_length:
  assumes "size_laws L" and "column_astype L ty c = Inr c'" and "column_len c = Inr n"
  shows "column_len c' = Inr n"
proof -
  let ?col = "c\<lparr>cl_pinned_by_dgl := False, cl_data_nd := None\<rparr>"
  have col: "column_len ?col = Inr n" using assms(3) column_len_cong [of ?col c] by simp
  have conv: "column_len (d\<lparr>cl_storage := Some (astype_tensor L t ty)\<rparr>) = column_len d" "column_len (d\<lparr>cl_deferred_dtype := x\<rparr>) = column_len d"
    if "cl_storage d = Some t" for d and t :: "'a ftensor" and x
    using that by (auto intro!: column_len_cong simp: astype_tensor_def)
  have deferred: "column_len (d\<lparr>cl_deferred_dtype := x\<rparr>) = column_len d" for d :: "'a column" and x
    by (rule column_len_cong) simp_all
  show ?thesis
  proof (cases "column_dtype ?col = Inr ty")
    case True
    then show ?thesis using assms(2) col by (simp add: column_astype_def column_clone_eq)
  next
    case False
    obtain d where d: "(if cl_deferred_dtype ?col \<noteq> None then rbind (column_data L ?col) (\<lambda>(_, col). Inr col) else Inr ?col) = Inr d"
      and c': "(if cl_device d = None \<and> cl_index d = None then (case cl_storage d of None \<Rightarrow> Inl AttributeError
          | Some t \<Rightarrow> Inr (d\<lparr>cl_storage := Some (astype_tensor L t ty)\<rparr>)) else Inr (d\<lparr>cl_deferred_dtype := Some ty\<rparr>)) = Inr c'"
      using assms(2) False unfolding column_astype_def column_clone_eq by (auto simp: rbind_eq_Inr)
    have "column_len d = Inr n"
      using d col by (auto simp: rbind_eq_Inr split: if_splits intro: column_data_length(1) [OF assms(1) _ col])
    then show ?thesis using c' conv deferred by (auto split: if_splits option.splits)
  qed
qed

lemma pin_length:
  assumes "size_laws L" and "column_pin_memory L c = Inr c'" and "column_len c = Inr n"
  shows "column_len c' = Inr n"
proof -
  have "column_len (d\<lparr>cl_data_nd := x, cl_pinned_by_dgl := b\<rparr>) = column_len d" for d :: "'a column" and x b
    by (rule column_len_cong) simp_all
  then show ?thesis using assms(2,3) column_tensor_length(1) [OF assms(1) _ assms(3)]
    by (auto simp: column_pin_memory_def rbind_eq_Inr split: if_splits)
qed

lemma unpin_length: "column_unpin_memory c = Inr c' \<Longrightarrow> column_len c' = column_len c"
  by (rule column_len_cong) (auto simp: column_unpin_memory_def split: if_splits option.splits)

end
