(* ===== verification/FeatFrameProps.thy ===== *)
theory FeatFrameProps
  imports FeatLength
begin

text \<open>
  Frames: all columns have the number of rows of the frame, whatever is done to it, and a sub-frame
  has the rows that were asked for of every column.
\<close>

section \<open>Frames whose columns have as many rows as they say\<close>

definition entry_sized :: "int option \<Rightarrow> 'v frame_entry \<Rightarrow> bool" where
  "entry_sized n e \<longleftrightarrow>
     (case e of Lazy_feature l \<Rightarrow> True | Feature c \<Rightarrow> (case n of None \<Rightarrow> False | Some m \<Rightarrow> column_len c = Inr m))"

definition sized_at :: "(string \<Rightarrow> int option) \<Rightarrow> 'v frame \<Rightarrow> bool" where
  "sized_at w f \<longleftrightarrow> (\<forall>k e. map_of (fr_columns f) k = Some e \<longrightarrow> entry_sized (w k) e)"

definition frame_sized :: "'v frame \<Rightarrow> bool" where
  "frame_sized f \<longleftrightarrow> distinct (frame_keys f) \<and> (\<forall>(k, e) \<in> set (fr_columns f). entry_sized (fr_num_rows f) e)"

lemma frame_sized_alt: "frame_sized f \<longleftrightarrow> distinct (frame_keys f) \<and> sized_at (\<lambda>_. fr_num_rows f) f"
  by (auto simp: frame_sized_def sized_at_def frame_keys_def)

lemma entry_sized_simps [simp]:
  "entry_sized n (Lazy_feature l)" "entry_sized None (Feature c) = False"
  "entry_sized (Some m) (Feature c) = (column_len c = Inr m)"
  by (simp_all add: entry_sized_def)

lemma entry_sized_Feature: "entry_sized n (Feature c) \<Longrightarrow> \<exists>m. n = Some m \<and> column_len c = Inr m"
  by (cases n) simp_all

lemma set_entry_simps [simp]:
  "map_of (fr_columns (set_entry k e f)) = (map_of (fr_columns f))(k \<mapsto> e)"
  "fr_num_rows (set_entry k e f) = fr_num_rows f" "fr_initializers (set_entry k e f) = fr_initializers f"
  "set (frame_keys (set_entry k e f)) = insert k (set (frame_keys f))"
  "distinct (frame_keys (set_entry k e f)) = distinct (frame_keys f)"
  by (auto simp: set_entry_def frame_keys_def update_conv' update_keys)

lemma set_entry_sized: "sized_at w f \<Longrightarrow> entry_sized (w k) e \<Longrightarrow> sized_at w (set_entry k e f)"
  by (simp add: sized_at_def)

lemma sized_at_get: "sized_at w f \<Longrightarrow> map_of (fr_columns f) k = Some (Feature c) \<Longrightarrow> \<exists>m. w k = Some m \<and> column_len c = Inr m"
  by (auto simp: sized_at_def dest: entry_sized_Feature)

text \<open>What operations leave alone: the keys and the number of rows.\<close>

definition frame_like :: "'v frame \<Rightarrow> 'v frame \<Rightarrow> bool" where
  "frame_like f g \<longleftrightarrow> fr_num_rows g = fr_num_rows f \<and> fr_initializers g = fr_initializers f \<and>
     (distinct (frame_keys f) \<longrightarrow> distinct (frame_keys g)) \<and> set (frame_keys f) \<subseteq> set (frame_keys g)"

lemma frame_like_refl [simp]: "frame_like f f"
  and frame_like_set [simp]: "frame_like f (set_entry k e f)"
  by (auto simp: frame_like_def)

lemma frame_like_trans: "frame_like f g \<Longrightarrow> frame_like g h \<Longrightarrow> frame_like f h"
  by (auto simp: frame_like_def)

lemma frame_contains_keys: "frame_contains k f \<longleftrightarrow> k \<in> set (frame_keys f)"
  by (simp add: frame_contains_def frame_keys_def)

lemma map_of_keys: "map_of (fr_columns f) k = Some e \<Longrightarrow> k \<in> set (frame_keys f)"
  using map_of_SomeD [of "fr_columns f" k e] by (force simp: frame_keys_def)

section \<open>What the operations do to the number of rows\<close>

lemma make_entry_Feature: "make_entry v = Inr (Lazy_feature l) \<Longrightarrow> v = In_lazy l"
  by (auto simp: make_entry_def rbind_eq_Inr split: frame_input.splits)

lemma infer_rows_sized:
  assumes "rfold infer_rows n cols = Inr m"
  shows "(n = None \<or> m = n) \<and> (\<forall>(k, e) \<in> set cols. entry_sized m e)"
  using assms
proof (induction cols arbitrary: n)
  case (Cons x cols)
  obtain j where j: "infer_rows n x = Inr j" "rfold infer_rows j cols = Inr m" using Cons.prems by (auto simp: rbind_eq_Inr)
  have "(n = None \<or> j = n) \<and> entry_sized j (snd x)"
    using j(1) by (cases "snd x"; cases n) (auto simp: infer_rows_def rbind_eq_Inr split: if_splits)
  moreover have "entry_sized m (snd x)" if "entry_sized j (snd x)" "j = None \<or> m = j"
    using that by (cases "snd x"; cases j) auto
  ultimately show ?case using Cons.IH [OF j(2)] by auto
qed simp

lemma frame_init_sized:
  assumes "frame_init data n S = Inr (f, S')" and "\<forall>d. data = Some d \<longrightarrow> distinct (map fst d)"
  shows "frame_sized f" and "data = Some d \<Longrightarrow> n \<noteq> None \<Longrightarrow> fr_num_rows f = n" and "data = Some d \<Longrightarrow> frame_keys f = map fst d"
proof -
  have keys: "map fst cols = map fst d" if "rmap (\<lambda>(k, v). rbind (make_entry v) (\<lambda>e. Inr (k, e))) d = Inr cols" for cols d
    using that by (induction d arbitrary: cols) (auto simp: rbind_eq_Inr)
  show "frame_sized f" "data = Some d \<Longrightarrow> n \<noteq> None \<Longrightarrow> fr_num_rows f = n" "data = Some d \<Longrightarrow> frame_keys f = map fst d"
    using assms
    by (auto simp: frame_init_def rbind_eq_Inr frame_sized_def frame_keys_def split: option.splits dest!: infer_rows_sized keys)
qed

lemma init_law: "size_laws L \<Longrightarrow> fl_init L k n dims ty ctx r = Inr t \<Longrightarrow> int (length (ft_rows t)) = n"
  unfolding size_laws_def by blast

lemma run_initializer_length:
  "size_laws L \<Longrightarrow> run_initializer L init n dims ty ctx r = Inr t \<Longrightarrow> int (length (ft_rows t)) = n"
  by (cases init) (auto simp: run_initializer_def zero_initializer_def split: if_splits dest: init_law)

lemma initial_rows_spec:
  assumes "size_laws L" and "initial_rows L S name start n s ctx f = Inr (t, f')"
  shows "n = Some (int (length (ft_rows t)))" and "f' = f \<or> f' = set_zero_default_initializer f"
  using assms
  by (auto simp: initial_rows_def Let_def rbind_eq_Inr split: option.splits if_splits dest!: run_initializer_length [rotated])

lemma zero_default_simps [simp]:
  "fr_columns (set_zero_default_initializer f) = fr_columns f" "fr_num_rows (set_zero_default_initializer f) = fr_num_rows f"
  "frame_keys (set_zero_default_initializer f) = frame_keys f" "sized_at w (set_zero_default_initializer f) = sized_at w f"
  "frame_like g (set_zero_default_initializer f) = frame_like g f"
  by (simp_all add: set_zero_default_initializer_def sized_at_def frame_keys_def frame_like_def)

lemma add_column_sized:
  assumes L: "size_laws L" and f': "add_column L S name s ctx f = Inr f'" and f: "sized_at w f"
    and w: "\<not> frame_contains name f \<Longrightarrow> w name = fr_num_rows f"
  shows "sized_at w f'" and "frame_like f f'" and "set (frame_keys f') = insert name (set (frame_keys f))"
proof -
  have "sized_at w f' \<and> frame_like f f' \<and> set (frame_keys f') = insert name (set (frame_keys f))"
  proof (cases "frame_contains name f")
    case True
    then show ?thesis using f' f by (auto simp: add_column_def frame_contains_keys)
  next
    case False
    obtain t g where t: "initial_rows L S name (Some 0) (fr_num_rows f) s ctx f = Inr (t, g)"
      and f': "f' = set_entry name (Feature \<lparr>cl_storage = Some t, cl_scheme = s, cl_index = None, cl_device = None,
          cl_deferred_dtype = None, cl_pinned_by_dgl = False, cl_data_nd = None\<rparr>) g"
      using f' False by (auto simp: add_column_def column_init_def rbind_eq_Inr)
    have "sized_at w g \<and> frame_like f g \<and> frame_keys g = frame_keys f" using initial_rows_spec(2) [OF L t] f by auto
    then show ?thesis unfolding f' using initial_rows_spec(1) [OF L t] w [OF False]
      by (auto intro!: set_entry_sized frame_like_trans [of f g] simp: column_len_def)
  qed
  then show "sized_at w f'" "frame_like f f'" "set (frame_keys f') = insert name (set (frame_keys f))" by simp_all
qed

lemma update_row_sized:
  assumes L: "size_laws L" and f': "update_row L S rowids data f = Inr f'" and f: "frame_sized f"
  shows "frame_sized f'" and "fr_num_rows f' = fr_num_rows f"
proof -
  let ?P = "\<lambda>g. sized_at (\<lambda>_. fr_num_rows f) g \<and> frame_like f g"
  obtain g where g: "rfold (\<lambda>f (key, val). if \<not> frame_contains key f then add_column L S key (infer_scheme val) (ft_ctx val) f else Inr f) f data = Inr g"
    and f': "rfold (\<lambda>f (key, val). rbind (dict_get (fr_columns f) key) (\<lambda>e.
         case e of Lazy_feature l \<Rightarrow> Inl AttributeError
         | Feature c \<Rightarrow> rbind (column_update L rowids val c) (\<lambda>c. Inr (set_entry key (Feature c) f)))) g data = Inr f'"
    using f' by (auto simp: update_row_def rbind_eq_Inr)
  have "?P g"
  proof (rule rfold_invariant [OF _ g])
    show "?P f" using f by (simp add: frame_sized_alt)
    show "?P h'" if P: "?P h" and h': "(case x of (key, val) \<Rightarrow> if \<not> frame_contains key h then add_column L S key (infer_scheme val) (ft_ctx val) h else Inr h) = Inr h'" for h x h'
    proof (cases "frame_contains (fst x) h")
      case True
      then show ?thesis using P h' by (cases x) simp
    next
      case False
      then have a: "add_column L S (fst x) (infer_scheme (snd x)) (ft_ctx (snd x)) h = Inr h'" using h' by (cases x) simp
      have n: "fr_num_rows f = fr_num_rows h" using P by (simp add: frame_like_def)
      show ?thesis using add_column_sized(1,2) [OF L a, of "\<lambda>_. fr_num_rows f"] P n by (auto intro: frame_like_trans)
    qed
  qed
  then have "?P f'"
  proof (rule rfold_invariant [OF _ f'])
    show "?P h'" if P: "?P h" and h': "(case x of (key, val) \<Rightarrow> rbind (dict_get (fr_columns h) key) (\<lambda>e.
         case e of Lazy_feature l \<Rightarrow> Inl AttributeError
         | Feature c \<Rightarrow> rbind (column_update L rowids val c) (\<lambda>c. Inr (set_entry key (Feature c) h)))) = Inr h'" for h x h'
    proof -
      obtain k v where x: "x = (k, v)" by fastforce
      obtain e where e: "map_of (fr_columns h) k = Some e" using h' x by (auto simp: rbind_eq_Inr)
      then obtain c d where c: "map_of (fr_columns h) k = Some (Feature c)" "column_update L rowids v c = Inr d"
        and h': "h' = set_entry k (Feature d) h" using h' x by (cases e) (auto simp: rbind_eq_Inr)
      obtain m where m: "fr_num_rows f = Some m" "column_len c = Inr m" using sized_at_get [of _ h] P c(1) by blast
      show "?P h'" using P update_length [OF L c(2) m(2)] m(1) unfolding h'
        by (auto intro!: set_entry_sized frame_like_trans [of f h])
    qed
  qed
  then show "frame_sized f'" "fr_num_rows f' = fr_num_rows f" using f by (auto simp: frame_sized_alt frame_like_def)
qed

lemma feature_entry:
  assumes "rbind (dict_get (fr_columns f) k) (\<lambda>e. case e of Lazy_feature l \<Rightarrow> Inl AttributeError | Feature c \<Rightarrow> g c) = Inr r"
  obtains c where "map_of (fr_columns f) k = Some (Feature c)" and "g c = Inr r"
proof -
  obtain e where "map_of (fr_columns f) k = Some e" "(case e of Lazy_feature l \<Rightarrow> Inl AttributeError | Feature c \<Rightarrow> g c) = Inr r"
    using assms by (auto simp: rbind_eq_Inr)
  then show ?thesis using that by (cases e) auto
qed

section \<open>Appending keeps the frame rectangular\<close>

definition all_sized :: "int option \<Rightarrow> 'v frame \<Rightarrow> bool" where
  "all_sized n f \<longleftrightarrow> sized_at (\<lambda>_. n) f"

lemma entry_rows_sized:
  assumes L: "size_laws L" and t: "entry_rows L S key n f = Inr (t, f')" and f: "sized_at w f"
  shows "n = Some (int (length (ft_rows t)))" and "sized_at w f'" and "frame_like f f'" and "set (frame_keys f') = set (frame_keys f)"
proof -
  obtain c where c: "map_of (fr_columns f) key = Some (Feature c)" "rbind (column_tensor L c) (\<lambda>(t, c).
      initial_rows L S key (fr_num_rows f) n (cl_scheme c) (ft_ctx t) (set_entry key (Feature c) f)) = Inr (t, f')"
    using feature_entry [OF t [unfolded entry_rows_def]] by blast
  then obtain u d where u: "column_tensor L c = Inr (u, d)"
    and i: "initial_rows L S key (fr_num_rows f) n (cl_scheme d) (ft_ctx u) (set_entry key (Feature d) f) = Inr (t, f')"
    by (auto simp: rbind_eq_Inr)
  obtain m where m: "w key = Some m" "column_len c = Inr m" using sized_at_get [OF f c(1)] by blast
  show "n = Some (int (length (ft_rows t)))" using initial_rows_spec(1) [OF L i] .
  show "sized_at w f'" "frame_like f f'" "set (frame_keys f') = set (frame_keys f)"
    using initial_rows_spec(2) [OF L i] set_entry_sized [OF f, of key "Feature d"] column_tensor_length(1) [OF L u m(2)] m(1) map_of_keys [OF c(1)]
    by (auto simp: insert_absorb)
qed

lemma update_column_sized:
  assumes "update_column k data f = Inr f'" and "all_sized (fr_num_rows f) f"
  shows "all_sized (fr_num_rows f) f'" and "frame_like f f'" and "set (frame_keys f') = insert k (set (frame_keys f))"
  using assms
  by (auto simp: update_column_def all_sized_def rbind_eq_Inr intro!: set_entry_sized split: frame_input.splits option.splits if_splits)

text \<open>After the padding, the other frame has every column of the frame.\<close>

lemma pad_other_sized:
  assumes L: "size_laws L" and p: "pad_other L S (f, g) k = Inr (f', g')" and f: "sized_at w f" and g: "all_sized (fr_num_rows g) g"
  shows "sized_at w f'" and "frame_like f f'" and "set (frame_keys f') = set (frame_keys f)"
    and "all_sized (fr_num_rows g) g'" and "frame_like g g'" and "set (frame_keys g') = insert k (set (frame_keys g))"
proof -
  have "sized_at w f' \<and> frame_like f f' \<and> set (frame_keys f') = set (frame_keys f) \<and>
      all_sized (fr_num_rows g) g' \<and> frame_like g g' \<and> set (frame_keys g') = insert k (set (frame_keys g))"
  proof (cases "frame_contains k g")
    case True
    then show ?thesis using p f g by (auto simp: pad_other_def frame_contains_keys)
  next
    case False
    then obtain t where t: "entry_rows L S k (fr_num_rows g) f = Inr (t, f')" "update_column k (In_data (In_tensor t)) g = Inr g'"
      using p by (auto simp: pad_other_def rbind_eq_Inr)
    show ?thesis using entry_rows_sized(2-) [OF L t(1) f] update_column_sized [OF t(2) g] by blast
  qed
  then show "sized_at w f'" "frame_like f f'" "set (frame_keys f') = set (frame_keys f)"
    "all_sized (fr_num_rows g) g'" "frame_like g g'" "set (frame_keys g') = insert k (set (frame_keys g))" by simp_all
qed

lemma pad_all_sized:
  assumes L: "size_laws L" and p: "rfold (pad_other L S) (f, g) ks = Inr (f', g')" and f: "sized_at w f" and g: "all_sized (fr_num_rows g) g"
  shows "sized_at w f' \<and> frame_like f f' \<and> set (frame_keys f') = set (frame_keys f) \<and>
    all_sized (fr_num_rows g) g' \<and> frame_like g g' \<and> set (frame_keys g') = set ks \<union> set (frame_keys g)"
  using p f g
proof (induction ks arbitrary: f g)
  case (Cons k ks)
  obtain f1 g1 where 1: "pad_other L S (f, g) k = Inr (f1, g1)" "rfold (pad_other L S) (f1, g1) ks = Inr (f', g')"
    using Cons.prems(1) by (auto simp: rbind_eq_Inr)
  note s = pad_other_sized [OF L 1(1) Cons.prems(2,3)]
  have n: "fr_num_rows g1 = fr_num_rows g" using s(5) by (simp add: frame_like_def)
  show ?case using Cons.IH [OF 1(2) s(1)] s n by (auto intro: frame_like_trans)
qed simp

lemma extend_from_sized:
  assumes L: "size_laws L" and e: "extend_from L S (f, g) k = Inr (f', g')" and f: "sized_at w f" and g: "all_sized (Some b) g"
    and new: "\<not> frame_contains k f \<Longrightarrow> w k = fr_num_rows f" and a: "w k = Some a"
  shows "sized_at (w(k := Some (a + b))) f'" and "frame_like f f'" and "set (frame_keys f') = insert k (set (frame_keys f))"
    and "all_sized (Some b) g'" and "frame_like g g'" and "set (frame_keys g') = set (frame_keys g)"
proof -
  obtain col where col: "map_of (fr_columns g) k = Some (Feature col)" and r: "rbind (column_tensor L col) (\<lambda>(t, col).
          rbind (if \<not> frame_contains k f then add_column L S k (cl_scheme col) (ft_ctx t) f else Inr f) (\<lambda>f.
          rbind (dict_get (fr_columns f) k) (\<lambda>e'.
          case e' of
            Lazy_feature l \<Rightarrow> Inl AttributeError
          | Feature c \<Rightarrow> rbind (column_extend L t (Some (cl_scheme col)) c) (\<lambda>c.
              Inr (set_entry k (Feature c) f, set_entry k (Feature col) g))))) = Inr (f', g')"
    using feature_entry [OF e [unfolded extend_from_def prod.case]] by blast
  obtain t d f1 where t: "column_tensor L col = Inr (t, d)"
    and f1: "(if \<not> frame_contains k f then add_column L S k (cl_scheme d) (ft_ctx t) f else Inr f) = Inr f1"
    and r1: "rbind (dict_get (fr_columns f1) k) (\<lambda>e'.
          case e' of
            Lazy_feature l \<Rightarrow> Inl AttributeError
          | Feature c \<Rightarrow> rbind (column_extend L t (Some (cl_scheme d)) c) (\<lambda>c.
              Inr (set_entry k (Feature c) f1, set_entry k (Feature d) g))) = Inr (f', g')"
    using r by (auto simp: rbind_eq_Inr simp del: if_not_P split del: if_split)
  obtain c where c: "map_of (fr_columns f1) k = Some (Feature c)" "rbind (column_extend L t (Some (cl_scheme d)) c) (\<lambda>c.
              Inr (set_entry k (Feature c) f1, set_entry k (Feature d) g)) = Inr (f', g')"
    using feature_entry [OF r1] by blast
  obtain c' where c': "column_extend L t (Some (cl_scheme d)) c = Inr c'" "f' = set_entry k (Feature c') f1" "g' = set_entry k (Feature d) g"
    using c(2) by (auto simp: rbind_eq_Inr)
  have b: "column_len col = Inr b" using sized_at_get [OF g [unfolded all_sized_def] col] by simp
  note tl = column_tensor_length [OF L t b]
  have f1s: "sized_at w f1 \<and> frame_like f f1 \<and> set (frame_keys f1) = insert k (set (frame_keys f))"
    using f1 add_column_sized [OF L _ f new] f by (cases "frame_contains k f") (auto simp: frame_contains_keys)
  have ca: "column_len c = Inr a" using sized_at_get [OF conjunct1 [OF f1s] c(1)] a by simp
  have "column_len c' = Inr (a + b)" using extend_length [OF L c'(1) ca] tl(2) by simp
  then show "sized_at (w(k := Some (a + b))) f'" using f1s unfolding c'(2) by (simp add: sized_at_def)
  show "frame_like f f'" "set (frame_keys f') = insert k (set (frame_keys f))"
    using f1s unfolding c'(2) by (auto intro: frame_like_trans)
  show "all_sized (Some b) g'" using g tl(1) unfolding c'(3) all_sized_def by (auto intro: set_entry_sized)
  show "frame_like g g'" "set (frame_keys g') = set (frame_keys g)" using map_of_keys [OF col] unfolding c'(3) by auto
qed

lemma extend_all_sized:
  assumes L: "size_laws L" and "rfold (extend_from L S) (f, g) ks = Inr (f', g')" and "fr_num_rows f = Some a"
    and "sized_at (\<lambda>k. if k \<in> D then Some (a + b) else Some a) f" and "all_sized (Some b) g" and "distinct ks" and "set ks \<inter> D = {}"
  shows "sized_at (\<lambda>k. if k \<in> D \<union> set ks then Some (a + b) else Some a) f' \<and> frame_like f f' \<and>
    set (frame_keys f') = set (frame_keys f) \<union> set ks \<and> all_sized (Some b) g' \<and> frame_like g g' \<and> set (frame_keys g') = set (frame_keys g)"
  using assms(2-)
proof (induction ks arbitrary: f g D)
  case (Cons k ks)
  let ?w = "\<lambda>k. if k \<in> D then Some (a + b) else Some a"
  obtain f1 g1 where 1: "extend_from L S (f, g) k = Inr (f1, g1)" "rfold (extend_from L S) (f1, g1) ks = Inr (f', g')"
    using Cons.prems(1) by (auto simp: rbind_eq_Inr)
  have k: "?w k = Some a" using Cons.prems(6) by simp
  note s = extend_from_sized [OF L 1(1) Cons.prems(3,4) _ k]
  have w: "?w(k := Some (a + b)) = (\<lambda>j. if j \<in> insert k D then Some (a + b) else Some a)" by auto
  have "sized_at (\<lambda>j. if j \<in> insert k D then Some (a + b) else Some a) f1" using s(1) k Cons.prems(2) unfolding w by simp
  moreover have "fr_num_rows f1 = Some a" using s(2) k Cons.prems(2) by (simp add: frame_like_def)
  moreover have "set ks \<inter> insert k D = {}" using Cons.prems(5,6) by auto
  ultimately have IH: "sized_at (\<lambda>j. if j \<in> insert k D \<union> set ks then Some (a + b) else Some a) f'" "frame_like f1 f'"
    "set (frame_keys f') = set (frame_keys f1) \<union> set ks" "all_sized (Some b) g'" "frame_like g1 g'" "set (frame_keys g') = set (frame_keys g1)"
    using Cons.IH [OF 1(2), of "insert k D"] s(4) k Cons.prems(2,5) by auto
  have "insert k D \<union> set ks = D \<union> set (k # ks)" by simp
  then show ?case using IH s k Cons.prems(2) by (auto intro: frame_like_trans)
qed simp

lemma append_columns_sized:
  assumes L: "size_laws L" and p: "append_columns L S g f = Inr (f', g')" and f: "frame_sized f" and g: "frame_sized g"
    and a: "fr_num_rows f = Some a" and b: "fr_num_rows g = Some b"
  shows "all_sized (Some (a + b)) f'" and "frame_like f f'" and "frame_sized g'" and "fr_num_rows g' = Some b"
proof -
  obtain f1 g1 where 1: "rfold (pad_other L S) (f, g) (frame_keys f) = Inr (f1, g1)"
    and 2: "rfold (extend_from L S) (f1, g1) (frame_keys g1) = Inr (f', g')"
    using p by (auto simp: append_columns_def rbind_eq_Inr)
  have s: "sized_at (\<lambda>_. Some a) f" "all_sized (fr_num_rows g) g" using f g a b by (simp_all add: frame_sized_alt all_sized_def)
  note pad = pad_all_sized [OF L 1 s]
  have d: "distinct (frame_keys g1)" using pad g by (simp add: frame_like_def frame_sized_def)
  have a1: "fr_num_rows f1 = Some a" using pad a by (simp add: frame_like_def)
  have w1: "sized_at (\<lambda>k. if k \<in> {} then Some (a + b) else Some a) f1" using pad by simp
  have b1: "all_sized (Some b) g1" using pad b by simp
  note e = extend_all_sized [OF L 2 a1 w1 b1 d, of]
  have sub: "set (frame_keys f') \<subseteq> set (frame_keys g1)" using e pad by auto
  have e1: "sized_at (\<lambda>k. if k \<in> set (frame_keys g1) then Some (a + b) else Some a) f'" using e by simp
  show "all_sized (Some (a + b)) f'" unfolding all_sized_def sized_at_def
  proof (intro allI impI)
    fix k v assume "map_of (fr_columns f') k = Some v"
    then show "entry_sized (Some (a + b)) v"
      using e1 map_of_keys [of f' k v] sub by (auto simp: sized_at_def dest!: spec [of _ k])
  qed
  show "frame_like f f'" using e pad by (auto intro: frame_like_trans)
  show "fr_num_rows g' = Some b" "frame_sized g'" using e pad d b by (auto simp: frame_sized_alt all_sized_def frame_like_def)
qed

lemma add_num_rows_Inr: "add_num_rows n f = Inr f' \<longleftrightarrow> (\<exists>a b. fr_num_rows f = Some a \<and> n = Some b \<and> f' = f\<lparr>fr_num_rows := Some (a + b)\<rparr>)"
  by (auto simp: add_num_rows_def split: option.splits)

lemma extend_num_rows:
  assumes L: "size_laws L" and e: "extend_from L S fs k = Inr fs'"
  shows "fr_num_rows (fst fs') = fr_num_rows (fst fs) \<and> fr_num_rows (snd fs') = fr_num_rows (snd fs)"
proof -
  obtain f g where fs: "fs = (f, g)" by fastforce
  have add: "fr_num_rows f' = fr_num_rows f" if "add_column L S k s ctx f = Inr f'" for f f' :: "'a frame" and s ctx
    using that initial_rows_spec(2) [OF L] by (fastforce simp: add_column_def rbind_eq_Inr split: if_splits)
  obtain col where "rbind (column_tensor L col) (\<lambda>(t, col).
          rbind (if \<not> frame_contains k f then add_column L S k (cl_scheme col) (ft_ctx t) f else Inr f) (\<lambda>f.
          rbind (dict_get (fr_columns f) k) (\<lambda>e'.
          case e' of
            Lazy_feature l \<Rightarrow> Inl AttributeError
          | Feature c \<Rightarrow> rbind (column_extend L t (Some (cl_scheme col)) c) (\<lambda>c.
              Inr (set_entry k (Feature c) f, set_entry k (Feature col) g))))) = Inr fs'"
    using feature_entry [OF e [unfolded fs extend_from_def prod.case]] by blast
  then obtain t d f1 where f1: "(if \<not> frame_contains k f then add_column L S k (cl_scheme d) (ft_ctx t) f else Inr f) = Inr f1"
    and r1: "rbind (dict_get (fr_columns f1) k) (\<lambda>e'.
          case e' of
            Lazy_feature l \<Rightarrow> Inl AttributeError
          | Feature c \<Rightarrow> rbind (column_extend L t (Some (cl_scheme d)) c) (\<lambda>c.
              Inr (set_entry k (Feature c) f1, set_entry k (Feature d) g))) = Inr fs'"
    by (auto simp: rbind_eq_Inr simp del: if_not_P split del: if_split)
  have "fr_num_rows f1 = fr_num_rows f" using f1 add by (auto split: if_splits)
  moreover obtain c c' where "column_extend L t (Some (cl_scheme d)) c = Inr c'" "fs' = (set_entry k (Feature c') f1, set_entry k (Feature d) g)"
    using feature_entry [OF r1] unfolding rbind_eq_Inr by blast
  ultimately show ?thesis using fs by simp
qed

lemma append_num_rows:
  assumes L: "size_laws L" and p: "append_columns L S g f = Inr (f', g')" and f: "frame_sized f" and g: "frame_sized g"
  shows "fr_num_rows f' = fr_num_rows f" and "fr_num_rows g' = fr_num_rows g"
proof -
  obtain fs where 1: "rfold (pad_other L S) (f, g) (frame_keys f) = Inr fs" and 2: "rfold (extend_from L S) fs (frame_keys (snd fs)) = Inr (f', g')"
    using p by (force simp: append_columns_def rbind_eq_Inr)
  have pad: "fr_num_rows (fst fs) = fr_num_rows f \<and> fr_num_rows (snd fs) = fr_num_rows g"
    using pad_all_sized [OF L, of S f g "frame_keys f" "fst fs" "snd fs"] 1 f g by (auto simp: frame_sized_alt all_sized_def frame_like_def)
  have "fr_num_rows (fst (f', g')) = fr_num_rows (fst fs) \<and> fr_num_rows (snd (f', g')) = fr_num_rows (snd fs)"
    by (rule rfold_invariant [OF _ 2, where P = "\<lambda>x. fr_num_rows (fst x) = fr_num_rows (fst fs) \<and> fr_num_rows (snd x) = fr_num_rows (snd fs)"])
      (use extend_num_rows [OF L] in auto)
  then show "fr_num_rows f' = fr_num_rows f" "fr_num_rows g' = fr_num_rows g" using pad by auto
qed

lemma append_then_count:
  assumes L: "size_laws L" and p: "append_columns L S g f = Inr (f', g')" and n: "add_num_rows (fr_num_rows g') f' = Inr f''"
    and f: "frame_sized f" and g: "frame_sized g"
  shows "frame_sized f''" and "frame_sized g'" and "fr_num_rows f'' = Some (the (fr_num_rows f) + the (fr_num_rows g))"
proof -
  obtain a b where ab: "fr_num_rows f' = Some a" "fr_num_rows g' = Some b" "f'' = f'\<lparr>fr_num_rows := Some (a + b)\<rparr>"
    using n by (auto simp: add_num_rows_Inr)
  then have o: "fr_num_rows f = Some a" "fr_num_rows g = Some b" using append_num_rows [OF L p f g] by simp_all
  note s = append_columns_sized [OF L p f g o]
  show "frame_sized f''" using s f ab(3) by (simp add: frame_sized_alt all_sized_def sized_at_def frame_like_def frame_keys_def)
  show "frame_sized g'" "fr_num_rows f'' = Some (the (fr_num_rows f) + the (fr_num_rows g))" using s ab o by simp_all
qed

lemma append_sized:
  assumes L: "size_laws L" and p: "frame_append L input f S = Inr (f', g', S')" and f: "frame_sized f"
    and input: "case input of From_frame g \<Rightarrow> frame_sized g | From_dict d \<Rightarrow> distinct (map fst d)"
  shows "frame_sized f'" and "frame_sized g'"
proof -
  obtain g S1 f1 where g: "(case input of From_frame g \<Rightarrow> Inr (g, S) | From_dict d \<Rightarrow> frame_init (Some d) None S) = Inr (g, S1)"
    and 1: "append_columns L S1 g f = Inr (f1, g')" "add_num_rows (fr_num_rows g') f1 = Inr f'"
    using p by (auto simp: frame_append_def rbind_eq_Inr)
  have "frame_sized g" using g input by (cases input) (auto dest: frame_init_sized(1))
  from append_then_count [OF L 1 f this] show "frame_sized f'" "frame_sized g'" by simp_all
qed

lemma add_rows_collect:
  assumes L: "size_laws L"
    and "rfold (\<lambda>(f, rows) key. rbind (entry_rows L S key (Some n) f) (\<lambda>(t, f).
         Inr (f, rows @ [(key, In_data (In_tensor t))]))) (f, rows0) ks = Inr (f', rows)" and "sized_at w f"
    and "distinct (map fst rows0 @ ks)" and "\<forall>(k, v) \<in> set rows0. \<exists>t. v = In_data (In_tensor t) \<and> int (length (ft_rows t)) = n"
  shows "sized_at w f' \<and> frame_like f f' \<and> set (frame_keys f') = set (frame_keys f) \<and> map fst rows = map fst rows0 @ ks \<and>
    (\<forall>(k, v) \<in> set rows. \<exists>t. v = In_data (In_tensor t) \<and> int (length (ft_rows t)) = n)"
  using assms(2-)
proof (induction ks arbitrary: f rows0)
  case (Cons k ks)
  obtain t f1 where 1: "entry_rows L S k (Some n) f = Inr (t, f1)"
    and r: "rfold (\<lambda>(f, rows) key. rbind (entry_rows L S key (Some n) f) (\<lambda>(t, f).
         Inr (f, rows @ [(key, In_data (In_tensor t))]))) (f1, rows0 @ [(k, In_data (In_tensor t))]) ks = Inr (f', rows)"
    using Cons.prems(1) by (auto simp: rbind_eq_Inr)
  note s = entry_rows_sized [OF L 1 Cons.prems(2)]
  have "distinct (map fst (rows0 @ [(k, In_data (In_tensor t))]) @ ks)" using Cons.prems(3) by simp
  moreover have "\<forall>(k, v) \<in> set (rows0 @ [(k, In_data (In_tensor t))]). \<exists>t. v = In_data (In_tensor t) \<and> int (length (ft_rows t)) = n"
    using Cons.prems(4) s(1) by auto
  ultimately have "sized_at w f' \<and> frame_like f1 f' \<and> set (frame_keys f') = set (frame_keys f1) \<and>
      map fst rows = map fst (rows0 @ [(k, In_data (In_tensor t))]) @ ks \<and>
      (\<forall>(k, v) \<in> set rows. \<exists>t. v = In_data (In_tensor t) \<and> int (length (ft_rows t)) = n)"
    by (rule Cons.IH [OF r s(2)])
  then show ?case using frame_like_trans [OF s(3)] s(4) by simp
qed simp

lemma init_rows_known:
  assumes g: "frame_init (Some rows) None S = Inr (g, S')" and "rows \<noteq> []"
    and "\<forall>(k, v) \<in> set rows. \<exists>t. v = In_data (In_tensor t) \<and> int (length (ft_rows t)) = n"
  shows "fr_num_rows g = Some n"
proof -
  have stay: "rfold infer_rows (Some n) cols = Inr m \<Longrightarrow> m = Some n" for cols :: "(string \<times> 'a frame_entry) list" and m
    using infer_rows_sized [of "Some n"] by blast
  have features: "\<forall>(k, e) \<in> set cols. \<exists>c. e = Feature c \<and> column_len c = Inr n"
    if "rmap (\<lambda>(k, v). rbind (make_entry v) (\<lambda>e. Inr (k, e))) rows = Inr cols"
      "\<forall>(k, v) \<in> set rows. \<exists>t. v = In_data (In_tensor t) \<and> int (length (ft_rows t)) = n"
    for rows :: "(string \<times> 'a frame_input) list" and cols
    using that by (induction rows arbitrary: cols) (auto simp: rbind_eq_Inr make_entry_def column_create_def column_init_def column_len_def)
  obtain cols where cols: "rmap (\<lambda>(k, v). rbind (make_entry v) (\<lambda>e. Inr (k, e))) rows = Inr cols" "rfold infer_rows None cols = Inr (fr_num_rows g)"
    using g by (auto simp: frame_init_def rbind_eq_Inr)
  have "cols \<noteq> []" using rmap_length [OF cols(1)] assms(2) by auto
  then show ?thesis using cols(2) features [OF cols(1) assms(3)] by (cases cols) (auto simp: infer_rows_def dest: stay)
qed

lemma add_rows_sized:
  assumes L: "size_laws L" and p: "add_rows L n f S = Inr (f', S')" and f: "frame_sized f"
  shows "frame_sized f'"
proof -
  obtain f1 rows g S1 f2 g' where 1: "rfold (\<lambda>(f, rows) key. rbind (entry_rows L S key (Some n) f) (\<lambda>(t, f).
         Inr (f, rows @ [(key, In_data (In_tensor t))]))) (f, []) (frame_keys f) = Inr (f1, rows)"
    and g: "frame_init (Some rows) None S = Inr (g, S1)" and 2: "append_columns L S1 g f1 = Inr (f2, g')"
    and 3: "add_num_rows (Some n) f2 = Inr f'"
    using p by (auto simp: add_rows_def rbind_eq_Inr)
  have fs: "sized_at (\<lambda>_. fr_num_rows f) f" "distinct (frame_keys f)" using f by (simp_all add: frame_sized_alt)
  have c: "sized_at (\<lambda>_. fr_num_rows f) f1 \<and> frame_like f f1 \<and> set (frame_keys f1) = set (frame_keys f) \<and> map fst rows = frame_keys f \<and>
    (\<forall>(k, v) \<in> set rows. \<exists>t. v = In_data (In_tensor t) \<and> int (length (ft_rows t)) = n)"
    using add_rows_collect [OF L 1 fs(1)] fs(2) by simp
  have f1: "frame_sized f1" using c fs(2) by (simp add: frame_sized_alt frame_like_def)
  have "distinct (map fst rows)" using c fs(2) by simp
  then have gs: "frame_sized g" and keys: "frame_keys g = map fst rows" using frame_init_sized [OF g] by simp_all
  show "frame_sized f'"
  proof (cases "rows = []")
    case True
    then have "frame_keys g = []" "frame_keys f1 = []" using keys c by auto
    then have "f2 = f1" using 2 by (auto simp: append_columns_def)
    then show ?thesis using 3 \<open>frame_keys f1 = []\<close> by (auto simp: add_num_rows_Inr frame_sized_def frame_keys_def)
  next
    case False
    have "fr_num_rows g = Some n" using init_rows_known [OF g False] c by simp
    moreover have "fr_num_rows g' = fr_num_rows g" using append_num_rows [OF L 2 f1 gs] by simp
    ultimately have "add_num_rows (fr_num_rows g') f2 = Inr f'" using 3 by simp
    then show ?thesis using append_then_count [OF L 2 _ f1 gs] by blast
  qed
qed

section \<open>Every operation keeps the frame rectangular\<close>

lemma map_entries_each:
  assumes "map_entries g lazy cols = Inr cols'" and "\<forall>(k, e) \<in> set cols. P e"
    and "\<And>c c'. P (Feature c) \<Longrightarrow> g c = Inr c' \<Longrightarrow> Q (Feature c')"
    and "\<And>l e. P (Lazy_feature l) \<Longrightarrow> lazy (Lazy_feature l) = Inr e \<Longrightarrow> Q e"
  shows "map fst cols' = map fst cols" and "\<forall>(k, e) \<in> set cols'. Q e"
proof -
  have "map fst cols' = map fst cols \<and> (\<forall>(k, e) \<in> set cols'. Q e)"
    using assms(1,2)
  proof (induction cols arbitrary: cols')
    case (Cons x cols)
    obtain k e where x: "x = (k, e)" by fastforce
    then show ?case using Cons assms(3,4) by (cases e) (auto simp: map_entries_def rbind_eq_Inr)
  qed (simp add: map_entries_def)
  then show "map fst cols' = map fst cols" "\<forall>(k, e) \<in> set cols'. Q e" by simp_all
qed

lemma frame_of_entries_sized:
  assumes "frame_of_entries f cols n S = Inr (f', S')" and "distinct (map fst cols)"
  shows "frame_sized f'" and "n \<noteq> None \<Longrightarrow> fr_num_rows f' = n" and "frame_keys f' = map fst cols"
proof -
  obtain g where g: "frame_init (Some (map (\<lambda>(k, e). (k, entry_input e)) cols)) n S = Inr (g, S')" "f' = same_initializers f g"
    using assms(1) by (auto simp: frame_of_entries_def rbind_eq_Inr)
  have keys: "map fst (map (\<lambda>(k, e). (k, entry_input e)) cols) = map fst cols" by (auto simp: split_def)
  have d: "\<forall>d. Some (map (\<lambda>(k, e). (k, entry_input e)) cols) = Some d \<longrightarrow> distinct (map fst d)"
    using assms(2) unfolding keys [symmetric] by blast
  show "frame_sized f'" "n \<noteq> None \<Longrightarrow> fr_num_rows f' = n" "frame_keys f' = map fst cols"
    using frame_init_sized(1) [OF g(1) d] frame_init_sized(2,3) [OF g(1) d refl] g(2) unfolding keys
    by (simp_all add: same_initializers_def frame_sized_def frame_keys_def)
qed

lemma frame_sized_cols:
  assumes "frame_sized f" and "map_entries g lazy (fr_columns f) = Inr cols"
    and "\<And>c c' n. column_len c = Inr n \<Longrightarrow> g c = Inr c' \<Longrightarrow> column_len c' = Inr n"
    and "\<And>l e. lazy (Lazy_feature l) = Inr e \<Longrightarrow> e = Lazy_feature l"
  shows "frame_sized (f\<lparr>fr_columns := cols\<rparr>)"
proof -
  have e: "\<forall>(k, e) \<in> set (fr_columns f). entry_sized (fr_num_rows f) e" using assms(1) by (simp add: frame_sized_def)
  have step: "entry_sized (fr_num_rows f) (Feature c')" if "entry_sized (fr_num_rows f) (Feature c)" "g c = Inr c'" for c c'
    using entry_sized_Feature [OF that(1)] assms(3) [OF _ that(2)] by auto
  have lazy: "entry_sized (fr_num_rows f) e" if "lazy (Lazy_feature l) = Inr e" for l e using assms(4) [OF that] by simp
  have "map fst cols = map fst (fr_columns f) \<and> (\<forall>(k, e) \<in> set cols. entry_sized (fr_num_rows f) e)"
    using map_entries_each [where P = "entry_sized (fr_num_rows f)" and Q = "entry_sized (fr_num_rows f)", OF assms(2) e] step lazy by blast
  then show ?thesis using assms(1) by (simp add: frame_sized_def frame_keys_def)
qed

text \<open>The operations on a frame, as a program does them; the ones that make a frame go on with it.\<close>

datatype 'v frame_op = Fop_set string "'v frame_input" | Fop_del string | Fop_add_column string scheme device
  | Fop_update_row itensor "(string \<times> 'v ftensor) list" | Fop_append "'v append_input" | Fop_add_rows int | Fop_clear
  | Fop_read string | Fop_initializer "initializer option" "string option" | Fop_clone | Fop_subframe itensor
  | Fop_to device copy_kwargs | Fop_pin | Fop_unpin | Fop_float feat_dtype

fun frame_step :: "'v frame_lib \<Rightarrow> 'v frame \<times> init_store \<Rightarrow> 'v frame_op \<Rightarrow> ('v frame \<times> init_store) res" where
  "frame_step L (f, S) (Fop_set k v) = rbind (frame_setitem k v f) (\<lambda>f. Inr (f, S))"
| "frame_step L (f, S) (Fop_del k) = rbind (frame_delitem k f) (\<lambda>f. Inr (f, S))"
| "frame_step L (f, S) (Fop_add_column k s ctx) = rbind (add_column L S k s ctx f) (\<lambda>f. Inr (f, S))"
| "frame_step L (f, S) (Fop_update_row ids data) = rbind (update_row L S ids data f) (\<lambda>f. Inr (f, S))"
| "frame_step L (f, S) (Fop_append other) = rbind (frame_append L other f S) (\<lambda>(f, other, S). Inr (f, S))"
| "frame_step L (f, S) (Fop_add_rows n) = add_rows L n f S"
| "frame_step L (f, S) Fop_clear = Inr (frame_clear f, S)"
| "frame_step L (f, S) (Fop_read k) = rbind (frame_getitem L k f) (\<lambda>(v, f). Inr (f, S))"
| "frame_step L (f, S) (Fop_initializer i k) = Inr (set_initializer i k f S)"
| "frame_step L (f, S) Fop_clone = frame_clone f S"
| "frame_step L (f, S) (Fop_subframe ids) = subframe ids f S"
| "frame_step L (f, S) (Fop_to ctx kwargs) = frame_to ctx kwargs f S"
| "frame_step L (f, S) Fop_pin = rbind (frame_pin_memory L f) (\<lambda>f. Inr (f, S))"
| "frame_step L (f, S) Fop_unpin = rbind (frame_unpin_memory f) (\<lambda>f. Inr (f, S))"
| "frame_step L (f, S) (Fop_float ty) = frame_astype_float L ty f S"

text \<open>Dictionaries have each key once, and a frame to append is itself one of these frames.\<close>

fun frame_op_ok :: "'v frame_op \<Rightarrow> bool" where
  "frame_op_ok (Fop_append (From_frame g)) = frame_sized g"
| "frame_op_ok (Fop_append (From_dict d)) = distinct (map fst d)"
| "frame_op_ok _ = True"

lemma getitem_sized:
  assumes L: "size_laws L" and g: "frame_getitem L k f = Inr (v, f')" and f: "frame_sized f"
  shows "frame_sized f'" and "v = Data (Some t) \<Longrightarrow> fr_num_rows f = Some (int (length (ft_rows t)))"
proof -
  obtain e where e: "map_of (fr_columns f) k = Some e" using g by (auto simp: frame_getitem_def rbind_eq_Inr)
  have "frame_sized f' \<and> (v = Data (Some t) \<longrightarrow> fr_num_rows f = Some (int (length (ft_rows t))))"
  proof (cases e)
    case (Lazy_feature l)
    then show ?thesis using g e f by (auto simp: frame_getitem_def dict_get_Some)
  next
    case (Feature c)
    obtain u d where u: "column_data L c = Inr (u, d)" "v = Data u" "f' = set_entry k (Feature d) f"
      using g e Feature by (auto simp: frame_getitem_def rbind_eq_Inr dict_get_Some)
    have s: "sized_at (\<lambda>_. fr_num_rows f) f" using f by (simp add: frame_sized_alt)
    obtain m where m: "fr_num_rows f = Some m" "column_len c = Inr m" using sized_at_get [OF s] e Feature by blast
    have "frame_sized f'" using f set_entry_sized [OF s, where k = k and e = "Feature d"] column_data_length(1) [OF L u(1) m(2)] m(1)
      unfolding u(3) by (simp add: frame_sized_alt)
    then show ?thesis using column_data_length(2) [OF L u(1) m(2)] m(1) u(2) by simp
  qed
  then show "frame_sized f'" "v = Data (Some t) \<Longrightarrow> fr_num_rows f = Some (int (length (ft_rows t)))" by simp_all
qed

fun_cases frame_op_ok_frameE: "frame_op_ok (Fop_append (From_frame g))"
  and frame_op_ok_dictE: "frame_op_ok (Fop_append (From_dict d))"

lemma frame_step_sized:
  assumes L: "size_laws L" and step: "frame_step L (f, S) op = Inr (f', S')" and f: "frame_sized f" and ok: "frame_op_ok op"
  shows "frame_sized f'"
proof -
  have s: "sized_at (\<lambda>_. fr_num_rows f) f" and d: "distinct (frame_keys f)"
    using f by (simp_all add: frame_sized_alt)
  have dc: "distinct (map fst (fr_columns f))" using d by (simp add: frame_keys_def)
  show ?thesis
  proof (cases op)
    case (Fop_set k v)
    then have "update_column k v f = Inr f'" using step by (auto simp: frame_setitem_def rbind_eq_Inr)
    from update_column_sized [OF this] s d show ?thesis by (simp add: frame_sized_alt all_sized_def frame_like_def)
  next
    case (Fop_del k)
    then show ?thesis using step f
      by (auto simp: frame_delitem_def dict_del_def rbind_eq_Inr frame_sized_def frame_keys_def AList.delete_eq split: if_splits intro: distinct_map_filter)
  next
    case (Fop_add_column k sc ctx)
    then have "add_column L S k sc ctx f = Inr f'" using step by (auto simp: rbind_eq_Inr)
    from add_column_sized [OF L this s] d show ?thesis by (simp add: frame_sized_alt frame_like_def)
  next
    case (Fop_update_row ids data)
    then show ?thesis using step update_row_sized(1) [OF L _ f] by (auto simp: rbind_eq_Inr)
  next
    case (Fop_append input)
    then obtain g where "frame_append L input f S = Inr (f', g, S')" using step by (auto simp: rbind_eq_Inr)
    moreover have "case input of From_frame g \<Rightarrow> frame_sized g | From_dict d \<Rightarrow> distinct (map fst d)"
      using ok Fop_append by (cases input) (auto elim: frame_op_ok_frameE frame_op_ok_dictE)
    ultimately show ?thesis using append_sized(1) [OF L _ f] by blast
  next
    case (Fop_add_rows n)
    then show ?thesis using step add_rows_sized [OF L _ f] by simp
  next
    case Fop_clear
    then show ?thesis using step by (auto simp: frame_clear_def frame_sized_def frame_keys_def)
  next
    case (Fop_read k)
    then show ?thesis using step getitem_sized(1) [OF L _ f] by (auto simp: rbind_eq_Inr)
  next
    case (Fop_initializer i k)
    then have "f' = f \<or> (\<exists>i. f' = f\<lparr>fr_default_initializer := i\<rparr>)" using step by (auto simp: set_initializer_def split: option.splits)
    then show ?thesis using f by (auto simp: frame_sized_def frame_keys_def)
  next
    case Fop_clone
    then show ?thesis using step frame_of_entries_sized(1) dc by (auto simp: frame_clone_def)
  next
    case (Fop_subframe ids)
    then obtain cols where c: "map_entries (column_subcolumn ids) (\<lambda>e. Inl AttributeError) (fr_columns f) = Inr cols"
      "frame_of_entries f cols (Some (int (length (it_ids ids)))) S = Inr (f', S')"
      using step by (auto simp: subframe_def rbind_eq_Inr)
    have "map fst cols = map fst (fr_columns f)"
      by (rule map_entries_each(1) [OF c(1), where P = "\<lambda>_. True" and Q = "\<lambda>_. True"]) simp_all
    then show ?thesis using frame_of_entries_sized(1) [OF c(2)] dc by simp
  next
    case (Fop_to ctx kwargs)
    then obtain g cols where g: "frame_clone f S = Inr (g, S')" "map_entries (column_to ctx kwargs) Inr (fr_columns g) = Inr cols"
      "f' = g\<lparr>fr_columns := cols\<rparr>" using step by (auto simp: frame_to_def rbind_eq_Inr)
    have "frame_sized g" using g(1) frame_of_entries_sized(1) dc by (auto simp: frame_clone_def)
    from frame_sized_cols [OF this g(2)] show ?thesis unfolding g(3) using to_length by fastforce
  next
    case Fop_pin
    then obtain cols where c: "map_entries (column_pin_memory L) Inr (fr_columns f) = Inr cols" "f' = f\<lparr>fr_columns := cols\<rparr>"
      using step by (auto simp: frame_pin_memory_def rbind_eq_Inr)
    show ?thesis unfolding c(2) by (rule frame_sized_cols [OF f c(1)]) (use pin_length [OF L] in auto)
  next
    case Fop_unpin
    then obtain cols where c: "map_entries column_unpin_memory Inr (fr_columns f) = Inr cols" "f' = f\<lparr>fr_columns := cols\<rparr>"
      using step by (auto simp: frame_unpin_memory_def rbind_eq_Inr)
    show ?thesis unfolding c(2) by (rule frame_sized_cols [OF f c(1)]) (use unpin_length in fastforce)+
  next
    case (Fop_float ty)
    then obtain g cols where g: "frame_clone f S = Inr (g, S')" "f' = g\<lparr>fr_columns := cols\<rparr>" and
      c: "map_entries (\<lambda>c. rbind (column_dtype c) (\<lambda>t. if t \<noteq> ty \<and> t \<in> set float_types then column_astype L ty c else Inr c))
        (\<lambda>e. Inl AttributeError) (fr_columns f) = Inr cols"
      using step by (auto simp: frame_astype_float_def rassert_def rbind_eq_Inr split: if_splits)
    have fc: "frame_sized (f\<lparr>fr_columns := cols\<rparr>)"
    proof (rule frame_sized_cols [OF f c])
      show "column_len c' = Inr n" if "column_len c = Inr n"
        "rbind (column_dtype c) (\<lambda>t. if t \<noteq> ty \<and> t \<in> set float_types then column_astype L ty c else Inr c) = Inr c'" for c c' n
        using that(2) astype_length [OF L _ that(1)] that(1) by (auto simp: rbind_eq_Inr split: if_splits)
    qed simp
    show ?thesis
    proof (cases "fr_num_rows f")
      case None
      then show ?thesis using fc unfolding g(2) by (auto simp: frame_sized_def frame_keys_def entry_sized_def split: frame_entry.splits)
    next
      case (Some n)
      then have "fr_num_rows g = Some n" using g(1) frame_of_entries_sized(2) dc by (fastforce simp: frame_clone_def)
      then show ?thesis using fc Some unfolding g(2) by (simp add: frame_sized_def frame_keys_def)
    qed
  qed
qed


definition example_frame :: "int frame" where
  "example_frame =
     \<lparr>fr_columns = [(''x'', Feature (example_column [10, 20, 30]))], fr_num_rows = Some 3, fr_initializers = 0, fr_default_initializer = None\<rparr>"

definition example_store :: init_store where
  "example_store = \<lparr>is_next = 1, is_dicts = (\<lambda>_. [])\<rparr>"

lemma example_size_laws: "size_laws example_frame_lib"
  by (auto simp: size_laws_def example_frame_lib_def split: if_splits)

lemma example_frame_sized: "frame_sized example_frame"
  by (simp add: frame_sized_def frame_keys_def example_frame_def example_column_def example_tensor_of_def column_len_def)

lemmas run_frame = example_frame_def example_column_def example_store_def example_tensor_of_def example_frame_lib_def
  frame_setitem_def update_column_def set_initializer_def subframe_def map_entries_def column_subcolumn_def lazy_slice_def
  frame_of_entries_def frame_init_def make_entry_def infer_rows_def column_create_def column_clone_def column_init_def column_len_def
  lazy_len_def add_rows_def frame_keys_def entry_rows_def initial_rows_def get_initializer_def run_initializer_def zero_initializer_def
  set_zero_default_initializer_def column_tensor_def column_data_def apply_index_def apply_device_def apply_dtype_def lazy_flatten_def
  gather_ids_def gather_tensor_def gather_row_def append_columns_def pad_other_def extend_from_def frame_contains_def set_entry_def
  column_extend_def cat_tensors_def astype_tensor_def column_set_data_def add_num_rows_def infer_scheme_def same_initializers_def
  frame_getitem_def dict_get_def py_index_def


end
