(* ===== verification/FeatTables.thy ===== *)
theory FeatTables
  imports FeatFrameProps
begin

text \<open>
  Frames as tables: which content each column has. Taking a sub-frame picks rows of the table, and
  appending one frame to another concatenates the two tables.
\<close>

section \<open>The table of a frame\<close>

definition frame_shows :: "'v frame_lib \<Rightarrow> 'v frame \<Rightarrow> (string \<Rightarrow> 'v content option) \<Rightarrow> bool" where
  "frame_shows L f v \<longleftrightarrow> distinct (frame_keys f) \<and> dom v = set (frame_keys f) \<and>
     (\<forall>(k, e) \<in> set (fr_columns f). case e of
        Lazy_feature l \<Rightarrow> False
      | Feature c \<Rightarrow> (case v k of None \<Rightarrow> False | Some x \<Rightarrow> column_holds L c x))"

definition frame_table :: "'v frame_lib \<Rightarrow> 'v frame \<Rightarrow> int \<Rightarrow> (string \<Rightarrow> 'v content option) \<Rightarrow> bool" where
  "frame_table L f n v \<longleftrightarrow> fr_num_rows f = Some n \<and> frame_shows L f v \<and>
     (\<forall>k \<in> set (frame_keys f). case v k of None \<Rightarrow> False | Some x \<Rightarrow> int (length (content_rows x)) = n)"

lemma frame_shows_get:
  assumes "frame_shows L f v" and "v k = Some x"
  obtains c where "map_of (fr_columns f) k = Some (Feature c)" and "column_holds L c x"
proof -
  have "k \<in> set (frame_keys f)" using assms by (auto simp: frame_shows_def)
  then obtain e where e: "map_of (fr_columns f) k = Some e"
    by (metis frame_keys_def map_of_eq_None_iff not_None_eq set_map)
  have "(k, e) \<in> set (fr_columns f)" using e by (rule map_of_SomeD)
  then show ?thesis using assms that e by (cases e) (auto simp: frame_shows_def dest!: bspec [of _ _ "(k, e)"])
qed

lemma frame_shows_alt:
  "frame_shows L f v \<longleftrightarrow> distinct (frame_keys f) \<and> dom v = set (frame_keys f) \<and>
    (\<forall>k e. map_of (fr_columns f) k = Some e \<longrightarrow> (\<exists>c x. e = Feature c \<and> v k = Some x \<and> column_holds L c x))"
proof -
  have "(case e of Lazy_feature l \<Rightarrow> False | Feature c \<Rightarrow> (case v k of None \<Rightarrow> False | Some x \<Rightarrow> column_holds L c x)) \<longleftrightarrow>
      (\<exists>c x. e = Feature c \<and> v k = Some x \<and> column_holds L c x)" for k e
    by (auto split: frame_entry.split option.split)
  then show ?thesis by (auto simp: frame_shows_def frame_keys_def)
qed

lemma frame_shows_set:
  assumes "frame_shows L f v" and "column_holds L c x"
  shows "frame_shows L (set_entry k (Feature c) f) (v(k \<mapsto> x))"
  using assms by (cases x) (auto simp: frame_shows_alt)

section \<open>Sub-frames\<close>

lemma map_entries_features:
  assumes "\<forall>(k, e) \<in> set cols. \<exists>c c'. e = Feature c \<and> g c = Inr c' \<and> Q k c'"
  shows "\<exists>cols'. map_entries g lazy cols = Inr cols' \<and> map fst cols' = map fst cols \<and> (\<forall>(k, e) \<in> set cols'. \<exists>c'. e = Feature c' \<and> Q k c')"
  using assms
proof (induction cols)
  case (Cons x cols)
  then show ?case by (cases x) (fastforce simp: map_entries_def)
qed (simp add: map_entries_def)

lemma frame_init_features:
  assumes "\<forall>(k, e) \<in> set cols. \<exists>c. e = Feature c \<and> column_len c = Inr n"
  shows "\<exists>cols'. frame_of_entries f cols (Some n) S =
      Inr (\<lparr>fr_columns = cols', fr_num_rows = Some n, fr_initializers = fr_initializers f, fr_default_initializer = fr_default_initializer f\<rparr>,
           S\<lparr>is_next := is_next S + 1, is_dicts := (is_dicts S)(is_next S := [])\<rparr>) \<and>
    cols' = map (\<lambda>(k, e). (k, case e of Lazy_feature l \<Rightarrow> e | Feature c \<Rightarrow> Feature (c\<lparr>cl_pinned_by_dgl := False, cl_data_nd := None\<rparr>))) cols"
proof -
  let ?clone = "\<lambda>(k, e). (k, case e of Lazy_feature l \<Rightarrow> e | Feature c \<Rightarrow> Feature (c\<lparr>cl_pinned_by_dgl := False, cl_data_nd := None\<rparr>))"
  have entries: "rmap (\<lambda>(k, v). rbind (make_entry v) (\<lambda>e. Inr (k, e))) (map (\<lambda>(k, e). (k, entry_input e)) cols) = Inr (map ?clone cols)"
    using assms
  proof (induction cols)
    case (Cons x cols)
    then show ?case by (cases x) (auto simp: make_entry_def column_create_def column_clone_eq)
  qed simp
  have "rfold infer_rows (Some n) (map ?clone cols) = Inr (Some n)"
    using assms
  proof (induction cols)
    case (Cons x cols)
    have "column_len (c\<lparr>cl_pinned_by_dgl := False, cl_data_nd := None\<rparr>) = column_len c" for c :: "'a column"
      by (rule column_len_cong) simp_all
    then show ?case using Cons by (cases x) (auto simp: infer_rows_def)
  qed simp
  then show ?thesis using entries by (simp add: frame_of_entries_def frame_init_def same_initializers_def)
qed



section \<open>Appending a frame\<close>

fun append_content :: "'v content \<Rightarrow> 'v content \<Rightarrow> 'v content" where
  "append_content (ty, dims, rows) (ty', dims', rows') = (ty, dims, rows @ rows')"

text \<open>Two columns fit: their schemes agree, and what they hold agrees in type, shape and device.\<close>

definition columns_fit :: "'v frame_lib \<Rightarrow> 'v column \<Rightarrow> 'v column \<Rightarrow> 'v content \<Rightarrow> 'v content \<Rightarrow> bool" where
  "columns_fit L c d x y \<longleftrightarrow> column_holds L c x \<and> column_holds L d y \<and> cl_scheme c = cl_scheme d \<and>
     column_ctx L c = column_ctx L d \<and> fst x = fst y \<and> fst (snd x) = fst (snd y)"

lemma column_extend_holds:
  assumes L: "frame_laws L" and fit: "columns_fit L c d x y"
  shows "\<exists>t d' c'. column_tensor L d = Inr (t, d') \<and> cl_scheme d' = cl_scheme d \<and> column_holds L d' y \<and>
    column_extend L t (Some (cl_scheme d)) c = Inr c' \<and> column_holds L c' (append_content x y)"
proof -
  obtain t where t: "column_tensor L d = Inr (t, d\<lparr>cl_storage := Some t, cl_index := None, cl_device := None, cl_deferred_dtype := None\<rparr>)"
    "tensor_content t = y" "ft_ctx t = column_ctx L d" "device_ok (ft_ctx t)"
    using column_tensor_holds [OF L] fit by (fastforce simp: columns_fit_def)
  obtain u where u: "column_tensor L c = Inr (u, c\<lparr>cl_storage := Some u, cl_index := None, cl_device := None, cl_deferred_dtype := None\<rparr>)"
    "tensor_content u = x" "ft_ctx u = column_ctx L c" "device_ok (ft_ctx u)"
    using column_tensor_holds [OF L] fit by (fastforce simp: columns_fit_def)
  let ?d = "d\<lparr>cl_storage := Some t, cl_index := None, cl_device := None, cl_deferred_dtype := None\<rparr>"
  let ?c = "c\<lparr>cl_storage := Some u, cl_index := None, cl_device := None, cl_deferred_dtype := None\<rparr>"
  let ?s = "u\<lparr>ft_rows := ft_rows u @ ft_rows t\<rparr>"
  have "cat_tensors L u t = Inr ?s"
    using fit t u by (auto simp: cat_tensors_def columns_fit_def tensor_content_def astype_tensor_def Let_def)
  then have e: "column_extend L t (Some (cl_scheme d)) c = Inr (column_set_data ?s ?c)"
    using u(1) fit by (simp add: column_extend_def columns_fit_def)
  have "column_holds L ?d y" using holds_read [of ?d t L y] t(2,4) by simp
  moreover have "column_holds L (column_set_data ?s ?c) (append_content x y)"
    using holds_read [of "column_set_data ?s ?c" ?s L "append_content x y"] u(2,4) t(2) by (auto simp: column_set_data_def tensor_content_def)
  ultimately show ?thesis using t(1) e
    by (intro exI [of _ t] exI [of _ ?d] exI [of _ "column_set_data ?s ?c"]) simp
qed

lemma extend_from_holds:
  assumes L: "frame_laws L" and c: "map_of (fr_columns f) k = Some (Feature c)" and d: "map_of (fr_columns g) k = Some (Feature d)"
    and fit: "columns_fit L c d x y"
  shows "\<exists>c' d'. extend_from L S (f, g) k = Inr (set_entry k (Feature c') f, set_entry k (Feature d') g) \<and>
    column_holds L c' (append_content x y) \<and> column_holds L d' y"
proof -
  have "frame_contains k f" using map_of_keys [OF c] by (simp add: frame_contains_keys)
  then show ?thesis
    using column_extend_holds [OF L fit] c d by (fastforce simp: extend_from_def dict_get_Some)
qed

lemma extend_all_holds:
  assumes L: "frame_laws L" and "distinct ks" and "set ks \<subseteq> dom v" and "frame_shows L f v" and "frame_shows L g w"
    and "\<forall>k \<in> set ks. \<exists>c d x y. map_of (fr_columns f) k = Some (Feature c) \<and> map_of (fr_columns g) k = Some (Feature d) \<and>
      v k = Some x \<and> w k = Some y \<and> columns_fit L c d x y"
  shows "\<exists>f' g'. rfold (extend_from L S) (f, g) ks = Inr (f', g') \<and> frame_shows L g' w \<and> fr_num_rows f' = fr_num_rows f \<and>
    fr_num_rows g' = fr_num_rows g \<and> frame_shows L f' (\<lambda>k. if k \<in> set ks then Some (append_content (the (v k)) (the (w k))) else v k)"
  using assms(2-)
proof (induction ks arbitrary: f g v)
  case (Cons k ks)
  obtain c d x y where k: "map_of (fr_columns f) k = Some (Feature c)" "map_of (fr_columns g) k = Some (Feature d)"
    "v k = Some x" "w k = Some y" "columns_fit L c d x y" using Cons.prems(5) by auto
  from extend_from_holds [OF L k(1,2,5), of S] obtain c' d' where
    e: "extend_from L S (f, g) k = Inr (set_entry k (Feature c') f, set_entry k (Feature d') g)"
    "column_holds L c' (append_content x y)" "column_holds L d' y" by blast
  let ?f = "set_entry k (Feature c') f"
  let ?g = "set_entry k (Feature d') g"
  let ?v = "v(k \<mapsto> append_content x y)"
  have f: "frame_shows L ?f ?v" using frame_shows_set [OF Cons.prems(3) e(2)] .
  have "w(k \<mapsto> y) = w" using k(4) by auto
  then have g: "frame_shows L ?g w" using frame_shows_set [OF Cons.prems(4) e(3), of k] by simp
  have "\<forall>j \<in> set ks. \<exists>c d x y. map_of (fr_columns ?f) j = Some (Feature c) \<and> map_of (fr_columns ?g) j = Some (Feature d) \<and>
      ?v j = Some x \<and> w j = Some y \<and> columns_fit L c d x y"
    using Cons.prems(1,5) by auto
  moreover have "set ks \<subseteq> dom ?v" "distinct ks" using Cons.prems(1,2) by auto
  ultimately obtain f' g' where r: "rfold (extend_from L S) (?f, ?g) ks = Inr (f', g')" "frame_shows L g' w"
    "fr_num_rows f' = fr_num_rows ?f" "fr_num_rows g' = fr_num_rows ?g"
    "frame_shows L f' (\<lambda>k. if k \<in> set ks then Some (append_content (the (?v k)) (the (w k))) else ?v k)"
    using Cons.IH [OF _ _ f g] by blast
  have "(\<lambda>j. if j \<in> set ks then Some (append_content (the (?v j)) (the (w j))) else ?v j) =
      (\<lambda>j. if j \<in> set (k # ks) then Some (append_content (the (v j)) (the (w j))) else v j)"
    using Cons.prems(1) k(3,4) by (auto simp: fun_eq_iff)
  then show ?case using e(1) r by simp
qed simp

text \<open>C5. Appending a frame with the same columns: it succeeds, the number of rows is the sum, and every
  column is the concatenation of the two columns, however lazy either was; the appended frame shows
  what it did before.\<close>

theorem append_concatenates:
  assumes "frame_laws L" and "frame_table L f n v" and "frame_table L g m w" and "set (frame_keys f) = set (frame_keys g)"
    and "\<forall>k \<in> set (frame_keys g). case (map_of (fr_columns f) k, map_of (fr_columns g) k, v k, w k) of
      (Some (Feature c), Some (Feature d), Some x, Some y) \<Rightarrow> columns_fit L c d x y | _ \<Rightarrow> False"
  shows "\<exists>f' g'. frame_append L (From_frame g) f S = Inr (f', g', S) \<and> frame_table L g' m w \<and>
    frame_table L f' (n + m) (\<lambda>k. if v k = None then None else Some (append_content (the (v k)) (the (w k))))"
proof -
  have sh: "frame_shows L f v" "frame_shows L g w" and n: "fr_num_rows f = Some n" "fr_num_rows g = Some m"
    using assms(2,3) by (simp_all add: frame_table_def)
  have dom: "dom v = set (frame_keys f)" "dom w = set (frame_keys g)" "distinct (frame_keys g)"
    using sh by (simp_all add: frame_shows_def)
  have pad: "rfold (pad_other L S) (f, g) ks = Inr (f, g)" if "set ks \<subseteq> set (frame_keys g)" for ks
    using that by (induction ks) (simp_all add: pad_other_def frame_contains_keys)
  have fit: "\<forall>k \<in> set (frame_keys g). \<exists>c d x y. map_of (fr_columns f) k = Some (Feature c) \<and> map_of (fr_columns g) k = Some (Feature d) \<and>
      v k = Some x \<and> w k = Some y \<and> columns_fit L c d x y"
  proof
    fix k assume "k \<in> set (frame_keys g)"
    from bspec [OF assms(5) this] show "\<exists>c d x y. map_of (fr_columns f) k = Some (Feature c) \<and> map_of (fr_columns g) k = Some (Feature d) \<and>
        v k = Some x \<and> w k = Some y \<and> columns_fit L c d x y"
      by (cases "map_of (fr_columns f) k"; cases "map_of (fr_columns g) k"; cases "the (map_of (fr_columns f) k)";
          cases "the (map_of (fr_columns g) k)"; cases "v k"; cases "w k") simp_all
  qed
  have sub: "set (frame_keys g) \<subseteq> dom v" using dom(1) assms(4) by simp
  obtain f' g' where r: "rfold (extend_from L S) (f, g) (frame_keys g) = Inr (f', g')" "frame_shows L g' w"
    "fr_num_rows f' = fr_num_rows f" "fr_num_rows g' = fr_num_rows g"
    "frame_shows L f' (\<lambda>k. if k \<in> set (frame_keys g) then Some (append_content (the (v k)) (the (w k))) else v k)"
    using extend_all_holds [OF assms(1) dom(3) sub sh fit, of S] by blast
  have eq: "(\<lambda>k. if k \<in> set (frame_keys g) then Some (append_content (the (v k)) (the (w k))) else v k) =
      (\<lambda>k. if v k = None then None else Some (append_content (the (v k)) (the (w k))))"
  proof
    fix k
    have "v k = None \<longleftrightarrow> k \<notin> set (frame_keys g)" using dom(1) assms(4) by (metis domIff)
    then show "(if k \<in> set (frame_keys g) then Some (append_content (the (v k)) (the (w k))) else v k) =
        (if v k = None then None else Some (append_content (the (v k)) (the (w k))))" by simp
  qed
  let ?f = "f'\<lparr>fr_num_rows := Some (n + m)\<rparr>"
  let ?v = "\<lambda>k. if v k = None then None else Some (append_content (the (v k)) (the (w k)))"
  have run: "frame_append L (From_frame g) f S = Inr (?f, g', S)"
    using pad [of "frame_keys f"] assms(4) r(1,3,4) n by (simp add: frame_append_def append_columns_def add_num_rows_def)
  have len: "int (length (content_rows (append_content x y))) = n + m" if "v k = Some x" "w k = Some y" for k x y
  proof -
    have "k \<in> set (frame_keys f)" "k \<in> set (frame_keys g)" using that dom by auto
    then show ?thesis using assms(2,3) that by (cases x; cases y) (auto simp: frame_table_def dest!: bspec)
  qed
  have f's: "frame_shows L ?f ?v" using r(5) unfolding eq by (simp add: frame_shows_def frame_keys_def)
  have "case ?v k of None \<Rightarrow> False | Some z \<Rightarrow> int (length (content_rows z)) = n + m" if "k \<in> set (frame_keys ?f)" for k
  proof -
    have "k \<in> dom ?v" using that f's by (simp add: frame_shows_def)
    then obtain x where x: "v k = Some x" by (auto simp: dom_def split: if_splits)
    then have "k \<in> dom w" using dom assms(4) by auto
    then obtain y where "w k = Some y" by auto
    then show ?thesis using len [OF x] x by simp
  qed
  then have "frame_table L ?f (n + m) ?v" using f's by (simp add: frame_table_def)
  moreover have "frame_table L g' m w"
    using assms(3) r(2,4) n(2) by (auto simp: frame_table_def frame_shows_def)
  ultimately show ?thesis using run by blast
qed

theorem append_concatenates_witness:
  "\<exists>f' g'. frame_append example_frame_lib (From_frame example_frame) example_frame example_store = Inr (f', g', example_store) \<and>
    frame_table example_frame_lib f' 6 (\<lambda>k. if k = ''x'' then Some (Float32, [], [10, 20, 30, 10, 20, 30]) else None)"
proof -
  let ?v = "[''x'' \<mapsto> (Float32, [], [10, 20, 30])]"
  have h: "column_holds example_frame_lib (example_column [10, 20, 30]) (Float32, [], [10, 20, 30])" by (rule example_column_holds)
  then have "frame_shows example_frame_lib example_frame ?v" by (simp add: frame_shows_def frame_keys_def example_frame_def)
  then have t: "frame_table example_frame_lib example_frame 3 ?v" by (simp add: frame_table_def frame_keys_def example_frame_def)
  have fit: "\<forall>k \<in> set (frame_keys example_frame). case (map_of (fr_columns example_frame) k, map_of (fr_columns example_frame) k, ?v k, ?v k) of
      (Some (Feature c), Some (Feature d), Some x, Some y) \<Rightarrow> columns_fit example_frame_lib c d x y | _ \<Rightarrow> False"
    using h by (simp add: frame_keys_def example_frame_def columns_fit_def)
  have eq: "(\<lambda>k. if ?v k = None then None else Some (append_content (the (?v k)) (the (?v k)))) =
      (\<lambda>k. if k = ''x'' then Some (Float32, [], [10, 20, 30, 10, 20, 30]) else None)" by (simp add: fun_eq_iff)
  show ?thesis using append_concatenates [OF example_frame_laws t t refl fit, of example_store] unfolding eq by auto
qed

text \<open>The deep copy of a frame that has a column fails.\<close>

lemma deepclone_fails:
  assumes "frame_laws L" and "frame_shows L f v" and "fr_columns f \<noteq> []"
  shows "frame_deepclone L f S = Inl NameError"
proof -
  obtain k e cols where cols: "fr_columns f = (k, e) # cols" using assms(3) by (cases "fr_columns f") auto
  then obtain c x where c: "e = Feature c" "column_holds L c x"
    using assms(2) by (cases e; cases "v k") (auto simp: frame_shows_def)
  obtain t d where "column_tensor L c = Inr (t, d)" using column_tensor_holds [OF assms(1) c(2)] by blast
  then show ?thesis using cols c(1) by (simp add: frame_deepclone_def map_entries_def column_deepclone_def)
qed

end
