(* ===== verification/GbBase.thy ===== *)
theory GbBase
  imports NdArray HeteroName
begin

text \<open>
  \<^verbatim>\<open>python/dgl/graphbolt/base.py\<close>: names of edge types, the tensor operations of the library
  \<^verbatim>\<open>graphbolt/src\<close> in C++ that GraphBolt calls on the CPU, matrices in CSC format and the pipe that buffers
  items. Tensors are on the CPU; identifiers are integers, of which only the code that packs two of
  them into one word depends on the width.
\<close>

section \<open>Names of edge types\<close>

definition gb_etype_delimiter :: char where
  "gb_etype_delimiter = CHR '':''"

fun gb_etype_tuple_to_str :: "type_name \<Rightarrow> string res" where
  "gb_etype_tuple_to_str (TStr s) = Inl AssertionError"
| "gb_etype_tuple_to_str (TTup ts) =
     (if length ts = 3 then Inr (join_with gb_etype_delimiter ts) else Inl AssertionError)"

fun gb_etype_str_to_tuple :: "type_name \<Rightarrow> string list res" where
  "gb_etype_str_to_tuple (TTup ts) = Inr ts"
| "gb_etype_str_to_tuple (TStr s) =
     (let ret = split_on gb_etype_delimiter s
      in rbind (rassert (length ret = 3) AssertionError) (\<lambda>_. Inr ret))"

text \<open>The callers unpack a source type, a relation and a destination type.\<close>

definition etype_ends :: "string \<Rightarrow> (string \<times> string) res" where
  "etype_ends etype =
     rbind (gb_etype_str_to_tuple (TStr etype)) (\<lambda>ts. Inr (ts ! 0, ts ! 2))"

fun every_other :: "'a list \<Rightarrow> 'a list" where
  "every_other [] = []"
| "every_other [x] = [x]"
| "every_other (x # y # zs) = x # every_other zs"

definition seed_type_str_to_ntypes :: "string \<Rightarrow> int \<Rightarrow> string list" where
  "seed_type_str_to_ntypes seed_type seed_size =
     (let ntypes = split_on gb_etype_delimiter seed_type;
          is_hyperlink = (int (length ntypes) = seed_size)
      in if \<not> is_hyperlink then every_other ntypes else ntypes)"

section \<open>Tensor operations\<close>

text \<open>Differences of neighbours, and the repetition of elements: as often as the counts say, or all of
  them as often as a single count says.\<close>

definition diff :: "int list \<Rightarrow> int list" where
  "diff xs = map (\<lambda>(a, b). b - a) (zip xs (tl xs))"

definition repeat_interleave :: "'a list \<Rightarrow> int list \<Rightarrow> int option \<Rightarrow> 'a list res" where
  "repeat_interleave xs counts output_size =
     (let ns = (if length counts = 1 then replicate (length xs) (hd counts) else counts) in
      if length ns \<noteq> length xs \<or> (\<exists>n \<in> set counts. n < 0) then Inl RuntimeError
      else let out = concat (map (\<lambda>(x, n). replicate (nat n) x) (zip xs ns)) in
        if output_size = None \<or> output_size = Some (int (length out)) then Inr out else Inl RuntimeError)"

definition repeat_positions :: "int list \<Rightarrow> int option \<Rightarrow> int list res" where
  "repeat_positions counts output_size =
     (if \<exists>n \<in> set counts. n < 0 then Inl RuntimeError
      else let out = concat (map (\<lambda>i. replicate (nat (counts ! i)) (int i)) [0..<length counts]) in
        if output_size = None \<or> output_size = Some (int (length out)) then Inr out else Inl RuntimeError)"

definition expand_indptr :: "int list \<Rightarrow> bool \<Rightarrow> int list option \<Rightarrow> int option \<Rightarrow> int list res" where
  "expand_indptr indptr has_dtype node_ids output_size =
     rbind (rassert (\<not> (node_ids = None \<and> \<not> has_dtype)) AssertionError) (\<lambda>_.
     case node_ids of
       None \<Rightarrow> repeat_positions (diff indptr) output_size
     | Some ids \<Rightarrow> repeat_interleave ids (diff indptr) output_size)"

definition isin :: "'a list \<Rightarrow> 'a list \<Rightarrow> bool list" where
  "isin elements test_elements = map (\<lambda>x. x \<in> set test_elements) elements"

definition gb_index_select :: "'a list \<Rightarrow> int list \<Rightarrow> 'a list res" where
  "gb_index_select t index = take_rows t index"

text \<open>\<open>searchsorted\<close> in a sorted sequence: before how many elements a value goes.\<close>

definition searchsorted_left :: "int list \<Rightarrow> int list \<Rightarrow> int list" where
  "searchsorted_left seq vals = map (\<lambda>v. int (length (filter (\<lambda>x. x < v) seq))) vals"

definition split_sizes :: "'a list \<Rightarrow> int list \<Rightarrow> 'a list list res" where
  "split_sizes xs sizes =
     (if (\<exists>n \<in> set sizes. n < 0) \<or> sum_list sizes \<noteq> int (length xs) then Inl RuntimeError
      else Inr (map (\<lambda>i. take (nat (sizes ! i)) (drop (nat (sum_list (take i sizes))) xs)) [0..<length sizes]))"

definition cat_all :: "'a list list \<Rightarrow> 'a list res" where
  "cat_all ts = (if ts = [] then Inl RuntimeError else Inr (concat ts))"

section \<open>Matrices in CSC format\<close>

record csc =
  cs_indptr :: "int list"
  cs_indices :: "int list"

definition csc_init :: "int list \<Rightarrow> int list \<Rightarrow> csc res" where
  "csc_init indptr indices =
     rbind (py_index indptr (- 1)) (\<lambda>last.
     rbind (rassert (last = int (length indices)) AssertionError) (\<lambda>_.
     Inr \<lparr>cs_indptr = indptr, cs_indices = indices\<rparr>))"

text \<open>A value for a homogeneous graph, or one for each type of a heterogeneous one.\<close>

datatype 'a per_type = Homo 'a | Hetero "(string \<times> 'a) list"

section \<open>Buffering\<close>

text \<open>What a buffering pipe does, in order: it takes an item from the pipe below, or it gives one away.\<close>

datatype 'a pipe_event = Took 'a | Gave 'a

definition bufferer_init :: "int \<Rightarrow> int res" where
  "bufferer_init buffer_size = (if buffer_size \<le> 0 then Inl ValueError else Inr buffer_size)"

fun bufferer_iter :: "int \<Rightarrow> 'a list \<Rightarrow> 'a list \<Rightarrow> 'a pipe_event list" where
  "bufferer_iter maxlen buffer [] = map Gave buffer"
| "bufferer_iter maxlen buffer (x # xs) =
     Took x #
     (if int (length buffer) < maxlen then bufferer_iter maxlen (buffer @ [x]) xs
      else Gave (hd buffer) # bufferer_iter maxlen (tl buffer @ [x]) xs)"

fun bufferer_getstate :: "'p \<times> int \<times> 'a list \<Rightarrow> 'p \<times> int" where
  "bufferer_getstate (datapipe, maxlen, buffer) = (datapipe, maxlen)"

fun bufferer_setstate :: "'p \<times> int \<Rightarrow> 'p \<times> int \<times> 'a list" where
  "bufferer_setstate (datapipe, maxlen) = (datapipe, maxlen, [])"

text \<open>The waiting pipe gives each item away after its wait; a wait may fail.\<close>

definition waiter_iter :: "('f \<Rightarrow> 'a res) \<Rightarrow> 'f list \<Rightarrow> 'a list res" where
  "waiter_iter wait items = rmap wait items"

section \<open>Properties\<close>

lemma etype_ends_Inr: "etype_ends etype = Inr (s, d) \<longleftrightarrow> (\<exists>r. split_on gb_etype_delimiter etype = [s, r, d])"
proof -
  have "length ts = 3 \<longleftrightarrow> (\<exists>a b c. ts = [a, b, c])" for ts :: "string list"
    by (auto simp: numeral_3_eq_3 length_Suc_conv)
  then show ?thesis by (auto simp: etype_ends_def Let_def rbind_eq_Inr)
qed

lemma gb_etype_roundtrip:
  assumes "length ts = 3" and "\<forall>t \<in> set ts. gb_etype_delimiter \<notin> set t"
  shows "rbind (gb_etype_tuple_to_str (TTup ts)) (\<lambda>s. gb_etype_str_to_tuple (TStr s)) = Inr ts"
proof -
  have "split_on gb_etype_delimiter (join_with gb_etype_delimiter ts) = ts"
    using assms by (intro split_join) auto
  then show ?thesis using assms(1) by simp
qed

lemma every_other_3: "every_other [a, b, c] = [a, c]"
  by simp

text \<open>What an item pipe gives and takes.\<close>

definition given :: "'a pipe_event list \<Rightarrow> 'a list" where
  "given es = concat (map (\<lambda>e. case e of Gave x \<Rightarrow> [x] | Took x \<Rightarrow> []) es)"

definition taken :: "'a pipe_event list \<Rightarrow> 'a list" where
  "taken es = concat (map (\<lambda>e. case e of Took x \<Rightarrow> [x] | Gave x \<Rightarrow> []) es)"

lemma given_simps [simp]:
  "given [] = []" "given (Gave x # es) = x # given es" "given (Took x # es) = given es"
  "given (map Gave xs) = xs" "taken [] = []" "taken (Took x # es) = x # taken es" "taken (Gave x # es) = taken es"
  "taken (map Gave xs) = []"
  by (simp_all add: given_def taken_def comp_def concat_map_singleton [where f = id, simplified])

lemma bufferer_gives:
  "0 < n \<Longrightarrow> int (length buffer) \<le> n \<Longrightarrow> given (bufferer_iter n buffer xs) = buffer @ xs \<and> taken (bufferer_iter n buffer xs) = xs"
proof (induction n buffer xs rule: bufferer_iter.induct)
  case (2 n buffer x xs)
  then show ?case by (cases buffer) auto
qed simp

text \<open>Whenever an item is given away, the pipe has run ahead by as much as its buffer holds, and never by
  more than one item more.\<close>

lemma bufferer_ahead:
  assumes "0 < n" and "int (length buffer) \<le> n" and "bufferer_iter n buffer xs = es @ es'"
  shows "int (length buffer + length (taken es)) - int (length (given es)) \<le> n + 1"
  using assms
proof (induction n buffer xs arbitrary: es rule: bufferer_iter.induct)
  case (1 n buffer)
  have "taken es = []"
  proof -
    have "map Gave buffer = es @ es'" using 1(3) by simp
    then obtain bs where "es = map Gave bs" by (auto simp: map_eq_append_conv)
    then show ?thesis by simp
  qed
  then show ?case using 1 by simp
next
  case (2 n buffer x xs)
  show ?case
  proof (cases es)
    case Nil
    then show ?thesis using 2(4) by simp
  next
    case (Cons e fs)
    then have e: "e = Took x" using 2(5) by simp
    show ?thesis
    proof (cases "int (length buffer) < n")
      case True
      then have "bufferer_iter n (buffer @ [x]) xs = fs @ es'" using 2(5) Cons by simp
      from 2(1) [OF True 2(3) _ this] True show ?thesis using Cons e by simp
    next
      case False
      then have len: "int (length buffer) = n" "buffer \<noteq> []" using 2(3,4) by auto
      show ?thesis
      proof (cases fs)
        case Nil
        then show ?thesis using Cons e len by simp
      next
        case (Cons f gs)
        then have "f = Gave (hd buffer)" "bufferer_iter n (tl buffer @ [x]) xs = gs @ es'"
          using 2(5) False \<open>es = e # fs\<close> by simp_all
        then show ?thesis using 2(2) [OF False 2(3) _ \<open>bufferer_iter n (tl buffer @ [x]) xs = gs @ es'\<close>] len e \<open>es = e # fs\<close> Cons by simp
      qed
    qed
  qed
qed

text \<open>C23. The buffering pipe passes on every item it takes, in order, after the items that were left in the
  buffer, and at no time has it taken more than the size of the buffer and one item beyond what it
  has given.\<close>

theorem bufferer_order:
  assumes "bufferer_init buffer_size = Inr n" and "int (length buffer) \<le> n" and "bufferer_iter n buffer xs = es @ es'"
  shows "given (es @ es') = buffer @ xs \<and> int (length buffer + length (taken es)) - int (length (given es)) \<le> n + 1"
proof -
  have "0 < n" using assms(1) by (simp add: bufferer_init_def split: if_splits)
  then show ?thesis using bufferer_gives [of n buffer xs] bufferer_ahead [OF _ assms(2,3)] assms(2,3) by simp
qed

theorem bufferer_order_witness:
  "given (bufferer_iter 2 [] [1, 2, 3 :: int]) = [1, 2, 3] \<and>
    bufferer_iter 2 [] [1, 2, 3 :: int] = [Took 1, Took 2, Took 3, Gave 1, Gave 2, Gave 3]"
proof -
  have "bufferer_init 2 = Inr 2" by (simp add: bufferer_init_def)
  moreover have run: "bufferer_iter 2 [] [1, 2, 3 :: int] = [Took 1, Took 2] @ [Took 3, Gave 1, Gave 2, Gave 3]" by simp
  ultimately show ?thesis using bufferer_order [of 2 2 "[]" "[1, 2, 3]" "[Took 1, Took 2]" "[Took 3, Gave 1, Gave 2, Gave 3]"] by simp
qed

end
