(* ===== verification/GbCompact.thy ===== *)
theory GbCompact
  imports GbBase
begin

text \<open>
  Compacting node identifiers, \<^verbatim>\<open>python/dgl/graphbolt/internal/sample_utils.py\<close>, over the CPU part of
  \<^verbatim>\<open>graphbolt/src/unique_and_compact.cc\<close> and \<^verbatim>\<open>concurrent_id_hash_map.cc\<close>. The hash map is the table from
  an identifier to its number; an identifier is never -1, which marks an empty place of the table.
\<close>

section \<open>The map of identifiers\<close>

definition first_index :: "int list \<Rightarrow> int \<Rightarrow> nat" where
  "first_index ids x = length (takeWhile (\<lambda>y. y \<noteq> x) ids)"

definition id_map_valid :: "int list \<Rightarrow> nat \<Rightarrow> nat list" where
  "id_map_valid ids num_seeds = filter (\<lambda>i. first_index ids (ids ! i) = i) [num_seeds..<length ids]"

definition id_map_unique :: "int list \<Rightarrow> nat \<Rightarrow> int list" where
  "id_map_unique ids num_seeds = take num_seeds ids @ map (\<lambda>i. ids ! i) (id_map_valid ids num_seeds)"

definition id_map_id :: "int list \<Rightarrow> nat \<Rightarrow> int \<Rightarrow> int res" where
  "id_map_id ids num_seeds x =
     (let i = first_index ids x in
      if i = length ids then Inl RuntimeError
      else if i < num_seeds then Inr (int i)
      else Inr (int (num_seeds + length (filter (\<lambda>j. j < i) (id_map_valid ids num_seeds)))))"

type_synonym compacted = "int list \<times> int list \<times> int list \<times> int list"

definition unique_and_compact_cpu :: "int list \<Rightarrow> int list \<Rightarrow> int list \<Rightarrow> int \<Rightarrow> int \<Rightarrow> compacted res" where
  "unique_and_compact_cpu src_ids dst_ids unique_dst_ids rank world_size =
     (if world_size > 1 then Inl RuntimeError
      else let num_dst = length unique_dst_ids; ids = unique_dst_ids @ src_ids in
        rbind (rmap (id_map_id ids num_dst) src_ids) (\<lambda>compacted_src.
        rbind (rmap (id_map_id ids num_dst) dst_ids) (\<lambda>compacted_dst.
        Inr (id_map_unique ids num_dst, compacted_src, compacted_dst, [0, int (length (id_map_unique ids num_dst))]))))"

text \<open>A batch; the asynchronous call looks at the first entry before it starts.\<close>

definition unique_and_compact_batched :: "bool \<Rightarrow> int list list \<Rightarrow> int list list \<Rightarrow> int list list \<Rightarrow> int \<Rightarrow> int \<Rightarrow>
    compacted list res" where
  "unique_and_compact_batched async_op src_ids dst_ids unique_dst_ids rank world_size =
     (if async_op \<and> src_ids = [] then Inl RuntimeError
      else if length src_ids \<noteq> length dst_ids \<or> length dst_ids \<noteq> length unique_dst_ids then Inl RuntimeError
      else rmap (\<lambda>(s, d, u). unique_and_compact_cpu s d u rank world_size) (zip src_ids (zip dst_ids unique_dst_ids)))"

section \<open>Lists of nodes\<close>

definition compact_types :: "(string \<times> int list list) list \<Rightarrow> int \<Rightarrow> int \<Rightarrow> bool \<Rightarrow>
    ((string \<times> int list) list \<times> (string \<times> int list list) list \<times> (string \<times> int list) list) res" where
  "compact_types nodes rank world_size async_op =
     rbind (rmap (\<lambda>(ntype, ts). cat_all ts) nodes) (\<lambda>concat_nodes.
     rbind (unique_and_compact_batched async_op concat_nodes (map (\<lambda>_. []) nodes) (map (\<lambda>_. []) nodes) rank world_size) (\<lambda>results.
     rbind (rmap (\<lambda>((ntype, ts), (unique, concat_compacted, dst, offsets)).
         rbind (split_sizes concat_compacted (map (\<lambda>t. int (length t)) ts)) (\<lambda>cs. Inr (ntype, unique, cs, offsets)))
       (zip nodes results)) (\<lambda>rs.
     Inr (map (\<lambda>(t, u, c, off). (t, u)) rs, map (\<lambda>(t, u, c, off). (t, c)) rs, map (\<lambda>(t, u, c, off). (t, off)) rs))))"

definition unique_and_compact :: "int list list per_type \<Rightarrow> int \<Rightarrow> int \<Rightarrow> bool \<Rightarrow>
    (int list per_type \<times> int list list per_type \<times> int list per_type) res" where
  "unique_and_compact nodes rank world_size async_op =
     (case nodes of
        Hetero d \<Rightarrow>
          rbind (compact_types d rank world_size async_op) (\<lambda>(u, c, off). Inr (Hetero u, Hetero c, Hetero off))
      | Homo ts \<Rightarrow>
          rbind (compact_types [(''a'', ts)] rank world_size async_op) (\<lambda>(u, c, off).
          rbind (dict_get u ''a'') (\<lambda>u. rbind (dict_get c ''a'') (\<lambda>c. rbind (dict_get off ''a'') (\<lambda>off.
          Inr (Homo u, Homo c, Homo off))))))"

definition compact_per_type :: "int list list \<Rightarrow> int list list \<Rightarrow> (int list \<times> int list \<times> int list list) res" where
  "compact_per_type ts stamps =
     rbind (cat_all ts) (\<lambda>nodes. rbind (cat_all stamps) (\<lambda>timestamps.
     rbind (split_sizes (arange 0 (int (length nodes))) (map (\<lambda>t. int (length t)) ts)) (\<lambda>compacted.
     Inr (nodes, timestamps, compacted))))"

definition compact_temporal_nodes :: "int list list per_type \<Rightarrow> int list list per_type \<Rightarrow>
    (int list per_type \<times> int list per_type \<times> int list list per_type) res" where
  "compact_temporal_nodes nodes nodes_timestamp =
     (case (nodes, nodes_timestamp) of
        (Homo ts, Homo stamps) \<Rightarrow> rbind (compact_per_type ts stamps) (\<lambda>(n, t, c). Inr (Homo n, Homo t, Homo c))
      | (Hetero d, Hetero stamps) \<Rightarrow>
          rbind (rmap (\<lambda>(ntype, ts). rbind (dict_get stamps ntype) (\<lambda>st.
              rbind (compact_per_type ts st) (\<lambda>r. Inr (ntype, r)))) d) (\<lambda>rs.
          Inr (Hetero (map (\<lambda>(k, n, t, c). (k, n)) rs), Hetero (map (\<lambda>(k, n, t, c). (k, t)) rs),
               Hetero (map (\<lambda>(k, n, t, c). (k, c)) rs)))
      | _ \<Rightarrow> Inl TypeError)"

section \<open>Matrices in CSC format\<close>

definition get_or :: "'v \<Rightarrow> (string \<times> 'v) list \<Rightarrow> string \<Rightarrow> 'v" where
  "get_or x d k = (case map_of d k of None \<Rightarrow> x | Some v \<Rightarrow> v)"

text \<open>The source nodes of each type, in the order of the matrices.\<close>

definition collect_indices :: "(string \<times> csc) list \<Rightarrow> (string \<times> int list) list \<Rightarrow> (string \<times> int list list) list res" where
  "collect_indices csc_formats unique_dst =
     rfold (\<lambda>ind (etype, m).
         rbind (etype_ends etype) (\<lambda>(src_type, dst_type).
         rbind (rassert (int (length (get_or [] unique_dst dst_type)) + 1 = int (length (cs_indptr m))) AssertionError) (\<lambda>_.
         Inr (AList.update src_type (get_or [] ind src_type @ [cs_indices m]) ind))))
       [] csc_formats"

text \<open>Handing the compacted identifiers back to the matrices, in the same order.\<close>

definition restore_csc :: "(string \<times> csc) list \<Rightarrow> (string \<times> int list) list \<Rightarrow> ((string \<times> csc) list) res" where
  "restore_csc csc_formats compacted =
     rbind (rfold (\<lambda>(out, rest) (etype, m).
         rbind (etype_ends etype) (\<lambda>(src_type, dst_type).
         rbind (dict_get rest src_type) (\<lambda>ids.
         rbind (csc_init (cs_indptr m) (take (length (cs_indices m)) ids)) (\<lambda>m'.
         Inr (AList.update etype m' out, AList.update src_type (drop (length (cs_indices m)) ids) rest)))))
       ([], compacted) csc_formats) (\<lambda>(out, rest). Inr out)"

text \<open>The order in which a set is iterated is a parameter.\<close>

definition compact_csc_types :: "(string list \<Rightarrow> string list) \<Rightarrow> (string \<times> csc) list \<Rightarrow> (string \<times> int list) list \<Rightarrow> int \<Rightarrow> int \<Rightarrow> bool \<Rightarrow>
    ((string \<times> int list) list \<times> (string \<times> csc) list \<times> (string \<times> int list) list) res" where
  "compact_csc_types set_order csc_formats unique_dst rank world_size async_op =
     rbind (collect_indices csc_formats unique_dst) (\<lambda>lists.
     rbind (rmap (\<lambda>(t, ls). rbind (cat_all ls) (\<lambda>xs. Inr (t, xs))) lists) (\<lambda>indices.
     if indices = [] then Inl IndexError
     else let ntypes = set_order (map fst indices);
              indice_list = map (get_or [] indices) ntypes;
              unique_dst_list = map (get_or [] unique_dst) ntypes in
       rbind (unique_and_compact_batched async_op indice_list (map (\<lambda>_. []) unique_dst_list) unique_dst_list rank world_size) (\<lambda>results.
       let unique_nodes = map (\<lambda>(t, (u, c, d, off)). (t, u)) (zip ntypes results);
           compacted = map (\<lambda>(t, (u, c, d, off)). (t, c)) (zip ntypes results);
           offsets = map (\<lambda>(t, (u, c, d, off)). (t, off)) (zip ntypes results) in
       rbind (restore_csc csc_formats compacted) (\<lambda>out. Inr (unique_nodes, out, offsets)))))"

definition unique_and_compact_csc_formats :: "(string list \<Rightarrow> string list) \<Rightarrow> csc per_type \<Rightarrow> int list per_type option \<Rightarrow> int \<Rightarrow> int \<Rightarrow> bool \<Rightarrow>
    (int list per_type \<times> csc per_type \<times> int list per_type) res" where
  "unique_and_compact_csc_formats set_order csc_formats unique_dst_nodes rank world_size async_op =
     (case csc_formats of
        Homo m \<Rightarrow>
          (case unique_dst_nodes of
             Some (Homo dst) \<Rightarrow>
               rbind (compact_csc_types set_order [(''_N:_E:_N'', m)] [(''_N'', dst)] rank world_size async_op) (\<lambda>(u, c, off).
               Inr (Homo (snd (hd u)), Homo (snd (hd c)), Homo (snd (hd off))))
           | Some (Hetero d) \<Rightarrow> Inl AssertionError
           | None \<Rightarrow> Inl AttributeError)
      | Hetero ms \<Rightarrow>
          (case unique_dst_nodes of
             Some (Hetero dst) \<Rightarrow>
               rbind (compact_csc_types set_order ms dst rank world_size async_op) (\<lambda>(u, c, off). Inr (Hetero u, Hetero c, Hetero off))
           | _ \<Rightarrow> if ms = [] then Inl IndexError else rbind (etype_ends (fst (hd ms))) (\<lambda>_. Inl AttributeError)))"

section \<open>Matrices without unique nodes\<close>

definition broadcast_timestamps :: "csc \<Rightarrow> int list \<Rightarrow> int list res" where
  "broadcast_timestamps m dst_timestamps =
     expand_indptr (cs_indptr m) False (Some dst_timestamps) (Some (int (length (cs_indices m))))"

text \<open>The identifiers of the rows go behind those there are.\<close>

definition shift_indices :: "csc \<Rightarrow> int \<Rightarrow> csc res" where
  "shift_indices m offset = csc_init (cs_indptr m) (map (\<lambda>i. i + offset) (arange 0 (int (length (cs_indices m)))))"

definition compact_csc_homo :: "csc \<Rightarrow> int list \<Rightarrow> int list option \<Rightarrow> (int list \<times> csc \<times> int list option) res" where
  "compact_csc_homo m dst_nodes dst_timestamps =
     rbind (rassert (int (length dst_nodes) + 1 = int (length (cs_indptr m))) AssertionError) (\<lambda>_.
     rbind (shift_indices m (int (length dst_nodes))) (\<lambda>m'.
     rbind (case dst_timestamps of None \<Rightarrow> Inr None
       | Some st \<Rightarrow> rbind (broadcast_timestamps m' st) (\<lambda>bs. Inr (Some (st @ bs)))) (\<lambda>src_timestamps.
     Inr (dst_nodes @ cs_indices m, m', src_timestamps))))"

type_synonym csc_state = "(string \<times> int list) list \<times> (string \<times> csc) list \<times> (string \<times> int list) list option"

definition compact_csc_step :: "(string \<times> int list) list \<Rightarrow> (string \<times> int list) list option \<Rightarrow> csc_state \<Rightarrow> string \<times> csc \<Rightarrow> csc_state res" where
  "compact_csc_step dst_nodes dst_timestamps st em =
     (case (st, em) of ((rows, out, stamps), (etype, m)) \<Rightarrow>
      rbind (etype_ends etype) (\<lambda>(src_type, dst_type).
      rbind (rassert (int (length (get_or [] dst_nodes dst_type)) + 1 = int (length (cs_indptr m))) AssertionError) (\<lambda>_.
      let offset = int (length (get_or [] rows src_type));
          rows' = AList.update src_type (get_or [] rows src_type @ cs_indices m) rows in
      rbind (shift_indices m offset) (\<lambda>m'.
      rbind (case (stamps, dst_timestamps) of
          (Some ss, Some ds) \<Rightarrow>
            rbind (dict_get ds dst_type) (\<lambda>d. rbind (broadcast_timestamps m d) (\<lambda>bs.
            Inr (Some (AList.update src_type (get_or [] ss src_type @ bs) ss))))
        | _ \<Rightarrow> Inr None) (\<lambda>stamps'.
      Inr (rows', AList.update etype m' out, stamps'))))))"

definition compact_csc_format :: "csc per_type \<Rightarrow> int list per_type option \<Rightarrow> int list per_type option \<Rightarrow>
    (int list per_type \<times> csc per_type \<times> int list per_type option) res" where
  "compact_csc_format csc_formats dst_nodes dst_timestamps =
     (case (csc_formats, dst_nodes, dst_timestamps) of
        (Homo m, None, _) \<Rightarrow> Inl AttributeError
      | (Homo m, Some (Hetero d), _) \<Rightarrow> Inl AssertionError
      | (Homo m, Some (Homo dst), None) \<Rightarrow>
          rbind (compact_csc_homo m dst None) (\<lambda>(r, m', st). Inr (Homo r, Homo m', None))
      | (Homo m, Some (Homo dst), Some (Homo ts)) \<Rightarrow>
          rbind (compact_csc_homo m dst (Some ts)) (\<lambda>(r, m', st). Inr (Homo r, Homo m', map_option Homo st))
      | (Hetero ms, Some (Hetero dst), None) \<Rightarrow>
          rbind (rfold (compact_csc_step dst None) (dst, [], None) ms) (\<lambda>(r, out, st). Inr (Hetero r, Hetero out, None))
      | (Hetero ms, Some (Hetero dst), Some (Hetero ts)) \<Rightarrow>
          rbind (rfold (compact_csc_step dst (Some ts)) (dst, [], Some ts) ms) (\<lambda>(r, out, st).
          Inr (Hetero r, Hetero out, map_option Hetero st))
      | (Hetero ms, _, _) \<Rightarrow> Inl AttributeError
      | (Homo m, Some (Homo dst), Some (Hetero ts)) \<Rightarrow> rbind (compact_csc_homo m dst None) (\<lambda>_. Inl AttributeError))"

end
