(* ===== verification/GbSubgraph.thy ===== *)
theory GbSubgraph
  imports GbCompact "HOL-Library.Word"
begin

text \<open>
  Sampled subgraphs, \<^verbatim>\<open>python/dgl/graphbolt/sampled_subgraph.py\<close> with \<^verbatim>\<open>impl/sampled_subgraph_impl.py\<close>: a
  matrix in CSC format for each edge type, with the original identifiers of its rows, columns and edges,
  and the exclusion of edges, which compares pairs of identifiers packed into words of 64 bits. The
  exclusion of seed edges is \<^verbatim>\<open>external_utils.py\<close>.
\<close>

unbundle bit_operations_syntax

section \<open>Sampled subgraphs\<close>

record subgraph =
  sg_csc :: "csc per_type"
  sg_col_ids :: "int list per_type option"
  sg_row_ids :: "int list per_type option"
  sg_edge_ids :: "int list per_type option"

definition subgraph_init :: "csc per_type \<Rightarrow> int list per_type option \<Rightarrow> int list per_type option \<Rightarrow> int list per_type option \<Rightarrow> subgraph res" where
  "subgraph_init sampled_csc col_ids row_ids edge_ids =
     rbind (case sampled_csc of
         Homo m \<Rightarrow> Inr ()
       | Hetero ms \<Rightarrow> rbind (rmap (\<lambda>(etype, m). etype_ends etype) ms) (\<lambda>_. Inr ())) (\<lambda>_.
     Inr \<lparr>sg_csc = sampled_csc, sg_col_ids = col_ids, sg_row_ids = row_ids, sg_edge_ids = edge_ids\<rparr>)"

section \<open>Excluding edges\<close>

text \<open>The original identifiers of the edges of a matrix: of the rows, and of the columns they are in.\<close>

definition to_reverse_ids :: "csc \<Rightarrow> int list option \<Rightarrow> int list option \<Rightarrow> (int list \<times> int list) res" where
  "to_reverse_ids m row_ids col_ids =
     rbind (case row_ids of None \<Rightarrow> Inr (cs_indices m) | Some ids \<Rightarrow> gather_row ids (cs_indices m)) (\<lambda>indices.
     rbind (expand_indptr (cs_indptr m) True col_ids (Some (int (length indices)))) (\<lambda>indptr.
     Inr (indices, indptr)))"

text \<open>Two arrays, renumbered together: \<open>unique\<close> sorts, and gives the place of each element.\<close>

definition relabel_two_arrays :: "int list \<Rightarrow> int list \<Rightarrow> int list \<times> int list" where
  "relabel_two_arrays lhs rhs =
     (let us = sorted_list_of_set (set (lhs @ rhs)); mapping = map (\<lambda>x. int (length (filter (\<lambda>y. y < x) us))) (lhs @ rhs)
      in (take (length lhs) mapping, drop (length lhs) mapping))"

definition pack_edge :: "int \<Rightarrow> int \<Rightarrow> 64 word" where
  "pack_edge u v = push_bit 32 (word_of_int u) OR word_of_int v"

definition exclude_homo_edges :: "int list \<times> int list \<Rightarrow> (int \<times> int) list \<Rightarrow> bool \<Rightarrow> int list res" where
  "exclude_homo_edges edges edges_to_exclude assume_num_node_within_int32 =
     (if assume_num_node_within_int32
      then let val = map (\<lambda>(u, v). pack_edge u v) (zip (fst edges) (snd edges));
               val_to_exclude = map (\<lambda>(u, v). pack_edge u v) edges_to_exclude in
        Inr (nonzero_1d (map Not (isin val val_to_exclude)))
      else Inl RuntimeError)"

text \<open>Slicing by the positions of the edges that stay; nothing is sliced where there are none.\<close>

definition slice_csc :: "csc \<Rightarrow> int list option \<Rightarrow> csc res" where
  "slice_csc m index =
     (case index of
        None \<Rightarrow> Inr m
      | Some ix \<Rightarrow> rbind (take_rows (cs_indices m) ix) (\<lambda>new_indices.
          csc_init (searchsorted_left ix (cs_indptr m)) new_indices))"

definition slice_ids :: "int list \<Rightarrow> int list option \<Rightarrow> int list res" where
  "slice_ids ids index = (case index of None \<Rightarrow> Inr ids | Some ix \<Rightarrow> take_rows ids ix)"

definition slice_typed :: "('a \<Rightarrow> int list option \<Rightarrow> 'a res) \<Rightarrow> 'a per_type \<Rightarrow> int list option per_type \<Rightarrow> 'a per_type res" where
  "slice_typed sel obj index =
     (case (obj, index) of
        (Homo x, Homo ix) \<Rightarrow> rbind (sel x ix) (\<lambda>y. Inr (Homo y))
      | (Hetero d, Hetero ixs) \<Rightarrow>
          rbind (rmap (\<lambda>(k, v). rbind (dict_get ixs k) (\<lambda>ix. rbind (sel v ix) (\<lambda>y. Inr (k, y)))) d) (\<lambda>d. Inr (Hetero d))
      | (Hetero d, Homo ix) \<Rightarrow> Inl AssertionError
      | (Homo x, Hetero ixs) \<Rightarrow> Inl TypeError)"

definition slice_subgraph :: "subgraph \<Rightarrow> int list option per_type \<Rightarrow> subgraph res" where
  "slice_subgraph sg index =
     rbind (slice_typed slice_csc (sg_csc sg) index) (\<lambda>sampled_csc.
     rbind (case sg_edge_ids sg of None \<Rightarrow> Inr None
       | Some ids \<Rightarrow> rbind (slice_typed slice_ids ids index) (\<lambda>ids. Inr (Some ids))) (\<lambda>edge_ids.
     subgraph_init sampled_csc (sg_col_ids sg) (sg_row_ids sg) edge_ids))"

text \<open>Identifiers of one type of a dictionary, if there are any; a tensor has no \<open>get\<close>.\<close>

definition ids_of_type :: "int list per_type option \<Rightarrow> string \<Rightarrow> int list option res" where
  "ids_of_type ids t =
     (case ids of None \<Rightarrow> Inr None | Some (Hetero d) \<Rightarrow> Inr (map_of d t) | Some (Homo x) \<Rightarrow> Inl AttributeError)"

definition whole_ids :: "py_error \<Rightarrow> int list per_type option \<Rightarrow> int list option res" where
  "whole_ids err ids =
     (case ids of None \<Rightarrow> Inr None | Some (Homo x) \<Rightarrow> Inr (Some x) | Some (Hetero d) \<Rightarrow> Inl err)"

definition exclude_type_index :: "subgraph \<Rightarrow> (string \<times> (int \<times> int) list) list \<Rightarrow> bool \<Rightarrow> string \<Rightarrow> csc \<Rightarrow> int list option res" where
  "exclude_type_index sg edges assume_num_node_within_int32 etype m =
     (case map_of edges etype of
        None \<Rightarrow> Inr None
      | Some es \<Rightarrow>
          rbind (etype_ends etype) (\<lambda>(src_type, dst_type).
          rbind (ids_of_type (sg_row_ids sg) src_type) (\<lambda>row_ids.
          rbind (ids_of_type (sg_col_ids sg) dst_type) (\<lambda>col_ids.
          rbind (to_reverse_ids m row_ids col_ids) (\<lambda>reverse_edges.
          rbind (exclude_homo_edges reverse_edges es assume_num_node_within_int32) (\<lambda>ix. Inr (Some ix)))))))"

definition exclude_index :: "subgraph \<Rightarrow> (int \<times> int) list per_type \<Rightarrow> bool \<Rightarrow> int list option per_type res" where
  "exclude_index sg edges assume_num_node_within_int32 =
     (case (sg_csc sg, edges) of
        (Homo m, Homo es) \<Rightarrow>
          rbind (whole_ids TypeError (sg_row_ids sg)) (\<lambda>row_ids. rbind (whole_ids AttributeError (sg_col_ids sg)) (\<lambda>col_ids.
          rbind (to_reverse_ids m row_ids col_ids) (\<lambda>reverse_edges.
          rbind (exclude_homo_edges reverse_edges es assume_num_node_within_int32) (\<lambda>ix. Inr (Homo (Some ix))))))
      | (Hetero ms, Hetero d) \<Rightarrow>
          rbind (rmap (\<lambda>(etype, m). rbind (exclude_type_index sg d assume_num_node_within_int32 etype m) (\<lambda>ix. Inr (etype, ix))) ms) (\<lambda>ixs.
          Inr (Hetero ixs))
      | _ \<Rightarrow> Inl AssertionError)"

definition exclude_edges :: "subgraph \<Rightarrow> (int \<times> int) list per_type \<Rightarrow> bool \<Rightarrow> subgraph res" where
  "exclude_edges sg edges assume_num_node_within_int32 =
     rbind (rassert assume_num_node_within_int32 AssertionError) (\<lambda>_.
     rbind (exclude_index sg edges assume_num_node_within_int32) (slice_subgraph sg))"

text \<open>The asynchronous form: an index is a future, which \<open>None\<close> is not.\<close>

definition wait_index :: "int list option per_type \<Rightarrow> int list option per_type res" where
  "wait_index index =
     (case index of
        Homo ix \<Rightarrow> Inr (Homo ix)
      | Hetero ixs \<Rightarrow> rbind (rmap (\<lambda>(k, ix). case ix of None \<Rightarrow> Inl AttributeError | Some i \<Rightarrow> Inr (k, Some i)) ixs) (\<lambda>ixs. Inr (Hetero ixs)))"

definition exclude_edges_async :: "subgraph \<Rightarrow> (int \<times> int) list per_type \<Rightarrow> bool \<Rightarrow> subgraph res" where
  "exclude_edges_async sg edges assume_num_node_within_int32 =
     rbind (rassert assume_num_node_within_int32 AssertionError) (\<lambda>_.
     rbind (exclude_index sg edges assume_num_node_within_int32) (\<lambda>index.
     rbind (wait_index index) (slice_subgraph sg)))"

section \<open>Seed edges\<close>

fun flip_edges :: "(int \<times> int) list \<Rightarrow> (int \<times> int) list" where
  "flip_edges es = map (\<lambda>(u, v). (v, u)) es"

definition add_reverse_edges :: "(int \<times> int) list per_type \<Rightarrow> (string \<times> string) list option \<Rightarrow> (int \<times> int) list per_type res" where
  "add_reverse_edges edges reverse_etypes_mapping =
     (case edges of
        Homo es \<Rightarrow> Inr (Homo (es @ flip_edges es))
      | Hetero d \<Rightarrow>
          (case reverse_etypes_mapping of
             None \<Rightarrow> Inl AttributeError
           | Some rev_types \<Rightarrow> Inr (Hetero (fold (\<lambda>(etype, reverse_etype) combined.
               case map_of d etype of
                 None \<Rightarrow> combined
               | Some es \<Rightarrow>
                   (case map_of combined reverse_etype of
                      Some cs \<Rightarrow> AList.update reverse_etype (cs @ flip_edges es) combined
                    | None \<Rightarrow> AList.update reverse_etype (flip_edges es) combined)) rev_types d))))"

definition exclude_seed_edges :: "(int \<times> int) list per_type \<Rightarrow> bool \<Rightarrow> (string \<times> string) list option \<Rightarrow> bool \<Rightarrow> subgraph list \<Rightarrow> subgraph list res" where
  "exclude_seed_edges seeds include_reverse_edges reverse_etypes_mapping async_op subgraphs =
     rbind (if include_reverse_edges then add_reverse_edges seeds reverse_etypes_mapping else Inr seeds) (\<lambda>edges.
     rmap (\<lambda>sg. if async_op then exclude_edges_async sg edges True else exclude_edges sg edges True) subgraphs)"

section \<open>Layers for PyG\<close>

record 'v pyg_layer =
  pl_x :: "'v list"
  pl_x_dst :: "'v list"
  pl_edge_index :: "int list \<times> int list"
  pl_size :: "int \<times> int"

definition edge_index_of :: "csc \<Rightarrow> (int list \<times> int list) res" where
  "edge_index_of m =
     rbind (expand_indptr (cs_indptr m) True None (Some (int (length (cs_indices m))))) (\<lambda>dst. Inr (cs_indices m, dst))"

definition to_pyg_homo :: "subgraph \<Rightarrow> 'v list \<Rightarrow> 'v pyg_layer res" where
  "to_pyg_homo sg x =
     (case sg_csc sg of
        Hetero ms \<Rightarrow> Inl AttributeError
      | Homo m \<Rightarrow>
          rbind (edge_index_of m) (\<lambda>ei.
          let dst_size = int (length (cs_indptr m)) - 1 in
          Inr \<lparr>pl_x = x, pl_x_dst = py_slice x 0 dst_size, pl_edge_index = ei, pl_size = (int (length x), dst_size)\<rparr>))"

definition to_pyg_hetero :: "subgraph \<Rightarrow> (string \<times> 'v list) list \<Rightarrow>
    ((string \<times> 'v list) list \<times> (string \<times> (int list \<times> int list)) list \<times> (string \<times> (int \<times> int)) list) res" where
  "to_pyg_hetero sg x =
     (case sg_csc sg of
        Homo m \<Rightarrow> Inl AttributeError
      | Hetero ms \<Rightarrow>
          rfold (\<lambda>(x_dst, edge_index, sizes) (etype, m).
            rbind (edge_index_of m) (\<lambda>ei.
            let dst_size = int (length (cs_indptr m)) - 1 in
            rbind (etype_ends etype) (\<lambda>(src_ntype, dst_ntype).
            rbind (dict_get x dst_ntype) (\<lambda>xd. rbind (dict_get x src_ntype) (\<lambda>xs.
            Inr (AList.update dst_ntype (py_slice xd 0 dst_size) x_dst, AList.update etype ei edge_index,
                 AList.update etype (int (length xs), dst_size) sizes)))))) ([], [], []) ms)"

end
