(* ===== verification/GbCompactProps.thy ===== *)
theory GbCompactProps
  imports GbCompact "HOL-Library.Sublist"
begin

text \<open>
  What compacting promises: the numbers look up the identifiers they stand for, every identifier is
  listed once, and the seeds keep the first numbers.
\<close>

section \<open>The map of identifiers\<close>

lemma map_of_keyed: "k \<in> fst ` set xs \<Longrightarrow> map_of (map (\<lambda>(k, v). (k, f k)) xs) k = Some (f k)"
  by (induction xs) auto

definition numbers :: "'a list \<Rightarrow> int list \<Rightarrow> 'a list \<Rightarrow> bool" where
  "numbers us cs xs \<longleftrightarrow> (\<forall>i \<in> set cs. 0 \<le> i \<and> i < int (length us)) \<and> map (\<lambda>i. us ! nat i) cs = xs"

lemma first_index_simps [simp]:
  "first_index [] x = 0" "first_index (y # ys) x = (if y = x then 0 else Suc (first_index ys x))"
  by (simp_all add: first_index_def)

lemma first_index_in:
  assumes "x \<in> set ids"
  shows "first_index ids x < length ids" and "ids ! first_index ids x = x" and "j < first_index ids x \<Longrightarrow> ids ! j \<noteq> x"
proof -
  have "first_index ids x < length ids \<and> ids ! first_index ids x = x \<and> (\<forall>j < first_index ids x. ids ! j \<noteq> x)"
    using assms by (induction ids) (auto simp: nth_Cons split: nat.splits if_splits)
  then show "first_index ids x < length ids" "ids ! first_index ids x = x" "j < first_index ids x \<Longrightarrow> ids ! j \<noteq> x" by simp_all
qed

lemma first_index_le: "i < length ids \<Longrightarrow> first_index ids (ids ! i) \<le> i"
  using first_index_in(3) [of "ids ! i" ids i] by (meson not_le nth_mem)

lemma valid_position:
  assumes "n \<le> j" and "j < length ids" and "first_index ids (ids ! j) = j"
  defines "V \<equiv> id_map_valid ids n"
  shows "length (filter (\<lambda>i. i < j) V) < length V" and "V ! length (filter (\<lambda>i. i < j) V) = j"
proof -
  have s: "[n..<length ids] = [n..<j] @ j # [Suc j..<length ids]"
    using assms(1,2) by (metis upt_append upt_conv_Cons le_eq_less_or_eq less_imp_le_nat)
  let ?P = "\<lambda>i. first_index ids (ids ! i) = i"
  have V: "V = filter ?P [n..<j] @ j # filter ?P [Suc j..<length ids]"
    unfolding V_def id_map_valid_def s using assms(3) by simp
  have "filter (\<lambda>i. i < j) (filter ?P [n..<j]) = filter ?P [n..<j]"
    by (rule filter_True) auto
  moreover have "filter (\<lambda>i. i < j) (filter ?P [Suc j..<length ids]) = []"
    by (rule filter_False) auto
  ultimately have "filter (\<lambda>i. i < j) V = filter ?P [n..<j]" unfolding V by simp
  then show "length (filter (\<lambda>i. i < j) V) < length V" "V ! length (filter (\<lambda>i. i < j) V) = j"
    unfolding V by simp_all
qed

lemma id_map_lookup:
  assumes "x \<in> set ids" and "n \<le> length ids"
  shows "\<exists>i. id_map_id ids n x = Inr (int i) \<and> i < length (id_map_unique ids n) \<and> id_map_unique ids n ! i = x"
proof -
  let ?j = "first_index ids x"
  note j = first_index_in [OF assms(1)]
  show ?thesis
  proof (cases "?j < n")
    case True
    then show ?thesis using j assms(2) by (auto simp: id_map_id_def id_map_unique_def Let_def nth_append)
  next
    case False
    let ?V = "id_map_valid ids n"
    let ?i = "n + length (filter (\<lambda>i. i < ?j) ?V)"
    have "first_index ids (ids ! ?j) = ?j" using j(2) by simp
    note v = valid_position [OF _ j(1) this, of n]
    have "id_map_id ids n x = Inr (int ?i)" using j(1) False by (simp add: id_map_id_def Let_def)
    moreover have "?i < length (id_map_unique ids n)" using v(1) False assms(2) by (simp add: id_map_unique_def)
    moreover have "id_map_unique ids n ! ?i = x"
      using v False assms(2) j(2) by (simp add: id_map_unique_def nth_append)
    ultimately show ?thesis by blast
  qed
qed

lemma id_map_unique_set:
  assumes "n \<le> length ids"
  shows "set (id_map_unique ids n) = set ids"
proof
  show "set (id_map_unique ids n) \<subseteq> set ids"
    by (auto simp: id_map_unique_def id_map_valid_def dest: in_set_takeD)
  show "set ids \<subseteq> set (id_map_unique ids n)" using id_map_lookup [OF _ assms] by (metis nth_mem subsetI)
qed

lemma id_map_unique_seeds: "n \<le> length ids \<Longrightarrow> take n (id_map_unique ids n) = take n ids"
  by (simp add: id_map_unique_def)

lemma id_map_unique_distinct:
  assumes "distinct (take n ids)" and "n \<le> length ids"
  shows "distinct (id_map_unique ids n)"
proof -
  have "inj_on (\<lambda>i. ids ! i) (set (id_map_valid ids n))"
    by (rule inj_onI) (metis (mono_tags, lifting) id_map_valid_def mem_Collect_eq set_filter)
  then have "distinct (map (\<lambda>i. ids ! i) (id_map_valid ids n))" by (simp add: distinct_map id_map_valid_def)
  moreover have "ids ! i \<notin> set (take n ids)" if "i \<in> set (id_map_valid ids n)" for i
  proof
    assume "ids ! i \<in> set (take n ids)"
    then obtain k where k: "k < n" "k < length ids" "ids ! k = ids ! i" by (auto simp: in_set_conv_nth)
    then have "first_index ids (ids ! i) \<le> k" using first_index_le [of k ids] by simp
    then show False using that k(1) by (auto simp: id_map_valid_def)
  qed
  ultimately show ?thesis using assms(1) by (auto simp: id_map_unique_def)
qed

text \<open>The numbers of identifiers that are in the map.\<close>

definition id_number :: "int list \<Rightarrow> nat \<Rightarrow> int \<Rightarrow> int" where
  "id_number ids n x = (case id_map_id ids n x of Inl e \<Rightarrow> 0 | Inr i \<Rightarrow> i)"

lemma id_numbers:
  assumes "set xs \<subseteq> set ids" and "n \<le> length ids"
  shows "rmap (id_map_id ids n) xs = Inr (map (id_number ids n) xs)"
    and "numbers (id_map_unique ids n) (map (id_number ids n) xs) xs"
proof -
  have l: "\<exists>i. id_map_id ids n x = Inr (int i) \<and> i < length (id_map_unique ids n) \<and> id_map_unique ids n ! i = x" if "x \<in> set xs" for x
    using id_map_lookup [OF _ assms(2)] assms(1) that by blast
  show "rmap (id_map_id ids n) xs = Inr (map (id_number ids n) xs)"
    by (rule rmap_total) (use l in \<open>fastforce simp: id_number_def\<close>)
  have n: "0 \<le> id_number ids n x \<and> id_number ids n x < int (length (id_map_unique ids n)) \<and> id_map_unique ids n ! nat (id_number ids n x) = x"
    if "x \<in> set xs" for x using l [OF that] by (auto simp: id_number_def)
  then show "numbers (id_map_unique ids n) (map (id_number ids n) xs) xs"
    by (auto simp: numbers_def intro: map_idI)
qed

lemma unique_and_compact_cpu_eq:
  assumes "world_size \<le> 1"
  shows "unique_and_compact_cpu src [] udst rank world_size =
    (let ids = udst @ src; us = id_map_unique ids (length udst) in
     Inr (us, map (id_number ids (length udst)) src, [], [0, int (length us)]))"
  using assms id_numbers(1) [of src "udst @ src" "length udst"]
  by (simp add: unique_and_compact_cpu_def Let_def)

definition compact_pair :: "int list \<Rightarrow> int list \<Rightarrow> compacted" where
  "compact_pair src udst =
     (let us = id_map_unique (udst @ src) (length udst) in
      (us, map (id_number (udst @ src) (length udst)) src, [], [0, int (length us)]))"

lemma compact_batched_eq:
  assumes "world_size \<le> 1" and "srcs \<noteq> [] \<or> \<not> async_op" and "length udsts = length srcs"
  shows "unique_and_compact_batched async_op srcs (map (\<lambda>_. []) udsts) udsts rank world_size =
    Inr (map (\<lambda>(s, u). compact_pair s u) (zip srcs udsts))"
proof -
  have "rmap (\<lambda>(s, d, u). unique_and_compact_cpu s d u rank world_size) (zip srcs (zip (map (\<lambda>_. []) udsts) udsts)) =
      Inr (map (\<lambda>(s, u). compact_pair s u) (zip srcs udsts))"
    using assms(3) by (induction srcs udsts rule: list_induct2')
      (simp_all add: unique_and_compact_cpu_eq [OF assms(1)] compact_pair_def Let_def)
  then show ?thesis using assms by (auto simp: unique_and_compact_batched_def)
qed

lemma compact_pair_numbers:
  "numbers (fst (compact_pair src udst)) (fst (snd (compact_pair src udst))) src"
  "set (fst (compact_pair src udst)) = set udst \<union> set src"
  "distinct udst \<Longrightarrow> distinct (fst (compact_pair src udst))"
  "take (length udst) (fst (compact_pair src udst)) = udst"
  using id_numbers(2) [of src "udst @ src" "length udst"] id_map_unique_set [of "length udst" "udst @ src"]
    id_map_unique_distinct [of "length udst" "udst @ src"] id_map_unique_seeds [of "length udst" "udst @ src"]
  by (simp_all add: compact_pair_def Let_def)

section \<open>Lists of nodes\<close>

lemma drop_concat: "i \<le> length ts \<Longrightarrow> drop (sum_list (map length (take i ts))) (concat ts) = concat (drop i ts)"
proof (induction ts arbitrary: i)
  case (Cons t ts)
  then show ?case by (cases i) simp_all
qed simp

lemma sum_list_int_lengths: "sum_list (map (\<lambda>t. int (length t)) ts) = int (sum_list (map length ts))"
  by (induction ts) simp_all

lemma split_sizes_concat: "split_sizes (concat ts) (map (\<lambda>t. int (length t)) ts) = Inr ts"
proof -
  have "take (nat (map (\<lambda>t. int (length t)) ts ! i)) (drop (nat (sum_list (take i (map (\<lambda>t. int (length t)) ts)))) (concat ts)) = ts ! i"
    if "i < length ts" for i
  proof -
    have "nat (sum_list (take i (map (\<lambda>t. int (length t)) ts))) = sum_list (map length (take i ts))"
      by (simp add: take_map sum_list_int_lengths)
    moreover have "concat (drop i ts) = ts ! i @ concat (drop (Suc i) ts)"
      using that by (metis Cons_nth_drop_Suc concat.simps(2))
    ultimately show ?thesis using that drop_concat [of i ts] by simp
  qed
  then have "map (\<lambda>i. take (nat (map (\<lambda>t. int (length t)) ts ! i)) (drop (nat (sum_list (take i (map (\<lambda>t. int (length t)) ts)))) (concat ts))) [0..<length ts] = ts"
    by (intro nth_equalityI) simp_all
  then show ?thesis by (simp add: split_sizes_def sum_list_int_lengths length_concat)
qed

lemma split_sizes_map: "split_sizes (map f (concat ts)) (map (\<lambda>t. int (length t)) ts) = Inr (map (map f) ts)"
  using split_sizes_concat [of "map (map f) ts"] by (simp add: map_concat comp_def)

lemma compact_types_eq:
  assumes "world_size \<le> 1" and "nodes \<noteq> [] \<or> \<not> async_op" and "\<forall>(k, ts) \<in> set nodes. ts \<noteq> []"
  shows "compact_types nodes rank world_size async_op =
    Inr (map (\<lambda>(k, ts). (k, fst (compact_pair (concat ts) []))) nodes,
         map (\<lambda>(k, ts). (k, map (map (id_number (concat ts) 0)) ts)) nodes,
         map (\<lambda>(k, ts). (k, [0, int (length (fst (compact_pair (concat ts) [])))])) nodes)"
proof -
  have cat: "rmap (\<lambda>(ntype, ts). cat_all ts) nodes = Inr (map (\<lambda>(k, ts). concat ts) nodes)"
    by (rule rmap_total) (use assms(3) in \<open>auto simp: cat_all_def\<close>)
  have b: "unique_and_compact_batched async_op (map (\<lambda>(k, ts). concat ts) nodes) (map (\<lambda>_. []) nodes) (map (\<lambda>_. []) nodes) rank world_size =
      Inr (map (\<lambda>(k, ts). compact_pair (concat ts) []) nodes)"
  proof -
    have "map (\<lambda>_. []) (map (\<lambda>_. [] :: int list) nodes) = map (\<lambda>_. [] :: int list) nodes" by simp
    moreover have "map (\<lambda>(s, u). compact_pair s u) (zip (map (\<lambda>(k, ts). concat ts) nodes) (map (\<lambda>_. []) nodes)) =
        map (\<lambda>(k, ts). compact_pair (concat ts) []) nodes"
      by (induction nodes) auto
    ultimately show ?thesis
      using compact_batched_eq [OF assms(1), of "map (\<lambda>(k, ts). concat ts) nodes" async_op "map (\<lambda>_. []) nodes" rank] assms(2)
      by (simp del: map_map)
  qed
  let ?r = "\<lambda>(k, ts). (k, fst (compact_pair (concat ts) []), map (map (id_number (concat ts) 0)) ts, [0, int (length (fst (compact_pair (concat ts) [])))])"
  have s: "rmap (\<lambda>((ntype, ts), (unique, concat_compacted, dst, offsets)).
         rbind (split_sizes concat_compacted (map (\<lambda>t. int (length t)) ts)) (\<lambda>cs. Inr (ntype, unique, cs, offsets)))
       (zip nodes (map (\<lambda>(k, ts). compact_pair (concat ts) []) nodes)) = Inr (map ?r nodes)"
  proof (induction nodes)
    case (Cons x nodes)
    then show ?case using split_sizes_map [of "id_number (concat (snd x)) 0" "snd x"]
      by (cases x) (simp add: compact_pair_def Let_def)
  qed simp
  show ?thesis unfolding compact_types_def cat b rbind_simps s by (simp add: comp_def split_def)
qed

text \<open>Compacting lists of nodes: for each type the identifiers are listed once, and every list of numbers
  looks up the list it came from, whatever repetitions there are within and between the lists.\<close>

theorem compacted_nodes_lookup:
  assumes "world_size \<le> 1" and "nodes \<noteq> [] \<or> \<not> async_op" and "distinct (map fst nodes)" and "\<forall>(k, ts) \<in> set nodes. ts \<noteq> []"
  shows "\<exists>u c off. unique_and_compact (Hetero nodes) rank world_size async_op = Inr (Hetero u, Hetero c, Hetero off) \<and>
    (\<forall>(k, ts) \<in> set nodes. \<exists>us cs. map_of u k = Some us \<and> map_of c k = Some cs \<and> distinct us \<and> set us = set (concat ts) \<and>
      list_all2 (numbers us) cs ts)"
proof -
  let ?us = "\<lambda>ts. fst (compact_pair (concat ts) [])"
  let ?cs = "\<lambda>ts. map (map (id_number (concat ts) 0)) ts"
  let ?u = "map (\<lambda>(k, ts). (k, ?us ts)) nodes"
  let ?c = "map (\<lambda>(k, ts). (k, ?cs ts)) nodes"
  have run: "unique_and_compact (Hetero nodes) rank world_size async_op = Inr (Hetero ?u, Hetero ?c,
      Hetero (map (\<lambda>(k, ts). (k, [0, int (length (?us ts))])) nodes))"
    using compact_types_eq [OF assms(1,2,4), of rank] by (simp add: unique_and_compact_def)
  have "map_of ?u k = Some (?us ts) \<and> map_of ?c k = Some (?cs ts) \<and> distinct (?us ts) \<and> set (?us ts) = set (concat ts) \<and>
      list_all2 (numbers (?us ts)) (?cs ts) ts" if "(k, ts) \<in> set nodes" for k ts
  proof -
    have k: "map_of nodes k = Some ts" using assms(3) that by simp
    have "numbers (?us ts) (map (id_number (concat ts) 0) t) t" if "t \<in> set ts" for t
      using id_numbers(2) [of t "concat ts" 0] that by (force simp: compact_pair_def Let_def)
    then have "list_all2 (numbers (?us ts)) (?cs ts) ts" by (simp add: list_all2_conv_all_nth)
    then show ?thesis using k compact_pair_numbers(2,3) [where src = "concat ts" and udst = "[]"] by (simp add: map_of_map)
  qed
  then show ?thesis using run by blast
qed

theorem compacted_nodes_lookup_witness:
  "\<exists>u c off. unique_and_compact (Hetero [(''n1'', [[10, 12], [12, 7, 10]]), (''n2'', [[3]])]) 0 1 True = Inr (Hetero u, Hetero c, Hetero off) \<and>
    (\<exists>us cs. map_of u ''n1'' = Some us \<and> map_of c ''n1'' = Some cs \<and> distinct us \<and> set us = {10, 12, 7} \<and>
      list_all2 (numbers us) cs [[10, 12], [12, 7, 10]])"
proof -
  have "set (concat [[10, 12], [12, 7, 10 :: int]]) = {10, 12, 7}" by auto
  then show ?thesis
    using compacted_nodes_lookup [of 1 "[(''n1'', [[10, 12], [12, 7, 10]]), (''n2'', [[3]])]" True 0] by fastforce
qed

section \<open>Matrices\<close>

text \<open>A matrix with the type of its sources, and the index lists of a type in the order of the matrices.\<close>

definition src_of :: "string \<Rightarrow> string" where
  "src_of etype = (case etype_ends etype of Inl e \<Rightarrow> [] | Inr (s, d) \<Rightarrow> s)"

definition dst_of :: "string \<Rightarrow> string" where
  "dst_of etype = (case etype_ends etype of Inl e \<Rightarrow> [] | Inr (s, d) \<Rightarrow> d)"

definition index_group :: "(string \<times> csc) list \<Rightarrow> string \<Rightarrow> int list list" where
  "index_group ms t = map (\<lambda>(e, m). cs_indices m) (filter (\<lambda>(e, m). src_of e = t) ms)"

definition matrices_fit :: "(string \<times> int list) list \<Rightarrow> (string \<times> csc) list \<Rightarrow> bool" where
  "matrices_fit dst ms \<longleftrightarrow> distinct (map fst ms) \<and> (\<forall>(e, m) \<in> set ms. isl (etype_ends e) = False \<and>
     length (cs_indptr m) = length (get_or [] dst (dst_of e)) + 1 \<and> last (cs_indptr m) = int (length (cs_indices m)))"

lemma fit_ends: "isl (etype_ends e) = False \<Longrightarrow> etype_ends e = Inr (src_of e, dst_of e)"
  by (auto simp: src_of_def dst_of_def split: sum.splits)

lemma index_group_simps [simp]:
  "index_group [] t = []"
  "index_group ((e, m) # ms) t = (if src_of e = t then [cs_indices m] else []) @ index_group ms t"
  by (simp_all add: index_group_def)

lemma get_or_update [simp]: "get_or x (AList.update k v d) j = (if j = k then v else get_or x d j)"
  by (simp add: get_or_def update_conv')

lemma update_member: "x \<in> set (AList.update k v d) \<Longrightarrow> x = (k, v) \<or> x \<in> set d"
  by (induction d) (auto split: if_splits)

lemma csc_init_ok: "indptr \<noteq> [] \<Longrightarrow> last indptr = int (length indices) \<Longrightarrow>
    csc_init indptr indices = Inr \<lparr>cs_indptr = indptr, cs_indices = indices\<rparr>"
  by (simp add: csc_init_def py_index_last)

lemma collect_indices_spec:
  assumes "\<forall>(e, m) \<in> set ms. isl (etype_ends e) = False \<and> length (cs_indptr m) = length (get_or [] dst (dst_of e)) + 1"
  shows "\<exists>lists. collect_indices ms dst = Inr lists \<and> (\<forall>t. get_or [] lists t = index_group ms t) \<and>
    fst ` set lists = (\<lambda>(e, m). src_of e) ` set ms \<and> distinct (map fst lists) \<and> (\<forall>(t, ls) \<in> set lists. ls \<noteq> [])"
proof -
  let ?f = "\<lambda>ind (etype, m). rbind (etype_ends etype) (\<lambda>(src_type, dst_type).
         rbind (rassert (int (length (get_or [] dst dst_type)) + 1 = int (length (cs_indptr m))) AssertionError) (\<lambda>_.
         Inr (AList.update src_type (get_or [] ind src_type @ [cs_indices m]) ind)))"
  have "\<exists>lists. rfold ?f ind ms = Inr lists \<and> (\<forall>t. get_or [] lists t = get_or [] ind t @ index_group ms t) \<and>
      fst ` set lists = fst ` set ind \<union> (\<lambda>(e, m). src_of e) ` set ms \<and> distinct (map fst lists) \<and> (\<forall>(t, ls) \<in> set lists. ls \<noteq> [])"
    if "distinct (map fst ind)" "\<forall>(t, ls) \<in> set ind. ls \<noteq> []" for ind
    using assms that
  proof (induction ms arbitrary: ind)
    case (Cons x ms)
    obtain e m where x: "x = (e, m)" by fastforce
    let ?ind = "AList.update (src_of e) (get_or [] ind (src_of e) @ [cs_indices m]) ind"
    have step: "?f ind x = Inr ?ind" using Cons.prems(1) x fit_ends [of e] by simp
    have d: "distinct (map fst ?ind)" using Cons.prems(2) by (rule distinct_update)
    have ne: "\<forall>(t, ls) \<in> set ?ind. ls \<noteq> []"
      using Cons.prems(3) by (auto dest!: update_member)
    have rest: "\<forall>(e, m) \<in> set ms. isl (etype_ends e) = False \<and> length (cs_indptr m) = length (get_or [] dst (dst_of e)) + 1"
      using Cons.prems(1) by simp
    from Cons.IH [OF rest d ne] obtain lists where lists: "rfold ?f ?ind ms = Inr lists"
      "\<forall>t. get_or [] lists t = get_or [] ?ind t @ index_group ms t"
      "fst ` set lists = fst ` set ?ind \<union> (\<lambda>(e, m). src_of e) ` set ms" "distinct (map fst lists)" "\<forall>(t, ls) \<in> set lists. ls \<noteq> []"
      by blast
    have keys: "fst ` set ?ind = insert (src_of e) (fst ` set ind)"
      using dom_update [of "src_of e" _ ind] by (simp add: dom_map_of_conv_image_fst)
    have "rfold ?f ind (x # ms) = Inr lists" unfolding rfold.simps step rbind_simps by (rule lists(1))
    moreover have "get_or [] lists t = get_or [] ind t @ index_group (x # ms) t" for t using lists(2) x by simp
    moreover have "fst ` set lists = fst ` set ind \<union> (\<lambda>(e, m). src_of e) ` set (x # ms)" using lists(3) keys x by auto
    ultimately show ?case using lists(4,5) by blast
  qed simp
  from this [of "[]"] show ?thesis unfolding collect_indices_def by (simp add: get_or_def)
qed

lemma restore_csc_spec:
  assumes "distinct (map fst ms)" and "\<forall>(e, m) \<in> set ms. isl (etype_ends e) = False \<and> cs_indptr m \<noteq> [] \<and> last (cs_indptr m) = int (length (cs_indices m))"
    and "\<forall>t \<in> (\<lambda>(e, m). src_of e) ` set ms. map_of compacted t = Some (map (F t) (concat (index_group ms t)))"
  shows "\<exists>out. restore_csc ms compacted = Inr out \<and>
    (\<forall>(e, m) \<in> set ms. map_of out e = Some \<lparr>cs_indptr = cs_indptr m, cs_indices = map (F (src_of e)) (cs_indices m)\<rparr>)"
proof -
  let ?f = "\<lambda>(out, rest) (etype, m). rbind (etype_ends etype) (\<lambda>(src_type, dst_type).
         rbind (dict_get rest src_type) (\<lambda>ids.
         rbind (csc_init (cs_indptr m) (take (length (cs_indices m)) ids)) (\<lambda>m'.
         Inr (AList.update etype m' out, AList.update src_type (drop (length (cs_indices m)) ids) rest))))"
  have "\<exists>out' rest'. rfold ?f (out, rest) ms = Inr (out', rest') \<and> (\<forall>e. e \<notin> fst ` set ms \<longrightarrow> map_of out' e = map_of out e) \<and>
      (\<forall>(e, m) \<in> set ms. map_of out' e = Some \<lparr>cs_indptr = cs_indptr m, cs_indices = map (F (src_of e)) (cs_indices m)\<rparr>)"
    if "\<forall>t \<in> (\<lambda>(e, m). src_of e) ` set ms. map_of rest t = Some (map (F t) (concat (index_group ms t)))" for out rest
    using assms(1,2) that
  proof (induction ms arbitrary: out rest)
    case (Cons x ms)
    obtain e m where x: "x = (e, m)" by fastforce
    have e: "etype_ends e = Inr (src_of e, dst_of e)" "cs_indptr m \<noteq> []" "last (cs_indptr m) = int (length (cs_indices m))"
      using Cons.prems(2) x fit_ends by auto
    let ?ids = "map (F (src_of e)) (cs_indices m @ concat (index_group ms (src_of e)))"
    let ?m = "\<lparr>cs_indptr = cs_indptr m, cs_indices = map (F (src_of e)) (cs_indices m)\<rparr>"
    let ?rest = "AList.update (src_of e) (map (F (src_of e)) (concat (index_group ms (src_of e)))) rest"
    have ids: "map_of rest (src_of e) = Some ?ids" using Cons.prems(3) x by simp
    have step: "?f (out, rest) x = Inr (AList.update e ?m out, ?rest)"
      using e ids csc_init_ok [of "cs_indptr m" "map (F (src_of e)) (cs_indices m)"] x by (simp add: dict_get_Some)
    have rest: "\<forall>t \<in> (\<lambda>(e, m). src_of e) ` set ms. map_of ?rest t = Some (map (F t) (concat (index_group ms t)))"
    proof
      fix t assume t: "t \<in> (\<lambda>(e, m). src_of e) ` set ms"
      then have "map_of rest t = Some (map (F t) (concat (index_group (x # ms) t)))" using Cons.prems(3) by auto
      then show "map_of ?rest t = Some (map (F t) (concat (index_group ms t)))"
        using x by (cases "t = src_of e") (auto simp: update_conv')
    qed
    have d: "distinct (map fst ms)" "e \<notin> fst ` set ms" using Cons.prems(1) x by auto
    have ok: "\<forall>(e, m) \<in> set ms. isl (etype_ends e) = False \<and> cs_indptr m \<noteq> [] \<and> last (cs_indptr m) = int (length (cs_indices m))"
      using Cons.prems(2) by simp
    obtain out' rest' where r: "rfold ?f (AList.update e ?m out, ?rest) ms = Inr (out', rest')"
      "\<forall>j. j \<notin> fst ` set ms \<longrightarrow> map_of out' j = map_of (AList.update e ?m out) j"
      "\<forall>(e, m) \<in> set ms. map_of out' e = Some \<lparr>cs_indptr = cs_indptr m, cs_indices = map (F (src_of e)) (cs_indices m)\<rparr>"
      using Cons.IH [OF d(1) ok rest] by blast
    have "map_of out' e = Some ?m" using r(2) d(2) by (simp add: update_conv')
    moreover have "map_of out' j = map_of out j" if "j \<notin> fst ` set (x # ms)" for j using r(2) that x by (simp add: update_conv')
    moreover have "rfold ?f (out, rest) (x # ms) = Inr (out', rest')" unfolding rfold.simps step rbind_simps by (rule r(1))
    ultimately show ?case using r(3) x by auto
  qed simp
  from this [OF assms(3), of "[]"] show ?thesis unfolding restore_csc_def by fastforce
qed

lemma get_or_Some: "map_of d k = Some v \<Longrightarrow> get_or x d k = v"
  by (simp add: get_or_def)


definition example_matrices :: "(string \<times> csc) list" where
  "example_matrices =
     [(''n1:e1:n2'', \<lparr>cs_indptr = [0, 2, 3], cs_indices = [1, 2, 2]\<rparr>), (''n2:e2:n1'', \<lparr>cs_indptr = [0, 1, 3], cs_indices = [5, 5, 6]\<rparr>),
      (''n1:e3:n1'', \<lparr>cs_indptr = [0, 1, 1], cs_indices = [9]\<rparr>)]"

definition example_seeds :: "(string \<times> int list) list" where
  "example_seeds = [(''n1'', [1, 2]), (''n2'', [5, 6])]"

lemma example_ends:
  "etype_ends ''n1:e1:n2'' = Inr (''n1'', ''n2'')" "etype_ends ''n2:e2:n1'' = Inr (''n2'', ''n1'')" "etype_ends ''n1:e3:n1'' = Inr (''n1'', ''n1'')"
  by (simp_all add: etype_ends_def gb_etype_delimiter_def Let_def)

lemma example_fit: "matrices_fit example_seeds example_matrices"
  by (simp add: matrices_fit_def example_matrices_def example_seeds_def example_ends dst_of_def get_or_def)


section \<open>Matrices without unique nodes\<close>

lemma numbers_appended: "numbers (us @ xs @ vs) (map (\<lambda>i. i + int (length us)) (arange 0 (int (length xs)))) xs"
proof -
  have "map (\<lambda>i. (us @ xs @ vs) ! nat i) (map (\<lambda>i. i + int (length us)) (arange 0 (int (length xs)))) = xs"
    by (rule nth_equalityI) (simp_all add: nat_add_distrib nth_append)
  then show ?thesis by (auto simp: numbers_def)
qed

lemma numbers_extend: "numbers us cs xs \<Longrightarrow> numbers (us @ vs) cs xs"
  by (auto simp: numbers_def nth_append nat_less_iff)

text \<open>What a matrix has got: its numbers look up its rows, and, with timestamps, the times of the columns.\<close>

definition csc_placed :: "(string \<times> int list) list option \<Rightarrow> (string \<times> int list) list \<Rightarrow> (string \<times> csc) list \<Rightarrow>
    (string \<times> int list) list option \<Rightarrow> string \<Rightarrow> csc \<Rightarrow> bool" where
  "csc_placed tm rows out stamps e m \<longleftrightarrow>
     (case map_of out e of None \<Rightarrow> False | Some m' \<Rightarrow>
        cs_indptr m' = cs_indptr m \<and> numbers (get_or [] rows (src_of e)) (cs_indices m') (cs_indices m) \<and>
        (case (tm, stamps) of
           (Some ts, Some ss) \<Rightarrow> (case broadcast_timestamps m (get_or [] ts (dst_of e)) of Inl x \<Rightarrow> False
             | Inr bs \<Rightarrow> numbers (get_or [] ss (src_of e)) (cs_indices m') bs)
         | (None, None) \<Rightarrow> True
         | _ \<Rightarrow> False))"

text \<open>Timestamps fit: one for each seed, and the columns of the matrices can be expanded.\<close>

definition times_fit :: "(string \<times> int list) list \<Rightarrow> (string \<times> csc) list \<Rightarrow> (string \<times> int list) list option \<Rightarrow> bool" where
  "times_fit dst ms tm \<longleftrightarrow>
     (case tm of None \<Rightarrow> True | Some ts \<Rightarrow>
        map fst ts = map fst dst \<and> (\<forall>t \<in> fst ` set dst. length (get_or [] ts t) = length (get_or [] dst t)) \<and>
        (\<forall>(e, m) \<in> set ms. dst_of e \<in> fst ` set dst \<and> cs_indptr m \<noteq> [] \<and> hd (cs_indptr m) = 0 \<and> sorted (cs_indptr m)))"

lemma sum_diff: "xs \<noteq> [] \<Longrightarrow> sum_list (diff xs) = last xs - (hd xs :: int)"
proof (induction xs)
  case (Cons x xs)
  then show ?case by (cases xs) (simp_all add: diff_def)
qed simp

lemma diff_nonneg: "sorted xs \<Longrightarrow> \<forall>d \<in> set (diff xs). 0 \<le> d"
proof (induction xs)
  case (Cons x xs)
  then show ?case by (cases xs) (auto simp: diff_def)
qed (simp add: diff_def)

lemma length_diff [simp]: "length (diff xs) = length xs - 1"
  by (cases xs) (simp_all add: diff_def)

lemma length_repeat:
  "length ns = length xs \<Longrightarrow> \<forall>n \<in> set ns. 0 \<le> n \<Longrightarrow> int (length (concat (map (\<lambda>(x, n). replicate (nat n) x) (zip xs ns)))) = sum_list ns"
  by (induction xs ns rule: list_induct2') auto

lemma broadcast_ok:
  assumes "length (cs_indptr m) = length ts + 1" and "hd (cs_indptr m) = 0" and "sorted (cs_indptr m)"
    and "last (cs_indptr m) = int (length (cs_indices m))"
  shows "\<exists>bs. broadcast_timestamps m ts = Inr bs \<and> length bs = length (cs_indices m)"
proof -
  have ne: "cs_indptr m \<noteq> []" using assms(1) by auto
  have one: "(if length (diff (cs_indptr m)) = 1 then replicate (length ts) (hd (diff (cs_indptr m))) else diff (cs_indptr m)) = diff (cs_indptr m)"
  proof (cases "length (diff (cs_indptr m)) = 1")
    case True
    then obtain d where "diff (cs_indptr m) = [d]" by (metis One_nat_def length_0_conv length_Suc_conv)
    moreover have "length ts = length (diff (cs_indptr m))" using assms(1) by simp
    ultimately show ?thesis by simp
  qed simp
  let ?out = "concat (map (\<lambda>(x, n). replicate (nat n) x) (zip ts (diff (cs_indptr m))))"
  have len: "int (length ?out) = int (length (cs_indices m))"
    using length_repeat [of "diff (cs_indptr m)" ts] diff_nonneg [OF assms(3)] sum_diff [OF ne] assms by simp
  have "\<not> (\<exists>n \<in> set (diff (cs_indptr m)). n < 0)" using diff_nonneg [OF assms(3)] by fastforce
  then have "repeat_interleave ts (diff (cs_indptr m)) (Some (int (length (cs_indices m)))) = Inr ?out"
    unfolding repeat_interleave_def one Let_def using assms(1) len by simp
  then show ?thesis using len by (simp add: broadcast_timestamps_def expand_indptr_def)
qed

lemma shift_ok:
  "cs_indptr m \<noteq> [] \<Longrightarrow> last (cs_indptr m) = int (length (cs_indices m)) \<Longrightarrow>
    shift_indices m offset = Inr \<lparr>cs_indptr = cs_indptr m, cs_indices = map (\<lambda>i. i + offset) (arange 0 (int (length (cs_indices m))))\<rparr>"
  by (simp add: shift_indices_def csc_init_ok)

definition lists_grow :: "(string \<times> int list) list \<Rightarrow> (string \<times> int list) list \<Rightarrow> bool" where
  "lists_grow d d' \<longleftrightarrow> (\<forall>t. \<exists>vs. get_or [] d' t = get_or [] d t @ vs)"

definition stamps_grow :: "(string \<times> int list) list option \<Rightarrow> (string \<times> int list) list option \<Rightarrow> bool" where
  "stamps_grow s s' \<longleftrightarrow> (case (s, s') of (None, None) \<Rightarrow> True | (Some d, Some d') \<Rightarrow> lists_grow d d' | _ \<Rightarrow> False)"

lemma grow_refl [simp]: "lists_grow d d" "stamps_grow s s"
  by (auto simp: lists_grow_def stamps_grow_def split: option.split)

lemma grow_trans: "lists_grow a b \<Longrightarrow> lists_grow b c \<Longrightarrow> lists_grow a c"
  by (auto simp: lists_grow_def) (metis append.assoc)

lemma stamps_grow_trans: "stamps_grow a b \<Longrightarrow> stamps_grow b c \<Longrightarrow> stamps_grow a c"
  by (auto simp: stamps_grow_def split: option.splits intro: grow_trans)

lemma placed_mono:
  assumes "csc_placed tm rows out stamps e m" and "lists_grow rows rows'" and "stamps_grow stamps stamps'" and "map_of out' e = map_of out e"
  shows "csc_placed tm rows' out' stamps' e m"
proof -
  have n: "numbers (get_or [] d t) cs xs \<Longrightarrow> numbers (get_or [] d' t) cs xs" if "lists_grow d d'" for d d' t cs xs
    using that numbers_extend by (metis lists_grow_def)
  show ?thesis
    using assms n by (auto simp: csc_placed_def stamps_grow_def split: option.splits sum.splits)
qed

lemma compact_step:
  assumes e: "isl (etype_ends e) = False" and fit: "length (cs_indptr m) = length (get_or [] dst (dst_of e)) + 1"
    and last: "last (cs_indptr m) = int (length (cs_indices m))" and new: "e \<notin> fst ` set out"
    and times: "case (tm, stamps) of (None, None) \<Rightarrow> True
      | (Some ts, Some ss) \<Rightarrow> (\<forall>t. length (get_or [] ss t) = length (get_or [] rows t)) \<and> dst_of e \<in> fst ` set ts \<and>
          length (get_or [] ts (dst_of e)) = length (get_or [] dst (dst_of e)) \<and> hd (cs_indptr m) = 0 \<and> sorted (cs_indptr m)
      | _ \<Rightarrow> False"
  shows "\<exists>rows' m' stamps'. compact_csc_step dst tm (rows, out, stamps) (e, m) = Inr (rows', AList.update e m' out, stamps') \<and>
    lists_grow rows rows' \<and> stamps_grow stamps stamps' \<and> csc_placed tm rows' (AList.update e m' out) stamps' e m \<and>
    (\<forall>ss'. stamps' = Some ss' \<longrightarrow> (\<forall>t. length (get_or [] ss' t) = length (get_or [] rows' t)))"
proof -
  let ?s = "src_of e"
  let ?rows = "AList.update ?s (get_or [] rows ?s @ cs_indices m) rows"
  let ?off = "int (length (get_or [] rows ?s))"
  let ?m = "\<lparr>cs_indptr = cs_indptr m, cs_indices = map (\<lambda>i. i + ?off) (arange 0 (int (length (cs_indices m))))\<rparr>"
  have ends: "etype_ends e = Inr (?s, dst_of e)" using e by (rule fit_ends)
  have ne: "cs_indptr m \<noteq> []" using fit by auto
  note sh = shift_ok [OF ne last, of ?off]
  have grow: "lists_grow rows ?rows" by (auto simp: lists_grow_def)
  have num: "numbers (get_or [] ?rows ?s) (cs_indices ?m) (cs_indices m)"
    using numbers_appended [of "get_or [] rows ?s" "cs_indices m" "[]"] by simp
  show ?thesis
  proof (cases tm)
    case None
    then have st: "stamps = None" using times by (auto split: option.splits)
    have "compact_csc_step dst tm (rows, out, stamps) (e, m) = Inr (?rows, AList.update e ?m out, None)"
      using ends fit sh st by (simp add: compact_csc_step_def Let_def)
    moreover have "csc_placed tm ?rows (AList.update e ?m out) None e m"
      using num None by (simp add: csc_placed_def update_conv')
    ultimately show ?thesis using grow st by (intro exI [of _ ?rows] exI [of _ ?m] exI [of _ None]) simp
  next
    case (Some ts)
    then obtain ss where st: "stamps = Some ss" "\<forall>t. length (get_or [] ss t) = length (get_or [] rows t)" "dst_of e \<in> fst ` set ts"
      "length (get_or [] ts (dst_of e)) = length (get_or [] dst (dst_of e))" "hd (cs_indptr m) = 0" "sorted (cs_indptr m)"
      using times by (auto split: option.splits)
    obtain bs where bs: "broadcast_timestamps m (get_or [] ts (dst_of e)) = Inr bs" "length bs = length (cs_indices m)"
      using broadcast_ok [of m "get_or [] ts (dst_of e)"] fit st last by auto
    have dg: "dict_get ts (dst_of e) = Inr (get_or [] ts (dst_of e))"
      using st(3) by (cases "map_of ts (dst_of e)") (auto simp: get_or_def dict_get_Some map_of_eq_None_iff)
    let ?ss = "AList.update ?s (get_or [] ss ?s @ bs) ss"
    have "compact_csc_step dst tm (rows, out, stamps) (e, m) = Inr (?rows, AList.update e ?m out, Some ?ss)"
      using ends fit sh st(1) Some dg bs(1) by (simp add: compact_csc_step_def Let_def dict_get_def)
    moreover have "numbers (get_or [] ?ss ?s) (cs_indices ?m) bs"
      using numbers_appended [of "get_or [] ss ?s" bs "[]"] st(2) bs(2) by simp
    then have "csc_placed tm ?rows (AList.update e ?m out) (Some ?ss) e m"
      using num Some bs(1) by (simp add: csc_placed_def update_conv')
    moreover have "stamps_grow stamps (Some ?ss)" using st(1) by (auto simp: stamps_grow_def lists_grow_def)
    moreover have "\<forall>t. length (get_or [] ?ss t) = length (get_or [] ?rows t)" using st(2) bs(2) by simp
    ultimately show ?thesis using grow by (intro exI [of _ ?rows] exI [of _ ?m] exI [of _ "Some ?ss"]) simp
  qed
qed

lemma compact_fold:
  assumes "distinct (map fst ms)" and "fst ` set out \<inter> fst ` set ms = {}"
    and "\<forall>(e, m) \<in> set ms. isl (etype_ends e) = False \<and> length (cs_indptr m) = length (get_or [] dst (dst_of e)) + 1 \<and>
      last (cs_indptr m) = int (length (cs_indices m))"
    and "case (tm, stamps) of (None, None) \<Rightarrow> True
      | (Some ts, Some ss) \<Rightarrow> (\<forall>t. length (get_or [] ss t) = length (get_or [] rows t)) \<and>
          (\<forall>(e, m) \<in> set ms. dst_of e \<in> fst ` set ts \<and> length (get_or [] ts (dst_of e)) = length (get_or [] dst (dst_of e)) \<and>
            hd (cs_indptr m) = 0 \<and> sorted (cs_indptr m))
      | _ \<Rightarrow> False"
  shows "\<exists>rows' out' stamps'. rfold (compact_csc_step dst tm) (rows, out, stamps) ms = Inr (rows', out', stamps') \<and>
    lists_grow rows rows' \<and> stamps_grow stamps stamps' \<and> (\<forall>e. e \<notin> fst ` set ms \<longrightarrow> map_of out' e = map_of out e) \<and>
    (\<forall>(e, m) \<in> set ms. csc_placed tm rows' out' stamps' e m)"
  using assms
proof (induction ms arbitrary: rows out stamps)
  case (Cons x ms)
  obtain e m where x: "x = (e, m)" by fastforce
  have fit: "isl (etype_ends e) = False" "length (cs_indptr m) = length (get_or [] dst (dst_of e)) + 1" "last (cs_indptr m) = int (length (cs_indices m))"
    and new: "e \<notin> fst ` set out" "e \<notin> fst ` set ms"
    using Cons.prems(1,2,3) x by auto
  have times: "case (tm, stamps) of (None, None) \<Rightarrow> True
      | (Some ts, Some ss) \<Rightarrow> (\<forall>t. length (get_or [] ss t) = length (get_or [] rows t)) \<and> dst_of e \<in> fst ` set ts \<and>
          length (get_or [] ts (dst_of e)) = length (get_or [] dst (dst_of e)) \<and> hd (cs_indptr m) = 0 \<and> sorted (cs_indptr m)
      | _ \<Rightarrow> False"
    using Cons.prems(4) x by (cases tm; cases stamps) auto
  obtain rows1 m' stamps1 where 1: "compact_csc_step dst tm (rows, out, stamps) (e, m) = Inr (rows1, AList.update e m' out, stamps1)"
    "lists_grow rows rows1" "stamps_grow stamps stamps1" "csc_placed tm rows1 (AList.update e m' out) stamps1 e m"
    "\<forall>ss'. stamps1 = Some ss' \<longrightarrow> (\<forall>t. length (get_or [] ss' t) = length (get_or [] rows1 t))"
    using compact_step [OF fit new(1) times] by blast
  have d: "distinct (map fst ms)" using Cons.prems(1) by simp
  have disj: "fst ` set (AList.update e m' out) \<inter> fst ` set ms = {}"
  proof -
    have "fst ` set (AList.update e m' out) \<subseteq> insert e (fst ` set out)" by (auto dest!: update_member)
    moreover have "insert e (fst ` set out) \<inter> fst ` set ms = {}"
    proof -
      have "fst ` set ms \<subseteq> fst ` set (x # ms)" by auto
      then show ?thesis using Cons.prems(2) new(2) by blast
    qed
    ultimately show ?thesis by blast
  qed
  have ok: "\<forall>(e, m) \<in> set ms. isl (etype_ends e) = False \<and> length (cs_indptr m) = length (get_or [] dst (dst_of e)) + 1 \<and>
      last (cs_indptr m) = int (length (cs_indices m))"
    using Cons.prems(3) by simp
  have times1: "case (tm, stamps1) of (None, None) \<Rightarrow> True
      | (Some ts, Some ss) \<Rightarrow> (\<forall>t. length (get_or [] ss t) = length (get_or [] rows1 t)) \<and>
          (\<forall>(e, m) \<in> set ms. dst_of e \<in> fst ` set ts \<and> length (get_or [] ts (dst_of e)) = length (get_or [] dst (dst_of e)) \<and>
            hd (cs_indptr m) = 0 \<and> sorted (cs_indptr m))
      | _ \<Rightarrow> False"
  proof (cases tm)
    case None
    then have "stamps = None" using Cons.prems(4) by (cases stamps) simp_all
    then have "stamps1 = None" using 1(3) by (cases stamps1) (simp_all add: stamps_grow_def)
    then show ?thesis using None by simp
  next
    case (Some ts)
    obtain ss where ss: "stamps = Some ss" using Cons.prems(4) Some by (cases stamps) simp_all
    then obtain ss1 where ss1: "stamps1 = Some ss1" using 1(3) by (cases stamps1) (simp_all add: stamps_grow_def)
    have "\<forall>(e, m) \<in> set ms. dst_of e \<in> fst ` set ts \<and> length (get_or [] ts (dst_of e)) = length (get_or [] dst (dst_of e)) \<and>
        hd (cs_indptr m) = 0 \<and> sorted (cs_indptr m)"
      using Cons.prems(4) [unfolded Some ss prod.case option.case, THEN conjunct2] by simp
    then show ?thesis using 1(5) ss1 unfolding Some ss1 prod.case option.case by blast
  qed
  obtain rows' out' stamps' where r: "rfold (compact_csc_step dst tm) (rows1, AList.update e m' out, stamps1) ms = Inr (rows', out', stamps')"
    "lists_grow rows1 rows'" "stamps_grow stamps1 stamps'" "\<forall>j. j \<notin> fst ` set ms \<longrightarrow> map_of out' j = map_of (AList.update e m' out) j"
    "\<forall>(e, m) \<in> set ms. csc_placed tm rows' out' stamps' e m"
    using Cons.IH [OF d disj ok times1] by blast
  have "csc_placed tm rows' out' stamps' e m"
    using placed_mono [OF 1(4) r(2,3)] r(4) new(2) by blast
  then have placed_all: "\<forall>(e, m) \<in> set (x # ms). csc_placed tm rows' out' stamps' e m" using r(5) x by simp
  have "map_of out' j = map_of out j" if "j \<notin> fst ` set (x # ms)" for j
  proof -
    have "j \<noteq> e" "j \<notin> fst ` set ms" using that x by auto
    then show ?thesis using r(4) by (simp add: update_conv')
  qed
  moreover have "rfold (compact_csc_step dst tm) (rows, out, stamps) (x # ms) = Inr (rows', out', stamps')"
    unfolding rfold.simps x 1(1) rbind_simps by (rule r(1))
  ultimately show ?case
    using grow_trans [OF 1(2) r(2)] stamps_grow_trans [OF 1(3) r(3)] placed_all by blast
qed simp



end
