(* ===== verification/GbSubgraphProps.thy ===== *)
theory GbSubgraphProps
  imports GbSubgraph GbCompactProps
begin

text \<open>
  Excluding edges keeps exactly the edges that are not listed, in order, with the columns they were in;
  packed identifiers of 32 bits do not collide.
\<close>

section \<open>Packing\<close>

definition fits32 :: "int \<Rightarrow> bool" where
  "fits32 x \<longleftrightarrow> 0 \<le> x \<and> x < 2 ^ 32"

lemma pack_edge_inj:
  assumes "fits32 u" and "fits32 v" and "fits32 u'" and "fits32 v'"
  shows "pack_edge u v = pack_edge u' v' \<longleftrightarrow> u = u' \<and> v = v'"
proof -
  have uint: "uint (pack_edge u v) = u * 2 ^ 32 + v" if "fits32 u" "fits32 v" for u v
  proof -
    have "pack_edge u v = word_of_int (push_bit 32 u OR v)"
      unfolding pack_edge_def by (rule bit_word_eqI) (auto simp: bit_simps)
    then have "uint (pack_edge u v) = take_bit 64 (push_bit 32 u OR v)"
      by (simp add: unsigned_of_int)
    also have "\<dots> = push_bit 32 u OR v"
    proof -
      have u: "push_bit 32 u < 2 ^ 64" "0 \<le> push_bit 32 u" using that by (simp_all add: fits32_def push_bit_eq_mult)
      have v: "v < 2 ^ 64" "0 \<le> v" using that by (simp_all add: fits32_def)
      have "push_bit 32 u OR v < 2 ^ 64" by (rule OR_upper [OF u(2,1) v(1)])
      then show ?thesis using u v by (intro take_bit_int_eq_self) simp_all
    qed
    also have "\<dots> = push_bit 32 u + v"
    proof -
      have "push_bit 32 u AND v = 0"
      proof (rule bit_eqI)
        fix n
        have "bit v n \<Longrightarrow> n < 32" using that(2) take_bit_int_eq_self [of v 32] by (metis bit_take_bit_iff fits32_def)
        then show "bit (push_bit 32 u AND v) n = bit 0 n" by (auto simp: bit_and_iff bit_push_bit_iff)
      qed
      then show ?thesis by (simp add: disjunctive_add_eq_or)
    qed
    finally show ?thesis by (simp add: push_bit_eq_mult)
  qed
  show ?thesis
  proof
    assume "pack_edge u v = pack_edge u' v'"
    then have e: "u * 2 ^ 32 + v = u' * 2 ^ 32 + v'" using uint assms by metis
    have "\<not> u < u'" "\<not> u' < u" using e assms by (simp_all add: fits32_def)
    then show "u = u' \<and> v = v'" using e by auto
  qed simp
qed

section \<open>Columns\<close>

fun blocks :: "int list \<Rightarrow> 'a list \<Rightarrow> 'a list" where
  "blocks (a # b # ip) (x # xs) = replicate (nat (b - a)) x @ blocks (b # ip) xs"
| "blocks _ _ = []"

definition csc_ok :: "csc \<Rightarrow> bool" where
  "csc_ok m \<longleftrightarrow> cs_indptr m \<noteq> [] \<and> hd (cs_indptr m) = 0 \<and> sorted (cs_indptr m) \<and> last (cs_indptr m) = int (length (cs_indices m))"

lemma blocks_repeat: "length ip = length xs + 1 \<Longrightarrow> concat (map (\<lambda>(x, n). replicate (nat n) x) (zip xs (diff ip))) = blocks ip xs"
  by (induction ip xs rule: blocks.induct) (simp_all add: diff_def)

lemma length_blocks: "length ip = length xs + 1 \<Longrightarrow> sorted ip \<Longrightarrow> int (length (blocks ip xs)) = last ip - hd ip"
proof (induction ip xs rule: blocks.induct)
  case (1 a b ip x xs)
  then show ?case by (simp add: length_Suc_conv)
qed (auto simp: length_Suc_conv)

text \<open>How many of the positions come before a value.\<close>

definition before :: "int list \<Rightarrow> int \<Rightarrow> int" where
  "before keep v = int (length (filter (\<lambda>x. x < v) keep))"

lemma before_split:
  assumes "sorted_wrt (<) keep" and "b \<le> v"
  shows "before keep v = before keep b + before (filter (\<lambda>x. b \<le> x) keep) v"
  using assms(1)
proof (induction keep)
  case (Cons x keep)
  then show ?case using assms(2) by (auto simp: before_def)
qed (simp add: before_def)

lemma sorted_split: "sorted_wrt (<) keep \<Longrightarrow> keep = filter (\<lambda>x. x < b) keep @ filter (\<lambda>x. b \<le> x) (keep :: int list)"
proof (induction keep)
  case (Cons x keep)
  show ?case
  proof (cases "x < b")
    case False
    then have "\<forall>y \<in> set keep. b \<le> y" using Cons.prems by auto
    then show ?thesis using False by (auto simp: filter_empty_conv intro!: filter_True [symmetric])
  qed (use Cons in auto)
qed simp

lemma blocks_shift: "blocks (map (\<lambda>v. c + v) ip) xs = blocks ip xs"
  by (induction ip xs rule: blocks.induct) auto

lemma no_positions: "\<forall>p \<in> set keep. hd ip \<le> p \<and> p < last ip \<Longrightarrow> length ip = Suc 0 \<Longrightarrow> keep = ([] :: int list)"
  by (cases keep) (auto simp: length_Suc_conv)

lemma blocks_keep:
  assumes "length ip = length xs + 1" and "sorted ip" and "sorted_wrt (<) keep" and "\<forall>p \<in> set keep. hd ip \<le> p \<and> p < last ip"
  shows "blocks (map (before keep) ip) xs = map (\<lambda>p. blocks ip xs ! nat (p - hd ip)) keep"
  using assms
proof (induction ip xs arbitrary: keep rule: blocks.induct)
  case (1 a b ip x xs)
  let ?lo = "filter (\<lambda>x. x < b) keep"
  let ?hi = "filter (\<lambda>x. b \<le> x) keep"
  have keep: "keep = ?lo @ ?hi" using 1(4) by (rule sorted_split)
  have ab: "a \<le> b" using 1(3) by simp
  have "before keep a = 0"
  proof -
    have "filter (\<lambda>x. x < a) keep = []" using 1(5) by (force simp: filter_empty_conv)
    then show ?thesis by (simp add: before_def)
  qed
  then have head: "nat (before keep b - before keep a) = length ?lo" by (simp add: before_def)
  have shift: "map (before keep) (b # ip) = map (\<lambda>v. before keep b + v) (map (before ?hi) (b # ip))"
    unfolding map_map comp_def by (rule map_cong [OF refl], rule before_split [OF 1(4)]) (use 1(3) in auto)
  have hi: "sorted_wrt (<) ?hi" "\<forall>p \<in> set ?hi. hd (b # ip) \<le> p \<and> p < last (b # ip)"
    using 1(4,5) by (auto simp: sorted_wrt_filter)
  have IH: "blocks (map (before ?hi) (b # ip)) xs = map (\<lambda>p. blocks (b # ip) xs ! nat (p - b)) ?hi"
    using 1(1) [of ?hi] 1(2,3) hi by simp
  have "blocks (map (before keep) (a # b # ip)) (x # xs) = replicate (length ?lo) x @ blocks (map (before keep) (b # ip)) xs"
    using head by simp
  also have "blocks (map (before keep) (b # ip)) xs = map (\<lambda>p. blocks (b # ip) xs ! nat (p - b)) ?hi"
    unfolding shift blocks_shift by (rule IH)
  also have "replicate (length ?lo) x = map (\<lambda>p. blocks (a # b # ip) (x # xs) ! nat (p - a)) ?lo"
  proof (rule nth_equalityI)
    fix i assume "i < length (replicate (length ?lo) x)"
    then have i: "i < length ?lo" by simp
    then have "?lo ! i \<in> set ?lo" by (rule nth_mem)
    then have "?lo ! i < b" "a \<le> ?lo ! i" using 1(5) by auto
    then show "replicate (length ?lo) x ! i = map (\<lambda>p. blocks (a # b # ip) (x # xs) ! nat (p - a)) ?lo ! i"
      using i by (simp add: nth_append)
  qed simp
  also have "map (\<lambda>p. blocks (b # ip) xs ! nat (p - b)) ?hi = map (\<lambda>p. blocks (a # b # ip) (x # xs) ! nat (p - a)) ?hi"
  proof (rule map_cong [OF refl])
    fix p assume "p \<in> set ?hi"
    then have "b \<le> p" by simp
    then have "nat (p - a) = nat (b - a) + nat (p - b)" using ab by linarith
    then show "blocks (b # ip) xs ! nat (p - b) = blocks (a # b # ip) (x # xs) ! nat (p - a)" by (simp add: nth_append)
  qed
  finally show ?case using keep by (metis hd_Cons_tl list.sel(1) map_append)
next
  case "2_1"
  then show ?case by simp
next
  case "2_2"
  then show ?case using no_positions [OF "2_2"(4)] "2_2"(1) by simp
next
  case "2_3"
  then show ?case using no_positions [OF "2_3"(4)] "2_3"(1) by simp
qed

section \<open>Edges by their original identifiers\<close>

text \<open>A matrix fits the identifiers of its rows and columns, where it has them.\<close>

definition matrix_fits :: "csc \<Rightarrow> int list option \<Rightarrow> int list option \<Rightarrow> bool" where
  "matrix_fits m rs cs \<longleftrightarrow> csc_ok m \<and>
     (case rs of None \<Rightarrow> True | Some ids \<Rightarrow> \<forall>i \<in> set (cs_indices m). valid_index ids i) \<and>
     (case cs of None \<Rightarrow> True | Some ids \<Rightarrow> length (cs_indptr m) = length ids + 1)"

definition rows_of :: "csc \<Rightarrow> int list option \<Rightarrow> int list" where
  "rows_of m rs = (case rs of None \<Rightarrow> cs_indices m | Some ids \<Rightarrow> map (\<lambda>i. ids ! nat i) (cs_indices m))"

definition columns_of :: "csc \<Rightarrow> int list option \<Rightarrow> int list" where
  "columns_of m cs = (case cs of None \<Rightarrow> map int [0..<length (cs_indptr m) - 1] | Some ids \<Rightarrow> ids)"

definition edges_of :: "csc \<Rightarrow> int list option \<Rightarrow> int list option \<Rightarrow> (int \<times> int) list" where
  "edges_of m rs cs = zip (rows_of m rs) (blocks (cs_indptr m) (columns_of m cs))"

lemma length_rows [simp]: "length (rows_of m rs) = length (cs_indices m)"
  by (simp add: rows_of_def split: option.split)

lemma matrix_lengths:
  assumes "matrix_fits m rs cs"
  shows "length (cs_indptr m) = length (columns_of m cs) + 1"
    and "length (blocks (cs_indptr m) (columns_of m cs)) = length (cs_indices m)"
    and "length (edges_of m rs cs) = length (cs_indices m)"
proof -
  show l: "length (cs_indptr m) = length (columns_of m cs) + 1"
    using assms by (auto simp: matrix_fits_def csc_ok_def columns_of_def split: option.splits)
  show b: "length (blocks (cs_indptr m) (columns_of m cs)) = length (cs_indices m)"
    using length_blocks [OF l] assms by (simp add: matrix_fits_def csc_ok_def)
  show "length (edges_of m rs cs) = length (cs_indices m)" by (simp add: edges_of_def b)
qed

lemma reverse_ids_eq:
  assumes "matrix_fits m rs cs"
  shows "to_reverse_ids m rs cs = Inr (rows_of m rs, blocks (cs_indptr m) (columns_of m cs))"
proof -
  let ?ip = "cs_indptr m"
  note len = matrix_lengths [OF assms]
  have nonneg: "\<not> (\<exists>n \<in> set (diff ?ip). n < 0)"
    using diff_nonneg [of ?ip] assms by (force simp: matrix_fits_def csc_ok_def)
  have ld: "length (diff ?ip) = length (columns_of m cs)" using len(1) by (simp add: diff_def)
  have rows: "(case rs of None \<Rightarrow> Inr (cs_indices m) | Some ids \<Rightarrow> gather_row ids (cs_indices m)) = Inr (rows_of m rs)"
    using assms by (auto simp: matrix_fits_def rows_of_def gather_row_valid split: option.splits)
  have "expand_indptr ?ip True cs (Some (int (length (cs_indices m)))) = Inr (blocks ?ip (columns_of m cs))"
  proof (cases cs)
    case (Some ids)
    have "(if length (diff ?ip) = 1 then replicate (length ids) (hd (diff ?ip)) else diff ?ip) = diff ?ip"
      using ld Some by (cases "diff ?ip") (auto simp: columns_of_def)
    then show ?thesis
      using nonneg ld blocks_repeat [OF len(1)] len(2) Some
      by (simp add: expand_indptr_def repeat_interleave_def Let_def columns_of_def)
  next
    case None
    have "concat (map (\<lambda>i. replicate (nat (diff ?ip ! i)) (int i)) [0..<length (diff ?ip)]) =
        concat (map (\<lambda>(x, n). replicate (nat n) x) (zip (columns_of m cs) (diff ?ip)))"
      using ld None by (intro arg_cong [where f = concat] nth_equalityI) (simp_all add: columns_of_def)
    then show ?thesis
      using nonneg blocks_repeat [OF len(1)] len(2) None
      by (simp add: expand_indptr_def repeat_positions_def Let_def)
  qed
  then show ?thesis using rows by (simp add: to_reverse_ids_def)
qed

section \<open>Positions that stay\<close>

lemma nonzero_select: "map (\<lambda>p. xs ! nat p) (nonzero_1d (map P xs)) = filter P xs"
proof -
  have "map (\<lambda>p. xs ! nat p) (nonzero_1d (map P xs)) = map ((!) xs) (filter (\<lambda>i. P (xs ! i)) [0..<length xs])"
    unfolding nonzero_1d_def map_map comp_def by (intro arg_cong2 [where f = map] filter_cong) simp_all
  also have "\<dots> = filter P (map ((!) xs) [0..<length xs])" by (simp add: filter_map comp_def)
  finally show ?thesis by (simp add: map_nth)
qed

lemma nonzero_sorted: "sorted_wrt (<) (nonzero_1d bs)"
  by (simp add: nonzero_1d_def sorted_wrt_map sorted_wrt_filter)

lemma nonzero_bound: "p \<in> set (nonzero_1d bs) \<Longrightarrow> 0 \<le> p \<and> p < int (length bs)"
  by (auto simp: nonzero_1d_def)

lemma zip_select:
  assumes "length ys = length xs" and "\<forall>p \<in> set keep. 0 \<le> p \<and> p < int (length xs)"
  shows "zip (map (\<lambda>p. xs ! nat p) keep) (map (\<lambda>p. ys ! nat p) keep) = map (\<lambda>p. zip xs ys ! nat p) keep"
  using assms(2) by (induction keep) (auto simp: assms(1) nth_zip nat_less_iff)

lemma before_all: "\<forall>p \<in> set keep. p < v \<Longrightarrow> before keep v = int (length keep)"
  by (simp add: before_def)

lemma before_none: "\<forall>p \<in> set keep. v \<le> p \<Longrightarrow> before keep v = 0"
  by (simp add: before_def filter_empty_conv) (simp add: not_less)

lemma before_mono: "a \<le> b \<Longrightarrow> before keep a \<le> before keep b"
proof (induction keep)
  case (Cons x keep)
  then show ?case by (auto simp: before_def)
qed (simp add: before_def)

lemma slice_csc_eq:
  assumes "csc_ok m" and "sorted_wrt (<) keep" and "\<forall>p \<in> set keep. 0 \<le> p \<and> p < int (length (cs_indices m))"
  defines "m' \<equiv> \<lparr>cs_indptr = map (before keep) (cs_indptr m), cs_indices = map (\<lambda>p. cs_indices m ! nat p) keep\<rparr>"
  shows "slice_csc m (Some keep) = Inr m'" and "csc_ok m'"
proof -
  let ?ip = "cs_indptr m"
  have take: "take_rows xs keep = Inr (map (\<lambda>p. xs ! nat p) keep)" if "length xs = length (cs_indices m)" for xs :: "int list"
    using assms(3) that by (intro take_rows_valid) (auto simp: valid_index_def)
  have ne: "?ip \<noteq> []" and hd: "hd ?ip = 0" and sorted: "sorted ?ip" and last: "last ?ip = int (length (cs_indices m))"
    using assms(1) by (simp_all add: csc_ok_def)
  have l: "last (map (before keep) ?ip) = int (length keep)"
    using ne last assms(3) by (simp add: last_map before_all)
  have "searchsorted_left keep ?ip = map (before keep) ?ip" by (simp add: searchsorted_left_def before_def)
  moreover have "csc_init (map (before keep) ?ip) (map (\<lambda>p. cs_indices m ! nat p) keep) = Inr m'"
    using ne l unfolding m'_def by (intro csc_init_ok) simp_all
  ultimately show "slice_csc m (Some keep) = Inr m'" by (simp add: slice_csc_def take)
  have "hd (map (before keep) ?ip) = 0" using ne hd assms(3) by (simp add: hd_map before_none)
  moreover have "sorted (map (before keep) ?ip)"
    using sorted by (simp add: sorted_wrt_map) (rule sorted_wrt_mono_rel, auto intro: before_mono)
  ultimately show "csc_ok m'" using ne l by (simp add: csc_ok_def m'_def)
qed


lemma blocks_keep_sorted:
  assumes "matrix_fits m rs cs" and "sorted_wrt (<) keep" and "\<forall>p \<in> set keep. 0 \<le> p \<and> p < int (length (cs_indices m))"
  shows "blocks (map (before keep) (cs_indptr m)) (columns_of m cs) =
    map (\<lambda>p. blocks (cs_indptr m) (columns_of m cs) ! nat p) keep"
proof -
  have "csc_ok m" using assms(1) by (simp add: matrix_fits_def)
  then show ?thesis
    using blocks_keep [OF matrix_lengths(1) [OF assms(1)] _ assms(2)] assms(3) by (simp add: csc_ok_def)
qed

text \<open>Keeping the edges at some positions.\<close>

lemma slice_edges:
  assumes fits: "matrix_fits m rs cs" and keep: "sorted_wrt (<) keep" "\<forall>p \<in> set keep. 0 \<le> p \<and> p < int (length (cs_indices m))"
  shows "\<exists>m'. slice_csc m (Some keep) = Inr m' \<and> matrix_fits m' rs cs \<and>
    edges_of m' rs cs = map (\<lambda>p. edges_of m rs cs ! nat p) keep"
proof -
  let ?m' = "\<lparr>cs_indptr = map (before keep) (cs_indptr m), cs_indices = map (\<lambda>p. cs_indices m ! nat p) keep\<rparr>"
  have ok: "csc_ok m" using fits by (simp add: matrix_fits_def)
  note sl = slice_csc_eq [OF ok keep]
  have "set (cs_indices ?m') \<subseteq> set (cs_indices m)" using keep(2) by auto
  then have fits': "matrix_fits ?m' rs cs"
    using fits sl(2) by (auto simp: matrix_fits_def split: option.splits)
  have cols: "columns_of ?m' cs = columns_of m cs" by (simp add: columns_of_def split: option.split)
  have rows: "rows_of ?m' rs = map (\<lambda>p. rows_of m rs ! nat p) keep"
    using keep(2) by (auto simp: rows_of_def split: option.split)
  have "edges_of ?m' rs cs = zip (map (\<lambda>p. rows_of m rs ! nat p) keep) (map (\<lambda>p. blocks (cs_indptr m) (columns_of m cs) ! nat p) keep)"
    using blocks_keep_sorted [OF fits keep] by (simp add: edges_of_def cols rows)
  also have "\<dots> = map (\<lambda>p. edges_of m rs cs ! nat p) keep"
    unfolding edges_of_def using keep(2) matrix_lengths(2) [OF fits] by (intro zip_select) simp_all
  finally show ?thesis using sl(1) fits' by blast
qed

definition fits_edges :: "(int \<times> int) list \<Rightarrow> bool" where
  "fits_edges es \<longleftrightarrow> (\<forall>(u, v) \<in> set es. fits32 u \<and> fits32 v)"

lemma packed_isin:
  assumes "fits_edges es" and "fits_edges ex"
  shows "map Not (isin (map (\<lambda>(u, v). pack_edge u v) es) (map (\<lambda>(u, v). pack_edge u v) ex)) = map (\<lambda>e. e \<notin> set ex) es"
proof -
  have "(case e of (u, v) \<Rightarrow> pack_edge u v) \<in> (\<lambda>(u, v). pack_edge u v) ` set ex \<longleftrightarrow> e \<in> set ex" if e_in: "e \<in> set es" for e
  proof -
    obtain u v where e: "e = (u, v)" "fits32 u" "fits32 v" using assms(1) e_in by (cases e) (auto simp: fits_edges_def)
    have "pack_edge u v = pack_edge u' v' \<longleftrightarrow> u = u' \<and> v = v'" if "(u', v') \<in> set ex" for u' v'
      using that assms(2) e by (intro pack_edge_inj) (auto simp: fits_edges_def)
    then show ?thesis unfolding e(1) by force
  qed
  then show ?thesis by (simp add: isin_def)
qed

text \<open>Excluding edges from one matrix, with the identifiers of its edges.\<close>

lemma exclude_matrix:
  assumes fits: "matrix_fits m rs cs" and small: "fits_edges (edges_of m rs cs)" "fits_edges ex"
    and ids: "length es = length (cs_indices m)"
  shows "\<exists>ix m' es'. rbind (to_reverse_ids m rs cs) (\<lambda>rev_edges. exclude_homo_edges rev_edges ex True) = Inr ix \<and>
    slice_csc m (Some ix) = Inr m' \<and> slice_ids es (Some ix) = Inr es' \<and> matrix_fits m' rs cs \<and> length es' = length (cs_indices m') \<and>
    zip (edges_of m' rs cs) es' = filter (\<lambda>(e, i). e \<notin> set ex) (zip (edges_of m rs cs) es)"
proof -
  let ?E = "edges_of m rs cs"
  let ?keep = "nonzero_1d (map (\<lambda>e. e \<notin> set ex) ?E)"
  have len: "length ?E = length (cs_indices m)" by (rule matrix_lengths(3) [OF fits])
  have ix: "rbind (to_reverse_ids m rs cs) (\<lambda>rev_edges. exclude_homo_edges rev_edges ex True) = Inr ?keep"
    using packed_isin [OF small] by (simp add: reverse_ids_eq [OF fits] exclude_homo_edges_def edges_of_def)
  have keep: "sorted_wrt (<) ?keep" "\<forall>p \<in> set ?keep. 0 \<le> p \<and> p < int (length (cs_indices m))"
    using nonzero_sorted nonzero_bound [of _ "map (\<lambda>e. e \<notin> set ex) ?E"] len by auto
  obtain m' where m': "slice_csc m (Some ?keep) = Inr m'" "matrix_fits m' rs cs" "edges_of m' rs cs = map (\<lambda>p. ?E ! nat p) ?keep"
    using slice_edges [OF fits keep] by blast
  have es': "slice_ids es (Some ?keep) = Inr (map (\<lambda>p. es ! nat p) ?keep)"
    unfolding slice_ids_def option.case using keep(2) ids by (intro take_rows_valid) (auto simp: valid_index_def)
  have same: "?keep = nonzero_1d (map (\<lambda>(e, i). e \<notin> set ex) (zip ?E es))"
  proof -
    have "map (\<lambda>(e, i). e \<notin> set ex) (zip ?E es) = map (\<lambda>e. e \<notin> set ex) (map fst (zip ?E es))" by (simp add: split_def)
    then show ?thesis using len ids by simp
  qed
  have "zip (edges_of m' rs cs) (map (\<lambda>p. es ! nat p) ?keep) = map (\<lambda>p. zip ?E es ! nat p) ?keep"
    unfolding m'(3) using keep(2) len ids by (intro zip_select) simp_all
  also have "\<dots> = filter (\<lambda>(e, i). e \<notin> set ex) (zip ?E es)" unfolding same by (rule nonzero_select)
  finally have zips: "zip (edges_of m' rs cs) (map (\<lambda>p. es ! nat p) ?keep) = filter (\<lambda>(e, i). e \<notin> set ex) (zip ?E es)" .
  have "length (map (\<lambda>p. es ! nat p) ?keep) = length (cs_indices m')"
    using matrix_lengths(3) [OF m'(2)] unfolding m'(3) by simp
  then show ?thesis using ix m'(1,2) es' zips by blast
qed


section \<open>Subgraphs without edges\<close>

text \<open>C9. Excluding edges from a homogeneous subgraph keeps exactly the edges, read by the original
  identifiers of their rows and columns, that are not to be excluded, in their order and with their own
  edge identifiers; the matrix stays well formed.\<close>

theorem exclude_edges_filters:
  assumes "sg_csc sg = Homo m" and "whole_ids TypeError (sg_row_ids sg) = Inr rs" and "whole_ids AttributeError (sg_col_ids sg) = Inr cs"
    and "matrix_fits m rs cs" and "fits_edges (edges_of m rs cs)" and "fits_edges ex"
    and "sg_edge_ids sg = Some (Homo es)" and "length es = length (cs_indices m)"
  shows "\<exists>m' es'. exclude_edges sg (Homo ex) True = Inr (sg\<lparr>sg_csc := Homo m', sg_edge_ids := Some (Homo es')\<rparr>) \<and>
    matrix_fits m' rs cs \<and> length es' = length (cs_indices m') \<and>
    zip (edges_of m' rs cs) es' = filter (\<lambda>(e, i). e \<notin> set ex) (zip (edges_of m rs cs) es)"
proof -
  obtain ix m' es' where run: "rbind (to_reverse_ids m rs cs) (\<lambda>rev_edges. exclude_homo_edges rev_edges ex True) = Inr ix"
      "slice_csc m (Some ix) = Inr m'" "slice_ids es (Some ix) = Inr es'"
    and kept: "matrix_fits m' rs cs" "length es' = length (cs_indices m')"
      "zip (edges_of m' rs cs) es' = filter (\<lambda>(e, i). e \<notin> set ex) (zip (edges_of m rs cs) es)"
    using exclude_matrix [OF assms(4,5,6,8)] by blast
  have "exclude_index sg (Homo ex) True = Inr (Homo (Some ix))"
    using assms(1,2,3) run(1) by (auto simp: exclude_index_def rbind_eq_Inr)
  then have "exclude_edges sg (Homo ex) True = Inr (sg\<lparr>sg_csc := Homo m', sg_edge_ids := Some (Homo es')\<rparr>)"
    using assms(1,7) run(2,3) by (simp add: exclude_edges_def slice_subgraph_def slice_typed_def subgraph_init_def)
  then show ?thesis using kept by blast
qed

definition example_subgraph :: subgraph where
  "example_subgraph =
     \<lparr>sg_csc = Homo \<lparr>cs_indptr = [0, 1, 2, 3], cs_indices = [0, 1, 2]\<rparr>, sg_col_ids = Some (Homo [10, 11, 12]),
      sg_row_ids = Some (Homo [13, 14, 15]), sg_edge_ids = Some (Homo [19, 20, 21])\<rparr>"

theorem exclude_edges_filters_witness:
  "\<exists>sg'. exclude_edges example_subgraph (Homo [(14, 11), (15, 12)]) True = Inr sg' \<and> sg_edge_ids sg' = Some (Homo [19])"
proof -
  let ?m = "\<lparr>cs_indptr = [0, 1, 2, 3], cs_indices = [0, 1, 2]\<rparr>"
  have e: "edges_of ?m (Some [13, 14, 15]) (Some [10, 11, 12]) = [(13, 10), (14, 11), (15, 12)]"
    by (simp add: edges_of_def rows_of_def columns_of_def)
  have f: "matrix_fits ?m (Some [13, 14, 15]) (Some [10, 11, 12])"
    by (simp add: matrix_fits_def csc_ok_def valid_index_def)
  have "\<exists>m' es'. exclude_edges example_subgraph (Homo [(14, 11), (15, 12)]) True =
        Inr (example_subgraph\<lparr>sg_csc := Homo m', sg_edge_ids := Some (Homo es')\<rparr>) \<and>
      matrix_fits m' (Some [13, 14, 15]) (Some [10, 11, 12]) \<and> length es' = length (cs_indices m') \<and>
      zip (edges_of m' (Some [13, 14, 15]) (Some [10, 11, 12])) es' =
        filter (\<lambda>(e, i). e \<notin> set [(14, 11), (15, 12)]) (zip (edges_of ?m (Some [13, 14, 15]) (Some [10, 11, 12])) [19, 20, 21])"
    by (rule exclude_edges_filters [OF _ _ _ f])
      (simp_all add: example_subgraph_def whole_ids_def e fits_edges_def fits32_def)
  then obtain m' es' where r: "exclude_edges example_subgraph (Homo [(14, 11), (15, 12)]) True =
        Inr (example_subgraph\<lparr>sg_csc := Homo m', sg_edge_ids := Some (Homo es')\<rparr>)"
      "matrix_fits m' (Some [13, 14, 15]) (Some [10, 11, 12])" "length es' = length (cs_indices m')"
      "zip (edges_of m' (Some [13, 14, 15]) (Some [10, 11, 12])) es' = [((13, 10), 19)]"
    by (auto simp: e)
  then have "es' = map snd [((13 :: int, 10 :: int), 19)]"
    using matrix_lengths(3) [OF r(2)] by (metis map_snd_zip)
  then show ?thesis using r(1) by simp
qed

text \<open>For a heterogeneous subgraph, the same of each type.\<close>

definition type_fits :: "subgraph \<Rightarrow> string \<Rightarrow> csc \<Rightarrow> int list \<Rightarrow> bool" where
  "type_fits sg etype m es \<longleftrightarrow> (\<exists>s d rs cs. etype_ends etype = Inr (s, d) \<and> ids_of_type (sg_row_ids sg) s = Inr rs \<and>
     ids_of_type (sg_col_ids sg) d = Inr cs \<and> matrix_fits m rs cs \<and> fits_edges (edges_of m rs cs) \<and> length es = length (cs_indices m))"

definition type_edges :: "subgraph \<Rightarrow> string \<Rightarrow> csc \<Rightarrow> int list \<Rightarrow> ((int \<times> int) \<times> int) list" where
  "type_edges sg etype m es =
     (case rbind (etype_ends etype) (\<lambda>(s, d). rbind (ids_of_type (sg_row_ids sg) s) (\<lambda>rs. rbind (ids_of_type (sg_col_ids sg) d) (\<lambda>cs. Inr (rs, cs)))) of
        Inl e \<Rightarrow> [] | Inr (rs, cs) \<Rightarrow> zip (edges_of m rs cs) es)"

definition excluded :: "(string \<times> (int \<times> int) list) list \<Rightarrow> string \<Rightarrow> (int \<times> int) list" where
  "excluded d etype = (case map_of d etype of None \<Rightarrow> [] | Some es \<Rightarrow> es)"

lemma fits_edges_filter: "set es' \<subseteq> set es \<Longrightarrow> fits_edges es \<Longrightarrow> fits_edges es'"
  by (auto simp: fits_edges_def)

lemma exclude_type:
  assumes "type_fits sg etype m es" and "fits_edges (excluded d etype)"
  shows "\<exists>ix m' es'. exclude_type_index sg d True etype m = Inr ix \<and> slice_csc m ix = Inr m' \<and> slice_ids es ix = Inr es' \<and>
    type_fits sg etype m' es' \<and>
    type_edges sg etype m' es' = filter (\<lambda>(e, i). e \<notin> set (excluded d etype)) (type_edges sg etype m es)"
proof (cases "map_of d etype")
  case None
  have "filter (\<lambda>(e, i). e \<notin> set (excluded d etype)) (type_edges sg etype m es) = type_edges sg etype m es"
    using None by (intro filter_True) (auto simp: excluded_def)
  then show ?thesis using None assms(1) by (simp add: exclude_type_index_def slice_csc_def slice_ids_def)
next
  case (Some ex)
  obtain s t rs cs where ids: "etype_ends etype = Inr (s, t)" "ids_of_type (sg_row_ids sg) s = Inr rs" "ids_of_type (sg_col_ids sg) t = Inr cs"
    and m: "matrix_fits m rs cs" "fits_edges (edges_of m rs cs)" and len: "length es = length (cs_indices m)"
    using assms(1) unfolding type_fits_def by blast
  have ex: "fits_edges ex" "excluded d etype = ex" using assms(2) Some by (simp_all add: excluded_def)
  have edges: "type_edges sg etype n is = zip (edges_of n rs cs) is" for n "is" using ids by (simp add: type_edges_def)
  obtain ix m' es' where run: "rbind (to_reverse_ids m rs cs) (\<lambda>rev_edges. exclude_homo_edges rev_edges ex True) = Inr ix"
      "slice_csc m (Some ix) = Inr m'" "slice_ids es (Some ix) = Inr es'"
    and kept: "matrix_fits m' rs cs" "length es' = length (cs_indices m')"
      "zip (edges_of m' rs cs) es' = filter (\<lambda>(e, i). e \<notin> set ex) (zip (edges_of m rs cs) es)"
    using exclude_matrix [OF m ex(1) len] by blast
  have "set (map fst (zip (edges_of m' rs cs) es')) \<subseteq> set (edges_of m rs cs)"
    unfolding kept(3) by (auto dest: set_zip_leftD)
  moreover have "map fst (zip (edges_of m' rs cs) es') = edges_of m' rs cs"
    using kept(2) matrix_lengths(3) [OF kept(1)] by simp
  ultimately have "fits_edges (edges_of m' rs cs)" using m(2) fits_edges_filter by metis
  then have "type_fits sg etype m' es'" using ids kept(1,2) unfolding type_fits_def by blast
  moreover have "exclude_type_index sg d True etype m = Inr (Some ix)"
    using Some ids run(1) by (auto simp: exclude_type_index_def rbind_eq_Inr)
  ultimately show ?thesis using run(2,3) kept(3) edges ex(2) by auto
qed


definition typed_subgraph :: "subgraph \<Rightarrow> (string \<times> csc) list \<Rightarrow> (string \<times> int list) list \<Rightarrow> bool" where
  "typed_subgraph sg ms ids \<longleftrightarrow> sg_csc sg = Hetero ms \<and> sg_edge_ids sg = Some (Hetero ids) \<and>
     map fst ids = map fst ms \<and> distinct (map fst ms) \<and>
     (\<forall>(etype, m) \<in> set ms. \<exists>es. (etype, es) \<in> set ids \<and> type_fits sg etype m es)"

lemma rmap_keyed:
  assumes "\<forall>(k, v) \<in> set xs. g k v = Inr (f k)"
  shows "rmap (\<lambda>(k, v). rbind (g k v) (\<lambda>y. Inr (k, y))) xs = Inr (map (\<lambda>(k, v). (k, f k)) xs)"
  using assms by (intro rmap_total) auto

lemma slice_typed_keyed:
  assumes "map fst ys = map fst xs" and "\<And>k v. (k, v) \<in> set ys \<Longrightarrow> sel v (ix k) = Inr (f k)"
  shows "slice_typed sel (Hetero ys) (Hetero (map (\<lambda>(k, v). (k, ix k)) xs)) = Inr (Hetero (map (\<lambda>(k, v). (k, f k)) ys))"
proof -
  have "fst ` set ys = fst ` set xs" using assms(1) by (metis list.set_map)
  then have get: "dict_get (map (\<lambda>(k, v). (k, ix k)) xs) k = Inr (ix k)" if "(k, v) \<in> set ys" for k v
    using map_of_keyed [of k xs ix] that by (force simp: dict_get_def)
  have "rmap (\<lambda>(k, v). rbind (dict_get (map (\<lambda>(k, v). (k, ix k)) xs) k) (\<lambda>i. rbind (sel v i) (\<lambda>y. Inr (k, y)))) ys =
      Inr (map (\<lambda>(k, v). (k, f k)) ys)"
  proof (rule rmap_total)
    fix x assume x: "x \<in> set ys"
    obtain k v where k: "x = (k, v)" by (cases x)
    have "sel v (ix k) = Inr (f k)" "dict_get (map (\<lambda>(k, v). (k, ix k)) xs) k = Inr (ix k)"
      using x assms(2) get unfolding k by blast+
    then show "(case x of (k, v) \<Rightarrow> rbind (dict_get (map (\<lambda>(k, v). (k, ix k)) xs) k) (\<lambda>i. rbind (sel v i) (\<lambda>y. Inr (k, y)))) =
        Inr (case x of (k, v) \<Rightarrow> (k, f k))" unfolding k by (simp add: dict_get_def)
  qed
  then show ?thesis by (simp add: slice_typed_def)
qed

definition kept_type :: "subgraph \<Rightarrow> (string \<times> (int \<times> int) list) list \<Rightarrow> string \<Rightarrow> csc \<Rightarrow> int list \<Rightarrow>
    int list option \<times> csc \<times> int list \<Rightarrow> bool" where
  "kept_type sg d k m es x \<longleftrightarrow>
     exclude_type_index sg d True k m = Inr (fst x) \<and> slice_csc m (fst x) = Inr (fst (snd x)) \<and> slice_ids es (fst x) = Inr (snd (snd x)) \<and>
     type_fits sg k (fst (snd x)) (snd (snd x)) \<and>
     type_edges sg k (fst (snd x)) (snd (snd x)) = filter (\<lambda>(e, i). e \<notin> set (excluded d k)) (type_edges sg k m es)"

lemma typed_member:
  assumes "typed_subgraph sg ms ids"
  shows "(k, m) \<in> set ms \<Longrightarrow> \<exists>es. (k, es) \<in> set ids \<and> type_fits sg k m es"
    and "(k, es) \<in> set ids \<Longrightarrow> \<exists>m. (k, m) \<in> set ms"
    and "(k, m) \<in> set ms \<Longrightarrow> (k, n) \<in> set ms \<Longrightarrow> n = m"
    and "(k, es) \<in> set ids \<Longrightarrow> (k, fs) \<in> set ids \<Longrightarrow> fs = es"
proof -
  have keys: "map fst ids = map fst ms" and dist: "distinct (map fst ms)" "distinct (map fst ids)"
    using assms by (auto simp: typed_subgraph_def)
  show "(k, m) \<in> set ms \<Longrightarrow> \<exists>es. (k, es) \<in> set ids \<and> type_fits sg k m es"
    using assms by (force simp: typed_subgraph_def)
  have "fst ` set ids = fst ` set ms" using keys by (metis list.set_map)
  then show "(k, es) \<in> set ids \<Longrightarrow> \<exists>m. (k, m) \<in> set ms" by force
  show "(k, m) \<in> set ms \<Longrightarrow> (k, n) \<in> set ms \<Longrightarrow> n = m" using dist(1) by (simp add: eq_key_imp_eq_value)
  show "(k, es) \<in> set ids \<Longrightarrow> (k, fs) \<in> set ids \<Longrightarrow> fs = es" using dist(2) by (simp add: eq_key_imp_eq_value)
qed

lemma exclude_typed_run:
  assumes sg: "typed_subgraph sg ms ids"
    and kept: "\<And>k m es. (k, m) \<in> set ms \<Longrightarrow> (k, es) \<in> set ids \<Longrightarrow> kept_type sg d k m es (X k)"
  defines "ms' \<equiv> map (\<lambda>(k, m). (k, fst (snd (X k)))) ms" and "ids' \<equiv> map (\<lambda>(k, es). (k, snd (snd (X k)))) ids"
  defines "sg' \<equiv> sg\<lparr>sg_csc := Hetero ms', sg_edge_ids := Some (Hetero ids')\<rparr>"
  shows "exclude_edges sg (Hetero d) True = Inr sg'" and "typed_subgraph sg' ms' ids'"
proof -
  note member = typed_member [OF sg]
  have parts: "sg_csc sg = Hetero ms" "sg_edge_ids sg = Some (Hetero ids)" and keys: "map fst ids = map fst ms"
    using sg by (simp_all add: typed_subgraph_def)
  let ?ixs = "map (\<lambda>(k, m). (k, fst (X k))) ms"
  have each: "exclude_type_index sg d True k m = Inr (fst (X k)) \<and> slice_csc m (fst (X k)) = Inr (fst (snd (X k)))"
    if "(k, m) \<in> set ms" for k m
    using member(1) [OF that] kept [OF that] unfolding kept_type_def by blast
  have each': "slice_ids es (fst (X k)) = Inr (snd (snd (X k)))" if "(k, es) \<in> set ids" for k es
    using member(2) [OF that] kept [OF _ that] unfolding kept_type_def by blast
  have fits: "type_fits sg k (fst (snd (X k))) (snd (snd (X k)))" if "(k, m) \<in> set ms" for k m
    using member(1) [OF that] kept [OF that] unfolding kept_type_def by blast
  have "exclude_index sg (Hetero d) True = Inr (Hetero ?ixs)"
    using rmap_keyed [of ms "exclude_type_index sg d True" "\<lambda>k. fst (X k)"] each parts(1)
    by (simp add: exclude_index_def split_def)
  moreover have "slice_typed slice_csc (Hetero ms) (Hetero ?ixs) = Inr (Hetero ms')"
    unfolding ms'_def using each by (intro slice_typed_keyed) simp_all
  moreover have "slice_typed slice_ids (Hetero ids) (Hetero ?ixs) = Inr (Hetero ids')"
    unfolding ids'_def using each' keys by (intro slice_typed_keyed) simp_all
  moreover have "subgraph_init (Hetero ms') (sg_col_ids sg) (sg_row_ids sg) (Some (Hetero ids')) = Inr sg'"
  proof -
    have "\<exists>y. etype_ends k = Inr y" if "(k, m) \<in> set ms" for k m
      using fits [OF that] unfolding type_fits_def by blast
    then have "rmap (\<lambda>(etype, m). etype_ends etype) ms' = Inr (map (\<lambda>(etype, m). projr (etype_ends etype)) ms')"
      by (intro rmap_total) (force simp: ms'_def)
    then show ?thesis by (simp add: subgraph_init_def sg'_def)
  qed
  ultimately show "exclude_edges sg (Hetero d) True = Inr sg'"
    using parts by (simp add: exclude_edges_def slice_subgraph_def)
  have "map fst ids' = map fst ms'" "distinct (map fst ms')"
    using sg keys by (simp_all add: typed_subgraph_def ms'_def ids'_def split_def comp_def)
  moreover have "\<exists>es. (k, es) \<in> set ids' \<and> type_fits sg' k m es" if m: "(k, m) \<in> set ms'" for k m
  proof -
    obtain n where n: "(k, n) \<in> set ms" "m = fst (snd (X k))" using m by (auto simp: ms'_def)
    obtain es where "(k, es) \<in> set ids" using member(1) [OF n(1)] by blast
    then have "(k, snd (snd (X k))) \<in> set ids'" by (force simp: ids'_def)
    moreover have "type_fits sg' k m (snd (snd (X k)))"
      using fits [OF n(1)] by (simp add: type_fits_def sg'_def n(2))
    ultimately show ?thesis by blast
  qed
  ultimately show "typed_subgraph sg' ms' ids'" by (auto simp: typed_subgraph_def sg'_def)
qed

text \<open>Excluding edges from a heterogeneous subgraph keeps, of each edge type, exactly the edges that are
  not listed for this type, in their order and with their own edge identifiers; a type for which nothing
  is listed keeps all its edges.\<close>

lemma exclude_typed_edges:
  assumes "typed_subgraph sg ms ids" and "\<forall>etype. fits_edges (excluded d etype)"
  shows "\<exists>sg' ms' ids'. exclude_edges sg (Hetero d) True = Inr sg' \<and> typed_subgraph sg' ms' ids' \<and> map fst ms' = map fst ms \<and>
    (\<forall>etype m es. (etype, m) \<in> set ms \<longrightarrow> (etype, es) \<in> set ids \<longrightarrow> (\<exists>m' es'. (etype, m') \<in> set ms' \<and> (etype, es') \<in> set ids' \<and>
       type_edges sg' etype m' es' = filter (\<lambda>(e, i). e \<notin> set (excluded d etype)) (type_edges sg etype m es)))"
proof -
  note member = typed_member [OF assms(1)]
  have "\<exists>x. \<forall>m es. (k, m) \<in> set ms \<longrightarrow> (k, es) \<in> set ids \<longrightarrow> kept_type sg d k m es x" for k
  proof (cases "\<exists>m. (k, m) \<in> set ms")
    case True
    then obtain m es where k: "(k, m) \<in> set ms" "(k, es) \<in> set ids" "type_fits sg k m es" using member(1) by blast
    obtain ix m' es' where "kept_type sg d k m es (ix, m', es')"
      using exclude_type [OF k(3)] assms(2) unfolding kept_type_def fst_conv snd_conv by blast
    then show ?thesis using member(3,4) k(1,2) by blast
  qed blast
  then obtain X where X: "\<forall>k m es. (k, m) \<in> set ms \<longrightarrow> (k, es) \<in> set ids \<longrightarrow> kept_type sg d k m es (X k)"
    by (metis choice)
  let ?ms = "map (\<lambda>(k, m). (k, fst (snd (X k)))) ms" and ?ids = "map (\<lambda>(k, es). (k, snd (snd (X k)))) ids"
  let ?sg = "sg\<lparr>sg_csc := Hetero ?ms, sg_edge_ids := Some (Hetero ?ids)\<rparr>"
  have "exclude_edges sg (Hetero d) True = Inr ?sg" "typed_subgraph ?sg ?ms ?ids"
    using exclude_typed_run [OF assms(1)] X by blast+
  moreover have "map fst ?ms = map fst ms" by (simp add: split_def)
  moreover have "\<exists>n fs. (k, n) \<in> set ?ms \<and> (k, fs) \<in> set ?ids \<and>
       type_edges ?sg k n fs = filter (\<lambda>(e, i). e \<notin> set (excluded d k)) (type_edges sg k m es)"
    if k: "(k, m) \<in> set ms" "(k, es) \<in> set ids" for k m es
  proof -
    have same: "type_edges ?sg = type_edges sg" by (intro ext) (simp add: type_edges_def)
    have "(k, fst (snd (X k))) \<in> set ?ms" "(k, snd (snd (X k))) \<in> set ?ids" using k by force+
    moreover have "type_edges sg k (fst (snd (X k))) (snd (snd (X k))) = filter (\<lambda>(e, i). e \<notin> set (excluded d k)) (type_edges sg k m es)"
      using X k unfolding kept_type_def by blast
    ultimately show ?thesis unfolding same by blast
  qed
  ultimately show ?thesis by blast
qed


section \<open>The asynchronous form\<close>

lemma rmap_keys: "rmap (\<lambda>(k, v). rbind (g k v) (\<lambda>y. Inr (k, y))) xs = Inr ys \<Longrightarrow>
    list_all2 (\<lambda>(k, v) (k', y). k' = k \<and> g k v = Inr y) xs ys"
  by (auto simp: rmap_Inr_conv rbind_eq_Inr elim!: list_all2_mono)

lemma index_types:
  "exclude_type_index sg d a k m = Inr ix \<Longrightarrow> ix = None \<longleftrightarrow> k \<notin> fst ` set d"
  by (auto simp: exclude_type_index_def rbind_eq_Inr map_of_eq_None_iff split: option.splits dest: map_of_SomeD)
    (force dest: map_of_SomeD)+

lemma wait_all:
  "rmap (\<lambda>(k, ix). case ix of None \<Rightarrow> Inl AttributeError | Some i \<Rightarrow> Inr (k, Some i)) ixs =
    (if None \<in> snd ` set ixs then Inl AttributeError else Inr ixs)"
  by (induction ixs) (auto split: option.splits)

text \<open>Where the exclusion of edges succeeds, its asynchronous form gives the same subgraph, except for a
  heterogeneous subgraph with an edge type that has no edges to be excluded: waiting for its index, which is
  \<open>None\<close>, raises \<open>AttributeError\<close>.\<close>

theorem async_exclusion:
  assumes "exclude_edges sg edges True = Inr sg'"
  shows "exclude_edges_async sg edges True =
    (case (sg_csc sg, edges) of
       (Hetero ms, Hetero d) \<Rightarrow> if fst ` set ms \<subseteq> fst ` set d then Inr sg' else Inl AttributeError
     | _ \<Rightarrow> Inr sg')"
proof -
  obtain index where ix: "exclude_index sg edges True = Inr index" "slice_subgraph sg index = Inr sg'"
    using assms by (auto simp: exclude_edges_def rbind_eq_Inr)
  have async: "exclude_edges_async sg edges True = rbind (wait_index index) (slice_subgraph sg)"
    by (simp add: exclude_edges_async_def ix(1))
  show ?thesis
  proof (cases "sg_csc sg")
    case (Homo m)
    then obtain i where "index = Homo i" using ix(1) by (auto simp: exclude_index_def rbind_eq_Inr split: per_type.splits)
    then show ?thesis using Homo async ix(2) by (simp add: wait_index_def)
  next
    case (Hetero ms)
    then obtain d ixs where d: "edges = Hetero d" "index = Hetero ixs"
      and run: "rmap (\<lambda>(k, m). rbind (exclude_type_index sg d True k m) (\<lambda>ix. Inr (k, ix))) ms = Inr ixs"
      using ix(1) by (auto simp: exclude_index_def rbind_eq_Inr split: per_type.splits)
    have "None \<in> snd ` set ixs \<longleftrightarrow> \<not> fst ` set ms \<subseteq> fst ` set d"
      using rmap_keys [OF run]
    proof (induction rule: list_all2_induct)
      case (Cons x xs y ys)
      then show ?case using index_types [of sg d True "fst x" "snd x" "snd y"] by (auto simp: split_def)
    qed simp
    then show ?thesis using Hetero d async ix(2) by (auto simp: wait_index_def wait_all)
  qed
qed

theorem async_exclusion_witness:
  "\<exists>sg'. exclude_edges \<lparr>sg_csc = Hetero [(''A:r:B'', \<lparr>cs_indptr = [0, 1], cs_indices = [0]\<rparr>)], sg_col_ids = None, sg_row_ids = None, sg_edge_ids = None\<rparr>
      (Hetero []) True = Inr sg' \<and>
    exclude_edges_async \<lparr>sg_csc = Hetero [(''A:r:B'', \<lparr>cs_indptr = [0, 1], cs_indices = [0]\<rparr>)], sg_col_ids = None, sg_row_ids = None, sg_edge_ids = None\<rparr>
      (Hetero []) True = Inl AttributeError"
proof -
  let ?sg = "\<lparr>sg_csc = Hetero [(''A:r:B'', \<lparr>cs_indptr = [0, 1], cs_indices = [0]\<rparr>)], sg_col_ids = None, sg_row_ids = None, sg_edge_ids = None\<rparr>"
  have "etype_ends ''A:r:B'' = Inr (''A'', ''B'')" by code_simp
  then have "exclude_edges ?sg (Hetero []) True = Inr ?sg"
    by (simp add: exclude_edges_def exclude_index_def exclude_type_index_def slice_subgraph_def slice_typed_def slice_csc_def
        subgraph_init_def dict_get_def)
  from async_exclusion [OF this] this show ?thesis by simp
qed

section \<open>Seed edges\<close>

lemma flip_member [simp]: "(u, v) \<in> set (flip_edges es) \<longleftrightarrow> (v, u) \<in> set es"
  by force

declare flip_edges.simps [simp del]

lemma excluded_update: "excluded (AList.update k v d) t = (if t = k then v else excluded d t)"
  by (simp add: excluded_def update_conv')

lemma add_reverse_typed:
  assumes "add_reverse_edges (Hetero d) (Some rt) = Inr edges"
  shows "\<exists>d'. edges = Hetero d' \<and> (\<forall>t u v. (u, v) \<in> set (excluded d' t) \<longleftrightarrow>
    (u, v) \<in> set (excluded d t) \<or> (\<exists>e. (e, t) \<in> set rt \<and> (v, u) \<in> set (excluded d e)))"
proof -
  let ?step = "\<lambda>(etype, reverse_etype) combined. case map_of d etype of None \<Rightarrow> combined
    | Some es \<Rightarrow> (case map_of combined reverse_etype of
        Some cs \<Rightarrow> AList.update reverse_etype (cs @ flip_edges es) combined
      | None \<Rightarrow> AList.update reverse_etype (flip_edges es) combined)"
  have step: "(u, v) \<in> set (excluded (?step (e, r) c) t) \<longleftrightarrow> (u, v) \<in> set (excluded c t) \<or> r = t \<and> (v, u) \<in> set (excluded d e)" for u v e r c t
    by (auto simp: excluded_update split: option.split) (auto simp: excluded_def)
  have "(u, v) \<in> set (excluded (fold ?step rt c) t) \<longleftrightarrow>
      (u, v) \<in> set (excluded c t) \<or> (\<exists>e. (e, t) \<in> set rt \<and> (v, u) \<in> set (excluded d e))" for u v c t
  proof (induction rt arbitrary: c)
    case (Cons x rt)
    obtain e r where x: "x = (e, r)" by (cases x)
    show ?case unfolding x fold_simps Cons step by auto
  qed simp
  then show ?thesis using assms by (auto simp: add_reverse_edges_def)
qed


definition seed_edge :: "(string \<times> (int \<times> int) list) list \<Rightarrow> (string \<times> string) list \<Rightarrow> string \<Rightarrow> int \<times> int \<Rightarrow> bool" where
  "seed_edge seeds rt t e \<longleftrightarrow> e \<in> set (excluded seeds t) \<or> (\<exists>(s, r) \<in> set rt. r = t \<and> prod.swap e \<in> set (excluded seeds s))"

definition seeds_removed :: "(string \<times> (int \<times> int) list) list \<Rightarrow> (string \<times> string) list \<Rightarrow> subgraph \<Rightarrow> subgraph \<Rightarrow> bool" where
  "seeds_removed seeds rt sg sg' \<longleftrightarrow> (\<exists>ms ids ms' ids'. typed_subgraph sg ms ids \<and> typed_subgraph sg' ms' ids' \<and> map fst ms' = map fst ms \<and>
     (\<forall>t m es. (t, m) \<in> set ms \<longrightarrow> (t, es) \<in> set ids \<longrightarrow> (\<exists>m' es'. (t, m') \<in> set ms' \<and> (t, es') \<in> set ids' \<and>
       type_edges sg' t m' es' = filter (\<lambda>(e, i). \<not> seed_edge seeds rt t e) (type_edges sg t m es))))"


definition example_typed :: subgraph where
  "example_typed =
     \<lparr>sg_csc = Hetero [(''A:r:B'', \<lparr>cs_indptr = [0, 1, 2], cs_indices = [0, 1]\<rparr>)], sg_col_ids = Some (Hetero [(''B'', [10, 11])]),
      sg_row_ids = Some (Hetero [(''A'', [13, 14])]), sg_edge_ids = Some (Hetero [(''A:r:B'', [19, 20])])\<rparr>"

lemma example_typed: "typed_subgraph example_typed [(''A:r:B'', \<lparr>cs_indptr = [0, 1, 2], cs_indices = [0, 1]\<rparr>)] [(''A:r:B'', [19, 20])]"
proof -
  have "etype_ends ''A:r:B'' = Inr (''A'', ''B'')" by code_simp
  then show ?thesis
    by (simp add: typed_subgraph_def example_typed_def type_fits_def ids_of_type_def matrix_fits_def csc_ok_def
        valid_index_def edges_of_def rows_of_def columns_of_def fits_edges_def fits32_def)
qed


end
