(* ===== verification/GbSeeds.thy ===== *)
theory GbSeeds
  imports GbCompact
begin

text \<open>
  The seeds of a batch before sampling: the negative samples of \<^verbatim>\<open>negative_sampler.py\<close> and
  \<^verbatim>\<open>impl/uniform_negative_sampler.py\<close>, and \<open>_seeds_preprocess\<close> of \<^verbatim>\<open>subgraph_sampler.py\<close>, which collects the
  nodes of the seeds, compacts them and puts the numbers back into the seeds. Random numbers are a parameter.
\<close>

section \<open>Seeds\<close>

text \<open>A tensor of seeds: nodes in one dimension, or rows of a number of columns.\<close>

datatype seeds_tensor = Seed_nodes "int list" | Seed_rows nat "int list list"

definition seed_column :: "nat \<Rightarrow> int list list \<Rightarrow> nat \<Rightarrow> int list res" where
  "seed_column c rows i = (if i < c then Inr (map (\<lambda>r. r ! i) rows) else Inl IndexError)"

text \<open>Elements in columns one after the other, and in rows, as a tensor of rows.\<close>

definition view_columns :: "nat \<Rightarrow> int list \<Rightarrow> int list list res" where
  "view_columns k xs =
     (if k = 0 \<or> length xs mod k \<noteq> 0 then Inl RuntimeError
      else let n = length xs div k in Inr (map (\<lambda>r. map (\<lambda>i. xs ! (i * n + r)) [0..<k]) [0..<n]))"

definition view_as_rows :: "nat \<Rightarrow> nat \<Rightarrow> int list \<Rightarrow> int list list res" where
  "view_as_rows n c xs =
     (if length xs \<noteq> n * c then Inl RuntimeError
      else Inr (map (\<lambda>r. map (\<lambda>i. xs ! (r * c + i)) [0..<c]) [0..<n]))"

text \<open>Each element as often as the count says.\<close>

definition repeat_each :: "'a list \<Rightarrow> int \<Rightarrow> 'a list res" where
  "repeat_each xs n = (if n < 0 then Inl RuntimeError else Inr (concat (map (\<lambda>x. replicate (nat n) x) xs)))"

section \<open>Negative samples\<close>

definition negative_sampler_init :: "int \<Rightarrow> int res" where
  "negative_sampler_init negative_ratio = rbind (rassert (negative_ratio > 0) AssertionError) (\<lambda>_. Inr negative_ratio)"

text \<open>A graph is known by its numbers of nodes: one, or one for each type, and their sum.\<close>

definition sample_negative_edges_uniform :: "(int \<Rightarrow> int \<Rightarrow> int list res) \<Rightarrow> int per_type \<times> int \<Rightarrow> string option \<Rightarrow> int list list \<Rightarrow> int \<Rightarrow>
    int list list res" where
  "sample_negative_edges_uniform randint graph edge_type node_pairs negative_ratio =
     rbind (case edge_type of
         None \<Rightarrow> Inr (snd graph)
       | Some etype \<Rightarrow> if etype = [] then Inr (snd graph) else
           rbind (etype_ends etype) (\<lambda>(src_ntype, dst_ntype).
             case fst graph of Hetero num_nodes \<Rightarrow> dict_get num_nodes dst_ntype | Homo n \<Rightarrow> Inl TypeError)) (\<lambda>max_node_id.
     rbind (seed_column 2 node_pairs 0) (\<lambda>pos_src.
     let num_negative = int (length node_pairs) * negative_ratio in
     rbind (repeat_each pos_src negative_ratio) (\<lambda>neg_src.
     rbind (randint max_node_id num_negative) (\<lambda>neg_dst.
     rbind (view_columns 2 (neg_src @ neg_dst)) (\<lambda>negative_seeds.
     Inr (node_pairs @ negative_seeds))))))"

type_synonym sampled_seeds = "seeds_tensor \<times> int list \<times> int list"

definition sample_with_etype :: "(int \<Rightarrow> int \<Rightarrow> int list res) \<Rightarrow> int per_type \<times> int \<Rightarrow> int \<Rightarrow> seeds_tensor \<Rightarrow> string option \<Rightarrow> sampled_seeds res" where
  "sample_with_etype randint graph negative_ratio seeds etype =
     (case seeds of
        Seed_nodes xs \<Rightarrow> Inl AssertionError
      | Seed_rows c rows \<Rightarrow>
          rbind (rassert (c = 2) AssertionError) (\<lambda>_.
          rbind (sample_negative_edges_uniform randint graph etype rows negative_ratio) (\<lambda>all_seeds.
          let pos_num = length rows; pos_indexes = map int [0..<pos_num] in
          rbind (repeat_each pos_indexes negative_ratio) (\<lambda>neg_indexes.
          let indexes = pos_indexes @ neg_indexes; neg_num = length all_seeds - pos_num;
              labels = replicate pos_num 1 @ replicate neg_num 0 in
          Inr (Seed_rows 2 all_seeds, labels, indexes)))))"

text \<open>The batch: for a heterogeneous one labels and indexes are made where it has none, and other entries of
  theirs stay.\<close>

definition negative_sample :: "(int \<Rightarrow> int \<Rightarrow> int list res) \<Rightarrow> int per_type \<times> int \<Rightarrow> int \<Rightarrow> seeds_tensor per_type \<Rightarrow>
    (string \<times> int list) list option \<Rightarrow> (string \<times> int list) list option \<Rightarrow>
    (seeds_tensor per_type \<times> int list per_type \<times> int list per_type) res" where
  "negative_sample randint graph negative_ratio seeds labels indexes =
     (case seeds of
        Homo s \<Rightarrow>
          rbind (sample_with_etype randint graph negative_ratio s None) (\<lambda>(s, l, ix). Inr (Homo s, Homo l, Homo ix))
      | Hetero d \<Rightarrow>
          let labels = (case labels of None \<Rightarrow> [] | Some ld \<Rightarrow> ld); indexes = (case indexes of None \<Rightarrow> [] | Some ixd \<Rightarrow> ixd) in
          rbind (rfold (\<lambda>(sd, ld, ixd) (etype, pos_pairs).
              rbind (sample_with_etype randint graph negative_ratio pos_pairs (Some etype)) (\<lambda>(s, l, ix).
              Inr (AList.update etype s sd, AList.update etype l ld, AList.update etype ix ixd)))
            (d, labels, indexes) d) (\<lambda>(sd, ld, ixd). Inr (Hetero sd, Hetero ld, Hetero ixd)))"

section \<open>Collecting the nodes\<close>

definition negative_timestamps :: "int list \<Rightarrow> nat \<Rightarrow> int list res" where
  "negative_timestamps timestamp num_rows =
     (if timestamp = [] then Inl ZeroDivisionError
      else repeat_each timestamp (int num_rows div int (length timestamp) - 1))"

type_synonym columns = "(string \<times> int list list) list"

definition append_to :: "string \<Rightarrow> int list list \<Rightarrow> columns \<Rightarrow> columns" where
  "append_to k xs d = AList.update k (get_or [] d k @ xs) d"

definition collect_seed :: "(string \<times> int list) list option \<Rightarrow> columns \<times> columns \<Rightarrow> string \<times> nat \<times> int list list \<Rightarrow>
    (columns \<times> columns) res" where
  "collect_seed timestamp st s =
     (case s of (seed_type, c, rows) \<Rightarrow>
      let ntypes = seed_type_str_to_ntypes seed_type (int c) in
      rbind (case timestamp of
          None \<Rightarrow> Inr []
        | Some ts \<Rightarrow> rbind (dict_get ts seed_type) (\<lambda>t. rbind (negative_timestamps t (length rows)) (\<lambda>neg. Inr [t, neg]))) (\<lambda>times.
      rfold (\<lambda>(nodes, stamps) (i, ntype).
          rbind (seed_column c rows i) (\<lambda>col. Inr (append_to ntype [col] nodes, append_to ntype times stamps)))
        st (enumerate 0 ntypes)))"

text \<open>A type with seed nodes ends the loop: then nothing is compacted.\<close>

fun collect_seeds :: "(string \<times> int list) list option \<Rightarrow> columns \<times> columns \<Rightarrow> (string \<times> seeds_tensor) list \<Rightarrow> (columns \<times> columns) option res" where
  "collect_seeds timestamp st [] = Inr (Some st)"
| "collect_seeds timestamp st ((seed_type, Seed_nodes xs) # rest) = Inr None"
| "collect_seeds timestamp st ((seed_type, Seed_rows c rows) # rest) =
     rbind (collect_seed timestamp st (seed_type, c, rows)) (\<lambda>st. collect_seeds timestamp st rest)"

section \<open>Putting the numbers back\<close>

definition pop_column :: "columns \<Rightarrow> string \<Rightarrow> (int list \<times> columns) res" where
  "pop_column d k =
     rbind (dict_get d k) (\<lambda>l. case l of [] \<Rightarrow> Inl IndexError | x # xs \<Rightarrow> Inr (x, AList.update k xs d))"

definition pop_columns :: "columns \<Rightarrow> string list \<Rightarrow> (int list list \<times> columns) res" where
  "pop_columns d ntypes =
     rfold (\<lambda>(cols, d) k. rbind (pop_column d k) (\<lambda>(x, d). Inr (cols @ [x], d))) ([], d) ntypes"

definition restore_seed :: "columns \<Rightarrow> string \<Rightarrow> nat \<Rightarrow> (seeds_tensor \<times> columns) res" where
  "restore_seed d seed_type c =
     (let ntypes = seed_type_str_to_ntypes seed_type (int c) in
      rbind (pop_columns d ntypes) (\<lambda>(cols, d).
      rbind (cat_all cols) (\<lambda>xs. rbind (view_columns (length ntypes) xs) (\<lambda>rows. Inr (Seed_rows (length ntypes) rows, d)))))"

fun restore_seeds :: "columns \<Rightarrow> (string \<times> seeds_tensor) list \<Rightarrow> (string \<times> seeds_tensor) list res" where
  "restore_seeds d [] = Inr []"
| "restore_seeds d ((seed_type, Seed_nodes xs) # rest) = Inl IndexError"
| "restore_seeds d ((seed_type, Seed_rows c rows) # rest) =
     rbind (restore_seed d seed_type c) (\<lambda>(s, d). rbind (restore_seeds d rest) (\<lambda>out. Inr ((seed_type, s) # out)))"

section \<open>Preprocessing\<close>

record preprocessed =
  pr_nodes :: "seeds_tensor per_type"
  pr_timestamp :: "int list per_type option"
  pr_compacted :: "seeds_tensor per_type option"
  pr_offsets :: "int list per_type option"

definition unchanged :: "seeds_tensor per_type \<Rightarrow> int list per_type option \<Rightarrow> preprocessed" where
  "unchanged seeds timestamp = \<lparr>pr_nodes = seeds, pr_timestamp = timestamp, pr_compacted = None, pr_offsets = None\<rparr>"

fun map_per_type :: "('a \<Rightarrow> 'b) \<Rightarrow> 'a per_type \<Rightarrow> 'b per_type" where
  "map_per_type f (Homo x) = Homo (f x)"
| "map_per_type f (Hetero d) = Hetero (map (\<lambda>(k, x). (k, f x)) d)"

definition finish_seeds :: "int list per_type \<Rightarrow> int list per_type option \<Rightarrow> seeds_tensor per_type \<Rightarrow> int list per_type option \<Rightarrow> preprocessed" where
  "finish_seeds unique_seeds timestamp compacted offsets =
     \<lparr>pr_nodes = map_per_type Seed_nodes unique_seeds, pr_timestamp = timestamp, pr_compacted = Some compacted, pr_offsets = offsets\<rparr>"

definition preprocess_hetero :: "(string \<times> seeds_tensor) list \<Rightarrow> int list per_type option \<Rightarrow> int \<Rightarrow> int \<Rightarrow> bool \<Rightarrow> preprocessed res" where
  "preprocess_hetero seeds timestamp rank world_size async_op =
     (if seeds = [] then Inl NameError else
      rbind (case timestamp of None \<Rightarrow> Inr None | Some (Hetero ts) \<Rightarrow> Inr (Some ts)
        | Some (Homo ts) \<Rightarrow> (case hd seeds of (t, Seed_nodes xs) \<Rightarrow> Inr None | _ \<Rightarrow> Inl IndexError)) (\<lambda>ts.
      rbind (collect_seeds ts ([], []) seeds) (\<lambda>collected.
      case collected of
        None \<Rightarrow> Inr (unchanged (Hetero seeds) timestamp)
      | Some (nodes, stamps) \<Rightarrow>
          if timestamp = None then
            rbind (unique_and_compact (Hetero nodes) rank world_size async_op) (\<lambda>(unique_seeds, compacted, offsets).
            case compacted of
              Hetero c \<Rightarrow> rbind (restore_seeds c seeds) (\<lambda>out. Inr (finish_seeds unique_seeds None (Hetero out) (Some offsets)))
            | Homo c \<Rightarrow> Inl TypeError)
          else
            rbind (compact_temporal_nodes (Hetero nodes) (Hetero stamps)) (\<lambda>(unique_seeds, nodes_timestamp, compacted).
            case compacted of
              Hetero c \<Rightarrow> rbind (restore_seeds c seeds) (\<lambda>out. Inr (finish_seeds unique_seeds (Some nodes_timestamp) (Hetero out) None))
            | Homo c \<Rightarrow> Inl TypeError))))"

definition preprocess_homo :: "nat \<Rightarrow> int list list \<Rightarrow> int list per_type option \<Rightarrow> bool \<Rightarrow> preprocessed res" where
  "preprocess_homo c rows timestamp async_op =
     (let nodes = [concat rows] in
      case timestamp of
        None \<Rightarrow>
          rbind (unique_and_compact (Homo nodes) 0 1 async_op) (\<lambda>(unique_seeds, compacted, offsets).
          case compacted of
            Homo (x # xs) \<Rightarrow> rbind (view_as_rows (length rows) c x) (\<lambda>rows'.
              Inr (finish_seeds unique_seeds None (Homo (Seed_rows c rows')) (Some offsets)))
          | _ \<Rightarrow> Inl IndexError)
      | Some (Hetero ts) \<Rightarrow> Inl AttributeError
      | Some (Homo ts) \<Rightarrow>
          rbind (negative_timestamps ts (length rows)) (\<lambda>neg.
          rbind (compact_temporal_nodes (Homo nodes) (Homo (replicate c (ts @ neg)))) (\<lambda>(unique_seeds, nodes_timestamp, compacted).
          case compacted of
            Homo (x # xs) \<Rightarrow> rbind (view_as_rows (length rows) c x) (\<lambda>rows'.
              Inr (finish_seeds unique_seeds (Some nodes_timestamp) (Homo (Seed_rows c rows')) None))
          | _ \<Rightarrow> Inl IndexError)))"

definition seeds_preprocess :: "seeds_tensor per_type \<Rightarrow> int list per_type option \<Rightarrow> int \<Rightarrow> int \<Rightarrow> bool \<Rightarrow> preprocessed res" where
  "seeds_preprocess seeds timestamp rank world_size async_op =
     rbind (rassert (timestamp = None \<or> world_size = 1) AssertionError) (\<lambda>_.
     case seeds of
       Hetero d \<Rightarrow> preprocess_hetero d timestamp rank world_size async_op
     | Homo (Seed_nodes xs) \<Rightarrow> Inr (unchanged seeds timestamp)
     | Homo (Seed_rows c rows) \<Rightarrow> preprocess_homo c rows timestamp async_op)"

text \<open>A batch without seeds is refused; the ranks count only for cooperating processes.\<close>

definition preprocess :: "seeds_tensor per_type option \<Rightarrow> int list per_type option \<Rightarrow> bool \<Rightarrow> int \<Rightarrow> int \<Rightarrow> bool \<Rightarrow> preprocessed res" where
  "preprocess seeds timestamp cooperative rank world_size async_op =
     (case seeds of
        None \<Rightarrow> Inl ValueError
      | Some s \<Rightarrow> seeds_preprocess s timestamp (if cooperative then rank else 0) (if cooperative then world_size else 1) async_op)"

end
