(* ===== verification/GbCooperative.thy ===== *)
theory GbCooperative
  imports GbSeeds "HOL-Library.Word"
begin

text \<open>
  Cooperating processes: the exchange of seeds of \<^verbatim>\<open>subgraph_sampler.py\<close>, over \<^verbatim>\<open>cuda/cooperative_minibatching_utils.cu\<close>,
  and the exchange of rows of \<^verbatim>\<open>impl/cooperative_conv.py\<close>. All processes run the same stages, so a stage takes
  and gives what each rank has, in the order of the ranks; a collective call sees the arguments of all of
  them. Collectives in which the processes do not fit together do not return or fail; both are errors here.
\<close>

section \<open>Exchanging lists\<close>

definition shift_list :: "nat \<Rightarrow> 'a list \<Rightarrow> 'a list" where
  "shift_list rank xs = (let cutoff = length xs - rank in drop cutoff xs @ take cutoff xs)"

text \<open>The outputs are shifted like the inputs: what rank \<open>j\<close> has sent goes to the output that is at
  place \<open>j\<close> after the shift.\<close>

definition outputs_of :: "nat \<Rightarrow> 'a list \<Rightarrow> 'a list" where
  "outputs_of rank received = drop rank received @ take rank received"

definition all_to_all :: "'a list list list \<Rightarrow> int list list \<Rightarrow> 'a list list list res" where
  "all_to_all inputs output_sizes =
     (let n = length inputs;
          sent = map (\<lambda>r. shift_list r (inputs ! r)) [0..<n];
          received = map (\<lambda>r. outputs_of r (map (\<lambda>j. sent ! j ! r) [0..<n])) [0..<n] in
      if (\<exists>xs \<in> set inputs. length xs \<noteq> n) \<or> map (map (\<lambda>x. int (length x))) received \<noteq> output_sizes then Inl RuntimeError
      else Inr received)"

section \<open>Sorting by rank\<close>

text \<open>The owner of a node relative to a rank, from a random number that depends on the node only.\<close>

definition rank_assignment :: "(int \<Rightarrow> 32 word) \<Rightarrow> nat \<Rightarrow> nat \<Rightarrow> int \<Rightarrow> nat" where
  "rank_assignment draw rank world_size x = unat ((draw x - of_nat rank) mod of_nat world_size)"

definition rank_sort :: "(int \<Rightarrow> 32 word) \<Rightarrow> nat \<Rightarrow> nat \<Rightarrow> int list \<Rightarrow> int list \<times> int list \<times> int list" where
  "rank_sort draw rank world_size nodes =
     (let part = map (rank_assignment draw rank world_size) nodes;
          order = sort_key (\<lambda>i. part ! i) [0..<length nodes];
          index = map (\<lambda>i. int (length (takeWhile (\<lambda>j. j \<noteq> i) order))) [0..<length nodes];
          offsets = map (\<lambda>p. int (length (filter (\<lambda>q. q < p) part))) [0..<world_size] @ [int (length nodes)]
      in (map (\<lambda>i. nodes ! i) order, index, offsets))"

section \<open>The stages\<close>

definition revert_to_homo :: "(string \<times> 'a) list \<Rightarrow> 'a per_type" where
  "revert_to_homo d = (if length d = 1 \<and> map_of d ''_N'' \<noteq> None then Homo (snd (hd d)) else Hetero d)"

definition convert_to_hetero :: "'a per_type \<Rightarrow> (string \<times> 'a) list" where
  "convert_to_hetero item = (case item of Hetero d \<Rightarrow> d | Homo x \<Rightarrow> [(''_N'', x)])"

text \<open>The counts of all types for one rank after the other.\<close>

definition counts_of :: "nat \<Rightarrow> int list list \<Rightarrow> int list" where
  "counts_of world_size offsets =
     (let num_ntypes = length offsets in
      map (\<lambda>j. diff (offsets ! (j mod num_ntypes)) ! (j div num_ntypes)) [0..<world_size * num_ntypes])"

record coop_batch =
  cb_nodes :: "int list per_type"
  cb_compacted :: "int list per_type option"
  cb_counts_sent :: "int list"

text \<open>Seed nodes are sorted; seeds that have been compacted before come with offsets.\<close>

definition exchange_1_sort :: "(int \<Rightarrow> 32 word) \<Rightarrow> nat \<Rightarrow> nat \<Rightarrow> int list per_type \<Rightarrow> int list per_type option \<Rightarrow> coop_batch res" where
  "exchange_1_sort draw rank world_size seed_nodes offsets =
     (case offsets of
        None \<Rightarrow>
          let sorted = map (\<lambda>(t, s). (t, rank_sort draw rank world_size s)) (convert_to_hetero seed_nodes) in
          Inr \<lparr>cb_nodes = Hetero (map (\<lambda>(t, s, ix, off). (t, s)) sorted),
               cb_compacted = Some (revert_to_homo (map (\<lambda>(t, s, ix, off). (t, ix)) sorted)),
               cb_counts_sent = counts_of world_size (map (\<lambda>(t, s, ix, off). off) sorted)\<rparr>
      | Some (Hetero d) \<Rightarrow> Inl AttributeError
      | Some (Homo off) \<Rightarrow>
          let sizes = diff off in
          if length sizes = world_size then Inr \<lparr>cb_nodes = seed_nodes, cb_compacted = None, cb_counts_sent = sizes\<rparr>
          else if length sizes = 1 then Inr \<lparr>cb_nodes = seed_nodes, cb_compacted = None, cb_counts_sent = replicate world_size (hd sizes)\<rparr>
          else Inl RuntimeError)"

text \<open>The counts are exchanged in pieces of all types.\<close>

definition exchange_1_counts :: "nat \<Rightarrow> int list list \<Rightarrow> int list list res" where
  "exchange_1_counts num_ntypes counts_sent =
     rbind (rmap (\<lambda>cs. split_sizes cs (replicate (length cs div num_ntypes) (int num_ntypes))) counts_sent) (\<lambda>inputs.
     rbind (all_to_all inputs (map (map (\<lambda>x. int (length x))) inputs)) (\<lambda>received. Inr (map concat received)))"

record coop_received =
  cr_nodes :: "(string \<times> int list) list"
  cr_counts_sent :: "(string \<times> int list) list"
  cr_counts_received :: "(string \<times> int list) list"

definition typed_counts :: "nat \<Rightarrow> nat \<Rightarrow> nat \<Rightarrow> int list \<Rightarrow> int list" where
  "typed_counts world_size num_ntypes i counts = map (\<lambda>k. counts ! (i + k * num_ntypes)) [0..<world_size]"

text \<open>The seeds of the type at one place of the dictionaries of all ranks.\<close>

definition exchange_typed :: "nat \<Rightarrow> nat \<Rightarrow> (string \<times> int list) list list \<Rightarrow> int list list \<Rightarrow> int list list \<Rightarrow> nat \<Rightarrow> int list list res" where
  "exchange_typed world_size num_ntypes nodes sent received i =
     rbind (rmap (\<lambda>(d, cs). split_sizes (snd (d ! i)) (typed_counts world_size num_ntypes i cs)) (zip nodes sent)) (\<lambda>inputs.
     rbind (all_to_all inputs (map (typed_counts world_size num_ntypes i) received)) (\<lambda>outs. Inr (map concat outs)))"

definition nodes_by_type :: "int list per_type \<Rightarrow> (string \<times> int list) list res" where
  "nodes_by_type nodes = (case nodes of Homo x \<Rightarrow> Inl AttributeError | Hetero d \<Rightarrow> Inr d)"

definition exchange_2 :: "int list per_type list \<Rightarrow> int list list \<Rightarrow> int list list \<Rightarrow> coop_received list res" where
  "exchange_2 seed_nodes sent received =
     (let world_size = length seed_nodes in
      rbind (rmap nodes_by_type seed_nodes) (\<lambda>nodes.
      let num_ntypes = length (hd nodes) in
      if \<exists>d \<in> set nodes. length d \<noteq> num_ntypes then Inl RuntimeError else
      rbind (rmap (exchange_typed world_size num_ntypes nodes sent received) [0..<num_ntypes]) (\<lambda>seeds.
      Inr (map (\<lambda>r.
          let types = map fst (nodes ! r) in
          \<lparr>cr_nodes = map (\<lambda>i. (types ! i, seeds ! i ! r)) [0..<num_ntypes],
           cr_counts_sent = map (\<lambda>i. (types ! i, typed_counts world_size num_ntypes i (sent ! r))) [0..<num_ntypes],
           cr_counts_received = map (\<lambda>i. (types ! i, typed_counts world_size num_ntypes i (received ! r))) [0..<num_ntypes]\<rparr>)
        [0..<world_size]))))"

record coop_plan =
  cp_nodes :: "int list per_type"
  cp_sizes :: "int per_type"
  cp_inverse :: "int list per_type"
  cp_sent :: "int list per_type"
  cp_received :: "int list per_type"

definition exchange_3_4 :: "coop_received \<Rightarrow> coop_plan res" where
  "exchange_3_4 b =
     rbind (unique_and_compact (Hetero (map (\<lambda>(t, s). (t, [s])) (cr_nodes b))) 0 1 True) (\<lambda>(u, c, off).
     case (u, c) of
       (Hetero unique_seeds, Hetero inverse_seeds) \<Rightarrow>
         Inr \<lparr>cp_nodes = revert_to_homo unique_seeds,
              cp_sizes = revert_to_homo (map (\<lambda>(t, s). (t, int (length s))) unique_seeds),
              cp_inverse = revert_to_homo (map (\<lambda>(t, l). (t, hd l)) inverse_seeds),
              cp_sent = revert_to_homo (cr_counts_sent b), cp_received = revert_to_homo (cr_counts_received b)\<rparr>
     | _ \<Rightarrow> Inl TypeError)"

definition cooperative_exchange :: "(int \<Rightarrow> 32 word) \<Rightarrow> (int list per_type \<times> int list per_type option) list \<Rightarrow>
    (coop_batch list \<times> coop_plan list) res" where
  "cooperative_exchange draw seeds =
     (let world_size = length seeds in
      rbind (rmap (\<lambda>(r, nodes, offsets). exchange_1_sort draw r world_size nodes offsets) (zip [0..<world_size] seeds)) (\<lambda>sorted.
      let num_ntypes = length (convert_to_hetero (fst (hd seeds))) in
      rbind (exchange_1_counts num_ntypes (map cb_counts_sent sorted)) (\<lambda>received.
      rbind (exchange_2 (map cb_nodes sorted) (map cb_counts_sent sorted) received) (\<lambda>batches.
      rbind (rmap exchange_3_4 batches) (\<lambda>plans. Inr (sorted, plans))))))"

section \<open>Rows of the seeds\<close>

text \<open>The rows of one type: each rank gives the rows of what it has received and gets those of what it has sent.\<close>

definition forward_typed :: "coop_plan list \<Rightarrow> 'v list per_type list \<Rightarrow> string \<Rightarrow> 'v list list res" where
  "forward_typed plans tensors ntype =
     rbind (rmap (\<lambda>(p, x).
         rbind (dict_get (convert_to_hetero x) ntype) (\<lambda>rows.
         rbind (dict_get (convert_to_hetero (cp_inverse p)) ntype) (\<lambda>inverse.
         rbind (dict_get (convert_to_hetero (cp_received p)) ntype) (\<lambda>counts.
         rbind (take_rows rows inverse) (\<lambda>sent. split_sizes sent counts))))) (zip plans tensors)) (\<lambda>inputs.
     rbind (rmap (\<lambda>p. dict_get (convert_to_hetero (cp_sent p)) ntype) plans) (\<lambda>sizes.
     rbind (all_to_all inputs sizes) (\<lambda>outs. Inr (map concat outs))))"

text \<open>The function returns the last of the tensors it has made, where \<open>revert_to_homo\<close> asks a tensor of one
  row for a key.\<close>

definition revert_tensor :: "'v list \<Rightarrow> 'v list res" where
  "revert_tensor out = (if length out = 1 then Inl RuntimeError else Inr out)"

definition cooperative_forward :: "coop_plan list \<Rightarrow> 'v list per_type list \<Rightarrow> 'v list res list res" where
  "cooperative_forward plans tensors =
     (let types = map fst (convert_to_hetero (hd tensors)) in
      if types = [] then Inl NameError
      else rbind (rmap (forward_typed plans tensors) types) (\<lambda>outs. Inr (map revert_tensor (last outs))))"

end
