(* ===== verification/GbSeedsProps.thy ===== *)
theory GbSeedsProps
  imports GbSeeds GbCompactProps
begin

text \<open>
  The numbers in the seeds look up the nodes they were, and, with timestamps, the time of the query each
  seed belongs to, except for a homogeneous graph, where the times are of other rows.
\<close>

section \<open>Tensors in columns\<close>

lemma nth_concat_equal:
  "\<forall>c \<in> set cols. length c = n \<Longrightarrow> i < length cols \<Longrightarrow> r < n \<Longrightarrow> concat cols ! (i * n + r) = cols ! i ! r"
proof (induction cols arbitrary: i)
  case (Cons c cols)
  then show ?case by (cases i) (simp_all add: nth_append)
qed simp

lemma length_concat_equal: "\<forall>c \<in> set cols. length c = n \<Longrightarrow> length (concat cols) = length cols * n"
  by (induction cols) simp_all

lemma view_columns_concat:
  assumes "\<forall>c \<in> set cols. length c = n" and "cols \<noteq> []"
  shows "view_columns (length cols) (concat cols) = Inr (map (\<lambda>r. map (\<lambda>i. cols ! i ! r) [0..<length cols]) [0..<n])"
proof -
  have "map (\<lambda>i. concat cols ! (i * n + r)) [0..<length cols] = map (\<lambda>i. cols ! i ! r) [0..<length cols]" if "r < n" for r
    using nth_concat_equal [OF assms(1)] that by (intro map_cong) simp_all
  then show ?thesis
    using assms(2) length_concat_equal [OF assms(1)] by (simp add: view_columns_def Let_def)
qed

lemma view_as_rows_concat:
  assumes "\<forall>r \<in> set rows. length r = c" and "length ys = length (concat rows)"
  shows "view_as_rows (length rows) c ys = Inr (map (\<lambda>r. map (\<lambda>i. ys ! (r * c + i)) [0..<c]) [0..<length rows])"
  using length_concat_equal [OF assms(1)] assms(2) by (simp add: view_as_rows_def)

section \<open>Chunks of consecutive numbers\<close>

fun chunks :: "nat \<Rightarrow> 'a list list \<Rightarrow> int list list" where
  "chunks off [] = []"
| "chunks off (t # ts) = map (\<lambda>i. i + int off) (arange 0 (int (length t))) # chunks (off + length t) ts"

lemma map_shift_arange: "map (\<lambda>i. i + int a) (arange 0 (int n)) = map int [a..<a + n]"
  by (rule nth_equalityI) simp_all

lemma chunks_concat: "concat (chunks off ts) = map int [off..<off + length (concat ts)]"
proof (induction ts arbitrary: off)
  case (Cons t ts)
  have "[off..<off + length (concat (t # ts))] = [off..<off + length t] @ [off + length t..<off + length t + length (concat ts)]"
    using upt_add_eq_append [of off "off + length t" "length (concat ts)"] by (simp add: add.assoc)
  then show ?case using Cons [of "off + length t"] by (simp add: map_shift_arange)
qed simp

lemma chunks_lengths: "map (\<lambda>t. int (length t)) (chunks off ts) = map (\<lambda>t. int (length t)) ts"
  by (induction ts arbitrary: off) simp_all

lemma split_arange: "split_sizes (arange 0 (int (length (concat ts)))) (map (\<lambda>t. int (length t)) ts) = Inr (chunks 0 ts)"
proof -
  have "arange 0 (int (length (concat ts))) = concat (chunks 0 ts)"
    using map_shift_arange [of 0 "length (concat ts)"] by (simp add: chunks_concat)
  then show ?thesis using split_sizes_concat [of "chunks 0 ts"] by (simp add: chunks_lengths)
qed

lemma chunks_number:
  "map length zs = map length ts \<Longrightarrow> list_all2 (numbers (as @ concat zs @ bs)) (chunks (length as) ts) zs"
proof (induction ts arbitrary: zs as)
  case (Cons t ts)
  then obtain z zs' where z: "zs = z # zs'" "length z = length t" "map length zs' = map length ts" by (cases zs) auto
  have "numbers (as @ concat zs @ bs) (map (\<lambda>i. i + int (length as)) (arange 0 (int (length z)))) z"
    using numbers_appended [of as z "concat zs' @ bs"] z(1) by simp
  moreover have "list_all2 (numbers (as @ concat zs @ bs)) (chunks (length as + length t) ts) zs'"
    using Cons.IH [OF z(3), of "as @ z"] z(1,2) by simp
  ultimately show ?case using z(1,2) by simp
qed simp

section \<open>The columns of the seeds\<close>

text \<open>A column stands with its node type, its nodes and the times collected for it.\<close>

type_synonym slot = "string \<times> int list \<times> int list list"

definition query_times :: "(string \<times> int list) list option \<Rightarrow> string \<Rightarrow> nat \<Rightarrow> int list list" where
  "query_times timestamp t n =
     (case timestamp of None \<Rightarrow> [] | Some ts \<Rightarrow>
        let tt = get_or [] ts t in [tt, concat (map (\<lambda>x. replicate (n div length tt - 1) x) tt)])"

definition seed_slots :: "(string \<times> int list) list option \<Rightarrow> string \<times> nat \<times> int list list \<Rightarrow> slot list" where
  "seed_slots timestamp s =
     (case s of (t, c, rows) \<Rightarrow>
      map (\<lambda>(i, k). (k, map (\<lambda>r. r ! i) rows, query_times timestamp t (length rows))) (enumerate 0 (seed_type_str_to_ntypes t (int c))))"

fun slots :: "(string \<times> int list) list option \<Rightarrow> (string \<times> seeds_tensor) list \<Rightarrow> slot list" where
  "slots timestamp [] = []"
| "slots timestamp ((t, Seed_nodes xs) # rest) = slots timestamp rest"
| "slots timestamp ((t, Seed_rows c rows) # rest) = seed_slots timestamp (t, c, rows) @ slots timestamp rest"

definition of_type :: "string \<Rightarrow> slot list \<Rightarrow> slot list" where
  "of_type k sls = filter (\<lambda>s. fst s = k) sls"

lemma of_type_simps [simp]:
  "of_type k [] = []" "of_type k (s # sls) = (if fst s = k then s # of_type k sls else of_type k sls)"
  "of_type k (as @ bs) = of_type k as @ of_type k bs"
  by (simp_all add: of_type_def)

text \<open>Seeds fit: as many columns as node types, and whole multiples of the queries that have a time.\<close>

definition times_whole :: "(string \<times> int list) list option \<Rightarrow> string \<Rightarrow> nat \<Rightarrow> bool" where
  "times_whole timestamp t n \<longleftrightarrow>
     (case timestamp of None \<Rightarrow> True | Some ts \<Rightarrow>
        \<exists>tt m. map_of ts t = Some tt \<and> tt \<noteq> [] \<and> 0 < m \<and> n = m * length tt)"

fun seeds_fit :: "(string \<times> int list) list option \<Rightarrow> string \<times> seeds_tensor \<Rightarrow> bool" where
  "seeds_fit timestamp (t, Seed_nodes xs) \<longleftrightarrow> False"
| "seeds_fit timestamp (t, Seed_rows c rows) \<longleftrightarrow>
     0 < c \<and> length (seed_type_str_to_ntypes t (int c)) = c \<and> (\<forall>r \<in> set rows. length r = c) \<and> times_whole timestamp t (length rows)"

lemma negative_times:
  assumes "tt \<noteq> []" and "0 < m" and "n = m * length tt"
  shows "negative_timestamps tt n = Inr (concat (map (\<lambda>x. replicate (n div length tt - 1) x) tt))"
proof -
  have "int n div int (length tt) = int m" "n div length tt = m" using assms by simp_all
  then show ?thesis using assms(1,2) by (simp add: negative_timestamps_def repeat_each_def nat_diff_distrib)
qed


lemma get_or_append [simp]: "get_or [] (append_to k xs d) j = (if j = k then get_or [] d k @ xs else get_or [] d j)"
  by (simp add: append_to_def)

lemma keys_append [simp]: "fst ` set (append_to k xs d) = insert k (fst ` set d)"
  by (simp add: append_to_def dom_update)

lemma distinct_append: "distinct (map fst d) \<Longrightarrow> distinct (map fst (append_to k xs d))"
  by (simp add: append_to_def distinct_update)

definition gathered :: "slot list \<Rightarrow> columns \<times> columns \<Rightarrow> columns \<times> columns \<Rightarrow> bool" where
  "gathered sls st st' \<longleftrightarrow>
     (\<forall>k. get_or [] (fst st') k = get_or [] (fst st) k @ map (\<lambda>s. fst (snd s)) (of_type k sls) \<and>
          get_or [] (snd st') k = get_or [] (snd st) k @ concat (map (\<lambda>s. snd (snd s)) (of_type k sls))) \<and>
     fst ` set (fst st') = fst ` set (fst st) \<union> fst ` set sls \<and> fst ` set (snd st') = fst ` set (snd st) \<union> fst ` set sls \<and>
     (distinct (map fst (fst st)) \<longrightarrow> distinct (map fst (fst st')))"

lemma gathered_Nil: "gathered [] st st"
  by (simp add: gathered_def)

lemma gathered_trans: "gathered as s t \<Longrightarrow> gathered bs t u \<Longrightarrow> gathered (as @ bs) s u"
  unfolding gathered_def by (simp add: Un_assoc image_Un)

lemma gathered_step: "gathered [(k, col, tms)] (ns, ss) (append_to k [col] ns, append_to k tms ss)"
  by (simp add: gathered_def distinct_append)

lemma gather_columns:
  assumes "\<forall>(i, k) \<in> set iks. i < c"
  shows "\<exists>st'. rfold (\<lambda>(nodes, stamps) (i, ntype).
      rbind (seed_column c rows i) (\<lambda>col. Inr (append_to ntype [col] nodes, append_to ntype tms stamps))) st iks = Inr st' \<and>
    gathered (map (\<lambda>(i, k). (k, map (\<lambda>r. r ! i) rows, tms)) iks) st st'"
  using assms
proof (induction iks arbitrary: st)
  case Nil
  show ?case using gathered_Nil by auto
next
  case (Cons x iks)
  obtain i k where x: "x = (i, k)" by (cases x)
  obtain ns ss where st: "st = (ns, ss)" by (cases st)
  let ?st = "(append_to k [map (\<lambda>r. r ! i) rows] ns, append_to k tms ss)"
  have "i < c" "\<forall>(i, k) \<in> set iks. i < c" using Cons.prems x by auto
  then obtain st' where "rfold (\<lambda>(nodes, stamps) (i, ntype).
      rbind (seed_column c rows i) (\<lambda>col. Inr (append_to ntype [col] nodes, append_to ntype tms stamps))) ?st iks = Inr st'"
    "gathered (map (\<lambda>(i, k). (k, map (\<lambda>r. r ! i) rows, tms)) iks) ?st st'"
    using Cons.IH [of ?st] by blast
  then show ?case
    using gathered_trans [OF gathered_step [of k "map (\<lambda>r. r ! i) rows" tms ns ss]] \<open>i < c\<close>
    by (auto simp: x st seed_column_def)
qed

lemma collect_seed_gathers:
  assumes "seeds_fit timestamp (t, Seed_rows c rows)"
  shows "\<exists>st'. collect_seed timestamp st (t, c, rows) = Inr st' \<and> gathered (seed_slots timestamp (t, c, rows)) st st'"
proof -
  let ?nt = "seed_type_str_to_ntypes t (int c)"
  have times: "(case timestamp of None \<Rightarrow> Inr [] | Some ts \<Rightarrow>
      rbind (dict_get ts t) (\<lambda>x. rbind (negative_timestamps x (length rows)) (\<lambda>neg. Inr [x, neg]))) = Inr (query_times timestamp t (length rows))"
  proof (cases timestamp)
    case (Some ts)
    then obtain tt m where "map_of ts t = Some tt" "tt \<noteq> []" "0 < m" "length rows = m * length tt"
      using assms by (auto simp: times_whole_def)
    then show ?thesis using Some negative_times by (simp add: query_times_def get_or_def Let_def dict_get_def)
  qed (simp add: query_times_def)
  have "\<forall>(i, k) \<in> set (enumerate 0 ?nt). i < c" using assms by (auto simp: in_set_enumerate_eq)
  from gather_columns [OF this, of rows "query_times timestamp t (length rows)" st] show ?thesis
    unfolding collect_seed_def prod.case Let_def times rbind_simps seed_slots_def by simp
qed

lemma collect_gathers:
  "\<forall>s \<in> set seeds. seeds_fit timestamp s \<Longrightarrow>
    \<exists>st'. collect_seeds timestamp st seeds = Inr (Some st') \<and> gathered (slots timestamp seeds) st st'"
proof (induction timestamp st seeds rule: collect_seeds.induct)
  case (1 timestamp st)
  show ?case using gathered_Nil by auto
next
  case (3 timestamp st t c rows rest)
  obtain st1 where st1: "collect_seed timestamp st (t, c, rows) = Inr st1" "gathered (seed_slots timestamp (t, c, rows)) st st1"
    using collect_seed_gathers [of timestamp t c rows st] 3(2) by auto
  obtain st' where "collect_seeds timestamp st1 rest = Inr (Some st')" "gathered (slots timestamp rest) st1 st'"
    using 3(1) [OF st1(1)] 3(2) by auto
  then show ?case using st1 gathered_trans by fastforce
qed simp

section \<open>Popping the columns\<close>

definition matched :: "(string \<Rightarrow> int list \<Rightarrow> slot \<Rightarrow> bool) \<Rightarrow> columns \<Rightarrow> slot list \<Rightarrow> bool" where
  "matched P d sls \<longleftrightarrow> (\<forall>k \<in> fst ` set sls. \<exists>L. map_of d k = Some L \<and> list_all2 (P k) L (of_type k sls))"

lemma matched_pop:
  assumes "matched P d (s # sls)"
  shows "\<exists>x d'. pop_column d (fst s) = Inr (x, d') \<and> P (fst s) x s \<and> matched P d' sls"
proof -
  obtain x L where L: "map_of d (fst s) = Some (x # L)" "P (fst s) x s" "list_all2 (P (fst s)) L (of_type (fst s) sls)"
    using assms by (auto simp: matched_def list_all2_Cons2)
  have "\<exists>L'. map_of (AList.update (fst s) L d) k = Some L' \<and> list_all2 (P k) L' (of_type k sls)" if "k \<in> fst ` set sls" for k
  proof (cases "k = fst s")
    case True
    then show ?thesis using L(3) by (simp add: update_conv')
  next
    case False
    then show ?thesis using assms that by (auto simp: matched_def update_conv')
  qed
  then show ?thesis using L(1,2) by (auto simp: matched_def pop_column_def dict_get_def)
qed

lemma matched_pops:
  assumes "matched P d (sls @ rest)"
  shows "\<exists>cols d'. rfold (\<lambda>(cols, d) k. rbind (pop_column d k) (\<lambda>(x, d). Inr (cols @ [x], d))) (acc, d) (map fst sls) = Inr (acc @ cols, d') \<and>
    list_all2 (\<lambda>x s. P (fst s) x s) cols sls \<and> matched P d' rest"
  using assms
proof (induction sls arbitrary: d acc)
  case (Cons s sls)
  obtain x d1 where x: "pop_column d (fst s) = Inr (x, d1)" "P (fst s) x s" "matched P d1 (sls @ rest)"
    using matched_pop Cons.prems by fastforce
  obtain cols d' where "rfold (\<lambda>(cols, d) k. rbind (pop_column d k) (\<lambda>(x, d). Inr (cols @ [x], d))) (acc @ [x], d1) (map fst sls) = Inr ((acc @ [x]) @ cols, d')"
    "list_all2 (\<lambda>x s. P (fst s) x s) cols sls" "matched P d' rest"
    using Cons.IH [OF x(3), of "acc @ [x]"] by blast
  then show ?case using x(1,2) by (intro exI [of _ "x # cols"]) simp
qed simp


section \<open>Seeds with numbers\<close>

fun restored :: "(string \<Rightarrow> int list \<Rightarrow> slot \<Rightarrow> bool) \<Rightarrow> (string \<times> int list) list option \<Rightarrow> string \<times> seeds_tensor \<Rightarrow> string \<times> seeds_tensor \<Rightarrow> bool" where
  "restored P timestamp (t, Seed_rows c rows) (t', Seed_rows c' rows') \<longleftrightarrow> t' = t \<and> c' = c \<and> length rows' = length rows \<and>
     (\<forall>i < c. P (seed_type_str_to_ntypes t (int c) ! i) (map (\<lambda>r. r ! i) rows')
       (seed_type_str_to_ntypes t (int c) ! i, map (\<lambda>r. r ! i) rows, query_times timestamp t (length rows)))"
| "restored P timestamp s s' \<longleftrightarrow> False"

lemma restored_rows:
  "restored P timestamp (t, Seed_rows c rows) y \<longleftrightarrow> (\<exists>rows'. y = (t, Seed_rows c rows') \<and> length rows' = length rows \<and>
     (\<forall>i < c. P (seed_type_str_to_ntypes t (int c) ! i) (map (\<lambda>r. r ! i) rows')
       (seed_type_str_to_ntypes t (int c) ! i, map (\<lambda>r. r ! i) rows, query_times timestamp t (length rows))))"
proof -
  obtain t' s' where "y = (t', s')" by (cases y)
  then show ?thesis by (cases s') auto
qed

lemma restore_seed_numbers:
  assumes fit: "seeds_fit timestamp (t, Seed_rows c rows)" and matched: "matched P d (seed_slots timestamp (t, c, rows) @ rest)"
    and P: "\<And>k x s. P k x s \<Longrightarrow> length x = length (fst (snd s))"
  shows "\<exists>s' d'. restore_seed d t c = Inr (s', d') \<and> restored P timestamp (t, Seed_rows c rows) (t, s') \<and> matched P d' rest"
proof -
  let ?nt = "seed_type_str_to_ntypes t (int c)"
  let ?slot = "\<lambda>i. (?nt ! i, map (\<lambda>r. r ! i) rows, query_times timestamp t (length rows))"
  have c: "length ?nt = c" "0 < c" using fit by simp_all
  have keys: "map fst (seed_slots timestamp (t, c, rows)) = ?nt" by (simp add: seed_slots_def split_def comp_def)
  obtain cols d' where pops: "pop_columns d ?nt = Inr (cols, d')" "list_all2 (\<lambda>x s. P (fst s) x s) cols (seed_slots timestamp (t, c, rows))" "matched P d' rest"
    using matched_pops [OF matched, of "[]"] by (auto simp: pop_columns_def keys)
  have len: "length cols = c" using list_all2_lengthD [OF pops(2)] c(1) by (simp add: seed_slots_def)
  have each: "P (?nt ! i) (cols ! i) (?slot i)" if "i < c" for i
    using list_all2_nthD2 [OF pops(2), of i] that c(1) by (simp add: seed_slots_def nth_enumerate_eq)
  have lens: "\<forall>x \<in> set cols. length x = length rows" using P each len by (fastforce simp: in_set_conv_nth)
  let ?rows = "map (\<lambda>r. map (\<lambda>i. cols ! i ! r) [0..<c]) [0..<length rows]"
  have "cols \<noteq> []" using len c(2) by auto
  then have "restore_seed d t c = Inr (Seed_rows c ?rows, d')"
    using pops(1) view_columns_concat [OF lens] len c(1) by (simp add: restore_seed_def Let_def cat_all_def)
  moreover have "map (\<lambda>r. r ! i) ?rows = cols ! i" if "i < c" for i
    using that lens len by (intro nth_equalityI) simp_all
  then have "restored P timestamp (t, Seed_rows c rows) (t, Seed_rows c ?rows)" using each by simp
  ultimately show ?thesis using pops(3) by blast
qed

lemma restore_seeds_numbers:
  assumes P: "\<And>k x s. P k x s \<Longrightarrow> length x = length (fst (snd s))"
  shows "\<forall>s \<in> set seeds. seeds_fit timestamp s \<Longrightarrow> matched P d (slots timestamp seeds) \<Longrightarrow>
    \<exists>out. restore_seeds d seeds = Inr out \<and> list_all2 (restored P timestamp) seeds out"
proof (induction d seeds rule: restore_seeds.induct)
  case (3 d t c rows rest)
  obtain s' d' where s': "restore_seed d t c = Inr (s', d')" "restored P timestamp (t, Seed_rows c rows) (t, s')" "matched P d' (slots timestamp rest)"
    using restore_seed_numbers [of timestamp t c rows P d "slots timestamp rest"] 3(2,3) P by auto
  obtain out where "restore_seeds d' rest = Inr out" "list_all2 (restored P timestamp) rest out"
    using 3(1) [OF s'(1) refl _ s'(3)] 3(2) by auto
  then show ?case using s'(1,2) by simp
qed simp_all

lemma concat_concat: "concat (concat xss) = concat (map concat xss)"
  by (induction xss) simp_all

text \<open>The nodes collected, by type.\<close>

lemma collected_nodes:
  assumes "gathered sls ([], []) (nodes, stamps)"
  shows "distinct (map fst nodes)" and "fst ` set nodes = fst ` set sls" and "fst ` set stamps = fst ` set sls"
    and "k \<in> fst ` set sls \<Longrightarrow> map_of nodes k = Some (map (\<lambda>s. fst (snd s)) (of_type k sls))"
    and "k \<in> fst ` set sls \<Longrightarrow> map_of stamps k = Some (concat (map (\<lambda>s. snd (snd s)) (of_type k sls)))"
    and "k \<in> fst ` set sls \<Longrightarrow> of_type k sls \<noteq> []"
proof -
  show dist: "distinct (map fst nodes)" and keys: "fst ` set nodes = fst ` set sls" "fst ` set stamps = fst ` set sls"
    using assms by (simp_all add: gathered_def get_or_def)
  show "map_of nodes k = Some (map (\<lambda>s. fst (snd s)) (of_type k sls))" if k: "k \<in> fst ` set sls"
  proof -
    obtain v where "map_of nodes k = Some v" using k keys(1) by (metis map_of_eq_None_iff not_None_eq)
    then show ?thesis using assms by (auto simp: gathered_def get_or_def dest: spec [of _ k])
  qed
  show "map_of stamps k = Some (concat (map (\<lambda>s. snd (snd s)) (of_type k sls)))" if k: "k \<in> fst ` set sls"
  proof -
    obtain v where "map_of stamps k = Some v" using k keys(2) by (metis map_of_eq_None_iff not_None_eq)
    then show ?thesis using assms by (auto simp: gathered_def get_or_def dest: spec [of _ k])
  qed
  show "of_type k sls \<noteq> []" if "k \<in> fst ` set sls" using that by (auto simp: of_type_def filter_empty_conv)
qed

section \<open>Unique nodes\<close>

definition looks_up :: "(string \<times> int list) list \<Rightarrow> string \<Rightarrow> int list \<Rightarrow> slot \<Rightarrow> bool" where
  "looks_up u k x s \<longleftrightarrow> (\<exists>us. map_of u k = Some us \<and> distinct us \<and> numbers us x (fst (snd s)))"

lemma numbers_length: "numbers us cs xs \<Longrightarrow> length cs = length xs"
  by (auto simp: numbers_def)

lemma looks_up_length: "looks_up u k x s \<Longrightarrow> length x = length (fst (snd s))"
  by (auto simp: looks_up_def dest: numbers_length)

lemma unique_matched:
  assumes "gathered sls ([], []) (nodes, stamps)" and "sls \<noteq> []" and "world_size \<le> 1"
  shows "\<exists>u c off. unique_and_compact (Hetero nodes) rank world_size async_op = Inr (Hetero u, Hetero c, Hetero off) \<and>
    matched (looks_up u) c sls"
proof -
  note col = collected_nodes [OF assms(1)]
  have ne: "nodes \<noteq> []" using col(2) assms(2) by auto
  have lists: "\<forall>(k, ts) \<in> set nodes. ts \<noteq> []"
  proof (clarify)
    fix k assume "(k, []) \<in> set nodes"
    then show False using col(1,2,4,6) by (metis fst_conv image_eqI map_is_Nil_conv map_of_is_SomeI option.inject)
  qed
  let ?us = "\<lambda>ts. fst (compact_pair (concat ts) [])"
  let ?u = "map (\<lambda>(k, ts). (k, ?us ts)) nodes"
  let ?c = "map (\<lambda>(k, ts). (k, map (map (id_number (concat ts) 0)) ts)) nodes"
  have run: "unique_and_compact (Hetero nodes) rank world_size async_op = Inr (Hetero ?u, Hetero ?c,
      Hetero (map (\<lambda>(k, ts). (k, [0, int (length (?us ts))])) nodes))"
    using compact_types_eq [OF assms(3) _ lists, of async_op rank] ne by (simp add: unique_and_compact_def)
  have "\<exists>L. map_of ?c k = Some L \<and> list_all2 (looks_up ?u k) L (of_type k sls)" if k: "k \<in> fst ` set sls" for k
  proof -
    let ?ts = "map (\<lambda>s. fst (snd s)) (of_type k sls)"
    have "looks_up ?u k (map (id_number (concat ?ts) 0) (fst (snd s))) s" if "s \<in> set (of_type k sls)" for s
      using col(4) [OF k] id_numbers(2) [of "fst (snd s)" "concat ?ts" 0] that
        compact_pair_numbers(3) [where src = "concat ?ts" and udst = "[]"]
      by (force simp: looks_up_def map_of_map compact_pair_def Let_def)
    then show ?thesis using col(4) [OF k] by (simp add: map_of_map list_all2_conv_all_nth)
  qed
  then have "matched (looks_up ?u) ?c sls" by (simp add: matched_def)
  with run show ?thesis by blast
qed


lemma slots_nonempty: "seeds \<noteq> [] \<Longrightarrow> \<forall>s \<in> set seeds. seeds_fit timestamp s \<Longrightarrow> slots timestamp seeds \<noteq> []"
proof (induction timestamp seeds rule: slots.induct)
  case (3 timestamp t c rows rest)
  then have "seed_type_str_to_ntypes t (int c) \<noteq> []" by auto
  then show ?case by (simp add: seed_slots_def enumerate_eq_zip)
qed auto

text \<open>C13. Preprocessing heterogeneous seeds lists each node of a type once, and the numbers put into the seeds
  look up, column by column and row by row, the nodes that were there.\<close>

theorem seeds_compacted_lookup:
  assumes "seeds \<noteq> []" and "\<forall>s \<in> set seeds. seeds_fit None s" and "world_size \<le> 1"
  shows "\<exists>u off out. seeds_preprocess (Hetero seeds) None rank world_size async_op =
      Inr (finish_seeds (Hetero u) None (Hetero out) (Some (Hetero off))) \<and>
    list_all2 (restored (looks_up u) None) seeds out"
proof -
  obtain nodes stamps where c: "collect_seeds None ([], []) seeds = Inr (Some (nodes, stamps))"
    "gathered (slots None seeds) ([], []) (nodes, stamps)"
    using collect_gathers [OF assms(2), of "([], [])"] by auto
  obtain u cs off where u: "unique_and_compact (Hetero nodes) rank world_size async_op = Inr (Hetero u, Hetero cs, Hetero off)"
    "matched (looks_up u) cs (slots None seeds)"
    using unique_matched [OF c(2) slots_nonempty [OF assms(1,2)] assms(3)] by blast
  obtain out where "restore_seeds cs seeds = Inr out" "list_all2 (restored (looks_up u) None) seeds out"
    using restore_seeds_numbers [of "looks_up u" seeds None cs] looks_up_length assms(2) u(2) by blast
  moreover from this have "seeds_preprocess (Hetero seeds) None rank world_size async_op =
      Inr (finish_seeds (Hetero u) None (Hetero out) (Some (Hetero off)))"
    using c(1) u(1) assms(1) by (simp add: seeds_preprocess_def preprocess_hetero_def)
  ultimately show ?thesis by blast
qed

theorem seeds_compacted_lookup_witness:
  "\<exists>u off out. seeds_preprocess (Hetero [(''A:r:B'', Seed_rows 2 [[5, 7], [5, 8]]), (''B:q:A'', Seed_rows 2 [[7, 6]])]) None 0 1 False =
      Inr (finish_seeds (Hetero u) None (Hetero out) (Some (Hetero off))) \<and>
    list_all2 (restored (looks_up u) None) [(''A:r:B'', Seed_rows 2 [[5, 7], [5, 8]]), (''B:q:A'', Seed_rows 2 [[7, 6]])] out"
proof -
  have "seed_type_str_to_ntypes ''A:r:B'' 2 = [''A'', ''B'']" "seed_type_str_to_ntypes ''B:q:A'' 2 = [''B'', ''A'']" by code_simp+
  then show ?thesis by (intro seeds_compacted_lookup) (simp_all add: times_whole_def)
qed

section \<open>Nodes with times\<close>

definition timed :: "(string \<times> int list) list \<Rightarrow> (string \<times> int list) list \<Rightarrow> string \<Rightarrow> int list \<Rightarrow> slot \<Rightarrow> bool" where
  "timed n t k x s \<longleftrightarrow> (\<exists>ns ts. map_of n k = Some ns \<and> map_of t k = Some ts \<and>
     numbers ns x (fst (snd s)) \<and> numbers ts x (concat (snd (snd s))))"

lemma timed_length: "timed n t k x s \<Longrightarrow> length x = length (fst (snd s))"
  by (auto simp: timed_def dest: numbers_length)

lemma temporal_matched:
  assumes "gathered sls ([], []) (nodes, stamps)" and times: "\<forall>s \<in> set sls. length (concat (snd (snd s))) = length (fst (snd s)) \<and> snd (snd s) \<noteq> []"
  shows "\<exists>n t c. compact_temporal_nodes (Hetero nodes) (Hetero stamps) = Inr (Hetero n, Hetero t, Hetero c) \<and> matched (timed n t) c sls"
proof -
  note col = collected_nodes [OF assms(1)]
  let ?ts = "\<lambda>k. map (\<lambda>s. fst (snd s)) (of_type k sls)" and ?zs = "\<lambda>k. map (\<lambda>s. concat (snd (snd s))) (of_type k sls)"
  have lens: "map length (?zs k) = map length (?ts k)" for k using times by (auto simp: of_type_def)
  have each: "rbind (dict_get stamps k) (\<lambda>st. rbind (compact_per_type ts st) (\<lambda>r. Inr (k, r))) =
      Inr (k, concat (?ts k), concat (?zs k), chunks 0 (?ts k))" if "(k, ts) \<in> set nodes" for k ts
  proof -
    have k: "k \<in> fst ` set sls" using that col(2) by force
    then have ts: "ts = ?ts k" using that col(1) col(4) [OF k] by (metis map_of_is_SomeI option.inject)
    have "concat (map (\<lambda>s. snd (snd s)) (of_type k sls)) \<noteq> []"
      using col(6) [OF k] times by (cases "of_type k sls") (auto simp: of_type_def dest: filter_eq_ConsD)
    moreover have "concat (concat (map (\<lambda>s. snd (snd s)) (of_type k sls))) = concat (?zs k)"
      by (simp add: concat_concat comp_def)
    ultimately show ?thesis
      using col(5) [OF k] col(6) [OF k] split_arange [of "?ts k"] ts
      by (simp add: dict_get_def compact_per_type_def cat_all_def comp_def)
  qed
  let ?rs = "map (\<lambda>(k, ts). (k, concat (?ts k), concat (?zs k), chunks 0 (?ts k))) nodes"
  let ?n = "map (\<lambda>(k, n, t, c). (k, n)) ?rs" and ?t = "map (\<lambda>(k, n, t, c). (k, t)) ?rs" and ?c = "map (\<lambda>(k, n, t, c). (k, c)) ?rs"
  have "rmap (\<lambda>(ntype, ts). rbind (dict_get stamps ntype) (\<lambda>st. rbind (compact_per_type ts st) (\<lambda>r. Inr (ntype, r)))) nodes = Inr ?rs"
    using each by (intro rmap_total) (simp add: split_def)
  then have run: "compact_temporal_nodes (Hetero nodes) (Hetero stamps) = Inr (Hetero ?n, Hetero ?t, Hetero ?c)"
    by (simp add: compact_temporal_nodes_def)
  have "\<exists>L. map_of ?c k = Some L \<and> list_all2 (timed ?n ?t k) L (of_type k sls)" if k: "k \<in> fst ` set sls" for k
  proof -
    have "list_all2 (numbers (concat (?ts k))) (chunks 0 (?ts k)) (?ts k)" "list_all2 (numbers (concat (?zs k))) (chunks 0 (?ts k)) (?zs k)"
      using chunks_number [OF refl, of "[]" _ "[]"] chunks_number [OF lens, of "[]" _ "[]"] by simp_all
    moreover have "map_of ?n k = Some (concat (?ts k))" "map_of ?t k = Some (concat (?zs k))" "map_of ?c k = Some (chunks 0 (?ts k))"
      using map_of_keyed [of k nodes] k col(2) by (simp_all add: comp_def split_def)
    ultimately show ?thesis by (auto simp: timed_def list_all2_conv_all_nth)
  qed
  then show ?thesis using run unfolding matched_def by blast
qed


lemma times_whole_length:
  assumes "times_whole (Some ts) t n"
  shows "length (concat (query_times (Some ts) t n)) = n" and "query_times (Some ts) t n \<noteq> []"
proof -
  obtain tt m where tt: "map_of ts t = Some tt" "tt \<noteq> []" "0 < m" "n = m * length tt"
    using assms by (auto simp: times_whole_def)
  have "length (concat (map (\<lambda>x. replicate (m - 1) x) xs)) = (m - 1) * length xs" for xs :: "int list"
    by (induction xs) simp_all
  then show "length (concat (query_times (Some ts) t n)) = n"
    using tt by (simp add: query_times_def get_or_def Let_def) (cases m, simp_all)
  show "query_times (Some ts) t n \<noteq> []" by (simp add: query_times_def Let_def)
qed

lemma slots_times:
  "\<forall>s \<in> set seeds. seeds_fit (Some ts) s \<Longrightarrow>
    \<forall>s \<in> set (slots (Some ts) seeds). length (concat (snd (snd s))) = length (fst (snd s)) \<and> snd (snd s) \<noteq> []"
proof (induction "Some ts" seeds rule: slots.induct)
  case (3 t c rows rest)
  then show ?case using times_whole_length by (fastforce simp: seed_slots_def)
qed simp_all

lemma temporal_seeds:
  assumes "seeds \<noteq> []" and "\<forall>s \<in> set seeds. seeds_fit (Some ts) s"
  shows "\<exists>n tm out. seeds_preprocess (Hetero seeds) (Some (Hetero ts)) rank 1 async_op =
      Inr (finish_seeds (Hetero n) (Some (Hetero tm)) (Hetero out) None) \<and>
    list_all2 (restored (timed n tm) (Some ts)) seeds out"
proof -
  obtain nodes stamps where c: "collect_seeds (Some ts) ([], []) seeds = Inr (Some (nodes, stamps))"
    "gathered (slots (Some ts) seeds) ([], []) (nodes, stamps)"
    using collect_gathers [OF assms(2), of "([], [])"] by auto
  obtain n tm cs where n: "compact_temporal_nodes (Hetero nodes) (Hetero stamps) = Inr (Hetero n, Hetero tm, Hetero cs)"
    "matched (timed n tm) cs (slots (Some ts) seeds)"
    using temporal_matched [OF c(2) slots_times [OF assms(2)]] by blast
  obtain out where "restore_seeds cs seeds = Inr out" "list_all2 (restored (timed n tm) (Some ts)) seeds out"
    using restore_seeds_numbers [of "timed n tm" seeds "Some ts" cs] timed_length assms(2) n(2) by blast
  moreover from this have "seeds_preprocess (Hetero seeds) (Some (Hetero ts)) rank 1 async_op =
      Inr (finish_seeds (Hetero n) (Some (Hetero tm)) (Hetero out) None)"
    using c(1) n(1) assms(1) by (simp add: seeds_preprocess_def preprocess_hetero_def)
  ultimately show ?thesis by blast
qed

section \<open>Negative samples\<close>

text \<open>The documented law of \<open>randint\<close>: as many numbers as asked for, below the bound.\<close>

definition uniform_law :: "(int \<Rightarrow> int \<Rightarrow> int list res) \<Rightarrow> bool" where
  "uniform_law randint \<longleftrightarrow> (\<forall>hi n. 0 < hi \<and> 0 \<le> n \<longrightarrow>
     (\<exists>xs. randint hi n = Inr xs \<and> length xs = nat n \<and> (\<forall>x \<in> set xs. 0 \<le> x \<and> x < hi)))"

definition query_indexes :: "nat \<Rightarrow> nat \<Rightarrow> nat list" where
  "query_indexes n m = [0..<n] @ concat (map (\<lambda>x. replicate m x) [0..<n])"

lemma concat_replicate_map: "concat (map (\<lambda>x. replicate m x) (map f xs)) = map f (concat (map (\<lambda>x. replicate m x) xs))"
  by (induction xs) simp_all

lemma length_repeated: "length (concat (map (\<lambda>x. replicate m x) xs)) = length xs * m"
  by (induction xs) simp_all

lemma length_query_indexes: "length (query_indexes n m) = n * (m + 1)"
  by (simp add: query_indexes_def length_repeated)

lemma query_indexes_bound: "q \<in> set (query_indexes n m) \<Longrightarrow> q < n"
  by (auto simp: query_indexes_def)

text \<open>What the sampler makes of one tensor of pairs.\<close>

definition sampled_for :: "int \<Rightarrow> nat \<Rightarrow> seeds_tensor \<Rightarrow> seeds_tensor \<Rightarrow> int list \<Rightarrow> int list \<Rightarrow> bool" where
  "sampled_for num_dst m s s' l ix \<longleftrightarrow>
     (\<exists>rows rows'. s = Seed_rows 2 rows \<and> s' = Seed_rows 2 rows' \<and> take (length rows) rows' = rows \<and>
        length rows' = length rows * (m + 1) \<and> ix = map int (query_indexes (length rows) m) \<and>
        l = map (\<lambda>r. if r < length rows then 1 else 0) [0..<length rows'] \<and>
        (\<forall>r < length rows'. length (rows' ! r) = 2 \<and> rows' ! r ! 0 = rows ! nat (ix ! r) ! 0 \<and>
           (length rows \<le> r \<longrightarrow> 0 \<le> rows' ! r ! 1 \<and> rows' ! r ! 1 < num_dst)))"

lemma view_two:
  assumes "length ys = length xs"
  shows "view_columns 2 (xs @ ys) = Inr (map (\<lambda>r. [xs ! r, ys ! r]) [0..<length xs])"
proof -
  have "view_columns (length [xs, ys]) (concat [xs, ys]) = Inr (map (\<lambda>r. map (\<lambda>i. [xs, ys] ! i ! r) [0..<length [xs, ys]]) [0..<length xs])"
    by (rule view_columns_concat) (use assms in simp_all)
  then show ?thesis by (simp add: numeral_2_eq_2)
qed

lemma sample_with_etype_ok:
  assumes law: "uniform_law randint" and m: "0 < m" and rows: "\<forall>r \<in> set rows. length r = 2"
    and num: "0 < num_dst"
    and dst: "(case etype of None \<Rightarrow> Inr (snd graph)
       | Some etype \<Rightarrow> if etype = [] then Inr (snd graph) else
           rbind (etype_ends etype) (\<lambda>(src_ntype, dst_ntype).
             case fst graph of Hetero num_nodes \<Rightarrow> dict_get num_nodes dst_ntype | Homo n \<Rightarrow> Inl TypeError)) = Inr num_dst"
  shows "\<exists>s' l ix. sample_with_etype randint graph (int m) (Seed_rows 2 rows) etype = Inr (s', l, ix) \<and>
    sampled_for num_dst m (Seed_rows 2 rows) s' l ix"
proof -
  let ?n = "length rows"
  let ?src = "map (\<lambda>r. r ! 0) rows"
  let ?neg_src = "concat (map (\<lambda>x. replicate m x) ?src)"
  let ?q = "concat (map (\<lambda>x. replicate m x) [0..<?n])"
  obtain dsts where dsts: "randint num_dst (int ?n * int m) = Inr dsts" "length dsts = ?n * m" "\<forall>x \<in> set dsts. 0 \<le> x \<and> x < num_dst"
  proof -
    have "\<exists>xs. randint num_dst (int ?n * int m) = Inr xs \<and> length xs = nat (int ?n * int m) \<and> (\<forall>x \<in> set xs. 0 \<le> x \<and> x < num_dst)"
      using law num by (auto simp: uniform_law_def)
    then show ?thesis using that by (auto simp: nat_mult_distrib)
  qed
  have len: "length ?neg_src = ?n * m" "length ?q = ?n * m" unfolding length_repeated by simp_all
  let ?rows = "rows @ map (\<lambda>r. [?neg_src ! r, dsts ! r]) [0..<?n * m]"
  have edges: "sample_negative_edges_uniform randint graph etype rows (int m) = Inr ?rows"
    unfolding sample_negative_edges_uniform_def dst rbind_simps Let_def
    using dsts(1,2) view_two [of dsts ?neg_src] len by (simp add: seed_column_def repeat_each_def)
  let ?ix = "map int (query_indexes ?n m)"
  let ?l = "replicate ?n 1 @ replicate (?n * m) (0 :: int)"
  have run: "sample_with_etype randint graph (int m) (Seed_rows 2 rows) etype = Inr (Seed_rows 2 ?rows, ?l, ?ix)"
    using concat_replicate_map [of m int "[0..<?n]"] by (simp add: sample_with_etype_def edges Let_def repeat_each_def query_indexes_def)
  have labels: "?l = map (\<lambda>r. if r < ?n then 1 else 0) [0..<length ?rows]"
    by (rule nth_equalityI) (simp_all add: nth_append)
  have neg_src: "?neg_src ! j = rows ! (?q ! j) ! 0" if "j < ?n * m" for j
  proof -
    have "?src = map (\<lambda>i. rows ! i ! 0) [0..<?n]" by (rule nth_equalityI) simp_all
    then have "?neg_src = map (\<lambda>i. rows ! i ! 0) ?q" by (simp only: concat_replicate_map)
    then show ?thesis using that len by (metis nth_map)
  qed
  have "length (?rows ! r) = 2 \<and> ?rows ! r ! 0 = rows ! nat (?ix ! r) ! 0 \<and> (?n \<le> r \<longrightarrow> 0 \<le> ?rows ! r ! 1 \<and> ?rows ! r ! 1 < num_dst)"
    if r: "r < length ?rows" for r
  proof (cases "r < ?n")
    case True
    then show ?thesis using rows by (simp add: query_indexes_def nth_append)
  next
    case False
    then have j: "r - ?n < ?n * m" using r by simp
    have "dsts ! (r - ?n) \<in> set dsts" using j dsts(2) by simp
    then show ?thesis using False j neg_src [OF j] dsts(3) len by (simp add: query_indexes_def nth_append)
  qed
  then have "sampled_for num_dst m (Seed_rows 2 rows) (Seed_rows 2 ?rows) ?l ?ix"
    unfolding sampled_for_def using labels by (intro exI [of _ rows] exI [of _ ?rows]) simp
  then show ?thesis using run by blast
qed


lemma update_keys_same: "k \<in> fst ` set d \<Longrightarrow> map fst (AList.update k v d) = map fst d"
  by (simp add: update_keys)

lemma sample_batch:
  assumes "distinct (map fst xs)" and "fst ` set xs \<subseteq> fst ` set sd" and "distinct (map fst sd)"
    and "\<And>t s. (t, s) \<in> set xs \<Longrightarrow> \<exists>s' l ix. sample_with_etype randint graph ratio s (Some t) = Inr (s', l, ix) \<and> Q t s s' l ix"
  shows "\<exists>sd' ld' ixd'. rfold (\<lambda>(sd, ld, ixd) (etype, pos_pairs).
              rbind (sample_with_etype randint graph ratio pos_pairs (Some etype)) (\<lambda>(s, l, ix).
              Inr (AList.update etype s sd, AList.update etype l ld, AList.update etype ix ixd))) (sd, ld, ixd) xs = Inr (sd', ld', ixd') \<and>
    map fst sd' = map fst sd \<and>
    (\<forall>t. t \<notin> fst ` set xs \<longrightarrow> map_of sd' t = map_of sd t \<and> map_of ld' t = map_of ld t \<and> map_of ixd' t = map_of ixd t) \<and>
    (\<forall>(t, s) \<in> set xs. \<exists>s' l ix. map_of sd' t = Some s' \<and> map_of ld' t = Some l \<and> map_of ixd' t = Some ix \<and> Q t s s' l ix)"
  using assms
proof (induction xs arbitrary: sd ld ixd)
  case (Cons x xs)
  obtain t s where x: "x = (t, s)" by (cases x)
  have "(t, s) \<in> set (x # xs)" by (simp add: x)
  from Cons.prems(4) [OF this] obtain s' l ix where s': "sample_with_etype randint graph ratio s (Some t) = Inr (s', l, ix)" "Q t s s' l ix"
    by blast
  let ?sd = "AList.update t s' sd"
  have keys: "map fst ?sd = map fst sd" using Cons.prems(2) x by (intro update_keys_same) auto
  then have set_keys: "fst ` set ?sd = fst ` set sd" by (metis list.set_map)
  have "distinct (map fst xs)" "fst ` set xs \<subseteq> fst ` set ?sd" "distinct (map fst ?sd)"
    using Cons.prems(1,2,3) unfolding set_keys keys x by simp_all
  moreover have "\<And>t s. (t, s) \<in> set xs \<Longrightarrow> \<exists>s' l ix. sample_with_etype randint graph ratio s (Some t) = Inr (s', l, ix) \<and> Q t s s' l ix"
    using Cons.prems(4) by simp
  ultimately obtain sd' ld' ixd' where r: "rfold (\<lambda>(sd, ld, ixd) (etype, pos_pairs).
              rbind (sample_with_etype randint graph ratio pos_pairs (Some etype)) (\<lambda>(s, l, ix).
              Inr (AList.update etype s sd, AList.update etype l ld, AList.update etype ix ixd)))
            (?sd, AList.update t l ld, AList.update t ix ixd) xs = Inr (sd', ld', ixd')"
    "map fst sd' = map fst ?sd"
    "\<forall>u. u \<notin> fst ` set xs \<longrightarrow> map_of sd' u = map_of ?sd u \<and> map_of ld' u = map_of (AList.update t l ld) u \<and> map_of ixd' u = map_of (AList.update t ix ixd) u"
    "\<forall>(t, s) \<in> set xs. \<exists>s' l ix. map_of sd' t = Some s' \<and> map_of ld' t = Some l \<and> map_of ixd' t = Some ix \<and> Q t s s' l ix"
    using Cons.IH [of ?sd "AList.update t l ld" "AList.update t ix ixd"] by blast
  have "t \<notin> fst ` set xs" using Cons.prems(1) x by simp
  then have here: "map_of sd' t = Some s' \<and> map_of ld' t = Some l \<and> map_of ixd' t = Some ix" using r(3) by (simp add: update_conv')
  have old: "u \<notin> fst ` set (x # xs) \<Longrightarrow> map_of sd' u = map_of sd u \<and> map_of ld' u = map_of ld u \<and> map_of ixd' u = map_of ixd u" for u
    using r(3) x by (simp add: update_conv')
  have "\<forall>(u, s) \<in> set (x # xs). \<exists>s' l ix. map_of sd' u = Some s' \<and> map_of ld' u = Some l \<and> map_of ixd' u = Some ix \<and> Q u s s' l ix"
    using r(4) here s'(2) x by auto
  then show ?case using r(1,2) s'(1) keys old x by (intro exI [of _ sd'] exI [of _ ld'] exI [of _ ixd']) simp
qed auto

definition pairs_fit :: "(string \<times> int) list \<Rightarrow> string \<times> seeds_tensor \<Rightarrow> bool" where
  "pairs_fit num_nodes ts \<longleftrightarrow> (\<exists>rows s d n. snd ts = Seed_rows 2 rows \<and> (\<forall>r \<in> set rows. length r = 2) \<and>
     etype_ends (fst ts) = Inr (s, d) \<and> map_of num_nodes d = Some n \<and> 0 < n)"

definition num_dst_of :: "(string \<times> int) list \<Rightarrow> string \<Rightarrow> int" where
  "num_dst_of num_nodes etype = get_or 0 num_nodes (dst_of etype)"

lemma sample_hetero:
  assumes "uniform_law randint" and "0 < m" and "distinct (map fst d)" and "\<forall>x \<in> set d. pairs_fit num_nodes x"
  shows "\<exists>sd ld ixd. negative_sample randint (Hetero num_nodes, num_all) (int m) (Hetero d) labels indexes = Inr (Hetero sd, Hetero ld, Hetero ixd) \<and>
    map fst sd = map fst d \<and>
    (\<forall>(t, s) \<in> set d. \<exists>s' l ix. map_of sd t = Some s' \<and> map_of ld t = Some l \<and> map_of ixd t = Some ix \<and> sampled_for (num_dst_of num_nodes t) m s s' l ix)"
proof -
  let ?graph = "(Hetero num_nodes, num_all)"
  have each: "\<exists>s' l ix. sample_with_etype randint ?graph (int m) s (Some t) = Inr (s', l, ix) \<and> sampled_for (num_dst_of num_nodes t) m s s' l ix"
    if "(t, s) \<in> set d" for t s
  proof -
    have "pairs_fit num_nodes (t, s)" using assms(4) that by blast
    then obtain rows a b n where p: "s = Seed_rows 2 rows" "\<forall>r \<in> set rows. length r = 2" "etype_ends t = Inr (a, b)" "map_of num_nodes b = Some n" "0 < n"
      unfolding pairs_fit_def fst_conv snd_conv by blast
    have "t \<noteq> []"
    proof
      assume "t = []"
      then have "etype_ends t = Inl AssertionError" by simp (code_simp)
      then show False using p(3) by simp
    qed
    moreover have "num_dst_of num_nodes t = n" using p(3,4) by (simp add: num_dst_of_def dst_of_def get_or_def)
    ultimately show ?thesis
      using sample_with_etype_ok [where etype = "Some t" and graph = ?graph, OF assms(1,2) p(2,5)] p(1,3,4) by (simp add: dict_get_def)
  qed
  obtain sd ld ixd where r: "rfold (\<lambda>(sd, ld, ixd) (etype, pos_pairs).
              rbind (sample_with_etype randint ?graph (int m) pos_pairs (Some etype)) (\<lambda>(s, l, ix).
              Inr (AList.update etype s sd, AList.update etype l ld, AList.update etype ix ixd)))
            (d, case labels of None \<Rightarrow> [] | Some ld \<Rightarrow> ld, case indexes of None \<Rightarrow> [] | Some ixd \<Rightarrow> ixd) d = Inr (sd, ld, ixd)"
      "map fst sd = map fst d"
      "\<forall>(t, s) \<in> set d. \<exists>s' l ix. map_of sd t = Some s' \<and> map_of ld t = Some l \<and> map_of ixd t = Some ix \<and> sampled_for (num_dst_of num_nodes t) m s s' l ix"
    using sample_batch [where Q = "\<lambda>t. sampled_for (num_dst_of num_nodes t) m", OF assms(3) order_refl assms(3) each] by blast
  have "negative_sample randint ?graph (int m) (Hetero d) labels indexes = Inr (Hetero sd, Hetero ld, Hetero ixd)"
    using r(1) by (simp add: negative_sample_def Let_def)
  then show ?thesis using r(2,3) by blast
qed


text \<open>Negative sampling puts, for each type, behind the given pairs as many negative ones for each of them as
  asked for: the index of each pair is the pair it belongs to, with which it shares the source node, and the
  labels tell the given pairs from the sampled ones.\<close>

theorem negative_pairs_follow:
  assumes "uniform_law randint" and "0 < m" and "distinct (map fst d)" and "\<forall>x \<in> set d. pairs_fit num_nodes x"
  shows "\<exists>sd ld ixd. negative_sample randint (Hetero num_nodes, num_all) (int m) (Hetero d) labels indexes = Inr (Hetero sd, Hetero ld, Hetero ixd) \<and>
    map fst sd = map fst d \<and>
    (\<forall>(t, s) \<in> set d. \<exists>s' l ix. map_of sd t = Some s' \<and> map_of ld t = Some l \<and> map_of ixd t = Some ix \<and>
      sampled_for (num_dst_of num_nodes t) m s s' l ix)"
  using assms by (rule sample_hetero)

definition zero_randint :: "int \<Rightarrow> int \<Rightarrow> int list res" where
  "zero_randint hi n = Inr (replicate (nat n) 0)"

lemma zero_randint_law: "uniform_law zero_randint"
  by (simp add: uniform_law_def zero_randint_def)

lemma example_pairs: "\<forall>x \<in> set [(''A:r:B'', Seed_rows 2 [[5, 7], [6, 8]])]. pairs_fit [(''A'', 9), (''B'', 10)] x"
proof -
  have "etype_ends ''A:r:B'' = Inr (''A'', ''B'')" by code_simp
  then show ?thesis by (simp add: pairs_fit_def)
qed

theorem negative_pairs_follow_witness:
  "\<exists>sd ld ixd. negative_sample zero_randint (Hetero [(''A'', 9), (''B'', 10)], 19) 2 (Hetero [(''A:r:B'', Seed_rows 2 [[5, 7], [6, 8]])]) None None =
      Inr (Hetero sd, Hetero ld, Hetero ixd) \<and> map fst sd = [''A:r:B'']"
  using negative_pairs_follow [OF zero_randint_law _ _ example_pairs, of 2 19 None None] by auto

section \<open>The times of the queries\<close>

lemma query_times_indexes:
  assumes "map_of ts t = Some tt" and "tt \<noteq> []"
  shows "concat (query_times (Some ts) t (length tt * (m + 1))) = map (\<lambda>q. tt ! q) (query_indexes (length tt) m)"
proof -
  have "length tt * (m + 1) div length tt - 1 = m" using assms(2) by simp
  then have "concat (query_times (Some ts) t (length tt * (m + 1))) = tt @ concat (map (\<lambda>x. replicate m x) tt)"
    using assms(1) unfolding query_times_def get_or_def Let_def by simp
  also have "\<dots> = map (\<lambda>q. tt ! q) [0..<length tt] @ concat (map (\<lambda>x. replicate m x) (map (\<lambda>q. tt ! q) [0..<length tt]))"
    by (simp only: map_nth)
  also have "\<dots> = map (\<lambda>q. tt ! q) (query_indexes (length tt) m)"
    by (simp only: query_indexes_def concat_replicate_map map_append)
  finally show ?thesis .
qed

definition queries_timed :: "(string \<times> int list) list \<Rightarrow> string \<times> seeds_tensor \<Rightarrow> bool" where
  "queries_timed ts x \<longleftrightarrow> (\<exists>rows tt. snd x = Seed_rows 2 rows \<and> map_of ts (fst x) = Some tt \<and> tt \<noteq> [] \<and> length rows = length tt) \<and>
     length (seed_type_str_to_ntypes (fst x) 2) = 2"

text \<open>The numbers of a pair look up, for each of its two columns, the node and the time of its query.\<close>

definition pair_numbers :: "(string \<times> int list) list \<Rightarrow> (string \<times> int list) list \<Rightarrow> (string \<times> int list) list \<Rightarrow> string \<Rightarrow>
    seeds_tensor \<Rightarrow> int list \<Rightarrow> seeds_tensor \<Rightarrow> bool" where
  "pair_numbers n tm ts t s ix s' \<longleftrightarrow>
     (\<exists>rows rows' tt. s = Seed_rows 2 rows \<and> s' = Seed_rows 2 rows' \<and> map_of ts t = Some tt \<and> length rows' = length rows \<and>
       (\<forall>i < 2. \<exists>ns times. map_of n (seed_type_str_to_ntypes t 2 ! i) = Some ns \<and> map_of tm (seed_type_str_to_ntypes t 2 ! i) = Some times \<and>
         numbers ns (map (\<lambda>r. r ! i) rows') (map (\<lambda>r. r ! i) rows) \<and>
         numbers times (map (\<lambda>r. r ! i) rows') (map (\<lambda>q. tt ! nat q) ix)))"




section \<open>A homogeneous graph with times\<close>

lemma compact_homo:
  assumes "length (concat stamps) = length xs" and "stamps \<noteq> []"
  shows "compact_temporal_nodes (Homo [xs]) (Homo stamps) = Inr (Homo xs, Homo (concat stamps), Homo [map int [0..<length xs]])"
  using split_arange [of "[xs]"] assms map_shift_arange [of 0 "length xs"]
  by (simp add: compact_temporal_nodes_def compact_per_type_def cat_all_def)

lemma concat_replicate_nth: "j < c * length xs \<Longrightarrow> concat (replicate c xs) ! j = xs ! (j mod length xs)"
proof (induction c arbitrary: j)
  case (Suc c)
  show ?case
  proof (cases "j < length xs")
    case False
    then show ?thesis using Suc.IH [of "j - length xs"] Suc.prems by (simp add: nth_append le_mod_geq)
  qed (simp add: nth_append)
qed simp

lemma row_position: "r < n \<Longrightarrow> i < c \<Longrightarrow> r * c + i < n * (c :: nat)"
  by (metis add.commute less_mult_imp_div_less mult.commute nat_less_add_iff2 add_mult_distrib2 less_le_trans mult_Suc_right nat_add_left_cancel_less Suc_leI mult_le_mono2)

text \<open>For a homogeneous graph with times, the number at row \<open>r\<close> and column \<open>i\<close> of the seeds looks up its node,
  but the time of another row: the nodes are listed row by row and the times column by column, so that it
  is the time of the query of the row at position \<open>r * c + i\<close> modulo the number of rows.\<close>

theorem homogeneous_times_misplaced:
  assumes rows: "\<forall>r \<in> set rows. length r = c" "0 < c" and ts: "ts \<noteq> []" "length rows = (m + 1) * length ts"
  shows "\<exists>n tm rows'. seeds_preprocess (Homo (Seed_rows c rows)) (Some (Homo ts)) rank 1 async_op =
      Inr (finish_seeds (Homo n) (Some (Homo tm)) (Homo (Seed_rows c rows')) None) \<and> length rows' = length rows \<and>
    (\<forall>r < length rows. \<forall>i < c. n ! nat (rows' ! r ! i) = rows ! r ! i \<and>
      tm ! nat (rows' ! r ! i) = ts ! (query_indexes (length ts) m ! ((r * c + i) mod length rows)))"
proof -
  let ?times = "map (\<lambda>q. ts ! q) (query_indexes (length ts) m)"
  have len: "length ?times = length rows" using ts(2) by (simp add: length_query_indexes mult.commute)
  let ?neg = "concat (map (\<lambda>x. replicate (length rows div length ts - 1) x) ts)"
  have neg: "negative_timestamps ts (length rows) = Inr ?neg"
    by (rule negative_times [of ts "m + 1"]) (use ts in simp_all)
  have times: "ts @ ?neg = ?times"
    using query_times_indexes [of "[(''x'', ts)]" "''x''" ts m] ts by (simp add: query_times_def get_or_def Let_def mult.commute)
  have lc: "length (concat rows) = length rows * c" using length_concat_equal [OF rows(1)] by simp
  have stamps: "length (concat (replicate c ?times)) = length (concat rows)" "replicate c ?times \<noteq> []"
    using length_concat_equal [of "replicate c ?times" "length ?times"] lc len rows(2) by (simp_all add: mult.commute)
  let ?rows = "map (\<lambda>r. map (\<lambda>i. map int [0..<length (concat rows)] ! (r * c + i)) [0..<c]) [0..<length rows]"
  have view: "view_as_rows (length rows) c (map int [0..<length (concat rows)]) = Inr ?rows"
    by (rule view_as_rows_concat [OF rows(1)]) simp
  have "preprocess_homo c rows (Some (Homo ts)) async_op =
      Inr (finish_seeds (Homo (concat rows)) (Some (Homo (concat (replicate c ?times)))) (Homo (Seed_rows c ?rows)) None)"
    unfolding preprocess_homo_def Let_def option.case per_type.case neg rbind_simps times compact_homo [OF stamps] prod.case list.case view
    by (rule refl)
  then have run: "seeds_preprocess (Homo (Seed_rows c rows)) (Some (Homo ts)) rank 1 async_op =
      Inr (finish_seeds (Homo (concat rows)) (Some (Homo (concat (replicate c ?times)))) (Homo (Seed_rows c ?rows)) None)"
    by (simp add: seeds_preprocess_def)
  have "concat rows ! nat (?rows ! r ! i) = rows ! r ! i \<and>
      concat (replicate c ?times) ! nat (?rows ! r ! i) = ts ! (query_indexes (length ts) m ! ((r * c + i) mod length rows))"
    if "r < length rows" "i < c" for r i
  proof -
    have pos: "r * c + i < length rows * c" using that by (rule row_position)
    then have at: "nat (?rows ! r ! i) = r * c + i" using that lc by (simp del: of_nat_add of_nat_mult)
    moreover have "(r * c + i) mod length rows < length rows"
      using that(1) by (intro mod_less_divisor) linarith
    ultimately show ?thesis unfolding at
      using nth_concat_equal [OF rows(1) that(1,2)] concat_replicate_nth [of "r * c + i" c ?times] pos len by (simp add: mult.commute)
  qed
  then have "\<forall>r < length rows. \<forall>i < c. concat rows ! nat (?rows ! r ! i) = rows ! r ! i \<and>
      concat (replicate c ?times) ! nat (?rows ! r ! i) = ts ! (query_indexes (length ts) m ! ((r * c + i) mod length rows))"
    by blast
  moreover have "length ?rows = length rows" by simp
  ultimately show ?thesis using run by blast
qed

theorem homogeneous_times_misplaced_witness:
  "\<exists>n tm rows'. seeds_preprocess (Homo (Seed_rows 2 [[5, 7], [6, 8]])) (Some (Homo [30, 40])) 0 1 False =
      Inr (finish_seeds (Homo n) (Some (Homo tm)) (Homo (Seed_rows 2 rows')) None) \<and>
    n ! nat (rows' ! 0 ! 1) = 7 \<and> tm ! nat (rows' ! 0 ! 1) = 40"
proof -
  have "\<exists>n tm rows'. seeds_preprocess (Homo (Seed_rows 2 [[5, 7], [6, 8]])) (Some (Homo [30, 40])) 0 1 False =
      Inr (finish_seeds (Homo n) (Some (Homo tm)) (Homo (Seed_rows 2 rows')) None) \<and> length rows' = length [[5, 7], [6, 8 :: int]] \<and>
    (\<forall>r < length [[5, 7], [6, 8 :: int]]. \<forall>i < 2. n ! nat (rows' ! r ! i) = [[5, 7], [6, 8]] ! r ! i \<and>
      tm ! nat (rows' ! r ! i) = [30, 40] ! (query_indexes (length [30, 40 :: int]) 0 ! ((r * 2 + i) mod length [[5, 7], [6, 8 :: int]])))"
    by (rule homogeneous_times_misplaced) simp_all
  then obtain n tm rows' where r: "seeds_preprocess (Homo (Seed_rows 2 [[5, 7], [6, 8]])) (Some (Homo [30, 40])) 0 1 False =
      Inr (finish_seeds (Homo n) (Some (Homo tm)) (Homo (Seed_rows 2 rows')) None)"
    and at: "\<forall>r < length [[5, 7], [6, 8 :: int]]. \<forall>i < 2. n ! nat (rows' ! r ! i) = [[5, 7], [6, 8]] ! r ! i \<and>
      tm ! nat (rows' ! r ! i) = [30, 40] ! (query_indexes (length [30, 40 :: int]) 0 ! ((r * 2 + i) mod length [[5, 7], [6, 8 :: int]]))"
    by blast
  have "n ! nat (rows' ! 0 ! 1) = 7 \<and> tm ! nat (rows' ! 0 ! 1) = 40"
    using at [rule_format, of 0 1] by (simp add: query_indexes_def)
  then show ?thesis using r by blast
qed

end
