(* ===== verification/GbCooperativeProps.thy ===== *)
theory GbCooperativeProps
  imports GbCooperative GbSeedsProps
begin

text \<open>
  The exchange sends every seed to one owner, and the rows that come back are those of the seeds that were
  sent, in their order.
\<close>

section \<open>Ranks around the ring\<close>

definition partner :: "nat \<Rightarrow> nat \<Rightarrow> nat \<Rightarrow> nat" where
  "partner n r i = (i + r) mod n"

definition home_slot :: "nat \<Rightarrow> nat \<Rightarrow> nat \<Rightarrow> nat" where
  "home_slot n r i = (r + n - partner n r i) mod n"

lemma partner_less: "r < n \<Longrightarrow> partner n r i < n"
  by (simp add: partner_def)

lemma home_slot_less: "r < n \<Longrightarrow> home_slot n r i < n"
  by (simp add: home_slot_def)

lemma partner_cases: "r < n \<Longrightarrow> i < n \<Longrightarrow> partner n r i = (if i + r < n then i + r else i + r - n)"
  by (simp add: partner_def mod_if)

lemma home_slot_cases: "r < n \<Longrightarrow> i < n \<Longrightarrow> home_slot n r i = (if i = 0 then 0 else n - i)"
  by (auto simp: home_slot_def partner_cases mod_if)

lemma partner_home_slot: "r < n \<Longrightarrow> i < n \<Longrightarrow> partner n (partner n r i) (home_slot n r i) = r"
  using partner_less [of r n i] home_slot_less [of r n i] by (auto simp: partner_cases home_slot_cases split: if_splits)

lemma home_slot_home_slot: "r < n \<Longrightarrow> i < n \<Longrightarrow> home_slot n (partner n r i) (home_slot n r i) = i"
  using partner_less [of r n i] home_slot_less [of r n i] by (auto simp: home_slot_cases)

lemma length_shift_list [simp]: "length (shift_list r xs) = length xs"
  by (simp add: shift_list_def Let_def)

lemma shift_nth:
  assumes "length xs = n" and "r < n" and "j < n"
  shows "shift_list r xs ! j = xs ! ((j + n - r) mod n)"
proof -
  have "(j + n - r) mod n = (if j < r then j + n - r else j - r)" using assms(2,3) by (auto simp: mod_if)
  moreover have "n - r + j = j + n - r" using assms(2) by simp
  ultimately show ?thesis using assms by (simp add: shift_list_def Let_def nth_append)
qed

lemma outputs_nth: "length xs = n \<Longrightarrow> r < n \<Longrightarrow> i < n \<Longrightarrow> outputs_of r xs ! i = xs ! partner n r i"
  by (auto simp: outputs_of_def nth_append partner_cases add.commute)

definition routed :: "'a list list list \<Rightarrow> 'a list list list" where
  "routed inputs = (let n = length inputs in map (\<lambda>r. map (\<lambda>i. inputs ! partner n r i ! home_slot n r i) [0..<n]) [0..<n])"

lemma all_to_all_routed:
  assumes lens: "\<forall>xs \<in> set inputs. length xs = length inputs" and sizes: "sizes = map (map (\<lambda>x. int (length x))) (routed inputs)"
  shows "all_to_all inputs sizes = Inr (routed inputs)"
proof -
  let ?n = "length inputs"
  let ?sent = "map (\<lambda>r. shift_list r (inputs ! r)) [0..<?n]"
  have "outputs_of r (map (\<lambda>j. ?sent ! j ! r) [0..<?n]) = map (\<lambda>i. inputs ! partner ?n r i ! home_slot ?n r i) [0..<?n]" if r: "r < ?n" for r
  proof (rule nth_equalityI)
    show "length (outputs_of r (map (\<lambda>j. ?sent ! j ! r) [0..<?n])) = length (map (\<lambda>i. inputs ! partner ?n r i ! home_slot ?n r i) [0..<?n])"
      using r by (simp add: outputs_of_def)
    fix i assume "i < length (outputs_of r (map (\<lambda>j. ?sent ! j ! r) [0..<?n]))"
    then have i: "i < ?n" using r by (simp add: outputs_of_def)
    let ?q = "partner ?n r i"
    have q: "?q < ?n" using r by (rule partner_less)
    have "outputs_of r (map (\<lambda>j. ?sent ! j ! r) [0..<?n]) ! i = shift_list ?q (inputs ! ?q) ! r"
      using outputs_nth [of "map (\<lambda>j. ?sent ! j ! r) [0..<?n]" ?n r i] r i q by simp
    also have "\<dots> = inputs ! ?q ! home_slot ?n r i"
      using shift_nth [of "inputs ! ?q" ?n ?q r] lens q r by (simp add: home_slot_def)
    finally show "outputs_of r (map (\<lambda>j. ?sent ! j ! r) [0..<?n]) ! i = map (\<lambda>i. inputs ! partner ?n r i ! home_slot ?n r i) [0..<?n] ! i"
      using i by simp
  qed
  then have "map (\<lambda>r. outputs_of r (map (\<lambda>j. ?sent ! j ! r) [0..<?n])) [0..<?n] = routed inputs"
    unfolding routed_def Let_def by (intro map_cong) simp_all
  then show ?thesis using lens sizes unfolding all_to_all_def Let_def by auto
qed

lemma length_routed [simp]: "length (routed inputs) = length inputs"
  by (simp add: routed_def Let_def)

lemma routed_lengths: "xs \<in> set (routed inputs) \<Longrightarrow> length xs = length inputs"
  by (auto simp: routed_def Let_def)

lemma routed_nth:
  "r < length inputs \<Longrightarrow> i < length inputs \<Longrightarrow>
    routed inputs ! r ! i = inputs ! partner (length inputs) r i ! home_slot (length inputs) r i"
  by (simp add: routed_def Let_def)

text \<open>Sending back what has come gives everybody what they sent.\<close>

lemma routed_routed:
  assumes "\<forall>xs \<in> set inputs. length xs = length inputs"
  shows "routed (routed inputs) = inputs"
proof (rule nth_equalityI)
  show "length (routed (routed inputs)) = length inputs" by simp
  fix r assume "r < length (routed (routed inputs))"
  then have r: "r < length inputs" by simp
  have len: "length (inputs ! r) = length inputs" using assms r by simp
  show "routed (routed inputs) ! r = inputs ! r"
  proof (rule nth_equalityI)
    show "length (routed (routed inputs) ! r) = length (inputs ! r)"
      using r len routed_lengths [of "routed (routed inputs) ! r" "routed inputs"] by simp
    fix i assume "i < length (routed (routed inputs) ! r)"
    then have i: "i < length inputs" using r routed_lengths [of "routed (routed inputs) ! r" "routed inputs"] by simp
    show "routed (routed inputs) ! r ! i = inputs ! r ! i"
      using r i partner_home_slot [of r "length inputs" i] home_slot_home_slot [of r "length inputs" i]
        partner_less [of r "length inputs" i] home_slot_less [of r "length inputs" i]
      by (simp add: routed_nth)
  qed
qed

lemma routed_map: "routed (map (map g) inputs) = map (map g) (routed inputs)" if "\<forall>xs \<in> set inputs. length xs = length inputs"
proof -
  have "map (map g) inputs ! partner n r i ! home_slot n r i = g (inputs ! partner n r i ! home_slot n r i)"
    if "n = length inputs" "r < n" "i < n" for n r i
    using that partner_less [of r n i] home_slot_less [of r n i] \<open>\<forall>xs \<in> set inputs. length xs = length inputs\<close> by simp
  then show ?thesis by (simp add: routed_def Let_def)
qed

section \<open>Sorting by owner\<close>

lemma rank_assignment_less:
  assumes "0 < n" and "n < 2 ^ 32"
  shows "rank_assignment draw r n x < n"
proof -
  have n: "unat (of_nat n :: 32 word) = n" using assms(2) by (simp add: unat_of_nat take_bit_nat_eq_self)
  then have "0 < (of_nat n :: 32 word)" using assms(1) by (simp add: word_less_nat_alt)
  then have "(draw x - of_nat r) mod of_nat n < (of_nat n :: 32 word)" by (rule word_mod_less_divisor)
  then show ?thesis using n by (simp add: rank_assignment_def word_less_nat_alt)
qed

text \<open>Relative to different ranks, the owner is the same, unless the subtraction of the rank wraps around.\<close>

lemma rank_assignment_owner:
  assumes "r < n" and "n < 2 ^ 32" and "of_nat r \<le> draw x"
  shows "(rank_assignment draw r n x + r) mod n = unat (draw x) mod n"
proof -
  have n: "unat (of_nat n :: 32 word) = n" "unat (of_nat r :: 32 word) = r"
    using assms(1,2) by (simp_all add: unat_of_nat take_bit_nat_eq_self)
  have "unat (draw x - of_nat r) = unat (draw x) - r" "r \<le> unat (draw x)"
    using assms(3) n(2) by (simp_all add: unat_sub word_le_nat_alt)
  then show ?thesis by (simp add: rank_assignment_def unat_mod n mod_add_left_eq)
qed

lemma sorted_buckets:
  fixes f :: "'a \<Rightarrow> nat"
  shows "sorted (map f ys) \<Longrightarrow> \<forall>y \<in> set ys. f y < n \<Longrightarrow> ys = concat (map (\<lambda>p. filter (\<lambda>y. f y = p) ys) [0..<n])"
proof (induction n arbitrary: ys)
  case (Suc n)
  have split: "ys = filter (\<lambda>y. f y < n) ys @ filter (\<lambda>y. f y = n) ys"
    using Suc.prems
  proof (induction ys)
    case (Cons y ys)
    show ?case
    proof (cases "f y < n")
      case False
      then have "\<forall>z \<in> set (y # ys). f z = n" using Cons.prems by fastforce
      then show ?thesis by (auto simp: filter_empty_conv intro!: filter_True [symmetric])
    qed (use Cons in auto)
  qed simp
  let ?lo = "filter (\<lambda>y. f y < n) ys"
  have "sorted (map f ?lo)" using Suc.prems(1) by (rule sorted_filter)
  then have "?lo = concat (map (\<lambda>p. filter (\<lambda>y. f y = p) ?lo) [0..<n])" by (intro Suc.IH) simp_all
  also have "map (\<lambda>p. filter (\<lambda>y. f y = p) ?lo) [0..<n] = map (\<lambda>p. filter (\<lambda>y. f y = p) ys) [0..<n]"
    by (intro map_cong) (auto intro: filter_cong)
  finally show ?case using split by simp
qed simp


definition bucket :: "(int \<Rightarrow> 32 word) \<Rightarrow> nat \<Rightarrow> nat \<Rightarrow> int list \<Rightarrow> nat \<Rightarrow> int list" where
  "bucket draw r n nodes p = filter (\<lambda>x. rank_assignment draw r n x = p) nodes"

lemma takeWhile_position:
  assumes "x \<in> set xs"
  shows "length (takeWhile (\<lambda>y. y \<noteq> x) xs) < length xs" and "xs ! length (takeWhile (\<lambda>y. y \<noteq> x) xs) = x"
  using assms by (induction xs) auto

lemma filter_nth_map: "map (\<lambda>i. xs ! i) (filter (\<lambda>i. P (xs ! i)) [0..<length xs]) = filter P xs"
proof -
  have "filter P (map ((!) xs) [0..<length xs]) = map (\<lambda>i. xs ! i) (filter (\<lambda>i. P (xs ! i)) [0..<length xs])"
    by (simp add: filter_map comp_def)
  then show ?thesis by (simp add: map_nth)
qed

lemma rank_sort_buckets:
  fixes draw r n nodes
  assumes n: "0 < n" "n < 2 ^ 32"
  defines "s \<equiv> fst (rank_sort draw r n nodes)" and "ix \<equiv> fst (snd (rank_sort draw r n nodes))"
    and "off \<equiv> snd (snd (rank_sort draw r n nodes))"
  shows "s = concat (map (bucket draw r n nodes) [0..<n])" and "numbers s ix nodes"
    and "diff off = map (\<lambda>p. int (length (bucket draw r n nodes p))) [0..<n]" and "length off = n + 1"
proof -
  let ?f = "rank_assignment draw r n"
  let ?part = "map ?f nodes"
  let ?order = "sort_key (\<lambda>i. ?part ! i) [0..<length nodes]"
  have s: "s = map (\<lambda>i. nodes ! i) ?order" and ix: "ix = map (\<lambda>i. int (length (takeWhile (\<lambda>j. j \<noteq> i) ?order))) [0..<length nodes]"
    and off: "off = map (\<lambda>p. int (length (filter (\<lambda>q. q < p) ?part))) [0..<n] @ [int (length nodes)]"
    by (simp_all add: s_def ix_def off_def rank_sort_def Let_def)
  have less: "?f x < n" for x using rank_assignment_less [OF n] .
  have same: "\<And>i. i \<in> set ?order \<Longrightarrow> ?part ! i = ?f (nodes ! i)" by simp
  have sorted: "sorted (map ?f s)"
  proof -
    have "map ?f s = map (\<lambda>i. ?part ! i) ?order" unfolding s map_map comp_def by (intro map_cong) simp_all
    then show ?thesis by (simp only: sorted_sort_key)
  qed
  have keep: "filter (\<lambda>x. ?f x = p) s = bucket draw r n nodes p" for p
  proof -
    have "filter (\<lambda>x. ?f x = p) s = map (\<lambda>i. nodes ! i) (filter (\<lambda>i. ?f (nodes ! i) = p) ?order)"
      by (simp add: s filter_map comp_def)
    also have "filter (\<lambda>i. ?f (nodes ! i) = p) ?order = filter (\<lambda>i. ?part ! i = p) ?order" using same by (intro filter_cong) auto
    also have "\<dots> = filter (\<lambda>i. ?part ! i = p) [0..<length nodes]" by (rule sort_key_stable)
    also have "\<dots> = filter (\<lambda>i. ?f (nodes ! i) = p) [0..<length nodes]" by (intro filter_cong) simp_all
    finally show ?thesis using filter_nth_map [of nodes "\<lambda>x. ?f x = p"] by (simp add: bucket_def)
  qed
  have "s = concat (map (\<lambda>p. filter (\<lambda>x. ?f x = p) s) [0..<n])" using sorted less by (intro sorted_buckets) simp_all
  then show "s = concat (map (bucket draw r n nodes) [0..<n])" unfolding keep .
  have pos: "length (takeWhile (\<lambda>j. j \<noteq> i) ?order) < length ?order \<and> ?order ! length (takeWhile (\<lambda>j. j \<noteq> i) ?order) = i" if "i < length nodes" for i
    using takeWhile_position [of i ?order] that by simp
  show "numbers s ix nodes"
    unfolding numbers_def
  proof
    show "\<forall>j \<in> set ix. 0 \<le> j \<and> j < int (length s)" using pos by (auto simp: ix s)
    show "map (\<lambda>j. s ! nat j) ix = nodes" using pos by (intro nth_equalityI) (simp_all add: ix s)
  qed
  have "filter (\<lambda>q. q < n) ?part = ?part" using less by (intro filter_True) simp
  then have all: "length (filter (\<lambda>q. q < n) ?part) = length nodes" by (simp only: length_map)
  have "[0..<Suc n] = [0..<n] @ [n]" by simp
  then have off': "off = map (\<lambda>p. int (length (filter (\<lambda>q. q < p) ?part))) [0..<Suc n]"
    by (simp only: off map_append list.map all)
  then show "length off = n + 1" by simp
  have bucket_count: "int (length (filter (\<lambda>x. ?f x < Suc p) nodes)) - int (length (filter (\<lambda>x. ?f x < p) nodes)) = int (length (bucket draw r n nodes p))" for p
    unfolding bucket_def by (induction nodes) auto
  show "diff off = map (\<lambda>p. int (length (bucket draw r n nodes p))) [0..<n]"
    unfolding off' by (rule nth_equalityI) (simp_all add: diff_def filter_map comp_def bucket_count nth_tl del: upt_Suc)
qed


section \<open>What is sent\<close>

definition coop_seeds :: "nat \<Rightarrow> string list \<Rightarrow> (int list per_type \<times> int list per_type option) list \<Rightarrow> bool" where
  "coop_seeds n types seeds \<longleftrightarrow> length seeds = n \<and> 0 < n \<and> n < 2 ^ 32 \<and> types \<noteq> [] \<and> distinct types \<and>
     (\<forall>s \<in> set seeds. snd s = None \<and> map fst (convert_to_hetero (fst s)) = types)"

text \<open>The seeds of a rank of the type at a place, what it sends to each rank, and what all send.\<close>

definition seeds_at :: "(int list per_type \<times> int list per_type option) list \<Rightarrow> nat \<Rightarrow> nat \<Rightarrow> int list" where
  "seeds_at seeds r i = snd (convert_to_hetero (fst (seeds ! r)) ! i)"

definition parcels :: "(int \<Rightarrow> 32 word) \<Rightarrow> (int list per_type \<times> int list per_type option) list \<Rightarrow> nat \<Rightarrow> int list list list" where
  "parcels draw seeds i =
     (let n = length seeds in map (\<lambda>r. map (bucket draw r n (seeds_at seeds r i)) [0..<n]) [0..<n])"

definition sorted_at :: "(int \<Rightarrow> 32 word) \<Rightarrow> (int list per_type \<times> int list per_type option) list \<Rightarrow> nat \<Rightarrow> nat \<Rightarrow> int list" where
  "sorted_at draw seeds r i = concat (parcels draw seeds i ! r)"

definition received_at :: "(int \<Rightarrow> 32 word) \<Rightarrow> (int list per_type \<times> int list per_type option) list \<Rightarrow> nat \<Rightarrow> nat \<Rightarrow> int list" where
  "received_at draw seeds r i = concat (routed (parcels draw seeds i) ! r)"

definition parcel_sizes :: "int list list \<Rightarrow> int list" where
  "parcel_sizes = map (\<lambda>x. int (length x))"

lemma parcels_lengths: "length (parcels draw seeds i) = length seeds" "\<forall>xs \<in> set (parcels draw seeds i). length xs = length (parcels draw seeds i)"
  by (auto simp: parcels_def Let_def)

lemma parcels_nth: "r < length seeds \<Longrightarrow> parcels draw seeds i ! r = map (bucket draw r (length seeds) (seeds_at seeds r i)) [0..<length seeds]"
  by (simp add: parcels_def Let_def)

lemma concat_grid: "0 < m \<Longrightarrow> concat (map (\<lambda>k. map (\<lambda>i. g k i) [0..<m]) [0..<n]) = map (\<lambda>j. g (j div m) (j mod m)) [0..<n * (m :: nat)]"
proof (induction n)
  case (Suc n)
  have "[0..<Suc n * m] = [0..<n * m] @ map (\<lambda>i. n * m + i) [0..<m]"
    using upt_add_eq_append [of 0 "n * m" m] map_add_upt [of "n * m" m] by (simp add: add.commute)
  then show ?case using Suc by (simp add: comp_def)
qed simp

lemma nth_grid:
  assumes "k < n" and "i < (m :: nat)"
  shows "map (\<lambda>j. g (j div m) (j mod m)) [0..<n * m] ! (i + k * m) = g k i"
proof -
  have "i + k * m < n * m" using row_position [OF assms] by (simp add: add.commute)
  then show ?thesis using assms(2) by simp
qed

definition sent_counts :: "(int \<Rightarrow> 32 word) \<Rightarrow> (int list per_type \<times> int list per_type option) list \<Rightarrow> nat \<Rightarrow> nat \<Rightarrow> int list" where
  "sent_counts draw seeds m r = map (\<lambda>j. int (length (parcels draw seeds (j mod m) ! r ! (j div m)))) [0..<length seeds * m]"

definition received_counts :: "(int \<Rightarrow> 32 word) \<Rightarrow> (int list per_type \<times> int list per_type option) list \<Rightarrow> nat \<Rightarrow> nat \<Rightarrow> int list" where
  "received_counts draw seeds m r = map (\<lambda>j. int (length (routed (parcels draw seeds (j mod m)) ! r ! (j div m)))) [0..<length seeds * m]"

lemma typed_counts_grid:
  assumes "i < m"
  shows "typed_counts n m i (map (\<lambda>j. g (j div m) (j mod m)) [0..<n * m]) = map (\<lambda>k. g k i) [0..<n]"
  unfolding typed_counts_def by (intro map_cong) (use assms nth_grid [of _ n i m g] in simp_all)

lemma typed_sent:
  assumes "i < m" and "r < length seeds"
  shows "typed_counts (length seeds) m i (sent_counts draw seeds m r) = parcel_sizes (parcels draw seeds i ! r)"
proof -
  have "map (\<lambda>k. int (length (parcels draw seeds i ! r ! k))) [0..<length seeds] = parcel_sizes (parcels draw seeds i ! r)"
    unfolding parcel_sizes_def by (rule nth_equalityI) (simp_all add: parcels_nth [OF assms(2)])
  then show ?thesis unfolding sent_counts_def
    using typed_counts_grid [OF assms(1), of "length seeds" "\<lambda>k i. int (length (parcels draw seeds i ! r ! k))"] by simp
qed

lemma typed_received:
  assumes "i < m" and "r < length seeds"
  shows "typed_counts (length seeds) m i (received_counts draw seeds m r) = parcel_sizes (routed (parcels draw seeds i) ! r)"
proof -
  have "length (routed (parcels draw seeds i) ! r) = length seeds"
    using routed_lengths [of "routed (parcels draw seeds i) ! r" "parcels draw seeds i"] assms(2) parcels_lengths(1) by simp
  then have "map (\<lambda>k. int (length (routed (parcels draw seeds i) ! r ! k))) [0..<length seeds] = parcel_sizes (routed (parcels draw seeds i) ! r)"
    unfolding parcel_sizes_def by (intro nth_equalityI) simp_all
  then show ?thesis unfolding received_counts_def
    using typed_counts_grid [OF assms(1), of "length seeds" "\<lambda>k i. int (length (routed (parcels draw seeds i) ! r ! k))"] by simp
qed

section \<open>The first stage\<close>

lemma convert_revert: "convert_to_hetero (revert_to_homo d) = d"
proof (cases "length d = 1 \<and> map_of d ''_N'' \<noteq> None")
  case True
  then obtain k v where "d = [(k, v)]" by (cases d) auto
  then show ?thesis using True by (auto simp: revert_to_homo_def convert_to_hetero_def split: if_splits)
qed (auto simp: revert_to_homo_def convert_to_hetero_def)

lemma sort_stage:
  assumes seeds: "coop_seeds n types seeds" and r: "r < n"
  shows "\<exists>compacted. exchange_1_sort draw r n (fst (seeds ! r)) (snd (seeds ! r)) =
      Inr \<lparr>cb_nodes = Hetero (map (\<lambda>i. (types ! i, sorted_at draw seeds r i)) [0..<length types]),
           cb_compacted = Some compacted, cb_counts_sent = sent_counts draw seeds (length types) r\<rparr> \<and>
    map fst (convert_to_hetero compacted) = types \<and>
    (\<forall>i < length types. numbers (sorted_at draw seeds r i) (snd (convert_to_hetero compacted ! i)) (seeds_at seeds r i))"
proof -
  let ?d = "convert_to_hetero (fst (seeds ! r))"
  have n: "length seeds = n" "0 < n" "n < 2 ^ 32" and mem: "seeds ! r \<in> set seeds" using seeds r by (simp_all add: coop_seeds_def)
  then have none: "snd (seeds ! r) = None" and types: "map fst ?d = types" using seeds by (simp_all add: coop_seeds_def)
  let ?sorted = "map (\<lambda>(t, s). (t, rank_sort draw r n s)) ?d"
  have len: "length ?d = length types" using types by (metis length_map)
  have entry: "?d ! i = (types ! i, seeds_at seeds r i)" if "i < length types" for i
    using that len types by (metis nth_map prod.collapse seeds_at_def)
  note sort = rank_sort_buckets [OF n(2,3)]
  have parcel: "parcels draw seeds i ! r = map (bucket draw r n (seeds_at seeds r i)) [0..<n]" for i
    using parcels_nth [of r seeds draw i] r n(1) by simp
  have nodes: "map (\<lambda>(t, s, ix, off). (t, s)) ?sorted = map (\<lambda>i. (types ! i, sorted_at draw seeds r i)) [0..<length types]"
    using sort(1) [of draw r] entry len by (intro nth_equalityI) (simp_all add: split_def sorted_at_def parcel)
  let ?c = "revert_to_homo (map (\<lambda>(t, s, ix, off). (t, ix)) ?sorted)"
  have conv: "convert_to_hetero ?c = map (\<lambda>(t, s, ix, off). (t, ix)) ?sorted"
    by (rule convert_revert)
  have "map fst (convert_to_hetero ?c) = types" unfolding conv using types by (simp add: split_def comp_def)
  moreover have "\<forall>i < length types. numbers (sorted_at draw seeds r i) (snd (convert_to_hetero ?c ! i)) (seeds_at seeds r i)"
    unfolding conv using sort(1,2) [of draw r] entry len by (simp add: split_def sorted_at_def parcel)
  moreover have "counts_of n (map (\<lambda>(t, s, ix, off). off) ?sorted) = sent_counts draw seeds (length types) r"
  proof (rule nth_equalityI)
    show "length (counts_of n (map (\<lambda>(t, s, ix, off). off) ?sorted)) = length (sent_counts draw seeds (length types) r)"
      by (simp add: counts_of_def sent_counts_def Let_def len n(1))
    fix j assume "j < length (counts_of n (map (\<lambda>(t, s, ix, off). off) ?sorted))"
    then have j: "j < n * length types" by (simp add: counts_of_def Let_def len)
    then have "j mod length types < length types" "j div length types < n"
      by (cases "types = []"; simp add: less_mult_imp_div_less)+
    then show "counts_of n (map (\<lambda>(t, s, ix, off). off) ?sorted) ! j = sent_counts draw seeds (length types) r ! j"
      using j sort(3) [of draw r] entry len by (simp add: counts_of_def sent_counts_def Let_def n(1) split_def parcel)
  qed
  ultimately show ?thesis using nodes none by (auto simp: exchange_1_sort_def Let_def)
qed


section \<open>The exchange of counts and seeds\<close>

lemma routed_uniform:
  assumes "\<forall>xs \<in> set inputs. length xs = length inputs \<and> (\<forall>x \<in> set xs. length x = m)"
  shows "map (map (\<lambda>x. int (length x))) (routed inputs) = map (map (\<lambda>x. int (length x))) inputs"
proof -
  have "map (map (\<lambda>x. int (length x))) xss = replicate (length inputs) (replicate (length inputs) (int m))"
    if "length xss = length inputs" "\<forall>xs \<in> set xss. length xs = length inputs \<and> (\<forall>x \<in> set xs. length x = m)" for xss :: "'a list list list"
    using that by (intro nth_equalityI) (simp_all, metis nth_mem)
  moreover have "\<forall>xs \<in> set (routed inputs). length xs = length inputs \<and> (\<forall>x \<in> set xs. length x = m)"
  proof (intro ballI conjI)
    fix xs assume xs: "xs \<in> set (routed inputs)"
    then show "length xs = length inputs" by (rule routed_lengths)
    fix x assume "x \<in> set xs"
    then obtain r i where ri: "r < length inputs" "i < length inputs"
      "x = inputs ! partner (length inputs) r i ! home_slot (length inputs) r i"
      using xs by (auto simp: routed_def Let_def)
    then have "inputs ! partner (length inputs) r i \<in> set inputs" using partner_less by simp
    then show "length x = m" using assms ri home_slot_less [of r "length inputs" i] by (metis nth_mem)
  qed
  ultimately show ?thesis using assms by simp
qed

lemma counts_stage:
  assumes m: "0 < m" and n: "length seeds = n"
  shows "exchange_1_counts m (map (sent_counts draw seeds m) [0..<n]) = Inr (map (received_counts draw seeds m) [0..<n])"
proof -
  let ?g = "\<lambda>r k. map (\<lambda>i. int (length (parcels draw seeds i ! r ! k))) [0..<m]"
  let ?inputs = "map (\<lambda>r. map (?g r) [0..<n]) [0..<n]"
  have grid: "sent_counts draw seeds m r = concat (map (?g r) [0..<n])" for r
    using concat_grid [OF m, of "\<lambda>k i. int (length (parcels draw seeds i ! r ! k))" n] by (simp add: sent_counts_def n)
  have "split_sizes (sent_counts draw seeds m r) (replicate (length (sent_counts draw seeds m r) div m) (int m)) = Inr (map (?g r) [0..<n])" for r
  proof -
    have "replicate (length (sent_counts draw seeds m r) div m) (int m) = map (\<lambda>t. int (length t)) (map (?g r) [0..<n])"
      using m n by (intro nth_equalityI) (simp_all add: sent_counts_def)
    then show ?thesis using split_sizes_concat [of "map (?g r) [0..<n]"] grid by simp
  qed
  then have split: "rmap (\<lambda>cs. split_sizes cs (replicate (length cs div m) (int m))) (map (sent_counts draw seeds m) [0..<n]) = Inr ?inputs"
    by (simp add: rmap_Inr_conv list_all2_conv_all_nth)
  have lens: "\<forall>xs \<in> set ?inputs. length xs = length ?inputs \<and> (\<forall>x \<in> set xs. length x = m)" by auto
  have "all_to_all ?inputs (map (map (\<lambda>x. int (length x))) ?inputs) = Inr (routed ?inputs)"
    using lens routed_uniform [OF lens] by (intro all_to_all_routed) simp_all
  moreover have "map concat (routed ?inputs) = map (received_counts draw seeds m) [0..<n]"
  proof (rule nth_equalityI)
    fix r assume "r < length (map concat (routed ?inputs))"
    then have r: "r < n" by simp
    have "routed ?inputs ! r = map (\<lambda>k. map (\<lambda>i. int (length (routed (parcels draw seeds i) ! r ! k))) [0..<m]) [0..<n]"
    proof (rule nth_equalityI)
      show len: "length (routed ?inputs ! r) = length (map (\<lambda>k. map (\<lambda>i. int (length (routed (parcels draw seeds i) ! r ! k))) [0..<m]) [0..<n])"
        using routed_lengths [of "routed ?inputs ! r" ?inputs] r by simp
      fix k assume "k < length (routed ?inputs ! r)"
      then have k: "k < n" using len by simp
      show "routed ?inputs ! r ! k = map (\<lambda>k. map (\<lambda>i. int (length (routed (parcels draw seeds i) ! r ! k))) [0..<m]) [0..<n] ! k"
        using r k n partner_less [of r n k] home_slot_less [of r n k] by (simp add: routed_nth parcels_lengths(1))
    qed
    then show "map concat (routed ?inputs) ! r = map (received_counts draw seeds m) [0..<n] ! r"
      using r concat_grid [OF m, of "\<lambda>k i. int (length (routed (parcels draw seeds i) ! r ! k))" n] by (simp add: received_counts_def n)
  qed simp
  ultimately show ?thesis using split by (simp add: exchange_1_counts_def)
qed

lemma typed_stage:
  assumes i: "i < m" and n: "length seeds = n" and nodes: "\<forall>r < n. snd (nodes ! r ! i) = sorted_at draw seeds r i" "length nodes = n"
  shows "exchange_typed n m nodes (map (sent_counts draw seeds m) [0..<n]) (map (received_counts draw seeds m) [0..<n]) i =
    Inr (map (\<lambda>r. received_at draw seeds r i) [0..<n])"
proof -
  let ?I = "parcels draw seeds i"
  have I: "length ?I = n" "\<forall>xs \<in> set ?I. length xs = length ?I" using parcels_lengths n by auto
  have "split_sizes (snd (nodes ! r ! i)) (typed_counts n m i (sent_counts draw seeds m r)) = Inr (?I ! r)" if "r < n" for r
    using nodes(1) that typed_sent [OF i, of r seeds draw] n split_sizes_concat [of "?I ! r"] by (simp add: sorted_at_def parcel_sizes_def)
  then have "rmap (\<lambda>(d, cs). split_sizes (snd (d ! i)) (typed_counts n m i cs)) (zip nodes (map (sent_counts draw seeds m) [0..<n])) = Inr ?I"
    using nodes(2) I(1) by (simp add: rmap_Inr_conv list_all2_conv_all_nth)
  moreover have "all_to_all ?I (map (typed_counts n m i) (map (received_counts draw seeds m) [0..<n])) = Inr (routed ?I)"
  proof (rule all_to_all_routed [OF I(2)])
    show "map (typed_counts n m i) (map (received_counts draw seeds m) [0..<n]) = map (map (\<lambda>x. int (length x))) (routed ?I)"
      using typed_received [OF i, of _ seeds draw] n I(1) by (intro nth_equalityI) (simp_all add: parcel_sizes_def)
  qed
  moreover have "map concat (routed ?I) = map (\<lambda>r. received_at draw seeds r i) [0..<n]"
    using I(1) by (intro nth_equalityI) (simp_all add: received_at_def)
  ultimately show ?thesis by (simp add: exchange_typed_def)
qed

definition received_batch :: "(int \<Rightarrow> 32 word) \<Rightarrow> (int list per_type \<times> int list per_type option) list \<Rightarrow> string list \<Rightarrow> nat \<Rightarrow> coop_received" where
  "received_batch draw seeds types r =
     \<lparr>cr_nodes = map (\<lambda>i. (types ! i, received_at draw seeds r i)) [0..<length types],
      cr_counts_sent = map (\<lambda>i. (types ! i, parcel_sizes (parcels draw seeds i ! r))) [0..<length types],
      cr_counts_received = map (\<lambda>i. (types ! i, parcel_sizes (routed (parcels draw seeds i) ! r))) [0..<length types]\<rparr>"

lemma seeds_stage:
  assumes n: "length seeds = n" "0 < n"
  shows "exchange_2 (map (\<lambda>r. Hetero (map (\<lambda>i. (types ! i, sorted_at draw seeds r i)) [0..<length types])) [0..<n])
      (map (sent_counts draw seeds (length types)) [0..<n]) (map (received_counts draw seeds (length types)) [0..<n]) =
    Inr (map (received_batch draw seeds types) [0..<n])"
proof -
  let ?m = "length types"
  let ?nodes = "map (\<lambda>r. map (\<lambda>i. (types ! i, sorted_at draw seeds r i)) [0..<?m]) [0..<n]"
  have nodes: "rmap nodes_by_type (map (\<lambda>r. Hetero (map (\<lambda>i. (types ! i, sorted_at draw seeds r i)) [0..<?m])) [0..<n]) = Inr ?nodes"
    by (simp add: rmap_Inr_conv list_all2_conv_all_nth nodes_by_type_def)
  have m: "length (hd ?nodes) = ?m" "\<not> (\<exists>d \<in> set ?nodes. length d \<noteq> ?m)" using n(2) by (simp_all add: hd_map)
  have "rmap (exchange_typed n ?m ?nodes (map (sent_counts draw seeds ?m) [0..<n]) (map (received_counts draw seeds ?m) [0..<n])) [0..<?m] =
      Inr (map (\<lambda>i. map (\<lambda>r. received_at draw seeds r i) [0..<n]) [0..<?m])"
    by (rule rmap_total, rule typed_stage [OF _ n(1)]) simp_all
  then have "exchange_2 (map (\<lambda>r. Hetero (map (\<lambda>i. (types ! i, sorted_at draw seeds r i)) [0..<?m])) [0..<n])
      (map (sent_counts draw seeds ?m) [0..<n]) (map (received_counts draw seeds ?m) [0..<n]) =
    Inr (map (\<lambda>r. let ts = map fst (?nodes ! r) in
          \<lparr>cr_nodes = map (\<lambda>i. (ts ! i, map (\<lambda>i. map (\<lambda>r. received_at draw seeds r i) [0..<n]) [0..<?m] ! i ! r)) [0..<?m],
           cr_counts_sent = map (\<lambda>i. (ts ! i, typed_counts n ?m i (map (sent_counts draw seeds ?m) [0..<n] ! r))) [0..<?m],
           cr_counts_received = map (\<lambda>i. (ts ! i, typed_counts n ?m i (map (received_counts draw seeds ?m) [0..<n] ! r))) [0..<?m]\<rparr>) [0..<n])"
    using nodes m by (simp add: exchange_2_def Let_def)
  also have "\<dots> = Inr (map (received_batch draw seeds types) [0..<n])"
    using typed_sent [of _ ?m _ seeds draw] typed_received [of _ ?m _ seeds draw] n(1)
    by (simp add: received_batch_def Let_def)
  finally show ?thesis .
qed


section \<open>The plans\<close>

definition unique_of :: "int list \<Rightarrow> int list" where
  "unique_of xs = fst (compact_pair xs [])"

definition plan_of :: "(int \<Rightarrow> 32 word) \<Rightarrow> (int list per_type \<times> int list per_type option) list \<Rightarrow> string list \<Rightarrow> nat \<Rightarrow> coop_plan" where
  "plan_of draw seeds types r =
     (let tab = (\<lambda>f. revert_to_homo (map (\<lambda>i. (types ! i, f (received_at draw seeds r i))) [0..<length types])) in
      \<lparr>cp_nodes = tab unique_of,
       cp_sizes = revert_to_homo (map (\<lambda>i. (types ! i, int (length (unique_of (received_at draw seeds r i))))) [0..<length types]),
       cp_inverse = tab (\<lambda>xs. map (id_number xs 0) xs),
       cp_sent = revert_to_homo (map (\<lambda>i. (types ! i, parcel_sizes (parcels draw seeds i ! r))) [0..<length types]),
       cp_received = revert_to_homo (map (\<lambda>i. (types ! i, parcel_sizes (routed (parcels draw seeds i) ! r))) [0..<length types])\<rparr>)"

lemma unique_numbers:
  shows "numbers (unique_of xs) (map (id_number xs 0) xs) xs" and "distinct (unique_of xs)" and "set (unique_of xs) = set xs"
  using id_numbers(2) [of xs xs 0] compact_pair_numbers(2,3) [where src = xs and udst = "[]"]
  by (simp_all add: unique_of_def compact_pair_def Let_def)

lemma plan_stage:
  assumes "types \<noteq> []"
  shows "exchange_3_4 (received_batch draw seeds types r) = Inr (plan_of draw seeds types r)"
proof -
  let ?nodes = "map (\<lambda>i. (types ! i, [received_at draw seeds r i])) [0..<length types]"
  have nodes: "map (\<lambda>(t, s). (t, [s])) (cr_nodes (received_batch draw seeds types r)) = ?nodes"
    by (simp add: received_batch_def)
  have ne: "?nodes \<noteq> []" using assms by simp
  have "compact_types ?nodes 0 1 True =
    Inr (map (\<lambda>(k, ts). (k, fst (compact_pair (concat ts) []))) ?nodes,
         map (\<lambda>(k, ts). (k, map (map (id_number (concat ts) 0)) ts)) ?nodes,
         map (\<lambda>(k, ts). (k, [0, int (length (fst (compact_pair (concat ts) [])))])) ?nodes)"
    by (rule compact_types_eq) (use ne in auto)
  then show ?thesis
    unfolding exchange_3_4_def nodes
    by (simp add: unique_and_compact_def plan_of_def Let_def unique_of_def comp_def received_batch_def)
qed

section \<open>The whole exchange\<close>

lemma exchange_plans:
  assumes seeds: "coop_seeds n types seeds"
  shows "\<exists>compacted. cooperative_exchange draw seeds =
      Inr (map (\<lambda>r. \<lparr>cb_nodes = Hetero (map (\<lambda>i. (types ! i, sorted_at draw seeds r i)) [0..<length types]),
           cb_compacted = Some (compacted r), cb_counts_sent = sent_counts draw seeds (length types) r\<rparr>) [0..<n],
         map (plan_of draw seeds types) [0..<n]) \<and>
    (\<forall>r < n. \<forall>i < length types. numbers (sorted_at draw seeds r i) (snd (convert_to_hetero (compacted r) ! i)) (seeds_at seeds r i))"
proof -
  have n: "length seeds = n" "0 < n" "types \<noteq> []" using seeds by (simp_all add: coop_seeds_def)
  have ex: "\<forall>r. \<exists>compacted. r < n \<longrightarrow> exchange_1_sort draw r n (fst (seeds ! r)) (snd (seeds ! r)) =
      Inr \<lparr>cb_nodes = Hetero (map (\<lambda>i. (types ! i, sorted_at draw seeds r i)) [0..<length types]),
           cb_compacted = Some compacted, cb_counts_sent = sent_counts draw seeds (length types) r\<rparr> \<and>
    (\<forall>i < length types. numbers (sorted_at draw seeds r i) (snd (convert_to_hetero compacted ! i)) (seeds_at seeds r i))"
    using sort_stage [OF seeds] by blast
  from choice [OF ex] obtain C where C: "\<forall>r. r < n \<longrightarrow> exchange_1_sort draw r n (fst (seeds ! r)) (snd (seeds ! r)) =
      Inr \<lparr>cb_nodes = Hetero (map (\<lambda>i. (types ! i, sorted_at draw seeds r i)) [0..<length types]),
           cb_compacted = Some (C r), cb_counts_sent = sent_counts draw seeds (length types) r\<rparr> \<and>
    (\<forall>i < length types. numbers (sorted_at draw seeds r i) (snd (convert_to_hetero (C r) ! i)) (seeds_at seeds r i))"
    by blast
  let ?b = "map (\<lambda>r. \<lparr>cb_nodes = Hetero (map (\<lambda>i. (types ! i, sorted_at draw seeds r i)) [0..<length types]),
           cb_compacted = Some (C r), cb_counts_sent = sent_counts draw seeds (length types) r\<rparr>) [0..<n]"
  have sort: "rmap (\<lambda>(r, nodes, offsets). exchange_1_sort draw r n nodes offsets) (zip [0..<n] seeds) = Inr ?b"
    using C n(1) by (simp add: rmap_Inr_conv list_all2_conv_all_nth split_def)
  have "hd seeds \<in> set seeds" using n by (cases seeds) auto
  then have types: "length (convert_to_hetero (fst (hd seeds))) = length types"
    using seeds unfolding coop_seeds_def by (metis length_map)
  have parts: "map cb_counts_sent ?b = map (sent_counts draw seeds (length types)) [0..<n]"
    "map cb_nodes ?b = map (\<lambda>r. Hetero (map (\<lambda>i. (types ! i, sorted_at draw seeds r i)) [0..<length types])) [0..<n]" by simp_all
  have m: "0 < length types" using n(3) by simp
  have "rmap exchange_3_4 (map (received_batch draw seeds types) [0..<n]) = Inr (map (plan_of draw seeds types) [0..<n])"
    using plan_stage [OF n(3)] by (simp add: rmap_Inr_conv list_all2_conv_all_nth)
  then have "cooperative_exchange draw seeds = Inr (?b, map (plan_of draw seeds types) [0..<n])"
    unfolding cooperative_exchange_def Let_def n(1) sort rbind_simps types parts counts_stage [OF m n(1)] seeds_stage [OF n(1,2)] by simp
  then show ?thesis using C by blast
qed

section \<open>The rows that come back\<close>

definition rows_of_plan :: "(string \<Rightarrow> int \<Rightarrow> 'v) \<Rightarrow> coop_plan \<Rightarrow> 'v list per_type \<Rightarrow> bool" where
  "rows_of_plan f p x \<longleftrightarrow> convert_to_hetero x = map (\<lambda>(t, us). (t, map (f t) us)) (convert_to_hetero (cp_nodes p))"

lemma map_of_table: "distinct types \<Longrightarrow> i < length types \<Longrightarrow> map_of (map (\<lambda>i. (types ! i, g i)) [0..<length types]) (types ! i) = Some (g i)"
  by (intro map_of_is_SomeI) (auto simp: distinct_map inj_on_def nth_eq_iff_index_eq comp_def image_iff intro!: bexI [of _ i])

lemma take_rows_numbers:
  assumes "numbers us cs xs"
  shows "take_rows (map g us) cs = Inr (map g xs)"
proof -
  have num: "\<forall>j \<in> set cs. 0 \<le> j \<and> j < int (length us)" and xs: "xs = map (\<lambda>j. us ! nat j) cs"
    using assms by (simp_all add: numbers_def)
  have "take_rows (map g us) cs = Inr (map (\<lambda>j. map g us ! nat j) cs)"
    using num by (intro take_rows_valid) (auto simp: valid_index_def)
  also have "map (\<lambda>j. map g us ! nat j) cs = map g xs"
    unfolding xs map_map comp_def using num by (intro map_cong) (auto intro!: nth_map)
  finally show ?thesis .
qed

lemma forward_stage:
  assumes types: "distinct types" "i < length types" and n: "length seeds = n"
    and rows: "length tensors = n" "\<forall>r < n. rows_of_plan f (plan_of draw seeds types r) (tensors ! r)"
  shows "forward_typed (map (plan_of draw seeds types) [0..<n]) tensors (types ! i) =
    Inr (map (\<lambda>r. map (f (types ! i)) (sorted_at draw seeds r i)) [0..<n])"
proof -
  let ?t = "types ! i" and ?I = "parcels draw seeds i"
  let ?g = "map (f ?t)"
  have I: "length ?I = n" "\<forall>xs \<in> set ?I. length xs = length ?I" using parcels_lengths n by auto
  have R: "\<forall>xs \<in> set (routed ?I). length xs = length (routed ?I)" using routed_lengths by fastforce
  note tab = map_of_table [OF types]
  have each: "rbind (dict_get (convert_to_hetero (tensors ! r)) ?t) (\<lambda>rows.
      rbind (dict_get (convert_to_hetero (cp_inverse (plan_of draw seeds types r))) ?t) (\<lambda>inverse.
      rbind (dict_get (convert_to_hetero (cp_received (plan_of draw seeds types r))) ?t) (\<lambda>counts.
      rbind (take_rows rows inverse) (\<lambda>sent. split_sizes sent counts)))) = Inr (map ?g (routed ?I ! r))" if r: "r < n" for r
  proof -
    let ?xs = "received_at draw seeds r i"
    have "map_of (convert_to_hetero (tensors ! r)) ?t = Some (?g (unique_of ?xs))"
      using rows(2) r tab [of "\<lambda>i. map (f (types ! i)) (unique_of (received_at draw seeds r i))"]
      by (simp add: rows_of_plan_def plan_of_def Let_def convert_revert comp_def)
    moreover have "take_rows (?g (unique_of ?xs)) (map (id_number ?xs 0) ?xs) = Inr (?g ?xs)"
      by (rule take_rows_numbers [OF unique_numbers(1)])
    moreover have "split_sizes (?g ?xs) (parcel_sizes (routed ?I ! r)) = Inr (map ?g (routed ?I ! r))"
      using split_sizes_map [of "f ?t" "routed ?I ! r"] by (simp add: received_at_def parcel_sizes_def)
    ultimately show ?thesis
      by (simp add: dict_get_def plan_of_def Let_def convert_revert tab)
  qed
  have inputs: "rmap (\<lambda>(p, x).
         rbind (dict_get (convert_to_hetero x) ?t) (\<lambda>rows.
         rbind (dict_get (convert_to_hetero (cp_inverse p)) ?t) (\<lambda>inverse.
         rbind (dict_get (convert_to_hetero (cp_received p)) ?t) (\<lambda>counts.
         rbind (take_rows rows inverse) (\<lambda>sent. split_sizes sent counts)))))
      (zip (map (plan_of draw seeds types) [0..<n]) tensors) = Inr (map (map ?g) (routed ?I))"
    unfolding rmap_Inr_conv list_all2_conv_all_nth using each rows(1) I(1) by simp
  have sizes: "rmap (\<lambda>p. dict_get (convert_to_hetero (cp_sent p)) ?t) (map (plan_of draw seeds types) [0..<n]) = Inr (map (\<lambda>r. parcel_sizes (?I ! r)) [0..<n])"
    unfolding rmap_Inr_conv list_all2_conv_all_nth by (simp add: dict_get_def plan_of_def Let_def convert_revert tab)
  have returned: "routed (map (map ?g) (routed ?I)) = map (map ?g) ?I"
    using routed_map [OF R] routed_routed [OF I(2)] by simp
  have "all_to_all (map (map ?g) (routed ?I)) (map (\<lambda>r. parcel_sizes (?I ! r)) [0..<n]) = Inr (map (map ?g) ?I)"
  proof -
    have "map (\<lambda>r. parcel_sizes (?I ! r)) [0..<n] = map (map (\<lambda>x. int (length x))) (routed (map (map ?g) (routed ?I)))"
      unfolding returned using I(1) by (intro nth_equalityI) (simp_all add: parcel_sizes_def)
    moreover have "\<forall>xs \<in> set (map (map ?g) (routed ?I)). length xs = length (map (map ?g) (routed ?I))" using R by auto
    ultimately show ?thesis using all_to_all_routed [of "map (map ?g) (routed ?I)"] returned by metis
  qed
  moreover have "map concat (map (map ?g) ?I) = map (\<lambda>r. ?g (sorted_at draw seeds r i)) [0..<n]"
    using I(1) by (intro nth_equalityI) (simp_all add: sorted_at_def map_concat)
  ultimately show ?thesis unfolding forward_typed_def inputs sizes rbind_simps by simp
qed


text \<open>What a rank gets for the node type at a place: the rows of the sorted seeds, in which its compacted seeds
  look up its seeds.\<close>

definition got_rows :: "(string \<Rightarrow> int \<Rightarrow> 'v) \<Rightarrow> string \<Rightarrow> nat \<Rightarrow> int list \<Rightarrow> coop_batch \<Rightarrow> 'v list res \<Rightarrow> bool" where
  "got_rows f t k nodes b out \<longleftrightarrow> (\<exists>s compacted. convert_to_hetero (cb_nodes b) ! k = (t, s) \<and> out = revert_tensor (map (f t) s) \<and>
     cb_compacted b = Some compacted \<and> numbers s (snd (convert_to_hetero compacted ! k)) nodes)"



definition example_draw :: "int \<Rightarrow> 32 word" where
  "example_draw x = word_of_int x"

lemma example_coop_seeds: "coop_seeds 2 [''_N''] [(Homo [3, 4], None), (Homo [4], None)]"
  by (simp add: coop_seeds_def convert_to_hetero_def)


section \<open>Owners\<close>

lemma received_members:
  assumes r: "r < length seeds"
  shows "x \<in> set (received_at draw seeds r i) \<longleftrightarrow>
    (\<exists>k < length seeds. x \<in> set (seeds_at seeds (partner (length seeds) r k) i) \<and>
       rank_assignment draw (partner (length seeds) r k) (length seeds) x = home_slot (length seeds) r k)"
proof -
  let ?n = "length seeds"
  have nth: "routed (parcels draw seeds i) ! r ! k = bucket draw (partner ?n r k) ?n (seeds_at seeds (partner ?n r k) i) (home_slot ?n r k)" if "k < ?n" for k
    using r that partner_less [of r ?n k] home_slot_less [of r ?n k] by (simp add: routed_nth parcels_lengths(1) parcels_nth)
  have "length (routed (parcels draw seeds i) ! r) = ?n"
    using routed_lengths [of "routed (parcels draw seeds i) ! r" "parcels draw seeds i"] r parcels_lengths(1) by simp
  then have "x \<in> set (received_at draw seeds r i) \<longleftrightarrow> (\<exists>k < ?n. x \<in> set (routed (parcels draw seeds i) ! r ! k))"
    unfolding received_at_def by (auto simp: in_set_conv_nth Bex_def)
  then show ?thesis using nth by (auto simp: bucket_def)
qed

lemma received_owned:
  assumes r: "r < n" and n: "length seeds = n" "n < 2 ^ 32"
    and draw: "\<forall>q < n. \<forall>x \<in> set (seeds_at seeds q i). of_nat q \<le> draw x"
  shows "set (received_at draw seeds r i) = {x. (\<exists>q < n. x \<in> set (seeds_at seeds q i)) \<and> unat (draw x) mod n = r}"
proof (intro set_eqI)
  fix x
  show "x \<in> set (received_at draw seeds r i) \<longleftrightarrow> x \<in> {x. (\<exists>q < n. x \<in> set (seeds_at seeds q i)) \<and> unat (draw x) mod n = r}"
  proof
    assume "x \<in> set (received_at draw seeds r i)"
    then obtain k where k: "k < n" "x \<in> set (seeds_at seeds (partner n r k) i)" "rank_assignment draw (partner n r k) n x = home_slot n r k"
      using received_members [of r seeds x draw i] r n(1) by auto
    have q: "partner n r k < n" using r by (rule partner_less)
    have "(home_slot n r k + partner n r k) mod n = unat (draw x) mod n"
      using rank_assignment_owner [OF q n(2)] draw q k(2,3) by metis
    moreover have "(home_slot n r k + partner n r k) mod n = r"
      using partner_home_slot [OF r k(1)] by (simp add: partner_def)
    ultimately show "x \<in> {x. (\<exists>q < n. x \<in> set (seeds_at seeds q i)) \<and> unat (draw x) mod n = r}" using q k(2) by auto
  next
    assume "x \<in> {x. (\<exists>q < n. x \<in> set (seeds_at seeds q i)) \<and> unat (draw x) mod n = r}"
    then obtain q where q: "q < n" "x \<in> set (seeds_at seeds q i)" "unat (draw x) mod n = r" by blast
    let ?p = "rank_assignment draw q n x"
    have p: "?p < n" by (rule rank_assignment_less) (use q(1) n(2) in simp_all)
    have "partner n q ?p = r" using rank_assignment_owner [OF q(1) n(2)] draw q by (simp add: partner_def)
    then have "partner n r (home_slot n q ?p) = q" "home_slot n r (home_slot n q ?p) = ?p" "home_slot n q ?p < n"
      using partner_home_slot [OF q(1) p] home_slot_home_slot [OF q(1) p] home_slot_less [OF q(1)] by simp_all
    then show "x \<in> set (received_at draw seeds r i)"
      using received_members [of r seeds x draw i] r n(1) q(2) by metis
  qed
qed



section \<open>Edges\<close>

definition tensor_nodes :: "seeds_tensor \<Rightarrow> int list" where
  "tensor_nodes s = (case s of Seed_nodes xs \<Rightarrow> xs | Seed_rows c rows \<Rightarrow> concat rows)"

lemma preprocess_edges:
  assumes "\<forall>r \<in> set rows. length r = c"
  shows "\<exists>us k out. preprocess (Some (Homo (Seed_rows c rows))) None True rank n False =
    Inr (finish_seeds (Homo us) None (Homo out) (Some (Homo [0, k])))"
proof -
  let ?xs = "concat rows"
  have "unique_and_compact (Homo [?xs]) 0 1 False =
      Inr (Homo (unique_of ?xs), Homo [map (id_number ?xs 0) ?xs], Homo [0, int (length (unique_of ?xs))])"
    using compact_types_eq [of 1 "[(''a'', [?xs])]" False 0] by (simp add: unique_and_compact_def unique_of_def dict_get_def)
  moreover obtain rows' where "view_as_rows (length rows) c (map (id_number ?xs 0) ?xs) = Inr rows'"
    using view_as_rows_concat [OF assms, of "map (id_number ?xs 0) ?xs"] by auto
  ultimately have "preprocess (Some (Homo (Seed_rows c rows))) None True rank n False =
      Inr (finish_seeds (Homo (unique_of ?xs)) None (Homo (Seed_rows c rows')) (Some (Homo [0, int (length (unique_of ?xs))])))"
    by (simp add: preprocess_def seeds_preprocess_def preprocess_homo_def)
  then show ?thesis by blast
qed

text \<open>Cooperating processes cannot sample for the edges of a homogeneous graph: the preprocessing succeeds, as
  if there were one process, but the exchange of the seeds raises \<open>AttributeError\<close>.\<close>

theorem cooperative_edges_fail:
  assumes "batches \<noteq> []" and "\<forall>(c, rows) \<in> set batches. \<forall>r \<in> set rows. length r = c"
  shows "\<exists>pre. list_all2 (\<lambda>(r, c, rows) p. preprocess (Some (Homo (Seed_rows c rows))) None True r (int (length batches)) False = Inr p)
      (zip (map int [0..<length batches]) batches) pre \<and>
    cooperative_exchange draw (map (\<lambda>p. (map_per_type tensor_nodes (pr_nodes p), pr_offsets p)) pre) = Inl AttributeError"
proof -
  let ?n = "length batches"
  have "\<forall>r. \<exists>x. r < ?n \<longrightarrow> (case x of (us, k, out) \<Rightarrow> preprocess (Some (Homo (Seed_rows (fst (batches ! r)) (snd (batches ! r))))) None True (int r) (int ?n) False =
      Inr (finish_seeds (Homo us) None (Homo out) (Some (Homo [0, k]))))"
  proof
    fix r
    show "\<exists>x. r < ?n \<longrightarrow> (case x of (us, k, out) \<Rightarrow> preprocess (Some (Homo (Seed_rows (fst (batches ! r)) (snd (batches ! r))))) None True (int r) (int ?n) False =
      Inr (finish_seeds (Homo us) None (Homo out) (Some (Homo [0, k]))))"
      using preprocess_edges [of "snd (batches ! r)" "fst (batches ! r)" "int r" "int ?n"] assms(2)
      by (cases "r < ?n") (fastforce simp: split_def dest: nth_mem)+
  qed
  from choice [OF this] obtain X where X: "\<forall>r. r < ?n \<longrightarrow> (case X r of (us, k, out) \<Rightarrow>
      preprocess (Some (Homo (Seed_rows (fst (batches ! r)) (snd (batches ! r))))) None True (int r) (int ?n) False =
      Inr (finish_seeds (Homo us) None (Homo out) (Some (Homo [0, k]))))" by blast
  let ?pre = "map (\<lambda>r. finish_seeds (Homo (fst (X r))) None (Homo (snd (snd (X r)))) (Some (Homo [0, fst (snd (X r))]))) [0..<?n]"
  have pre: "list_all2 (\<lambda>(r, c, rows) p. preprocess (Some (Homo (Seed_rows c rows))) None True r (int ?n) False = Inr p) (zip (map int [0..<?n]) batches) ?pre"
    using X by (simp add: list_all2_conv_all_nth split_def)
  let ?seeds = "map (\<lambda>p. (map_per_type tensor_nodes (pr_nodes p), pr_offsets p)) ?pre"
  have seeds: "?seeds = map (\<lambda>r. (Homo (fst (X r)), Some (Homo [0, fst (snd (X r))]))) [0..<?n]"
    by (simp add: finish_seeds_def tensor_nodes_def)
  let ?k = "\<lambda>r. fst (snd (X r))"
  let ?b = "map (\<lambda>r. \<lparr>cb_nodes = Homo (fst (X r)), cb_compacted = None, cb_counts_sent = replicate ?n (?k r)\<rparr>) [0..<?n]"
  have sort: "rmap (\<lambda>(r, nodes, offsets). exchange_1_sort draw r ?n nodes offsets) (zip [0..<?n] ?seeds) = Inr ?b"
    unfolding seeds rmap_Inr_conv list_all2_conv_all_nth
    by (simp add: exchange_1_sort_def diff_def Let_def) (metis replicate_0 replicate_Suc)
  have ne: "0 < ?n" using assms(1) by simp
  have "convert_to_hetero (fst (hd ?seeds)) = [(''_N'', fst (X 0))]"
    unfolding seeds using ne by (simp add: hd_map convert_to_hetero_def)
  then have types: "length (convert_to_hetero (fst (hd ?seeds))) = 1" by simp
  let ?inputs = "map (\<lambda>r. replicate ?n [?k r]) [0..<?n]"
  have split: "rmap (\<lambda>cs. split_sizes cs (replicate (length cs div 1) (int 1))) (map cb_counts_sent ?b) = Inr ?inputs"
  proof -
    have "split_sizes (replicate ?n y) (replicate (length (replicate ?n y) div 1) (int 1)) = Inr (replicate ?n [y])" for y :: int
      using split_sizes_concat [of "replicate ?n [y]"] by simp
    then show ?thesis unfolding rmap_Inr_conv list_all2_conv_all_nth by simp
  qed
  have lens: "\<forall>xs \<in> set ?inputs. length xs = length ?inputs \<and> (\<forall>x \<in> set xs. length x = 1)" by auto
  have "all_to_all ?inputs (map (map (\<lambda>x. int (length x))) ?inputs) = Inr (routed ?inputs)"
    using lens routed_uniform [OF lens] by (intro all_to_all_routed) simp_all
  then have counts: "exchange_1_counts 1 (map cb_counts_sent ?b) = Inr (map concat (routed ?inputs))"
    unfolding exchange_1_counts_def split by simp
  have "exchange_2 (map cb_nodes ?b) (map cb_counts_sent ?b) received = Inl AttributeError" for received
  proof -
    have "map cb_nodes ?b = Homo (fst (X 0)) # map (\<lambda>r. Homo (fst (X r))) [1..<?n]"
      using ne by (simp add: upt_conv_Cons)
    then show ?thesis by (simp add: exchange_2_def nodes_by_type_def)
  qed
  then have "cooperative_exchange draw ?seeds = Inl AttributeError"
    unfolding cooperative_exchange_def Let_def length_map length_upt diff_zero sort rbind_simps types counts by simp
  then show ?thesis using pre by blast
qed

theorem cooperative_edges_fail_witness:
  "\<exists>pre. list_all2 (\<lambda>(r, c, rows) p. preprocess (Some (Homo (Seed_rows c rows))) None True r 1 False = Inr p) [(0, 2, [[5, 7], [6, 8]])] pre \<and>
    cooperative_exchange example_draw (map (\<lambda>p. (map_per_type tensor_nodes (pr_nodes p), pr_offsets p)) pre) = Inl AttributeError"
  using cooperative_edges_fail [of "[(2, [[5, 7], [6, 8]])]" example_draw] by simp

end
