(* ===== verification/ItemSampler.thy ===== *)
theory ItemSampler
  imports ItemSet ItemSplit
begin

text \<open>
  \<open>ItemSampler\<close> and \<open>DistributedItemSampler\<close> of \<^verbatim>\<open>python/dgl/graphbolt/item_sampler.py\<close>: the generator that cuts the
  range of a worker into batches, and the alignment of the seeds of the replicas of a distributed run. The
  generator is a state that every call of \<open>next\<close> moves; the random permutation and the two random
  seeds a constructor draws are parameters, and so is the function that makes a batch of the items.
\<close>

section \<open>The sampler\<close>

datatype 'a any_item_set =
    Homo_items "'a item_set"
  | Hetero_items "'a hetero_item_set"

datatype 'a item_batch =
    Homo_batch "'a item_value"
  | Hetero_batch "(string \<times> 'a item_value) list"

definition any_len :: "'a any_item_set \<Rightarrow> int res" where
  "any_len S =
     (case S of
        Homo_items s \<Rightarrow> item_set_len s
      | Hetero_items h \<Rightarrow> if hi_length h < 0 then Inl ValueError else Inr (hi_length h))"

definition any_names :: "'a any_item_set \<Rightarrow> string list option" where
  "any_names S = (case S of Homo_items s \<Rightarrow> is_names s | Hetero_items h \<Rightarrow> hi_names h)"

definition any_getitem :: "item_lib \<Rightarrow> 'a any_item_set \<Rightarrow> int list \<Rightarrow> 'a item_batch res" where
  "any_getitem L S ids =
     (case S of
        Homo_items s \<Rightarrow> rbind (item_set_getitem s (Idx_ids ids)) (\<lambda>v. Inr (Homo_batch v))
      | Hetero_items h \<Rightarrow> rbind (hetero_getitem L h (Idx_ids ids)) (\<lambda>d. Inr (Hetero_batch d)))"

record ('a, 'b) item_sampler =
  sm_item_set :: "'a any_item_set"
  sm_names :: "string list option"
  sm_batch_size :: int
  sm_minibatcher :: "'a item_batch \<Rightarrow> string list option \<Rightarrow> 'b res"
  sm_drop_last :: bool
  sm_shuffle :: bool
  sm_distributed :: bool
  sm_drop_uneven_inputs :: bool
  sm_world_size :: "int option"
  sm_rank :: "int option"
  sm_seed :: int
  sm_epoch :: int

definition item_sampler_init :: "'a any_item_set \<Rightarrow> int \<Rightarrow> ('a item_batch \<Rightarrow> string list option \<Rightarrow> 'b res) \<Rightarrow>
    bool \<Rightarrow> bool \<Rightarrow> int option \<Rightarrow> int \<Rightarrow> ('a, 'b) item_sampler" where
  "item_sampler_init S batch_size minibatcher drop_last shuffle seed drawn =
     \<lparr>sm_item_set = S, sm_names = any_names S, sm_batch_size = batch_size, sm_minibatcher = minibatcher,
      sm_drop_last = drop_last, sm_shuffle = shuffle, sm_distributed = False, sm_drop_uneven_inputs = False,
      sm_world_size = None, sm_rank = None,
      sm_seed = (case seed of None \<Rightarrow> drawn | Some x \<Rightarrow> x), sm_epoch = 0\<rparr>"

section \<open>Aligning the seeds\<close>

text \<open>A collective call returns, raises, or waits for a rank that never takes part.\<close>

datatype 'x collective = Returns 'x | Raises py_error | Waits

text \<open>A tensor of 32 bits takes no other number.\<close>

definition int32_tensor :: "int \<Rightarrow> int res" where
  "int32_tensor x = (if - (2 ^ 31) \<le> x \<and> x < 2 ^ 31 then Inr x else Inl RuntimeError)"

text \<open>Every rank prepares its tensor from its own seed, or from a random number, and then takes part in the
  broadcast: all of them get what rank \<open>src\<close> sends, and wait for ever when it fails before.\<close>

definition align_seeds :: "nat \<Rightarrow> (int option \<times> int) list \<Rightarrow> nat \<Rightarrow> int collective" where
  "align_seeds src seeds rank =
     (let sent = (case seeds ! src of (seed, drawn) \<Rightarrow> int32_tensor (case seed of None \<Rightarrow> drawn | Some x \<Rightarrow> x)) in
      case sent of
        Inl e \<Rightarrow> if rank = src then Raises e else Waits
      | Inr x \<Rightarrow> Returns x)"

definition distributed_item_sampler_init :: "bool \<Rightarrow> 'a any_item_set \<Rightarrow> int \<Rightarrow>
    ('a item_batch \<Rightarrow> string list option \<Rightarrow> 'b res) \<Rightarrow> bool \<Rightarrow> bool \<Rightarrow> bool \<Rightarrow>
    (int option \<times> int) list \<Rightarrow> (nat \<Rightarrow> int) \<Rightarrow> nat \<Rightarrow> ('a, 'b) item_sampler collective" where
  "distributed_item_sampler_init available S batch_size minibatcher drop_last shuffle drop_uneven_inputs seeds first_drawn rank =
     (let world_size = length seeds;
          s = item_sampler_init S batch_size minibatcher drop_last shuffle (fst (seeds ! rank)) (first_drawn rank);
          s = s\<lparr>sm_distributed := True, sm_drop_uneven_inputs := drop_uneven_inputs\<rparr> in
      if \<not> available then Raises RuntimeError
      else let s = s\<lparr>sm_world_size := Some (int world_size), sm_rank := Some (int rank)\<rparr> in
        if world_size > 1 then
          (case align_seeds 0 seeds rank of
             Returns seed \<Rightarrow> Returns (s\<lparr>sm_seed := seed\<rparr>)
           | Raises e \<Rightarrow> Raises e
           | Waits \<Rightarrow> Waits)
        else Returns s)"

section \<open>Iteration\<close>

text \<open>\<open>torch.Generator().manual_seed\<close>.\<close>

definition manual_seed :: "int \<Rightarrow> int res" where
  "manual_seed x = (if - (2 ^ 63) \<le> x \<and> x < 2 ^ 64 then Inr x else Inl RuntimeError)"

definition sampler_range :: "('a, 'b) item_sampler \<Rightarrow> int \<Rightarrow> int \<Rightarrow> int \<Rightarrow> (int \<times> int \<times> int) res" where
  "sampler_range s tot num_workers worker_id =
     (case (sm_world_size s, sm_rank s) of
        (Some n, Some r) \<Rightarrow>
          calculate_range (sm_distributed s) tot n r num_workers worker_id (sm_batch_size s) (sm_drop_last s) (sm_drop_uneven_inputs s)
      | _ \<Rightarrow>
          if sm_distributed s then Inl TypeError
          else calculate_range False tot 0 0 num_workers worker_id (sm_batch_size s) (sm_drop_last s) (sm_drop_uneven_inputs s))"

text \<open>What a call of \<open>next\<close> does, and where the generator is: not started, suspended at its \<open>yield\<close> with the
  positions, the rest of the range and \<open>output_count\<close>, or finished.\<close>

datatype 'b outcome = Yields 'b | Stops | Fails py_error

datatype gen = Fresh | Suspended "int list" "int list" int | Finished

text \<open>The part before the loop. A data loading worker is the number of workers and its own number.\<close>

definition sampler_start :: "(int \<Rightarrow> int \<Rightarrow> int list) \<Rightarrow> (int \<times> int) option \<Rightarrow> ('a, 'b) item_sampler \<Rightarrow>
    (int list \<times> int list \<times> int) res" where
  "sampler_start randperm worker s =
     (let (num_workers, worker_id) = (case worker of Some w \<Rightarrow> w | None \<Rightarrow> (1, 0)) in
      rbind (any_len (sm_item_set s)) (\<lambda>tot.
      rbind (sampler_range s tot num_workers worker_id) (\<lambda>(start_offset, assigned_count, output_count).
      rbind (if sm_shuffle s
             then rbind (manual_seed (sm_seed s + sm_epoch s)) (\<lambda>g.
                  Inr (py_slice (randperm g tot) start_offset (start_offset + assigned_count)))
             else torch_arange start_offset (start_offset + assigned_count) 1) (\<lambda>indices.
      rbind (py_range 0 assigned_count (sm_batch_size s)) (\<lambda>steps.
      Inr (indices, steps, output_count))))))"

text \<open>The head of the loop up to the next \<open>yield\<close>. A \<open>StopIteration\<close> that leaves the body of a generator becomes a
  \<open>RuntimeError\<close>.\<close>

definition body_error :: "py_error \<Rightarrow> py_error" where
  "body_error e = (if e = StopIteration then RuntimeError else e)"

definition sampler_batch :: "item_lib \<Rightarrow> ('a, 'b) item_sampler \<Rightarrow> int list \<Rightarrow> int \<Rightarrow> int \<Rightarrow> 'b res" where
  "sampler_batch L s indices i output_count =
     rbind (any_getitem L (sm_item_set s) (py_slice indices i (i + min (sm_batch_size s) output_count))) (\<lambda>items.
     sm_minibatcher s items (sm_names s))"

fun sampler_loop :: "item_lib \<Rightarrow> ('a, 'b) item_sampler \<Rightarrow> int list \<Rightarrow> int list \<Rightarrow> int \<Rightarrow>
    'b outcome \<times> gen \<times> ('a, 'b) item_sampler" where
  "sampler_loop L s indices [] output_count = (Stops, Finished, s\<lparr>sm_epoch := sm_epoch s + 1\<rparr>)"
| "sampler_loop L s indices (i # steps) output_count =
     (if output_count \<le> 0 then (Stops, Finished, s\<lparr>sm_epoch := sm_epoch s + 1\<rparr>)
      else case sampler_batch L s indices i output_count of
          Inl e \<Rightarrow> (Fails (body_error e), Finished, s)
        | Inr b \<Rightarrow> (Yields b, Suspended indices steps output_count, s))"

definition sampler_next :: "item_lib \<Rightarrow> (int \<Rightarrow> int \<Rightarrow> int list) \<Rightarrow> (int \<times> int) option \<Rightarrow> gen \<Rightarrow> ('a, 'b) item_sampler \<Rightarrow>
    'b outcome \<times> gen \<times> ('a, 'b) item_sampler" where
  "sampler_next L randperm worker g s =
     (case g of
        Fresh \<Rightarrow>
          (case sampler_start randperm worker s of
             Inl e \<Rightarrow> (Fails (body_error e), Finished, s)
           | Inr (indices, steps, output_count) \<Rightarrow> sampler_loop L s indices steps output_count)
      | Suspended indices steps output_count \<Rightarrow> sampler_loop L s indices steps (output_count - sm_batch_size s)
      | Finished \<Rightarrow> (Stops, Finished, s))"

text \<open>A consumer that asks until the generator stops or fails, at most as often as the fuel says: the batches it
  saw, the exception if there was one, and the sampler afterwards.\<close>

fun consume :: "item_lib \<Rightarrow> (int \<Rightarrow> int \<Rightarrow> int list) \<Rightarrow> (int \<times> int) option \<Rightarrow> nat \<Rightarrow> gen \<Rightarrow> ('a, 'b) item_sampler \<Rightarrow>
    ('b list \<times> py_error option \<times> ('a, 'b) item_sampler) option" where
  "consume L randperm worker 0 g s = None"
| "consume L randperm worker (Suc fuel) g s =
     (case sampler_next L randperm worker g s of
        (Yields b, g, s) \<Rightarrow> map_option (\<lambda>(bs, rest). (b # bs, rest)) (consume L randperm worker fuel g s)
      | (Stops, g, s) \<Rightarrow> Some ([], None, s)
      | (Fails e, g, s) \<Rightarrow> Some ([], Some e, s))"

end
