(* ===== verification/ItemSamplerProps.thy ===== *)
theory ItemSamplerProps
  imports ItemSampler
begin

text \<open>
  What the item samplers yield. The generator is reduced to cutting one list of positions into chunks
  (\<open>consume_fresh\<close>, errors included), the lists of positions of all workers and replicas are put together with the
  facts about \<open>calculate_range\<close>, and the locale \<open>batch_source\<close> states what the samplers rely on when they ask an
  item set of either class for a batch.
\<close>

section \<open>What an item set gives for a batch\<close>

locale batch_source =
  fixes ok :: "'s \<Rightarrow> bool"
    and len :: "'s \<Rightarrow> int"
    and getitem :: "'s \<Rightarrow> int list \<Rightarrow> 'v res"
    and item :: "'s \<Rightarrow> int \<Rightarrow> 'i"
    and contents :: "'v \<Rightarrow> 'i list"
  assumes len_nonneg: "ok s \<Longrightarrow> 0 \<le> len s"
    and fetch: "ok s \<Longrightarrow> \<forall>j \<in> set ids. 0 \<le> j \<and> j < len s \<Longrightarrow>
      \<exists>v. getitem s ids = Inr v \<and> mset (contents v) = mset (map (item s) ids)"
begin

lemma fetch_all:
  assumes "ok s" and "\<forall>c \<in> set cs. \<forall>j \<in> set c. 0 \<le> j \<and> j < len s"
  shows "\<exists>vs. rmap (getitem s) cs = Inr vs \<and> list_all2 (\<lambda>v c. mset (contents v) = mset (map (item s) c)) vs cs"
  using assms(2)
proof (induction cs)
  case (Cons c cs)
  obtain v where "getitem s c = Inr v" "mset (contents v) = mset (map (item s) c)"
    using fetch [OF assms(1), of c] Cons.prems by auto
  then show ?case using Cons by auto
qed simp

lemma contents_sum:
  "list_all2 (\<lambda>v c. mset (contents v) = mset (map (item s) c)) vs cs \<Longrightarrow>
    mset (concat (map contents vs)) = mset (map (item s) (concat cs))"
  by (induction rule: list_all2_induct) simp_all

end

interpretation homo_source: batch_source item_set_ok is_length "\<lambda>s ids. item_set_getitem s (Idx_ids ids)" item_at unbatch
proof
  show "item_set_ok s \<Longrightarrow> 0 \<le> is_length s" for s :: "'a item_set" by (simp add: item_set_ok_def)
  show "item_set_ok s \<Longrightarrow> \<forall>j \<in> set ids. 0 \<le> j \<and> j < is_length s \<Longrightarrow>
      \<exists>v. item_set_getitem s (Idx_ids ids) = Inr v \<and> mset (unbatch v) = mset (map (item_at s) ids)"
    for s :: "'a item_set" and ids using getitem_ids [of s ids] unbatch_items [of s ids] by auto
qed

definition hetero_source_ok :: "item_lib \<times> 'a hetero_item_set \<Rightarrow> bool" where
  "hetero_source_ok = (\<lambda>(L, h). hetero_ok L (hi_itemsets h) h)"

lemma hetero_lengths:
  "hetero_ok L sets h \<Longrightarrow> hi_length h = int (length (flat_items (hi_itemsets h))) \<and> hi_itemsets h = sets"
  using hetero_fields [of L sets h] length_flat [of sets] by (simp add: hetero_ok_def)

interpretation hetero_source: batch_source hetero_source_ok "\<lambda>(L, h). hi_length h" "\<lambda>(L, h) ids. hetero_getitem L h (Idx_ids ids)"
  "\<lambda>(L, h) j. flat_items (hi_itemsets h) ! nat j" flat_batches
proof
  fix s :: "item_lib \<times> 'a hetero_item_set" and ids :: "int list"
  obtain L h where s: "s = (L, h)" by (cases s)
  assume "hetero_source_ok s"
  then have ok: "hetero_ok L (hi_itemsets h) h" by (simp add: s hetero_source_ok_def)
  note n = hetero_lengths [OF ok]
  show "0 \<le> (case s of (L, h) \<Rightarrow> hi_length h)" using n by (simp add: s)
  assume "\<forall>j \<in> set ids. 0 \<le> j \<and> j < (case s of (L, h) \<Rightarrow> hi_length h)"
  then have "\<forall>j \<in> set ids. 0 \<le> j \<and> j < int (length (flat_items (hi_itemsets h)))" using n by (simp add: s)
  then obtain d where d: "hetero_getitem L h (Idx_ids ids) = Inr d"
      "\<And>key. filter (\<lambda>x. fst x = key) (flat_batches d) =
        filter (\<lambda>x. fst x = key) (map (\<lambda>i. flat_items (hi_itemsets h) ! nat i) ids)"
    using hetero_getitem_ids [OF ok, of ids] by auto
  have "mset (flat_batches d) = mset (map (\<lambda>i. flat_items (hi_itemsets h) ! nat i) ids)"
    by (rule mset_by_key) (rule d(2))
  then show "\<exists>v. (case s of (L, h) \<Rightarrow> \<lambda>ids. hetero_getitem L h (Idx_ids ids)) ids = Inr v \<and>
      mset (flat_batches v) = mset (map ((case s of (L, h) \<Rightarrow> \<lambda>j. flat_items (hi_itemsets h) ! nat j)) ids)"
    using d(1) by (simp add: s)
qed

text \<open>An item of either kind: its type when it has one, and its value.\<close>

definition any_item :: "item_lib \<times> 'a any_item_set \<Rightarrow> int \<Rightarrow> string option \<times> 'a item_value" where
  "any_item = (\<lambda>(L, S) j. case S of
       Homo_items s \<Rightarrow> (None, item_at s j)
     | Hetero_items h \<Rightarrow> map_prod Some id (flat_items (hi_itemsets h) ! nat j))"

definition sampled_items :: "'a item_batch \<Rightarrow> (string option \<times> 'a item_value) list" where
  "sampled_items b =
     (case b of
        Homo_batch v \<Rightarrow> map (Pair None) (unbatch v)
      | Hetero_batch d \<Rightarrow> map (map_prod Some id) (flat_batches d))"

definition any_ok :: "item_lib \<times> 'a any_item_set \<Rightarrow> bool" where
  "any_ok = (\<lambda>(L, S). case S of Homo_items s \<Rightarrow> item_set_ok s | Hetero_items h \<Rightarrow> hetero_source_ok (L, h))"

definition any_size :: "item_lib \<times> 'a any_item_set \<Rightarrow> int" where
  "any_size = (\<lambda>(L, S). case S of Homo_items s \<Rightarrow> is_length s | Hetero_items h \<Rightarrow> hi_length h)"

interpretation any_source: batch_source any_ok any_size "\<lambda>(L, S). any_getitem L S" any_item sampled_items
proof
  fix s :: "item_lib \<times> 'a any_item_set" and ids :: "int list"
  obtain L S where s: "s = (L, S)" by (cases s)
  assume ok: "any_ok s"
  show "0 \<le> any_size s"
    using ok homo_source.len_nonneg hetero_source.len_nonneg [of "(L, _)"]
    by (cases S) (auto simp: s any_ok_def any_size_def)
  assume ids: "\<forall>j \<in> set ids. 0 \<le> j \<and> j < any_size s"
  show "\<exists>v. (case s of (L, S) \<Rightarrow> any_getitem L S) ids = Inr v \<and> mset (sampled_items v) = mset (map (any_item s) ids)"
  proof (cases S)
    case (Homo_items t)
    then obtain v where v: "item_set_getitem t (Idx_ids ids) = Inr v" "mset (unbatch v) = mset (map (item_at t) ids)"
      using homo_source.fetch [of t ids] ok ids by (auto simp: s any_ok_def any_size_def)
    from v(2) have "mset (map (Pair None) (unbatch v)) = mset (map (Pair None) (map (item_at t) ids))" by (simp only: mset_map)
    then show ?thesis using v(1) Homo_items by (simp add: s any_getitem_def any_item_def sampled_items_def comp_def)
  next
    case (Hetero_items h)
    then obtain d where d: "hetero_getitem L h (Idx_ids ids) = Inr d"
        "mset (flat_batches d) = mset (map (\<lambda>j. flat_items (hi_itemsets h) ! nat j) ids)"
      using hetero_source.fetch [of "(L, h)" ids] ok ids by (auto simp: s any_ok_def any_size_def)
    from d(2) have "mset (map (map_prod Some id) (flat_batches d)) =
        mset (map (map_prod Some id) (map (\<lambda>j. flat_items (hi_itemsets h) ! nat j) ids))" by (simp only: mset_map)
    then show ?thesis using d(1) Hetero_items by (simp add: s any_getitem_def any_item_def sampled_items_def comp_def)
  qed
qed

lemma any_len_ok: "any_ok (L, S) \<Longrightarrow> any_len S = Inr (any_size (L, S))"
  using any_source.len_nonneg [of "(L, S)"]
  by (auto simp: any_len_def any_size_def item_set_len_def split: any_item_set.splits)

section \<open>The generator cuts its positions into chunks\<close>

fun index_chunks :: "nat \<Rightarrow> 'a list \<Rightarrow> 'a list list" where
  "index_chunks n xs = (if n = 0 \<or> xs = [] then [] else take n xs # index_chunks n (drop n xs))"

declare index_chunks.simps [simp del]

lemma index_chunks_Nil [simp]: "index_chunks n [] = []"
  by (simp add: index_chunks.simps)

lemma index_chunks_step: "0 < n \<Longrightarrow> xs \<noteq> [] \<Longrightarrow> index_chunks n xs = take n xs # index_chunks n (drop n xs)"
  by (subst index_chunks.simps) simp

lemma concat_chunks [simp]: "0 < n \<Longrightarrow> concat (index_chunks n xs) = xs"
  by (induction n xs rule: index_chunks.induct) (subst index_chunks.simps, auto)

lemma index_chunks_length:
  "0 < n \<Longrightarrow> k < length (index_chunks n xs) \<Longrightarrow> length (index_chunks n xs ! k) = (if (k + 1) * n \<le> length xs then n else length xs - k * n)"
proof (induction n xs arbitrary: k rule: index_chunks.induct)
  case (1 n xs)
  have ne: "xs \<noteq> []" using "1.prems" by auto
  show ?case
  proof (cases k)
    case 0
    then show ?thesis using ne "1.prems"(1) by (simp add: index_chunks_step)
  next
    case (Suc k')
    then have "k' < length (index_chunks n (drop n xs))" using "1.prems" ne by (simp add: index_chunks_step)
    then have "length (index_chunks n (drop n xs) ! k') = (if (k' + 1) * n \<le> length xs - n then n else length xs - n - k' * n)"
      using "1.IH" [of k'] "1.prems"(1) ne by simp
    moreover have "0 < length xs - n"
      using \<open>k' < length (index_chunks n (drop n xs))\<close> by (cases "drop n xs = []") auto
    ultimately show ?thesis using ne "1.prems"(1) Suc by (auto simp: index_chunks_step)
  qed
qed

lemma length_chunks: "0 < n \<Longrightarrow> int (length (index_chunks n xs)) = num_batches (int n) (int (length xs))"
proof (induction n xs rule: index_chunks.induct)
  case (1 n xs)
  show ?case
  proof (cases "xs = []")
    case True
    then show ?thesis using "1.prems" by (simp add: num_batches_def)
  next
    case False
    then have "int (length (index_chunks n xs)) = 1 + num_batches (int n) (int (length (drop n xs)))"
      using 1 by (simp add: index_chunks_step)
    moreover have "num_batches (int n) (int (length xs)) = 1 + num_batches (int n) (int (length (drop n xs)))"
    proof (cases "n \<le> length xs")
      case True
      then show ?thesis using num_batches_add_mult [of "int n" 1 "int (length xs - n)"] "1.prems" by (simp add: of_nat_diff)
    next
      case False': False
      then have "(int (length xs) + int n - 1) div int n = 1" using False "1.prems"
        by (intro int_div_pos_eq [where r = "int (length xs) - 1"]) (auto simp: Suc_le_eq)
      then show ?thesis using False' "1.prems" by (simp add: num_batches_def)
    qed
    ultimately show ?thesis by simp
  qed
qed

definition steps_from :: "int \<Rightarrow> int \<Rightarrow> int \<Rightarrow> int list" where
  "steps_from i stop bs = map (\<lambda>k. i + int k * bs) [0..<nat ((stop - i + bs - 1) div bs)]"

lemma py_range_steps: "0 < bs \<Longrightarrow> py_range 0 stop bs = Inr (steps_from 0 stop bs)"
  by (simp add: py_range_def steps_from_def)

lemma steps_from_step:
  assumes "0 < bs"
  shows "steps_from i stop bs = (if i < stop then i # steps_from (i + bs) stop bs else [])"
proof (cases "i < stop")
  case True
  let ?d = "(stop - (i + bs) + bs - 1) div bs"
  have "stop - i + bs - 1 = (stop - (i + bs) + bs - 1) + 1 * bs" by simp
  then have "(stop - i + bs - 1) div bs = ?d + 1"
    using assms by (metis add.commute div_mult_self1 less_irrefl)
  moreover have "0 \<le> ?d" using True assms by (simp add: pos_imp_zdiv_nonneg_iff)
  ultimately have "nat ((stop - i + bs - 1) div bs) = Suc (nat ?d)" by simp
  then show ?thesis using True
    by (simp add: steps_from_def upt_conv_Cons map_Suc_upt [symmetric] comp_def algebra_simps del: upt_Suc)
next
  case False
  then have "(stop - i + bs - 1) div bs \<le> (bs - 1) div bs" using assms by (intro zdiv_mono1) simp_all
  also have "(bs - 1) div bs = 0" using assms by (simp add: div_pos_pos_trivial)
  finally have "(stop - i + bs - 1) div bs \<le> 0" .
  then show ?thesis using False by (simp add: steps_from_def)
qed

text \<open>The batches of some chunks up to the first that fails.\<close>

fun until_error :: "('c \<Rightarrow> 'b res) \<Rightarrow> 'c list \<Rightarrow> 'b list \<times> py_error option" where
  "until_error f [] = ([], None)"
| "until_error f (c # cs) =
     (case f c of
        Inl e \<Rightarrow> ([], Some (body_error e))
      | Inr b \<Rightarrow> (case until_error f cs of (bs, e) \<Rightarrow> (b # bs, e)))"

lemma until_error_ok: "rmap f cs = Inr bs \<Longrightarrow> until_error f cs = (bs, None)"
  by (induction cs arbitrary: bs) (auto simp: rbind_eq_Inr)

lemma until_error_length: "length (fst (until_error f cs)) \<le> length cs"
  by (induction cs) (auto split: sum.splits prod.splits)

definition make_batch :: "item_lib \<Rightarrow> ('a, 'b) item_sampler \<Rightarrow> int list \<Rightarrow> 'b res" where
  "make_batch L s c = rbind (any_getitem L (sm_item_set s) c) (\<lambda>items. sm_minibatcher s items (sm_names s))"

definition epoch_done :: "('a, 'b) item_sampler \<Rightarrow> 'b list \<times> py_error option \<Rightarrow>
    'b list \<times> py_error option \<times> ('a, 'b) item_sampler" where
  "epoch_done s r = (fst r, snd r, if snd r = None then s\<lparr>sm_epoch := sm_epoch s + 1\<rparr> else s)"

text \<open>The loop from one position on: what is left are the chunks of the positions not yet given.\<close>

lemma consume_loop:
  assumes "0 < sm_batch_size s" and "0 \<le> i" and "outs \<le> int (length indices)"
    and "length (index_chunks (nat (sm_batch_size s)) (take (nat outs - nat i) (drop (nat i) indices))) < fuel"
  shows "consume L randperm worker fuel
      (Suspended indices (steps_from i (int (length indices)) (sm_batch_size s)) (outs - i + sm_batch_size s)) s =
    Some (epoch_done s (until_error (make_batch L s)
      (index_chunks (nat (sm_batch_size s)) (take (nat outs - nat i) (drop (nat i) indices)))))"
  using assms(2,4)
proof (induction fuel arbitrary: i)
  case 0
  then show ?case by simp
next
  case (Suc fuel)
  let ?bs = "sm_batch_size s" and ?rest = "\<lambda>i. take (nat outs - nat i) (drop (nat i) indices)"
  show ?case
  proof (cases "i < outs")
    case False
    then show ?thesis
      by (cases "i < int (length indices)")
         (simp_all add: sampler_next_def steps_from_step [OF assms(1), of i] epoch_done_def)
  next
    case True
    then have ne: "?rest i \<noteq> []" using assms(3) Suc.prems(1) by auto
    have split: "index_chunks (nat ?bs) (?rest i) = take (nat ?bs) (?rest i) # index_chunks (nat ?bs) (?rest (i + ?bs))"
    proof -
      have "drop (nat ?bs) (?rest i) = ?rest (i + ?bs)"
        using assms(1) Suc.prems(1) by (simp add: drop_take nat_add_distrib add.commute diff_diff_eq)
      then show ?thesis using index_chunks_step [OF _ ne, of "nat ?bs"] assms(1) by simp
    qed
    have "py_slice indices i (i + min ?bs (outs - i)) = take (nat (i + min ?bs (outs - i)) - nat i) (drop (nat i) indices)"
      using True Suc.prems(1) assms(1) by (intro py_slice_nonneg) auto
    moreover have "nat (i + min ?bs (outs - i)) - nat i = min (nat ?bs) (nat outs - nat i)"
      using True Suc.prems(1) assms(1) by (auto simp: min_def nat_add_distrib)
    ultimately have slice: "py_slice indices i (i + min ?bs (outs - i)) = take (nat ?bs) (?rest i)" by (simp add: min.commute)
    have steps: "steps_from i (int (length indices)) ?bs = i # steps_from (i + ?bs) (int (length indices)) ?bs"
      using True assms(3) steps_from_step [OF assms(1), of i "int (length indices)"] by simp
    have batch: "sampler_batch L s indices i (outs - i) = make_batch L s (take (nat ?bs) (?rest i))"
      by (simp add: sampler_batch_def make_batch_def slice)
    show ?thesis
    proof (cases "make_batch L s (take (nat ?bs) (?rest i))")
      case (Inl e)
      then show ?thesis using True by (simp add: sampler_next_def steps batch split epoch_done_def)
    next
      case (Inr b)
      have "consume L randperm worker fuel (Suspended indices (steps_from (i + ?bs) (int (length indices)) ?bs) (outs - (i + ?bs) + ?bs)) s =
          Some (epoch_done s (until_error (make_batch L s) (index_chunks (nat ?bs) (?rest (i + ?bs)))))"
        using Suc.prems assms(1) split by (intro Suc.IH) auto
      then show ?thesis using True Inr
        by (simp add: sampler_next_def steps batch split epoch_done_def split: prod.splits)
    qed
  qed
qed

lemma consume_fresh:
  assumes "0 < sm_batch_size s" and "sampler_start randperm worker s = Inr (indices, steps_from 0 (int (length indices)) (sm_batch_size s), outs)"
    and "outs \<le> int (length indices)"
    and "length (index_chunks (nat (sm_batch_size s)) (take (nat outs) indices)) < fuel"
  shows "consume L randperm worker fuel Fresh s =
    Some (epoch_done s (until_error (make_batch L s) (index_chunks (nat (sm_batch_size s)) (take (nat outs) indices))))"
proof -
  let ?steps = "steps_from 0 (int (length indices)) (sm_batch_size s)"
  have "sampler_next L randperm worker Fresh s = sampler_next L randperm worker (Suspended indices ?steps (outs - 0 + sm_batch_size s)) s"
    by (simp add: sampler_next_def assms(2))
  then have "consume L randperm worker fuel Fresh s = consume L randperm worker fuel (Suspended indices ?steps (outs - 0 + sm_batch_size s)) s"
    by (cases fuel) simp_all
  then show ?thesis using consume_loop [OF assms(1) _ assms(3), of 0 fuel L randperm worker] assms(4) by simp
qed

section \<open>The positions of one worker\<close>

definition sample_order :: "(int \<Rightarrow> int \<Rightarrow> int list) \<Rightarrow> ('a, 'b) item_sampler \<Rightarrow> int \<Rightarrow> int list" where
  "sample_order randperm s n = (if sm_shuffle s then randperm (sm_seed s + sm_epoch s) n else arange 0 n)"

definition seed_fits :: "('a, 'b) item_sampler \<Rightarrow> bool" where
  "seed_fits s \<longleftrightarrow> - (2 ^ 63) \<le> sm_seed s + sm_epoch s \<and> sm_seed s + sm_epoch s < 2 ^ 64"

lemma sample_order_mset:
  "\<forall>g n. mset (randperm g n) = mset (arange 0 n) \<Longrightarrow> mset (sample_order randperm s n) = mset (arange 0 n)"
  by (simp add: sample_order_def)

lemma mset_arange_eq:
  assumes "mset xs = mset (arange 0 n)" and "0 \<le> n"
  shows "int (length xs) = n" and "set xs = {0..<n}"
  using mset_eq_length [OF assms(1)] mset_eq_setD [OF assms(1)] assms(2) by simp_all

lemma slice_map:
  assumes "0 \<le> a" and "0 \<le> k" and "a + k \<le> int (length xs)"
  shows "take (nat k) (drop (nat a) xs) = map (\<lambda>j. xs ! nat j) (arange a (a + k))"
proof (rule nth_equalityI)
  show len: "length (take (nat k) (drop (nat a) xs)) = length (map (\<lambda>j. xs ! nat j) (arange a (a + k)))"
    using assms by auto
  fix i
  assume "i < length (take (nat k) (drop (nat a) xs))"
  then show "take (nat k) (drop (nat a) xs) ! i = map (\<lambda>j. xs ! nat j) (arange a (a + k)) ! i"
    using assms by (simp add: nat_add_distrib add.commute)
qed

lemma start_ok:
  assumes ok: "any_ok (L, sm_item_set s)" and n: "any_size (L, sm_item_set s) = n"
    and bs: "0 < sm_batch_size s" and fits: "seed_fits s"
    and perm: "\<forall>g n. mset (randperm g n) = mset (arange 0 n)"
    and range: "sampler_range s n (fst w) (snd w) = Inr (start, assigned, outs)"
    and w: "worker = Some w \<or> worker = None \<and> w = (1, 0)"
    and bounds: "0 \<le> start" "0 \<le> assigned" "start + assigned \<le> n"
  defines "idx \<equiv> take (nat assigned) (drop (nat start) (sample_order randperm s n))"
  shows "sampler_start randperm worker s = Inr (idx, steps_from 0 (int (length idx)) (sm_batch_size s), outs)"
    and "int (length idx) = assigned"
proof -
  have n0: "0 \<le> n" using any_source.len_nonneg [OF ok] n by simp
  have len: "int (length (sample_order randperm s n)) = n"
    by (rule mset_arange_eq [OF sample_order_mset [OF perm] n0])
  show l: "int (length idx) = assigned" using bounds len by (simp add: idx_def min_def nat_le_iff le_nat_iff)
  have "any_len (sm_item_set s) = Inr n" using any_len_ok [OF ok] n by simp
  moreover have "(if sm_shuffle s then rbind (manual_seed (sm_seed s + sm_epoch s)) (\<lambda>g.
                  Inr (py_slice (randperm g n) start (start + assigned)))
             else torch_arange start (start + assigned) 1) = Inr idx"
  proof (cases "sm_shuffle s")
    case True
    then have "idx = py_slice (randperm (sm_seed s + sm_epoch s) n) start (start + assigned)"
      using bounds by (simp add: idx_def sample_order_def py_slice_nonneg nat_add_distrib)
    then show ?thesis using True fits by (simp add: manual_seed_def seed_fits_def)
  next
    case False
    then have "idx = arange start (start + assigned)"
      using bounds n0 by (simp add: idx_def sample_order_def slice_map cong: map_cong)
        (intro nth_equalityI, simp_all)
    then show ?thesis using False bounds by (simp add: torch_arange_one)
  qed
  moreover have "(case worker of Some w \<Rightarrow> w | None \<Rightarrow> (1, 0)) = (fst w, snd w)" using w by auto
  ultimately show "sampler_start randperm worker s = Inr (idx, steps_from 0 (int (length idx)) (sm_batch_size s), outs)"
    using range bs l by (cases w) (simp add: sampler_start_def py_range_steps)
qed

text \<open>The run of one worker, when the function that makes batches does not fail.\<close>

lemma worker_epoch:
  assumes ok: "any_ok (L, sm_item_set s)" and n: "any_size (L, sm_item_set s) = n"
    and bs: "0 < sm_batch_size s" and fits: "seed_fits s"
    and perm: "\<forall>g n. mset (randperm g n) = mset (arange 0 n)"
    and range: "sampler_range s n (fst w) (snd w) = Inr (start, assigned, outs)"
    and w: "worker = Some w \<or> worker = None \<and> w = (1, 0)"
    and bounds: "0 \<le> start" "0 \<le> outs" "outs \<le> assigned" "start + assigned \<le> n"
    and mb: "\<And>b names. sm_minibatcher s b names = Inr (f b)"
    and fuel: "nat n < fuel"
  defines "cs \<equiv> index_chunks (nat (sm_batch_size s)) (take (nat outs) (drop (nat start) (sample_order randperm s n)))"
  shows "\<exists>vs. consume L randperm worker fuel Fresh s = Some (map f vs, None, s\<lparr>sm_epoch := sm_epoch s + 1\<rparr>) \<and>
    list_all2 (\<lambda>v c. mset (sampled_items v) = mset (map (any_item (L, sm_item_set s)) c)) vs cs"
proof -
  let ?order = "sample_order randperm s n" and ?idx = "take (nat assigned) (drop (nat start) (sample_order randperm s n))"
  have n0: "0 \<le> n" using any_source.len_nonneg [OF ok] n by simp
  have a0: "0 \<le> assigned" using bounds by linarith
  note st = start_ok [OF ok n bs fits perm range w bounds(1) a0 bounds(4)]
  have out: "take (nat outs) ?idx = take (nat outs) (drop (nat start) ?order)" using bounds by (simp add: min_def)
  have "length cs \<le> nat n"
  proof -
    have "int (length cs) = num_batches (sm_batch_size s) (int (length (take (nat outs) (drop (nat start) ?order))))"
      unfolding cs_def using length_chunks [of "nat (sm_batch_size s)" "take (nat outs) (drop (nat start) ?order)"] bs
      by (simp only: nat_0_le less_imp_le zero_less_nat_eq)
    also have "\<dots> \<le> num_batches (sm_batch_size s) (n * sm_batch_size s)"
    proof (rule num_batches_mono [OF bs])
      have "int (length (take (nat outs) (drop (nat start) ?order))) \<le> n"
        using mset_arange_eq(1) [OF sample_order_mset [OF perm] n0, of s] by simp
      also have "n \<le> n * sm_batch_size s" using n0 bs by (simp add: mult_le_cancel_left1)
      finally show "int (length (take (nat outs) (drop (nat start) ?order))) \<le> n * sm_batch_size s" .
    qed
    also have "\<dots> = n" by (rule num_batches_mult [OF bs])
    finally show ?thesis by linarith
  qed
  then have "consume L randperm worker fuel Fresh s = Some (epoch_done s (until_error (make_batch L s) cs))"
    using consume_fresh [OF bs st(1), of fuel L] st(2) bounds(3) fuel unfolding out cs_def by simp
  moreover obtain vs where vs: "rmap (any_getitem L (sm_item_set s)) cs = Inr vs"
      "list_all2 (\<lambda>v c. mset (sampled_items v) = mset (map (any_item (L, sm_item_set s)) c)) vs cs"
  proof -
    have "\<forall>c \<in> set cs. \<forall>j \<in> set c. 0 \<le> j \<and> j < any_size (L, sm_item_set s)"
    proof (intro ballI)
      fix c j
      assume "c \<in> set cs" "j \<in> set c"
      then have "j \<in> set (concat cs)" by auto
      then have "j \<in> set (take (nat outs) (drop (nat start) ?order))" using bs by (simp add: cs_def)
      then have "j \<in> set ?order" by (meson in_set_dropD in_set_takeD)
      then show "0 \<le> j \<and> j < any_size (L, sm_item_set s)"
        using mset_arange_eq(2) [OF sample_order_mset [OF perm] n0, of s] n by simp
    qed
    then show ?thesis using any_source.fetch_all [OF ok, of cs] that by auto
  qed
  moreover have "rmap (make_batch L s) cs = Inr (map f vs)"
  proof -
    have "rmap g cs = Inr vs \<Longrightarrow> rmap (\<lambda>c. rbind (g c) (\<lambda>b. Inr (f b))) cs = Inr (map f vs)" for g cs vs
      by (induction cs arbitrary: vs) (auto simp: rbind_eq_Inr)
    then show ?thesis using vs(1) by (simp add: make_batch_def [abs_def] mb)
  qed
  ultimately show ?thesis by (auto simp: until_error_ok epoch_done_def)
qed

lemma index_chunks_nth: "0 < n \<Longrightarrow> k < length (index_chunks n xs) \<Longrightarrow> index_chunks n xs ! k = take n (drop (k * n) xs)"
proof (induction n xs arbitrary: k rule: index_chunks.induct)
  case (1 n xs)
  have ne: "xs \<noteq> []" using "1.prems" by auto
  show ?case
  proof (cases k)
    case (Suc k')
    then show ?thesis using "1.prems" "1.IH" [of k'] ne by (simp add: index_chunks_step add.commute)
  qed (use "1.prems" ne in \<open>simp add: index_chunks_step\<close>)
qed

lemma length_take_int: "0 \<le> k \<Longrightarrow> k \<le> int (length xs) \<Longrightarrow> int (length (take (nat k) xs)) = k"
  by simp

section \<open>One process\<close>

text \<open>C16. The batches of an epoch of an \<open>ItemSampler\<close>: batch \<open>k\<close> holds the items at the positions \<open>k * batch_size\<close> up
  to \<open>(k + 1) * batch_size\<close> of the order of this epoch, which is the order of the item set or the permutation of
  the seed and the epoch; there are as many batches as the item set makes, without the last incomplete one when it is
  dropped; then the generator stops and the epoch is counted. Both kinds of item sets are covered.\<close>

theorem sampler_batches:
  assumes "any_ok (L, S)" and "any_size (L, S) = n" and "0 < batch_size"
    and "\<forall>g m. mset (randperm g m) = mset (arange 0 m)"
    and "s = (item_sampler_init S batch_size (\<lambda>b names. Inr b) drop_last shuffle seed drawn)\<lparr>sm_epoch := e\<rparr>"
    and "seed_fits s" and "nat n < fuel"
  shows "\<exists>B. consume L randperm worker fuel Fresh s = Some (B, None, s\<lparr>sm_epoch := e + 1\<rparr>) \<and>
    int (length B) = (if drop_last then n div batch_size else num_batches batch_size n) \<and>
    (\<forall>k < length B. mset (sampled_items (B ! k)) =
       mset (map (any_item (L, S)) (take (nat batch_size) (drop (k * nat batch_size) (sample_order randperm s n)))))"
proof -
  let ?out = "if drop_last then n div batch_size * batch_size else n" and ?order = "sample_order randperm s n"
  have f: "sm_item_set s = S" "sm_batch_size s = batch_size" "sm_epoch s = e" "sm_distributed s = False" "sm_world_size s = None"
    "sm_drop_last s = drop_last" "sm_minibatcher s = (\<lambda>b names. Inr b)" by (simp_all add: assms(5) item_sampler_init_def)
  have n0: "0 \<le> n" using any_source.len_nonneg [OF assms(1)] assms(2) by simp
  define w :: "int \<times> int" where "w = (case worker of Some w \<Rightarrow> w | None \<Rightarrow> (1, 0))"
  have w: "worker = Some w \<or> worker = None \<and> w = (1, 0)" by (simp add: w_def split: option.splits)
  have range: "sampler_range s n (fst w) (snd w) = Inr (0, n, ?out)"
    using assms(3) by (simp add: sampler_range_def f calculate_range_def)
  have out: "0 \<le> ?out" "?out \<le> n"
    using n0 assms(3) minus_mod_eq_div_mult [of n batch_size, symmetric] zmod_le_nonneg_dividend [OF n0, of batch_size] by (simp_all add: pos_imp_zdiv_nonneg_iff)
  have len: "int (length (take (nat ?out) ?order)) = ?out"
    using mset_arange_eq(1) [OF sample_order_mset [OF assms(4)] n0, of s] out by (intro length_take_int) simp_all
  obtain B where B: "consume L randperm worker fuel Fresh s = Some (B, None, s\<lparr>sm_epoch := e + 1\<rparr>)"
    "list_all2 (\<lambda>v c. mset (sampled_items v) = mset (map (any_item (L, S)) c)) B (index_chunks (nat batch_size) (take (nat ?out) ?order))"
  proof -
    have p: "any_ok (L, sm_item_set s)" "any_size (L, sm_item_set s) = n" "0 < sm_batch_size s"
      "0 + n \<le> n" "\<And>b names. sm_minibatcher s b names = Inr (id b)" using assms(1,2,3) by (simp_all add: f)
    show ?thesis
      using worker_epoch [OF p(1-3) assms(6,4) range w order_refl out p(4,5) assms(7)] that by (auto simp: f)
  qed
  have "int (length B) = num_batches batch_size ?out"
    using list_all2_lengthD [OF B(2)] length_chunks [of "nat batch_size" "take (nat ?out) ?order"] assms(3) len by simp
  moreover have "index_chunks (nat batch_size) (take (nat ?out) ?order) ! k = take (nat batch_size) (drop (k * nat batch_size) ?order)"
    if k: "k < length B" for k
  proof -
    have "k < length (index_chunks (nat batch_size) (take (nat ?out) ?order))" using k list_all2_lengthD [OF B(2)] by simp
    then have eq: "index_chunks (nat batch_size) (take (nat ?out) ?order) ! k = take (nat batch_size) (drop (k * nat batch_size) (take (nat ?out) ?order))"
      using assms(3) by (intro index_chunks_nth) simp_all
    show ?thesis
    proof (cases drop_last)
      case True
      then have "int k < n div batch_size" using k \<open>int (length B) = _\<close> assms(3) by (simp add: num_batches_mult)
      then have "(int k + 1) * batch_size \<le> n div batch_size * batch_size" using assms(3) by (intro mult_right_mono) simp_all
      moreover have "int (k * nat batch_size + nat batch_size) = (int k + 1) * batch_size"
        using assms(3) by (simp add: algebra_simps)
      ultimately have "int (k * nat batch_size + nat batch_size) \<le> n div batch_size * batch_size" by (simp only:)
      then have "k * nat batch_size + nat batch_size \<le> nat (n div batch_size * batch_size)"
        by (metis nat_int nat_mono)
      then show ?thesis using eq True by (simp add: drop_take min_def)
    next
      case False
      then have "take (nat ?out) ?order = ?order" using mset_arange_eq(1) [OF sample_order_mset [OF assms(4)] n0, of s] by simp
      then show ?thesis using eq by simp
    qed
  qed
  then have "\<forall>k < length B. mset (sampled_items (B ! k)) =
       mset (map (any_item (L, S)) (take (nat batch_size) (drop (k * nat batch_size) ?order)))"
    using list_all2_nthD [OF B(2)] by simp
  ultimately show ?thesis using B(1) assms(3) by (cases drop_last) (auto simp: num_batches_mult)
qed

section \<open>The replicas of a distributed run\<close>

lemma replica_fields:
  assumes "distributed_item_sampler_init True S bs mb dl sh du seeds drawn r = Returns s"
  shows "sm_item_set s = S" "sm_batch_size s = bs" "sm_minibatcher s = mb" "sm_drop_last s = dl" "sm_shuffle s = sh"
    "sm_distributed s" "sm_drop_uneven_inputs s = du" "sm_world_size s = Some (int (length seeds))" "sm_rank s = Some (int r)"
    "sm_epoch s = 0"
  using assms by (auto simp: distributed_item_sampler_init_def item_sampler_init_def Let_def split: if_splits collective.splits)

lemma replica_seed:
  assumes "distributed_item_sampler_init True S bs mb dl sh du seeds drawn r = Returns s"
    and "distributed_item_sampler_init True S bs mb dl sh du seeds drawn r' = Returns s'"
    and "r < length seeds" and "r' < length seeds"
  shows "sm_seed s = sm_seed s'"
proof (cases "length seeds > 1")
  case True
  then show ?thesis using assms(1,2)
    by (auto simp: distributed_item_sampler_init_def align_seeds_def Let_def split: collective.splits sum.splits if_splits)
next
  case False
  then have "r = r'" using assms(3,4) by simp
  then show ?thesis using assms(1,2) by simp
qed

lemma replica_range:
  assumes "distributed_item_sampler_init True S bs mb dl sh du seeds drawn r = Returns s"
  shows "sampler_range (s\<lparr>sm_epoch := e\<rparr>) n W w = calculate_range True n (int (length seeds)) (int r) W w bs dl du"
  using replica_fields [OF assms] by (simp add: sampler_range_def)

lemma replica_worker:
  assumes ok: "any_ok (L, S)" and n: "any_size (L, S) = n" and bs: "0 < bs" and W: "0 < W"
    and perm: "\<forall>g m. mset (randperm g m) = mset (arange 0 m)"
    and init: "distributed_item_sampler_init True S bs (\<lambda>b names. Inr b) dl sh du seeds drawn r = Returns t"
    and r: "r < length seeds" and w: "w < W" and fits: "seed_fits (t\<lparr>sm_epoch := e\<rparr>)" and fuel: "nat n < fuel"
  shows "\<exists>start assigned outs B.
    calculate_range True n (int (length seeds)) (int r) (int W) (int w) bs dl du = Inr (start, assigned, outs) \<and>
    0 \<le> start \<and> 0 \<le> outs \<and> outs \<le> assigned \<and> start + assigned \<le> n \<and> (\<not> dl \<and> \<not> du \<longrightarrow> outs = assigned) \<and>
    consume L randperm (Some (int W, int w)) fuel Fresh (t\<lparr>sm_epoch := e\<rparr>) = Some (B, None, t\<lparr>sm_epoch := e + 1\<rparr>) \<and>
    list_all2 (\<lambda>v c. mset (sampled_items v) = mset (map (any_item (L, S)) c)) B
      (index_chunks (nat bs) (take (nat outs) (drop (nat start) (sample_order randperm (t\<lparr>sm_epoch := e\<rparr>) n))))"
proof -
  let ?s = "t\<lparr>sm_epoch := e\<rparr>"
  note f = replica_fields [OF init]
  have n0: "0 \<le> n" using any_source.len_nonneg [OF ok] n by simp
  have "seeds \<noteq> []" using r by auto
  then obtain start assigned outs where c:
      "calculate_range True n (int (length seeds)) (int r) (int W) (int w) bs dl du = Inr (start, assigned, outs)"
      "0 \<le> start" "start + assigned \<le> n" "0 \<le> outs" "outs \<le> assigned" "\<not> dl \<and> \<not> du \<longrightarrow> outs = assigned"
    using calculate_range_output [of "int (length seeds)" "int W" bs n "int r" "int w" dl du] r w bs W n0 by auto
  have p: "any_ok (L, sm_item_set ?s)" "any_size (L, sm_item_set ?s) = n" "0 < sm_batch_size ?s"
    "\<And>b names. sm_minibatcher ?s b names = Inr (id b)" using ok n bs by (simp_all add: f)
  have range: "sampler_range ?s n (fst (int W, int w)) (snd (int W, int w)) = Inr (start, assigned, outs)"
    using replica_range [OF init, of e n] c(1) by simp
  have "\<exists>B. consume L randperm (Some (int W, int w)) fuel Fresh ?s = Some (map id B, None, ?s\<lparr>sm_epoch := sm_epoch ?s + 1\<rparr>) \<and>
    list_all2 (\<lambda>v c. mset (sampled_items v) = mset (map (any_item (L, sm_item_set ?s)) c)) B
      (index_chunks (nat (sm_batch_size ?s)) (take (nat outs) (drop (nat start) (sample_order randperm ?s n))))"
    using worker_epoch [OF p(1-3) fits perm range _ c(2,4,5,3) p(4) fuel] by simp
  then show ?thesis using c by (auto simp: f)
qed

text \<open>C15. The replicas and their workers divide an epoch: when nothing is dropped, every worker of every replica of a
  distributed run finishes its epoch, and the batches of all of them together hold every item of the item set
  exactly once, shuffled or not, although each one draws its own permutation and its own seed.\<close>

theorem replicas_cover:
  assumes "any_ok (L, S)" and "any_size (L, S) = n" and "0 < batch_size" and "0 < W" and "seeds \<noteq> []"
    and "\<forall>g m. mset (randperm g m) = mset (arange 0 m)"
    and "\<forall>r < length seeds. distributed_item_sampler_init True S batch_size (\<lambda>b names. Inr b) False shuffle False seeds drawn r =
        Returns (s r) \<and> seed_fits ((s r)\<lparr>sm_epoch := e\<rparr>)"
    and "nat n < fuel"
  shows "\<exists>B. (\<forall>r < length seeds. \<forall>w < W.
      consume L randperm (Some (int W, int w)) fuel Fresh ((s r)\<lparr>sm_epoch := e\<rparr>) = Some (B r w, None, (s r)\<lparr>sm_epoch := e + 1\<rparr>)) \<and>
    mset (concat (map (\<lambda>r. concat (map (\<lambda>w. concat (map sampled_items (B r w))) [0..<W])) [0..<length seeds])) =
      mset (map (any_item (L, S)) (arange 0 n))"
proof -
  let ?R = "length seeds" and ?order = "sample_order randperm ((s 0)\<lparr>sm_epoch := e\<rparr>) n"
  let ?calc = "\<lambda>r w. calculate_range True n (int ?R) (int r) (int W) (int w) batch_size False False"
  have n0: "0 \<le> n" using any_source.len_nonneg [OF assms(1)] assms(2) by simp
  have R: "0 < ?R" using assms(5) by simp
  have init: "distributed_item_sampler_init True S batch_size (\<lambda>b names. Inr b) False shuffle False seeds drawn r = Returns (s r)"
    if "r < ?R" for r using assms(7) that by blast
  have same: "sample_order randperm ((s r)\<lparr>sm_epoch := e\<rparr>) n = ?order" if "r < ?R" for r
    using replica_seed [OF init [OF that] init [OF R] that R] replica_fields(5) [OF init [OF that]] replica_fields(5) [OF init [OF R]]
    by (simp add: sample_order_def)
  note o = mset_arange_eq [OF sample_order_mset [OF assms(6)] n0, of "(s 0)\<lparr>sm_epoch := e\<rparr>"]
  have "\<exists>b. consume L randperm (Some (int W, int w)) fuel Fresh ((s r)\<lparr>sm_epoch := e\<rparr>) = Some (b, None, (s r)\<lparr>sm_epoch := e + 1\<rparr>) \<and>
      mset (concat (map sampled_items b)) = mset (map (\<lambda>j. any_item (L, S) (?order ! nat j)) (range_items (?calc r w)))"
    if rw: "r < ?R" "w < W" for r w
  proof -
    obtain start assigned outs b where b: "?calc r w = Inr (start, assigned, outs)"
      "0 \<le> start" "0 \<le> outs" "outs = assigned" "start + assigned \<le> n"
      "consume L randperm (Some (int W, int w)) fuel Fresh ((s r)\<lparr>sm_epoch := e\<rparr>) = Some (b, None, (s r)\<lparr>sm_epoch := e + 1\<rparr>)"
      "list_all2 (\<lambda>v c. mset (sampled_items v) = mset (map (any_item (L, S)) c)) b
        (index_chunks (nat batch_size) (take (nat outs) (drop (nat start) ?order)))"
      using replica_worker [OF assms(1,2,3,4,6) _ rw _ assms(8), of False shuffle False drawn "s r" e] assms(7) rw same by auto
    have "mset (concat (map sampled_items b)) = mset (map (any_item (L, S)) (take (nat outs) (drop (nat start) ?order)))"
      using any_source.contents_sum [OF b(7)] assms(3) by simp
    also have "take (nat outs) (drop (nat start) ?order) = map (\<lambda>j. ?order ! nat j) (range_items (?calc r w))"
      using slice_map [of start outs ?order] b(1-5) o(1) by (simp add: arange_def)
    finally show ?thesis using b(6) by (auto simp: comp_def)
  qed
  then obtain B where B: "\<And>r w. r < ?R \<Longrightarrow> w < W \<Longrightarrow>
      consume L randperm (Some (int W, int w)) fuel Fresh ((s r)\<lparr>sm_epoch := e\<rparr>) = Some (B r w, None, (s r)\<lparr>sm_epoch := e + 1\<rparr>)"
    "\<And>r w. r < ?R \<Longrightarrow> w < W \<Longrightarrow>
      mset (concat (map sampled_items (B r w))) = mset (map (\<lambda>j. any_item (L, S) (?order ! nat j)) (range_items (?calc r w)))"
    by metis
  have "mset (concat (map (\<lambda>r. concat (map (\<lambda>w. concat (map sampled_items (B r w))) [0..<W])) [0..<?R])) =
      mset (concat (map (\<lambda>r. concat (map (\<lambda>w. map (\<lambda>j. any_item (L, S) (?order ! nat j)) (range_items (?calc r w))) [0..<W])) [0..<?R]))"
    using B(2) by (intro mset_concat_cong) auto
  also have "concat (map (\<lambda>r. concat (map (\<lambda>w. map (\<lambda>j. any_item (L, S) (?order ! nat j)) (range_items (?calc r w))) [0..<W])) [0..<?R]) =
      map (\<lambda>j. any_item (L, S) (?order ! nat j)) (concat (map (\<lambda>r. concat (map (\<lambda>w. range_items (?calc r w)) [0..<W])) [0..<?R]))"
    by (simp add: map_concat comp_def)
  also have "\<dots> = map (\<lambda>j. any_item (L, S) (?order ! nat j)) (arange 0 n)"
    using calculate_range_tiles [of "int ?R" "int W" batch_size n False False] R assms(3,4) n0 by (simp add: arange_def)
  also have "\<dots> = map (any_item (L, S)) ?order"
    by (rule nth_equalityI) (use o(1) in simp_all)
  also have "mset \<dots> = mset (map (any_item (L, S)) (arange 0 n))"
    using sample_order_mset [OF assms(6), of "(s 0)\<lparr>sm_epoch := e\<rparr>" n] by (simp only: mset_map)
  finally show ?thesis using B(1) by blast
qed

text \<open>C17. With \<open>drop_uneven_inputs\<close> every replica yields the same number of batches, counted over its workers: the
  replicas of a distributed training step in lockstep, and one with more batches would wait for the others.\<close>

theorem replicas_even:
  assumes "any_ok (L, S)" and "any_size (L, S) = n" and "0 < batch_size" and "0 < W"
    and "\<forall>g m. mset (randperm g m) = mset (arange 0 m)"
    and "\<forall>r < length seeds. distributed_item_sampler_init True S batch_size (\<lambda>b names. Inr b) drop_last shuffle True seeds drawn r =
        Returns (s r) \<and> seed_fits ((s r)\<lparr>sm_epoch := e\<rparr>)"
    and "nat n < fuel" and "r < length seeds" and "r' < length seeds"
  shows "\<exists>B. (\<forall>r < length seeds. \<forall>w < W.
      consume L randperm (Some (int W, int w)) fuel Fresh ((s r)\<lparr>sm_epoch := e\<rparr>) = Some (B r w, None, (s r)\<lparr>sm_epoch := e + 1\<rparr>)) \<and>
    (\<Sum>w<W. length (B r w)) = (\<Sum>w<W. length (B r' w))"
proof -
  let ?R = "length seeds"
  let ?calc = "\<lambda>r w. calculate_range True n (int ?R) (int r) (int W) (int w) batch_size drop_last True"
  have R: "0 < int ?R" using assms(8) by linarith
  have n0: "0 \<le> n" using any_source.len_nonneg [OF assms(1)] assms(2) by simp
  have "\<exists>b. consume L randperm (Some (int W, int w)) fuel Fresh ((s r)\<lparr>sm_epoch := e\<rparr>) = Some (b, None, (s r)\<lparr>sm_epoch := e + 1\<rparr>) \<and>
      int (length b) = num_batches batch_size (output_items (?calc r w))"
    if rw: "r < ?R" "w < W" for r w
  proof -
    have init: "distributed_item_sampler_init True S batch_size (\<lambda>b names. Inr b) drop_last shuffle True seeds drawn r = Returns (s r)"
      "seed_fits ((s r)\<lparr>sm_epoch := e\<rparr>)" using assms(6) rw(1) by simp_all
    let ?order = "sample_order randperm ((s r)\<lparr>sm_epoch := e\<rparr>) n"
    obtain start assigned outs b where b: "?calc r w = Inr (start, assigned, outs)"
      "0 \<le> start" "0 \<le> outs" "outs \<le> assigned" "start + assigned \<le> n"
      "consume L randperm (Some (int W, int w)) fuel Fresh ((s r)\<lparr>sm_epoch := e\<rparr>) = Some (b, None, (s r)\<lparr>sm_epoch := e + 1\<rparr>)"
      "list_all2 (\<lambda>v c. mset (sampled_items v) = mset (map (any_item (L, S)) c)) b
        (index_chunks (nat batch_size) (take (nat outs) (drop (nat start) ?order)))"
      using replica_worker [OF assms(1-5) init(1) rw init(2) assms(7)] by auto
    have "int (length ?order) = n" by (rule mset_arange_eq [OF sample_order_mset [OF assms(5)] n0])
    then have "int (length (take (nat outs) (drop (nat start) ?order))) = outs"
      using b(2-5) by (intro length_take_int) simp_all
    then have "int (length b) = num_batches batch_size outs"
      using list_all2_lengthD [OF b(7)] length_chunks [of "nat batch_size" "take (nat outs) (drop (nat start) ?order)"] assms(3) by simp
    then show ?thesis using b(1,6) by auto
  qed
  then obtain B where B: "\<And>r w. r < ?R \<Longrightarrow> w < W \<Longrightarrow>
      consume L randperm (Some (int W, int w)) fuel Fresh ((s r)\<lparr>sm_epoch := e\<rparr>) = Some (B r w, None, (s r)\<lparr>sm_epoch := e + 1\<rparr>)"
    "\<And>r w. r < ?R \<Longrightarrow> w < W \<Longrightarrow> int (length (B r w)) = num_batches batch_size (output_items (?calc r w))"
    by metis
  have "int (\<Sum>w<W. length (B r w)) = (\<Sum>w<W. num_batches batch_size (output_items (?calc r w)))" if "r < ?R" for r
    using B(2) that by simp
  then have "int (\<Sum>w<W. length (B r w)) = int (\<Sum>w<W. length (B r' w))"
    using drop_uneven_same_batches [of "int ?R" "int W" batch_size n "int r" "int r'" drop_last] R assms(3,4,8,9) n0 by simp
  then have "(\<Sum>w<W. length (B r w)) = (\<Sum>w<W. length (B r' w))" by (simp only: of_nat_eq_iff)
  then show ?thesis using B(1) by (intro exI [of _ B]) simp
qed


section \<open>Two replicas of two types\<close>

definition example_source :: "int any_item_set" where
  "example_source = Hetero_items example_hetero"

definition rank_seeds :: "(int option \<times> int) list" where
  "rank_seeds = [(Some 7, 0), (None, 3)]"

definition example_randperm :: "int \<Rightarrow> int \<Rightarrow> int list" where
  "example_randperm seed n = (if seed mod 2 = 0 then rev (arange 0 n) else arange 0 n)"

definition example_replica :: "bool \<Rightarrow> nat \<Rightarrow> (int, int item_batch) item_sampler" where
  "example_replica uneven r =
     \<lparr>sm_item_set = example_source, sm_names = Some [''seeds'', ''labels''], sm_batch_size = 2, sm_minibatcher = (\<lambda>b names. Inr b),
      sm_drop_last = False, sm_shuffle = True, sm_distributed = True, sm_drop_uneven_inputs = uneven,
      sm_world_size = Some 2, sm_rank = Some (int r), sm_seed = 7, sm_epoch = 0\<rparr>"

lemma example_source_ok: "any_ok (example_item_lib, example_source)" "any_size (example_item_lib, example_source) = 5"
  using example_hetero_ok hetero_fields(1) [OF example_hetero_ok]
  by (simp_all add: any_ok_def any_size_def example_source_def hetero_source_ok_def example_hetero_def)

lemma example_randperm_ok: "\<forall>g m. mset (example_randperm g m) = mset (arange 0 m)"
  by (simp add: example_randperm_def)

lemma example_replicas:
  "\<forall>r < length rank_seeds. distributed_item_sampler_init True example_source 2 (\<lambda>b names. Inr b) False True uneven
      rank_seeds (\<lambda>r. 11) r = Returns (example_replica uneven r) \<and> seed_fits ((example_replica uneven r)\<lparr>sm_epoch := 1\<rparr>)"
  by (simp add: distributed_item_sampler_init_def align_seeds_def int32_tensor_def item_sampler_init_def Let_def example_replica_def
      any_names_def example_source_def example_hetero_def seed_fits_def rank_seeds_def)

theorem sampler_batches_witness:
  "\<exists>B. consume example_item_lib example_randperm None 9 Fresh
      ((item_sampler_init example_source 2 (\<lambda>b names. Inr b) False True (Some 7) 0)\<lparr>sm_epoch := 1\<rparr>) =
      Some (B, None, (item_sampler_init example_source 2 (\<lambda>b names. Inr b) False True (Some 7) 0)\<lparr>sm_epoch := 1\<rparr>\<lparr>sm_epoch := 1 + 1\<rparr>) \<and>
    int (length B) = (if False then 5 div 2 else num_batches 2 5) \<and>
    (\<forall>k < length B. mset (sampled_items (B ! k)) =
       mset (map (any_item (example_item_lib, example_source)) (take (nat 2) (drop (k * nat 2) (sample_order example_randperm
         ((item_sampler_init example_source 2 (\<lambda>b names. Inr b :: int item_batch res) False True (Some 7) 0)\<lparr>sm_epoch := 1\<rparr>) 5)))))"
  by (rule sampler_batches [OF example_source_ok _ example_randperm_ok refl])
    (simp_all add: seed_fits_def item_sampler_init_def)

theorem replicas_cover_witness:
  "\<exists>B. (\<forall>r < length rank_seeds. \<forall>w < 2.
      consume example_item_lib example_randperm (Some (int 2, int w)) 6 Fresh ((example_replica False r)\<lparr>sm_epoch := 1\<rparr>) =
        Some (B r w, None, (example_replica False r)\<lparr>sm_epoch := 1 + 1\<rparr>)) \<and>
    mset (concat (map (\<lambda>r. concat (map (\<lambda>w. concat (map sampled_items (B r w))) [0..<2])) [0..<length rank_seeds])) =
      mset (map (any_item (example_item_lib, example_source)) (arange 0 5))"
  by (rule replicas_cover [OF example_source_ok _ _ _ example_randperm_ok example_replicas]) (simp_all add: rank_seeds_def)

theorem replicas_even_witness:
  "\<exists>B. (\<forall>r < length rank_seeds. \<forall>w < 2.
      consume example_item_lib example_randperm (Some (int 2, int w)) 6 Fresh ((example_replica True r)\<lparr>sm_epoch := 1\<rparr>) =
        Some (B r w, None, (example_replica True r)\<lparr>sm_epoch := 1 + 1\<rparr>)) \<and>
    (\<Sum>w<2. length (B 0 w)) = (\<Sum>w<2. length (B 1 w))"
  by (rule replicas_even [OF example_source_ok _ _ example_randperm_ok example_replicas]) (simp_all add: rank_seeds_def)


end
