(* ===== verification/PrefetchPipe.thy ===== *)
theory PrefetchPipe
  imports NdArray
begin

text \<open>
  \<open>PrefetcherIterDataPipe\<close> of \<^verbatim>\<open>python/dgl/graphbolt/datapipes/utils.py\<close>: a worker thread takes items from a source
  and appends them to a buffer, and the generator in the thread of the user pops them. The two threads share the
  attributes of \<open>_PrefetchData\<close> without a lock; a step reads or writes one of them, so every
  interleaving the interpreter allows is a run of \<open>pf_step\<close>. Sleeping is no step of its own.
\<close>

section \<open>The shared state and the two threads\<close>

text \<open>What is in the buffer: an item, or the exception that ended the source.\<close>

datatype 'a pf_entry = Fetched 'a | Failure py_error

datatype 'a worker_pc =
    Outer_loop
  | Inner_loop
  | Check_room
  | Next_item
  | Append_item 'a
  | Clear_run py_error
  | Set_stopped py_error
  | Append_error py_error
  | Set_pausing
  | Worker_done

text \<open>How the generator ends: its loop condition fails, it breaks at a \<open>StopIteration\<close>, it raises, or it is closed.\<close>

datatype pf_result = Exhausted | Broke | Thrown py_error | Closed

text \<open>The statements of \<open>finally\<close> and of the methods that control the threads.\<close>

datatype pf_statement =
    Set_run bool
  | Set_stop bool
  | Set_paused bool
  | Return_unless_alive
  | Wait_paused
  | Test_stop
  | Test_buffer
  | Join_worker

datatype main_pc =
    Test_loop
  | Test_loop_buffer
  | Test_nonempty
  | Pop_entry
  | At_yield
  | Statements "pf_result option" "pf_statement list"
  | Main_done pf_result

record 'a prefetch =
  pf_run :: bool
  pf_stop :: bool
  pf_paused :: bool
  pf_buffer :: "'a pf_entry list"
  pf_size :: nat
  pf_source :: "'a list"
  pf_source_error :: py_error
  pf_source_done :: bool
  pf_worker :: "'a worker_pc"
  pf_main :: main_pc
  pf_given :: "'a list"
  pf_shut :: bool

definition prefetcher_init :: "int \<Rightarrow> nat res" where
  "prefetcher_init buffer_size = (if buffer_size \<le> 0 then Inl ValueError else Inr (nat buffer_size))"

text \<open>The state in which \<open>__iter__\<close> has started the thread. The source gives its items and then raises; a source that
  just ends raises \<open>StopIteration\<close>.\<close>

definition prefetch_start :: "'a list \<Rightarrow> py_error \<Rightarrow> nat \<Rightarrow> 'a prefetch" where
  "prefetch_start items e buffer_size =
     \<lparr>pf_run = True, pf_stop = False, pf_paused = False, pf_buffer = [], pf_size = buffer_size, pf_source = items,
      pf_source_error = e, pf_source_done = False, pf_worker = Outer_loop, pf_main = Test_loop, pf_given = [], pf_shut = False\<rparr>"

section \<open>The worker\<close>

text \<open>\<open>next\<close> of the source: an iterator that has raised is exhausted.\<close>

definition source_next :: "'a prefetch \<Rightarrow> 'a prefetch" where
  "source_next s =
     (if pf_source_done s then s\<lparr>pf_worker := Clear_run StopIteration\<rparr>
      else case pf_source s of
          [] \<Rightarrow> s\<lparr>pf_source_done := True, pf_worker := Clear_run (pf_source_error s)\<rparr>
        | x # xs \<Rightarrow> s\<lparr>pf_source := xs, pf_worker := Append_item x\<rparr>)"

definition worker_step :: "'a prefetch \<Rightarrow> 'a prefetch option" where
  "worker_step s =
     (case pf_worker s of
        Outer_loop \<Rightarrow> Some (s\<lparr>pf_worker := if pf_stop s then Worker_done else Inner_loop\<rparr>)
      | Inner_loop \<Rightarrow> Some (s\<lparr>pf_worker := if pf_run s then Check_room else Set_pausing\<rparr>)
      | Check_room \<Rightarrow> Some (s\<lparr>pf_worker := if length (pf_buffer s) < pf_size s then Next_item else Inner_loop\<rparr>)
      | Next_item \<Rightarrow> Some (source_next s)
      | Append_item x \<Rightarrow> Some (s\<lparr>pf_buffer := pf_buffer s @ [Fetched x], pf_worker := Inner_loop\<rparr>)
      | Clear_run e \<Rightarrow> Some (s\<lparr>pf_run := False, pf_worker := Set_stopped e\<rparr>)
      | Set_stopped e \<Rightarrow> Some (s\<lparr>pf_stop := True, pf_worker := Append_error e\<rparr>)
      | Append_error e \<Rightarrow> Some (s\<lparr>pf_buffer := pf_buffer s @ [Failure e], pf_worker := Inner_loop\<rparr>)
      | Set_pausing \<Rightarrow> Some (s\<lparr>pf_paused := True, pf_worker := Outer_loop\<rparr>)
      | Worker_done \<Rightarrow> None)"

section \<open>The generator and the methods\<close>

definition finally_statements :: "pf_statement list" where
  "finally_statements = [Set_run False, Set_stop True, Set_paused False, Join_worker]"

definition statement_step :: "'a prefetch \<Rightarrow> pf_result option \<Rightarrow> pf_statement \<Rightarrow> pf_statement list \<Rightarrow> 'a prefetch option" where
  "statement_step s r c cs =
     (case c of
        Set_run b \<Rightarrow> Some (s\<lparr>pf_run := b, pf_main := Statements r cs\<rparr>)
      | Set_stop b \<Rightarrow> Some (s\<lparr>pf_stop := b, pf_main := Statements r cs\<rparr>)
      | Set_paused b \<Rightarrow> Some (s\<lparr>pf_paused := b, pf_main := Statements r cs\<rparr>)
      | Return_unless_alive \<Rightarrow> Some (s\<lparr>pf_main := Statements r (if pf_worker s = Worker_done then [] else cs)\<rparr>)
      | Wait_paused \<Rightarrow> if pf_paused s then Some (s\<lparr>pf_main := Statements r cs\<rparr>) else None
      | Test_stop \<Rightarrow> Some (s\<lparr>pf_main := Statements r (if pf_stop s then Test_buffer # cs else cs)\<rparr>)
      | Test_buffer \<Rightarrow> Some (s\<lparr>pf_main := Statements r (if pf_buffer s = [] then [] else cs)\<rparr>)
      | Join_worker \<Rightarrow> if pf_worker s = Worker_done then Some (s\<lparr>pf_main := Statements r cs\<rparr>) else None)"

definition main_step :: "'a prefetch \<Rightarrow> 'a prefetch option" where
  "main_step s =
     (case pf_main s of
        Test_loop \<Rightarrow> Some (s\<lparr>pf_main := if pf_stop s then Test_loop_buffer else Test_nonempty\<rparr>)
      | Test_loop_buffer \<Rightarrow>
          Some (s\<lparr>pf_main := if pf_buffer s = [] then Statements (Some Exhausted) finally_statements else Test_nonempty\<rparr>)
      | Test_nonempty \<Rightarrow> Some (s\<lparr>pf_main := if pf_buffer s = [] then Test_loop else Pop_entry\<rparr>)
      | Pop_entry \<Rightarrow>
          (case pf_buffer s of
             [] \<Rightarrow> None
           | Fetched x # b \<Rightarrow> Some (s\<lparr>pf_buffer := b, pf_given := pf_given s @ [x], pf_main := At_yield\<rparr>)
           | Failure e # b \<Rightarrow>
               Some (s\<lparr>pf_buffer := b,
                       pf_main := Statements (Some (if e = StopIteration then Broke else Thrown e)) finally_statements\<rparr>))
      | At_yield \<Rightarrow> None
      | Statements r [] \<Rightarrow> Some (s\<lparr>pf_main := (case r of None \<Rightarrow> At_yield | Some x \<Rightarrow> Main_done x)\<rparr>)
      | Statements r (c # cs) \<Rightarrow> statement_step s r c cs
      | Main_done r \<Rightarrow> None)"

text \<open>What the user does while the generator is suspended. After \<open>shutdown\<close> the pipe has no thread and no data, and
  the methods do nothing.\<close>

datatype user_call = Ask_next | Close | Pause_call | Resume_call | Shutdown_call

definition pause_statements :: "pf_statement list" where
  "pause_statements = [Set_run False, Return_unless_alive, Wait_paused]"

definition resume_statements :: "pf_statement list" where
  "resume_statements = [Test_stop, Set_run True, Set_paused False]"

definition user_step :: "user_call \<Rightarrow> 'a prefetch \<Rightarrow> 'a prefetch" where
  "user_step c s =
     (case c of
        Ask_next \<Rightarrow> s\<lparr>pf_main := Test_loop\<rparr>
      | Close \<Rightarrow> s\<lparr>pf_main := Statements (Some Closed) finally_statements\<rparr>
      | Pause_call \<Rightarrow> if pf_shut s then s else s\<lparr>pf_main := Statements None pause_statements\<rparr>
      | Resume_call \<Rightarrow> if pf_shut s then s else s\<lparr>pf_main := Statements None resume_statements\<rparr>
      | Shutdown_call \<Rightarrow> if pf_shut s then s else s\<lparr>pf_shut := True, pf_main := Statements None finally_statements\<rparr>)"

inductive pf_step :: "'a prefetch \<Rightarrow> 'a prefetch \<Rightarrow> bool" where
  worker: "worker_step s = Some t \<Longrightarrow> pf_step s t"
| main: "main_step s = Some t \<Longrightarrow> pf_step s t"
| user: "pf_main s = At_yield \<Longrightarrow> pf_step s (user_step c s)"

inductive_simps pf_step_iff: "pf_step s t"

section \<open>Copying a pipe\<close>

text \<open>The state of a pipe for pickling is its source and its size; the copy has no thread. A pipe has no length: the
  class whose instances have one is not imported.\<close>

record 'p prefetcher =
  pr_source_datapipe :: 'p
  pr_buffer_size :: nat
  pr_thread :: bool

definition prefetcher_getstate :: "'p prefetcher \<Rightarrow> 'p \<times> nat" where
  "prefetcher_getstate p = (pr_source_datapipe p, pr_buffer_size p)"

definition prefetcher_setstate :: "'p \<times> nat \<Rightarrow> 'p prefetcher" where
  "prefetcher_setstate state = \<lparr>pr_source_datapipe = fst state, pr_buffer_size = snd state, pr_thread = False\<rparr>"

definition prefetcher_len :: "'p prefetcher \<Rightarrow> int res" where
  "prefetcher_len p = Inl NameError"

end
