(* ===== verification/PrefetchProps.thy ===== *)
theory PrefetchProps
  imports PrefetchPipe "HOL-Library.Sublist"
begin

text \<open>
  What the prefetching pipe delivers, for every interleaving of its two threads and the calls of its user: the items
  of the source in order and none twice, at most the size of the buffer ahead, all of them before it ends. An
  exception of the source is not always delivered, and joining the worker always returns.
\<close>

section \<open>The invariant\<close>

definition held_item :: "'a worker_pc \<Rightarrow> 'a list" where
  "held_item w = (case w of Append_item x \<Rightarrow> [x] | _ \<Rightarrow> [])"

definition held_error :: "'a worker_pc \<Rightarrow> py_error list" where
  "held_error w = (case w of Clear_run e \<Rightarrow> [e] | Set_stopped e \<Rightarrow> [e] | Append_error e \<Rightarrow> [e] | _ \<Rightarrow> [])"

definition result_error :: "pf_result \<Rightarrow> py_error list" where
  "result_error r = (case r of Thrown e \<Rightarrow> [e] | Broke \<Rightarrow> [StopIteration] | _ \<Rightarrow> [])"

definition final_result :: "main_pc \<Rightarrow> pf_result option" where
  "final_result m = (case m of Statements (Some r) cs \<Rightarrow> Some r | Main_done r \<Rightarrow> Some r | _ \<Rightarrow> None)"

definition popped_error :: "main_pc \<Rightarrow> py_error list" where
  "popped_error m = (case final_result m of Some r \<Rightarrow> result_error r | None \<Rightarrow> [])"

text \<open>The worker has found room in the buffer.\<close>

definition has_room :: "'a worker_pc \<Rightarrow> bool" where
  "has_room w \<longleftrightarrow> w = Next_item \<or> held_item w \<noteq> [] \<or> held_error w \<noteq> []"

definition flow_inv :: "'a list \<Rightarrow> py_error \<Rightarrow> 'a prefetch \<Rightarrow> bool" where
  "flow_inv items e s \<longleftrightarrow> pf_source_error s = e \<and>
     (\<exists>xs es. pf_buffer s = map Fetched xs @ map Failure es \<and>
        pf_given s @ xs @ held_item (pf_worker s) @ pf_source s = items \<and>
        (let errors = popped_error (pf_main s) @ es @ held_error (pf_worker s) in
         if pf_source_done s then errors \<noteq> [] \<and> hd errors = e \<and> pf_source s = [] \<and> held_item (pf_worker s) = []
         else errors = []))"

definition stop_inv :: "'a prefetch \<Rightarrow> bool" where
  "stop_inv s \<longleftrightarrow> (pf_stop s \<longrightarrow> pf_source_done s \<or> pf_shut s \<or> final_result (pf_main s) \<noteq> None) \<and>
     (pf_main s = Test_loop_buffer \<longrightarrow> pf_stop s) \<and> (pf_main s = Pop_entry \<longrightarrow> pf_buffer s \<noteq> [])"

definition room_inv :: "'a prefetch \<Rightarrow> bool" where
  "room_inv s \<longleftrightarrow> length (pf_buffer s) \<le> pf_size s \<and> (has_room (pf_worker s) \<longrightarrow> length (pf_buffer s) < pf_size s)"

definition result_inv :: "'a list \<Rightarrow> 'a prefetch \<Rightarrow> bool" where
  "result_inv items s \<longleftrightarrow>
     (case final_result (pf_main s) of
        Some Exhausted \<Rightarrow> pf_shut s \<or> pf_source_done s \<and> pf_given s = items
      | Some Broke \<Rightarrow> pf_source_done s \<and> pf_given s = items
      | Some (Thrown e) \<Rightarrow> pf_source_done s \<and> pf_given s = items \<and> e \<noteq> StopIteration
      | _ \<Rightarrow> True)"

lemmas pf_defs = held_item_def held_error_def result_error_def final_result_def popped_error_def has_room_def

lemma start_inv:
  "flow_inv items e (prefetch_start items e n)" "stop_inv (prefetch_start items e n)" "room_inv (prefetch_start items e n)"
  "result_inv items (prefetch_start items e n)"
  by (simp_all add: flow_inv_def stop_inv_def room_inv_def result_inv_def prefetch_start_def pf_defs)

lemma worker_keeps:
  assumes "worker_step s = Some t"
  shows "pf_main t = pf_main s" "pf_given t = pf_given s" "pf_shut t = pf_shut s" "pf_source_error t = pf_source_error s"
    "pf_source_done s \<Longrightarrow> pf_source_done t" "pf_size t = pf_size s"
  using assms by (auto simp: worker_step_def source_next_def split: worker_pc.splits list.splits if_splits)

lemma map_append_Failure: "map Failure es @ [Failure e] = map Failure (es @ [e])"
  by simp

lemma worker_flow:
  assumes inv: "flow_inv items e s" and step: "worker_step s = Some t"
  shows "flow_inv items e t"
proof -
  obtain xs es where b: "pf_buffer s = map Fetched xs @ map Failure es"
      "pf_given s @ xs @ held_item (pf_worker s) @ pf_source s = items"
    and err: "if pf_source_done s then popped_error (pf_main s) @ es @ held_error (pf_worker s) \<noteq> [] \<and>
        hd (popped_error (pf_main s) @ es @ held_error (pf_worker s)) = e \<and> pf_source s = [] \<and> held_item (pf_worker s) = []
      else popped_error (pf_main s) @ es @ held_error (pf_worker s) = []"
    and e: "pf_source_error s = e"
    using inv by (auto simp: flow_inv_def Let_def)
  note keep = worker_keeps [OF step]
  have "\<exists>xs es. pf_buffer t = map Fetched xs @ map Failure es \<and>
        pf_given t @ xs @ held_item (pf_worker t) @ pf_source t = items \<and>
        (let errors = popped_error (pf_main t) @ es @ held_error (pf_worker t) in
         if pf_source_done t then errors \<noteq> [] \<and> hd errors = e \<and> pf_source t = [] \<and> held_item (pf_worker t) = []
         else errors = [])"
  proof (cases "pf_worker s")
    case (Append_item x)
    then have "\<not> pf_source_done s" "es = []" using err by (auto simp: held_item_def split: if_splits)
    then show ?thesis using step Append_item b err keep
      by (intro exI [of _ "xs @ [x]"] exI [of _ "[]"]) (auto simp: worker_step_def held_item_def held_error_def)
  next
    case (Append_error d)
    then have "pf_source_done s" using err by (auto simp: held_error_def split: if_splits)
    then show ?thesis using step Append_error b err keep
      by (intro exI [of _ xs] exI [of _ "es @ [d]"]) (auto simp: worker_step_def held_item_def held_error_def hd_append)
  next
    case Next_item
    then have t: "t = source_next s" using step by (simp add: worker_step_def)
    show ?thesis unfolding t using Next_item b err e
      by (intro exI [of _ xs] exI [of _ es])
        (auto simp: source_next_def held_item_def held_error_def hd_append split: if_splits list.splits)
  qed (use step b err keep in \<open>intro exI [of _ xs] exI [of _ es];
      auto simp: worker_step_def held_item_def held_error_def split: if_splits\<close>)+
  then show ?thesis using keep(4) e by (simp add: flow_inv_def)
qed

lemma worker_room:
  assumes "room_inv s" and "worker_step s = Some t"
  shows "room_inv t"
  using assms by (auto simp: room_inv_def worker_step_def source_next_def pf_defs split: worker_pc.splits if_splits list.splits)

lemma worker_stop:
  assumes "stop_inv s" and "flow_inv items e s" and "worker_step s = Some t"
  shows "stop_inv t"
proof -
  have "pf_source_done s" if "pf_worker s = Set_stopped d" for d
    using assms(2) that by (auto simp: flow_inv_def Let_def held_error_def split: if_splits)
  then show ?thesis using assms(1,3)
    by (auto simp: stop_inv_def worker_step_def source_next_def split: worker_pc.splits if_splits list.splits)
qed

lemma worker_result:
  assumes "result_inv items s" and "worker_step s = Some t"
  shows "result_inv items t"
  using assms(1) worker_keeps [OF assms(2)]
  by (auto simp: result_inv_def split: option.splits pf_result.splits)

lemma main_keeps:
  assumes "main_step s = Some t"
  shows "pf_worker t = pf_worker s" "pf_source_done t = pf_source_done s" "pf_source t = pf_source s" "pf_source_error t = pf_source_error s"
    "pf_shut t = pf_shut s" "pf_size t = pf_size s"
  using assms by (auto simp: main_step_def statement_step_def split: main_pc.splits list.splits pf_entry.splits pf_statement.splits if_splits)

text \<open>Only popping changes the buffer and what the user has; everything else leaves a result that has been reached.\<close>

lemma main_cases:
  assumes "main_step s = Some t"
  obtains (pop_item) x b where "pf_main s = Pop_entry" "pf_buffer s = Fetched x # b"
      "t = s\<lparr>pf_buffer := b, pf_given := pf_given s @ [x], pf_main := At_yield\<rparr>"
    | (pop_error) d b where "pf_main s = Pop_entry" "pf_buffer s = Failure d # b"
      "t = s\<lparr>pf_buffer := b, pf_main := Statements (Some (if d = StopIteration then Broke else Thrown d)) finally_statements\<rparr>"
    | (exhausted) "pf_main s = Test_loop_buffer" "pf_buffer s = []" "t = s\<lparr>pf_main := Statements (Some Exhausted) finally_statements\<rparr>"
    | (other) "pf_buffer t = pf_buffer s" "pf_given t = pf_given s" "final_result (pf_main t) = final_result (pf_main s)"
      "pf_main t = Test_loop_buffer \<longrightarrow> pf_stop t" "pf_main t = Pop_entry \<longrightarrow> pf_buffer t \<noteq> []"
proof -
  consider "pf_main s = Pop_entry" | "pf_main s = Test_loop_buffer \<and> pf_buffer s = []"
    | "pf_main s \<noteq> Pop_entry" "\<not> (pf_main s = Test_loop_buffer \<and> pf_buffer s = [])" by blast
  then show thesis
  proof cases
    case 1
    then show ?thesis using assms pop_item pop_error
      by (cases "pf_buffer s") (auto simp: main_step_def split: pf_entry.splits)
  next
    case 2
    then show ?thesis using assms exhausted by (auto simp: main_step_def)
  next
    case 3
    then show ?thesis using assms
      by (intro other; auto simp: main_step_def statement_step_def final_result_def
          split: main_pc.splits list.splits pf_statement.splits if_splits option.splits)
  qed
qed

lemma main_flow:
  assumes inv: "flow_inv items e s" and step: "main_step s = Some t"
  shows "flow_inv items e t"
proof -
  obtain xs es where b: "pf_buffer s = map Fetched xs @ map Failure es"
      "pf_given s @ xs @ held_item (pf_worker s) @ pf_source s = items"
    and err: "if pf_source_done s then popped_error (pf_main s) @ es @ held_error (pf_worker s) \<noteq> [] \<and>
        hd (popped_error (pf_main s) @ es @ held_error (pf_worker s)) = e \<and> pf_source s = [] \<and> held_item (pf_worker s) = []
      else popped_error (pf_main s) @ es @ held_error (pf_worker s) = []"
    and e: "pf_source_error s = e"
    using inv by (auto simp: flow_inv_def Let_def)
  note keep = main_keeps [OF step]
  show ?thesis using step
  proof (cases rule: main_cases)
    case (pop_item x b')
    then obtain xs' where "xs = x # xs'" using b(1) by (cases xs; cases es) auto
    then show ?thesis using pop_item b err e unfolding flow_inv_def
      by (intro conjI exI [of _ xs'] exI [of _ es]) (auto simp: popped_error_def final_result_def)
  next
    case (pop_error d b')
    then have "xs = []" using b(1) by (cases xs) auto
    then obtain es' where "es = d # es'" using pop_error b(1) by (cases es) auto
    then show ?thesis using pop_error b err e \<open>xs = []\<close> unfolding flow_inv_def
      by (intro conjI exI [of _ "[]"] exI [of _ es'])
        (auto simp: popped_error_def final_result_def result_error_def split: if_splits)
  next
    case exhausted
    then show ?thesis using b err e unfolding flow_inv_def
      by (intro conjI exI [of _ xs] exI [of _ es])
        (auto simp: popped_error_def final_result_def result_error_def Let_def split: if_splits)
  next
    case other
    then have "popped_error (pf_main t) = popped_error (pf_main s)" by (simp add: popped_error_def)
    then show ?thesis using other b err e keep unfolding flow_inv_def by auto
  qed
qed

lemma main_room:
  assumes "room_inv s" and "main_step s = Some t"
  shows "room_inv t"
  using assms(2) by (rule main_cases) (use assms(1) main_keeps [OF assms(2)] in \<open>auto simp: room_inv_def\<close>)

text \<open>The statements that are left belong to one of the methods; those of \<open>finally\<close> and \<open>shutdown\<close> have stopped the worker
  when they come to joining it.\<close>

definition statements_inv :: "'a prefetch \<Rightarrow> bool" where
  "statements_inv s \<longleftrightarrow> (\<forall>r cs. pf_main s = Statements r cs \<longrightarrow>
     r = None \<and> cs \<in> {pause_statements, tl pause_statements, [Wait_paused], resume_statements,
       Test_buffer # tl resume_statements, tl resume_statements, [Set_paused False], []} \<or>
     (r \<noteq> None \<or> pf_shut s) \<and> cs \<in> {finally_statements, [Set_stop True, Set_paused False, Join_worker], [Set_paused False, Join_worker], [Join_worker], []} \<and>
       (cs \<noteq> finally_statements \<longrightarrow> \<not> pf_run s) \<and> (length cs \<le> 2 \<longrightarrow> pf_stop s))"

lemmas statement_defs = finally_statements_def pause_statements_def resume_statements_def

lemma worker_statements:
  assumes "statements_inv s" and "worker_step s = Some t"
  shows "statements_inv t"
proof -
  have "pf_run t \<Longrightarrow> pf_run s" "pf_stop s \<Longrightarrow> pf_stop t"
    using assms(2) by (auto simp: worker_step_def source_next_def split: worker_pc.splits if_splits list.splits)
  then show ?thesis using assms(1) worker_keeps [OF assms(2)] unfolding statements_inv_def by metis
qed

lemma statements_cases:
  assumes "statements_inv s" and "pf_main s = Statements r cs"
  obtains "r = None" "cs = pause_statements \<or> cs = tl pause_statements \<or> cs = [Wait_paused]"
    | "r = None" "cs = resume_statements \<or> cs = Test_buffer # tl resume_statements \<or> cs = tl resume_statements \<or> cs = [Set_paused False]"
    | "cs = []"
    | "r \<noteq> None \<or> pf_shut s" "cs = finally_statements"
    | "r \<noteq> None \<or> pf_shut s" "cs = [Set_stop True, Set_paused False, Join_worker]" "\<not> pf_run s"
    | "r \<noteq> None \<or> pf_shut s" "cs = [Set_paused False, Join_worker] \<or> cs = [Join_worker]" "\<not> pf_run s" "pf_stop s"
proof -
  have "r = None \<and> cs \<in> {pause_statements, tl pause_statements, [Wait_paused], resume_statements,
       Test_buffer # tl resume_statements, tl resume_statements, [Set_paused False], []} \<or>
     (r \<noteq> None \<or> pf_shut s) \<and> cs \<in> {finally_statements, [Set_stop True, Set_paused False, Join_worker], [Set_paused False, Join_worker], [Join_worker], []} \<and>
       (cs \<noteq> finally_statements \<longrightarrow> \<not> pf_run s) \<and> (length cs \<le> 2 \<longrightarrow> pf_stop s)"
    using assms by (simp add: statements_inv_def)
  then show thesis
    by (elim disjE conjE insertE emptyE) (use that in \<open>simp_all add: finally_statements_def\<close>)
qed

lemma main_statements:
  assumes "statements_inv s" and "main_step s = Some t"
  shows "statements_inv t"
proof (cases "\<exists>r cs. pf_main s = Statements r cs")
  case True
  then obtain r cs where m: "pf_main s = Statements r cs" by blast
  from assms(1) m show ?thesis
    by (cases rule: statements_cases)
      (use assms(2) m in \<open>auto simp: statements_inv_def statement_defs main_step_def statement_step_def split: if_splits option.splits\<close>)
next
  case False
  then show ?thesis using assms(2)
    by (auto simp: statements_inv_def statement_defs main_step_def split: main_pc.splits pf_entry.splits list.splits if_splits)
qed

lemma main_stop:
  assumes "stop_inv s" and "statements_inv s" and "main_step s = Some t"
  shows "stop_inv t"
proof (cases "\<exists>r cs. pf_main s = Statements r cs")
  case True
  then obtain r cs where m: "pf_main s = Statements r cs" by blast
  from assms(2) m show ?thesis
    by (cases rule: statements_cases)
      (use assms(1,3) m in \<open>auto simp: stop_inv_def statement_defs main_step_def statement_step_def final_result_def
        split: if_splits option.splits\<close>)
next
  case False
  then show ?thesis using assms(1,3)
    by (auto simp: stop_inv_def main_step_def final_result_def split: main_pc.splits pf_entry.splits list.splits if_splits)
qed

lemma main_result:
  assumes inv: "result_inv items s" "flow_inv items e s" "stop_inv s" and step: "main_step s = Some t"
  shows "result_inv items t"
  using step
proof (cases rule: main_cases)
  case (pop_error d b)
  obtain xs es where b: "pf_buffer s = map Fetched xs @ map Failure es"
      "pf_given s @ xs @ held_item (pf_worker s) @ pf_source s = items" 
      "pf_source_done s \<longrightarrow> pf_source s = [] \<and> held_item (pf_worker s) = []" "\<not> pf_source_done s \<longrightarrow> es = []"
    using inv(2) by (auto simp: flow_inv_def Let_def split: if_splits)
  then have "xs = []" using pop_error by (cases xs) auto
  moreover have "pf_source_done s" using b(1,4) \<open>xs = []\<close> pop_error by auto
  ultimately show ?thesis using b pop_error by (simp add: result_inv_def final_result_def)
next
  case exhausted
  obtain xs es where b: "pf_buffer s = map Fetched xs @ map Failure es"
      "pf_given s @ xs @ held_item (pf_worker s) @ pf_source s = items"
      "pf_source_done s \<longrightarrow> pf_source s = [] \<and> held_item (pf_worker s) = []"
    using inv(2) by (auto simp: flow_inv_def Let_def split: if_splits)
  moreover have "pf_source_done s \<or> pf_shut s" using inv(3) exhausted by (simp add: stop_inv_def final_result_def)
  ultimately show ?thesis using exhausted by (auto simp: result_inv_def final_result_def)
next
  case pop_item
  then show ?thesis by (simp add: result_inv_def final_result_def)
next
  case other
  then have "result_inv items t = result_inv items s" unfolding result_inv_def main_keeps(2,5) [OF step] by (simp only:)
  then show ?thesis using inv(1) by simp
qed

section \<open>Runs\<close>

definition prefetch_inv :: "'a list \<Rightarrow> py_error \<Rightarrow> 'a prefetch \<Rightarrow> bool" where
  "prefetch_inv items e s \<longleftrightarrow> flow_inv items e s \<and> stop_inv s \<and> room_inv s \<and> result_inv items s \<and> statements_inv s"

lemma user_fields:
  assumes "pf_main s = At_yield"
  shows "pf_buffer (user_step c s) = pf_buffer s" "pf_given (user_step c s) = pf_given s" "pf_worker (user_step c s) = pf_worker s"
    "pf_source (user_step c s) = pf_source s" "pf_source_done (user_step c s) = pf_source_done s" "pf_size (user_step c s) = pf_size s"
    "pf_source_error (user_step c s) = pf_source_error s" "pf_stop (user_step c s) = pf_stop s"
    "popped_error (pf_main (user_step c s)) = []" "pf_shut s \<longrightarrow> pf_shut (user_step c s)"
    "final_result (pf_main (user_step c s)) = None \<or> final_result (pf_main (user_step c s)) = Some Closed"
    "pf_main (user_step c s) \<noteq> Test_loop_buffer" "pf_main (user_step c s) \<noteq> Pop_entry"
  using assms by (cases c; simp add: user_step_def popped_error_def final_result_def result_error_def)+

lemma user_inv:
  assumes "prefetch_inv items e s" and "pf_main s = At_yield"
  shows "prefetch_inv items e (user_step c s)"
proof -
  note f = user_fields [OF assms(2), of c]
  have p: "popped_error (pf_main s) = []" "final_result (pf_main s) = None" using assms(2) by (simp_all add: popped_error_def final_result_def)
  have "flow_inv items e (user_step c s) = flow_inv items e s" unfolding flow_inv_def f p by (rule refl)
  then have "flow_inv items e (user_step c s)" using assms(1) by (simp add: prefetch_inv_def)
  moreover have "stop_inv (user_step c s)" using assms(1) f(10) by (auto simp: prefetch_inv_def stop_inv_def f p)
  moreover have "room_inv (user_step c s)" using assms(1) by (simp add: prefetch_inv_def room_inv_def f)
  moreover have "result_inv items (user_step c s)" using f(11) by (auto simp: result_inv_def)
  moreover have "statements_inv (user_step c s)" using assms(2) by (cases c) (auto simp: statements_inv_def user_step_def finally_statements_def)
  ultimately show ?thesis by (simp add: prefetch_inv_def)
qed

lemma worker_inv: "prefetch_inv items e s \<Longrightarrow> worker_step s = Some t \<Longrightarrow> prefetch_inv items e t"
  unfolding prefetch_inv_def by (blast intro: worker_flow worker_stop worker_room worker_result worker_statements)

lemma main_inv: "prefetch_inv items e s \<Longrightarrow> main_step s = Some t \<Longrightarrow> prefetch_inv items e t"
  unfolding prefetch_inv_def by (blast intro: main_flow main_stop main_room main_result main_statements)

lemma pf_step_inv: "prefetch_inv items e s \<Longrightarrow> pf_step s t \<Longrightarrow> prefetch_inv items e t"
  unfolding pf_step_iff by (blast intro: worker_inv main_inv user_inv)

lemma step_size: "pf_step s t \<Longrightarrow> pf_size t = pf_size s"
  unfolding pf_step_iff using worker_keeps(6) main_keeps(6) user_fields(6) by blast

lemma pf_reachable_inv:
  assumes "pf_step\<^sup>*\<^sup>* (prefetch_start items e n) s"
  shows "prefetch_inv items e s \<and> pf_size s = n"
  using assms
proof (induction rule: rtranclp_induct)
  case base
  have "statements_inv (prefetch_start items e n)" by (simp add: statements_inv_def prefetch_start_def)
  moreover have "pf_size (prefetch_start items e n) = n" by (simp add: prefetch_start_def)
  ultimately show ?case by (simp add: prefetch_inv_def start_inv)
next
  case (step s t)
  then show ?case using pf_step_inv step_size by metis
qed

section \<open>Properties\<close>

text \<open>C18. Whatever the interleaving of the threads and the calls of the user: the user has a prefix of the items of
  the source, in order and none twice, and at most the size of the buffer waits in it. When the generator ends without being
  closed, the user has all the items, unless the pipe was shut down; when it raises, it raises the exception of the
  source.\<close>

theorem prefetch_delivers:
  assumes "pf_step\<^sup>*\<^sup>* (prefetch_start items e n) s"
  shows "prefix (pf_given s) items \<and> length (pf_buffer s) \<le> n \<and>
    (pf_main s = Main_done Exhausted \<longrightarrow> pf_shut s \<or> pf_given s = items) \<and>
    (pf_main s = Main_done Broke \<longrightarrow> pf_given s = items \<and> e = StopIteration) \<and>
    (\<forall>d. pf_main s = Main_done (Thrown d) \<longrightarrow> pf_given s = items \<and> d = e \<and> d \<noteq> StopIteration)"
proof -
  have inv: "flow_inv items e s" "room_inv s" "result_inv items s" "pf_size s = n"
    using pf_reachable_inv [OF assms] by (simp_all add: prefetch_inv_def)
  have "hd (result_error r) = e" if "pf_main s = Main_done r" "result_error r \<noteq> []" "pf_source_done s" for r
    using inv(1) that by (auto simp: flow_inv_def popped_error_def final_result_def Let_def)
  then have "pf_source_done s \<longrightarrow> (pf_main s = Main_done Broke \<longrightarrow> e = StopIteration) \<and> (\<forall>d. pf_main s = Main_done (Thrown d) \<longrightarrow> d = e)"
    by (fastforce simp: result_error_def)
  moreover have "prefix (pf_given s) items" using inv(1) by (auto simp: flow_inv_def)
  ultimately show ?thesis using inv(2,3,4) by (auto simp: room_inv_def result_inv_def final_result_def)
qed

text \<open>How many steps the worker can make once it has been told to stop.\<close>

definition worker_left :: "'a worker_pc \<Rightarrow> nat" where
  "worker_left w =
     (case w of Check_room \<Rightarrow> 8 | Next_item \<Rightarrow> 7 | Clear_run e \<Rightarrow> 6 | Set_stopped e \<Rightarrow> 5 | Append_error e \<Rightarrow> 4 | Append_item x \<Rightarrow> 4
      | Inner_loop \<Rightarrow> 3 | Set_pausing \<Rightarrow> 2 | Outer_loop \<Rightarrow> 1 | Worker_done \<Rightarrow> 0)"

fun worker_run :: "nat \<Rightarrow> 'a prefetch \<Rightarrow> 'a prefetch" where
  "worker_run 0 s = s"
| "worker_run (Suc k) s = (case worker_step s of None \<Rightarrow> s | Some t \<Rightarrow> worker_run k t)"

lemma worker_stopping:
  assumes "worker_step s = Some t" and "\<not> pf_run s" and "pf_stop s"
  shows "worker_left (pf_worker t) < worker_left (pf_worker s) \<and> \<not> pf_run t \<and> pf_stop t"
  using assms by (auto simp: worker_step_def source_next_def worker_left_def split: worker_pc.splits if_splits list.splits)

lemma worker_run_done:
  "\<not> pf_run s \<Longrightarrow> pf_stop s \<Longrightarrow> worker_left (pf_worker s) \<le> k \<Longrightarrow>
    pf_worker (worker_run k s) = Worker_done \<and> pf_main (worker_run k s) = pf_main s \<and> pf_given (worker_run k s) = pf_given s \<and>
    pf_step\<^sup>*\<^sup>* s (worker_run k s)"
proof (induction k arbitrary: s)
  case 0
  then show ?case by (auto simp: worker_left_def split: worker_pc.splits)
next
  case (Suc k)
  show ?case
  proof (cases "worker_step s")
    case None
    then have "pf_worker s = Worker_done" by (simp add: worker_step_def split: worker_pc.splits)
    then show ?thesis using None by simp
  next
    case (Some t)
    then have "pf_step\<^sup>*\<^sup>* t (worker_run k t) \<and> pf_worker (worker_run k t) = Worker_done \<and> pf_main (worker_run k t) = pf_main t \<and>
        pf_given (worker_run k t) = pf_given t"
      using worker_stopping [OF Some Suc.prems(1,2)] Suc.prems(3) Suc.IH [of t] by simp
    moreover have "pf_step s t" using Some by (rule pf_step.worker)
    ultimately show ?thesis using Some worker_keeps [OF Some] by (auto intro: converse_rtranclp_into_rtranclp)
  qed
qed

text \<open>C19. Joining the worker returns: when \<open>finally\<close> or \<open>shutdown\<close> comes to it, at most eight more steps of the worker, which are all it
  can make, end its thread, whatever it was doing, and the user keeps what it has.\<close>

theorem prefetch_join_returns:
  assumes "pf_step\<^sup>*\<^sup>* (prefetch_start items e n) s" and "pf_main s = Statements r [Join_worker]"
  shows "(\<forall>t. pf_step s t \<longrightarrow> worker_step s = Some t \<or> pf_worker s = Worker_done) \<and>
    (\<exists>t. t = worker_run 8 s \<and> pf_step\<^sup>*\<^sup>* s t \<and> pf_worker t = Worker_done \<and> pf_given t = pf_given s \<and>
      main_step t = Some (t\<lparr>pf_main := Statements r []\<rparr>))"
proof -
  have "statements_inv s" using pf_reachable_inv [OF assms(1)] by (simp add: prefetch_inv_def)
  then have "\<not> pf_run s" "pf_stop s" using assms(2) by (auto simp: statements_inv_def statement_defs)
  moreover have "worker_left (pf_worker s) \<le> 8" by (simp add: worker_left_def split: worker_pc.splits)
  ultimately have "pf_worker (worker_run 8 s) = Worker_done \<and> pf_main (worker_run 8 s) = pf_main s \<and> pf_given (worker_run 8 s) = pf_given s \<and>
      pf_step\<^sup>*\<^sup>* s (worker_run 8 s)" by (rule worker_run_done)
  moreover have "worker_step s = Some t \<or> pf_worker s = Worker_done" if "pf_step s t" for t
    using that assms(2) by (auto simp: pf_step_iff main_step_def statement_step_def split: if_splits)
  ultimately show ?thesis using assms(2) by (auto simp: main_step_def statement_step_def)
qed

text \<open>An interleaving chosen step by step.\<close>

datatype turn = Turn_worker | Turn_main | Turn_user user_call

fun schedule :: "turn list \<Rightarrow> 'a prefetch \<Rightarrow> 'a prefetch option" where
  "schedule [] s = Some s"
| "schedule (Turn_worker # ts) s = (case worker_step s of None \<Rightarrow> None | Some t \<Rightarrow> schedule ts t)"
| "schedule (Turn_main # ts) s = (case main_step s of None \<Rightarrow> None | Some t \<Rightarrow> schedule ts t)"
| "schedule (Turn_user c # ts) s = (if pf_main s = At_yield then schedule ts (user_step c s) else None)"

lemma schedule_steps: "schedule ts s = Some t \<Longrightarrow> pf_step\<^sup>*\<^sup>* s t"
  by (induction ts s rule: schedule.induct)
    (auto split: option.splits if_splits intro: converse_rtranclp_into_rtranclp pf_step.intros)

text \<open>The states between two items when the threads take turns.\<close>

definition between_items :: "'a list \<Rightarrow> 'a list \<Rightarrow> py_error \<Rightarrow> nat \<Rightarrow> 'a prefetch" where
  "between_items given xs e n =
     \<lparr>pf_run = True, pf_stop = False, pf_paused = False, pf_buffer = [], pf_size = n, pf_source = xs,
      pf_source_error = e, pf_source_done = False, pf_worker = Check_room, pf_main = Test_loop, pf_given = given, pf_shut = False\<rparr>"

lemma deliver_all:
  assumes "0 < n"
  shows "pf_step\<^sup>*\<^sup>* (between_items given xs e n) (between_items (given @ xs) [] e n)"
proof (induction xs arbitrary: given)
  case (Cons x xs)
  have "schedule [Turn_worker, Turn_worker, Turn_worker, Turn_worker, Turn_main, Turn_main, Turn_main, Turn_user Ask_next]
      (between_items given (x # xs) e n) = Some (between_items (given @ [x]) xs e n)"
    using assms by (simp add: between_items_def worker_step_def main_step_def source_next_def user_step_def)
  from rtranclp_trans [OF schedule_steps [OF this] Cons [of "given @ [x]"]] show ?case by simp
qed simp

lemma reach_between:
  assumes "0 < n"
  shows "pf_step\<^sup>*\<^sup>* (prefetch_start items e n) (between_items items [] e n)"
proof -
  have "schedule [Turn_worker, Turn_worker] (prefetch_start items e n) = Some (between_items [] items e n)"
    by (simp add: between_items_def prefetch_start_def worker_step_def)
  from rtranclp_trans [OF schedule_steps [OF this] deliver_all [OF assms, of "[]" items e]] show ?thesis by simp
qed

text \<open>C20. Whether an exception of the source reaches the user is a race. In some interleaving the generator raises it; in
  another one the worker has set \<open>stop_iteration\<close> but has not yet appended the exception when the generator looks at
  the empty buffer, and the generator ends as if the source had ended well.\<close>

theorem prefetch_error_race:
  assumes "0 < n" and "e \<noteq> StopIteration"
  shows "(\<exists>s. pf_step\<^sup>*\<^sup>* (prefetch_start items e n) s \<and> pf_main s = Main_done (Thrown e) \<and> pf_given s = items) \<and>
    (\<exists>s. pf_step\<^sup>*\<^sup>* (prefetch_start items e n) s \<and> pf_main s = Main_done Exhausted \<and> \<not> pf_shut s \<and> pf_given s = items)"
proof -
  let ?late = "[Turn_worker, Turn_worker, Turn_worker, Turn_worker, Turn_main, Turn_main, Turn_main, Turn_main, Turn_main,
      Turn_worker, Turn_worker, Turn_worker, Turn_worker, Turn_main, Turn_main]"
  let ?soon = "[Turn_worker, Turn_worker, Turn_worker, Turn_worker, Turn_worker, Turn_main, Turn_main, Turn_main, Turn_main,
      Turn_main, Turn_main, Turn_main, Turn_worker, Turn_worker, Turn_worker, Turn_main, Turn_main]"
  have run: "pf_step\<^sup>*\<^sup>* (prefetch_start items e n) s" if "schedule ts (between_items items [] e n) = Some s" for ts s
    using reach_between [OF assms(1)] schedule_steps [OF that] by (rule rtranclp_trans)
  have "\<exists>s. schedule ?soon (between_items items [] e n) = Some s \<and> pf_main s = Main_done (Thrown e) \<and> pf_given s = items"
    using assms by (simp add: between_items_def worker_step_def main_step_def source_next_def finally_statements_def statement_step_def)
  then obtain s where s: "schedule ?soon (between_items items [] e n) = Some s" "pf_main s = Main_done (Thrown e)" "pf_given s = items"
    by (elim exE conjE)
  have "\<exists>s. schedule ?late (between_items items [] e n) = Some s \<and> pf_main s = Main_done Exhausted \<and> \<not> pf_shut s \<and> pf_given s = items"
    using assms(1) by (simp add: between_items_def worker_step_def main_step_def source_next_def finally_statements_def statement_step_def)
  then obtain t where t: "schedule ?late (between_items items [] e n) = Some t" "pf_main t = Main_done Exhausted" "\<not> pf_shut t" "pf_given t = items"
    by (elim exE conjE)
  show ?thesis
    by (intro conjI exI [of _ s] exI [of _ t] run [OF s(1)] run [OF t(1)] s(2,3) t(2-4))
qed

text \<open>C21. \<open>pause\<close> can wait for ever. When the source ends while \<open>resume\<close> is between its two assignments, \<open>resume\<close> resets
  \<open>paused\<close> after the worker has set it for the last time; a \<open>pause\<close> that still finds the thread alive then waits
  for a flag nobody sets: no step of any thread is left.\<close>

theorem prefetch_pause_hangs:
  assumes "0 < n"
  shows "\<exists>s. pf_step\<^sup>*\<^sup>* (prefetch_start [x] e n) s \<and> pf_main s = Statements None [Wait_paused] \<and> (\<forall>t. \<not> pf_step s t)"
proof -
  let ?pause = "[Turn_worker, Turn_worker, Turn_worker, Turn_worker, Turn_worker, Turn_main, Turn_main, Turn_main,
      Turn_user Pause_call, Turn_main, Turn_main, Turn_worker, Turn_worker, Turn_main, Turn_main]"
  let ?again = "[Turn_user Resume_call, Turn_main, Turn_main, Turn_worker, Turn_worker, Turn_worker, Turn_worker, Turn_worker,
      Turn_worker, Turn_worker, Turn_worker, Turn_worker, Turn_main, Turn_main, Turn_user Pause_call, Turn_main, Turn_main, Turn_worker]"
  let ?resumed = "(prefetch_start [x] e n)\<lparr>pf_run := False, pf_paused := True, pf_source := [], pf_main := At_yield, pf_given := [x]\<rparr>"
  have "schedule ?pause (prefetch_start [x] e n) = Some ?resumed"
    using assms by (simp add: prefetch_start_def worker_step_def main_step_def source_next_def user_step_def pause_statements_def statement_step_def)
  moreover have "\<exists>s. schedule ?again ?resumed = Some s \<and> pf_main s = Statements None [Wait_paused] \<and> pf_worker s = Worker_done \<and> \<not> pf_paused s"
    using assms by (simp add: prefetch_start_def worker_step_def main_step_def source_next_def user_step_def statement_defs statement_step_def)
  then obtain s where s: "schedule ?again ?resumed = Some s" "pf_main s = Statements None [Wait_paused]" "pf_worker s = Worker_done" "\<not> pf_paused s"
    by (elim exE conjE)
  ultimately have "pf_step\<^sup>*\<^sup>* (prefetch_start [x] e n) s" using schedule_steps by (meson rtranclp_trans)
  moreover have "\<not> pf_step s t" for t using s(2-4) by (simp add: pf_step_iff worker_step_def main_step_def statement_step_def)
  ultimately show ?thesis using s(2) by blast
qed

text \<open>A pipe that is copied keeps its source and its size and has no thread.\<close>

lemma prefetcher_copy: "prefetcher_setstate (prefetcher_getstate p) = p\<lparr>pr_thread := False\<rparr>"
  by (simp add: prefetcher_setstate_def prefetcher_getstate_def)

section \<open>Two items and a failure\<close>

definition example_prefetch :: "int prefetch" where
  "example_prefetch = the (schedule [Turn_worker, Turn_worker, Turn_worker, Turn_worker, Turn_worker, Turn_main, Turn_main, Turn_main,
      Turn_user Shutdown_call, Turn_main, Turn_main, Turn_main] (prefetch_start [10, 20] ValueError 1))"

lemma example_prefetch_run:
  "schedule [Turn_worker, Turn_worker, Turn_worker, Turn_worker, Turn_worker, Turn_main, Turn_main, Turn_main,
      Turn_user Shutdown_call, Turn_main, Turn_main, Turn_main] (prefetch_start [10, 20] ValueError 1) = Some example_prefetch"
  "pf_main example_prefetch = Statements None [Join_worker]" "pf_given example_prefetch = [10]" "pf_buffer example_prefetch = []"
  by (simp_all add: example_prefetch_def prefetch_start_def worker_step_def main_step_def source_next_def user_step_def
      finally_statements_def statement_step_def)

theorem prefetch_delivers_witness:
  "prefix (pf_given example_prefetch) [10, 20] \<and> length (pf_buffer example_prefetch) \<le> 1 \<and>
    pf_main example_prefetch = Statements None [Join_worker]"
  using prefetch_delivers [OF schedule_steps [OF example_prefetch_run(1)]] example_prefetch_run(2) by simp

theorem prefetch_join_returns_witness:
  "pf_worker (worker_run 8 example_prefetch) = Worker_done \<and> pf_given (worker_run 8 example_prefetch) = [10]"
  using prefetch_join_returns [OF schedule_steps [OF example_prefetch_run(1)] example_prefetch_run(2)] example_prefetch_run(3) by simp

theorem prefetch_error_race_witness:
  "(\<exists>s. pf_step\<^sup>*\<^sup>* (prefetch_start [10, 20 :: int] ValueError 1) s \<and> pf_main s = Main_done (Thrown ValueError) \<and> pf_given s = [10, 20]) \<and>
    (\<exists>s. pf_step\<^sup>*\<^sup>* (prefetch_start [10, 20 :: int] ValueError 1) s \<and> pf_main s = Main_done Exhausted \<and> \<not> pf_shut s \<and> pf_given s = [10, 20])"
  by (rule prefetch_error_race) simp_all

theorem prefetch_pause_hangs_witness:
  "\<exists>s. pf_step\<^sup>*\<^sup>* (prefetch_start [10 :: int] StopIteration 10) s \<and> pf_main s = Statements None [Wait_paused] \<and> (\<forall>t. \<not> pf_step s t)"
  by (rule prefetch_pause_hangs) simp

end
