(* ===== verification/Spec2Isabelle.thy ===== *)
theory Spec2Isabelle
  imports Prelude ItemSplit HeteroName IdMap PartitionPolicy Rpc KVClientPush Barrier SplitProps ItemSet Relabel ContainerProps DistTensorProps DatasetProps FeatTables GbSubgraphProps GbCooperativeProps ItemSamplerProps PrefetchProps
begin

text \<open>
  A model of DGL's distributed training library, \<^verbatim>\<open>python/dgl/distributed\<close>, and of the item sets and
  samplers of GraphBolt that feed it, with the theorems that make it correct.

  A distributed graph is cut into partitions, one per machine. Every process holds a partition book that
  translates between homogeneous IDs, per-type IDs, partitions and local offsets. The rows of node and
  edge data live in a key-value store: each machine runs a main server and backup servers that share one
  memory, and clients pull and push rows by global ID. Clients talk to servers by RPC messages with
  sequence numbers; they register a role with server 0, get a rank in it, and synchronise in barriers of
  their role. Each trainer takes its share of the training nodes and feeds it, worker by worker, to the
  sampler.

  \<^bold>\<open>The theories, bottom up, and the code they model.\<close>
  \<^item> \<^theory_text>\<open>Prelude\<close>: exceptions as values (\<open>'a res\<close>), Python integers, lists, slices and dictionaries,
    and the lemmas on lists all theories share. \<^theory_text>\<open>PyStr\<close>: the string methods. \<^theory_text>\<open>NdArray\<close> and
    \<^theory_text>\<open>PyRange\<close>: arrays as lists of rows, \<open>range\<close>, \<open>slice.indices\<close>, and the documented laws of the numpy
    and torch functions the code calls (\<open>numpy_laws\<close>), which are parameters; \<open>numpy_ref\<close> satisfies them.
  \<^item> \<^theory_text>\<open>ItemSplit\<close>: \<open>count_split\<close> and \<open>calculate_range\<close> of \<^verbatim>\<open>graphbolt/internal/item_sampler_utils.py\<close>. The shares
    of the workers of all replicas tile the items. \<^theory_text>\<open>ItemSet\<close>: \<^verbatim>\<open>graphbolt/itemset.py\<close>; a \<open>HeteroItemSet\<close> behaves
    like the concatenation of its parts (\<open>flat_items\<close>) for positions, slices and tensors of positions.
    \<^theory_text>\<open>ItemSampler\<close>, \<^theory_text>\<open>ItemSamplerProps\<close>: \<open>ItemSampler\<close> and \<open>DistributedItemSampler\<close> of \<^verbatim>\<open>graphbolt/item_sampler.py\<close>. The
    generator is a state (\<open>gen\<close>) moved by \<open>sampler_next\<close>; \<open>consume\<close> runs it with fuel, and more fuel than items is
    enough. It cuts one list of positions into chunks, and the workers of all replicas cover the item set; the
    locale \<open>batch_source\<close> is what a sampler asks of an item set, and both classes provide it.
    \<^theory_text>\<open>PrefetchPipe\<close>, \<^theory_text>\<open>PrefetchProps\<close>: the pipe of \<^verbatim>\<open>graphbolt/datapipes/utils.py\<close> that fetches items in a thread. Every
    access to a shared attribute is a step of \<open>pf_step\<close>; the invariant \<open>prefetch_inv\<close> follows the items from the
    source to the user, and two chosen interleavings (\<open>schedule\<close>) lose an exception and block a \<open>pause\<close>.
  \<^item> \<^theory_text>\<open>HeteroName\<close>: \<open>HeteroDataName\<close> and the policy strings. \<^theory_text>\<open>IdMap\<close>: \<^verbatim>\<open>id_map.py\<close> with the kernel \<open>MapIds\<close> of
    \<^verbatim>\<open>src/graph/graph_op.cc\<close>. \<^theory_text>\<open>PartitionBook\<close>, \<^theory_text>\<open>PartitionLookup\<close>, \<^theory_text>\<open>PartitionProps\<close>: \<open>RangePartitionBook\<close> of
    \<^verbatim>\<open>graph_partition_book.py\<close>. The abstract view of an ID is its type, its partition and its position; the
    locale \<open>typed_ids\<close> states what the node methods and the edge methods promise of it, is interpreted for
    both, and carries the round trips. \<^theory_text>\<open>PartitionPolicy\<close>: \<open>PartitionPolicy\<close> and its subclasses.
  \<^item> \<^theory_text>\<open>Rpc\<close>: the messages, the service registry, sending and collecting of \<^verbatim>\<open>rpc.py\<close> and the server loop's
    answer of \<^verbatim>\<open>rpc_server.py\<close>. The network is a function from the messages sent to those received, in any order.
  \<^item> \<^theory_text>\<open>KVServer\<close>, \<^theory_text>\<open>KVServerProps\<close>: \<open>KVServer\<close> and every request class of \<^verbatim>\<open>kvstore.py\<close>, over the shared memory of
    a machine as numbered cells with names; \<open>kv_inv\<close> is the invariant of its tables. \<^theory_text>\<open>KVMessage\<close>: the request and
    response classes, their states and registration. \<^theory_text>\<open>KVClient\<close>: every method of \<open>KVClient\<close>.
    \<^theory_text>\<open>KVClientProps\<close>, \<^theory_text>\<open>KVClientPush\<close>: the store is one array, \<open>row c\<close>: the locale \<open>row_servers\<close> states what the
    servers hold, pull reads the array and push refines its update.
  \<^item> \<^theory_text>\<open>Roles\<close>: \<^verbatim>\<open>role.py\<close>; the ranks do not depend on the order in which the sets are iterated. \<^theory_text>\<open>Barrier\<close>: the
    barriers of the clients as a step relation over \<open>BarrierRequest.process_request\<close>, with its invariant
    \<open>barrier_inv\<close>, safety, progress and termination.
  \<^item> \<^theory_text>\<open>DistSplit\<close>, \<^theory_text>\<open>SplitProps\<close>: \<open>node_split\<close> and \<open>edge_split\<close> of \<^verbatim>\<open>dist_graph.py\<close> with their helpers, over the
    partition book and the ranks of \<^theory_text>\<open>Roles\<close>; the trainers of a job share out the selected elements.
  \<^item> \<^theory_text>\<open>Backend\<close>: devices, the two integer types with their promotion, and row operations of
    \<^verbatim>\<open>backend/pytorch/tensor.py\<close>. \<^theory_text>\<open>LazyValue\<close>: the contract of an object that caches the forms of a value.
    \<^theory_text>\<open>IndexObj\<close>, \<^theory_text>\<open>IndexProps\<close>, \<^theory_text>\<open>Relabel\<close>: the class \<open>Index\<close> of \<^verbatim>\<open>utils/internal.py\<close>, whose cached forms never
    disagree (\<open>ix_repr\<close>), and the functions that renumber identifiers. \<^theory_text>\<open>Containers\<close>, \<^theory_text>\<open>ContainerProps\<close>: the
    read-only dictionaries, caches, groups and nested containers of the same file.
  \<^item> \<^theory_text>\<open>StandaloneStore\<close>: \<^verbatim>\<open>standalone_kvstore.py\<close>, and the contract \<open>kv_object\<close> of a store that holds tensors by
    name. \<^theory_text>\<open>DistTensor\<close>, \<^theory_text>\<open>DistTensorProps\<close>: \<^verbatim>\<open>dist_tensor.py\<close> over that contract: the life of a tensor, its rows
    and the names of anonymous tensors.
  \<^item> \<^theory_text>\<open>TensorDataset\<close>: \<open>TensorizedDataset\<close> and \<open>DDPTensorizedDataset\<close> of \<^verbatim>\<open>dataloading/dataloader.py\<close>, which cut
    the training identifiers into batches for workers and processes. \<^theory_text>\<open>DatasetBatch\<close>: batches of typed
    identifiers become dictionaries. \<^theory_text>\<open>DatasetEpoch\<close>: an epoch, alone and with workers. \<^theory_text>\<open>DatasetShare\<close>,
    \<^theory_text>\<open>DatasetProps\<close>: shares of the processes, coverage, and where uninitialised memory is read.
  \<^item> \<^theory_text>\<open>FeatColumn\<close>: \<open>_LazyIndex\<close> and \<open>Column\<close> of \<^verbatim>\<open>frame.py\<close>; \<^theory_text>\<open>FeatColumnProps\<close>: what a column stands for
    (\<open>column_content\<close>), which its deferred indexing, moving and converting never change; it is another instance of
    the contract of \<^theory_text>\<open>LazyValue\<close>. \<^theory_text>\<open>FeatFrame\<close>: \<open>LazyFeature\<close> and \<open>Frame\<close>, with the initialisers that frames share.
    \<^theory_text>\<open>FeatLength\<close>, \<^theory_text>\<open>FeatFrameProps\<close>: every operation keeps the columns at the number of rows of the frame
    (\<open>frame_sized\<close>); \<^theory_text>\<open>FeatTables\<close>: a frame as a table, its sub-frames and appended frames.
  \<^item> \<^theory_text>\<open>GbBase\<close>: \<^verbatim>\<open>graphbolt/base.py\<close>: edge type names, the CPU form of the operators in C++ that the samplers
    call, matrices in CSC format, and the pipe that buffers items. \<^theory_text>\<open>GbCompact\<close>, \<^theory_text>\<open>GbCompactProps\<close>:
    \<^verbatim>\<open>internal/sample_utils.py\<close> with the identifier map of \<^verbatim>\<open>concurrent_id_hash_map.cc\<close>; the numbers given to
    nodes look the nodes up again (\<open>numbers\<close>). \<^theory_text>\<open>GbSubgraph\<close>, \<^theory_text>\<open>GbSubgraphProps\<close>: \<^verbatim>\<open>sampled_subgraph.py\<close> and
    \<^verbatim>\<open>external_utils.py\<close>; a matrix stands for its list of edges by original identifiers (\<open>edges_of\<close>), of which
    the exclusion of edges is a filter. \<^theory_text>\<open>GbSeeds\<close>, \<^theory_text>\<open>GbSeedsProps\<close>: negative samples and the preprocessing of
    seeds of \<^verbatim>\<open>subgraph_sampler.py\<close>; a column of seeds is a slot (\<open>slots\<close>) that is collected by type and comes
    back as numbers. \<^theory_text>\<open>GbCooperative\<close>, \<^theory_text>\<open>GbCooperativeProps\<close>: processes that share their seeds out by owner; a
    stage maps what all ranks have to what all ranks get, and sending back what has come is the identity.

  \<^bold>\<open>How code is read.\<close> A function that may raise returns \<open>Inl\<close> of the exception. A class is a record, a method a
  function of the record that returns it changed. A dictionary is an association list in insertion order. A loop
  is a fold, with early exit where the code has it (\<open>rfold\<close>), or a recursive function. The wait for a message may
  not end: \<open>recv_loop\<close> returns \<open>None\<close> then, and the properties show that it returns.

  \<^bold>\<open>Parameters.\<close> The numpy and torch functions with their laws; \<open>pickle\<close> as a pair of inverse functions; the random
  choice of a server of a machine and the seeded permutation; the order in which messages arrive; the handlers,
  initialisers and nonzero test of the user (\<open>udfs\<close>); the random numbers of negative sampling and of the owners of nodes; the
  permutations and seeds of the item samplers and the function that makes their batches; the contents of uninitialised memory; what other clients do while a client waits in a barrier; the
  contents of the configuration file. Python's integers are unbounded; the int64 range of the tensors is not modelled.

  \<^bold>\<open>Not modelled.\<close> The C++ transport and its time-outs, connection set-up and process start (\<^verbatim>\<open>rpc_client.py\<close>,
  \<^verbatim>\<open>dist_context.py\<close>, the first part of \<open>start_server\<close>), since they are operating-system effects; pinned memory as
  such, of which only the test and the copy of its rows are used; partitioning itself (\<^verbatim>\<open>partition.py\<close>, Metis), the sampling services
  (\<^verbatim>\<open>graph_services.py\<close>) and \<open>DistGraph\<close> apart from the splits; the default function that turns items into a \<open>MiniBatch\<close>; the graph classes, whose structure
  lives in C++, and the neural network layers of the single-machine library.
\<close>

end
